(* ===== verification/DfPrelude.thy ===== *)
theory DfPrelude
  imports Main "HOL-Library.Word"
begin

text \<open>
  Vocabulary shared by every component of the dragonfly-mle model: bytes and the multi-byte
  integers of the wire formats, C strings and the libc functions the sources call on them,
  and the fact collections the component proofs use.
\<close>

unbundle bit_operations_syntax

named_theorems wire_simps \<open>big- and little-endian layouts of integers\<close>
named_theorems cstr_simps \<open>C string functions on HOL strings\<close>
named_theorems handler_defs \<open>definitions of the operations, unfolded by the component proofs\<close>

section \<open>Bytes and multi-byte integers\<close>

type_synonym byte = "8 word"
type_synonym u32 = "32 word"
type_synonym u64 = "64 word"

text \<open>\<open>be_bytes k x\<close>: the \<open>k\<close> low bytes of \<open>x\<close>, most significant byte first.\<close>

primrec be_bytes :: "nat \<Rightarrow> nat \<Rightarrow> byte list" where
  "be_bytes 0 x = []"
| "be_bytes (Suc k) x = be_bytes k (x div 256) @ [of_nat x]"

definition be_nat :: "byte list \<Rightarrow> nat" where
  "be_nat bs = foldl (\<lambda>a b. a * 256 + unat b) 0 bs"

lemma length_be_bytes [simp, wire_simps]: "length (be_bytes k x) = k"
  by (induction k arbitrary: x) auto

lemma be_bytes_expand [wire_simps]:
  "be_bytes 1 x = [of_nat x]"
  "be_bytes 2 x = [of_nat (x div 256), of_nat x]"
  "be_bytes 4 x = [of_nat (x div 256 div 256 div 256), of_nat (x div 256 div 256),
     of_nat (x div 256), of_nat x]"
  "be_bytes 8 x = [of_nat (x div 256 div 256 div 256 div 256 div 256 div 256 div 256),
     of_nat (x div 256 div 256 div 256 div 256 div 256 div 256),
     of_nat (x div 256 div 256 div 256 div 256 div 256),
     of_nat (x div 256 div 256 div 256 div 256),
     of_nat (x div 256 div 256 div 256), of_nat (x div 256 div 256), of_nat (x div 256), of_nat x]"
proof -
  have k: "(1::nat) = Suc 0" "(2::nat) = Suc (Suc 0)" "(4::nat) = Suc (Suc (Suc (Suc 0)))"
    "(8::nat) = Suc (Suc (Suc (Suc (Suc (Suc (Suc (Suc 0)))))))" by simp_all
  note s = be_bytes.simps append_Nil append_Cons
  show "be_bytes 1 x = [of_nat x]" by (simp only: k(1) s)
  show "be_bytes 2 x = [of_nat (x div 256), of_nat x]" by (simp only: k(2) s)
  show "be_bytes 4 x = [of_nat (x div 256 div 256 div 256), of_nat (x div 256 div 256),
     of_nat (x div 256), of_nat x]" by (simp only: k(3) s)
  show "be_bytes 8 x = [of_nat (x div 256 div 256 div 256 div 256 div 256 div 256 div 256),
     of_nat (x div 256 div 256 div 256 div 256 div 256 div 256),
     of_nat (x div 256 div 256 div 256 div 256 div 256),
     of_nat (x div 256 div 256 div 256 div 256),
     of_nat (x div 256 div 256 div 256), of_nat (x div 256 div 256), of_nat (x div 256), of_nat x]"
    by (simp only: k(4) s)
qed

lemma be_nat_Nil [simp]: "be_nat [] = 0"
  by (simp add: be_nat_def)

lemma be_nat_snoc [simp]: "be_nat (bs @ [b]) = be_nat bs * 256 + unat b"
  by (simp add: be_nat_def)

lemma unat_byte_less: "unat (b :: byte) < 256"
  using unsigned_less [of b, where 'a = nat] by simp

lemma unat_of_nat_byte: "unat (of_nat x :: byte) = x mod 256"
  by (simp add: unat_of_nat)

lemma be_nat_be_bytes [wire_simps]: "be_nat (be_bytes k x) = x mod 256 ^ k"
proof (induction k arbitrary: x)
  case 0
  then show ?case by simp
next
  case (Suc k)
  have "(x div 256) mod 256 ^ k * 256 + x mod 256 = x mod (256 * 256 ^ k)"
    by (simp add: mod_mult2_eq mult.commute)
  with Suc show ?case by (simp add: unat_of_nat_byte)
qed

lemma be_nat_less: "be_nat bs < 256 ^ length bs"
proof (induction bs rule: rev_induct)
  case Nil
  then show ?case by simp
next
  case (snoc b bs)
  have "unat b < 256" by (rule unat_byte_less)
  with snoc show ?case by simp
qed

lemma be_bytes_be_nat: "be_bytes (length bs) (be_nat bs) = bs"
proof (induction bs rule: rev_induct)
  case Nil
  then show ?case by simp
next
  case (snoc b bs)
  have b: "unat b < 256" by (rule unat_byte_less)
  then have "(be_nat bs * 256 + unat b) div 256 = be_nat bs" by simp
  moreover have "(of_nat (be_nat bs * 256 + unat b) :: byte) = b"
    by (rule word_unat_eq_iff [THEN iffD2]) (use b in \<open>simp add: unat_of_nat_byte del: of_nat_add\<close>)
  ultimately show ?case using snoc by simp
qed

text \<open>The same integer in host (little-endian) order, as \<open>writev\<close> of an \<open>int\<close> sends it.\<close>

definition le_bytes :: "nat \<Rightarrow> nat \<Rightarrow> byte list" where
  "le_bytes k x = rev (be_bytes k x)"

definition le_nat :: "byte list \<Rightarrow> nat" where
  "le_nat bs = be_nat (rev bs)"

lemma length_le_bytes [simp, wire_simps]: "length (le_bytes k x) = k"
  by (simp add: le_bytes_def)

lemma le_nat_le_bytes [wire_simps]: "le_nat (le_bytes k x) = x mod 256 ^ k"
  by (simp add: le_bytes_def le_nat_def be_nat_be_bytes)

text \<open>
  The C sources take an integer apart with \<open>(n & (0xff << k)) >> k\<close> and put it together with
  shifts and \<open>|\<close>. Both are the arithmetic above.
\<close>

lemma byte_at [wire_simps]:
  fixes n :: u64
  shows "(ucast (drop_bit k (n AND push_bit k 255)) :: byte) = of_nat (unat n div 2 ^ k)"
proof (rule bit_eqI)
  fix i
  assume "possible_bit TYPE(byte) i"
  then have i: "i < 8" by simp
  have m255: "bit (255 :: u64) i" 
  proof -
    have "(255 :: u64) = mask 8" by (simp add: mask_eq_exp_minus_1)
    moreover have "bit (mask 8 :: u64) i" using i by (simp add: bit_mask_iff)
    ultimately show ?thesis by (simp only:)
  qed
  have "bit (of_nat (unat n div 2 ^ k) :: byte) i = bit (unat n) (k + i)"
    using i by (simp add: bit_of_nat_iff possible_bit_word bit_drop_bit_eq flip: drop_bit_eq_div)
  moreover have "bit (unat n) (k + i) = bit n (k + i)"
    by (simp add: bit_unsigned_iff)
  ultimately show "bit (ucast (drop_bit k (n AND push_bit k 255)) :: byte) i
      = bit (of_nat (unat n div 2 ^ k) :: byte) i"
    using i m255 by (auto simp: bit_ucast_iff bit_drop_bit_eq bit_and_iff bit_push_bit_iff
        dest: bit_imp_le_length)
qed

lemma unat_shift_or:
  fixes a :: "'a::len word"
  assumes a: "unat a * 256 < 2 ^ LENGTH('a)" and len: "8 \<le> LENGTH('a)"
  shows "unat (push_bit 8 a OR ucast (b :: byte)) = unat a * 256 + unat b"
proof -
  have z: "push_bit 8 a AND ucast b = (0 :: 'a word)"
  proof (rule bit_eqI)
    fix i
    show "bit (push_bit 8 a AND (ucast b :: 'a word)) i = bit (0 :: 'a word) i"
      using bit_imp_le_length [of b i] by (auto simp: bit_and_iff bit_push_bit_iff bit_ucast_iff)
  qed
  have "push_bit 8 a OR ucast b = push_bit 8 a + (ucast b :: 'a word)"
    using z by (simp add: disjunctive_add_eq_or)
  moreover have pa: "unat (push_bit 8 a) = unat a * 256"
    using a by (simp add: unsigned_push_bit_eq) (simp add: push_bit_eq_mult take_bit_eq_mod)
  moreover have p: "(256::nat) \<le> 2 ^ LENGTH('a)"
    using power_increasing [OF len, of "2::nat"] by simp
  moreover have ub: "unat (ucast b :: 'a word) = unat b"
    unfolding unsigned_ucast_eq by (rule take_bit_nat_eq_self) (use unat_byte_less [of b] p in simp)
  moreover have "unat a * 256 + unat b < 2 ^ LENGTH('a)"
  proof -
    have "(2::nat) ^ LENGTH('a) = 2 ^ (LENGTH('a) - 8) * 2 ^ 8"
      unfolding power_add [symmetric] using len by simp
    then have "unat a < 2 ^ (LENGTH('a) - 8)" using a by simp
    then have "Suc (unat a) * 256 \<le> 2 ^ (LENGTH('a) - 8) * 2 ^ 8" by (intro mult_le_mono) simp_all
    with unat_byte_less [of b] \<open>2 ^ LENGTH('a) = _\<close> show ?thesis by simp
  qed
  ultimately show ?thesis by (simp add: unat_word_ariths)
qed

text \<open>A property of all bytes, by evaluation of the 256 cases.\<close>

lemma byte_all:
  assumes "list_all (\<lambda>k. P (of_nat k :: byte)) [0..<256]"
  shows "P b"
proof -
  have "unat b \<in> set [0..<256]" using unat_byte_less [of b] by simp
  then have "P (of_nat (unat b))" using assms unfolding list_all_iff by blast
  then show ?thesis by simp
qed

text \<open>A signed value that fits the smaller width survives the truncation to it.\<close>

lemma sint_ucast:
  fixes n :: u64
  assumes "LENGTH('a::len) \<le> 64" "- (2 ^ (LENGTH('a) - 1)) \<le> sint n" "sint n < 2 ^ (LENGTH('a) - 1)"
  shows "sint (ucast n :: 'a word) = sint n"
proof -
  have "(ucast n :: 'a word) = word_of_int (uint n)" by simp
  also have "uint n = take_bit 64 (sint n)" by (simp add: uint_sint)
  also have "(word_of_int (take_bit 64 (sint n)) :: 'a word) = word_of_int (sint n)"
    unfolding word_of_int_eq_iff using assms(1) by (simp add: take_bit_take_bit min_def)
  finally have "sint (ucast n :: 'a word) = signed_take_bit (LENGTH('a) - 1) (sint n)"
    by (simp only: sint_sbintrunc')
  also have "\<dots> = sint n" by (rule signed_take_bit_int_eq_self) (use assms in auto)
  finally show ?thesis .
qed

section \<open>C strings\<close>

text \<open>
  A HOL string stands for the bytes a \<open>char *\<close> points to; its end, or a NUL before
  it, ends the C string. Only paths, tags and URIs are strings; message payloads, which may
  hold any byte, are byte lists.
\<close>

definition NUL :: char where
  "NUL = CHR 0x00"

definition PATH_MAX :: nat where
  "PATH_MAX = 4096"

definition NAME_MAX :: nat where
  "NAME_MAX = 255"

definition cstr :: "string \<Rightarrow> string" where
  "cstr s = takeWhile (\<lambda>c. c \<noteq> NUL) s"

definition strlen :: "string \<Rightarrow> nat" where
  "strlen s = length (cstr s)"

definition strnlen :: "string \<Rightarrow> nat \<Rightarrow> nat" where
  "strnlen s n = min n (length (cstr s))"

definition strdup :: "string \<Rightarrow> string" where
  "strdup s = cstr s"

definition strndup :: "string \<Rightarrow> nat \<Rightarrow> string" where
  "strndup s n = take n (cstr s)"

text \<open>The text \<open>strncpy\<close> leaves in an array of \<open>n\<close> chars; it is terminated iff shorter than \<open>n\<close>.\<close>

definition strncpy :: "string \<Rightarrow> nat \<Rightarrow> string" where
  "strncpy s n = take n (cstr s)"

text \<open>The text \<open>snprintf\<close> leaves in an array of \<open>n\<close> chars for an already formatted text.\<close>

definition snprintf :: "nat \<Rightarrow> string \<Rightarrow> string" where
  "snprintf n txt = take (n - 1) txt"

text \<open>Equality tests: the sources compare the results of these functions with 0 only.\<close>

definition strcmp_eq :: "string \<Rightarrow> string \<Rightarrow> bool" where
  "strcmp_eq a b \<longleftrightarrow> cstr a = cstr b"

definition strncmp_eq :: "string \<Rightarrow> string \<Rightarrow> nat \<Rightarrow> bool" where
  "strncmp_eq a b n \<longleftrightarrow> take n (cstr a) = take n (cstr b)"

text \<open>\<open>*path == '/'\<close>\<close>

definition is_absolute :: "string \<Rightarrow> bool" where
  "is_absolute path \<longleftrightarrow> path \<noteq> [] \<and> hd path = CHR ''/''"

lemma is_absolute_Cons [simp]: "\<not> is_absolute []" "is_absolute (c # s) \<longleftrightarrow> c = CHR ''/''"
  by (simp_all add: is_absolute_def)

definition tolower :: "char \<Rightarrow> char" where
  "tolower c = (if 65 \<le> (of_char c :: nat) \<and> (of_char c :: nat) \<le> 90
                then char_of ((of_char c :: nat) + 32) else c)"

definition strcasecmp_eq :: "string \<Rightarrow> string \<Rightarrow> bool" where
  "strcasecmp_eq a b \<longleftrightarrow> map tolower (cstr a) = map tolower (cstr b)"

lemma cstr_idem [simp, cstr_simps]: "cstr (cstr s) = cstr s"
  by (simp add: cstr_def)

lemma cstr_no_NUL [cstr_simps]: "NUL \<notin> set s \<Longrightarrow> cstr s = s"
  by (auto simp: cstr_def takeWhile_eq_all_conv)

lemma NUL_notin_cstr: "NUL \<notin> set (cstr s)"
  unfolding cstr_def by (metis (mono_tags, lifting) set_takeWhileD)

lemma strcasecmp_refl [simp]: "strcasecmp_eq a a"
  by (simp add: strcasecmp_eq_def)

lemma strcasecmp_sym: "strcasecmp_eq a b = strcasecmp_eq b a"
  by (auto simp: strcasecmp_eq_def)

lemma strcasecmp_trans: "strcasecmp_eq a b \<Longrightarrow> strcasecmp_eq b c \<Longrightarrow> strcasecmp_eq a c"
  by (simp add: strcasecmp_eq_def)

text \<open>Payload bytes read as text, and back.\<close>

definition chars_of :: "byte list \<Rightarrow> string" where
  "chars_of bs = map (\<lambda>b. char_of (unat b)) bs"

definition bytes_of :: "string \<Rightarrow> byte list" where
  "bytes_of s = map of_char s"

definition bcstr :: "byte list \<Rightarrow> byte list" where
  "bcstr bs = takeWhile (\<lambda>b. b \<noteq> 0) bs"

lemma length_bytes_of [simp]: "length (bytes_of s) = length s"
  by (simp add: bytes_of_def)

lemma length_chars_of [simp]: "length (chars_of s) = length s"
  by (simp add: chars_of_def)

lemma unat_of_char: "unat (of_char c :: byte) = of_char c"
proof -
  have "(of_char c :: byte) = of_nat (of_char c)" by (simp add: of_nat_of_char)
  then show ?thesis by (simp add: unat_of_nat)
qed

lemma chars_of_bytes_of [simp]: "chars_of (bytes_of s) = s"
  by (simp add: chars_of_def bytes_of_def unat_of_char comp_def)

lemma bytes_of_chars_of [simp]: "bytes_of (chars_of bs) = bs"
proof -
  have "(of_char (char_of (unat b)) :: byte) = b" for b :: byte
  proof -
    have "(of_char (char_of (unat b)) :: byte) = of_nat (of_char (char_of (unat b)))"
      by (simp only: of_nat_of_char)
    then show ?thesis using unat_byte_less [of b] by simp
  qed
  then show ?thesis by (simp add: chars_of_def bytes_of_def comp_def)
qed

text \<open>Decimal output of \<open>%d\<close> and \<open>%i\<close>, and \<open>atoi\<close>.\<close>

definition digit_char :: "nat \<Rightarrow> char" where
  "digit_char d = char_of (48 + d)"

fun show_nat :: "nat \<Rightarrow> string" where
  "show_nat n = (if n < 10 then [digit_char n] else show_nat (n div 10) @ [digit_char (n mod 10)])"

declare show_nat.simps [simp del]

definition show_int :: "int \<Rightarrow> string" where
  "show_int i = (if i < 0 then ''-'' @ show_nat (nat (- i)) else show_nat (nat i))"

definition is_digit :: "char \<Rightarrow> bool" where
  "is_digit c \<longleftrightarrow> 48 \<le> (of_char c :: nat) \<and> (of_char c :: nat) \<le> 57"

definition is_space :: "char \<Rightarrow> bool" where
  "is_space c \<longleftrightarrow> (of_char c :: nat) = 32 \<or> 9 \<le> (of_char c :: nat) \<and> (of_char c :: nat) \<le> 13"

definition dec_value :: "string \<Rightarrow> nat" where
  "dec_value s = foldl (\<lambda>a c. a * 10 + (of_char c - 48)) 0 s"

definition atoi :: "string \<Rightarrow> int" where
  "atoi s = (let t = dropWhile is_space (cstr s) in
     (case t of
        CHR ''-'' # u \<Rightarrow> - int (dec_value (takeWhile is_digit u))
      | CHR ''+'' # u \<Rightarrow> int (dec_value (takeWhile is_digit u))
      | _ \<Rightarrow> int (dec_value (takeWhile is_digit t))))"

lemma of_char_digit_char: "d < 10 \<Longrightarrow> (of_char (digit_char d) :: nat) = 48 + d"
  by (simp add: digit_char_def)

lemma show_nat_digits: "c \<in> set (show_nat n) \<Longrightarrow> is_digit c"
proof (induction n rule: show_nat.induct)
  case (1 n)
  show ?case
  proof (cases "n < 10")
    case True
    with "1.prems" show ?thesis
      by (simp add: show_nat.simps [of n] is_digit_def of_char_digit_char)
  next
    case False
    then have "c \<in> set (show_nat (n div 10)) \<or> c = digit_char (n mod 10)"
      using "1.prems" by (simp add: show_nat.simps [of n]) blast
    then show ?thesis
      using "1.IH" False by (auto simp: is_digit_def of_char_digit_char)
  qed
qed

lemma dec_value_snoc: "dec_value (s @ [c]) = dec_value s * 10 + (of_char c - 48)"
  by (simp add: dec_value_def)

lemma dec_value_show_nat [simp]: "dec_value (show_nat n) = n"
proof (induction n rule: show_nat.induct)
  case (1 n)
  show ?case
  proof (cases "n < 10")
    case True
    then show ?thesis by (simp add: show_nat.simps [of n] dec_value_def of_char_digit_char)
  next
    case False
    with "1.IH" show ?thesis
      by (simp add: show_nat.simps [of n] dec_value_snoc of_char_digit_char)
  qed
qed

lemma show_nat_inject [simp]: "show_nat m = show_nat n \<longleftrightarrow> m = n"
  by (metis dec_value_show_nat)

end
