(* ===== verification/IeeeDouble.thy ===== *)
theory IeeeDouble
  imports DfPrelude
begin

text \<open>
  The numbers of Lua are C doubles. A double is its 64 IEEE 754 bits and a float its 32 bits;
  sign, exponent and mantissa are read off the bits. Here are the conversions the sources rely
  on: the test that a double holds an integer (\<open>(int64_t)x == x\<close>), integer to double with
  rounding to nearest even, and double to float and back.
\<close>

section \<open>Fields of a double and of a float\<close>

definition dsgn :: "u64 \<Rightarrow> nat" where "dsgn w = unat w div 2 ^ 63"
definition dexp :: "u64 \<Rightarrow> nat" where "dexp w = (unat w div 2 ^ 52) mod 2 ^ 11"
definition dman :: "u64 \<Rightarrow> nat" where "dman w = unat w mod 2 ^ 52"

definition mk_double :: "nat \<Rightarrow> nat \<Rightarrow> nat \<Rightarrow> u64" where
  "mk_double s e m = of_nat (s * 2 ^ 63 + e * 2 ^ 52 + m)"

definition fsgn :: "u32 \<Rightarrow> nat" where "fsgn w = unat w div 2 ^ 31"
definition fexp :: "u32 \<Rightarrow> nat" where "fexp w = (unat w div 2 ^ 23) mod 2 ^ 8"
definition fman :: "u32 \<Rightarrow> nat" where "fman w = unat w mod 2 ^ 23"

definition mk_float :: "nat \<Rightarrow> nat \<Rightarrow> nat \<Rightarrow> u32" where
  "mk_float s e m = of_nat (s * 2 ^ 31 + e * 2 ^ 23 + m)"

lemma unat_u64_less: "unat (w :: u64) < 2 ^ 64"
  using unsigned_less [of w, where 'a = nat] by simp

lemma unat_u32_less: "unat (w :: u32) < 2 ^ 32"
  using unsigned_less [of w, where 'a = nat] by simp

lemma double_field_bounds: "dsgn w < 2" "dexp w < 2048" "dman w < 2 ^ 52"
  using unat_u64_less [of w] by (simp_all add: dsgn_def dexp_def dman_def)

lemma float_field_bounds: "fsgn w < 2" "fexp w < 256" "fman w < 2 ^ 23"
  using unat_u32_less [of w] by (simp_all add: fsgn_def fexp_def fman_def)

lemma mk_double_fields [simp]: "mk_double (dsgn w) (dexp w) (dman w) = w"
proof -
  have "unat w = unat w div 2 ^ 63 * 2 ^ 63 + unat w mod 2 ^ 63"
    by (rule div_mult_mod_eq [symmetric])
  moreover have "unat w mod 2 ^ 63 = (unat w div 2 ^ 52) mod 2 ^ 11 * 2 ^ 52 + unat w mod 2 ^ 52"
    using mod_mult2_eq [of "unat w" "2 ^ 52" "2 ^ 11"] by simp
  ultimately have "unat w = dsgn w * 2 ^ 63 + dexp w * 2 ^ 52 + dman w"
    unfolding dsgn_def dexp_def dman_def by linarith
  then show ?thesis unfolding mk_double_def by (metis of_nat_unat ucast_id)
qed

lemma unat_mk_double:
  assumes "s < 2" "e < 2048" "m < 2 ^ 52"
  shows "unat (mk_double s e m) = s * 2 ^ 63 + e * 2 ^ 52 + m"
proof -
  have "s * 2 ^ 63 + e * 2 ^ 52 + m < 2 ^ 64" using assms by simp
  then show ?thesis unfolding mk_double_def by (simp add: unat_of_nat del: of_nat_add)
qed

lemma fields_mk_double:
  assumes "s < 2" "e < 2048" "m < 2 ^ 52"
  shows "dsgn (mk_double s e m) = s" "dexp (mk_double s e m) = e" "dman (mk_double s e m) = m"
proof -
  note u = unat_mk_double [OF assms]
  show "dsgn (mk_double s e m) = s" unfolding dsgn_def u using assms by simp
  have "(s * 2 ^ 63 + e * 2 ^ 52 + m) div 2 ^ 52 = s * 2 ^ 11 + e" using assms by simp
  then show "dexp (mk_double s e m) = e" unfolding dexp_def u using assms by simp
  have "(s * 2 ^ 63 + e * 2 ^ 52 + m) = (s * 2 ^ 11 + e) * 2 ^ 52 + m" by simp
  then show "dman (mk_double s e m) = m" unfolding dman_def u using assms
    by (metis mod_less mod_mult_self3)
qed

lemma fields_mk_float:
  assumes "s < 2" "e < 256" "m < 2 ^ 23"
  shows "fsgn (mk_float s e m) = s" "fexp (mk_float s e m) = e" "fman (mk_float s e m) = m"
proof -
  have "s * 2 ^ 31 + e * 2 ^ 23 + m < 2 ^ 32" using assms by simp
  then have u: "unat (mk_float s e m) = s * 2 ^ 31 + e * 2 ^ 23 + m"
    unfolding mk_float_def by (simp add: unat_of_nat del: of_nat_add)
  show "fsgn (mk_float s e m) = s" unfolding fsgn_def u using assms by simp
  have "(s * 2 ^ 31 + e * 2 ^ 23 + m) div 2 ^ 23 = s * 2 ^ 8 + e" using assms by simp
  then show "fexp (mk_float s e m) = e" unfolding fexp_def u using assms by simp
  have "(s * 2 ^ 31 + e * 2 ^ 23 + m) = (s * 2 ^ 8 + e) * 2 ^ 23 + m" by simp
  then show "fman (mk_float s e m) = m" unfolding fman_def u using assms
    by (metis mod_less mod_mult_self3)
qed

definition d_isnan :: "u64 \<Rightarrow> bool" where "d_isnan w \<longleftrightarrow> dexp w = 2047 \<and> dman w \<noteq> 0"
definition d_iszero :: "u64 \<Rightarrow> bool" where "d_iszero w \<longleftrightarrow> dexp w = 0 \<and> dman w = 0"

text \<open>The comparison \<open>a == b\<close> of two doubles.\<close>

definition d_eq :: "u64 \<Rightarrow> u64 \<Rightarrow> bool" where
  "d_eq a b \<longleftrightarrow> \<not> d_isnan a \<and> \<not> d_isnan b \<and> (a = b \<or> d_iszero a \<and> d_iszero b)"

section \<open>Integers in doubles\<close>

text \<open>The integer a double holds, if it is finite and has no fractional part.\<close>

definition d_int :: "u64 \<Rightarrow> int option" where
  "d_int w =
     (let s = (if dsgn w = 0 then 1 else - 1); mant = 2 ^ 52 + dman w in
      if d_iszero w then Some 0
      else if dexp w = 2047 \<or> dexp w < 1023 then None
      else if 1075 \<le> dexp w then Some (s * int (mant * 2 ^ (dexp w - 1075)))
      else if mant mod 2 ^ (1075 - dexp w) = 0 then Some (s * int (mant div 2 ^ (1075 - dexp w)))
      else None)"

fun ilog2 :: "nat \<Rightarrow> nat" where
  "ilog2 n = (if n < 2 then 0 else Suc (ilog2 (n div 2)))"

declare ilog2.simps [simp del]

text \<open>Integer to double, rounding to nearest and ties to even.\<close>

definition i2d :: "int \<Rightarrow> u64" where
  "i2d n =
     (if n = 0 then 0 else
      let s = (if n < 0 then 1 else 0); a = nat \<bar>n\<bar>; k = ilog2 a in
      if k \<le> 52 then mk_double s (1023 + k) (a * 2 ^ (52 - k) - 2 ^ 52)
      else
        let sh = k - 52; q = a div 2 ^ sh; r = a mod 2 ^ sh; half = 2 ^ (sh - 1);
            q' = (if half < r \<or> r = half \<and> odd q then q + 1 else q) in
        if q' = 2 ^ 53 then mk_double s (1024 + k) 0
        else mk_double s (1023 + k) (q' - 2 ^ 52))"

lemma ilog2_unique: "2 ^ k \<le> n \<Longrightarrow> n < 2 ^ Suc k \<Longrightarrow> ilog2 n = k"
proof (induction k arbitrary: n)
  case 0
  then show ?case by (simp add: ilog2.simps)
next
  case (Suc k)
  have "(2::nat) \<le> 2 ^ Suc k" by simp
  with Suc.prems have ge: "2 \<le> n" by linarith
  have "2 ^ k \<le> n div 2" "n div 2 < 2 ^ Suc k" using Suc.prems by auto
  then have "ilog2 (n div 2) = k" by (rule Suc.IH)
  with ge show ?case by (simp add: ilog2.simps [of n])
qed

lemma ilog2_bounds: "0 < n \<Longrightarrow> 2 ^ ilog2 n \<le> n \<and> n < 2 ^ Suc (ilog2 n)"
proof (induction n rule: ilog2.induct)
  case (1 n)
  show ?case
  proof (cases "n < 2")
    case True
    with "1.prems" show ?thesis by (simp add: ilog2.simps [of n])
  next
    case False
    with "1.IH" have "2 ^ ilog2 (n div 2) \<le> n div 2 \<and> n div 2 < 2 ^ Suc (ilog2 (n div 2))" by simp
    with False show ?thesis by (auto simp: ilog2.simps [of n])
  qed
qed

lemma signed_nat:
  assumes "s = (0::nat) \<or> s = 1" "0 < a" "i = (if s = 0 then 1 else - 1) * int a"
  shows "s = (if i < 0 then 1 else 0)" "nat \<bar>i\<bar> = a"
  using assms by auto

lemma i2d_large:
  assumes "s = (if n < 0 then 1 else 0)" and a: "nat \<bar>n\<bar> = mant * 2 ^ j"
    and m: "2 ^ 52 \<le> mant" "mant < 2 ^ 53"
  shows "i2d n = mk_double s (1075 + j) (mant - 2 ^ 52)"
proof -
  have nz: "n \<noteq> 0" using a m by auto
  have "mant * 2 ^ j < 2 ^ 53 * 2 ^ j" using m by (intro mult_strict_right_mono) auto
  then have "2 ^ (52 + j) \<le> nat \<bar>n\<bar>" "nat \<bar>n\<bar> < 2 ^ Suc (52 + j)"
    using m unfolding a by (auto simp: power_add)
  then have k: "ilog2 (nat \<bar>n\<bar>) = 52 + j" by (rule ilog2_unique)
  show ?thesis
  proof (cases "j = 0")
    case True
    then show ?thesis using nz k a assms(1) by (simp add: i2d_def Let_def)
  next
    case False
    have h: "(2::nat) ^ (j - 1) \<noteq> 0" by simp
    show ?thesis using False nz k a m h assms(1) unfolding i2d_def Let_def by simp
  qed
qed

lemma i2d_small:
  assumes "s = (if n < 0 then 1 else 0)" and a: "nat \<bar>n\<bar> * 2 ^ j = mant"
    and m: "2 ^ 52 \<le> mant" "mant < 2 ^ 53" and j: "j \<le> 52"
  shows "i2d n = mk_double s (1075 - j) (mant - 2 ^ 52)"
proof -
  have nz: "n \<noteq> 0" using a m by auto
  have "(2::nat) ^ 52 = 2 ^ (52 - j) * 2 ^ j" using j by (simp flip: power_add)
  moreover have "(2::nat) ^ 53 = 2 ^ Suc (52 - j) * 2 ^ j" using j by (simp flip: power_add)
  ultimately have "2 ^ (52 - j) * 2 ^ j \<le> nat \<bar>n\<bar> * 2 ^ j"
      "nat \<bar>n\<bar> * 2 ^ j < 2 ^ Suc (52 - j) * 2 ^ j"
    using m a by auto
  then have "2 ^ (52 - j) \<le> nat \<bar>n\<bar>" "nat \<bar>n\<bar> < 2 ^ Suc (52 - j)"
    by (simp_all only: mult_le_cancel2 mult_less_cancel2 zero_less_power zero_less_numeral)
  then have k: "ilog2 (nat \<bar>n\<bar>) = 52 - j" by (rule ilog2_unique)
  have "1023 + (52 - j) = 1075 - j" "52 - (52 - j) = j" using j by auto
  then show ?thesis using nz k a assms(1) by (simp add: i2d_def Let_def)
qed

text \<open>A double that holds an integer comes back unchanged, but for the sign of zero.\<close>

lemma i2d_d_int:
  assumes "d_int w = Some i"
  shows "i2d i = (if d_iszero w then 0 else w)"
proof (cases "d_iszero w")
  case True
  then show ?thesis using assms by (simp add: d_int_def i2d_def)
next
  case False
  let ?m = "2 ^ 52 + dman w"
  have mb: "2 ^ 52 \<le> ?m" "?m < 2 ^ 53" using double_field_bounds(3) [of w] by simp_all
  have s01: "dsgn w = 0 \<or> dsgn w = 1" using double_field_bounds(1) [of w] by linarith
  have e: "1023 \<le> dexp w" using assms False by (auto simp: d_int_def Let_def split: if_splits)
  show ?thesis
  proof (cases "1075 \<le> dexp w")
    case True
    then have i: "i = (if dsgn w = 0 then 1 else - 1) * int (?m * 2 ^ (dexp w - 1075))"
      using assms False by (auto simp: d_int_def Let_def split: if_splits)
    have "0 < ?m * 2 ^ (dexp w - 1075)" by simp
    note sg = signed_nat [OF s01 this i]
    have "i2d i = mk_double (dsgn w) (1075 + (dexp w - 1075)) (?m - 2 ^ 52)"
      by (rule i2d_large [OF sg mb])
    then show ?thesis using True False by simp
  next
    case small: False
    let ?j = "1075 - dexp w"
    have dv: "?m mod 2 ^ ?j = 0" and i: "i = (if dsgn w = 0 then 1 else - 1) * int (?m div 2 ^ ?j)"
      using assms False small by (auto simp: d_int_def Let_def split: if_splits)
    have j: "?j \<le> 52" using e by linarith
    have eq: "?m div 2 ^ ?j * 2 ^ ?j = ?m" using dv by (metis add.right_neutral div_mult_mod_eq)
    then have "0 < ?m div 2 ^ ?j" by (cases "?m div 2 ^ ?j") auto
    note sg = signed_nat [OF s01 this i]
    have ab: "nat \<bar>i\<bar> * 2 ^ ?j = ?m" using sg(2) eq by simp
    have "i2d i = mk_double (dsgn w) (1075 - ?j) (?m - 2 ^ 52)"
      by (rule i2d_small [OF sg(1) ab mb j])
    moreover have "1075 - ?j = dexp w" using small by linarith
    ultimately show ?thesis using False by simp
  qed
qed


section \<open>Floats\<close>

text \<open>
  \<open>float_of_double d\<close> is the float equal to \<open>d\<close>, if there is one: this is what the test
  \<open>d == (double)(float)d\<close> decides. The float a rounding conversion gives for any other \<open>d\<close>
  differs from \<open>d\<close> and is not used.
\<close>

definition float_of_double :: "u64 \<Rightarrow> u32 option" where
  "float_of_double w =
     (let s = dsgn w; e = dexp w; m = dman w in
      if e = 2047 then (if m = 0 then Some (mk_float s 255 0) else None)
      else if e = 0 then (if m = 0 then Some (mk_float s 0 0) else None)
      else if 1150 < e then None
      else if 897 \<le> e then
        (if m mod 2 ^ 29 = 0 then Some (mk_float s (e - 896) (m div 2 ^ 29)) else None)
      else if 874 \<le> e then
        (if (2 ^ 52 + m) mod 2 ^ (926 - e) = 0
         then Some (mk_float s 0 ((2 ^ 52 + m) div 2 ^ (926 - e))) else None)
      else None)"

definition double_of_float :: "u32 \<Rightarrow> u64" where
  "double_of_float f =
     (let s = fsgn f; e = fexp f; m = fman f in
      if e = 255 then
        (if m = 0 then mk_double s 2047 0
         else mk_double s 2047 ((2 ^ 22 + m mod 2 ^ 22) * 2 ^ 29))
      else if e = 0 then
        (if m = 0 then mk_double s 0 0
         else let k = ilog2 m in mk_double s (874 + k) (m * 2 ^ (52 - k) - 2 ^ 52))
      else mk_double s (896 + e) (m * 2 ^ 29))"

lemma double_of_subnormal:
  assumes mant: "2 ^ 52 \<le> mant" "mant < 2 ^ 53" and j: "30 \<le> j" "j \<le> 52"
    and eq: "m * 2 ^ j = mant" and s: "s < 2"
  shows "double_of_float (mk_float s 0 m) = mk_double s (926 - j) (mant - 2 ^ 52)"
proof -
  have "(2::nat) ^ 52 = 2 ^ (52 - j) * 2 ^ j" "(2::nat) ^ 53 = 2 ^ Suc (52 - j) * 2 ^ j"
    using j by (simp_all flip: power_add)
  then have "2 ^ (52 - j) * 2 ^ j \<le> m * 2 ^ j" "m * 2 ^ j < 2 ^ Suc (52 - j) * 2 ^ j"
    using mant eq by auto
  then have mb: "2 ^ (52 - j) \<le> m" "m < 2 ^ Suc (52 - j)"
    by (simp_all only: mult_le_cancel2 mult_less_cancel2 zero_less_power zero_less_numeral)
  then have k: "ilog2 m = 52 - j" by (rule ilog2_unique)
  have "(2::nat) ^ Suc (52 - j) \<le> 2 ^ 23" using j by (intro power_increasing) auto
  with mb(2) have m23: "m < 2 ^ 23" by (rule less_le_trans)
  have m0: "m \<noteq> 0" using eq mant by (cases "m = 0") auto
  have "874 + (52 - j) = 926 - j" "52 - (52 - j) = j" using j by auto
  then show ?thesis
    using m0 k eq unfolding double_of_float_def
    by (simp add: fields_mk_float [OF s _ m23] Let_def)
qed

text \<open>A double that is sent as a float is received unchanged.\<close>

lemma double_of_float_of_double:
  assumes "float_of_double w = Some f"
  shows "double_of_float f = w"
proof -
  let ?s = "dsgn w" let ?e = "dexp w" let ?m = "dman w"
  note b = double_field_bounds [of w]
  consider (inf) "?e = 2047" "?m = 0" "f = mk_float ?s 255 0"
    | (zero) "?e = 0" "?m = 0" "f = mk_float ?s 0 0"
    | (normal) "897 \<le> ?e" "?e \<le> 1150" "?m mod 2 ^ 29 = 0" "f = mk_float ?s (?e - 896) (?m div 2 ^ 29)"
    | (sub) "874 \<le> ?e" "?e < 897" "(2 ^ 52 + ?m) mod 2 ^ (926 - ?e) = 0"
        "f = mk_float ?s 0 ((2 ^ 52 + ?m) div 2 ^ (926 - ?e))"
    using assms by (auto simp: float_of_double_def Let_def split: if_splits)
  then show ?thesis
  proof cases
    case inf
    then have "double_of_float f = mk_double ?s ?e ?m"
      using fields_mk_float [OF b(1), of 255 0] by (simp add: double_of_float_def)
    then show ?thesis by simp
  next
    case zero
    then have "double_of_float f = mk_double ?s ?e ?m"
      using fields_mk_float [OF b(1), of 0 0] by (simp add: double_of_float_def)
    then show ?thesis by simp
  next
    case normal
    have "?m div 2 ^ 29 < 2 ^ 23" using b(3) by simp
    moreover have "?e - 896 < 256" using normal by simp
    moreover have "?m div 2 ^ 29 * 2 ^ 29 = ?m"
      using normal(3) by (metis add.right_neutral div_mult_mod_eq)
    moreover have "?e - 896 \<noteq> 255" "?e - 896 \<noteq> 0" "896 + (?e - 896) = ?e"
      using normal by auto
    ultimately have "double_of_float f = mk_double ?s ?e ?m"
      using fields_mk_float [OF b(1), of "?e - 896" "?m div 2 ^ 29"] normal(4)
      by (simp add: double_of_float_def Let_def)
    then show ?thesis by simp
  next
    case sub
    have eq: "(2 ^ 52 + ?m) div 2 ^ (926 - ?e) * 2 ^ (926 - ?e) = 2 ^ 52 + ?m"
      using sub(3) by (metis add.right_neutral div_mult_mod_eq)
    have "double_of_float f = mk_double ?s (926 - (926 - ?e)) ((2 ^ 52 + ?m) - 2 ^ 52)"
      unfolding sub(4) using b sub by (intro double_of_subnormal [OF _ _ _ _ eq]) auto
    moreover have "926 - (926 - ?e) = ?e" using sub by simp
    ultimately show ?thesis by simp
  qed
qed

text \<open>The first array indices, as the doubles Lua stores them.\<close>

lemma i2d_nonzero: "n \<noteq> 0 \<Longrightarrow> \<bar>n\<bar> < 2 ^ 53 \<Longrightarrow> d_int (i2d n) = Some n"
proof -
  assume n: "n \<noteq> 0" "\<bar>n\<bar> < 2 ^ 53"
  let ?a = "nat \<bar>n\<bar>" let ?k = "ilog2 ?a" let ?s = "(if n < 0 then 1 else 0) :: nat"
  have kb: "2 ^ ?k \<le> ?a" "?a < 2 ^ Suc ?k" using ilog2_bounds [of ?a] n by auto
  have "?a < 2 ^ 53" using n by (simp add: nat_less_iff)
  with kb(1) have "(2::nat) ^ ?k < 2 ^ 53" by (rule le_less_trans)
  then have "?k < 53" by (rule power_less_imp_less_exp [rotated]) simp
  then have k: "?k \<le> 52" by simp
  let ?m = "?a * 2 ^ (52 - ?k)"
  have p: "(2::nat) ^ ?k * 2 ^ (52 - ?k) = 2 ^ 52" "(2::nat) ^ Suc ?k * 2 ^ (52 - ?k) = 2 ^ 53"
    using k by (simp_all flip: power_add)
  have "2 ^ ?k * 2 ^ (52 - ?k) \<le> ?m" by (rule mult_le_mono1 [OF kb(1)])
  moreover have "?m < 2 ^ Suc ?k * 2 ^ (52 - ?k)" by (rule mult_strict_right_mono [OF kb(2)]) simp
  ultimately have m: "2 ^ 52 \<le> ?m" "?m < 2 ^ 53" by (simp_all only: p)
  have d: "i2d n = mk_double ?s (1023 + ?k) (?m - 2 ^ 52)"
    using n k by (simp add: i2d_def Let_def)
  have mb: "?m - 2 ^ 52 < 2 ^ 52" using m by (simp add: less_diff_conv2)
  have f: "dsgn (i2d n) = ?s" "dexp (i2d n) = 1023 + ?k" "dman (i2d n) = ?m - 2 ^ 52"
    unfolding d by (rule fields_mk_double, simp, use k in simp, rule mb)+
  have e: "1075 - (1023 + ?k) = 52 - ?k" by simp
  have mm: "2 ^ 52 + (?m - 2 ^ 52) = ?m" using m by simp
  have z: "\<not> d_iszero (i2d n)" by (simp add: d_iszero_def f)
  have sgn: "(if ?s = 0 then 1 else - 1) * int ?a = n" using n by auto
  show ?thesis
  proof (cases "?k = 52")
    case True
    then have "int (?m * 2 ^ 0) = int ?a" by simp
    then show ?thesis unfolding d_int_def Let_def f mm using z True sgn by (simp add: f)
  next
    case False
    then have "\<not> 1075 \<le> 1023 + ?k" using k by simp
    then show ?thesis unfolding d_int_def Let_def f mm e using z sgn k by (simp add: f)
  qed
qed

end
