(* ===== verification/LuaValue.thy ===== *)
theory LuaValue
  imports IeeeDouble
begin

text \<open>
  The Lua values and the part of the Lua C API that the sources call: raw table access,
  \<open>lua_next\<close> order, and the value stack of a \<open>lua_State\<close>. A table is the list of its pairs in
  the order \<open>lua_next\<close> visits them. Tables carry no metatable here, and two table values met as
  keys are different objects, as tables are compared by identity. Functions, userdata, threads
  and light userdata (such as \<open>cjson.null\<close>) are \<open>LOpaque\<close>.
\<close>

datatype lua_val =
    LNil
  | LBoolean bool
  | LNumber u64
  | LString "byte list"
  | LTable "(lua_val \<times> lua_val) list"
  | LOpaque nat

type_synonym lua_table = "(lua_val \<times> lua_val) list"

definition is_table :: "lua_val \<Rightarrow> bool" where
  "is_table v = (case v of LTable _ \<Rightarrow> True | _ \<Rightarrow> False)"

section \<open>Tables\<close>

fun lua_rawequal :: "lua_val \<Rightarrow> lua_val \<Rightarrow> bool" where
  "lua_rawequal LNil LNil = True"
| "lua_rawequal (LBoolean a) (LBoolean b) = (a = b)"
| "lua_rawequal (LNumber a) (LNumber b) = d_eq a b"
| "lua_rawequal (LString a) (LString b) = (a = b)"
| "lua_rawequal (LOpaque a) (LOpaque b) = (a = b)"
| "lua_rawequal _ _ = False"

fun lua_rawget :: "lua_table \<Rightarrow> lua_val \<Rightarrow> lua_val" where
  "lua_rawget [] k = LNil"
| "lua_rawget ((k', v) # t) k = (if lua_rawequal k' k then v else lua_rawget t k)"

text \<open>Negative zero is stored as the key 0.\<close>

definition lua_key :: "lua_val \<Rightarrow> lua_val" where
  "lua_key k = (case k of LNumber d \<Rightarrow> LNumber (if d_iszero d then 0 else d) | _ \<Rightarrow> k)"

fun table_put :: "lua_table \<Rightarrow> lua_val \<Rightarrow> lua_val \<Rightarrow> lua_table" where
  "table_put [] k v = [(k, v)]"
| "table_put ((k', v') # t) k v =
     (if lua_rawequal k' k then (k', v) # t else (k', v') # table_put t k v)"

definition table_del :: "lua_table \<Rightarrow> lua_val \<Rightarrow> lua_table" where
  "table_del t k = filter (\<lambda>(k', v). \<not> lua_rawequal k' k) t"

text \<open>\<open>lua_settable\<close> raises an error for a nil or NaN key; assigning nil removes the key.\<close>

definition lua_settable :: "lua_table \<Rightarrow> lua_val \<Rightarrow> lua_val \<Rightarrow> string + lua_table" where
  "lua_settable t k v =
     (case k of
        LNil \<Rightarrow> Inl ''table index is nil''
      | LNumber d \<Rightarrow>
          if d_isnan d then Inl ''table index is NaN''
          else Inr (if v = LNil then table_del t (lua_key k) else table_put t (lua_key k) v)
      | _ \<Rightarrow> Inr (if v = LNil then table_del t k else table_put t k v))"

definition array_index :: "nat \<Rightarrow> lua_val" where
  "array_index j = LNumber (i2d (int j))"

text \<open>\<open>lua_objlen\<close> of a table: the first border.\<close>

definition lua_objlen :: "lua_table \<Rightarrow> nat" where
  "lua_objlen t =
     length (takeWhile (\<lambda>j. lua_rawget t (array_index j) \<noteq> LNil) [1..<length t + 2])"

text \<open>A field of a table with a string key, \<open>lua_getfield\<close>.\<close>

definition lua_getfield :: "lua_table \<Rightarrow> string \<Rightarrow> lua_val" where
  "lua_getfield t k = lua_rawget t (LString (bytes_of k))"

definition lua_rawgeti :: "lua_table \<Rightarrow> nat \<Rightarrow> lua_val" where
  "lua_rawgeti t j = lua_rawget t (array_index j)"

definition lua_toboolean :: "lua_val \<Rightarrow> bool" where
  "lua_toboolean v = (case v of LNil \<Rightarrow> False | LBoolean b \<Rightarrow> b | _ \<Rightarrow> True)"

lemma size_rawget: "size (lua_rawget t k) < size (LTable t)"
proof (induction t)
  case Nil
  then show ?case by simp
next
  case (Cons p t)
  then show ?case by (cases p) auto
qed

lemma size_table_entries:
  assumes "(k, v) \<in> set t"
  shows "size k < size (LTable t)" "size v < size (LTable t)"
  using assms by (induction t) auto

lemma lua_rawequal_sym: "lua_rawequal a b = lua_rawequal b a"
  by (cases a; cases b) (auto simp: d_eq_def)

lemma fields_zero [simp]: "dexp 0 = 0" "dman 0 = 0"
  by (simp_all add: dexp_def dman_def)

lemma d_isnan_zero [simp]: "\<not> d_isnan 0"
  by (simp add: d_isnan_def)

lemma d_iszero_zero [simp]: "d_iszero 0"
  by (simp add: d_iszero_def)

lemma lua_rawequal_key [simp]: "lua_rawequal (lua_key a) b = lua_rawequal a b"
  by (cases a; cases b) (auto simp: lua_key_def d_eq_def d_isnan_def d_iszero_def)

lemma lua_rawequal_key2 [simp]: "lua_rawequal b (lua_key a) = lua_rawequal b a"
  by (metis lua_rawequal_sym lua_rawequal_key)

lemma lua_rawequal_trans: "lua_rawequal a b \<Longrightarrow> lua_rawequal b c \<Longrightarrow> lua_rawequal a c"
  by (cases a; cases b; cases c) (auto simp: d_eq_def d_iszero_def)

lemma lua_rawequal_cong: "lua_rawequal a b \<Longrightarrow> lua_rawequal a c = lua_rawequal b c"
  by (metis lua_rawequal_sym lua_rawequal_trans)

text \<open>Values that can be found again under their own key.\<close>

definition self_equal :: "lua_val \<Rightarrow> bool" where
  "self_equal k \<longleftrightarrow> lua_rawequal k k"

lemma self_equal_simps [simp]:
  "self_equal LNil" "self_equal (LBoolean b)" "self_equal (LString s)" "self_equal (LOpaque n)"
  "\<not> self_equal (LTable t)" "self_equal (LNumber d) \<longleftrightarrow> \<not> d_isnan d"
  by (auto simp: self_equal_def d_eq_def)

lemma rawget_put:
  assumes "self_equal k"
  shows "lua_rawget (table_put t k v) k' =
    (if lua_rawequal k k' then v else lua_rawget t k')"
proof (induction t)
  case Nil
  then show ?case by simp
next
  case (Cons p t)
  obtain kk vv where p: "p = (kk, vv)" by (cases p)
  show ?case
    using Cons lua_rawequal_cong [of kk k k'] lua_rawequal_cong [of k k' kk]
      lua_rawequal_sym [of kk] by (auto simp: p)
qed

lemma rawget_del:
  "lua_rawget (table_del t k) k' = (if lua_rawequal k k' then LNil else lua_rawget t k')"
proof (induction t)
  case Nil
  then show ?case by (simp add: table_del_def)
next
  case (Cons p t)
  obtain kk vv where p: "p = (kk, vv)" by (cases p)
  show ?case
    using Cons lua_rawequal_cong [of kk k k'] lua_rawequal_cong [of k k' kk]
      lua_rawequal_sym [of kk] by (auto simp: p table_del_def)
qed

text \<open>Lookup after a successful \<open>lua_settable\<close>.\<close>

lemma rawget_settable:
  assumes "lua_settable t k v = Inr t'" "self_equal k"
  shows "lua_rawget t' k' = (if lua_rawequal k k' then v else lua_rawget t k')"
proof -
  have "t' = (if v = LNil then table_del t (lua_key k) else table_put t (lua_key k) v)"
    using assms(1) by (auto simp: lua_settable_def lua_key_def split: lua_val.splits if_splits)
  moreover have "self_equal (lua_key k)" using assms(2) by (simp add: self_equal_def)
  ultimately show ?thesis by (auto simp: rawget_put rawget_del)
qed

lemma d_int_index: "1 \<le> j \<Longrightarrow> j < 2 ^ 53 \<Longrightarrow> d_int (i2d (int j)) = Some (int j)"
  by (rule i2d_nonzero) simp_all

lemma d_int_zero_nan: "d_iszero x \<Longrightarrow> d_int x = Some 0" "d_isnan x \<Longrightarrow> d_int x = None"
  by (auto simp: d_int_def d_isnan_def d_iszero_def)

lemma array_index_eq:
  assumes "1 \<le> i" "i < 2 ^ 53" "1 \<le> j" "j < 2 ^ 53"
  shows "lua_rawequal (array_index i) (array_index j) \<longleftrightarrow> i = j"
proof -
  have d: "d_int (i2d (int k)) = Some (int k) \<and> \<not> d_isnan (i2d (int k)) \<and> \<not> d_iszero (i2d (int k))"
    if "1 \<le> k" "k < 2 ^ 53" for k
    using d_int_index [OF that] that d_int_zero_nan [of "i2d (int k)"] by auto
  show ?thesis using d [OF assms(1,2)] d [OF assms(3,4)]
    by (metis array_index_def d_eq_def lua_rawequal.simps(3) of_nat_eq_iff option.inject)
qed

text \<open>Tables written out with string keys and with indices, and lookup in them.\<close>

definition str_val :: "string \<Rightarrow> lua_val" where "str_val s = LString (bytes_of s)"

lemma bytes_of_inject: "bytes_of a = bytes_of b \<longleftrightarrow> a = b"
  by (metis chars_of_bytes_of)

lemma getfield_simps [simp]:
  "lua_getfield [] k = LNil"
  "lua_getfield ((str_val a, v) # t) k = (if a = k then v else lua_getfield t k)"
  by (simp_all add: lua_getfield_def str_val_def bytes_of_inject)

lemma rawgeti_simps [simp]:
  "lua_rawgeti [] j = LNil"
  "0 < i \<Longrightarrow> i < 1000 \<Longrightarrow> 0 < j \<Longrightarrow> j < 1000 \<Longrightarrow>
     lua_rawgeti ((array_index i, v) # t) j = (if i = j then v else lua_rawgeti t j)"
  by (simp_all add: lua_rawgeti_def array_index_eq)

section \<open>The value stack\<close>

text \<open>
  The stack of a \<open>lua_State\<close>, bottom first: index 1 is the head, the top is the last element.
\<close>

type_synonym lua_stack = "lua_val list"

definition lua_gettop :: "lua_stack \<Rightarrow> nat" where
  "lua_gettop L = length L"

definition lua_push :: "lua_stack \<Rightarrow> lua_val \<Rightarrow> lua_stack" where
  "lua_push L v = L @ [v]"

definition lua_pop :: "lua_stack \<Rightarrow> nat \<Rightarrow> lua_stack" where
  "lua_pop L n = take (length L - n) L"

text \<open>The value at a positive index; an index above the top is none (nil).\<close>

definition lua_at :: "lua_stack \<Rightarrow> nat \<Rightarrow> lua_val" where
  "lua_at L i = (if 1 \<le> i \<and> i \<le> length L then L ! (i - 1) else LNil)"

definition lua_insert1 :: "lua_stack \<Rightarrow> lua_stack" where
  "lua_insert1 L = (if L = [] then [] else last L # butlast L)"

definition lua_remove1 :: "lua_stack \<Rightarrow> lua_stack" where
  "lua_remove1 L = tl L"

text \<open>\<open>lua_insert(L, -2)\<close>: the top goes below the value under it.\<close>

definition lua_insert_m2 :: "lua_stack \<Rightarrow> lua_stack" where
  "lua_insert_m2 L =
     (if length L < 2 then L
      else take (length L - 2) L @ [last L, L ! (length L - 2)])"

text \<open>
  \<open>lua_tolstring\<close>: a string gives its bytes, a number its decimal text, everything else NULL.
  The text of a number is the formatting of the Lua library, the argument \<open>num2str\<close>.
\<close>

definition lua_tolstring :: "(u64 \<Rightarrow> byte list) \<Rightarrow> lua_val \<Rightarrow> byte list option" where
  "lua_tolstring num2str v =
     (case v of LString s \<Rightarrow> Some s | LNumber d \<Rightarrow> Some (num2str d) | _ \<Rightarrow> None)"

end
