(* ===== verification/MsgPackEnc.thy ===== *)
theory MsgPackEnc
  imports LuaValue
begin

text \<open>
  The MessagePack encoder of \<open>lib/lua-cmsgpack/lua_cmsgpack.c\<close>, through which every event
  passes from the Lua scripts into a message queue: the growing buffer \<open>mp_buf\<close>, the headers,
  and the traversal of a Lua value. The last section states what the encoder writes as a
  function of the value alone and proves that the buffer code writes exactly that.
\<close>

section \<open>Append-only byte sinks\<close>

text \<open>
  What the encoders rely on when they append: the contents grow by exactly the bytes given,
  whatever the sink does with its memory.
\<close>

locale byte_sink =
  fixes append :: "'b \<Rightarrow> byte list \<Rightarrow> 'b"
    and contents :: "'b \<Rightarrow> byte list"
    and valid :: "'b \<Rightarrow> bool"
  assumes contents_append: "valid b \<Longrightarrow> contents (append b s) = contents b @ s"
    and valid_append: "valid b \<Longrightarrow> valid (append b s)"
begin

lemma contents_append2:
  "valid b \<Longrightarrow> contents (append (append b s1) s2) = contents b @ s1 @ s2"
  by (simp add: contents_append valid_append)

lemma foldl_append:
  assumes "valid b" and "\<And>b x. valid b \<Longrightarrow> x \<in> set xs \<Longrightarrow>
      valid (f b x) \<and> contents (f b x) = contents b @ g x"
  shows "valid (foldl f b xs) \<and> contents (foldl f b xs) = contents b @ concat (map g xs)"
  using assms
proof (induction xs arbitrary: b)
  case Nil
  then show ?case by simp
next
  case (Cons x xs)
  have 1: "valid (f b x)" "contents (f b x) = contents b @ g x" using Cons.prems by auto
  have "valid (foldl f (f b x) xs) \<and>
      contents (foldl f (f b x) xs) = contents (f b x) @ concat (map g xs)"
    by (rule Cons.IH [OF 1(1)]) (use Cons.prems(2) in auto)
  with 1 show ?case by simp
qed

end

section \<open>The buffer\<close>

record mp_buf =
  mb_mem :: "byte list"   \<comment> \<open>the allocation \<open>b\<close>, \<open>len + free\<close> bytes\<close>
  mb_len :: nat
  mb_free :: nat

text \<open>\<open>realloc\<close> keeps the common prefix; the bytes it adds are written before they are read.\<close>

definition mp_realloc :: "byte list \<Rightarrow> nat \<Rightarrow> byte list" where
  "mp_realloc mem nsize = take nsize mem @ replicate (nsize - length mem) 0"

definition mp_buf_new :: mp_buf where
  "mp_buf_new = \<lparr>mb_mem = [], mb_len = 0, mb_free = 0\<rparr>"

definition mp_buf_append :: "mp_buf \<Rightarrow> byte list \<Rightarrow> mp_buf" where
  "mp_buf_append buf s =
     (let len = length s;
          buf1 = (if mb_free buf < len
                  then let newsize = (mb_len buf + len) * 2 in
                    buf\<lparr>mb_mem := mp_realloc (mb_mem buf) newsize, mb_free := newsize - mb_len buf\<rparr>
                  else buf)
      in buf1\<lparr>mb_mem := take (mb_len buf1) (mb_mem buf1) @ s @ drop (mb_len buf1 + len) (mb_mem buf1),
              mb_len := mb_len buf1 + len, mb_free := mb_free buf1 - len\<rparr>)"

definition mp_buf_contents :: "mp_buf \<Rightarrow> byte list" where
  "mp_buf_contents buf = take (mb_len buf) (mb_mem buf)"

definition mp_buf_valid :: "mp_buf \<Rightarrow> bool" where
  "mp_buf_valid buf \<longleftrightarrow> length (mb_mem buf) = mb_len buf + mb_free buf"

lemma mp_buf_append_spec:
  assumes "mp_buf_valid buf"
  shows "mp_buf_valid (mp_buf_append buf s)"
    and "mp_buf_contents (mp_buf_append buf s) = mp_buf_contents buf @ s"
  using assms
  by (auto simp: mp_buf_append_def mp_buf_valid_def mp_buf_contents_def mp_realloc_def Let_def
      min_def not_less neq_Nil_conv)

interpretation mpb: byte_sink mp_buf_append mp_buf_contents mp_buf_valid
  by unfold_locales (simp_all add: mp_buf_append_spec)

lemma mp_buf_new_spec [simp]: "mp_buf_valid mp_buf_new" "mp_buf_contents mp_buf_new = []"
  by (simp_all add: mp_buf_new_def mp_buf_valid_def mp_buf_contents_def)

section \<open>Low-level encoding\<close>

definition mp_encode_bytes :: "mp_buf \<Rightarrow> byte list \<Rightarrow> mp_buf" where
  "mp_encode_bytes buf s =
     (let len = (of_nat (length s) :: u64);
          hdr = (if len < 32 then [0xa0 OR ucast (len AND 0xff)]
            else if len \<le> 0xff then [0xd9, ucast len]
            else if len \<le> 0xffff then
              [0xda, ucast (drop_bit 8 (len AND 0xff00)), ucast (len AND 0xff)]
            else
              [0xdb, ucast (drop_bit 24 (len AND 0xff000000)), ucast (drop_bit 16 (len AND 0xff0000)),
               ucast (drop_bit 8 (len AND 0xff00)), ucast (len AND 0xff)])
      in mp_buf_append (mp_buf_append buf hdr) s)"

text \<open>
  \<open>memrevifle\<close> on a little-endian host turns the bytes of a float or double, lowest first in
  memory, into big-endian order: it swaps the ends towards the middle.
\<close>

function memrevifle :: "byte list \<Rightarrow> byte list" where
  "memrevifle m = (if length m < 2 then m
     else last m # memrevifle (butlast (tl m)) @ [hd m])"
  by pat_completeness auto
termination by (relation "measure length") auto

declare memrevifle.simps [simp del]

definition mp_encode_double :: "mp_buf \<Rightarrow> u64 \<Rightarrow> mp_buf" where
  "mp_encode_double buf d =
     (case float_of_double d of
        Some f \<Rightarrow> mp_buf_append buf (0xca # memrevifle (le_bytes 4 (unat f)))
      | None \<Rightarrow> mp_buf_append buf (0xcb # memrevifle (le_bytes 8 (unat d))))"

definition mp_encode_int :: "mp_buf \<Rightarrow> u64 \<Rightarrow> mp_buf" where
  "mp_encode_int buf n =
     (let b4 = [ucast (drop_bit 24 (n AND 0xff000000)), ucast (drop_bit 16 (n AND 0xff0000)),
                ucast (drop_bit 8 (n AND 0xff00)), ucast (n AND 0xff)];
          b8 = [ucast (drop_bit 56 (n AND 0xff00000000000000)),
                ucast (drop_bit 48 (n AND 0xff000000000000)),
                ucast (drop_bit 40 (n AND 0xff0000000000)),
                ucast (drop_bit 32 (n AND 0xff00000000))] @ b4;
          b = (if 0 \<le> sint n then
                 (if sint n \<le> 127 then [ucast (n AND 0x7f)]
                  else if sint n \<le> 0xff then [0xcc, ucast (n AND 0xff)]
                  else if sint n \<le> 0xffff then
                    [0xcd, ucast (drop_bit 8 (n AND 0xff00)), ucast (n AND 0xff)]
                  else if sint n \<le> 0xffffffff then 0xce # b4
                  else 0xcf # b8)
               else
                 (if sint n \<ge> -32 then [ucast n]
                  else if sint n \<ge> -128 then [0xd0, ucast (n AND 0xff)]
                  else if sint n \<ge> -32768 then
                    [0xd1, ucast (drop_bit 8 (n AND 0xff00)), ucast (n AND 0xff)]
                  else if sint n \<ge> -2147483648 then 0xd2 # b4
                  else 0xd3 # b8))
      in mp_buf_append buf b)"

definition mp_encode_array :: "mp_buf \<Rightarrow> u64 \<Rightarrow> mp_buf" where
  "mp_encode_array buf n =
     mp_buf_append buf
      (if sint n \<le> 15 then [0x90 OR ucast (n AND 0xf)]
       else if sint n \<le> 65535 then
         [0xdc, ucast (drop_bit 8 (n AND 0xff00)), ucast (n AND 0xff)]
       else
         [0xdd, ucast (drop_bit 24 (n AND 0xff000000)), ucast (drop_bit 16 (n AND 0xff0000)),
          ucast (drop_bit 8 (n AND 0xff00)), ucast (n AND 0xff)])"

definition mp_encode_map :: "mp_buf \<Rightarrow> u64 \<Rightarrow> mp_buf" where
  "mp_encode_map buf n =
     mp_buf_append buf
      (if sint n \<le> 15 then [0x80 OR ucast (n AND 0xf)]
       else if sint n \<le> 65535 then
         [0xde, ucast (drop_bit 8 (n AND 0xff00)), ucast (n AND 0xff)]
       else
         [0xdf, ucast (drop_bit 24 (n AND 0xff000000)), ucast (drop_bit 16 (n AND 0xff0000)),
          ucast (drop_bit 8 (n AND 0xff00)), ucast (n AND 0xff)])"

section \<open>Encoding of Lua values\<close>

definition LUACMSGPACK_MAX_NESTING :: nat where
  "LUACMSGPACK_MAX_NESTING = 16"

text \<open>\<open>!isinf(x) && (T)(x) == (x)\<close> for \<open>int64_t\<close> and \<open>int\<close>.\<close>

definition IS_INT64_EQUIVALENT :: "u64 \<Rightarrow> bool" where
  "IS_INT64_EQUIVALENT x =
     (case d_int x of Some i \<Rightarrow> - (2 ^ 63) \<le> i \<and> i < 2 ^ 63 | None \<Rightarrow> False)"

definition IS_INT_EQUIVALENT :: "u64 \<Rightarrow> bool" where
  "IS_INT_EQUIVALENT x =
     (case d_int x of Some i \<Rightarrow> - (2 ^ 31) \<le> i \<and> i < 2 ^ 31 | None \<Rightarrow> False)"

definition mp_encode_lua_string :: "mp_buf \<Rightarrow> byte list \<Rightarrow> mp_buf" where
  "mp_encode_lua_string buf s = mp_encode_bytes buf s"

definition mp_encode_lua_bool :: "mp_buf \<Rightarrow> lua_val \<Rightarrow> mp_buf" where
  "mp_encode_lua_bool buf v = mp_buf_append buf [if lua_toboolean v then 0xc3 else 0xc2]"

text \<open>\<open>lua_tointeger\<close> of a double that holds an integer in range.\<close>

definition lua_tointeger :: "u64 \<Rightarrow> u64" where
  "lua_tointeger x = (case d_int x of Some i \<Rightarrow> of_int i | None \<Rightarrow> 0)"

definition mp_encode_lua_integer :: "mp_buf \<Rightarrow> u64 \<Rightarrow> mp_buf" where
  "mp_encode_lua_integer buf x = mp_encode_int buf (lua_tointeger x)"

definition mp_encode_lua_number :: "mp_buf \<Rightarrow> u64 \<Rightarrow> mp_buf" where
  "mp_encode_lua_number buf n =
     (if IS_INT64_EQUIVALENT n then mp_encode_lua_integer buf n else mp_encode_double buf n)"

definition mp_encode_lua_null :: "mp_buf \<Rightarrow> mp_buf" where
  "mp_encode_lua_null buf = mp_buf_append buf [0xc0]"

text \<open>The loop of \<open>table_is_an_array\<close> over the keys in \<open>lua_next\<close> order.\<close>

fun table_is_an_array_loop :: "lua_val list \<Rightarrow> int \<Rightarrow> int \<Rightarrow> bool" where
  "table_is_an_array_loop [] count mx = (mx = count)"
| "table_is_an_array_loop (k # ks) count mx =
     (case k of
        LNumber n \<Rightarrow>
          (case d_int n of
             Some i \<Rightarrow> if i \<le> 0 \<or> \<not> IS_INT_EQUIVALENT n then False
                       else table_is_an_array_loop ks (count + 1) (if i > mx then i else mx)
           | None \<Rightarrow> False)
      | _ \<Rightarrow> False)"

definition table_is_an_array :: "lua_table \<Rightarrow> bool" where
  "table_is_an_array t = table_is_an_array_loop (map fst t) 0 0"

function (sequential)
      mp_encode_lua_type :: "mp_buf \<Rightarrow> lua_val \<Rightarrow> nat \<Rightarrow> mp_buf"
  and mp_encode_lua_table :: "mp_buf \<Rightarrow> lua_table \<Rightarrow> nat \<Rightarrow> mp_buf"
  and mp_encode_lua_table_as_array :: "mp_buf \<Rightarrow> lua_table \<Rightarrow> nat \<Rightarrow> mp_buf"
  and mp_encode_lua_table_as_map :: "mp_buf \<Rightarrow> lua_table \<Rightarrow> nat \<Rightarrow> mp_buf"
where
  "mp_encode_lua_type buf v level =
     (case v of
        LString s \<Rightarrow> mp_encode_lua_string buf s
      | LBoolean b \<Rightarrow> mp_encode_lua_bool buf v
      | LNumber n \<Rightarrow> mp_encode_lua_number buf n
      | LTable t \<Rightarrow>
          if level = LUACMSGPACK_MAX_NESTING then mp_encode_lua_null buf
          else mp_encode_lua_table buf t level
      | _ \<Rightarrow> mp_encode_lua_null buf)"
| "mp_encode_lua_table buf t level =
     (if table_is_an_array t then mp_encode_lua_table_as_array buf t level
      else mp_encode_lua_table_as_map buf t level)"
| "mp_encode_lua_table_as_array buf t level =
     (let len = lua_objlen t in
      foldl (\<lambda>b j. mp_encode_lua_type b (lua_rawget t (array_index j)) (level + 1))
        (mp_encode_array buf (of_nat len)) [1..<len + 1])"
| "mp_encode_lua_table_as_map buf t level =
     foldl (\<lambda>b (k, v). mp_encode_lua_type (mp_encode_lua_type b k (level + 1)) v (level + 1))
       (mp_encode_map buf (of_nat (length t))) t"
  by pat_completeness auto
termination
proof (relation "measures [\<lambda>x. case x of
      Inl (Inl (_, v, _)) \<Rightarrow> size v
    | Inl (Inr (_, t, _)) \<Rightarrow> size (LTable t)
    | Inr (Inl (_, t, _)) \<Rightarrow> size (LTable t)
    | Inr (Inr (_, t, _)) \<Rightarrow> size (LTable t),
    \<lambda>x. case x of Inl (Inl _) \<Rightarrow> 2 | Inl (Inr _) \<Rightarrow> (1::nat) | _ \<Rightarrow> 0]", goal_cases)
  case 1
  then show ?case by simp
qed (use size_rawget size_table_entries in \<open>auto simp del: lua_val.size\<close>)


declare mp_encode_lua_type.simps [simp del] mp_encode_lua_table.simps [simp del]
  mp_encode_lua_table_as_array.simps [simp del] mp_encode_lua_table_as_map.simps [simp del]

section \<open>What the encoder writes\<close>

text \<open>The MessagePack layouts, with lengths and values as numbers.\<close>

definition raw_header :: "nat \<Rightarrow> byte list" where
  "raw_header n =
     (if n < 32 then [of_nat (0xa0 + n)] else if n \<le> 0xff then 0xd9 # be_bytes 1 n
      else if n \<le> 0xffff then 0xda # be_bytes 2 n else 0xdb # be_bytes 4 n)"

definition array_header :: "nat \<Rightarrow> byte list" where
  "array_header n =
     (if n \<le> 15 then [of_nat (0x90 + n)] else if n \<le> 0xffff then 0xdc # be_bytes 2 n
      else 0xdd # be_bytes 4 n)"

definition map_header :: "nat \<Rightarrow> byte list" where
  "map_header n =
     (if n \<le> 15 then [of_nat (0x80 + n)] else if n \<le> 0xffff then 0xde # be_bytes 2 n
      else 0xdf # be_bytes 4 n)"

definition int_layout :: "u64 \<Rightarrow> byte list" where
  "int_layout n =
     (if 0 \<le> sint n then
        (if sint n \<le> 127 then be_bytes 1 (unat n)
         else if sint n \<le> 0xff then 0xcc # be_bytes 1 (unat n)
         else if sint n \<le> 0xffff then 0xcd # be_bytes 2 (unat n)
         else if sint n \<le> 0xffffffff then 0xce # be_bytes 4 (unat n)
         else 0xcf # be_bytes 8 (unat n))
      else
        (if sint n \<ge> -32 then be_bytes 1 (unat n)
         else if sint n \<ge> -128 then 0xd0 # be_bytes 1 (unat n)
         else if sint n \<ge> -32768 then 0xd1 # be_bytes 2 (unat n)
         else if sint n \<ge> -2147483648 then 0xd2 # be_bytes 4 (unat n)
         else 0xd3 # be_bytes 8 (unat n)))"

definition double_layout :: "u64 \<Rightarrow> byte list" where
  "double_layout d =
     (case float_of_double d of Some f \<Rightarrow> 0xca # be_bytes 4 (unat f)
      | None \<Rightarrow> 0xcb # be_bytes 8 (unat d))"

definition number_layout :: "u64 \<Rightarrow> byte list" where
  "number_layout n = (if IS_INT64_EQUIVALENT n then int_layout (lua_tointeger n) else double_layout n)"

lemma ucast_byte: "(ucast (n :: u64) :: byte) = of_nat (unat n)"
  by simp

text \<open>A byte of an integer taken with mask and shift, for the masks the encoder uses.\<close>

lemma mask_byte:
  fixes n :: u64
  shows "(ucast (n AND 0xff) :: byte) = of_nat (unat n)"
    "(ucast (drop_bit 8 (n AND 0xff00)) :: byte) = of_nat (unat n div 256)"
    "(ucast (drop_bit 16 (n AND 0xff0000)) :: byte) = of_nat (unat n div 256 div 256)"
    "(ucast (drop_bit 24 (n AND 0xff000000)) :: byte) = of_nat (unat n div 256 div 256 div 256)"
    "(ucast (drop_bit 32 (n AND 0xff00000000)) :: byte)
       = of_nat (unat n div 256 div 256 div 256 div 256)"
    "(ucast (drop_bit 40 (n AND 0xff0000000000)) :: byte)
       = of_nat (unat n div 256 div 256 div 256 div 256 div 256)"
    "(ucast (drop_bit 48 (n AND 0xff000000000000)) :: byte)
       = of_nat (unat n div 256 div 256 div 256 div 256 div 256 div 256)"
    "(ucast (drop_bit 56 (n AND 0xff00000000000000)) :: byte)
       = of_nat (unat n div 256 div 256 div 256 div 256 div 256 div 256 div 256)"
  using byte_at [of 0 n] byte_at [of 8 n] byte_at [of 16 n] byte_at [of 24 n] byte_at [of 32 n]
    byte_at [of 40 n] byte_at [of 48 n] byte_at [of 56 n]
  by (simp_all add: push_bit_eq_mult div_mult2_eq flip: div_mult2_eq)


lemma nibble_or:
  "n < 32 \<Longrightarrow> (0xa0 OR of_nat n :: byte) = of_nat (0xa0 + n)"
  "n < 16 \<Longrightarrow> (0x90 OR of_nat n :: byte) = of_nat (0x90 + n)"
  "n < 16 \<Longrightarrow> (0x80 OR of_nat n :: byte) = of_nat (0x80 + n)"
proof -
  have a: "list_all (\<lambda>n. (0xa0 OR of_nat n :: byte) = of_nat (0xa0 + n)) [0..<32]" by code_simp
  show "n < 32 \<Longrightarrow> (0xa0 OR of_nat n :: byte) = of_nat (0xa0 + n)"
    using a unfolding list_all_iff by (metis atLeastLessThan_iff le0 set_upt)
  have b: "list_all (\<lambda>n. (0x90 OR of_nat n :: byte) = of_nat (0x90 + n)
      \<and> (0x80 OR of_nat n :: byte) = of_nat (0x80 + n)) [0..<16]" by code_simp
  show "n < 16 \<Longrightarrow> (0x90 OR of_nat n :: byte) = of_nat (0x90 + n)"
    "n < 16 \<Longrightarrow> (0x80 OR of_nat n :: byte) = of_nat (0x80 + n)"
    using b unfolding list_all_iff by (metis atLeastLessThan_iff le0 set_upt)+
qed

lemma of_nat_u64:
  assumes "n < 2 ^ 32"
  shows "unat (of_nat n :: u64) = n" "sint (of_nat n :: u64) = int n"
proof -
  have n: "n < 2 ^ 63" using assms by simp
  then show "unat (of_nat n :: u64) = n" by (simp add: unat_of_nat)
  have "sint (word_of_int (int n) :: u64) = signed_take_bit (LENGTH(64) - 1) (int n)"
    by (rule sint_sbintrunc')
  then have "sint (of_nat n :: u64) = signed_take_bit 63 (int n)" by simp
  also have "\<dots> = int n" by (rule signed_take_bit_int_eq_self) (use n in simp_all)
  finally show "sint (of_nat n :: u64) = int n" .
qed

lemma low_nibble:
  fixes n :: u64
  assumes "unat n \<le> 15"
  shows "(ucast (n AND 0xf) :: byte) = of_nat (unat n)"
proof -
  have "(0xf :: u64) = mask 4" by (simp add: mask_eq_exp_minus_1)
  then have "n AND 0xf = take_bit 4 n" by (simp only: take_bit_eq_mask)
  also have "\<dots> = n"
  proof (rule word_unat_eq_iff [THEN iffD2])
    show "unat (take_bit 4 n) = unat n"
      unfolding unsigned_take_bit_eq by (rule take_bit_nat_eq_self) (use assms in simp)
  qed
  finally show ?thesis by (simp only: ucast_byte)
qed

lemma mp_encode_bytes_spec:
  assumes "mp_buf_valid buf" "length s < 2 ^ 32"
  shows "mp_buf_valid (mp_encode_bytes buf s)"
    "mp_buf_contents (mp_encode_bytes buf s) = mp_buf_contents buf @ raw_header (length s) @ s"
proof -
  show "mp_buf_valid (mp_encode_bytes buf s)"
    using assms(1) by (simp add: mp_encode_bytes_def Let_def mpb.valid_append)
  note u = of_nat_u64(1) [OF assms(2)]
  show "mp_buf_contents (mp_encode_bytes buf s) = mp_buf_contents buf @ raw_header (length s) @ s"
    unfolding mp_encode_bytes_def raw_header_def Let_def mpb.contents_append2 [OF assms(1)]
      mask_byte ucast_byte [of "of_nat (length s)"] be_bytes_expand word_less_nat_alt
      word_le_nat_alt u
    by (simp add: nibble_or del: of_nat_add)
qed

lemma mp_encode_array_spec:
  assumes "mp_buf_valid buf" "n < 2 ^ 32"
  shows "mp_buf_valid (mp_encode_array buf (of_nat n))"
    "mp_buf_contents (mp_encode_array buf (of_nat n)) = mp_buf_contents buf @ array_header n"
proof -
  show "mp_buf_valid (mp_encode_array buf (of_nat n))"
    using assms(1) by (simp add: mp_encode_array_def mpb.valid_append)
  note u = of_nat_u64 [OF assms(2)]
  have l: "n \<le> 15 \<Longrightarrow> (ucast ((of_nat n :: u64) AND 0xf) :: byte) = of_nat n"
    using low_nibble [of "of_nat n"] u by simp
  show "mp_buf_contents (mp_encode_array buf (of_nat n)) = mp_buf_contents buf @ array_header n"
    unfolding mp_encode_array_def array_header_def mpb.contents_append [OF assms(1)]
      mask_byte be_bytes_expand u
    by (simp add: nibble_or l del: of_nat_add)
qed

lemma mp_encode_map_spec:
  assumes "mp_buf_valid buf" "n < 2 ^ 32"
  shows "mp_buf_valid (mp_encode_map buf (of_nat n))"
    "mp_buf_contents (mp_encode_map buf (of_nat n)) = mp_buf_contents buf @ map_header n"
proof -
  show "mp_buf_valid (mp_encode_map buf (of_nat n))"
    using assms(1) by (simp add: mp_encode_map_def mpb.valid_append)
  note u = of_nat_u64 [OF assms(2)]
  have l: "n \<le> 15 \<Longrightarrow> (ucast ((of_nat n :: u64) AND 0xf) :: byte) = of_nat n"
    using low_nibble [of "of_nat n"] u by simp
  show "mp_buf_contents (mp_encode_map buf (of_nat n)) = mp_buf_contents buf @ map_header n"
    unfolding mp_encode_map_def map_header_def mpb.contents_append [OF assms(1)]
      mask_byte be_bytes_expand u
    by (simp add: nibble_or l del: of_nat_add)
qed

lemma memrevifle_rev: "memrevifle m = rev m"
proof (induction m rule: memrevifle.induct)
  case (1 m)
  show ?case
  proof (cases "length m < 2")
    case True
    then show ?thesis by (cases m) (auto simp: memrevifle.simps)
  next
    case False
    then obtain a x b where m: "m = a # x @ [b]"
      by (metis append_butlast_last_id length_Cons less_2_cases_iff list.exhaust list.size(3))
    have "memrevifle (butlast (tl m)) = rev (butlast (tl m))" using "1.IH" False by blast
    then show ?thesis unfolding m by (subst memrevifle.simps) simp
  qed
qed

lemma mp_encode_int_spec:
  assumes "mp_buf_valid buf"
  shows "mp_buf_valid (mp_encode_int buf n)"
    "mp_buf_contents (mp_encode_int buf n) = mp_buf_contents buf @ int_layout n"
proof -
  show "mp_buf_valid (mp_encode_int buf n)"
    using assms(1) by (simp add: mp_encode_int_def Let_def mpb.valid_append)
  have l: "0 \<le> sint n \<Longrightarrow> sint n \<le> 127 \<Longrightarrow> (ucast (n AND 0x7f) :: byte) = of_nat (unat n)"
  proof -
    assume n: "0 \<le> sint n" "sint n \<le> 127"
    then have "uint n = sint n" unfolding uint_sint by (intro take_bit_int_eq_self) simp_all
    then have u: "unat n < 2 ^ 7" using n by (simp add: unat_eq_nat_uint nat_less_iff)
    have "(0x7f :: u64) = mask 7" by (simp add: mask_eq_exp_minus_1)
    then have "n AND 0x7f = take_bit 7 n" by (simp only: take_bit_eq_mask)
    also have "\<dots> = n"
    proof (rule word_unat_eq_iff [THEN iffD2])
      show "unat (take_bit 7 n) = unat n"
        unfolding unsigned_take_bit_eq by (rule take_bit_nat_eq_self) (rule u)
    qed
    finally show ?thesis by (simp only: ucast_byte)
  qed
  show "mp_buf_contents (mp_encode_int buf n) = mp_buf_contents buf @ int_layout n"
    unfolding mp_encode_int_def int_layout_def Let_def mpb.contents_append [OF assms(1)]
      be_bytes_expand mask_byte ucast_byte [of n]
    by (cases "0 \<le> sint n"; cases "sint n \<le> 127")
      (simp_all only: l if_True if_False append_Cons append_Nil simp_thms)
qed

lemma mp_encode_double_spec:
  assumes "mp_buf_valid buf"
  shows "mp_buf_valid (mp_encode_double buf d)"
    "mp_buf_contents (mp_encode_double buf d) = mp_buf_contents buf @ double_layout d"
  using assms
  by (simp_all add: mp_encode_double_def double_layout_def mpb.valid_append mpb.contents_append
      memrevifle_rev le_bytes_def split: option.split)

lemma mp_encode_lua_number_spec:
  assumes "mp_buf_valid buf"
  shows "mp_buf_valid (mp_encode_lua_number buf d)"
    "mp_buf_contents (mp_encode_lua_number buf d) = mp_buf_contents buf @ number_layout d"
  using assms
  by (simp_all add: mp_encode_lua_number_def number_layout_def mp_encode_lua_integer_def
      mp_encode_int_spec mp_encode_double_spec)


section \<open>The traversal writes the layout of the value\<close>

function mp_layout :: "nat \<Rightarrow> lua_val \<Rightarrow> byte list" where
  "mp_layout level v =
     (case v of
        LString s \<Rightarrow> raw_header (length s) @ s
      | LBoolean b \<Rightarrow> [if b then 0xc3 else 0xc2]
      | LNumber n \<Rightarrow> number_layout n
      | LTable t \<Rightarrow>
          if level = LUACMSGPACK_MAX_NESTING then [0xc0]
          else if table_is_an_array t then
            array_header (lua_objlen t) @
            concat (map (\<lambda>j. mp_layout (level + 1) (lua_rawget t (array_index j))) [1..<lua_objlen t + 1])
          else
            map_header (length t) @
            concat (map (\<lambda>(k, v). mp_layout (level + 1) k @ mp_layout (level + 1) v) t)
      | _ \<Rightarrow> [0xc0])"
  by pat_completeness auto
termination
  by (relation "measure (\<lambda>(level, v). size v)")
    (use size_rawget size_table_entries in \<open>auto simp del: lua_val.size\<close>)

declare mp_layout.simps [simp del]

lemma mp_layout_simps [simp]:
  "mp_layout l LNil = [0xc0]" "mp_layout l (LOpaque i) = [0xc0]"
  "mp_layout l (LBoolean b) = [if b then 0xc3 else 0xc2]"
  "mp_layout l (LNumber n) = number_layout n"
  "mp_layout l (LString s) = raw_header (length s) @ s"
  "mp_layout l (LTable t) =
     (if l = LUACMSGPACK_MAX_NESTING then [0xc0]
      else if table_is_an_array t then
        array_header (lua_objlen t) @
        concat (map (\<lambda>j. mp_layout (l + 1) (lua_rawget t (array_index j))) [1..<lua_objlen t + 1])
      else map_header (length t) @
        concat (map (\<lambda>(k, v). mp_layout (l + 1) k @ mp_layout (l + 1) v) t))"
  by (simp_all add: mp_layout.simps)

lemma mp_encode_lua_type_simps [simp]:
  "mp_encode_lua_type buf LNil l = mp_encode_lua_null buf"
  "mp_encode_lua_type buf (LOpaque i) l = mp_encode_lua_null buf"
  "mp_encode_lua_type buf (LBoolean b) l = mp_encode_lua_bool buf (LBoolean b)"
  "mp_encode_lua_type buf (LNumber n) l = mp_encode_lua_number buf n"
  "mp_encode_lua_type buf (LString s) l = mp_encode_lua_string buf s"
  "mp_encode_lua_type buf (LTable t) l =
     (if l = LUACMSGPACK_MAX_NESTING then mp_encode_lua_null buf else mp_encode_lua_table buf t l)"
  by (simp_all add: mp_encode_lua_type.simps)

text \<open>Lengths that fit the 32-bit length fields.\<close>

function mp_sized :: "lua_val \<Rightarrow> bool" where
  "mp_sized v =
     (case v of
        LString s \<Rightarrow> length s < 2 ^ 32
      | LTable t \<Rightarrow> length t < 2 ^ 32 \<and> (\<forall>(k, v) \<in> set t. mp_sized k \<and> mp_sized v)
      | _ \<Rightarrow> True)"
  by pat_completeness auto
termination
  by (relation "measure size") (use size_table_entries in \<open>auto simp del: lua_val.size\<close>)

declare mp_sized.simps [simp del]

lemma mp_sized_simps [simp]:
  "mp_sized LNil" "mp_sized (LBoolean b)" "mp_sized (LNumber n)" "mp_sized (LOpaque i)"
  "mp_sized (LString s) \<longleftrightarrow> length s < 2 ^ 32"
  "mp_sized (LTable t) \<longleftrightarrow> length t < 2 ^ 32 \<and> (\<forall>(k, v) \<in> set t. mp_sized k \<and> mp_sized v)"
  by (simp_all add: mp_sized.simps)

lemma mp_sized_rawget: "mp_sized (LTable t) \<Longrightarrow> mp_sized (lua_rawget t k)"
proof -
  have "\<forall>(k, v) \<in> set t. mp_sized v \<Longrightarrow> mp_sized (lua_rawget t k)"
    by (induction t) auto
  then show "mp_sized (LTable t) \<Longrightarrow> mp_sized (lua_rawget t k)" by auto
qed

lemma table_is_an_array_loop_length:
  "table_is_an_array_loop ks c m \<Longrightarrow> 0 \<le> m \<Longrightarrow> m < 2 ^ 31 \<Longrightarrow> c + int (length ks) < 2 ^ 31"
proof (induction ks c m rule: table_is_an_array_loop.induct)
  case (1 c m)
  then show ?case by simp
next
  case (2 k ks c m)
  then obtain n i where k: "k = LNumber n" "d_int n = Some i" "0 < i" "IS_INT_EQUIVALENT n"
    and loop: "table_is_an_array_loop ks (c + 1) (if m < i then i else m)"
    by (auto split: lua_val.splits option.splits if_splits)
  have i: "i < 2 ^ 31" using k by (simp add: IS_INT_EQUIVALENT_def)
  have "c + 1 + int (length ks) < 2 ^ 31"
    using "2.IH" [OF k(1) k(2)] k loop i "2.prems" by auto
  then show ?case by simp
qed

lemma lua_objlen_le: "lua_objlen t \<le> length t + 1"
  unfolding lua_objlen_def by (metis One_nat_def add.commute add_diff_cancel_left' length_takeWhile_le
      length_upt nat_1_add_1 diff_Suc_1 add_Suc_right)

lemma lua_objlen_array:
  assumes "table_is_an_array t"
  shows "lua_objlen t < 2 ^ 32"
proof -
  have "int (length t) < 2 ^ 31"
    using table_is_an_array_loop_length [of "map fst t" 0 0] assms by (simp add: table_is_an_array_def)
  then show ?thesis using lua_objlen_le [of t] by simp
qed

text \<open>The two table traversals, given that the encoder of their elements writes its layout.\<close>

lemma encode_array_elements:
  assumes buf: "mp_buf_valid buf" and t: "mp_sized (LTable t)" "table_is_an_array t"
    and IH: "\<And>b j. mp_buf_valid b \<Longrightarrow> mp_sized (lua_rawget t (array_index j)) \<Longrightarrow>
      j \<in> set [1..<lua_objlen t + 1] \<Longrightarrow>
      mp_buf_valid (mp_encode_lua_type b (lua_rawget t (array_index j)) l) \<and>
      mp_buf_contents (mp_encode_lua_type b (lua_rawget t (array_index j)) l) =
      mp_buf_contents b @ mp_layout l (lua_rawget t (array_index j))"
  shows "mp_buf_valid (foldl (\<lambda>b j. mp_encode_lua_type b (lua_rawget t (array_index j)) l)
        (mp_encode_array buf (of_nat (lua_objlen t))) [1..<lua_objlen t + 1]) \<and>
      mp_buf_contents (foldl (\<lambda>b j. mp_encode_lua_type b (lua_rawget t (array_index j)) l)
        (mp_encode_array buf (of_nat (lua_objlen t))) [1..<lua_objlen t + 1]) =
      mp_buf_contents buf @ array_header (lua_objlen t) @
        concat (map (\<lambda>j. mp_layout l (lua_rawget t (array_index j))) [1..<lua_objlen t + 1])"
proof -
  note b0 = mp_encode_array_spec [OF buf lua_objlen_array [OF t(2)]]
  show ?thesis
    using mpb.foldl_append [OF b0(1), of "[1..<lua_objlen t + 1]"
        "\<lambda>b j. mp_encode_lua_type b (lua_rawget t (array_index j)) l"
        "\<lambda>j. mp_layout l (lua_rawget t (array_index j))"] IH mp_sized_rawget [OF t(1)] b0(2)
    by (simp del: upt_Suc)
qed

lemma encode_map_pairs:
  assumes buf: "mp_buf_valid buf" and t: "mp_sized (LTable t)"
    and IH: "\<And>b k v. mp_buf_valid b \<Longrightarrow> (k, v) \<in> set t \<Longrightarrow> mp_sized k \<Longrightarrow>
        mp_buf_valid (mp_encode_lua_type b k l) \<and>
        mp_buf_contents (mp_encode_lua_type b k l) = mp_buf_contents b @ mp_layout l k"
      "\<And>b k v. mp_buf_valid b \<Longrightarrow> (k, v) \<in> set t \<Longrightarrow> mp_sized v \<Longrightarrow>
        mp_buf_valid (mp_encode_lua_type b v l) \<and>
        mp_buf_contents (mp_encode_lua_type b v l) = mp_buf_contents b @ mp_layout l v"
  defines "f \<equiv> \<lambda>b (k, v). mp_encode_lua_type (mp_encode_lua_type b k l) v l"
  shows "mp_buf_valid (foldl f (mp_encode_map buf (of_nat (length t))) t) \<and>
      mp_buf_contents (foldl f (mp_encode_map buf (of_nat (length t))) t) =
      mp_buf_contents buf @ map_header (length t) @
        concat (map (\<lambda>(k, v). mp_layout l k @ mp_layout l v) t)"
proof -
  have len: "length t < 2 ^ 32" and sz: "\<And>k v. (k, v) \<in> set t \<Longrightarrow> mp_sized k \<and> mp_sized v"
    using t by auto
  note b0 = mp_encode_map_spec [OF buf len]
  have "mp_buf_valid (f b x) \<and> mp_buf_contents (f b x) =
      mp_buf_contents b @ (case x of (k, v) \<Rightarrow> mp_layout l k @ mp_layout l v)"
    if b: "mp_buf_valid b" and x: "x \<in> set t" for b x
  proof -
    obtain k v where kv: "x = (k, v)" "(k, v) \<in> set t" using x by (metis surj_pair)
    note 1 = IH(1) [OF b kv(2) sz [OF kv(2), THEN conjunct1]]
    note 2 = IH(2) [OF 1 [THEN conjunct1] kv(2) sz [OF kv(2), THEN conjunct2]]
    from 1 2 show ?thesis by (simp add: f_def kv(1))
  qed
  from mpb.foldl_append [OF b0(1) this, of t] b0(2) show ?thesis by simp
qed

lemma mp_encode_lua_type_layout:
  assumes "mp_buf_valid buf" "mp_sized v"
  shows "mp_buf_valid (mp_encode_lua_type buf v level) \<and>
    mp_buf_contents (mp_encode_lua_type buf v level) = mp_buf_contents buf @ mp_layout level v"
  using assms
proof (induction level v arbitrary: buf rule: mp_layout.induct)
  case (1 level v)
  show ?case
  proof (cases v)
    case (LTable t)
    note sized = 1(5) [unfolded LTable]
    show ?thesis
    proof (cases "level = LUACMSGPACK_MAX_NESTING")
      case True
      then show ?thesis using 1(4) unfolding LTable
        by (simp add: mp_encode_lua_null_def mpb.contents_append mpb.valid_append)
    next
      case lev: False
      show ?thesis
      proof (cases "table_is_an_array t")
        case True
        from encode_array_elements [OF 1(4) sized True 1(1) [OF LTable lev True]] lev True
        show ?thesis unfolding LTable
          by (simp add: mp_encode_lua_table.simps mp_encode_lua_table_as_array.simps Let_def
              del: upt_Suc)
      next
        case False
        from encode_map_pairs [OF 1(4) sized 1(2) [OF LTable lev False _ refl]
            1(3) [OF LTable lev False _ refl]] lev False
        show ?thesis unfolding LTable
          by (simp add: mp_encode_lua_table.simps mp_encode_lua_table_as_map.simps)
      qed
    qed
  qed (use 1(4,5) in \<open>simp_all add: mp_encode_lua_string_def
      mp_encode_lua_bool_def mp_encode_lua_null_def lua_toboolean_def mpb.contents_append mpb.valid_append
      mp_encode_bytes_spec mp_encode_lua_number_spec\<close>)
qed

end
