(* ===== verification/MsgPackDec.thy ===== *)
theory MsgPackDec
  imports MsgPackEnc
begin

text \<open>
  The MessagePack decoder of \<open>lib/lua-cmsgpack/lua_cmsgpack.c\<close>: the cursor \<open>mp_cur\<close>, the
  decoding of one object, and the entry points \<open>mp_pack\<close> and \<open>mp_unpack\<close> that Lua and the
  analyzer threads call. The recursion carries fuel; twice the number of bytes left, plus one,
  is proved to be enough, so decoding always returns.
\<close>

section \<open>The cursor\<close>

definition MP_CUR_ERROR_NONE :: nat where "MP_CUR_ERROR_NONE = 0"
definition MP_CUR_ERROR_EOF :: nat where "MP_CUR_ERROR_EOF = 1"
definition MP_CUR_ERROR_BADFMT :: nat where "MP_CUR_ERROR_BADFMT = 2"

record mp_cur =
  mc_p :: "byte list"   \<comment> \<open>the memory from the cursor on\<close>
  mc_left :: nat

definition mp_cur_init :: "byte list \<Rightarrow> nat \<Rightarrow> mp_cur" where
  "mp_cur_init s len = \<lparr>mc_p = s, mc_left = len\<rparr>"

definition mp_cur_consume :: "mp_cur \<Rightarrow> nat \<Rightarrow> mp_cur" where
  "mp_cur_consume c n = c\<lparr>mc_p := drop n (mc_p c), mc_left := mc_left c - n\<rparr>"

text \<open>
  What decoding one object gives: the value pushed and the cursor behind it; the \<open>err\<close> the
  cursor was left with; an error raised by the Lua API; or too little fuel.
\<close>

datatype mp_result =
    MpOk lua_val mp_cur
  | MpErr nat
  | MpThrow string
  | MpFuel

definition mp_cur_need :: "mp_cur \<Rightarrow> nat \<Rightarrow> mp_result \<Rightarrow> mp_result" where
  "mp_cur_need c len k = (if mc_left c < len then MpErr MP_CUR_ERROR_EOF else k)"

section \<open>Decoding one object\<close>

text \<open>\<open>(b1 << 8*(n-1)) | ... | bn\<close> at the width of the result.\<close>

definition be_or :: "byte list \<Rightarrow> 'a::len word" where
  "be_or bs = foldl (\<lambda>a b. push_bit 8 a OR ucast b) 0 bs"

definition lua_pushinteger :: "int \<Rightarrow> lua_val" where
  "lua_pushinteger i = LNumber (i2d i)"

text \<open>The \<open>i\<close>-th byte and the bytes \<open>i..i+n-1\<close> at the cursor.\<close>

definition mp_byte :: "mp_cur \<Rightarrow> nat \<Rightarrow> byte" where
  "mp_byte c i = mc_p c ! i"

definition mp_bytes :: "mp_cur \<Rightarrow> nat \<Rightarrow> nat \<Rightarrow> byte list" where
  "mp_bytes c i n = take n (drop i (mc_p c))"

fun mp_decode_to_lua_type :: "nat \<Rightarrow> mp_cur \<Rightarrow> mp_result"
  and mp_decode_to_lua_array :: "nat \<Rightarrow> mp_cur \<Rightarrow> lua_table \<Rightarrow> nat \<Rightarrow> nat \<Rightarrow> mp_result"
  and mp_decode_to_lua_hash :: "nat \<Rightarrow> mp_cur \<Rightarrow> lua_table \<Rightarrow> nat \<Rightarrow> mp_result"
where
  "mp_decode_to_lua_array 0 c t index len = MpFuel"
| "mp_decode_to_lua_array (Suc f) c t index len =
     (case len of
        0 \<Rightarrow> MpOk (LTable t) c
      | Suc len' \<Rightarrow>
          (case mp_decode_to_lua_type f c of
             MpOk v c' \<Rightarrow>
               (case lua_settable t (array_index index) v of
                  Inl e \<Rightarrow> MpThrow e
                | Inr t' \<Rightarrow> mp_decode_to_lua_array f c' t' (index + 1) len')
           | r \<Rightarrow> r))"
| "mp_decode_to_lua_hash 0 c t len = MpFuel"
| "mp_decode_to_lua_hash (Suc f) c t len =
     (case len of
        0 \<Rightarrow> MpOk (LTable t) c
      | Suc len' \<Rightarrow>
          (case mp_decode_to_lua_type f c of
             MpOk k c1 \<Rightarrow>
               (case mp_decode_to_lua_type f c1 of
                  MpOk v c2 \<Rightarrow>
                    (case lua_settable t k v of
                       Inl e \<Rightarrow> MpThrow e
                     | Inr t' \<Rightarrow> mp_decode_to_lua_hash f c2 t' len')
                | r \<Rightarrow> r)
           | r \<Rightarrow> r))"
| "mp_decode_to_lua_type 0 c = MpFuel"
| "mp_decode_to_lua_type (Suc f) c =
     mp_cur_need c 1
      (let p0 = mp_byte c 0 in
       if p0 = 0xcc then
         mp_cur_need c 2 (MpOk (lua_pushinteger (uint (mp_byte c 1))) (mp_cur_consume c 2))
       else if p0 = 0xd0 then
         mp_cur_need c 2 (MpOk (lua_pushinteger (sint (mp_byte c 1))) (mp_cur_consume c 2))
       else if p0 = 0xcd then
         mp_cur_need c 3
           (MpOk (lua_pushinteger (uint (be_or (mp_bytes c 1 2) :: u32))) (mp_cur_consume c 3))
       else if p0 = 0xd1 then
         mp_cur_need c 3
           (MpOk (lua_pushinteger (sint (be_or (mp_bytes c 1 2) :: 16 word))) (mp_cur_consume c 3))
       else if p0 = 0xce then
         mp_cur_need c 5
           (MpOk (lua_pushinteger (uint (be_or (mp_bytes c 1 4) :: u32))) (mp_cur_consume c 5))
       else if p0 = 0xd2 then
         mp_cur_need c 5
           (MpOk (lua_pushinteger (sint (be_or (mp_bytes c 1 4) :: u32))) (mp_cur_consume c 5))
       else if p0 = 0xcf then
         mp_cur_need c 9
           (MpOk (lua_pushinteger (sint (be_or (mp_bytes c 1 8) :: u64))) (mp_cur_consume c 9))
       else if p0 = 0xd3 then
         mp_cur_need c 9
           (MpOk (lua_pushinteger (sint (be_or (mp_bytes c 1 8) :: u64))) (mp_cur_consume c 9))
       else if p0 = 0xc0 then MpOk LNil (mp_cur_consume c 1)
       else if p0 = 0xc3 then MpOk (LBoolean True) (mp_cur_consume c 1)
       else if p0 = 0xc2 then MpOk (LBoolean False) (mp_cur_consume c 1)
       else if p0 = 0xca then
         mp_cur_need c 5
           (MpOk (LNumber (double_of_float (of_nat (le_nat (memrevifle (mp_bytes c 1 4))))))
              (mp_cur_consume c 5))
       else if p0 = 0xcb then
         mp_cur_need c 9
           (MpOk (LNumber (of_nat (le_nat (memrevifle (mp_bytes c 1 8))))) (mp_cur_consume c 9))
       else if p0 = 0xd9 then
         mp_cur_need c 2
           (let l = unat (mp_byte c 1) in
            mp_cur_need c (2 + l) (MpOk (LString (mp_bytes c 2 l)) (mp_cur_consume c (2 + l))))
       else if p0 = 0xda then
         mp_cur_need c 3
           (let l = unat (be_or (mp_bytes c 1 2) :: u32) in
            mp_cur_need c (3 + l) (MpOk (LString (mp_bytes c 3 l)) (mp_cur_consume c (3 + l))))
       else if p0 = 0xdb then
         mp_cur_need c 5
           (let l = unat (be_or (mp_bytes c 1 4) :: u64); c' = mp_cur_consume c 5 in
            mp_cur_need c' l (MpOk (LString (mp_bytes c' 0 l)) (mp_cur_consume c' l)))
       else if p0 = 0xdc then
         mp_cur_need c 3
           (mp_decode_to_lua_array f (mp_cur_consume c 3) [] 1
              (unat (be_or (mp_bytes c 1 2) :: u32)))
       else if p0 = 0xdd then
         mp_cur_need c 5
           (mp_decode_to_lua_array f (mp_cur_consume c 5) [] 1
              (unat (be_or (mp_bytes c 1 4) :: u64)))
       else if p0 = 0xde then
         mp_cur_need c 3
           (mp_decode_to_lua_hash f (mp_cur_consume c 3) []
              (unat (be_or (mp_bytes c 1 2) :: u32)))
       else if p0 = 0xdf then
         mp_cur_need c 5
           (mp_decode_to_lua_hash f (mp_cur_consume c 5) []
              (unat (be_or (mp_bytes c 1 4) :: u64)))
       else if p0 AND 0x80 = 0 then
         MpOk (lua_pushinteger (uint p0)) (mp_cur_consume c 1)
       else if p0 AND 0xe0 = 0xe0 then
         MpOk (lua_pushinteger (sint p0)) (mp_cur_consume c 1)
       else if p0 AND 0xe0 = 0xa0 then
         (let l = unat (p0 AND 0x1f) in
          mp_cur_need c (1 + l) (MpOk (LString (mp_bytes c 1 l)) (mp_cur_consume c (1 + l))))
       else if p0 AND 0xf0 = 0x90 then
         mp_decode_to_lua_array f (mp_cur_consume c 1) [] 1 (unat (p0 AND 0xf))
       else if p0 AND 0xf0 = 0x80 then
         mp_decode_to_lua_hash f (mp_cur_consume c 1) [] (unat (p0 AND 0xf))
       else MpErr MP_CUR_ERROR_BADFMT)"

declare mp_decode_to_lua_type.simps(2) [simp del]

section \<open>Packing and unpacking streams\<close>

datatype unpack_error =
    MpInvalidRequest int nat
  | MpStartOffset int nat
  | MpMissingBytes
  | MpBadData
  | MpLuaError string
  | MpNoFuel

text \<open>The loop of \<open>mp_unpack_full\<close>; the first argument bounds the iterations by the bytes left.\<close>

fun mp_unpack_loop :: "nat \<Rightarrow> mp_cur \<Rightarrow> int \<Rightarrow> int \<Rightarrow> lua_val list
    \<Rightarrow> unpack_error + lua_val list \<times> mp_cur" where
  "mp_unpack_loop n c cnt limit vals =
     (if mc_left c > 0 \<and> cnt < limit then
        (case n of
           0 \<Rightarrow> Inl MpNoFuel
         | Suc n' \<Rightarrow>
             (case mp_decode_to_lua_type (2 * mc_left c + 1) c of
                MpOk v c' \<Rightarrow> mp_unpack_loop n' c' (cnt + 1) limit (vals @ [v])
              | MpErr e \<Rightarrow>
                  if e = MP_CUR_ERROR_EOF then Inl MpMissingBytes else Inl MpBadData
              | MpThrow e \<Rightarrow> Inl (MpLuaError e)
              | MpFuel \<Rightarrow> Inl MpNoFuel))
      else Inr (vals, c))"

declare mp_unpack_loop.simps [simp del]

definition INT_MAX :: int where "INT_MAX = 2147483647"

text \<open>The values it leaves above the arguments; with a limit or offset the next offset is first.\<close>

definition mp_unpack_full :: "byte list \<Rightarrow> int \<Rightarrow> int \<Rightarrow> unpack_error + lua_val list" where
  "mp_unpack_full s limit offset =
     (let len = length s; decode_all = (limit = 0 \<and> offset = 0) in
      if offset < 0 \<or> limit < 0 then Inl (MpInvalidRequest offset len)
      else if offset > int len then Inl (MpStartOffset offset len)
      else
        let c = mp_cur_init (drop (nat offset) s) (len - nat offset) in
        (case mp_unpack_loop (mc_left c) c 0 (if decode_all then INT_MAX else limit) [] of
           Inl e \<Rightarrow> Inl e
         | Inr (vals, c') \<Rightarrow>
             if decode_all then Inr vals
             else Inr (lua_pushinteger (if mc_left c' = 0 then -1 else int (len - mc_left c')) # vals)))"

definition mp_unpack :: "byte list \<Rightarrow> unpack_error + lua_val list" where
  "mp_unpack s = mp_unpack_full s 0 0"

definition mp_unpack_one :: "byte list \<Rightarrow> int \<Rightarrow> unpack_error + lua_val list" where
  "mp_unpack_one s offset = mp_unpack_full s 1 offset"

definition mp_unpack_limit :: "byte list \<Rightarrow> int \<Rightarrow> int \<Rightarrow> unpack_error + lua_val list" where
  "mp_unpack_limit s limit offset = mp_unpack_full s limit offset"

text \<open>After each argument the buffer is kept and marked empty.\<close>

definition mp_buf_rewind :: "mp_buf \<Rightarrow> mp_buf" where
  "mp_buf_rewind buf = buf\<lparr>mb_free := mb_free buf + mb_len buf, mb_len := 0\<rparr>"

fun mp_pack_loop :: "mp_buf \<Rightarrow> lua_val list \<Rightarrow> byte list list" where
  "mp_pack_loop buf [] = []"
| "mp_pack_loop buf (v # vs) =
     (let buf' = mp_encode_lua_type buf v 0
      in mp_buf_contents buf' # mp_pack_loop (mp_buf_rewind buf') vs)"

text \<open>\<open>mp_pack\<close> of all values on the stack: the packed stream it pushes.\<close>

definition mp_pack :: "lua_stack \<Rightarrow> string + byte list" where
  "mp_pack L =
     (if lua_gettop L = 0 then Inl ''MessagePack pack needs input.''
      else Inr (concat (mp_pack_loop mp_buf_new L)))"

text \<open>\<open>mp_safe\<close> turns a raised error into the two results nil and the error.\<close>

definition mp_safe :: "('e \<Rightarrow> lua_val) \<Rightarrow> 'e + lua_val list \<Rightarrow> lua_val list" where
  "mp_safe err_value r = (case r of Inr vals \<Rightarrow> vals | Inl e \<Rightarrow> [LNil, err_value e])"

end
