(* ===== verification/MsgPackRT.thy ===== *)
theory MsgPackRT
  imports MsgPackDec
begin

text \<open>
  What holds of encoder and decoder together: decoding returns (enough fuel), reads only the
  bytes it was given, consumes what it reports, and gives back the values that were packed.
\<close>

section \<open>The shape of one decoding step\<close>

text \<open>
  One step fails, gives a value after at least one byte, or continues with the elements of a
  table after at least one byte; which of these does not depend on the fuel.
\<close>

definition step_shape :: "mp_cur \<Rightarrow> (nat \<Rightarrow> mp_result) \<Rightarrow> bool" where
  "step_shape c F \<longleftrightarrow>
     (\<exists>e. F = (\<lambda>f. MpErr e)) \<or>
     (\<exists>v n. 1 \<le> n \<and> n \<le> mc_left c \<and> F = (\<lambda>f. MpOk v (mp_cur_consume c n))) \<or>
     (\<exists>n len. 1 \<le> n \<and> n \<le> mc_left c \<and>
        F = (\<lambda>f. mp_decode_to_lua_array f (mp_cur_consume c n) [] 1 len)) \<or>
     (\<exists>n len. 1 \<le> n \<and> n \<le> mc_left c \<and>
        F = (\<lambda>f. mp_decode_to_lua_hash f (mp_cur_consume c n) [] len))"

lemma shape_ok: "1 \<le> n \<Longrightarrow> n \<le> mc_left c \<Longrightarrow> step_shape c (\<lambda>f. MpOk v (mp_cur_consume c n))"
  by (auto simp: step_shape_def)

lemma shape_err: "step_shape c (\<lambda>f. MpErr e)"
  by (auto simp: step_shape_def)

lemma shape_array: "1 \<le> n \<Longrightarrow> n \<le> mc_left c \<Longrightarrow>
    step_shape c (\<lambda>f. mp_decode_to_lua_array f (mp_cur_consume c n) [] 1 len)"
  unfolding step_shape_def by blast

lemma shape_hash: "1 \<le> n \<Longrightarrow> n \<le> mc_left c \<Longrightarrow>
    step_shape c (\<lambda>f. mp_decode_to_lua_hash f (mp_cur_consume c n) [] len)"
  unfolding step_shape_def by blast

lemma shape_if: "step_shape c A \<Longrightarrow> step_shape c B \<Longrightarrow> step_shape c (\<lambda>f. if b then A f else B f)"
  by (cases b) auto

lemma shape_need:
  "(n \<le> mc_left c \<Longrightarrow> step_shape c K) \<Longrightarrow> step_shape c (\<lambda>f. mp_cur_need c n (K f))"
  by (cases "mc_left c < n") (auto simp: mp_cur_need_def shape_err)

lemma consume_consume [simp]:
  "mp_cur_consume (mp_cur_consume c m) n = mp_cur_consume c (m + n)"
  by (simp add: mp_cur_consume_def add.commute)

lemma left_consume [simp]: "mc_left (mp_cur_consume c n) = mc_left c - n"
  by (simp add: mp_cur_consume_def)

lemma shape_need_consume:
  assumes "m \<le> mc_left c" "m + n \<le> mc_left c \<Longrightarrow> step_shape c K"
  shows "step_shape c (\<lambda>f. mp_cur_need (mp_cur_consume c m) n (K f))"
  using assms by (cases "mc_left c - m < n") (auto simp: mp_cur_need_def shape_err)

lemma decode_shape: "step_shape c (\<lambda>f. mp_decode_to_lua_type (Suc f) c)"
  unfolding mp_decode_to_lua_type.simps(2) Let_def
  by (intro shape_need shape_if shape_need_consume shape_err)
    (simp_all add: shape_ok shape_array [unfolded One_nat_def] shape_hash)

text \<open>Case analysis on one step, at a given fuel.\<close>

lemma decode_step_cases:
  obtains (err) e where "\<And>f. mp_decode_to_lua_type (Suc f) c = MpErr e"
  | (ok) v n where "1 \<le> n" "n \<le> mc_left c"
      "\<And>f. mp_decode_to_lua_type (Suc f) c = MpOk v (mp_cur_consume c n)"
  | (array) n len where "1 \<le> n" "n \<le> mc_left c"
      "\<And>f. mp_decode_to_lua_type (Suc f) c = mp_decode_to_lua_array f (mp_cur_consume c n) [] 1 len"
  | (hash) n len where "1 \<le> n" "n \<le> mc_left c"
      "\<And>f. mp_decode_to_lua_type (Suc f) c = mp_decode_to_lua_hash f (mp_cur_consume c n) [] len"
  using decode_shape [of c] unfolding step_shape_def fun_eq_iff by blast

lemma decode_consumes:
  "mp_decode_to_lua_type f c = MpOk v c' \<Longrightarrow>
     \<exists>n \<ge> 1. n \<le> mc_left c \<and> c' = mp_cur_consume c n"
  "mp_decode_to_lua_array f c t i len = MpOk v c' \<Longrightarrow>
     \<exists>n. n \<le> mc_left c \<and> c' = mp_cur_consume c n"
  "mp_decode_to_lua_hash f c t len = MpOk v c' \<Longrightarrow>
     \<exists>n. n \<le> mc_left c \<and> c' = mp_cur_consume c n"
proof (induction f arbitrary: c c' v t i len)
  case 0
  { case 1 then show ?case by simp }
  { case 2 then show ?case by simp }
  { case 3 then show ?case by simp }
next
  case (Suc f)
  have zero: "\<exists>n. n \<le> mc_left c \<and> c = mp_cur_consume c n" for c
    by (rule exI [of _ 0]) (simp add: mp_cur_consume_def)
  { case 1
    show ?case
    proof (cases rule: decode_step_cases [of c])
      case (array n len)
      then show ?thesis using 1 Suc.IH(2) [of "mp_cur_consume c n" "[]" 1 len v c']
        by (metis consume_consume left_consume le_diff_conv2 add.commute trans_le_add1 add_leE)
    next
      case (hash n len)
      then show ?thesis using 1 Suc.IH(3) [of "mp_cur_consume c n" "[]" len v c']
        by (metis consume_consume left_consume le_diff_conv2 add.commute trans_le_add1 add_leE)
    qed (use 1 in auto) }
  { case 2
    show ?case
    proof (cases len)
      case 0
      then show ?thesis using 2 zero by auto
    next
      case (Suc len')
      then obtain w c1 t' where d: "mp_decode_to_lua_type f c = MpOk w c1"
          "mp_decode_to_lua_array f c1 t' (i + 1) len' = MpOk v c'"
        using 2 by (auto split: mp_result.splits sum.splits)
      from Suc.IH(1) [OF d(1)] Suc.IH(2) [OF d(2)] show ?thesis
        by (metis consume_consume left_consume le_diff_conv2 add.commute)
    qed }
  { case (3 c c' v t len)
    show ?case
    proof (cases len)
      case 0
      then show ?thesis using 3 zero by auto
    next
      case (Suc len')
      then obtain k c1 w c2 t' where d: "mp_decode_to_lua_type f c = MpOk k c1"
          "mp_decode_to_lua_type f c1 = MpOk w c2"
          "mp_decode_to_lua_hash f c2 t' len' = MpOk v c'"
        using 3 by (auto split: mp_result.splits sum.splits)
      from Suc.IH(1) [OF d(1)] Suc.IH(1) [OF d(2)] Suc.IH(3) [OF d(3)] show ?thesis
        by (metis consume_consume left_consume le_diff_conv2 add.commute)
    qed }
qed


section \<open>Enough fuel\<close>

lemma decode_enough_fuel:
  "2 * mc_left c + 1 \<le> f \<Longrightarrow> mp_decode_to_lua_type f c \<noteq> MpFuel"
  "2 * mc_left c + 2 \<le> f \<Longrightarrow> mp_decode_to_lua_array f c t i len \<noteq> MpFuel"
  "2 * mc_left c + 2 \<le> f \<Longrightarrow> mp_decode_to_lua_hash f c t len \<noteq> MpFuel"
proof (induction f arbitrary: c t i len)
  case 0
  { case 1 then show ?case by simp }
  { case 2 then show ?case by simp }
  { case 3 then show ?case by simp }
next
  case (Suc f)
  have le: "mc_left c' < mc_left c" if "mp_decode_to_lua_type f c = MpOk v c'" for v c c'
    using decode_consumes(1) [OF that] by auto
  { case (1 c)
    show ?case
    proof (cases rule: decode_step_cases [of c])
      case (array n len)
      then show ?thesis using 1 Suc.IH(2) [of "mp_cur_consume c n" "[]" 1 len] by simp
    next
      case (hash n len)
      then show ?thesis using 1 Suc.IH(3) [of "mp_cur_consume c n" "[]" len] by simp
    qed simp_all }
  { case (2 c t i len)
    have 1: "mp_decode_to_lua_type f c \<noteq> MpFuel" using Suc.IH(1) 2 by simp
    have "mp_decode_to_lua_array f c' t' (i + 1) len' \<noteq> MpFuel"
      if "mp_decode_to_lua_type f c = MpOk v c'" for v c' t' len'
      using Suc.IH(2) [of c'] le [OF that] 2 by simp
    with 1 show ?case by (auto split: nat.split mp_result.split sum.split) }
  { case (3 c t len)
    have 1: "mp_decode_to_lua_type f c \<noteq> MpFuel" using Suc.IH(1) 3 by simp
    have 2: "mp_decode_to_lua_type f c' \<noteq> MpFuel" if "mp_decode_to_lua_type f c = MpOk v c'" for v c'
      using Suc.IH(1) [of c'] le [OF that] 3 by simp
    have "mp_decode_to_lua_hash f c2 t' len' \<noteq> MpFuel"
      if "mp_decode_to_lua_type f c = MpOk v c1" "mp_decode_to_lua_type f c1 = MpOk w c2"
      for v c1 w c2 t' len'
      using Suc.IH(3) [of c2] le [OF that(1)] le [OF that(2)] 3 by simp
    with 1 2 show ?case by (auto split: nat.split mp_result.split sum.split) }
qed

section \<open>Only the bytes given are read\<close>

definition trim :: "mp_cur \<Rightarrow> mp_cur" where
  "trim c = c\<lparr>mc_p := take (mc_left c) (mc_p c)\<rparr>"

fun trim_result :: "mp_result \<Rightarrow> mp_result" where
  "trim_result (MpOk v c) = MpOk v (trim c)"
| "trim_result r = r"

lemma need_cong:
  "c = c' \<Longrightarrow> n = n' \<Longrightarrow> (n' \<le> mc_left c' \<Longrightarrow> k = k') \<Longrightarrow>
     mp_cur_need c n k = mp_cur_need c' n' k'"
  by (simp add: mp_cur_need_def)

lemma trim_simps [simp]:
  "mc_left (trim c) = mc_left c"
  "mp_cur_consume (trim c) n = trim (mp_cur_consume c n)"
  "i < mc_left c \<Longrightarrow> mp_byte (trim c) i = mp_byte c i"
  "i + n \<le> mc_left c \<Longrightarrow> mp_bytes (trim c) i n = mp_bytes c i n"
  "n \<le> mc_left c \<Longrightarrow> mp_bytes (trim c) 0 n = mp_bytes c 0 n"
  "mp_cur_need (trim c) n k = mp_cur_need c n k"
  "trim_result (mp_cur_need c n k) = mp_cur_need c n (trim_result k)"
  by (auto simp: trim_def mp_cur_consume_def mp_byte_def mp_bytes_def mp_cur_need_def
      drop_take min_def not_le)

lemma trim_result_if [simp]: "trim_result (if b then r else s) = (if b then trim_result r else trim_result s)"
  by simp

lemma decode_trim:
  "mp_decode_to_lua_type f (trim c) = trim_result (mp_decode_to_lua_type f c)"
  "mp_decode_to_lua_array f (trim c) t i len = trim_result (mp_decode_to_lua_array f c t i len)"
  "mp_decode_to_lua_hash f (trim c) t len = trim_result (mp_decode_to_lua_hash f c t len)"
proof (induction f arbitrary: c t i len)
  case 0
  { case 1 then show ?case by simp }
  { case 2 then show ?case by simp }
  { case 3 then show ?case by simp }
next
  case (Suc f)
  { case (1 c)
    show ?case unfolding mp_decode_to_lua_type.simps(2) Let_def trim_simps(6,7)
      by (rule need_cong [OF refl refl], simp add: Suc.IH cong: need_cong if_cong)
        (intro impI need_cong [OF refl refl], simp) }
  { case (2 c t i len)
    show ?case
      by (auto simp: Suc.IH split: nat.split mp_result.split sum.split) }
  { case (3 c t len)
    show ?case
      by (auto simp: Suc.IH split: nat.split mp_result.split sum.split) }
qed


section \<open>Reading back the headers and scalars\<close>

lemma unat_be_or: "8 * length bs \<le> LENGTH('a::len) \<Longrightarrow> unat (be_or bs :: 'a word) = be_nat bs"
proof (induction bs rule: rev_induct)
  case Nil
  then show ?case by (simp add: be_or_def)
next
  case (snoc b bs)
  let ?a = "be_or bs :: 'a word"
  have u: "unat ?a = be_nat bs" using snoc by simp
  have "be_nat bs < 256 ^ length bs" by (rule be_nat_less)
  then have "be_nat bs * 256 < 256 ^ Suc (length bs)" by simp
  also have "(256::nat) ^ Suc (length bs) = 2 ^ (8 * Suc (length bs))"
    by (simp only: power_mult) simp
  also have "\<dots> \<le> 2 ^ LENGTH('a)" by (rule power_increasing) (use snoc.prems in simp_all)
  finally have "unat ?a * 256 < 2 ^ LENGTH('a)" by (simp add: u)
  then have "unat (push_bit 8 ?a OR ucast b) = be_nat bs * 256 + unat b"
    using snoc.prems by (subst unat_shift_or) (simp_all add: u)
  then show ?case by (simp add: be_or_def)
qed

text \<open>The cursor at the start of \<open>p\<close>, with all of it left.\<close>

definition cur :: "byte list \<Rightarrow> mp_cur" where
  "cur p = \<lparr>mc_p = p, mc_left = length p\<rparr>"

lemma cur_simps [simp]:
  "mc_left (cur p) = length p"
  "mp_byte (cur p) i = p ! i"
  "mp_bytes (cur p) i k = take k (drop i p)"
  "mp_cur_consume (cur p) k = cur (drop k p)"
  by (simp_all add: cur_def mp_byte_def mp_bytes_def mp_cur_consume_def)

lemma need_ok [simp]: "n \<le> mc_left c \<Longrightarrow> mp_cur_need c n k = k"
  by (simp add: mp_cur_need_def)

lemma be_or_bytes:
  assumes "8 * k \<le> LENGTH('a::len)" "x < 256 ^ k"
  shows "unat (be_or (be_bytes k x) :: 'a word) = x"
  using assms by (simp add: unat_be_or be_nat_be_bytes)

lemma be_or_ucast:
  fixes n :: u64
  assumes "8 * k = LENGTH('a::len)"
  shows "(be_or (be_bytes k (unat n)) :: 'a word) = ucast n"
proof (rule word_unat_eq_iff [THEN iffD2])
  have "(256::nat) ^ k = 2 ^ LENGTH('a)"
    unfolding assms [symmetric] by (simp only: power_mult) simp
  then show "unat (be_or (be_bytes k (unat n)) :: 'a word) = unat (ucast n :: 'a word)"
    using assms by (simp add: unat_be_or be_nat_be_bytes unsigned_ucast_eq take_bit_eq_mod)
qed

text \<open>Numbers in the one-byte formats, and the heads of short strings, arrays and maps.\<close>

definition long_heads :: "byte list" where
  "long_heads = [0xcc, 0xd0, 0xcd, 0xd1, 0xce, 0xd2, 0xcf, 0xd3, 0xc0, 0xc3, 0xc2, 0xca, 0xcb,
     0xd9, 0xda, 0xdb, 0xdc, 0xdd, 0xde, 0xdf]"

lemma long_heads_range: "b \<in> set long_heads \<Longrightarrow> 192 \<le> unat b \<and> unat b \<le> 223"
  by (auto simp: long_heads_def)

lemma short_head_masks:
  "(unat b < 128 \<longrightarrow> b AND 0x80 = 0) \<and> (224 \<le> unat b \<longrightarrow> b AND 0x80 \<noteq> 0 \<and> b AND 0xe0 = 0xe0)"
  for b :: byte
  by (rule byte_all [of "\<lambda>b. (unat b < 128 \<longrightarrow> b AND 0x80 = 0) \<and>
    (224 \<le> unat b \<longrightarrow> b AND 0x80 \<noteq> 0 \<and> b AND 0xe0 = 0xe0)"]) code_simp

lemma short_heads:
  "unat b < 128 \<Longrightarrow> b \<notin> set long_heads \<and> b AND 0x80 = 0"
  "224 \<le> unat b \<Longrightarrow> b \<notin> set long_heads \<and> b AND 0x80 \<noteq> 0 \<and> b AND 0xe0 = 0xe0"
  using long_heads_range [of b] short_head_masks [of b] by auto

lemma raw_heads:
  assumes "n < 32"
  defines "b \<equiv> (of_nat (0xa0 + n) :: byte)"
  shows "b \<notin> set long_heads \<and> b AND 0x80 \<noteq> 0 \<and> b AND 0xe0 \<noteq> 0xe0 \<and> b AND 0xe0 = 0xa0
    \<and> unat (b AND 0x1f) = n"
proof -
  have "list_all (\<lambda>n. let b = (of_nat (0xa0 + n) :: byte) in b \<notin> set long_heads \<and> b AND 0x80 \<noteq> 0 \<and>
      b AND 0xe0 \<noteq> 0xe0 \<and> b AND 0xe0 = 0xa0 \<and> unat (b AND 0x1f) = n) [0..<32]" by code_simp
  moreover have "n \<in> set [0..<32]" using assms(1) by simp
  ultimately show ?thesis unfolding b_def list_all_iff Let_def by blast
qed

definition array_head :: "nat \<Rightarrow> byte \<Rightarrow> bool" where
  "array_head n b \<longleftrightarrow> b \<notin> set long_heads \<and> b AND 0x80 \<noteq> 0 \<and> b AND 0xe0 \<noteq> 0xe0 \<and>
     b AND 0xe0 \<noteq> 0xa0 \<and> b AND 0xf0 = 0x90 \<and> unat (b AND 0xf) = n"

definition map_head :: "nat \<Rightarrow> byte \<Rightarrow> bool" where
  "map_head n b \<longleftrightarrow> b \<notin> set long_heads \<and> b AND 0x80 \<noteq> 0 \<and> b AND 0xe0 \<noteq> 0xe0 \<and>
     b AND 0xe0 \<noteq> 0xa0 \<and> b AND 0xf0 \<noteq> 0x90 \<and> b AND 0xf0 = 0x80 \<and> unat (b AND 0xf) = n"

lemma table_heads:
  assumes "n \<le> 15"
  shows "array_head n (of_nat (0x90 + n)) \<and> map_head n (of_nat (0x80 + n))"
proof -
  have "list_all (\<lambda>n. array_head n (of_nat (0x90 + n)) \<and> map_head n (of_nat (0x80 + n))) [0..<16]"
    by code_simp
  moreover have "n \<in> set [0..<16]" using assms by simp
  ultimately show ?thesis unfolding list_all_iff by (rule bspec)
qed

lemmas decode_step = mp_decode_to_lua_type.simps(2) Let_def long_heads_def

lemma decode_fixnum_pos:
  "unat b < 128 \<Longrightarrow> mp_decode_to_lua_type (Suc f) (cur (b # p)) = MpOk (lua_pushinteger (uint b)) (cur p)"
  using short_heads [of b] by (simp add: decode_step)

lemma decode_fixnum_neg:
  "224 \<le> unat b \<Longrightarrow> mp_decode_to_lua_type (Suc f) (cur (b # p)) = MpOk (lua_pushinteger (sint b)) (cur p)"
  using short_heads [of b] by (simp add: decode_step)

lemma decode_raw:
  assumes "length s < 2 ^ 32"
  shows "mp_decode_to_lua_type (Suc f) (cur (raw_header (length s) @ s @ p)) = MpOk (LString s) (cur p)"
proof -
  consider "length s < 32" | "32 \<le> length s" "length s \<le> 0xff"
    | "0xff < length s" "length s \<le> 0xffff" | "0xffff < length s" by linarith
  then show ?thesis
  proof cases
    case 1
    then show ?thesis using raw_heads [OF 1] by (simp add: raw_header_def decode_step del: of_nat_add)
  next
    case 2
    then have "unat (of_nat (length s) :: byte) = length s" by (simp add: unat_of_nat_byte)
    with 2 show ?thesis by (simp add: raw_header_def decode_step be_bytes_expand del: of_nat_add)
  next
    case 3
    have "unat (be_or (be_bytes 2 (length s)) :: u32) = length s"
      by (rule be_or_bytes) (use 3 in simp_all)
    with 3 show ?thesis
      by (simp add: raw_header_def decode_step be_bytes_expand numeral_3_eq_3)
  next
    case 4
    have "unat (be_or (be_bytes 4 (length s)) :: u64) = length s"
      by (rule be_or_bytes) (use assms in simp_all)
    with 4 show ?thesis by (simp add: raw_header_def decode_step del: be_bytes.simps)
  qed
qed


lemma decode_array_header:
  assumes "n < 2 ^ 32"
  shows "mp_decode_to_lua_type (Suc f) (cur (array_header n @ p)) = mp_decode_to_lua_array f (cur p) [] 1 n"
proof -
  consider "n \<le> 15" | "15 < n" "n \<le> 0xffff" | "0xffff < n" by linarith
  then show ?thesis
  proof cases
    case 1
    then show ?thesis using table_heads [OF 1]
      by (simp add: array_header_def decode_step array_head_def del: of_nat_add)
  next
    case 2
    have "unat (be_or (be_bytes 2 n) :: u32) = n"
      by (rule be_or_bytes) (use 2 in simp_all)
    with 2 show ?thesis by (simp add: array_header_def decode_step be_bytes_expand numeral_3_eq_3)
  next
    case 3
    have "unat (be_or (be_bytes 4 n) :: u64) = n"
      by (rule be_or_bytes) (use assms in simp_all)
    with 3 show ?thesis by (simp add: array_header_def decode_step be_bytes_expand)
  qed
qed

lemma decode_map_header:
  assumes "n < 2 ^ 32"
  shows "mp_decode_to_lua_type (Suc f) (cur (map_header n @ p)) = mp_decode_to_lua_hash f (cur p) [] n"
proof -
  consider "n \<le> 15" | "15 < n" "n \<le> 0xffff" | "0xffff < n" by linarith
  then show ?thesis
  proof cases
    case 1
    then show ?thesis using table_heads [OF 1]
      by (simp add: map_header_def decode_step map_head_def del: of_nat_add)
  next
    case 2
    have "unat (be_or (be_bytes 2 n) :: u32) = n"
      by (rule be_or_bytes) (use 2 in simp_all)
    with 2 show ?thesis by (simp add: map_header_def decode_step be_bytes_expand numeral_3_eq_3)
  next
    case 3
    have "unat (be_or (be_bytes 4 n) :: u64) = n"
      by (rule be_or_bytes) (use assms in simp_all)
    with 3 show ?thesis by (simp add: map_header_def decode_step be_bytes_expand)
  qed
qed

lemma uint_unat_sint: "0 \<le> sint n \<Longrightarrow> int (unat n) = sint n" for n :: u64
proof -
  assume n: "0 \<le> sint n"
  have "sint n < 2 ^ 63" using sint_lt [of n] by simp
  then have "uint n = sint n"
    unfolding uint_sint using n by (intro take_bit_int_eq_self) simp_all
  then show ?thesis by simp
qed

lemma be_or_uint:
  fixes n :: u64
  assumes "0 \<le> sint n" "8 * k \<le> LENGTH('a::len)" "sint n < 256 ^ k"
  shows "uint (be_or (be_bytes k (unat n)) :: 'a word) = sint n"
proof -
  have "int (unat n) < int (256 ^ k)" using uint_unat_sint [OF assms(1)] assms(3) by simp
  then have "unat n < 256 ^ k" by (simp only: of_nat_less_iff)
  then have "unat (be_or (be_bytes k (unat n)) :: 'a word) = unat n"
    using assms(2) by (rule be_or_bytes [rotated])
  then have "int (unat (be_or (be_bytes k (unat n)) :: 'a word)) = sint n"
    using uint_unat_sint [OF assms(1)] by simp
  then show ?thesis by simp
qed

lemma be_or_sint:
  fixes n :: u64
  assumes "8 * k = LENGTH('a::len)" "LENGTH('a) \<le> 64"
    "- (2 ^ (LENGTH('a) - 1)) \<le> sint n" "sint n < 2 ^ (LENGTH('a) - 1)"
  shows "sint (be_or (be_bytes k (unat n)) :: 'a word) = sint n"
  by (simp add: be_or_ucast [OF assms(1)] sint_ucast [OF assms(2-4)])

text \<open>The fixed-width number formats.\<close>

lemma decode_number_formats:
  "length q = 1 \<Longrightarrow> mp_decode_to_lua_type (Suc f) (cur (0xcc # q @ p))
     = MpOk (lua_pushinteger (uint (hd q))) (cur p)"
  "length q = 1 \<Longrightarrow> mp_decode_to_lua_type (Suc f) (cur (0xd0 # q @ p))
     = MpOk (lua_pushinteger (sint (hd q))) (cur p)"
  "length q = 2 \<Longrightarrow> mp_decode_to_lua_type (Suc f) (cur (0xcd # q @ p))
     = MpOk (lua_pushinteger (uint (be_or q :: u32))) (cur p)"
  "length q = 2 \<Longrightarrow> mp_decode_to_lua_type (Suc f) (cur (0xd1 # q @ p))
     = MpOk (lua_pushinteger (sint (be_or q :: 16 word))) (cur p)"
  "length q = 4 \<Longrightarrow> mp_decode_to_lua_type (Suc f) (cur (0xce # q @ p))
     = MpOk (lua_pushinteger (uint (be_or q :: u32))) (cur p)"
  "length q = 4 \<Longrightarrow> mp_decode_to_lua_type (Suc f) (cur (0xd2 # q @ p))
     = MpOk (lua_pushinteger (sint (be_or q :: u32))) (cur p)"
  "length q = 8 \<Longrightarrow> mp_decode_to_lua_type (Suc f) (cur (0xcf # q @ p))
     = MpOk (lua_pushinteger (sint (be_or q :: u64))) (cur p)"
  "length q = 8 \<Longrightarrow> mp_decode_to_lua_type (Suc f) (cur (0xd3 # q @ p))
     = MpOk (lua_pushinteger (sint (be_or q :: u64))) (cur p)"
  by (auto simp: decode_step nth_append hd_conv_nth length_Suc_conv)

lemma decode_float_formats:
  "length q = 4 \<Longrightarrow> mp_decode_to_lua_type (Suc f) (cur (0xca # q @ p))
     = MpOk (LNumber (double_of_float (of_nat (be_nat q)))) (cur p)"
  "length q = 8 \<Longrightarrow> mp_decode_to_lua_type (Suc f) (cur (0xcb # q @ p))
     = MpOk (LNumber (of_nat (be_nat q))) (cur p)"
  by (auto simp: decode_step memrevifle_rev le_nat_def)

lemma uint_of_byte:
  fixes n :: u64
  shows "0 \<le> sint n \<Longrightarrow> sint n < 256 \<Longrightarrow> uint (of_nat (unat n) :: byte) = sint n"
    and "- 128 \<le> sint n \<Longrightarrow> sint n < 128 \<Longrightarrow> sint (of_nat (unat n) :: byte) = sint n"
proof -
  show "0 \<le> sint n \<Longrightarrow> sint n < 256 \<Longrightarrow> uint (of_nat (unat n) :: byte) = sint n"
    using be_or_uint [of n 1, where 'a = 8] by (simp add: be_bytes_expand be_or_def)
  show "- 128 \<le> sint n \<Longrightarrow> sint n < 128 \<Longrightarrow> sint (of_nat (unat n) :: byte) = sint n"
    using sint_ucast [of n, where 'a = 8] by simp
qed

lemma unat_by_uint:
  "uint (w :: 'a::len word) < int k \<Longrightarrow> unat w < k"
  "int k \<le> uint (w :: 'a::len word) \<Longrightarrow> k \<le> unat w"
  using of_nat_less_iff [of "unat w" k, where 'a = int] by simp_all

lemma be_bytes_1: "be_bytes 1 x = [of_nat x]"
  by (rule be_bytes_expand(1))

text \<open>Every integer comes back as it was sent.\<close>

lemma decode_int_nonneg:
  assumes "0 \<le> sint n"
  shows "mp_decode_to_lua_type (Suc f) (cur (int_layout n @ p)) = MpOk (lua_pushinteger (sint n)) (cur p)"
proof -
  consider "sint n \<le> 127" | "127 < sint n" "sint n \<le> 0xff"
    | "0xff < sint n" "sint n \<le> 0xffff" | "0xffff < sint n" "sint n \<le> 0xffffffff" | "0xffffffff < sint n"
    by linarith
  then show ?thesis
  proof cases
    case 1
    then have u: "uint (of_nat (unat n) :: byte) = sint n" using uint_of_byte(1) [OF assms] by simp
    have "unat (of_nat (unat n) :: byte) < 128"
      by (rule unat_by_uint(1)) (unfold u, use 1 in simp)
    note d = decode_fixnum_pos [OF this, of f p]
    show ?thesis
      unfolding int_layout_def if_P [OF assms] if_P [OF 1] be_bytes_1 append_Cons append_Nil d u ..
  next
    case 2
    then have "uint (of_nat (unat n) :: byte) = sint n" using uint_of_byte(1) [OF assms] by simp
    with 2 assms show ?thesis
      using decode_number_formats(1) [of "[of_nat (unat n)]" f p]
      by (simp add: int_layout_def be_bytes_expand del: of_nat_unat)
  next
    case 3
    then have "uint (be_or (be_bytes 2 (unat n)) :: u32) = sint n"
      using assms by (intro be_or_uint) simp_all
    with 3 assms show ?thesis by (simp add: int_layout_def decode_number_formats)
  next
    case 4
    then have "uint (be_or (be_bytes 4 (unat n)) :: u32) = sint n"
      using assms by (intro be_or_uint) simp_all
    with 4 assms show ?thesis by (simp add: int_layout_def decode_number_formats)
  next
    case 5
    have "sint (be_or (be_bytes 8 (unat n)) :: u64) = sint n"
      using sint_ge [of n] sint_lt [of n] by (intro be_or_sint) simp_all
    with 5 assms show ?thesis by (simp add: int_layout_def decode_number_formats)
  qed
qed

lemma decode_int_neg:
  assumes "sint n < 0"
  shows "mp_decode_to_lua_type (Suc f) (cur (int_layout n @ p)) = MpOk (lua_pushinteger (sint n)) (cur p)"
proof -
  consider "- 32 \<le> sint n" | "sint n < - 32" "- 128 \<le> sint n" | "sint n < - 128" "- 32768 \<le> sint n"
    | "sint n < - 32768" "- 2147483648 \<le> sint n" | "sint n < - 2147483648" by linarith
  then show ?thesis
  proof cases
    case 1
    then have s: "sint (of_nat (unat n) :: byte) = sint n" using uint_of_byte(2) assms by simp
    have "uint (of_nat (unat n) :: byte) = take_bit 8 (sint n)" using s by (simp add: uint_sint)
    also have "\<dots> = (256 + sint n) mod 256" by (simp add: take_bit_eq_mod)
    also have "\<dots> = 256 + sint n" using 1 assms by (intro mod_pos_pos_trivial) auto
    finally have u: "uint (of_nat (unat n) :: byte) = 256 + sint n" .
    have "224 \<le> unat (of_nat (unat n) :: byte)"
      by (rule unat_by_uint(2)) (unfold u, use 1 in simp)
    note d = decode_fixnum_neg [OF this, of f p]
    have nn: "\<not> 0 \<le> sint n" using assms by simp
    show ?thesis
      unfolding int_layout_def if_not_P [OF nn] if_P [OF 1] be_bytes_1 append_Cons append_Nil d s ..
  next
    case 2
    then have "sint (of_nat (unat n) :: byte) = sint n" using uint_of_byte(2) by simp
    with 2 assms show ?thesis
      using decode_number_formats(2) [of "[of_nat (unat n)]" f p]
      by (simp add: int_layout_def be_bytes_expand del: of_nat_unat)
  next
    case 3
    then have "sint (be_or (be_bytes 2 (unat n)) :: 16 word) = sint n" by (intro be_or_sint) simp_all
    with 3 assms show ?thesis by (simp add: int_layout_def decode_number_formats)
  next
    case 4
    then have "sint (be_or (be_bytes 4 (unat n)) :: u32) = sint n" by (intro be_or_sint) simp_all
    with 4 assms show ?thesis by (simp add: int_layout_def decode_number_formats)
  next
    case 5
    have "sint (be_or (be_bytes 8 (unat n)) :: u64) = sint n"
      using sint_ge [of n] sint_lt [of n] by (intro be_or_sint) simp_all
    with 5 assms show ?thesis by (simp add: int_layout_def decode_number_formats)
  qed
qed

lemma decode_int:
  "mp_decode_to_lua_type (Suc f) (cur (int_layout n @ p)) = MpOk (lua_pushinteger (sint n)) (cur p)"
  using decode_int_nonneg decode_int_neg by (cases "0 \<le> sint n") auto

text \<open>A number comes back unchanged; negative zero comes back as zero.\<close>

definition received_number :: "u64 \<Rightarrow> u64" where
  "received_number n = (if d_iszero n then 0 else n)"

lemma decode_number:
  "mp_decode_to_lua_type (Suc f) (cur (number_layout n @ p)) = MpOk (LNumber (received_number n)) (cur p)"
proof (cases "IS_INT64_EQUIVALENT n")
  case True
  then obtain i where i: "d_int n = Some i" "- (2 ^ 63) \<le> i" "i < 2 ^ 63"
    by (auto simp: IS_INT64_EQUIVALENT_def split: option.splits)
  have "sint (word_of_int i :: u64) = signed_take_bit (LENGTH(64) - 1) i" by (rule sint_sbintrunc')
  also have "\<dots> = i" by (rule signed_take_bit_int_eq_self) (use i in simp_all)
  finally have "sint (lua_tointeger n) = i" using i by (simp add: lua_tointeger_def)
  then show ?thesis
    using True decode_int [of f "lua_tointeger n" p] i2d_d_int [OF i(1)]
    by (simp add: number_layout_def lua_pushinteger_def received_number_def)
next
  case False
  then have z: "\<not> d_iszero n" by (auto simp: IS_INT64_EQUIVALENT_def d_int_def)
  have u: "unat w < 256 ^ 4" if "w = w" for w :: u32 using unat_u32_less [of w] by simp
  have u8: "unat n < 256 ^ 8" using unat_u64_less [of n] by simp
  show ?thesis
  proof (cases "float_of_double n")
    case None
    then show ?thesis using False z u8
      by (simp add: number_layout_def double_layout_def decode_float_formats be_nat_be_bytes
          received_number_def)
  next
    case (Some w)
    then show ?thesis using False z u [of w] double_of_float_of_double [OF Some]
      by (simp add: number_layout_def double_layout_def decode_float_formats be_nat_be_bytes
          received_number_def)
  qed
qed


section \<open>More fuel changes nothing\<close>

lemma decode_fuel_Suc:
  "mp_decode_to_lua_type f c \<noteq> MpFuel \<Longrightarrow> mp_decode_to_lua_type (Suc f) c = mp_decode_to_lua_type f c"
  "mp_decode_to_lua_array f c t i len \<noteq> MpFuel \<Longrightarrow>
     mp_decode_to_lua_array (Suc f) c t i len = mp_decode_to_lua_array f c t i len"
  "mp_decode_to_lua_hash f c t len \<noteq> MpFuel \<Longrightarrow>
     mp_decode_to_lua_hash (Suc f) c t len = mp_decode_to_lua_hash f c t len"
proof (induction f arbitrary: c t i len)
  case 0
  { case 1 then show ?case by simp }
  { case 2 then show ?case by simp }
  { case 3 then show ?case by simp }
next
  case (Suc f)
  { case (1 c)
    show ?case
    proof (cases rule: decode_step_cases [of c])
      case (array n len)
      then show ?thesis using 1 Suc.IH(2) by metis
    next
      case (hash n len)
      then show ?thesis using 1 Suc.IH(3) by metis
    qed simp_all }
  { case (2 c t i len)
    have d: "mp_decode_to_lua_type (Suc f) c = mp_decode_to_lua_type f c" if "len = Suc l" for l
    proof (rule Suc.IH(1))
      show "mp_decode_to_lua_type f c \<noteq> MpFuel" using 2 that by auto
    qed
    show ?case
    proof (cases len)
      case (Suc len')
      then show ?thesis
        using 2 d unfolding mp_decode_to_lua_array.simps(2) [of "Suc f" c t i len] mp_decode_to_lua_array.simps(2) [of f c t i len]
        by (auto simp: Suc.IH simp del: mp_decode_to_lua_array.simps split: mp_result.splits sum.splits)
    qed simp }
  { case (3 c t len)
    show ?case
    proof (cases len)
      case (Suc len')
      then show ?thesis
        using 3 unfolding mp_decode_to_lua_hash.simps(2) [of "Suc f" c t len] mp_decode_to_lua_hash.simps(2) [of f c t len]
        by (auto simp: Suc.IH simp del: mp_decode_to_lua_hash.simps split: mp_result.splits sum.splits)
    qed simp }
qed

lemma decode_fuel_add:
  "mp_decode_to_lua_type f c \<noteq> MpFuel \<Longrightarrow> mp_decode_to_lua_type (f + k) c = mp_decode_to_lua_type f c"
  "mp_decode_to_lua_array f c t i len \<noteq> MpFuel \<Longrightarrow>
     mp_decode_to_lua_array (f + k) c t i len = mp_decode_to_lua_array f c t i len"
  "mp_decode_to_lua_hash f c t len \<noteq> MpFuel \<Longrightarrow>
     mp_decode_to_lua_hash (f + k) c t len = mp_decode_to_lua_hash f c t len"
  by (induction k) (simp_all only: add_0_right add_Suc_right decode_fuel_Suc simp_thms if_True)

lemma decode_fuel_le:
  "mp_decode_to_lua_type f c = r \<Longrightarrow> r \<noteq> MpFuel \<Longrightarrow> f \<le> g \<Longrightarrow> mp_decode_to_lua_type g c = r"
  "mp_decode_to_lua_array f c t i len = r \<Longrightarrow> r \<noteq> MpFuel \<Longrightarrow> f \<le> g \<Longrightarrow>
     mp_decode_to_lua_array g c t i len = r"
  "mp_decode_to_lua_hash f c t len = r \<Longrightarrow> r \<noteq> MpFuel \<Longrightarrow> f \<le> g \<Longrightarrow>
     mp_decode_to_lua_hash g c t len = r"
  using decode_fuel_add(1) [of f c "g - f"] decode_fuel_add(2) [of f c t i len "g - f"]
    decode_fuel_add(3) [of f c t len "g - f"] by auto

text \<open>The fuel \<open>mp_unpack_loop\<close> gives is as good as any.\<close>

lemma decode_fuel_unique:
  assumes "mp_decode_to_lua_type f c = MpOk v c'"
  shows "mp_decode_to_lua_type (2 * mc_left c + 1) c = MpOk v c'"
proof -
  have 1: "mp_decode_to_lua_type (2 * mc_left c + 1) c \<noteq> MpFuel"
    by (rule decode_enough_fuel) simp
  show ?thesis
    using decode_fuel_le(1) [OF assms, of "max f (2 * mc_left c + 1)"]
      decode_fuel_le(1) [OF refl 1, of "max f (2 * mc_left c + 1)"] by simp
qed

section \<open>What arrives for a value\<close>

definition table_set :: "lua_table \<Rightarrow> lua_val \<Rightarrow> lua_val \<Rightarrow> lua_table" where
  "table_set t k v = (case lua_settable t k v of Inl e \<Rightarrow> t | Inr t' \<Rightarrow> t')"

text \<open>
  Booleans and strings arrive as they were; of the numbers only negative zero changes;
  functions, userdata and what lies below \<open>LUACMSGPACK_MAX_NESTING\<close> tables arrive as nil.
\<close>

function mp_image :: "nat \<Rightarrow> lua_val \<Rightarrow> lua_val" where
  "mp_image level v =
     (case v of
        LString s \<Rightarrow> LString s
      | LBoolean b \<Rightarrow> LBoolean b
      | LNumber n \<Rightarrow> LNumber (received_number n)
      | LTable t \<Rightarrow>
          if level = LUACMSGPACK_MAX_NESTING then LNil
          else if table_is_an_array t then
            LTable (foldl (\<lambda>t' j. table_set t' (array_index j)
                (mp_image (level + 1) (lua_rawget t (array_index j)))) [] [1..<lua_objlen t + 1])
          else
            LTable (foldl (\<lambda>t' (k, v). table_set t' (mp_image (level + 1) k) (mp_image (level + 1) v)) [] t)
      | _ \<Rightarrow> LNil)"
  by pat_completeness auto
termination
  by (relation "measure (\<lambda>(level, v). size v)")
    (use size_rawget size_table_entries in \<open>auto simp del: lua_val.size\<close>)

declare mp_image.simps [simp del]

lemma mp_image_simps [simp]:
  "mp_image l LNil = LNil" "mp_image l (LOpaque i) = LNil"
  "mp_image l (LBoolean b) = LBoolean b"
  "mp_image l (LNumber n) = LNumber (received_number n)"
  "mp_image l (LString s) = LString s"
  "mp_image l (LTable t) =
     (if l = LUACMSGPACK_MAX_NESTING then LNil
      else if table_is_an_array t then
        LTable (foldl (\<lambda>t' j. table_set t' (array_index j)
            (mp_image (l + 1) (lua_rawget t (array_index j)))) [] [1..<lua_objlen t + 1])
      else LTable (foldl (\<lambda>t' (k, v). table_set t' (mp_image (l + 1) k) (mp_image (l + 1) v)) [] t))"
  by (simp_all add: mp_image.simps)

text \<open>Keys the receiver can store: everything a JSON object or a Lua list has as keys.\<close>

definition scalar_key :: "lua_val \<Rightarrow> bool" where
  "scalar_key k = (case k of LBoolean _ \<Rightarrow> True | LString _ \<Rightarrow> True | LNumber n \<Rightarrow> \<not> d_isnan n | _ \<Rightarrow> False)"

function mp_keys_ok :: "lua_val \<Rightarrow> bool" where
  "mp_keys_ok v = (case v of LTable t \<Rightarrow> \<forall>(k, v) \<in> set t. scalar_key k \<and> mp_keys_ok v | _ \<Rightarrow> True)"
  by pat_completeness auto
termination
  by (relation "measure size") (use size_table_entries in \<open>auto simp del: lua_val.size\<close>)

declare mp_keys_ok.simps [simp del]

lemma mp_keys_ok_simps [simp]:
  "mp_keys_ok LNil" "mp_keys_ok (LBoolean b)" "mp_keys_ok (LNumber n)" "mp_keys_ok (LOpaque i)"
  "mp_keys_ok (LString s)"
  "mp_keys_ok (LTable t) \<longleftrightarrow> (\<forall>(k, v) \<in> set t. scalar_key k \<and> mp_keys_ok v)"
  by (simp_all add: mp_keys_ok.simps)

lemma mp_keys_ok_rawget: "mp_keys_ok (LTable t) \<Longrightarrow> mp_keys_ok (lua_rawget t k)"
proof -
  have "\<forall>(k, v) \<in> set t. mp_keys_ok v \<Longrightarrow> mp_keys_ok (lua_rawget t k)"
    by (induction t) auto
  then show "mp_keys_ok (LTable t) \<Longrightarrow> mp_keys_ok (lua_rawget t k)" by auto
qed

lemma scalar_key_ok: "scalar_key k \<Longrightarrow> mp_keys_ok k"
  by (cases k) (auto simp: scalar_key_def)

lemma d_isnan_received [simp]: "d_isnan (received_number n) = d_isnan n"
  by (auto simp: received_number_def d_isnan_def d_iszero_def)

lemma settable_scalar:
  "scalar_key k \<Longrightarrow> lua_settable t (mp_image l k) v = Inr (table_set t (mp_image l k) v)"
  by (cases k) (auto simp: scalar_key_def table_set_def lua_settable_def)

lemma settable_index:
  assumes "j < 2 ^ 53"
  shows "lua_settable t (array_index j) v = Inr (table_set t (array_index j) v)"
proof -
  have "\<not> d_isnan (i2d (int j))"
  proof (cases "j = 0")
    case True
    then show ?thesis by (simp add: i2d_def)
  next
    case False
    then have "d_int (i2d (int j)) = Some (int j)" using assms by (intro i2d_nonzero) simp_all
    then show ?thesis by (auto simp: d_int_def d_isnan_def d_iszero_def Let_def split: if_splits)
  qed
  then show ?thesis by (simp add: array_index_def lua_settable_def table_set_def)
qed

definition decodes :: "mp_cur \<Rightarrow> lua_val \<Rightarrow> mp_cur \<Rightarrow> bool" where
  "decodes c v c' \<longleftrightarrow> (\<exists>f. mp_decode_to_lua_type f c = MpOk v c')"

lemma decode_array_elements:
  assumes "\<And>j p. i \<le> j \<Longrightarrow> j < i + len \<Longrightarrow> decodes (cur (lay j @ p)) (img j) (cur p)" "i + len \<le> 2 ^ 53"
  shows "\<exists>f. mp_decode_to_lua_array f (cur (concat (map lay [i..<i + len]) @ rest)) t i len
    = MpOk (LTable (foldl (\<lambda>t' j. table_set t' (array_index j) (img j)) t [i..<i + len])) (cur rest)"
  using assms
proof (induction len arbitrary: i t)
  case 0
  show ?case by (rule exI [of _ "Suc 0"]) simp
next
  case (Suc len)
  have upt: "[i..<i + Suc len] = i # [Suc i..<Suc i + len]"
    by (metis Suc_eq_plus1 add.commute add_Suc_right less_add_Suc1 upt_conv_Cons)
  let ?r = "concat (map lay [Suc i..<Suc i + len]) @ rest"
  let ?t = "table_set t (array_index i) (img i)"
  obtain f where f: "mp_decode_to_lua_type f (cur (lay i @ ?r)) = MpOk (img i) (cur ?r)"
    using Suc.prems(1) [of i ?r] by (auto simp: decodes_def)
  obtain g where g: "mp_decode_to_lua_array g (cur ?r) ?t (Suc i) len
      = MpOk (LTable (foldl (\<lambda>t' j. table_set t' (array_index j) (img j)) ?t [Suc i..<Suc i + len])) (cur rest)"
    using Suc.IH [of "Suc i" ?t] Suc.prems by auto
  have set: "lua_settable t (array_index i) (img i) = Inr ?t"
    by (rule settable_index) (use Suc.prems(2) in simp)
  note f' = decode_fuel_le(1) [OF f, of "max f g"] and g' = decode_fuel_le(2) [OF g, of "max f g"]
  have "mp_decode_to_lua_array (Suc (max f g)) (cur (lay i @ ?r)) t i (Suc len)
      = MpOk (LTable (foldl (\<lambda>t' j. table_set t' (array_index j) (img j)) ?t [Suc i..<Suc i + len])) (cur rest)"
    using f' g' by (simp add: set)
  then show ?case unfolding upt list.map concat.simps append_assoc foldl_Cons by (rule exI)
qed

lemma decode_hash_pairs:
  assumes "\<And>k v p. (k, v) \<in> set kvs \<Longrightarrow> decodes (cur (lay k @ p)) (img k) (cur p)"
    "\<And>k v p. (k, v) \<in> set kvs \<Longrightarrow> decodes (cur (lay v @ p)) (img v) (cur p)"
    "\<And>k v t w. (k, v) \<in> set kvs \<Longrightarrow> lua_settable t (img k) w = Inr (table_set t (img k) w)"
  shows "\<exists>f. mp_decode_to_lua_hash f (cur (concat (map (\<lambda>(k, v). lay k @ lay v) kvs) @ rest)) t (length kvs)
    = MpOk (LTable (foldl (\<lambda>t' (k, v). table_set t' (img k) (img v)) t kvs)) (cur rest)"
  using assms
proof (induction kvs arbitrary: t)
  case Nil
  show ?case by (rule exI [of _ "Suc 0"]) simp
next
  case (Cons kv kvs)
  obtain k v where kv: "kv = (k, v)" by (cases kv)
  let ?r = "concat (map (\<lambda>(k, v). lay k @ lay v) kvs) @ rest"
  let ?t = "table_set t (img k) (img v)"
  let ?v = "MpOk (LTable (foldl (\<lambda>t' (k, v). table_set t' (img k) (img v)) ?t kvs)) (cur rest)"
  obtain f where f: "mp_decode_to_lua_type f (cur (lay k @ lay v @ ?r)) = MpOk (img k) (cur (lay v @ ?r))"
    using Cons.prems(1) [of k v "lay v @ ?r"] by (auto simp: decodes_def kv)
  obtain g where g: "mp_decode_to_lua_type g (cur (lay v @ ?r)) = MpOk (img v) (cur ?r)"
    using Cons.prems(2) [of k v ?r] by (auto simp: decodes_def kv)
  have "\<exists>h. mp_decode_to_lua_hash h (cur ?r) ?t (length kvs) = ?v"
    using Cons.IH Cons.prems by (meson list.set_intros(2))
  then obtain h where h: "mp_decode_to_lua_hash h (cur ?r) ?t (length kvs) = ?v" ..
  have set: "lua_settable t (img k) (img v) = Inr ?t"
    using Cons.prems(3) by (auto simp: kv)
  let ?m = "max f (max g h)"
  note f' = decode_fuel_le(1) [OF f, of ?m] and g' = decode_fuel_le(1) [OF g, of ?m]
    and h' = decode_fuel_le(3) [OF h, of ?m]
  have "mp_decode_to_lua_hash (Suc ?m) (cur (lay k @ lay v @ ?r)) t (Suc (length kvs)) = ?v"
    using f' g' h' by (simp add: set)
  then show ?case unfolding kv list.map concat.simps append_assoc foldl_Cons prod.case length_Cons
    by (rule exI)
qed


section \<open>A packed value is decoded to its image\<close>

lemma decodes_single:
  "decodes (cur (0xc0 # p)) LNil (cur p)"
  "decodes (cur (0xc3 # p)) (LBoolean True) (cur p)"
  "decodes (cur (0xc2 # p)) (LBoolean False) (cur p)"
  unfolding decodes_def by (rule exI [of _ "Suc 0"], simp add: decode_step)+

lemma decodes_table:
  assumes "n < 2 ^ 32"
  shows "mp_decode_to_lua_array f (cur q) [] 1 n = MpOk v c \<Longrightarrow> decodes (cur (array_header n @ q)) v c"
    and "mp_decode_to_lua_hash f (cur q) [] n = MpOk v c \<Longrightarrow> decodes (cur (map_header n @ q)) v c"
  using decode_array_header [OF assms, of f q] decode_map_header [OF assms, of f q]
  by (auto simp: decodes_def)

lemma decodes_array:
  assumes t: "table_is_an_array t"
    and elems: "\<And>j p. j \<in> set [1..<lua_objlen t + 1] \<Longrightarrow> decodes (cur (lay j @ p)) (img j) (cur p)"
  shows "decodes (cur (array_header (lua_objlen t) @ concat (map lay [1..<lua_objlen t + 1]) @ rest))
    (LTable (foldl (\<lambda>t' j. table_set t' (array_index j) (img j)) [] [1..<lua_objlen t + 1])) (cur rest)"
proof -
  note n = lua_objlen_array [OF t]
  have upt: "[1..<lua_objlen t + 1] = [1..<1 + lua_objlen t]" by (simp add: add.commute)
  obtain f where "mp_decode_to_lua_array f (cur (concat (map lay [1..<1 + lua_objlen t]) @ rest)) [] 1 (lua_objlen t)
    = MpOk (LTable (foldl (\<lambda>t' j. table_set t' (array_index j) (img j)) [] [1..<1 + lua_objlen t])) (cur rest)"
    using decode_array_elements [of 1 "lua_objlen t" lay img rest "[]"] elems n by fastforce
  then show ?thesis unfolding upt by (rule decodes_table(1) [OF n])
qed

lemma decodes_map:
  assumes len: "length t < 2 ^ 32"
    and elems: "\<And>k v p. (k, v) \<in> set t \<Longrightarrow> decodes (cur (lay k @ p)) (mp_image l k) (cur p)"
      "\<And>k v p. (k, v) \<in> set t \<Longrightarrow> decodes (cur (lay v @ p)) (mp_image l v) (cur p)"
    and keys: "\<And>k v. (k, v) \<in> set t \<Longrightarrow> scalar_key k"
  shows "decodes (cur (map_header (length t) @ concat (map (\<lambda>(k, v). lay k @ lay v) t) @ rest))
    (LTable (foldl (\<lambda>t' (k, v). table_set t' (mp_image l k) (mp_image l v)) [] t)) (cur rest)"
proof -
  have "\<exists>f. mp_decode_to_lua_hash f (cur (concat (map (\<lambda>(k, v). lay k @ lay v) t) @ rest)) [] (length t)
    = MpOk (LTable (foldl (\<lambda>t' (k, v). table_set t' (mp_image l k) (mp_image l v)) [] t)) (cur rest)"
    by (rule decode_hash_pairs; (rule elems, assumption)?) (rule settable_scalar [OF keys])
  then show ?thesis using decodes_table(2) [OF len] by blast
qed

lemma layout_decodes:
  "mp_sized v \<Longrightarrow> mp_keys_ok v \<Longrightarrow> decodes (cur (mp_layout l v @ p)) (mp_image l v) (cur p)"
proof (induction l v arbitrary: p rule: mp_layout.induct)
  case (1 l v)
  show ?case
  proof (cases v)
    case (LTable t)
    note sized = 1(4) [unfolded LTable] and keys = 1(5) [unfolded LTable]
    show ?thesis
    proof (cases "l = LUACMSGPACK_MAX_NESTING")
      case True
      then show ?thesis unfolding LTable by (simp add: decodes_single)
    next
      case lev: False
      show ?thesis
      proof (cases "table_is_an_array t")
        case True
        show ?thesis unfolding LTable
          using decodes_array [OF True 1(1) [OF LTable lev True _ mp_sized_rawget [OF sized]
                mp_keys_ok_rawget [OF keys]]] lev True
          by (simp del: upt_Suc)
      next
        case False
        have len: "length t < 2 ^ 32" using sized by simp
        have sz: "mp_sized k" "mp_sized w" "scalar_key k" "mp_keys_ok w" if "(k, w) \<in> set t" for k w
          using sized keys that by auto
        show ?thesis unfolding LTable
          using decodes_map [OF len 1(2) [OF LTable lev False _ refl sz(1) scalar_key_ok [OF sz(3)]]
              1(3) [OF LTable lev False _ refl sz(2,4)] sz(3)] lev False
          by simp
      qed
    qed
  next
    case (LNumber n)
    then show ?thesis unfolding decodes_def using decode_number by auto
  next
    case (LString s)
    then show ?thesis unfolding decodes_def using decode_raw 1(4) by auto
  qed (auto simp: decodes_single)
qed

section \<open>Streams of values\<close>

lemma layout_decode_fuel:
  assumes "mp_sized v" "mp_keys_ok v"
  shows "mp_decode_to_lua_type (2 * length (mp_layout l v @ p) + 1) (cur (mp_layout l v @ p))
    = MpOk (mp_image l v) (cur p)"
  using layout_decodes [OF assms, of l p] decode_fuel_unique [of _ "cur (mp_layout l v @ p)"]
  by (auto simp: decodes_def)

lemma layout_nonempty: "mp_sized v \<Longrightarrow> mp_keys_ok v \<Longrightarrow> mp_layout l v \<noteq> []"
proof
  assume a: "mp_sized v" "mp_keys_ok v" "mp_layout l v = []"
  then obtain f where "mp_decode_to_lua_type f (cur []) = MpOk (mp_image l v) (cur [])"
    using layout_decodes [of v l "[]"] by (auto simp: decodes_def)
  from decode_consumes(1) [OF this] show False by simp
qed

lemma unpack_loop_layouts:
  assumes "\<forall>v \<in> set vs. mp_sized v \<and> mp_keys_ok v" "length (concat (map (mp_layout 0) vs)) \<le> n"
    "cnt + int (length vs) \<le> limit"
  shows "mp_unpack_loop n (cur (concat (map (mp_layout 0) vs))) cnt limit acc
    = Inr (acc @ map (mp_image 0) vs, cur [])"
  using assms
proof (induction vs arbitrary: n cnt acc)
  case Nil
  then show ?case by (simp add: mp_unpack_loop.simps)
next
  case (Cons v vs)
  let ?r = "concat (map (mp_layout 0) vs)"
  have v: "mp_sized v" "mp_keys_ok v" using Cons.prems by auto
  have pos: "0 < length (mp_layout 0 v)" using layout_nonempty [OF v] by simp
  obtain n' where n': "n = Suc n'" using Cons.prems(2) pos by (cases n) auto
  have "mp_unpack_loop n' (cur ?r) (cnt + 1) limit (acc @ [mp_image 0 v])
    = Inr ((acc @ [mp_image 0 v]) @ map (mp_image 0) vs, cur [])"
    by (rule Cons.IH) (use Cons.prems pos n' in \<open>auto simp: Suc_le_eq simp del: length_greater_0_conv\<close>)
  then show ?case
    using layout_decode_fuel [OF v, of 0 ?r] pos Cons.prems(3) n'
    by (subst mp_unpack_loop.simps) simp
qed

lemma mp_buf_rewind_valid: "mp_buf_valid buf \<Longrightarrow> mp_buf_valid (mp_buf_rewind buf)"
  "mp_buf_contents (mp_buf_rewind buf) = []"
  by (simp_all add: mp_buf_valid_def mp_buf_rewind_def mp_buf_contents_def)

lemma pack_loop_layouts:
  assumes "mp_buf_valid buf" "mp_buf_contents buf = []" "\<forall>v \<in> set vs. mp_sized v"
  shows "mp_pack_loop buf vs = map (mp_layout 0) vs"
  using assms
proof (induction vs arbitrary: buf)
  case (Cons v vs)
  note e = mp_encode_lua_type_layout [OF Cons.prems(1), of v 0]
  have "mp_pack_loop (mp_buf_rewind (mp_encode_lua_type buf v 0)) vs = map (mp_layout 0) vs"
    by (rule Cons.IH) (use e Cons.prems in \<open>simp_all add: mp_buf_rewind_valid\<close>)
  then show ?case using e Cons.prems by (simp add: Let_def)
qed simp

lemma mp_pack_layouts:
  assumes "vs \<noteq> []" "\<forall>v \<in> set vs. mp_sized v"
  shows "mp_pack vs = Inr (concat (map (mp_layout 0) vs))"
  using assms pack_loop_layouts [of mp_buf_new vs] by (simp add: mp_pack_def lua_gettop_def)

lemma unpack_all_layouts:
  assumes "\<forall>v \<in> set vs. mp_sized v \<and> mp_keys_ok v" "length vs < 2 ^ 31"
  shows "mp_unpack (concat (map (mp_layout 0) vs)) = Inr (map (mp_image 0) vs)"
proof -
  let ?p = "concat (map (mp_layout 0) vs)"
  have "mp_unpack_loop (length ?p) (cur ?p) 0 INT_MAX [] = Inr ([] @ map (mp_image 0) vs, cur [])"
    by (rule unpack_loop_layouts) (use assms in \<open>simp_all add: INT_MAX_def\<close>)
  then show ?thesis
    by (simp add: mp_unpack_def mp_unpack_full_def mp_cur_init_def cur_def)
qed

end
