(* ===== verification/MsgPackImage.thy ===== *)
theory MsgPackImage
  imports MsgPackRT
begin

text \<open>
  What a receiver finds in a table that went through \<open>mp_pack\<close> and \<open>mp_unpack\<close>: under every
  scalar key the image of what the sender had there, whether the table went as an array or as
  a map.
\<close>

section \<open>Tables as Lua has them\<close>

definition wf_table :: "lua_table \<Rightarrow> bool" where
  "wf_table t \<longleftrightarrow> sorted_wrt (\<lambda>k k'. \<not> lua_rawequal k k') (map fst t) \<and>
     (\<forall>(k, v) \<in> set t. scalar_key k \<and> v \<noteq> LNil)"

lemma wf_table_Cons [simp]:
  "wf_table ((k, v) # t) \<longleftrightarrow> scalar_key k \<and> v \<noteq> LNil \<and> wf_table t \<and>
     (\<forall>k' \<in> fst ` set t. \<not> lua_rawequal k k')"
  by (auto simp: wf_table_def)

lemma rawget_absent: "(\<forall>k' \<in> fst ` set t. \<not> lua_rawequal k' k) \<Longrightarrow> lua_rawget t k = LNil"
  by (induction t) auto

lemma rawget_present:
  "wf_table t \<Longrightarrow> k' \<in> fst ` set t \<Longrightarrow> lua_rawequal k' k \<Longrightarrow> lua_rawget t k \<noteq> LNil"
proof (induction t)
  case (Cons p t)
  obtain a b where p: "p = (a, b)" by (cases p)
  have "k' \<in> fst ` set t" if "\<not> lua_rawequal a k" using Cons.prems that by (auto simp: p)
  then show ?case using Cons by (auto simp: p simp del: image_iff)
qed simp

lemma rawget_key_cong: "lua_rawequal k k' \<Longrightarrow> lua_rawget t k = lua_rawget t k'"
proof (induction t)
  case (Cons p t)
  then show ?case
    by (cases p) (metis lua_rawequal_cong lua_rawequal_sym lua_rawget.simps(2))
qed simp

lemma scalar_self: "scalar_key k \<Longrightarrow> self_equal k"
  by (cases k) (auto simp: scalar_key_def)

lemma image_key: "scalar_key k \<Longrightarrow> lua_rawequal (mp_image l k) k' = lua_rawequal k k'"
  by (cases k; cases k') (auto simp: scalar_key_def received_number_def d_eq_def)

text \<open>Lookup in a table filled from a list of pairs with different keys.\<close>

lemma rawget_filled:
  assumes "sorted_wrt (\<lambda>k k'. \<not> lua_rawequal k k') (map fst kvs)"
    and "\<And>k v. (k, v) \<in> set kvs \<Longrightarrow> self_equal k"
    and "\<And>k v k'. (k, v) \<in> set kvs \<Longrightarrow> lua_rawequal (f k) k' = lua_rawequal k k'"
    and "\<And>k v t w. (k, v) \<in> set kvs \<Longrightarrow> lua_settable t (f k) w = Inr (table_set t (f k) w)"
  shows "lua_rawget (foldl (\<lambda>t (k, v). table_set t (f k) (g v)) t0 kvs) k' =
    (if \<exists>k \<in> fst ` set kvs. lua_rawequal k k' then g (lua_rawget kvs k') else lua_rawget t0 k')"
  using assms
proof (induction kvs arbitrary: t0)
  case (Cons kv kvs)
  obtain k v where kv: "kv = (k, v)" by (cases kv)
  let ?t = "table_set t0 (f k) (g v)"
  have tl: "(k2, v2) \<in> set kvs \<Longrightarrow> (k2, v2) \<in> set (kv # kvs)" for k2 v2 by simp
  have IH: "lua_rawget (foldl (\<lambda>t (k, v). table_set t (f k) (g v)) ?t kvs) k' =
    (if \<exists>k \<in> fst ` set kvs. lua_rawequal k k' then g (lua_rawget kvs k') else lua_rawget ?t k')"
    by (rule Cons.IH [OF _ Cons.prems(2) [OF tl] Cons.prems(3) [OF tl] Cons.prems(4) [OF tl]])
      (use Cons.prems(1) in simp)
  have eq: "lua_rawequal (f k) j = lua_rawequal k j" for j using Cons.prems(3) by (auto simp: kv)
  have "lua_rawequal k k" using Cons.prems(2) by (auto simp: kv self_equal_def)
  then have self: "self_equal (f k)"
    unfolding self_equal_def by (metis eq lua_rawequal_sym)
  have "lua_settable t0 (f k) (g v) = Inr ?t" using Cons.prems(4) by (auto simp: kv)
  note put = rawget_settable [OF this self, of k']
  have dist: "\<not> lua_rawequal k k'" if "k2 \<in> fst ` set kvs" "lua_rawequal k2 k'" for k2
    using Cons.prems(1) that lua_rawequal_cong lua_rawequal_sym by (fastforce simp: kv)
  show ?case unfolding kv foldl_Cons prod.case IH
    using dist by (auto simp: put eq)
qed simp

section \<open>Tables sent as arrays\<close>

definition index_key :: "lua_val \<Rightarrow> bool" where
  "index_key k \<longleftrightarrow> (\<exists>j. 1 \<le> j \<and> j < 2 ^ 31 \<and> k = array_index j)"

lemma is_array_keys:
  "table_is_an_array_loop ks c m \<Longrightarrow> \<forall>k \<in> set ks. \<exists>j. 1 \<le> j \<and> int j \<le> c + int (length ks) \<and> k = array_index j"
proof (induction ks c m rule: table_is_an_array_loop.induct)
  case (2 k ks c m)
  then obtain n i where k: "k = LNumber n" "d_int n = Some i" "0 < i"
    and loop: "table_is_an_array_loop ks (c + 1) (if i > m then i else m)"
    by (auto split: lua_val.splits option.splits if_splits)
  have mono: "table_is_an_array_loop ks c m \<Longrightarrow> m \<le> c + int (length ks)" for ks c m
    by (induction ks c m rule: table_is_an_array_loop.induct)
      (fastforce split: lua_val.splits option.splits if_splits)+
  have "i \<le> c + 1 + int (length ks)" using mono [OF loop] by (auto split: if_splits)
  moreover have "k = array_index (nat i)"
    using k i2d_d_int [OF k(2)] d_int_zero_nan(1) [of n] by (auto simp: array_index_def)
  moreover have "\<forall>k \<in> set ks. \<exists>j. 1 \<le> j \<and> int j \<le> c + 1 + int (length ks) \<and> k = array_index j"
    using "2.IH" [OF k(1,2)] k loop "2.prems" by (auto split: if_splits)
  moreover have "1 \<le> nat i" using k(3) by simp
  ultimately have "\<exists>j. 1 \<le> j \<and> int j \<le> c + 1 + int (length ks) \<and> k' = array_index j"
    if "k' \<in> set (k # ks)" for k'
    using that k(3) by (metis int_nat_eq less_le_not_le set_ConsD)
  then show ?case by (simp add: algebra_simps)
qed simp

lemma array_table_keys:
  assumes "table_is_an_array t" "wf_table t"
  shows "fst ` set t = array_index ` {1..length t}" and "length t < 2 ^ 31"
proof -
  have "int (length t) < 2 ^ 31"
    using table_is_an_array_loop_length [of "map fst t" 0 0] assms(1) by (simp add: table_is_an_array_def)
  then show len: "length t < 2 ^ 31" by simp
  have sub: "fst ` set t \<subseteq> array_index ` {1..length t}"
    using is_array_keys [of "map fst t" 0 0] assms(1) by (fastforce simp: table_is_an_array_def)
  have "distinct (map fst t)"
    using assms(2)
  proof (induction t)
    case (Cons p t)
    then show ?case by (cases p) (auto dest!: scalar_self simp: self_equal_def)
  qed simp
  then have "card (fst ` set t) = length t" by (metis distinct_card length_map list.set_map)
  moreover have "card (array_index ` {1..length t}) \<le> length t" using card_image_le [of "{1..length t}"] by simp
  ultimately show "fst ` set t = array_index ` {1..length t}"
    by (intro card_seteq [OF _ sub]) simp_all
qed

lemma array_objlen:
  assumes "table_is_an_array t" "wf_table t"
  shows "lua_objlen t = length t"
proof -
  note keys = array_table_keys [OF assms]
  have pres: "lua_rawget t (array_index j) \<noteq> LNil" if "j \<in> {1..length t}" for j
    by (rule rawget_present [OF assms(2), of "array_index j"])
      (use that keys array_index_eq [of j j] in auto)
  have abs: "lua_rawget t (array_index (length t + 1)) = LNil"
    by (rule rawget_absent) (use keys array_index_eq [of _ "length t + 1"] in auto)
  have upt: "[1..<length t + 2] = [1..<length t + 1] @ [length t + 1]" by simp
  have "takeWhile (\<lambda>j. lua_rawget t (array_index j) \<noteq> LNil) [1..<length t + 2] = [1..<length t + 1]"
    unfolding upt by (subst takeWhile_append2) (use pres abs in \<open>simp_all del: upt_Suc\<close>)
  then show ?thesis by (simp add: lua_objlen_def del: upt_Suc)
qed

lemma array_image_lookup:
  assumes "table_is_an_array t" "wf_table t" "g LNil = LNil"
  shows "lua_rawget (foldl (\<lambda>t' j. table_set t' (array_index j) (g (lua_rawget t (array_index j)))) []
    [1..<lua_objlen t + 1]) k = g (lua_rawget t k)"
proof -
  let ?js = "[1..<length t + 1]"
  let ?kvs = "map (\<lambda>j. (array_index j, lua_rawget t (array_index j))) ?js"
  note keys = array_table_keys [OF assms(1,2)]
  have get: "\<exists>i. i \<in> set ?js \<and> lua_rawequal (array_index i) k \<Longrightarrow> lua_rawget ?kvs k = lua_rawget t k"
  proof -
    have "\<exists>i. i \<in> set js \<and> lua_rawequal (array_index i) k \<Longrightarrow>
       lua_rawget (map (\<lambda>j. (array_index j, lua_rawget t (array_index j))) js) k = lua_rawget t k" for js
      by (induction js) (auto intro: rawget_key_cong)
    then show "\<exists>i. i \<in> set ?js \<and> lua_rawequal (array_index i) k \<Longrightarrow> ?thesis" by blast
  qed
  have absent: "lua_rawget t k = LNil" if "\<not> (\<exists>i. i \<in> set ?js \<and> lua_rawequal (array_index i) k)"
    by (rule rawget_absent) (use keys that in auto)
  have "sorted_wrt (\<lambda>i j. \<not> lua_rawequal (array_index i) (array_index j)) ?js"
    by (rule sorted_wrt_mono_rel [OF _ sorted_wrt_upt]) (use keys(2) array_index_eq in auto)
  then have sorted: "sorted_wrt (\<lambda>k k'. \<not> lua_rawequal k k') (map fst ?kvs)"
    by (simp add: sorted_wrt_map comp_def del: upt_Suc)
  have "lua_rawget (foldl (\<lambda>t (k, v). table_set t (id k) (g v)) [] ?kvs) k =
    (if \<exists>k1 \<in> fst ` set ?kvs. lua_rawequal k1 k then g (lua_rawget ?kvs k) else lua_rawget [] k)"
    by (rule rawget_filled [OF sorted])
      (use keys(2) array_index_eq in \<open>auto simp: self_equal_def settable_index simp del: upt_Suc\<close>)
  then have main: "lua_rawget (foldl (\<lambda>t' j. table_set t' (array_index j) (g (lua_rawget t (array_index j))))
      [] ?js) k =
    (if \<exists>k1 \<in> fst ` set ?kvs. lua_rawequal k1 k then g (lua_rawget ?kvs k) else LNil)"
    by (simp only: foldl_map prod.case id_apply lua_rawget.simps)
  have E: "(\<exists>k1 \<in> fst ` set ?kvs. lua_rawequal k1 k) \<longleftrightarrow> (\<exists>i. i \<in> set ?js \<and> lua_rawequal (array_index i) k)"
    by (auto simp del: upt_Suc)
  show ?thesis
  proof (cases "\<exists>i. i \<in> set ?js \<and> lua_rawequal (array_index i) k")
    case True
    show ?thesis unfolding array_objlen [OF assms(1,2)] main E if_P [OF True] get [OF True] ..
  next
    case False
    show ?thesis
      unfolding array_objlen [OF assms(1,2)] main E if_not_P [OF False] absent [OF False] assms(3) ..
  qed
qed

section \<open>Lookup in a received table\<close>

lemma map_image_lookup:
  assumes "wf_table t"
  shows "lua_rawget (foldl (\<lambda>t' (k, v). table_set t' (mp_image l k) (mp_image l v)) [] t) k
    = mp_image l (lua_rawget t k)"
proof -
  have "lua_rawget (foldl (\<lambda>t' (k, v). table_set t' (mp_image l k) (mp_image l v)) [] t) k =
    (if \<exists>k1 \<in> fst ` set t. lua_rawequal k1 k then mp_image l (lua_rawget t k) else lua_rawget [] k)"
    by (rule rawget_filled)
      (use assms in \<open>auto simp: wf_table_def image_key settable_scalar intro: scalar_self\<close>)
  moreover have "lua_rawget t k = LNil" if "\<not> (\<exists>k1 \<in> fst ` set t. lua_rawequal k1 k)"
    by (rule rawget_absent) (use that in auto)
  ultimately show ?thesis by auto
qed

lemma table_image_lookup:
  assumes "wf_table t" "l < LUACMSGPACK_MAX_NESTING"
  shows "\<exists>t'. mp_image l (LTable t) = LTable t' \<and>
    (\<forall>k. lua_rawget t' k = mp_image (l + 1) (lua_rawget t k))"
  using assms array_image_lookup [of t "mp_image (l + 1)"] map_image_lookup [OF assms(1)]
  by (cases "table_is_an_array t") auto


section \<open>Properties of the codec\<close>

text \<open>
  C1. Every stream \<open>mp_pack\<close> writes is read back by \<open>mp_unpack\<close>: one value per argument, in
  order, each the image of what was packed, for strings and tables whose sizes fit the format
  and tables with boolean, number and string keys.
\<close>

theorem pack_unpack_roundtrip:
  assumes "vs \<noteq> []" "length vs < 2 ^ 31" "\<forall>v \<in> set vs. mp_sized v \<and> mp_keys_ok v"
  shows "\<exists>s. mp_pack vs = Inr s \<and> mp_unpack s = Inr (map (mp_image 0) vs)"
  using mp_pack_layouts [OF assms(1)] unpack_all_layouts [OF assms(3,2)] assms(3) by auto

theorem pack_unpack_roundtrip_witness:
  "\<exists>s. mp_pack [LString [0x61], LTable [(LString [0x62], LBoolean True)]] = Inr s \<and>
    mp_unpack s = Inr [LString [0x61], mp_image 0 (LTable [(LString [0x62], LBoolean True)])]"
  using pack_unpack_roundtrip [of "[LString [0x61], LTable [(LString [0x62], LBoolean True)]]"]
  by (simp add: scalar_key_def del: mp_image_simps(6))

text \<open>
  C4. A table that is packed and unpacked is a table again, and under every key the receiver
  finds the image of what the sender had there, whether the encoder took it for an array or
  for a map.
\<close>

theorem received_table_lookup:
  assumes "wf_table t" "mp_sized (LTable t)" "mp_keys_ok (LTable t)"
  shows "\<exists>s t'. mp_pack [LTable t] = Inr s \<and> mp_unpack s = Inr [LTable t'] \<and>
    (\<forall>k. lua_rawget t' k = mp_image 1 (lua_rawget t k))"
proof -
  have vs: "\<forall>v \<in> set [LTable t]. mp_sized v \<and> mp_keys_ok v" using assms(2,3) by simp
  obtain t' where t': "mp_image 0 (LTable t) = LTable t'"
      "\<forall>k. lua_rawget t' k = mp_image 1 (lua_rawget t k)"
    using table_image_lookup [OF assms(1), of 0] by (auto simp: LUACMSGPACK_MAX_NESTING_def)
  have "mp_pack [LTable t] = Inr (concat (map (mp_layout 0) [LTable t]))"
    by (rule mp_pack_layouts) (use assms(2) in \<open>simp_all del: mp_sized_simps\<close>)
  moreover have "mp_unpack (concat (map (mp_layout 0) [LTable t])) = Inr (map (mp_image 0) [LTable t])"
    by (rule unpack_all_layouts [OF vs]) simp
  ultimately show ?thesis using t' by (simp del: mp_image_simps(6))
qed

theorem received_table_lookup_witness:
  "\<exists>s t'. mp_pack [LTable [(LString [0x62], LBoolean True)]] = Inr s \<and> mp_unpack s = Inr [LTable t'] \<and>
    lua_rawget t' (LString [0x62]) = LBoolean True"
  using received_table_lookup [of "[(LString [0x62], LBoolean True)]"]
  by (auto simp: wf_table_def scalar_key_def)

lemma unpack_loop_ends:
  "mc_left c \<le> n \<Longrightarrow> mp_unpack_loop n c cnt limit acc \<noteq> Inl MpNoFuel"
proof (induction n arbitrary: c cnt acc)
  case 0
  then show ?case by (simp add: mp_unpack_loop.simps)
next
  case (Suc n)
  have nf: "mp_decode_to_lua_type (2 * mc_left c + 1) c \<noteq> MpFuel"
    by (rule decode_enough_fuel) simp
  have "mp_unpack_loop n c' (cnt + 1) limit (acc @ [v]) \<noteq> Inl MpNoFuel"
    if "mp_decode_to_lua_type (2 * mc_left c + 1) c = MpOk v c'" for v c'
    by (rule Suc.IH) (use decode_consumes(1) [OF that] Suc.prems in auto)
  with nf show ?case by (subst mp_unpack_loop.simps) (auto split: mp_result.splits)
qed

text \<open>
  C21. Unpacking always comes to an end, with values or with an error, on every byte string:
  the loop over the values and the recursion into arrays and maps never exhaust the fuel the
  model gives them, which is bounded by the bytes left.
\<close>

theorem unpack_terminates: "mp_unpack_full s limit offset \<noteq> Inl MpNoFuel"
  using unpack_loop_ends [of "mp_cur_init (drop (nat offset) s) (length s - nat offset)"]
  by (auto simp: mp_unpack_full_def Let_def split: sum.splits if_splits)

text \<open>
  C23. The decoder never looks past the bytes it was given: two buffers that agree on the first
  \<open>left\<close> bytes decode to the same value, leave the same number of bytes, or fail in the same
  way, whatever lies behind.
\<close>

theorem decode_in_bounds:
  assumes "take n p = take n p'"
  shows "trim_result (mp_decode_to_lua_type f (mp_cur_init p n)) =
    trim_result (mp_decode_to_lua_type f (mp_cur_init p' n))"
proof -
  have "trim (mp_cur_init p n) = trim (mp_cur_init p' n)"
    using assms by (simp add: trim_def mp_cur_init_def)
  then show ?thesis using decode_trim(1) by metis
qed

theorem decode_in_bounds_witness:
  "trim_result (mp_decode_to_lua_type 3 (mp_cur_init [0xa2, 0x61, 1] 2)) =
    trim_result (mp_decode_to_lua_type 3 (mp_cur_init [0xa2, 0x61, 2] 2))"
  by (rule decode_in_bounds) simp

text \<open>
  C26. The encoder of \<open>mp_pack\<close>, with its growing buffer, its masks and shifts and its
  recursion into tables, appends exactly the MessagePack layout of the value to the buffer and
  keeps the buffer well formed.
\<close>

theorem encoder_writes_layout:
  assumes "mp_buf_valid buf" "mp_sized v"
  shows "mp_buf_valid (mp_encode_lua_type buf v level) \<and>
    mp_buf_contents (mp_encode_lua_type buf v level) = mp_buf_contents buf @ mp_layout level v"
  by (rule mp_encode_lua_type_layout [OF assms])

theorem encoder_writes_layout_witness:
  "mp_buf_contents (mp_encode_lua_type mp_buf_new (LString [0x61, 0x62]) 0) = [0xa2, 0x61, 0x62]"
  using encoder_writes_layout [of mp_buf_new "LString [0x61, 0x62]" 0]
  by (simp add: raw_header_def)

text \<open>An unsigned 64-bit integer above the signed range arrives as a negative number.\<close>

lemma mp_unpack_single:
  assumes "mp_decode_to_lua_type (2 * length s + 1) (cur s) = MpOk v (cur [])" "s \<noteq> []"
  shows "mp_unpack s = Inr [v]"
proof -
  obtain n where n: "length s = Suc n" using assms(2) by (cases s) auto
  have end_of_loop: "mp_unpack_loop n (cur []) 1 INT_MAX [v] = Inr ([v], cur [])"
    by (subst mp_unpack_loop.simps) simp
  have "mp_unpack_loop (length s) (cur s) 0 INT_MAX [] = Inr ([v], cur [])"
    using assms(1) end_of_loop n by (subst mp_unpack_loop.simps) (simp add: INT_MAX_def)
  then show ?thesis by (simp add: mp_unpack_def mp_unpack_full_def mp_cur_init_def cur_def)
qed

lemma sint_negative: "2 ^ 63 \<le> unat n \<Longrightarrow> sint n < 0" for n :: u64
proof (rule ccontr)
  assume a: "2 ^ 63 \<le> unat n" "\<not> sint n < 0"
  have "int (unat n) < 2 ^ 63" using uint_unat_sint [of n] sint_lt [of n] a(2) by simp
  moreover have "int (2 ^ 63) \<le> int (unat n)" using a(1) by (simp only: of_nat_le_iff)
  ultimately show False by simp
qed

lemma uint64_arrives_negative:
  assumes "2 ^ 63 \<le> unat (n :: u64)"
  shows "mp_unpack (0xcf # be_bytes 8 (unat n)) = Inr [lua_pushinteger (sint n)] \<and> sint n < 0"
proof (rule conjI [OF mp_unpack_single sint_negative [OF assms]])
  have "(be_or (be_bytes 8 (unat n)) :: u64) = n" by (subst be_or_ucast) simp_all
  then show "mp_decode_to_lua_type (2 * length (0xcf # be_bytes 8 (unat n)) + 1)
      (cur (0xcf # be_bytes 8 (unat n))) = MpOk (lua_pushinteger (sint n)) (cur [])"
    using decode_number_formats(7) [of "be_bytes 8 (unat n)" _ "[]"]
    by (simp only: length_be_bytes list.size append_Nil2 Suc_eq_plus1 [symmetric])
qed simp

end
