(* ===== verification/Posix.thy ===== *)
theory Posix
  imports DfPrelude
begin

text \<open>
  What the sources use of the C library and the kernel apart from strings: how a call can end,
  the error numbers they test, and the flags of a file descriptor.
\<close>

section \<open>How a call ends\<close>

text \<open>
  A call returns, ends the process with \<open>exit\<close> or \<open>abort\<close>, runs into undefined behaviour (with
  the reason), waits for an event that does not come, or runs for ever without waiting.
\<close>

datatype 'a proc =
    Returned 'a
  | Exited nat
  | Aborted
  | Undefined string
  | Blocked
  | Spins

definition EXIT_SUCCESS :: nat where "EXIT_SUCCESS = 0"
definition EXIT_FAILURE :: nat where "EXIT_FAILURE = 1"

fun proc_bind :: "'a proc \<Rightarrow> ('a \<Rightarrow> 'b proc) \<Rightarrow> 'b proc" where
  "proc_bind (Returned a) f = f a"
| "proc_bind (Exited n) f = Exited n"
| "proc_bind Aborted f = Aborted"
| "proc_bind (Undefined r) f = Undefined r"
| "proc_bind Blocked f = Blocked"
| "proc_bind Spins f = Spins"

fun proc_map :: "('a \<Rightarrow> 'b) \<Rightarrow> 'a proc \<Rightarrow> 'b proc" where
  "proc_map f (Returned a) = Returned (f a)"
| "proc_map f (Exited n) = Exited n"
| "proc_map f Aborted = Aborted"
| "proc_map f (Undefined r) = Undefined r"
| "proc_map f Blocked = Blocked"
| "proc_map f Spins = Spins"

lemma proc_bind_Returned:
  "proc_bind p f = Returned b \<longleftrightarrow> (\<exists>a. p = Returned a \<and> f a = Returned b)"
  by (cases p) auto

lemma proc_bind_assoc: "proc_bind (proc_bind p f) g = proc_bind p (\<lambda>x. proc_bind (f x) g)"
  by (cases p) auto

lemma proc_map_Returned: "proc_map f p = Returned b \<longleftrightarrow> (\<exists>a. p = Returned a \<and> b = f a)"
  by (cases p) auto

lemma proc_bind_cong [cong]:
  "p = p' \<Longrightarrow> (\<And>a. p' = Returned a \<Longrightarrow> f a = f' a) \<Longrightarrow> proc_bind p f = proc_bind p' f'"
  by (cases p') auto

section \<open>Error numbers\<close>

text \<open>\<open>EAGAIN\<close> and \<open>EWOULDBLOCK\<close> are one number on Linux.\<close>

datatype errno =
    EAGAIN | ETIMEDOUT | EINTR | EPIPE | EINVAL | EEXIST | ENOENT | EACCES | ECONNREFUSED
  | ECONNRESET | EISDIR | EDESTADDRREQ | EBADF | EIO | ENOBUFS

text \<open>A \<open>read\<close> or \<open>write\<close> moves a number of bytes or fails.\<close>

datatype sys_io = Transferred nat | Failed errno

section \<open>Descriptor flags\<close>

text \<open>
  \<open>F_SETFD\<close> sets the descriptor flags, of which there is one, \<open>FD_CLOEXEC\<close>; whether the file
  blocks is a status flag, which only \<open>F_SETFL\<close> sets.
\<close>

record fd =
  fd_cloexec :: bool
  fd_nonblock :: bool

definition FD_CLOEXEC :: nat where "FD_CLOEXEC = 1"
definition O_NONBLOCK :: nat where "O_NONBLOCK = 0x800"

definition fcntl_getfd :: "fd \<Rightarrow> nat" where
  "fcntl_getfd f = (if fd_cloexec f then FD_CLOEXEC else 0)"

definition fcntl_setfd :: "fd \<Rightarrow> nat \<Rightarrow> fd" where
  "fcntl_setfd f flags = f\<lparr>fd_cloexec := odd flags\<rparr>"

definition new_fd :: fd where
  "new_fd = \<lparr>fd_cloexec = False, fd_nonblock = False\<rparr>"

end
