(* ===== verification/Channel.thy ===== *)
theory Channel
  imports Posix
begin

text \<open>
  The contracts of the two ends a thread of the engine works between. A channel is first-in
  first-out: what is sent is received, whole and in order. A sink takes messages one after the
  other and keeps all of them, each rendered in its way.
\<close>

primrec drain :: "('q \<Rightarrow> ('m \<times> 'q) option) \<Rightarrow> nat \<Rightarrow> 'q \<Rightarrow> 'm list \<times> 'q" where
  "drain recv 0 q = ([], q)"
| "drain recv (Suc n) q =
     (case recv q of None \<Rightarrow> ([], q) | Some (m, q') \<Rightarrow> apfst (Cons m) (drain recv n q'))"

locale msg_channel =
  fixes send :: "'q \<Rightarrow> 'm \<Rightarrow> 'q"
    and recv :: "'q \<Rightarrow> ('m \<times> 'q) option"
    and holds :: "'q \<Rightarrow> 'm list \<Rightarrow> bool"
    and ok :: "'m \<Rightarrow> bool"
  assumes holds_send: "holds q ms \<Longrightarrow> ok m \<Longrightarrow> holds (send q m) (ms @ [m])"
    and holds_recv: "holds q (m # ms) \<Longrightarrow> \<exists>q'. recv q = Some (m, q') \<and> holds q' ms"
    and holds_nil: "holds q [] \<Longrightarrow> recv q = None"
begin

lemma holds_sends:
  "holds q ms \<Longrightarrow> \<forall>x \<in> set xs. ok x \<Longrightarrow> holds (foldl send q xs) (ms @ xs)"
proof (induction xs arbitrary: q ms)
  case (Cons x xs)
  then show ?case using Cons.IH [of "send q x" "ms @ [x]"] holds_send by simp
qed simp

lemma drain_holds:
  "holds q (ms @ ms') \<Longrightarrow> \<exists>q'. drain recv (length ms) q = (ms, q') \<and> holds q' ms'"
proof (induction ms arbitrary: q)
  case (Cons m ms)
  obtain q1 where "recv q = Some (m, q1)" "holds q1 (ms @ ms')"
    using holds_recv [of q m "ms @ ms'"] Cons.prems by auto
  with Cons.IH show ?case by fastforce
qed simp

lemma drain_nothing: "holds q [] \<Longrightarrow> drain recv n q = ([], q)"
  by (cases n) (simp_all add: holds_nil)

text \<open>What was sent into an empty channel comes out, in order and with nothing left.\<close>

lemma fifo:
  assumes "holds q []" "\<forall>x \<in> set xs. ok x"
  shows "\<exists>q'. drain recv (length xs) (foldl send q xs) = (xs, q') \<and> holds q' []"
  using drain_holds [of "foldl send q xs" xs "[]"] holds_sends [OF assms] by simp

lemma recv_some_iff: "holds q ms \<Longrightarrow> recv q = None \<longleftrightarrow> ms = []"
  using holds_recv holds_nil by (cases ms) fastforce+

end

section \<open>Sinks\<close>

primrec put_all :: "('m \<Rightarrow> 's \<Rightarrow> (int \<times> 's) proc) \<Rightarrow> 'm list \<Rightarrow> 's \<Rightarrow> 's proc" where
  "put_all put [] s = Returned s"
| "put_all put (m # ms) s = proc_bind (put m s) (\<lambda>(n, s'). put_all put ms s')"

locale message_sink =
  fixes put :: "'m \<Rightarrow> 's \<Rightarrow> (int \<times> 's) proc"
    and ready :: "'s \<Rightarrow> bool"
    and good :: "'m \<Rightarrow> bool"
    and view :: "'s \<Rightarrow> 'x list"
    and render :: "'m \<Rightarrow> 'x list"
  assumes put_ready: "ready s \<Longrightarrow> good m \<Longrightarrow>
    \<exists>n s'. put m s = Returned (n, s') \<and> 0 < n \<and> ready s' \<and> view s' = view s @ render m"
begin

lemma put_all_view:
  "ready s \<Longrightarrow> \<forall>m \<in> set ms. good m \<Longrightarrow>
    \<exists>s'. put_all put ms s = Returned s' \<and> ready s' \<and> view s' = view s @ concat (map render ms)"
proof (induction ms arbitrary: s)
  case (Cons m ms)
  obtain n s1 where s1: "put m s = Returned (n, s1)" "ready s1" "view s1 = view s @ render m"
    using put_ready [of s m] Cons.prems by auto
  then show ?case using Cons.IH [of s1] Cons.prems(2) by auto
qed simp

end

end
