(* ===== verification/MsgQueue.thy ===== *)
theory MsgQueue
  imports Posix Channel
begin

text \<open>
  The message queue of \<open>lib/msgqueue/msgqueue.c\<close>: a pipe that carries messages behind a 4-byte
  length. Every pair of threads of the engine, and its two processes, talk through it. The
  kernel's answers to \<open>writev\<close> and \<open>read\<close> are an explicit list of events, so all of its
  choices (partial transfers, errors, a cancel from another thread) are covered; no more
  events means that the call is still waiting.
\<close>

section \<open>State\<close>

definition MAX_MESSAGE_SIZE :: nat where "MAX_MESSAGE_SIZE = 32768"

record queue_t =
  cancel :: bool
  pipe_bytes :: "byte list"   \<comment> \<open>written to \<open>pipefd[1]\<close> and not yet read from \<open>pipefd[0]\<close>\<close>
  pipe_rd :: fd
  pipe_wr :: fd
  queue_name :: string

text \<open>What the kernel did, and whether another thread has called \<open>msgqueue_cancel\<close> by then.\<close>

type_synonym io_event = "sys_io \<times> bool"

section \<open>Operations\<close>

text \<open>
  Creation; the arguments say whether \<open>pipe\<close> and the two \<open>fcntl\<close> calls succeed. The code sets
  \<open>O_NONBLOCK\<close> among the descriptor flags.
\<close>

definition msgqueue_create :: "string \<Rightarrow> bool \<Rightarrow> bool \<Rightarrow> bool \<Rightarrow> queue_t proc" where
  "msgqueue_create name pipe_ok setfd0_ok setfd1_ok =
     (if \<not> pipe_ok then Exited EXIT_FAILURE
      else
        let q = \<lparr>cancel = False, pipe_bytes = [], pipe_rd = new_fd, pipe_wr = new_fd,
                 queue_name = strndup name NAME_MAX\<rparr>;
            flags = fcntl_getfd (pipe_rd q) OR O_NONBLOCK in
        if \<not> setfd0_ok then Exited EXIT_FAILURE
        else
          let q = q\<lparr>pipe_rd := fcntl_setfd (pipe_rd q) flags\<rparr>;
              flags = fcntl_getfd (pipe_wr q) OR O_NONBLOCK in
          if \<not> setfd1_ok then Exited EXIT_FAILURE
          else Returned (q\<lparr>pipe_wr := fcntl_setfd (pipe_wr q) flags\<rparr>))"

definition msgqueue_cancel :: "queue_t option \<Rightarrow> queue_t option" where
  "msgqueue_cancel q =
     (case q of None \<Rightarrow> None
      | Some q \<Rightarrow> if cancel q then Some q else Some (q\<lparr>cancel := True\<rparr>))"

text \<open>The memory is freed; what the pointer of the caller refers to afterwards is nothing.\<close>

definition msgqueue_destroy :: "queue_t option \<Rightarrow> queue_t option" where
  "msgqueue_destroy q = None"

definition retry_error :: "errno \<Rightarrow> bool" where
  "retry_error e \<longleftrightarrow> e = ETIMEDOUT \<or> e = EAGAIN"

text \<open>The length as the four bytes of an \<open>int\<close> in memory, then the message.\<close>

definition msg_frame :: "byte list \<Rightarrow> byte list" where
  "msg_frame m = le_bytes 4 (length m) @ m"

fun msgqueue_send_loop :: "queue_t \<Rightarrow> byte list \<Rightarrow> io_event list \<Rightarrow> (int \<times> queue_t) proc" where
  "msgqueue_send_loop q frame [] = Blocked"
| "msgqueue_send_loop q frame ((r, c) # evs) =
     (let q1 = q\<lparr>cancel := cancel q \<or> c\<rparr> in
      case r of
        Transferred k \<Rightarrow>
          let n = min k (length frame) in
          Returned (int n, q1\<lparr>pipe_bytes := pipe_bytes q @ take n frame\<rparr>)
      | Failed e \<Rightarrow>
          if retry_error e then
            (if cancel q1 then Returned (-1, q1) else msgqueue_send_loop q1 frame evs)
          else if cancel q1 then Returned (-1, q1)
          else Exited EXIT_FAILURE)"

text \<open>
  \<open>length\<close> bytes at \<open>buffer\<close>; fewer bytes in the buffer's memory means that \<open>writev\<close> reads
  beyond it. A negative length makes \<open>writev\<close> fail with \<open>EINVAL\<close>.
\<close>

definition msgqueue_send :: "queue_t option \<Rightarrow> byte list \<Rightarrow> int \<Rightarrow> io_event list
    \<Rightarrow> (int \<times> queue_t option) proc" where
  "msgqueue_send q buffer len evs =
     (case q of
        None \<Rightarrow> Returned (-1, None)
      | Some q \<Rightarrow>
          if cancel q then Returned (-1, Some q)
          else
            let len = (if len > int MAX_MESSAGE_SIZE then int MAX_MESSAGE_SIZE else len) in
            if len < 0 then Exited EXIT_FAILURE
            else if nat len > length buffer then Undefined ''read beyond the message''
            else proc_map (apsnd Some) (msgqueue_send_loop q (msg_frame (take (nat len) buffer)) evs))"

text \<open>An \<open>int\<close> from its four bytes.\<close>

definition int_of_bytes :: "byte list \<Rightarrow> int" where
  "int_of_bytes bs = sint (of_nat (le_nat bs) :: u32)"

definition int_minus_1 :: "byte list" where
  "int_minus_1 = [0xff, 0xff, 0xff, 0xff]"

text \<open>
  A \<open>read\<close> of up to \<open>req\<close> bytes: what it takes from the pipe, and the rest.
\<close>

definition pipe_take :: "queue_t \<Rightarrow> nat \<Rightarrow> nat \<Rightarrow> byte list \<times> queue_t" where
  "pipe_take q k req =
     (let n = min k req in (take n (pipe_bytes q), q\<lparr>pipe_bytes := drop n (pipe_bytes q)\<rparr>))"

text \<open>
  The loop of \<open>msgqueue_recv\<close> while \<open>l < 0\<close>, \<open>l\<close> given as its bytes. An error of the first
  \<open>read\<close> does not keep the second from being made, then with \<open>l\<close> still negative: as a
  \<open>size_t\<close> that is more than any pipe holds. If only the second \<open>read\<close> has to be repeated,
  \<open>l\<close> is no longer negative and the loop goes round without doing anything.
\<close>

fun msgqueue_recv_loop :: "queue_t \<Rightarrow> byte list \<Rightarrow> nat \<Rightarrow> io_event list
    \<Rightarrow> (int \<times> byte list \<times> queue_t) proc" where
  "msgqueue_recv_loop q lbytes max_size [] = Blocked"
| "msgqueue_recv_loop q lbytes max_size ((r1, c1) # evs) =
     (let q1 = q\<lparr>cancel := cancel q \<or> c1\<rparr>;
          (n1, lbytes1, q2) =
            (case r1 of
               Transferred k \<Rightarrow>
                 let (got, q2) = pipe_take q1 k 4
                 in (int (length got), got @ drop (length got) lbytes, q2)
             | Failed e \<Rightarrow> (-1, lbytes, q1));
          fatal = (case r1 of Failed e \<Rightarrow> \<not> retry_error e \<and> \<not> cancel q1 | _ \<Rightarrow> False);
          l = int_of_bytes lbytes1 in
      if n1 = 0 then Returned (0, [], q2)
      else if fatal then Exited EXIT_FAILURE
      else if l > int max_size then Exited EXIT_FAILURE
      else if cancel q2 then Returned (0, [], q2)
      else
        (case evs of
           [] \<Rightarrow> Blocked
         | (r2, c2) # evs' \<Rightarrow>
             let q3 = q2\<lparr>cancel := cancel q2 \<or> c2\<rparr> in
             (case r2 of
                Transferred k \<Rightarrow>
                  let (got, q4) = pipe_take q3 k (if l < 0 then length (pipe_bytes q3) else nat l) in
                  if length got > max_size then Undefined ''write beyond the buffer''
                  else Returned (int (length got), got, q4)
              | Failed e \<Rightarrow>
                  if \<not> retry_error e \<and> \<not> cancel q3 then Exited EXIT_FAILURE
                  else if cancel q3 then Returned (-1, [], q3)
                  else if l < 0 then msgqueue_recv_loop q3 lbytes1 max_size evs'
                  else Spins)))"

text \<open>The buffer is cleared first; the result is the bytes stored at its start.\<close>

definition msgqueue_recv :: "queue_t option \<Rightarrow> nat \<Rightarrow> io_event list
    \<Rightarrow> (int \<times> byte list \<times> queue_t option) proc" where
  "msgqueue_recv q max_size evs =
     (case q of
        None \<Rightarrow> Returned (-1, [], None)
      | Some q \<Rightarrow>
          if cancel q then Returned (-1, [], Some q)
          else
            let max_size = (if max_size > MAX_MESSAGE_SIZE then MAX_MESSAGE_SIZE else max_size) in
            proc_map (apsnd (apsnd Some)) (msgqueue_recv_loop q int_minus_1 max_size evs))"

section \<open>Messages in the pipe\<close>

lemma int_of_le_bytes: "n < 2 ^ 31 \<Longrightarrow> int_of_bytes (le_bytes 4 n) = int n"
proof -
  assume n: "n < 2 ^ 31"
  then have "le_nat (le_bytes 4 n) = n" by (simp add: le_nat_def le_bytes_def be_nat_be_bytes)
  moreover have "sint (word_of_int (int n) :: u32) = signed_take_bit (LENGTH(32) - 1) (int n)"
    by (rule sint_sbintrunc')
  moreover have "signed_take_bit (LENGTH(32) - 1) (int n) = int n"
    by (rule signed_take_bit_int_eq_self) (use n in simp_all)
  ultimately show ?thesis by (simp add: int_of_bytes_def)
qed

lemma length_frame [simp]: "length (msg_frame m) = 4 + length m"
  by (simp add: msg_frame_def le_bytes_def)

definition sendable :: "byte list \<Rightarrow> bool" where
  "sendable m \<longleftrightarrow> 0 < length m \<and> length m \<le> MAX_MESSAGE_SIZE"

text \<open>An open queue whose pipe holds exactly these messages.\<close>

definition holds_msgs :: "queue_t \<Rightarrow> byte list list \<Rightarrow> bool" where
  "holds_msgs q ms \<longleftrightarrow> \<not> cancel q \<and> (\<forall>m \<in> set ms. sendable m) \<and> pipe_bytes q = concat (map msg_frame ms)"

text \<open>The kernel moves everything at once.\<close>

definition send_whole :: "queue_t \<Rightarrow> byte list \<Rightarrow> (int \<times> queue_t option) proc" where
  "send_whole q m = msgqueue_send (Some q) m (int (length m)) [(Transferred (4 + length m), False)]"

lemma send_whole_msgs:
  assumes "holds_msgs q ms" "sendable m"
  shows "\<exists>q'. send_whole q m = Returned (4 + int (length m), Some q') \<and> holds_msgs q' (ms @ [m])"
  using assms by (auto simp: send_whole_def msgqueue_send_def holds_msgs_def sendable_def Let_def)

lemma cancel_False: "\<not> cancel q \<Longrightarrow> q\<lparr>cancel := False\<rparr> = q"
  by (cases q) simp

text \<open>Two transfers: the length, and up to that many bytes of what the pipe then holds.\<close>

lemma pipe_take_simps:
  "pipe_take q k req =
    (take (min k req) (pipe_bytes q), q\<lparr>pipe_bytes := drop (min k req) (pipe_bytes q)\<rparr>)"
  by (simp add: pipe_take_def Let_def)

lemma recv_two_transfers:
  assumes "\<not> cancel q" "pipe_bytes q = le_bytes 4 n @ rest" "n \<le> max_size" "max_size < 2 ^ 31" "4 \<le> k1"
    "length l0 = 4"
  shows "msgqueue_recv_loop q l0 max_size [(Transferred k1, False), (Transferred k, False)] =
    (let got = take (min k n) rest in
     Returned (int (length got), got, q\<lparr>pipe_bytes := drop (min k n) rest\<rparr>))"
proof -
  have l: "int_of_bytes (le_bytes 4 n) = int n" using assms by (intro int_of_le_bytes) simp
  have k: "min k1 4 = 4" using assms(5) by simp
  have n: "\<not> int max_size < int n" "\<not> max_size < n" using assms(3) by simp_all
  show ?thesis using assms(1)
    by (simp add: pipe_take_simps assms(2,6) l k n cancel_False)
qed

lemma recv_first_msg:
  assumes "holds_msgs q (m # ms)" "MAX_MESSAGE_SIZE \<le> max_size" "length m \<le> k"
  shows "\<exists>q'. msgqueue_recv (Some q) max_size [(Transferred 4, False), (Transferred k, False)] =
    Returned (int (length m), m, Some q') \<and> holds_msgs q' ms"
proof -
  have m: "\<not> cancel q" "length m \<le> MAX_MESSAGE_SIZE" using assms(1) by (simp_all add: holds_msgs_def sendable_def)
  have pipe: "pipe_bytes q = le_bytes 4 (length m) @ m @ concat (map msg_frame ms)"
    using assms(1) by (simp add: holds_msgs_def msg_frame_def)
  have max: "MAX_MESSAGE_SIZE < 2 ^ 31" by (simp add: MAX_MESSAGE_SIZE_def)
  have k: "min k (length m) = length m" using assms(3) by simp
  have len: "length int_minus_1 = 4" by (simp add: int_minus_1_def)
  note loop = recv_two_transfers [OF m(1) pipe m(2) max order_refl len, of k]
  have "msgqueue_recv (Some q) max_size [(Transferred 4, False), (Transferred k, False)] =
    Returned (int (length m), m, Some (q\<lparr>pipe_bytes := concat (map msg_frame ms)\<rparr>))"
    using m(1) assms(2) by (simp add: msgqueue_recv_def loop k Let_def del: msgqueue_recv_loop.simps)
  then show ?thesis using assms(1) by (simp add: holds_msgs_def)
qed


section \<open>The queue as a channel\<close>

text \<open>The queue under a kernel that transfers whole messages.\<close>

definition queue_send :: "queue_t \<Rightarrow> byte list \<Rightarrow> queue_t" where
  "queue_send q m = (case send_whole q m of Returned (_, Some q') \<Rightarrow> q' | _ \<Rightarrow> q)"

definition queue_recv :: "queue_t \<Rightarrow> (byte list \<times> queue_t) option" where
  "queue_recv q =
     (case msgqueue_recv (Some q) MAX_MESSAGE_SIZE
             [(Transferred 4, False), (Transferred MAX_MESSAGE_SIZE, False)] of
        Returned (n, m, Some q') \<Rightarrow> if 0 < n then Some (m, q') else None
      | _ \<Rightarrow> None)"

lemma queue_send_holds: "holds_msgs q ms \<Longrightarrow> sendable m \<Longrightarrow> holds_msgs (queue_send q m) (ms @ [m])"
  using send_whole_msgs [of q ms m] by (auto simp: queue_send_def)

lemma queue_recv_holds:
  assumes "holds_msgs q (m # ms)"
  shows "\<exists>q'. queue_recv q = Some (m, q') \<and> holds_msgs q' ms"
proof -
  have "sendable m" using assms by (simp add: holds_msgs_def)
  then show ?thesis
    using recv_first_msg [OF assms order_refl, of MAX_MESSAGE_SIZE]
    by (auto simp: queue_recv_def sendable_def)
qed

lemma queue_recv_empty: "holds_msgs q [] \<Longrightarrow> queue_recv q = None"
  by (simp add: queue_recv_def msgqueue_recv_def holds_msgs_def pipe_take_simps Let_def)

interpretation mq: msg_channel queue_send queue_recv holds_msgs sendable
  by unfold_locales (simp_all add: queue_send_holds queue_recv_holds queue_recv_empty)

lemma created_queue_empty:
  assumes "msgqueue_create name True True True = Returned q"
  shows "holds_msgs q []"
  using assms by (auto simp: msgqueue_create_def holds_msgs_def Let_def)

section \<open>Several writers on one pipe\<close>

text \<open>
  Any number of threads of two processes write into one queue, one thread reads it. The kernel
  appends a request of up to \<open>PIPE_BUF\<close> bytes at once and may split a larger one, other
  writers coming in between. \<open>pw_rest\<close> is what a thread still has to write of its frame,
  \<open>pw_small\<close> whether the whole request fits \<open>PIPE_BUF\<close>.
\<close>

definition PIPE_BUF :: nat where "PIPE_BUF = 4096"

record writer =
  pw_rest :: "byte list"
  pw_small :: bool

record pipe_sys =
  ps_queue :: queue_t
  ps_writers :: "nat \<Rightarrow> writer"
  ps_sent :: "byte list list"      \<comment> \<open>messages whose writing has begun\<close>
  ps_received :: "byte list list"

definition pipe_init :: "queue_t \<Rightarrow> pipe_sys" where
  "pipe_init q = \<lparr>ps_queue = q, ps_writers = \<lambda>_. \<lparr>pw_rest = [], pw_small = True\<rparr>, ps_sent = [], ps_received = []\<rparr>"

inductive pipe_step :: "pipe_sys \<Rightarrow> pipe_sys \<Rightarrow> bool" where
  begin_write: "pw_rest (ps_writers s w) = [] \<Longrightarrow> sendable m \<Longrightarrow>
    pipe_step s (s\<lparr>ps_writers := (ps_writers s)(w :=
        \<lparr>pw_rest = msg_frame m, pw_small = (length (msg_frame m) \<le> PIPE_BUF)\<rparr>),
      ps_sent := ps_sent s @ [m]\<rparr>)"
| write_some: "0 < k \<Longrightarrow> k \<le> length (pw_rest (ps_writers s w)) \<Longrightarrow>
    pw_small (ps_writers s w) \<longrightarrow> k = length (pw_rest (ps_writers s w)) \<Longrightarrow>
    pipe_step s (s\<lparr>ps_queue := (ps_queue s)\<lparr>pipe_bytes :=
        pipe_bytes (ps_queue s) @ take k (pw_rest (ps_writers s w))\<rparr>,
      ps_writers := (ps_writers s)(w := (ps_writers s w)\<lparr>pw_rest := drop k (pw_rest (ps_writers s w))\<rparr>)\<rparr>)"
| read_one: "msgqueue_recv (Some (ps_queue s)) MAX_MESSAGE_SIZE
      [(Transferred 4, False), (Transferred MAX_MESSAGE_SIZE, False)] = Returned (n, m, Some q') \<Longrightarrow>
    0 < n \<Longrightarrow> pipe_step s (s\<lparr>ps_queue := q', ps_received := ps_received s @ [m]\<rparr>)"

definition pipe_reachable :: "queue_t \<Rightarrow> pipe_sys \<Rightarrow> bool" where
  "pipe_reachable q s \<longleftrightarrow> pipe_step\<^sup>*\<^sup>* (pipe_init q) s"

text \<open>Messages that fit \<open>PIPE_BUF\<close> together with their length.\<close>

definition atomic_msg :: "byte list \<Rightarrow> bool" where
  "atomic_msg m \<longleftrightarrow> 4 + length m \<le> PIPE_BUF"

text \<open>
  As long as all messages are atomic, the pipe holds whole frames, and everything received or
  in the pipe was sent as it is.
\<close>

definition pipe_inv :: "pipe_sys \<Rightarrow> bool" where
  "pipe_inv s \<longleftrightarrow>
     (\<exists>ms. holds_msgs (ps_queue s) ms \<and> set (ps_received s @ ms) \<subseteq> set (ps_sent s)) \<and>
     (\<forall>w. pw_rest (ps_writers s w) \<noteq> [] \<longrightarrow> pw_small (ps_writers s w) \<and>
       (\<exists>m. sendable m \<and> m \<in> set (ps_sent s) \<and> pw_rest (ps_writers s w) = msg_frame m))"

lemma holds_append:
  "holds_msgs q ms \<Longrightarrow> sendable m \<Longrightarrow> holds_msgs (q\<lparr>pipe_bytes := pipe_bytes q @ msg_frame m\<rparr>) (ms @ [m])"
  by (simp add: holds_msgs_def)

lemma pipe_step_inv:
  assumes "pipe_step s s'" "pipe_inv s" "\<forall>m \<in> set (ps_sent s'). atomic_msg m"
  shows "pipe_inv s'"
  using assms
proof (induction rule: pipe_step.induct)
  case (begin_write s w m)
  then show ?case by (fastforce simp: pipe_inv_def atomic_msg_def)
next
  case (write_some k s w)
  then have "pw_rest (ps_writers s w) \<noteq> []" by auto
  with write_some obtain m where m: "pw_small (ps_writers s w)" "sendable m" "m \<in> set (ps_sent s)"
      "pw_rest (ps_writers s w) = msg_frame m"
    unfolding pipe_inv_def by blast
  then have k: "k = length (msg_frame m)" using write_some by simp
  obtain ms where ms: "holds_msgs (ps_queue s) ms" "set (ps_received s @ ms) \<subseteq> set (ps_sent s)"
    using write_some by (auto simp: pipe_inv_def)
  have "\<exists>ms. holds_msgs ((ps_queue s)\<lparr>pipe_bytes := pipe_bytes (ps_queue s) @ msg_frame m\<rparr>) ms \<and>
      set (ps_received s @ ms) \<subseteq> set (ps_sent s)"
    by (rule exI [of _ "ms @ [m]"]) (use ms m holds_append in simp)
  moreover have "\<forall>v. pw_rest (ps_writers s v) \<noteq> [] \<longrightarrow> pw_small (ps_writers s v) \<and>
      (\<exists>m. sendable m \<and> m \<in> set (ps_sent s) \<and> pw_rest (ps_writers s v) = msg_frame m)"
    using write_some by (simp add: pipe_inv_def)
  ultimately show ?case using m k by (simp add: pipe_inv_def)
next
  case (read_one s n m q')
  obtain ms where ms: "holds_msgs (ps_queue s) ms" "set (ps_received s @ ms) \<subseteq> set (ps_sent s)"
    using read_one by (auto simp: pipe_inv_def)
  have r: "queue_recv (ps_queue s) = Some (m, q')" using read_one by (simp add: queue_recv_def)
  with ms obtain m' ms' where cons: "ms = m' # ms'" using mq.recv_some_iff [OF ms(1)] by (cases ms) auto
  with ms(1) queue_recv_holds r have "m' = m" "holds_msgs q' ms'" by fastforce+
  then show ?case using read_one ms cons by (auto simp: pipe_inv_def)
qed

lemma pipe_sent_mono: "pipe_step s s' \<Longrightarrow> set (ps_sent s) \<subseteq> set (ps_sent s')"
  by (induction rule: pipe_step.induct) auto

lemma pipe_reachable_inv:
  assumes "holds_msgs q []" "pipe_reachable q s" "\<forall>m \<in> set (ps_sent s). atomic_msg m"
  shows "pipe_inv s"
  using assms(2,3) unfolding pipe_reachable_def
proof (induction rule: rtranclp_induct)
  case base
  then show ?case using assms(1) by (fastforce simp: pipe_inv_def pipe_init_def)
next
  case (step s s')
  then show ?case using pipe_step_inv pipe_sent_mono by blast
qed


section \<open>Properties of the queue\<close>


definition sample_queue :: queue_t where
  "sample_queue = \<lparr>cancel = False, pipe_bytes = [], pipe_rd = new_fd, pipe_wr = new_fd, queue_name = ''q''\<rparr>"

lemma sample_queue_created: "msgqueue_create ''q'' True True True = Returned sample_queue"
  by (simp add: msgqueue_create_def sample_queue_def strndup_def NAME_MAX_def cstr_def NUL_def fcntl_getfd_def
      fcntl_setfd_def new_fd_def O_NONBLOCK_def Let_def)




lemma write_all:
  assumes "pw_rest (ps_writers s w) \<noteq> []"
  shows "pipe_step s (s\<lparr>ps_queue := (ps_queue s)\<lparr>pipe_bytes :=
        pipe_bytes (ps_queue s) @ pw_rest (ps_writers s w)\<rparr>,
      ps_writers := (ps_writers s)(w := (ps_writers s w)\<lparr>pw_rest := []\<rparr>)\<rparr>)"
  using write_some [of "length (pw_rest (ps_writers s w))" s w] assms by simp


text \<open>
  C40. Once a queue is cancelled, sending and receiving return -1 at once and leave the pipe as
  it is, whatever the kernel would do.
\<close>

theorem cancelled_queue_refuses:
  "msgqueue_cancel (Some q) = Some q' \<Longrightarrow>
     msgqueue_send (Some q') buf len evs = Returned (-1, Some q') \<and>
     msgqueue_recv (Some q') max_size evs = Returned (-1, [], Some q') \<and> pipe_bytes q' = pipe_bytes q"
  by (auto simp: msgqueue_cancel_def msgqueue_send_def msgqueue_recv_def split: if_splits)

theorem cancelled_queue_refuses_witness:
  "msgqueue_send (Some (sample_queue\<lparr>cancel := True\<rparr>)) [1, 2] 2 [] =
    Returned (-1, Some (sample_queue\<lparr>cancel := True\<rparr>))"
  using cancelled_queue_refuses [of sample_queue "sample_queue\<lparr>cancel := True\<rparr>" "[1, 2]" 2 "[]" 0]
  by (simp add: msgqueue_cancel_def sample_queue_def)

section \<open>Where the queue does not do what it means to\<close>

text \<open>Creation means to make both ends non-blocking; they stay blocking.\<close>

lemma created_queue_blocks:
  "msgqueue_create name True True True = Returned q \<Longrightarrow>
     \<not> fd_nonblock (pipe_rd q) \<and> \<not> fd_nonblock (pipe_wr q)"
  by (auto simp: msgqueue_create_def fcntl_setfd_def new_fd_def Let_def)

text \<open>If they were, a message whose body is not there yet would make the receiver spin for ever.\<close>

lemma recv_loop_spins:
  assumes "\<not> cancel q" "pipe_bytes q = le_bytes 4 n" "n \<le> max_size" "max_size < 2 ^ 31"
  shows "msgqueue_recv_loop q int_minus_1 max_size ((Transferred 4, False) # (Failed EAGAIN, False) # evs) = Spins"
proof -
  have l: "int_of_bytes (le_bytes 4 n) = int n" by (rule int_of_le_bytes) (use assms(3,4) in simp)
  have len: "length int_minus_1 = 4" by (simp add: int_minus_1_def)
  have n: "\<not> int max_size < int n" "\<not> max_size < n" using assms(3) by simp_all
  show ?thesis using assms(1)
    by (simp add: pipe_take_simps assms(2) retry_error_def cancel_False len n l Let_def)
qed

lemma recv_spins:
  assumes "\<not> cancel q" "pipe_bytes q = le_bytes 4 n" "n \<le> MAX_MESSAGE_SIZE"
  shows "msgqueue_recv (Some q) MAX_MESSAGE_SIZE ([(Transferred 4, False), (Failed EAGAIN, False)] @ evs) = Spins"
  using recv_loop_spins [OF assms] assms(1)
  by (simp add: msgqueue_recv_def MAX_MESSAGE_SIZE_def del: msgqueue_recv_loop.simps)

text \<open>
  And after a first \<open>read\<close> without data the second is made with the length -1: it takes
  everything the pipe has by then, past the end of the buffer when that is more.
\<close>

lemma recv_loop_overruns:
  assumes "\<not> cancel q" "max_size < length (pipe_bytes q)"
  shows "msgqueue_recv_loop q int_minus_1 max_size
    [(Failed EAGAIN, False), (Transferred (length (pipe_bytes q)), False)] = Undefined ''write beyond the buffer''"
proof -
  have "int_of_bytes int_minus_1 = -1" by (simp add: int_of_bytes_def int_minus_1_def le_nat_def be_nat_def)
  then show ?thesis using assms
    by (simp add: pipe_take_simps retry_error_def cancel_False Let_def)
qed
lemma recv_overruns:
  assumes "\<not> cancel q" "MAX_MESSAGE_SIZE < length (pipe_bytes q)"
  shows "msgqueue_recv (Some q) MAX_MESSAGE_SIZE
      [(Failed EAGAIN, False), (Transferred (length (pipe_bytes q)), False)] =
    Undefined ''write beyond the buffer''"
  using recv_loop_overruns [OF assms] assms(1)
  by (simp add: msgqueue_recv_def del: msgqueue_recv_loop.simps)

text \<open>A message that is too long is cut, and the sender is told only by the number of bytes.\<close>

lemma send_truncates:
  assumes "\<not> cancel q" "MAX_MESSAGE_SIZE \<le> length m"
  shows "msgqueue_send (Some q) m (int (length m)) [(Transferred (4 + MAX_MESSAGE_SIZE), False)] =
    Returned (4 + int MAX_MESSAGE_SIZE,
      Some (q\<lparr>pipe_bytes := pipe_bytes q @ msg_frame (take MAX_MESSAGE_SIZE m)\<rparr>))"
proof -
  have "min (length m) MAX_MESSAGE_SIZE = MAX_MESSAGE_SIZE" using assms(2) by simp
  moreover have "length m = MAX_MESSAGE_SIZE" if "\<not> int MAX_MESSAGE_SIZE < int (length m)"
    using that assms(2) by simp
  ultimately show ?thesis using assms by (auto simp: msgqueue_send_def cancel_False Let_def)
qed

text \<open>
  Two messages above \<open>PIPE_BUF\<close> can be mixed: the reader gets a message nobody sent.
\<close>

lemma large_messages_mix:
  assumes "holds_msgs q []" "length m1 = n" "length m2 = n" "PIPE_BUF < n" "n \<le> MAX_MESSAGE_SIZE"
    and "\<forall>m \<in> {m1, m2}. m \<noteq> le_bytes 4 n @ take (n - 4) m2"
  shows "\<exists>s. pipe_reachable q s \<and> ps_sent s = [m1, m2] \<and> \<not> set (ps_received s) \<subseteq> set (ps_sent s)"
proof -
  have n: "4 < n" using assms(4) by (simp add: PIPE_BUF_def)
  have ok: "sendable m1" "sendable m2" using assms(2,3,5) n by (simp_all add: sendable_def)
  have max: "MAX_MESSAGE_SIZE < 2 ^ 31" "n \<le> MAX_MESSAGE_SIZE" "min MAX_MESSAGE_SIZE n = n"
    using assms(5) by (simp_all add: MAX_MESSAGE_SIZE_def)
  have q: "pipe_bytes q = []" "\<not> cancel q" using assms(1) by (simp_all add: holds_msgs_def)
  have m: "take 4 (msg_frame m1) = le_bytes 4 n" "take (4 + n) (msg_frame m2) = le_bytes 4 n @ m2"
    using assms(2,3) by (simp_all add: msg_frame_def)
  define w where "w = (\<lambda>m. \<lparr>pw_rest = msg_frame m, pw_small = False\<rparr>)"
  have w: "pw_rest (w m) = msg_frame m" "\<not> pw_small (w m)" for m by (simp_all add: w_def)
  define s1 where "s1 = (pipe_init q)\<lparr>ps_writers := (ps_writers (pipe_init q))(0 := w m1), ps_sent := [m1]\<rparr>"
  have 1: "pipe_step (pipe_init q) s1"
    using begin_write [of "pipe_init q" 0 m1] ok assms(2,4) by (simp add: s1_def w_def pipe_init_def)
  define s2 where "s2 = s1\<lparr>ps_writers := (ps_writers s1)(1 := w m2), ps_sent := [m1, m2]\<rparr>"
  have 2: "pipe_step s1 s2"
    using begin_write [of s1 1 m2] ok assms(3,4) by (simp add: s2_def s1_def w_def pipe_init_def)
  have w2: "ps_writers s2 0 = w m1" "ps_writers s2 1 = w m2" "ps_queue s2 = q" "ps_received s2 = []"
    by (simp_all add: s2_def s1_def pipe_init_def)
  define send where "send = (\<lambda>k (s :: pipe_sys) v. s\<lparr>ps_queue := (ps_queue s)\<lparr>pipe_bytes :=
        pipe_bytes (ps_queue s) @ take k (pw_rest (ps_writers s v))\<rparr>,
      ps_writers := (ps_writers s)(v := (ps_writers s v)\<lparr>pw_rest := drop k (pw_rest (ps_writers s v))\<rparr>)\<rparr>)"
  have step: "pipe_step s (send k s v)"
    if "0 < k" "k \<le> length (pw_rest (ps_writers s v))" "\<not> pw_small (ps_writers s v)" for k s v
    unfolding send_def by (rule write_some) (use that in simp_all)
  have sent: "ps_queue (send k s v) = (ps_queue s)\<lparr>pipe_bytes :=
        pipe_bytes (ps_queue s) @ take k (pw_rest (ps_writers s v))\<rparr>"
      "v \<noteq> u \<Longrightarrow> ps_writers (send k s v) u = ps_writers s u"
      "ps_received (send k s v) = ps_received s" "ps_sent (send k s v) = ps_sent s" for k s v u
    by (simp_all add: send_def)
  have 3: "pipe_step s2 (send 4 s2 0)"
    by (rule step) (simp_all add: w2 w)
  have w3: "ps_writers (send 4 s2 0) 1 = w m2" "pipe_bytes (ps_queue (send 4 s2 0)) = le_bytes 4 n"
    by (simp_all add: sent w2 [unfolded One_nat_def] w m q)
  define s4 where "s4 = send (4 + n) (send 4 s2 0) 1"
  have 4: "pipe_step (send 4 s2 0) s4"
    unfolding s4_def by (rule step) (simp_all add: w3 [unfolded One_nat_def] w assms(3))
  define q4 where "q4 = q\<lparr>pipe_bytes := le_bytes 4 n @ le_bytes 4 n @ m2\<rparr>"
  have q4: "ps_queue s4 = q4" "ps_received s4 = []" "ps_sent s4 = [m1, m2]"
    by (simp_all add: s4_def sent w3 [unfolded One_nat_def] w2 w m q q4_def) (simp add: s2_def)
  let ?got = "le_bytes 4 n @ take (n - 4) m2"
  define q5 where "q5 = q\<lparr>pipe_bytes := drop (n - 4) m2\<rparr>"
  have "msgqueue_recv_loop q4 int_minus_1 MAX_MESSAGE_SIZE [(Transferred 4, False), (Transferred MAX_MESSAGE_SIZE, False)]
      = Returned (int n, ?got, q5)"
    using recv_two_transfers [of q4 n "le_bytes 4 n @ m2" MAX_MESSAGE_SIZE 4 int_minus_1 MAX_MESSAGE_SIZE]
      assms(3) q n max
    by (simp add: q4_def q5_def int_minus_1_def Let_def del: msgqueue_recv_loop.simps)
  then have "msgqueue_recv (Some q4) MAX_MESSAGE_SIZE [(Transferred 4, False), (Transferred MAX_MESSAGE_SIZE, False)]
      = Returned (int n, ?got, Some q5)"
    using q by (simp add: msgqueue_recv_def q4_def del: msgqueue_recv_loop.simps)
  then have 5: "pipe_step s4 (s4\<lparr>ps_queue := q5, ps_received := [?got]\<rparr>)"
    using read_one [of s4 "int n" ?got q5] n by (simp add: q4)
  have "pipe_reachable q (s4\<lparr>ps_queue := q5, ps_received := [?got]\<rparr>)"
    unfolding pipe_reachable_def using 1 2 3 4 5
    by (meson converse_rtranclp_into_rtranclp rtranclp.rtrancl_refl)
  then show ?thesis
    using assms(6) q4(3) by (intro exI [of _ "s4\<lparr>ps_queue := q5, ps_received := [?got]\<rparr>"]) auto
qed

end
