(* ===== verification/Config.thy ===== *)
theory Config
  imports LuaValue Posix
begin

text \<open>
  \<open>config.c\<close>: the tables \<open>inputs\<close>, \<open>analyzers\<close>, \<open>outputs\<close>, \<open>responders\<close> and \<open>modules\<close> of
  \<open>config.lua\<close> are read into fixed arrays of records. The arrays are lists of their C length,
  a store past the end is undefined behaviour; a Lua error in this unprotected code ends the
  process. The file system is the set of regular files, the Redis server the set of modules
  it accepts.
\<close>

section \<open>Bounds and names\<close>

definition MAX_WORKER_THREADS :: nat where "MAX_WORKER_THREADS = 1"
definition MAX_ANALYZER_STREAMS :: nat where "MAX_ANALYZER_STREAMS = 16"
definition MAX_INPUT_STREAMS :: nat where "MAX_INPUT_STREAMS = 8"
definition MAX_OUTPUT_STREAMS :: nat where "MAX_OUTPUT_STREAMS = 4 + 2"
definition MAX_RESPONDER_COMMANDS :: nat where "MAX_RESPONDER_COMMANDS = 2"
definition MAX_REDIS_MODULES :: nat where "MAX_REDIS_MODULES = 8"
definition MAX_QUEUE_LENGTH :: nat where "MAX_QUEUE_LENGTH = 10"
definition DEFAULT_STATS_INTERVAL :: nat where "DEFAULT_STATS_INTERVAL = 60"
definition MAX_BUFFER_SIZE :: nat where "MAX_BUFFER_SIZE = 32768"

definition DRAGONFLY_LOG_TAG :: string where "DRAGONFLY_LOG_TAG = ''{log}''"
definition DRAGONFLY_STATS_TAG :: string where "DRAGONFLY_STATS_TAG = ''{stats}''"
definition DRAGONFLY_DEFAULT_LOG :: string where
  "DRAGONFLY_DEFAULT_LOG = ''/var/log/dragonfly-mle/dragonfly-mle.log''"
definition DRAGONFLY_STATS_LOG :: string where
  "DRAGONFLY_STATS_LOG = ''/var/log/dragonfly-mle/dragonfly-mle-stats.log''"
definition DRAGONFLY_LOG_INDEX :: nat where "DRAGONFLY_LOG_INDEX = 0"
definition DRAGONFLY_STATS_INDEX :: nat where "DRAGONFLY_STATS_INDEX = 1"

section \<open>The records\<close>

text \<open>
  A \<open>char *\<close> is a \<open>string option\<close>, NULL being \<open>None\<close>; handles and queues are pointers, kept
  as numbers.
\<close>

record input_config =
  in_tag :: "string option"
  in_uri :: "string option"
  in_script :: "string option"
  in_default_analyzer :: "string option"
  in_input :: "nat option"
  in_queue :: "nat option"

record output_config =
  out_tag :: "string option"
  out_uri :: "string option"
  out_output :: "nat option"
  out_queue :: "nat option"

record analyzer_config =
  an_tag :: "string option"
  an_script :: "string option"
  an_default_analyzer :: "string option"
  an_default_output :: "string option"
  an_queue :: "nat option"

record responder_config =
  rs_tag :: "string option"
  rs_name :: "string option"
  rs_param :: "string option"

definition input_zero :: input_config where
  "input_zero = \<lparr>in_tag = None, in_uri = None, in_script = None, in_default_analyzer = None,
     in_input = None, in_queue = None\<rparr>"

definition output_zero :: output_config where
  "output_zero = \<lparr>out_tag = None, out_uri = None, out_output = None, out_queue = None\<rparr>"

definition analyzer_zero :: analyzer_config where
  "analyzer_zero = \<lparr>an_tag = None, an_script = None, an_default_analyzer = None,
     an_default_output = None, an_queue = None\<rparr>"

definition responder_zero :: responder_config where
  "responder_zero = \<lparr>rs_tag = None, rs_name = None, rs_param = None\<rparr>"

text \<open>A store into an element of an array.\<close>

definition array_store :: "'a list \<Rightarrow> nat \<Rightarrow> ('a \<Rightarrow> 'a) \<Rightarrow> 'a list proc" where
  "array_store xs i f =
     (if i < length xs then Returned (xs[i := f (xs ! i)]) else Undefined ''store past the array'')"

section \<open>Reading the Lua tables\<close>

type_synonym lua_globals = "string \<Rightarrow> lua_val"

text \<open>
  \<open>lua_getfield\<close>, \<open>luaL_checktype\<close> for a string (a number is none), \<open>lua_tostring\<close>: a field of
  another type raises an error outside any \<open>lua_pcall\<close>, a nil one is checked for first in some
  loaders; both end with \<open>exit(EXIT_FAILURE)\<close>.
\<close>

definition string_field :: "lua_table \<Rightarrow> string \<Rightarrow> string proc" where
  "string_field t key =
     (case lua_getfield t key of LString s \<Rightarrow> Returned (cstr (chars_of s)) | _ \<Rightarrow> Exited EXIT_FAILURE)"

text \<open>
  The loop over the entries of a list: element \<open>i + 1\<close> for \<open>i\<close> from \<open>i\<close> on, at most \<open>n\<close> of them,
  until a nil one.
\<close>

fun config_loop :: "(nat \<Rightarrow> lua_table \<Rightarrow> 's \<Rightarrow> 's proc) \<Rightarrow> lua_table \<Rightarrow> nat \<Rightarrow> nat \<Rightarrow> 's \<Rightarrow> 's proc" where
  "config_loop body t i 0 s = Returned s"
| "config_loop body t i (Suc n) s =
     (case lua_rawgeti t (i + 1) of
        LNil \<Rightarrow> Returned s
      | LTable e \<Rightarrow> proc_bind (body i e s) (config_loop body t (i + 1) n)
      | _ \<Rightarrow> Exited EXIT_FAILURE)"

text \<open>
  The path of a script: relative ones are below the directory. \<open>strncpy\<close> of a path that fills
  the buffer leaves it without its end.
\<close>

definition resolve_script :: "string \<Rightarrow> string \<Rightarrow> string proc" where
  "resolve_script dir path =
     (if is_absolute path then
        (if length path < PATH_MAX then Returned (strncpy path PATH_MAX)
         else Undefined ''script path not terminated'')
      else Returned (snprintf PATH_MAX (dir @ ''/'' @ path)))"

text \<open>A script that is not a regular file ends the process.\<close>

definition existing_script :: "(string \<Rightarrow> bool) \<Rightarrow> string \<Rightarrow> string proc" where
  "existing_script is_reg path =
     (if is_reg path then Returned (strndup path PATH_MAX) else Exited EXIT_FAILURE)"

section \<open>Inputs\<close>

definition load_input_entry :: "(string \<Rightarrow> bool) \<Rightarrow> string \<Rightarrow> nat \<Rightarrow> lua_table
    \<Rightarrow> nat \<times> input_config list \<Rightarrow> (nat \<times> input_config list) proc" where
  "load_input_entry is_reg filter_dir i e s =
     (case s of (count, xs) \<Rightarrow>
      proc_bind (string_field e ''tag'') (\<lambda>tag.
      proc_bind (array_store xs i (\<lambda>r. r\<lparr>in_tag := Some (strdup tag)\<rparr>)) (\<lambda>xs.
      proc_bind (string_field e ''uri'') (\<lambda>uri.
      proc_bind (array_store xs i (\<lambda>r. r\<lparr>in_uri := Some (strndup uri PATH_MAX)\<rparr>)) (\<lambda>xs.
      proc_bind (string_field e ''script'') (\<lambda>path.
      proc_bind (resolve_script filter_dir path) (\<lambda>script_path.
      proc_bind (existing_script is_reg script_path) (\<lambda>script.
      proc_bind (array_store xs i (\<lambda>r. r\<lparr>in_script := Some script\<rparr>)) (\<lambda>xs.
      proc_bind (string_field e ''default_analyzer'') (\<lambda>dflt.
      proc_bind (array_store xs i (\<lambda>r. r\<lparr>in_default_analyzer := Some (strndup dflt PATH_MAX)\<rparr>)) (\<lambda>xs.
      Returned (count + 1, xs))))))))))))"

definition load_inputs_config :: "(string \<Rightarrow> bool) \<Rightarrow> lua_globals \<Rightarrow> string
    \<Rightarrow> input_config list \<Rightarrow> nat \<Rightarrow> (nat \<times> input_config list) proc" where
  "load_inputs_config is_reg G filter_dir xs mx =
     (case G ''inputs'' of
        LTable t \<Rightarrow> config_loop (load_input_entry is_reg filter_dir) t 0 mx (0, xs)
      | _ \<Rightarrow> Returned (0, xs))"

definition unload_input :: "input_config \<Rightarrow> input_config" where
  "unload_input r = (if in_tag r \<noteq> None then r\<lparr>in_tag := None, in_uri := None, in_script := None\<rparr> else r)"

text \<open>The first \<open>max\<close> elements of an array, changed one by one.\<close>

definition map_first :: "nat \<Rightarrow> ('a \<Rightarrow> 'a) \<Rightarrow> 'a list \<Rightarrow> 'a list" where
  "map_first n f xs = map f (take n xs) @ drop n xs"

definition unload_inputs_config :: "input_config list \<Rightarrow> nat \<Rightarrow> input_config list" where
  "unload_inputs_config xs mx = map_first mx unload_input xs"

section \<open>Analyzers\<close>

text \<open>Lua index \<open>i\<close> goes to element \<open>i - 1\<close>; the loop starts with 1 and stops before \<open>max\<close>.\<close>

definition load_analyzer_entry :: "(string \<Rightarrow> bool) \<Rightarrow> string \<Rightarrow> nat \<Rightarrow> lua_table
    \<Rightarrow> nat \<times> analyzer_config list \<Rightarrow> (nat \<times> analyzer_config list) proc" where
  "load_analyzer_entry is_reg analyzer_dir i e s =
     (case s of (count, xs) \<Rightarrow>
      proc_bind (string_field e ''tag'') (\<lambda>tag.
      proc_bind (array_store xs i (\<lambda>r. r\<lparr>an_tag := Some (strdup tag)\<rparr>)) (\<lambda>xs.
      proc_bind (string_field e ''script'') (\<lambda>path.
      proc_bind (resolve_script analyzer_dir path) (\<lambda>lua_analyzer.
      proc_bind (existing_script is_reg lua_analyzer) (\<lambda>script.
      proc_bind (array_store xs i (\<lambda>r. r\<lparr>an_script := Some script\<rparr>)) (\<lambda>xs.
      proc_bind (string_field e ''default_analyzer'') (\<lambda>dflt.
      proc_bind (array_store xs i (\<lambda>r. r\<lparr>an_default_analyzer := Some (strdup dflt)\<rparr>)) (\<lambda>xs.
      proc_bind (string_field e ''default_output'') (\<lambda>out.
      proc_bind (array_store xs i (\<lambda>r. r\<lparr>an_default_output := Some (strdup out)\<rparr>)) (\<lambda>xs.
      Returned (count + 1, xs))))))))))))"

definition load_analyzers_config :: "(string \<Rightarrow> bool) \<Rightarrow> lua_globals \<Rightarrow> string
    \<Rightarrow> analyzer_config list \<Rightarrow> nat \<Rightarrow> (nat \<times> analyzer_config list) proc" where
  "load_analyzers_config is_reg G analyzer_dir xs mx =
     (case G ''analyzers'' of
        LTable t \<Rightarrow> config_loop (load_analyzer_entry is_reg analyzer_dir) t 0 (mx - 1) (0, xs)
      | _ \<Rightarrow> Returned (0, xs))"

definition unload_analyzer :: "analyzer_config \<Rightarrow> analyzer_config" where
  "unload_analyzer r = (if an_tag r \<noteq> None then r\<lparr>an_tag := None, an_script := None\<rparr> else r)"

definition unload_analyzers_config :: "analyzer_config list \<Rightarrow> nat \<Rightarrow> analyzer_config list" where
  "unload_analyzers_config xs mx = map_first mx unload_analyzer xs"

section \<open>Outputs\<close>

text \<open>
  The first two elements are the log and the statistics of the engine; the configured outputs
  follow from element 2 on, while the loop counts up to \<open>max\<close>.
\<close>

definition load_output_entry :: "nat \<Rightarrow> lua_table \<Rightarrow> nat \<times> output_config list
    \<Rightarrow> (nat \<times> output_config list) proc" where
  "load_output_entry i e s =
     (case s of (count, xs) \<Rightarrow>
      let j = i + 2 in
      proc_bind (string_field e ''tag'') (\<lambda>tag.
      proc_bind (array_store xs j (\<lambda>r. r\<lparr>out_tag := Some (strdup tag)\<rparr>)) (\<lambda>xs.
      proc_bind (string_field e ''uri'') (\<lambda>uri.
      proc_bind (array_store xs j (\<lambda>r. r\<lparr>out_uri := Some (strndup uri PATH_MAX)\<rparr>)) (\<lambda>xs.
      Returned (count + 1, xs))))))"

definition load_outputs_config :: "lua_globals \<Rightarrow> output_config list \<Rightarrow> nat
    \<Rightarrow> (nat \<times> output_config list) proc" where
  "load_outputs_config G xs mx =
     (case G ''outputs'' of
        LTable t \<Rightarrow>
          proc_bind (array_store xs DRAGONFLY_LOG_INDEX (\<lambda>r. r\<lparr>out_tag := Some DRAGONFLY_LOG_TAG,
              out_uri := Some (snprintf PATH_MAX (''file://'' @ DRAGONFLY_DEFAULT_LOG))\<rparr>)) (\<lambda>xs.
          proc_bind (array_store xs DRAGONFLY_STATS_INDEX (\<lambda>r. r\<lparr>out_tag := Some DRAGONFLY_STATS_TAG,
              out_uri := Some (snprintf PATH_MAX (''file://'' @ DRAGONFLY_STATS_LOG))\<rparr>)) (\<lambda>xs.
          config_loop load_output_entry t 0 mx (2, xs)))
      | _ \<Rightarrow> Returned (0, xs))"

definition unload_output :: "output_config \<Rightarrow> output_config" where
  "unload_output r = (if out_tag r \<noteq> None then r\<lparr>out_tag := None, out_uri := None\<rparr> else r)"

definition unload_outputs_config :: "output_config list \<Rightarrow> nat \<Rightarrow> output_config list" where
  "unload_outputs_config xs mx = map_first mx unload_output xs"

section \<open>Responders\<close>

definition load_responder_entry :: "nat \<Rightarrow> lua_table \<Rightarrow> nat \<times> responder_config list
    \<Rightarrow> (nat \<times> responder_config list) proc" where
  "load_responder_entry i e s =
     (case s of (count, xs) \<Rightarrow>
      proc_bind (string_field e ''tag'') (\<lambda>tag.
      proc_bind (array_store xs i (\<lambda>r. r\<lparr>rs_tag := Some (strdup tag)\<rparr>)) (\<lambda>xs.
      proc_bind (string_field e ''param'') (\<lambda>param.
      proc_bind (array_store xs i (\<lambda>r. r\<lparr>rs_param := Some (strndup param PATH_MAX)\<rparr>)) (\<lambda>xs.
      Returned (count + 1, xs))))))"

definition load_responder_config :: "lua_globals \<Rightarrow> responder_config list \<Rightarrow> nat
    \<Rightarrow> (nat \<times> responder_config list) proc" where
  "load_responder_config G xs mx =
     (case G ''responders'' of
        LTable t \<Rightarrow> config_loop load_responder_entry t 0 mx (0, xs)
      | _ \<Rightarrow> Returned (0, xs))"

definition unload_responder :: "responder_config \<Rightarrow> responder_config" where
  "unload_responder r = (if rs_tag r \<noteq> None then r\<lparr>rs_tag := None, rs_param := None\<rparr> else r)"

definition unload_responder_config :: "responder_config list \<Rightarrow> nat \<Rightarrow> responder_config list" where
  "unload_responder_config xs mx = map_first mx unload_responder xs"

section \<open>Redis modules\<close>

text \<open>
  Every entry has a tag and a module; the module is loaded once both are read. \<open>number_loaded\<close>
  is never changed. The state is the list of modules the server was told to load; a refused
  one makes the function return -1.
\<close>

fun load_redis_entries :: "(string \<Rightarrow> bool) \<Rightarrow> lua_table \<Rightarrow> nat \<Rightarrow> nat \<Rightarrow> string list
    \<Rightarrow> (int \<times> string list) proc" where
  "load_redis_entries accepts t i 0 sent = Returned (0, sent)"
| "load_redis_entries accepts t i (Suc n) sent =
     (case lua_rawgeti t (i + 1) of
        LNil \<Rightarrow> Returned (0, sent)
      | LTable e \<Rightarrow>
          proc_bind (string_field e ''tag'') (\<lambda>tag.
          proc_bind (string_field e ''module'') (\<lambda>m.
          let path = strndup m PATH_MAX in
          if accepts path then load_redis_entries accepts t (i + 1) n (sent @ [path])
          else Returned (-1, sent @ [path])))
      | _ \<Rightarrow> Exited EXIT_FAILURE)"

definition load_redis_modules :: "(string \<Rightarrow> bool) \<Rightarrow> lua_globals \<Rightarrow> (int \<times> string list) proc" where
  "load_redis_modules accepts G =
     (case G ''modules'' of
        LTable t \<Rightarrow> load_redis_entries accepts t 0 MAX_REDIS_MODULES []
      | _ \<Rightarrow> Returned (0, []))"

definition load_redis :: "bool \<Rightarrow> (string \<Rightarrow> bool) \<Rightarrow> lua_globals \<Rightarrow> (int \<times> string list) proc" where
  "load_redis connected accepts G =
     (if \<not> connected then Returned (-1, []) else load_redis_modules accepts G)"


section \<open>What a loader promises\<close>

text \<open>
  The body of a loader fills one element of the array from one Lua table and counts it; beyond
  the end of the array it does not return.
\<close>

locale record_loader =
  fixes body :: "nat \<Rightarrow> lua_table \<Rightarrow> nat \<times> 'r list \<Rightarrow> (nat \<times> 'r list) proc"
    and entry :: "lua_table \<Rightarrow> 'r \<Rightarrow> 'r proc"
    and off :: nat
  assumes body_in: "i + off < length xs \<Longrightarrow>
      body i e (c, xs) = proc_map (\<lambda>r. (c + 1, xs[i + off := r])) (entry e (xs ! (i + off)))"
    and body_out: "length xs \<le> i + off \<Longrightarrow> body i e (c, xs) \<noteq> Returned s"
begin

text \<open>
  A loop that returns has filled \<open>k\<close> elements in a row, each from the Lua element with its
  number, up to the first nil one or the limit, and has left everything else as it was.
\<close>

lemma loop_loads:
  assumes "config_loop body t i n (c, xs) = Returned (c', xs')"
  shows "\<exists>k \<le> n. c' = c + k \<and> length xs' = length xs \<and> (0 < k \<longrightarrow> i + off + k \<le> length xs) \<and>
    (\<forall>j < k. \<exists>e. lua_rawgeti t (i + j + 1) = LTable e \<and>
       entry e (xs ! (i + off + j)) = Returned (xs' ! (i + off + j))) \<and>
    (k < n \<longrightarrow> lua_rawgeti t (i + k + 1) = LNil) \<and>
    (\<forall>j. j < i + off \<or> i + off + k \<le> j \<longrightarrow> xs' ! j = xs ! j)"
  using assms
proof (induction n arbitrary: i c xs)
  case 0
  then show ?case by simp
next
  case (Suc n)
  show ?case
  proof (cases "lua_rawgeti t (i + 1) = LNil")
    case True
    then show ?thesis using Suc.prems by (intro exI [of _ 0]) auto
  next
    case False
    then obtain e s where e: "lua_rawgeti t (i + 1) = LTable e" "body i e (c, xs) = Returned s"
        "config_loop body t (i + 1) n s = Returned (c', xs')"
      using Suc.prems by (auto simp: proc_bind_Returned split: lua_val.splits)
    then have i: "i + off < length xs" using body_out not_less by blast
    then obtain r where r: "entry e (xs ! (i + off)) = Returned r" "s = (c + 1, xs[i + off := r])"
      using e(2) body_in by (auto simp: proc_map_Returned)
    obtain k where k: "k \<le> n" "c' = c + 1 + k" "length xs' = length xs"
      "0 < k \<longrightarrow> i + 1 + off + k \<le> length xs"
      "\<forall>j < k. \<exists>e. lua_rawgeti t (i + 1 + j + 1) = LTable e \<and>
         entry e (xs[i + off := r] ! (i + 1 + off + j)) = Returned (xs' ! (i + 1 + off + j))"
      "k < n \<longrightarrow> lua_rawgeti t (i + 1 + k + 1) = LNil"
      "\<forall>j. j < i + 1 + off \<or> i + 1 + off + k \<le> j \<longrightarrow> xs' ! j = xs[i + off := r] ! j"
      using Suc.IH [OF e(3) [unfolded r(2)]] by auto
    have first: "xs' ! (i + off) = r" using k(7) i by simp
    have "\<exists>e. lua_rawgeti t (i + j + 1) = LTable e \<and>
        entry e (xs ! (i + off + j)) = Returned (xs' ! (i + off + j))" if "j < Suc k" for j
      using k(5) e(1) r(1) first that by (cases j) auto
    then show ?thesis
      using k i by (intro exI [of _ "Suc k"]) (auto simp: nth_list_update)
  qed
qed

lemma loop_fills:
  assumes "config_loop body t i n (c, xs) = Returned (c', xs')"
  obtains k where "k \<le> n" "c' = c + k" "length xs' = length xs" "0 < k \<longrightarrow> i + off + k \<le> length xs"
    "\<And>j. j < k \<Longrightarrow> \<exists>e. entry e (xs ! (i + off + j)) = Returned (xs' ! (i + off + j))"
    "\<And>j. j < i + off \<or> i + off + k \<le> j \<Longrightarrow> xs' ! j = xs ! j"
  using loop_loads [OF assms] by metis

end

text \<open>What each loader puts into an element.\<close>

definition input_record :: "(string \<Rightarrow> bool) \<Rightarrow> string \<Rightarrow> lua_table \<Rightarrow> input_config \<Rightarrow> input_config proc" where
  "input_record is_reg dir e r =
     proc_bind (string_field e ''tag'') (\<lambda>tag. proc_bind (string_field e ''uri'') (\<lambda>uri.
     proc_bind (string_field e ''script'') (\<lambda>path. proc_bind (resolve_script dir path) (\<lambda>sp.
     proc_bind (existing_script is_reg sp) (\<lambda>script. proc_bind (string_field e ''default_analyzer'') (\<lambda>d.
     Returned (r\<lparr>in_tag := Some (strdup tag), in_uri := Some (strndup uri PATH_MAX),
       in_script := Some script, in_default_analyzer := Some (strndup d PATH_MAX)\<rparr>)))))))"

definition analyzer_record :: "(string \<Rightarrow> bool) \<Rightarrow> string \<Rightarrow> lua_table \<Rightarrow> analyzer_config \<Rightarrow> analyzer_config proc" where
  "analyzer_record is_reg dir e r =
     proc_bind (string_field e ''tag'') (\<lambda>tag. proc_bind (string_field e ''script'') (\<lambda>path.
     proc_bind (resolve_script dir path) (\<lambda>sp. proc_bind (existing_script is_reg sp) (\<lambda>script.
     proc_bind (string_field e ''default_analyzer'') (\<lambda>d. proc_bind (string_field e ''default_output'') (\<lambda>out.
     Returned (r\<lparr>an_tag := Some (strdup tag), an_script := Some script,
       an_default_analyzer := Some (strdup d), an_default_output := Some (strdup out)\<rparr>)))))))"

definition output_record :: "lua_table \<Rightarrow> output_config \<Rightarrow> output_config proc" where
  "output_record e r =
     proc_bind (string_field e ''tag'') (\<lambda>tag. proc_bind (string_field e ''uri'') (\<lambda>uri.
     Returned (r\<lparr>out_tag := Some (strdup tag), out_uri := Some (strndup uri PATH_MAX)\<rparr>)))"

definition responder_record :: "lua_table \<Rightarrow> responder_config \<Rightarrow> responder_config proc" where
  "responder_record e r =
     proc_bind (string_field e ''tag'') (\<lambda>tag. proc_bind (string_field e ''param'') (\<lambda>param.
     Returned (r\<lparr>rs_tag := Some (strdup tag), rs_param := Some (strndup param PATH_MAX)\<rparr>)))"

lemma proc_map_bind: "proc_map f (proc_bind p g) = proc_bind p (\<lambda>x. proc_map f (g x))"
  by (cases p) auto

lemma store_in: "i < length xs \<Longrightarrow> array_store xs i f = Returned (xs[i := f (xs ! i)])"
  by (simp add: array_store_def)

lemma store_out: "length xs \<le> i \<Longrightarrow> array_store xs i f = Undefined ''store past the array''"
  by (simp add: array_store_def)

interpretation ld_in: record_loader "load_input_entry is_reg dir" "input_record is_reg dir" 0
  for is_reg dir
  by unfold_locales
    (simp_all add: load_input_entry_def input_record_def proc_map_bind store_in store_out proc_bind_Returned)

interpretation ld_an: record_loader "load_analyzer_entry is_reg dir" "analyzer_record is_reg dir" 0
  for is_reg dir
  by unfold_locales
    (simp_all add: load_analyzer_entry_def analyzer_record_def proc_map_bind store_in store_out
      proc_bind_Returned)

interpretation ld_out: record_loader load_output_entry output_record 2
  by unfold_locales
    (simp_all add: load_output_entry_def output_record_def proc_map_bind store_in store_out
      proc_bind_Returned Let_def)

interpretation ld_rs: record_loader load_responder_entry responder_record 0
  by unfold_locales
    (simp_all add: load_responder_entry_def responder_record_def proc_map_bind store_in store_out
      proc_bind_Returned)

section \<open>Properties\<close>

text \<open>An input the threads can work with: named, with a URI, and a script that is a regular file.\<close>

definition input_ready :: "(string \<Rightarrow> bool) \<Rightarrow> input_config \<Rightarrow> bool" where
  "input_ready is_reg r \<longleftrightarrow> in_tag r \<noteq> None \<and> in_uri r \<noteq> None \<and> in_default_analyzer r \<noteq> None \<and>
     (\<exists>p. is_reg p \<and> in_script r = Some (strndup p PATH_MAX)) \<and> in_queue r = None"

definition analyzer_ready :: "(string \<Rightarrow> bool) \<Rightarrow> analyzer_config \<Rightarrow> bool" where
  "analyzer_ready is_reg r \<longleftrightarrow> an_tag r \<noteq> None \<and> an_default_analyzer r \<noteq> None \<and>
     an_default_output r \<noteq> None \<and> (\<exists>p. is_reg p \<and> an_script r = Some (strndup p PATH_MAX)) \<and>
     an_queue r = None"

definition output_ready :: "output_config \<Rightarrow> bool" where
  "output_ready r \<longleftrightarrow> out_tag r \<noteq> None \<and> out_uri r \<noteq> None \<and> out_queue r = None"

lemma string_field_str [simp]: "lua_getfield t k = str_val s \<Longrightarrow> string_field t k = Returned (cstr s)"
  by (simp add: string_field_def str_val_def)

lemma existing_script_Returned:
  "existing_script is_reg p = Returned s \<longleftrightarrow> is_reg p \<and> s = strndup p PATH_MAX"
  by (auto simp: existing_script_def)

lemma input_record_ready: "input_record is_reg dir e input_zero = Returned r \<Longrightarrow> input_ready is_reg r"
  by (auto simp: input_record_def proc_bind_Returned existing_script_Returned input_ready_def input_zero_def)

lemma analyzer_record_ready:
  "analyzer_record is_reg dir e analyzer_zero = Returned r \<Longrightarrow> analyzer_ready is_reg r"
  by (auto simp: analyzer_record_def proc_bind_Returned existing_script_Returned analyzer_ready_def
      analyzer_zero_def)

lemma output_record_ready: "output_record e output_zero = Returned r \<Longrightarrow> output_ready r"
  by (auto simp: output_record_def proc_bind_Returned output_ready_def output_zero_def)

lemma inputs_loaded:
  assumes "load_inputs_config is_reg G dir (replicate mx input_zero) mx = Returned (n, xs)"
  shows "n \<le> mx \<and> length xs = mx \<and> (\<forall>i < n. input_ready is_reg (xs ! i)) \<and>
    (\<forall>i. n \<le> i \<and> i < mx \<longrightarrow> xs ! i = input_zero)"
proof (cases "G ''inputs''")
  case (LTable t)
  have "config_loop (load_input_entry is_reg dir) t 0 mx (0, replicate mx input_zero) = Returned (n, xs)"
    using assms LTable by (simp add: load_inputs_config_def)
  then show ?thesis
  proof (rule ld_in.loop_fills)
    fix k
    assume k: "k \<le> mx" "n = 0 + k" "length xs = length (replicate mx input_zero)"
      "\<And>j. j < k \<Longrightarrow> \<exists>e. input_record is_reg dir e (replicate mx input_zero ! (0 + 0 + j)) =
         Returned (xs ! (0 + 0 + j))"
      "\<And>j. j < 0 + 0 \<or> 0 + 0 + k \<le> j \<Longrightarrow> xs ! j = replicate mx input_zero ! j"
    have "input_ready is_reg (xs ! i)" if "i < k" for i
      using k(1) k(4) [OF that] that input_record_ready by fastforce
    then show ?thesis using k(1-3,5) by auto
  qed
qed (use assms in \<open>auto simp: load_inputs_config_def\<close>)

text \<open>
  C30. If the inputs are loaded at all, the count returned is the number of inputs that are
  complete, they come first in the array, each with a script that is a regular file, and the
  rest of the array is as it was cleared; there is never a store past the array.
\<close>

theorem load_inputs_complete:
  assumes "load_inputs_config is_reg G dir (replicate mx input_zero) mx = Returned (n, xs)"
  shows "n \<le> mx \<and> length xs = mx \<and> (\<forall>i < n. input_ready is_reg (xs ! i)) \<and>
    (\<forall>i. n \<le> i \<and> i < mx \<longrightarrow> xs ! i = input_zero)"
  by (rule inputs_loaded [OF assms])

lemma config_loop_numeral:
  "config_loop body t i (numeral k) s =
     (case lua_rawgeti t (i + 1) of
        LNil \<Rightarrow> Returned s
      | LTable e \<Rightarrow> proc_bind (body i e s) (config_loop body t (i + 1) (pred_numeral k))
      | _ \<Rightarrow> Exited EXIT_FAILURE)"
  by (simp add: numeral_eq_Suc)

lemmas sample_eval = load_input_entry_def load_analyzer_entry_def load_output_entry_def array_store_def
  resolve_script_def existing_script_def strdup_def strndup_def snprintf_def strncpy_def cstr_def NUL_def
  PATH_MAX_def config_loop_numeral input_zero_def analyzer_zero_def output_zero_def

definition sample_input :: lua_val where
  "sample_input = LTable [(str_val ''tag'', str_val ''eve''), (str_val ''uri'', str_val ''file://x''),
     (str_val ''script'', str_val ''f.lua''), (str_val ''default_analyzer'', str_val ''a'')]"

definition sample_globals :: lua_globals where
  "sample_globals g = (if g = ''inputs'' then LTable [(array_index 1, sample_input)] else LNil)"

lemma sample_inputs_load:
  "load_inputs_config (\<lambda>p. p = ''d/f.lua'') sample_globals ''d'' (replicate 2 input_zero) 2 =
    Returned (1, [\<lparr>in_tag = Some ''eve'', in_uri = Some ''file://x'', in_script = Some ''d/f.lua'',
      in_default_analyzer = Some ''a'', in_input = None, in_queue = None\<rparr>, input_zero])"
  by (simp add: load_inputs_config_def sample_globals_def sample_input_def sample_eval numeral_2_eq_2)

theorem load_inputs_complete_witness:
  "input_ready (\<lambda>p. p = ''d/f.lua'') \<lparr>in_tag = Some ''eve'', in_uri = Some ''file://x'',
    in_script = Some ''d/f.lua'', in_default_analyzer = Some ''a'', in_input = None, in_queue = None\<rparr>"
  using load_inputs_complete [OF sample_inputs_load] by simp

lemma analyzers_loaded:
  assumes "load_analyzers_config is_reg G dir (replicate mx analyzer_zero) mx = Returned (n, xs)" "0 < mx"
  shows "n < mx \<and> length xs = mx \<and> (\<forall>i < n. analyzer_ready is_reg (xs ! i)) \<and>
    (\<forall>i. n \<le> i \<and> i < mx \<longrightarrow> xs ! i = analyzer_zero)"
proof (cases "G ''analyzers''")
  case (LTable t)
  have "config_loop (load_analyzer_entry is_reg dir) t 0 (mx - 1) (0, replicate mx analyzer_zero) =
      Returned (n, xs)"
    using assms(1) LTable by (simp add: load_analyzers_config_def)
  then show ?thesis
  proof (rule ld_an.loop_fills)
    fix k
    assume k: "k \<le> mx - 1" "n = 0 + k" "length xs = length (replicate mx analyzer_zero)"
      "\<And>j. j < k \<Longrightarrow> \<exists>e. analyzer_record is_reg dir e (replicate mx analyzer_zero ! (0 + 0 + j)) =
         Returned (xs ! (0 + 0 + j))"
      "\<And>j. j < 0 + 0 \<or> 0 + 0 + k \<le> j \<Longrightarrow> xs ! j = replicate mx analyzer_zero ! j"
    have "analyzer_ready is_reg (xs ! i)" if "i < k" for i
      using k(1) k(4) [OF that] that assms(2) analyzer_record_ready by fastforce
    then show ?thesis using k(1-3,5) assms(2) by auto
  qed
qed (use assms in \<open>auto simp: load_analyzers_config_def\<close>)

text \<open>
  The same for the analyzers, of which at most one less than the array holds are loaded, so
  that the array always ends with an empty element.
\<close>

theorem load_analyzers_complete:
  assumes "load_analyzers_config is_reg G dir (replicate mx analyzer_zero) mx = Returned (n, xs)" "0 < mx"
  shows "n < mx \<and> length xs = mx \<and> (\<forall>i < n. analyzer_ready is_reg (xs ! i)) \<and>
    (\<forall>i. n \<le> i \<and> i < mx \<longrightarrow> xs ! i = analyzer_zero)"
  by (rule analyzers_loaded [OF assms])

definition sample_analyzer :: lua_val where
  "sample_analyzer = LTable [(str_val ''tag'', str_val ''alert''), (str_val ''script'', str_val ''a.lua''),
     (str_val ''default_analyzer'', str_val ''''), (str_val ''default_output'', str_val ''log'')]"

definition sample_analyzers :: lua_globals where
  "sample_analyzers g = (if g = ''analyzers'' then LTable [(array_index 1, sample_analyzer)] else LNil)"

lemma sample_analyzers_load:
  "load_analyzers_config (\<lambda>p. p = ''d/a.lua'') sample_analyzers ''d'' (replicate 2 analyzer_zero) 2 =
    Returned (1, [\<lparr>an_tag = Some ''alert'', an_script = Some ''d/a.lua'',
      an_default_analyzer = Some '''', an_default_output = Some ''log'', an_queue = None\<rparr>, analyzer_zero])"
  by (simp add: load_analyzers_config_def sample_analyzers_def sample_analyzer_def sample_eval numeral_2_eq_2)

theorem load_analyzers_complete_witness:
  "analyzer_ready (\<lambda>p. p = ''d/a.lua'') \<lparr>an_tag = Some ''alert'', an_script = Some ''d/a.lua'',
      an_default_analyzer = Some '''', an_default_output = Some ''log'', an_queue = None\<rparr>"
  using load_analyzers_complete [OF sample_analyzers_load] by simp

lemma outputs_loaded:
  assumes "load_outputs_config G (replicate MAX_OUTPUT_STREAMS output_zero) MAX_OUTPUT_STREAMS
      = Returned (n, xs)" "G ''outputs'' = LTable t"
  shows "2 \<le> n \<and> n \<le> MAX_OUTPUT_STREAMS \<and> length xs = MAX_OUTPUT_STREAMS \<and>
    out_tag (xs ! DRAGONFLY_LOG_INDEX) = Some DRAGONFLY_LOG_TAG \<and>
    out_tag (xs ! DRAGONFLY_STATS_INDEX) = Some DRAGONFLY_STATS_TAG \<and>
    (\<forall>i < n. output_ready (xs ! i)) \<and> (\<forall>i. n \<le> i \<and> i < MAX_OUTPUT_STREAMS \<longrightarrow> xs ! i = output_zero)"
proof -
  define l where "l = output_zero\<lparr>out_tag := Some DRAGONFLY_LOG_TAG,
      out_uri := Some (snprintf PATH_MAX (''file://'' @ DRAGONFLY_DEFAULT_LOG))\<rparr>"
  define st where "st = output_zero\<lparr>out_tag := Some DRAGONFLY_STATS_TAG,
      out_uri := Some (snprintf PATH_MAX (''file://'' @ DRAGONFLY_STATS_LOG))\<rparr>"
  define xs0 where "xs0 = l # st # replicate 4 output_zero"
  have six: "replicate MAX_OUTPUT_STREAMS output_zero = output_zero # output_zero # replicate 4 output_zero"
    by (simp add: MAX_OUTPUT_STREAMS_def numeral_eq_Suc)
  have xs0: "length xs0 = 6" "xs0 ! 0 = l" "xs0 ! 1 = st" "\<And>j. j < 4 \<Longrightarrow> xs0 ! (2 + j) = output_zero"
    by (simp_all add: xs0_def)
  have ready: "output_ready l" "output_ready st"
    by (simp_all add: l_def st_def output_ready_def output_zero_def)
  have "config_loop load_output_entry t 0 MAX_OUTPUT_STREAMS (2, xs0) = Returned (n, xs)"
    using assms unfolding six
    by (simp add: load_outputs_config_def array_store_def DRAGONFLY_LOG_INDEX_def
        DRAGONFLY_STATS_INDEX_def xs0_def l_def st_def del: config_loop.simps)
  then obtain k where "k \<le> MAX_OUTPUT_STREAMS"
    and k: "n = 2 + k" "length xs = length xs0" "0 < k \<longrightarrow> 0 + 2 + k \<le> length xs0"
    "\<And>j. j < k \<Longrightarrow> \<exists>e. output_record e (xs0 ! (0 + 2 + j)) = Returned (xs ! (0 + 2 + j))"
    "\<And>j. j < 0 + 2 \<or> 0 + 2 + k \<le> j \<Longrightarrow> xs ! j = xs0 ! j"
    by (rule ld_out.loop_fills) (rule that; assumption)
  have k6: "2 + k \<le> 6" using k(3) xs0(1) by (cases "k = 0") simp_all
  have MAX: "MAX_OUTPUT_STREAMS = 6" by (simp add: MAX_OUTPUT_STREAMS_def)
  have first: "xs ! 0 = l" "xs ! 1 = st" using k(5) [of 0] k(5) [of 1] xs0(2,3) by simp_all
  have rest: "output_ready (xs ! (2 + j))" if "j < k" for j
    using k(4) [OF that] xs0(4) [of j] that k6 output_record_ready by fastforce
  have all_ready: "output_ready (xs ! i)" if "i < n" for i
  proof -
    consider "i = 0" | "i = 1" | "2 \<le> i" by linarith
    then show ?thesis
    proof cases
      case 3
      then have "i = 2 + (i - 2)" "i - 2 < k" using that k(1) by simp_all
      then show ?thesis using rest by metis
    qed (use first ready in simp_all)
  qed
  have others: "xs ! i = output_zero" if "n \<le> i" "i < 6" for i
  proof -
    have i: "i = 2 + (i - 2)" "i - 2 < 4" using k(1) that by simp_all
    then have "xs0 ! i = output_zero" using xs0(4) by metis
    then show ?thesis using k(5) [of i] k(1) that by simp
  qed
  have tags: "out_tag (xs ! 0) = Some DRAGONFLY_LOG_TAG" "out_tag (xs ! 1) = Some DRAGONFLY_STATS_TAG"
    unfolding first by (simp_all add: l_def st_def)
  have "2 \<le> n" "n \<le> 6" "length xs = 6" using k(1) k6 k(2) xs0(1) by simp_all
  with tags all_ready others show ?thesis
    unfolding MAX DRAGONFLY_LOG_INDEX_def DRAGONFLY_STATS_INDEX_def by blast
qed

text \<open>
  If the outputs are loaded, the first two elements are the log and the statistics of the
  engine, the configured outputs follow, and there are at most four of them.
\<close>

theorem load_outputs_complete:
  assumes "load_outputs_config G (replicate MAX_OUTPUT_STREAMS output_zero) MAX_OUTPUT_STREAMS
      = Returned (n, xs)" "G ''outputs'' = LTable t"
  shows "2 \<le> n \<and> n \<le> MAX_OUTPUT_STREAMS \<and> length xs = MAX_OUTPUT_STREAMS \<and>
    out_tag (xs ! DRAGONFLY_LOG_INDEX) = Some DRAGONFLY_LOG_TAG \<and>
    out_tag (xs ! DRAGONFLY_STATS_INDEX) = Some DRAGONFLY_STATS_TAG \<and>
    (\<forall>i < n. output_ready (xs ! i)) \<and> (\<forall>i. n \<le> i \<and> i < MAX_OUTPUT_STREAMS \<longrightarrow> xs ! i = output_zero)"
  by (rule outputs_loaded [OF assms])

definition sample_outputs :: lua_table where
  "sample_outputs = [(array_index 1, LTable [(str_val ''tag'', str_val ''log''),
     (str_val ''uri'', str_val ''file://a.log'')])]"

lemma sample_outputs_load:
  "\<exists>xs. load_outputs_config (\<lambda>_. LTable sample_outputs) (replicate MAX_OUTPUT_STREAMS output_zero)
    MAX_OUTPUT_STREAMS = Returned (3, xs)"
  by (simp add: load_outputs_config_def sample_outputs_def MAX_OUTPUT_STREAMS_def DRAGONFLY_LOG_INDEX_def
      DRAGONFLY_STATS_INDEX_def sample_eval)

theorem load_outputs_complete_witness:
  "\<exists>xs. load_outputs_config (\<lambda>_. LTable sample_outputs) (replicate MAX_OUTPUT_STREAMS output_zero)
      MAX_OUTPUT_STREAMS = Returned (3, xs) \<and> output_ready (xs ! 2)"
  using sample_outputs_load load_outputs_complete [of "\<lambda>_. LTable sample_outputs" 3] by fastforce

text \<open>A fifth configured output is stored past the end of the array.\<close>

definition complete_output :: "lua_table \<Rightarrow> bool" where
  "complete_output e \<longleftrightarrow> (\<exists>a b. lua_getfield e ''tag'' = LString a \<and> lua_getfield e ''uri'' = LString b)"

lemma complete_output_entry:
  "complete_output e \<Longrightarrow> i + 2 < length xs \<Longrightarrow>
     \<exists>xs'. load_output_entry i e (c, xs) = Returned (c + 1, xs') \<and> length xs' = length xs"
  "complete_output e \<Longrightarrow> length xs \<le> i + 2 \<Longrightarrow>
     load_output_entry i e (c, xs) = Undefined ''store past the array''"
  by (auto simp: complete_output_def load_output_entry_def string_field_def store_in store_out Let_def)

lemma output_loop_overflow:
  assumes "\<forall>j \<le> m. \<exists>e. lua_rawgeti t (i + j + 1) = LTable e \<and> complete_output e"
    "i + 2 + m = length xs" "m < n"
  shows "config_loop load_output_entry t i n (c, xs) = Undefined ''store past the array''"
  using assms
proof (induction m arbitrary: i n c xs)
  case 0
  then obtain n' e where "n = Suc n'" "lua_rawgeti t (i + 1) = LTable e" "complete_output e"
    by (cases n) auto
  then show ?case using complete_output_entry(2) [of e xs i c] 0 by simp
next
  case (Suc m)
  obtain n' where n': "n = Suc n'" using Suc.prems by (cases n) auto
  obtain e where e: "lua_rawgeti t (i + 1) = LTable e" "complete_output e"
    using Suc.prems(1) [rule_format, of 0] by auto
  obtain xs' where xs': "load_output_entry i e (c, xs) = Returned (c + 1, xs')" "length xs' = length xs"
    using complete_output_entry(1) [OF e(2), of i xs c] Suc.prems(2) by auto
  have "config_loop load_output_entry t (i + 1) n' (c + 1, xs') = Undefined ''store past the array''"
  proof (rule Suc.IH)
    show "\<forall>j \<le> m. \<exists>e. lua_rawgeti t (i + 1 + j + 1) = LTable e \<and> complete_output e"
    proof (intro allI impI)
      fix j
      assume "j \<le> m"
      then show "\<exists>e. lua_rawgeti t (i + 1 + j + 1) = LTable e \<and> complete_output e"
        using Suc.prems(1) [rule_format, of "Suc j"] by simp
    qed
  qed (use Suc.prems n' xs' in auto)
  then show ?case using n' e xs' by simp
qed

lemma fifth_output_overflows:
  assumes "G ''outputs'' = LTable t"
    "\<forall>j \<le> 4. \<exists>e. lua_rawgeti t (j + 1) = LTable e \<and> complete_output e"
  shows "load_outputs_config G (replicate MAX_OUTPUT_STREAMS output_zero) MAX_OUTPUT_STREAMS =
    Undefined ''store past the array''"
  using assms output_loop_overflow [of 4 t 0 _ MAX_OUTPUT_STREAMS 2]
  by (simp add: load_outputs_config_def array_store_def MAX_OUTPUT_STREAMS_def
        DRAGONFLY_LOG_INDEX_def DRAGONFLY_STATS_INDEX_def)

text \<open>The modules are counted by a variable nothing is added to.\<close>

lemma redis_count_zero: "load_redis_modules accepts G = Returned (n, sent) \<Longrightarrow> n = 0 \<or> n = -1"
proof -
  have "load_redis_entries accepts t i k s = Returned (n, sent) \<Longrightarrow> n = 0 \<or> n = -1" for t i k s
    by (induction accepts t i k s rule: load_redis_entries.induct)
      (auto simp: proc_bind_Returned Let_def split: lua_val.splits if_splits)
  then show "load_redis_modules accepts G = Returned (n, sent) \<Longrightarrow> n = 0 \<or> n = -1"
    by (auto simp: load_redis_modules_def split: lua_val.splits)
qed

end
