(* ===== verification/IoHandle.thy ===== *)
theory IoHandle
  imports Posix
begin

text \<open>
  The handle all kinds of input and output share (\<open>dragonfly-io.h\<close>), and the file system as
  the file kinds see it: directory entries that name inodes, inodes with contents, and which
  paths may be opened or created. Paths below no directory of their own are taken relative to
  the log or run directory set in \<open>dragonfly-io.c\<close>.
\<close>

section \<open>Handles\<close>

definition DF_IN :: nat where "DF_IN = 1"
definition DF_OUT :: nat where "DF_OUT = 2"
definition DF_ERR :: nat where "DF_ERR = 4"
definition DF_CMD :: nat where "DF_CMD = 8"

definition DF_OUT_SYSLOG_TYPE :: nat where "DF_OUT_SYSLOG_TYPE = 0"
definition DF_IN_FILE_TYPE :: nat where "DF_IN_FILE_TYPE = 1"
definition DF_OUT_FILE_TYPE :: nat where "DF_OUT_FILE_TYPE = 2"
definition DF_CLIENT_IPC_TYPE :: nat where "DF_CLIENT_IPC_TYPE = 3"
definition DF_SERVER_IPC_TYPE :: nat where "DF_SERVER_IPC_TYPE = 4"
definition DF_IN_TAIL_TYPE :: nat where "DF_IN_TAIL_TYPE = 5"
definition DF_IN_ZFILE_TYPE :: nat where "DF_IN_ZFILE_TYPE = 6"
definition DF_OUT_ZFILE_TYPE :: nat where "DF_OUT_ZFILE_TYPE = 7"
definition DF_IN_KAFKA_TYPE :: nat where "DF_IN_KAFKA_TYPE = 8"
definition DF_OUT_KAFKA_TYPE :: nat where "DF_OUT_KAFKA_TYPE = 9"
definition DF_CMD_SURICATA :: nat where "DF_CMD_SURICATA = 10"
definition DF_IPFIX :: nat where "DF_IPFIX = 11"

definition DF_MAX_BUFFER_LEN :: nat where "DF_MAX_BUFFER_LEN = 2048"

named_theorems io_types

lemmas [io_types] = DF_OUT_SYSLOG_TYPE_def DF_IN_FILE_TYPE_def DF_OUT_FILE_TYPE_def
  DF_CLIENT_IPC_TYPE_def DF_SERVER_IPC_TYPE_def DF_IN_TAIL_TYPE_def DF_IN_ZFILE_TYPE_def
  DF_OUT_ZFILE_TYPE_def DF_IN_KAFKA_TYPE_def DF_OUT_KAFKA_TYPE_def DF_CMD_SURICATA_def DF_IPFIX_def

text \<open>An open \<open>FILE\<close>: its inode and the position of the next read.\<close>

record file_stream =
  fst_inode :: nat
  fst_pos :: nat

record df_handle =
  dh_fp :: "file_stream option"
  dh_zfp :: bool                \<comment> \<open>a compressed stream is open\<close>
  dh_fd :: int
  dh_io_type :: nat
  dh_path :: string

definition handle_zero :: df_handle where
  "handle_zero = \<lparr>dh_fp = None, dh_zfp = False, dh_fd = 0, dh_io_type = 0, dh_path = []\<rparr>"

definition has_flag :: "nat \<Rightarrow> nat \<Rightarrow> bool" where
  "has_flag spec flag \<longleftrightarrow> spec AND flag = flag"

lemma has_flag_simps [simp]:
  "has_flag DF_IN DF_IN" "\<not> has_flag DF_OUT DF_IN" "has_flag DF_OUT DF_OUT"
  "has_flag DF_OUT_FILE_TYPE DF_OUT" "\<not> has_flag DF_IN DF_OUT"
  by (simp_all add: has_flag_def DF_IN_def DF_OUT_def DF_OUT_FILE_TYPE_def)

section \<open>Directories\<close>

text \<open>\<open>g_run_dir\<close> and \<open>g_log_dir\<close>, NULL until they are set.\<close>

record io_dirs =
  g_run_dir :: "string option"
  g_log_dir :: "string option"

definition DRAGONFLY_RUN_DIR :: string where "DRAGONFLY_RUN_DIR = ''/var/run/dragonfly-mle''"
definition DRAGONFLY_LOG_DIR :: string where "DRAGONFLY_LOG_DIR = ''/var/log/dragonfly-mle''"

definition dragonfly_io_set_rundir :: "string \<Rightarrow> io_dirs \<Rightarrow> io_dirs" where
  "dragonfly_io_set_rundir rundir d = d\<lparr>g_run_dir := Some (strndup rundir PATH_MAX)\<rparr>"

definition dragonfly_io_get_rundir :: "io_dirs \<Rightarrow> string" where
  "dragonfly_io_get_rundir d = (case g_run_dir d of None \<Rightarrow> DRAGONFLY_RUN_DIR | Some p \<Rightarrow> p)"

definition dragonfly_io_set_logdir :: "string \<Rightarrow> io_dirs \<Rightarrow> io_dirs" where
  "dragonfly_io_set_logdir rundir d = d\<lparr>g_log_dir := Some (strndup rundir PATH_MAX)\<rparr>"

definition dragonfly_io_get_logdir :: "io_dirs \<Rightarrow> string" where
  "dragonfly_io_get_logdir d = (case g_log_dir d of None \<Rightarrow> DRAGONFLY_LOG_DIR | Some p \<Rightarrow> p)"

text \<open>
  The path a file kind works on. An absolute one is copied with \<open>strncpy\<close>, without its end if
  it fills the array.
\<close>

definition absolute_path :: "string \<Rightarrow> string \<Rightarrow> string proc" where
  "absolute_path dir path =
     (if is_absolute path then
        (if strlen path < PATH_MAX then Returned (strncpy path PATH_MAX)
         else Undefined ''path not terminated'')
      else Returned (snprintf PATH_MAX (dir @ ''/'' @ cstr path)))"

section \<open>The file system\<close>

record fs =
  fs_dir :: "string \<Rightarrow> nat option"
  fs_data :: "nat \<Rightarrow> byte list"
  fs_next :: nat
  fs_readable :: "string \<Rightarrow> bool"
  fs_writable :: "string \<Rightarrow> bool"

text \<open>Directory entries name inodes already in use.\<close>

definition fs_ok :: "fs \<Rightarrow> bool" where
  "fs_ok w \<longleftrightarrow> (\<forall>p i. fs_dir w p = Some i \<longrightarrow> i < fs_next w)"

definition fopen_read :: "fs \<Rightarrow> string \<Rightarrow> file_stream option" where
  "fopen_read w path =
     (case fs_dir w path of
        Some i \<Rightarrow> if fs_readable w path then Some \<lparr>fst_inode = i, fst_pos = 0\<rparr> else None
      | None \<Rightarrow> None)"

text \<open>
  Modes \<open>a\<close>, \<open>a+\<close> and \<open>w+\<close>: the file is created if it is not there; \<open>w+\<close> empties it.
\<close>

definition fopen_write :: "fs \<Rightarrow> string \<Rightarrow> bool \<Rightarrow> file_stream option \<times> fs" where
  "fopen_write w path trunc =
     (if \<not> fs_writable w path then (None, w)
      else
        case fs_dir w path of
          Some i \<Rightarrow>
            (Some \<lparr>fst_inode = i, fst_pos = 0\<rparr>,
             if trunc then w\<lparr>fs_data := (fs_data w)(i := [])\<rparr> else w)
        | None \<Rightarrow>
            (Some \<lparr>fst_inode = fs_next w, fst_pos = 0\<rparr>,
             w\<lparr>fs_dir := (fs_dir w)(path := Some (fs_next w)),
               fs_data := (fs_data w)(fs_next w := []), fs_next := fs_next w + 1\<rparr>))"

text \<open>A \<open>rename\<close> replaces the target; one of a missing file, or a refused one, changes nothing.\<close>

definition fs_rename :: "fs \<Rightarrow> string \<Rightarrow> string \<Rightarrow> bool \<Rightarrow> fs" where
  "fs_rename w old new allowed =
     (case fs_dir w old of
        Some i \<Rightarrow> if allowed then w\<lparr>fs_dir := (fs_dir w)(old := None, new := Some i)\<rparr> else w
      | None \<Rightarrow> w)"

definition fs_append :: "fs \<Rightarrow> nat \<Rightarrow> byte list \<Rightarrow> fs" where
  "fs_append w i bs = w\<lparr>fs_data := (fs_data w)(i := fs_data w i @ bs)\<rparr>"

definition fs_contents :: "fs \<Rightarrow> string \<Rightarrow> byte list option" where
  "fs_contents w path = map_option (fs_data w) (fs_dir w path)"

text \<open>
  What \<open>fgets\<close> puts into a buffer of \<open>n\<close> bytes before the NUL: up to the end of the line, the
  newline included, or to the room there is.
\<close>

definition fgets_bytes :: "nat \<Rightarrow> byte list \<Rightarrow> byte list" where
  "fgets_bytes n rest =
     (let l = takeWhile (\<lambda>b. b \<noteq> 10) rest
      in take (n - 1) (if length l < length rest then l @ [10] else l))"

text \<open>\<open>strnlen\<close> of the bytes in a buffer.\<close>

definition bstrnlen :: "byte list \<Rightarrow> nat \<Rightarrow> nat" where
  "bstrnlen bs n = min n (length (bcstr bs))"

section \<open>Time stamps of rotated files\<close>

text \<open>The fields of a \<open>struct tm\<close> as they are printed: the full year, the month from 1 on.\<close>

record tm =
  tm_year :: nat
  tm_mon :: nat
  tm_mday :: nat
  tm_hour :: nat
  tm_min :: nat
  tm_sec :: nat

definition rotated_path :: "string \<Rightarrow> tm \<Rightarrow> string" where
  "rotated_path path t =
     snprintf PATH_MAX (path @ ''.'' @ show_nat (tm_year t) @ show_nat (tm_mon t) @ show_nat (tm_mday t) @
       ''.'' @ show_nat (tm_hour t) @ show_nat (tm_min t) @ show_nat (tm_sec t))"

end
