(* ===== verification/IoFile.thy ===== *)
theory IoFile
  imports IoHandle
begin

text \<open>
  \<open>io/io-file.c\<close>: plain files, read line by line or appended to, and the rotation of an output
  file.
\<close>

section \<open>Operations\<close>

text \<open>The mode an output path asks for with its last character, and the path without it.\<close>

definition output_mode :: "string \<Rightarrow> string \<times> bool" where
  "output_mode path =
     (if path \<noteq> [] \<and> last path = CHR ''<'' then (butlast path, True)
      else if path \<noteq> [] \<and> last path = CHR ''>'' then (butlast path, False)
      else (path, False))"

definition file_open :: "io_dirs \<Rightarrow> string \<Rightarrow> nat \<Rightarrow> fs \<Rightarrow> (df_handle option \<times> fs) proc" where
  "file_open dirs path spec w =
     proc_bind (absolute_path (dragonfly_io_get_logdir dirs) path) (\<lambda>file_path.
     if has_flag spec DF_IN then
       (case fopen_read w file_path of
          None \<Rightarrow> Returned (None, w)
        | Some fp \<Rightarrow> Returned (Some (handle_zero\<lparr>dh_fp := Some fp, dh_io_type := DF_IN_FILE_TYPE,
            dh_path := strndup file_path PATH_MAX\<rparr>), w))
     else if has_flag spec DF_OUT then
       (let (file_path, trunc) = output_mode file_path in
        case fopen_write w file_path trunc of
          (None, w) \<Rightarrow> Returned (None, w)
        | (Some fp, w) \<Rightarrow> Returned (Some (handle_zero\<lparr>dh_fp := Some fp, dh_io_type := DF_OUT_FILE_TYPE,
            dh_path := strndup file_path PATH_MAX\<rparr>), w))
     else Returned (None, w))"

text \<open>
  The time, and whether the \<open>rename\<close> is allowed, are the environment's. If the file cannot be
  opened again, the handle is left without one.
\<close>

definition file_rotate :: "tm \<Rightarrow> bool \<Rightarrow> df_handle \<Rightarrow> fs \<Rightarrow> int \<times> df_handle \<times> fs" where
  "file_rotate t rename_ok dh w =
     (let new_path = rotated_path (dh_path dh) t in
      if has_flag (dh_io_type dh) DF_OUT then
        (let w1 = fs_rename w (dh_path dh) new_path rename_ok in
         case fopen_write w1 (dh_path dh) False of
           (Some fp, w2) \<Rightarrow> (0, dh\<lparr>dh_fp := Some fp\<rparr>, w2)
         | (None, w2) \<Rightarrow> (-1, dh\<lparr>dh_fp := None\<rparr>, w2))
      else (-1, dh, w))"

text \<open>
  The result is the length of the line with its end; its last byte is replaced by NUL. A line
  that starts with NUL has length 0, and the byte before the buffer is written.
\<close>

definition file_read_line :: "df_handle \<Rightarrow> nat \<Rightarrow> fs \<Rightarrow> (int \<times> byte list \<times> df_handle) proc" where
  "file_read_line dh mx w =
     (case dh_fp dh of
        None \<Rightarrow> Undefined ''fgets on a closed file''
      | Some fp \<Rightarrow>
          let s = fgets_bytes mx (drop (fst_pos fp) (fs_data w (fst_inode fp))) in
          if s = [] then Returned (0, [], dh)
          else
            let n = bstrnlen (s @ [0]) mx; dh' = dh\<lparr>dh_fp := Some (fp\<lparr>fst_pos := fst_pos fp + length s\<rparr>)\<rparr> in
            if n = 0 then Undefined ''write before the buffer''
            else Returned (int n, (s @ [0])[n - 1 := 0], dh'))"

text \<open>
  The string is appended and then a newline, each if its \<open>fputs\<close> succeeds; the result is that of
  the first.
\<close>

definition file_write_line :: "bool \<Rightarrow> bool \<Rightarrow> df_handle \<Rightarrow> byte list \<Rightarrow> fs \<Rightarrow> (int \<times> fs) proc" where
  "file_write_line ok nl dh buffer w =
     (case dh_fp dh of
        None \<Rightarrow> Undefined ''fputs on a closed file''
      | Some fp \<Rightarrow>
          let i = fst_inode fp; w1 = (if ok then fs_append w i (bcstr buffer) else w) in
          Returned (if ok then 1 else -1, if nl then fs_append w1 i [10] else w1))"

definition file_close :: "df_handle \<Rightarrow> df_handle" where
  "file_close dh = (if dh_fp dh \<noteq> None then dh\<lparr>dh_fp := None\<rparr> else dh)"

section \<open>Writing and rotating\<close>

definition open_output :: "df_handle \<Rightarrow> fs \<Rightarrow> bool" where
  "open_output dh w \<longleftrightarrow> dh_io_type dh = DF_OUT_FILE_TYPE \<and>
     (\<exists>fp i. dh_fp dh = Some fp \<and> fs_dir w (dh_path dh) = Some i \<and> fst_inode fp = i) \<and>
     fs_writable w (dh_path dh) \<and> fs_ok w"

lemma write_contents:
  assumes "open_output dh w"
  shows "\<exists>w'. file_write_line True True dh m w = Returned (1, w') \<and> open_output dh w' \<and>
    fs_contents w' (dh_path dh) = map_option (\<lambda>c. c @ bcstr m @ [10]) (fs_contents w (dh_path dh))"
  using assms by (auto simp: open_output_def file_write_line_def fs_append_def fs_contents_def fs_ok_def Let_def)

fun write_lines :: "df_handle \<Rightarrow> byte list list \<Rightarrow> fs \<Rightarrow> fs proc" where
  "write_lines dh [] w = Returned w"
| "write_lines dh (m # ms) w =
     proc_bind (file_write_line True True dh m w) (\<lambda>(n, w). write_lines dh ms w)"

text \<open>
  Whatever is written to an output file after it was opened is appended to it in order, one
  line for every message, its bytes up to the first NUL.
\<close>

theorem file_output_lines:
  assumes "open_output dh w"
  shows "\<exists>w'. write_lines dh ms w = Returned w' \<and> open_output dh w' \<and>
    fs_contents w' (dh_path dh) =
      map_option (\<lambda>c. c @ concat (map (\<lambda>m. bcstr m @ [10]) ms)) (fs_contents w (dh_path dh))"
  using assms
proof (induction ms arbitrary: w)
  case Nil
  then show ?case by (simp add: option.map_ident)
next
  case (Cons m ms)
  obtain w1 where w1: "file_write_line True True dh m w = Returned (1, w1)" "open_output dh w1"
    "fs_contents w1 (dh_path dh) = map_option (\<lambda>c. c @ bcstr m @ [10]) (fs_contents w (dh_path dh))"
    using write_contents [OF Cons.prems] by blast
  from Cons.IH [OF w1(2)] w1 show ?case by (auto simp: option.map_comp comp_def)
qed

lemma file_open_output:
  assumes "fs_ok w" "path = CHR ''/'' # p" "NUL \<notin> set path" "length path < PATH_MAX"
    "last path \<noteq> CHR ''<''" "last path \<noteq> CHR ''>''" "fs_writable w path"
  shows "\<exists>dh w'. file_open dirs path DF_OUT w = Returned (Some dh, w') \<and> open_output dh w' \<and>
    dh_path dh = path \<and>
    fs_contents w' path = Some (case fs_contents w path of None \<Rightarrow> [] | Some c \<Rightarrow> c)"
proof -
  have c: "cstr path = path" using assms(3) by (simp add: cstr_no_NUL)
  have a: "absolute_path dir path = Returned path" for dir
    using assms(2,4) c by (simp add: absolute_path_def strlen_def strncpy_def)
  have m: "output_mode path = (path, False)" using assms(5,6) by (simp add: output_mode_def)
  show ?thesis
    using assms(1,4,7) c by (cases "fs_dir w path")
      (auto simp: file_open_def a m fopen_write_def strndup_def open_output_def fs_ok_def fs_contents_def
        less_Suc_eq split: if_splits)
qed

definition sample_fs :: fs where
  "sample_fs = \<lparr>fs_dir = (\<lambda>p. if p = ''/o'' then Some 0 else None), fs_data = (\<lambda>_. [65, 10]), fs_next = 1,
     fs_readable = (\<lambda>_. True), fs_writable = (\<lambda>_. True)\<rparr>"

definition sample_out :: df_handle where
  "sample_out = handle_zero\<lparr>dh_fp := Some \<lparr>fst_inode = 0, fst_pos = 0\<rparr>, dh_io_type := DF_OUT_FILE_TYPE,
     dh_path := ''/o''\<rparr>"

lemma sample_open: "open_output sample_out sample_fs"
  by (simp add: open_output_def sample_out_def sample_fs_def fs_ok_def)

theorem file_output_lines_witness:
  "\<exists>w'. write_lines sample_out [[66], [67, 0, 68]] sample_fs = Returned w' \<and>
    fs_contents w' ''/o'' = Some [65, 10, 66, 10, 67, 10]"
  using file_output_lines [OF sample_open, of "[[66], [67, 0, 68]]"]
  by (auto simp: fs_contents_def sample_out_def sample_fs_def bcstr_def)

lemma rotate_file:
  assumes "open_output dh w" "rotated_path (dh_path dh) t \<noteq> dh_path dh"
  shows "\<exists>dh' w'. file_rotate t True dh w = (0, dh', w') \<and> open_output dh' w' \<and> dh_path dh' = dh_path dh \<and>
    fs_contents w' (rotated_path (dh_path dh) t) = fs_contents w (dh_path dh) \<and>
    fs_contents w' (dh_path dh) = Some []"
proof -
  obtain fp i where i: "dh_fp dh = Some fp" "fs_dir w (dh_path dh) = Some i" "fst_inode fp = i"
      "i \<noteq> fs_next w" "dh_io_type dh = DF_OUT_FILE_TYPE" "fs_writable w (dh_path dh)" "fs_ok w"
    using assms(1) unfolding open_output_def fs_ok_def by (metis less_irrefl)
  then show ?thesis using assms(2)
    by (auto simp: open_output_def file_rotate_def fs_rename_def fopen_write_def fs_contents_def fs_ok_def
      less_Suc_eq Let_def)
qed

text \<open>
  C36. Rotation loses nothing: afterwards the file under the time-stamped name has the old
  contents, the output path is a new empty file, and the handle writes to it.
\<close>

theorem rotate_keeps_contents:
  assumes "open_output dh w" "rotated_path (dh_path dh) t \<noteq> dh_path dh"
  shows "\<exists>dh' w'. file_rotate t True dh w = (0, dh', w') \<and> open_output dh' w' \<and> dh_path dh' = dh_path dh \<and>
    fs_contents w' (rotated_path (dh_path dh) t) = fs_contents w (dh_path dh) \<and>
    fs_contents w' (dh_path dh) = Some []"
  by (rule rotate_file [OF assms])

definition sample_tm :: tm where
  "sample_tm = \<lparr>tm_year = 2018, tm_mon = 1, tm_mday = 2, tm_hour = 3, tm_min = 4, tm_sec = 5\<rparr>"

lemma sample_rotated: "rotated_path ''/o'' sample_tm = ''/o.201812.345''"
proof -
  have "show_nat 2018 = ''2018''" "show_nat 1 = ''1''" "show_nat 2 = ''2''" "show_nat 3 = ''3''"
    "show_nat 4 = ''4''" "show_nat 5 = ''5''" by code_simp+
  then show ?thesis by (simp add: rotated_path_def sample_tm_def snprintf_def PATH_MAX_def)
qed

theorem rotate_keeps_contents_witness:
  "\<exists>dh' w'. file_rotate sample_tm True sample_out sample_fs = (0, dh', w') \<and>
    fs_contents w' ''/o.201812.345'' = Some [65, 10] \<and> fs_contents w' ''/o'' = Some []"
  using rotate_keeps_contents [OF sample_open, of sample_tm]
  by (auto simp: sample_rotated fs_contents_def sample_out_def sample_fs_def)

text \<open>
  The numbers of the time stamp are not padded: two times give the same name, and the second
  rotation replaces the file of the first.
\<close>

lemma rotated_paths_collide:
  "rotated_path p \<lparr>tm_year = 2018, tm_mon = 1, tm_mday = 11, tm_hour = 0, tm_min = 0, tm_sec = 0\<rparr> =
   rotated_path p \<lparr>tm_year = 2018, tm_mon = 11, tm_mday = 1, tm_hour = 0, tm_min = 0, tm_sec = 0\<rparr>"
  by (simp add: rotated_path_def show_nat.simps)

text \<open>After a rotation that could not open the file again the next write is undefined.\<close>

lemma write_after_failed_rotation:
  assumes "dh_io_type dh = DF_OUT_FILE_TYPE" "\<not> fs_writable w (dh_path dh)"
    "file_rotate t ok dh w = (r, dh', w')"
  shows "r = -1 \<and> file_write_line ok' nl dh' m w' = Undefined ''fputs on a closed file''"
proof -
  have "fs_writable (fs_rename w (dh_path dh) q ok) = fs_writable w" for q
    by (simp add: fs_rename_def split: option.split)
  then show ?thesis
    using assms by (auto simp: file_rotate_def file_write_line_def fopen_write_def Let_def)
qed

section \<open>Reading\<close>

text \<open>Reading all lines of an input file, one call after the other, until a call returns 0.\<close>

fun read_lines :: "nat \<Rightarrow> df_handle \<Rightarrow> nat \<Rightarrow> fs \<Rightarrow> byte list list proc" where
  "read_lines 0 dh mx w = Returned []"
| "read_lines (Suc n) dh mx w =
     proc_bind (file_read_line dh mx w) (\<lambda>(r, buf, dh').
       if r = 0 then Returned []
       else proc_map (Cons (take (nat r) buf)) (read_lines n dh' mx w))"

lemma bcstr_text: "0 \<notin> set l \<Longrightarrow> bcstr (l @ [0]) = l"
  by (induction l) (auto simp: bcstr_def)

lemma fgets_line:
  assumes "10 \<notin> set l" "length l + 1 < mx"
  shows "fgets_bytes mx (l @ 10 # rest) = l @ [10]"
  using assms by (simp add: fgets_bytes_def takeWhile_append)

text \<open>A line of text that fits the buffer.\<close>

definition text_line :: "nat \<Rightarrow> byte list \<Rightarrow> bool" where
  "text_line mx l \<longleftrightarrow> 10 \<notin> set l \<and> 0 \<notin> set l \<and> length l + 1 < mx"

lemma read_one_line:
  assumes "dh_fp dh = Some fp" "drop (fst_pos fp) (fs_data w (fst_inode fp)) = l @ 10 # rest" "text_line mx l"
  shows "file_read_line dh mx w = Returned (int (length l) + 1, l @ [0, 0],
    dh\<lparr>dh_fp := Some (fp\<lparr>fst_pos := fst_pos fp + length l + 1\<rparr>)\<rparr>)"
proof -
  have f: "fgets_bytes mx (l @ 10 # rest) = l @ [10]"
    using assms(3) by (intro fgets_line) (simp_all add: text_line_def)
  have b: "bcstr (l @ [10, 0]) = l @ [10]"
    using bcstr_text [of "l @ [10]"] assms(3) by (simp add: text_line_def)
  show ?thesis using assms
    by (simp add: file_read_line_def f b bstrnlen_def text_line_def Let_def nth_append list_update_append)
qed

text \<open>
  A text file of lines that fit the buffer is read back line by line, every line once and
  in order, each with a NUL in the place of its newline.
\<close>

theorem file_input_lines:
  assumes "dh_fp dh = Some fp" "drop (fst_pos fp) (fs_data w (fst_inode fp)) = concat (map (\<lambda>l. l @ [10]) ls)"
    "\<forall>l \<in> set ls. text_line mx l" "length ls < n"
  shows "read_lines n dh mx w = Returned (map (\<lambda>l. l @ [0]) ls)"
  using assms
proof (induction ls arbitrary: n dh fp)
  case Nil
  then show ?case by (cases n) (auto simp: file_read_line_def fgets_bytes_def)
next
  case (Cons l ls)
  obtain n' where n: "n = Suc n'" using Cons.prems(4) by (cases n) auto
  let ?fp = "fp\<lparr>fst_pos := fst_pos fp + length l + 1\<rparr>"
  have r: "file_read_line dh mx w = Returned (int (length l) + 1, l @ [0, 0], dh\<lparr>dh_fp := Some ?fp\<rparr>)"
    by (rule read_one_line [where rest = "concat (map (\<lambda>l. l @ [10]) ls)"]) (use Cons.prems in auto)
  have "drop (fst_pos ?fp) (fs_data w (fst_inode ?fp)) = drop (length l + 1) (drop (fst_pos fp) (fs_data w (fst_inode fp)))"
    by (simp add: add.commute add.left_commute)
  also have "\<dots> = concat (map (\<lambda>l. l @ [10]) ls)" unfolding Cons.prems(2) by simp
  finally have "read_lines n' (dh\<lparr>dh_fp := Some ?fp\<rparr>) mx w = Returned (map (\<lambda>l. l @ [0]) ls)"
    using Cons.prems(3,4) n by (intro Cons.IH) auto
  then show ?case unfolding n by (simp add: r nat_add_distrib)
qed

definition sample_in :: df_handle where
  "sample_in = handle_zero\<lparr>dh_fp := Some \<lparr>fst_inode = 0, fst_pos = 0\<rparr>, dh_io_type := DF_IN_FILE_TYPE,
     dh_path := ''/o''\<rparr>"

theorem file_input_lines_witness: "read_lines 2 sample_in 8 sample_fs = Returned [[65, 0]]"
  using file_input_lines [of sample_in "\<lparr>fst_inode = 0, fst_pos = 0\<rparr>" sample_fs "[[65]]" 8 2]
  by (simp add: sample_in_def sample_fs_def text_line_def)

text \<open>The last line loses its last byte when the file does not end with a newline.\<close>

lemma last_line_cut:
  assumes "dh_fp dh = Some fp" "drop (fst_pos fp) (fs_data w (fst_inode fp)) = l @ [b]"
    "text_line mx (l @ [b])"
  shows "\<exists>dh'. file_read_line dh mx w = Returned (int (length l) + 1, l @ [0, 0], dh')"
proof -
  have "takeWhile (\<lambda>b. b \<noteq> 10) (l @ [b]) = l @ [b]"
    using assms(3) by (auto simp: text_line_def takeWhile_eq_all_conv)
  moreover have "take (mx - 1) (l @ [b]) = l @ [b]" using assms(3) by (intro take_all) (auto simp: text_line_def)
  ultimately have f: "fgets_bytes mx (l @ [b]) = l @ [b]" by (simp only: fgets_bytes_def Let_def less_irrefl if_False)
  have b: "bcstr (l @ [b, 0]) = l @ [b]"
    using bcstr_text [of "l @ [b]"] assms(3) by (simp add: text_line_def)
  show ?thesis using assms
    by (simp add: file_read_line_def f b bstrnlen_def text_line_def Let_def nth_append list_update_append)
qed

end
