(* ===== verification/IoTail.thy ===== *)
theory IoTail
  imports IoHandle
begin

text \<open>
  \<open>io/io-tail.c\<close>: a file that another process appends to is read line by line, one byte at a
  time, with the file being watched for truncation and replacement. Every turn of the loop
  takes one event, which holds the answers of all the system calls the turn may make.
\<close>

section \<open>Opening\<close>

text \<open>The path to open and whether to start at its beginning, by the last character of the path.\<close>

definition tail_mode :: "string \<Rightarrow> string \<times> bool" where
  "tail_mode path =
     (if path \<noteq> [] \<and> last path = CHR ''<'' then (butlast path, True)
      else if path \<noteq> [] \<and> last path = CHR ''>'' then (butlast path, False)
      else (path, False))"

text \<open>
  The descriptor is some nonnegative number; \<open>opens\<close> says for which paths \<open>open\<close>, \<open>lseek\<close> and
  \<open>fcntl\<close> succeed. The last argument of the result is the start position.
\<close>

definition tail_open_nonblock_file :: "(string \<Rightarrow> bool) \<Rightarrow> string \<Rightarrow> int \<times> bool" where
  "tail_open_nonblock_file opens path =
     (let (buffer, from_start) = tail_mode (strncpy path PATH_MAX) in
      if opens buffer then (3, from_start) else (-1, False))"

definition tail_open :: "(string \<Rightarrow> bool) \<Rightarrow> io_dirs \<Rightarrow> string \<Rightarrow> nat \<Rightarrow> df_handle option proc" where
  "tail_open opens dirs path spec =
     proc_bind (absolute_path (dragonfly_io_get_logdir dirs) path) (\<lambda>file_path.
     if has_flag spec DF_IN then
       (let (fd, _) = tail_open_nonblock_file opens file_path in
        if fd < 0 then Returned None
        else Returned (Some (handle_zero\<lparr>dh_fd := fd, dh_io_type := DF_IN_TAIL_TYPE,
               dh_path := strndup file_path PATH_MAX\<rparr>)))
     else Returned None)"

section \<open>One line\<close>

datatype tail_read = TByte byte | TEof | TErr errno

record tail_event =
  te_opens :: "string \<Rightarrow> bool"        \<comment> \<open>which paths can be opened now\<close>
  te_read :: tail_read                \<comment> \<open>the answer to \<open>read\<close>\<close>
  te_fstat :: "(int \<times> int) option"    \<comment> \<open>size and inode of the open file\<close>
  te_now :: int                       \<comment> \<open>the time\<close>
  te_stat :: "string \<Rightarrow> int option"    \<comment> \<open>the inode a path names now\<close>

record tail_state =
  tl_buf :: "byte list"    \<comment> \<open>\<open>buffer[0..i-1]\<close>\<close>
  tl_last_size :: int
  tl_last_time :: int
  tl_failures :: nat
  tl_fdstat :: "(int \<times> int) option"

definition FIVE_SECONDS :: int where "FIVE_SECONDS = 5"

text \<open>
  At the end \<open>buffer[i]\<close> is set to NUL; the buffer has \<open>len\<close> bytes, so \<open>i = len\<close> is a write
  past it.
\<close>

definition tail_finish :: "nat \<Rightarrow> df_handle \<Rightarrow> byte list \<Rightarrow> tail_event list
    \<Rightarrow> (int \<times> byte list \<times> df_handle \<times> tail_event list) proc" where
  "tail_finish len dh buf evs =
     (if length buf < len then Returned (int (length buf), buf, dh, evs)
      else Undefined ''write past the buffer'')"

fun tail_next_loop :: "nat \<Rightarrow> df_handle \<Rightarrow> tail_state \<Rightarrow> tail_event list
    \<Rightarrow> (int \<times> byte list \<times> df_handle \<times> tail_event list) proc" where
  "tail_next_loop len dh st [] = Blocked"
| "tail_next_loop len dh st (ev # evs) =
     (let fd = (if dh_fd dh < 0 then fst (tail_open_nonblock_file (te_opens ev) (dh_path dh)) else dh_fd dh);
          dh = dh\<lparr>dh_fd := fd\<rparr>; failed = Returned (-1, tl_buf st, dh, evs) in
      if fd < 0 then
        (let st = st\<lparr>tl_failures := tl_failures st + 1\<rparr> in
         if tl_failures st > 5 then failed
         else if length (tl_buf st) < len then tail_next_loop len dh st evs
         else tail_finish len dh (tl_buf st) evs)
      else
        (case te_read ev of
           TErr e \<Rightarrow>
             if e \<noteq> EAGAIN then failed
             else if length (tl_buf st) < len then tail_next_loop len dh st evs
             else tail_finish len dh (tl_buf st) evs
         | TByte b \<Rightarrow>
             if b = 10 then tail_finish len dh (tl_buf st) evs
             else
               (let st = st\<lparr>tl_buf := tl_buf st @ [b]\<rparr> in
                if length (tl_buf st) < len then tail_next_loop len dh st evs
                else tail_finish len dh (tl_buf st) evs)
         | TEof \<Rightarrow>
             (let st = st\<lparr>tl_fdstat := (case te_fstat ev of None \<Rightarrow> tl_fdstat st | Some s \<Rightarrow> Some s)\<rparr> in
              case tl_fdstat st of
                None \<Rightarrow> Undefined ''fstat result not set''
              | Some (sz, ino) \<Rightarrow>
                  let st = (if sz < tl_last_size st then st\<lparr>tl_buf := []\<rparr> else st)\<lparr>tl_last_size := sz\<rparr> in
                  if te_now ev - tl_last_time st \<ge> FIVE_SECONDS then
                    (let st = st\<lparr>tl_last_time := te_now ev\<rparr> in
                     case te_stat ev (dh_path dh) of
                       None \<Rightarrow> failed
                     | Some ino2 \<Rightarrow>
                         if ino \<noteq> ino2 then
                           (let fd = fst (tail_open_nonblock_file (te_opens ev)
                                       (snprintf PATH_MAX (dh_path dh @ ''<'')));
                                dh = dh\<lparr>dh_fd := fd\<rparr> in
                            if fd < 0 then Returned (-1, tl_buf st, dh, evs)
                            else if 0 < len then tail_next_loop len dh (st\<lparr>tl_buf := []\<rparr>) evs
                            else tail_finish len dh [] evs)
                         else if length (tl_buf st) < len then tail_next_loop len dh st evs
                         else tail_finish len dh (tl_buf st) evs)
                  else if length (tl_buf st) < len then tail_next_loop len dh st evs
                  else tail_finish len dh (tl_buf st) evs)))"

text \<open>The time at which the call starts is \<open>t0\<close>.\<close>

definition tail_next_line :: "int \<Rightarrow> nat \<Rightarrow> df_handle \<Rightarrow> tail_event list
    \<Rightarrow> (int \<times> byte list \<times> df_handle \<times> tail_event list) proc" where
  "tail_next_line t0 len dh evs =
     tail_next_loop len dh \<lparr>tl_buf = [], tl_last_size = 0, tl_last_time = t0, tl_failures = 0, tl_fdstat = None\<rparr> evs"

text \<open>
  Empty lines are skipped. Every call takes at least one event, so the number of events bounds
  the number of calls.
\<close>

fun tail_read_loop :: "nat \<Rightarrow> int \<Rightarrow> nat \<Rightarrow> df_handle \<Rightarrow> tail_event list
    \<Rightarrow> (int \<times> byte list \<times> df_handle \<times> tail_event list) proc" where
  "tail_read_loop 0 t0 mx dh evs = Blocked"
| "tail_read_loop (Suc k) t0 mx dh evs =
     proc_bind (tail_next_line t0 mx dh evs) (\<lambda>(n, buf, dh', evs').
       if n = 0 then tail_read_loop k t0 mx dh' evs' else Returned (n, buf, dh', evs'))"

definition tail_read_line :: "int \<Rightarrow> nat \<Rightarrow> df_handle \<Rightarrow> tail_event list
    \<Rightarrow> (int \<times> byte list \<times> df_handle \<times> tail_event list) proc" where
  "tail_read_line t0 mx dh evs = tail_read_loop (length evs + 1) t0 mx dh evs"

definition tail_close :: "df_handle \<Rightarrow> df_handle" where
  "tail_close dh = (if 0 < dh_fd dh then dh\<lparr>dh_fd := -1\<rparr> else dh)"

declare tail_next_loop.simps(2) [simp del]

section \<open>Reading a file that only grows\<close>

text \<open>
  An event without disturbance: the next byte, nothing yet, or the end of a file of size at
  least \<open>sz\<close> that the path still names.
\<close>

definition quiet_event :: "string \<Rightarrow> int \<Rightarrow> int \<Rightarrow> tail_event \<Rightarrow> bool" where
  "quiet_event path ino sz ev \<longleftrightarrow>
     (case te_read ev of
        TByte b \<Rightarrow> True
      | TErr e \<Rightarrow> e = EAGAIN
      | TEof \<Rightarrow> te_fstat ev = Some (sz, ino) \<and> te_stat ev path = Some ino)"

text \<open>The bytes the events deliver, and a list of events with the sizes not decreasing.\<close>

fun payload :: "tail_event list \<Rightarrow> byte list" where
  "payload [] = []"
| "payload (ev # evs) = (case te_read ev of TByte b \<Rightarrow> b # payload evs | _ \<Rightarrow> payload evs)"

fun quiet :: "string \<Rightarrow> int \<Rightarrow> int \<Rightarrow> tail_event list \<Rightarrow> bool" where
  "quiet path ino low [] \<longleftrightarrow> True"
| "quiet path ino low (ev # evs) \<longleftrightarrow>
     (\<exists>sz \<ge> low. quiet_event path ino sz ev \<and> quiet path ino (if te_read ev = TEof then sz else low) evs)"

lemma quiet_mono: "quiet path ino low evs \<Longrightarrow> low' \<le> low \<Longrightarrow> quiet path ino low' evs"
proof (induction evs arbitrary: low low')
  case (Cons ev evs)
  then obtain sz where "low \<le> sz" "quiet_event path ino sz ev"
    "quiet path ino (if te_read ev = TEof then sz else low) evs" by auto
  then show ?case using Cons.prems(2) Cons.IH [of low low'] by (auto intro!: exI [of _ sz])
qed simp

lemma handle_fd_id [simp]: "dh\<lparr>dh_fd := dh_fd dh\<rparr> = dh"
  by (cases dh) simp

text \<open>One turn for each kind of quiet event.\<close>

lemma tail_turn_byte:
  assumes "0 \<le> dh_fd dh" "te_read ev = TByte b" "b \<noteq> 10" "length (tl_buf st) + 1 < len"
  shows "tail_next_loop len dh st (ev # evs) = tail_next_loop len dh (st\<lparr>tl_buf := tl_buf st @ [b]\<rparr>) evs"
  using assms by (simp add: tail_next_loop.simps(2))

lemma tail_turn_newline:
  assumes "0 \<le> dh_fd dh" "te_read ev = TByte 10" "length (tl_buf st) < len"
  shows "tail_next_loop len dh st (ev # evs) = Returned (int (length (tl_buf st)), tl_buf st, dh, evs)"
  using assms by (simp add: tail_next_loop.simps(2) tail_finish_def)

lemma tail_turn_again:
  assumes "0 \<le> dh_fd dh" "te_read ev = TErr EAGAIN" "length (tl_buf st) < len"
  shows "tail_next_loop len dh st (ev # evs) = tail_next_loop len dh st evs"
  using assms by (simp add: tail_next_loop.simps(2))

lemma tail_turn_eof:
  assumes "0 \<le> dh_fd dh" "te_read ev = TEof" "length (tl_buf st) < len" "te_fstat ev = Some (sz, ino)"
    "te_stat ev (dh_path dh) = Some ino" "tl_last_size st \<le> sz"
  shows "\<exists>t. tail_next_loop len dh st (ev # evs) =
    tail_next_loop len dh (st\<lparr>tl_fdstat := Some (sz, ino), tl_last_size := sz, tl_last_time := t\<rparr>) evs"
proof (cases "te_now ev - tl_last_time st \<ge> FIVE_SECONDS")
  case True
  then show ?thesis using assms by (intro exI [of _ "te_now ev"]) (simp add: tail_next_loop.simps(2) Let_def)
next
  case False
  then show ?thesis using assms
    by (intro exI [of _ "tl_last_time st"]) (cases st, simp add: tail_next_loop.simps(2) Let_def)
qed

lemma tail_loop_line:
  assumes "0 \<le> dh_fd dh" "quiet (dh_path dh) ino (tl_last_size st) evs"
    "payload evs = l @ 10 # rest" "10 \<notin> set l" "length (tl_buf st) + length l < len"
  shows "\<exists>evs'. tail_next_loop len dh st evs =
      Returned (int (length (tl_buf st @ l)), tl_buf st @ l, dh, evs') \<and>
    payload evs' = rest \<and> quiet (dh_path dh) ino (tl_last_size st) evs' \<and> length evs' < length evs"
  using assms(2-)
proof (induction evs arbitrary: st l)
  case (Cons ev evs)
  obtain sz where sz: "tl_last_size st \<le> sz" "quiet_event (dh_path dh) ino sz ev"
    "quiet (dh_path dh) ino (if te_read ev = TEof then sz else tl_last_size st) evs"
    using Cons.prems(1) by auto
  show ?case
  proof (cases "te_read ev")
    case (TByte b)
    show ?thesis
    proof (cases l)
      case Nil
      then show ?thesis using TByte Cons.prems sz tail_turn_newline [OF assms(1), of ev st len evs] by auto
    next
      case (Cons a l')
      then have ab: "a = b" "payload evs = l' @ 10 # rest" "b \<noteq> 10" "10 \<notin> set l'"
        using TByte Cons.prems by auto
      have lt: "length (tl_buf st) + 1 < len" using Cons.prems(4) Cons by simp
      show ?thesis
        using Cons.IH [of "st\<lparr>tl_buf := tl_buf st @ [b]\<rparr>" l'] tail_turn_byte [OF assms(1) TByte ab(3) lt]
          Cons.prems(4) ab sz(3) TByte Cons by fastforce
    qed
  next
    case TEof
    from sz(2) TEof have f: "te_fstat ev = Some (sz, ino)" "te_stat ev (dh_path dh) = Some ino"
      by (simp_all add: quiet_event_def)
    have lt: "length (tl_buf st) < len" using Cons.prems(4) by simp
    obtain t where t: "tail_next_loop len dh st (ev # evs) =
        tail_next_loop len dh (st\<lparr>tl_fdstat := Some (sz, ino), tl_last_size := sz, tl_last_time := t\<rparr>) evs"
      using tail_turn_eof [OF assms(1) TEof lt f sz(1)] by blast
    have "\<exists>evs'. tail_next_loop len dh (st\<lparr>tl_fdstat := Some (sz, ino), tl_last_size := sz, tl_last_time := t\<rparr>) evs =
        Returned (int (length (tl_buf st @ l)), tl_buf st @ l, dh, evs') \<and>
      payload evs' = rest \<and> quiet (dh_path dh) ino sz evs' \<and> length evs' < length evs"
      using Cons.IH [of "st\<lparr>tl_fdstat := Some (sz, ino), tl_last_size := sz, tl_last_time := t\<rparr>" l]
        Cons.prems sz(3) TEof by simp
    then show ?thesis using t quiet_mono [OF _ sz(1)] by auto
  next
    case (TErr e)
    with sz(2) have e: "te_read ev = TErr EAGAIN" by (simp add: quiet_event_def)
    have lt: "length (tl_buf st) < len" using Cons.prems(4) by simp
    show ?thesis
      using Cons.IH [of st l] tail_turn_again [OF assms(1) e lt] Cons.prems sz(3) e by fastforce
  qed
qed simp

lemma tail_line:
  assumes "0 \<le> dh_fd dh" "quiet (dh_path dh) ino 0 evs" "payload evs = l @ 10 # rest" "10 \<notin> set l" "length l < len"
  shows "\<exists>evs'. tail_next_line t0 len dh evs = Returned (int (length l), l, dh, evs') \<and>
    payload evs' = rest \<and> quiet (dh_path dh) ino 0 evs' \<and> length evs' < length evs"
  using tail_loop_line [OF assms(1), of ino "\<lparr>tl_buf = [], tl_last_size = 0, tl_last_time = t0,
      tl_failures = 0, tl_fdstat = None\<rparr>" evs l rest len] assms(2-)
  by (simp add: tail_next_line_def)

text \<open>Reading on and on: the lines that were returned until no event was left, and how it ended.\<close>

fun tail_stream :: "nat \<Rightarrow> int \<Rightarrow> nat \<Rightarrow> df_handle \<Rightarrow> tail_event list \<Rightarrow> byte list list" where
  "tail_stream 0 t0 mx dh evs = []"
| "tail_stream (Suc k) t0 mx dh evs =
     (case tail_read_line t0 mx dh evs of
        Returned (n, buf, dh', evs') \<Rightarrow> if n < 0 then [] else buf # tail_stream k t0 mx dh' evs'
      | _ \<Rightarrow> [])"

lemma tail_loop_no_line:
  assumes "0 \<le> dh_fd dh" "quiet (dh_path dh) ino (tl_last_size st) evs" "payload evs = []" "length (tl_buf st) < len"
  shows "tail_next_loop len dh st evs = Blocked"
  using assms(2-)
proof (induction evs arbitrary: st)
  case (Cons ev evs)
  obtain sz where sz: "tl_last_size st \<le> sz" "quiet_event (dh_path dh) ino sz ev"
    "quiet (dh_path dh) ino (if te_read ev = TEof then sz else tl_last_size st) evs"
    using Cons.prems(1) by auto
  show ?case
  proof (cases "te_read ev")
    case TEof
    from sz(2) TEof have f: "te_fstat ev = Some (sz, ino)" "te_stat ev (dh_path dh) = Some ino"
      by (simp_all add: quiet_event_def)
    show ?thesis
      using tail_turn_eof [OF assms(1) TEof Cons.prems(3) f sz(1), of evs] Cons.IH Cons.prems sz(3) TEof
      by fastforce
  next
    case (TErr e)
    with sz(2) have e: "te_read ev = TErr EAGAIN" by (simp add: quiet_event_def)
    show ?thesis using tail_turn_again [OF assms(1) e Cons.prems(3)] Cons.IH Cons.prems sz(3) e by simp
  qed (use Cons.prems in simp)
qed simp

lemma tail_read_first:
  assumes "0 \<le> dh_fd dh" "quiet (dh_path dh) ino 0 evs" "payload evs = concat (map (\<lambda>l. l @ [10]) ls)"
    "\<forall>l \<in> set ls. 10 \<notin> set l \<and> length l < mx" "length evs < k" "0 < mx"
  shows "if filter (\<lambda>l. l \<noteq> []) ls = [] then tail_read_loop k t0 mx dh evs = Blocked
    else \<exists>l ls' evs'. tail_read_loop k t0 mx dh evs = Returned (int (length l), l, dh, evs') \<and>
      filter (\<lambda>l. l \<noteq> []) ls = l # filter (\<lambda>l. l \<noteq> []) ls' \<and>
      payload evs' = concat (map (\<lambda>l. l @ [10]) ls') \<and> set ls' \<subseteq> set ls \<and>
      quiet (dh_path dh) ino 0 evs' \<and> length evs' < length evs"
  using assms(2-5)
proof (induction ls arbitrary: evs k)
  case Nil
  obtain k' where "k = Suc k'" using Nil.prems(4) by (cases k) auto
  moreover have "tail_next_line t0 mx dh evs = Blocked"
    unfolding tail_next_line_def by (rule tail_loop_no_line [OF assms(1)]) (use Nil assms(6) in simp_all)
  ultimately show ?case by simp
next
  case (Cons l ls)
  obtain k' where k: "k = Suc k'" using Cons.prems(4) by (cases k) auto
  obtain evs1 where e: "tail_next_line t0 mx dh evs = Returned (int (length l), l, dh, evs1)"
    "payload evs1 = concat (map (\<lambda>l. l @ [10]) ls)" "quiet (dh_path dh) ino 0 evs1" "length evs1 < length evs"
    using tail_line [OF assms(1) Cons.prems(1), of l "concat (map (\<lambda>l. l @ [10]) ls)" mx t0] Cons.prems by auto
  show ?case
  proof (cases "l = []")
    case True
    have "if filter (\<lambda>l. l \<noteq> []) ls = [] then tail_read_loop k' t0 mx dh evs1 = Blocked
      else \<exists>l ls' evs'. tail_read_loop k' t0 mx dh evs1 = Returned (int (length l), l, dh, evs') \<and>
        filter (\<lambda>l. l \<noteq> []) ls = l # filter (\<lambda>l. l \<noteq> []) ls' \<and>
        payload evs' = concat (map (\<lambda>l. l @ [10]) ls') \<and> set ls' \<subseteq> set ls \<and>
        quiet (dh_path dh) ino 0 evs' \<and> length evs' < length evs1"
      by (rule Cons.IH) (use e Cons.prems k in auto)
    then have "if filter (\<lambda>l. l \<noteq> []) ls = [] then tail_read_loop k' t0 mx dh evs1 = Blocked
      else \<exists>l ls' evs'. tail_read_loop k' t0 mx dh evs1 = Returned (int (length l), l, dh, evs') \<and>
        filter (\<lambda>l. l \<noteq> []) ls = l # filter (\<lambda>l. l \<noteq> []) ls' \<and>
        payload evs' = concat (map (\<lambda>l. l @ [10]) ls') \<and> set ls' \<subseteq> insert [] (set ls) \<and>
        quiet (dh_path dh) ino 0 evs' \<and> length evs' < length evs"
      using e(4) by (force split: if_splits)
    moreover have "tail_read_loop k t0 mx dh evs = tail_read_loop k' t0 mx dh evs1"
      using True e(1) k by simp
    ultimately show ?thesis by (simp add: True split: if_splits)
  next
    case False
    then show ?thesis using e k by auto
  qed
qed

text \<open>
  C19. A file that only grows is followed line by line: whatever pauses there are between the
  bytes and however they fall, the lines returned are exactly the nonempty lines of the bytes
  that arrived, in order, provided each is shorter than the buffer.
\<close>

theorem tail_follows_lines:
  assumes "0 \<le> dh_fd dh" "quiet (dh_path dh) ino 0 evs" "payload evs = concat (map (\<lambda>l. l @ [10]) ls)"
    "\<forall>l \<in> set ls. 10 \<notin> set l \<and> length l < mx" "length evs \<le> k" "0 < mx"
  shows "tail_stream (Suc k) t0 mx dh evs = filter (\<lambda>l. l \<noteq> []) ls"
  using assms(2-5)
proof (induction k arbitrary: evs ls)
  case 0
  then have "evs = []" "ls = []" by auto
  then show ?case using tail_read_first [OF assms(1), of ino "[]" "[]" mx 1 t0] assms(6)
    by (simp add: tail_read_line_def)
next
  case (Suc k)
  note first = tail_read_first [OF assms(1) Suc.prems(1-3), of "length evs + 1" t0]
  show ?case
  proof (cases "filter (\<lambda>l. l \<noteq> []) ls = []")
    case True
    then show ?thesis using first assms(6) by (simp add: tail_read_line_def)
  next
    case False
    then obtain l ls' evs' where r: "tail_read_line t0 mx dh evs = Returned (int (length l), l, dh, evs')"
      "filter (\<lambda>l. l \<noteq> []) ls = l # filter (\<lambda>l. l \<noteq> []) ls'"
      "payload evs' = concat (map (\<lambda>l. l @ [10]) ls')" "set ls' \<subseteq> set ls"
      "quiet (dh_path dh) ino 0 evs'" "length evs' < length evs"
      using first assms(6) by (auto simp: tail_read_line_def)
    have "tail_stream (Suc k) t0 mx dh evs' = filter (\<lambda>l. l \<noteq> []) ls'"
      by (rule Suc.IH) (use r Suc.prems in auto)
    then show ?thesis using r(1,2) by (subst tail_stream.simps(2)) simp
  qed
qed

definition byte_event :: "byte \<Rightarrow> tail_event" where
  "byte_event b = \<lparr>te_opens = (\<lambda>_. True), te_read = TByte b, te_fstat = None, te_now = 0, te_stat = (\<lambda>_. None)\<rparr>"

definition pause_event :: "int \<Rightarrow> tail_event" where
  "pause_event t = \<lparr>te_opens = (\<lambda>_. True), te_read = TEof, te_fstat = Some (2, 7), te_now = t, te_stat = (\<lambda>_. Some 7)\<rparr>"

lemma sample_event_reads [simp]:
  "te_read (byte_event b) = TByte b" "te_read (pause_event t) = TEof"
  by (simp_all add: byte_event_def pause_event_def)

theorem tail_follows_lines_witness:
  "tail_stream 7 0 8 (handle_zero\<lparr>dh_fd := 3, dh_path := ''/x''\<rparr>)
    [byte_event 65, pause_event 9, byte_event 10, byte_event 10, byte_event 66, byte_event 10] = [[65], [66]]"
proof -
  have ex: "Ex ((\<le>) a)" for a :: int by auto
  have p: "quiet_event ''/x'' 7 sz (pause_event t) \<longleftrightarrow> sz = 2" for sz t
    by (auto simp: quiet_event_def pause_event_def)
  have "tail_stream (Suc 6) 0 8 (handle_zero\<lparr>dh_fd := 3, dh_path := ''/x''\<rparr>)
    [byte_event 65, pause_event 9, byte_event 10, byte_event 10, byte_event 66, byte_event 10] =
    filter (\<lambda>l. l \<noteq> []) [[65], [], [66]]"
    by (rule tail_follows_lines [where ino = 7])
      (simp_all add: p ex, simp_all add: quiet_event_def ex)
  then show ?thesis by (simp del: tail_stream.simps)
qed

section \<open>Where following goes wrong\<close>

text \<open>A line as long as the buffer makes the loop write one byte past the buffer.\<close>

lemma tail_long_line:
  assumes "0 \<le> dh_fd dh" "length l = len" "10 \<notin> set l" "0 < len"
  shows "tail_next_line t0 len dh (map byte_event l @ evs) = Undefined ''write past the buffer''"
proof -
  have "tail_next_loop len dh st (map byte_event l @ evs) = Undefined ''write past the buffer''"
    if "length (tl_buf st) + length l = len" "l \<noteq> []" for st
    using that assms(3)
  proof (induction l arbitrary: st)
    case (Cons b l)
    show ?case
    proof (cases "l = []")
      case True
      then show ?thesis using Cons.prems assms(1)
        by (simp add: tail_next_loop.simps(2) tail_finish_def Let_def)
    next
      case False
      then have "length (tl_buf st) + 1 < len" using Cons.prems by (cases l) auto
      with Cons False show ?thesis
        using tail_turn_byte [OF assms(1), of "byte_event b" b st len "map byte_event l @ evs"]
        by simp
    qed
  qed simp
  then show ?thesis using assms by (auto simp: tail_next_line_def)
qed

text \<open>
  The path kept in the handle still has its marker: \<open>stat\<close> of it fails, and five seconds
  without data end the reading of a file that is there.
\<close>

lemma tail_marker_kept:
  assumes "tail_open opens dirs (p @ ''<'') DF_IN = Returned (Some dh)" "p = CHR ''/'' # q" "NUL \<notin> set p"
  shows "dh_path dh = p @ ''<''"
proof -
  have "cstr (p @ ''<'') = p @ ''<''" using assms(3) by (intro cstr_no_NUL) (auto simp: NUL_def)
  then show ?thesis using assms
    by (auto simp: tail_open_def absolute_path_def strncpy_def strndup_def strlen_def proc_bind_Returned
        Let_def split: if_splits prod.splits)
qed

lemma tail_gives_up:
  assumes "0 \<le> dh_fd dh" "te_read ev = TEof" "te_fstat ev = Some s" "t0 + 5 \<le> te_now ev"
    "te_stat ev (dh_path dh) = None"
  shows "\<exists>buf. tail_next_line t0 len dh (ev # evs) = Returned (-1, buf, dh, evs)"
  using assms by (cases s) (auto simp: tail_next_line_def tail_next_loop.simps(2) FIVE_SECONDS_def Let_def)

end
