(* ===== verification/IoPipe.thy ===== *)
theory IoPipe
  imports IoHandle
begin

text \<open>
  \<open>io/io-pipe.c\<close>: datagrams through a UNIX socket. A server handle is bound to its path and
  read from, a client handle is connected to its path and written to.
\<close>

section \<open>Opening\<close>

text \<open>Which of the calls succeed.\<close>

record ipc_env =
  ipc_socket :: bool
  ipc_bind :: "string \<Rightarrow> bool"
  ipc_connect :: "string \<Rightarrow> bool"

text \<open>The size of \<open>sun_path\<close>; \<open>strcpy\<close> and \<open>sprintf\<close> do not check it.\<close>

definition SUN_PATH_SIZE :: nat where "SUN_PATH_SIZE = 108"

definition copy_sun_path :: "string \<Rightarrow> string proc" where
  "copy_sun_path p = (if length p < SUN_PATH_SIZE then Returned p else Undefined ''write past sun_path'')"

definition ipc_open :: "ipc_env \<Rightarrow> io_dirs \<Rightarrow> string \<Rightarrow> nat \<Rightarrow> df_handle option proc" where
  "ipc_open env dirs ipc_path spec =
     (if \<not> ipc_socket env then Returned None
      else
        proc_bind (copy_sun_path
            (if is_absolute ipc_path then cstr ipc_path
             else dragonfly_io_get_rundir dirs @ ''/'' @ cstr ipc_path)) (\<lambda>sun_path.
        let dh = handle_zero\<lparr>dh_fd := 3, dh_path := strndup sun_path PATH_MAX\<rparr> in
        if has_flag spec DF_IN then
          (if ipc_bind env sun_path then Returned (Some (dh\<lparr>dh_io_type := DF_SERVER_IPC_TYPE\<rparr>))
           else Returned None)
        else if has_flag spec DF_OUT then
          (if ipc_connect env sun_path then Returned (Some (dh\<lparr>dh_io_type := DF_CLIENT_IPC_TYPE\<rparr>))
           else Returned None)
        else Returned None))"

definition ipc_reopen :: "ipc_env \<Rightarrow> df_handle \<Rightarrow> (int \<times> df_handle) proc" where
  "ipc_reopen env dh =
     (if \<not> ipc_socket env then Returned (-1, dh\<lparr>dh_fd := -1\<rparr>)
      else
        proc_bind (copy_sun_path (dh_path dh)) (\<lambda>sun_path.
        let dh = dh\<lparr>dh_fd := 3\<rparr> in
        if dh_io_type dh = DF_SERVER_IPC_TYPE \<and> \<not> ipc_bind env sun_path then Returned (-1, dh)
        else if dh_io_type dh = DF_CLIENT_IPC_TYPE \<and> \<not> ipc_connect env sun_path then Returned (-1, dh)
        else Returned (0, dh)))"

section \<open>Reading\<close>

text \<open>The answer to a \<open>read\<close>: an error, or a datagram, of which \<open>len\<close> bytes are stored.\<close>

definition ipc_read_message :: "errno + byte list \<Rightarrow> nat \<Rightarrow> (int \<times> byte list) proc" where
  "ipc_read_message r len =
     (case r of
        Inl e \<Rightarrow> if e = EINTR then Returned (-1, []) else Exited EXIT_FAILURE
      | Inr d \<Rightarrow> Returned (int (length (take len d)), take len d))"

text \<open>
  \<open>ipc_read_messages\<close> moves the first buffer on by one byte in every turn and never goes to
  the next; \<open>p\<close> is how far it is, \<open>len\<close> its size.
\<close>

fun ipc_read_messages_loop :: "nat \<Rightarrow> nat \<Rightarrow> nat \<Rightarrow> (errno + byte list) list \<Rightarrow> int proc" where
  "ipc_read_messages_loop p len mx [] = Blocked"
| "ipc_read_messages_loop p len mx (r # rs) =
     (case r of
        Inl e \<Rightarrow> if e = EINTR then Returned (-1) else Exited EXIT_FAILURE
      | Inr d \<Rightarrow>
          let n = min (length d) (len - 1) in
          if len \<le> p + 1 + n then Undefined ''write past the buffer''
          else if 0 < n \<and> 0 < mx then ipc_read_messages_loop (p + 1) len mx rs
          else Returned 0)"

definition ipc_read_messages :: "nat \<Rightarrow> nat \<Rightarrow> (errno + byte list) list \<Rightarrow> int proc" where
  "ipc_read_messages len mx rs = ipc_read_messages_loop 0 len mx rs"

section \<open>Writing\<close>

text \<open>
  The loop of \<open>ipc_write_message\<close>: \<open>errno\<close> is what an earlier call left there; after a
  successful \<open>send\<close> it is still looked at. The result has the datagrams sent.
\<close>

fun ipc_write_loop :: "ipc_env \<Rightarrow> df_handle \<Rightarrow> byte list \<Rightarrow> errno option \<Rightarrow> byte list list \<Rightarrow> sys_io list
    \<Rightarrow> (int \<times> df_handle \<times> byte list list) proc" where
  "ipc_write_loop env dh msg err sent [] = Blocked"
| "ipc_write_loop env dh msg err sent (r # rs) =
     (case r of
        Failed e \<Rightarrow>
          if e \<in> {ETIMEDOUT, ENOBUFS, EAGAIN, EINVAL} then ipc_write_loop env dh msg (Some e) sent rs
          else Exited EXIT_FAILURE
      | Transferred n \<Rightarrow>
          let sent = (if n = 0 then sent else sent @ [take n msg]) in
          if n = 0 \<or> err = Some EIO then
            proc_bind (ipc_reopen env dh) (\<lambda>(_, dh). ipc_write_loop env dh msg err sent rs)
          else Returned (int (min n (length msg)), dh, sent))"

definition ipc_write_message :: "ipc_env \<Rightarrow> df_handle \<Rightarrow> byte list \<Rightarrow> errno option \<Rightarrow> sys_io list
    \<Rightarrow> (int \<times> df_handle \<times> byte list list) proc" where
  "ipc_write_message env dh buffer err rs =
     (let len = bstrnlen buffer DF_MAX_BUFFER_LEN in
      if len = 0 \<or> len = DF_MAX_BUFFER_LEN then Returned (-1, dh, [])
      else ipc_write_loop env dh (take len buffer) err [] rs)"

definition ipc_close :: "df_handle \<Rightarrow> df_handle" where
  "ipc_close dh = dh\<lparr>dh_fd := -1\<rparr>"

section \<open>Properties\<close>

lemma take_bstrnlen: "length (bcstr b) < n \<Longrightarrow> take (bstrnlen b n) b = bcstr b"
  unfolding bstrnlen_def bcstr_def by (metis min.strict_order_iff min.commute takeWhile_eq_take)

lemma write_loop_retries:
  assumes "\<forall>e \<in> set es. e \<in> {ETIMEDOUT, ENOBUFS, EAGAIN, EINVAL}" "err \<noteq> Some EIO" "msg \<noteq> []"
  shows "ipc_write_loop env dh msg err [] (map Failed es @ Transferred (length msg) # rs) =
    Returned (int (length msg), dh, [msg])"
  using assms by (induction es arbitrary: err) auto

text \<open>
  A text of 1 to 2047 bytes written to a socket is sent as exactly one datagram, whole,
  however often the system asks to try again, if no earlier error of another kind is left
  behind.
\<close>

theorem ipc_write_once:
  assumes "0 < length (bcstr b)" "length (bcstr b) < DF_MAX_BUFFER_LEN" "err \<noteq> Some EIO"
    "\<forall>e \<in> set es. e \<in> {ETIMEDOUT, ENOBUFS, EAGAIN, EINVAL}"
  shows "ipc_write_message env dh b err (map Failed es @ Transferred (length (bcstr b)) # rs) =
    Returned (int (length (bcstr b)), dh, [bcstr b])"
proof -
  have "bstrnlen b DF_MAX_BUFFER_LEN = length (bcstr b)" using assms(2) by (simp add: bstrnlen_def)
  then show ?thesis
    using write_loop_retries [OF assms(4,3), of "bcstr b"] take_bstrnlen [OF assms(2)] assms(1,2)
    by (simp add: ipc_write_message_def)
qed

theorem ipc_write_once_witness:
  "ipc_write_message \<lparr>ipc_socket = True, ipc_bind = \<lambda>_. True, ipc_connect = \<lambda>_. True\<rparr> handle_zero
     [104, 105, 0] None [Failed EAGAIN, Transferred 2] = Returned (2, handle_zero, [[104, 105]])"
proof -
  have b: "bcstr [104, 105, 0] = [104, 105]" "length [104, 105 :: byte] = 2" by (simp_all add: bcstr_def)
  show ?thesis
    using ipc_write_once [of "[104, 105, 0]" None "[EAGAIN]" _ handle_zero "[]", unfolded b]
    by (simp add: DF_MAX_BUFFER_LEN_def del: ipc_write_loop.simps)
qed

text \<open>With \<open>EIO\<close> left in \<open>errno\<close> a message that was sent is sent again, and again.\<close>

lemma ipc_write_repeats:
  assumes "ipc_socket env" "length (dh_path dh) < SUN_PATH_SIZE" "ipc_connect env (dh_path dh)"
    "dh_io_type dh = DF_CLIENT_IPC_TYPE" "dh_fd dh = 3" "msg \<noteq> []"
  shows "ipc_write_loop env dh msg (Some EIO) sent (Transferred (length msg) # rs) =
    ipc_write_loop env dh msg (Some EIO) (sent @ [msg]) rs"
proof -
  have fd: "dh\<lparr>dh_fd := 3\<rparr> = dh" using assms(5) by (cases dh) simp
  show ?thesis using assms(1-4,6)
    by (simp add: fd ipc_reopen_def copy_sun_path_def DF_CLIENT_IPC_TYPE_def DF_SERVER_IPC_TYPE_def)
qed

text \<open>\<open>ipc_read_messages\<close> never reports a message: it counts with a variable nothing changes.\<close>

lemma read_messages_none: "ipc_read_messages_loop p len mx rs = Returned n \<Longrightarrow> n \<le> 0"
  by (induction p len mx rs rule: ipc_read_messages_loop.induct)
    (auto simp: Let_def split: sum.splits if_splits)

text \<open>A path of 108 bytes or more is copied past the address.\<close>

lemma ipc_long_path:
  assumes "ipc_socket env" "p = CHR ''/'' # q" "SUN_PATH_SIZE \<le> length (cstr p)"
  shows "ipc_open env dirs p spec = Undefined ''write past sun_path''"
  using assms by (simp add: ipc_open_def copy_sun_path_def)

end
