(* ===== verification/IoMisc.thy ===== *)
theory IoMisc
  imports IoHandle
begin

text \<open>
  The other kinds of input and output: compressed files (\<open>io/io-zfile.c\<close>), the system log
  (\<open>io/io-syslog.c\<close>), and the two that are not implemented, \<open>io/io-kafka.c\<close> and
  \<open>io/io-ipfix.c\<close>. What zlib answers is the environment's.
\<close>

section \<open>Compressed files\<close>

record gz_env =
  gz_access :: "string \<Rightarrow> bool"
  gz_mkfifo :: "string \<Rightarrow> bool"
  gz_open :: "string \<Rightarrow> bool"

text \<open>\<open>strcpy\<close> and \<open>sprintf\<close> into an array of \<open>PATH_MAX\<close> bytes.\<close>

definition zfile_path :: "io_dirs \<Rightarrow> string \<Rightarrow> string proc" where
  "zfile_path dirs path =
     (let p = (if is_absolute path then cstr path
               else dragonfly_io_get_rundir dirs @ ''/'' @ cstr path) in
      if length p < PATH_MAX then Returned p else Undefined ''write past the path'')"

definition zfile_open :: "gz_env \<Rightarrow> io_dirs \<Rightarrow> string \<Rightarrow> nat \<Rightarrow> df_handle option proc" where
  "zfile_open env dirs ipc_path spec =
     proc_bind (zfile_path dirs ipc_path) (\<lambda>path.
     let dh = handle_zero\<lparr>dh_zfp := True, dh_path := strndup path PATH_MAX\<rparr> in
     if has_flag spec DF_IN then
       (if \<not> gz_access env path \<and> \<not> gz_mkfifo env path then Returned None
        else if \<not> gz_open env path then Returned None
        else Returned (Some (dh\<lparr>dh_io_type := DF_IN_ZFILE_TYPE\<rparr>)))
     else if has_flag spec DF_OUT then
       (if \<not> gz_open env path then Returned None
        else Returned (Some (dh\<lparr>dh_io_type := DF_OUT_ZFILE_TYPE\<rparr>)))
     else Returned None)"

text \<open>
  \<open>gzgets\<close> gives NULL, at the end of the stream or after an error, or the bytes of a line,
  newline included, before the NUL.
\<close>

datatype gzgets_result = GzEof | GzError | GzLine "byte list"

definition zfile_read_line :: "gzgets_result \<Rightarrow> nat \<Rightarrow> (int \<times> byte list) proc" where
  "zfile_read_line r len =
     (case r of
        GzEof \<Rightarrow> Returned (0, [])
      | GzError \<Rightarrow> Returned (-1, [])
      | GzLine s \<Rightarrow>
          let i = bstrnlen (s @ [0]) len in
          if i = 0 then Undefined ''write before the buffer''
          else Returned (int i - 1, (s @ [0])[i - 1 := 0]))"

definition zfile_write_line :: "int \<Rightarrow> bool \<Rightarrow> int" where
  "zfile_write_line gzputs gzputc_ok =
     (if gzputs < 0 then gzputs else if \<not> gzputc_ok then -1 else gzputs + 1)"

text \<open>If the file is opened again, an error is logged and -1 returned; if not, 0.\<close>

definition zfile_rotate :: "gz_env \<Rightarrow> df_handle \<Rightarrow> int \<times> df_handle" where
  "zfile_rotate env dh =
     (if has_flag (dh_io_type dh) DF_OUT then
        (if gz_open env (dh_path dh) then (-1, dh\<lparr>dh_zfp := True\<rparr>) else (0, dh\<lparr>dh_zfp := False\<rparr>))
      else (-1, dh))"

text \<open>The stream is closed; the handle keeps its pointer.\<close>

definition zfile_close :: "df_handle \<Rightarrow> df_handle" where
  "zfile_close dh = dh"

section \<open>System log\<close>

definition LOG_LOCAL0 :: int where "LOG_LOCAL0 = 128"

definition syslog_open :: "string \<Rightarrow> nat \<Rightarrow> df_handle option" where
  "syslog_open path spec =
     (if has_flag spec DF_OUT then
        (let dh = handle_zero\<lparr>dh_io_type := DF_OUT_SYSLOG_TYPE, dh_path := strndup path PATH_MAX\<rparr> in
         if take 9 (cstr path) = ''LOG_LOCAL'' then
           (let k = atoi (drop 9 (cstr path)) in
            if 0 \<le> k \<and> k \<le> 7 then Some (dh\<lparr>dh_fd := LOG_LOCAL0 + 8 * k\<rparr>) else None)
         else Some dh)
      else None)"

text \<open>The facility and the text that go to the log.\<close>

definition syslog_write_message :: "df_handle \<Rightarrow> byte list \<Rightarrow> int \<times> int \<times> byte list" where
  "syslog_write_message dh buffer = (1, dh_fd dh, bcstr buffer)"

section \<open>Not implemented\<close>

definition kafka_reopen :: int where "kafka_reopen = -1"
definition kafka_open :: "df_handle option" where "kafka_open = None"
definition kafka_read_message :: int where "kafka_read_message = -1"
definition kafka_write_message :: int where "kafka_write_message = -1"
definition kafka_close :: "df_handle \<Rightarrow> df_handle" where "kafka_close dh = dh"

definition ipfix_open :: "df_handle option proc" where "ipfix_open = Exited EXIT_FAILURE"

definition ipfix_read_line :: "errno + byte list \<Rightarrow> nat \<Rightarrow> (int \<times> byte list) proc" where
  "ipfix_read_line r len =
     (case r of Inl e \<Rightarrow> Exited EXIT_FAILURE | Inr d \<Rightarrow> Returned (int (length (take len d)), take len d))"

definition ipfix_close :: "df_handle \<Rightarrow> df_handle" where
  "ipfix_close dh = dh\<lparr>dh_fd := -1\<rparr>"

section \<open>Where rotation reports the wrong thing\<close>

lemma zfile_rotate_inverted:
  "has_flag (dh_io_type dh) DF_OUT \<Longrightarrow> fst (zfile_rotate env dh) = 0 \<longleftrightarrow> \<not> gz_open env (dh_path dh)"
  by (simp add: zfile_rotate_def)

end
