(* ===== verification/DragonflyIO.thy ===== *)
theory DragonflyIO
  imports Channel IoFile IoTail IoPipe IoMisc
begin

text \<open>
  \<open>dragonfly-io.c\<close>: one interface for all kinds of input and output. The prefix of the URI
  chooses the kind on opening, the type in the handle chooses it afterwards. Handles live on a
  heap, so that a handle that was freed can be told from one that is there.
\<close>

section \<open>The world of the handles\<close>

record io_world =
  iw_heap :: "nat \<Rightarrow> df_handle option"
  iw_next :: nat
  iw_dirs :: io_dirs
  iw_fs :: fs
  iw_sent :: "(string \<times> byte list) list"     \<comment> \<open>datagrams, with the path of the peer\<close>
  iw_syslog :: "(int \<times> byte list) list"

text \<open>A handle pointer: NULL, a handle, or one that is no longer allocated.\<close>

definition handle_at :: "io_world \<Rightarrow> nat option \<Rightarrow> df_handle option proc" where
  "handle_at w p =
     (case p of
        None \<Rightarrow> Returned None
      | Some a \<Rightarrow>
          (case iw_heap w a of
             None \<Rightarrow> Undefined ''use of a freed handle''
           | Some dh \<Rightarrow> Returned (Some dh)))"

definition alloc_handle :: "df_handle option \<Rightarrow> io_world \<Rightarrow> nat option \<times> io_world" where
  "alloc_handle dh w =
     (case dh of
        None \<Rightarrow> (None, w)
      | Some h \<Rightarrow>
          (Some (iw_next w), w\<lparr>iw_heap := (iw_heap w)(iw_next w := Some h), iw_next := iw_next w + 1\<rparr>))"

section \<open>Operations\<close>

record open_env =
  oe_tail :: "string \<Rightarrow> bool"
  oe_ipc :: ipc_env
  oe_gz :: gz_env

definition uri_prefix :: "string \<Rightarrow> string \<Rightarrow> bool" where
  "uri_prefix p uri \<longleftrightarrow> strncmp_eq p uri (length p)"

text \<open>The offset after \<open>ipfix://\<close> is 11, not 8; the argument is not used there.\<close>

definition dragonfly_io_open :: "open_env \<Rightarrow> string \<Rightarrow> nat \<Rightarrow> io_world \<Rightarrow> (nat option \<times> io_world) proc" where
  "dragonfly_io_open env uri spec w =
     (let u = cstr uri; d = iw_dirs w; new = proc_map (\<lambda>dh. alloc_handle dh w) in
      if uri_prefix ''file://'' uri then
        proc_map (\<lambda>(dh, f). alloc_handle dh (w\<lparr>iw_fs := f\<rparr>)) (file_open d (drop 7 u) spec (iw_fs w))
      else if uri_prefix ''tail://'' uri then new (tail_open (oe_tail env) d (drop 7 u) spec)
      else if uri_prefix ''ipc://'' uri then new (ipc_open (oe_ipc env) d (drop 6 u) spec)
      else if uri_prefix ''zfile://'' uri then new (zfile_open (oe_gz env) d (drop 8 u) spec)
      else if uri_prefix ''kafka://'' uri then Returned (alloc_handle kafka_open w)
      else if uri_prefix ''suricata://'' uri then new (ipc_open (oe_ipc env) d (drop 11 u) spec)
      else if uri_prefix ''ipfix://'' uri then new ipfix_open
      else if uri_prefix ''syslog://'' uri then new (ipc_open (oe_ipc env) d (drop 9 u) spec)
      else Returned (None, w))"

record write_env =
  we_fputs :: bool
  we_newline :: bool
  we_errno :: "errno option"
  we_send :: "sys_io list"
  we_ipc :: ipc_env

definition set_handle :: "nat option \<Rightarrow> df_handle \<Rightarrow> io_world \<Rightarrow> io_world" where
  "set_handle p dh w = (case p of None \<Rightarrow> w | Some a \<Rightarrow> w\<lparr>iw_heap := (iw_heap w)(a := Some dh)\<rparr>)"

definition dragonfly_io_write :: "write_env \<Rightarrow> nat option \<Rightarrow> byte list \<Rightarrow> io_world \<Rightarrow> (int \<times> io_world) proc" where
  "dragonfly_io_write env p buffer w =
     proc_bind (handle_at w p) (\<lambda>h.
     case h of
       None \<Rightarrow> Returned (-1, w)
     | Some dh \<Rightarrow>
         if dh_io_type dh = DF_SERVER_IPC_TYPE \<or> dh_io_type dh = DF_CLIENT_IPC_TYPE then
           proc_map (\<lambda>(n, dh', sent). (n, (set_handle p dh' w)\<lparr>iw_sent :=
               iw_sent w @ map (Pair (dh_path dh)) sent\<rparr>))
             (ipc_write_message (we_ipc env) dh buffer (we_errno env) (we_send env))
         else if dh_io_type dh = DF_OUT_FILE_TYPE then
           proc_map (\<lambda>(n, f). (n, w\<lparr>iw_fs := f\<rparr>)) (file_write_line (we_fputs env) (we_newline env) dh buffer (iw_fs w))
         else if dh_io_type dh = DF_OUT_KAFKA_TYPE then Returned (kafka_write_message, w)
         else if dh_io_type dh = DF_OUT_SYSLOG_TYPE then
           (let (n, facility, text) = syslog_write_message dh buffer in
            Returned (n, w\<lparr>iw_syslog := iw_syslog w @ [(facility, text)]\<rparr>))
         else Returned (-1, w))"

record read_env =
  re_msg :: "errno + byte list"     \<comment> \<open>the answer to one \<open>read\<close> of a socket\<close>
  re_time :: int
  re_tail :: "tail_event list"
  re_gz :: gzgets_result

text \<open>The number returned, the bytes in the buffer, and what is left of the events of a tail.\<close>

definition dragonfly_io_read :: "read_env \<Rightarrow> nat option \<Rightarrow> nat \<Rightarrow> io_world
    \<Rightarrow> (int \<times> byte list \<times> tail_event list \<times> io_world) proc" where
  "dragonfly_io_read env p len w =
     proc_bind (handle_at w p) (\<lambda>h.
     let plain = proc_map (\<lambda>(n, b). (n, b, re_tail env, w)) in
     case h of
       None \<Rightarrow> Returned (-1, [], re_tail env, w)
     | Some dh \<Rightarrow>
         if dh_io_type dh = DF_SERVER_IPC_TYPE \<or> dh_io_type dh = DF_CLIENT_IPC_TYPE then
           plain (ipc_read_message (re_msg env) len)
         else if dh_io_type dh = DF_IN_TAIL_TYPE then
           proc_map (\<lambda>(n, b, dh', evs). (n, b, evs, set_handle p dh' w))
             (tail_read_line (re_time env) len dh (re_tail env))
         else if dh_io_type dh = DF_IN_FILE_TYPE then
           proc_map (\<lambda>(n, b, dh'). (n, b, re_tail env, set_handle p dh' w)) (file_read_line dh len (iw_fs w))
         else if dh_io_type dh = DF_IN_ZFILE_TYPE then plain (zfile_read_line (re_gz env) len)
         else if dh_io_type dh = DF_IN_KAFKA_TYPE then Returned (kafka_read_message, [], re_tail env, w)
         else if dh_io_type dh = DF_IPFIX then plain (ipfix_read_line (re_msg env) len)
         else Returned (-1, [], re_tail env, w))"

definition dragonfly_io_read_lines :: "nat option \<Rightarrow> nat \<Rightarrow> nat \<Rightarrow> (errno + byte list) list \<Rightarrow> io_world
    \<Rightarrow> int proc" where
  "dragonfly_io_read_lines p len mx rs w =
     proc_bind (handle_at w p) (\<lambda>h.
     case h of
       None \<Rightarrow> Returned (-1)
     | Some dh \<Rightarrow>
         if dh_io_type dh = DF_SERVER_IPC_TYPE \<or> dh_io_type dh = DF_CLIENT_IPC_TYPE
         then ipc_read_messages len mx rs else Returned (-1))"

text \<open>The lines are written through, so a flush changes nothing; a closed file must not be flushed.\<close>

definition dragonfly_io_flush :: "nat option \<Rightarrow> io_world \<Rightarrow> io_world proc" where
  "dragonfly_io_flush p w = proc_map (\<lambda>_. w) (handle_at w p)"

text \<open>Three kinds return before the handle is freed.\<close>

definition dragonfly_io_close :: "nat option \<Rightarrow> io_world \<Rightarrow> io_world proc" where
  "dragonfly_io_close p w =
     proc_bind (handle_at w p) (\<lambda>h.
     case h of
       None \<Rightarrow> Returned w
     | Some dh \<Rightarrow>
         if dh_io_type dh = DF_IN_ZFILE_TYPE then Returned (set_handle p (zfile_close dh) w)
         else if dh_io_type dh = DF_IN_KAFKA_TYPE then Returned (set_handle p (kafka_close dh) w)
         else if dh_io_type dh = DF_IPFIX then Returned (set_handle p (ipfix_close dh) w)
         else Returned (case p of None \<Rightarrow> w | Some a \<Rightarrow> w\<lparr>iw_heap := (iw_heap w)(a := None)\<rparr>))"

definition dragonfly_io_isfile :: "nat option \<Rightarrow> io_world \<Rightarrow> bool proc" where
  "dragonfly_io_isfile p w =
     proc_map (\<lambda>h. case h of None \<Rightarrow> False
       | Some dh \<Rightarrow> dh_io_type dh = DF_OUT_FILE_TYPE \<or> dh_io_type dh = DF_IN_FILE_TYPE) (handle_at w p)"

definition dragonfly_io_rotate :: "tm \<Rightarrow> bool \<Rightarrow> nat option \<Rightarrow> io_world \<Rightarrow> io_world proc" where
  "dragonfly_io_rotate t rename_ok p w =
     proc_bind (handle_at w p) (\<lambda>h.
     case h of
       None \<Rightarrow> Returned w
     | Some dh \<Rightarrow>
         if dh_io_type dh = DF_OUT_FILE_TYPE then
           (case file_rotate t rename_ok dh (iw_fs w) of
              (_, dh', f) \<Rightarrow> Returned ((set_handle p dh' w)\<lparr>iw_fs := f\<rparr>))
         else Returned w)"

section \<open>Which kind a URI gives\<close>

definition kind_for :: "nat \<Rightarrow> nat \<Rightarrow> nat \<Rightarrow> nat option" where
  "kind_for spec inp outp = (if has_flag spec DF_IN then Some inp else if has_flag spec DF_OUT then Some outp else None)"

text \<open>The table of URI schemes; what is not in it cannot be opened.\<close>

definition uri_kind :: "string \<Rightarrow> nat \<Rightarrow> nat option" where
  "uri_kind uri spec =
     (if uri_prefix ''file://'' uri then kind_for spec DF_IN_FILE_TYPE DF_OUT_FILE_TYPE
      else if uri_prefix ''tail://'' uri then (if has_flag spec DF_IN then Some DF_IN_TAIL_TYPE else None)
      else if uri_prefix ''ipc://'' uri then kind_for spec DF_SERVER_IPC_TYPE DF_CLIENT_IPC_TYPE
      else if uri_prefix ''zfile://'' uri then kind_for spec DF_IN_ZFILE_TYPE DF_OUT_ZFILE_TYPE
      else if uri_prefix ''kafka://'' uri then None
      else if uri_prefix ''suricata://'' uri then kind_for spec DF_SERVER_IPC_TYPE DF_CLIENT_IPC_TYPE
      else if uri_prefix ''ipfix://'' uri then None
      else if uri_prefix ''syslog://'' uri then kind_for spec DF_SERVER_IPC_TYPE DF_CLIENT_IPC_TYPE
      else None)"

lemma file_open_kind:
  assumes "file_open d p spec f = Returned (Some dh, f')"
  shows "kind_for spec DF_IN_FILE_TYPE DF_OUT_FILE_TYPE = Some (dh_io_type dh)"
proof (cases "has_flag spec DF_IN")
  case True
  then show ?thesis using assms by (auto simp: file_open_def proc_bind_Returned kind_for_def split: option.splits)
next
  case False
  obtain a where a: "(if has_flag spec DF_OUT then
       (let (file_path, trunc) = output_mode a in
        case fopen_write f file_path trunc of
          (None, w) \<Rightarrow> Returned (None, w)
        | (Some fp, w) \<Rightarrow> Returned (Some (handle_zero\<lparr>dh_fp := Some fp, dh_io_type := DF_OUT_FILE_TYPE,
            dh_path := strndup file_path PATH_MAX\<rparr>), w))
     else Returned (None, f)) = Returned (Some dh, f')"
    using False assms unfolding file_open_def proc_bind_Returned by auto
  obtain q tr where o: "output_mode a = (q, tr)" by (cases "output_mode a")
  obtain fp w1 where "fopen_write f q tr = (fp, w1)" by (cases "fopen_write f q tr")
  with a o False show ?thesis by (cases fp) (auto simp: kind_for_def split: if_splits)
qed

lemma tail_open_kind:
  assumes "tail_open ok d p spec = Returned (Some dh)"
  shows "(if has_flag spec DF_IN then Some DF_IN_TAIL_TYPE else None) = Some (dh_io_type dh)"
  using assms
  by (cases "has_flag spec DF_IN")
    (auto simp: tail_open_def proc_bind_Returned Let_def case_prod_beta split: if_splits)

lemma ipc_open_kind:
  "ipc_open e d p spec = Returned (Some dh) \<Longrightarrow> kind_for spec DF_SERVER_IPC_TYPE DF_CLIENT_IPC_TYPE = Some (dh_io_type dh)"
  by (cases "has_flag spec DF_IN"; cases "has_flag spec DF_OUT"; cases "ipc_socket e")
    (auto simp: ipc_open_def proc_bind_Returned kind_for_def Let_def split: if_splits)

lemma zfile_open_kind:
  "zfile_open e d p spec = Returned (Some dh) \<Longrightarrow> kind_for spec DF_IN_ZFILE_TYPE DF_OUT_ZFILE_TYPE = Some (dh_io_type dh)"
  by (cases "has_flag spec DF_IN"; cases "has_flag spec DF_OUT")
    (auto simp: zfile_open_def proc_bind_Returned kind_for_def Let_def split: if_splits)

text \<open>A new handle of kind \<open>k\<close> at \<open>a\<close>.\<close>

definition opened :: "io_world \<Rightarrow> nat option \<Rightarrow> nat \<Rightarrow> io_world \<Rightarrow> bool" where
  "opened w k a w' \<longleftrightarrow> a = iw_next w \<and> (\<exists>dh. iw_heap w' a = Some dh \<and> k = Some (dh_io_type dh))"

lemma alloc_opened:
  assumes "alloc_handle h v = (Some a, w')" "iw_next v = iw_next w" "\<And>dh. h = Some dh \<Longrightarrow> k = Some (dh_io_type dh)"
  shows "opened w k a w'"
  using assms by (auto simp: alloc_handle_def opened_def split: option.splits)

lemma map_alloc_opened:
  assumes "proc_map (\<lambda>dh. alloc_handle dh w) r = Returned (Some a, w')"
    "\<And>dh. r = Returned (Some dh) \<Longrightarrow> k = Some (dh_io_type dh)"
  shows "opened w k a w'"
  using assms by (auto simp: proc_map_Returned intro: alloc_opened)

lemma later_schemes:
  assumes "dragonfly_io_open env uri spec w = Returned (Some a, w')" "\<not> uri_prefix ''file://'' uri"
    "\<not> uri_prefix ''tail://'' uri" "\<not> uri_prefix ''ipc://'' uri"
  shows "opened w (uri_kind uri spec) a w'"
proof -
  note opn = assms(1) [unfolded dragonfly_io_open_def Let_def] and kind = uri_kind_def [of uri spec]
  consider "uri_prefix ''zfile://'' uri" | "\<not> uri_prefix ''zfile://'' uri" "uri_prefix ''kafka://'' uri"
    | "\<not> uri_prefix ''zfile://'' uri" "\<not> uri_prefix ''kafka://'' uri" "uri_prefix ''suricata://'' uri"
    | "\<not> uri_prefix ''zfile://'' uri" "\<not> uri_prefix ''kafka://'' uri" "\<not> uri_prefix ''suricata://'' uri"
      "uri_prefix ''ipfix://'' uri"
    | "\<not> uri_prefix ''zfile://'' uri" "\<not> uri_prefix ''kafka://'' uri" "\<not> uri_prefix ''suricata://'' uri"
      "\<not> uri_prefix ''ipfix://'' uri" "uri_prefix ''syslog://'' uri"
    | "\<not> uri_prefix ''zfile://'' uri" "\<not> uri_prefix ''kafka://'' uri" "\<not> uri_prefix ''suricata://'' uri"
      "\<not> uri_prefix ''ipfix://'' uri" "\<not> uri_prefix ''syslog://'' uri" by blast
  then show ?thesis
  proof cases
    case 1
    show ?thesis by (rule map_alloc_opened, use opn assms(2-4) 1 in simp, use zfile_open_kind kind assms(2-4) 1 in simp)
  next
    case 2
    then show ?thesis using opn assms(2-4) by (simp add: kafka_open_def alloc_handle_def)
  next
    case 3
    show ?thesis by (rule map_alloc_opened, use opn assms(2-4) 3 in simp, use ipc_open_kind kind assms(2-4) 3 in simp)
  next
    case 4
    then show ?thesis using opn assms(2-4) by (simp add: ipfix_open_def)
  next
    case 5
    show ?thesis by (rule map_alloc_opened, use opn assms(2-4) 5 in simp, use ipc_open_kind kind assms(2-4) 5 in simp)
  next
    case 6
    then show ?thesis using opn assms(2-4) by simp
  qed
qed

text \<open>
  Opening either fails or gives a new handle of the kind that the scheme of the URI and the
  direction stand for, in a fresh cell.
\<close>

theorem io_open_kind:
  assumes "dragonfly_io_open env uri spec w = Returned (Some a, w')"
  shows "a = iw_next w \<and> (\<exists>dh. iw_heap w' a = Some dh \<and> uri_kind uri spec = Some (dh_io_type dh))"
proof -
  have "opened w (uri_kind uri spec) a w'"
  proof (cases "uri_prefix ''file://'' uri")
    case True
    then obtain h f where f: "file_open (iw_dirs w) (drop 7 (cstr uri)) spec (iw_fs w) = Returned (h, f)"
      "alloc_handle h (w\<lparr>iw_fs := f\<rparr>) = (Some a, w')"
      using assms by (auto simp: dragonfly_io_open_def proc_map_Returned)
    then show ?thesis using True file_open_kind by (intro alloc_opened [OF f(2)]) (auto simp: uri_kind_def)
  next
    case False
    note opn = assms [unfolded dragonfly_io_open_def Let_def] and kind = uri_kind_def [of uri spec]
    consider "uri_prefix ''tail://'' uri" | "\<not> uri_prefix ''tail://'' uri" "uri_prefix ''ipc://'' uri"
      | "\<not> uri_prefix ''tail://'' uri" "\<not> uri_prefix ''ipc://'' uri" by blast
    then show ?thesis
    proof cases
      case 1
      show ?thesis by (rule map_alloc_opened, use opn False 1 in simp, use tail_open_kind kind False 1 in simp)
    next
      case 2
      show ?thesis by (rule map_alloc_opened, use opn False 2 in simp, use ipc_open_kind kind False 2 in simp)
    next
      case 3
      show ?thesis by (rule later_schemes [OF assms False 3])
    qed
  qed
  then show ?thesis by (auto simp: opened_def)
qed

text \<open>A world with one file, \<open>/o\<close>, and every call successful.\<close>

definition sample_world :: io_world where
  "sample_world = \<lparr>iw_heap = (\<lambda>_. None), iw_next = 7, iw_dirs = \<lparr>g_run_dir = None, g_log_dir = None\<rparr>,
     iw_fs = sample_fs, iw_sent = [], iw_syslog = []\<rparr>"

definition good_open :: open_env where
  "good_open = \<lparr>oe_tail = \<lambda>_. True, oe_ipc = \<lparr>ipc_socket = True, ipc_bind = \<lambda>_. True, ipc_connect = \<lambda>_. True\<rparr>,
     oe_gz = \<lparr>gz_access = \<lambda>_. True, gz_mkfifo = \<lambda>_. True, gz_open = \<lambda>_. True\<rparr>\<rparr>"

lemma sample_open_client:
  "dragonfly_io_open good_open ''ipc:///s'' DF_OUT sample_world =
    Returned (Some 7, sample_world\<lparr>iw_heap := (\<lambda>_. None)(7 := Some (handle_zero\<lparr>dh_fd := 3, dh_path := ''/s'',
      dh_io_type := DF_CLIENT_IPC_TYPE\<rparr>)), iw_next := 8\<rparr>)"
proof -
  have c: "cstr ''ipc:///s'' = ''ipc:///s''" "cstr ''/s'' = ''/s''" "cstr ''file://'' = ''file://''"
    "cstr ''tail://'' = ''tail://''" "cstr ''ipc://'' = ''ipc://''"
    by (simp_all add: cstr_no_NUL NUL_def)
  show ?thesis
    by (simp add: dragonfly_io_open_def uri_prefix_def strncmp_eq_def c ipc_open_def copy_sun_path_def Let_def
      SUN_PATH_SIZE_def sample_world_def good_open_def alloc_handle_def strndup_def PATH_MAX_def)
qed

theorem io_open_kind_witness:
  "uri_kind ''ipc:///s'' DF_OUT = Some DF_CLIENT_IPC_TYPE"
  using io_open_kind [OF sample_open_client] by simp

section \<open>Outputs as sinks\<close>

text \<open>An open output file at \<open>a\<close>, named \<open>path\<close>.\<close>

definition file_ready :: "nat \<Rightarrow> string \<Rightarrow> io_world \<Rightarrow> bool" where
  "file_ready a path w \<longleftrightarrow> (\<exists>dh. iw_heap w a = Some dh \<and> dh_path dh = path \<and> open_output dh (iw_fs w))"

definition file_view :: "string \<Rightarrow> io_world \<Rightarrow> byte list" where
  "file_view path w = (case fs_contents (iw_fs w) path of None \<Rightarrow> [] | Some c \<Rightarrow> c)"

lemma open_output_type: "open_output dh f \<Longrightarrow> dh_io_type dh = DF_OUT_FILE_TYPE"
  by (simp add: open_output_def)

lemma open_output_contents: "open_output dh f \<Longrightarrow> \<exists>c. fs_contents f (dh_path dh) = Some c"
  by (auto simp: open_output_def fs_contents_def)

lemma io_write_file:
  assumes "we_fputs env" "we_newline env" "file_ready a path w"
  shows "\<exists>n w'. dragonfly_io_write env (Some a) m w = Returned (n, w') \<and> 0 < n \<and> file_ready a path w' \<and>
    file_view path w' = file_view path w @ bcstr m @ [10]"
proof -
  obtain dh where dh: "iw_heap w a = Some dh" "dh_path dh = path" "open_output dh (iw_fs w)"
    using assms(3) by (auto simp: file_ready_def)
  obtain f where f: "file_write_line True True dh m (iw_fs w) = Returned (1, f)" "open_output dh f"
    "fs_contents f (dh_path dh) = map_option (\<lambda>c. c @ bcstr m @ [10]) (fs_contents (iw_fs w) (dh_path dh))"
    using write_contents [OF dh(3)] by blast
  have "dragonfly_io_write env (Some a) m w = Returned (1, w\<lparr>iw_fs := f\<rparr>)"
    using dh(1) f(1) assms(1,2) open_output_type [OF dh(3)]
    by (simp add: dragonfly_io_write_def handle_at_def io_types)
  then show ?thesis
    using f(2,3) dh open_output_contents [OF dh(3)] by (auto simp: file_ready_def file_view_def)
qed

text \<open>A connected socket; the system takes every datagram whole and no \<open>EIO\<close> is left over.\<close>

definition socket_ready :: "nat \<Rightarrow> string \<Rightarrow> io_world \<Rightarrow> bool" where
  "socket_ready a path w \<longleftrightarrow>
     (\<exists>dh. iw_heap w a = Some dh \<and> dh_path dh = path \<and> dh_io_type dh = DF_CLIENT_IPC_TYPE)"

definition socket_text :: "byte list \<Rightarrow> bool" where
  "socket_text m \<longleftrightarrow> 0 < length (bcstr m) \<and> length (bcstr m) < DF_MAX_BUFFER_LEN"

definition good_write :: write_env where
  "good_write = \<lparr>we_fputs = True, we_newline = True, we_errno = None, we_send = [Transferred DF_MAX_BUFFER_LEN],
     we_ipc = \<lparr>ipc_socket = True, ipc_bind = \<lambda>_. True, ipc_connect = \<lambda>_. True\<rparr>\<rparr>"

lemma ipc_write_good:
  assumes "socket_text m"
  shows "ipc_write_message env dh m None [Transferred DF_MAX_BUFFER_LEN] =
    Returned (int (length (bcstr m)), dh, [bcstr m])"
  using assms take_bstrnlen [of m DF_MAX_BUFFER_LEN]
  by (simp add: ipc_write_message_def socket_text_def bstrnlen_def DF_MAX_BUFFER_LEN_def)

lemma io_write_socket:
  assumes "socket_ready a path w" "socket_text m"
  shows "\<exists>n w'. dragonfly_io_write good_write (Some a) m w = Returned (n, w') \<and> 0 < n \<and>
    socket_ready a path w' \<and> iw_sent w' = iw_sent w @ [(path, bcstr m)]"
  using assms ipc_write_good [OF assms(2)]
  by (auto simp: socket_ready_def dragonfly_io_write_def handle_at_def good_write_def set_handle_def
      socket_text_def io_types)

definition syslog_ready :: "nat \<Rightarrow> int \<Rightarrow> io_world \<Rightarrow> bool" where
  "syslog_ready a facility w \<longleftrightarrow>
     (\<exists>dh. iw_heap w a = Some dh \<and> dh_fd dh = facility \<and> dh_io_type dh = DF_OUT_SYSLOG_TYPE)"

lemma io_write_syslog:
  assumes "syslog_ready a facility w"
  shows "\<exists>n w'. dragonfly_io_write env (Some a) m w = Returned (n, w') \<and> 0 < n \<and>
    syslog_ready a facility w' \<and> iw_syslog w' = iw_syslog w @ [(facility, bcstr m)]"
  using assms by (auto simp: syslog_ready_def dragonfly_io_write_def handle_at_def syslog_write_message_def io_types)

interpretation file_sink: message_sink "dragonfly_io_write good_write (Some a)" "file_ready a path" "\<lambda>_. True"
  "file_view path" "\<lambda>m. bcstr m @ [10]" for a path
  by unfold_locales (rule io_write_file, simp_all add: good_write_def)

interpretation socket_sink: message_sink "dragonfly_io_write good_write (Some a)" "socket_ready a path" socket_text
  iw_sent "\<lambda>m. [(path, bcstr m)]" for a path
  by unfold_locales (rule io_write_socket)

interpretation syslog_sink: message_sink "dragonfly_io_write env (Some a)" "syslog_ready a facility" "\<lambda>_. True"
  iw_syslog "\<lambda>m. [(facility, bcstr m)]" for env a facility
  by unfold_locales (rule io_write_syslog)

section \<open>What goes through the interface\<close>

text \<open>
  Every message written to an open socket is sent as one datagram to its peer, whole and in
  the order of the writes, as long as the texts fit the limit and the system takes them.
\<close>

theorem socket_sends_all:
  assumes "iw_heap w a = Some dh" "dh_io_type dh = DF_CLIENT_IPC_TYPE"
    "\<forall>m \<in> set ms. 0 < length (bcstr m) \<and> length (bcstr m) < DF_MAX_BUFFER_LEN"
  shows "\<exists>w'. put_all (dragonfly_io_write good_write (Some a)) ms w = Returned w' \<and>
    iw_sent w' = iw_sent w @ map (\<lambda>m. (dh_path dh, bcstr m)) ms"
proof -
  have "socket_ready a (dh_path dh) w" using assms(1,2) by (auto simp: socket_ready_def)
  moreover have "\<forall>m \<in> set ms. socket_text m" using assms(3) by (simp add: socket_text_def)
  moreover have "concat (map (\<lambda>m. [(dh_path dh, bcstr m)]) ms) = map (\<lambda>m. (dh_path dh, bcstr m)) ms"
    by (induction ms) simp_all
  ultimately show ?thesis using socket_sink.put_all_view [of a "dh_path dh" w ms] by auto
qed

definition sample_client :: df_handle where
  "sample_client = handle_zero\<lparr>dh_fd := 3, dh_io_type := DF_CLIENT_IPC_TYPE, dh_path := ''/s''\<rparr>"

theorem socket_sends_all_witness:
  "\<exists>w'. put_all (dragonfly_io_write good_write (Some 7)) [[65], [66, 0]]
      (sample_world\<lparr>iw_heap := (\<lambda>_. None)(7 := Some sample_client)\<rparr>) = Returned w' \<and>
    iw_sent w' = [(''/s'', [65]), (''/s'', [66])]"
  using socket_sends_all [of "sample_world\<lparr>iw_heap := (\<lambda>_. None)(7 := Some sample_client)\<rparr>" 7 sample_client
    "[[65], [66, 0]]"]
  by (simp add: sample_client_def sample_world_def bcstr_def DF_MAX_BUFFER_LEN_def)

text \<open>Reading from a handle until a call returns no byte.\<close>

fun io_read_all :: "nat \<Rightarrow> read_env \<Rightarrow> nat option \<Rightarrow> nat \<Rightarrow> io_world \<Rightarrow> byte list list proc" where
  "io_read_all 0 env p mx w = Returned []"
| "io_read_all (Suc n) env p mx w =
     proc_bind (dragonfly_io_read env p mx w) (\<lambda>(r, buf, evs, w').
       if r \<le> 0 then Returned [] else proc_map (Cons (take (nat r) buf)) (io_read_all n env p mx w'))"

lemma io_read_all_lines:
  assumes "iw_heap w a = Some dh" "dh_io_type dh = DF_IN_FILE_TYPE" "dh_fp dh = Some fp"
    "drop (fst_pos fp) (fs_data (iw_fs w) (fst_inode fp)) = concat (map (\<lambda>l. l @ [10]) ls)"
    "\<forall>l \<in> set ls. text_line mx l" "length ls < n"
  shows "io_read_all n env (Some a) mx w = Returned (map (\<lambda>l. l @ [0]) ls)"
  using assms
proof (induction ls arbitrary: n w dh fp)
  case Nil
  have "file_read_line dh mx (iw_fs w) = Returned (0, [], dh)"
    using Nil.prems(3,4) by (simp add: file_read_line_def fgets_bytes_def)
  then have "dragonfly_io_read env (Some a) mx w = Returned (0, [], re_tail env, set_handle (Some a) dh w)"
    using Nil.prems(1,2) by (simp add: dragonfly_io_read_def handle_at_def io_types)
  then show ?case using Nil.prems(6) by (cases n) auto
next
  case (Cons l ls)
  obtain n' where n: "n = Suc n'" using Cons.prems(6) by (cases n) auto
  let ?dh = "dh\<lparr>dh_fp := Some (fp\<lparr>fst_pos := fst_pos fp + length l + 1\<rparr>)\<rparr>"
  have "file_read_line dh mx (iw_fs w) = Returned (int (length l) + 1, l @ [0, 0], ?dh)"
    by (rule read_one_line [where rest = "concat (map (\<lambda>l. l @ [10]) ls)"]) (use Cons.prems in auto)
  then have r: "dragonfly_io_read env (Some a) mx w =
      Returned (int (length l) + 1, l @ [0, 0], re_tail env, set_handle (Some a) ?dh w)"
    using Cons.prems(1,2) by (simp add: dragonfly_io_read_def handle_at_def io_types)
  have "drop (fst_pos fp + length l + 1) (fs_data (iw_fs w) (fst_inode fp)) =
      drop (length l + 1) (drop (fst_pos fp) (fs_data (iw_fs w) (fst_inode fp)))"
    by (simp add: add.commute add.left_commute)
  also have "\<dots> = concat (map (\<lambda>l. l @ [10]) ls)" unfolding Cons.prems(4) by simp
  finally have "io_read_all n' env (Some a) mx (set_handle (Some a) ?dh w) = Returned (map (\<lambda>l. l @ [0]) ls)"
    using Cons.prems(2,5,6) n by (intro Cons.IH [of _ ?dh]) (auto simp: set_handle_def)
  then show ?case unfolding n by (simp add: r nat_add_distrib)
qed

text \<open>A path that \<open>file://\<close> takes as it is, in both directions.\<close>

definition plain_path :: "string \<Rightarrow> bool" where
  "plain_path p \<longleftrightarrow> is_absolute p \<and> NUL \<notin> set p \<and> length p < PATH_MAX \<and>
     last p \<noteq> CHR ''<'' \<and> last p \<noteq> CHR ''>''"

lemma file_uri:
  assumes "NUL \<notin> set p"
  shows "uri_prefix ''file://'' (''file://'' @ p)" "drop 7 (cstr (''file://'' @ p)) = p"
proof -
  have "cstr (''file://'' @ p) = ''file://'' @ p" "cstr ''file://'' = ''file://''"
    using assms by (simp_all add: cstr_no_NUL NUL_def)
  then show "uri_prefix ''file://'' (''file://'' @ p)" "drop 7 (cstr (''file://'' @ p)) = p"
    by (simp_all add: uri_prefix_def strncmp_eq_def)
qed

lemma io_open_file_out:
  assumes "plain_path p" "fs_ok (iw_fs w)" "fs_writable (iw_fs w) p"
  shows "\<exists>a w'. dragonfly_io_open env (''file://'' @ p) DF_OUT w = Returned (Some a, w') \<and> file_ready a p w' \<and>
    file_view p w' = file_view p w"
proof -
  obtain q where q: "p = CHR ''/'' # q" using assms(1) by (cases p) (auto simp: plain_path_def)
  obtain dh f where f: "file_open (iw_dirs w) p DF_OUT (iw_fs w) = Returned (Some dh, f)" "open_output dh f"
    "dh_path dh = p" "fs_contents f p = Some (case fs_contents (iw_fs w) p of None \<Rightarrow> [] | Some c \<Rightarrow> c)"
    using file_open_output [OF assms(2) q _ _ _ _ assms(3), of "iw_dirs w"] assms(1) by (auto simp: plain_path_def)
  then show ?thesis
    using file_uri assms(1)
    by (auto simp: dragonfly_io_open_def Let_def alloc_handle_def file_ready_def file_view_def plain_path_def)
qed


lemma bcstr_no_zero: "0 \<notin> set l \<Longrightarrow> bcstr l = l"
  by (induction l) (auto simp: bcstr_def)

text \<open>What can be read stays so: opening, writing and closing change no permission.\<close>

lemma io_open_readable:
  assumes "dragonfly_io_open env (''file://'' @ p) DF_OUT w = Returned (r, w')" "NUL \<notin> set p"
  shows "fs_readable (iw_fs w') = fs_readable (iw_fs w)"
proof -
  obtain h f where f: "file_open (iw_dirs w) p DF_OUT (iw_fs w) = Returned (h, f)"
      "alloc_handle h (w\<lparr>iw_fs := f\<rparr>) = (r, w')"
    using assms(1) file_uri [OF assms(2)]
    by (auto simp: dragonfly_io_open_def Let_def proc_map_Returned split: prod.splits)
  have "fs_readable f = fs_readable (iw_fs w)"
    using f(1) by (auto simp: file_open_def proc_bind_Returned fopen_write_def case_prod_beta Let_def
      split: option.splits if_splits)
  then show ?thesis using f(2) by (auto simp: alloc_handle_def split: option.splits)
qed

lemma set_handle_fs [simp]: "iw_fs (set_handle p dh w) = iw_fs w"
  by (simp add: set_handle_def split: option.split)

lemma file_write_readable: "file_write_line ok nl dh m f = Returned (n, f') \<Longrightarrow> fs_readable f' = fs_readable f"
  by (cases "dh_fp dh") (auto simp: file_write_line_def fs_append_def Let_def split: if_splits)

lemma io_write_readable:
  assumes "dragonfly_io_write env p m w = Returned (n, w')"
  shows "fs_readable (iw_fs w') = fs_readable (iw_fs w)"
proof -
  obtain h where h: "handle_at w p = Returned h"
    using assms by (auto simp: dragonfly_io_write_def proc_bind_Returned)
  show ?thesis
  proof (cases h)
    case (Some dh)
    then show ?thesis using assms h file_write_readable
      by (auto simp: dragonfly_io_write_def proc_map_Returned case_prod_beta Let_def split: if_splits)
  qed (use assms h in \<open>simp add: dragonfly_io_write_def\<close>)
qed

lemma put_all_readable:
  "put_all (dragonfly_io_write env p) ms w = Returned w' \<Longrightarrow> fs_readable (iw_fs w') = fs_readable (iw_fs w)"
  by (induction ms arbitrary: w) (auto simp: proc_bind_Returned io_write_readable)

lemma io_open_file_in:
  assumes "plain_path p" "fs_dir (iw_fs w) p = Some i" "fs_readable (iw_fs w) p"
  shows "\<exists>b w' dh. dragonfly_io_open env (''file://'' @ p) DF_IN w = Returned (Some b, w') \<and>
    iw_heap w' b = Some dh \<and> dh_io_type dh = DF_IN_FILE_TYPE \<and>
    dh_fp dh = Some \<lparr>fst_inode = i, fst_pos = 0\<rparr> \<and> iw_fs w' = iw_fs w"
proof -
  have n: "NUL \<notin> set p" and "absolute_path dir p = Returned p" for dir
    using assms(1) by (simp_all add: plain_path_def absolute_path_def strlen_def strncpy_def cstr_no_NUL)
  then show ?thesis
    using assms(2,3) file_uri [OF n]
    by (simp add: dragonfly_io_open_def Let_def file_open_def fopen_read_def alloc_handle_def)
qed

text \<open>
  C11. Lines of text written to a new file through the interface are read back through it, every
  line once and in order, each with a NUL in the place of its newline.
\<close>

theorem io_file_roundtrip:
  assumes "plain_path p" "fs_ok (iw_fs w)" "fs_writable (iw_fs w) p" "fs_readable (iw_fs w) p"
    "fs_dir (iw_fs w) p = None" "\<forall>l \<in> set ls. text_line mx l" "length ls < n"
  shows "\<exists>a w1 w2 b w3.
    dragonfly_io_open env (''file://'' @ p) DF_OUT w = Returned (Some a, w1) \<and>
    put_all (dragonfly_io_write good_write (Some a)) ls w1 = Returned w2 \<and>
    dragonfly_io_open env (''file://'' @ p) DF_IN w2 = Returned (Some b, w3) \<and>
    io_read_all n renv (Some b) mx w3 = Returned (map (\<lambda>l. l @ [0]) ls)"
proof -
  have n: "NUL \<notin> set p" using assms(1) by (simp add: plain_path_def)
  obtain a w1 where w1: "dragonfly_io_open env (''file://'' @ p) DF_OUT w = Returned (Some a, w1)"
      "file_ready a p w1" "file_view p w1 = file_view p w"
    using io_open_file_out [OF assms(1-3)] by blast
  obtain w2 where w2: "put_all (dragonfly_io_write good_write (Some a)) ls w1 = Returned w2" "file_ready a p w2"
      "file_view p w2 = file_view p w1 @ concat (map (\<lambda>m. bcstr m @ [10]) ls)"
    using file_sink.put_all_view [OF w1(2), of ls] by auto
  have r: "fs_readable (iw_fs w2) p"
    using put_all_readable [OF w2(1)] io_open_readable [OF w1(1) n] assms(4) by simp
  obtain i where i: "fs_dir (iw_fs w2) p = Some i" using w2(2) by (auto simp: file_ready_def open_output_def)
  obtain b w3 dh where w3: "dragonfly_io_open env (''file://'' @ p) DF_IN w2 = Returned (Some b, w3)"
      "iw_heap w3 b = Some dh" "dh_io_type dh = DF_IN_FILE_TYPE" "dh_fp dh = Some \<lparr>fst_inode = i, fst_pos = 0\<rparr>"
      "iw_fs w3 = iw_fs w2"
    using io_open_file_in [OF assms(1) i r] by blast
  have "concat (map (\<lambda>m. bcstr m @ [10]) ls) = concat (map (\<lambda>l. l @ [10]) ls)"
    using assms(6) bcstr_no_zero by (intro arg_cong [of _ _ concat] map_cong) (auto simp: text_line_def)
  moreover have "file_view p w = []" using assms(5) by (simp add: file_view_def fs_contents_def)
  moreover have "fs_data (iw_fs w2) i = file_view p w2" using i by (simp add: file_view_def fs_contents_def)
  ultimately have "fs_data (iw_fs w3) i = concat (map (\<lambda>l. l @ [10]) ls)" using w1(3) w2(3) w3(5) by simp
  then have "io_read_all n renv (Some b) mx w3 = Returned (map (\<lambda>l. l @ [0]) ls)"
    using io_read_all_lines [OF w3(2-4) _ assms(6,7)] by simp
  then show ?thesis using w1(1) w2(1) w3(1) by blast
qed


definition quiet_read :: read_env where
  "quiet_read = \<lparr>re_msg = Inl EINTR, re_time = 0, re_tail = [], re_gz = GzEof\<rparr>"

theorem io_file_roundtrip_witness:
  "\<exists>a w1 w2 b w3.
    dragonfly_io_open good_open ''file:///n'' DF_OUT sample_world = Returned (Some a, w1) \<and>
    put_all (dragonfly_io_write good_write (Some a)) [[65, 66], [], [67]] w1 = Returned w2 \<and>
    dragonfly_io_open good_open ''file:///n'' DF_IN w2 = Returned (Some b, w3) \<and>
    io_read_all 4 quiet_read (Some b) 8 w3 = Returned [[65, 66, 0], [0], [67, 0]]"
  using io_file_roundtrip [of "''/n''" sample_world "[[65, 66], [], [67]]" 8 4 good_open quiet_read]
  by (simp add: plain_path_def sample_world_def sample_fs_def fs_ok_def text_line_def PATH_MAX_def NUL_def)

section \<open>Closing and rotating\<close>

text \<open>The kinds whose close function returns before the handle is freed.\<close>

definition close_keeps :: "nat \<Rightarrow> bool" where
  "close_keeps k \<longleftrightarrow> k = DF_IN_ZFILE_TYPE \<or> k = DF_IN_KAFKA_TYPE \<or> k = DF_IPFIX"

text \<open>
  Closing frees the handle it is given and no other, and nothing that was written is lost;
  only compressed input, which is never freed, is still there afterwards.
\<close>

theorem close_frees:
  assumes "iw_heap w a = Some dh"
  shows "\<exists>w'. dragonfly_io_close (Some a) w = Returned w' \<and>
    (iw_heap w' a = None \<longleftrightarrow> \<not> close_keeps (dh_io_type dh)) \<and>
    (\<forall>b. b \<noteq> a \<longrightarrow> iw_heap w' b = iw_heap w b) \<and> iw_fs w' = iw_fs w \<and> iw_sent w' = iw_sent w"
  using assms by (auto simp: dragonfly_io_close_def handle_at_def close_keeps_def set_handle_def)

theorem close_frees_witness:
  "\<exists>w'. dragonfly_io_close (Some 7) (sample_world\<lparr>iw_heap := (\<lambda>_. None)(7 := Some sample_client)\<rparr>) = Returned w' \<and>
    iw_heap w' 7 = None"
  using close_frees [of "sample_world\<lparr>iw_heap := (\<lambda>_. None)(7 := Some sample_client)\<rparr>" 7 sample_client]
  by (auto simp: sample_client_def close_keeps_def io_types)

text \<open>A handle that was closed must not be asked for its kind, as the flywheel threads do.\<close>

lemma isfile_after_close:
  assumes "iw_heap w a = Some dh" "\<not> close_keeps (dh_io_type dh)"
  shows "proc_bind (dragonfly_io_close (Some a) w) (dragonfly_io_isfile (Some a)) =
    Undefined ''use of a freed handle''"
  using assms by (auto simp: dragonfly_io_close_def handle_at_def close_keeps_def dragonfly_io_isfile_def)

text \<open>Nothing can be written to a compressed file through the interface.\<close>

lemma zfile_write_refused:
  assumes "iw_heap w a = Some dh" "dh_io_type dh = DF_OUT_ZFILE_TYPE"
  shows "dragonfly_io_write env (Some a) m w = Returned (-1, w)"
  using assms by (simp add: dragonfly_io_write_def handle_at_def io_types)

lemma rotate_only_output_files:
  assumes "iw_heap w a = Some dh" "dh_io_type dh \<noteq> DF_OUT_FILE_TYPE"
  shows "dragonfly_io_rotate t ok (Some a) w = Returned w"
  using assms by (simp add: dragonfly_io_rotate_def handle_at_def)

end
