(* ===== verification/Responder.thy ===== *)
theory Responder
  imports LuaValue Posix
begin

text \<open>
  \<open>responder.c\<close> and \<open>resp/resp-suricata.c\<close>: the table of responders and the command socket of
  Suricata. The socket keeps, beside what the program knows of it, whether it is connected and
  what was sent through it.
\<close>

section \<open>The Suricata command socket\<close>

definition VERSION_MSG :: string where
  "VERSION_MSG = ''{ \"version\": \"0.1\" }''"

definition SUN_PATH_MAX :: nat where "SUN_PATH_MAX = 108"

record suricata =
  g_command_socket :: int
  g_command_path :: "string option"
  sk_connected :: bool
  sk_sent :: "byte list list"

definition suricata_zero :: suricata where
  "suricata_zero = \<lparr>g_command_socket = -1, g_command_path = None, sk_connected = False, sk_sent = []\<rparr>"

text \<open>
  The answers of \<open>socket\<close>, \<open>connect\<close> (by path), \<open>send\<close> and \<open>read\<close> while the connection is set up.
  A stream socket that is connected cannot be connected again (\<open>EISCONN\<close>).
\<close>

record suri_env =
  se_socket :: int
  se_listens :: "string \<Rightarrow> bool"
  se_send :: bool
  se_read :: bool

definition suricata_initialize :: "suri_env \<Rightarrow> string option \<Rightarrow> suricata \<Rightarrow> int \<times> suricata" where
  "suricata_initialize env command_path st =
     (case command_path of
        None \<Rightarrow> (-1, st)
      | Some path \<Rightarrow>
          let st = (if g_command_socket st < 0 then st\<lparr>g_command_socket := se_socket env\<rparr> else st) in
          if g_command_socket st < 0 then (-1, st)
          else if sk_connected st \<or> \<not> se_listens env (strncpy path SUN_PATH_MAX) then (-1, st)
          else
            let st = st\<lparr>sk_connected := True\<rparr> in
            if \<not> se_send env then (-1, st)
            else
              let st = st\<lparr>sk_sent := sk_sent st @ [bytes_of VERSION_MSG]\<rparr> in
              if \<not> se_read env then (-1, st)
              else (0, if g_command_path st = None then st\<lparr>g_command_path := Some (strdup path)\<rparr> else st))"

definition suricata_reconnect :: "suri_env \<Rightarrow> suricata \<Rightarrow> int \<times> suricata" where
  "suricata_reconnect env st = suricata_initialize env (g_command_path st) st"

text \<open>The number \<open>ECONNRESET\<close> of Linux; the loop compares the result of \<open>send\<close> with it.\<close>

definition ECONNRESET_NO :: int where "ECONNRESET_NO = 104"

text \<open>The results of the calls of \<open>send\<close>; what is sent is the first \<open>s\<close> bytes of the command.\<close>

fun suricata_send_loop :: "suri_env \<Rightarrow> byte list \<Rightarrow> int list \<Rightarrow> suricata \<Rightarrow> (int \<times> suricata) proc" where
  "suricata_send_loop env cmd [] st = Blocked"
| "suricata_send_loop env cmd (s # ss) st =
     (if s < 0 then
        (if s = ECONNRESET_NO then suricata_send_loop env cmd ss (snd (suricata_reconnect env st))
         else Returned (-1, st))
      else Returned (s, st\<lparr>sk_sent := sk_sent st @ [take (nat s) cmd]\<rparr>))"

text \<open>
  The response is the buffer of \<open>max_response\<close> bytes, cleared before the answer is read into it;
  it is untouched if the command cannot be sent.
\<close>

definition suricata_command :: "suri_env \<Rightarrow> int list \<Rightarrow> errno + byte list \<Rightarrow> byte list \<Rightarrow> nat \<Rightarrow> suricata
    \<Rightarrow> (int \<times> byte list option \<times> suricata) proc" where
  "suricata_command env sends answer command max_response st =
     proc_bind (suricata_send_loop env (take 4096 (bcstr command)) sends st) (\<lambda>(s, st).
       if s < 0 then Returned (-1, None, st)
       else
         (case answer of
            Inl e \<Rightarrow> Returned (-1, Some (replicate max_response 0), st)
          | Inr d \<Rightarrow>
              let got = take (max_response - 1) d in
              Returned (0, Some (got @ replicate (max_response - length got) 0), st)))"

section \<open>The table of responders\<close>

text \<open>The functions a responder points to: both are set, or neither.\<close>

datatype responder_functions = NullFunctions | SuricataFunctions

record responder =
  rp_tag :: "string option"
  rp_functions :: responder_functions

definition MAX_RESPONDERS :: nat where "MAX_RESPONDERS = 2"

definition responder_initialize :: "responder list" where
  "responder_initialize =
     (replicate MAX_RESPONDERS \<lparr>rp_tag = None, rp_functions = NullFunctions\<rparr>)
       [0 := \<lparr>rp_tag = Some ''suricata'', rp_functions = SuricataFunctions\<rparr>]"

fun find_responder :: "string \<Rightarrow> responder list \<Rightarrow> responder_functions option" where
  "find_responder tag [] = None"
| "find_responder tag (r # rs) =
     (case rp_tag r of
        Some t \<Rightarrow> if strcasecmp_eq tag t then Some (rp_functions r) else find_responder tag rs
      | None \<Rightarrow> find_responder tag rs)"

definition responder_setup :: "suri_env \<Rightarrow> responder list \<Rightarrow> string \<Rightarrow> string \<Rightarrow> suricata
    \<Rightarrow> (int \<times> suricata) proc" where
  "responder_setup env rs tag parameter st =
     (case find_responder tag rs of
        Some SuricataFunctions \<Rightarrow> Returned (suricata_initialize env (Some parameter) st)
      | Some NullFunctions \<Rightarrow> Undefined ''call of a null pointer''
      | None \<Rightarrow> Returned (-1, st))"

definition responder_event :: "suri_env \<Rightarrow> int list \<Rightarrow> errno + byte list \<Rightarrow> responder list \<Rightarrow> string
    \<Rightarrow> byte list \<Rightarrow> nat \<Rightarrow> suricata \<Rightarrow> (int \<times> byte list option \<times> suricata) proc" where
  "responder_event env sends answer rs tag command max_response st =
     (case find_responder tag rs of
        Some SuricataFunctions \<Rightarrow> suricata_command env sends answer command max_response st
      | Some NullFunctions \<Rightarrow> Undefined ''call of a null pointer''
      | None \<Rightarrow> Returned (-1, None, st))"

section \<open>Properties\<close>

lemma find_suricata:
  "find_responder tag responder_initialize = (if strcasecmp_eq tag ''suricata'' then Some SuricataFunctions else None)"
  by (simp add: responder_initialize_def MAX_RESPONDERS_def numeral_2_eq_2)

lemma suricata_initialize_ok:
  assumes "suricata_initialize env (Some path) st = (0, st')" "g_command_path st = None"
  shows "0 \<le> g_command_socket st' \<and> sk_connected st' \<and> g_command_path st' = Some (strdup path) \<and>
    sk_sent st' = sk_sent st @ [bytes_of VERSION_MSG]"
  using assms by (auto simp: suricata_initialize_def Let_def split: if_splits)

text \<open>The result of \<open>send\<close> is never positive and negative: no failed command is sent again.\<close>

lemma send_loop_once: "suricata_send_loop env cmd (s # ss) st =
    Returned (if s < 0 then (-1, st) else (s, st\<lparr>sk_sent := sk_sent st @ [take (nat s) cmd]\<rparr>))"
  by (simp add: ECONNRESET_NO_def)

text \<open>
  C39. Once the Suricata responder is set up, a command for it is sent to Suricata after the
  version message, up to its NUL, and the response buffer holds the answer, cut to the buffer
  and NUL-terminated; a command for another tag is refused and sends nothing.
\<close>

theorem responder_answers:
  assumes "responder_setup env responder_initialize ''suricata'' path suricata_zero = Returned (0, st)"
    "length (bcstr command) \<le> 4096" "0 < mx"
  shows "responder_event env [int (length (bcstr command))] (Inr d) responder_initialize tag command mx st =
    (if strcasecmp_eq tag ''suricata''
     then Returned (0, Some (take (mx - 1) d @ replicate (mx - length (take (mx - 1) d)) 0),
       st\<lparr>sk_sent := [bytes_of VERSION_MSG, bcstr command]\<rparr>)
     else Returned (-1, None, st))"
proof -
  have "suricata_initialize env (Some path) suricata_zero = (0, st)"
    using assms(1) by (simp add: responder_setup_def find_suricata)
  then have "sk_sent st = [bytes_of VERSION_MSG]"
    using suricata_initialize_ok by (fastforce simp: suricata_zero_def)
  then show ?thesis using assms(2)
    by (simp add: responder_event_def find_suricata suricata_command_def send_loop_once
        del: suricata_send_loop.simps)
qed

definition sample_suri_env :: suri_env where
  "sample_suri_env = \<lparr>se_socket = 5, se_listens = \<lambda>_. True, se_send = True, se_read = True\<rparr>"

theorem responder_answers_witness:
  "\<exists>st. responder_setup sample_suri_env responder_initialize ''suricata'' ''/s'' suricata_zero = Returned (0, st) \<and>
    responder_event sample_suri_env [2] (Inr [79, 75]) responder_initialize ''suricata'' [65, 66] 4 st =
      Returned (0, Some [79, 75, 0, 0], st\<lparr>sk_sent := [bytes_of VERSION_MSG, [65, 66]]\<rparr>)"
proof -
  obtain st where st: "responder_setup sample_suri_env responder_initialize ''suricata'' ''/s'' suricata_zero =
      Returned (0, st)"
    by (simp add: responder_setup_def find_suricata suricata_initialize_def sample_suri_env_def suricata_zero_def)
  have b: "bcstr [65, 66] = [65, 66]" "replicate 2 (0 :: byte) = [0, 0]"
    by (simp add: bcstr_def) (simp add: numeral_2_eq_2)
  show ?thesis
    using responder_answers [OF st, of "[65, 66]" 4 "[79, 75]" "''suricata''"] st
    by (simp add: b del: suricata_send_loop.simps)
qed

text \<open>
  The socket is shared by all analyzer threads, and each of them sets the responders up: the
  second one finds the socket connected, fails, and ends the process.
\<close>

lemma second_setup_fails:
  assumes "responder_setup env rs tag p st = Returned (0, st1)"
  shows "responder_setup env rs tag p st1 = Returned (-1, st1)"
proof -
  have "find_responder tag rs = Some SuricataFunctions \<and> suricata_initialize env (Some p) st = (0, st1)"
    using assms by (auto simp: responder_setup_def split: option.splits responder_functions.splits)
  then show ?thesis
    by (auto simp: responder_setup_def suricata_initialize_def Let_def split: if_splits)
qed

text \<open>A command is never sent again after a reset connection, although the code means to.\<close>

lemma reset_not_retried: "suricata_command env (-1 # ss) answer command mx st = Returned (-1, None, st)"
  by (simp add: suricata_command_def send_loop_once del: suricata_send_loop.simps)

end
