(* ===== verification/Commands.thy ===== *)
theory Commands
  imports LuaValue IoHandle
begin

text \<open>
  \<open>dragonfly-cmds.c\<close>: the commands Lua scripts call. A function gets the stack with its
  arguments and either raises an error with a text or returns a list of values. How Lua formats
  a number, what curl downloads, how names resolve, how an IPv6 address is printed and what
  \<open>mktime\<close> makes of a broken-down time are arguments.
\<close>

type_synonym lua_result = "string + lua_val list"

definition luaL_checkstring :: "(u64 \<Rightarrow> byte list) \<Rightarrow> lua_stack \<Rightarrow> nat \<Rightarrow> string + byte list" where
  "luaL_checkstring num2str L i =
     (case lua_tolstring num2str (lua_at L i) of
        None \<Rightarrow> Inl ''string expected'' | Some s \<Rightarrow> Inr s)"

text \<open>
  \<open>luaL_error\<close> takes a format: \<open>%%\<close> gives a percent sign, the directives need an argument, and a
  percent sign at the end is read over.
\<close>

fun lua_format :: "string \<Rightarrow> string proc" where
  "lua_format [] = Returned []"
| "lua_format [c] = (if c = CHR ''%'' then Undefined ''read past the format'' else Returned [c])"
| "lua_format (c # d # s) =
     (if c = CHR ''%'' then
        (if d = CHR ''%'' then proc_map (Cons d) (lua_format s)
         else if d \<in> set ''scdfp'' then Undefined ''missing argument''
         else proc_map (\<lambda>t. c # d # t) (lua_format s))
      else proc_map (Cons c) (lua_format (d # s)))"

section \<open>Echo\<close>

text \<open>The result, and the line written to the standard error.\<close>

definition dragonfly_echo :: "(u64 \<Rightarrow> byte list) \<Rightarrow> lua_stack \<Rightarrow> lua_result \<times> byte list" where
  "dragonfly_echo num2str L =
     (if lua_gettop L \<noteq> 1 then (Inl ''expecting exactly 1 arguments'', [])
      else
        case luaL_checkstring num2str L 1 of
          Inl e \<Rightarrow> (Inl e, [])
        | Inr msg \<Rightarrow> (Inr [], bcstr msg @ [10]))"

section \<open>Downloads\<close>

text \<open>Whether curl can be used, the chunks it hands over for a URL, and whether it succeeds.\<close>

record curl_env =
  cu_init :: bool
  cu_chunks :: "byte list \<Rightarrow> byte list list"
  cu_ok :: "byte list \<Rightarrow> bool"

definition http_write_data :: "nat \<Rightarrow> fs \<Rightarrow> byte list \<Rightarrow> fs" where
  "http_write_data inode w chunk = fs_append w inode chunk"

definition http_get :: "curl_env \<Rightarrow> byte list \<Rightarrow> string \<Rightarrow> fs \<Rightarrow> int \<times> fs" where
  "http_get env url filename w =
     (if cu_init env then
        (case fopen_write w filename True of
           (Some pagefile, w) \<Rightarrow>
             (if cu_ok env url then 0 else -1, foldl (http_write_data (fst_inode pagefile)) w (cu_chunks env url))
         | (None, w) \<Rightarrow> (0, w))
      else (0, w))"

definition dragonfly_http_get :: "(u64 \<Rightarrow> byte list) \<Rightarrow> curl_env \<Rightarrow> lua_stack \<Rightarrow> fs \<Rightarrow> lua_result \<times> fs" where
  "dragonfly_http_get num2str env L w =
     (if lua_gettop L \<noteq> 2 then (Inl ''expecting exactly 2 arguments'', w)
      else
        case luaL_checkstring num2str L 1 of
          Inl e \<Rightarrow> (Inl e, w)
        | Inr url \<Rightarrow>
            (case luaL_checkstring num2str L 2 of
               Inl e \<Rightarrow> (Inl e, w)
             | Inr filename \<Rightarrow>
                 (case http_get env (bcstr url) (chars_of (bcstr filename)) w of
                    (status, w) \<Rightarrow>
                      if status < 0 then (Inl ''dragonfly_http_get: failed'', w) else (Inr [], w))))"

section \<open>Dates\<close>

text \<open>
  \<open>strptime\<close>: a number has at least one and at most \<open>n\<close> digits, after white space; no further
  digit is read once it would lead past the upper bound.
\<close>

fun read_digits :: "nat \<Rightarrow> nat \<Rightarrow> nat \<Rightarrow> string \<Rightarrow> nat \<times> string" where
  "read_digits 0 to v s = (v, s)"
| "read_digits (Suc n) to v [] = (v, [])"
| "read_digits (Suc n) to v (c # s) =
     (if is_digit c \<and> v * 10 \<le> to then read_digits n to (v * 10 + (of_char c - 48)) s else (v, c # s))"

definition get_number :: "nat \<Rightarrow> nat \<Rightarrow> nat \<Rightarrow> string \<Rightarrow> (nat \<times> string) option" where
  "get_number lo hi n s =
     (let s = dropWhile is_space s in
      if s = [] \<or> \<not> is_digit (hd s) then None
      else case read_digits n hi 0 s of (v, r) \<Rightarrow> if lo \<le> v \<and> v \<le> hi then Some (v, r) else None)"

definition get_literal :: "char \<Rightarrow> string \<Rightarrow> string option" where
  "get_literal c s = (if s \<noteq> [] \<and> hd s = c then Some (tl s) else None)"

text \<open>The format \<open>%FT%T\<close>; the numbers of month and year are those that are printed.\<close>

definition strptime_FT :: "string \<Rightarrow> tm option" where
  "strptime_FT s =
     Option.bind (get_number 0 9999 4 s) (\<lambda>(y, s).
     Option.bind (get_literal CHR ''-'' s) (\<lambda>s.
     Option.bind (get_number 1 12 2 s) (\<lambda>(mo, s).
     Option.bind (get_literal CHR ''-'' s) (\<lambda>s.
     Option.bind (get_number 1 31 2 s) (\<lambda>(d, s).
     Option.bind (get_literal CHR ''T'' s) (\<lambda>s.
     Option.bind (get_number 0 23 2 s) (\<lambda>(h, s).
     Option.bind (get_literal CHR '':'' s) (\<lambda>s.
     Option.bind (get_number 0 59 2 s) (\<lambda>(mi, s).
     Option.bind (get_literal CHR '':'' s) (\<lambda>s.
     Option.bind (get_number 0 61 2 s) (\<lambda>(sec, s).
     Some \<lparr>tm_year = y, tm_mon = mo, tm_mday = d, tm_hour = h, tm_min = mi, tm_sec = sec\<rparr>)))))))))))"

text \<open>
  The result of \<open>strptime\<close> is not looked at: if it stops early, \<open>mktime\<close> works on fields that were
  never set. It never sets \<open>tm_isdst\<close>, so \<open>mktime\<close> gets what is on the stack, \<open>garbage\<close>.
\<close>

definition dragonfly_date2epoch :: "(u64 \<Rightarrow> byte list) \<Rightarrow> (tm \<Rightarrow> int \<Rightarrow> int) \<Rightarrow> int \<Rightarrow> lua_stack
    \<Rightarrow> lua_result proc" where
  "dragonfly_date2epoch num2str mktime garbage L =
     (if lua_gettop L \<noteq> 1 then Returned (Inl ''expecting exactly 1 argument'')
      else
        case luaL_checkstring num2str L 1 of
          Inl e \<Rightarrow> Returned (Inl e)
        | Inr timestamp \<Rightarrow>
            (case strptime_FT (chars_of (bcstr timestamp)) of
               None \<Rightarrow> Undefined ''field of the time not set''
             | Some t \<Rightarrow> Returned (Inr [LNumber (i2d (mktime t garbage))])))"

section \<open>Names\<close>

datatype sock_addr = Inet "byte list" | Inet6 "byte list"

fun join_dots :: "string list \<Rightarrow> string" where
  "join_dots [] = []"
| "join_dots [s] = s"
| "join_dots (s # t # ss) = s @ ''.'' @ join_dots (t # ss)"

definition inet_ntop4 :: "byte list \<Rightarrow> string" where
  "inet_ntop4 a = join_dots (map (\<lambda>b. show_nat (unat b)) a)"

definition addr_text :: "(byte list \<Rightarrow> string) \<Rightarrow> sock_addr \<Rightarrow> string" where
  "addr_text ntop6 a = (case a of Inet b \<Rightarrow> inet_ntop4 b | Inet6 b \<Rightarrow> ntop6 b)"

text \<open>The loop over the list \<open>getaddrinfo\<close> returns, with the index \<open>i\<close>.\<close>

fun dnslookup_loop :: "(byte list \<Rightarrow> string) \<Rightarrow> nat \<Rightarrow> sock_addr list \<Rightarrow> lua_table \<Rightarrow> lua_table" where
  "dnslookup_loop ntop6 i [] t = t"
| "dnslookup_loop ntop6 i (a # as) t =
     dnslookup_loop ntop6 (i + 1) as (table_put t (array_index i) (LString (bytes_of (addr_text ntop6 a))))"

definition dnslookup_error :: "string \<Rightarrow> string \<Rightarrow> string" where
  "dnslookup_error hostname gai = snprintf 128 (''getaddrinfo: '' @ hostname @ '' - '' @ gai @ [CHR 0x0A])"

definition dragonfly_dnslookup :: "(u64 \<Rightarrow> byte list) \<Rightarrow> (byte list \<Rightarrow> string) \<Rightarrow> (string \<Rightarrow> string + sock_addr list)
    \<Rightarrow> lua_stack \<Rightarrow> lua_result proc" where
  "dragonfly_dnslookup num2str ntop6 getaddrinfo L =
     (if lua_gettop L \<noteq> 1 then Returned (Inl ''expecting exactly 1 arguments'')
      else
        case luaL_checkstring num2str L 1 of
          Inl e \<Rightarrow> Returned (Inl e)
        | Inr hostname \<Rightarrow>
            (let host = chars_of (bcstr hostname) in
             case getaddrinfo host of
               Inl gai \<Rightarrow> proc_map Inl (lua_format (dnslookup_error host gai))
             | Inr as \<Rightarrow> Returned (Inr [LTable (dnslookup_loop ntop6 1 as [])])))"


section \<open>Properties of dates\<close>

text \<open>The format \<open>%FT%TZ\<close> of the statistics: four digits for the year, two for the rest.\<close>

definition pad2 :: "nat \<Rightarrow> string" where
  "pad2 n = [digit_char (n div 10 mod 10), digit_char (n mod 10)]"

definition strftime_FTZ :: "tm \<Rightarrow> string" where
  "strftime_FTZ t =
     pad2 (tm_year t div 100) @ pad2 (tm_year t mod 100) @ ''-'' @ pad2 (tm_mon t) @ ''-'' @ pad2 (tm_mday t) @
     ''T'' @ pad2 (tm_hour t) @ '':'' @ pad2 (tm_min t) @ '':'' @ pad2 (tm_sec t) @ ''Z''"

definition valid_tm :: "tm \<Rightarrow> bool" where
  "valid_tm t \<longleftrightarrow> tm_year t \<le> 9999 \<and> 1 \<le> tm_mon t \<and> tm_mon t \<le> 12 \<and> 1 \<le> tm_mday t \<and> tm_mday t \<le> 31 \<and>
     tm_hour t \<le> 23 \<and> tm_min t \<le> 59 \<and> tm_sec t \<le> 60"

lemma digit_char_digit: "d < 10 \<Longrightarrow> is_digit (digit_char d)" "d < 10 \<Longrightarrow> \<not> is_space (digit_char d)"
  by (simp_all add: is_digit_def is_space_def of_char_digit_char)

lemma read_digit:
  "d < 10 \<Longrightarrow> v * 10 \<le> hi \<Longrightarrow> read_digits (Suc n) hi v (digit_char d # s) = read_digits n hi (v * 10 + d) s"
  by (simp add: digit_char_digit of_char_digit_char)

lemma get_pad2:
  assumes "n \<le> hi" "lo \<le> n" "n \<le> 99"
  shows "get_number lo hi 2 (pad2 n @ s) = Some (n, s)"
proof -
  have "n div 10 mod 10 = n div 10" using assms(3) by simp
  moreover have "n div 10 * 10 \<le> hi" using assms(1) by linarith
  ultimately show ?thesis
    using assms(1,2) read_digit [of "n div 10" 0 hi "Suc 0"] read_digit [of "n mod 10" "n div 10" hi 0]
    by (simp add: get_number_def pad2_def digit_char_digit numeral_2_eq_2 Let_def del: read_digits.simps(3))
qed

lemma read_four:
  assumes "a < 10" "b < 10" "c < 10" "d < 10"
  shows "read_digits (Suc (Suc (Suc (Suc 0)))) 9999 0 (digit_char a # digit_char b # digit_char c # digit_char d # s) =
    (((a * 10 + b) * 10 + c) * 10 + d, s)"
  using assms by (simp add: read_digit del: read_digits.simps(3))

lemma two_digits: "n \<le> (99 :: nat) \<Longrightarrow> n div 10 mod 10 * 10 + n mod 10 = n"
  by simp

lemma get_year:
  assumes "n \<le> 9999"
  shows "get_number 0 9999 4 (pad2 (n div 100) @ pad2 (n mod 100) @ s) = Some (n, s)"
proof -
  define a b c d where "a = n div 100 div 10 mod 10" and "b = n div 100 mod 10"
    and "c = n mod 100 div 10 mod 10" and "d = n mod 100 mod 10"
  note abcd = this
  have lt: "a < 10" "b < 10" "c < 10" "d < 10" by (simp_all add: abcd)
  have "n div 100 \<le> 99" using div_le_mono [OF assms, of 100] by simp
  then have hi: "a * 10 + b = n div 100" unfolding abcd by (rule two_digits)
  have lo: "c * 10 + d = n mod 100" unfolding abcd by (rule two_digits) (simp add: less_Suc_eq_le [symmetric])
  have "((a * 10 + b) * 10 + c) * 10 + d = (a * 10 + b) * 100 + (c * 10 + d)" by simp
  then have v: "((a * 10 + b) * 10 + c) * 10 + d = n" unfolding hi lo by simp
  have p: "pad2 (n div 100) @ pad2 (n mod 100) @ s = digit_char a # digit_char b # digit_char c # digit_char d # s"
    by (simp only: pad2_def abcd append_Cons append_Nil)
  have four: "4 = Suc (Suc (Suc (Suc 0)))" by simp
  show ?thesis
    using read_four [OF lt, of s, folded four] assms digit_char_digit [OF lt(1)]
    unfolding p get_number_def v by (simp del: read_digits.simps)
qed

lemma get_literal_here [simp]: "get_literal c (c # s) = Some s"
  by (simp add: get_literal_def)

lemma strptime_strftime: "valid_tm t \<Longrightarrow> strptime_FT (strftime_FTZ t) = Some t"
  by (cases t) (simp add: strptime_FT_def strftime_FTZ_def valid_tm_def get_year get_pad2)


lemma strftime_no_NUL: "NUL \<notin> set (strftime_FTZ t)"
proof -
  have "NUL \<noteq> digit_char (n mod 10)" for n
  proof
    assume "NUL = digit_char (n mod 10)"
    then have "(of_char NUL :: nat) = 48 + n mod 10"
      using of_char_digit_char [of "n mod 10"] by (simp only: mod_less_divisor zero_less_numeral)
    then show False by (simp add: NUL_def)
  qed
  then have "NUL \<notin> set (pad2 n)" for n by (simp add: pad2_def del: mod_div_trivial mod_mult_self1)
  then show ?thesis by (auto simp: strftime_FTZ_def NUL_def)
qed

lemma bcstr_bytes_of: "NUL \<notin> set s \<Longrightarrow> bcstr (bytes_of s) = bytes_of s"
proof (induction s)
  case (Cons c s)
  have "(of_char c :: byte) \<noteq> 0"
  proof
    assume "(of_char c :: byte) = 0"
    then have "(of_char c :: nat) = 0" using unat_of_char [of c] by simp
    then have "c = char_of (0 :: nat)" by (metis char_of_char)
    also have "\<dots> = NUL" unfolding NUL_def by code_simp
    finally show False using Cons.prems by simp
  qed
  then show ?case using Cons by (simp add: bcstr_def bytes_of_def)
qed (simp add: bcstr_def bytes_of_def)

text \<open>
  The time stamps that the engine writes into its statistics are read back by \<open>date2epoch\<close>:
  it hands the very same time to \<open>mktime\<close>.
\<close>

theorem date2epoch_reads_stamp:
  assumes "valid_tm t"
  shows "dragonfly_date2epoch num2str mktime g [LString (bytes_of (strftime_FTZ t))] =
    Returned (Inr [LNumber (i2d (mktime t g))])"
  using strptime_strftime [OF assms]
  by (simp add: dragonfly_date2epoch_def lua_gettop_def luaL_checkstring_def lua_tolstring_def lua_at_def
      bcstr_bytes_of strftime_no_NUL)

theorem date2epoch_reads_stamp_witness:
  "dragonfly_date2epoch (\<lambda>_. []) (\<lambda>t _. int (tm_year t)) 0
     [LString (bytes_of (strftime_FTZ \<lparr>tm_year = 2018, tm_mon = 11, tm_mday = 30, tm_hour = 23, tm_min = 59, tm_sec = 8\<rparr>))] =
   Returned (Inr [LNumber (i2d 2018)])"
  using date2epoch_reads_stamp [of "\<lparr>tm_year = 2018, tm_mon = 11, tm_mday = 30, tm_hour = 23, tm_min = 59, tm_sec = 8\<rparr>"
    "\<lambda>_. []" "\<lambda>t _. int (tm_year t)" 0] by (simp add: valid_tm_def)

text \<open>What is not a time stamp is not reported: the time is then made of unset fields.\<close>

lemma date2epoch_unchecked:
  "strptime_FT (chars_of (bcstr s)) = None \<Longrightarrow>
    dragonfly_date2epoch num2str mktime g [LString s] = Undefined ''field of the time not set''"
  by (simp add: dragonfly_date2epoch_def lua_gettop_def luaL_checkstring_def lua_tolstring_def lua_at_def)

section \<open>Properties of name lookup\<close>

lemma rawgeti_put:
  assumes "1 \<le> i" "i < 2 ^ 53" "1 \<le> j" "j < 2 ^ 53"
  shows "lua_rawgeti (table_put t (array_index i) v) j = (if i = j then v else lua_rawgeti t j)"
proof -
  have "self_equal (array_index i)"
    using array_index_eq [of i i] assms(1,2) by (simp add: self_equal_def)
  then show ?thesis using array_index_eq [OF assms] by (simp add: lua_rawgeti_def rawget_put)
qed

lemma dnslookup_loop_get:
  assumes "1 \<le> i" "i + length as < 2 ^ 53" "1 \<le> j" "j < 2 ^ 53"
  shows "lua_rawgeti (dnslookup_loop ntop6 i as t) j =
    (if i \<le> j \<and> j < i + length as then LString (bytes_of (addr_text ntop6 (as ! (j - i)))) else lua_rawgeti t j)"
  using assms
proof (induction as arbitrary: i t)
  case (Cons a as)
  show ?case
  proof (cases "i = j")
    case True
    then show ?thesis using Cons.IH [of "i + 1"] Cons.prems by (simp add: rawgeti_put)
  next
    case False
    then have "i < j \<Longrightarrow> j - i = Suc (j - Suc i)" by simp
    then show ?thesis using False Cons.IH [of "i + 1"] Cons.prems by (auto simp: rawgeti_put)
  qed
qed auto

text \<open>
  A name that resolves gives an array of the printed addresses, in the order of the
  resolver, from index 1 on and with nothing after the last one.
\<close>

theorem dnslookup_lists_addresses:
  assumes "getaddrinfo (chars_of (bcstr host)) = Inr as" "length as < 2 ^ 52"
  shows "\<exists>t. dragonfly_dnslookup num2str ntop6 getaddrinfo [LString host] = Returned (Inr [LTable t]) \<and>
    (\<forall>j < 2 ^ 52. lua_rawgeti t (Suc j) =
      (if j < length as then LString (bytes_of (addr_text ntop6 (as ! j))) else LNil))"
  using assms dnslookup_loop_get [of 1 as _ ntop6 "[]"]
  by (auto simp: dragonfly_dnslookup_def lua_gettop_def luaL_checkstring_def lua_tolstring_def lua_at_def Let_def)

theorem dnslookup_lists_addresses_witness:
  "\<exists>t. dragonfly_dnslookup (\<lambda>_. []) (\<lambda>_. ''::1'') (\<lambda>_. Inr [Inet [127, 0, 0, 1], Inet6 []]) [LString [104]] =
      Returned (Inr [LTable t]) \<and> lua_rawgeti t (Suc 1) = LString (bytes_of ''::1'')"
  using dnslookup_lists_addresses [of "\<lambda>_. Inr [Inet [127, 0, 0, 1], Inet6 []]" "[104]" "[Inet [127, 0, 0, 1], Inet6 []]"
    "\<lambda>_. []" "\<lambda>_. ''::1''"]
  by (auto simp: addr_text_def split: if_splits dest: spec [of _ "1 :: nat"])

text \<open>The error text, which has the name in it, is used as a format.\<close>

lemma lua_format_plain: "CHR ''%'' \<notin> set s \<Longrightarrow> lua_format s = Returned s"
  by (induction s rule: lua_format.induct) auto

lemma dnslookup_format:
  assumes "getaddrinfo (CHR ''%'' # CHR ''s'' # h) = Inl gai" "NUL \<notin> set h"
  shows "dragonfly_dnslookup num2str ntop6 getaddrinfo [LString (bytes_of (CHR ''%'' # CHR ''s'' # h))] =
    Undefined ''missing argument''"
proof -
  have n: "NUL \<notin> set (CHR ''%'' # CHR ''s'' # h)" using assms(2) by (simp add: NUL_def)
  have e: "dnslookup_error (CHR ''%'' # CHR ''s'' # h) gai = ''getaddrinfo: %s'' @ take 112 (h @ '' - '' @ gai @ [CHR 0x0A])"
    by (simp add: dnslookup_error_def snprintf_def)
  have "lua_format (''getaddrinfo: %s'' @ r) = Undefined ''missing argument''" for r by simp
  then show ?thesis using assms(1)
    by (simp add: dragonfly_dnslookup_def lua_gettop_def luaL_checkstring_def lua_tolstring_def lua_at_def Let_def
        bcstr_bytes_of [OF n] e del: lua_format.simps)
qed

section \<open>Properties of downloads\<close>

lemma http_chunks: "fs_data (foldl (http_write_data i) w cs) i = fs_data w i @ concat cs \<and>
    fs_dir (foldl (http_write_data i) w cs) = fs_dir w"
  by (induction cs arbitrary: w) (simp_all add: http_write_data_def fs_append_def)

text \<open>
  After a download that raises no error, the file, if it could be opened at all, holds
  exactly the chunks the server sent, in order, whatever it held before.
\<close>

theorem http_get_saves:
  assumes "dragonfly_http_get num2str env [LString url, LString file] w = (Inr vs, w')"
    "cu_init env" "fs_writable w (chars_of (bcstr file))"
  shows "fs_contents w' (chars_of (bcstr file)) = Some (concat (cu_chunks env (bcstr url))) \<and> cu_ok env (bcstr url)"
proof -
  obtain i w1 where o: "fopen_write w (chars_of (bcstr file)) True = (Some \<lparr>fst_inode = i, fst_pos = 0\<rparr>, w1)"
      "fs_dir w1 (chars_of (bcstr file)) = Some i" "fs_data w1 i = []"
    using assms(3) by (cases "fs_dir w (chars_of (bcstr file))") (auto simp: fopen_write_def)
  then show ?thesis
    using assms(1,2) http_chunks [of i w1]
    by (auto simp: dragonfly_http_get_def http_get_def lua_gettop_def luaL_checkstring_def lua_tolstring_def
        lua_at_def fs_contents_def split: if_splits)
qed

definition sample_curl :: curl_env where
  "sample_curl = \<lparr>cu_init = True, cu_chunks = \<lambda>_. [[1, 2], [3]], cu_ok = \<lambda>_. True\<rparr>"

definition empty_fs :: fs where
  "empty_fs = \<lparr>fs_dir = \<lambda>_. None, fs_data = \<lambda>_. [], fs_next = 0, fs_readable = \<lambda>_. True, fs_writable = \<lambda>_. True\<rparr>"

theorem http_get_saves_witness:
  "\<exists>w'. dragonfly_http_get (\<lambda>_. []) sample_curl [LString [104], LString [102]] empty_fs = (Inr [], w') \<and>
    fs_contents w' (chars_of (bcstr [102])) = Some [1, 2, 3]"
proof -
  obtain w' where w: "dragonfly_http_get (\<lambda>_. []) sample_curl [LString [104], LString [102]] empty_fs = (Inr [], w')"
    by (auto simp: dragonfly_http_get_def http_get_def lua_gettop_def luaL_checkstring_def lua_tolstring_def
        lua_at_def sample_curl_def empty_fs_def fopen_write_def)
  then show ?thesis using http_get_saves [OF w] by (simp add: sample_curl_def empty_fs_def)
qed

text \<open>A file that cannot be opened is not reported: nothing is loaded and no error raised.\<close>

lemma http_get_silent:
  "\<not> fs_writable w (chars_of (bcstr file)) \<Longrightarrow>
    dragonfly_http_get num2str env [LString url, LString file] w = (Inr [], w)"
  by (simp add: dragonfly_http_get_def http_get_def lua_gettop_def luaL_checkstring_def lua_tolstring_def
      lua_at_def fopen_write_def)

end
