(* ===== verification/WebService.thy ===== *)
theory WebService
  imports IoHandle
begin

text \<open>
  \<open>webservice.c\<close>: the handler that serves the descriptions of the analyzers. The HTTP library
  calls it twice for a request, with a pointer it keeps in between; what it does with the
  response is an action here. The current directory is where relative paths of the file system
  start.
\<close>

definition WEB_DIR :: string where "WEB_DIR = ''/www/''"
definition WEB_PORT :: nat where "WEB_PORT = 7070"

definition ERROR_PAGE :: string where
  "ERROR_PAGE = ''<html><head><title>Analyzer not found</title></head><body>File not found</body></html>''"

section \<open>The handler\<close>

text \<open>Reading a block of the file at a position.\<close>

definition file_reader :: "byte list \<Rightarrow> nat \<Rightarrow> nat \<Rightarrow> byte list" where
  "file_reader contents pos mx = take mx (drop pos contents)"

text \<open>
  A response is a buffer, or a callback on a file of a given size. The library may fail to make
  the latter, and to queue either.
\<close>

datatype mhd_body = Buffer string | File "byte list" nat

datatype mhd_action =
    MHD_NO
  | MHD_YES
  | MHD_Queued nat "string option" mhd_body     \<comment> \<open>status, content type, body\<close>

record mhd_env =
  mhd_makes_response :: bool
  mhd_queues :: bool

definition queue_response :: "mhd_env \<Rightarrow> mhd_action \<Rightarrow> mhd_action" where
  "queue_response env a = (if mhd_queues env then a else MHD_NO)"

text \<open>The flag is whether \<open>*ptr\<close> is already \<open>&aptr\<close>; it is returned with its new value.\<close>

definition ServeJsonFile :: "mhd_env \<Rightarrow> fs \<Rightarrow> string \<Rightarrow> string \<Rightarrow> string \<Rightarrow> bool \<Rightarrow> mhd_action \<times> bool" where
  "ServeJsonFile env w document_root url meth ptr =
     (if \<not> strcmp_eq meth ''GET'' then (MHD_NO, ptr)
      else if \<not> strncmp_eq document_root url (strnlen document_root 32) then (MHD_NO, ptr)
      else if \<not> ptr then (MHD_YES, True)
      else
        let path = tl (cstr url) in
        case (if fs_dir w path \<noteq> None then fopen_read w path else None) of
          None \<Rightarrow> (queue_response env (MHD_Queued 404 None (Buffer ERROR_PAGE)), False)
        | Some file \<Rightarrow>
            let contents = fs_data w (fst_inode file) in
            if \<not> mhd_makes_response env then (MHD_NO, False)
            else (queue_response env (MHD_Queued 200 (Some ''application/json'') (File contents (length contents))), False))"

text \<open>
  What the library sends for a file: blocks of 32k read by the callback until the size is
  reached.
\<close>

definition BLOCK_SIZE :: nat where "BLOCK_SIZE = 32 * 1024"

function send_file :: "byte list \<Rightarrow> nat \<Rightarrow> nat \<Rightarrow> byte list" where
  "send_file contents pos sz =
     (if pos < sz then
        (let b = file_reader contents pos (min BLOCK_SIZE (sz - pos)) in
         if b = [] then [] else b @ send_file contents (pos + length b) sz)
      else [])"
  by auto
termination
proof (relation "measure (\<lambda>(c, p, s). s - p)", simp, clarsimp)
  fix c :: "byte list" and p s
  assume "p < s" "file_reader c p (min BLOCK_SIZE (s - p)) \<noteq> []"
  then show "s - (p + length (file_reader c p (min BLOCK_SIZE (s - p)))) < s - p"
    using length_greater_0_conv by (metis add.commute diff_less_mono2 less_add_same_cancel2)
qed

declare send_file.simps [simp del]

definition sent_body :: "mhd_body \<Rightarrow> byte list" where
  "sent_body b = (case b of Buffer s \<Rightarrow> bytes_of s | File contents sz \<Rightarrow> send_file contents 0 sz)"

text \<open>A request: the handler is called with the pointer cleared, and again if it says yes.\<close>

definition serve :: "mhd_env \<Rightarrow> fs \<Rightarrow> string \<Rightarrow> string \<Rightarrow> string \<Rightarrow> mhd_action" where
  "serve env w document_root url meth =
     (case ServeJsonFile env w document_root url meth False of
        (MHD_YES, ptr) \<Rightarrow> fst (ServeJsonFile env w document_root url meth ptr)
      | (a, _) \<Rightarrow> a)"

section \<open>The server\<close>

record mhd_daemon =
  md_port :: nat
  md_address :: "byte list"
  md_root :: string

text \<open>The library returns NULL if it cannot start; stopping NULL does nothing.\<close>

definition start_web_server :: "bool \<Rightarrow> string \<Rightarrow> nat \<Rightarrow> mhd_daemon option" where
  "start_web_server starts document_root port =
     (if starts then Some \<lparr>md_port = port, md_address = [127, 0, 0, 1], md_root = document_root\<rparr> else None)"

definition stop_web_server :: "mhd_daemon option \<Rightarrow> mhd_daemon option" where
  "stop_web_server ctx = None"

section \<open>Properties\<close>

lemma send_file_rest: "pos \<le> length c \<Longrightarrow> send_file c pos (length c) = drop pos c"
proof (induction c pos "length c" rule: send_file.induct)
  case (1 c pos)
  show ?case
  proof (cases "pos < length c")
    case True
    let ?b = "file_reader c pos (min BLOCK_SIZE (length c - pos))"
    have b: "?b = take BLOCK_SIZE (drop pos c)" "?b \<noteq> []"
      using True by (auto simp: file_reader_def BLOCK_SIZE_def min_def)
    have "send_file c (pos + length ?b) (length c) = drop (pos + length ?b) c"
    proof (rule "1.hyps" [OF True refl b(2)])
      have "length ?b \<le> length c - pos" unfolding b(1) by simp
      then show "pos + length ?b \<le> length c" using True by linarith
    qed
    moreover have "?b @ drop (pos + length ?b) c = drop pos c"
      using append_take_drop_id [of BLOCK_SIZE "drop pos c"] b(1) by (simp add: add.commute min_def)
    ultimately show ?thesis using True b(2) by (subst send_file.simps) (simp add: Let_def)
  next
    case False
    with 1(2) show ?thesis by (subst send_file.simps) simp
  qed
qed


definition sample_web_fs :: fs where
  "sample_web_fs = \<lparr>fs_dir = (\<lambda>p. if p = ''www/a'' then Some 0 else None), fs_data = (\<lambda>_. [123, 125]), fs_next = 1,
     fs_readable = (\<lambda>_. True), fs_writable = (\<lambda>_. False)\<rparr>"


text \<open>Only the prefix is checked: a path with \<open>..\<close> leads out of the directory.\<close>

lemma serve_outside:
  assumes "NUL \<notin> set rest" "fs_contents w (''www/../'' @ rest) = Some c" "fs_readable w (''www/../'' @ rest)"
    "mhd_makes_response env" "mhd_queues env"
  shows "serve env w WEB_DIR (''/www/../'' @ rest) ''GET'' =
    MHD_Queued 200 (Some ''application/json'') (File c (length c))"
proof -
  have c: "cstr (''/www/../'' @ rest) = ''/www/../'' @ rest" "cstr ''/www/'' = ''/www/''"
    using assms(1) by (simp_all add: cstr_no_NUL NUL_def)
  obtain i where "fs_dir w (''www/../'' @ rest) = Some i" "fs_data w i = c"
    using assms(2) by (auto simp: fs_contents_def)
  then show ?thesis using assms(3-5) c
    by (simp add: serve_def ServeJsonFile_def WEB_DIR_def strcmp_eq_def strncmp_eq_def strnlen_def fopen_read_def
        queue_response_def)
qed

end
