(* ===== verification/Engine.thy ===== *)
theory Engine
  imports MsgQueue Config DragonflyIO Responder Commands MsgPackRT
begin

text \<open>
  The global state of \<open>dragonfly-lib.c\<close> and the functions that Lua scripts call to pass messages
  on: \<open>timer_event\<close>, \<open>analyze_event\<close>, \<open>output_event\<close>, \<open>log_event\<close>, \<open>stats_event\<close> and
  \<open>response_event\<close>. The tables refer to queues by address; the queues themselves are on a heap.
\<close>

section \<open>State\<close>

record mle_timer =
  mt_epoch :: int
  mt_length :: nat
  mt_tag :: "string option"
  mt_msgpack :: "byte list option"     \<comment> \<open>the allocated bytes\<close>
  mt_queue :: "nat option"

definition timer_zero :: mle_timer where
  "timer_zero = \<lparr>mt_epoch = 0, mt_length = 0, mt_tag = None, mt_msgpack = None, mt_queue = None\<rparr>"

record mle_stats =
  st_input :: u64
  st_analysis :: u64
  st_output :: u64

definition stats_zero :: mle_stats where
  "stats_zero = \<lparr>st_input = 0, st_analysis = 0, st_output = 0\<rparr>"

record engine =
  g_running :: bool
  g_stats :: "mle_stats option"
  g_input_list :: "input_config list"
  g_flywheel_list :: "input_config list"
  g_output_list :: "output_config list"
  g_responder_list :: "responder_config list"
  g_analyzer_list :: "analyzer_config list"
  g_timer_list :: "mle_timer list"
  g_responder :: "responder list"
  g_suricata :: suricata
  g_queues :: "nat \<Rightarrow> queue_t option"
  g_world :: io_world

text \<open>What the Lua library and the other libraries do, as far as these functions see it.\<close>

record lua_env =
  num2str :: "u64 \<Rightarrow> byte list"
  tointeger :: "lua_val \<Rightarrow> int"
  le_suri :: suri_env

section \<open>Queues by address\<close>

definition queue_at :: "engine \<Rightarrow> nat option \<Rightarrow> queue_t option proc" where
  "queue_at e p =
     (case p of
        None \<Rightarrow> Returned None
      | Some a \<Rightarrow>
          (case g_queues e a of None \<Rightarrow> Undefined ''use of a freed queue'' | Some q \<Rightarrow> Returned (Some q)))"

definition set_queue :: "nat option \<Rightarrow> queue_t option \<Rightarrow> engine \<Rightarrow> engine" where
  "set_queue p q e = (case p of None \<Rightarrow> e | Some a \<Rightarrow> e\<lparr>g_queues := (g_queues e)(a := q)\<rparr>)"

definition send_to :: "nat option \<Rightarrow> byte list \<Rightarrow> int \<Rightarrow> io_event list \<Rightarrow> engine \<Rightarrow> (int \<times> engine) proc" where
  "send_to p buffer len evs e =
     proc_bind (queue_at e p) (\<lambda>q.
     proc_map (\<lambda>(n, q'). (n, set_queue p q' e)) (msgqueue_send q buffer len evs))"

definition recv_from :: "nat option \<Rightarrow> nat \<Rightarrow> io_event list \<Rightarrow> engine \<Rightarrow> (int \<times> byte list \<times> engine) proc" where
  "recv_from p mx evs e =
     proc_bind (queue_at e p) (\<lambda>q.
     proc_map (\<lambda>(n, m, q'). (n, m, set_queue p q' e)) (msgqueue_recv q mx evs))"

section \<open>Lookup by tag\<close>

text \<open>The loops over a table go on to the first element without a tag.\<close>

fun find_tag :: "string \<Rightarrow> string option list \<Rightarrow> nat \<Rightarrow> nat option proc" where
  "find_tag name [] i = Undefined ''read past the table''"
| "find_tag name (None # ts) i = Returned None"
| "find_tag name (Some t # ts) i =
     (if strcasecmp_eq name t then Returned (Some i) else find_tag name ts (i + 1))"

text \<open>\<open>timer_event\<close> goes through the timers but compares with the tags of the analyzers.\<close>

fun find_timer :: "string \<Rightarrow> mle_timer list \<Rightarrow> analyzer_config list \<Rightarrow> nat \<Rightarrow> nat option proc" where
  "find_timer name (t # ts) (a # as) i =
     (if mt_tag t = None then Returned None
      else
        case an_tag a of
          None \<Rightarrow> Undefined ''strcasecmp of NULL''
        | Some s \<Rightarrow> if strcasecmp_eq name s then Returned (Some i) else find_timer name ts as (i + 1))"
| "find_timer name ts as i = Undefined ''read past the table''"

section \<open>Event functions\<close>

text \<open>
  A function gets the stack with its arguments, raises an error or returns values. The packed
  arguments are the third or fourth value on the stack. A pending message of the timer is
  replaced.
\<close>

definition timer_event :: "lua_env \<Rightarrow> int \<Rightarrow> lua_stack \<Rightarrow> engine \<Rightarrow> (lua_result \<times> engine) proc" where
  "timer_event env now L e =
     (if lua_gettop L \<noteq> 3 then Returned (Inl ''expecting exactly 3 arguments'', e)
      else
        case luaL_checkstring (num2str env) L 1 of
          Inl err \<Rightarrow> Returned (Inl err, e)
        | Inr tag \<Rightarrow>
            proc_bind (find_timer (chars_of (bcstr tag)) (g_timer_list e) (g_analyzer_list e) 0) (\<lambda>r.
            case r of
              None \<Rightarrow> Returned (Inr [], e)
            | Some i \<Rightarrow>
                (case mp_pack L of
                   Inl err \<Rightarrow> Returned (Inl err, e)
                 | Inr msgpack \<Rightarrow>
                     Returned (Inr [], e\<lparr>g_timer_list := (g_timer_list e)[i := (g_timer_list e ! i)
                       \<lparr>mt_length := length msgpack, mt_msgpack := Some (bcstr msgpack @ [0]),
                        mt_epoch := now + tointeger env (lua_at L 2)\<rparr>]\<rparr>))))"

definition analyze_event :: "lua_env \<Rightarrow> io_event list \<Rightarrow> lua_stack \<Rightarrow> engine \<Rightarrow> (lua_result \<times> engine) proc" where
  "analyze_event env evs L e =
     (if lua_gettop L \<noteq> 2 then Returned (Inl ''expecting exactly 2 arguments'', e)
      else
        case luaL_checkstring (num2str env) L 1 of
          Inl err \<Rightarrow> Returned (Inl err, e)
        | Inr name \<Rightarrow>
            proc_bind (find_tag (chars_of (bcstr name)) (map an_tag (g_analyzer_list e)) 0) (\<lambda>r.
            case r of
              None \<Rightarrow> Returned (Inr [], e)
            | Some i \<Rightarrow>
                (case mp_pack L of
                   Inl err \<Rightarrow> Returned (Inl err, e)
                 | Inr msgpack \<Rightarrow>
                     proc_map (\<lambda>(n, e). (Inr [], e))
                       (send_to (an_queue (g_analyzer_list e ! i)) msgpack (int (length msgpack)) evs e))))"

text \<open>A message that is no string or number is NULL, with length 0.\<close>

definition message_bytes :: "lua_env \<Rightarrow> lua_val \<Rightarrow> byte list" where
  "message_bytes env v = (case lua_tolstring (num2str env) v of None \<Rightarrow> [] | Some m \<Rightarrow> m)"

definition send_message :: "lua_env \<Rightarrow> nat option \<Rightarrow> lua_val \<Rightarrow> io_event list \<Rightarrow> engine
    \<Rightarrow> (lua_result \<times> engine) proc" where
  "send_message env p v evs e =
     (let m = message_bytes env v in proc_map (\<lambda>(n, e). (Inr [], e)) (send_to p m (int (length m)) evs e))"

definition log_event :: "lua_env \<Rightarrow> io_event list \<Rightarrow> lua_stack \<Rightarrow> engine \<Rightarrow> (lua_result \<times> engine) proc" where
  "log_event env evs L e =
     (if lua_gettop L \<noteq> 1 then Returned (Inl ''expecting exactly 1 arguments'', e)
      else send_message env (out_queue (g_output_list e ! DRAGONFLY_LOG_INDEX)) (lua_at L 1) evs e)"

definition stats_event :: "lua_env \<Rightarrow> io_event list \<Rightarrow> lua_stack \<Rightarrow> engine \<Rightarrow> (lua_result \<times> engine) proc" where
  "stats_event env evs L e =
     (if lua_gettop L \<noteq> 1 then Returned (Inl ''expecting exactly 1 arguments'', e)
      else send_message env (out_queue (g_output_list e ! DRAGONFLY_STATS_INDEX)) (lua_at L 1) evs e)"

definition output_event :: "lua_env \<Rightarrow> io_event list \<Rightarrow> lua_stack \<Rightarrow> engine \<Rightarrow> (lua_result \<times> engine) proc" where
  "output_event env evs L e =
     (if lua_gettop L \<noteq> 2 then Returned (Inl ''expecting exactly 2 arguments'', e)
      else
        case luaL_checkstring (num2str env) L 1 of
          Inl err \<Rightarrow> Returned (Inl err, e)
        | Inr name \<Rightarrow>
            proc_bind (find_tag (chars_of (bcstr name)) (map out_tag (drop 2 (g_output_list e))) 2) (\<lambda>r.
            case r of
              None \<Rightarrow> Returned (Inr [], e)
            | Some i \<Rightarrow> send_message env (out_queue (g_output_list e ! i)) (lua_at L 2) evs e))"

text \<open>The response is returned as a string, up to its first NUL, or nil.\<close>

definition response_event :: "lua_env \<Rightarrow> int list \<Rightarrow> errno + byte list \<Rightarrow> lua_stack \<Rightarrow> engine
    \<Rightarrow> (lua_result \<times> engine) proc" where
  "response_event env sends answer L e =
     (if lua_gettop L \<noteq> 2 then Returned (Inl ''expecting exactly 2 arguments'', e)
      else
        case luaL_checkstring (num2str env) L 1 of
          Inl err \<Rightarrow> Returned (Inl err, e)
        | Inr tag \<Rightarrow>
            (case luaL_checkstring (num2str env) L 2 of
               Inl err \<Rightarrow> Returned (Inl err, e)
             | Inr command \<Rightarrow>
                 proc_map (\<lambda>(n, response, st).
                     (Inr [if n < 0 then LNil
                           else case response of None \<Rightarrow> LNil | Some b \<Rightarrow> LString (bcstr b)],
                      e\<lparr>g_suricata := st\<rparr>))
                   (responder_event (le_suri env) sends answer (g_responder e) (chars_of (bcstr tag))
                      command 2048 (g_suricata e))))"

section \<open>The function table\<close>

datatype lua_function =
    Fn_date2epoch | Fn_http_get | Fn_dnslookup | Fn_echo | Fn_timer_event | Fn_analyze_event
  | Fn_output_event | Fn_log_event | Fn_stats_event | Fn_response_event

text \<open>With the responder compiled in, the name \<open>response_event\<close> stands for \<open>stats_event\<close>.\<close>

definition dragonfly_functions :: "bool \<Rightarrow> (string \<times> lua_function) list" where
  "dragonfly_functions suri_response_command =
     [(''date2epoch'', Fn_date2epoch), (''http_get'', Fn_http_get), (''dnslookup'', Fn_dnslookup),
      (''echo'', Fn_echo), (''timer_event'', Fn_timer_event), (''analyze_event'', Fn_analyze_event),
      (''output_event'', Fn_output_event), (''log_event'', Fn_log_event), (''stats_event'', Fn_stats_event)] @
     (if suri_response_command then [(''response_event'', Fn_stats_event)] else [])"


section \<open>Messages in queues\<close>

definition holds_at :: "nat \<Rightarrow> engine \<Rightarrow> byte list list \<Rightarrow> bool" where
  "holds_at a e ms \<longleftrightarrow> (\<exists>q. g_queues e a = Some q \<and> holds_msgs q ms)"

text \<open>The kernel takes the message with its length at once; it gives the length and then the rest.\<close>

definition whole_send :: "byte list \<Rightarrow> io_event list" where
  "whole_send m = [(Transferred (4 + length m), False)]"

definition whole_recv :: "io_event list" where
  "whole_recv = [(Transferred 4, False), (Transferred MAX_MESSAGE_SIZE, False)]"

definition put_queue :: "nat \<Rightarrow> queue_t \<Rightarrow> engine \<Rightarrow> engine" where
  "put_queue a q e = e\<lparr>g_queues := (g_queues e)(a := Some q)\<rparr>"

lemma put_queue_simps [simp]:
  "g_queues (put_queue a q e) = (g_queues e)(a := Some q)" "g_world (put_queue a q e) = g_world e"
  "g_stats (put_queue a q e) = g_stats e" "g_output_list (put_queue a q e) = g_output_list e"
  "g_analyzer_list (put_queue a q e) = g_analyzer_list e" "g_timer_list (put_queue a q e) = g_timer_list e"
  "g_input_list (put_queue a q e) = g_input_list e" "g_running (put_queue a q e) = g_running e"
  by (simp_all add: put_queue_def)

lemma set_queue_put: "set_queue (Some a) (Some q) e = put_queue a q e"
  by (simp add: set_queue_def put_queue_def)

lemma send_to_whole:
  assumes "holds_at a e ms" "sendable m"
  shows "\<exists>q. send_to (Some a) m (int (length m)) (whole_send m) e =
      Returned (4 + int (length m), put_queue a q e) \<and> holds_at a (put_queue a q e) (ms @ [m])"
proof -
  obtain q where q: "g_queues e a = Some q" "holds_msgs q ms" using assms(1) by (auto simp: holds_at_def)
  obtain q' where "send_whole q m = Returned (4 + int (length m), Some q')" "holds_msgs q' (ms @ [m])"
    using send_whole_msgs [OF q(2) assms(2)] by blast
  then show ?thesis using q(1)
    by (auto simp: send_to_def queue_at_def send_whole_def whole_send_def holds_at_def set_queue_put)
qed

lemma recv_from_whole:
  assumes "holds_at a e (m # ms)"
  shows "\<exists>q. recv_from (Some a) MAX_BUFFER_SIZE whole_recv e = Returned (int (length m), m, put_queue a q e) \<and>
    holds_at a (put_queue a q e) ms"
proof -
  obtain q where q: "g_queues e a = Some q" "holds_msgs q (m # ms)" using assms by (auto simp: holds_at_def)
  have "length m \<le> MAX_MESSAGE_SIZE" using q(2) by (simp add: holds_msgs_def sendable_def)
  then obtain q' where "msgqueue_recv (Some q) MAX_BUFFER_SIZE whole_recv = Returned (int (length m), m, Some q')"
      "holds_msgs q' ms"
    using recv_first_msg [OF q(2), of MAX_BUFFER_SIZE MAX_MESSAGE_SIZE]
    by (auto simp: whole_recv_def MAX_BUFFER_SIZE_def MAX_MESSAGE_SIZE_def)
  then show ?thesis using q(1)
    by (auto simp: recv_from_def queue_at_def holds_at_def set_queue_put)
qed

section \<open>Routing\<close>

lemma find_tag_first:
  assumes "j < length ts" "ts ! j = Some t" "strcasecmp_eq name t"
    "\<forall>k < j. \<exists>t'. ts ! k = Some t' \<and> \<not> strcasecmp_eq name t'"
  shows "find_tag name ts i = Returned (Some (i + j))"
  using assms
proof (induction ts arbitrary: i j)
  case (Cons x ts)
  show ?case
  proof (cases j)
    case 0
    then show ?thesis using Cons.prems by simp
  next
    case (Suc j')
    have "\<exists>t'. x = Some t' \<and> \<not> strcasecmp_eq name t'" using Cons.prems(4) Suc by force
    moreover have "\<forall>k < j'. \<exists>t'. ts ! k = Some t' \<and> \<not> strcasecmp_eq name t'" using Cons.prems(4) Suc by force
    then have "find_tag name ts (i + 1) = Returned (Some (i + 1 + j'))"
      using Cons.prems Suc by (intro Cons.IH) auto
    ultimately show ?thesis using Suc by auto
  qed
qed simp

lemma find_tag_none:
  assumes "j < length ts" "ts ! j = None" "\<forall>k < j. \<exists>t'. ts ! k = Some t' \<and> \<not> strcasecmp_eq name t'"
  shows "find_tag name ts i = Returned None"
  using assms
proof (induction ts arbitrary: i j)
  case (Cons x ts)
  show ?case
  proof (cases j)
    case (Suc j')
    have "\<exists>t'. x = Some t' \<and> \<not> strcasecmp_eq name t'" using Cons.prems(3) Suc by force
    moreover have "find_tag name ts (i + 1) = Returned None"
      using Cons.prems Suc by (intro Cons.IH [of j']) force+
    ultimately show ?thesis by auto
  qed (use Cons.prems in simp)
qed simp

lemma find_tag_overrun:
  "\<forall>x \<in> set ts. \<exists>t'. x = Some t' \<and> \<not> strcasecmp_eq name t' \<Longrightarrow> find_tag name ts i = Undefined ''read past the table''"
  by (induction ts arbitrary: i) auto

text \<open>Output \<open>j\<close> is the first configured one with the tag \<open>name\<close>, and its queue is at \<open>a\<close>.\<close>

definition output_tagged :: "engine \<Rightarrow> string \<Rightarrow> nat \<Rightarrow> nat \<Rightarrow> bool" where
  "output_tagged e name j a \<longleftrightarrow> 2 \<le> j \<and> j < length (g_output_list e) \<and>
     (\<exists>t. out_tag (g_output_list e ! j) = Some t \<and> strcasecmp_eq name t) \<and>
     (\<forall>k. 2 \<le> k \<longrightarrow> k < j \<longrightarrow> (\<exists>t. out_tag (g_output_list e ! k) = Some t \<and> \<not> strcasecmp_eq name t)) \<and>
     out_queue (g_output_list e ! j) = Some a"

lemma find_output:
  assumes "output_tagged e name j a"
  shows "find_tag name (map out_tag (drop 2 (g_output_list e))) 2 = Returned (Some j)"
proof -
  have "2 \<le> j" using assms by (simp add: output_tagged_def)
  then obtain i where j: "j = 2 + i" using le_Suc_ex by blast
  let ?ts = "map out_tag (drop 2 (g_output_list e))"
  have len: "2 + i < length (g_output_list e)" using assms by (simp add: output_tagged_def j)
  have nth: "?ts ! k = out_tag (g_output_list e ! (2 + k))" if "k \<le> i" for k using that len by simp
  have before: "\<forall>k < i. \<exists>t'. ?ts ! k = Some t' \<and> \<not> strcasecmp_eq name t'"
  proof (intro allI impI)
    fix k assume k: "k < i"
    then have "\<exists>t. out_tag (g_output_list e ! (2 + k)) = Some t \<and> \<not> strcasecmp_eq name t"
      using assms unfolding output_tagged_def j by simp
    then show "\<exists>t'. ?ts ! k = Some t' \<and> \<not> strcasecmp_eq name t'" using nth [of k] k by simp
  qed
  obtain t where "?ts ! i = Some t" "strcasecmp_eq name t"
    using assms nth [of i] unfolding output_tagged_def j by auto
  then show ?thesis using find_tag_first [OF _ _ _ before] len by (simp add: j)
qed

definition name_of :: "byte list \<Rightarrow> string" where
  "name_of nm = chars_of (bcstr nm)"

lemma output_event_sends:
  assumes "output_tagged e (name_of nm) j a" "holds_at a e ms" "sendable m"
  shows "\<exists>q. output_event env (whole_send m) [LString nm, LString m] e = Returned (Inr [], put_queue a q e) \<and>
    holds_at a (put_queue a q e) (ms @ [m])"
  using send_to_whole [OF assms(2,3)] find_output [OF assms(1)] assms(1)
  by (auto simp: output_event_def lua_gettop_def luaL_checkstring_def lua_tolstring_def lua_at_def name_of_def
      send_message_def message_bytes_def output_tagged_def Let_def)

text \<open>
  A message for an output goes whole to the end of the queue of the first configured output
  with that tag, without regard to case, and nothing else of the engine changes.
\<close>

theorem output_event_routes:
  assumes "output_tagged e (name_of nm) j a" "holds_at a e ms" "sendable m"
  shows "\<exists>q. output_event env (whole_send m) [LString nm, LString m] e = Returned (Inr [], put_queue a q e) \<and>
    holds_at a (put_queue a q e) (ms @ [m])"
  by (rule output_event_sends [OF assms])

definition sample_engine :: engine where
  "sample_engine = \<lparr>g_running = True, g_stats = Some stats_zero, g_input_list = [], g_flywheel_list = [],
     g_output_list = [output_zero\<lparr>out_tag := Some DRAGONFLY_LOG_TAG, out_queue := Some 0\<rparr>,
       output_zero\<lparr>out_tag := Some DRAGONFLY_STATS_TAG, out_queue := Some 1\<rparr>,
       output_zero\<lparr>out_tag := Some ''eve'', out_queue := Some 2, out_output := Some 7\<rparr>, output_zero],
     g_responder_list = [],
     g_analyzer_list = [analyzer_zero\<lparr>an_tag := Some ''ml'', an_queue := Some 3\<rparr>, analyzer_zero],
     g_timer_list = [timer_zero\<lparr>mt_tag := Some DRAGONFLY_LOG_TAG, mt_queue := Some 0\<rparr>, timer_zero],
     g_responder = responder_initialize, g_suricata = suricata_zero,
     g_queues = (\<lambda>a. if a < 4 then Some sample_queue else None), g_world = sample_world\<rparr>"

lemma sample_queue_holds: "holds_msgs sample_queue []"
  by (simp add: holds_msgs_def sample_queue_def)

lemma sample_holds: "a < 4 \<Longrightarrow> holds_at a sample_engine []"
  by (simp add: holds_at_def sample_engine_def sample_queue_holds)

lemma name_of_string: "NUL \<notin> set s \<Longrightarrow> name_of (bytes_of s) = s"
  by (simp add: name_of_def bcstr_bytes_of)

lemma sample_tagged: "output_tagged sample_engine (name_of (bytes_of ''eve'')) 2 2"
  by (simp add: name_of_string NUL_def output_tagged_def sample_engine_def)

theorem output_event_routes_witness:
  "\<exists>q. output_event \<lparr>num2str = \<lambda>_. [], tointeger = \<lambda>_. 0, le_suri = sample_suri_env\<rparr> (whole_send [65])
      [LString (bytes_of ''eve''), LString [65]] sample_engine = Returned (Inr [], put_queue 2 q sample_engine) \<and>
    holds_at 2 (put_queue 2 q sample_engine) [[65]]"
  using output_event_routes [OF sample_tagged sample_holds, of "[65]"]
  by (simp add: sendable_def MAX_MESSAGE_SIZE_def)

text \<open>
  With four configured outputs the table has no end mark: a message for a tag that none of them
  has makes the lookup go past it.
\<close>

lemma output_lookup_overruns:
  assumes "\<forall>x \<in> set (drop 2 (g_output_list e)). \<exists>t. out_tag x = Some t \<and> \<not> strcasecmp_eq (name_of nm) t"
  shows "output_event env evs [LString nm, v] e = Undefined ''read past the table''"
proof -
  have "find_tag (chars_of (bcstr nm)) (map out_tag (drop 2 (g_output_list e))) 2 = Undefined ''read past the table''"
    using assms by (intro find_tag_overrun) (auto simp: name_of_def)
  then show ?thesis
    by (simp add: output_event_def lua_gettop_def luaL_checkstring_def lua_tolstring_def lua_at_def)
qed

text \<open>The name \<open>response_event\<close> is registered for \<open>stats_event\<close>, which refuses its two arguments.\<close>

lemma response_event_not_registered:
  "map_of (dragonfly_functions True) ''response_event'' = Some Fn_stats_event"
  "stats_event env evs [a, b] e = Returned (Inl ''expecting exactly 1 arguments'', e)"
  by (simp_all add: dragonfly_functions_def stats_event_def lua_gettop_def)

section \<open>Messages for analyzers\<close>

definition analyzer_tagged :: "engine \<Rightarrow> string \<Rightarrow> nat \<Rightarrow> nat \<Rightarrow> bool" where
  "analyzer_tagged e name j a \<longleftrightarrow> j < length (g_analyzer_list e) \<and>
     (\<exists>t. an_tag (g_analyzer_list e ! j) = Some t \<and> strcasecmp_eq name t) \<and>
     (\<forall>k < j. \<exists>t. an_tag (g_analyzer_list e ! k) = Some t \<and> \<not> strcasecmp_eq name t) \<and>
     an_queue (g_analyzer_list e ! j) = Some a"

lemma find_analyzer:
  assumes "analyzer_tagged e name j a"
  shows "find_tag name (map an_tag (g_analyzer_list e)) 0 = Returned (Some j)"
proof -
  have "\<forall>k < j. \<exists>t'. map an_tag (g_analyzer_list e) ! k = Some t' \<and> \<not> strcasecmp_eq name t'"
    using assms by (auto simp: analyzer_tagged_def)
  then show ?thesis
    using find_tag_first [of j "map an_tag (g_analyzer_list e)" _ name 0] assms by (auto simp: analyzer_tagged_def)
qed

lemma analyze_event_sends:
  assumes "analyzer_tagged e (name_of nm) j a" "holds_at a e ms" "mp_pack [LString nm, v] = Inr s" "sendable s"
  shows "\<exists>q. analyze_event env (whole_send s) [LString nm, v] e = Returned (Inr [], put_queue a q e) \<and>
    holds_at a (put_queue a q e) (ms @ [s])"
  using send_to_whole [OF assms(2,4)] find_analyzer [OF assms(1)] assms(1,3)
  by (auto simp: analyze_event_def lua_gettop_def luaL_checkstring_def lua_tolstring_def lua_at_def name_of_def
      analyzer_tagged_def)

section \<open>Timers\<close>

lemma find_timer_same:
  assumes "j < length ts" "j < length as" "\<forall>k \<le> j. mt_tag (ts ! k) \<noteq> None"
    "an_tag (as ! j) = Some t" "strcasecmp_eq name t"
    "\<forall>k < j. \<exists>t'. an_tag (as ! k) = Some t' \<and> \<not> strcasecmp_eq name t'"
  shows "find_timer name ts as i = Returned (Some (i + j))"
  using assms
proof (induction name ts as i arbitrary: j rule: find_timer.induct)
  case (1 name tm tms a as i)
  show ?case
  proof (cases j)
    case 0
    then show ?thesis using "1.prems" by simp
  next
    case (Suc j')
    have m: "mt_tag tm \<noteq> None" using "1.prems"(3) by force
    obtain t' where t': "an_tag a = Some t'" "\<not> strcasecmp_eq name t'" using "1.prems"(6) Suc by force
    have "find_timer name tms as (i + 1) = Returned (Some (i + 1 + j'))"
      by (rule "1.IH" [OF m t'(1) t'(2)]) (use "1.prems" Suc in force)+
    then show ?thesis using m t' Suc by simp
  qed
qed auto

text \<open>
  A timer event arms the timer of the analyzer with that tag for the time asked for, with the
  packed arguments if no byte of them is zero, and touches no other timer and no queue.
\<close>

lemma timer_event_arms:
  assumes "analyzer_tagged e (name_of nm) j a" "j < length (g_timer_list e)"
    "\<forall>k \<le> j. mt_tag (g_timer_list e ! k) \<noteq> None"
    "mp_pack [LString nm, secs, v] = Inr s" "0 \<notin> set s"
  shows "timer_event env now [LString nm, secs, v] e =
    Returned (Inr [], e\<lparr>g_timer_list := (g_timer_list e)[j := (g_timer_list e ! j)
      \<lparr>mt_length := length s, mt_msgpack := Some (s @ [0]), mt_epoch := now + tointeger env secs\<rparr>]\<rparr>)"
proof -
  have "find_timer (name_of nm) (g_timer_list e) (g_analyzer_list e) 0 = Returned (Some j)"
    using assms(1-3) find_timer_same [of j "g_timer_list e" "g_analyzer_list e" _ "name_of nm" 0]
    by (auto simp: analyzer_tagged_def)
  then show ?thesis using assms(4) bcstr_no_zero [OF assms(5)]
    by (simp add: timer_event_def lua_gettop_def luaL_checkstring_def lua_tolstring_def lua_at_def name_of_def)
qed


lemma sample_pack: "mp_pack [LString [0x6d, 0x6c], LString [0x35], LString [0x78]] =
    Inr [0xa2, 0x6d, 0x6c, 0xa1, 0x35, 0xa1, 0x78]"
  using mp_pack_layouts [of "[LString [0x6d, 0x6c], LString [0x35], LString [0x78]]"]
  by (simp add: raw_header_def)

lemma sample_analyzer: "analyzer_tagged sample_engine (name_of [0x6d, 0x6c]) 0 3"
proof -
  have "[0x6d, 0x6c] = bytes_of ''ml''" by (simp add: bytes_of_def)
  then show ?thesis using name_of_string [of "''ml''"]
    by (simp add: NUL_def analyzer_tagged_def sample_engine_def)
qed

text \<open>The timer of the first analyzer is that of the log: its message goes to the log output.\<close>

lemma first_timer_is_log:
  assumes "analyzer_tagged e name 0 a" "mt_tag (g_timer_list e ! 0) \<noteq> None" "g_timer_list e \<noteq> []"
  shows "find_timer name (g_timer_list e) (g_analyzer_list e) 0 = Returned (Some 0)"
  using assms find_timer_same [of 0 "g_timer_list e" "g_analyzer_list e" _ name 0]
  by (auto simp: analyzer_tagged_def)

end
