(* ===== verification/Pipeline.thy ===== *)
theory Pipeline
  imports Engine MsgPackImage
begin

text \<open>
  The threads of \<open>dragonfly-lib.c\<close>: the flywheels that read an input and feed its queue, the
  input, output and analyzer loops that take messages from a queue, and the timer. A loop is
  given what the environment does in each of its turns; \<open>g_running\<close> is read anew in each. A Lua
  script is a function on the engine, as it may send messages on; its global functions are
  called with one value, and \<open>True\<close> is a runtime error.
\<close>

section \<open>Loops that take messages from a queue\<close>

record loop_turn =
  lt_running :: bool
  lt_recv :: "io_event list"
  lt_write :: write_env
  lt_time :: tm
  lt_rename :: bool

text \<open>
  The loops of inputs, outputs and analyzers differ in what they do with a message. A body
  returns whether the loop is left, the thread's own state, and the engine.
\<close>

fun recv_loop :: "(loop_turn \<Rightarrow> byte list \<Rightarrow> 's \<Rightarrow> engine \<Rightarrow> (bool \<times> 's \<times> engine) proc) \<Rightarrow> nat option
    \<Rightarrow> loop_turn list \<Rightarrow> 's \<Rightarrow> engine \<Rightarrow> ('s \<times> engine) proc" where
  "recv_loop body p [] s e = Blocked"
| "recv_loop body p (r # rs) s e =
     (if \<not> lt_running r then Returned (s, e)
      else
        proc_bind (recv_from p MAX_BUFFER_SIZE (lt_recv r) e) (\<lambda>(n, buffer, e).
        if n \<le> 0 then Returned (s, e)
        else if n = int MAX_BUFFER_SIZE then recv_loop body p rs s e
        else
          proc_bind (body r buffer s e) (\<lambda>(left, s, e).
          if left then Returned (s, e) else recv_loop body p rs s e)))"

section \<open>Inputs\<close>

text \<open>The state of the thread is the list of messages the function \<open>loop\<close> was called with.\<close>

type_synonym 'v lua_script = "'v \<Rightarrow> engine \<Rightarrow> bool \<times> engine"

definition input_message :: "byte list lua_script \<Rightarrow> loop_turn \<Rightarrow> byte list \<Rightarrow> byte list list \<Rightarrow> engine
    \<Rightarrow> (bool \<times> byte list list \<times> engine) proc" where
  "input_message loop r buffer calls e =
     (case loop buffer e of
        (True, e) \<Rightarrow> Exited EXIT_FAILURE
      | (False, e) \<Rightarrow>
          (case g_stats e of
             None \<Rightarrow> Undefined ''use of a null pointer''
           | Some st \<Rightarrow> Returned (False, calls @ [buffer], e\<lparr>g_stats := Some (st\<lparr>st_input := st_input st + 1\<rparr>)\<rparr>)))"

definition lua_input_loop :: "byte list lua_script \<Rightarrow> nat option \<Rightarrow> loop_turn list \<Rightarrow> byte list list \<Rightarrow> engine
    \<Rightarrow> (byte list list \<times> engine) proc" where
  "lua_input_loop loop queue turns calls e = recv_loop (input_message loop) queue turns calls e"

text \<open>
  The thread loads the script and calls its \<open>setup\<close> before the loop, and enters the loop again
  as long as the engine runs. A script is its result of loading, of \<open>setup\<close>, and \<open>loop\<close>; they see
  the globals \<open>default_analyzer\<close> and \<open>default_output\<close> as they are then.
\<close>

type_synonym hops = "string option \<times> string option"

record 'v script =
  sc_load :: "hops \<Rightarrow> engine \<Rightarrow> bool \<times> engine"
  sc_setup :: "hops \<Rightarrow> engine \<Rightarrow> bool \<times> engine"
  sc_loop :: "hops \<Rightarrow> 'v lua_script"

definition lua_run :: "bool \<times> engine \<Rightarrow> engine proc" where
  "lua_run r = (case r of (failed, e) \<Rightarrow> if failed then Exited EXIT_FAILURE else Returned e)"

text \<open>The default hop is set if its name is not empty.\<close>

definition default_hop :: "string option \<Rightarrow> string option" where
  "default_hop d = (case d of None \<Rightarrow> None | Some s \<Rightarrow> if 0 < strnlen s 32 then Some (cstr s) else None)"

fun input_runs :: "byte list lua_script \<Rightarrow> nat option \<Rightarrow> (bool \<times> loop_turn list) list \<Rightarrow> byte list list \<Rightarrow> engine
    \<Rightarrow> (byte list list \<times> engine) proc" where
  "input_runs loop queue [] calls e = Blocked"
| "input_runs loop queue ((running, turns) # rest) calls e =
     (if \<not> running then Returned (calls, e)
      else proc_bind (lua_input_loop loop queue turns calls e) (\<lambda>(calls, e). input_runs loop queue rest calls e))"

definition lua_input_thread :: "byte list script \<Rightarrow> input_config \<Rightarrow> (bool \<times> loop_turn list) list \<Rightarrow> engine
    \<Rightarrow> (byte list list \<times> engine) proc" where
  "lua_input_thread sc input runs e =
     (let d = (default_hop (in_default_analyzer input), None) in
      proc_bind (lua_run (sc_load sc d e)) (\<lambda>e.
      proc_bind (lua_run (sc_setup sc d e)) (\<lambda>e.
      input_runs (sc_loop sc d) (in_queue input) runs [] e)))"

section \<open>Outputs\<close>

definition ROTATE_MESSAGE :: string where "ROTATE_MESSAGE = ''+rotate+''"

definition count_output :: "engine \<Rightarrow> engine" where
  "count_output e =
     (case g_stats e of None \<Rightarrow> e | Some st \<Rightarrow> e\<lparr>g_stats := Some (st\<lparr>st_output := st_output st + 1\<rparr>)\<rparr>)"

text \<open>The message is a C string for the output; the thread's state is its handle.\<close>

definition output_message :: "loop_turn \<Rightarrow> byte list \<Rightarrow> nat option \<Rightarrow> engine
    \<Rightarrow> (bool \<times> nat option \<times> engine) proc" where
  "output_message r buffer handle e =
     (if strcasecmp_eq (chars_of (buffer @ [0])) ROTATE_MESSAGE then
        proc_map (\<lambda>w. (False, handle, e\<lparr>g_world := w\<rparr>))
          (dragonfly_io_rotate (lt_time r) (lt_rename r) handle (g_world e))
      else
        proc_map (\<lambda>(n, w).
            if n < 0 then (True, handle, e\<lparr>g_world := w\<rparr>) else (False, handle, count_output (e\<lparr>g_world := w\<rparr>)))
          (dragonfly_io_write (lt_write r) handle (buffer @ [0]) (g_world e)))"

definition lua_output_loop :: "nat option \<Rightarrow> nat option \<Rightarrow> loop_turn list \<Rightarrow> engine \<Rightarrow> engine proc" where
  "lua_output_loop queue handle turns e = proc_map snd (recv_loop output_message queue turns handle e)"

text \<open>
  The thread opens its output, runs the loop and closes it, again and again, until it cannot be
  opened or the engine stops.
\<close>

fun lua_output_thread :: "output_config \<Rightarrow> (bool \<times> open_env \<times> loop_turn list) list \<Rightarrow> engine \<Rightarrow> engine proc" where
  "lua_output_thread output [] e = Blocked"
| "lua_output_thread output ((running, env, turns) # rest) e =
     (if \<not> running then Returned e
      else
        case out_uri output of
          None \<Rightarrow> Undefined ''strncmp of NULL''
        | Some uri \<Rightarrow>
            proc_bind (dragonfly_io_open env uri DF_OUT (g_world e)) (\<lambda>(handle, w).
            let e = e\<lparr>g_world := w\<rparr> in
            if handle = None then Returned e
            else
              proc_bind (lua_output_loop (out_queue output) handle turns e) (\<lambda>e.
              proc_bind (dragonfly_io_close handle (g_world e)) (\<lambda>w.
              lua_output_thread output rest (e\<lparr>g_world := w\<rparr>)))))"

section \<open>Analyzers\<close>

text \<open>
  The thread's state is its Lua stack and the values \<open>loop\<close> was called with. The unpacked values
  are pushed on what is on the stack; the last of them goes to \<open>loop\<close>, and one value is popped
  afterwards. An error of \<open>mp_unpack\<close> is raised outside of any protected call and ends the process.
\<close>

definition lua_loop_function :: lua_val where "lua_loop_function = LOpaque 0"

definition analyzer_message :: "lua_val lua_script \<Rightarrow> loop_turn \<Rightarrow> byte list \<Rightarrow> lua_stack \<times> lua_val list
    \<Rightarrow> engine \<Rightarrow> (bool \<times> (lua_stack \<times> lua_val list) \<times> engine) proc" where
  "analyzer_message loop r buffer s e =
     (case s of (L, calls) \<Rightarrow>
      let L = lua_insert1 (lua_push L (LString buffer)) in
      case mp_unpack buffer of
        Inl err \<Rightarrow> Exited EXIT_FAILURE
      | Inr vs \<Rightarrow>
          let L = lua_insert_m2 (lua_push (lua_remove1 (L @ vs)) lua_loop_function); arg = last L in
          (case loop arg e of
             (True, e) \<Rightarrow> Exited EXIT_FAILURE
           | (False, e) \<Rightarrow>
               let L = lua_pop L 2 in
               if L = [] then Undefined ''pop of an empty stack''
               else Returned (False, (lua_pop L 1, calls @ [arg]),
                 case g_stats e of None \<Rightarrow> e
                 | Some st \<Rightarrow> e\<lparr>g_stats := Some (st\<lparr>st_analysis := st_analysis st + 1\<rparr>)\<rparr>)))"

definition lua_analyzer_loop :: "lua_val lua_script \<Rightarrow> nat option \<Rightarrow> loop_turn list \<Rightarrow> lua_stack \<times> lua_val list
    \<Rightarrow> engine \<Rightarrow> ((lua_stack \<times> lua_val list) \<times> engine) proc" where
  "lua_analyzer_loop loop queue turns s e = recv_loop (analyzer_message loop) queue turns s e"

fun analyzer_runs :: "lua_val lua_script \<Rightarrow> nat option \<Rightarrow> (bool \<times> loop_turn list) list \<Rightarrow> lua_stack \<times> lua_val list
    \<Rightarrow> engine \<Rightarrow> ((lua_stack \<times> lua_val list) \<times> engine) proc" where
  "analyzer_runs loop queue [] s e = Blocked"
| "analyzer_runs loop queue ((running, turns) # rest) s e =
     (if \<not> running then Returned (s, e)
      else proc_bind (lua_analyzer_loop loop queue turns s e) (\<lambda>(s, e). analyzer_runs loop queue rest s e))"

text \<open>The responders of the configuration are set up one after the other.\<close>

fun setup_responders :: "suri_env \<Rightarrow> responder_config list \<Rightarrow> engine \<Rightarrow> engine proc" where
  "setup_responders env [] e = Returned e"
| "setup_responders env (r # rs) e =
     (case (rs_tag r, rs_param r) of
        (Some tag, Some param) \<Rightarrow>
          proc_bind (responder_setup env (g_responder e) tag param (g_suricata e)) (\<lambda>(n, st).
          if n < 0 then Exited EXIT_FAILURE else setup_responders env rs (e\<lparr>g_suricata := st\<rparr>))
      | _ \<Rightarrow> setup_responders env rs e)"

text \<open>
  The script is loaded before the libraries and the default hops are there; the stack \<open>L\<close> is what
  opening the libraries leaves on it, less the value popped after \<open>setup\<close>.
\<close>

definition lua_analyzer_thread :: "suri_env \<Rightarrow> lua_val script \<Rightarrow> analyzer_config \<Rightarrow> lua_stack
    \<Rightarrow> (bool \<times> loop_turn list) list \<Rightarrow> engine \<Rightarrow> ((lua_stack \<times> lua_val list) \<times> engine) proc" where
  "lua_analyzer_thread env sc analyzer L runs e =
     (let d = (default_hop (an_default_analyzer analyzer), default_hop (an_default_output analyzer)) in
      proc_bind (lua_run (sc_load sc (None, None) e)) (\<lambda>e.
      proc_bind (setup_responders env (take MAX_RESPONDER_COMMANDS (g_responder_list e))
          (e\<lparr>g_responder := responder_initialize\<rparr>)) (\<lambda>e.
      proc_bind (lua_run (sc_setup sc d e)) (\<lambda>e.
      analyzer_runs (sc_loop sc d) (an_queue analyzer) runs (lua_pop L 1, []) e))))"

section \<open>Flywheels\<close>

record fly_turn =
  ft_running :: bool
  ft_read :: read_env
  ft_send :: "io_event list"

text \<open>Only a negative result ends the loop: 0 is sent on as an empty message.\<close>

fun lua_flywheel_loop :: "nat option \<Rightarrow> nat option \<Rightarrow> fly_turn list \<Rightarrow> engine \<Rightarrow> engine proc" where
  "lua_flywheel_loop queue handle [] e = Blocked"
| "lua_flywheel_loop queue handle (r # rs) e =
     (if \<not> ft_running r then Returned e
      else
        proc_bind (dragonfly_io_read (ft_read r) handle MAX_BUFFER_SIZE (g_world e)) (\<lambda>(n, buffer, evs, w).
        let e = e\<lparr>g_world := w\<rparr> in
        if n < 0 then Returned e
        else if n = int MAX_BUFFER_SIZE then lua_flywheel_loop queue handle rs e
        else
          proc_bind (send_to queue buffer n (ft_send r) e) (\<lambda>(_, e). lua_flywheel_loop queue handle rs e)))"

fun lua_flywheel_thread :: "input_config \<Rightarrow> (bool \<times> open_env \<times> fly_turn list) list \<Rightarrow> engine \<Rightarrow> engine proc" where
  "lua_flywheel_thread flywheel [] e = Blocked"
| "lua_flywheel_thread flywheel ((running, env, turns) # rest) e =
     (if \<not> running then Returned e
      else
        case in_uri flywheel of
          None \<Rightarrow> Undefined ''strncmp of NULL''
        | Some uri \<Rightarrow>
            proc_bind (dragonfly_io_open env uri DF_IN (g_world e)) (\<lambda>(handle, w).
            let e = e\<lparr>g_world := w\<rparr> in
            if handle = None then Returned e
            else
              proc_bind (lua_flywheel_loop (in_queue flywheel) handle turns e) (\<lambda>e.
              proc_bind (dragonfly_io_close handle (g_world e)) (\<lambda>w.
              proc_bind (dragonfly_io_isfile handle w) (\<lambda>file.
              let e = e\<lparr>g_world := w\<rparr> in
              if file then Returned e else lua_flywheel_thread flywheel rest e)))))"

section \<open>The timer\<close>

text \<open>What one turn of the timer finds: the time, also broken down, and how the sends go.\<close>

record timer_turn =
  tt_running :: bool
  tt_now :: int
  tt_gmtime :: tm
  tt_send :: "nat \<Rightarrow> io_event list"
  tt_stats :: "io_event list"

definition fire_timer :: "io_event list \<Rightarrow> nat \<Rightarrow> engine \<Rightarrow> engine proc" where
  "fire_timer evs i e =
     (let t = g_timer_list e ! i in
      proc_map (\<lambda>(n, e). e\<lparr>g_timer_list := (g_timer_list e)[i := t\<lparr>mt_epoch := 0, mt_length := 0, mt_msgpack := None\<rparr>]\<rparr>)
        (send_to (mt_queue t) (case mt_msgpack t of None \<Rightarrow> [] | Some b \<Rightarrow> b) (int (mt_length t)) evs e))"

fun timer_sweep :: "timer_turn \<Rightarrow> nat list \<Rightarrow> engine \<Rightarrow> engine proc" where
  "timer_sweep r [] e = Undefined ''read past the table''"
| "timer_sweep r (i # is) e =
     (let t = g_timer_list e ! i in
      if mt_tag t = None then Returned e
      else if 0 < mt_epoch t \<and> mt_epoch t \<le> tt_now r then
        proc_bind (fire_timer (tt_send r i) i e) (timer_sweep r is)
      else timer_sweep r is e)"

definition stats_text :: "tm \<Rightarrow> mle_stats \<Rightarrow> string" where
  "stats_text t st =
     snprintf 1023 (''{ \"time\": \"'' @ strftime_FTZ t @ ''\", \"operations\": { \"input\": '' @
       show_nat (unat (st_input st)) @ '', \"analyzer\":'' @ show_nat (unat (st_analysis st)) @
       '', \"output\":'' @ show_nat (unat (st_output st)) @ '' }}'')"

fun timer_loop :: "timer_turn list \<Rightarrow> int \<Rightarrow> engine \<Rightarrow> engine proc" where
  "timer_loop [] last_time e = Blocked"
| "timer_loop (r # rs) last_time e =
     (if \<not> tt_running r then Returned e
      else
        proc_bind (timer_sweep r [0..<MAX_ANALYZER_STREAMS] e) (\<lambda>e.
        if tt_now r - last_time \<ge> int DEFAULT_STATS_INTERVAL then
          (case g_stats e of
             None \<Rightarrow> Undefined ''use of a null pointer''
           | Some st \<Rightarrow>
               let buffer = bytes_of (stats_text (tt_gmtime r) st) in
               proc_bind (send_to (out_queue (g_output_list e ! DRAGONFLY_STATS_INDEX)) buffer (int (length buffer))
                   (tt_stats r) e) (\<lambda>(n, e). timer_loop rs (tt_now r) e))
        else timer_loop rs last_time e))"

text \<open>The statistics are due at once when the thread starts.\<close>

definition lua_timer_thread :: "int \<Rightarrow> timer_turn list \<Rightarrow> engine \<Rightarrow> engine proc" where
  "lua_timer_thread start turns e = timer_loop turns (start - int DEFAULT_STATS_INTERVAL) e"

section \<open>Signals\<close>

definition signal_abort :: "engine \<Rightarrow> engine" where
  "signal_abort e = e\<lparr>g_running := False\<rparr>"

text \<open>The second result is the process that is sent \<open>SIGINT\<close>.\<close>

definition signal_term :: "int \<Rightarrow> engine \<Rightarrow> engine \<times> int option" where
  "signal_term analyzer_pid e = (e\<lparr>g_running := False\<rparr>, if 0 < analyzer_pid then Some analyzer_pid else None)"

fun rotate_sends :: "(nat \<Rightarrow> io_event list) \<Rightarrow> output_config list \<Rightarrow> nat \<Rightarrow> engine \<Rightarrow> engine proc" where
  "rotate_sends evs [] i e = Undefined ''read past the table''"
| "rotate_sends evs (out # outs) i e =
     (if out_tag out = None then Returned e
      else
        proc_bind (send_to (out_queue out) (bytes_of ROTATE_MESSAGE @ [0]) (int (strlen ROTATE_MESSAGE)) (evs i) e)
          (\<lambda>(n, e). rotate_sends evs outs (i + 1) e))"

definition signal_log_rotate :: "(nat \<Rightarrow> io_event list) \<Rightarrow> engine \<Rightarrow> engine proc" where
  "signal_log_rotate evs e = rotate_sends evs (g_output_list e) 0 e"

end
