(* ===== verification/PipelineProps.thy ===== *)
theory PipelineProps
  imports Pipeline
begin

text \<open>
  What the threads achieve together: messages that are in a queue when a loop runs are handled
  one after the other, in order. The contract of a loop body is the locale \<open>queue_consumer\<close>; the
  output loop meets it for every output that is a sink.
\<close>

section \<open>Consumers\<close>

definition whole_turn :: "loop_turn \<Rightarrow> bool" where
  "whole_turn r \<longleftrightarrow> lt_running r \<and> lt_recv r = whole_recv"

locale queue_consumer =
  fixes body :: "loop_turn \<Rightarrow> byte list \<Rightarrow> 's \<Rightarrow> engine \<Rightarrow> (bool \<times> 's \<times> engine) proc"
    and a :: nat
    and turn_ok :: "loop_turn \<Rightarrow> bool"
    and good :: "byte list \<Rightarrow> bool"
    and ready :: "'s \<Rightarrow> engine \<Rightarrow> bool"
    and view :: "'s \<Rightarrow> engine \<Rightarrow> 'v"
    and handle :: "byte list \<Rightarrow> 'v \<Rightarrow> 'v"
  assumes body_ok: "turn_ok r \<Longrightarrow> ready s e \<Longrightarrow> good m \<Longrightarrow> holds_at a e ms \<Longrightarrow>
      \<exists>s' e'. body r m s e = Returned (False, s', e') \<and> ready s' e' \<and> holds_at a e' ms \<and>
        view s' e' = handle m (view s e)"
    and ready_put: "ready s e \<Longrightarrow> ready s (put_queue a q e) \<and> view s (put_queue a q e) = view s e"
begin

lemma one_turn:
  assumes "whole_turn r" "turn_ok r" "good m" "length m < MAX_BUFFER_SIZE" "holds_at a e (m # ms)" "ready s e"
  shows "\<exists>s' e'. recv_loop body (Some a) (r # rest) s e = recv_loop body (Some a) rest s' e' \<and>
    ready s' e' \<and> holds_at a e' ms \<and> view s' e' = handle m (view s e)"
proof -
  obtain q where q: "recv_from (Some a) MAX_BUFFER_SIZE whole_recv e = Returned (int (length m), m, put_queue a q e)"
      "holds_at a (put_queue a q e) ms"
    using recv_from_whole [OF assms(5)] by blast
  have "0 < length m" using assms(5) by (auto simp: holds_at_def holds_msgs_def sendable_def)
  moreover obtain s' e' where "body r m s (put_queue a q e) = Returned (False, s', e')" "ready s' e'"
      "holds_at a e' ms" "view s' e' = handle m (view s e)"
    using body_ok [OF assms(2) _ assms(3) q(2), of s] ready_put [OF assms(6), of q] by metis
  ultimately show ?thesis using assms(1,4) q(1) by (auto simp: whole_turn_def)
qed

lemma consumes:
  assumes "length turns = length ms" "\<forall>r \<in> set turns. whole_turn r \<and> turn_ok r"
    "\<forall>m \<in> set ms. good m \<and> length m < MAX_BUFFER_SIZE" "holds_at a e (ms @ ms')" "ready s e"
  shows "\<exists>s' e'. recv_loop body (Some a) (turns @ rest) s e = recv_loop body (Some a) rest s' e' \<and>
    ready s' e' \<and> holds_at a e' ms' \<and> view s' e' = fold handle ms (view s e)"
  using assms
proof (induction ms arbitrary: turns s e)
  case (Cons m ms)
  obtain r rs where turns: "turns = r # rs" using Cons.prems(1) by (cases turns) auto
  obtain s1 e1 where 1: "recv_loop body (Some a) (r # rs @ rest) s e = recv_loop body (Some a) (rs @ rest) s1 e1"
      "ready s1 e1" "holds_at a e1 (ms @ ms')" "view s1 e1 = handle m (view s e)"
    using one_turn [of r m e "ms @ ms'" s "rs @ rest"] Cons.prems turns by auto
  show ?case using Cons.IH [of rs e1 s1] Cons.prems(1-3) turns 1 by auto
qed auto

text \<open>The loop that has handled everything is left when the engine stops.\<close>

lemma consumes_and_stops:
  assumes "length turns = length ms" "\<forall>r \<in> set turns. whole_turn r \<and> turn_ok r"
    "\<forall>m \<in> set ms. good m \<and> length m < MAX_BUFFER_SIZE" "holds_at a e ms" "ready s e" "\<not> lt_running stop"
  shows "\<exists>s' e'. recv_loop body (Some a) (turns @ [stop]) s e = Returned (s', e') \<and>
    ready s' e' \<and> holds_at a e' [] \<and> view s' e' = fold handle ms (view s e)"
  using consumes [OF assms(1-3), of e "[]" s "[stop]"] assms(4-6) by auto

end

section \<open>Outputs\<close>

text \<open>A text that is not the rotation message, as the output gets it.\<close>

definition output_text :: "byte list \<Rightarrow> bool" where
  "output_text m \<longleftrightarrow> \<not> strcasecmp_eq (chars_of (m @ [0])) ROTATE_MESSAGE"

locale output_end = message_sink "dragonfly_io_write good_write (Some h)" ready good view render
  for h :: nat and ready :: "io_world \<Rightarrow> bool" and good :: "byte list \<Rightarrow> bool"
    and view :: "io_world \<Rightarrow> 'x list" and render :: "byte list \<Rightarrow> 'x list" +
  fixes a :: nat
begin

lemma writes_message:
  assumes "lt_write r = good_write" "ready (g_world e)" "good (m @ [0])" "output_text m" "holds_at a e ms"
  shows "\<exists>e'. output_message r m (Some h) e = Returned (False, Some h, e') \<and> ready (g_world e') \<and> holds_at a e' ms \<and>
    view (g_world e') = view (g_world e) @ render (m @ [0]) \<and>
    map_option st_output (g_stats e') = map_option (\<lambda>c. c + 1) (map_option st_output (g_stats e))"
proof -
  obtain n w where w: "dragonfly_io_write good_write (Some h) (m @ [0]) (g_world e) = Returned (n, w)" "0 < n" "ready w"
      "view w = view (g_world e) @ render (m @ [0])"
    using put_ready [OF assms(2,3)] by blast
  then show ?thesis using assms(1,4,5)
    by (cases "g_stats e") (auto simp: output_message_def output_text_def count_output_def holds_at_def)
qed

end

sublocale output_end \<subseteq> consumer: queue_consumer output_message a "\<lambda>r. lt_write r = good_write"
  "\<lambda>m. good (m @ [0]) \<and> output_text m" "\<lambda>s e. s = Some h \<and> ready (g_world e)"
  "\<lambda>s e. (view (g_world e), map_option st_output (g_stats e))"
  "\<lambda>m v. (fst v @ render (m @ [0]), map_option (\<lambda>c. c + 1) (snd v))"
proof (unfold_locales, goal_cases)
  case (1 r s e m ms)
  then show ?case using writes_message [of r e m ms] by fastforce
qed simp

context output_end
begin

lemma fold_views:
  "fold (\<lambda>m v. (fst v @ render (m @ [0]), map_option (\<lambda>c. c + 1) (snd v))) ms (v, c) =
    (v @ concat (map (\<lambda>m. render (m @ [0])) ms), map_option (\<lambda>c. c + of_nat (length ms)) (c :: u64 option))"
  by (induction ms arbitrary: v c) (auto simp: option.map_comp comp_def add.assoc option.map_ident)

lemma loop_writes:
  assumes "length turns = length ms" "\<forall>r \<in> set turns. whole_turn r \<and> lt_write r = good_write" "\<not> lt_running stop"
    "\<forall>m \<in> set ms. good (m @ [0]) \<and> output_text m \<and> length m < MAX_BUFFER_SIZE"
    "holds_at a e ms" "ready (g_world e)"
  shows "\<exists>e'. lua_output_loop (Some a) (Some h) (turns @ [stop]) e = Returned e' \<and> holds_at a e' [] \<and>
    ready (g_world e') \<and> view (g_world e') = view (g_world e) @ concat (map (\<lambda>m. render (m @ [0])) ms) \<and>
    map_option st_output (g_stats e') = map_option (\<lambda>st. st_output st + of_nat (length ms)) (g_stats e)"
proof -
  obtain s' e' where e': "recv_loop output_message (Some a) (turns @ [stop]) (Some h) e = Returned (s', e')"
      "ready (g_world e')" "holds_at a e' []"
      "(view (g_world e'), map_option st_output (g_stats e')) =
        fold (\<lambda>m v. (fst v @ render (m @ [0]), map_option (\<lambda>c. c + 1) (snd v))) ms
          (view (g_world e), map_option st_output (g_stats e))"
    using consumer.consumes_and_stops [OF assms(1) assms(2), of e "Some h" stop] assms(3-6) by auto
  then show ?thesis by (simp add: lua_output_loop_def fold_views option.map_comp comp_def)
qed

end

interpretation file_end: output_end h "file_ready h path" "\<lambda>_. True" "file_view path" "\<lambda>m. bcstr m @ [10]" a
  for h path a by unfold_locales

interpretation socket_end: output_end h "socket_ready h path" socket_text iw_sent "\<lambda>m. [(path, bcstr m)]" a
  for h path a by unfold_locales


lemma bcstr_terminated [simp]: "bcstr (m @ [0]) = bcstr m"
  by (induction m) (simp_all add: bcstr_def)

section \<open>From the script to the file\<close>

text \<open>A script that sends one message after the other to an output.\<close>

fun output_events :: "lua_env \<Rightarrow> byte list \<Rightarrow> byte list list \<Rightarrow> engine \<Rightarrow> engine proc" where
  "output_events env nm [] e = Returned e"
| "output_events env nm (m # ms) e =
     proc_bind (output_event env (whole_send m) [LString nm, LString m] e) (\<lambda>(r, e). output_events env nm ms e)"

lemma output_tagged_put [simp]: "output_tagged (put_queue a q e) name j b = output_tagged e name j b"
  by (simp add: output_tagged_def)

lemma output_events_send:
  assumes "output_tagged e (name_of nm) j a" "holds_at a e ms0" "\<forall>m \<in> set ms. sendable m"
  shows "\<exists>e'. output_events env nm ms e = Returned e' \<and> holds_at a e' (ms0 @ ms) \<and> g_world e' = g_world e \<and>
    g_stats e' = g_stats e"
  using assms
proof (induction ms arbitrary: e ms0)
  case (Cons m ms)
  obtain q where q: "output_event env (whole_send m) [LString nm, LString m] e = Returned (Inr [], put_queue a q e)"
      "holds_at a (put_queue a q e) (ms0 @ [m])"
    using output_event_sends [OF Cons.prems(1,2), of m env] Cons.prems(3) by auto
  have "output_tagged (put_queue a q e) (name_of nm) j a" using Cons.prems(1) by simp
  then obtain e' where "output_events env nm ms (put_queue a q e) = Returned e'" "holds_at a e' ((ms0 @ [m]) @ ms)"
      "g_world e' = g_world (put_queue a q e)" "g_stats e' = g_stats (put_queue a q e)"
    using Cons.IH [of "put_queue a q e" "ms0 @ [m]"] q(2) Cons.prems(3) by auto
  then show ?case using q(1) by simp
qed simp

text \<open>
  C15. What a script sends to a file output is written to the file by the output thread: every
  message once, in order, as one line up to its first NUL, and each is counted; the queue is
  empty afterwards.
\<close>

theorem output_events_reach_file:
  assumes "output_tagged e (name_of nm) j a" "holds_at a e []" "file_ready h path (g_world e)"
    "\<forall>m \<in> set ms. sendable m \<and> output_text m \<and> length m < MAX_BUFFER_SIZE"
    "length turns = length ms" "\<forall>r \<in> set turns. whole_turn r \<and> lt_write r = good_write" "\<not> lt_running stop"
  shows "\<exists>e1 e2. output_events env nm ms e = Returned e1 \<and>
    lua_output_loop (Some a) (Some h) (turns @ [stop]) e1 = Returned e2 \<and> holds_at a e2 [] \<and>
    file_view path (g_world e2) = file_view path (g_world e) @ concat (map (\<lambda>m. bcstr m @ [10]) ms) \<and>
    map_option st_output (g_stats e2) = map_option (\<lambda>st. st_output st + of_nat (length ms)) (g_stats e)"
proof -
  obtain e1 where e1: "output_events env nm ms e = Returned e1" "holds_at a e1 ms" "g_world e1 = g_world e"
      "g_stats e1 = g_stats e"
    using output_events_send [OF assms(1,2), of ms env] assms(4) by auto
  then show ?thesis
    using file_end.loop_writes [OF assms(5,6,7), of a e1 h path] assms(3,4) by auto
qed

definition good_turn :: loop_turn where
  "good_turn = \<lparr>lt_running = True, lt_recv = whole_recv, lt_write = good_write, lt_time = sample_tm, lt_rename = True\<rparr>"

definition stop_turn :: loop_turn where
  "stop_turn = good_turn\<lparr>lt_running := False\<rparr>"

definition sample_env :: lua_env where
  "sample_env = \<lparr>num2str = \<lambda>_. [], tointeger = \<lambda>_. 0, le_suri = sample_suri_env\<rparr>"

definition file_engine :: engine where
  "file_engine = sample_engine\<lparr>g_world := sample_world\<lparr>iw_heap := (\<lambda>_. None)(7 := Some sample_out)\<rparr>\<rparr>"

lemma file_engine_ready: "file_ready 7 ''/o'' (g_world file_engine)"
  using sample_open by (simp add: file_engine_def file_ready_def sample_world_def sample_out_def)

lemma file_engine_simps:
  "output_tagged file_engine = output_tagged sample_engine" "a < 4 \<Longrightarrow> holds_at a file_engine []"
  "g_stats file_engine = Some stats_zero" "file_view ''/o'' (g_world file_engine) = [65, 10]"
  using sample_holds [of a]
  by (simp_all add: output_tagged_def fun_eq_iff file_engine_def holds_at_def file_view_def fs_contents_def
      sample_world_def sample_fs_def) (simp add: sample_engine_def)

lemma short_text: "output_text [b]" "length m < 5 \<Longrightarrow> m \<noteq> [] \<Longrightarrow> sendable m"
  by (auto simp: output_text_def strcasecmp_eq_def ROTATE_MESSAGE_def chars_of_def cstr_def sendable_def
      MAX_MESSAGE_SIZE_def NUL_def dest!: arg_cong [of _ _ length])

theorem output_events_reach_file_witness:
  "\<exists>e1 e2. output_events sample_env (bytes_of ''eve'') [[66], [67]] file_engine = Returned e1 \<and>
    lua_output_loop (Some 2) (Some 7) [good_turn, good_turn, stop_turn] e1 = Returned e2 \<and>
    file_view ''/o'' (g_world e2) = [65, 10, 66, 10, 67, 10]"
  using output_events_reach_file [of file_engine "bytes_of ''eve''" 2 2 7 "''/o''" "[[66], [67]]" "[good_turn, good_turn]"
      stop_turn sample_env] sample_tagged
  by (auto simp: file_engine_simps file_engine_ready short_text good_turn_def stop_turn_def whole_turn_def
      MAX_BUFFER_SIZE_def bcstr_def)


section \<open>Scripts that pass messages on\<close>

text \<open>A queue that takes messages, and the bytes in its pipe.\<close>

definition open_at :: "nat \<Rightarrow> engine \<Rightarrow> bool" where
  "open_at b e \<longleftrightarrow> (\<exists>q. g_queues e b = Some q \<and> \<not> cancel q)"

definition pipe_at :: "nat \<Rightarrow> engine \<Rightarrow> byte list" where
  "pipe_at b e = (case g_queues e b of None \<Rightarrow> [] | Some q \<Rightarrow> pipe_bytes q)"

lemma holds_at_iff:
  "holds_at b e ms \<longleftrightarrow> open_at b e \<and> (\<forall>m \<in> set ms. sendable m) \<and> pipe_at b e = concat (map msg_frame ms)"
  by (auto simp: holds_at_def open_at_def pipe_at_def holds_msgs_def)

lemma send_to_open:
  assumes "open_at b e" "sendable m"
  shows "\<exists>q. send_to (Some b) m (int (length m)) (whole_send m) e = Returned (4 + int (length m), put_queue b q e) \<and>
    open_at b (put_queue b q e) \<and> pipe_at b (put_queue b q e) = pipe_at b e @ msg_frame m"
proof -
  obtain q where "g_queues e b = Some q" "\<not> cancel q" using assms(1) by (auto simp: open_at_def)
  then show ?thesis using assms(2)
    by (auto simp: send_to_def queue_at_def whole_send_def msgqueue_send_def open_at_def pipe_at_def sendable_def
        set_queue_put)
qed

lemma other_queue [simp]:
  "a \<noteq> b \<Longrightarrow> open_at b (put_queue a q e) = open_at b e"
  "a \<noteq> b \<Longrightarrow> pipe_at b (put_queue a q e) = pipe_at b e"
  "a \<noteq> b \<Longrightarrow> holds_at b (put_queue a q e) ms = holds_at b e ms"
  by (simp_all add: open_at_def pipe_at_def holds_at_def)

lemma stats_queues [simp]:
  "open_at b (e\<lparr>g_stats := st\<rparr>) = open_at b e" "pipe_at b (e\<lparr>g_stats := st\<rparr>) = pipe_at b e"
  "holds_at b (e\<lparr>g_stats := st\<rparr>) ms = holds_at b e ms"
  by (simp_all add: open_at_def pipe_at_def holds_at_def)

text \<open>
  A script that runs without error on messages it accepts, keeps the queue it is fed from, and
  has an effect \<open>upd\<close> on what is observed of the engine.
\<close>

locale script_end =
  fixes loop :: "'v lua_script" and a :: nat and inv :: "engine \<Rightarrow> bool" and okv :: "'v \<Rightarrow> bool"
    and obs :: "engine \<Rightarrow> 'x" and upd :: "'v \<Rightarrow> 'x \<Rightarrow> 'x"
  assumes run: "inv e \<Longrightarrow> okv v \<Longrightarrow> holds_at a e ms \<Longrightarrow>
      \<exists>e'. loop v e = (False, e') \<and> inv e' \<and> holds_at a e' ms \<and> obs e' = upd v (obs e) \<and> g_stats e' = g_stats e"
    and inv_put: "inv e \<Longrightarrow> inv (put_queue a q e) \<and> obs (put_queue a q e) = obs e"
    and inv_stats: "inv e \<Longrightarrow> inv (e\<lparr>g_stats := st\<rparr>) \<and> obs (e\<lparr>g_stats := st\<rparr>) = obs e"

locale input_end = script_end loop a inv okv obs upd
  for loop :: "byte list lua_script" and a inv okv and obs :: "engine \<Rightarrow> 'x" and upd

sublocale input_end \<subseteq> consumer: queue_consumer "input_message loop" a "\<lambda>_. True" okv
  "\<lambda>calls e. inv e \<and> g_stats e \<noteq> None" "\<lambda>calls e. (calls, obs e)" "\<lambda>m v. (fst v @ [m], upd m (snd v))"
proof (unfold_locales, goal_cases)
  case (1 r calls e m ms)
  obtain e' where e': "loop m e = (False, e')" "inv e'" "holds_at a e' ms" "obs e' = upd m (obs e)" "g_stats e' = g_stats e"
    using run [of e m ms] 1 by blast
  then show ?case using 1 inv_stats [OF e'(2)] by (auto simp: input_message_def)
next
  case (2 calls e q)
  then show ?case using inv_put by auto
qed

text \<open>What an analyzer gets: two packed values, of which the second goes to the script.\<close>

definition packed_pair :: "byte list \<Rightarrow> lua_val \<Rightarrow> byte list" where
  "packed_pair nm v = concat (map (mp_layout 0) [LString nm, v])"

definition carries :: "byte list \<Rightarrow> lua_val \<Rightarrow> bool" where
  "carries m v \<longleftrightarrow> (\<exists>x. mp_unpack m = Inr [x, v])"

lemma carries_unique: "carries m v \<Longrightarrow> carries m v' \<Longrightarrow> v = v'"
  by (auto simp: carries_def)

definition carried :: "byte list \<Rightarrow> lua_val" where
  "carried m = (case mp_unpack m of Inr [x, v] \<Rightarrow> v | _ \<Rightarrow> LNil)"

lemma carried_eq: "carries m v \<Longrightarrow> carried m = v"
  by (auto simp: carries_def carried_def)

lemma packed_pair_carries:
  assumes "\<forall>w \<in> set [LString nm, v]. mp_sized w \<and> mp_keys_ok w"
  shows "mp_pack [LString nm, v] = Inr (packed_pair nm v)" "carries (packed_pair nm v) (mp_image 0 v)"
proof -
  show "mp_pack [LString nm, v] = Inr (packed_pair nm v)"
    unfolding packed_pair_def by (rule mp_pack_layouts) (use assms in auto)
  have "mp_unpack (packed_pair nm v) = Inr (map (mp_image 0) [LString nm, v])"
    unfolding packed_pair_def by (rule unpack_all_layouts [OF assms]) simp
  then show "carries (packed_pair nm v) (mp_image 0 v)" by (simp add: carries_def)
qed

text \<open>One message leaves the stack of the analyzer as it was.\<close>

lemma analyzer_message_pair:
  assumes "carries m v" "loop v e = (False, e')"
  shows "analyzer_message loop r m (L, calls) e = Returned (False, (L, calls @ [v]),
    case g_stats e' of None \<Rightarrow> e' | Some st \<Rightarrow> e'\<lparr>g_stats := Some (st\<lparr>st_analysis := st_analysis st + 1\<rparr>)\<rparr>)"
  using assms
  by (auto simp: analyzer_message_def carries_def lua_insert1_def lua_push_def lua_remove1_def lua_insert_m2_def
      lua_pop_def nth_append Let_def)

locale analyzer_end = script_end loop a inv okv obs upd
  for loop :: "lua_val lua_script" and a inv okv and obs :: "engine \<Rightarrow> 'x" and upd + fixes L :: lua_stack

sublocale analyzer_end \<subseteq> consumer: queue_consumer "analyzer_message loop" a "\<lambda>_. True"
  "\<lambda>m. carries m (carried m) \<and> okv (carried m)" "\<lambda>s e. fst s = L \<and> inv e" "\<lambda>s e. (snd s, obs e)"
  "\<lambda>m v. (fst v @ [carried m], upd (carried m) (snd v))"
proof (unfold_locales, goal_cases)
  case (1 r s e m ms)
  obtain e' where e': "loop (carried m) e = (False, e')" "inv e'" "holds_at a e' ms"
      "obs e' = upd (carried m) (obs e)" "g_stats e' = g_stats e"
    using run [of e "carried m" ms] 1 by blast
  obtain calls where s: "s = (L, calls)" using 1 by (cases s) auto
  show ?case
    using 1 s analyzer_message_pair [of m "carried m" loop e e' r L calls] e' inv_stats [OF e'(2)]
    by (cases "g_stats e") auto
next
  case (2 s e q)
  then show ?case using inv_put by auto
qed

section \<open>Forwarding scripts\<close>

text \<open>An input script that hands every message to one analyzer, and an analyzer script that hands its value to one output.\<close>

definition lua_effect :: "(lua_result \<times> engine) proc \<Rightarrow> engine \<Rightarrow> bool \<times> engine" where
  "lua_effect r e = (case r of Returned (Inr vs, e') \<Rightarrow> (False, e') | Returned (Inl err, e') \<Rightarrow> (True, e') | _ \<Rightarrow> (True, e))"

definition analyze_script :: "lua_env \<Rightarrow> byte list \<Rightarrow> byte list lua_script" where
  "analyze_script env nm m e =
     lua_effect (analyze_event env (whole_send (packed_pair nm (LString m))) [LString nm, LString m] e) e"

definition output_script :: "lua_env \<Rightarrow> byte list \<Rightarrow> lua_val lua_script" where
  "output_script env nm v e =
     lua_effect (output_event env (whole_send (message_bytes env v)) [LString nm, v] e) e"

lemma analyzer_tagged_put [simp]: "analyzer_tagged (put_queue a q e) name j b = analyzer_tagged e name j b"
  by (simp add: analyzer_tagged_def)

lemma tagged_stats [simp]:
  "analyzer_tagged (e\<lparr>g_stats := st\<rparr>) name j b = analyzer_tagged e name j b"
  "output_tagged (e\<lparr>g_stats := st\<rparr>) name j b = output_tagged e name j b"
  by (simp_all add: analyzer_tagged_def output_tagged_def)

text \<open>A string whose packed pair with the name fits a message.\<close>

definition packs :: "byte list \<Rightarrow> byte list \<Rightarrow> bool" where
  "packs nm m \<longleftrightarrow> mp_sized (LString nm) \<and> mp_sized (LString m) \<and> length (packed_pair nm (LString m)) < MAX_BUFFER_SIZE"

lemma packs_pair:
  assumes "packs nm m"
  shows "mp_pack [LString nm, LString m] = Inr (packed_pair nm (LString m))"
    "carries (packed_pair nm (LString m)) (LString m)" "sendable (packed_pair nm (LString m))"
proof -
  have "\<forall>w \<in> set [LString nm, LString m]. mp_sized w \<and> mp_keys_ok w" using assms by (simp add: packs_def)
  note p = packed_pair_carries [OF this]
  show "mp_pack [LString nm, LString m] = Inr (packed_pair nm (LString m))" by (rule p(1))
  show c: "carries (packed_pair nm (LString m)) (LString m)" using p(2) by simp
  then have "packed_pair nm (LString m) \<noteq> []" by (auto simp: carries_def mp_unpack_def mp_unpack_full_def
      mp_cur_init_def mp_unpack_loop.simps)
  then show "sendable (packed_pair nm (LString m))"
    using assms by (simp add: packs_def sendable_def MAX_MESSAGE_SIZE_def MAX_BUFFER_SIZE_def)
qed

text \<open>The engine but for two queues and the statistics.\<close>

definition rest_of :: "nat \<Rightarrow> nat \<Rightarrow> engine \<Rightarrow> engine" where
  "rest_of a b e = e\<lparr>g_stats := None, g_queues := (g_queues e)(a := None, b := None)\<rparr>"

lemma rest_of_puts [simp]:
  "rest_of a b (put_queue a q e) = rest_of a b e" "rest_of a b (put_queue b q e) = rest_of a b e"
  "rest_of a b (e\<lparr>g_stats := st\<rparr>) = rest_of a b e"
  by (simp_all add: rest_of_def put_queue_def fun_upd_twist)

lemma rest_of_eq:
  assumes "rest_of a b e' = rest_of a b e"
  shows "g_world e' = g_world e" "output_tagged e' = output_tagged e" "analyzer_tagged e' = analyzer_tagged e"
    "c \<noteq> a \<Longrightarrow> c \<noteq> b \<Longrightarrow> open_at c e' = open_at c e" "c \<noteq> a \<Longrightarrow> c \<noteq> b \<Longrightarrow> pipe_at c e' = pipe_at c e"
proof -
  have eq: "g_world e' = g_world e" "g_output_list e' = g_output_list e" "g_analyzer_list e' = g_analyzer_list e"
    "(g_queues e')(a := None, b := None) = (g_queues e)(a := None, b := None)"
    using assms by (auto simp: rest_of_def engine.defs dest: arg_cong [of _ _ g_world] arg_cong [of _ _ g_output_list]
        arg_cong [of _ _ g_analyzer_list] arg_cong [of _ _ g_queues])
  show "g_world e' = g_world e" "output_tagged e' = output_tagged e" "analyzer_tagged e' = analyzer_tagged e"
    using eq by (simp_all add: output_tagged_def analyzer_tagged_def fun_eq_iff)
  assume "c \<noteq> a" "c \<noteq> b"
  then have "g_queues e' c = g_queues e c" using fun_cong [OF eq(4), of c] by simp
  then show "open_at c e' = open_at c e" "pipe_at c e' = pipe_at c e" by (simp_all add: open_at_def pipe_at_def)
qed

lemma analyze_script_sends:
  assumes "analyzer_tagged e (name_of nm) j b" "open_at b e" "packs nm m"
  shows "\<exists>q. analyze_script env nm m e = (False, put_queue b q e) \<and> open_at b (put_queue b q e) \<and>
    pipe_at b (put_queue b q e) = pipe_at b e @ msg_frame (packed_pair nm (LString m))"
  using send_to_open [OF assms(2) packs_pair(3) [OF assms(3)]] find_analyzer [OF assms(1)] assms(1)
    packs_pair(1) [OF assms(3)]
  by (auto simp: analyze_script_def lua_effect_def analyze_event_def lua_gettop_def luaL_checkstring_def
      lua_tolstring_def lua_at_def name_of_def analyzer_tagged_def)

lemma output_script_sends:
  assumes "output_tagged e (name_of nm) j b" "open_at b e" "sendable m"
  shows "\<exists>q. output_script env nm (LString m) e = (False, put_queue b q e) \<and> open_at b (put_queue b q e) \<and>
    pipe_at b (put_queue b q e) = pipe_at b e @ msg_frame m"
  using send_to_open [OF assms(2,3)] find_output [OF assms(1)] assms(1)
  by (auto simp: output_script_def lua_effect_def output_event_def lua_gettop_def luaL_checkstring_def
      lua_tolstring_def lua_at_def name_of_def output_tagged_def send_message_def message_bytes_def Let_def)

interpretation analyze_input: input_end "analyze_script env nm" a
  "\<lambda>e. a \<noteq> b \<and> analyzer_tagged e (name_of nm) j b \<and> open_at b e" "packs nm"
  "\<lambda>e. (pipe_at b e, rest_of a b e)" "\<lambda>m x. (fst x @ msg_frame (packed_pair nm (LString m)), snd x)" for env nm a b j
proof (unfold_locales, goal_cases)
  case (1 e m ms)
  then show ?case using analyze_script_sends [of e nm j b m env] by auto
qed simp_all

interpretation output_analyzer: analyzer_end "output_script env nm" a
  "\<lambda>e. a \<noteq> b \<and> output_tagged e (name_of nm) j b \<and> open_at b e" "\<lambda>v. \<exists>m. v = LString m \<and> sendable m"
  "\<lambda>e. (pipe_at b e, rest_of a b e)" "\<lambda>v x. (fst x @ msg_frame (message_bytes env v), snd x)" L for env nm a b j L
proof (unfold_locales, goal_cases)
  case (1 e v ms)
  then obtain m where m: "v = LString m" "sendable m" by auto
  then have "message_bytes env v = m" by (simp add: message_bytes_def lua_tolstring_def)
  then show ?case using output_script_sends [of e nm j b m env] 1 m by auto
qed simp_all


section \<open>Flywheels\<close>

definition fly_ok :: "fly_turn \<Rightarrow> bool" where
  "fly_ok r \<longleftrightarrow> ft_running r \<and> ft_send r = [(Transferred (4 + MAX_MESSAGE_SIZE), False)]"

lemma send_to_flush:
  assumes "open_at b e" "n = int (length m)" "sendable m"
  shows "\<exists>q. send_to (Some b) (m @ z) n [(Transferred (4 + MAX_MESSAGE_SIZE), False)] e =
      Returned (4 + int (length m), put_queue b q e) \<and>
    open_at b (put_queue b q e) \<and> pipe_at b (put_queue b q e) = pipe_at b e @ msg_frame m"
proof -
  obtain q where "g_queues e b = Some q" "\<not> cancel q" using assms(1) by (auto simp: open_at_def)
  then show ?thesis using assms(2,3)
    by (auto simp: send_to_def queue_at_def msgqueue_send_def open_at_def pipe_at_def sendable_def set_queue_put)
qed

text \<open>The handle \<open>h\<close> reads from a file in which these bytes are still to come.\<close>

definition reads_from :: "nat \<Rightarrow> byte list \<Rightarrow> io_world \<Rightarrow> bool" where
  "reads_from h bs w \<longleftrightarrow> (\<exists>dh fp. iw_heap w h = Some dh \<and> dh_io_type dh = DF_IN_FILE_TYPE \<and> dh_fp dh = Some fp \<and>
     drop (fst_pos fp) (fs_data (iw_fs w) (fst_inode fp)) = bs)"

lemma read_line_from:
  assumes "reads_from h (l @ 10 # bs) w" "text_line MAX_BUFFER_SIZE l"
  shows "\<exists>dh. dragonfly_io_read env (Some h) MAX_BUFFER_SIZE w =
      Returned (int (length l) + 1, l @ [0, 0], re_tail env, set_handle (Some h) dh w) \<and>
    reads_from h bs (set_handle (Some h) dh w)"
proof -
  obtain dh fp where dh: "iw_heap w h = Some dh" "dh_io_type dh = DF_IN_FILE_TYPE" "dh_fp dh = Some fp"
      "drop (fst_pos fp) (fs_data (iw_fs w) (fst_inode fp)) = l @ 10 # bs"
    using assms(1) by (auto simp: reads_from_def)
  let ?dh = "dh\<lparr>dh_fp := Some (fp\<lparr>fst_pos := fst_pos fp + length l + 1\<rparr>)\<rparr>"
  have "drop (fst_pos fp + length l + 1) (fs_data (iw_fs w) (fst_inode fp)) = drop (length l + 1) (l @ 10 # bs)"
    unfolding dh(4) [symmetric] by (simp add: add.commute add.left_commute)
  then have "reads_from h bs (set_handle (Some h) ?dh w)"
    using dh(2) by (simp add: reads_from_def set_handle_def)
  then show ?thesis
    using read_one_line [OF dh(3,4) assms(2)] dh(1,2)
    by (auto simp: dragonfly_io_read_def handle_at_def io_types)
qed

lemma flywheel_line:
  assumes "fly_ok r" "reads_from h (l @ 10 # bs) (g_world e)" "text_line MAX_BUFFER_SIZE l" "open_at a e"
  shows "\<exists>dh q. lua_flywheel_loop (Some a) (Some h) (r # rest) e =
      lua_flywheel_loop (Some a) (Some h) rest (put_queue a q (e\<lparr>g_world := set_handle (Some h) dh (g_world e)\<rparr>)) \<and>
    reads_from h bs (set_handle (Some h) dh (g_world e)) \<and>
    open_at a (put_queue a q e) \<and> pipe_at a (put_queue a q e) = pipe_at a e @ msg_frame (l @ [0])"
proof -
  obtain dh where dh: "dragonfly_io_read (ft_read r) (Some h) MAX_BUFFER_SIZE (g_world e) =
      Returned (int (length l) + 1, l @ [0, 0], re_tail (ft_read r), set_handle (Some h) dh (g_world e))"
      "reads_from h bs (set_handle (Some h) dh (g_world e))"
    using read_line_from [OF assms(2,3), of "ft_read r"] by blast
  let ?e = "e\<lparr>g_world := set_handle (Some h) dh (g_world e)\<rparr>"
  have o: "open_at a ?e" "pipe_at a ?e = pipe_at a e" using assms(4) by (simp_all add: open_at_def pipe_at_def)
  have s: "sendable (l @ [0])" "int (length l) + 1 \<noteq> int MAX_BUFFER_SIZE"
    using assms(3) by (auto simp: text_line_def sendable_def MAX_MESSAGE_SIZE_def MAX_BUFFER_SIZE_def)
  obtain q where q: "send_to (Some a) ((l @ [0]) @ [0]) (int (length l) + 1) (ft_send r) ?e =
        Returned (4 + int (length (l @ [0])), put_queue a q ?e)"
      "open_at a (put_queue a q ?e)" "pipe_at a (put_queue a q ?e) = pipe_at a ?e @ msg_frame (l @ [0])"
    using send_to_flush [OF o(1) _ s(1), of "int (length l) + 1" "[0]"] assms(1) by (auto simp: fly_ok_def)
  have "open_at a (put_queue a q e)" "pipe_at a (put_queue a q e) = pipe_at a e @ msg_frame (l @ [0])"
    using q(2,3) o(2) by (simp_all add: open_at_def pipe_at_def)
  moreover have "lua_flywheel_loop (Some a) (Some h) (r # rest) e = lua_flywheel_loop (Some a) (Some h) rest (put_queue a q ?e)"
    using dh(1) q(1) s(2) assms(1) by (simp add: fly_ok_def)
  ultimately show ?thesis using dh(2) by blast
qed

text \<open>The engine but for one queue and the handles.\<close>

definition same_but_input :: "nat \<Rightarrow> nat \<Rightarrow> engine \<Rightarrow> engine \<Rightarrow> bool" where
  "same_but_input a h e e' \<longleftrightarrow> (\<exists>dh q. e' = put_queue a q (e\<lparr>g_world := set_handle (Some h) dh (g_world e)\<rparr>))"

lemma same_but_input_trans:
  assumes "same_but_input a h e e1" "same_but_input a h e1 e2"
  shows "same_but_input a h e e2"
proof -
  obtain dh1 q1 dh2 q2 where "e1 = put_queue a q1 (e\<lparr>g_world := set_handle (Some h) dh1 (g_world e)\<rparr>)"
      "e2 = put_queue a q2 (e1\<lparr>g_world := set_handle (Some h) dh2 (g_world e1)\<rparr>)"
    using assms by (auto simp: same_but_input_def)
  then have "e2 = put_queue a q2 (e\<lparr>g_world := set_handle (Some h) dh2 (g_world e)\<rparr>)"
    by (simp add: put_queue_def set_handle_def)
  then show ?thesis by (auto simp: same_but_input_def)
qed

lemma same_but_input_refl:
  assumes "reads_from h bs (g_world e)" "open_at a e"
  shows "same_but_input a h e e"
proof -
  obtain dh q where "iw_heap (g_world e) h = Some dh" "g_queues e a = Some q"
    using assms by (auto simp: reads_from_def open_at_def)
  then have "e = put_queue a q (e\<lparr>g_world := set_handle (Some h) dh (g_world e)\<rparr>)"
    by (simp add: put_queue_def set_handle_def fun_upd_idem)
  then show ?thesis unfolding same_but_input_def by blast
qed

lemma flywheel_lines:
  assumes "length turns = length ls" "\<forall>r \<in> set turns. fly_ok r"
    "reads_from h (concat (map (\<lambda>l. l @ [10]) ls)) (g_world e)" "\<forall>l \<in> set ls. text_line MAX_BUFFER_SIZE l" "open_at a e"
  shows "\<exists>e'. lua_flywheel_loop (Some a) (Some h) (turns @ rest) e = lua_flywheel_loop (Some a) (Some h) rest e' \<and>
    same_but_input a h e e' \<and> reads_from h [] (g_world e') \<and> open_at a e' \<and>
    pipe_at a e' = pipe_at a e @ concat (map (\<lambda>l. msg_frame (l @ [0])) ls)"
  using assms
proof (induction ls arbitrary: turns e)
  case Nil
  then show ?case using same_but_input_refl [of h "[]" e a] by auto
next
  case (Cons l ls)
  obtain r rs where r: "turns = r # rs" "fly_ok r" "\<forall>r \<in> set rs. fly_ok r" "length rs = length ls"
    using Cons.prems(1,2) by (cases turns) auto
  obtain dh q where 1: "lua_flywheel_loop (Some a) (Some h) (r # rs @ rest) e = lua_flywheel_loop (Some a) (Some h) (rs @ rest)
        (put_queue a q (e\<lparr>g_world := set_handle (Some h) dh (g_world e)\<rparr>))" (is "_ = lua_flywheel_loop _ _ _ ?e")
      "reads_from h (concat (map (\<lambda>l. l @ [10]) ls)) (set_handle (Some h) dh (g_world e))"
      "open_at a (put_queue a q e)" "pipe_at a (put_queue a q e) = pipe_at a e @ msg_frame (l @ [0])"
    using flywheel_line [OF r(2), of h l "concat (map (\<lambda>l. l @ [10]) ls)" e a "rs @ rest"] Cons.prems
    by (auto simp del: lua_flywheel_loop.simps)
  have 2: "reads_from h (concat (map (\<lambda>l. l @ [10]) ls)) (g_world ?e)" "open_at a ?e"
      "pipe_at a ?e = pipe_at a e @ msg_frame (l @ [0])" "same_but_input a h e ?e"
    using 1(2-4) by (auto simp: open_at_def pipe_at_def same_but_input_def)
  obtain e' where "lua_flywheel_loop (Some a) (Some h) (rs @ rest) ?e = lua_flywheel_loop (Some a) (Some h) rest e'"
      "same_but_input a h ?e e'" "reads_from h [] (g_world e')" "open_at a e'"
      "pipe_at a e' = pipe_at a ?e @ concat (map (\<lambda>l. msg_frame (l @ [0])) ls)"
    using Cons.IH [OF r(4,3) 2(1) _ 2(2)] Cons.prems(4) by auto
  then show ?case using 1(1) 2(3) r(1) same_but_input_trans [OF 2(4)] by (auto simp del: lua_flywheel_loop.simps)
qed


section \<open>From the input file to the output file\<close>

lemma fold_input:
  "fold (\<lambda>m v. (fst v @ [m], (fst (snd v) @ f m, snd (snd v)))) ms (calls, x, r) = (calls @ ms, x @ concat (map f ms), r)"
  by (induction ms arbitrary: calls x) simp_all

lemma fold_analyzer:
  "fold (\<lambda>m v. (fst v @ [c m], (fst (snd v) @ f (c m), snd (snd v)))) ms (calls, x, r) =
    (calls @ map c ms, x @ concat (map (\<lambda>m. f (c m)) ms), r)"
  by (induction ms arbitrary: calls x) simp_all

definition turns_for :: "'a list \<Rightarrow> loop_turn list \<Rightarrow> bool" where
  "turns_for ms turns \<longleftrightarrow> length turns = length ms \<and> (\<forall>r \<in> set turns. whole_turn r \<and> lt_write r = good_write)"

text \<open>The input thread with the script that hands its messages to an analyzer.\<close>

lemma input_stage:
  assumes "turns_for ms turns" "\<not> lt_running stop" "\<forall>m \<in> set ms. packs nm m \<and> length m < MAX_BUFFER_SIZE"
    "holds_at a e ms" "a \<noteq> b" "analyzer_tagged e (name_of nm) j b" "holds_at b e []" "g_stats e \<noteq> None"
  shows "\<exists>e'. lua_input_loop (analyze_script env nm) (Some a) (turns @ [stop]) [] e = Returned (ms, e') \<and>
    holds_at a e' [] \<and> holds_at b e' (map (\<lambda>m. packed_pair nm (LString m)) ms) \<and> rest_of a b e' = rest_of a b e"
proof -
  have b: "open_at b e" "pipe_at b e = []" using assms(7) by (simp_all add: holds_at_iff)
  obtain calls e' where e': "recv_loop (input_message (analyze_script env nm)) (Some a) (turns @ [stop]) [] e = Returned (calls, e')"
      "open_at b e'" "holds_at a e' []"
      "(calls, pipe_at b e', rest_of a b e') = fold (\<lambda>m v. (fst v @ [m], (fst (snd v) @ msg_frame (packed_pair nm (LString m)), snd (snd v)))) ms
        ([], pipe_at b e, rest_of a b e)"
    using analyze_input.consumer.consumes_and_stops [where turns = turns and ms = ms and nm = nm and a = a and e = e and b = b and j = j and s = "[]" and stop = stop and env = env] assms b(1)
    by (auto simp: turns_for_def)
  have "calls = ms" "pipe_at b e' = concat (map (\<lambda>m. msg_frame (packed_pair nm (LString m))) ms)" "rest_of a b e' = rest_of a b e"
    using e'(4) b(2) by (simp_all add: fold_input)
  then show ?thesis using e'(1-3) assms(3) packs_pair(3)
    by (auto simp: lua_input_loop_def holds_at_iff comp_def)
qed

text \<open>The analyzer with the script that hands its values to an output.\<close>

lemma analyzer_stage:
  assumes "turns_for ms turns" "\<not> lt_running stop" "\<forall>m \<in> set ms. packs na m \<and> sendable m"
    "holds_at a e (map (\<lambda>m. packed_pair na (LString m)) ms)" "a \<noteq> b" "output_tagged e (name_of nm) j b" "holds_at b e []"
  shows "\<exists>e'. lua_analyzer_loop (output_script env nm) (Some a) (turns @ [stop]) (L, []) e = Returned ((L, map LString ms), e') \<and>
    holds_at a e' [] \<and> holds_at b e' ms \<and> rest_of a b e' = rest_of a b e"
proof -
  let ?ps = "map (\<lambda>m. packed_pair na (LString m)) ms"
  have b: "open_at b e" "pipe_at b e = []" using assms(7) by (simp_all add: holds_at_iff)
  have c: "carried (packed_pair na (LString m)) = LString m" "carries (packed_pair na (LString m)) (LString m)"
    if "m \<in> set ms" for m using packs_pair(2) [of na m] assms(3) that by (auto simp: carried_eq)
  have good: "\<forall>p \<in> set ?ps. (carries p (carried p) \<and> (\<exists>m. carried p = LString m \<and> sendable m)) \<and> length p < MAX_BUFFER_SIZE"
    using c assms(3) by (auto simp: packs_def)
  obtain s' e' where e': "recv_loop (analyzer_message (output_script env nm)) (Some a) (turns @ [stop]) (L, []) e = Returned (s', e')"
      "fst s' = L" "open_at b e'" "holds_at a e' []"
      "(snd s', pipe_at b e', rest_of a b e') = fold (\<lambda>m v. (fst v @ [carried m], (fst (snd v) @ msg_frame (message_bytes env (carried m)), snd (snd v)))) ?ps
        ([], pipe_at b e, rest_of a b e)"
    using output_analyzer.consumer.consumes_and_stops [where turns = turns and ms = ?ps and nm = nm and a = a and e = e and b = b and j = j and s = "(L, [])" and stop = stop and env = env and L = L] good assms b(1)
    by (auto simp: turns_for_def)
  have m: "map (\<lambda>m. carried (packed_pair na (LString m))) ms = map LString ms" using c(1) by simp
  have "map (\<lambda>m. msg_frame (message_bytes env (carried (packed_pair na (LString m))))) ms = map msg_frame ms"
    using c(1) by (simp add: message_bytes_def lua_tolstring_def)
  then have "snd s' = map LString ms" "pipe_at b e' = concat (map msg_frame ms)" "rest_of a b e' = rest_of a b e"
    using e'(5) b(2) m unfolding fold_analyzer [of carried "\<lambda>v. msg_frame (message_bytes env v)"]
    by (simp_all add: comp_def cong: map_cong)
  then show ?thesis using e'(1-4) assms(3)
    by (cases s') (auto simp: lua_analyzer_loop_def holds_at_iff)
qed

lemma holds_at_rest:
  assumes "rest_of a b e' = rest_of a b e" "c \<noteq> a" "c \<noteq> b"
  shows "holds_at c e' ms = holds_at c e ms"
  using rest_of_eq(4,5) [OF assms] by (simp add: holds_at_iff)

lemma same_but_input_keeps:
  assumes "same_but_input a h e e'"
  shows "h \<noteq> ho \<Longrightarrow> file_ready ho path (g_world e') = file_ready ho path (g_world e)"
    "file_view path (g_world e') = file_view path (g_world e)"
    "output_tagged e' = output_tagged e" "analyzer_tagged e' = analyzer_tagged e" "g_stats e' = g_stats e"
    "c \<noteq> a \<Longrightarrow> holds_at c e' ms = holds_at c e ms"
  using assms
  by (auto simp: same_but_input_def put_queue_def set_handle_def file_ready_def file_view_def output_tagged_def
      analyzer_tagged_def holds_at_def fun_eq_iff)


text \<open>
  C2. With an input script that hands its lines to an analyzer and an analyzer script that hands
  them to a file output, the lines of the input file arrive in the output file: every line once,
  in order and unchanged. On the way \<open>loop\<close> of the input is called with every line, and \<open>loop\<close> of
  the analyzer with the string that was packed from it, on an unchanged stack.
\<close>

theorem lines_travel:
  assumes "reads_from hi (concat (map (\<lambda>l. l @ [10]) ls)) (g_world e)" "file_ready ho path (g_world e)" "hi \<noteq> ho"
    "holds_at qi e []" "holds_at qa e []" "holds_at qo e []" "qi \<noteq> qa" "qa \<noteq> qo" "qi \<noteq> qo" "g_stats e \<noteq> None"
    "analyzer_tagged e (name_of na) ja qa" "output_tagged e (name_of no) jo qo"
    "\<forall>l \<in> set ls. text_line MAX_BUFFER_SIZE l \<and> packs na (l @ [0]) \<and> output_text (l @ [0])"
    "length fly = length ls" "\<forall>r \<in> set fly. fly_ok r" "\<not> ft_running fstop" "turns_for ls turns" "\<not> lt_running stop"
  shows "\<exists>e1 e2 e3 e4.
    lua_flywheel_loop (Some qi) (Some hi) (fly @ [fstop]) e = Returned e1 \<and>
    lua_input_loop (analyze_script env na) (Some qi) (turns @ [stop]) [] e1 = Returned (map (\<lambda>l. l @ [0]) ls, e2) \<and>
    lua_analyzer_loop (output_script env no) (Some qa) (turns @ [stop]) (L, []) e2 =
      Returned ((L, map (\<lambda>l. LString (l @ [0])) ls), e3) \<and>
    lua_output_loop (Some qo) (Some ho) (turns @ [stop]) e3 = Returned e4 \<and>
    file_view path (g_world e4) = file_view path (g_world e) @ concat (map (\<lambda>l. l @ [10]) ls)"
proof -
  define ms where "ms = map (\<lambda>l. l @ [0 :: byte]) ls"
  have small: "\<forall>m \<in> set ms. packs na m \<and> sendable m \<and> output_text m \<and> length m < MAX_BUFFER_SIZE"
    using assms(13) by (auto simp: ms_def text_line_def sendable_def MAX_MESSAGE_SIZE_def MAX_BUFFER_SIZE_def)
  have turns: "turns_for ms turns" using assms(17) by (simp add: ms_def turns_for_def)
  have qi: "open_at qi e" "pipe_at qi e = []" using assms(4) by (simp_all add: holds_at_iff)
  obtain e1 where e1: "lua_flywheel_loop (Some qi) (Some hi) (fly @ [fstop]) e = Returned e1"
      "same_but_input qi hi e e1" "open_at qi e1" "pipe_at qi e1 = concat (map (\<lambda>l. msg_frame (l @ [0])) ls)"
    using flywheel_lines [OF assms(14,15,1) _ qi(1), of "[fstop]"] qi(2) assms(13,16) by auto
  have h1: "holds_at qi e1 ms" using e1(3,4) small by (simp add: holds_at_iff ms_def comp_def)
  note k1 = same_but_input_keeps [OF e1(2)]
  obtain e2 where e2: "lua_input_loop (analyze_script env na) (Some qi) (turns @ [stop]) [] e1 = Returned (ms, e2)"
      "holds_at qa e2 (map (\<lambda>m. packed_pair na (LString m)) ms)" "rest_of qi qa e2 = rest_of qi qa e1"
    using input_stage [OF turns assms(18) _ h1 assms(7), of na ja env] small assms(5,7,10,11) k1 by auto
  have h2: "holds_at qo e2 []" "output_tagged e2 (name_of no) jo qo"
    using holds_at_rest [OF e2(3), of qo "[]"] rest_of_eq(2) [OF e2(3)] k1 assms(6,8,9,12) by auto
  obtain e3 where e3: "lua_analyzer_loop (output_script env no) (Some qa) (turns @ [stop]) (L, []) e2 =
        Returned ((L, map LString ms), e3)"
      "holds_at qo e3 ms" "rest_of qa qo e3 = rest_of qa qo e2"
    using analyzer_stage [OF turns assms(18) _ e2(2) assms(8) h2(2,1), of env L] small by auto
  have w: "g_world e3 = g_world e1" using rest_of_eq(1) [OF e3(3)] rest_of_eq(1) [OF e2(3)] by simp
  obtain e4 where e4: "lua_output_loop (Some qo) (Some ho) (turns @ [stop]) e3 = Returned e4"
      "file_view path (g_world e4) = file_view path (g_world e3) @ concat (map (\<lambda>m. bcstr (m @ [0]) @ [10]) ms)"
    using file_end.loop_writes [where turns = turns and ms = ms and stop = stop and a = qo and h = ho and path = path and e = e3]
      turns assms(2,3,18) small e3(2) w k1(1) by (auto simp: turns_for_def)
  have "map (\<lambda>m. bcstr (m @ [0]) @ [10]) ms = map (\<lambda>l. l @ [10]) ls"
    using assms(13) by (simp add: ms_def text_line_def bcstr_no_zero)
  then have "file_view path (g_world e4) = file_view path (g_world e) @ concat (map (\<lambda>l. l @ [10]) ls)"
    using e4(2) w k1(2) by simp
  then show ?thesis using e1(1) e2(1) e3(1) e4(1) by (auto simp: ms_def comp_def)
qed


definition copy_engine :: engine where
  "copy_engine = sample_engine\<lparr>g_world := sample_world\<lparr>iw_heap := (\<lambda>_. None)(7 := Some sample_out, 5 := Some sample_in)\<rparr>\<rparr>"

definition fly_turn_ok :: fly_turn where
  "fly_turn_ok = \<lparr>ft_running = True, ft_read = quiet_read, ft_send = [(Transferred (4 + MAX_MESSAGE_SIZE), False)]\<rparr>"

lemma copy_engine_facts:
  "reads_from 5 [65, 10] (g_world copy_engine)" "file_ready 7 ''/o'' (g_world copy_engine)"
  "a < 4 \<Longrightarrow> holds_at a copy_engine []" "g_stats copy_engine \<noteq> None"
  "analyzer_tagged copy_engine = analyzer_tagged sample_engine" "output_tagged copy_engine = output_tagged sample_engine"
  "file_view ''/o'' (g_world copy_engine) = [65, 10]"
  using sample_holds [of a] sample_open
  by (simp_all add: copy_engine_def reads_from_def sample_in_def file_ready_def sample_world_def sample_fs_def
      sample_out_def holds_at_def analyzer_tagged_def output_tagged_def fun_eq_iff file_view_def fs_contents_def)
    (simp add: sample_engine_def)

lemma sample_packs: "packs [0x6d, 0x6c] [65, 0]"
  by (simp add: packs_def packed_pair_def raw_header_def MAX_BUFFER_SIZE_def)

lemma sample_text: "output_text [65, 0]" "text_line MAX_BUFFER_SIZE [65]"
  by (auto simp: output_text_def strcasecmp_eq_def ROTATE_MESSAGE_def chars_of_def cstr_def NUL_def text_line_def
      MAX_BUFFER_SIZE_def dest!: arg_cong [of _ _ length])

theorem lines_travel_witness:
  "\<exists>e1 e2 e3 e4.
    lua_flywheel_loop (Some 0) (Some 5) [fly_turn_ok, fly_turn_ok\<lparr>ft_running := False\<rparr>] copy_engine = Returned e1 \<and>
    lua_input_loop (analyze_script sample_env [0x6d, 0x6c]) (Some 0) [good_turn, stop_turn] [] e1 = Returned ([[65, 0]], e2) \<and>
    lua_analyzer_loop (output_script sample_env (bytes_of ''eve'')) (Some 3) [good_turn, stop_turn] ([], []) e2 =
      Returned (([], [LString [65, 0]]), e3) \<and>
    lua_output_loop (Some 2) (Some 7) [good_turn, stop_turn] e3 = Returned e4 \<and>
    file_view ''/o'' (g_world e4) = [65, 10, 65, 10]"
  using lines_travel [where hi = 5 and ls = "[[65]]" and e = copy_engine and ho = 7 and path = "''/o''" and qi = 0 and qa = 3
      and qo = 2 and na = "[0x6d, 0x6c]" and ja = 0 and no = "bytes_of ''eve''" and jo = 2 and fly = "[fly_turn_ok]"
      and fstop = "fly_turn_ok\<lparr>ft_running := False\<rparr>" and turns = "[good_turn]" and stop = stop_turn and L = "[]"
      and env = sample_env] sample_analyzer sample_tagged sample_packs sample_text
  by (simp add: copy_engine_facts fly_turn_ok_def fly_ok_def turns_for_def whole_turn_def good_turn_def stop_turn_def
      del: lua_flywheel_loop.simps)

end
