(* ===== verification/PipelineFaults.thy ===== *)
theory PipelineFaults
  imports PipelineProps
begin

text \<open>
  Rotation and timers on their way through the engine, and the cases in which messages are lost,
  repeated or read past their end.
\<close>

section \<open>Timers\<close>

definition disarmed :: "mle_timer \<Rightarrow> mle_timer" where
  "disarmed t = t\<lparr>mt_epoch := 0, mt_length := 0, mt_msgpack := None\<rparr>"

definition timer_due :: "int \<Rightarrow> mle_timer \<Rightarrow> bool" where
  "timer_due now t \<longleftrightarrow> 0 < mt_epoch t \<and> mt_epoch t \<le> now"

lemma send_to_timers:
  assumes "send_to p b n evs e = Returned (k, e')"
  shows "g_timer_list e' = g_timer_list e"
  using assms by (auto simp: send_to_def proc_bind_Returned proc_map_Returned set_queue_def split: option.splits)

lemma fire_timer_list:
  "fire_timer evs i e = Returned e' \<Longrightarrow> g_timer_list e' = (g_timer_list e)[i := disarmed (g_timer_list e ! i)]"
  using send_to_timers by (auto simp: fire_timer_def proc_map_Returned disarmed_def Let_def)

lemma sweep_from:
  assumes "timer_sweep r [i..<n] e = Returned e'" "k < n"
    "\<forall>j < k. mt_tag (g_timer_list e ! j) \<noteq> None" "mt_tag (g_timer_list e ! k) = None" "i \<le> k" "k < length (g_timer_list e)"
  shows "length (g_timer_list e') = length (g_timer_list e) \<and>
    (\<forall>j < length (g_timer_list e). g_timer_list e' ! j =
      (if i \<le> j \<and> j < k \<and> timer_due (tt_now r) (g_timer_list e ! j) then disarmed (g_timer_list e ! j) else g_timer_list e ! j))"
  using assms
proof (induction "k - i" arbitrary: i e)
  case 0
  then have "i = k" by simp
  moreover have "[i..<n] = i # [Suc i..<n]" using \<open>i = k\<close> "0.prems"(2) by (simp add: upt_conv_Cons)
  ultimately show ?case using "0.prems" by (auto simp: Let_def)
next
  case (Suc d)
  then have i: "i < k" "[i..<n] = i # [Suc i..<n]" by (simp_all add: upt_conv_Cons)
  have tag: "mt_tag (g_timer_list e ! i) \<noteq> None" using Suc.prems(3) i(1) by simp
  show ?case
  proof (cases "timer_due (tt_now r) (g_timer_list e ! i)")
    case True
    then obtain e1 where e1: "fire_timer (tt_send r i) i e = Returned e1" "timer_sweep r [Suc i..<n] e1 = Returned e'"
      using Suc.prems(1) tag i(2) by (auto simp: Let_def timer_due_def proc_bind_Returned)
    note l = fire_timer_list [OF e1(1)]
    have "mt_tag (disarmed t) = mt_tag t" for t by (simp add: disarmed_def)
    then have "\<forall>j < k. mt_tag (g_timer_list e1 ! j) \<noteq> None" "mt_tag (g_timer_list e1 ! k) = None"
      using Suc.prems(3,4,6) i(1) by (auto simp: l nth_list_update)
    then show ?thesis
      using Suc.hyps(1) [of "Suc i" e1] Suc.hyps(2) e1(2) Suc.prems(2,6) i(1) True by (auto simp: l nth_list_update)
  next
    case False
    then have "timer_sweep r [Suc i..<n] e = Returned e'"
      using Suc.prems(1) tag i(2) by (auto simp: Let_def timer_due_def)
    note sweep = this
    have "d = k - Suc i" "Suc i \<le> k" using Suc.hyps(2) by simp_all
    note IH = Suc.hyps(1) [OF this(1) sweep Suc.prems(2-4) this(2) Suc.prems(6)]
    have "(Suc i \<le> j \<and> X) = (i \<le> j \<and> X)" if "j = i \<Longrightarrow> \<not> X" for j X using that by (auto simp: Suc_le_eq le_less)
    then show ?thesis using IH False by simp
  qed
qed

text \<open>
  After a sweep no timer is due any more: those that were are disarmed, and those that were
  not, are as before.
\<close>

theorem sweep_disarms_due:
  assumes "timer_sweep r [0..<MAX_ANALYZER_STREAMS] e = Returned e'" "length (g_timer_list e) = MAX_ANALYZER_STREAMS"
    "k < MAX_ANALYZER_STREAMS" "\<forall>j < k. mt_tag (g_timer_list e ! j) \<noteq> None" "mt_tag (g_timer_list e ! k) = None" "j < k"
  shows "\<not> timer_due (tt_now r) (g_timer_list e' ! j) \<and>
    (\<not> timer_due (tt_now r) (g_timer_list e ! j) \<longrightarrow> g_timer_list e' ! j = g_timer_list e ! j)"
  using sweep_from [OF assms(1,3,4,5)] assms(2,3,6) by (auto simp: disarmed_def timer_due_def)

lemma fire_timer_sends:
  assumes "g_timer_list e ! i = t" "mt_queue t = Some a" "mt_msgpack t = Some (s @ [0])" "mt_length t = length s"
    "open_at a e" "sendable s"
  shows "\<exists>e'. fire_timer [(Transferred (4 + MAX_MESSAGE_SIZE), False)] i e = Returned e' \<and> open_at a e' \<and>
    pipe_at a e' = pipe_at a e @ msg_frame s \<and> g_timer_list e' = (g_timer_list e)[i := disarmed t]"
  using send_to_flush [OF assms(5) _ assms(6), of "int (length s)" "[0]"] assms(1-4)
  by (auto simp: fire_timer_def Let_def disarmed_def open_at_def pipe_at_def)

text \<open>
  The message of a timer is copied up to its first zero byte, but its full length is sent: the
  bytes behind the copy are read.
\<close>

lemma timer_message_overread:
  assumes "g_timer_list e ! i = t" "mt_queue t = Some a" "mt_msgpack t = Some (bcstr s @ [0])" "mt_length t = length s"
    "open_at a e" "length (bcstr s) + 1 < length s" "length s \<le> MAX_MESSAGE_SIZE"
  shows "fire_timer evs i e = Undefined ''read beyond the message''"
  using assms
  by (auto simp: fire_timer_def send_to_def queue_at_def open_at_def msgqueue_send_def Let_def MAX_MESSAGE_SIZE_def)

text \<open>The three values of a timer message leave one value more on the stack of the analyzer.\<close>

lemma timer_message_leaks:
  assumes "mp_unpack m = Inr [x, y, v]" "loop v e = (False, e')" "g_stats e' = None"
  shows "analyzer_message loop r m (L, calls) e = Returned (False, (L @ [x], calls @ [v]), e')"
  using assms
  by (auto simp: analyzer_message_def lua_insert1_def lua_push_def lua_remove1_def lua_insert_m2_def lua_pop_def
      nth_append Let_def)

section \<open>Messages that are lost or repeated\<close>

text \<open>A message of exactly the size of the buffer is taken for one that is too long.\<close>

lemma full_message_dropped:
  assumes "whole_turn r" "holds_at a e (m # ms)" "length m = MAX_BUFFER_SIZE"
  shows "\<exists>e'. recv_loop body (Some a) (r # rest) s e = recv_loop body (Some a) rest s e' \<and> holds_at a e' ms"
proof -
  obtain q where "recv_from (Some a) MAX_BUFFER_SIZE whole_recv e = Returned (int (length m), m, put_queue a q e)"
      "holds_at a (put_queue a q e) ms"
    using recv_from_whole [OF assms(2)] by blast
  then show ?thesis using assms(1,3) by (auto simp: whole_turn_def MAX_BUFFER_SIZE_def)
qed

text \<open>At the end of a file the flywheel sends an empty message in every turn, without end.\<close>

lemma read_at_end:
  assumes "reads_from h [] w"
  shows "\<exists>dh. dragonfly_io_read env (Some h) MAX_BUFFER_SIZE w = Returned (0, [], re_tail env, set_handle (Some h) dh w) \<and>
    reads_from h [] (set_handle (Some h) dh w)"
  using assms
  by (auto simp: reads_from_def dragonfly_io_read_def handle_at_def io_types file_read_line_def fgets_bytes_def set_handle_def)

lemma flywheel_floods:
  assumes "fly_ok r" "reads_from h [] (g_world e)" "open_at a e"
  shows "\<exists>e'. lua_flywheel_loop (Some a) (Some h) (r # rest) e = lua_flywheel_loop (Some a) (Some h) rest e' \<and>
    reads_from h [] (g_world e') \<and> open_at a e' \<and> pipe_at a e' = pipe_at a e @ msg_frame []"
proof -
  obtain dh where dh: "dragonfly_io_read (ft_read r) (Some h) MAX_BUFFER_SIZE (g_world e) =
      Returned (0, [], re_tail (ft_read r), set_handle (Some h) dh (g_world e))"
      "reads_from h [] (set_handle (Some h) dh (g_world e))"
    using read_at_end [OF assms(2), of "ft_read r"] by blast
  obtain q where q: "g_queues e a = Some q" "\<not> cancel q" using assms(3) by (auto simp: open_at_def)
  show ?thesis using assms(1) dh q
    by (auto simp: fly_ok_def send_to_def queue_at_def msgqueue_send_def set_queue_put MAX_BUFFER_SIZE_def
        MAX_MESSAGE_SIZE_def msg_frame_def le_bytes_def open_at_def pipe_at_def)
qed

text \<open>When the loop of a flywheel ends, its thread asks for the kind of the handle it has just freed.\<close>

lemma flywheel_thread_frees:
  assumes "in_uri input = Some uri" "dragonfly_io_open env uri DF_IN (g_world e) = Returned (Some h, w)"
    "lua_flywheel_loop (in_queue input) (Some h) turns (e\<lparr>g_world := w\<rparr>) = Returned e1"
    "iw_heap (g_world e1) h = Some dh" "\<not> close_keeps (dh_io_type dh)"
  shows "lua_flywheel_thread input ((True, env, turns) # rest) e = Undefined ''use of a freed handle''"
  using assms isfile_after_close [OF assms(4,5)]
  by (simp add: Let_def) (simp add: dragonfly_io_close_def handle_at_def close_keeps_def)

section \<open>Rotation\<close>

lemma cstr_terminated: "cstr (chars_of (bytes_of s @ [0])) = cstr s"
proof -
  have "chars_of (bytes_of s @ [0]) = s @ [char_of (0 :: nat)]"
    using chars_of_bytes_of [of s] by (simp add: chars_of_def)
  moreover have "char_of (0 :: nat) = NUL" unfolding NUL_def by code_simp
  moreover have "cstr (s @ [NUL]) = cstr s" by (induction s) (simp_all add: cstr_def)
  ultimately show ?thesis by simp
qed

text \<open>
  The rotation message makes the output thread rotate its file: what was written is then
  under the time-stamped name, the output path is a new, empty file, and the thread goes on with
  that; other messages of the queue are untouched, and none is counted.
\<close>

theorem rotate_message_rotates:
  assumes "whole_turn r" "lt_rename r" "holds_at a e (bytes_of ROTATE_MESSAGE # ms)" "file_ready h path (g_world e)"
    "rotated_path path (lt_time r) \<noteq> path"
  shows "\<exists>e'. recv_loop output_message (Some a) (r # rest) (Some h) e = recv_loop output_message (Some a) rest (Some h) e' \<and>
    holds_at a e' ms \<and> file_ready h path (g_world e') \<and> file_view path (g_world e') = [] \<and> g_stats e' = g_stats e \<and>
    fs_contents (iw_fs (g_world e')) (rotated_path path (lt_time r)) = fs_contents (iw_fs (g_world e)) path"
proof -
  obtain q where q: "recv_from (Some a) MAX_BUFFER_SIZE whole_recv e =
        Returned (int (length (bytes_of ROTATE_MESSAGE)), bytes_of ROTATE_MESSAGE, put_queue a q e)"
      "holds_at a (put_queue a q e) ms"
    using recv_from_whole [OF assms(3)] by blast
  obtain dh where dh: "iw_heap (g_world e) h = Some dh" "dh_path dh = path" "open_output dh (iw_fs (g_world e))"
    using assms(4) by (auto simp: file_ready_def)
  obtain dh' f where f: "file_rotate (lt_time r) True dh (iw_fs (g_world e)) = (0, dh', f)" "open_output dh' f"
      "dh_path dh' = path" "fs_contents f (rotated_path path (lt_time r)) = fs_contents (iw_fs (g_world e)) path"
      "fs_contents f path = Some []"
    using rotate_file [OF dh(3), of "lt_time r"] assms(5) dh(2) by auto
  have rot: "dragonfly_io_rotate (lt_time r) (lt_rename r) (Some h) (g_world e) =
      Returned ((set_handle (Some h) dh' (g_world e))\<lparr>iw_fs := f\<rparr>)"
    using dh(1) f(1) open_output_type [OF dh(3)] assms(2) by (simp add: dragonfly_io_rotate_def handle_at_def)
  have is_rotate: "strcasecmp_eq (chars_of (bytes_of ROTATE_MESSAGE @ [0])) ROTATE_MESSAGE"
    by (simp add: strcasecmp_eq_def cstr_terminated)
  show ?thesis
    using assms(1) q rot is_rotate f
    by (auto simp: whole_turn_def ROTATE_MESSAGE_def MAX_BUFFER_SIZE_def output_message_def file_ready_def set_handle_def
        file_view_def holds_at_def)
qed


section \<open>A timer from its event to its message\<close>



definition armed_engine :: engine where
  "armed_engine = sample_engine\<lparr>g_timer_list := \<lparr>mt_epoch = 5, mt_length = 1, mt_tag = Some ''t'',
     mt_msgpack = Some [65, 0], mt_queue = Some 0\<rparr> # replicate 15 timer_zero\<rparr>"

definition sample_timer_turn :: timer_turn where
  "sample_timer_turn = \<lparr>tt_running = True, tt_now = 9, tt_gmtime = sample_tm,
     tt_send = \<lambda>_. [(Transferred (4 + MAX_MESSAGE_SIZE), False)], tt_stats = []\<rparr>"

lemma armed_sweep: "\<exists>e'. timer_sweep sample_timer_turn [0..<MAX_ANALYZER_STREAMS] armed_engine = Returned e'"
proof -
  have "open_at 0 armed_engine" by (simp add: armed_engine_def sample_engine_def open_at_def sample_queue_def)
  then obtain e1 where e1: "fire_timer [(Transferred (4 + MAX_MESSAGE_SIZE), False)] 0 armed_engine = Returned e1"
      "g_timer_list e1 = (g_timer_list armed_engine)[0 := disarmed (g_timer_list armed_engine ! 0)]"
    using fire_timer_sends [of armed_engine 0 "g_timer_list armed_engine ! 0" 0 "[65]"]
    by (auto simp: armed_engine_def sendable_def MAX_MESSAGE_SIZE_def)
  have "[0..<MAX_ANALYZER_STREAMS] = 0 # 1 # [2..<16]"
    by (simp add: MAX_ANALYZER_STREAMS_def upt_conv_Cons numeral_2_eq_2)
  then show ?thesis using e1
    by (simp add: sample_timer_turn_def Let_def armed_engine_def timer_zero_def)
qed

theorem sweep_disarms_due_witness:
  "\<exists>e'. timer_sweep sample_timer_turn [0..<MAX_ANALYZER_STREAMS] armed_engine = Returned e' \<and>
    timer_due 9 (g_timer_list armed_engine ! 0) \<and> \<not> timer_due 9 (g_timer_list e' ! 0)"
proof -
  obtain e' where e': "timer_sweep sample_timer_turn [0..<MAX_ANALYZER_STREAMS] armed_engine = Returned e'"
    using armed_sweep by blast
  show ?thesis using sweep_disarms_due [OF e', of 1 0] e'
    by (auto simp: armed_engine_def MAX_ANALYZER_STREAMS_def timer_zero_def sample_timer_turn_def timer_due_def)
qed

theorem rotate_message_rotates_witness:
  "\<exists>e'. recv_loop output_message (Some 2) [good_turn, stop_turn] (Some 7)
      (put_queue 2 (sample_queue\<lparr>pipe_bytes := msg_frame (bytes_of ROTATE_MESSAGE)\<rparr>) file_engine) = Returned (Some 7, e') \<and>
    file_view ''/o'' (g_world e') = []"
proof -
  let ?e = "put_queue 2 (sample_queue\<lparr>pipe_bytes := msg_frame (bytes_of ROTATE_MESSAGE)\<rparr>) file_engine"
  have h: "holds_at 2 ?e [bytes_of ROTATE_MESSAGE]"
    by (simp add: holds_at_def holds_msgs_def sample_queue_def sendable_def MAX_MESSAGE_SIZE_def ROTATE_MESSAGE_def)
  have f: "file_ready 7 ''/o'' (g_world ?e)" using file_engine_ready by simp
  have r: "rotated_path ''/o'' (lt_time good_turn) \<noteq> ''/o''" by (simp add: good_turn_def sample_rotated)
  have t: "whole_turn good_turn" "lt_rename good_turn" by (simp_all add: whole_turn_def good_turn_def)
  obtain e' where "recv_loop output_message (Some 2) (good_turn # [stop_turn]) (Some 7) ?e =
      recv_loop output_message (Some 2) [stop_turn] (Some 7) e'" "file_view ''/o'' (g_world e') = []"
    using rotate_message_rotates [OF t h f r, of "[stop_turn]"] by blast
  then show ?thesis by (auto simp: stop_turn_def good_turn_def)
qed

end
