(* ===== verification/Lifecycle.thy ===== *)
theory Lifecycle
  imports Pipeline WebService
begin

text \<open>
  Start and end of the engine in \<open>dragonfly-lib.c\<close>: reading the configuration, creating the
  queues, starting the threads of both processes, and taking everything down again. What the
  system answers is the environment; a thread that is started is recorded by what it runs on.
\<close>

section \<open>State and environment\<close>

datatype thread =
    InputThread nat | FlywheelThread nat | OutputThread nat | AnalyzerThread nat | TimerThread

record mle =
  m_engine :: engine
  m_next_queue :: nat                 \<comment> \<open>the next unused queue address\<close>
  g_verbose :: bool
  g_initialized :: bool
  g_root_dir :: string
  m_log_dir :: string
  m_filter_dir :: string
  m_analyzer_dir :: string
  m_config_file :: string
  g_redis_host :: "string option"
  g_redis_port :: int
  g_num_analyzer_threads :: nat
  g_num_input_threads :: nat
  g_num_flywheel_threads :: nat
  g_num_output_threads :: nat
  g_analyzer_pid :: int
  g_io_thread :: "thread list"
  g_analyzer_thread :: "thread list"

datatype file_kind = RegularFile | Directory | CharDevice | OtherFile

text \<open>The configuration script cannot be read, fails, or leaves its globals.\<close>

datatype config_script = ConfigUnreadable | ConfigFails | ConfigGlobals lua_globals

record start_env =
  sv_isatty :: bool
  sv_lstat :: "string \<Rightarrow> file_kind option"
  sv_mkdir :: "string \<Rightarrow> errno option"
  sv_config :: "string \<Rightarrow> config_script"
  sv_num2str :: "u64 \<Rightarrow> byte list"
  sv_redis :: "string \<Rightarrow> int \<Rightarrow> bool"
  sv_module :: "string \<Rightarrow> bool"
  sv_chdir :: "string \<Rightarrow> bool"
  sv_pipe :: "string \<Rightarrow> bool"
  sv_mmap :: bool
  sv_fork :: int
  sv_thread :: "thread \<Rightarrow> bool"
  sv_nobody :: bool                   \<comment> \<open>the user exists\<close>
  sv_setuid :: bool
  sv_chroot :: "string \<Rightarrow> bool"
  sv_stops :: bool                    \<comment> \<open>\<open>g_running\<close> becomes 0 some time\<close>

definition DRAGONFLY_ROOT_DIR :: string where "DRAGONFLY_ROOT_DIR = ''/usr/local/dragonfly-mle''"
definition CONFIG_FILE :: string where "CONFIG_FILE = ''config/config.lua''"
definition ANALYZER_DIR :: string where "ANALYZER_DIR = ''analyzer''"
definition FILTER_DIR :: string where "FILTER_DIR = ''filter''"
definition QUEUE_INPUT :: string where "QUEUE_INPUT = ''/input_queue''"
definition QUEUE_OUTPUT :: string where "QUEUE_OUTPUT = ''/output_queue''"
definition QUEUE_ANALYZER :: string where "QUEUE_ANALYZER = ''/analyzer_queue''"

definition IO_THREADS :: nat where "IO_THREADS = MAX_INPUT_STREAMS * 2 + MAX_OUTPUT_STREAMS"

section \<open>Configuration\<close>

definition destroy_configuration :: "mle \<Rightarrow> mle" where
  "destroy_configuration m =
     (if g_initialized m then
        m\<lparr>g_initialized := False, g_num_analyzer_threads := 0, g_num_input_threads := 0, g_num_flywheel_threads := 0,
          g_num_output_threads := 0, g_io_thread := [],
          m_engine := (m_engine m)\<lparr>g_analyzer_list := replicate MAX_ANALYZER_STREAMS analyzer_zero,
            g_input_list := replicate MAX_INPUT_STREAMS input_zero,
            g_output_list := replicate MAX_OUTPUT_STREAMS output_zero\<rparr>\<rparr>
      else m)"

text \<open>\<open>strncpy\<close> into an array of \<open>PATH_MAX\<close> bytes that is then read as a string.\<close>

definition copy_path :: "string \<Rightarrow> string proc" where
  "copy_path p = (if strlen p < PATH_MAX then Returned (cstr p) else Undefined ''path not terminated'')"

definition require :: "bool \<Rightarrow> unit proc" where
  "require b = (if b then Returned () else Exited EXIT_FAILURE)"

definition below :: "string \<Rightarrow> string \<Rightarrow> string" where
  "below dir name = snprintf PATH_MAX (dir @ ''/'' @ name)"

text \<open>The log directory is made unless it is a character device; that it is there already is no error.\<close>

definition log_dir_ok :: "start_env \<Rightarrow> string \<Rightarrow> bool" where
  "log_dir_ok env d \<longleftrightarrow> sv_lstat env d = Some CharDevice \<or> sv_mkdir env d = None \<or> sv_mkdir env d = Some EEXIST"

text \<open>The tables from the globals of \<open>config.lua\<close>. Redis is optional.\<close>

definition load_configuration :: "start_env \<Rightarrow> lua_globals \<Rightarrow> mle \<Rightarrow> mle proc" where
  "load_configuration env G m =
     (let is_reg = (\<lambda>p. sv_lstat env p = Some RegularFile);
          port = (case lua_tolstring (sv_num2str env) (G ''redis_port'') of
                    None \<Rightarrow> g_redis_port m | Some s \<Rightarrow> atoi (chars_of s));
          host = (case lua_tolstring (sv_num2str env) (G ''redis_host'') of
                    None \<Rightarrow> ''127.0.0.1'' | Some s \<Rightarrow> strdup (chars_of s));
          m = m\<lparr>g_redis_port := port, g_redis_host := Some host\<rparr> in
      proc_bind (load_redis (sv_redis env host port) (sv_module env) G) (\<lambda>_.
      proc_bind (load_analyzers_config is_reg G (m_analyzer_dir m) (g_analyzer_list (m_engine m)) MAX_ANALYZER_STREAMS)
        (\<lambda>(na, ans). proc_bind (require (0 < na)) (\<lambda>_.
      proc_bind (load_outputs_config G (g_output_list (m_engine m)) MAX_OUTPUT_STREAMS)
        (\<lambda>(no, outs). proc_bind (require (0 < no)) (\<lambda>_.
      proc_bind (load_inputs_config is_reg G (m_filter_dir m) (g_input_list (m_engine m)) MAX_INPUT_STREAMS)
        (\<lambda>(ni, ins). proc_bind (require (0 < ni)) (\<lambda>_.
      proc_bind (load_responder_config G (g_responder_list (m_engine m)) MAX_RESPONDER_COMMANDS)
        (\<lambda>(nr, rs).
      Returned (m\<lparr>g_num_analyzer_threads := na, g_num_output_threads := no, g_num_input_threads := ni,
        g_initialized := True,
        m_engine := (m_engine m)\<lparr>g_analyzer_list := ans, g_output_list := outs, g_input_list := ins,
          g_responder_list := rs\<rparr>\<rparr>))))))))))"

text \<open>The tables are cleared, the directories found, and the configuration read; \<open>g_verbose\<close> is set anew.\<close>

definition initialize_configuration :: "start_env \<Rightarrow> string \<Rightarrow> string option \<Rightarrow> mle \<Rightarrow> mle proc" where
  "initialize_configuration env rootdir logdir m =
     (let m = m\<lparr>g_verbose := sv_isatty env, g_num_analyzer_threads := 0, g_num_input_threads := 0,
            g_num_flywheel_threads := 0, g_num_output_threads := 0, g_io_thread := [], g_analyzer_thread := [],
            m_engine := (m_engine m)\<lparr>g_analyzer_list := replicate MAX_ANALYZER_STREAMS analyzer_zero,
              g_input_list := replicate MAX_INPUT_STREAMS input_zero,
              g_output_list := replicate MAX_OUTPUT_STREAMS output_zero, g_stats := None\<rparr>\<rparr> in
      proc_bind (copy_path (if cstr rootdir = [] then DRAGONFLY_ROOT_DIR else rootdir)) (\<lambda>root.
      proc_bind (require (sv_lstat env root = Some Directory)) (\<lambda>_.
      proc_bind (copy_path (case logdir of None \<Rightarrow> DRAGONFLY_LOG_DIR | Some d \<Rightarrow> d)) (\<lambda>log.
      let e = m_engine m;
          m = m\<lparr>g_root_dir := root, m_log_dir := log, m_config_file := below root CONFIG_FILE,
            m_analyzer_dir := below root ANALYZER_DIR, m_filter_dir := below root FILTER_DIR,
            m_engine := e\<lparr>g_world := (g_world e)\<lparr>iw_dirs := dragonfly_io_set_logdir log (iw_dirs (g_world e))\<rparr>\<rparr>\<rparr> in
      proc_bind (require (log_dir_ok env log)) (\<lambda>_.
      proc_bind (require (sv_lstat env (m_config_file m) = Some RegularFile)) (\<lambda>_.
      proc_bind (require (sv_lstat env (m_analyzer_dir m) = Some Directory)) (\<lambda>_.
      proc_bind (require (sv_lstat env (m_filter_dir m) = Some Directory)) (\<lambda>_.
      case sv_config env (m_config_file m) of
        ConfigUnreadable \<Rightarrow> Exited EXIT_FAILURE
      | ConfigFails \<Rightarrow> Exited EXIT_FAILURE
      | ConfigGlobals G \<Rightarrow> load_configuration env G m))))))))"

section \<open>Queues\<close>

type_synonym queue_heap = "nat \<times> (nat \<Rightarrow> queue_t option)"

definition new_queue :: "start_env \<Rightarrow> string \<Rightarrow> queue_heap \<Rightarrow> (nat \<times> queue_heap) proc" where
  "new_queue env name h =
     proc_map (\<lambda>q. (fst h, (fst h + 1, (snd h)(fst h := Some q)))) (msgqueue_create name (sv_pipe env name) True True)"

text \<open>One queue for every element of a table that is in use.\<close>

fun create_queues :: "start_env \<Rightarrow> string \<Rightarrow> ('r \<Rightarrow> bool) \<Rightarrow> (nat \<Rightarrow> 'r \<Rightarrow> 'r) \<Rightarrow> nat \<Rightarrow> 'r list \<Rightarrow> queue_heap
    \<Rightarrow> ('r list \<times> queue_heap) proc" where
  "create_queues env prefix used set_q i [] h = Returned ([], h)"
| "create_queues env prefix used set_q i (r # rs) h =
     (if used r then
        proc_bind (new_queue env (prefix @ ''-'' @ show_nat i) h) (\<lambda>(a, h).
        proc_map (apfst (Cons (set_q a r))) (create_queues env prefix used set_q (i + 1) rs h))
      else proc_map (apfst (Cons r)) (create_queues env prefix used set_q (i + 1) rs h))"

text \<open>There is one worker for every input (\<open>MAX_WORKER_THREADS\<close> is 1).\<close>

definition create_message_queues :: "start_env \<Rightarrow> mle \<Rightarrow> mle proc" where
  "create_message_queues env m =
     (let e = m_engine m in
      proc_bind (create_queues env QUEUE_ANALYZER (\<lambda>r. an_script r \<noteq> None) (\<lambda>a r. r\<lparr>an_queue := Some a\<rparr>) 0
          (g_analyzer_list e) (m_next_queue m, g_queues e)) (\<lambda>(ans, h).
      proc_bind (create_queues env QUEUE_INPUT (\<lambda>r. in_uri r \<noteq> None) (\<lambda>a r. r\<lparr>in_queue := Some a\<rparr>) 0
          (g_input_list e) h) (\<lambda>(ins, h).
      proc_bind (create_queues env QUEUE_OUTPUT (\<lambda>r. out_uri r \<noteq> None) (\<lambda>a r. r\<lparr>out_queue := Some a\<rparr>) 0
          (g_output_list e) h) (\<lambda>(outs, h).
      Returned (m\<lparr>m_next_queue := fst h, m_engine := e\<lparr>g_analyzer_list := ans, g_input_list := ins, g_output_list := outs,
        g_queues := snd h\<rparr>\<rparr>)))))"

text \<open>The loops over a table of queues go on to the first element without one.\<close>

fun cancel_queues :: "nat option list \<Rightarrow> (nat \<Rightarrow> queue_t option) \<Rightarrow> (nat \<Rightarrow> queue_t option) proc" where
  "cancel_queues [] h = Undefined ''read past the table''"
| "cancel_queues (None # qs) h = Returned h"
| "cancel_queues (Some a # qs) h =
     (if h a = None then Undefined ''use of a freed queue'' else cancel_queues qs (h(a := msgqueue_cancel (h a))))"

text \<open>The table with the pointers cleared, and the heap.\<close>

fun destroy_queues :: "nat option list \<Rightarrow> (nat \<Rightarrow> queue_t option) \<Rightarrow> (nat option list \<times> (nat \<Rightarrow> queue_t option)) proc" where
  "destroy_queues [] h = Undefined ''read past the table''"
| "destroy_queues (None # qs) h = Returned (None # qs, h)"
| "destroy_queues (Some a # qs) h =
     (if h a = None then Undefined ''double free''
      else proc_map (apfst (Cons None)) (destroy_queues qs (h(a := msgqueue_destroy (h a)))))"

definition destroy_message_queues :: "mle \<Rightarrow> mle proc" where
  "destroy_message_queues m =
     (let e = m_engine m; ins = map in_queue (g_input_list e); ans = map an_queue (g_analyzer_list e);
          outs = map out_queue (g_output_list e) in
      proc_bind (cancel_queues ins (g_queues e)) (\<lambda>h.
      proc_bind (cancel_queues ans h) (\<lambda>h.
      proc_bind (cancel_queues outs h) (\<lambda>h.
      proc_bind (destroy_queues ins h) (\<lambda>(ins, h).
      proc_bind (destroy_queues ans h) (\<lambda>(ans, h).
      proc_bind (destroy_queues outs h) (\<lambda>(outs, h).
      Returned (m\<lparr>m_engine := e\<lparr>g_queues := h,
        g_input_list := map2 (\<lambda>q r. r\<lparr>in_queue := q\<rparr>) ins (g_input_list e),
        g_analyzer_list := map2 (\<lambda>q r. r\<lparr>an_queue := q\<rparr>) ans (g_analyzer_list e),
        g_output_list := map2 (\<lambda>q r. r\<lparr>out_queue := q\<rparr>) outs (g_output_list e)\<rparr>\<rparr>))))))))"

section \<open>Threads\<close>

text \<open>A thread is stored at the end of its table and created; \<open>n\<close> is the size of the table.\<close>

definition start_thread :: "start_env \<Rightarrow> nat \<Rightarrow> thread \<Rightarrow> thread list \<Rightarrow> thread list proc" where
  "start_thread env n t ts =
     (if n \<le> length ts then Undefined ''store past the table''
      else if sv_thread env t then Returned (ts @ [t]) else Exited EXIT_FAILURE)"

fun start_threads :: "start_env \<Rightarrow> nat \<Rightarrow> (nat \<Rightarrow> thread) \<Rightarrow> nat \<Rightarrow> nat option list \<Rightarrow> thread list \<Rightarrow> thread list proc" where
  "start_threads env n mk i [] ts = Returned ts"
| "start_threads env n mk i (q # qs) ts =
     (if q \<noteq> None then proc_bind (start_thread env n (mk i) ts) (start_threads env n mk (i + 1) qs)
      else start_threads env n mk (i + 1) qs ts)"

text \<open>\<open>setgid\<close> may fail; it is only logged.\<close>

definition process_drop_privilege :: "start_env \<Rightarrow> unit proc" where
  "process_drop_privilege env = require (\<not> (sv_nobody env \<and> \<not> sv_setuid env))"

text \<open>
  The analyzer process: its threads, its privileges, the web server, and the wait for the end.
  It ends with \<open>exit\<close> in any case. The loops over the analyzers, the first of which looks for
  their descriptions, and over the threads go on to the first unused element.
\<close>

definition launch_analyzer_process :: "start_env \<Rightarrow> bool \<Rightarrow> bool \<Rightarrow> string \<Rightarrow> mle \<Rightarrow> mle proc" where
  "launch_analyzer_process env drop_priv use_chroot root m =
     (let e = m_engine m; qs = map an_queue (g_analyzer_list e); n = MAX_ANALYZER_STREAMS + 1 in
      proc_bind (start_threads env n AnalyzerThread 0 qs []) (\<lambda>ts.
      proc_bind (start_thread env n TimerThread ts) (\<lambda>ts.
      proc_bind (if drop_priv then process_drop_privilege env else Returned ()) (\<lambda>_.
      proc_bind (if use_chroot then require (sv_chroot env root) else Returned ()) (\<lambda>_.
      if None \<notin> set qs then Undefined ''read past the table''
      else if \<not> sv_stops env then Blocked
      else if n \<le> length ts then Undefined ''read past the table''
      else
        proc_bind (cancel_queues qs (g_queues e)) (\<lambda>h.
        proc_bind (destroy_queues qs h) (\<lambda>(qs, h). Exited EXIT_SUCCESS)))))))"

text \<open>The timers: the log for the first, then the analyzers from the second on.\<close>

definition setup_timers :: "engine \<Rightarrow> mle_timer list" where
  "setup_timers e =
     (let out = g_output_list e ! 0 in
      timer_zero\<lparr>mt_tag := map_option strdup (out_tag out), mt_queue := out_queue out\<rparr> #
      map (\<lambda>a. if an_queue a \<noteq> None
               then timer_zero\<lparr>mt_tag := map_option strdup (an_tag a), mt_queue := an_queue a\<rparr> else timer_zero)
        (tl (g_analyzer_list e)))"

text \<open>
  A barrier lets all threads go once as many wait as it was made for; here, the threads started
  on it and the one that started them.
\<close>

definition pass_barrier :: "nat \<Rightarrow> nat \<Rightarrow> unit proc" where
  "pass_barrier needed started = (if needed = started + 1 then Returned () else Blocked)"

definition startup_io :: "start_env \<Rightarrow> mle \<Rightarrow> mle proc" where
  "startup_io env m =
     (let e = m_engine m; iqs = map in_queue (g_input_list e); oqs = map out_queue (g_output_list e) in
      proc_bind (start_threads env IO_THREADS InputThread 0 iqs []) (\<lambda>t1.
      let m = m\<lparr>g_num_flywheel_threads := g_num_input_threads m, m_engine := e\<lparr>g_flywheel_list := g_input_list e\<rparr>\<rparr> in
      proc_bind (start_threads env IO_THREADS FlywheelThread 0 iqs t1) (\<lambda>t2.
      proc_bind (pass_barrier (g_num_flywheel_threads m + 1) (length t2 - length t1)) (\<lambda>_.
      proc_bind (start_threads env IO_THREADS OutputThread 0 oqs t2) (\<lambda>t3.
      proc_bind (pass_barrier (g_num_output_threads m + 1) (length t3 - length t2)) (\<lambda>_.
      Returned (m\<lparr>g_io_thread := t3\<rparr>)))))))"

definition startup_threads :: "start_env \<Rightarrow> bool \<Rightarrow> bool \<Rightarrow> mle \<Rightarrow> mle proc" where
  "startup_threads env drop_priv use_chroot m =
     proc_bind (require (g_initialized m)) (\<lambda>_.
     let m = m\<lparr>m_engine := (m_engine m)\<lparr>g_running := True\<rparr>\<rparr> in
     proc_bind (require (sv_chdir env (g_root_dir m))) (\<lambda>_.
     proc_bind (create_message_queues env m) (\<lambda>m.
     proc_bind (require (sv_mmap env)) (\<lambda>_.
     let m = m\<lparr>g_analyzer_pid := sv_fork env, m_engine := (m_engine m)\<lparr>g_timer_list := setup_timers (m_engine m),
           g_stats := Some stats_zero\<rparr>\<rparr> in
     if sv_fork env < 0 then Exited EXIT_FAILURE
     else if sv_fork env = 0 then launch_analyzer_process env drop_priv use_chroot (m_analyzer_dir m) m
     else startup_io env m))))"

text \<open>
  The table of threads has no end mark of its own: joining stops at the first unused element.
\<close>

definition shutdown_threads :: "mle \<Rightarrow> mle proc" where
  "shutdown_threads m =
     (let e = m_engine m in
      if IO_THREADS \<le> length (g_io_thread m) then Undefined ''read past the table''
      else
        proc_map destroy_configuration
          (destroy_message_queues (m\<lparr>g_redis_host := None, m_engine := e\<lparr>g_running := False, g_stats := None\<rparr>\<rparr>)))"

definition launch_lua_threads :: "start_env \<Rightarrow> bool \<Rightarrow> bool \<Rightarrow> mle \<Rightarrow> mle proc" where
  "launch_lua_threads env drop_priv use_chroot m =
     proc_bind (startup_threads env drop_priv use_chroot m) (\<lambda>m.
     if \<not> sv_stops env then Blocked else shutdown_threads m)"

definition dragonfly_mle_run :: "start_env \<Rightarrow> bool \<Rightarrow> bool \<Rightarrow> string \<Rightarrow> string option \<Rightarrow> mle \<Rightarrow> mle proc" where
  "dragonfly_mle_run env drop_priv use_chroot rootdir logdir m =
     proc_bind (initialize_configuration env rootdir logdir m) (launch_lua_threads env drop_priv use_chroot)"

definition dragonfly_mle_break :: "mle \<Rightarrow> mle" where
  "dragonfly_mle_break m = m\<lparr>m_engine := (m_engine m)\<lparr>g_running := False\<rparr>\<rparr>"

definition dragonfly_mle_running :: "mle \<Rightarrow> bool" where
  "dragonfly_mle_running m = g_running (m_engine m)"


section \<open>Tables of configured elements\<close>

text \<open>A table whose first \<open>n\<close> elements are set up and whose others are cleared.\<close>

definition table :: "('r \<Rightarrow> bool) \<Rightarrow> 'r \<Rightarrow> nat \<Rightarrow> 'r list \<Rightarrow> bool" where
  "table P z n xs \<longleftrightarrow> n \<le> length xs \<and> (\<forall>i < n. P (xs ! i)) \<and> (\<forall>i. n \<le> i \<and> i < length xs \<longrightarrow> xs ! i = z)"

lemma table_split:
  assumes "table P z n xs"
  shows "xs = take n xs @ replicate (length xs - n) z" "length (take n xs) = n" "\<forall>r \<in> set (take n xs). P r"
proof -
  have "drop n xs = replicate (length xs - n) z"
    using assms by (intro nth_equalityI) (auto simp: table_def)
  then show "xs = take n xs @ replicate (length xs - n) z" by (metis append_take_drop_id)
  show "length (take n xs) = n" "\<forall>r \<in> set (take n xs). P r"
    using assms by (auto simp: table_def in_set_conv_nth)
qed

definition on_queues :: "(queue_t option \<Rightarrow> queue_t option) \<Rightarrow> nat list \<Rightarrow> (nat \<Rightarrow> queue_t option) \<Rightarrow> nat \<Rightarrow> queue_t option" where
  "on_queues f qs h j = (if j \<in> set qs then f (h j) else h j)"

lemma cancelled_live: "on_queues msgqueue_cancel qs h j = None \<longleftrightarrow> h j = None"
  by (auto simp: on_queues_def msgqueue_cancel_def split: option.splits)

lemma cancel_all:
  assumes "0 < k" "\<forall>a \<in> set qs. h a \<noteq> None"
  shows "cancel_queues (map Some qs @ replicate k None) h =
    Returned (on_queues msgqueue_cancel qs h)"
  using assms(2)
proof (induction qs arbitrary: h)
  case Nil
  have "on_queues msgqueue_cancel [] h = h" by (rule ext) (simp add: on_queues_def)
  then show ?case using assms(1) by (cases k) simp_all
next
  case (Cons b qs)
  have idem: "msgqueue_cancel (msgqueue_cancel q) = msgqueue_cancel q" "msgqueue_cancel q = None \<longleftrightarrow> q = None"
      "\<exists>y. msgqueue_cancel (Some x) = Some y" for q x
    by (auto simp: msgqueue_cancel_def split: option.splits)
  have "cancel_queues (map Some qs @ replicate k None) (h(b := msgqueue_cancel (h b))) =
      Returned (on_queues msgqueue_cancel qs (h(b := msgqueue_cancel (h b))))"
    using Cons.prems by (intro Cons.IH) (auto simp: idem)
  moreover have "on_queues msgqueue_cancel qs (h(b := msgqueue_cancel (h b))) = on_queues msgqueue_cancel (b # qs) h"
    by (rule ext) (auto simp: idem on_queues_def)
  ultimately show ?case using Cons.prems by auto
qed

lemma destroy_all:
  assumes "0 < k" "\<forall>a \<in> set qs. h a \<noteq> None" "distinct qs"
  shows "destroy_queues (map Some qs @ replicate k None) h =
    Returned (replicate (length qs + k) None, on_queues (\<lambda>_. None) qs h)"
  using assms(2,3)
proof (induction qs arbitrary: h)
  case Nil
  have "on_queues (\<lambda>_. None) [] h = h" by (rule ext) (simp add: on_queues_def)
  then show ?case using assms(1) by (cases k) simp_all
next
  case (Cons b qs)
  then have "destroy_queues (map Some qs @ replicate k None) (h(b := None)) =
      Returned (replicate (length qs + k) None, on_queues (\<lambda>_. None) qs (h(b := None)))"
    by (intro Cons.IH) auto
  moreover have "on_queues (\<lambda>_. None) qs (h(b := None)) = on_queues (\<lambda>_. None) (b # qs) h"
    by (rule ext) (auto simp: on_queues_def)
  ultimately show ?case using Cons.prems by (simp add: msgqueue_destroy_def)
qed

text \<open>
  The three tables of \<open>dragonfly-lib.c\<close> treat their queues alike: an element in use gets the
  address of a new queue.
\<close>

locale queue_table =
  fixes used :: "'r \<Rightarrow> bool"
    and queue :: "'r \<Rightarrow> nat option"
    and set_q :: "nat \<Rightarrow> 'r \<Rightarrow> 'r"
    and zero :: 'r
  assumes queue_set: "queue (set_q a r) = Some a"
    and zero_unused: "\<not> used zero" "queue zero = None"
begin

lemma create_unused:
  "create_queues env p used set_q i (replicate k zero) h = Returned (replicate k zero, h)"
  by (induction k arbitrary: i) (simp_all add: zero_unused)

text \<open>Every element in use gets an open empty queue of its own, and no other address changes.\<close>

lemma create_returned:
  assumes "create_queues env p used set_q i (us @ replicate k zero) (a, h) = Returned (xs, b, h')" "\<forall>r \<in> set us. used r"
  shows "xs = map2 set_q [a..<a + length us] us @ replicate k zero \<and> b = a + length us \<and>
    (\<forall>j. a \<le> j \<and> j < b \<longrightarrow> (\<exists>q. h' j = Some q \<and> holds_msgs q [])) \<and> (\<forall>j. j < a \<or> b \<le> j \<longrightarrow> h' j = h j)"
  using assms
proof (induction us arbitrary: i a h xs)
  case Nil
  then show ?case by (auto simp: create_unused)
next
  case (Cons r us)
  define nm where "nm = p @ ''-'' @ show_nat i"
  have "used r" using Cons.prems(2) by simp
  then obtain q where q: "msgqueue_create nm (sv_pipe env nm) True True = Returned q"
    and rest: "proc_map (apfst (Cons (set_q a r))) (create_queues env p used set_q (i + 1) (us @ replicate k zero)
      (a + 1, h(a := Some q))) = Returned (xs, b, h')"
    using Cons.prems(1) by (cases "msgqueue_create nm (sv_pipe env nm) True True") (simp_all add: new_queue_def nm_def)
  obtain ys where ys: "create_queues env p used set_q (i + 1) (us @ replicate k zero) (a + 1, h(a := Some q)) = Returned (ys, b, h')"
    and xs: "xs = set_q a r # ys"
    using rest by (cases "create_queues env p used set_q (i + 1) (us @ replicate k zero) (a + 1, h(a := Some q))") auto
  have "sv_pipe env nm"
    using q by (auto simp: msgqueue_create_def split: if_splits)
  then have open_q: "holds_msgs q []" using q created_queue_empty by simp
  have IH: "ys = map2 set_q [a + 1..<a + 1 + length us] us @ replicate k zero" "b = a + 1 + length us"
      "\<And>j. a + 1 \<le> j \<and> j < b \<Longrightarrow> \<exists>q. h' j = Some q \<and> holds_msgs q []"
      "\<And>j. j < a + 1 \<or> b \<le> j \<Longrightarrow> h' j = (h(a := Some q)) j"
    using Cons.IH [OF ys] Cons.prems(2) by auto
  have "[a..<a + length (r # us)] = a # [a + 1..<a + 1 + length us]"
    by (simp add: upt_rec)
  moreover have "\<exists>q. h' j = Some q \<and> holds_msgs q []" if "a \<le> j" "j < b" for j
    using that IH(3) [of j] IH(4) [of j] open_q by (cases "j = a") auto
  ultimately show ?case using IH xs by auto
qed

lemma create_succeeds:
  assumes "\<forall>n. sv_pipe env n"
  shows "\<exists>s. create_queues env p used set_q i xs h = Returned s"
  using assms
proof (induction xs arbitrary: i h)
  case (Cons r xs)
  have "\<exists>q. new_queue env n h = Returned q" for n h
    using Cons.prems by (simp add: new_queue_def msgqueue_create_def Let_def)
  then obtain q where "new_queue env (p @ ''-'' @ show_nat i) h = Returned q" by blast
  then show ?case using Cons.IH [of "i + 1" "snd q"] Cons.IH [of "i + 1" h] Cons.prems by (auto split: prod.splits)
qed simp

lemma queues_of_created: "map queue (map2 set_q qs us @ replicate k zero) =
    map Some (take (length us) qs) @ replicate k None"
proof -
  have "map queue (map2 set_q qs us) = map Some (take (length us) qs)"
    by (induction qs us rule: list_induct2') (simp_all add: queue_set)
  then show ?thesis by (simp add: zero_unused)
qed

text \<open>The same for a table, when the system gives the pipes.\<close>

lemma create_table:
  assumes "table P zero n xs" "\<And>r. P r \<Longrightarrow> used r" "\<forall>s. sv_pipe env s"
  shows "\<exists>ys h'. create_queues env p used set_q 0 xs (a, h) = Returned (ys, a + n, h') \<and>
    map queue ys = map Some [a..<a + n] @ replicate (length xs - n) None \<and> length ys = length xs \<and>
    (\<forall>j. a \<le> j \<and> j < a + n \<longrightarrow> (\<exists>q. h' j = Some q \<and> holds_msgs q [])) \<and> (\<forall>j. j < a \<or> a + n \<le> j \<longrightarrow> h' j = h j)"
proof -
  define us where "us = take n xs"
  define k where "k = length xs - n"
  have us: "xs = us @ replicate k zero" "length us = n" "\<forall>r \<in> set us. used r"
    using table_split [OF assms(1)] assms(2) unfolding us_def k_def by blast+
  obtain ys b h' where c: "create_queues env p used set_q 0 (us @ replicate k zero) (a, h) = Returned (ys, b, h')"
    using create_succeeds [OF assms(3)] by (metis prod_cases3)
  note r = create_returned [OF c us(3)]
  then have "map queue ys = map Some (take (length us) [a..<a + n]) @ replicate k None"
    using queues_of_created [of "[a..<a + length us]" us k] us(2) by metis
  then have "map queue ys = map Some [a..<a + n] @ replicate k None" using us(2) by simp
  moreover have "length ys = length xs" using r us(1,2) by simp
  moreover have "create_queues env p used set_q 0 xs (a, h) = Returned (ys, a + n, h')" "b = a + n"
    using c r us(2) unfolding us(1) by blast+
  ultimately show ?thesis using r unfolding k_def by blast
qed

end

interpretation tb_an: queue_table "\<lambda>r. an_script r \<noteq> None" an_queue "\<lambda>a r. r\<lparr>an_queue := Some a\<rparr>" analyzer_zero
  by unfold_locales (simp_all add: analyzer_zero_def)

interpretation tb_in: queue_table "\<lambda>r. in_uri r \<noteq> None" in_queue "\<lambda>a r. r\<lparr>in_queue := Some a\<rparr>" input_zero
  by unfold_locales (simp_all add: input_zero_def)

interpretation tb_out: queue_table "\<lambda>r. out_uri r \<noteq> None" out_queue "\<lambda>a r. r\<lparr>out_queue := Some a\<rparr>" output_zero
  by unfold_locales (simp_all add: output_zero_def)


section \<open>Configuration\<close>

definition is_reg_file :: "start_env \<Rightarrow> string \<Rightarrow> bool" where
  "is_reg_file env p \<longleftrightarrow> sv_lstat env p = Some RegularFile"

text \<open>The three tables hold complete elements only, as many as are counted, and at least one each.\<close>

definition tables_ready :: "start_env \<Rightarrow> mle \<Rightarrow> bool" where
  "tables_ready env m \<longleftrightarrow>
     table (analyzer_ready (is_reg_file env)) analyzer_zero (g_num_analyzer_threads m) (g_analyzer_list (m_engine m)) \<and>
     table (input_ready (is_reg_file env)) input_zero (g_num_input_threads m) (g_input_list (m_engine m)) \<and>
     table output_ready output_zero (g_num_output_threads m) (g_output_list (m_engine m)) \<and>
     length (g_analyzer_list (m_engine m)) = MAX_ANALYZER_STREAMS \<and>
     length (g_input_list (m_engine m)) = MAX_INPUT_STREAMS \<and>
     length (g_output_list (m_engine m)) = MAX_OUTPUT_STREAMS \<and>
     0 < g_num_analyzer_threads m \<and> g_num_analyzer_threads m < MAX_ANALYZER_STREAMS \<and>
     0 < g_num_input_threads m \<and> 2 \<le> g_num_output_threads m"

lemma outputs_loaded_table:
  assumes "load_outputs_config G (replicate MAX_OUTPUT_STREAMS output_zero) MAX_OUTPUT_STREAMS = Returned (n, xs)" "0 < n"
  shows "table output_ready output_zero n xs \<and> length xs = MAX_OUTPUT_STREAMS \<and> 2 \<le> n"
proof -
  obtain t where "G ''outputs'' = LTable t"
    using assms by (cases "G ''outputs''") (auto simp: load_outputs_config_def)
  with outputs_loaded [OF assms(1)] show ?thesis by (auto simp: table_def)
qed

lemma require_Returned: "require b = Returned u \<longleftrightarrow> b"
  by (simp add: require_def)

lemma load_configuration_tables:
  assumes "load_configuration env G m = Returned m'"
    and "g_analyzer_list (m_engine m) = replicate MAX_ANALYZER_STREAMS analyzer_zero"
      "g_input_list (m_engine m) = replicate MAX_INPUT_STREAMS input_zero"
      "g_output_list (m_engine m) = replicate MAX_OUTPUT_STREAMS output_zero"
  shows "tables_ready env m' \<and> g_initialized m' \<and> m_next_queue m' = m_next_queue m \<and>
    g_queues (m_engine m') = g_queues (m_engine m) \<and> g_verbose m' = g_verbose m \<and> g_root_dir m' = g_root_dir m \<and>
    m_config_file m' = m_config_file m"
proof -
  obtain na ans no outs ni ins rs where
    ans: "load_analyzers_config (is_reg_file env) G (m_analyzer_dir m) (replicate MAX_ANALYZER_STREAMS analyzer_zero)
      MAX_ANALYZER_STREAMS = Returned (na, ans)" "0 < na" and
    outs: "load_outputs_config G (replicate MAX_OUTPUT_STREAMS output_zero) MAX_OUTPUT_STREAMS = Returned (no, outs)" "0 < no" and
    ins: "load_inputs_config (is_reg_file env) G (m_filter_dir m) (replicate MAX_INPUT_STREAMS input_zero)
      MAX_INPUT_STREAMS = Returned (ni, ins)" "0 < ni" and
    m': "g_num_analyzer_threads m' = na" "g_num_output_threads m' = no" "g_num_input_threads m' = ni" "g_initialized m'"
      "g_analyzer_list (m_engine m') = ans" "g_input_list (m_engine m') = ins" "g_output_list (m_engine m') = outs"
      "m_next_queue m' = m_next_queue m" "g_queues (m_engine m') = g_queues (m_engine m)" "g_verbose m' = g_verbose m"
      "g_root_dir m' = g_root_dir m" "m_config_file m' = m_config_file m"
    using assms unfolding load_configuration_def Let_def is_reg_file_def [abs_def]
    by (clarsimp simp: proc_bind_Returned require_Returned) 
  have "0 < MAX_ANALYZER_STREAMS" by (simp add: MAX_ANALYZER_STREAMS_def)
  then show ?thesis
    using analyzers_loaded [OF ans(1)] inputs_loaded [OF ins(1)] outputs_loaded_table [OF outs] ans(2) ins(2) m'(4)
    unfolding tables_ready_def m' table_def by auto
qed

lemma initialized:
  assumes "initialize_configuration env root log m = Returned m'"
  shows "tables_ready env m'" "g_initialized m'" "m_next_queue m' = m_next_queue m"
    "g_queues (m_engine m') = g_queues (m_engine m)" "g_verbose m' = sv_isatty env"
    "sv_lstat env (g_root_dir m') = Some Directory" "is_reg_file env (m_config_file m')"
proof -
  obtain r where r: "copy_path (if cstr root = [] then DRAGONFLY_ROOT_DIR else root) = Returned r"
    using assms unfolding initialize_configuration_def Let_def by (auto simp: proc_bind_Returned)
  obtain l where l: "copy_path (case log of None \<Rightarrow> DRAGONFLY_LOG_DIR | Some d \<Rightarrow> d) = Returned l"
    using assms unfolding initialize_configuration_def Let_def by (auto simp: proc_bind_Returned)
  obtain G where G: "sv_config env (below r CONFIG_FILE) = ConfigGlobals G"
    using assms unfolding initialize_configuration_def Let_def
    by (cases "sv_config env (below r CONFIG_FILE)") (auto simp: proc_bind_Returned r)
  let ?e = "(m_engine m)\<lparr>g_analyzer_list := replicate MAX_ANALYZER_STREAMS analyzer_zero,
    g_input_list := replicate MAX_INPUT_STREAMS input_zero, g_output_list := replicate MAX_OUTPUT_STREAMS output_zero,
    g_stats := None\<rparr>"
  define m0 where "m0 = m\<lparr>g_verbose := sv_isatty env, g_num_analyzer_threads := 0, g_num_input_threads := 0,
    g_num_flywheel_threads := 0, g_num_output_threads := 0, g_io_thread := [], g_analyzer_thread := [],
    g_root_dir := r, m_log_dir := l, m_config_file := below r CONFIG_FILE,
    m_analyzer_dir := below r ANALYZER_DIR, m_filter_dir := below r FILTER_DIR,
    m_engine := ?e\<lparr>g_world := (g_world (m_engine m))\<lparr>iw_dirs := dragonfly_io_set_logdir l (iw_dirs (g_world (m_engine m)))\<rparr>\<rparr>\<rparr>"
  have load: "load_configuration env G m0 = Returned m'" "sv_lstat env r = Some Directory"
      "sv_lstat env (below r CONFIG_FILE) = Some RegularFile"
    using assms unfolding initialize_configuration_def Let_def
    by (simp_all add: r l G proc_bind_Returned require_Returned m0_def)
  have "tables_ready env m' \<and> g_initialized m' \<and> m_next_queue m' = m_next_queue m0 \<and>
    g_queues (m_engine m') = g_queues (m_engine m0) \<and> g_verbose m' = g_verbose m0 \<and> g_root_dir m' = g_root_dir m0 \<and>
    m_config_file m' = m_config_file m0"
    by (rule load_configuration_tables [OF load(1)]) (simp_all add: m0_def)
  then show "tables_ready env m'" "g_initialized m'" "m_next_queue m' = m_next_queue m"
    "g_queues (m_engine m') = g_queues (m_engine m)" "g_verbose m' = sv_isatty env"
    "sv_lstat env (g_root_dir m') = Some Directory" "is_reg_file env (m_config_file m')"
    using load by (simp_all add: m0_def is_reg_file_def)
qed

section \<open>Threads\<close>

lemma start_threads_all:
  assumes "\<forall>t. sv_thread env t" "length ts + length qs \<le> n"
  shows "start_threads env n mk i (map Some qs @ replicate k None) ts = Returned (ts @ map mk [i..<i + length qs])"
  using assms(2)
proof (induction qs arbitrary: i ts)
  case Nil
  have "start_threads env n mk i (replicate k None) ts = Returned ts" for i
    by (induction k arbitrary: i) simp_all
  then show ?case by simp
next
  case (Cons q qs)
  then have "start_threads env n mk (i + 1) (map Some qs @ replicate k None) (ts @ [mk i]) =
      Returned ((ts @ [mk i]) @ map mk [i + 1..<i + 1 + length qs])"
    by (intro Cons.IH) simp
  moreover have "start_thread env n (mk i) ts = Returned (ts @ [mk i])"
    using assms(1) Cons.prems by (simp add: start_thread_def)
  moreover have "[i..<i + length (q # qs)] = i # [i + 1..<i + 1 + length qs]" by (simp add: upt_rec)
  ultimately show ?case by simp
qed


text \<open>The part of the addresses \<open>a\<close> up to \<open>b\<close> refers to open empty queues, the rest is as before.\<close>

definition new_queues :: "nat \<Rightarrow> nat \<Rightarrow> (nat \<Rightarrow> queue_t option) \<Rightarrow> (nat \<Rightarrow> queue_t option) \<Rightarrow> bool" where
  "new_queues a b h h' \<longleftrightarrow> (\<forall>j. a \<le> j \<and> j < b \<longrightarrow> (\<exists>q. h' j = Some q \<and> holds_msgs q [])) \<and>
     (\<forall>j. j < a \<or> b \<le> j \<longrightarrow> h' j = h j)"

text \<open>The tables after the queues have been made, with the addresses from \<open>a\<close> on.\<close>

definition queues_assigned :: "nat \<Rightarrow> mle \<Rightarrow> mle \<Rightarrow> bool" where
  "queues_assigned a m m' \<longleftrightarrow>
     (let na = g_num_analyzer_threads m; ni = g_num_input_threads m; no = g_num_output_threads m in
      m_next_queue m' = a + na + ni + no \<and>
      map an_queue (g_analyzer_list (m_engine m')) =
        map Some [a..<a + na] @ replicate (MAX_ANALYZER_STREAMS - na) None \<and>
      map in_queue (g_input_list (m_engine m')) =
        map Some [a + na..<a + na + ni] @ replicate (MAX_INPUT_STREAMS - ni) None \<and>
      map out_queue (g_output_list (m_engine m')) =
        map Some [a + na + ni..<a + na + ni + no] @ replicate (MAX_OUTPUT_STREAMS - no) None \<and>
      new_queues a (a + na + ni + no) (g_queues (m_engine m)) (g_queues (m_engine m')))"

lemma new_queues_trans: "new_queues a b h h' \<Longrightarrow> new_queues b c h' h'' \<Longrightarrow> a \<le> b \<Longrightarrow> b \<le> c \<Longrightarrow> new_queues a c h h''"
  unfolding new_queues_def by (metis linorder_not_less le_trans order_less_le_trans)

text \<open>What starting the threads does not touch.\<close>

definition same_counts :: "mle \<Rightarrow> mle \<Rightarrow> bool" where
  "same_counts m m' \<longleftrightarrow> g_num_analyzer_threads m' = g_num_analyzer_threads m \<and>
     g_num_input_threads m' = g_num_input_threads m \<and> g_num_output_threads m' = g_num_output_threads m \<and>
     g_initialized m' = g_initialized m \<and> g_root_dir m' = g_root_dir m"

lemma queues_created:
  assumes "tables_ready env m" "\<forall>s. sv_pipe env s"
  shows "\<exists>m'. create_message_queues env m = Returned m' \<and> queues_assigned (m_next_queue m) m m' \<and> same_counts m m'"
proof -
  define e where "e = m_engine m"
  define a where "a = m_next_queue m"
  define na where "na = g_num_analyzer_threads m"
  define ni where "ni = g_num_input_threads m"
  define no where "no = g_num_output_threads m"
  have t: "table (analyzer_ready (is_reg_file env)) analyzer_zero na (g_analyzer_list e)"
      "table (input_ready (is_reg_file env)) input_zero ni (g_input_list e)"
      "table output_ready output_zero no (g_output_list e)"
      "length (g_analyzer_list e) = MAX_ANALYZER_STREAMS" "length (g_input_list e) = MAX_INPUT_STREAMS"
      "length (g_output_list e) = MAX_OUTPUT_STREAMS"
    using assms(1) by (simp_all add: tables_ready_def e_def na_def ni_def no_def)
  obtain ans h1 where 1: "create_queues env QUEUE_ANALYZER (\<lambda>r. an_script r \<noteq> None) (\<lambda>a r. r\<lparr>an_queue := Some a\<rparr>) 0
        (g_analyzer_list e) (a, g_queues e) = Returned (ans, a + na, h1)"
      "map an_queue ans = map Some [a..<a + na] @ replicate (length (g_analyzer_list e) - na) None"
      "new_queues a (a + na) (g_queues e) h1"
    using tb_an.create_table [OF t(1) _ assms(2), of QUEUE_ANALYZER a "g_queues e"]
    unfolding new_queues_def analyzer_ready_def by blast
  obtain ins h2 where 2: "create_queues env QUEUE_INPUT (\<lambda>r. in_uri r \<noteq> None) (\<lambda>a r. r\<lparr>in_queue := Some a\<rparr>) 0
        (g_input_list e) (a + na, h1) = Returned (ins, a + na + ni, h2)"
      "map in_queue ins = map Some [a + na..<a + na + ni] @ replicate (length (g_input_list e) - ni) None"
      "new_queues (a + na) (a + na + ni) h1 h2"
    using tb_in.create_table [OF t(2) _ assms(2), of QUEUE_INPUT "a + na" h1]
    unfolding new_queues_def input_ready_def by blast
  obtain outs h3 where 3: "create_queues env QUEUE_OUTPUT (\<lambda>r. out_uri r \<noteq> None) (\<lambda>a r. r\<lparr>out_queue := Some a\<rparr>) 0
        (g_output_list e) (a + na + ni, h2) = Returned (outs, a + na + ni + no, h3)"
      "map out_queue outs = map Some [a + na + ni..<a + na + ni + no] @ replicate (length (g_output_list e) - no) None"
      "new_queues (a + na + ni) (a + na + ni + no) h2 h3"
    using tb_out.create_table [OF t(3) _ assms(2), of QUEUE_OUTPUT "a + na + ni" h2]
    unfolding new_queues_def output_ready_def by blast
  have h3: "new_queues a (a + na + ni + no) (g_queues e) h3"
    by (rule new_queues_trans [OF new_queues_trans [OF 1(3) 2(3)] 3(3)]) simp_all
  have "create_message_queues env m = Returned (m\<lparr>m_next_queue := a + na + ni + no, m_engine := e\<lparr>g_analyzer_list := ans,
      g_input_list := ins, g_output_list := outs, g_queues := h3\<rparr>\<rparr>)"
    unfolding create_message_queues_def Let_def e_def [symmetric] a_def [symmetric] 1(1) 2(1) 3(1)
    by (simp add: 1(1) 2(1) 3(1) del: not_None_eq)
  then show ?thesis
    using 1(2) 2(2) 3(2) h3 unfolding t(4-6)
    by (simp add: queues_assigned_def same_counts_def Let_def a_def e_def na_def ni_def no_def)
qed


section \<open>Start and end\<close>

definition calls_succeed :: "start_env \<Rightarrow> bool" where
  "calls_succeed env \<longleftrightarrow> (\<forall>d. sv_chdir env d) \<and> (\<forall>s. sv_pipe env s) \<and> sv_mmap env \<and> (\<forall>t. sv_thread env t) \<and>
     (\<forall>d. sv_chroot env d) \<and> (sv_nobody env \<longrightarrow> sv_setuid env) \<and> sv_stops env"

text \<open>The threads of the first process.\<close>

definition io_threads :: "nat \<Rightarrow> nat \<Rightarrow> thread list" where
  "io_threads ni no = map InputThread [0..<ni] @ map FlywheelThread [0..<ni] @ map OutputThread [0..<no]"

lemma length_io_threads [simp]: "length (io_threads ni no) = 2 * ni + no"
  by (simp add: io_threads_def)

lemma tables_fit: "tables_ready env m \<Longrightarrow>
    g_num_input_threads m \<le> MAX_INPUT_STREAMS \<and> g_num_output_threads m \<le> MAX_OUTPUT_STREAMS"
  by (auto simp: tables_ready_def table_def)

lemma io_started:
  assumes "map in_queue (g_input_list (m_engine m)) = map Some iqs @ replicate k None"
    and "map out_queue (g_output_list (m_engine m)) = map Some oqs @ replicate l None"
    and "length iqs = g_num_input_threads m" "length oqs = g_num_output_threads m" "\<forall>t. sv_thread env t"
    and "g_num_input_threads m \<le> MAX_INPUT_STREAMS" "g_num_output_threads m \<le> MAX_OUTPUT_STREAMS"
  shows "startup_io env m = Returned (m\<lparr>g_num_flywheel_threads := g_num_input_threads m,
    m_engine := (m_engine m)\<lparr>g_flywheel_list := g_input_list (m_engine m)\<rparr>,
    g_io_thread := io_threads (g_num_input_threads m) (g_num_output_threads m)\<rparr>)"
proof -
  let ?ni = "g_num_input_threads m" and ?no = "g_num_output_threads m"
  have fit: "2 * ?ni + ?no \<le> IO_THREADS" using assms(6,7) by (simp add: IO_THREADS_def)
  have 1: "start_threads env IO_THREADS InputThread 0 (map Some iqs @ replicate k None) [] =
      Returned (map InputThread [0..<?ni])"
    using start_threads_all [OF assms(5), of "[]" iqs IO_THREADS InputThread 0 k] assms(3) fit by simp
  have 2: "start_threads env IO_THREADS FlywheelThread 0 (map Some iqs @ replicate k None) (map InputThread [0..<?ni]) =
      Returned (map InputThread [0..<?ni] @ map FlywheelThread [0..<?ni])"
    using start_threads_all [OF assms(5), of "map InputThread [0..<?ni]" iqs IO_THREADS FlywheelThread 0 k] assms(3) fit
    by simp
  have 3: "start_threads env IO_THREADS OutputThread 0 (map Some oqs @ replicate l None)
      (map InputThread [0..<?ni] @ map FlywheelThread [0..<?ni]) = Returned (io_threads ?ni ?no)"
    using start_threads_all [OF assms(5), of "map InputThread [0..<?ni] @ map FlywheelThread [0..<?ni]" oqs IO_THREADS
        OutputThread 0 l] assms(4) fit
    by (simp add: io_threads_def)
  show ?thesis
    unfolding startup_io_def Let_def assms(1,2) 1 by (simp add: 2 3 pass_barrier_def io_threads_def cong del: proc_bind_cong)
qed

lemma threads_started:
  assumes "tables_ready env m" "g_initialized m" "calls_succeed env" "0 < sv_fork env"
  shows "\<exists>m'. startup_threads env dp cr m = Returned m' \<and> queues_assigned (m_next_queue m) m m' \<and> same_counts m m' \<and>
    g_io_thread m' = io_threads (g_num_input_threads m) (g_num_output_threads m) \<and> g_running (m_engine m')"
proof -
  let ?m = "m\<lparr>m_engine := (m_engine m)\<lparr>g_running := True\<rparr>\<rparr>"
  let ?a = "m_next_queue m" and ?na = "g_num_analyzer_threads m" and ?ni = "g_num_input_threads m"
    and ?no = "g_num_output_threads m"
  have ready: "tables_ready env ?m" using assms(1) by (simp add: tables_ready_def)
  obtain m1 where m1: "create_message_queues env ?m = Returned m1" "queues_assigned (m_next_queue m) ?m m1" "same_counts ?m m1"
    using queues_created [OF ready] assms(3) by (auto simp: calls_succeed_def)
  have run: "g_running (m_engine m1)"
    using m1(1) by (auto simp: create_message_queues_def Let_def proc_bind_Returned)
  let ?m2 = "m1\<lparr>g_analyzer_pid := sv_fork env, m_engine := (m_engine m1)\<lparr>g_timer_list := setup_timers (m_engine m1),
           g_stats := Some stats_zero\<rparr>\<rparr>"
  have "startup_threads env dp cr m = startup_io env ?m2"
    using assms m1(1) by (simp add: startup_threads_def calls_succeed_def require_def cong del: proc_bind_cong)
  also have "\<dots> = Returned (?m2\<lparr>g_num_flywheel_threads := g_num_input_threads ?m2,
    m_engine := (m_engine ?m2)\<lparr>g_flywheel_list := g_input_list (m_engine ?m2)\<rparr>,
    g_io_thread := io_threads (g_num_input_threads ?m2) (g_num_output_threads ?m2)\<rparr>)"
    using m1(2,3) tables_fit [OF assms(1)] assms(3)
    by (intro io_started [where iqs = "[?a + ?na..<?a + ?na + ?ni]" and oqs = "[?a + ?na + ?ni..<?a + ?na + ?ni + ?no]" and
          k = "MAX_INPUT_STREAMS - ?ni" and l = "MAX_OUTPUT_STREAMS - ?no"])
      (simp_all add: queues_assigned_def same_counts_def Let_def calls_succeed_def)
  finally show ?thesis
    using m1(2,3) run by (simp add: queues_assigned_def same_counts_def Let_def)
qed

text \<open>Taking down what was started; the tables must not be full.\<close>

lemma queues_destroyed:
  assumes "queues_assigned a m0 m" "g_num_analyzer_threads m0 < MAX_ANALYZER_STREAMS"
    "g_num_input_threads m0 < MAX_INPUT_STREAMS" "g_num_output_threads m0 < MAX_OUTPUT_STREAMS"
  shows "\<exists>e. destroy_message_queues m = Returned (m\<lparr>m_engine := e\<rparr>) \<and>
    g_queues e = (\<lambda>j. if a \<le> j \<and> j < m_next_queue m then None else g_queues (m_engine m0) j) \<and>
    g_running e = g_running (m_engine m) \<and> g_stats e = g_stats (m_engine m)"
proof -
  define na where "na = g_num_analyzer_threads m0"
  define ni where "ni = g_num_input_threads m0"
  define no where "no = g_num_output_threads m0"
  define aq where "aq = [a..<a + na]"
  define iq where "iq = [a + na..<a + na + ni]"
  define oq where "oq = [a + na + ni..<a + na + ni + no]"
  obtain ka ki ko where k: "0 < ka" "0 < ki" "0 < ko"
    and qs: "map an_queue (g_analyzer_list (m_engine m)) = map Some aq @ replicate ka None"
      "map in_queue (g_input_list (m_engine m)) = map Some iq @ replicate ki None"
      "map out_queue (g_output_list (m_engine m)) = map Some oq @ replicate ko None"
    using assms unfolding queues_assigned_def Let_def aq_def iq_def oq_def na_def ni_def no_def
    by (metis zero_less_diff)
  have nxt: "m_next_queue m = a + na + ni + no"
    and new: "new_queues a (a + na + ni + no) (g_queues (m_engine m0)) (g_queues (m_engine m))"
    using assms(1) by (simp_all add: queues_assigned_def Let_def na_def ni_def no_def)
  have live: "g_queues (m_engine m) j \<noteq> None" if "j \<in> set aq \<union> set iq \<union> set oq" for j
  proof -
    have "a \<le> j \<and> j < a + na + ni + no" using that by (auto simp: aq_def iq_def oq_def)
    then have "\<exists>q. g_queues (m_engine m) j = Some q" using new unfolding new_queues_def by blast
    then show ?thesis by simp
  qed
  have disj: "set iq \<inter> set aq = {}" "set oq \<inter> set iq = {}" "set oq \<inter> set aq = {}"
    by (auto simp: aq_def iq_def oq_def)
  have sets: "j \<in> set iq \<or> j \<in> set aq \<or> j \<in> set oq \<longleftrightarrow> a \<le> j \<and> j < m_next_queue m" for j
    by (auto simp: aq_def iq_def oq_def nxt)
  have dist: "distinct iq" "distinct aq" "distinct oq" by (simp_all add: iq_def aq_def oq_def)
  define h where "h = g_queues (m_engine m)"
  have h: "h j \<noteq> None" if "j \<in> set aq \<union> set iq \<union> set oq" for j using live that by (simp add: h_def)
  define h1 where "h1 = on_queues msgqueue_cancel oq (on_queues msgqueue_cancel aq (on_queues msgqueue_cancel iq h))"
  define h2 where "h2 = on_queues (\<lambda>_. None) oq (on_queues (\<lambda>_. None) aq (on_queues (\<lambda>_. None) iq h1))"
  have h1: "h1 j \<noteq> None" if "j \<in> set aq \<union> set iq \<union> set oq" for j
    using h [OF that] by (simp only: h1_def cancelled_live simp_thms)
  have cancel: "cancel_queues (map Some iq @ replicate ki None) h = Returned (on_queues msgqueue_cancel iq h)"
      "cancel_queues (map Some aq @ replicate ka None) (on_queues msgqueue_cancel iq h) =
         Returned (on_queues msgqueue_cancel aq (on_queues msgqueue_cancel iq h))"
      "cancel_queues (map Some oq @ replicate ko None) (on_queues msgqueue_cancel aq (on_queues msgqueue_cancel iq h)) = Returned h1"
    unfolding h1_def using h by (intro cancel_all k; simp only: cancelled_live; blast)+
  have destroy: "destroy_queues (map Some iq @ replicate ki None) h1 =
         Returned (replicate (length iq + ki) None, on_queues (\<lambda>_. None) iq h1)"
      "destroy_queues (map Some aq @ replicate ka None) (on_queues (\<lambda>_. None) iq h1) =
         Returned (replicate (length aq + ka) None, on_queues (\<lambda>_. None) aq (on_queues (\<lambda>_. None) iq h1))"
      "destroy_queues (map Some oq @ replicate ko None) (on_queues (\<lambda>_. None) aq (on_queues (\<lambda>_. None) iq h1)) =
         Returned (replicate (length oq + ko) None, h2)"
    unfolding h2_def using h1 disj by (intro destroy_all k dist; fastforce simp: on_queues_def)+
  have "h2 = (\<lambda>j. if a \<le> j \<and> j < m_next_queue m then None else g_queues (m_engine m0) j)"
  proof (rule ext)
    fix j
    show "h2 j = (if a \<le> j \<and> j < m_next_queue m then None else g_queues (m_engine m0) j)"
      using new sets [of j] by (auto simp: h2_def h1_def h_def on_queues_def new_queues_def nxt)
  qed
  then show ?thesis
    unfolding destroy_message_queues_def Let_def qs
    by (simp add: cancel [unfolded h_def] destroy cong del: proc_bind_cong)
      (intro exI conjI, rule refl, simp_all)
qed


section \<open>Properties\<close>

text \<open>
  C28. A configuration that is accepted is complete: the root directory and the configuration file
  exist, and the tables of analyzers, inputs and outputs hold as many complete elements as are
  counted, at least one of each, followed by cleared ones.
\<close>

theorem configuration_checked:
  assumes "initialize_configuration env root log m = Returned m'"
  shows "tables_ready env m' \<and> g_initialized m' \<and> sv_lstat env (g_root_dir m') = Some Directory \<and>
    sv_lstat env (m_config_file m') = Some RegularFile \<and> g_queues (m_engine m') = g_queues (m_engine m)"
  using initialized [OF assms] by (simp add: is_reg_file_def)

definition sample_config :: lua_globals where
  "sample_config g =
     (if g = ''analyzers'' then LTable [(array_index 1, sample_analyzer)]
      else if g = ''inputs'' then LTable [(array_index 1, sample_input)]
      else if g = ''outputs'' then LTable sample_outputs else LNil)"

definition sample_start :: "int \<Rightarrow> start_env" where
  "sample_start pid = \<lparr>sv_isatty = False,
     sv_lstat = (\<lambda>p. if p \<in> {''/d'', ''/d/analyzer'', ''/d/filter''} then Some Directory else Some RegularFile),
     sv_mkdir = (\<lambda>p. None), sv_config = (\<lambda>p. ConfigGlobals sample_config), sv_num2str = (\<lambda>x. []),
     sv_redis = (\<lambda>h p. False), sv_module = (\<lambda>c. True), sv_chdir = (\<lambda>d. True), sv_pipe = (\<lambda>s. True), sv_mmap = True,
     sv_fork = pid, sv_thread = (\<lambda>t. True), sv_nobody = True, sv_setuid = True, sv_chroot = (\<lambda>d. True), sv_stops = True\<rparr>"

lemma sample_succeeds [simp]: "calls_succeed (sample_start pid)" "sv_fork (sample_start pid) = pid"
  by (simp_all add: calls_succeed_def sample_start_def)

lemma sample_copy: "copy_path ''/d'' = Returned ''/d''" "copy_path DRAGONFLY_LOG_DIR = Returned DRAGONFLY_LOG_DIR"
  "cstr ''/d'' = ''/d''" "below ''/d'' CONFIG_FILE = ''/d/config/config.lua''" "below ''/d'' ANALYZER_DIR = ''/d/analyzer''"
  "below ''/d'' FILTER_DIR = ''/d/filter''"
  by (simp_all add: copy_path_def DRAGONFLY_LOG_DIR_def strlen_def cstr_def NUL_def PATH_MAX_def below_def CONFIG_FILE_def
      ANALYZER_DIR_def FILTER_DIR_def snprintf_def)

lemma sample_tables:
  "load_analyzers_config (\<lambda>p. sv_lstat (sample_start pid) p = Some RegularFile) sample_config ''/d/analyzer''
     (replicate MAX_ANALYZER_STREAMS analyzer_zero) MAX_ANALYZER_STREAMS =
   Returned (1, (replicate MAX_ANALYZER_STREAMS analyzer_zero)[0 := \<lparr>an_tag = Some ''alert'', an_script = Some ''/d/analyzer/a.lua'',
      an_default_analyzer = Some '''', an_default_output = Some ''log'', an_queue = None\<rparr>])"
  "load_inputs_config (\<lambda>p. sv_lstat (sample_start pid) p = Some RegularFile) sample_config ''/d/filter''
     (replicate MAX_INPUT_STREAMS input_zero) MAX_INPUT_STREAMS =
   Returned (1, (replicate MAX_INPUT_STREAMS input_zero)[0 := \<lparr>in_tag = Some ''eve'', in_uri = Some ''file://x'',
      in_script = Some ''/d/filter/f.lua'', in_default_analyzer = Some ''a'', in_input = None, in_queue = None\<rparr>])"
  "\<exists>xs. load_outputs_config sample_config (replicate MAX_OUTPUT_STREAMS output_zero) MAX_OUTPUT_STREAMS = Returned (3, xs)"
  by (simp_all add: load_analyzers_config_def load_inputs_config_def load_outputs_config_def sample_config_def sample_analyzer_def
      sample_input_def sample_outputs_def sample_start_def MAX_ANALYZER_STREAMS_def MAX_INPUT_STREAMS_def MAX_OUTPUT_STREAMS_def
      DRAGONFLY_LOG_INDEX_def DRAGONFLY_STATS_INDEX_def sample_eval)

lemma sample_initialized:
  "\<exists>m'. initialize_configuration (sample_start pid) ''/d'' None m = Returned m' \<and> g_num_analyzer_threads m' = 1 \<and>
     g_num_input_threads m' = 1 \<and> g_num_output_threads m' = 3"
proof -
  obtain xs where xs: "load_outputs_config sample_config (replicate MAX_OUTPUT_STREAMS output_zero) MAX_OUTPUT_STREAMS =
      Returned (3, xs)" using sample_tables(3) by blast
  have glob: "sample_config ''redis_port'' = LNil" "sample_config ''redis_host'' = LNil" "sample_config ''responders'' = LNil"
    by (simp_all add: sample_config_def)
  have env: "sv_lstat (sample_start pid) ''/d'' = Some Directory" "sv_lstat (sample_start pid) ''/d/analyzer'' = Some Directory"
    "sv_lstat (sample_start pid) ''/d/filter'' = Some Directory" "sv_lstat (sample_start pid) ''/d/config/config.lua'' = Some RegularFile"
    "sv_config (sample_start pid) p = ConfigGlobals sample_config" "log_dir_ok (sample_start pid) d"
    "sv_redis (sample_start pid) h n = False" for p d h n
    by (simp_all add: sample_start_def log_dir_ok_def)
  show ?thesis
    unfolding initialize_configuration_def Let_def
    by (simp add: sample_copy env require_def load_configuration_def glob lua_tolstring_def load_redis_def sample_tables(1,2) xs
        load_responder_config_def cong del: proc_bind_cong)
qed



definition sample_mle :: mle where
  "sample_mle = \<lparr>m_engine = sample_engine\<lparr>g_queues := (\<lambda>_. None)\<rparr>, m_next_queue = 0, g_verbose = False, g_initialized = False,
     g_root_dir = [], m_log_dir = [], m_filter_dir = [], m_analyzer_dir = [], m_config_file = [], g_redis_host = None,
     g_redis_port = 6379, g_num_analyzer_threads = 0, g_num_input_threads = 0, g_num_flywheel_threads = 0,
     g_num_output_threads = 0, g_analyzer_pid = -1, g_io_thread = [], g_analyzer_thread = []\<rparr>"

theorem configuration_checked_witness:
  "\<exists>m'. initialize_configuration (sample_start 7) ''/d'' None sample_mle = Returned m' \<and> tables_ready (sample_start 7) m'"
  using sample_initialized [of 7 sample_mle] configuration_checked [of "sample_start 7" "''/d''" None sample_mle] by blast

text \<open>The queues of all elements in use.\<close>

definition queue_addresses :: "engine \<Rightarrow> nat list" where
  "queue_addresses e = map the (filter (\<lambda>q. q \<noteq> None) (map an_queue (g_analyzer_list e) @ map in_queue (g_input_list e) @
     map out_queue (g_output_list e)))"

lemma assigned_addresses:
  assumes "queues_assigned a m m'"
  shows "queue_addresses (m_engine m') =
    [a..<a + g_num_analyzer_threads m + g_num_input_threads m + g_num_output_threads m]"
proof -
  have f: "map the (filter (\<lambda>q. q \<noteq> None) (map Some qs @ replicate k None)) = qs" for qs :: "nat list" and k
    by (induction qs) simp_all
  let ?b = "a + g_num_analyzer_threads m" let ?c = "?b + g_num_input_threads m"
  have "queue_addresses (m_engine m') = [a..<?b] @ [?b..<?c] @ [?c..<?c + g_num_output_threads m]"
    using assms unfolding queue_addresses_def queues_assigned_def Let_def by (simp add: f del: not_None_eq)
  also have "\<dots> = [a..<?c + g_num_output_threads m]"
    using upt_add_eq_append [of a ?b "g_num_input_threads m"] upt_add_eq_append [of a ?c "g_num_output_threads m"] by simp
  finally show ?thesis .
qed

text \<open>
  C24. Every configured analyzer, input and output gets a queue of its own: after the configuration
  no two of them share one, each is open and empty, and elements that are not configured have none.
\<close>

theorem queues_distinct:
  assumes "initialize_configuration env root log m0 = Returned m" "\<forall>s. sv_pipe env s"
  shows "\<exists>m'. create_message_queues env m = Returned m' \<and> distinct (queue_addresses (m_engine m')) \<and>
    length (queue_addresses (m_engine m')) = g_num_analyzer_threads m + g_num_input_threads m + g_num_output_threads m \<and>
    (\<forall>a \<in> set (queue_addresses (m_engine m')). \<exists>q. g_queues (m_engine m') a = Some q \<and> holds_msgs q [])"
proof -
  obtain m' where m': "create_message_queues env m = Returned m'" "queues_assigned (m_next_queue m) m m'"
    using queues_created [OF initialized(1) [OF assms(1)] assms(2)] by blast
  have "\<forall>a \<in> set (queue_addresses (m_engine m')). \<exists>q. g_queues (m_engine m') a = Some q \<and> holds_msgs q []"
    using m'(2) unfolding assigned_addresses [OF m'(2)] queues_assigned_def Let_def new_queues_def by simp
  then show ?thesis using m'(1) assigned_addresses [OF m'(2)] by auto
qed

theorem queues_distinct_witness:
  "\<exists>m m'. create_message_queues (sample_start 7) m = Returned m' \<and> distinct (queue_addresses (m_engine m')) \<and>
    length (queue_addresses (m_engine m')) = 5"
proof -
  obtain m where m: "initialize_configuration (sample_start 7) ''/d'' None sample_mle = Returned m"
    "g_num_analyzer_threads m = 1" "g_num_input_threads m = 1" "g_num_output_threads m = 3"
    using sample_initialized [of 7 sample_mle] by blast
  have "\<forall>s. sv_pipe (sample_start 7) s" by (simp add: sample_start_def)
  from queues_distinct [OF m(1) this] show ?thesis unfolding m(2-4) by force
qed

text \<open>
  C22. Starting the first process with an accepted configuration never runs past the table of
  threads: one input thread and one flywheel thread for each input and one output thread for each
  output are started, and both barriers are passed, for any sizes the tables allow.
\<close>

theorem startup_starts_all:
  assumes "initialize_configuration env root log m0 = Returned m" "calls_succeed env" "0 < sv_fork env"
  shows "\<exists>m'. startup_threads env dp cr m = Returned m' \<and>
    g_io_thread m' = io_threads (g_num_input_threads m) (g_num_output_threads m) \<and> length (g_io_thread m') \<le> IO_THREADS"
proof -
  note init = initialized [OF assms(1)]
  have "2 * g_num_input_threads m + g_num_output_threads m \<le> IO_THREADS"
    using tables_fit [OF init(1)] by (simp add: IO_THREADS_def)
  then show ?thesis using threads_started [OF init(1,2) assms(2,3), of dp cr] by auto
qed

theorem startup_starts_all_witness:
  "\<exists>m m'. startup_threads (sample_start 7) True True m = Returned m' \<and>
    g_io_thread m' = [InputThread 0, FlywheelThread 0, OutputThread 0, OutputThread 1, OutputThread 2]"
proof -
  obtain m where m: "initialize_configuration (sample_start 7) ''/d'' None sample_mle = Returned m"
    "g_num_input_threads m = 1" "g_num_output_threads m = 3"
    using sample_initialized [of 7 sample_mle] by blast
  have "io_threads 1 3 = [InputThread 0, FlywheelThread 0, OutputThread 0, OutputThread 1, OutputThread 2]"
    by (simp add: io_threads_def upt_rec)
  then show ?thesis using startup_starts_all [OF m(1), of True True] m(2,3) by auto
qed





section \<open>What goes wrong\<close>

text \<open>With as many inputs as the table holds, the end of the run reads past it.\<close>

lemma full_table_overrun:
  assumes "\<forall>a \<in> set qs. h a \<noteq> None"
  shows "cancel_queues (map Some qs) h = Undefined ''read past the table''"
  using assms
proof (induction qs arbitrary: h)
  case (Cons a qs)
  have "msgqueue_cancel (h a) \<noteq> None" using Cons.prems by (auto simp: msgqueue_cancel_def split: option.splits)
  then have "cancel_queues (map Some qs) (h(a := msgqueue_cancel (h a))) = Undefined ''read past the table''"
    using Cons.prems by (intro Cons.IH) simp
  then show ?case using Cons.prems by auto
qed simp

lemma full_inputs_overrun:
  assumes "map in_queue (g_input_list (m_engine m)) = map Some qs" "\<forall>a \<in> set qs. g_queues (m_engine m) a \<noteq> None"
  shows "destroy_message_queues m = Undefined ''read past the table''"
  using full_table_overrun [OF assms(2)] by (simp add: destroy_message_queues_def assms(1) Let_def)

text \<open>A table of threads that is full has no end mark: eight inputs and four outputs of the user.\<close>

lemma full_thread_table_overrun:
  "g_io_thread m = io_threads MAX_INPUT_STREAMS MAX_OUTPUT_STREAMS \<Longrightarrow> shutdown_threads m = Undefined ''read past the table''"
  by (simp add: shutdown_threads_def IO_THREADS_def)

text \<open>The option for verbose output has no effect: the flag is set again from the terminal.\<close>

lemma verbose_option_lost:
  "initialize_configuration env root log (m\<lparr>g_verbose := b\<rparr>) = initialize_configuration env root log m"
  by (simp add: initialize_configuration_def Let_def cong del: proc_bind_cong)

end
