(* ===== verification/MainProg.thy ===== *)
theory MainProg
  imports Lifecycle
begin

text \<open>
  The program itself, \<open>main.c\<close>: the command line, read by \<open>getopt\<close> of the GNU library, and the run
  of the engine. The arguments are those after the name of the program.
\<close>

section \<open>Command line\<close>

record main_options =
  g_chroot :: bool
  g_verbose_option :: bool
  g_drop_priv :: bool
  dragonfly_root :: string
  dragonfly_log :: "string option"

definition main_defaults :: main_options where
  "main_defaults = \<lparr>g_chroot = False, g_verbose_option = False, g_drop_priv = False,
     dragonfly_root = DRAGONFLY_ROOT_DIR, dragonfly_log = None\<rparr>"

text \<open>
  What the optstring \<open>cflpr:vV\<close> says of a letter: unknown, without or with an argument. An option
  without one leaves \<open>optarg\<close> NULL.
\<close>

datatype opt_class = OptUnknown | OptPlain | OptArgument

definition opt_class :: "char \<Rightarrow> opt_class" where
  "opt_class c = (if c = CHR ''r'' then OptArgument else if c \<in> set ''cflpvV'' then OptPlain else OptUnknown)"

text \<open>
  The cases of the loop over the options; \<open>-V\<close>, \<open>-f\<close> and what \<open>getopt\<close> reports as \<open>?\<close> end the
  process.
\<close>

definition main_option :: "char \<Rightarrow> string option \<Rightarrow> main_options \<Rightarrow> main_options proc" where
  "main_option c optarg opts =
     (if c = CHR ''c'' then Returned (opts\<lparr>g_chroot := True\<rparr>)
      else if c = CHR ''p'' then Returned (opts\<lparr>g_drop_priv := True\<rparr>)
      else if c = CHR ''r'' then
        (case optarg of None \<Rightarrow> Undefined ''strndup of NULL''
         | Some s \<Rightarrow> Returned (opts\<lparr>dragonfly_root := strndup s PATH_MAX\<rparr>))
      else if c = CHR ''l'' then
        (case optarg of None \<Rightarrow> Undefined ''strndup of NULL''
         | Some s \<Rightarrow> Returned (opts\<lparr>dragonfly_log := Some (strndup s PATH_MAX)\<rparr>))
      else if c = CHR ''v'' then Returned (opts\<lparr>g_verbose_option := True\<rparr>)
      else Exited EXIT_SUCCESS)"

text \<open>
  The loop, with what is left of the current argument and the arguments that follow. Arguments
  that are no options are passed over; \<open>--\<close> ends the options.
\<close>

function main_loop :: "string \<Rightarrow> string list \<Rightarrow> main_options \<Rightarrow> main_options proc" where
  "main_loop [] [] opts = Returned opts"
| "main_loop [] (a # as) opts =
     (if a = ''--'' then Returned opts
      else if a \<noteq> [] \<and> hd a = CHR ''-'' \<and> tl a \<noteq> [] then main_loop (tl a) as opts
      else main_loop [] as opts)"
| "main_loop (c # cs) as opts =
     (case opt_class c of
        OptPlain \<Rightarrow> proc_bind (main_option c None opts) (main_loop cs as)
      | OptArgument \<Rightarrow>
          (if cs \<noteq> [] then proc_bind (main_option c (Some cs) opts) (main_loop [] as)
           else
             case as of
               [] \<Rightarrow> Exited EXIT_SUCCESS
             | a # as' \<Rightarrow> proc_bind (main_option c (Some a) opts) (main_loop [] as'))
      | OptUnknown \<Rightarrow> Exited EXIT_SUCCESS)"
  by pat_completeness auto
termination
  by (relation "measure (\<lambda>(cs, as, opts). length cs + sum_list (map (\<lambda>a. length a + 1) as))")
    (auto simp: hd_conv_nth)

section \<open>The program\<close>

definition main_program :: "start_env \<Rightarrow> string list \<Rightarrow> mle \<Rightarrow> unit proc" where
  "main_program env argv m =
     proc_bind (main_loop [] argv main_defaults) (\<lambda>opts.
     proc_bind (dragonfly_mle_run env (g_drop_priv opts) (g_chroot opts) (dragonfly_root opts) (dragonfly_log opts)
       (m\<lparr>g_verbose := g_verbose_option opts\<rparr>)) (\<lambda>m.
     Exited EXIT_SUCCESS))"

section \<open>Properties\<close>

text \<open>Letters that switch something on.\<close>

definition flag_letter :: "char \<Rightarrow> bool" where
  "flag_letter c \<longleftrightarrow> c \<in> set ''cpv''"

definition set_flags :: "string \<Rightarrow> main_options \<Rightarrow> main_options" where
  "set_flags cs opts = opts\<lparr>g_chroot := g_chroot opts \<or> CHR ''c'' \<in> set cs, g_drop_priv := g_drop_priv opts \<or> CHR ''p'' \<in> set cs,
     g_verbose_option := g_verbose_option opts \<or> CHR ''v'' \<in> set cs\<rparr>"

lemma set_flags_Nil [simp]: "set_flags [] opts = opts"
  by (simp add: set_flags_def)

lemma set_flags_append: "set_flags bs (set_flags as opts) = set_flags (as @ bs) opts"
  by (cases opts) (auto simp: set_flags_def)

lemma flag_option: "flag_letter c \<Longrightarrow> main_option c None opts = Returned (set_flags [c] opts) \<and> opt_class c = OptPlain"
  by (cases opts) (auto simp: flag_letter_def main_option_def set_flags_def opt_class_def)

lemma not_flag_dash: "\<not> flag_letter CHR ''-''"
  by (simp add: flag_letter_def)

lemma flag_cluster:
  "\<forall>c \<in> set cs. flag_letter c \<Longrightarrow> main_loop (cs @ ds) as opts = main_loop ds as (set_flags cs opts)"
proof (induction cs arbitrary: opts)
  case (Cons c cs)
  then show ?case using flag_option [of c opts] set_flags_append [of cs "[c]" opts] by simp
qed simp

text \<open>
  The flags of the command line can be given one by one or together, in any order and grouping
  and repeated, before the other arguments: the engine is run with the same options.
\<close>

theorem flags_grouping_irrelevant:
  assumes "\<forall>g \<in> set groups \<union> set groups'. g \<noteq> [] \<and> (\<forall>c \<in> set g. flag_letter c)"
    and "set (concat groups) = set (concat groups')"
  shows "main_program env (map (Cons CHR ''-'') groups @ as) m = main_program env (map (Cons CHR ''-'') groups' @ as) m"
proof -
  have loop: "main_loop [] (map (Cons CHR ''-'') gs @ as) opts = main_loop [] as (set_flags (concat gs) opts)"
    if "\<forall>g \<in> set gs. g \<noteq> [] \<and> (\<forall>c \<in> set g. flag_letter c)" for gs opts
    using that
  proof (induction gs arbitrary: opts)
    case (Cons g gs)
    have "g \<noteq> ''-''"
      using Cons.prems not_flag_dash by (metis list.set_intros(1))
    then show ?case
      using Cons.prems Cons.IH [of "set_flags g opts"] flag_cluster [of g "[]" "map (Cons CHR ''-'') gs @ as" opts]
      by (simp add: set_flags_append)
  qed simp
  have "set_flags (concat groups) opts = set_flags (concat groups') opts" for opts
    unfolding set_flags_def assms(2) ..
  moreover have "\<forall>g \<in> set groups. g \<noteq> [] \<and> (\<forall>c \<in> set g. flag_letter c)"
    "\<forall>g \<in> set groups'. g \<noteq> [] \<and> (\<forall>c \<in> set g. flag_letter c)"
    using assms(1) by blast+
  ultimately show ?thesis by (simp only: main_program_def loop)
qed

theorem flags_grouping_irrelevant_witness:
  "main_program (sample_start 7) [''-cpv'', ''-r'', ''/d''] sample_mle =
    main_program (sample_start 7) [''-v'', ''-pc'', ''-r'', ''/d''] sample_mle"
  using flags_grouping_irrelevant [of "[''cpv'']" "[''v'', ''pc'']" "sample_start 7" "[''-r'', ''/d'']" sample_mle]
  by (simp add: flag_letter_def insert_commute)

section \<open>What goes wrong\<close>

text \<open>\<open>-l\<close> is not followed by a colon in the optstring, so its argument is NULL.\<close>

lemma log_option_crashes:
  "\<forall>c \<in> set cs. flag_letter c \<Longrightarrow>
    main_program env ((CHR ''-'' # cs @ CHR ''l'' # ds) # as) m = Undefined ''strndup of NULL''"
proof -
  assume cs: "\<forall>c \<in> set cs. flag_letter c"
  have "main_loop (cs @ CHR ''l'' # ds) as opts = Undefined ''strndup of NULL''" for opts
    using flag_cluster [OF cs, of "CHR ''l'' # ds" as opts] by (simp add: opt_class_def main_option_def)
  moreover have "cs @ CHR ''l'' # ds \<noteq> ''-''"
    using cs not_flag_dash by (cases cs) auto
  ultimately show ?thesis by (simp add: main_program_def)
qed

end
