(* ===== verification/StrBuf.thy ===== *)
theory StrBuf
  imports LuaValue
begin

text \<open>
  The string buffers of \<open>lib/lua-cjson/strbuf.c\<close> and \<open>strbuf.h\<close>: a string that grows in a block of
  memory. Sizes are C integers: arithmetic that leaves their range is undefined, and a write has
  to be within the block.
\<close>

section \<open>How a C function called from Lua ends\<close>

text \<open>
  It returns, raises a Lua error, runs into undefined behaviour, or ends the process; or the
  fuel of a recursion is used up.
\<close>

datatype 'a lua_proc = LReturn 'a | LError string | LCrash string | LExit | LFuel

fun lbind :: "'a lua_proc \<Rightarrow> ('a \<Rightarrow> 'b lua_proc) \<Rightarrow> 'b lua_proc" where
  "lbind (LReturn a) f = f a"
| "lbind (LError m) f = LError m"
| "lbind (LCrash m) f = LCrash m"
| "lbind LExit f = LExit"
| "lbind LFuel f = LFuel"

lemma lbind_cong [fundef_cong]:
  "p = p' \<Longrightarrow> (\<And>a. p' = LReturn a \<Longrightarrow> f a = f' a) \<Longrightarrow> lbind p f = lbind p' f'"
  by (cases p') auto

lemma lbind_LReturn: "lbind p f = LReturn b \<longleftrightarrow> (\<exists>a. p = LReturn a \<and> f a = LReturn b)"
  by (cases p) auto

lemma lbind_assoc: "lbind (lbind p f) g = lbind p (\<lambda>a. lbind (f a) g)"
  by (cases p) auto

section \<open>C integers\<close>

definition INT_MAX :: int where "INT_MAX = 2 ^ 31 - 1"
definition INT_MIN :: int where "INT_MIN = - (2 ^ 31)"

definition c_int :: "int \<Rightarrow> int lua_proc" where
  "c_int x = (if INT_MIN \<le> x \<and> x \<le> INT_MAX then LReturn x else LCrash ''signed overflow'')"

text \<open>A \<open>size_t\<close> given as an \<open>int\<close> argument.\<close>

definition int_of_size :: "nat \<Rightarrow> int" where
  "int_of_size n = signed_take_bit 31 (int n)"

lemma c_int_fits: "INT_MIN \<le> x \<Longrightarrow> x \<le> INT_MAX \<Longrightarrow> c_int x = LReturn x"
  by (simp add: c_int_def)

lemma int_of_size_small: "int n \<le> INT_MAX \<Longrightarrow> int_of_size n = int n"
  by (simp add: int_of_size_def INT_MAX_def signed_take_bit_int_eq_self)

section \<open>The buffer\<close>

text \<open>
  \<open>sb_buf\<close> is the string so far, of \<open>length\<close> bytes, in a block of \<open>sb_size\<close> bytes; \<open>None\<close> when there is
  no block.
\<close>

record strbuf =
  sb_buf :: "byte list option"
  sb_size :: int
  sb_increment :: int
  sb_dynamic :: bool
  sb_reallocs :: nat

definition STRBUF_DEFAULT_SIZE :: int where "STRBUF_DEFAULT_SIZE = 1023"
definition STRBUF_DEFAULT_INCREMENT :: int where "STRBUF_DEFAULT_INCREMENT = -2"

definition strbuf_length :: "strbuf \<Rightarrow> int" where
  "strbuf_length s = (case sb_buf s of None \<Rightarrow> 0 | Some b \<Rightarrow> int (length b))"

definition strbuf_empty_length :: "strbuf \<Rightarrow> int" where
  "strbuf_empty_length s = sb_size s - strbuf_length s - 1"

definition strbuf_reset :: "strbuf \<Rightarrow> strbuf" where
  "strbuf_reset s = s\<lparr>sb_buf := map_option (\<lambda>_. []) (sb_buf s)\<rparr>"

definition strbuf_allocated :: "strbuf \<Rightarrow> bool" where
  "strbuf_allocated s \<longleftrightarrow> sb_buf s \<noteq> None"

text \<open>Bytes stored at the end without a check: they must fit the block.\<close>

definition strbuf_append_mem_unsafe :: "byte list \<Rightarrow> strbuf \<Rightarrow> strbuf lua_proc" where
  "strbuf_append_mem_unsafe c s =
     (case sb_buf s of
        None \<Rightarrow> LCrash ''write to NULL''
      | Some b \<Rightarrow>
          if int (length b + length c) \<le> sb_size s then LReturn (s\<lparr>sb_buf := Some (b @ c)\<rparr>)
          else LCrash ''write past the buffer'')"

definition strbuf_append_char_unsafe :: "byte \<Rightarrow> strbuf \<Rightarrow> strbuf lua_proc" where
  "strbuf_append_char_unsafe c s = strbuf_append_mem_unsafe [c] s"

text \<open>The terminator is stored behind the string.\<close>

definition strbuf_ensure_null :: "strbuf \<Rightarrow> strbuf lua_proc" where
  "strbuf_ensure_null s =
     (case sb_buf s of
        None \<Rightarrow> LCrash ''write to NULL''
      | Some b \<Rightarrow> if int (length b) < sb_size s then LReturn s else LCrash ''write past the buffer'')"

text \<open>The string, as a pointer into the buffer and its length.\<close>

definition strbuf_string :: "strbuf \<Rightarrow> byte list lua_proc" where
  "strbuf_string s = (case sb_buf s of None \<Rightarrow> LCrash ''read of NULL'' | Some b \<Rightarrow> LReturn b)"

section \<open>Making and freeing\<close>

text \<open>\<open>mem\<close> says for which sizes \<open>malloc\<close> and \<open>realloc\<close> succeed.\<close>

definition strbuf_init :: "(int \<Rightarrow> bool) \<Rightarrow> int \<Rightarrow> strbuf lua_proc" where
  "strbuf_init mem len =
     lbind (if len \<le> 0 then LReturn STRBUF_DEFAULT_SIZE else c_int (len + 1)) (\<lambda>size.
     if \<not> mem size then LExit
     else strbuf_ensure_null \<lparr>sb_buf = Some [], sb_size = size, sb_increment = STRBUF_DEFAULT_INCREMENT,
            sb_dynamic = False, sb_reallocs = 0\<rparr>)"

definition strbuf_new :: "(int \<Rightarrow> bool) \<Rightarrow> int \<Rightarrow> strbuf lua_proc" where
  "strbuf_new mem len = lbind (strbuf_init mem len) (\<lambda>s. LReturn (s\<lparr>sb_dynamic := True\<rparr>))"

definition strbuf_set_increment :: "int \<Rightarrow> strbuf \<Rightarrow> strbuf lua_proc" where
  "strbuf_set_increment increment s =
     (if increment = 0 \<or> increment = -1 then LExit else LReturn (s\<lparr>sb_increment := increment\<rparr>))"

text \<open>A buffer made by \<open>strbuf_new\<close> is freed itself: nothing of it is left.\<close>

definition strbuf_free :: "strbuf \<Rightarrow> strbuf option" where
  "strbuf_free s = (if sb_dynamic s then None else Some (s\<lparr>sb_buf := None\<rparr>))"

definition strbuf_free_to_string :: "strbuf \<Rightarrow> byte list lua_proc" where
  "strbuf_free_to_string s = lbind (strbuf_ensure_null s) strbuf_string"

section \<open>Growing\<close>

text \<open>Exponential sizing: a size that is not positive would never grow.\<close>

function exponential_size :: "int \<Rightarrow> int \<Rightarrow> int \<Rightarrow> int lua_proc" where
  "exponential_size factor reqsize newsize =
     (if newsize < reqsize then
        if newsize \<le> 0 \<or> factor \<le> 1 then LFuel
        else lbind (c_int (newsize * factor)) (exponential_size factor reqsize)
      else LReturn newsize)"
  by pat_completeness auto
termination
proof (relation "measure (\<lambda>(f, r, n). nat (r - n))", goal_cases)
  case 1
  show ?case by simp
next
  case (2 factor reqsize newsize a)
  then have "newsize < reqsize" "\<not> newsize \<le> 0" "\<not> factor \<le> 1" "c_int (newsize * factor) = LReturn a"
    by auto
  then have "a = newsize * factor" "newsize < newsize * factor"
    by (auto simp: c_int_def split: if_splits)
  then show ?case using \<open>newsize < reqsize\<close> by simp
qed

declare exponential_size.simps [simp del]

definition calculate_new_size :: "int \<Rightarrow> strbuf \<Rightarrow> int lua_proc" where
  "calculate_new_size len s =
     (if len \<le> 0 then LExit
      else
        lbind (c_int (len + 1)) (\<lambda>reqsize.
        if sb_size s > reqsize then LReturn reqsize
        else if sb_increment s < 0 then
          lbind (c_int (- sb_increment s)) (\<lambda>factor. exponential_size factor reqsize (sb_size s))
        else
          lbind (c_int (sb_size s + sb_increment s)) (\<lambda>n.
            LReturn ((n - 1) div sb_increment s * sb_increment s))))"

definition strbuf_resize :: "(int \<Rightarrow> bool) \<Rightarrow> int \<Rightarrow> strbuf \<Rightarrow> strbuf lua_proc" where
  "strbuf_resize mem len s =
     lbind (calculate_new_size len s) (\<lambda>newsize.
     if \<not> mem newsize then LExit else LReturn (s\<lparr>sb_size := newsize, sb_reallocs := sb_reallocs s + 1\<rparr>))"

definition strbuf_ensure_empty_length :: "(int \<Rightarrow> bool) \<Rightarrow> int \<Rightarrow> strbuf \<Rightarrow> strbuf lua_proc" where
  "strbuf_ensure_empty_length mem len s =
     (if len > strbuf_empty_length s then
        lbind (c_int (strbuf_length s + len)) (\<lambda>n. strbuf_resize mem n s)
      else LReturn s)"

section \<open>Appending\<close>

definition strbuf_append_char :: "(int \<Rightarrow> bool) \<Rightarrow> byte \<Rightarrow> strbuf \<Rightarrow> strbuf lua_proc" where
  "strbuf_append_char mem c s =
     lbind (strbuf_ensure_empty_length mem 1 s) (strbuf_append_char_unsafe c)"

definition strbuf_append_mem :: "(int \<Rightarrow> bool) \<Rightarrow> byte list \<Rightarrow> strbuf \<Rightarrow> strbuf lua_proc" where
  "strbuf_append_mem mem c s =
     lbind (strbuf_ensure_empty_length mem (int (length c)) s) (strbuf_append_mem_unsafe c)"

text \<open>A C string, byte by byte; \<open>space\<close> counts the room that is left.\<close>

fun append_string_loop :: "(int \<Rightarrow> bool) \<Rightarrow> byte list \<Rightarrow> int \<Rightarrow> strbuf \<Rightarrow> strbuf lua_proc" where
  "append_string_loop mem [] space s = LReturn s"
| "append_string_loop mem (c # cs) space s =
     lbind (if space < 1 then
              lbind (strbuf_resize mem (strbuf_length s + 1) s) (\<lambda>s. LReturn (strbuf_empty_length s, s))
            else LReturn (space, s)) (\<lambda>(space, s).
     lbind (strbuf_append_char_unsafe c s) (append_string_loop mem cs (space - 1)))"

definition strbuf_append_string :: "(int \<Rightarrow> bool) \<Rightarrow> byte list \<Rightarrow> strbuf \<Rightarrow> strbuf lua_proc" where
  "strbuf_append_string mem str s = append_string_loop mem (bcstr str) (strbuf_empty_length s) s"

text \<open>
  Formatted text; at most \<open>len\<close> bytes with the terminator are written, but the whole length is
  counted: the caller has to know a bound.
\<close>

definition strbuf_append_fmt :: "(int \<Rightarrow> bool) \<Rightarrow> int \<Rightarrow> byte list \<Rightarrow> strbuf \<Rightarrow> strbuf lua_proc" where
  "strbuf_append_fmt mem len formatted s =
     lbind (strbuf_ensure_empty_length mem len s) (\<lambda>s.
     if int (length formatted) < len then strbuf_append_mem_unsafe formatted s
     else LCrash ''text longer than announced'')"

text \<open>Without a bound: a second try after the block was made large enough.\<close>

definition strbuf_append_fmt_retry :: "(int \<Rightarrow> bool) \<Rightarrow> byte list \<Rightarrow> strbuf \<Rightarrow> strbuf lua_proc" where
  "strbuf_append_fmt_retry mem formatted s =
     (let fmt_len = int (length formatted) in
      if fmt_len \<le> strbuf_empty_length s then strbuf_append_mem_unsafe formatted s
      else
        lbind (c_int (strbuf_length s + fmt_len)) (\<lambda>n.
        lbind (strbuf_resize mem n s) (\<lambda>s.
        if fmt_len \<le> strbuf_empty_length s then strbuf_append_mem_unsafe formatted s else LExit)))"


section \<open>Appending refines concatenation\<close>

text \<open>A buffer with its default growth that holds the string \<open>b\<close>, with room for the terminator.\<close>

definition holds_string :: "strbuf \<Rightarrow> byte list \<Rightarrow> bool" where
  "holds_string s b \<longleftrightarrow> sb_buf s = Some b \<and> int (length b) < sb_size s \<and> sb_size s \<le> INT_MAX \<and>
     sb_increment s = STRBUF_DEFAULT_INCREMENT"

definition SAFE_SIZE :: int where "SAFE_SIZE = 2 ^ 30"

lemma holds_length [simp]:
  "holds_string s b \<Longrightarrow> strbuf_length s = int (length b)"
  "holds_string s b \<Longrightarrow> strbuf_empty_length s = sb_size s - int (length b) - 1"
  "holds_string s b \<Longrightarrow> strbuf_string s = LReturn b"
  "holds_string s b \<Longrightarrow> strbuf_ensure_null s = LReturn s"
  by (simp_all add: holds_string_def strbuf_length_def strbuf_empty_length_def strbuf_string_def strbuf_ensure_null_def)

lemma holds_reset: "holds_string s b \<Longrightarrow> holds_string (strbuf_reset s) []"
  by (auto simp: holds_string_def strbuf_reset_def)

lemma holds_dynamic [simp]: "holds_string (s\<lparr>sb_dynamic := d\<rparr>) b = holds_string s b"
  by (simp add: holds_string_def)

lemma init_holds:
  assumes "\<forall>n. mem n" "len < INT_MAX"
  shows "\<exists>s. strbuf_init mem len = LReturn s \<and> holds_string s [] \<and> \<not> sb_dynamic s \<and>
    sb_size s = (if len \<le> 0 then STRBUF_DEFAULT_SIZE else len + 1)"
  using assms
  by (auto simp: strbuf_init_def c_int_def strbuf_ensure_null_def holds_string_def STRBUF_DEFAULT_SIZE_def INT_MAX_def
      INT_MIN_def)

lemma exponential_fits:
  assumes "0 < n" "n \<le> INT_MAX" "r \<le> SAFE_SIZE"
  shows "\<exists>m. exponential_size 2 r n = LReturn m \<and> r \<le> m \<and> n \<le> m \<and> m \<le> INT_MAX"
  using assms
proof (induction "2 :: int" r n rule: exponential_size.induct)
  case (1 r n)
  show ?case
  proof (cases "n < r")
    case True
    then have "n * 2 \<le> INT_MAX" using 1(4) by (simp add: SAFE_SIZE_def INT_MAX_def)
    moreover have "c_int (n * 2) = LReturn (n * 2)"
      using calculation 1(2) by (simp add: c_int_fits INT_MIN_def)
    ultimately obtain m where "exponential_size 2 r (n * 2) = LReturn m" "r \<le> m" "n * 2 \<le> m" "m \<le> INT_MAX"
      using 1(1) [of "n * 2"] True 1(2,4) by auto
    then show ?thesis using True 1(2) \<open>c_int (n * 2) = LReturn (n * 2)\<close>
      by (subst exponential_size.simps) auto
  next
    case False
    then show ?thesis using 1(3) by (subst exponential_size.simps) auto
  qed
qed

lemma resize_holds:
  assumes "holds_string s b" "\<forall>n. mem n" "0 < len" "len < SAFE_SIZE" "sb_size s \<le> len + 1"
  shows "\<exists>s'. strbuf_resize mem len s = LReturn s' \<and> holds_string s' b \<and> len < sb_size s' \<and> sb_size s \<le> sb_size s'"
proof -
  have "0 < sb_size s" using assms(1) by (auto simp: holds_string_def)
  then obtain m where m: "exponential_size 2 (len + 1) (sb_size s) = LReturn m" "len + 1 \<le> m" "sb_size s \<le> m" "m \<le> INT_MAX"
    using exponential_fits [of "sb_size s" "len + 1"] assms by (auto simp: holds_string_def)
  have "calculate_new_size len s = LReturn m"
    using assms m(1) by (simp add: calculate_new_size_def holds_string_def STRBUF_DEFAULT_INCREMENT_def c_int_def
        SAFE_SIZE_def INT_MAX_def INT_MIN_def)
  then show ?thesis using assms m by (auto simp: strbuf_resize_def holds_string_def)
qed

lemma ensure_holds:
  assumes "holds_string s b" "\<forall>n. mem n" "int (length b) + len < SAFE_SIZE"
  shows "\<exists>s'. strbuf_ensure_empty_length mem len s = LReturn s' \<and> holds_string s' b \<and>
    int (length b) + len < sb_size s' \<and> sb_size s \<le> sb_size s'"
proof (cases "len > strbuf_empty_length s")
  case True
  then have n: "0 < int (length b) + len" "sb_size s \<le> int (length b) + len + 1"
    using assms(1) by (auto simp: holds_string_def strbuf_empty_length_def strbuf_length_def)
  have "c_int (int (length b) + len) = LReturn (int (length b) + len)"
    using n(1) assms(3) by (simp add: c_int_def INT_MIN_def INT_MAX_def SAFE_SIZE_def)
  then show ?thesis
    using True resize_holds [OF assms(1,2) n(1) assms(3) n(2)] assms(1)
    by (auto simp: strbuf_ensure_empty_length_def)
next
  case False
  then show ?thesis using assms(1) by (auto simp: strbuf_ensure_empty_length_def)
qed

lemma unsafe_holds:
  assumes "holds_string s b" "int (length b + length c) < sb_size s"
  shows "strbuf_append_mem_unsafe c s = LReturn (s\<lparr>sb_buf := Some (b @ c)\<rparr>) \<and> holds_string (s\<lparr>sb_buf := Some (b @ c)\<rparr>) (b @ c)"
  using assms by (auto simp: holds_string_def strbuf_append_mem_unsafe_def)

lemma append_mem_holds:
  assumes "holds_string s b" "\<forall>n. mem n" "int (length b + length c) < SAFE_SIZE"
  shows "\<exists>s'. strbuf_append_mem mem c s = LReturn s' \<and> holds_string s' (b @ c) \<and> sb_size s \<le> sb_size s'"
proof -
  obtain s1 where "strbuf_ensure_empty_length mem (int (length c)) s = LReturn s1" "holds_string s1 b"
      "int (length b) + int (length c) < sb_size s1" "sb_size s \<le> sb_size s1"
    using ensure_holds [OF assms(1,2), of "int (length c)"] assms(3) by auto
  then show ?thesis using unsafe_holds [of s1 b c] by (auto simp: strbuf_append_mem_def)
qed

lemma append_char_holds:
  assumes "holds_string s b" "\<forall>n. mem n" "int (length b) + 1 < SAFE_SIZE"
  shows "\<exists>s'. strbuf_append_char mem c s = LReturn s' \<and> holds_string s' (b @ [c]) \<and> sb_size s \<le> sb_size s'"
  using append_mem_holds [OF assms(1,2), of "[c]"] assms(3)
  by (simp add: strbuf_append_char_def strbuf_append_mem_def strbuf_append_char_unsafe_def [abs_def])

lemma append_string_loop_holds:
  assumes "holds_string s b" "\<forall>n. mem n" "int (length b + length cs) < SAFE_SIZE" "space = strbuf_empty_length s"
  shows "\<exists>s'. append_string_loop mem cs space s = LReturn s' \<and> holds_string s' (b @ cs) \<and> sb_size s \<le> sb_size s'"
  using assms
proof (induction cs arbitrary: b s space)
  case (Cons c cs)
  obtain s1 where s1: "(if space < 1 then
        lbind (strbuf_resize mem (strbuf_length s + 1) s) (\<lambda>s. LReturn (strbuf_empty_length s, s))
      else LReturn (space, s)) = LReturn (strbuf_empty_length s1, s1)" "holds_string s1 b"
      "int (length b) + 1 < sb_size s1" "sb_size s \<le> sb_size s1"
  proof (cases "space < 1")
    case True
    then have "sb_size s \<le> int (length b) + 1 + 1" using Cons.prems(1,4) by simp
    then obtain s1 where "strbuf_resize mem (int (length b) + 1) s = LReturn s1" "holds_string s1 b"
        "int (length b) + 1 < sb_size s1" "sb_size s \<le> sb_size s1"
      using resize_holds [OF Cons.prems(1,2), of "int (length b) + 1"] Cons.prems(3) by auto
    then show ?thesis using that [of s1] True Cons.prems(1) by simp
  next
    case False
    then show ?thesis using that [of s] Cons.prems(1,4) by simp
  qed
  let ?s2 = "s1\<lparr>sb_buf := Some (b @ [c])\<rparr>"
  have u: "strbuf_append_char_unsafe c s1 = LReturn ?s2" "holds_string ?s2 (b @ [c])"
    using unsafe_holds [OF s1(2), of "[c]"] s1(3) by (simp_all add: strbuf_append_char_unsafe_def)
  have "strbuf_empty_length s1 - 1 = strbuf_empty_length ?s2" using s1(2) u(2) by simp
  then obtain s' where "append_string_loop mem cs (strbuf_empty_length s1 - 1) ?s2 = LReturn s'"
      "holds_string s' ((b @ [c]) @ cs)" "sb_size ?s2 \<le> sb_size s'"
    using Cons.IH [OF u(2) Cons.prems(2), of "strbuf_empty_length s1 - 1"] Cons.prems(3) by auto
  then show ?case using s1(1,4) u(1) by auto
qed simp

lemma append_string_holds:
  assumes "holds_string s b" "\<forall>n. mem n" "int (length b + length (bcstr str)) < SAFE_SIZE"
  shows "\<exists>s'. strbuf_append_string mem str s = LReturn s' \<and> holds_string s' (b @ bcstr str) \<and> sb_size s \<le> sb_size s'"
  unfolding strbuf_append_string_def by (rule append_string_loop_holds [OF assms refl])

lemma append_retry_holds:
  assumes "holds_string s b" "\<forall>n. mem n" "int (length b + length c) < SAFE_SIZE"
  shows "\<exists>s'. strbuf_append_fmt_retry mem c s = LReturn s' \<and> holds_string s' (b @ c) \<and> sb_size s \<le> sb_size s'"
proof (cases "int (length c) \<le> strbuf_empty_length s")
  case True
  then show ?thesis using unsafe_holds [OF assms(1), of c] assms(1) by (auto simp: strbuf_append_fmt_retry_def Let_def)
next
  case False
  then have n: "0 < int (length b) + int (length c)" "sb_size s \<le> int (length b) + int (length c) + 1"
    using assms(1) by (auto simp: holds_string_def strbuf_empty_length_def strbuf_length_def)
  obtain s1 where s1: "strbuf_resize mem (int (length b) + int (length c)) s = LReturn s1" "holds_string s1 b"
      "int (length b) + int (length c) < sb_size s1" "sb_size s \<le> sb_size s1"
    using resize_holds [OF assms(1,2) n(1) _ n(2)] assms(3) by auto
  have "c_int (int (length b) + int (length c)) = LReturn (int (length b) + int (length c))"
    using assms(3) by (simp add: c_int_def INT_MIN_def INT_MAX_def SAFE_SIZE_def)
  then show ?thesis
    using False s1 unsafe_holds [OF s1(2), of c] assms(1) by (auto simp: strbuf_append_fmt_retry_def Let_def)
qed

text \<open>The operations of a client, and what they do to the string.\<close>

datatype sb_op =
    OpChar byte | OpMem "byte list" | OpString "byte list" | OpFmt "byte list" | OpReset | OpEnsure int | OpNull

fun run_op :: "(int \<Rightarrow> bool) \<Rightarrow> sb_op \<Rightarrow> strbuf \<Rightarrow> strbuf lua_proc" where
  "run_op mem (OpChar c) s = strbuf_append_char mem c s"
| "run_op mem (OpMem c) s = strbuf_append_mem mem c s"
| "run_op mem (OpString c) s = strbuf_append_string mem c s"
| "run_op mem (OpFmt c) s = strbuf_append_fmt_retry mem c s"
| "run_op mem OpReset s = LReturn (strbuf_reset s)"
| "run_op mem (OpEnsure n) s = strbuf_ensure_empty_length mem n s"
| "run_op mem OpNull s = strbuf_ensure_null s"

fun spec_op :: "sb_op \<Rightarrow> byte list \<Rightarrow> byte list" where
  "spec_op (OpChar c) b = b @ [c]"
| "spec_op (OpMem c) b = b @ c"
| "spec_op (OpString c) b = b @ bcstr c"
| "spec_op (OpFmt c) b = b @ c"
| "spec_op OpReset b = []"
| "spec_op (OpEnsure n) b = b"
| "spec_op OpNull b = b"

text \<open>How far an operation reaches beyond the string.\<close>

fun op_room :: "sb_op \<Rightarrow> int" where
  "op_room (OpChar c) = 1"
| "op_room (OpMem c) = int (length c)"
| "op_room (OpString c) = int (length (bcstr c))"
| "op_room (OpFmt c) = int (length c)"
| "op_room (OpEnsure n) = max n 0"
| "op_room _ = 0"

lemma op_room_nonneg: "0 \<le> op_room x"
  by (cases x) auto

lemma run_op_holds:
  assumes "holds_string s b" "\<forall>n. mem n" "int (length b) + op_room x < SAFE_SIZE"
  shows "\<exists>s'. run_op mem x s = LReturn s' \<and> holds_string s' (spec_op x b) \<and>
    int (length (spec_op x b)) \<le> int (length b) + op_room x"
proof (cases x)
  case (OpEnsure n)
  then have "int (length b) + n < SAFE_SIZE" using assms(3) by (simp add: max_def split: if_splits)
  then show ?thesis using ensure_holds [OF assms(1,2), of n] OpEnsure by auto
next
  case (OpChar c)
  then show ?thesis using append_char_holds [OF assms(1,2), of c] assms(3) by auto
next
  case (OpMem c)
  then show ?thesis using append_mem_holds [OF assms(1,2), of c] assms(3) by auto
next
  case (OpString c)
  then show ?thesis using append_string_holds [OF assms(1,2), of c] assms(3) by auto
next
  case (OpFmt c)
  then show ?thesis using append_retry_holds [OF assms(1,2), of c] assms(3) by auto
next
  case OpReset
  then show ?thesis using holds_reset [OF assms(1)] by simp
next
  case OpNull
  then show ?thesis using assms(1) by simp
qed

fun run_ops :: "(int \<Rightarrow> bool) \<Rightarrow> sb_op list \<Rightarrow> strbuf \<Rightarrow> strbuf lua_proc" where
  "run_ops mem [] s = LReturn s"
| "run_ops mem (x # xs) s = lbind (run_op mem x s) (run_ops mem xs)"

lemma run_ops_holds:
  assumes "holds_string s b" "\<forall>n. mem n" "int (length b) + sum_list (map op_room xs) < SAFE_SIZE"
  shows "\<exists>s'. run_ops mem xs s = LReturn s' \<and> holds_string s' (fold spec_op xs b)"
  using assms
proof (induction xs arbitrary: s b)
  case (Cons x xs)
  have "0 \<le> sum_list (map op_room xs)" by (rule sum_list_nonneg) (auto simp: op_room_nonneg)
  then obtain s1 where "run_op mem x s = LReturn s1" "holds_string s1 (spec_op x b)"
      "int (length (spec_op x b)) \<le> int (length b) + op_room x"
    using run_op_holds [OF Cons.prems(1,2), of x] Cons.prems(3) by auto
  moreover obtain s' where "run_ops mem xs s1 = LReturn s'" "holds_string s' (fold spec_op xs (spec_op x b))"
    using Cons.IH [OF calculation(2) Cons.prems(2)] Cons.prems(3) calculation(3) by fastforce
  ultimately have "run_ops mem (x # xs) s = LReturn s'" "holds_string s' (fold spec_op (x # xs) b)" by simp_all
  then show ?case by blast
qed simp

text \<open>
  A string buffer is a string: after any sequence of operations on a new one the string is
  the concatenation of what was appended since the last reset, and no write left the block, as
  long as less than a gigabyte is appended in all and memory is available.
\<close>

theorem strbuf_refines:
  assumes "\<forall>n. mem n" "len < INT_MAX" "sum_list (map op_room xs) < SAFE_SIZE"
  shows "\<exists>s. lbind (strbuf_init mem len) (run_ops mem xs) = LReturn s \<and> strbuf_string s = LReturn (fold spec_op xs [])"
proof -
  obtain s where "strbuf_init mem len = LReturn s" "holds_string s []"
    using init_holds [OF assms(1,2)] by blast
  then show ?thesis using run_ops_holds [of s "[]" mem xs] assms(1,3) holds_length(3) by auto
qed

theorem strbuf_refines_witness:
  "\<exists>s. lbind (strbuf_init (\<lambda>n. True) 2) (run_ops (\<lambda>n. True) [OpChar 65, OpReset, OpMem [66, 67, 68], OpString [69, 0]]) = LReturn s \<and>
    strbuf_string s = LReturn [66, 67, 68, 69]"
  using strbuf_refines [of "\<lambda>n. True" 2 "[OpChar 65, OpReset, OpMem [66, 67, 68], OpString [69, 0]]"]
  by (simp add: INT_MAX_def SAFE_SIZE_def bcstr_def)

section \<open>What goes wrong\<close>

text \<open>With linear growth the size asked for is not looked at: a long string is written past the block.\<close>

lemma linear_growth_overruns:
  assumes "sb_buf s = Some []" "sb_size s = 10" "sb_increment s = 10" "\<forall>n. mem n" "length c = 20"
  shows "strbuf_append_mem mem c s = LCrash ''write past the buffer''"
  using assms
  by (simp add: strbuf_append_mem_def strbuf_ensure_empty_length_def strbuf_empty_length_def strbuf_length_def c_int_def
      INT_MIN_def INT_MAX_def strbuf_resize_def calculate_new_size_def strbuf_append_mem_unsafe_def)

end
