(* ===== verification/JsonConfig.thy ===== *)
theory JsonConfig
  imports StrBuf
begin

text \<open>
  The configuration of \<open>lib/lua-cjson/lua-cjson.c\<close>: the tables for single characters, the settings,
  and the functions with which a script changes them. A function gives a list of results or an
  error, and the configuration as it is then: what was set before an error stays set.
\<close>

section \<open>Environment\<close>

text \<open>
  What the C and Lua libraries do: memory, stack space by nesting, \<open>luaL_checkinteger\<close> (none is an
  error), the text of a number, the names of the types that are opaque here, \<open>snprintf\<close> of a
  number and \<open>strtod\<close>, which gives the value and the number of bytes read.
\<close>

record json_env =
  je_mem :: "int \<Rightarrow> bool"
  je_stack :: "int \<Rightarrow> bool"
  je_checkinteger :: "lua_val \<Rightarrow> int option"
  je_num2str :: "u64 \<Rightarrow> byte list"
  je_typename :: "nat \<Rightarrow> string"
  je_printf :: "string \<Rightarrow> u64 \<Rightarrow> byte list"
  je_strtod :: "byte list \<Rightarrow> u64 \<times> nat"
  je_point :: byte                     \<comment> \<open>the decimal point of the locale\<close>

section \<open>Tables of characters\<close>

datatype json_token_type =
    T_OBJ_BEGIN | T_OBJ_END | T_ARR_BEGIN | T_ARR_END | T_STRING | T_NUMBER | T_BOOLEAN | T_NULL
  | T_COLON | T_COMMA | T_END | T_WHITESPACE | T_ERROR | T_UNKNOWN

fun json_token_type_name :: "json_token_type \<Rightarrow> string" where
  "json_token_type_name T_OBJ_BEGIN = ''T_OBJ_BEGIN''"
| "json_token_type_name T_OBJ_END = ''T_OBJ_END''"
| "json_token_type_name T_ARR_BEGIN = ''T_ARR_BEGIN''"
| "json_token_type_name T_ARR_END = ''T_ARR_END''"
| "json_token_type_name T_STRING = ''T_STRING''"
| "json_token_type_name T_NUMBER = ''T_NUMBER''"
| "json_token_type_name T_BOOLEAN = ''T_BOOLEAN''"
| "json_token_type_name T_NULL = ''T_NULL''"
| "json_token_type_name T_COLON = ''T_COLON''"
| "json_token_type_name T_COMMA = ''T_COMMA''"
| "json_token_type_name T_END = ''T_END''"
| "json_token_type_name T_WHITESPACE = ''T_WHITESPACE''"
| "json_token_type_name T_ERROR = ''T_ERROR''"
| "json_token_type_name T_UNKNOWN = ''T_UNKNOWN''"

definition ch :: "char \<Rightarrow> byte" where
  "ch c = of_char c"

definition ch2token :: "byte \<Rightarrow> json_token_type" where
  "ch2token b =
     (if b = ch CHR ''{'' then T_OBJ_BEGIN else if b = ch CHR ''}'' then T_OBJ_END
      else if b = ch CHR ''['' then T_ARR_BEGIN else if b = ch CHR '']'' then T_ARR_END
      else if b = ch CHR '','' then T_COMMA else if b = ch CHR '':'' then T_COLON
      else if b = 0 then T_END
      else if b = ch CHR '' '' \<or> b = 9 \<or> b = 10 \<or> b = 13 then T_WHITESPACE
      else if b \<in> {ch CHR ''f'', ch CHR ''i'', ch CHR ''I'', ch CHR ''n'', ch CHR ''N'', ch CHR ''t'', ch CHR ''\"'',
          ch CHR ''+'', ch CHR ''-''} \<or> 48 \<le> b \<and> b \<le> 57 then T_UNKNOWN
      else T_ERROR)"

text \<open>0 is an error, \<open>u\<close> needs Unicode parsing.\<close>

definition escape2char :: "byte \<Rightarrow> byte" where
  "escape2char b =
     (if b = ch CHR ''\"'' \<or> b = 92 \<or> b = ch CHR ''/'' \<or> b = ch CHR ''u'' then b
      else if b = ch CHR ''b'' then 8 else if b = ch CHR ''t'' then 9 else if b = ch CHR ''n'' then 10
      else if b = ch CHR ''f'' then 12 else if b = ch CHR ''r'' then 13 else 0)"

definition hex_digit :: "nat \<Rightarrow> byte" where
  "hex_digit d = of_nat (if d < 10 then 48 + d else 87 + d)"

text \<open>The text for a character that is not written as it is.\<close>

definition char2escape :: "byte \<Rightarrow> byte list option" where
  "char2escape b =
     (if b = 8 then Some (bytes_of [CHR 0x5C, CHR ''b'']) else if b = 9 then Some (bytes_of [CHR 0x5C, CHR ''t''])
      else if b = 10 then Some (bytes_of [CHR 0x5C, CHR ''n'']) else if b = 12 then Some (bytes_of [CHR 0x5C, CHR ''f''])
      else if b = 13 then Some (bytes_of [CHR 0x5C, CHR ''r'']) else if b = 34 then Some (bytes_of [CHR 0x5C, CHR 0x22])
      else if b = 47 then Some (bytes_of [CHR 0x5C, CHR ''/'']) else if b = 92 then Some (bytes_of [CHR 0x5C, CHR 0x5C])
      else if b < 32 \<or> b = 127 then
        Some (bytes_of [CHR 0x5C, CHR ''u'', CHR ''0'', CHR ''0''] @ [hex_digit (unat b div 16), hex_digit (unat b mod 16)])
      else None)"

section \<open>Settings\<close>

record json_config =
  encode_buf :: strbuf
  encode_sparse_convert :: int
  encode_sparse_ratio :: int
  encode_sparse_safe :: int
  encode_max_depth :: int
  encode_invalid_numbers :: int
  encode_number_precision :: int
  encode_keep_buffer :: int
  decode_invalid_numbers :: int
  decode_max_depth :: int

definition json_create_config :: "json_env \<Rightarrow> json_config lua_proc" where
  "json_create_config env =
     lbind (strbuf_init (je_mem env) 0) (\<lambda>s.
     LReturn \<lparr>encode_buf = s, encode_sparse_convert = 0, encode_sparse_ratio = 2, encode_sparse_safe = 10,
       encode_max_depth = 1000, encode_invalid_numbers = 0, encode_number_precision = 14,
       encode_keep_buffer = 1, decode_invalid_numbers = 1, decode_max_depth = 1000\<rparr>)"

text \<open>The buffer is part of the configuration, which is not freed with it.\<close>

definition free_encode_buf :: "json_config \<Rightarrow> json_config" where
  "free_encode_buf cfg = (case strbuf_free (encode_buf cfg) of None \<Rightarrow> cfg | Some s \<Rightarrow> cfg\<lparr>encode_buf := s\<rparr>)"

definition json_destroy_config :: "json_config \<Rightarrow> json_config" where
  "json_destroy_config cfg = free_encode_buf cfg"

section \<open>Options\<close>

type_synonym option_result = "string + lua_val \<times> int"

text \<open>An \<open>int\<close> takes the integer of Lua modulo \<open>2 ^ 32\<close>.\<close>

definition json_integer_option :: "json_env \<Rightarrow> lua_val \<Rightarrow> int \<Rightarrow> int \<Rightarrow> int \<Rightarrow> option_result" where
  "json_integer_option env v setting mn mx =
     (if v = LNil then Inr (LNumber (i2d setting), setting)
      else
        case je_checkinteger env v of
          None \<Rightarrow> Inl ''number expected''
        | Some i \<Rightarrow>
            (let value = signed_take_bit 31 i in
             if mn \<le> value \<and> value \<le> mx then Inr (LNumber (i2d value), value)
             else Inl (''expected integer between '' @ show_int mn @ '' and '' @ show_int mx)))"

fun index_of :: "string list \<Rightarrow> string \<Rightarrow> nat \<Rightarrow> nat option" where
  "index_of [] s i = None"
| "index_of (x # xs) s i = (if strcmp_eq x s then Some i else index_of xs s (i + 1))"

definition luaL_checkoption :: "json_env \<Rightarrow> lua_val \<Rightarrow> string list \<Rightarrow> string + int" where
  "luaL_checkoption env v options =
     (case lua_tolstring (je_num2str env) v of
        None \<Rightarrow> Inl ''string expected''
      | Some s \<Rightarrow>
          (case index_of options (chars_of s) 0 of
             None \<Rightarrow> Inl (''invalid option '' @ cstr (chars_of s))
           | Some i \<Rightarrow> Inr (int i)))"

text \<open>Without a list of options they are \<open>off\<close> and \<open>on\<close>.\<close>

definition json_enum_option :: "json_env \<Rightarrow> lua_val \<Rightarrow> int \<Rightarrow> string list option \<Rightarrow> int \<Rightarrow> option_result" where
  "json_enum_option env v setting opts bool_true0 =
     (let options = (case opts of None \<Rightarrow> [''off'', ''on''] | Some os \<Rightarrow> os);
          bool_true = (if opts = None then 1 else bool_true0);
          r = (if v = LNil then Inr setting
               else case v of
                 LBoolean b \<Rightarrow> if bool_true \<noteq> 0 then Inr ((if b then 1 else 0) * bool_true) else luaL_checkoption env v options
               | _ \<Rightarrow> luaL_checkoption env v options) in
      case r of
        Inl e \<Rightarrow> Inl e
      | Inr setting \<Rightarrow>
          if bool_true \<noteq> 0 \<and> (setting = 0 \<or> setting = bool_true) then Inr (LBoolean (setting \<noteq> 0), setting)
          else Inr (str_val (options ! nat setting), setting))"

section \<open>The configuration functions\<close>

type_synonym cfg_result = "((string + lua_val list) \<times> json_config) lua_proc"

text \<open>More arguments than expected are an error; missing ones are nil.\<close>

definition json_arg_init :: "nat \<Rightarrow> lua_stack \<Rightarrow> json_config \<Rightarrow> cfg_result \<Rightarrow> cfg_result" where
  "json_arg_init n L cfg k =
     (if lua_gettop L \<le> n then k else LReturn (Inl ''found too many arguments'', cfg))"

definition json_cfg_encode_sparse_array :: "json_env \<Rightarrow> lua_stack \<Rightarrow> json_config \<Rightarrow> cfg_result" where
  "json_cfg_encode_sparse_array env L cfg = json_arg_init 3 L cfg
     (case json_enum_option env (lua_at L 1) (encode_sparse_convert cfg) None 1 of
        Inl e \<Rightarrow> LReturn (Inl e, cfg)
      | Inr (r1, n1) \<Rightarrow>
          (let cfg = cfg\<lparr>encode_sparse_convert := n1\<rparr> in
           case json_integer_option env (lua_at L 2) (encode_sparse_ratio cfg) 0 INT_MAX of
             Inl e \<Rightarrow> LReturn (Inl e, cfg)
           | Inr (r2, n2) \<Rightarrow>
               (let cfg = cfg\<lparr>encode_sparse_ratio := n2\<rparr> in
                case json_integer_option env (lua_at L 3) (encode_sparse_safe cfg) 0 INT_MAX of
                  Inl e \<Rightarrow> LReturn (Inl e, cfg)
                | Inr (r3, n3) \<Rightarrow> LReturn (Inr [r1, r2, r3], cfg\<lparr>encode_sparse_safe := n3\<rparr>))))"

definition json_cfg_encode_max_depth :: "json_env \<Rightarrow> lua_stack \<Rightarrow> json_config \<Rightarrow> cfg_result" where
  "json_cfg_encode_max_depth env L cfg = json_arg_init 1 L cfg
     (case json_integer_option env (lua_at L 1) (encode_max_depth cfg) 1 INT_MAX of
        Inl e \<Rightarrow> LReturn (Inl e, cfg)
      | Inr (r, n) \<Rightarrow> LReturn (Inr [r], cfg\<lparr>encode_max_depth := n\<rparr>))"

definition json_cfg_decode_max_depth :: "json_env \<Rightarrow> lua_stack \<Rightarrow> json_config \<Rightarrow> cfg_result" where
  "json_cfg_decode_max_depth env L cfg = json_arg_init 1 L cfg
     (case json_integer_option env (lua_at L 1) (decode_max_depth cfg) 1 INT_MAX of
        Inl e \<Rightarrow> LReturn (Inl e, cfg)
      | Inr (r, n) \<Rightarrow> LReturn (Inr [r], cfg\<lparr>decode_max_depth := n\<rparr>))"

definition json_cfg_encode_number_precision :: "json_env \<Rightarrow> lua_stack \<Rightarrow> json_config \<Rightarrow> cfg_result" where
  "json_cfg_encode_number_precision env L cfg = json_arg_init 1 L cfg
     (case json_integer_option env (lua_at L 1) (encode_number_precision cfg) 1 14 of
        Inl e \<Rightarrow> LReturn (Inl e, cfg)
      | Inr (r, n) \<Rightarrow> LReturn (Inr [r], cfg\<lparr>encode_number_precision := n\<rparr>))"

text \<open>The buffer is made or freed when the setting has changed.\<close>

definition json_cfg_encode_keep_buffer :: "json_env \<Rightarrow> lua_stack \<Rightarrow> json_config \<Rightarrow> cfg_result" where
  "json_cfg_encode_keep_buffer env L cfg = json_arg_init 1 L cfg
     (case json_enum_option env (lua_at L 1) (encode_keep_buffer cfg) None 1 of
        Inl e \<Rightarrow> LReturn (Inl e, cfg)
      | Inr (r, n) \<Rightarrow>
          if n = encode_keep_buffer cfg then LReturn (Inr [r], cfg)
          else if n \<noteq> 0 then
            lbind (strbuf_init (je_mem env) 0) (\<lambda>s. LReturn (Inr [r], cfg\<lparr>encode_keep_buffer := n, encode_buf := s\<rparr>))
          else LReturn (Inr [r], free_encode_buf (cfg\<lparr>encode_keep_buffer := n\<rparr>)))"

definition json_cfg_encode_invalid_numbers :: "json_env \<Rightarrow> lua_stack \<Rightarrow> json_config \<Rightarrow> cfg_result" where
  "json_cfg_encode_invalid_numbers env L cfg = json_arg_init 1 L cfg
     (case json_enum_option env (lua_at L 1) (encode_invalid_numbers cfg) (Some [''off'', ''on'', ''null'']) 1 of
        Inl e \<Rightarrow> LReturn (Inl e, cfg)
      | Inr (r, n) \<Rightarrow> LReturn (Inr [r], cfg\<lparr>encode_invalid_numbers := n\<rparr>))"

definition json_cfg_decode_invalid_numbers :: "json_env \<Rightarrow> lua_stack \<Rightarrow> json_config \<Rightarrow> cfg_result" where
  "json_cfg_decode_invalid_numbers env L cfg = json_arg_init 1 L cfg
     (case json_enum_option env (lua_at L 1) (decode_invalid_numbers cfg) None 1 of
        Inl e \<Rightarrow> LReturn (Inl e, cfg)
      | Inr (r, n) \<Rightarrow> LReturn (Inr [r], cfg\<lparr>decode_invalid_numbers := n\<rparr>))"

end
