(* ===== verification/JsonEnc.thy ===== *)
theory JsonEnc
  imports JsonConfig
begin

text \<open>
  The encoder of \<open>lua-cjson.c\<close>, from a Lua value to JSON text in a string buffer, and the output of
  numbers of \<open>fpconv.c\<close>. \<open>cjson.null\<close> is the light userdata NULL. A table that contains itself is
  no value here; the real encoder stops at the maximal depth.
\<close>

definition json_null :: lua_val where "json_null = LOpaque 1"

definition lua_typename :: "json_env \<Rightarrow> lua_val \<Rightarrow> string" where
  "lua_typename env v =
     (case v of LNil \<Rightarrow> ''nil'' | LBoolean b \<Rightarrow> ''boolean'' | LNumber d \<Rightarrow> ''number'' | LString s \<Rightarrow> ''string''
      | LTable t \<Rightarrow> ''table'' | LOpaque n \<Rightarrow> je_typename env n)"

definition json_encode_exception :: "json_env \<Rightarrow> lua_val \<Rightarrow> string \<Rightarrow> 'a lua_proc" where
  "json_encode_exception env v reason =
     LError (''Cannot serialise '' @ lua_typename env v @ '': '' @ reason)"

section \<open>Strings\<close>

text \<open>
  Room for the worst case of six bytes for each is made first. Escaped characters are appended
  with a check all the same, the others without.
\<close>

fun append_escaped :: "json_env \<Rightarrow> byte list \<Rightarrow> strbuf \<Rightarrow> strbuf lua_proc" where
  "append_escaped env [] json = LReturn json"
| "append_escaped env (c # cs) json =
     lbind (case char2escape c of
              Some escstr \<Rightarrow> strbuf_append_string (je_mem env) escstr json
            | None \<Rightarrow> strbuf_append_char_unsafe c json) (append_escaped env cs)"

definition json_append_string :: "json_env \<Rightarrow> byte list \<Rightarrow> strbuf \<Rightarrow> strbuf lua_proc" where
  "json_append_string env str json =
     lbind (strbuf_ensure_empty_length (je_mem env) (int_of_size (length str * 6 + 2)) json) (\<lambda>json.
     lbind (strbuf_append_char_unsafe 34 json) (\<lambda>json.
     lbind (append_escaped env str json) (strbuf_append_char_unsafe 34)))"

section \<open>Numbers\<close>

definition FPCONV_G_FMT_BUFSIZE :: nat where "FPCONV_G_FMT_BUFSIZE = 32"

text \<open>The format \<open>%.<precision>g\<close>; other precisions fail the assertion.\<close>

definition set_number_format :: "int \<Rightarrow> string lua_proc" where
  "set_number_format precision =
     (if 1 \<le> precision \<and> precision \<le> 14 then
        LReturn (''%.'' @ (if precision div 10 \<noteq> 0 then [digit_char (nat (precision div 10))] else []) @
          [digit_char (nat (precision mod 10))] @ ''g'')
      else LCrash ''assertion failed'')"

text \<open>The whole length is returned, as \<open>snprintf\<close> does, but at most 31 bytes are written.\<close>

definition fpconv_g_fmt :: "json_env \<Rightarrow> u64 \<Rightarrow> int \<Rightarrow> (byte list \<times> nat) lua_proc" where
  "fpconv_g_fmt env num precision =
     lbind (set_number_format precision) (\<lambda>fmt.
       let txt = je_printf env fmt num; buf = take (FPCONV_G_FMT_BUFSIZE - 1) txt in
       LReturn (if je_point env = ch CHR ''.'' then buf
                else map (\<lambda>b. if b = je_point env then ch CHR ''.'' else b) buf, length txt))"

definition d_isinf :: "u64 \<Rightarrow> bool" where
  "d_isinf d \<longleftrightarrow> dexp d = 2047 \<and> dman d = 0"

text \<open>The settings for NaN and infinities: an error, as they are printed, or \<open>null\<close>.\<close>

definition json_append_number :: "json_env \<Rightarrow> json_config \<Rightarrow> u64 \<Rightarrow> strbuf \<Rightarrow> strbuf lua_proc" where
  "json_append_number env cfg num json =
     (let print = lbind (strbuf_ensure_empty_length (je_mem env) (int FPCONV_G_FMT_BUFSIZE) json) (\<lambda>json.
            lbind (fpconv_g_fmt env num (encode_number_precision cfg)) (\<lambda>(txt, len).
            if len \<le> length txt then strbuf_append_mem_unsafe txt json
            else LCrash ''length past the text'')) in
      if encode_invalid_numbers cfg = 0 then
        if d_isinf num \<or> d_isnan num then json_encode_exception env (LNumber num) ''must not be NaN or Inf'' else print
      else if encode_invalid_numbers cfg = 1 then
        if d_isnan num then strbuf_append_mem (je_mem env) (bytes_of ''nan'') json else print
      else if d_isinf num \<or> d_isnan num then strbuf_append_mem (je_mem env) (bytes_of ''null'') json
      else print)"

section \<open>Arrays and objects\<close>

text \<open>
  A key that counts for an array is an integral number of at least 1; one that is no \<open>int\<close> is
  converted to one, which is undefined.
\<close>

datatype array_key = NoIndex | Index int | HugeIndex

definition array_key :: "lua_val \<Rightarrow> array_key" where
  "array_key k =
     (case k of
        LNumber d \<Rightarrow>
          if d_isinf d then (if dsgn d = 0 then HugeIndex else NoIndex)
          else (case d_int d of
                  None \<Rightarrow> NoIndex
                | Some i \<Rightarrow> if i < 1 then NoIndex else if i \<le> INT_MAX then Index i else HugeIndex)
      | _ \<Rightarrow> NoIndex)"

text \<open>The greatest index and the number of elements; \<open>None\<close> when the table is not an array.\<close>

fun array_scan :: "lua_table \<Rightarrow> int \<Rightarrow> int \<Rightarrow> (int \<times> int) option lua_proc" where
  "array_scan [] mx items = LReturn (Some (mx, items))"
| "array_scan ((k, v) # t) mx items =
     (case array_key k of
        NoIndex \<Rightarrow> LReturn None
      | HugeIndex \<Rightarrow> LCrash ''conversion to int''
      | Index i \<Rightarrow> lbind (c_int (items + 1)) (array_scan t (max mx i)))"

text \<open>The table is on the top of the stack: an exception names its type.\<close>

definition lua_array_length :: "json_env \<Rightarrow> json_config \<Rightarrow> lua_table \<Rightarrow> int lua_proc" where
  "lua_array_length env cfg t =
     lbind (array_scan t 0 0) (\<lambda>r.
     case r of
       None \<Rightarrow> LReturn (-1)
     | Some (mx, items) \<Rightarrow>
         lbind (if encode_sparse_ratio cfg > 0 then c_int (items * encode_sparse_ratio cfg) else LReturn 0) (\<lambda>limit.
         if encode_sparse_ratio cfg > 0 \<and> mx > limit \<and> mx > encode_sparse_safe cfg then
           if encode_sparse_convert cfg = 0 then json_encode_exception env (LTable t) ''excessively sparse array''
           else LReturn (-1)
         else LReturn mx))"

definition json_check_encode_depth :: "json_env \<Rightarrow> json_config \<Rightarrow> int \<Rightarrow> unit lua_proc" where
  "json_check_encode_depth env cfg current_depth =
     (if current_depth \<le> encode_max_depth cfg \<and> je_stack env current_depth then LReturn ()
      else LError (''Cannot serialise, excessive nesting ('' @ show_int current_depth @ '')''))"

text \<open>
  The value, the elements from index \<open>i\<close> on, \<open>n\<close> of them, and the pairs that \<open>lua_next\<close> still has.
\<close>

function (sequential)
      json_append_data :: "json_env \<Rightarrow> json_config \<Rightarrow> int \<Rightarrow> lua_val \<Rightarrow> strbuf \<Rightarrow> strbuf lua_proc"
  and json_append_array :: "json_env \<Rightarrow> json_config \<Rightarrow> int \<Rightarrow> lua_table \<Rightarrow> nat \<Rightarrow> nat \<Rightarrow> strbuf \<Rightarrow> strbuf lua_proc"
  and json_append_object :: "json_env \<Rightarrow> json_config \<Rightarrow> int \<Rightarrow> bool \<Rightarrow> lua_table \<Rightarrow> strbuf \<Rightarrow> strbuf lua_proc"
where
  "json_append_data env cfg depth v json =
     (case v of
        LString s \<Rightarrow> json_append_string env s json
      | LNumber d \<Rightarrow> json_append_number env cfg d json
      | LBoolean b \<Rightarrow> strbuf_append_mem (je_mem env) (bytes_of (if b then ''true'' else ''false'')) json
      | LNil \<Rightarrow> strbuf_append_mem (je_mem env) (bytes_of ''null'') json
      | LOpaque n \<Rightarrow>
          if v = json_null then strbuf_append_mem (je_mem env) (bytes_of ''null'') json
          else json_encode_exception env v ''type not supported''
      | LTable t \<Rightarrow>
          lbind (c_int (depth + 1)) (\<lambda>depth.
          lbind (json_check_encode_depth env cfg depth) (\<lambda>_.
          lbind (lua_array_length env cfg t) (\<lambda>len.
          if 0 < len then
            lbind (strbuf_append_char (je_mem env) 91 json) (\<lambda>json.
            lbind (json_append_array env cfg depth t 1 (nat len) json) (strbuf_append_char (je_mem env) 93))
          else
            lbind (strbuf_append_char (je_mem env) 123 json) (\<lambda>json.
            lbind (json_append_object env cfg depth False t json) (strbuf_append_char (je_mem env) 125))))))"
| "json_append_array env cfg depth t i 0 json = LReturn json"
| "json_append_array env cfg depth t i (Suc n) json =
     lbind (if 1 < i then strbuf_append_char (je_mem env) 44 json else LReturn json) (\<lambda>json.
     lbind (json_append_data env cfg depth (lua_rawget t (array_index i)) json) (json_append_array env cfg depth t (i + 1) n))"
| "json_append_object env cfg depth comma [] json = LReturn json"
| "json_append_object env cfg depth comma ((k, v) # t) json =
     lbind (if comma then strbuf_append_char (je_mem env) 44 json else LReturn json) (\<lambda>json.
     lbind (case k of
              LNumber d \<Rightarrow>
                lbind (strbuf_append_char (je_mem env) 34 json) (\<lambda>json.
                lbind (json_append_number env cfg d json) (strbuf_append_mem (je_mem env) [34, 58]))
            | LString s \<Rightarrow> lbind (json_append_string env s json) (strbuf_append_char (je_mem env) 58)
            | _ \<Rightarrow> json_encode_exception env k ''table key must be a number or string'') (\<lambda>json.
     lbind (json_append_data env cfg depth v json) (json_append_object env cfg depth True t)))"
  by pat_completeness auto
termination
proof (relation "measures [\<lambda>x. case x of
      Inl (_, _, _, v, _) \<Rightarrow> size v
    | Inr (Inl (_, _, _, t, _, _, _)) \<Rightarrow> size (LTable t)
    | Inr (Inr (_, _, _, _, t, _)) \<Rightarrow> size (LTable t),
    \<lambda>x. case x of Inl _ \<Rightarrow> 1 | _ \<Rightarrow> (0::nat),
    \<lambda>x. case x of Inr (Inl (_, _, _, _, _, n, _)) \<Rightarrow> n | _ \<Rightarrow> 0]", goal_cases)
qed (use size_rawget in \<open>auto simp del: lua_val.size simp: lua_val.size(11)\<close>)


declare json_append_data.simps [simp del] json_append_array.simps [simp del] json_append_object.simps [simp del]

text \<open>
  A script gets the text or an error. After an error the buffer that is kept has some size; its
  contents are reset before its next use, so the configuration is given back as it was.
\<close>

definition json_encode :: "json_env \<Rightarrow> lua_stack \<Rightarrow> json_config \<Rightarrow> cfg_result" where
  "json_encode env L cfg =
     (if lua_gettop L \<noteq> 1 then LReturn (Inl ''expected 1 argument'', cfg)
      else
        let r = lbind (if encode_keep_buffer cfg = 0 then strbuf_init (je_mem env) 0
                       else LReturn (strbuf_reset (encode_buf cfg))) (\<lambda>buf.
                lbind (json_append_data env cfg 0 (lua_at L 1) buf) (\<lambda>buf.
                lbind (strbuf_string buf) (\<lambda>json.
                LReturn (Inr [LString json], if encode_keep_buffer cfg = 0 then cfg else cfg\<lparr>encode_buf := buf\<rparr>)))) in
        case r of LError e \<Rightarrow> LReturn (Inl e, cfg) | _ \<Rightarrow> r)"

end
