(* ===== verification/JsonText.thy ===== *)
theory JsonText
  imports JsonEnc
begin

text \<open>
  JSON text as a function of the value, and that the encoder writes it: the composition of
  buffer operations with their sizes, checks and unchecked writes is concatenation.
\<close>

section \<open>The text of a value\<close>

text \<open>A table whose keys are 1 to its number of elements is an array; others are objects.\<close>

definition is_seq :: "lua_table \<Rightarrow> bool" where
  "is_seq t \<longleftrightarrow> t \<noteq> [] \<and> set (map fst t) = set (map array_index [1..<length t + 1])"

definition elements :: "lua_table \<Rightarrow> lua_val list" where
  "elements t = map (\<lambda>i. lua_rawget t (array_index i)) [1..<length t + 1]"

fun commas :: "byte list list \<Rightarrow> byte list" where
  "commas [] = []"
| "commas (x # xs) = x @ concat (map (\<lambda>y. 44 # y) xs)"

definition json_char :: "byte \<Rightarrow> byte list" where
  "json_char c = (case char2escape c of Some e \<Rightarrow> e | None \<Rightarrow> [c])"

definition json_quote :: "byte list \<Rightarrow> byte list" where
  "json_quote s = 34 # concat (map json_char s) @ [34]"

definition key_bytes :: "lua_val \<Rightarrow> byte list" where
  "key_bytes k = (case k of LString s \<Rightarrow> s | _ \<Rightarrow> [])"

lemma size_elements: "v \<in> set (elements t) \<Longrightarrow> size v < size (LTable t)"
  using size_rawget by (auto simp: elements_def simp del: lua_val.size)

function json_text :: "(u64 \<Rightarrow> byte list) \<Rightarrow> lua_val \<Rightarrow> byte list" where
  "json_text num v =
     (case v of
        LString s \<Rightarrow> json_quote s
      | LNumber d \<Rightarrow> num d
      | LBoolean b \<Rightarrow> bytes_of (if b then ''true'' else ''false'')
      | LTable t \<Rightarrow>
          if is_seq t then [91] @ commas (map (json_text num) (elements t)) @ [93]
          else [123] @ commas (map (\<lambda>(k, x). json_quote (key_bytes k) @ [58] @ json_text num x) t) @ [125]
      | _ \<Rightarrow> bytes_of ''null'')"
  by pat_completeness auto
termination
  by (relation "measure (\<lambda>(num, v). size v)")
    (auto simp del: lua_val.size simp: lua_val.size(11) dest: size_elements size_table_entries)

declare json_text.simps [simp del]

text \<open>What is read back: nil is \<open>cjson.null\<close>, numbers are rounded, and the elements are in order.\<close>

function json_image :: "(u64 \<Rightarrow> u64) \<Rightarrow> lua_val \<Rightarrow> lua_val" where
  "json_image round v =
     (case v of
        LString s \<Rightarrow> LString s
      | LNumber d \<Rightarrow> LNumber (round d)
      | LBoolean b \<Rightarrow> LBoolean b
      | LTable t \<Rightarrow>
          LTable (if is_seq t then zip (map array_index [1..<length t + 1]) (map (json_image round) (elements t))
                  else map (\<lambda>(k, x). (k, json_image round x)) t)
      | _ \<Rightarrow> json_null)"
  by pat_completeness auto
termination
  by (relation "measure (\<lambda>(r, v). size v)")
    (auto simp del: lua_val.size simp: lua_val.size(11) dest: size_elements size_table_entries)

declare json_image.simps [simp del]

text \<open>
  Values that have a text: numbers that have one, tables that are arrays up to a length or have
  distinct strings as keys, nil and \<open>cjson.null\<close>.
\<close>

function json_plain :: "int \<Rightarrow> (u64 \<Rightarrow> bool) \<Rightarrow> lua_val \<Rightarrow> bool" where
  "json_plain lim ok v =
     (case v of
        LNumber d \<Rightarrow> ok d
      | LTable t \<Rightarrow>
          if is_seq t then int (length t) \<le> lim \<and> list_all (json_plain lim ok) (elements t)
          else distinct (map fst t) \<and> list_all (\<lambda>(k, x). (case k of LString s \<Rightarrow> True | _ \<Rightarrow> False) \<and> json_plain lim ok x) t
      | LOpaque n \<Rightarrow> v = json_null
      | _ \<Rightarrow> True)"
  by pat_completeness auto
termination
  by (relation "measure (\<lambda>(n, r, v). size v)")
    (auto simp del: lua_val.size simp: lua_val.size(11) dest: size_elements size_table_entries)

declare json_plain.simps [simp del]

function json_height :: "lua_val \<Rightarrow> nat" where
  "json_height v =
     (case v of
        LTable t \<Rightarrow> Suc (if is_seq t then foldr (\<lambda>x. max (json_height x)) (elements t) 0
                         else foldr (\<lambda>(k, x). max (json_height x)) t 0)
      | _ \<Rightarrow> 0)"
  by pat_completeness auto
termination
  by (relation "measure size")
    (auto simp del: lua_val.size simp: lua_val.size(11) dest: size_elements size_table_entries)

declare json_height.simps [simp del]

section \<open>Operations that write\<close>

text \<open>
  With memory, the operation appends the text whatever the buffer holds. The six-fold room is what
  the encoder asks for before it writes a string.
\<close>

definition writes :: "(strbuf \<Rightarrow> strbuf lua_proc) \<Rightarrow> byte list \<Rightarrow> bool" where
  "writes f w \<longleftrightarrow> (\<forall>s b. holds_string s b \<longrightarrow> 6 * int (length b + length w) + 40 < SAFE_SIZE \<longrightarrow>
     (\<exists>s'. f s = LReturn s' \<and> holds_string s' (b @ w)))"

lemma writes_bind:
  assumes "writes f u" "writes g w"
  shows "writes (\<lambda>s. lbind (f s) g) (u @ w)"
  unfolding writes_def
proof (intro allI impI)
  fix s b assume s: "holds_string s b" "6 * int (length b + length (u @ w)) + 40 < SAFE_SIZE"
  then obtain s1 where s1: "f s = LReturn s1" "holds_string s1 (b @ u)" using assms(1) by (fastforce simp: writes_def)
  then obtain s2 where "g s1 = LReturn s2" "holds_string s2 ((b @ u) @ w)"
    using assms(2) s(2) by (fastforce simp: writes_def)
  then show "\<exists>s'. lbind (f s) g = LReturn s' \<and> holds_string s' (b @ u @ w)" using s1(1) by simp
qed

lemma writes_nothing: "writes LReturn []"
  by (simp add: writes_def)

lemma writes_mem: "\<forall>n. mem n \<Longrightarrow> writes (strbuf_append_mem mem w) w"
  unfolding writes_def
proof (intro allI impI)
  fix s b assume m: "\<forall>n. mem n" and s: "holds_string s b" "6 * int (length b + length w) + 40 < SAFE_SIZE"
  have "int (length b + length w) < SAFE_SIZE" using s(2) by simp
  then show "\<exists>s'. strbuf_append_mem mem w s = LReturn s' \<and> holds_string s' (b @ w)"
    using append_mem_holds [OF s(1) m, of w] by blast
qed

lemma writes_char: "\<forall>n. mem n \<Longrightarrow> writes (strbuf_append_char mem c) [c]"
  using writes_mem [of mem "[c]"]
  by (simp add: strbuf_append_char_def [abs_def] strbuf_append_mem_def [abs_def] strbuf_append_char_unsafe_def [abs_def])

section \<open>Strings\<close>

lemma escape_bounds:
  assumes "char2escape c = Some e"
  shows "length e \<le> 6" "bcstr e = e"
proof -
  have hex: "hex_digit n \<noteq> 0" if "n < 16" for n
  proof -
    have "unat (hex_digit n) = (if n < 10 then 48 + n else 87 + n)"
      using that by (simp add: hex_digit_def unat_of_nat)
    then show ?thesis by (auto split: if_splits)
  qed
  have "unat c < 256" using unsigned_less [of c] by simp
  then have "unat c div 16 < 16" by (simp add: less_mult_imp_div_less)
  then have "hex_digit (unat c div 16) \<noteq> 0" "hex_digit (unat c mod 16) \<noteq> 0" by (simp_all add: hex)
  then show "length e \<le> 6" "bcstr e = e"
    using assms by (auto simp: char2escape_def bytes_of_def bcstr_def split: if_splits)
qed

lemma append_escaped_writes:
  assumes "\<forall>n. je_mem env n"
  shows "holds_string s b \<Longrightarrow> int (length b) + 6 * int (length str) + 1 < sb_size s \<Longrightarrow>
    int (length b) + 6 * int (length str) + 1 < SAFE_SIZE \<Longrightarrow>
    \<exists>s'. append_escaped env str s = LReturn s' \<and> holds_string s' (b @ concat (map json_char str)) \<and>
      int (length (b @ concat (map json_char str))) + 1 < sb_size s'"
proof (induction str arbitrary: s b)
  case (Cons c cs)
  obtain s1 where s1: "(case char2escape c of Some escstr \<Rightarrow> strbuf_append_string (je_mem env) escstr s
      | None \<Rightarrow> strbuf_append_char_unsafe c s) = LReturn s1" "holds_string s1 (b @ json_char c)" "sb_size s \<le> sb_size s1"
  proof (cases "char2escape c")
    case None
    then have "strbuf_append_char_unsafe c s = LReturn (s\<lparr>sb_buf := Some (b @ [c])\<rparr>)"
        "holds_string (s\<lparr>sb_buf := Some (b @ [c])\<rparr>) (b @ json_char c)"
      using unsafe_holds [OF Cons.prems(1), of "[c]"] Cons.prems(2) by (simp_all add: strbuf_append_char_unsafe_def json_char_def)
    then show ?thesis using that None by simp
  next
    case (Some e)
    then have e: "length e \<le> 6" "bcstr e = e" using escape_bounds by blast+
    have "int (length b + length (bcstr e)) < SAFE_SIZE" using Cons.prems(3) e by simp
    then show ?thesis
      using append_string_holds [OF Cons.prems(1) assms, of e] that Some e(2) by (auto simp: json_char_def)
  qed
  have "length (json_char c) \<le> 6"
    using escape_bounds(1) by (auto simp: json_char_def split: option.splits)
  then have "int (length (b @ json_char c)) + 6 * int (length cs) + 1 < sb_size s1"
      "int (length (b @ json_char c)) + 6 * int (length cs) + 1 < SAFE_SIZE"
    using Cons.prems(2,3) s1(3) by simp_all
  from Cons.IH [OF s1(2) this] show ?case using s1(1) by simp
qed simp

lemma length_json_char: "1 \<le> length (json_char c)"
  by (auto simp: json_char_def char2escape_def split: if_splits)

lemma length_json_quote: "length s + 2 \<le> length (json_quote s)"
proof -
  have "length s \<le> length (concat (map json_char s))"
  proof (induction s)
    case (Cons c s)
    then show ?case using length_json_char [of c] by simp
  qed simp
  then show ?thesis by (simp add: json_quote_def)
qed

lemma writes_string:
  assumes "\<forall>n. je_mem env n"
  shows "writes (json_append_string env str) (json_quote str)"
  unfolding writes_def
proof (intro allI impI)
  fix s b assume s: "holds_string s b" "6 * int (length b + length (json_quote str)) + 40 < SAFE_SIZE"
  let ?n = "length str * 6 + 2"
  have n: "int (length b) + int ?n < SAFE_SIZE" using s(2) length_json_quote [of str] by simp
  then have i: "int_of_size ?n = int ?n" by (intro int_of_size_small) (simp add: SAFE_SIZE_def INT_MAX_def)
  obtain s1 where s1: "strbuf_ensure_empty_length (je_mem env) (int ?n) s = LReturn s1" "holds_string s1 b"
      "int (length b) + int ?n < sb_size s1"
    using ensure_holds [OF s(1) assms n] by blast
  let ?s2 = "s1\<lparr>sb_buf := Some (b @ [34])\<rparr>"
  have s2: "strbuf_append_char_unsafe 34 s1 = LReturn ?s2" "holds_string ?s2 (b @ [34])"
    using unsafe_holds [OF s1(2), of "[34]"] s1(3) by (simp_all add: strbuf_append_char_unsafe_def)
  obtain s3 where s3: "append_escaped env str ?s2 = LReturn s3" "holds_string s3 ((b @ [34]) @ concat (map json_char str))"
      "int (length ((b @ [34]) @ concat (map json_char str))) + 1 < sb_size s3"
    using append_escaped_writes [OF assms s2(2), of str] s1(3) n by auto
  have "strbuf_append_char_unsafe 34 s3 = LReturn (s3\<lparr>sb_buf := Some (b @ json_quote str)\<rparr>)"
      "holds_string (s3\<lparr>sb_buf := Some (b @ json_quote str)\<rparr>) (b @ json_quote str)"
    using unsafe_holds [OF s3(2), of "[34]"] s3(3) by (simp_all add: strbuf_append_char_unsafe_def json_quote_def)
  then show "\<exists>s'. json_append_string env str s = LReturn s' \<and> holds_string s' (b @ json_quote str)"
    using s1(1) s2(1) s3(1) i by (simp add: json_append_string_def)
qed

section \<open>Numbers\<close>

definition number_text :: "json_env \<Rightarrow> json_config \<Rightarrow> u64 \<Rightarrow> byte list" where
  "number_text env cfg d =
     (case set_number_format (encode_number_precision cfg) of LReturn fmt \<Rightarrow> je_printf env fmt d | _ \<Rightarrow> [])"

text \<open>The range of the settings, and the room the environment gives.\<close>

definition enc_ok :: "json_env \<Rightarrow> json_config \<Rightarrow> bool" where
  "enc_ok env cfg \<longleftrightarrow> (\<forall>n. je_mem env n) \<and> je_point env = ch CHR ''.'' \<and> 1 \<le> encode_number_precision cfg \<and>
     encode_number_precision cfg \<le> 14 \<and> encode_max_depth cfg \<le> INT_MAX \<and>
     (\<forall>n. 0 \<le> n \<longrightarrow> n \<le> encode_max_depth cfg \<longrightarrow> je_stack env n)"

definition array_limit :: "json_config \<Rightarrow> int" where
  "array_limit cfg = (if encode_sparse_ratio cfg > 0 then INT_MAX div encode_sparse_ratio cfg else INT_MAX)"

definition finite_number :: "json_env \<Rightarrow> json_config \<Rightarrow> u64 \<Rightarrow> bool" where
  "finite_number env cfg d \<longleftrightarrow> \<not> d_isnan d \<and> \<not> d_isinf d \<and> length (number_text env cfg d) < FPCONV_G_FMT_BUFSIZE"

lemma writes_number:
  assumes "enc_ok env cfg" "finite_number env cfg d"
  shows "writes (json_append_number env cfg d) (number_text env cfg d)"
  unfolding writes_def
proof (intro allI impI)
  fix s b assume s: "holds_string s b" "6 * int (length b + length (number_text env cfg d)) + 40 < SAFE_SIZE"
  have mem: "\<forall>n. je_mem env n" using assms(1) by (simp add: enc_ok_def)
  have "int (length b) + int FPCONV_G_FMT_BUFSIZE < SAFE_SIZE" using s(2) by (simp add: FPCONV_G_FMT_BUFSIZE_def)
  then obtain s1 where s1: "strbuf_ensure_empty_length (je_mem env) (int FPCONV_G_FMT_BUFSIZE) s = LReturn s1" "holds_string s1 b"
      "int (length b) + int FPCONV_G_FMT_BUFSIZE < sb_size s1"
    using ensure_holds [OF s(1) mem] by blast
  obtain fmt where fmt: "set_number_format (encode_number_precision cfg) = LReturn fmt"
    using assms(1) by (simp add: set_number_format_def enc_ok_def)
  have tx: "fpconv_g_fmt env d (encode_number_precision cfg) = LReturn (number_text env cfg d, length (number_text env cfg d))"
    using assms by (simp add: fpconv_g_fmt_def fmt number_text_def enc_ok_def finite_number_def Let_def FPCONV_G_FMT_BUFSIZE_def)
  have "strbuf_append_mem_unsafe (number_text env cfg d) s1 = LReturn (s1\<lparr>sb_buf := Some (b @ number_text env cfg d)\<rparr>)"
      "holds_string (s1\<lparr>sb_buf := Some (b @ number_text env cfg d)\<rparr>) (b @ number_text env cfg d)"
    using unsafe_holds [OF s1(2), of "number_text env cfg d"] s1(3) assms(2) by (simp_all add: finite_number_def)
  then show "\<exists>s'. json_append_number env cfg d s = LReturn s' \<and> holds_string s' (b @ number_text env cfg d)"
    using assms(2) s1(1) tx by (simp add: json_append_number_def finite_number_def Let_def)
qed

section \<open>Arrays and objects\<close>

lemma array_key_index:
  assumes "1 \<le> i" "int i \<le> INT_MAX"
  shows "array_key (array_index i) = Index (int i)"
proof -
  have "d_int (i2d (int i)) = Some (int i)" using assms by (intro d_int_index) (simp_all add: INT_MAX_def)
  moreover have "d_int d = None" if "d_isinf d" for d using that by (simp add: d_int_def d_isinf_def d_iszero_def)
  ultimately show ?thesis using assms by (auto simp: array_key_def array_index_def)
qed

lemma array_scan_seq:
  assumes "int m \<le> INT_MAX"
  shows "set (map fst t) \<subseteq> array_index ` {1..m} \<Longrightarrow> 0 \<le> items \<Longrightarrow> items + int (length t) \<le> INT_MAX \<Longrightarrow> mx \<le> int m \<Longrightarrow>
    \<exists>r. array_scan t mx items = LReturn (Some (r, items + int (length t))) \<and> mx \<le> r \<and> r \<le> int m \<and>
      (\<forall>i \<in> {1..m}. array_index i \<in> set (map fst t) \<longrightarrow> int i \<le> r)"
proof (induction t arbitrary: mx items)
  case (Cons p t)
  obtain k v where p: "p = (k, v)" by (cases p)
  obtain i where i: "k = array_index i" "1 \<le> i" "i \<le> m" using Cons.prems(1) by (auto simp: p)
  then have key: "array_key k = Index (int i)" using array_key_index assms by simp
  have "c_int (items + 1) = LReturn (items + 1)" using Cons.prems(2,3) by (simp add: c_int_fits INT_MIN_def)
  moreover obtain r where r: "array_scan t (max mx (int i)) (items + 1) = LReturn (Some (r, items + 1 + int (length t)))"
      "max mx (int i) \<le> r" "r \<le> int m" "\<forall>i \<in> {1..m}. array_index i \<in> set (map fst t) \<longrightarrow> int i \<le> r"
    using Cons.IH [of "items + 1" "max mx (int i)"] Cons.prems i by auto
  moreover have "int j \<le> r" if "1 \<le> j" "j \<le> m" "array_index j = k" for j
  proof -
    have "array_key k = Index (int j)" using array_key_index [of j] that assms by simp
    then show ?thesis using key r(2) by simp
  qed
  ultimately show ?case by (auto simp: p key add.assoc)
qed simp

lemma array_length_seq:
  assumes "is_seq t" "int (length t) \<le> array_limit cfg"
  shows "lua_array_length env cfg t = LReturn (int (length t))"
proof -
  let ?n = "length t" let ?q = "encode_sparse_ratio cfg"
  have "array_limit cfg \<le> INT_MAX"
    using zdiv_mono2 [of INT_MAX 1 ?q] by (auto simp: array_limit_def INT_MAX_def)
  then have n: "int ?n \<le> INT_MAX" using assms(2) by simp
  have keys: "set (map fst t) = array_index ` {1..?n}" "t \<noteq> []"
    using assms(1) by (auto simp: is_seq_def atLeastLessThanSuc_atLeastAtMost)
  then obtain r where r: "array_scan t 0 0 = LReturn (Some (r, int ?n))" "r \<le> int ?n"
      "\<forall>i \<in> {1..?n}. array_index i \<in> set (map fst t) \<longrightarrow> int i \<le> r"
    using array_scan_seq [OF n, of t 0 0] n by auto
  have "?n \<in> {1..?n}" using keys(2) by (cases t) auto
  then have "r = int ?n" using r(2,3) keys(1) by fastforce
  moreover have "c_int (int ?n * ?q) = LReturn (int ?n * ?q)" "int ?n \<le> int ?n * ?q" if "?q > 0"
  proof -
    have "int ?n * ?q \<le> INT_MAX div ?q * ?q" using assms(2) that by (simp add: array_limit_def mult_right_mono)
    also have "\<dots> \<le> INT_MAX" using div_mult_mod_eq [of INT_MAX ?q] pos_mod_sign [OF that, of INT_MAX] by linarith
    finally have "int ?n * ?q \<le> INT_MAX" .
    moreover have "0 \<le> int ?n * ?q" by (intro mult_nonneg_nonneg) (use that in simp_all)
    ultimately show "c_int (int ?n * ?q) = LReturn (int ?n * ?q)" by (intro c_int_fits) (simp_all add: INT_MIN_def)
    show "int ?n \<le> int ?n * ?q" using that mult_left_mono [of 1 ?q "int ?n"] by simp
  qed
  ultimately show ?thesis using r(1) by (auto simp: lua_array_length_def)
qed

lemma array_length_object:
  assumes "\<not> is_seq t" "list_all (\<lambda>(k, x). (case k of LString s \<Rightarrow> True | _ \<Rightarrow> False) \<and> P x) t"
  shows "\<exists>n \<le> 0. lua_array_length env cfg t = LReturn n"
proof (cases t)
  case Nil
  then show ?thesis by (simp add: lua_array_length_def c_int_def INT_MIN_def INT_MAX_def)
next
  case (Cons p t')
  then have "array_scan t 0 0 = LReturn None"
    using assms(2) by (cases p; cases "fst p") (auto simp: array_key_def)
  then show ?thesis by (simp add: lua_array_length_def)
qed

lemma array_loop_writes:
  assumes "\<forall>n. je_mem env n"
    and "\<And>j. i \<le> j \<Longrightarrow> j < i + n \<Longrightarrow> writes (json_append_data env cfg depth (lua_rawget t (array_index j))) (f j)"
  shows "writes (json_append_array env cfg depth t i n) (concat (map (\<lambda>j. (if 1 < j then [44] else []) @ f j) [i..<i + n]))"
  using assms(2)
proof (induction n arbitrary: i)
  case 0
  then show ?case using writes_nothing by (simp add: json_append_array.simps [abs_def])
next
  case (Suc n)
  have c: "writes (\<lambda>s. if 1 < i then strbuf_append_char (je_mem env) 44 s else LReturn s) (if 1 < i then [44] else [])"
    using writes_char [OF assms(1), of 44] writes_nothing by auto
  have "writes (json_append_array env cfg depth t (i + 1) n) (concat (map (\<lambda>j. (if 1 < j then [44] else []) @ f j) [i + 1..<i + 1 + n]))"
    using Suc.prems by (intro Suc.IH) simp
  then have "writes (\<lambda>s. lbind (if 1 < i then strbuf_append_char (je_mem env) 44 s else LReturn s) (\<lambda>s.
      lbind (json_append_data env cfg depth (lua_rawget t (array_index i)) s) (json_append_array env cfg depth t (i + 1) n)))
      ((if 1 < i then [44] else []) @ f i @ concat (map (\<lambda>j. (if 1 < j then [44] else []) @ f j) [i + 1..<i + 1 + n]))"
    using Suc.prems by (intro writes_bind [OF c] writes_bind) simp_all
  then show ?case by (simp add: json_append_array.simps [abs_def] upt_conv_Cons del: upt_Suc)
qed

lemma commas_elements:
  "concat (map (\<lambda>j. (if 1 < j then [44] else []) @ f j) [1..<Suc n]) = commas (map f [1..<Suc n])"
proof (cases n)
  case (Suc m)
  have l: "[1..<Suc n] = 1 # [2..<Suc n]" using Suc by (simp add: upt_conv_Cons numeral_2_eq_2 del: upt_Suc)
  have "concat (map (\<lambda>j. (if 1 < j then [44] else []) @ f j) [2..<Suc n]) = concat (map (\<lambda>y. 44 # y) (map f [2..<Suc n]))"
    unfolding map_map by (intro arg_cong [where f = concat] map_cong) auto
  then show ?thesis by (simp only: l list.map concat.simps commas.simps) simp
qed simp

lemma object_loop_writes:
  assumes "\<forall>n. je_mem env n"
    and "\<And>k x. (k, x) \<in> set t \<Longrightarrow> (\<exists>s. k = LString s) \<and> writes (json_append_data env cfg depth x) (f x)"
  shows "writes (json_append_object env cfg depth comma t)
    (if comma then concat (map (\<lambda>(k, x). 44 # json_quote (key_bytes k) @ [58] @ f x) t)
     else commas (map (\<lambda>(k, x). json_quote (key_bytes k) @ [58] @ f x) t))"
  using assms(2)
proof (induction t arbitrary: comma)
  case Nil
  then show ?case using writes_nothing by (simp add: json_append_object.simps [abs_def])
next
  case (Cons p t)
  obtain k x where p: "p = (k, x)" by (cases p)
  obtain s where k: "k = LString s" and x: "writes (json_append_data env cfg depth x) (f x)"
    using Cons.prems [of k x] by (auto simp: p)
  have rest: "(\<exists>s. k = LString s) \<and> writes (json_append_data env cfg depth x) (f x)" if "(k, x) \<in> set t" for k x
    using Cons.prems [of k x] that by simp
  have c: "writes (\<lambda>j. if comma then strbuf_append_char (je_mem env) 44 j else LReturn j) (if comma then [44] else [])"
    using writes_char [OF assms(1), of 44] writes_nothing by auto
  have key: "writes (\<lambda>j. lbind (json_append_string env s j) (strbuf_append_char (je_mem env) 58)) (json_quote s @ [58])"
    by (rule writes_bind [OF writes_string [OF assms(1)] writes_char [OF assms(1)]])
  have "writes (json_append_object env cfg depth True t) (concat (map (\<lambda>(k, x). 44 # json_quote (key_bytes k) @ [58] @ f x) t))"
    using Cons.IH [OF rest, of True] by simp
  then have "writes (\<lambda>j. lbind (if comma then strbuf_append_char (je_mem env) 44 j else LReturn j) (\<lambda>j.
      lbind (lbind (json_append_string env s j) (strbuf_append_char (je_mem env) 58)) (\<lambda>j.
      lbind (json_append_data env cfg depth x j) (json_append_object env cfg depth True t))))
      ((if comma then [44] else []) @ (json_quote s @ [58]) @ f x @
        concat (map (\<lambda>(k, x). 44 # json_quote (key_bytes k) @ [58] @ f x) t))"
    by (intro writes_bind [OF c] writes_bind [OF key] writes_bind [OF x])
  then show ?case by (cases comma) (simp_all add: json_append_object.simps [abs_def] p k key_bytes_def case_prod_unfold comp_def)
qed

section \<open>The encoder writes the text\<close>

lemma height_element: "x \<in> set xs \<Longrightarrow> json_height x \<le> foldr (\<lambda>x. max (json_height x)) xs 0"
  by (induction xs) auto

lemma height_entry: "(k, x) \<in> set t \<Longrightarrow> json_height x \<le> foldr (\<lambda>(k, x). max (json_height x)) t 0"
  by (induction t) auto

lemma append_data_writes:
  assumes "enc_ok env cfg"
  shows "json_plain (array_limit cfg) (finite_number env cfg) v \<Longrightarrow> 0 \<le> depth \<Longrightarrow>
    depth + int (json_height v) \<le> encode_max_depth cfg \<Longrightarrow>
    writes (json_append_data env cfg depth v) (json_text (number_text env cfg) v)"
proof (induction "number_text env cfg" v arbitrary: depth rule: json_text.induct)
  case (1 v)
  have mem: "\<forall>n. je_mem env n" using assms by (simp add: enc_ok_def)
  show ?case
  proof (cases v)
    case LNil
    then show ?thesis using writes_mem [OF mem] by (simp add: json_append_data.simps [abs_def] json_text.simps)
  next
    case (LBoolean b)
    then show ?thesis using writes_mem [OF mem] by (simp add: json_append_data.simps [abs_def] json_text.simps)
  next
    case (LNumber d)
    then show ?thesis using writes_number [OF assms, of d] 1(3)
      by (simp add: json_append_data.simps [abs_def] json_text.simps json_plain.simps)
  next
    case (LString s)
    then show ?thesis using writes_string [OF mem, of s] by (simp add: json_append_data.simps [abs_def] json_text.simps)
  next
    case (LOpaque n)
    then show ?thesis using writes_mem [OF mem] 1(3)
      by (simp add: json_append_data.simps [abs_def] json_text.simps json_plain.simps json_null_def)
  next
    case (LTable t)
    let ?d = "depth + 1"
    have d: "?d \<le> encode_max_depth cfg" using 1(5) by (simp add: LTable json_height.simps [of "LTable t"])
    then have down: "c_int ?d = LReturn ?d" "json_check_encode_depth env cfg ?d = LReturn ()"
      using assms 1(4) by (auto simp: enc_ok_def c_int_fits INT_MIN_def json_check_encode_depth_def)
    show ?thesis
    proof (cases "is_seq t")
      case True
      let ?n = "length t" let ?f = "\<lambda>j. json_text (number_text env cfg) (lua_rawget t (array_index j))"
      have len: "lua_array_length env cfg t = LReturn (int ?n)" "0 < ?n"
        using array_length_seq [OF True] 1(3) True by (auto simp: LTable json_plain.simps [of _ _ "LTable t"] is_seq_def)
      have el: "writes (json_append_data env cfg ?d (lua_rawget t (array_index j))) (?f j)" if "1 \<le> j" "j < 1 + ?n" for j
      proof -
        have e: "lua_rawget t (array_index j) \<in> set (elements t)" using that unfolding elements_def set_map by (intro imageI) auto
        show ?thesis
        proof (rule 1(1) [OF LTable True e])
          show "json_plain (array_limit cfg) (finite_number env cfg) (lua_rawget t (array_index j))"
            using 1(3) True e by (simp add: LTable json_plain.simps [of _ _ "LTable t"] list_all_iff)
          show "0 \<le> ?d" using 1(4) by simp
          show "?d + int (json_height (lua_rawget t (array_index j))) \<le> encode_max_depth cfg"
            using 1(5) height_element [OF e] True by (simp add: LTable json_height.simps [of "LTable t"])
        qed
      qed
      have "writes (json_append_array env cfg ?d t 1 ?n) (commas (map (json_text (number_text env cfg)) (elements t)))"
        using array_loop_writes [OF mem, of 1 ?n, OF el] commas_elements [of ?f ?n] by (simp add: elements_def comp_def)
      then have "writes (\<lambda>j. lbind (strbuf_append_char (je_mem env) 91 j) (\<lambda>j.
          lbind (json_append_array env cfg ?d t 1 ?n j) (strbuf_append_char (je_mem env) 93)))
          ([91] @ commas (map (json_text (number_text env cfg)) (elements t)) @ [93])"
        by (intro writes_bind writes_char mem)
      then show ?thesis
        using len down True by (simp add: LTable json_append_data.simps [abs_def] json_text.simps [of _ "LTable t"])
    next
      case False
      have p: "list_all (\<lambda>(k, x). (case k of LString s \<Rightarrow> True | _ \<Rightarrow> False) \<and> json_plain (array_limit cfg) (finite_number env cfg) x) t"
        using 1(3) False by (simp add: LTable json_plain.simps [of _ _ "LTable t"])
      obtain n where len: "lua_array_length env cfg t = LReturn n" "n \<le> 0" using array_length_object [OF False p] by blast
      have el: "(\<exists>s. k = LString s) \<and> writes (json_append_data env cfg ?d x) (json_text (number_text env cfg) x)"
        if "(k, x) \<in> set t" for k x
      proof
        have q: "(case k of LString s \<Rightarrow> True | _ \<Rightarrow> False) \<and> json_plain (array_limit cfg) (finite_number env cfg) x"
          using p that by (auto simp: list_all_iff)
        then show "\<exists>s. k = LString s" by (cases k) auto
        show "writes (json_append_data env cfg ?d x) (json_text (number_text env cfg) x)"
        proof (rule 1(2) [OF LTable False that refl])
          show "json_plain (array_limit cfg) (finite_number env cfg) x" using q by blast
          show "0 \<le> ?d" using 1(4) by simp
          show "?d + int (json_height x) \<le> encode_max_depth cfg"
            using 1(5) height_entry [OF that] False by (simp add: LTable json_height.simps [of "LTable t"])
        qed
      qed
      have "writes (json_append_object env cfg ?d False t)
          (commas (map (\<lambda>(k, x). json_quote (key_bytes k) @ [58] @ json_text (number_text env cfg) x) t))"
        using object_loop_writes [OF mem el, where comma = False] by simp
      then have "writes (\<lambda>j. lbind (strbuf_append_char (je_mem env) 123 j) (\<lambda>j.
          lbind (json_append_object env cfg ?d False t j) (strbuf_append_char (je_mem env) 125)))
          ([123] @ commas (map (\<lambda>(k, x). json_quote (key_bytes k) @ [58] @ json_text (number_text env cfg) x) t) @ [125])"
        by (intro writes_bind writes_char mem)
      then show ?thesis
        using len down False by (simp add: LTable json_append_data.simps [abs_def] json_text.simps [of _ "LTable t"])
    qed
  qed
qed

text \<open>A kept buffer is there, and its growth is the default; its contents do not matter.\<close>

definition buffer_ready :: "json_config \<Rightarrow> bool" where
  "buffer_ready cfg \<longleftrightarrow> (encode_keep_buffer cfg \<noteq> 0 \<longrightarrow> (\<exists>b. holds_string (encode_buf cfg) b))"

definition fits_buffer :: "byte list \<Rightarrow> bool" where
  "fits_buffer w \<longleftrightarrow> 6 * int (length w) + 40 < SAFE_SIZE"

lemma encode_text:
  assumes "enc_ok env cfg" "buffer_ready cfg" "json_plain (array_limit cfg) (finite_number env cfg) v"
    "int (json_height v) \<le> encode_max_depth cfg" "fits_buffer (json_text (number_text env cfg) v)"
  shows "\<exists>cfg'. json_encode env [v] cfg = LReturn (Inr [LString (json_text (number_text env cfg) v)], cfg') \<and> buffer_ready cfg' \<and>
    (\<exists>s. cfg' = cfg\<lparr>encode_buf := s\<rparr>)"
proof -
  let ?w = "json_text (number_text env cfg) v"
  have mem: "\<forall>n. je_mem env n" using assms(1) by (simp add: enc_ok_def)
  obtain s where s: "(if encode_keep_buffer cfg = 0 then strbuf_init (je_mem env) 0
      else LReturn (strbuf_reset (encode_buf cfg))) = LReturn s" "holds_string s []"
  proof (cases "encode_keep_buffer cfg = 0")
    case True
    then show ?thesis using that init_holds [OF mem, of 0] by (auto simp: INT_MAX_def)
  next
    case False
    then show ?thesis using that assms(2) holds_reset by (auto simp: buffer_ready_def)
  qed
  have "writes (json_append_data env cfg 0 v) ?w" by (rule append_data_writes [OF assms(1,3)]) (use assms(4) in simp_all)
  then obtain s' where s': "json_append_data env cfg 0 v s = LReturn s'" "holds_string s' ?w"
    using s(2) assms(5) unfolding writes_def fits_buffer_def by fastforce
  let ?c = "if encode_keep_buffer cfg = 0 then cfg else cfg\<lparr>encode_buf := s'\<rparr>"
  have "json_encode env [v] cfg = LReturn (Inr [LString ?w], ?c)"
    using s' by (simp add: json_encode_def lua_gettop_def lua_at_def s(1) Let_def)
  moreover have "buffer_ready ?c" "\<exists>s. ?c = cfg\<lparr>encode_buf := s\<rparr>"
    using s'(2) by (auto simp: buffer_ready_def intro: exI [of _ "encode_buf cfg"])
  ultimately show ?thesis by blast
qed

text \<open>
  C29. The encoder computes the JSON text of a value as the function \<open>json_text\<close> has it, for values
  within the depth limit whose tables are arrays or have string keys: the string buffer with its
  growth, the room asked for in advance, the unchecked writes and the array detection with the
  sparseness check amount to that function. The kept buffer stays usable for the next call.
\<close>

theorem json_encode_writes_text:
  assumes "enc_ok env cfg" "buffer_ready cfg" "json_plain (array_limit cfg) (finite_number env cfg) v"
    "int (json_height v) \<le> encode_max_depth cfg" "fits_buffer (json_text (number_text env cfg) v)"
  shows "\<exists>cfg'. json_encode env [v] cfg = LReturn (Inr [LString (json_text (number_text env cfg) v)], cfg') \<and> buffer_ready cfg'"
  using encode_text [OF assms] by blast

end
