(* ===== verification/JsonDec.thy ===== *)
theory JsonDec
  imports JsonConfig
begin

text \<open>
  The decoder of \<open>lua-cjson.c\<close>: tokens, strings with their escapes, and the recursive parser of
  values. The text is the rest from the pointer on, up to the NUL byte with which every Lua
  string ends; a read behind it is undefined. The recursion of the parser carries fuel, and three
  more than twice the length of the text is proved to be enough.
\<close>

section \<open>The parser\<close>

record json_parse =
  jp_rest :: "byte list"
  jp_tmp :: strbuf
  jp_depth :: int

record json_token =
  tk_type :: json_token_type
  tk_index :: nat
  tk_string :: "byte list"
  tk_number :: u64
  tk_boolean :: bool
  tk_error :: string

definition token_of :: "json_token_type \<Rightarrow> nat \<Rightarrow> json_token" where
  "token_of ty i = \<lparr>tk_type = ty, tk_index = i, tk_string = [], tk_number = 0, tk_boolean = False, tk_error = []\<rparr>"

text \<open>The byte \<open>i\<close> positions behind the pointer.\<close>

definition peek :: "nat \<Rightarrow> byte list \<Rightarrow> byte lua_proc" where
  "peek i rest = (if i < length rest then LReturn (rest ! i) else LCrash ''read past the text'')"

section \<open>Unicode escapes\<close>

definition hexdigit2int :: "byte \<Rightarrow> int" where
  "hexdigit2int hex =
     (if 48 \<le> hex \<and> hex \<le> 57 then uint hex - 48
      else let hex = hex OR 0x20 in if 97 \<le> hex \<and> hex \<le> 102 then 10 + uint hex - 97 else -1)"

text \<open>Digit by digit, the first that is none ends it; -1 is the error.\<close>

fun hex4_loop :: "nat \<Rightarrow> byte list \<Rightarrow> int \<Rightarrow> int lua_proc" where
  "hex4_loop 0 hex v = LReturn v"
| "hex4_loop (Suc n) hex v =
     lbind (peek 0 hex) (\<lambda>c.
     if hexdigit2int c < 0 then LReturn (-1) else hex4_loop n (tl hex) (v * 16 + hexdigit2int c))"

definition decode_hex4 :: "byte list \<Rightarrow> int lua_proc" where
  "decode_hex4 hex = hex4_loop 4 hex 0"

definition utf8_byte :: "int \<Rightarrow> byte" where
  "utf8_byte x = word_of_int x"

definition codepoint_to_utf8 :: "int \<Rightarrow> byte list" where
  "codepoint_to_utf8 cp =
     (if cp \<le> 0x7F then [utf8_byte cp]
      else if cp \<le> 0x7FF then [utf8_byte (drop_bit 6 cp OR 0xC0), utf8_byte ((cp AND 0x3F) OR 0x80)]
      else if cp \<le> 0xFFFF then
        [utf8_byte (drop_bit 12 cp OR 0xE0), utf8_byte ((drop_bit 6 cp AND 0x3F) OR 0x80), utf8_byte ((cp AND 0x3F) OR 0x80)]
      else if cp \<le> 0x1FFFFF then
        [utf8_byte (drop_bit 18 cp OR 0xF0), utf8_byte ((drop_bit 12 cp AND 0x3F) OR 0x80),
         utf8_byte ((drop_bit 6 cp AND 0x3F) OR 0x80), utf8_byte ((cp AND 0x3F) OR 0x80)]
      else [])"

text \<open>The UTF-8 bytes of the escape at the pointer, and its length; \<open>None\<close> is the error.\<close>

definition unicode_escape :: "byte list \<Rightarrow> (byte list \<times> nat) option lua_proc" where
  "unicode_escape rest =
     lbind (decode_hex4 (drop 2 rest)) (\<lambda>cp.
     if cp < 0 then LReturn None
     else if cp AND 0xF800 = 0xD800 then
       if cp AND 0x400 \<noteq> 0 then LReturn None
       else
         lbind (peek 6 rest) (\<lambda>a.
         lbind (if a \<noteq> 92 then LReturn False else lbind (peek 7 rest) (\<lambda>b. LReturn (b = 117))) (\<lambda>escaped.
         if \<not> escaped then LReturn None
         else
           lbind (decode_hex4 (drop 8 rest)) (\<lambda>low.
           if low < 0 then LReturn None
           else if low AND 0xFC00 \<noteq> 0xDC00 then LReturn None
           else
             let cp = (push_bit 10 (cp AND 0x3FF) OR (low AND 0x3FF)) + 0x10000; utf8 = codepoint_to_utf8 cp in
             LReturn (if utf8 = [] then None else Some (utf8, 12)))))
     else
       let utf8 = codepoint_to_utf8 cp in LReturn (if utf8 = [] then None else Some (utf8, 6)))"

definition json_append_unicode_escape :: "byte list \<Rightarrow> strbuf \<Rightarrow> (nat \<times> strbuf) option lua_proc" where
  "json_append_unicode_escape rest tmp =
     lbind (unicode_escape rest) (\<lambda>r.
     case r of
       None \<Rightarrow> LReturn None
     | Some (utf8, n) \<Rightarrow> lbind (strbuf_append_mem_unsafe utf8 tmp) (\<lambda>tmp. LReturn (Some (n, tmp))))"

lemma escape_len: "unicode_escape rest = LReturn (Some (u, n)) \<Longrightarrow> n = 6 \<or> n = 12"
  by (auto simp: unicode_escape_def lbind_LReturn Let_def split: if_splits)

lemma append_escape_len: "json_append_unicode_escape rest tmp = LReturn (Some (n, tmp')) \<Longrightarrow> n = 6 \<or> n = 12"
  by (auto simp: json_append_unicode_escape_def lbind_LReturn split: option.splits dest: escape_len)

section \<open>Strings\<close>

text \<open>
  The loop behind the opening quote: what it reads goes to the temporary buffer without a check
  of its size. Either the rest behind the closing quote or an error with the rest it is at.
\<close>

function string_loop :: "byte list \<Rightarrow> strbuf \<Rightarrow> ((byte list \<times> strbuf) + (string \<times> byte list \<times> strbuf)) lua_proc" where
  "string_loop [] tmp = LCrash ''read past the text''"
| "string_loop (c # cs) tmp =
     (if c = 34 then LReturn (Inl (cs, tmp))
      else if c = 0 then LReturn (Inr (''unexpected end of string'', c # cs, tmp))
      else if c = 92 then
        lbind (peek 1 (c # cs)) (\<lambda>e.
        let e = escape2char e in
        if e = 117 then
          lbind (json_append_unicode_escape (c # cs) tmp) (\<lambda>r.
          case r of
            None \<Rightarrow> LReturn (Inr (''invalid unicode escape code'', c # cs, tmp))
          | Some (n, tmp) \<Rightarrow> string_loop (drop n (c # cs)) tmp)
        else if e = 0 then LReturn (Inr (''invalid escape code'', c # cs, tmp))
        else lbind (strbuf_append_char_unsafe e tmp) (string_loop (tl cs)))
      else lbind (strbuf_append_char_unsafe c tmp) (string_loop cs))"
  by pat_completeness auto
termination
proof (relation "measure (\<lambda>(r, t). length r)", goal_cases)
  case 1
  then show ?case by simp
qed (auto dest!: append_escape_len)

declare string_loop.simps [simp del]

lemmas string_loop_simps [simp] = string_loop.simps

section \<open>Numbers\<close>

definition lower_ascii :: "byte \<Rightarrow> byte" where
  "lower_ascii b = (if 65 \<le> b \<and> b \<le> 90 then b + 32 else b)"

text \<open>\<open>strncmp\<close> and \<open>strncasecmp\<close> with a word that has no NUL: the rest starts with it.\<close>

definition starts_with :: "string \<Rightarrow> byte list \<Rightarrow> bool" where
  "starts_with w rest \<longleftrightarrow> take (length w) rest = bytes_of w"

definition starts_with_nocase :: "string \<Rightarrow> byte list \<Rightarrow> bool" where
  "starts_with_nocase w rest \<longleftrightarrow> map lower_ascii (take (length w) rest) = bytes_of w"

definition json_is_invalid_number :: "byte list \<Rightarrow> bool lua_proc" where
  "json_is_invalid_number p =
     lbind (peek 0 p) (\<lambda>c.
     if c = 43 then LReturn True
     else
       let p = (if c = 45 then tl p else p) in
       lbind (peek 0 p) (\<lambda>c.
       if c = 48 then
         lbind (peek 1 p) (\<lambda>ch2. LReturn (ch2 OR 0x20 = 120 \<or> (48 \<le> ch2 \<and> ch2 \<le> 57)))
       else if c \<le> 57 \<or> 128 \<le> c then LReturn False
       else LReturn (starts_with_nocase ''inf'' p \<or> starts_with_nocase ''nan'' p)))"

definition valid_number_character :: "byte \<Rightarrow> bool" where
  "valid_number_character c \<longleftrightarrow> 48 \<le> c \<and> c \<le> 57 \<or> c = 45 \<or> c = 43 \<or> c = 46 \<or>
     c < 128 \<and> 97 \<le> c OR 0x20 \<and> c OR 0x20 \<le> 121"

definition strtod_buffer_size :: "byte list \<Rightarrow> nat" where
  "strtod_buffer_size s = length (takeWhile valid_number_character s)"

fun replace_first :: "byte \<Rightarrow> byte \<Rightarrow> byte list \<Rightarrow> byte list" where
  "replace_first a b [] = []"
| "replace_first a b (x # xs) = (if x = a then b # xs else x # replace_first a b xs)"

text \<open>\<open>strtod\<close> sees the text up to its NUL, or a copy with the decimal point of the locale.\<close>

definition fpconv_strtod :: "json_env \<Rightarrow> byte list \<Rightarrow> u64 \<times> nat" where
  "fpconv_strtod env nptr =
     (if je_point env = ch CHR ''.'' then je_strtod env (bcstr nptr)
      else
        let buf = take (strtod_buffer_size nptr) nptr in
        if buf = [] then (0, 0) else je_strtod env (replace_first (ch CHR ''.'') (je_point env) buf))"

section \<open>Tokens\<close>

definition token_error :: "nat \<Rightarrow> string \<Rightarrow> json_token \<Rightarrow> json_token" where
  "token_error i errtype t = t\<lparr>tk_type := T_ERROR, tk_index := i, tk_error := errtype\<rparr>"

text \<open>\<open>tot\<close> is the length of the text with its NUL, from which the position follows.\<close>

definition json_next_number_token :: "json_env \<Rightarrow> nat \<Rightarrow> json_token \<Rightarrow> json_parse \<Rightarrow> json_token \<times> json_parse" where
  "json_next_number_token env tot token json =
     (case fpconv_strtod env (jp_rest json) of (value, n) \<Rightarrow>
      let token = token\<lparr>tk_type := T_NUMBER, tk_number := value\<rparr> in
      if n = 0 then (token_error (tot - length (jp_rest json)) ''invalid number'' token, json)
      else (token, json\<lparr>jp_rest := drop n (jp_rest json)\<rparr>))"

definition json_next_string_token :: "nat \<Rightarrow> json_token \<Rightarrow> json_parse \<Rightarrow> (json_token \<times> json_parse) lua_proc" where
  "json_next_string_token tot token json =
     lbind (string_loop (tl (jp_rest json)) (strbuf_reset (jp_tmp json))) (\<lambda>r.
     case r of
       Inr (e, rest, tmp) \<Rightarrow>
         LReturn (token_error (tot - length rest) e token, json\<lparr>jp_rest := rest, jp_tmp := tmp\<rparr>)
     | Inl (rest, tmp) \<Rightarrow>
         lbind (strbuf_ensure_null tmp) (\<lambda>tmp.
         lbind (strbuf_string tmp) (\<lambda>s.
         LReturn (token\<lparr>tk_type := T_STRING, tk_string := s\<rparr>, json\<lparr>jp_rest := rest, jp_tmp := tmp\<rparr>))))"

definition json_next_token :: "json_env \<Rightarrow> json_config \<Rightarrow> nat \<Rightarrow> json_parse \<Rightarrow> (json_token \<times> json_parse) lua_proc" where
  "json_next_token env cfg tot json0 =
     (let rest = dropWhile (\<lambda>b. ch2token b = T_WHITESPACE) (jp_rest json0); json = json0\<lparr>jp_rest := rest\<rparr> in
      lbind (peek 0 rest) (\<lambda>c.
      let token = token_of (ch2token c) (tot - length rest);
          word = (\<lambda>w ty b. LReturn (token\<lparr>tk_type := ty, tk_boolean := b\<rparr>, json\<lparr>jp_rest := drop (length w) rest\<rparr>)) in
      if tk_type token = T_ERROR then LReturn (token_error (tk_index token) ''invalid token'' token, json)
      else if tk_type token = T_END then LReturn (token, json)
      else if tk_type token \<noteq> T_UNKNOWN then LReturn (token, json\<lparr>jp_rest := tl rest\<rparr>)
      else if c = 34 then json_next_string_token tot token json
      else if c = 45 \<or> 48 \<le> c \<and> c \<le> 57 then
        lbind (if decode_invalid_numbers cfg = 0 then json_is_invalid_number rest else LReturn False) (\<lambda>invalid.
        if invalid then LReturn (token_error (tk_index token) ''invalid number'' token, json)
        else LReturn (json_next_number_token env tot token json))
      else if starts_with ''true'' rest then word ''true'' T_BOOLEAN True
      else if starts_with ''false'' rest then word ''false'' T_BOOLEAN False
      else if starts_with ''null'' rest then word ''null'' T_NULL False
      else
        lbind (if decode_invalid_numbers cfg \<noteq> 0 then json_is_invalid_number rest else LReturn False) (\<lambda>invalid.
        if invalid then LReturn (json_next_number_token env tot token json)
        else LReturn (token_error (tk_index token) ''invalid token'' token, json))))"

text \<open>The temporary buffer is freed and an error raised; positions are counted from 1.\<close>

definition json_throw_parse_error :: "string \<Rightarrow> json_token \<Rightarrow> 'a lua_proc" where
  "json_throw_parse_error exp token =
     LError (''Expected '' @ exp @ '' but found '' @
       (if tk_type token = T_ERROR then tk_error token else json_token_type_name (tk_type token)) @
       '' at character '' @ show_nat (tk_index token + 1))"


section \<open>Values\<close>

definition json_decode_ascend :: "json_parse \<Rightarrow> json_parse" where
  "json_decode_ascend json = json\<lparr>jp_depth := jp_depth json - 1\<rparr>"

definition json_decode_descend :: "json_env \<Rightarrow> json_config \<Rightarrow> nat \<Rightarrow> json_parse \<Rightarrow> json_parse lua_proc" where
  "json_decode_descend env cfg tot json =
     (let json = json\<lparr>jp_depth := jp_depth json + 1\<rparr> in
      if jp_depth json \<le> decode_max_depth cfg \<and> je_stack env (jp_depth json) then LReturn json
      else LError (''Found too many nested data structures ('' @ show_int (jp_depth json) @ '') at character '' @
             show_nat (tot - length (jp_rest json))))"

text \<open>
  A value, given its first token; the rest of an object and of an array, given what is in the
  table so far and the token that comes next.
\<close>

fun json_process_value :: "json_env \<Rightarrow> json_config \<Rightarrow> nat \<Rightarrow> nat \<Rightarrow> json_token \<Rightarrow> json_parse \<Rightarrow> (lua_val \<times> json_parse) lua_proc"
  and json_parse_object_context :: "json_env \<Rightarrow> json_config \<Rightarrow> nat \<Rightarrow> nat \<Rightarrow> lua_table \<Rightarrow> json_token \<Rightarrow> json_parse
    \<Rightarrow> (lua_val \<times> json_parse) lua_proc"
  and json_parse_array_context :: "json_env \<Rightarrow> json_config \<Rightarrow> nat \<Rightarrow> nat \<Rightarrow> nat \<Rightarrow> lua_table \<Rightarrow> json_token \<Rightarrow> json_parse
    \<Rightarrow> (lua_val \<times> json_parse) lua_proc"
where
  "json_process_value env cfg tot 0 token json = LFuel"
| "json_process_value env cfg tot (Suc fuel) token json =
     (case tk_type token of
        T_STRING \<Rightarrow> LReturn (LString (tk_string token), json)
      | T_NUMBER \<Rightarrow> LReturn (LNumber (tk_number token), json)
      | T_BOOLEAN \<Rightarrow> LReturn (LBoolean (tk_boolean token), json)
      | T_OBJ_BEGIN \<Rightarrow>
          lbind (json_decode_descend env cfg tot json) (\<lambda>json.
          lbind (json_next_token env cfg tot json) (\<lambda>(token, json).
          if tk_type token = T_OBJ_END then LReturn (LTable [], json_decode_ascend json)
          else json_parse_object_context env cfg tot fuel [] token json))
      | T_ARR_BEGIN \<Rightarrow>
          lbind (json_decode_descend env cfg tot json) (\<lambda>json.
          lbind (json_next_token env cfg tot json) (\<lambda>(token, json).
          if tk_type token = T_ARR_END then LReturn (LTable [], json_decode_ascend json)
          else json_parse_array_context env cfg tot fuel 1 [] token json))
      | T_NULL \<Rightarrow> LReturn (LOpaque 1, json)
      | _ \<Rightarrow> json_throw_parse_error ''value'' token)"
| "json_parse_object_context env cfg tot 0 t token json = LFuel"
| "json_parse_object_context env cfg tot (Suc fuel) t token json =
     (if tk_type token \<noteq> T_STRING then json_throw_parse_error ''object key string'' token
      else
        let key = LString (tk_string token) in
        lbind (json_next_token env cfg tot json) (\<lambda>(token, json).
        if tk_type token \<noteq> T_COLON then json_throw_parse_error ''colon'' token
        else
          lbind (json_next_token env cfg tot json) (\<lambda>(token, json).
          lbind (json_process_value env cfg tot fuel token json) (\<lambda>(v, json).
          let t = table_put t key v in
          lbind (json_next_token env cfg tot json) (\<lambda>(token, json).
          if tk_type token = T_OBJ_END then LReturn (LTable t, json_decode_ascend json)
          else if tk_type token \<noteq> T_COMMA then json_throw_parse_error ''comma or object end'' token
          else
            lbind (json_next_token env cfg tot json) (\<lambda>(token, json).
            json_parse_object_context env cfg tot fuel t token json))))))"
| "json_parse_array_context env cfg tot 0 i t token json = LFuel"
| "json_parse_array_context env cfg tot (Suc fuel) i t token json =
     lbind (json_process_value env cfg tot fuel token json) (\<lambda>(v, json).
     let t = table_put t (array_index i) v in
     lbind (json_next_token env cfg tot json) (\<lambda>(token, json).
     if tk_type token = T_ARR_END then LReturn (LTable t, json_decode_ascend json)
     else if tk_type token \<noteq> T_COMMA then json_throw_parse_error ''comma or array end'' token
     else
       lbind (json_next_token env cfg tot json) (\<lambda>(token, json).
       json_parse_array_context env cfg tot fuel (i + 1) t token json)))"

text \<open>
  The text of a string or number; it is followed by a NUL byte. The temporary buffer is made as
  large as the text.
\<close>

definition json_decode :: "json_env \<Rightarrow> json_config \<Rightarrow> lua_stack \<Rightarrow> lua_val lua_proc" where
  "json_decode env cfg L =
     (if lua_gettop L \<noteq> 1 then LError ''expected 1 argument''
      else
        case lua_tolstring (je_num2str env) (lua_at L 1) of
          None \<Rightarrow> LError ''string expected''
        | Some data \<Rightarrow>
            if 2 \<le> length data \<and> (data ! 0 = 0 \<or> data ! 1 = 0) then
              LError ''JSON parser does not support UTF-16 or UTF-32''
            else
              let tot = length data + 1 in
              lbind (strbuf_new (je_mem env) (int_of_size (length data))) (\<lambda>tmp.
              lbind (json_next_token env cfg tot \<lparr>jp_rest = data @ [0], jp_tmp = tmp, jp_depth = 0\<rparr>) (\<lambda>(token, json).
              lbind (json_process_value env cfg tot (2 * tot + 3) token json) (\<lambda>(v, json).
              lbind (json_next_token env cfg tot json) (\<lambda>(token, json).
              if tk_type token \<noteq> T_END then json_throw_parse_error ''the end'' token
              else LReturn v)))))"

text \<open>\<open>cjson.safe\<close>: an error of the function is returned as nil and its message.\<close>

definition json_protect_conversion :: "(lua_stack \<Rightarrow> lua_val list lua_proc) \<Rightarrow> lua_stack \<Rightarrow> lua_val list lua_proc" where
  "json_protect_conversion f L =
     (if lua_gettop L \<noteq> 1 then LError ''expected 1 argument''
      else
        case f L of
          LReturn rs \<Rightarrow> LReturn (take 1 (rs @ [LNil]))
        | LError e \<Rightarrow> LReturn [LNil, str_val e]
        | r \<Rightarrow> r)"

end
