(* ===== verification/JsonSafe.thy ===== *)
theory JsonSafe
  imports JsonDec
begin

text \<open>
  The decoder on any text: it never reads behind the text or writes behind its temporary buffer,
  and it always ends, with a value or an error.
\<close>

section \<open>Outcomes\<close>

text \<open>An error raised in Lua is fine; undefined behaviour, leaving the process or looping is not.\<close>

fun lsafe :: "'a lua_proc \<Rightarrow> ('a \<Rightarrow> bool) \<Rightarrow> bool" where
  "lsafe (LReturn a) Q = Q a"
| "lsafe (LError e) Q = True"
| "lsafe p Q = False"

lemma lsafe_bind: "lsafe p R \<Longrightarrow> (\<And>a. R a \<Longrightarrow> lsafe (f a) Q) \<Longrightarrow> lsafe (lbind p f) Q"
  by (cases p) auto

lemma lsafe_mono: "lsafe p R \<Longrightarrow> (\<And>a. R a \<Longrightarrow> Q a) \<Longrightarrow> lsafe p Q"
  by (cases p) auto

section \<open>Text that ends with NUL\<close>

definition ends_nul :: "byte list \<Rightarrow> bool" where
  "ends_nul r \<longleftrightarrow> r \<noteq> [] \<and> last r = 0"

lemma drop_ends_nul:
  assumes "ends_nul r" "0 \<notin> set (take n r)"
  shows "n < length r" "ends_nul (drop n r)"
proof -
  show n: "n < length r"
  proof (rule ccontr)
    assume "\<not> n < length r"
    then have "0 \<in> set (take n r)" using assms(1) last_in_set [of r] by (auto simp: ends_nul_def)
    then show False using assms(2) by simp
  qed
  then show "ends_nul (drop n r)" using assms(1) by (simp add: ends_nul_def)
qed

lemma ends_nul_Cons: "ends_nul (c # cs) \<Longrightarrow> c \<noteq> 0 \<Longrightarrow> ends_nul cs"
  by (auto simp: ends_nul_def split: if_splits)

lemma ends_nul_tl: "ends_nul r \<Longrightarrow> hd r \<noteq> 0 \<Longrightarrow> ends_nul (tl r) \<and> length (tl r) < length r"
  by (cases r) (auto simp: ends_nul_def split: if_splits)

lemma ends_nul_while:
  assumes "ends_nul r" "\<not> P 0" "n \<le> length (takeWhile P r)"
  shows "n < length r" "ends_nul (drop n r)"
proof -
  have "take n r = take n (takeWhile P r)"
    using assms(3) by (metis takeWhile_eq_take min.absorb1 take_take length_takeWhile_le)
  then have "set (take n r) \<subseteq> set (takeWhile P r)" by (metis set_take_subset)
  then have "0 \<notin> set (take n r)" using assms(2) by (auto dest: set_takeWhileD)
  then show "n < length r" "ends_nul (drop n r)" using drop_ends_nul [OF assms(1)] by simp_all
qed

lemma ends_nul_dropWhile:
  assumes "ends_nul r" "\<not> P 0"
  shows "ends_nul (dropWhile P r)" "length (dropWhile P r) \<le> length r" "\<not> P (hd (dropWhile P r))"
proof -
  show e: "ends_nul (dropWhile P r)"
    using ends_nul_while [of r P "length (takeWhile P r)"] assms by (simp add: dropWhile_eq_drop)
  show "length (dropWhile P r) \<le> length r" by (rule length_dropWhile_le)
  show "\<not> P (hd (dropWhile P r))" 
  proof (rule hd_dropWhile)
    show "dropWhile P r \<noteq> []" using e by (simp only: ends_nul_def simp_thms)
  qed
qed

lemma peek_0: "ends_nul r \<Longrightarrow> peek 0 r = LReturn (hd r)"
  by (cases r) (auto simp: peek_def ends_nul_def)

lemma peek_1: "ends_nul r \<Longrightarrow> hd r \<noteq> 0 \<Longrightarrow> peek 1 r = LReturn (hd (tl r))"
  using ends_nul_tl [of r] by (cases r; cases "tl r") (auto simp: peek_def ends_nul_def)

section \<open>Escapes\<close>

lemma hexdigit_zero: "hexdigit2int 0 < 0"
  by (simp add: hexdigit2int_def)

lemma hex4_loop_total: "ends_nul hex \<Longrightarrow> \<exists>x. hex4_loop n hex v = LReturn x"
proof (induction n arbitrary: hex v)
  case (Suc n)
  show ?case
  proof (cases "hexdigit2int (hd hex) < 0")
    case False
    then have "ends_nul (tl hex)" using ends_nul_tl [OF Suc.prems] hexdigit_zero by metis
    then show ?thesis using Suc peek_0 by auto
  qed (use Suc.prems peek_0 in auto)
qed simp

lemma hex4_loop_digits:
  "hex4_loop n hex v = LReturn x \<Longrightarrow> 0 \<le> x \<Longrightarrow> n \<le> length hex \<and> 0 \<notin> set (take n hex)"
proof (induction n arbitrary: hex v)
  case (Suc n)
  then obtain c cs where hex: "hex = c # cs" by (cases hex) (auto simp: peek_def)
  have c: "\<not> hexdigit2int c < 0" using Suc.prems by (auto simp: hex peek_def)
  then have "hex4_loop n cs (v * 16 + hexdigit2int c) = LReturn x" using Suc.prems(1) by (simp add: hex peek_def)
  moreover have "c \<noteq> 0" using c hexdigit_zero by auto
  ultimately show ?case using Suc.IH Suc.prems(2) by (auto simp: hex)
qed simp

lemma decode_hex4_safe:
  assumes "ends_nul hex"
  shows "\<exists>x. decode_hex4 hex = LReturn x \<and> (0 \<le> x \<longrightarrow> 4 < length hex \<and> 0 \<notin> set (take 4 hex))"
proof -
  obtain x where x: "decode_hex4 hex = LReturn x" using hex4_loop_total [OF assms] by (auto simp: decode_hex4_def)
  then show ?thesis
    using hex4_loop_digits [of 4 hex 0 x] drop_ends_nul [OF assms, of 4] by (auto simp: decode_hex4_def)
qed

lemma utf8_length: "length (codepoint_to_utf8 cp) \<le> 4"
  by (simp add: codepoint_to_utf8_def)

text \<open>An escape that is accepted is there in full, and its UTF-8 text is shorter.\<close>

lemma unicode_escape_safe:
  assumes "ends_nul r" "hd r \<noteq> 0" "hd (tl r) \<noteq> 0"
  shows "lsafe (unicode_escape r) (\<lambda>x. case x of None \<Rightarrow> True | Some (u, n) \<Rightarrow>
    length u \<le> 4 \<and> 6 \<le> n \<and> n < length r \<and> ends_nul (drop n r))"
proof -
  have r1: "ends_nul (tl r)" using ends_nul_tl assms(1,2) by blast
  then have r2: "ends_nul (drop 2 r)" using ends_nul_tl [of "tl r"] assms(3) by (simp add: drop_Suc numeral_2_eq_2)
  then obtain cp where cp: "decode_hex4 (drop 2 r) = LReturn cp" "0 \<le> cp \<longrightarrow> 4 < length (drop 2 r) \<and> 0 \<notin> set (take 4 (drop 2 r))"
    using decode_hex4_safe by blast
  have two: "0 \<notin> set (take 2 r)" using assms r1 by (cases r; cases "tl r") (auto simp: ends_nul_def)
  have six: "6 < length r \<and> ends_nul (drop 6 r) \<and> 0 \<notin> set (take 6 r)" if "0 \<le> cp"
  proof -
    have "take 6 r = take 2 r @ take 4 (drop 2 r)" using take_add [of 2 4 r] by simp
    then have "0 \<notin> set (take 6 r)" using cp(2) that two by simp
    then show ?thesis using drop_ends_nul [OF assms(1)] by blast
  qed
  show ?thesis
  proof (cases "cp < 0")
    case False
    then have 6: "6 < length r" "ends_nul (drop 6 r)" "0 \<notin> set (take 6 r)" using six by auto
    show ?thesis
    proof (cases "cp AND 0xF800 = 0xD800 \<and> cp AND 0x400 = 0 \<and> r ! 6 = 92")
      case True
      have p6: "peek 6 r = LReturn 92" using 6(1) True by (simp add: peek_def)
      have "hd (drop 6 r) = 92" using 6(1) True by (simp add: hd_drop_conv_nth)
      then have t7: "ends_nul (drop 7 r)" using ends_nul_tl [OF 6(2)] by (simp add: tl_drop drop_Suc [symmetric])
      then have l7: "7 < length r" by (simp add: ends_nul_def)
      then have p7: "peek 7 r = LReturn (r ! 7)" by (simp add: peek_def)
      show ?thesis
      proof (cases "r ! 7 = 117")
        case True
        have "hd (drop 7 r) = 117" using l7 True by (simp add: hd_drop_conv_nth)
        then have t8: "ends_nul (drop 8 r)" using ends_nul_tl [OF t7] by (simp add: tl_drop drop_Suc [symmetric])
        then obtain low where low: "decode_hex4 (drop 8 r) = LReturn low" "0 \<le> low \<longrightarrow> 4 < length (drop 8 r) \<and> 0 \<notin> set (take 4 (drop 8 r))"
          using decode_hex4_safe by blast
        have "12 < length r \<and> ends_nul (drop 12 r)" if "0 \<le> low"
          using low(2) that drop_ends_nul [OF t8, of 4] by auto
        then show ?thesis
          using cp(1) False \<open>cp AND 0xF800 = 0xD800 \<and> cp AND 0x400 = 0 \<and> r ! 6 = 92\<close> p6 p7 True low(1) utf8_length
          by (simp add: unicode_escape_def Let_def)
      next
        case False
        then show ?thesis
          using cp(1) \<open>\<not> cp < 0\<close> \<open>cp AND 0xF800 = 0xD800 \<and> cp AND 0x400 = 0 \<and> r ! 6 = 92\<close> p6 p7
          by (simp add: unicode_escape_def)
      qed
    next
      case no: False
      have "peek 6 r = LReturn (r ! 6)" using 6(1) by (simp add: peek_def)
      then show ?thesis
        using cp(1) False no 6 utf8_length by (auto simp: unicode_escape_def Let_def)
    qed
  qed (simp add: unicode_escape_def cp(1))
qed


section \<open>Strings\<close>

text \<open>The string so far and the rest together never exceed the buffer.\<close>

definition string_result :: "nat \<Rightarrow> int \<Rightarrow> (byte list \<times> strbuf) + (string \<times> byte list \<times> strbuf) \<Rightarrow> bool" where
  "string_result n sz x \<longleftrightarrow>
     (case x of
        Inl (r, tmp) \<Rightarrow> ends_nul r \<and> length r < n \<and> (\<exists>b. holds_string tmp b) \<and> sb_size tmp = sz
      | Inr (e, r, tmp) \<Rightarrow> ends_nul r \<and> length r \<le> n \<and> (\<exists>b. holds_string tmp b) \<and> sb_size tmp = sz)"

lemma string_result_simps [simp]:
  "string_result n sz (Inl (r, tmp)) \<longleftrightarrow> ends_nul r \<and> length r < n \<and> (\<exists>b. holds_string tmp b) \<and> sb_size tmp = sz"
  "string_result n sz (Inr (e, r, tmp)) \<longleftrightarrow> ends_nul r \<and> length r \<le> n \<and> (\<exists>b. holds_string tmp b) \<and> sb_size tmp = sz"
  by (simp_all add: string_result_def)

lemma string_result_mono: "string_result n sz x \<Longrightarrow> n \<le> n' \<Longrightarrow> string_result n' sz x"
  by (auto simp: string_result_def split: sum.splits)

lemma string_loop_safe:
  assumes "ends_nul r" "holds_string tmp b" "int (length b + length r) \<le> sb_size tmp"
  shows "lsafe (string_loop r tmp) (string_result (length r) (sb_size tmp))"
  using assms
proof (induction r tmp arbitrary: b rule: string_loop.induct)
  case (1 tmp)
  then show ?case by (simp add: ends_nul_def)
next
  case (2 c cs tmp)
  let ?r = "c # cs"
  have fits: "strbuf_append_mem_unsafe u tmp = LReturn (tmp\<lparr>sb_buf := Some (b @ u)\<rparr>)"
      "holds_string (tmp\<lparr>sb_buf := Some (b @ u)\<rparr>) (b @ u)" if "length u < length ?r" for u
    using unsafe_holds [OF "2.prems"(2), of u] "2.prems"(3) that by auto
  consider "c = 34" | "c = 0" | "c = 92" | "c \<noteq> 34 \<and> c \<noteq> 0 \<and> c \<noteq> 92" by blast
  then show ?case
  proof cases
    case 1
    then show ?thesis using "2.prems" ends_nul_Cons [of c cs] by auto
  next
    case 2
    then show ?thesis using "2.prems" by auto
  next
    case 3
    have cs: "ends_nul cs" using "2.prems"(1) ends_nul_Cons 3 by force
    then obtain d ds where ds: "cs = d # ds" by (cases cs) (auto simp: ends_nul_def)
    have p1: "peek 1 ?r = LReturn d" by (simp add: peek_def ds)
    show ?thesis
    proof (cases "escape2char d = 117")
      case True
      have d: "d \<noteq> 0" using True by (auto simp: escape2char_def ch_def)
      have esc: "lsafe (unicode_escape ?r) (\<lambda>x. case x of None \<Rightarrow> True | Some (u, n) \<Rightarrow>
          length u \<le> 4 \<and> 6 \<le> n \<and> n < length ?r \<and> ends_nul (drop n ?r))"
      proof (rule unicode_escape_safe [OF "2.prems"(1)])
        show "hd ?r \<noteq> 0" using 3 by simp
        show "hd (tl ?r) \<noteq> 0" using d by (simp add: ds)
      qed
      show ?thesis
      proof (cases "unicode_escape ?r")
        case (LReturn y)
        show ?thesis
        proof (cases y)
          case None
          then show ?thesis using LReturn p1 True 3 "2.prems" by (auto simp: json_append_unicode_escape_def)
        next
          case (Some z)
          then obtain u n where z: "y = Some (u, n)" by (cases z) auto
          have un: "length u \<le> 4" "6 \<le> n" "n < length ?r" "ends_nul (drop n ?r)" using esc LReturn z by auto
          let ?t = "tmp\<lparr>sb_buf := Some (b @ u)\<rparr>"
          have a: "json_append_unicode_escape ?r tmp = LReturn (Some (n, ?t))"
            using LReturn z fits [of u] un by (simp add: json_append_unicode_escape_def)
          have "lsafe (string_loop (drop n ?r) ?t) (string_result (length (drop n ?r)) (sb_size ?t))"
            using "2.IH"(1) [OF _ _ _ p1 refl True a refl refl un(4) fits(2)] 3 un "2.prems"(3) by fastforce
          then show ?thesis
            using 3 p1 True a un(2) by (auto elim!: lsafe_mono string_result_mono)
        qed
      qed (use esc p1 True 3 in \<open>simp_all add: json_append_unicode_escape_def\<close>)
    next
      case False
      show ?thesis
      proof (cases "escape2char d = 0")
        case True
        then show ?thesis using 3 p1 False "2.prems" by auto
      next
        case esc: False
        have "d \<noteq> 0" using esc by (auto simp: escape2char_def ch_def)
        then have ds': "ends_nul ds" using cs ends_nul_Cons ds by blast
        let ?e = "escape2char d" let ?t = "tmp\<lparr>sb_buf := Some (b @ [?e])\<rparr>"
        have a: "strbuf_append_char_unsafe ?e tmp = LReturn ?t" "holds_string ?t (b @ [?e])"
          using fits [of "[?e]"] by (simp_all add: strbuf_append_char_unsafe_def ds)
        have "lsafe (string_loop (tl cs) ?t) (string_result (length (tl cs)) (sb_size ?t))"
          using "2.IH"(2) [OF _ _ _ p1 refl False esc a(1) _ a(2)] 3 "2.prems"(3) ds' by (simp add: ds)
        then show ?thesis
          using 3 p1 False esc a(1) by (auto simp: ds elim!: lsafe_mono string_result_mono)
      qed
    qed
  next
    case 4
    have cs: "ends_nul cs" using "2.prems"(1) ends_nul_Cons 4 by blast
    let ?t = "tmp\<lparr>sb_buf := Some (b @ [c])\<rparr>"
    have a: "strbuf_append_char_unsafe c tmp = LReturn ?t" "holds_string ?t (b @ [c])"
      using fits [of "[c]"] cs by (auto simp: strbuf_append_char_unsafe_def ends_nul_def)
    have "lsafe (string_loop cs ?t) (string_result (length cs) (sb_size ?t))"
      using "2.IH"(3) [OF _ _ _ a(1) cs a(2)] 4 "2.prems"(3) by simp
    then show ?thesis using 4 a(1) by (auto elim!: lsafe_mono string_result_mono)
  qed
qed


section \<open>Tokens\<close>

definition parse_ok :: "nat \<Rightarrow> json_parse \<Rightarrow> bool" where
  "parse_ok tot j \<longleftrightarrow> ends_nul (jp_rest j) \<and> length (jp_rest j) \<le> tot \<and> (\<exists>b. holds_string (jp_tmp j) b) \<and>
     int tot \<le> sb_size (jp_tmp j)"

text \<open>\<open>strtod\<close> reads no more than the text it is given.\<close>

definition strtod_within :: "json_env \<Rightarrow> bool" where
  "strtod_within env \<longleftrightarrow> (\<forall>s. snd (je_strtod env s) \<le> length s)"

text \<open>A token that was read, and did not mark the end or an error, took part of the text.\<close>

definition taken :: "json_token \<Rightarrow> bool" where
  "taken t \<longleftrightarrow> tk_type t \<noteq> T_END \<and> tk_type t \<noteq> T_ERROR"

definition token_ok :: "nat \<Rightarrow> json_parse \<Rightarrow> json_token \<times> json_parse \<Rightarrow> bool" where
  "token_ok tot j x \<longleftrightarrow> parse_ok tot (snd x) \<and> jp_depth (snd x) = jp_depth j \<and>
     length (jp_rest (snd x)) + (if taken (fst x) then 1 else 0) \<le> length (jp_rest j) \<and>
     tk_type (fst x) \<noteq> T_WHITESPACE \<and> tk_type (fst x) \<noteq> T_UNKNOWN"

lemma parse_ok_rest: "parse_ok tot j \<Longrightarrow> ends_nul r \<Longrightarrow> length r \<le> length (jp_rest j) \<Longrightarrow> parse_ok tot (j\<lparr>jp_rest := r\<rparr>)"
  by (auto simp: parse_ok_def)

lemma replace_first_length [simp]: "length (replace_first a b xs) = length xs"
  by (induction xs) auto

lemma valid_number_zero: "\<not> valid_number_character 0"
  by (simp add: valid_number_character_def)

lemma strtod_rest:
  assumes "strtod_within env" "ends_nul r"
  shows "snd (fpconv_strtod env r) < length r \<and> ends_nul (drop (snd (fpconv_strtod env r)) r)"
proof -
  have "\<exists>P. \<not> P 0 \<and> snd (fpconv_strtod env r) \<le> length (takeWhile P r)"
  proof (cases "je_point env = ch CHR ''.''")
    case True
    then show ?thesis using assms(1)
      by (intro exI [of _ "\<lambda>b. b \<noteq> 0"]) (auto simp: fpconv_strtod_def strtod_within_def bcstr_def)
  next
    case False
    have "take (strtod_buffer_size r) r = takeWhile valid_number_character r"
      by (simp add: strtod_buffer_size_def flip: takeWhile_eq_take)
    then show ?thesis using assms(1) False valid_number_zero
      by (intro exI [of _ valid_number_character])
        (auto simp: fpconv_strtod_def strtod_within_def Let_def, metis replace_first_length)
  qed
  then show ?thesis using ends_nul_while [OF assms(2)] by blast
qed

lemma number_token_ok:
  assumes "strtod_within env" "parse_ok tot j" "tk_type t \<noteq> T_WHITESPACE"
  shows "token_ok tot j (json_next_number_token env tot t j)"
proof -
  obtain v n where v: "fpconv_strtod env (jp_rest j) = (v, n)" by (cases "fpconv_strtod env (jp_rest j)")
  have "n < length (jp_rest j) \<and> ends_nul (drop n (jp_rest j))"
    using strtod_rest [OF assms(1), of "jp_rest j"] assms(2) by (simp add: v parse_ok_def)
  then show ?thesis
    using assms(2) by (auto simp: json_next_number_token_def v Let_def token_ok_def taken_def token_error_def parse_ok_def)
qed

lemma string_token_safe:
  assumes "parse_ok tot j" "hd (jp_rest j) \<noteq> 0"
  shows "lsafe (json_next_string_token tot t j) (token_ok tot j)"
proof -
  let ?r = "tl (jp_rest j)"
  have r: "ends_nul ?r" "length ?r < length (jp_rest j)"
    using ends_nul_tl assms by (auto simp: parse_ok_def)
  have h: "holds_string (strbuf_reset (jp_tmp j)) []" "sb_size (strbuf_reset (jp_tmp j)) = sb_size (jp_tmp j)"
    using assms(1) holds_reset by (auto simp: parse_ok_def strbuf_reset_def)
  have "int (length ?r) \<le> sb_size (jp_tmp j)" using r(2) assms(1) by (auto simp: parse_ok_def)
  then have s: "lsafe (string_loop ?r (strbuf_reset (jp_tmp j))) (string_result (length ?r) (sb_size (jp_tmp j)))"
    using string_loop_safe [OF r(1) h(1)] h(2) by simp
  show ?thesis
    unfolding json_next_string_token_def
  proof (rule lsafe_bind [OF s], goal_cases)
    case (1 x)
    show ?case
    proof (cases x)
      case (Inl a)
      then obtain r' tmp' b where a: "a = (r', tmp')" "holds_string tmp' b" using 1 by (cases a) auto
      then have "parse_ok tot (j\<lparr>jp_rest := r', jp_tmp := tmp'\<rparr>)" "length r' < length (jp_rest j)"
        using 1 Inl assms(1) r(2) by (auto simp: parse_ok_def)
      then show ?thesis using a Inl by (simp add: token_ok_def taken_def)
    next
      case (Inr a)
      then obtain e r' tmp' b where a: "a = (e, r', tmp')" "holds_string tmp' b" using 1 by (cases a) auto
      then have "parse_ok tot (j\<lparr>jp_rest := r', jp_tmp := tmp'\<rparr>)" "length r' \<le> length (jp_rest j)"
        using 1 Inr assms(1) r(2) by (auto simp: parse_ok_def)
      then show ?thesis using a Inr by (simp add: token_ok_def taken_def token_error_def)
    qed
  qed
qed

lemma invalid_number_safe: "ends_nul p \<Longrightarrow> \<exists>b. json_is_invalid_number p = LReturn b"
proof -
  assume p: "ends_nul p"
  have *: "\<exists>b. lbind (peek 0 q) (\<lambda>c. if c = 48 then lbind (peek 1 q) (\<lambda>ch2. LReturn (ch2 OR 0x20 = 120 \<or> (48 \<le> ch2 \<and> ch2 \<le> 57)))
       else if c \<le> 57 \<or> 128 \<le> c then LReturn False
       else LReturn (starts_with_nocase ''inf'' q \<or> starts_with_nocase ''nan'' q)) = LReturn b" if q: "ends_nul q" for q
  proof (cases "hd q = 48")
    case True
    then have "peek 1 q = LReturn (hd (tl q))" using peek_1 [OF q] by simp
    then show ?thesis using peek_0 [OF q] True by simp
  qed (use peek_0 [OF q] in auto)
  show ?thesis
  proof (cases "hd p = 45")
    case True
    then have "ends_nul (tl p)" using ends_nul_tl [OF p] by simp
    then show ?thesis using * [of "tl p"] peek_0 [OF p] True by (simp add: json_is_invalid_number_def Let_def)
  next
    case False
    then show ?thesis using * [OF p] peek_0 [OF p] by (auto simp: json_is_invalid_number_def)
  qed
qed

lemma word_rest:
  assumes "parse_ok tot j" "starts_with w (jp_rest j)" "NUL \<notin> set w" "w \<noteq> []"
  shows "parse_ok tot (j\<lparr>jp_rest := drop (length w) (jp_rest j)\<rparr>)" "length (drop (length w) (jp_rest j)) < length (jp_rest j)"
proof -
  have "0 \<notin> set (bytes_of w)"
  proof
    assume "0 \<in> set (bytes_of w)"
    then have "char_of (unat (0 :: byte)) \<in> set (chars_of (bytes_of w))"
      unfolding chars_of_def set_map by (rule imageI)
    moreover have "char_of (unat (0 :: byte)) = NUL" by (simp add: NUL_def char_of_def)
    ultimately show False using assms(3) by simp
  qed
  then have "0 \<notin> set (take (length w) (jp_rest j))"
    using assms(2) by (simp add: starts_with_def)
  then have "ends_nul (drop (length w) (jp_rest j))" "length w < length (jp_rest j)"
    using drop_ends_nul assms(1) by (auto simp: parse_ok_def)
  then show "parse_ok tot (j\<lparr>jp_rest := drop (length w) (jp_rest j)\<rparr>)"
      "length (drop (length w) (jp_rest j)) < length (jp_rest j)"
    using assms(1,4) by (cases w; auto simp: parse_ok_def)+
qed


lemma next_token_safe:
  assumes "strtod_within env" "parse_ok tot j"
  shows "lsafe (json_next_token env cfg tot j) (token_ok tot j)"
proof -
  let ?ws = "\<lambda>b. ch2token b = T_WHITESPACE"
  define r where "r = dropWhile ?ws (jp_rest j)"
  define k where "k = j\<lparr>jp_rest := r\<rparr>"
  have ws0: "\<not> ?ws 0" by (simp add: ch2token_def ch_def)
  have r: "ends_nul r" "length r \<le> length (jp_rest j)" "\<not> ?ws (hd r)"
    using ends_nul_dropWhile [of "jp_rest j" ?ws] assms(2) ws0 unfolding r_def parse_ok_def by blast+
  have k: "parse_ok tot k" "jp_rest k = r" "jp_depth k = jp_depth j"
    using parse_ok_rest [OF assms(2) r(1,2)] by (simp_all add: k_def)
  have up: "token_ok tot k x \<Longrightarrow> token_ok tot j x" for x
    using r(2) k(2,3) by (auto simp: token_ok_def)
  obtain c cs where c: "r = c # cs" using r(1) by (cases r) (auto simp: ends_nul_def)
  define t where "t = token_of (ch2token c) (tot - length r)"
  have t: "tk_type t = ch2token c" by (simp add: t_def token_of_def)
  have p0: "peek 0 r = LReturn c" by (simp add: peek_def c)
  have step: "json_next_token env cfg tot j =
     (if tk_type t = T_ERROR then LReturn (token_error (tk_index t) ''invalid token'' t, k)
      else if tk_type t = T_END then LReturn (t, k)
      else if tk_type t \<noteq> T_UNKNOWN then LReturn (t, k\<lparr>jp_rest := tl r\<rparr>)
      else if c = 34 then json_next_string_token tot t k
      else if c = 45 \<or> 48 \<le> c \<and> c \<le> 57 then
        lbind (if decode_invalid_numbers cfg = 0 then json_is_invalid_number r else LReturn False) (\<lambda>invalid.
        if invalid then LReturn (token_error (tk_index t) ''invalid number'' t, k)
        else LReturn (json_next_number_token env tot t k))
      else if starts_with ''true'' r then LReturn (t\<lparr>tk_type := T_BOOLEAN, tk_boolean := True\<rparr>, k\<lparr>jp_rest := drop (length ''true'') r\<rparr>)
      else if starts_with ''false'' r then LReturn (t\<lparr>tk_type := T_BOOLEAN, tk_boolean := False\<rparr>, k\<lparr>jp_rest := drop (length ''false'') r\<rparr>)
      else if starts_with ''null'' r then LReturn (t\<lparr>tk_type := T_NULL, tk_boolean := False\<rparr>, k\<lparr>jp_rest := drop (length ''null'') r\<rparr>)
      else
        lbind (if decode_invalid_numbers cfg \<noteq> 0 then json_is_invalid_number r else LReturn False) (\<lambda>invalid.
        if invalid then LReturn (json_next_number_token env tot t k)
        else LReturn (token_error (tk_index t) ''invalid token'' t, k)))"
    by (simp only: json_next_token_def Let_def r_def [symmetric] k_def [symmetric] p0 lbind.simps t_def [symmetric])
  have err: "token_ok tot j (token_error i e t, k)" for i e
    using up [of "(token_error i e t, k)"] k(1) by (simp add: token_ok_def token_error_def taken_def)
  have one: "ends_nul cs" if "c \<noteq> 0" using ends_nul_Cons r(1) c that by blast
  have word: "token_ok tot j (t\<lparr>tk_type := ty, tk_boolean := b\<rparr>, k\<lparr>jp_rest := drop (length w) r\<rparr>)"
    if "starts_with w r" "NUL \<notin> set w" "w \<noteq> []" "ty = T_BOOLEAN \<or> ty = T_NULL" for w ty b
    using word_rest [OF k(1), of w] that k(2,3) r(2) by (auto simp: token_ok_def taken_def)
  have inv: "\<exists>b. (if q then json_is_invalid_number r else LReturn False) = LReturn b" for q
    using invalid_number_safe [OF r(1)] by (cases q) auto
  consider "ch2token c = T_ERROR" | "ch2token c = T_END" | "ch2token c \<noteq> T_ERROR" "ch2token c \<noteq> T_END" "ch2token c \<noteq> T_UNKNOWN"
    | "ch2token c = T_UNKNOWN" by blast
  then show ?thesis
  proof cases
    case 1
    then show ?thesis unfolding step using err t by simp
  next
    case 2
    then have "token_ok tot j (t, k)" using k t up [of "(t, k)"] by (simp add: token_ok_def taken_def)
    then show ?thesis unfolding step using 2 t by simp
  next
    case 3
    have "c \<noteq> 0" using 3 by (auto simp: ch2token_def ch_def)
    then have "parse_ok tot (k\<lparr>jp_rest := cs\<rparr>)" using parse_ok_rest [OF k(1) one] k(2) c by simp
    then have "token_ok tot j (t, k\<lparr>jp_rest := cs\<rparr>)"
      using 3 k(2,3) c t r(3) by (intro up) (auto simp: token_ok_def taken_def)
    then show ?thesis unfolding step using 3 t c by simp
  next
    case 4
    have c0: "c \<noteq> 0" using 4 by (auto simp: ch2token_def ch_def)
    have num: "token_ok tot j (json_next_number_token env tot t k)"
      using number_token_ok [OF assms(1) k(1), of t] 4 t up by simp
    have str: "lsafe (json_next_string_token tot t k) (token_ok tot j)"
      using string_token_safe [OF k(1), of t] k(2) c c0 up by (auto elim: lsafe_mono)
    obtain b1 where b1: "(if decode_invalid_numbers cfg = 0 then json_is_invalid_number r else LReturn False) = LReturn b1"
      using inv by blast
    obtain b2 where b2: "(if decode_invalid_numbers cfg \<noteq> 0 then json_is_invalid_number r else LReturn False) = LReturn b2"
      using inv by blast
    have words: "starts_with ''true'' r \<Longrightarrow> token_ok tot j (t\<lparr>tk_type := T_BOOLEAN, tk_boolean := True\<rparr>, k\<lparr>jp_rest := drop (length ''true'') r\<rparr>)"
      "starts_with ''false'' r \<Longrightarrow> token_ok tot j (t\<lparr>tk_type := T_BOOLEAN, tk_boolean := False\<rparr>, k\<lparr>jp_rest := drop (length ''false'') r\<rparr>)"
      "starts_with ''null'' r \<Longrightarrow> token_ok tot j (t\<lparr>tk_type := T_NULL, tk_boolean := False\<rparr>, k\<lparr>jp_rest := drop (length ''null'') r\<rparr>)"
      by (rule word; simp add: NUL_def)+
    show ?thesis
      unfolding step b1 b2 lbind.simps
      using num str err words 4 t by simp
  qed
qed


section \<open>Values\<close>

text \<open>How much is left, the token at hand included.\<close>

definition left_over :: "json_token \<Rightarrow> json_parse \<Rightarrow> nat" where
  "left_over t j = length (jp_rest j) + (if taken t then 1 else 0)"

definition value_ok :: "nat \<Rightarrow> json_parse \<Rightarrow> lua_val \<times> json_parse \<Rightarrow> bool" where
  "value_ok tot j x \<longleftrightarrow> parse_ok tot (snd x) \<and> length (jp_rest (snd x)) \<le> length (jp_rest j)"

lemma value_ok_mono: "value_ok tot j' x \<Longrightarrow> length (jp_rest j') \<le> length (jp_rest j) \<Longrightarrow> value_ok tot j x"
  by (auto simp: value_ok_def)

lemma token_ok_left: "token_ok tot j (t, j') \<Longrightarrow> parse_ok tot j' \<and> left_over t j' \<le> length (jp_rest j) \<and>
    length (jp_rest j') \<le> length (jp_rest j)"
  by (auto simp: token_ok_def left_over_def)

lemma descend_safe: "parse_ok tot j \<Longrightarrow>
    lsafe (json_decode_descend env cfg tot j) (\<lambda>j'. parse_ok tot j' \<and> jp_rest j' = jp_rest j)"
  by (auto simp: json_decode_descend_def Let_def parse_ok_def)

lemma ascend_ok: "parse_ok tot j \<Longrightarrow> parse_ok tot (json_decode_ascend j) \<and> jp_rest (json_decode_ascend j) = jp_rest j"
  by (auto simp: json_decode_ascend_def parse_ok_def)

lemma ascend_value_ok: "parse_ok tot j \<Longrightarrow> value_ok tot j (v, json_decode_ascend j)"
  using ascend_ok by (auto simp: value_ok_def)

lemma throw_safe [simp]: "lsafe (json_throw_parse_error e t) Q"
  by (simp add: json_throw_parse_error_def)

lemma token_bind:
  assumes "strtod_within env" "parse_ok tot j"
    "\<And>t1 j1. parse_ok tot j1 \<Longrightarrow> left_over t1 j1 \<le> length (jp_rest j) \<Longrightarrow> lsafe (f t1 j1) Q"
  shows "lsafe (lbind (json_next_token env cfg tot j) (\<lambda>(t, j). f t j)) Q"
proof (rule lsafe_bind [OF next_token_safe [OF assms(1,2)]], goal_cases)
  case (1 x)
  then show ?case using assms(3) token_ok_left by (cases x) auto
qed

lemma value_bind:
  assumes "lsafe p (value_ok tot j)"
    "\<And>v j1. parse_ok tot j1 \<Longrightarrow> length (jp_rest j1) \<le> length (jp_rest j) \<Longrightarrow> lsafe (f v j1) Q"
  shows "lsafe (lbind p (\<lambda>(v, j). f v j)) Q"
  using assms by (cases p) (auto simp: value_ok_def)

lemma rest_left_over: "length (jp_rest j) \<le> left_over t j"
  by (simp add: left_over_def)

lemma taken_left_over: "taken t \<Longrightarrow> left_over t j = length (jp_rest j) + 1"
  by (simp add: left_over_def)

text \<open>Behind an element the container ends, or a comma is taken and the next element follows.\<close>

lemma element_end:
  assumes "strtod_within env" "parse_ok tot j4" "left_over t4 j4 \<le> length (jp_rest j)"
    and f: "\<And>t5 j5. parse_ok tot j5 \<Longrightarrow> left_over t5 j5 < length (jp_rest j) \<Longrightarrow> length (jp_rest j5) \<le> length (jp_rest j) \<Longrightarrow>
      lsafe (f t5 j5) (value_ok tot j5)"
  shows "lsafe (if tk_type t4 = e then LReturn (v, json_decode_ascend j4)
      else if tk_type t4 \<noteq> T_COMMA then json_throw_parse_error m t4
      else lbind (json_next_token env cfg tot j4) (\<lambda>(t5, j5). f t5 j5)) (value_ok tot j)"
proof -
  have "lsafe (lbind (json_next_token env cfg tot j4) (\<lambda>(t5, j5). f t5 j5)) (value_ok tot j)" if "tk_type t4 = T_COMMA"
  proof (rule token_bind [OF assms(1,2)], goal_cases)
    case (1 t5 j5)
    have "taken t4" using that by (simp add: taken_def)
    then have "left_over t5 j5 < length (jp_rest j)" using 1(2) assms(3) by (simp add: taken_left_over)
    then have "length (jp_rest j5) \<le> length (jp_rest j)" "lsafe (f t5 j5) (value_ok tot j5)"
      using f [OF 1(1)] rest_left_over [of j5 t5] by simp_all
    then show ?case using value_ok_mono by (auto elim!: lsafe_mono)
  qed
  moreover have "value_ok tot j (v, json_decode_ascend j4)"
    using value_ok_mono [OF ascend_value_ok [OF assms(2)]] assms(3) rest_left_over [of j4 t4] by simp
  ultimately show ?thesis by simp
qed

text \<open>The fuel is enough when it is more than twice what is left.\<close>

lemma values_safe:
  assumes env: "strtod_within env"
  shows "parse_ok tot j \<Longrightarrow> 2 * left_over t j + 1 \<le> fuel \<Longrightarrow>
      lsafe (json_process_value env cfg tot fuel t j) (value_ok tot j)"
    and "parse_ok tot j \<Longrightarrow> 2 * left_over t j + 2 \<le> fuel \<Longrightarrow>
      lsafe (json_parse_object_context env cfg tot fuel tbl t j) (value_ok tot j)"
    and "parse_ok tot j \<Longrightarrow> 2 * left_over t j + 2 \<le> fuel \<Longrightarrow>
      lsafe (json_parse_array_context env cfg tot fuel i tbl t j) (value_ok tot j)"
proof (induction fuel arbitrary: t j tbl i)
  case 0
  { case 1 then show ?case by simp }
  { case 2 then show ?case by simp }
  { case 3 then show ?case by simp }
next
  case (Suc fuel)
  have up: "lsafe p (value_ok tot j)" if "lsafe p (value_ok tot j1)" "length (jp_rest j1) \<le> length (jp_rest j)" for p j j1
    using that value_ok_mono by (auto elim!: lsafe_mono)
  { case 1
    have enter: "lsafe (lbind (json_decode_descend env cfg tot j) (\<lambda>j. lbind (json_next_token env cfg tot j) (\<lambda>(t, j). f t j))) (value_ok tot j)"
      if f: "\<And>t1 j1. parse_ok tot j1 \<Longrightarrow> left_over t1 j1 \<le> length (jp_rest j) \<Longrightarrow>
        lsafe (f t1 j1) (value_ok tot j1)" for f
    proof (rule lsafe_bind [OF descend_safe [OF 1(1)]], rule token_bind [OF env], blast, goal_cases)
      case (1 j0 t1 j1)
      then have "left_over t1 j1 \<le> length (jp_rest j)" by simp
      then show ?case using up [OF f [OF 1(2)]] rest_left_over [of j1 t1] by auto
    qed
    consider "tk_type t = T_OBJ_BEGIN" | "tk_type t = T_ARR_BEGIN" | "tk_type t \<noteq> T_OBJ_BEGIN" "tk_type t \<noteq> T_ARR_BEGIN" by blast
    then show ?case
    proof cases
      case obj: 1
      have "lsafe (if tk_type t1 = T_OBJ_END then LReturn (LTable [], json_decode_ascend j1)
          else json_parse_object_context env cfg tot fuel [] t1 j1) (value_ok tot j1)"
        if "parse_ok tot j1" "left_over t1 j1 \<le> length (jp_rest j)" for t1 j1
        using Suc.IH(2) [of j1 t1 "[]"] 1(2) that obj ascend_value_ok [OF that(1)]
        by (simp add: taken_left_over taken_def)
      then show ?thesis using enter by (simp add: obj)
    next
      case arr: 2
      have "lsafe (if tk_type t1 = T_ARR_END then LReturn (LTable [], json_decode_ascend j1)
          else json_parse_array_context env cfg tot fuel 1 [] t1 j1) (value_ok tot j1)"
        if "parse_ok tot j1" "left_over t1 j1 \<le> length (jp_rest j)" for t1 j1
        using Suc.IH(3) [of j1 t1 1 "[]"] 1(2) that arr ascend_value_ok [OF that(1)]
        by (simp add: taken_left_over taken_def)
      then show ?thesis using enter by (simp add: arr)
    next
      case 3
      then show ?thesis using 1(1) by (cases "tk_type t") (simp_all add: value_ok_def)
    qed
  }
  { case 2
    note fuel = 2(2)
    show ?case
    proof (cases "tk_type t = T_STRING")
      case True
      have l: "left_over t j = length (jp_rest j) + 1" using True by (simp add: taken_left_over taken_def)
      have val: "lsafe (lbind (json_process_value env cfg tot fuel t2 j2) (\<lambda>(v, j3).
          lbind (json_next_token env cfg tot j3) (\<lambda>(t4, j4).
          if tk_type t4 = T_OBJ_END then LReturn (LTable (g v), json_decode_ascend j4)
          else if tk_type t4 \<noteq> T_COMMA then json_throw_parse_error ''comma or object end'' t4
          else lbind (json_next_token env cfg tot j4) (\<lambda>(t5, j5). json_parse_object_context env cfg tot fuel (g v) t5 j5))))
          (value_ok tot j)"
        if "parse_ok tot j2" "left_over t2 j2 \<le> length (jp_rest j)" for t2 j2 g
      proof (rule value_bind [of _ tot j2], goal_cases)
        case 1
        show ?case using Suc.IH(1) [OF that(1)] that(2) 2(2) l by simp
      next
        case (2 v j3)
        show ?case
          by (rule token_bind [OF env 2(1)], rule element_end [OF env], assumption)
            (use 2 that rest_left_over [of j2 t2] Suc.IH(2) l fuel in auto)
      qed
      show ?thesis
        unfolding json_parse_object_context.simps Let_def
      proof (simp only: True not_True_eq_False if_False simp_thms, rule token_bind [OF env 2(1)], goal_cases)
        case (1 t1 j1)
        have "lsafe (lbind (json_next_token env cfg tot j1) (\<lambda>(t2, j2). lbind (json_process_value env cfg tot fuel t2 j2) (\<lambda>(v, j3).
          lbind (json_next_token env cfg tot j3) (\<lambda>(t4, j4).
          if tk_type t4 = T_OBJ_END then LReturn (LTable (g v), json_decode_ascend j4)
          else if tk_type t4 \<noteq> T_COMMA then json_throw_parse_error ''comma or object end'' t4
          else lbind (json_next_token env cfg tot j4) (\<lambda>(t5, j5). json_parse_object_context env cfg tot fuel (g v) t5 j5)))))
          (value_ok tot j)" for g
          by (rule token_bind [OF env 1(1)], rule val) (use 1 rest_left_over [of j1 t1] in auto)
        then show ?case by simp
      qed
    qed simp
  }
  { case 3
    note fuel = 3(2)
    show ?case
      unfolding json_parse_array_context.simps Let_def
    proof (rule value_bind [of _ tot j], goal_cases)
      case 1
      show ?case using Suc.IH(1) [OF 3(1)] 3(2) by simp
    next
      case (2 v j3)
      show ?case
        by (rule token_bind [OF env 2(1)], rule element_end [OF env], assumption)
          (use 2 Suc.IH(3) fuel rest_left_over [of j t] in auto)
    qed
  }
qed

section \<open>Any text\<close>

lemma unless_error_safe: "lsafe p Q \<Longrightarrow> lsafe (if c then LError e else p) Q"
  by simp

lemma json_decode_total:
  assumes "strtod_within env" "\<forall>n. je_mem env n"
    and len: "\<And>data. lua_tolstring (je_num2str env) (lua_at L 1) = Some data \<Longrightarrow> int (length data) < INT_MAX"
  shows "lsafe (json_decode env cfg L) (\<lambda>_. True)"
proof (cases "lua_tolstring (je_num2str env) (lua_at L 1)")
  case (Some data)
  have start: "lsafe (strbuf_new (je_mem env) (int_of_size (length data))) (\<lambda>tmp.
      parse_ok (length data + 1) \<lparr>jp_rest = data @ [0], jp_tmp = tmp, jp_depth = 0\<rparr>)"
  proof -
    have l: "int (length data) < INT_MAX" using len Some by blast
    then have i: "int_of_size (length data) = int (length data)" by (simp add: int_of_size_small)
    obtain s where s: "strbuf_init (je_mem env) (int (length data)) = LReturn s" "holds_string s []"
      "sb_size s = (if int (length data) \<le> 0 then STRBUF_DEFAULT_SIZE else int (length data) + 1)"
      using init_holds [OF assms(2) l] by blast
    have "parse_ok (length data + 1) \<lparr>jp_rest = data @ [0], jp_tmp = s\<lparr>sb_dynamic := True\<rparr>, jp_depth = 0\<rparr>"
      unfolding parse_ok_def using s(2,3)
      by (auto simp: ends_nul_def STRBUF_DEFAULT_SIZE_def intro!: exI [of _ "[]"])
    then show ?thesis by (simp add: strbuf_new_def i s(1))
  qed
  let ?tot = "length data + 1"
  have run: "lsafe (lbind (json_next_token env cfg ?tot j) (\<lambda>(token, json).
      lbind (json_process_value env cfg ?tot (2 * ?tot + 3) token json) (\<lambda>(v, json).
      lbind (json_next_token env cfg ?tot json) (\<lambda>(token, json).
      if tk_type token \<noteq> T_END then json_throw_parse_error ''the end'' token else LReturn v)))) (\<lambda>_. True)"
    if "parse_ok ?tot j" for j
  proof (rule token_bind [OF assms(1) that], goal_cases)
    case (1 t1 j1)
    have "length (jp_rest j) \<le> ?tot" using that by (simp add: parse_ok_def)
    then have v: "lsafe (json_process_value env cfg ?tot (2 * ?tot + 3) t1 j1) (value_ok ?tot j1)"
      by (intro values_safe(1) [OF assms(1) 1(1)]) (use 1(2) in simp)
    show ?case by (rule value_bind [OF v], rule token_bind [OF assms(1)]) auto
  qed
  show ?thesis
    unfolding json_decode_def Some option.case Let_def
    by (intro unless_error_safe lsafe_bind [OF start run])
qed (simp add: json_decode_def)

text \<open>
  C25. Whatever text a script passes to the JSON decoder, as long as its length is below the largest
  int: the call returns a value or raises an error. It does not read behind the terminator of
  the text, does not write behind the temporary buffer although most writes to it are unchecked,
  and it terminates.
\<close>

theorem json_decode_safe:
  assumes "strtod_within env" "\<forall>n. je_mem env n"
    and "\<And>data. lua_tolstring (je_num2str env) (lua_at L 1) = Some data \<Longrightarrow> int (length data) < INT_MAX"
  shows "(\<exists>v. json_decode env cfg L = LReturn v) \<or> (\<exists>e. json_decode env cfg L = LError e)"
proof -
  have "lsafe (json_decode env cfg L) (\<lambda>_. True)" by (rule json_decode_total [OF assms])
  then show ?thesis by (cases "json_decode env cfg L") auto
qed

text \<open>
  An environment for examples: memory and stack without end, \<open>strtod\<close> reads one digit.
\<close>

definition digit_strtod :: "byte list \<Rightarrow> u64 \<times> nat" where
  "digit_strtod s =
     (case s of
        [] \<Rightarrow> (0, 0)
      | c # cs \<Rightarrow> if 48 \<le> c \<and> c \<le> 57 then (i2d (uint c - 48), 1) else (0, 0))"

definition example_env :: json_env where
  "example_env = \<lparr>je_mem = \<lambda>n. True, je_stack = \<lambda>n. True, je_checkinteger = \<lambda>v. None, je_num2str = \<lambda>d. [],
     je_typename = \<lambda>n. ''userdata'', je_printf = \<lambda>fmt d. bytes_of ''1'', je_strtod = digit_strtod, je_point = 46\<rparr>"

definition example_config :: json_config where
  "example_config =
     (case json_create_config example_env of
        LReturn cfg \<Rightarrow> cfg
      | _ \<Rightarrow> \<lparr>encode_buf = strbuf_reset \<lparr>sb_buf = None, sb_size = 0, sb_increment = 0, sb_dynamic = False, sb_reallocs = 0\<rparr>,
          encode_sparse_convert = 0, encode_sparse_ratio = 0, encode_sparse_safe = 0, encode_max_depth = 0,
          encode_invalid_numbers = 0, encode_number_precision = 0, encode_keep_buffer = 0, decode_invalid_numbers = 0,
          decode_max_depth = 0\<rparr>)"

lemma example_strtod_within: "strtod_within example_env"
  by (auto simp: strtod_within_def example_env_def digit_strtod_def split: list.splits)

theorem json_decode_safe_witness:
  "(\<exists>v. json_decode example_env example_config [LString (bytes_of ''[1,{x'')] = LReturn v) \<or>
   (\<exists>e. json_decode example_env example_config [LString (bytes_of ''[1,{x'')] = LError e)"
proof (rule json_decode_safe [OF example_strtod_within])
qed (auto simp: example_env_def lua_at_def INT_MAX_def lua_tolstring_def)

end
