(* ===== verification/JsonUnicode.thy ===== *)
theory JsonUnicode
  imports JsonDec
begin

text \<open>
  The escapes of code points in JSON strings, against UTF-8 and UTF-16 as the standards have them,
  in plain arithmetic.
\<close>

section \<open>The standards\<close>

text \<open>UTF-8 of a code point, and its escape: four hexadecimal digits, or a surrogate pair.\<close>

definition utf8 :: "nat \<Rightarrow> byte list" where
  "utf8 cp =
     (if cp < 0x80 then [of_nat cp]
      else if cp < 0x800 then [of_nat (0xC0 + cp div 64), of_nat (0x80 + cp mod 64)]
      else if cp < 0x10000 then
        [of_nat (0xE0 + cp div 4096), of_nat (0x80 + cp div 64 mod 64), of_nat (0x80 + cp mod 64)]
      else
        [of_nat (0xF0 + cp div 262144), of_nat (0x80 + cp div 4096 mod 64), of_nat (0x80 + cp div 64 mod 64),
         of_nat (0x80 + cp mod 64)])"

definition hex_char :: "bool \<Rightarrow> nat \<Rightarrow> byte" where
  "hex_char upper d = of_nat (if d < 10 then 48 + d else if upper then 55 + d else 87 + d)"

text \<open>\<open>up\<close> says which of the digits are upper case letters.\<close>

definition escape16 :: "(nat \<Rightarrow> bool) \<Rightarrow> nat \<Rightarrow> byte list" where
  "escape16 up n =
     [92, 117, hex_char (up 0) (n div 4096 mod 16), hex_char (up 1) (n div 256 mod 16),
      hex_char (up 2) (n div 16 mod 16), hex_char (up 3) (n mod 16)]"

definition code_point :: "nat \<Rightarrow> bool" where
  "code_point cp \<longleftrightarrow> cp < 0x110000 \<and> \<not> (0xD800 \<le> cp \<and> cp < 0xE000)"

definition json_unicode :: "(nat \<Rightarrow> bool) \<Rightarrow> (nat \<Rightarrow> bool) \<Rightarrow> nat \<Rightarrow> byte list" where
  "json_unicode up up' cp =
     (if cp < 0x10000 then escape16 up cp
      else escape16 up (0xD800 + (cp - 0x10000) div 0x400) @ escape16 up' (0xDC00 + (cp - 0x10000) mod 0x400))"

section \<open>Digits\<close>

lemma hexdigit2int_char: "d < 16 \<Longrightarrow> hexdigit2int (hex_char upper d) = int d"
proof -
  assume "d < 16"
  then have d: "d \<in> {0, 1, 2, 3, 4, 5, 6, 7, 8, 9, 10, 11, 12, 13, 14, 15}" by (simp; arith)
  have "hexdigit2int (of_nat n) = int d" if "n = (if d < 10 then 48 + d else if upper then 55 + d else 87 + d)" for n
    using d that by (cases upper) (elim insertE emptyE; simp add: hexdigit2int_def Let_def)+
  then show ?thesis by (simp add: hex_char_def)
qed

lemma hex4_step: "d < 16 \<Longrightarrow> hex4_loop (Suc n) (hex_char upper d # r) v = hex4_loop n r (v * 16 + int d)"
  by (simp add: peek_def hexdigit2int_char)

lemma hex_digits_value:
  fixes n :: nat
  assumes "n < 0x10000"
  shows "((n div 4096 mod 16 * 16 + n div 256 mod 16) * 16 + n div 16 mod 16) * 16 + n mod 16 = n"
proof -
  have "n div 4096 mod 16 = n div 4096" using assms by (simp add: less_mult_imp_div_less)
  moreover have "n div 4096 * 16 + n div 256 mod 16 = n div 256"
    using div_mult_mod_eq [of "n div 256" 16] div_mult2_eq [of n 256 16] by simp
  moreover have "n div 256 * 16 + n div 16 mod 16 = n div 16"
    using div_mult_mod_eq [of "n div 16" 16] div_mult2_eq [of n 16 16] by simp
  ultimately show ?thesis using div_mult_mod_eq [of n 16] by simp
qed

lemma decode_hex4_escape:
  assumes "n < 0x10000"
  shows "decode_hex4 (drop 2 (escape16 up n) @ r) = LReturn (int n)"
proof -
  let ?d = "\<lambda>k. n div k mod 16"
  have d: "?d 4096 < 16" "?d 256 < 16" "?d 16 < 16" "n mod 16 < 16" by simp_all
  have four: "4 = Suc (Suc (Suc (Suc 0)))" by simp
  have "drop 2 (escape16 up n) @ r = hex_char (up 0) (?d 4096) # hex_char (up 1) (?d 256) # hex_char (up 2) (?d 16) #
      hex_char (up 3) (n mod 16) # r"
    by (simp add: escape16_def)
  then have "decode_hex4 (drop 2 (escape16 up n) @ r) =
      LReturn (((int (?d 4096) * 16 + int (?d 256)) * 16 + int (?d 16)) * 16 + int (n mod 16))"
    by (simp only: decode_hex4_def four hex4_step d hex4_loop.simps(1) mult_zero_left add_0)
  also have "\<dots> = LReturn (int (((?d 4096 * 16 + ?d 256) * 16 + ?d 16) * 16 + n mod 16))" by (simp only: of_nat_add of_nat_mult of_nat_numeral)
  finally show ?thesis by (simp only: hex_digits_value [OF assms])
qed

section \<open>Bits\<close>

lemma and_field:
  "x AND 0xF800 = x div 2048 mod 32 * 2048" "x AND 0x400 = x div 1024 mod 2 * 1024" "x AND 0xFC00 = x div 1024 mod 64 * 1024"
  "x AND 0x3FF = x mod 1024" "x AND 0x3F = x mod 64" for x :: int
proof -
  have f: "x AND push_bit m (mask n) = x div 2 ^ m mod 2 ^ n * 2 ^ m" for m n
  proof -
    have "x AND push_bit m (mask n) = push_bit m (take_bit n (drop_bit m x))"
      by (rule bit_eqI) (auto simp: bit_simps)
    then show ?thesis by (simp add: push_bit_eq_mult take_bit_eq_mod drop_bit_eq_div)
  qed
  show "x AND 0xF800 = x div 2048 mod 32 * 2048" using f [of 11 5] by (simp add: mask_eq_exp_minus_1 push_bit_eq_mult)
  show "x AND 0x400 = x div 1024 mod 2 * 1024" using f [of 10 1] by (simp add: mask_eq_exp_minus_1 push_bit_eq_mult)
  show "x AND 0xFC00 = x div 1024 mod 64 * 1024" using f [of 10 6] by (simp add: mask_eq_exp_minus_1 push_bit_eq_mult)
  show "x AND 0x3FF = x mod 1024" using f [of 0 10] by (simp add: mask_eq_exp_minus_1)
  show "x AND 0x3F = x mod 64" using f [of 0 6] by (simp add: mask_eq_exp_minus_1)
qed

lemma or_add:
  fixes a b :: int
  assumes "0 \<le> b" "b < 2 ^ n"
  shows "push_bit n a OR b = a * 2 ^ n + b"
proof -
  have "b = take_bit n b" using assms by (simp add: take_bit_int_eq_self)
  moreover have "push_bit n a AND take_bit n b = 0" by (rule bit_eqI) (auto simp: bit_simps)
  ultimately have "push_bit n a AND b = 0" by simp
  then show ?thesis by (simp add: disjunctive_add_eq_or [symmetric] push_bit_eq_mult)
qed

lemma or_heads:
  fixes y :: int
  assumes "0 \<le> y"
  shows "y < 64 \<Longrightarrow> y OR 0x80 = 0x80 + y" "y < 64 \<Longrightarrow> y OR 0xC0 = 0xC0 + y"
    "y < 32 \<Longrightarrow> y OR 0xE0 = 0xE0 + y" "y < 16 \<Longrightarrow> y OR 0xF0 = 0xF0 + y"
  using or_add [of y 7 1] or_add [of y 6 3] or_add [of y 5 7] or_add [of y 4 15] assms
  by (simp_all add: or.commute [of y] push_bit_eq_mult)

lemma utf8_byte_nat: "utf8_byte (int n) = of_nat n"
  by (simp add: utf8_byte_def)

lemma codepoint_utf8:
  assumes "cp < 0x110000"
  shows "codepoint_to_utf8 (int cp) = utf8 cp"
proof -
  have d: "drop_bit k (int cp) = int (cp div 2 ^ k)" for k by (simp add: drop_bit_eq_div zdiv_int)
  have m: "int n AND 0x3F = int (n mod 64)" for n by (simp add: and_field zmod_int)
  have tail: "utf8_byte (int (n mod 64) OR 0x80) = of_nat (0x80 + n mod 64)" for n
    using or_heads(1) [of "int (n mod 64)"] by (simp add: utf8_byte_def)
  have h2: "cp < 0x800 \<Longrightarrow> utf8_byte (int (cp div 64) OR 0xC0) = of_nat (0xC0 + cp div 64)"
    using or_heads(2) [of "int (cp div 64)"] by (simp add: utf8_byte_def less_mult_imp_div_less)
  have h3: "cp < 0x10000 \<Longrightarrow> utf8_byte (int (cp div 4096) OR 0xE0) = of_nat (0xE0 + cp div 4096)"
    using or_heads(3) [of "int (cp div 4096)"] by (simp add: utf8_byte_def less_mult_imp_div_less)
  have h4: "utf8_byte (int (cp div 262144) OR 0xF0) = of_nat (0xF0 + cp div 262144)"
    using or_heads(4) [of "int (cp div 262144)"] assms by (simp add: utf8_byte_def less_mult_imp_div_less)
  show ?thesis
    using assms h2 h3 h4
    by (simp add: codepoint_to_utf8_def utf8_def d m tail utf8_byte_nat del: of_nat_mod of_nat_div zmod_int zdiv_int)
qed

section \<open>Escapes are read as UTF-8\<close>

lemma surrogate_field:
  fixes n :: nat
  assumes "n < 0x10000"
  shows "int n AND 0xF800 = 0xD800 \<longleftrightarrow> 0xD800 \<le> n \<and> n < 0xE000"
proof -
  have "n div 2048 mod 32 = n div 2048" using assms by (simp add: less_mult_imp_div_less)
  then have "int n AND 0xF800 = int (n div 2048 * 2048)" by (simp add: and_field flip: of_nat_div of_nat_mod)
  moreover have "int (n div 2048 * 2048) = 0xD800 \<longleftrightarrow> n div 2048 = 27" by linarith
  moreover have "n div 2048 = 27 \<longleftrightarrow> 0xD800 \<le> n \<and> n < 0xE000" by linarith
  ultimately show ?thesis by simp
qed

lemma surrogate_pair:
  assumes "0x10000 \<le> cp" "cp < 0x110000"
  defines "h \<equiv> 0xD800 + (cp - 0x10000) div 0x400" and "l \<equiv> 0xDC00 + (cp - 0x10000) mod 0x400"
  shows "h < 0xDC00" "l < 0xE000" "int h AND 0x400 = 0" "int l AND 0xFC00 = 0xDC00"
    "(push_bit 10 (int h AND 0x3FF) OR (int l AND 0x3FF)) + 0x10000 = int cp"
proof -
  let ?x = "cp - 0x10000"
  have q: "?x div 0x400 < 0x400" using assms(1,2) by (simp add: less_mult_imp_div_less)
  show h: "h < 0xDC00" using q by (simp add: h_def)
  show l: "l < 0xE000" by (simp add: l_def)
  have "h div 1024 = 54" using h by (simp add: h_def div_eq_dividend_iff)
  then have "int h div 1024 = 54" by linarith
  then show "int h AND 0x400 = 0" by (simp add: and_field)
  have "l div 1024 = 55" using l by (simp add: l_def)
  then have "int l div 1024 = 55" by linarith
  then show "int l AND 0xFC00 = 0xDC00" by (simp add: and_field)
  have "h = ?x div 0x400 + 54 * 0x400" by (simp add: h_def)
  then have "h mod 1024 = ?x div 0x400" using q by (simp only: mod_mult_self1 mod_less)
  moreover have "l = ?x mod 0x400 + 55 * 0x400" by (simp add: l_def)
  then have "l mod 1024 = ?x mod 0x400" by (simp only: mod_mult_self1 mod_mod_trivial)
  ultimately have f: "int h AND 0x3FF = int (?x div 0x400)" "int l AND 0x3FF = int (?x mod 0x400)"
    by (simp_all add: and_field flip: of_nat_mod) (metis of_nat_mod of_nat_numeral)+
  have "(push_bit 10 (int h AND 0x3FF) OR (int l AND 0x3FF)) = int (?x div 0x400) * 2 ^ 10 + int (?x mod 0x400)"
    unfolding f by (rule or_add) simp_all
  also have "\<dots> = int (?x div 0x400 * 0x400 + ?x mod 0x400)" by (simp only: of_nat_add of_nat_mult of_nat_numeral) simp
  also have "\<dots> = int ?x" by (simp only: div_mult_mod_eq)
  finally show "(push_bit 10 (int h AND 0x3FF) OR (int l AND 0x3FF)) + 0x10000 = int cp" using assms(1) by simp
qed

lemma unicode_escape_reads:
  assumes "code_point cp"
  shows "unicode_escape (json_unicode up up' cp @ r) = LReturn (Some (utf8 cp, length (json_unicode up up' cp)))"
proof -
  have cp: "cp < 0x110000" using assms by (simp add: code_point_def)
  have ne: "utf8 n \<noteq> []" for n by (simp add: utf8_def)
  have len: "length (escape16 u n) = 6" for u n by (simp add: escape16_def)
  show ?thesis
  proof (cases "cp < 0x10000")
    case True
    have "decode_hex4 (drop 2 (escape16 up cp @ r)) = LReturn (int cp)"
      using decode_hex4_escape [OF True] len [of up cp] by simp
    moreover have "int cp AND 0xF800 \<noteq> 0xD800" using surrogate_field [OF True] assms by (simp add: code_point_def)
    ultimately show ?thesis
      using True codepoint_utf8 [OF cp] ne len by (simp add: unicode_escape_def json_unicode_def Let_def)
  next
    case False
    define h where "h = 0xD800 + (cp - 0x10000) div 0x400"
    define l where "l = 0xDC00 + (cp - 0x10000) mod 0x400"
    have p: "h < 0xDC00" "l < 0xE000" "int h AND 0x400 = 0" "int l AND 0xFC00 = 0xDC00"
        "(push_bit 10 (int h AND 0x3FF) OR (int l AND 0x3FF)) + 0x10000 = int cp"
      using surrogate_pair [OF _ cp] False unfolding h_def l_def by simp_all
    let ?w = "escape16 up h @ escape16 up' l @ r"
    have w: "json_unicode up up' cp @ r = ?w" "length (json_unicode up up' cp) = 12"
      using False len by (simp_all add: json_unicode_def h_def l_def)
    have hi: "decode_hex4 (drop 2 ?w) = LReturn (int h)"
      using decode_hex4_escape [of h up "escape16 up' l @ r"] p(1) len [of up h] by simp
    have lo: "decode_hex4 (drop 8 ?w) = LReturn (int l)"
      using decode_hex4_escape [of l up' r] p(2) len [of up h] len [of up' l] by simp
    have "int h AND 0xF800 = 0xD800" using surrogate_field [of h] p(1) by (simp add: h_def)
    moreover have "peek 6 ?w = LReturn 92" "peek 7 ?w = LReturn 117"
      by (simp_all add: peek_def escape16_def)
    ultimately show ?thesis
      unfolding w unicode_escape_def hi lo
      using p codepoint_utf8 [OF cp] ne lo by (simp add: Let_def)
  qed
qed

text \<open>
  C32. Every code point that may stand in a JSON string as an escape, as one escape or as the
  surrogate pair of UTF-16, in upper or lower case digits, is decoded to its UTF-8 bytes, and
  exactly the escape is taken from the text whatever follows.
\<close>

theorem json_unicode_escape_utf8:
  assumes "code_point cp"
  shows "unicode_escape (json_unicode up up' cp @ r) = LReturn (Some (utf8 cp, length (json_unicode up up' cp)))"
  by (rule unicode_escape_reads [OF assms])

theorem json_unicode_escape_utf8_witness:
  "unicode_escape (json_unicode (\<lambda>i. True) (\<lambda>i. False) 0x1F600 @ [34, 0]) = LReturn (Some ([0xF0, 0x9F, 0x98, 0x80], 12))"
  using json_unicode_escape_utf8 [of "0x1F600" "\<lambda>i. True" "\<lambda>i. False" "[34, 0]"]
  by (simp add: code_point_def utf8_def json_unicode_def escape16_def)

end
