(* ===== verification/JsonRT.thy ===== *)
theory JsonRT
  imports JsonText JsonSafe JsonUnicode
begin

text \<open>
  The decoder on the text of a value: it gives the value back, with \<open>cjson.null\<close> for nil, rounded
  numbers, and tables in the order of the text.
\<close>

section \<open>Strings\<close>

text \<open>An escape for a control character is read as that character.\<close>

lemma control_escape:
  fixes c :: byte
  assumes "c < 128"
  shows "unicode_escape (92 # 117 # 48 # 48 # hex_digit (unat c div 16) # hex_digit (unat c mod 16) # r) = LReturn (Some ([c], 6))"
proof -
  have c: "unat c < 128" using assms by (simp add: word_less_nat_alt)
  have dig: "hex_char False d = hex_digit d" for d by (simp add: hex_char_def hex_digit_def)
  have "unat c div 16 mod 16 = unat c div 16" using c by (simp add: less_mult_imp_div_less)
  moreover have "hex_digit 0 = 48" by (simp add: hex_digit_def)
  ultimately have e: "json_unicode (\<lambda>i. False) (\<lambda>i. False) (unat c) =
      [92, 117, 48, 48, hex_digit (unat c div 16), hex_digit (unat c mod 16)]"
    using c by (simp add: json_unicode_def escape16_def dig)
  have "utf8 (unat c) = [c]" using c by (simp add: utf8_def)
  moreover have "code_point (unat c)" using c by (simp add: code_point_def)
  ultimately show ?thesis using unicode_escape_reads [of "unat c" "\<lambda>i. False" "\<lambda>i. False" r] unfolding e by simp
qed

lemma json_char_read:
  assumes "holds_string tmp b" "int (length b) + 1 < sb_size tmp"
  shows "string_loop (json_char c @ r) tmp = string_loop r (tmp\<lparr>sb_buf := Some (b @ [c])\<rparr>)"
proof -
  have put: "strbuf_append_mem_unsafe [x] tmp = LReturn (tmp\<lparr>sb_buf := Some (b @ [x])\<rparr>)" for x
    using unsafe_holds [OF assms(1), of "[x]"] assms(2) by simp
  show ?thesis
  proof (cases "char2escape c")
    case None
    then have "c \<noteq> 34" "c \<noteq> 92" "c \<noteq> 0" by (auto simp: char2escape_def)
    then show ?thesis using None put by (simp add: json_char_def strbuf_append_char_unsafe_def)
  next
    case (Some e)
    consider x where "e = [92, x]" "escape2char x = c" "c \<noteq> 0" "c \<noteq> 117"
      | "c < 128" "e = 92 # 117 # 48 # 48 # hex_digit (unat c div 16) # hex_digit (unat c mod 16) # []"
      using Some less_trans [of c 32 128] by (auto simp: char2escape_def bytes_of_def escape2char_def ch_def split: if_splits)
    then show ?thesis
    proof cases
      case (1 x)
      then show ?thesis using Some put by (simp add: json_char_def strbuf_append_char_unsafe_def peek_def)
    next
      case 2
      have "escape2char 117 = 117" by (simp add: escape2char_def ch_def)
      then show ?thesis using Some 2 put control_escape [OF 2(1), of r]
        by (simp add: json_char_def json_append_unicode_escape_def peek_def)
    qed
  qed
qed

lemma string_loop_quote:
  "holds_string tmp b \<Longrightarrow> int (length b + length s) < sb_size tmp \<Longrightarrow>
    string_loop (concat (map json_char s) @ 34 # r) tmp = LReturn (Inl (r, tmp\<lparr>sb_buf := Some (b @ s)\<rparr>))"
proof (induction s arbitrary: tmp b)
  case Nil
  then show ?case by (simp add: holds_string_def)
next
  case (Cons c s)
  have "holds_string (tmp\<lparr>sb_buf := Some (b @ [c])\<rparr>) (b @ [c])"
    using unsafe_holds [OF Cons.prems(1), of "[c]"] Cons.prems(2) by simp
  from Cons.IH [OF this] show ?case
    using json_char_read [OF Cons.prems(1), of c "concat (map json_char s) @ 34 # r"] Cons.prems(2) by simp
qed

text \<open>A text between quotes that is read as \<open>s\<close>: the escaped one, and one in which nothing needs an escape.\<close>

definition string_body :: "byte list \<Rightarrow> byte list \<Rightarrow> bool" where
  "string_body body s \<longleftrightarrow> length s \<le> length body \<and> (\<forall>tmp b r. holds_string tmp b \<longrightarrow> int (length b + length s) < sb_size tmp \<longrightarrow>
     string_loop (body @ 34 # r) tmp = LReturn (Inl (r, tmp\<lparr>sb_buf := Some (b @ s)\<rparr>)))"

lemma string_body_quote: "string_body (concat (map json_char s)) s"
  using string_loop_quote length_json_quote [of s] by (simp add: string_body_def json_quote_def)

lemma string_body_raw:
  assumes "\<forall>c \<in> set s. c \<notin> {0, 34, 92}"
  shows "string_body s s"
proof -
  have "string_loop (s @ 34 # r) tmp = LReturn (Inl (r, tmp\<lparr>sb_buf := Some (b @ s)\<rparr>))"
    if "holds_string tmp b" "int (length b + length s) < sb_size tmp" for tmp b r
    using that assms
  proof (induction s arbitrary: tmp b)
    case Nil
    then show ?case by (simp add: holds_string_def)
  next
    case (Cons c s)
    have u: "holds_string (tmp\<lparr>sb_buf := Some (b @ [c])\<rparr>) (b @ [c])"
      "strbuf_append_mem_unsafe [c] tmp = LReturn (tmp\<lparr>sb_buf := Some (b @ [c])\<rparr>)"
      using unsafe_holds [OF Cons.prems(1), of "[c]"] Cons.prems(2) by simp_all
    from Cons.IH [OF u(1)] show ?case
      using u(2) Cons.prems(2,3) by (simp add: strbuf_append_char_unsafe_def)
  qed
  then show ?thesis by (simp add: string_body_def)
qed

section \<open>Tokens\<close>

lemma ends_nul_append: "ends_nul (w @ r) \<Longrightarrow> r \<noteq> [] \<Longrightarrow> ends_nul r"
  by (simp add: ends_nul_def)

lemma parse_ok_suffix:
  "parse_ok tot j \<Longrightarrow> jp_rest j = w @ r \<Longrightarrow> r \<noteq> [] \<Longrightarrow> parse_ok tot (j\<lparr>jp_rest := r\<rparr>)"
  by (rule parse_ok_rest) (auto simp: parse_ok_def dest: ends_nul_append)

definition single_char :: "byte \<Rightarrow> bool" where
  "single_char c \<longleftrightarrow> ch2token c \<notin> {T_WHITESPACE, T_ERROR, T_END, T_UNKNOWN}"

lemma next_token_char:
  assumes "jp_rest j = c # r" "single_char c"
  shows "\<exists>t. json_next_token env cfg tot j = LReturn (t, j\<lparr>jp_rest := r\<rparr>) \<and> tk_type t = ch2token c"
  using assms by (simp add: json_next_token_def Let_def peek_def token_of_def single_char_def)

text \<open>White space before a token is skipped.\<close>

definition blank :: "byte list \<Rightarrow> bool" where
  "blank sp \<longleftrightarrow> (\<forall>b \<in> set sp. b = 32)"

lemma next_token_blank:
  assumes "blank sp" "jp_rest j = sp @ s"
  shows "json_next_token env cfg tot j = json_next_token env cfg tot (j\<lparr>jp_rest := s\<rparr>)"
proof -
  have "ch2token 32 = T_WHITESPACE" by (simp add: ch2token_def ch_def)
  then have "dropWhile (\<lambda>b. ch2token b = T_WHITESPACE) (sp @ s) = dropWhile (\<lambda>b. ch2token b = T_WHITESPACE) s"
    using assms(1) by (induction sp) (auto simp: blank_def)
  then show ?thesis using assms(2) by (simp add: json_next_token_def Let_def)
qed

lemma single_chars [simp]:
  "single_char 44" "single_char 58" "single_char 91" "single_char 93" "single_char 123" "single_char 125"
  "ch2token 44 = T_COMMA" "ch2token 58 = T_COLON" "ch2token 91 = T_ARR_BEGIN" "ch2token 93 = T_ARR_END"
  "ch2token 123 = T_OBJ_BEGIN" "ch2token 125 = T_OBJ_END" "ch2token 0 = T_END"
  by (simp_all add: single_char_def ch2token_def ch_def)

lemma ch2token_rest:
  "ch2token 34 = T_UNKNOWN" "ch2token 116 = T_UNKNOWN" "ch2token 102 = T_UNKNOWN" "ch2token 110 = T_UNKNOWN"
  "ch2token 45 = T_UNKNOWN" "48 \<le> c \<and> c \<le> 57 \<Longrightarrow> ch2token c = T_UNKNOWN"
  by (auto simp: ch2token_def ch_def)

lemma next_token_body:
  assumes "jp_rest j = 34 # body @ 34 # r" "parse_ok tot j" "r \<noteq> []" and body: "string_body body s"
  shows "\<exists>t j'. json_next_token env cfg tot j = LReturn (t, j') \<and> tk_type t = T_STRING \<and> tk_string t = s \<and>
    parse_ok tot j' \<and> jp_rest j' = r \<and> jp_depth j' = jp_depth j"
proof -
  let ?tmp = "strbuf_reset (jp_tmp j)"
  have h: "holds_string ?tmp []" "sb_size ?tmp = sb_size (jp_tmp j)"
    using assms(2) holds_reset by (auto simp: parse_ok_def strbuf_reset_def)
  have "length s \<le> length body" using body by (simp add: string_body_def)
  then have fits: "int (length ([] :: byte list) + length s) < sb_size ?tmp" using assms(1,2) h(2) by (simp add: parse_ok_def)
  let ?u = "?tmp\<lparr>sb_buf := Some s\<rparr>"
  have u: "holds_string ?u s" using unsafe_holds [OF h(1), of s] fits by simp
  have rest: "tl (jp_rest j) = body @ 34 # r" "jp_rest j = 34 # tl (jp_rest j)"
    using assms(1) by simp_all
  have loop: "string_loop (tl (jp_rest j)) ?tmp = LReturn (Inl (r, ?u))"
    using body h(1) fits rest(1) unfolding string_body_def by fastforce
  have tok: "json_next_token env cfg tot j = json_next_string_token tot (token_of T_UNKNOWN (tot - length (jp_rest j))) j"
  proof -
    have "j\<lparr>jp_rest := 34 # tl (jp_rest j)\<rparr> = j" using rest(2) by simp
    moreover have "dropWhile (\<lambda>b. ch2token b = T_WHITESPACE) (jp_rest j) = jp_rest j"
      by (subst (1 2) rest(2)) (simp add: ch2token_rest)
    moreover have "peek 0 (jp_rest j) = LReturn 34" by (subst rest(2)) (simp add: peek_def)
    ultimately show ?thesis using rest(2) by (simp add: json_next_token_def Let_def token_of_def ch2token_rest)
  qed
  have "parse_ok tot (j\<lparr>jp_rest := r, jp_tmp := ?u\<rparr>)"
    using parse_ok_suffix [OF assms(2) _ assms(3), of "34 # body @ [34]"] assms(1) u h(2) by (auto simp: parse_ok_def)
  then show ?thesis using u by (simp add: tok json_next_string_token_def loop)
qed

lemma next_token_string:
  assumes "jp_rest j = json_quote s @ r" "parse_ok tot j" "r \<noteq> []"
  shows "\<exists>t j'. json_next_token env cfg tot j = LReturn (t, j') \<and> tk_type t = T_STRING \<and> tk_string t = s \<and>
    parse_ok tot j' \<and> jp_rest j' = r \<and> jp_depth j' = jp_depth j"
  using next_token_body [OF _ assms(2,3) string_body_quote, of s] assms(1) by (simp add: json_quote_def)

section \<open>Reading a value\<close>

text \<open>What may follow a value.\<close>

definition delim :: "byte list \<Rightarrow> bool" where
  "delim r \<longleftrightarrow> ends_nul r \<and> hd r \<in> {0, 32, 44, 93, 125}"

definition json_read :: "json_env \<Rightarrow> json_config \<Rightarrow> nat \<Rightarrow> nat \<Rightarrow> json_parse \<Rightarrow> (lua_val \<times> json_parse) lua_proc" where
  "json_read env cfg tot fuel j = lbind (json_next_token env cfg tot j) (\<lambda>(t, j). json_process_value env cfg tot fuel t j)"

text \<open>The text \<open>w\<close> is read as the value \<open>v\<close>, \<open>h\<close> levels deep.\<close>

definition reads :: "json_env \<Rightarrow> json_config \<Rightarrow> nat \<Rightarrow> nat \<Rightarrow> byte list \<Rightarrow> lua_val \<Rightarrow> bool" where
  "reads env cfg tot h w v \<longleftrightarrow> (\<forall>j r fuel. jp_rest j = w @ r \<longrightarrow> delim r \<longrightarrow> parse_ok tot j \<longrightarrow> 0 \<le> jp_depth j \<longrightarrow>
     jp_depth j + int h \<le> decode_max_depth cfg \<longrightarrow> 2 * length w + 1 \<le> fuel \<longrightarrow>
     (\<exists>j'. json_read env cfg tot fuel j = LReturn (v, j') \<and> parse_ok tot j' \<and> jp_rest j' = r \<and> jp_depth j' = jp_depth j))"

lemma reads_token:
  assumes "\<And>j r. jp_rest j = w @ r \<Longrightarrow> delim r \<Longrightarrow> parse_ok tot j \<Longrightarrow>
      \<exists>t j'. json_next_token env cfg tot j = LReturn (t, j') \<and> parse_ok tot j' \<and> jp_rest j' = r \<and> jp_depth j' = jp_depth j \<and>
        (\<forall>n. json_process_value env cfg tot (Suc n) t j' = LReturn (v, j'))"
  shows "reads env cfg tot h w v"
  unfolding reads_def
proof (intro allI impI)
  fix j r and fuel :: nat
  assume a: "jp_rest j = w @ r" "delim r" "parse_ok tot j" "2 * length w + 1 \<le> fuel"
  obtain t j' where t: "json_next_token env cfg tot j = LReturn (t, j')" "parse_ok tot j'" "jp_rest j' = r" "jp_depth j' = jp_depth j"
      "\<forall>n. json_process_value env cfg tot (Suc n) t j' = LReturn (v, j')"
    using assms [OF a(1-3)] by blast
  obtain n where "fuel = Suc n" using a(4) by (cases fuel) auto
  then show "\<exists>j'. json_read env cfg tot fuel j = LReturn (v, j') \<and> parse_ok tot j' \<and> jp_rest j' = r \<and> jp_depth j' = jp_depth j"
    using t by (simp add: json_read_def)
qed

lemma reads_body:
  assumes "string_body body s"
  shows "reads env cfg tot h (34 # body @ [34]) (LString s)"
proof (rule reads_token)
  fix j r assume "jp_rest j = (34 # body @ [34]) @ r" "delim r" "parse_ok tot j"
  moreover have "r \<noteq> []" using \<open>delim r\<close> by (auto simp: delim_def ends_nul_def)
  ultimately obtain t j' where "json_next_token env cfg tot j = LReturn (t, j')" "tk_type t = T_STRING" "tk_string t = s"
      "parse_ok tot j'" "jp_rest j' = r" "jp_depth j' = jp_depth j"
    using next_token_body [OF _ _ _ assms, of j r tot env cfg] by auto
  then show "\<exists>t j'. json_next_token env cfg tot j = LReturn (t, j') \<and> parse_ok tot j' \<and> jp_rest j' = r \<and> jp_depth j' = jp_depth j \<and>
      (\<forall>n. json_process_value env cfg tot (Suc n) t j' = LReturn (LString s, j'))" by auto
qed

lemma reads_string: "reads env cfg tot h (json_quote s) (LString s)"
  using reads_body [OF string_body_quote] by (simp add: json_quote_def)

lemma reads_raw_string:
  "\<forall>c \<in> set s. c \<notin> {0, 34, 92} \<Longrightarrow> reads env cfg tot h (34 # s @ [34]) (LString s)"
  by (rule reads_body [OF string_body_raw])

lemma reads_words:
  "reads env cfg tot h (bytes_of ''true'') (LBoolean True)"
  "reads env cfg tot h (bytes_of ''false'') (LBoolean False)"
  "reads env cfg tot h (bytes_of ''null'') json_null"
proof -
  have r: "r \<noteq> []" if "delim r" for r using that by (auto simp: delim_def ends_nul_def)
  show "reads env cfg tot h (bytes_of ''true'') (LBoolean True)"
    by (rule reads_token, frule r, frule (2) parse_ok_suffix)
      (simp add: json_next_token_def bytes_of_def ch2token_rest peek_def token_of_def starts_with_def Let_def)
  show "reads env cfg tot h (bytes_of ''false'') (LBoolean False)"
    by (rule reads_token, frule r, frule (2) parse_ok_suffix)
      (simp add: json_next_token_def bytes_of_def ch2token_rest peek_def token_of_def starts_with_def Let_def)
  show "reads env cfg tot h (bytes_of ''null'') json_null"
    by (rule reads_token, frule r, frule (2) parse_ok_suffix)
      (simp add: json_next_token_def bytes_of_def ch2token_rest peek_def token_of_def starts_with_def Let_def json_null_def)
qed

section \<open>Numbers\<close>

text \<open>
  What is relied on of \<open>snprintf\<close> and \<open>strtod\<close>: a finite number is printed as a JSON number, and
  \<open>strtod\<close> takes exactly that text when a comma, a bracket, a space or the end follows.
\<close>

definition plain_number :: "byte list \<Rightarrow> bool" where
  "plain_number w \<longleftrightarrow> (let ds = (if w \<noteq> [] \<and> hd w = 45 then tl w else w) in
     ds \<noteq> [] \<and> 48 \<le> hd ds \<and> hd ds \<le> 57 \<and> (hd ds = 48 \<and> tl ds \<noteq> [] \<longrightarrow> hd (tl ds) \<in> {46, 69, 101}))"

definition reread :: "json_env \<Rightarrow> json_config \<Rightarrow> u64 \<Rightarrow> u64" where
  "reread env cfg d = fst (je_strtod env (number_text env cfg d))"

definition number_ok :: "json_env \<Rightarrow> json_config \<Rightarrow> u64 \<Rightarrow> bool" where
  "number_ok env cfg d \<longleftrightarrow> finite_number env cfg d \<and> plain_number (number_text env cfg d) \<and> 0 \<notin> set (number_text env cfg d) \<and>
     (\<forall>r. r = [] \<or> hd r \<in> {32, 44, 93, 125} \<longrightarrow>
       je_strtod env (number_text env cfg d @ r) = (reread env cfg d, length (number_text env cfg d)))"

lemma plain_number_start:
  assumes "plain_number w"
  shows "w \<noteq> []" "hd w = 45 \<or> 48 \<le> hd w \<and> hd w \<le> 57"
  using assms by (auto simp: plain_number_def Let_def split: if_splits)

lemma plain_number_valid:
  assumes "plain_number w" "delim r"
  shows "json_is_invalid_number (w @ r) = LReturn False"
proof -
  define ds where "ds = (if w \<noteq> [] \<and> hd w = 45 then tl w else w)"
  have ds: "ds \<noteq> []" "48 \<le> hd ds" "hd ds \<le> 57" "hd ds = 48 \<and> tl ds \<noteq> [] \<longrightarrow> hd (tl ds) \<in> {46, 69, 101}"
    using assms(1) unfolding plain_number_def ds_def Let_def by blast+
  obtain c cs where w: "w = c # cs" using plain_number_start(1) [OF assms(1)] by (cases w) auto
  obtain d ds' where d: "ds = d # ds'" using ds(1) by (cases ds) auto
  obtain x xs where r: "r = x # xs" "x \<in> {0, 32, 44, 93, 125}" using assms(2) by (cases r) (auto simp: delim_def ends_nul_def)
  have body: "lbind (peek 0 (ds @ r)) (\<lambda>c. if c = 48 then
         lbind (peek 1 (ds @ r)) (\<lambda>ch2. LReturn (ch2 OR 0x20 = 120 \<or> (48 \<le> ch2 \<and> ch2 \<le> 57)))
       else if c \<le> 57 \<or> 128 \<le> c then LReturn False
       else LReturn (starts_with_nocase ''inf'' (ds @ r) \<or> starts_with_nocase ''nan'' (ds @ r))) = LReturn False"
  proof (cases "d = 48")
    case True
    obtain y ys where y: "ds' @ r = y # ys" by (cases ds') (auto simp: r)
    have "y \<in> {46, 69, 101, 0, 32, 44, 93, 125}" using y ds(4) True r by (cases ds') (auto simp: d)
    then have "\<not> (y OR 0x20 = 120 \<or> (48 \<le> y \<and> y \<le> 57))" by auto
    then show ?thesis using True y by (simp add: d peek_def)
  next
    case False
    then show ?thesis using ds(3) by (simp add: d peek_def)
  qed
  have p0: "peek 0 (c # cs @ r) = LReturn c" by (simp add: peek_def)
  show ?thesis
  proof (cases "c = 45")
    case True
    then have e: "ds = cs" by (simp add: ds_def w)
    then show ?thesis using body [unfolded e] True p0 by (simp add: json_is_invalid_number_def w Let_def)
  next
    case False
    then have e: "ds = w" by (simp add: ds_def w)
    have "c \<noteq> 43" using ds(2) e w by auto
    then show ?thesis using body [unfolded e w append_Cons] False p0 by (simp add: json_is_invalid_number_def w Let_def)
  qed
qed

lemma reads_plain_number:
  assumes n: "plain_number w" "0 \<notin> set w" "\<And>r. r = [] \<or> hd r \<in> {32, 44, 93, 125} \<Longrightarrow> je_strtod env (w @ r) = (d, length w)"
    and pt: "je_point env = ch CHR ''.''"
  shows "reads env cfg tot h w (LNumber d)"
proof (rule reads_token)
  fix j r assume j: "jp_rest j = w @ r" "delim r" "parse_ok tot j"
  obtain c cs where w: "w = c # cs" using plain_number_start(1) [OF n(1)] by (cases w) auto
  have c: "c = 45 \<or> 48 \<le> c \<and> c \<le> 57" using plain_number_start(2) [OF n(1)] w by simp
  have u: "ch2token c = T_UNKNOWN" "c \<noteq> 34" using c ch2token_rest(5,6) by auto
  have r: "r \<noteq> []" using j(2) by (auto simp: delim_def ends_nul_def)
  have "bcstr (w @ r) = w @ bcstr r" using n(2) by (auto simp: bcstr_def takeWhile_append)
  moreover have "bcstr r = [] \<or> hd (bcstr r) \<in> {32, 44, 93, 125}"
    using j(2) r by (cases r) (auto simp: delim_def bcstr_def)
  ultimately have s: "fpconv_strtod env (w @ r) = (d, length w)"
    using n(3) pt by (simp add: fpconv_strtod_def)
  let ?t = "token_of T_UNKNOWN (tot - length (jp_rest j))"
  have inv: "(if decode_invalid_numbers cfg = 0 then json_is_invalid_number (w @ r) else LReturn False) = LReturn False"
    using plain_number_valid [OF n(1) j(2)] by simp
  have jj: "j\<lparr>jp_rest := w @ r\<rparr> = j" using j(1) by simp
  have ws: "dropWhile (\<lambda>b. ch2token b = T_WHITESPACE) (w @ r) = w @ r" using u(1) by (simp add: w)
  have "peek 0 (w @ r) = LReturn c" by (simp add: w peek_def)
  then have "json_next_token env cfg tot j = LReturn (json_next_number_token env tot ?t j)"
    using u c inv by (simp add: json_next_token_def j(1) ws jj Let_def token_of_def)
  moreover have "json_next_number_token env tot ?t j = (?t\<lparr>tk_type := T_NUMBER, tk_number := d\<rparr>, j\<lparr>jp_rest := r\<rparr>)"
    using s w by (simp add: json_next_number_token_def j(1) Let_def)
  ultimately show "\<exists>t j'. json_next_token env cfg tot j = LReturn (t, j') \<and> parse_ok tot j' \<and> jp_rest j' = r \<and> jp_depth j' = jp_depth j \<and>
      (\<forall>n. json_process_value env cfg tot (Suc n) t j' = LReturn (LNumber (d), j'))"
    using parse_ok_suffix [OF j(3,1) r] by simp
qed

lemma reads_number:
  assumes "number_ok env cfg d" "je_point env = ch CHR ''.''"
  shows "reads env cfg tot h (number_text env cfg d) (LNumber (reread env cfg d))"
  by (rule reads_plain_number) (use assms in \<open>auto simp: number_ok_def\<close>)

section \<open>Arrays\<close>

lemma commas_Cons: "ws \<noteq> [] \<Longrightarrow> commas (w # ws) = w @ 44 # commas ws"
  by (cases ws) simp_all

fun put_all :: "lua_table \<Rightarrow> nat \<Rightarrow> lua_val list \<Rightarrow> lua_table" where
  "put_all t i [] = t"
| "put_all t i (v # vs) = put_all (table_put t (array_index i) v) (i + 1) vs"

lemma array_context_step:
  "lbind (json_next_token env cfg tot j) (\<lambda>(t, j). json_parse_array_context env cfg tot (Suc fuel) i tbl t j) =
   lbind (json_read env cfg tot fuel j) (\<lambda>(v, j).
     lbind (json_next_token env cfg tot j) (\<lambda>(token, json).
     if tk_type token = T_ARR_END then LReturn (LTable (table_put tbl (array_index i) v), json_decode_ascend json)
     else if tk_type token \<noteq> T_COMMA then json_throw_parse_error ''comma or array end'' token
     else lbind (json_next_token env cfg tot json) (\<lambda>(token, json).
       json_parse_array_context env cfg tot fuel (i + 1) (table_put tbl (array_index i) v) token json)))"
  by (cases "json_next_token env cfg tot j") (auto simp: json_read_def lbind_assoc Let_def)

lemma readsD:
  assumes "reads env cfg tot h w v" "jp_rest j = w @ r" "delim r" "parse_ok tot j" "0 \<le> jp_depth j"
    "jp_depth j + int h \<le> decode_max_depth cfg" "2 * length w + 1 \<le> fuel"
  obtains j' where "json_read env cfg tot fuel j = LReturn (v, j')" "parse_ok tot j'" "jp_rest j' = r" "jp_depth j' = jp_depth j"
  using assms unfolding reads_def by blast

lemma delim_punct: "ends_nul (c # r) \<Longrightarrow> c \<in> {0, 32, 44, 93, 125} \<Longrightarrow> delim (c # r)"
  by (simp add: delim_def)

lemma array_context_reads:
  assumes "wvs \<noteq> []" "\<forall>(w, v) \<in> set wvs. reads env cfg tot h w v"
    and "jp_rest j = commas (map fst wvs) @ 93 # r" "parse_ok tot j" "0 \<le> jp_depth j"
    and "jp_depth j + int h \<le> decode_max_depth cfg" "2 * length (commas (map fst wvs)) + 2 \<le> fuel" "r \<noteq> []"
  shows "\<exists>j'. lbind (json_next_token env cfg tot j) (\<lambda>(t, j). json_parse_array_context env cfg tot fuel i tbl t j) =
      LReturn (LTable (put_all tbl i (map snd wvs)), j') \<and> parse_ok tot j' \<and> jp_rest j' = r \<and> jp_depth j' = jp_depth j - 1"
  using assms
proof (induction wvs arbitrary: j fuel i tbl)
  case (Cons wv wvs)
  obtain w v where wv: "wv = (w, v)" by (cases wv)
  obtain n where n: "fuel = Suc n" using Cons.prems(7) by (cases fuel) auto
  have e: "ends_nul (jp_rest j)" using Cons.prems(4) by (simp add: parse_ok_def)
  show ?case
  proof (cases "wvs = []")
    case True
    then have j: "jp_rest j = w @ 93 # r" "2 * length w + 1 \<le> n" using Cons.prems(3,7) n by (simp_all add: wv)
    have d: "delim (93 # r)" using e ends_nul_append [of w "93 # r"] j(1) by (intro delim_punct) simp_all
    obtain j1 where j1: "json_read env cfg tot n j = LReturn (v, j1)" "parse_ok tot j1" "jp_rest j1 = 93 # r" "jp_depth j1 = jp_depth j"
      using readsD [OF _ j(1) d Cons.prems(4,5,6) j(2)] Cons.prems(2) by (auto simp: wv)
    obtain t where "json_next_token env cfg tot j1 = LReturn (t, j1\<lparr>jp_rest := r\<rparr>)" "tk_type t = T_ARR_END"
      using next_token_char [OF j1(3), of env cfg tot] by auto
    moreover have "parse_ok tot (json_decode_ascend (j1\<lparr>jp_rest := r\<rparr>))"
      using parse_ok_suffix [OF j1(2), of "[93]" r] j1(3) Cons.prems(8) ascend_ok by simp
    ultimately show ?thesis
      unfolding n array_context_step using True j1 by (simp add: wv json_decode_ascend_def)
  next
    case False
    let ?ws = "commas (map fst wvs)"
    have j: "jp_rest j = w @ 44 # ?ws @ 93 # r" "2 * length w + 1 \<le> n" "2 * length ?ws + 2 \<le> n"
      using Cons.prems(3,7) False n by (simp_all add: wv commas_Cons del: commas.simps)
    have d: "delim (44 # ?ws @ 93 # r)" using e ends_nul_append [of w "44 # ?ws @ 93 # r"] j(1) by (intro delim_punct) simp_all
    obtain j1 where j1: "json_read env cfg tot n j = LReturn (v, j1)" "parse_ok tot j1" "jp_rest j1 = 44 # ?ws @ 93 # r"
        "jp_depth j1 = jp_depth j"
      using readsD [OF _ j(1) d Cons.prems(4,5,6) j(2)] Cons.prems(2) by (auto simp: wv)
    let ?j2 = "j1\<lparr>jp_rest := ?ws @ 93 # r\<rparr>"
    obtain t where t: "json_next_token env cfg tot j1 = LReturn (t, ?j2)" "tk_type t = T_COMMA"
      using next_token_char [OF j1(3), of env cfg tot] by auto
    have p: "parse_ok tot ?j2" using parse_ok_suffix [OF j1(2), of "[44]" "?ws @ 93 # r"] j1(3) by simp
    obtain j' where "lbind (json_next_token env cfg tot ?j2) (\<lambda>(t, j). json_parse_array_context env cfg tot n (i + 1)
          (table_put tbl (array_index i) v) t j) =
        LReturn (LTable (put_all (table_put tbl (array_index i) v) (i + 1) (map snd wvs)), j')"
        "parse_ok tot j'" "jp_rest j' = r" "jp_depth j' = jp_depth j - 1"
      using Cons.IH [OF False _ _ p, of n "i + 1" "table_put tbl (array_index i) v"] Cons.prems j(3) j1(4) by auto
    then show ?thesis
      unfolding n array_context_step using j1(1) t by (simp add: wv)
  qed
qed simp

section \<open>Objects\<close>

definition entry_text :: "byte list \<times> byte list \<times> lua_val \<Rightarrow> byte list" where
  "entry_text e = (case e of (k, w, v) \<Rightarrow> json_quote k @ [58] @ w)"

fun put_entries :: "lua_table \<Rightarrow> (byte list \<times> byte list \<times> lua_val) list \<Rightarrow> lua_table" where
  "put_entries t [] = t"
| "put_entries t ((k, w, v) # es) = put_entries (table_put t (LString k) v) es"

text \<open>A key, its colon and its value are read.\<close>

lemma object_entry_step:
  assumes "jp_rest j = json_quote k @ 58 # w @ r" "reads env cfg tot h w v" "delim r" "parse_ok tot j" "0 \<le> jp_depth j"
    "jp_depth j + int h \<le> decode_max_depth cfg" "2 * length w + 1 \<le> fuel"
  obtains j' where "parse_ok tot j'" "jp_rest j' = r" "jp_depth j' = jp_depth j"
    "lbind (json_next_token env cfg tot j) (\<lambda>(t, j). json_parse_object_context env cfg tot (Suc fuel) tbl t j) =
     lbind (json_next_token env cfg tot j') (\<lambda>(token, json).
       if tk_type token = T_OBJ_END then LReturn (LTable (table_put tbl (LString k) v), json_decode_ascend json)
       else if tk_type token \<noteq> T_COMMA then json_throw_parse_error ''comma or object end'' token
       else lbind (json_next_token env cfg tot json) (\<lambda>(token, json).
         json_parse_object_context env cfg tot fuel (table_put tbl (LString k) v) token json))"
proof -
  have r: "r \<noteq> []" using assms(3) by (auto simp: delim_def ends_nul_def)
  obtain t1 j1 where k: "json_next_token env cfg tot j = LReturn (t1, j1)" "tk_type t1 = T_STRING" "tk_string t1 = k"
      "parse_ok tot j1" "jp_rest j1 = 58 # w @ r" "jp_depth j1 = jp_depth j"
    using next_token_string [OF assms(1,4)] by blast
  let ?j2 = "j1\<lparr>jp_rest := w @ r\<rparr>"
  obtain t2 where c: "json_next_token env cfg tot j1 = LReturn (t2, ?j2)" "tk_type t2 = T_COLON"
    using next_token_char [OF k(5), of env cfg tot] by auto
  have p: "parse_ok tot ?j2" using parse_ok_suffix [OF k(4), of "[58]" "w @ r"] k(5) r by simp
  obtain j' where v: "json_read env cfg tot fuel ?j2 = LReturn (v, j')" "parse_ok tot j'" "jp_rest j' = r" "jp_depth j' = jp_depth j"
    using readsD [OF assms(2) _ assms(3) p _ _ assms(7)] assms(5,6) k(6) by auto
  obtain t3 j3 where s: "json_next_token env cfg tot ?j2 = LReturn (t3, j3)" "json_process_value env cfg tot fuel t3 j3 = LReturn (v, j')"
    using v(1) by (auto simp: json_read_def lbind_LReturn)
  show thesis
    by (rule that [OF v(2-4)]) (simp add: k(1-3) c s Let_def)
qed

definition spaced_entry :: "byte list \<times> byte list \<times> byte list \<times> lua_val \<Rightarrow> byte list" where
  "spaced_entry e = fst e @ entry_text (snd e)"

text \<open>The entries of an object, each with white space before it, and white space before the end.\<close>

lemma object_context_reads:
  assumes "es \<noteq> []" "\<forall>(sp, k, w, v) \<in> set es. blank sp \<and> reads env cfg tot h w v" "blank esp"
    and "jp_rest j = commas (map spaced_entry es) @ esp @ 125 # r" "parse_ok tot j" "0 \<le> jp_depth j"
    and "jp_depth j + int h \<le> decode_max_depth cfg" "2 * length (commas (map spaced_entry es)) + 2 \<le> fuel" "r \<noteq> []"
  shows "\<exists>j'. lbind (json_next_token env cfg tot j) (\<lambda>(t, j). json_parse_object_context env cfg tot fuel tbl t j) =
      LReturn (LTable (put_entries tbl (map snd es)), j') \<and> parse_ok tot j' \<and> jp_rest j' = r \<and> jp_depth j' = jp_depth j - 1"
  using assms
proof (induction es arbitrary: j fuel tbl)
  case (Cons e es)
  obtain sp k w v where kwv: "e = (sp, k, w, v)" by (cases e)
  obtain n where n: "fuel = Suc n" using Cons.prems(8) by (cases fuel) auto
  have e: "ends_nul (jp_rest j)" using Cons.prems(5) by (simp add: parse_ok_def)
  have et: "spaced_entry e = sp @ json_quote k @ 58 # w" by (simp add: spaced_entry_def entry_text_def kwv)
  have w: "blank sp" "reads env cfg tot h w v" using Cons.prems(2) by (auto simp: kwv)
  show ?case
  proof (cases "es = []")
    case True
    let ?s = "json_quote k @ 58 # w @ esp @ 125 # r" let ?j = "j\<lparr>jp_rest := ?s\<rparr>"
    have j: "jp_rest j = sp @ ?s" "2 * length w + 1 \<le> n" using True Cons.prems(4,8) n by (simp_all add: et)
    have p: "parse_ok tot ?j" by (rule parse_ok_suffix [OF Cons.prems(5) j(1)]) simp
    have d: "delim (esp @ 125 # r)"
      using e ends_nul_append [of "sp @ json_quote k @ 58 # w" "esp @ 125 # r"] j(1) Cons.prems(3)
      by (cases esp) (auto simp: delim_def blank_def)
    obtain j1 where j1: "parse_ok tot j1" "jp_rest j1 = esp @ 125 # r" "jp_depth j1 = jp_depth j"
      and run: "lbind (json_next_token env cfg tot ?j) (\<lambda>(t, j). json_parse_object_context env cfg tot (Suc n) tbl t j) =
        lbind (json_next_token env cfg tot j1) (\<lambda>(token, json).
        if tk_type token = T_OBJ_END then LReturn (LTable (table_put tbl (LString k) v), json_decode_ascend json)
        else if tk_type token \<noteq> T_COMMA then json_throw_parse_error ''comma or object end'' token
        else lbind (json_next_token env cfg tot json) (\<lambda>(token, json).
          json_parse_object_context env cfg tot n (table_put tbl (LString k) v) token json))"
      using object_entry_step [OF _ w(2) d p _ _ j(2), of k tbl] Cons.prems(6,7) by auto
    obtain t where "json_next_token env cfg tot j1 = LReturn (t, j1\<lparr>jp_rest := r\<rparr>)" "tk_type t = T_OBJ_END"
      using next_token_char [of "j1\<lparr>jp_rest := 125 # r\<rparr>" 125 r env cfg tot] next_token_blank [OF Cons.prems(3) j1(2), of env cfg tot] by auto
    moreover have "parse_ok tot (json_decode_ascend (j1\<lparr>jp_rest := r\<rparr>))"
      using parse_ok_suffix [OF j1(1), of "esp @ [125]" r] j1(2) Cons.prems(9) ascend_ok by simp
    ultimately show ?thesis
      unfolding n next_token_blank [OF w(1) j(1)] run using True j1(3) by (simp add: kwv json_decode_ascend_def)
  next
    case False
    let ?ws = "commas (map spaced_entry es)"
    let ?s = "json_quote k @ 58 # w @ 44 # ?ws @ esp @ 125 # r" let ?j = "j\<lparr>jp_rest := ?s\<rparr>"
    have j: "jp_rest j = sp @ ?s" "2 * length w + 1 \<le> n" "2 * length ?ws + 2 \<le> n"
      using Cons.prems(4,8) False n by (simp_all add: et commas_Cons del: commas.simps)
    have p: "parse_ok tot ?j" by (rule parse_ok_suffix [OF Cons.prems(5) j(1)]) simp
    have d: "delim (44 # ?ws @ esp @ 125 # r)"
      using e ends_nul_append [of "sp @ json_quote k @ 58 # w" "44 # ?ws @ esp @ 125 # r"] j(1) by (intro delim_punct) simp_all
    obtain j1 where j1: "parse_ok tot j1" "jp_rest j1 = 44 # ?ws @ esp @ 125 # r" "jp_depth j1 = jp_depth j"
      and run: "lbind (json_next_token env cfg tot ?j) (\<lambda>(t, j). json_parse_object_context env cfg tot (Suc n) tbl t j) =
        lbind (json_next_token env cfg tot j1) (\<lambda>(token, json).
        if tk_type token = T_OBJ_END then LReturn (LTable (table_put tbl (LString k) v), json_decode_ascend json)
        else if tk_type token \<noteq> T_COMMA then json_throw_parse_error ''comma or object end'' token
        else lbind (json_next_token env cfg tot json) (\<lambda>(token, json).
          json_parse_object_context env cfg tot n (table_put tbl (LString k) v) token json))"
      using object_entry_step [OF _ w(2) d p _ _ j(2), of k tbl] Cons.prems(6,7) by auto
    let ?j2 = "j1\<lparr>jp_rest := ?ws @ esp @ 125 # r\<rparr>"
    obtain t where t: "json_next_token env cfg tot j1 = LReturn (t, ?j2)" "tk_type t = T_COMMA"
      using next_token_char [OF j1(2), of env cfg tot] by auto
    have p2: "parse_ok tot ?j2" using parse_ok_suffix [OF j1(1), of "[44]" "?ws @ esp @ 125 # r"] j1(2) by simp
    obtain j' where "lbind (json_next_token env cfg tot ?j2) (\<lambda>(t, j). json_parse_object_context env cfg tot n
          (table_put tbl (LString k) v) t j) = LReturn (LTable (put_entries (table_put tbl (LString k) v) (map snd es)), j')"
        "parse_ok tot j'" "jp_rest j' = r" "jp_depth j' = jp_depth j - 1"
      using Cons.IH [OF False _ Cons.prems(3) _ p2, of n "table_put tbl (LString k) v"] Cons.prems j(3) j1(3) by auto
    then show ?thesis
      unfolding n next_token_blank [OF w(1) j(1)] run using t by (simp add: kwv)
  qed
qed simp

section \<open>The tables that come out\<close>

lemma table_put_new: "(\<And>k' v'. (k', v') \<in> set t \<Longrightarrow> \<not> lua_rawequal k' k) \<Longrightarrow> table_put t k v = t @ [(k, v)]"
proof (induction t)
  case (Cons p t)
  obtain k' v' where p: "p = (k', v')" by (cases p)
  have "table_put t k v = t @ [(k, v)]" by (rule Cons.IH) (use Cons.prems in auto)
  then show ?case using Cons.prems [of k' v'] by (simp add: p)
qed simp

lemma put_all_zip:
  "1 \<le> i \<Longrightarrow> i + length vs < 2 ^ 53 \<Longrightarrow> set (map fst t) \<subseteq> array_index ` {1..<i} \<Longrightarrow>
    put_all t i vs = t @ zip (map array_index [i..<i + length vs]) vs"
proof (induction vs arbitrary: t i)
  case (Cons v vs)
  have "table_put t (array_index i) v = t @ [(array_index i, v)]"
  proof (rule table_put_new)
    fix k v' assume "(k, v') \<in> set t"
    then obtain j where "k = array_index j" "1 \<le> j" "j < i" using Cons.prems(3) by force
    then show "\<not> lua_rawequal k (array_index i)" using array_index_eq [of j i] Cons.prems(1,2) by simp
  qed
  moreover have "set (map fst (t @ [(array_index i, v)])) \<subseteq> array_index ` {1..<i + 1}"
    using Cons.prems(1,3) by (auto simp: atLeastLessThanSuc)
  ultimately show ?case
    using Cons.IH [of "i + 1" "t @ [(array_index i, v)]"] Cons.prems(2) by (simp add: upt_conv_Cons del: upt_Suc)
qed simp

lemma put_entries_map:
  "distinct (map fst es) \<Longrightarrow> set (map fst t) \<inter> LString ` set (map fst es) = {} \<Longrightarrow>
    \<forall>(k, v) \<in> set t. \<exists>s. k = LString s \<Longrightarrow>
    put_entries t es = t @ map (\<lambda>(k, w, v). (LString k, v)) es"
proof (induction es arbitrary: t)
  case (Cons e es)
  obtain k w v where e: "e = (k, w, v)" by (cases e)
  have "table_put t (LString k) v = t @ [(LString k, v)]"
  proof (rule table_put_new)
    fix k' v' assume a: "(k', v') \<in> set t"
    then obtain s where s: "k' = LString s" using Cons.prems(3) by auto
    have "k' \<in> set (map fst t)" using a by force
    then show "\<not> lua_rawequal k' (LString k)" using Cons.prems(2) s by (auto simp: e)
  qed
  moreover have "put_entries (t @ [(LString k, v)]) es = (t @ [(LString k, v)]) @ map (\<lambda>(k, w, v). (LString k, v)) es"
    by (rule Cons.IH) (use Cons.prems in \<open>auto simp: e\<close>)
  ultimately show ?case by (simp add: e)
qed simp

section \<open>Containers\<close>

lemma reads_mono: "reads env cfg tot h w v \<Longrightarrow> h \<le> h' \<Longrightarrow> reads env cfg tot h' w v"
  unfolding reads_def by fastforce

definition dec_ok :: "json_env \<Rightarrow> json_config \<Rightarrow> bool" where
  "dec_ok env cfg \<longleftrightarrow> (\<forall>n. 0 \<le> n \<longrightarrow> n \<le> decode_max_depth cfg \<longrightarrow> je_stack env n)"

lemma array_context_first:
  "json_parse_array_context env cfg tot n i tbl t j = LReturn x \<Longrightarrow> tk_type t \<noteq> T_ARR_END"
proof (cases n)
  case (Suc m)
  assume "json_parse_array_context env cfg tot n i tbl t j = LReturn x"
  then show ?thesis using Suc by (cases m) (auto simp: json_throw_parse_error_def)
qed simp

lemma object_context_first:
  "json_parse_object_context env cfg tot n tbl t j = LReturn x \<Longrightarrow> tk_type t \<noteq> T_OBJ_END"
  by (cases n) (auto simp: json_throw_parse_error_def)

lemma reads_array:
  assumes "dec_ok env cfg" "wvs \<noteq> []" "\<forall>(w, v) \<in> set wvs. reads env cfg tot h w v"
  shows "reads env cfg tot (Suc h) ([91] @ commas (map fst wvs) @ [93]) (LTable (put_all [] 1 (map snd wvs)))"
  unfolding reads_def
proof (intro allI impI)
  fix j r fuel
  assume a: "jp_rest j = ([91] @ commas (map fst wvs) @ [93]) @ r" "delim r" "parse_ok tot j" "0 \<le> jp_depth j"
    "jp_depth j + int (Suc h) \<le> decode_max_depth cfg" "2 * length ([91] @ commas (map fst wvs) @ [93]) + 1 \<le> fuel"
  have r: "r \<noteq> []" using a(2) by (auto simp: delim_def ends_nul_def)
  obtain n where n: "fuel = Suc n" "2 * length (commas (map fst wvs)) + 2 \<le> n" using a(6) by (cases fuel) auto
  let ?j1 = "j\<lparr>jp_rest := commas (map fst wvs) @ 93 # r\<rparr>" let ?j2 = "?j1\<lparr>jp_depth := jp_depth j + 1\<rparr>"
  obtain t where t: "json_next_token env cfg tot j = LReturn (t, ?j1)" "tk_type t = T_ARR_BEGIN"
    using next_token_char [of j 91 "commas (map fst wvs) @ 93 # r" env cfg tot] a(1) by auto
  have d: "json_decode_descend env cfg tot ?j1 = LReturn ?j2"
    using assms(1) a(4,5) by (simp add: json_decode_descend_def dec_ok_def Let_def)
  have p: "parse_ok tot ?j2" using parse_ok_suffix [OF a(3), of "[91]" "commas (map fst wvs) @ 93 # r"] a(1) by (simp add: parse_ok_def)
  obtain j' where j': "lbind (json_next_token env cfg tot ?j2) (\<lambda>(t, j). json_parse_array_context env cfg tot n 1 [] t j) =
      LReturn (LTable (put_all [] 1 (map snd wvs)), j')" "parse_ok tot j'" "jp_rest j' = r" "jp_depth j' = jp_depth j"
    using array_context_reads [OF assms(2,3) _ p _ _ n(2) r, where i = 1 and tbl = "[]"] a(4,5) by auto
  then obtain t2 j2 where "json_next_token env cfg tot ?j2 = LReturn (t2, j2)"
      "json_parse_array_context env cfg tot n 1 [] t2 j2 = LReturn (LTable (put_all [] 1 (map snd wvs)), j')"
    by (auto simp: lbind_LReturn)
  then have "json_read env cfg tot fuel j = LReturn (LTable (put_all [] 1 (map snd wvs)), j')"
    using array_context_first by (auto simp: json_read_def t n(1) d)
  then show "\<exists>j'. json_read env cfg tot fuel j = LReturn (LTable (put_all [] 1 (map snd wvs)), j') \<and> parse_ok tot j' \<and>
      jp_rest j' = r \<and> jp_depth j' = jp_depth j"
    using j' by blast
qed

text \<open>An object, with white space before its entries and before its end.\<close>

lemma reads_spaced_object:
  assumes "dec_ok env cfg" "es \<noteq> []" "\<forall>(sp, k, w, v) \<in> set es. blank sp \<and> reads env cfg tot h w v" "blank esp"
  shows "reads env cfg tot (Suc h) ([123] @ commas (map spaced_entry es) @ esp @ [125]) (LTable (put_entries [] (map snd es)))"
  unfolding reads_def
proof (intro allI impI)
  fix j r fuel
  assume a: "jp_rest j = ([123] @ commas (map spaced_entry es) @ esp @ [125]) @ r" "delim r" "parse_ok tot j" "0 \<le> jp_depth j"
    "jp_depth j + int (Suc h) \<le> decode_max_depth cfg" "2 * length ([123] @ commas (map spaced_entry es) @ esp @ [125]) + 1 \<le> fuel"
  have r: "r \<noteq> []" using a(2) by (auto simp: delim_def ends_nul_def)
  obtain n where n: "fuel = Suc n" "2 * length (commas (map spaced_entry es)) + 2 \<le> n" using a(6) by (cases fuel) auto
  let ?j1 = "j\<lparr>jp_rest := commas (map spaced_entry es) @ esp @ 125 # r\<rparr>" let ?j2 = "?j1\<lparr>jp_depth := jp_depth j + 1\<rparr>"
  obtain t where t: "json_next_token env cfg tot j = LReturn (t, ?j1)" "tk_type t = T_OBJ_BEGIN"
    using next_token_char [of j 123 "commas (map spaced_entry es) @ esp @ 125 # r" env cfg tot] a(1) by auto
  have d: "json_decode_descend env cfg tot ?j1 = LReturn ?j2"
    using assms(1) a(4,5) by (simp add: json_decode_descend_def dec_ok_def Let_def)
  have p: "parse_ok tot ?j2" using parse_ok_suffix [OF a(3), of "[123]" "commas (map spaced_entry es) @ esp @ 125 # r"] a(1) by (simp add: parse_ok_def)
  obtain j' where j': "lbind (json_next_token env cfg tot ?j2) (\<lambda>(t, j). json_parse_object_context env cfg tot n [] t j) =
      LReturn (LTable (put_entries [] (map snd es)), j')" "parse_ok tot j'" "jp_rest j' = r" "jp_depth j' = jp_depth j"
    using object_context_reads [OF assms(2,3,4) _ p _ _ n(2) r, where tbl = "[]"] a(4,5) by auto
  then obtain t2 j2 where "json_next_token env cfg tot ?j2 = LReturn (t2, j2)"
      "json_parse_object_context env cfg tot n [] t2 j2 = LReturn (LTable (put_entries [] (map snd es)), j')"
    by (auto simp: lbind_LReturn)
  then have "json_read env cfg tot fuel j = LReturn (LTable (put_entries [] (map snd es)), j')"
    using object_context_first by (auto simp: json_read_def t n(1) d)
  then show "\<exists>j'. json_read env cfg tot fuel j = LReturn (LTable (put_entries [] (map snd es)), j') \<and> parse_ok tot j' \<and>
      jp_rest j' = r \<and> jp_depth j' = jp_depth j"
    using j' by blast
qed

lemma reads_empty_object:
  assumes "dec_ok env cfg"
  shows "reads env cfg tot (Suc h) [123, 125] (LTable [])"
  unfolding reads_def
proof (intro allI impI)
  fix j r fuel
  assume a: "jp_rest j = [123, 125] @ r" "delim r" "parse_ok tot j" "0 \<le> jp_depth j"
    "jp_depth j + int (Suc h) \<le> decode_max_depth cfg" "2 * length [123 :: byte, 125] + 1 \<le> fuel"
  have r: "r \<noteq> []" using a(2) by (auto simp: delim_def ends_nul_def)
  obtain n where n: "fuel = Suc n" using a(6) by (cases fuel) auto
  let ?j1 = "j\<lparr>jp_rest := 125 # r\<rparr>" let ?j2 = "?j1\<lparr>jp_depth := jp_depth j + 1\<rparr>"
  obtain t where t: "json_next_token env cfg tot j = LReturn (t, ?j1)" "tk_type t = T_OBJ_BEGIN"
    using next_token_char [of j 123 "125 # r" env cfg tot] a(1) by auto
  have d: "json_decode_descend env cfg tot ?j1 = LReturn ?j2"
    using assms(1) a(4,5) by (simp add: json_decode_descend_def dec_ok_def Let_def)
  have p: "parse_ok tot ?j2" using parse_ok_suffix [OF a(3), of "[123]" "125 # r"] a(1) by (simp add: parse_ok_def)
  obtain t2 where t2: "json_next_token env cfg tot ?j2 = LReturn (t2, ?j2\<lparr>jp_rest := r\<rparr>)" "tk_type t2 = T_OBJ_END"
    using next_token_char [of ?j2 125 r env cfg tot] by auto
  have "parse_ok tot (json_decode_ascend (?j2\<lparr>jp_rest := r\<rparr>))"
    using parse_ok_suffix [OF p, of "[125]" r] r ascend_ok by simp
  then show "\<exists>j'. json_read env cfg tot fuel j = LReturn (LTable [], j') \<and> parse_ok tot j' \<and> jp_rest j' = r \<and> jp_depth j' = jp_depth j"
    using t2 d by (simp add: json_read_def t n json_decode_ascend_def)
qed

lemma reads_object:
  assumes "dec_ok env cfg" "\<forall>(k, w, v) \<in> set es. reads env cfg tot h w v"
  shows "reads env cfg tot (Suc h) ([123] @ commas (map entry_text es) @ [125]) (LTable (put_entries [] es))"
proof (cases "es = []")
  case True
  then show ?thesis using reads_empty_object [OF assms(1)] by simp
next
  case False
  then show ?thesis
    using reads_spaced_object [OF assms(1), of "map (Pair []) es" tot h "[]"] assms(2)
    by (auto simp: blank_def spaced_entry_def comp_def)
qed

text \<open>White space before a value.\<close>

lemma reads_blank:
  assumes "reads env cfg tot h w v" "blank sp"
  shows "reads env cfg tot h (sp @ w) v"
  unfolding reads_def
proof (intro allI impI)
  fix j r fuel
  assume a: "jp_rest j = (sp @ w) @ r" "delim r" "parse_ok tot j" "0 \<le> jp_depth j"
    "jp_depth j + int h \<le> decode_max_depth cfg" "2 * length (sp @ w) + 1 \<le> fuel"
  let ?j = "j\<lparr>jp_rest := w @ r\<rparr>"
  have j: "jp_rest j = sp @ w @ r" using a(1) by simp
  have "r \<noteq> []" using a(2) by (auto simp: delim_def ends_nul_def)
  then have "parse_ok tot ?j" by (intro parse_ok_suffix [OF a(3) j]) simp
  moreover have "json_read env cfg tot fuel j = json_read env cfg tot fuel ?j"
    by (simp add: json_read_def next_token_blank [OF assms(2) j])
  ultimately show "\<exists>j'. json_read env cfg tot fuel j = LReturn (v, j') \<and> parse_ok tot j' \<and> jp_rest j' = r \<and> jp_depth j' = jp_depth j"
    using assms(1) a(2,4-6) unfolding reads_def by (elim allE [of _ ?j] allE [of _ r] allE [of _ fuel]) simp
qed

section \<open>The text of a value is read as its image\<close>

lemma json_reads:
  assumes "dec_ok env cfg" "je_point env = ch CHR ''.''" "lim \<le> INT_MAX"
  shows "json_plain lim (number_ok env cfg) v \<Longrightarrow>
    reads env cfg tot (json_height v) (json_text (number_text env cfg) v) (json_image (reread env cfg) v)"
proof (induction "number_text env cfg" v rule: json_text.induct)
  case (1 v)
  let ?x = "json_text (number_text env cfg)" let ?i = "json_image (reread env cfg)"
  show ?case
  proof (cases v)
    case LNil
    then show ?thesis using reads_words(3) by (simp add: json_text.simps json_image.simps)
  next
    case (LBoolean b)
    then show ?thesis using reads_words(1,2) by (cases b) (simp_all add: json_text.simps json_image.simps)
  next
    case (LNumber d)
    then show ?thesis using reads_number [OF _ assms(2)] 1(3) by (simp add: json_text.simps json_image.simps json_plain.simps)
  next
    case (LString s)
    then show ?thesis using reads_string by (simp add: json_text.simps json_image.simps)
  next
    case (LOpaque n)
    then show ?thesis using reads_words(3) by (simp add: json_text.simps json_image.simps)
  next
    case (LTable t)
    show ?thesis
    proof (cases "is_seq t")
      case True
      let ?h = "foldr (\<lambda>x. max (json_height x)) (elements t) 0"
      let ?es = "map (\<lambda>x. (?x x, ?i x)) (elements t)"
      have pl: "int (length t) \<le> INT_MAX" "\<forall>x \<in> set (elements t). json_plain lim (number_ok env cfg) x"
        using 1(3) True assms(3) by (auto simp: LTable json_plain.simps [of _ _ "LTable t"] list_all_iff)
      have el: "\<forall>(w, v) \<in> set ?es. reads env cfg tot ?h w v"
      proof -
        have "reads env cfg tot ?h (?x x) (?i x)" if "x \<in> set (elements t)" for x
          using reads_mono [OF 1(1) [OF LTable True that] height_element [OF that]] pl(2) that by blast
        then show ?thesis by auto
      qed
      have "length ?es = length t" by (simp add: elements_def del: upt_Suc)
      moreover have "t \<noteq> []" using True by (simp only: is_seq_def simp_thms)
      ultimately have "?es \<noteq> []" by (metis length_0_conv)
      then have "reads env cfg tot (Suc ?h) ([91] @ commas (map fst ?es) @ [93]) (LTable (put_all [] 1 (map snd ?es)))"
        by (rule reads_array [OF assms(1) _ el])
      moreover have "put_all [] 1 (map snd ?es) = zip (map array_index [1..<1 + length t]) (map ?i (elements t))"
        using put_all_zip [of 1 "map ?i (elements t)" "[]"] pl(1) by (simp add: INT_MAX_def elements_def comp_def del: upt_Suc)
      ultimately show ?thesis
        using True by (simp add: LTable json_text.simps [of _ "LTable t"] json_image.simps [of _ "LTable t"]
            json_height.simps [of "LTable t"] comp_def del: upt_Suc)
    next
      case False
      let ?h = "foldr (\<lambda>(k, x). max (json_height x)) t 0"
      let ?es = "map (\<lambda>(k, x). (key_bytes k, ?x x, ?i x)) t"
      have pl: "distinct (map fst t)" "list_all (\<lambda>(k, x). (case k of LString s \<Rightarrow> True | _ \<Rightarrow> False) \<and> json_plain lim (number_ok env cfg) x) t"
        using 1(3) False by (auto simp: LTable json_plain.simps [of _ _ "LTable t"])
      have ks: "(\<exists>s. k = LString s) \<and> json_plain lim (number_ok env cfg) x" if "(k, x) \<in> set t" for k x
        using pl(2) that by (cases k) (auto simp: list_all_iff)
      have el: "\<forall>(k, w, v) \<in> set ?es. reads env cfg tot ?h w v"
      proof -
        have "reads env cfg tot ?h (?x x) (?i x)" if "(k, x) \<in> set t" for k x
          using reads_mono [OF 1(2) [OF LTable False that refl] height_entry [OF that]] ks [OF that] by blast
        then show ?thesis by auto
      qed
      have "reads env cfg tot (Suc ?h) ([123] @ commas (map entry_text ?es) @ [125]) (LTable (put_entries [] ?es))"
        by (rule reads_object [OF assms(1) el])
      moreover have "put_entries [] ?es = map (\<lambda>(k, x). (k, ?i x)) t"
      proof -
        have k: "fst p = LString (key_bytes (fst p))" if "p \<in> set t" for p
          using ks [of "fst p" "snd p"] that by (auto simp: key_bytes_def)
        have "map fst t = map (\<lambda>p. LString (key_bytes (fst p))) t" by (rule map_cong [OF refl k])
        also have "\<dots> = map LString (map fst ?es)" by (simp add: comp_def case_prod_unfold)
        finally have "distinct (map LString (map fst ?es))" using pl(1) by (simp only:)
        then have "distinct (map fst ?es)" by (simp only: distinct_map [of LString])
        then have "put_entries [] ?es = map (\<lambda>(k, w, v). (LString k, v)) ?es" using put_entries_map [of ?es "[]"] by simp
        also have "\<dots> = map (\<lambda>p. (LString (key_bytes (fst p)), ?i (snd p))) t" by (simp add: comp_def case_prod_unfold)
        also have "\<dots> = map (\<lambda>p. (fst p, ?i (snd p))) t" by (rule map_cong [OF refl]) (simp only: k [symmetric])
        also have "\<dots> = map (\<lambda>(k, x). (k, ?i x)) t" by (simp add: case_prod_unfold)
        finally show ?thesis .
      qed
      moreover have "map entry_text ?es = map (\<lambda>(k, x). json_quote (key_bytes k) @ [58] @ ?x x) t"
        by (simp add: entry_text_def case_prod_unfold comp_def)
      ultimately have "reads env cfg tot (Suc ?h)
          ([123] @ commas (map (\<lambda>(k, x). json_quote (key_bytes k) @ [58] @ ?x x) t) @ [125]) (LTable (map (\<lambda>(k, x). (k, ?i x)) t))"
        by (simp only:)
      then show ?thesis
        using False by (simp add: LTable json_text.simps [of _ "LTable t"] json_image.simps [of _ "LTable t"]
            json_height.simps [of "LTable t"])
    qed
  qed
qed

section \<open>No NUL in the text\<close>

lemma commas_set: "set (commas ws) \<subseteq> insert 44 (\<Union> (set ` set ws))"
  by (cases ws) auto

lemma quote_no_nul: "0 \<notin> set (json_quote s)"
proof -
  have "0 \<notin> set (json_char c)" for c
  proof (cases "char2escape c")
    case None
    then show ?thesis by (auto simp: json_char_def char2escape_def)
  next
    case (Some e)
    then have "takeWhile (\<lambda>b. b \<noteq> 0) e = e" using escape_bounds(2) by (simp add: bcstr_def)
    then have "\<forall>b \<in> set e. b \<noteq> 0" by (simp add: takeWhile_eq_all_conv)
    then show ?thesis using Some by (auto simp: json_char_def)
  qed
  then show ?thesis by (auto simp: json_quote_def)
qed

lemma text_no_nul:
  "json_plain lim (number_ok env cfg) v \<Longrightarrow> 0 \<notin> set (json_text (number_text env cfg) v)"
proof (induction "number_text env cfg" v rule: json_text.induct)
  case (1 v)
  let ?x = "json_text (number_text env cfg)"
  show ?case
  proof (cases v)
    case (LTable t)
    show ?thesis
    proof (cases "is_seq t")
      case True
      have "0 \<notin> set (?x x)" if "x \<in> set (elements t)" for x
        using 1(1) [OF LTable True that] 1(3) True that by (auto simp: LTable json_plain.simps [of _ _ "LTable t"] list_all_iff)
      then have "0 \<notin> set (commas (map ?x (elements t)))"
        using commas_set [of "map ?x (elements t)"] by fastforce
      then show ?thesis using True by (simp add: LTable json_text.simps [of _ "LTable t"])
    next
      case False
      have "0 \<notin> set (?x x)" if "(k, x) \<in> set t" for k x
        using 1(2) [OF LTable False that refl] 1(3) False that by (auto simp: LTable json_plain.simps [of _ _ "LTable t"] list_all_iff)
      then have "0 \<notin> set (commas (map (\<lambda>(k, x). json_quote (key_bytes k) @ [58] @ ?x x) t))"
        using commas_set [of "map (\<lambda>(k, x). json_quote (key_bytes k) @ [58] @ ?x x) t"] quote_no_nul by fastforce
      then show ?thesis using False by (simp add: LTable json_text.simps [of _ "LTable t"])
    qed
  next
    case (LNumber d)
    then show ?thesis using 1(3) by (simp add: json_text.simps json_plain.simps number_ok_def)
  qed (use quote_no_nul in \<open>auto simp: json_text.simps bytes_of_def\<close>)
qed

section \<open>Round trip\<close>

lemma plain_mono:
  "json_plain lim P v \<Longrightarrow> (\<And>d. P d \<Longrightarrow> Q d) \<Longrightarrow> json_plain lim Q v"
proof (induction lim P v rule: json_plain.induct)
  case (1 lim P v)
  show ?case
  proof (cases v)
    case (LTable t)
    show ?thesis
    proof (cases "is_seq t")
      case True
      then show ?thesis using 1(1) [OF LTable True] 1(3,4)
        by (auto simp: LTable json_plain.simps [of _ _ "LTable t"] list_all_iff)
    next
      case False
      then show ?thesis using 1(2) [OF LTable False] 1(3,4)
        by (fastforce simp: LTable json_plain.simps [of _ _ "LTable t"] list_all_iff)
    qed
  qed (use 1(3,4) in \<open>auto simp: json_plain.simps json_null_def\<close>)
qed

lemma array_limit_max: "array_limit cfg \<le> INT_MAX"
  using zdiv_mono2 [of INT_MAX 1 "encode_sparse_ratio cfg"] by (auto simp: array_limit_def INT_MAX_def)

lemma decode_reads:
  assumes mem: "\<forall>n. je_mem env n" and rd: "\<And>tot. reads env cfg tot h w v"
    and nn: "0 \<notin> set w" and dp: "int h \<le> decode_max_depth cfg" and l: "int (length w) < INT_MAX"
  shows "json_decode env cfg [LString w] = LReturn v"
proof -
  let ?tot = "length w + 1"
  have head: "\<not> (2 \<le> length w \<and> (w ! 0 = 0 \<or> w ! 1 = 0))"
  proof
    assume a: "2 \<le> length w \<and> (w ! 0 = 0 \<or> w ! 1 = 0)"
    then have "w ! 0 \<in> set w" "w ! 1 \<in> set w" by (auto intro!: nth_mem)
    then show False using a nn by metis
  qed
  obtain s where s: "strbuf_init (je_mem env) (int (length w)) = LReturn s" "holds_string s []"
      "sb_size s = (if int (length w) \<le> 0 then STRBUF_DEFAULT_SIZE else int (length w) + 1)"
    using init_holds [OF mem l] by blast
  let ?j = "\<lparr>jp_rest = w @ [0], jp_tmp = s\<lparr>sb_dynamic := True\<rparr>, jp_depth = 0\<rparr>"
  have p: "parse_ok ?tot ?j"
    unfolding parse_ok_def using s(2,3) by (auto simp: ends_nul_def STRBUF_DEFAULT_SIZE_def intro!: exI [of _ "[]"])
  have "delim [0]" by (simp add: delim_def ends_nul_def)
  then obtain j' where j': "json_read env cfg ?tot (2 * ?tot + 3) ?j = LReturn (v, j')" "jp_rest j' = [0]"
    using readsD [OF rd [of ?tot], of ?j "[0]" "2 * ?tot + 3"] p dp by auto
  then obtain t j1 where "json_next_token env cfg ?tot ?j = LReturn (t, j1)"
      "json_process_value env cfg ?tot (2 * ?tot + 3) t j1 = LReturn (v, j')"
    by (auto simp: json_read_def lbind_LReturn)
  moreover have "\<exists>t. json_next_token env cfg ?tot j' = LReturn (t, j') \<and> tk_type t = T_END"
    using j'(2) by (simp add: json_next_token_def peek_def token_of_def Let_def)
  moreover have "strbuf_new (je_mem env) (int_of_size (length w)) = LReturn (s\<lparr>sb_dynamic := True\<rparr>)"
    using l by (simp add: strbuf_new_def int_of_size_small s(1))
  ultimately show ?thesis
    using head by (auto simp: json_decode_def lua_gettop_def lua_at_def lua_tolstring_def Let_def)
qed

lemma decode_text:
  assumes "enc_ok env cfg" "dec_ok env cfg" "json_plain (array_limit cfg) (number_ok env cfg) v"
    and "int (json_height v) \<le> decode_max_depth cfg" "fits_buffer (json_text (number_text env cfg) v)"
  shows "json_decode env cfg [LString (json_text (number_text env cfg) v)] = LReturn (json_image (reread env cfg) v)"
proof (rule decode_reads [OF _ _ _ assms(4)])
  show "\<forall>n. je_mem env n" using assms(1) by (simp add: enc_ok_def)
  have pt: "je_point env = ch CHR ''.''" using assms(1) by (simp add: enc_ok_def)
  show "reads env cfg tot (json_height v) (json_text (number_text env cfg) v) (json_image (reread env cfg) v)" for tot
    by (rule json_reads [OF assms(2) pt array_limit_max assms(3)])
  show "0 \<notin> set (json_text (number_text env cfg) v)" by (rule text_no_nul [OF assms(3)])
  show "int (length (json_text (number_text env cfg) v)) < INT_MAX"
    using assms(5) by (simp add: fits_buffer_def INT_MAX_def SAFE_SIZE_def)
qed

text \<open>
  C12. What the JSON encoder writes, the decoder reads back: for every value whose tables are arrays
  or have distinct strings as keys, within the depth limits and with room in the buffer, encoding
  succeeds, and decoding the text gives the value with its arrays in order, \<open>cjson.null\<close> for nil, and
  each number as \<open>strtod\<close> reads what \<open>snprintf\<close> printed for it. The configuration may be any in
  range, and the decoder uses what the encoder left of it.
\<close>

theorem json_roundtrip:
  assumes "enc_ok env cfg" "dec_ok env cfg" "buffer_ready cfg" "json_plain (array_limit cfg) (number_ok env cfg) v"
    and "int (json_height v) \<le> encode_max_depth cfg" "int (json_height v) \<le> decode_max_depth cfg"
    and "fits_buffer (json_text (number_text env cfg) v)"
  shows "\<exists>s cfg'. json_encode env [v] cfg = LReturn (Inr [LString s], cfg') \<and>
    json_decode env cfg' [LString s] = LReturn (json_image (reread env cfg) v)"
proof -
  have "json_plain (array_limit cfg) (finite_number env cfg) v"
    by (rule plain_mono [OF assms(4)]) (simp add: number_ok_def)
  then obtain cfg' b where e: "json_encode env [v] cfg = LReturn (Inr [LString (json_text (number_text env cfg) v)], cfg')"
      "cfg' = cfg\<lparr>encode_buf := b\<rparr>"
    using encode_text [OF assms(1,3) _ assms(5,7)] by blast
  have "number_text env cfg' = number_text env cfg" "reread env cfg' = reread env cfg" "number_ok env cfg' = number_ok env cfg"
      "enc_ok env cfg' = enc_ok env cfg" "dec_ok env cfg' = dec_ok env cfg" "array_limit cfg' = array_limit cfg"
    unfolding e(2) by (simp_all add: number_text_def [abs_def] reread_def [abs_def] number_ok_def [abs_def] enc_ok_def
        dec_ok_def array_limit_def finite_number_def [abs_def])
  then have "json_decode env cfg' [LString (json_text (number_text env cfg) v)] = LReturn (json_image (reread env cfg) v)"
    using decode_text [of env cfg' v] assms e(2) by simp
  then show ?thesis using e(1) by blast
qed

end
