(* ===== verification/JsonExample.thy ===== *)
theory JsonExample
  imports JsonRT
begin

text \<open>
  A value, an environment and a configuration in which the statements on the JSON library are
  used, with their texts.
\<close>

definition two_elements :: "lua_val \<Rightarrow> lua_val \<Rightarrow> lua_table" where
  "two_elements x y = [(array_index 1, x), (array_index 2, y)]"

definition two_fields :: "lua_val \<Rightarrow> lua_val \<Rightarrow> lua_table" where
  "two_fields x y = [(str_val ''a'', x), (str_val ''b'', y)]"

definition example_value :: lua_val where
  "example_value = LTable (two_fields (LTable (two_elements (LNumber (i2d 1)) (LBoolean True))) (LString [10]))"

lemma example_config_simps:
  "example_config = \<lparr>encode_buf = \<lparr>sb_buf = Some [], sb_size = 1023, sb_increment = -2, sb_dynamic = False, sb_reallocs = 0\<rparr>,
     encode_sparse_convert = 0, encode_sparse_ratio = 2, encode_sparse_safe = 10, encode_max_depth = 1000,
     encode_invalid_numbers = 0, encode_number_precision = 14, encode_keep_buffer = 1, decode_invalid_numbers = 1,
     decode_max_depth = 1000\<rparr>"
  by (simp add: example_config_def json_create_config_def strbuf_init_def example_env_def STRBUF_DEFAULT_SIZE_def
      STRBUF_DEFAULT_INCREMENT_def strbuf_ensure_null_def)

lemma example_ok:
  "enc_ok example_env example_config" "dec_ok example_env example_config" "buffer_ready example_config"
  "array_limit example_config = 1073741823"
  by (simp_all add: enc_ok_def dec_ok_def buffer_ready_def array_limit_def example_config_simps example_env_def ch_def INT_MAX_def
      holds_string_def STRBUF_DEFAULT_INCREMENT_def)

lemma example_number_text: "number_text example_env example_config d = [49]"
  by (simp add: number_text_def example_config_simps example_env_def set_number_format_def bytes_of_def)

lemma example_reread: "reread example_env example_config d = i2d 1"
  by (simp add: reread_def example_number_text) (simp add: example_env_def digit_strtod_def)

lemma example_number: "number_ok example_env example_config (i2d 1)"
proof -
  have "\<not> d_isnan (i2d 1)" "\<not> d_isinf (i2d 1)"
    using d_int_index [of 1] by (auto simp: d_isnan_def d_isinf_def d_int_def d_iszero_def)
  moreover have "je_strtod example_env (49 # r) = (i2d 1, 1)" for r by (simp add: example_env_def digit_strtod_def)
  ultimately show ?thesis
    by (simp add: number_ok_def finite_number_def example_number_text example_reread plain_number_def FPCONV_G_FMT_BUFSIZE_def)
qed

lemma index_one_two:
  "lua_rawequal (array_index 1) (array_index 1)" "lua_rawequal (array_index 2) (array_index 2)"
  "\<not> lua_rawequal (array_index 1) (array_index 2)" "\<not> lua_rawequal (array_index 2) (array_index 1)"
  by (simp_all add: array_index_eq)

lemma example_inner:
  "is_seq (two_elements x y)" "elements (two_elements x y) = [x, y]" "length (two_elements x y) = 2"
  "zip (map array_index [1..<length (two_elements x y) + 1]) [v, w] = two_elements v w"
proof -
  have u: "[1..<length (two_elements x y) + 1] = [1, 2]" by (simp add: two_elements_def upt_rec)
  show "is_seq (two_elements x y)" unfolding is_seq_def u by (simp add: two_elements_def)
  show "elements (two_elements x y) = [x, y]"
    unfolding elements_def u unfolding two_elements_def
    by (simp only: list.map lua_rawget.simps index_one_two if_True if_False)
  show "length (two_elements x y) = 2" by (simp add: two_elements_def)
  show "zip (map array_index [1..<length (two_elements x y) + 1]) [v, w] = two_elements v w"
    unfolding u by (simp add: two_elements_def)
qed

lemma example_outer: "\<not> is_seq (two_fields x y)"
proof -
  have "str_val ''a'' \<notin> set (map array_index ns)" for ns by (auto simp: str_val_def array_index_def)
  then show ?thesis unfolding is_seq_def two_fields_def by (metis list.set_intros(1) list.simps(9) fst_conv)
qed

lemma two_fields_simps:
  "map f (two_fields x y) = [f (str_val ''a'', x), f (str_val ''b'', y)]"
  "list_all P (two_fields x y) \<longleftrightarrow> P (str_val ''a'', x) \<and> P (str_val ''b'', y)"
  "foldr g (two_fields x y) n = g (str_val ''a'', x) (g (str_val ''b'', y) n)"
  by (simp_all add: two_fields_def)

lemma example_facts:
  "json_plain 1073741823 (number_ok example_env example_config) example_value"
  "json_height example_value = 2"
  "json_image (\<lambda>d. i2d 1) example_value = example_value"
proof -
  show "json_plain 1073741823 (number_ok example_env example_config) example_value"
    using example_number
    by (simp add: example_value_def json_plain.simps example_inner(1-3) example_outer two_fields_simps)
      (simp add: str_val_def bytes_of_def)
  show "json_height example_value = 2"
    by (simp add: example_value_def json_height.simps example_inner(1-3) example_outer two_fields_simps)
  have seq: "is_seq t \<Longrightarrow> json_image r (LTable t) = LTable (zip (map array_index [1..<length t + 1]) (map (json_image r) (elements t)))"
    for r t by (subst json_image.simps) simp
  have "json_image (\<lambda>d. i2d 1) (LNumber (i2d 1)) = LNumber (i2d 1)" "json_image (\<lambda>d. i2d 1) (LBoolean True) = LBoolean True"
    by (simp_all add: json_image.simps)
  then have "json_image (\<lambda>d. i2d 1) (LTable (two_elements (LNumber (i2d 1)) (LBoolean True))) =
      LTable (two_elements (LNumber (i2d 1)) (LBoolean True))"
    unfolding seq [OF example_inner(1)] example_inner(2) list.map by (simp only: example_inner(4))
  then show "json_image (\<lambda>d. i2d 1) example_value = example_value"
    by (simp add: example_value_def json_image.simps [of _ "LTable (two_fields x y)" for x y] json_image.simps [of _ "LString s" for s]
        example_outer two_fields_simps) (simp add: two_fields_def)
qed

lemma example_text: "json_text (\<lambda>d. [49]) example_value =
  [123, 34, 97, 34, 58, 91, 49, 44, 116, 114, 117, 101, 93, 44, 34, 98, 34, 58, 34, 92, 110, 34, 125]"
  by (simp add: example_value_def json_text.simps example_inner(1,2) example_outer two_fields_simps json_quote_def json_char_def
      char2escape_def key_bytes_def str_val_def bytes_of_def)

lemma example_fits: "fits_buffer (json_text (number_text example_env example_config) example_value)"
  unfolding example_number_text [abs_def] example_text by (simp add: fits_buffer_def SAFE_SIZE_def)

theorem json_encode_writes_text_witness:
  "\<exists>cfg'. json_encode example_env [example_value] example_config =
    LReturn (Inr [LString [123, 34, 97, 34, 58, 91, 49, 44, 116, 114, 117, 101, 93, 44, 34, 98, 34, 58, 34, 92, 110, 34, 125]], cfg') \<and>
    buffer_ready cfg'"
proof -
  have "json_plain (array_limit example_config) (finite_number example_env example_config) example_value"
    unfolding example_ok by (rule plain_mono [OF example_facts(1)]) (simp add: number_ok_def)
  from json_encode_writes_text [OF example_ok(1,3) this _ example_fits] show ?thesis
    unfolding example_number_text [abs_def] example_text by (simp add: example_facts(2) example_config_simps)
qed

theorem json_roundtrip_witness:
  "\<exists>s cfg'. json_encode example_env [example_value] example_config = LReturn (Inr [LString s], cfg') \<and>
    json_decode example_env cfg' [LString s] = LReturn example_value"
  using json_roundtrip [OF example_ok(1-3) example_facts(1) [folded example_ok(4)] _ _ example_fits]
  unfolding example_reread [abs_def] example_facts(3) by (simp add: example_facts(2) example_config_simps)

section \<open>What goes wrong\<close>

text \<open>
  The room for a string is computed in \<open>size_t\<close> and taken as an \<open>int\<close>: for a string of 715827883
  bytes it is 4, and the unchecked writes leave the buffer.
\<close>

lemma escaped_overrun:
  assumes "\<forall>c \<in> set str. char2escape c = None"
  shows "holds_string s b \<Longrightarrow> sb_size s < int (length b + length str) \<Longrightarrow>
    append_escaped env str s = LCrash ''write past the buffer''"
  using assms
proof (induction str arbitrary: s b)
  case (Cons c str)
  show ?case
  proof (cases "int (length b) + 1 < sb_size s")
    case True
    then show ?thesis
      using unsafe_holds [OF Cons.prems(1), of "[c]"] Cons.IH [of "s\<lparr>sb_buf := Some (b @ [c])\<rparr>" "b @ [c]"] Cons.prems
      by (simp add: strbuf_append_char_unsafe_def)
  next
    case False
    then have "sb_size s = int (length b) + 1" "sb_buf s = Some b" using Cons.prems(1) by (simp_all add: holds_string_def)
    then show ?thesis
      using Cons.prems(2,3) by (cases str) (simp_all add: strbuf_append_char_unsafe_def strbuf_append_mem_unsafe_def)
  qed
qed (simp add: holds_string_def)

lemma string_room_overflow:
  assumes "length str = 715827883" "\<forall>c \<in> set str. char2escape c = None" "holds_string s []" "sb_size s = 1023"
  shows "json_append_string env str s = LCrash ''write past the buffer''"
proof -
  have "int_of_size (length str * 6 + 2) = 4" by (simp add: assms(1) int_of_size_def signed_take_bit_def take_bit_eq_mod)
  then have "strbuf_ensure_empty_length (je_mem env) (int_of_size (length str * 6 + 2)) s = LReturn s"
    using assms(3,4) by (simp add: strbuf_ensure_empty_length_def)
  moreover have "strbuf_append_char_unsafe 34 s = LReturn (s\<lparr>sb_buf := Some [34]\<rparr>)" "holds_string (s\<lparr>sb_buf := Some [34]\<rparr>) [34]"
    using unsafe_holds [OF assms(3), of "[34]"] assms(4) by (simp_all add: strbuf_append_char_unsafe_def)
  ultimately show ?thesis
    using escaped_overrun [OF assms(2), of "s\<lparr>sb_buf := Some [34]\<rparr>" "[34]" env] assms(1,4) by (simp add: json_append_string_def)
qed

text \<open>An integral key beyond the largest int is converted to one all the same.\<close>

lemma huge_index_undefined:
  assumes "d_int d = Some i" "INT_MAX < i" "\<not> d_isinf d"
  shows "lua_array_length env cfg [(LNumber d, v)] = LCrash ''conversion to int''"
  using assms by (simp add: lua_array_length_def array_key_def INT_MAX_def)

text \<open>With a large ratio the limit of sparse arrays overflows, for two elements already.\<close>

lemma sparse_limit_overflow:
  assumes "encode_sparse_ratio cfg = INT_MAX"
  shows "lua_array_length env cfg (two_elements x y) = LCrash ''signed overflow''"
proof -
  have "array_key (array_index 1) = Index 1" "array_key (array_index 2) = Index 2"
    using array_key_index [of 1] array_key_index [of 2] by (simp_all add: INT_MAX_def)
  then have "array_scan (two_elements x y) 0 0 = LReturn (Some (2, 2))"
    unfolding two_elements_def by (simp add: c_int_def INT_MIN_def INT_MAX_def del: One_nat_def)
  then show ?thesis using assms by (simp add: lua_array_length_def c_int_def INT_MIN_def INT_MAX_def)
qed

text \<open>What follows a NUL byte in the text is not looked at.\<close>

lemma decode_ignores_after_nul:
  "json_decode example_env example_config [LString [49, 32, 0, 120]] = LReturn (LNumber (i2d 1))"
proof -
  define tmp where "tmp = \<lparr>sb_buf = Some ([] :: byte list), sb_size = 5, sb_increment = -2, sb_dynamic = True, sb_reallocs = 0\<rparr>"
  define tk where "tk = (token_of T_UNKNOWN 0)\<lparr>tk_type := T_NUMBER, tk_number := i2d 1\<rparr>"
  have chars: "ch2token 49 = T_UNKNOWN" "ch2token 32 = T_WHITESPACE" "ch2token 0 = T_END"
    by (simp_all add: ch2token_def ch_def)
  have buf: "strbuf_new (je_mem example_env) (int_of_size 4) = LReturn tmp"
    by (simp add: strbuf_new_def int_of_size_small INT_MAX_def strbuf_init_def c_int_def INT_MIN_def example_env_def
        strbuf_ensure_null_def STRBUF_DEFAULT_INCREMENT_def tmp_def)
  have "fpconv_strtod example_env [49, 32, 0, 120, 0] = (i2d 1, 1)"
    by (simp add: fpconv_strtod_def example_env_def digit_strtod_def bcstr_def ch_def)
  then have first: "json_next_token example_env example_config 5 \<lparr>jp_rest = [49, 32, 0, 120, 0], jp_tmp = tmp, jp_depth = 0\<rparr> =
      LReturn (tk, \<lparr>jp_rest = [32, 0, 120, 0], jp_tmp = tmp, jp_depth = 0\<rparr>)"
    by (simp add: json_next_token_def chars peek_def Let_def json_next_number_token_def example_config_simps token_of_def tk_def)
  have last: "\<exists>t. json_next_token example_env example_config 5 \<lparr>jp_rest = [32, 0, 120, 0], jp_tmp = tmp, jp_depth = 0\<rparr> =
      LReturn (t, \<lparr>jp_rest = [0, 120, 0], jp_tmp = tmp, jp_depth = 0\<rparr>) \<and> tk_type t = T_END"
    by (simp add: json_next_token_def chars peek_def Let_def token_of_def)
  have "json_process_value example_env example_config 5 13 tk json = LReturn (LNumber (i2d 1), json)" for json
    using json_process_value.simps(2) [of example_env example_config 5 12 tk json] by (simp add: tk_def)
  moreover have "length [49 :: byte, 32, 0, 120] = 4" "length [LString [49, 32, 0, 120]] = Suc 0" by simp_all
  moreover obtain t where "json_next_token example_env example_config 5 \<lparr>jp_rest = [32, 0, 120, 0], jp_tmp = tmp, jp_depth = 0\<rparr> =
      LReturn (t, \<lparr>jp_rest = [0, 120, 0], jp_tmp = tmp, jp_depth = 0\<rparr>)" "tk_type t = T_END"
    using last by blast
  ultimately show ?thesis
    using first by (simp add: json_decode_def lua_gettop_def lua_at_def lua_tolstring_def Let_def buf del: list.size)
qed

text \<open>An error in a later argument leaves the settings of the earlier ones changed.\<close>

lemma failed_call_changes_settings:
  assumes "je_checkinteger env LNil = None" "je_checkinteger env (LString s) = None"
  shows "json_cfg_encode_sparse_array env [LBoolean True, LString s] cfg =
    LReturn (Inl ''number expected'', cfg\<lparr>encode_sparse_convert := 1\<rparr>)"
  using assms by (simp add: json_cfg_encode_sparse_array_def json_arg_init_def lua_gettop_def lua_at_def json_enum_option_def
      json_integer_option_def Let_def)

end
