(* ===== verification/Hiredis.thy ===== *)
theory Hiredis
  imports StrBuf "HOL-Library.AList"
begin

text \<open>
  \<open>lib/lua-hiredis/lua-hiredis.c\<close>: the Redis client of the scripts. The client library hiredis is not
  among the sources: what it does and the numbers it defines are the argument \<open>lib\<close>, for contexts of
  any type. A function takes its arguments from the Lua stack and gives its results or an error,
  with the state as it is then. The metatables and the fields of constants are not changed by
  scripts (\<open>We trust that user would not change these values\<close>), and \<open>luaL_checkstack\<close> succeeds.
\<close>

section \<open>Values and state\<close>

text \<open>The functions that are registered in the module and in the metatable of connections.\<close>

datatype hi_function =
    Fn_connect | Fn_unwrap_reply
  | Fn_command | Fn_command_line | Fn_append_command | Fn_get_reply | Fn_close | Fn_gc | Fn_tostring

text \<open>
  Values a script sees: those of Lua, a constant by its identity, the table of the elements of an
  array reply, a connection by its identity, the table of statuses, a function.
\<close>

datatype hi_val =
    HVal lua_val
  | HConst nat
  | HArray "hi_val list"
  | HConn nat
  | HStatus
  | HFunction hi_function

datatype redis_reply =
    ReplyString "byte list"
  | ReplyArray "redis_reply list"
  | ReplyInteger int
  | ReplyNil
  | ReplyStatus "byte list"
  | ReplyError "byte list"
  | ReplyOther int

record hi_const =
  co_name :: "byte list"
  co_type :: int

text \<open>
  \<open>redisCommand\<close> takes a format: \<open>None\<close> when it has a directive, for which there is no argument.
\<close>

record 'c redis_lib =
  rl_connect :: "byte list \<Rightarrow> int \<Rightarrow> 'c option"
  rl_connect_unix :: "byte list \<Rightarrow> 'c option"
  rl_err :: "'c \<Rightarrow> int"
  rl_errstr :: "'c \<Rightarrow> byte list option"
  rl_command_argv :: "byte list list \<Rightarrow> 'c \<Rightarrow> redis_reply option \<times> 'c"
  rl_command :: "byte list \<Rightarrow> 'c \<Rightarrow> (redis_reply option \<times> 'c) option"
  rl_append_argv :: "byte list list \<Rightarrow> 'c \<Rightarrow> 'c"
  rl_get_reply :: "'c \<Rightarrow> (int \<times> redis_reply option) \<times> 'c"
  rl_num2str :: "u64 \<Rightarrow> byte list"
  REDIS_OK :: int
  REDIS_ERR_IO :: int
  REDIS_ERR_EOF :: int
  REDIS_ERR_PROTOCOL :: int
  REDIS_ERR_OTHER :: int
  REDIS_REPLY_STRING :: int
  REDIS_REPLY_ARRAY :: int
  REDIS_REPLY_INTEGER :: int
  REDIS_REPLY_NIL :: int
  REDIS_REPLY_STATUS :: int
  REDIS_REPLY_ERROR :: int

text \<open>
  The host and port, the constants made so far, the table of statuses, the fields of the module,
  the number of connections in the registry under each Lua thread, the connections with their
  contexts (none once closed), and the number of replies that were not freed.
\<close>

record 'c hi_state =
  hs_host :: "byte list"
  hs_port :: int
  hs_consts :: "hi_const list"
  hs_status :: "(byte list \<times> nat) list"
  hs_module :: "(string \<times> hi_val) list"
  hs_count :: "nat \<Rightarrow> int option"
  hs_conns :: "'c option list"
  hs_replies :: nat

type_synonym 'c hi_result = "((string + hi_val list) \<times> 'c hi_state) lua_proc"

definition MAX_REDIS_CONNECTIONS :: int where "MAX_REDIS_CONNECTIONS = 3"
definition LUAHIREDIS_MAXARGS :: nat where "LUAHIREDIS_MAXARGS = 256"
definition LUAHIREDIS_KEY_NIL :: string where "LUAHIREDIS_KEY_NIL = ''NIL''"

definition hi_number :: "int \<Rightarrow> hi_val" where "hi_number n = HVal (LNumber (i2d n))"
definition hi_string :: "byte list \<Rightarrow> hi_val" where "hi_string s = HVal (LString s)"
definition hi_nil :: hi_val where "hi_nil = HVal LNil"

definition hi_at :: "hi_val list \<Rightarrow> nat \<Rightarrow> hi_val" where
  "hi_at L i = (if 1 \<le> i \<and> i \<le> length L then L ! (i - 1) else hi_nil)"

definition hi_tolstring :: "'c redis_lib \<Rightarrow> hi_val \<Rightarrow> byte list option" where
  "hi_tolstring lib v = (case v of HVal w \<Rightarrow> lua_tolstring (rl_num2str lib) w | _ \<Rightarrow> None)"

section \<open>Constants and statuses\<close>

fun reg_enum :: "(string \<times> int) list \<Rightarrow> (string \<times> hi_val) list \<Rightarrow> (string \<times> hi_val) list" where
  "reg_enum [] t = t"
| "reg_enum ((name, value) # es) t = reg_enum es (AList.update name (hi_number value) t)"

fun setfuncs :: "(string \<times> hi_function) list \<Rightarrow> (string \<times> hi_val) list \<Rightarrow> (string \<times> hi_val) list" where
  "setfuncs [] t = t"
| "setfuncs ((name, f) # ls) t = setfuncs ls (AList.update name (HFunction f) t)"

definition push_new_const :: "byte list \<Rightarrow> int \<Rightarrow> 'c hi_state \<Rightarrow> nat \<times> 'c hi_state" where
  "push_new_const name type st =
     (length (hs_consts st), st\<lparr>hs_consts := hs_consts st @ [\<lparr>co_name = name, co_type = type\<rparr>]\<rparr>)"

definition lconst_tostring :: "hi_val \<Rightarrow> 'c hi_state \<Rightarrow> string + hi_val" where
  "lconst_tostring v st = (case v of HConst i \<Rightarrow> Inr (hi_string (co_name (hs_consts st ! i))) | _ \<Rightarrow> Inl ''table expected'')"

text \<open>A status that is not in the table is made and kept there; \<open>lua_gettable\<close> finds it or has it made.\<close>

definition lstatus_index :: "'c redis_lib \<Rightarrow> byte list \<Rightarrow> 'c hi_state \<Rightarrow> nat \<times> 'c hi_state" where
  "lstatus_index lib key st =
     (case push_new_const key (REDIS_REPLY_STATUS lib) st of (i, st) \<Rightarrow>
      let st = st\<lparr>hs_status := AList.update key i (hs_status st)\<rparr> in
      (the (map_of (hs_status st) key), st))"

definition status_gettable :: "'c redis_lib \<Rightarrow> byte list \<Rightarrow> 'c hi_state \<Rightarrow> nat \<times> 'c hi_state" where
  "status_gettable lib key st =
     (case map_of (hs_status st) key of Some i \<Rightarrow> (i, st) | None \<Rightarrow> lstatus_index lib key st)"

definition redis_errors :: "'c redis_lib \<Rightarrow> (string \<times> int) list" where
  "redis_errors lib =
     [(''ERR_IO'', REDIS_ERR_IO lib), (''ERR_EOF'', REDIS_ERR_EOF lib),
      (''ERR_PROTOCOL'', REDIS_ERR_PROTOCOL lib), (''ERR_OTHER'', REDIS_ERR_OTHER lib)]"

definition redis_reply_types :: "'c redis_lib \<Rightarrow> (string \<times> int) list" where
  "redis_reply_types lib =
     [(''REPLY_STRING'', REDIS_REPLY_STRING lib), (''REPLY_ARRAY'', REDIS_REPLY_ARRAY lib),
      (''REPLY_INTEGER'', REDIS_REPLY_INTEGER lib), (''REPLY_NIL'', REDIS_REPLY_NIL lib),
      (''REPLY_STATUS'', REDIS_REPLY_STATUS lib), (''REPLY_ERROR'', REDIS_REPLY_ERROR lib)]"

section \<open>Connections, errors and arguments\<close>

definition check_connection :: "hi_val list \<Rightarrow> nat \<Rightarrow> 'c hi_state \<Rightarrow> string + nat \<times> 'c" where
  "check_connection L idx st =
     (case hi_at L idx of
        HConn i \<Rightarrow>
          (case hs_conns st ! i of
             None \<Rightarrow> Inl ''lua-hiredis error: attempted to use closed connection''
           | Some c \<Rightarrow> Inr (i, c))
      | _ \<Rightarrow> Inl ''lua-hiredis.connection expected'')"

definition push_error :: "'c redis_lib \<Rightarrow> 'c \<Rightarrow> hi_val list" where
  "push_error lib c =
     [hi_nil,
      hi_string (case rl_errstr lib c of Some s \<Rightarrow> bcstr s | None \<Rightarrow> bytes_of ''(lua-hiredis: no error message)''),
      hi_number (rl_err lib c)]"

fun load_strings :: "'c redis_lib \<Rightarrow> nat \<Rightarrow> hi_val list \<Rightarrow> string + byte list list" where
  "load_strings lib n [] = Inr []"
| "load_strings lib n (v # vs) =
     (case hi_tolstring lib v of
        None \<Rightarrow> Inl (''bad argument #'' @ show_nat n @ '': expected a string or number value'')
      | Some s \<Rightarrow>
          (case load_strings lib (n + 1) vs of Inl e \<Rightarrow> Inl e | Inr ss \<Rightarrow> Inr (s # ss)))"

definition load_args :: "'c redis_lib \<Rightarrow> hi_val list \<Rightarrow> nat \<Rightarrow> string + byte list list" where
  "load_args lib L idx =
     (let nargs = int (length L) - int idx + 1 in
      if nargs \<le> 0 then Inl ''missing command name''
      else if nargs > int LUAHIREDIS_MAXARGS then Inl ''too many arguments''
      else load_strings lib idx (drop (idx - 1) L))"

section \<open>Replies\<close>

fun push_reply :: "'c redis_lib \<Rightarrow> redis_reply \<Rightarrow> 'c hi_state \<Rightarrow> (string + hi_val) \<times> 'c hi_state"
  and push_elements :: "'c redis_lib \<Rightarrow> redis_reply list \<Rightarrow> 'c hi_state \<Rightarrow> (string + hi_val list) \<times> 'c hi_state"
where
  "push_reply lib (ReplyStatus s) st =
     (if map_of (hs_module st) ''status'' = Some HStatus then
        (case status_gettable lib s st of (i, st) \<Rightarrow> (Inr (HConst i), st))
      else (Inl ''attempt to index a value that is not a table'', st))"
| "push_reply lib (ReplyError e) st =
     (case push_new_const e (REDIS_REPLY_ERROR lib) st of (i, st) \<Rightarrow> (Inr (HConst i), st))"
| "push_reply lib (ReplyInteger n) st = (Inr (hi_number n), st)"
| "push_reply lib ReplyNil st =
     (Inr (case map_of (hs_module st) LUAHIREDIS_KEY_NIL of Some v \<Rightarrow> v | None \<Rightarrow> hi_nil), st)"
| "push_reply lib (ReplyString s) st = (Inr (hi_string s), st)"
| "push_reply lib (ReplyArray rs) st =
     (case push_elements lib rs st of
        (Inl e, st) \<Rightarrow> (Inl e, st)
      | (Inr vs, st) \<Rightarrow> (Inr (HArray vs), st))"
| "push_reply lib (ReplyOther ty) st = (Inl (''command: unknown reply type: '' @ show_int ty), st)"
| "push_elements lib [] st = (Inr [], st)"
| "push_elements lib (r # rs) st =
     (case push_reply lib r st of
        (Inl e, st) \<Rightarrow> (Inl e, st)
      | (Inr v, st) \<Rightarrow>
          (case push_elements lib rs st of
             (Inl e, st) \<Rightarrow> (Inl e, st)
           | (Inr vs, st) \<Rightarrow> (Inr (v # vs), st)))"

text \<open>
  What follows a call of the library in three functions: without a reply its error, otherwise the
  value of the reply, which is freed after that (and not if there was an error).
\<close>

definition take_reply :: "'c redis_lib \<Rightarrow> 'c \<Rightarrow> redis_reply option \<Rightarrow> 'c hi_state \<Rightarrow> 'c hi_result" where
  "take_reply lib c reply st =
     (case reply of
        None \<Rightarrow> LReturn (Inr (push_error lib c), st)
      | Some r \<Rightarrow>
          let st = st\<lparr>hs_replies := hs_replies st + 1\<rparr> in
          (case push_reply lib r st of
             (Inl e, st) \<Rightarrow> LReturn (Inl e, st)
           | (Inr v, st) \<Rightarrow> LReturn (Inr [v], st\<lparr>hs_replies := hs_replies st - 1\<rparr>)))"

definition set_context :: "nat \<Rightarrow> 'c option \<Rightarrow> 'c hi_state \<Rightarrow> 'c hi_state" where
  "set_context i c st = st\<lparr>hs_conns := (hs_conns st)[i := c]\<rparr>"

definition lconn_command_line :: "'c redis_lib \<Rightarrow> hi_val list \<Rightarrow> 'c hi_state \<Rightarrow> 'c hi_result" where
  "lconn_command_line lib L st =
     (case check_connection L 1 st of
        Inl e \<Rightarrow> LReturn (Inl e, st)
      | Inr (i, c) \<Rightarrow>
          if length L \<noteq> 2 then LReturn (Inl ''expecting exactly 1 arguments'', st)
          else
            (case hi_tolstring lib (hi_at L 2) of
               None \<Rightarrow> LReturn (Inl ''string expected'', st)
             | Some command \<Rightarrow>
                 (case rl_command lib (bcstr command) c of
                    None \<Rightarrow> LCrash ''a directive of the format has no argument''
                  | Some (reply, c) \<Rightarrow> take_reply lib c reply (set_context i (Some c) st))))"

definition lconn_command :: "'c redis_lib \<Rightarrow> hi_val list \<Rightarrow> 'c hi_state \<Rightarrow> 'c hi_result" where
  "lconn_command lib L st =
     (case check_connection L 1 st of
        Inl e \<Rightarrow> LReturn (Inl e, st)
      | Inr (i, c) \<Rightarrow>
          (case load_args lib L 2 of
             Inl e \<Rightarrow> LReturn (Inl e, st)
           | Inr argv \<Rightarrow>
               (case rl_command_argv lib argv c of (reply, c) \<Rightarrow>
                take_reply lib c reply (set_context i (Some c) st))))"

definition lconn_append_command :: "'c redis_lib \<Rightarrow> hi_val list \<Rightarrow> 'c hi_state \<Rightarrow> 'c hi_result" where
  "lconn_append_command lib L st =
     (case check_connection L 1 st of
        Inl e \<Rightarrow> LReturn (Inl e, st)
      | Inr (i, c) \<Rightarrow>
          (case load_args lib L 2 of
             Inl e \<Rightarrow> LReturn (Inl e, st)
           | Inr argv \<Rightarrow> LReturn (Inr [], set_context i (Some (rl_append_argv lib argv c)) st)))"

definition lconn_get_reply :: "'c redis_lib \<Rightarrow> hi_val list \<Rightarrow> 'c hi_state \<Rightarrow> 'c hi_result" where
  "lconn_get_reply lib L st =
     (case check_connection L 1 st of
        Inl e \<Rightarrow> LReturn (Inl e, st)
      | Inr (i, c) \<Rightarrow>
          (case rl_get_reply lib c of ((ok, reply), c) \<Rightarrow>
           let st = set_context i (Some c) st in
           if ok \<noteq> REDIS_OK lib then LReturn (Inr (push_error lib c), st)
           else take_reply lib c reply st))"

definition lconn_close :: "hi_val list \<Rightarrow> 'c hi_state \<Rightarrow> 'c hi_result" where
  "lconn_close L st =
     (case hi_at L 1 of
        HConn i \<Rightarrow> LReturn (Inr [], set_context i None st)
      | _ \<Rightarrow> LReturn (Inl ''lua-hiredis.connection expected'', st))"

definition lconn_tostring :: "hi_val list \<Rightarrow> 'c hi_state \<Rightarrow> 'c hi_result" where
  "lconn_tostring L st =
     (case check_connection L 1 st of
        Inl e \<Rightarrow> LReturn (Inl e, st)
      | Inr _ \<Rightarrow> LReturn (Inr [hi_string (bytes_of ''lua-hiredis.connection'')], st))"

section \<open>The module\<close>

text \<open>\<open>th\<close> is the Lua thread that calls: the number of connections is kept under it.\<close>

definition lhiredis_connect :: "'c redis_lib \<Rightarrow> nat \<Rightarrow> 'c hi_state \<Rightarrow> 'c hi_result" where
  "lhiredis_connect lib th st =
     (let numConnections = (case hs_count st th of Some n \<Rightarrow> n | None \<Rightarrow> 0) in
      if numConnections \<ge> MAX_REDIS_CONNECTIONS then
        LReturn (Inr [hi_nil, hi_string (bytes_of ''exceeded the number of allowable redis connections''), hi_number 3], st)
      else
        case (if hs_port st \<le> 0 then rl_connect_unix lib (hs_host st) else rl_connect lib (hs_host st) (hs_port st)) of
          None \<Rightarrow> LReturn (Inr [hi_nil, hi_string (bytes_of ''failed to create hiredis context'')], st)
        | Some c \<Rightarrow>
            if rl_err lib c \<noteq> 0 then LReturn (Inr (push_error lib c), st)
            else LReturn (Inr [HConn (length (hs_conns st))],
              st\<lparr>hs_count := (hs_count st)(th := Some (numConnections + 1)), hs_conns := hs_conns st @ [Some c]\<rparr>))"

datatype hi_metatable = Const_MT | Status_MT

definition hi_istable :: "hi_val \<Rightarrow> bool" where
  "hi_istable v = (case v of HVal w \<Rightarrow> is_table w | HConst _ \<Rightarrow> True | HArray _ \<Rightarrow> True | HStatus \<Rightarrow> True | _ \<Rightarrow> False)"

definition hi_metatable :: "hi_val \<Rightarrow> hi_metatable option" where
  "hi_metatable v = (case v of HConst _ \<Rightarrow> Some Const_MT | HStatus \<Rightarrow> Some Status_MT | _ \<Rightarrow> None)"

definition hi_const :: "'c hi_state \<Rightarrow> hi_val \<Rightarrow> hi_const" where
  "hi_const st v = (case v of HConst i \<Rightarrow> hs_consts st ! i | _ \<Rightarrow> \<lparr>co_name = [], co_type = 0\<rparr>)"

definition lhiredis_unwrap_reply :: "'c redis_lib \<Rightarrow> hi_val list \<Rightarrow> 'c hi_state \<Rightarrow> 'c hi_result" where
  "lhiredis_unwrap_reply lib L st =
     (if L = [] then LReturn (Inl ''value expected'', st)
      else
        let v = hi_at L 1 in
        if \<not> hi_istable v then
          LReturn (Inr (if v = hi_nil \<and> hi_at L 2 \<noteq> hi_nil then [v, hi_at L 2] else [v]), st)
        else if hi_metatable v = None then LReturn (Inr [v], st)
        else if hi_metatable v \<noteq> Some Const_MT then LReturn (Inr [v], st)
        else
          let c = hi_const st v in
          if co_type c = REDIS_REPLY_STATUS lib then
            LReturn (Inr [hi_string (co_name c), hi_number (REDIS_REPLY_STATUS lib)], st)
          else if co_type c = REDIS_REPLY_ERROR lib then LReturn (Inr [hi_nil, hi_string (co_name c)], st)
          else LReturn (Inr [v], st))"

definition connection_methods :: "(string \<times> hi_function) list" where
  "connection_methods =
     [(''command'', Fn_command), (''command_line'', Fn_command_line), (''append_command'', Fn_append_command),
      (''get_reply'', Fn_get_reply), (''close'', Fn_close), (''__gc'', Fn_gc), (''__tostring'', Fn_tostring)]"

definition module_functions :: "(string \<times> hi_function) list" where
  "module_functions = [(''connect'', Fn_connect), (''unwrap_reply'', Fn_unwrap_reply)]"

definition hi_call :: "'c redis_lib \<Rightarrow> nat \<Rightarrow> hi_function \<Rightarrow> hi_val list \<Rightarrow> 'c hi_state \<Rightarrow> 'c hi_result" where
  "hi_call lib th f L st =
     (case f of
        Fn_connect \<Rightarrow> lhiredis_connect lib th st
      | Fn_unwrap_reply \<Rightarrow> lhiredis_unwrap_reply lib L st
      | Fn_command \<Rightarrow> lconn_command lib L st
      | Fn_command_line \<Rightarrow> lconn_command_line lib L st
      | Fn_append_command \<Rightarrow> lconn_append_command lib L st
      | Fn_get_reply \<Rightarrow> lconn_get_reply lib L st
      | Fn_close \<Rightarrow> lconn_close L st
      | Fn_gc \<Rightarrow> lconn_close L st
      | Fn_tostring \<Rightarrow> lconn_tostring L st)"

definition hi_zero :: "'c hi_state" where
  "hi_zero = \<lparr>hs_host = [], hs_port = 0, hs_consts = [], hs_status = [], hs_module = [], hs_count = (\<lambda>_. None),
     hs_conns = [], hs_replies = 0\<rparr>"

text \<open>The status table is a local of the function until it is stored in the module.\<close>

definition luaopen_hiredis :: "'c redis_lib \<Rightarrow> nat \<Rightarrow> byte list option \<Rightarrow> int \<Rightarrow> 'c hi_state \<Rightarrow> 'c hi_state lua_proc" where
  "luaopen_hiredis lib th redis_host redis_port st =
     (let t = reg_enum (redis_reply_types lib) (reg_enum (redis_errors lib) (hs_module st)) in
      case push_new_const (bytes_of ''NIL'') (REDIS_REPLY_NIL lib) st of (nil, st) \<Rightarrow>
      let t = AList.update LUAHIREDIS_KEY_NIL (HConst nil) t; st = st\<lparr>hs_status := []\<rparr> in
      case status_gettable lib (bytes_of ''OK'') st of (ok, st) \<Rightarrow>
      case status_gettable lib (bytes_of ''QUEUED'') st of (queued, st) \<Rightarrow>
      case status_gettable lib (bytes_of ''PONG'') st of (pong, st) \<Rightarrow>
      let t = AList.update ''PONG'' (HConst pong) (AList.update ''QUEUED'' (HConst queued) (AList.update ''OK'' (HConst ok) t));
          t = setfuncs module_functions (AList.update ''status'' HStatus t) in
      case redis_host of
        None \<Rightarrow> LCrash ''strndup of a null pointer''
      | Some h \<Rightarrow>
          LReturn (st\<lparr>hs_module := t, hs_host := take PATH_MAX (bcstr h), hs_port := redis_port,
            hs_count := (hs_count st)(th := Some 0)\<rparr>))"

end
