(* ===== verification/HiredisProps.thy ===== *)
theory HiredisProps
  imports Hiredis
begin

text \<open>
  The Redis client keeps its promises: constants are never changed or confused, equal statuses are
  the same object, replies can be unwrapped to what the server sent, and the connections of a
  thread are counted.
\<close>

section \<open>States of the client\<close>

definition const_ok :: "'c hi_state \<Rightarrow> nat \<Rightarrow> byte list \<Rightarrow> int \<Rightarrow> bool" where
  "const_ok st i name type \<longleftrightarrow> i < length (hs_consts st) \<and> hs_consts st ! i = \<lparr>co_name = name, co_type = type\<rparr>"

definition status_ok :: "'c redis_lib \<Rightarrow> 'c hi_state \<Rightarrow> bool" where
  "status_ok lib st \<longleftrightarrow> (\<forall>s i. map_of (hs_status st) s = Some i \<longrightarrow> const_ok st i s (REDIS_REPLY_STATUS lib))"

definition module_ok :: "'c redis_lib \<Rightarrow> 'c hi_state \<Rightarrow> bool" where
  "module_ok lib st \<longleftrightarrow>
     map_of (hs_module st) ''status'' = Some HStatus \<and>
     map_of (hs_module st) LUAHIREDIS_KEY_NIL = Some (HConst 0) \<and> const_ok st 0 (bytes_of ''NIL'') (REDIS_REPLY_NIL lib) \<and>
     (\<forall>k \<in> {''OK'', ''QUEUED'', ''PONG''}. \<exists>i. map_of (hs_module st) k = Some (HConst i) \<and>
        map_of (hs_status st) (bytes_of k) = Some i)"

definition count_ok :: "nat \<Rightarrow> 'c hi_state \<Rightarrow> bool" where
  "count_ok th st \<longleftrightarrow> hs_count st th = Some (int (length (hs_conns st))) \<and> int (length (hs_conns st)) \<le> MAX_REDIS_CONNECTIONS"

definition hi_inv :: "'c redis_lib \<Rightarrow> nat \<Rightarrow> 'c hi_state \<Rightarrow> bool" where
  "hi_inv lib th st \<longleftrightarrow> status_ok lib st \<and> module_ok lib st \<and> count_ok th st"

text \<open>What stays from one state to a later one: constants, and the object of every status.\<close>

definition extends :: "'c hi_state \<Rightarrow> 'c hi_state \<Rightarrow> bool" where
  "extends st st' \<longleftrightarrow> (\<exists>cs. hs_consts st' = hs_consts st @ cs) \<and> map_of (hs_status st) \<subseteq>\<^sub>m map_of (hs_status st') \<and>
     hs_module st' = hs_module st"

text \<open>The value a script has for a reply.\<close>

fun reads :: "'c redis_lib \<Rightarrow> 'c hi_state \<Rightarrow> redis_reply \<Rightarrow> hi_val \<Rightarrow> bool" where
  "reads lib st (ReplyStatus s) v \<longleftrightarrow>
     (\<exists>i. v = HConst i \<and> map_of (hs_status st) s = Some i \<and> const_ok st i s (REDIS_REPLY_STATUS lib))"
| "reads lib st (ReplyError e) v \<longleftrightarrow> (\<exists>i. v = HConst i \<and> const_ok st i e (REDIS_REPLY_ERROR lib))"
| "reads lib st (ReplyInteger n) v \<longleftrightarrow> v = hi_number n"
| "reads lib st ReplyNil v \<longleftrightarrow> v = HConst 0 \<and> const_ok st 0 (bytes_of ''NIL'') (REDIS_REPLY_NIL lib)"
| "reads lib st (ReplyString s) v \<longleftrightarrow> v = hi_string s"
| "reads lib st (ReplyArray rs) v \<longleftrightarrow> (\<exists>vs. v = HArray vs \<and> list_all2 (reads lib st) rs vs)"
| "reads lib st (ReplyOther ty) v \<longleftrightarrow> False"

fun known_reply :: "redis_reply \<Rightarrow> bool" where
  "known_reply (ReplyArray rs) = list_all known_reply rs"
| "known_reply (ReplyOther ty) = False"
| "known_reply _ = True"

lemma extends_refl [simp]: "extends st st" by (simp add: extends_def)

lemma extends_trans: "extends a b \<Longrightarrow> extends b c \<Longrightarrow> extends a c"
  unfolding extends_def by (metis append.assoc map_le_trans)

lemma extends_cong:
  "hs_consts a = hs_consts b \<Longrightarrow> hs_status a = hs_status b \<Longrightarrow> hs_module a = hs_module b \<Longrightarrow> extends a b"
  by (simp add: extends_def)

lemma const_ok_extends: "extends st st' \<Longrightarrow> const_ok st i n t \<Longrightarrow> const_ok st' i n t"
  by (auto simp: extends_def const_ok_def nth_append)

lemma status_extends: "extends st st' \<Longrightarrow> map_of (hs_status st) s = Some i \<Longrightarrow> map_of (hs_status st') s = Some i"
  by (auto simp: extends_def map_le_def dom_def)

lemma reads_extends: "extends st st' \<Longrightarrow> reads lib st r v \<Longrightarrow> reads lib st' r v"
proof (induction r arbitrary: v)
  case (ReplyArray rs)
  then show ?case by (auto elim!: list.rel_mono_strong)
qed (auto intro: const_ok_extends status_extends)

lemma module_extends:
  assumes "extends st st'" "module_ok lib st"
  shows "module_ok lib st'"
proof -
  have "hs_module st' = hs_module st" using assms(1) by (simp add: extends_def)
  then show ?thesis
    using assms(2) const_ok_extends [OF assms(1)] status_extends [OF assms(1)] unfolding module_ok_def by fastforce
qed

text \<open>New constants and statuses.\<close>

definition replies_only :: "'c hi_state \<Rightarrow> 'c hi_state \<Rightarrow> bool" where
  "replies_only st st' \<longleftrightarrow> extends st st' \<and> hs_count st' = hs_count st \<and> hs_conns st' = hs_conns st \<and>
     hs_replies st' = hs_replies st"

lemma replies_only_trans: "replies_only a b \<Longrightarrow> replies_only b c \<Longrightarrow> replies_only a c"
  unfolding replies_only_def by (metis extends_trans)

lemma push_new_const_ok:
  assumes "push_new_const n t st = (i, st')" "status_ok lib st"
  shows "replies_only st st'" "const_ok st' i n t" "status_ok lib st'" "hs_status st' = hs_status st"
proof -
  have st': "st' = st\<lparr>hs_consts := hs_consts st @ [\<lparr>co_name = n, co_type = t\<rparr>]\<rparr>" "i = length (hs_consts st)"
    using assms(1) by (auto simp: push_new_const_def)
  show e: "replies_only st st'" by (simp add: st' replies_only_def extends_def)
  show "const_ok st' i n t" by (simp add: st' const_ok_def)
  show "hs_status st' = hs_status st" by (simp add: st')
  then show "status_ok lib st'" using assms(2) e const_ok_extends unfolding status_ok_def replies_only_def by fastforce
qed

lemma status_gettable_ok:
  assumes "status_gettable lib s st = (i, st')" "status_ok lib st"
  shows "replies_only st st'" "map_of (hs_status st') s = Some i" "const_ok st' i s (REDIS_REPLY_STATUS lib)" "status_ok lib st'"
proof -
  have "replies_only st st' \<and> map_of (hs_status st') s = Some i \<and> status_ok lib st'"
  proof (cases "map_of (hs_status st) s")
    case None
    obtain j st1 where n: "push_new_const s (REDIS_REPLY_STATUS lib) st = (j, st1)" by fastforce
    note ok = push_new_const_ok [OF n assms(2)]
    have st': "st' = st1\<lparr>hs_status := AList.update s j (hs_status st1)\<rparr>" "i = j"
      using assms(1) by (auto simp: status_gettable_def None lstatus_index_def n update_conv')
    have "extends st st'"
      using ok(1) None by (auto simp: st' ok(4) replies_only_def extends_def update_conv' map_le_def dom_def)
    moreover have "status_ok lib st'"
      using ok(2,3) by (simp add: status_ok_def st' update_conv' const_ok_def)
    ultimately show ?thesis using ok(1) by (simp add: st' update_conv' replies_only_def)
  qed (use assms in \<open>simp add: status_gettable_def replies_only_def\<close>)
  then show "replies_only st st'" "map_of (hs_status st') s = Some i" "status_ok lib st'" by simp_all
  then show "const_ok st' i s (REDIS_REPLY_STATUS lib)" by (simp add: status_ok_def)
qed

section \<open>Replies as values\<close>

lemma push_reply_ok:
  "known_reply r \<Longrightarrow> status_ok lib st \<Longrightarrow> module_ok lib st \<Longrightarrow>
    \<exists>v st'. push_reply lib r st = (Inr v, st') \<and> reads lib st' r v \<and> replies_only st st' \<and> status_ok lib st'"
  "list_all known_reply rs \<Longrightarrow> status_ok lib st \<Longrightarrow> module_ok lib st \<Longrightarrow>
    \<exists>vs st'. push_elements lib rs st = (Inr vs, st') \<and> list_all2 (reads lib st') rs vs \<and> replies_only st st' \<and> status_ok lib st'"
proof (induction lib r st and lib rs st rule: push_reply_push_elements.induct)
  case (1 lib s st)
  obtain i st' where g: "status_gettable lib s st = (i, st')" by fastforce
  show ?case using status_gettable_ok [OF g 1(2)] 1(3) by (simp add: g module_ok_def)
next
  case (2 lib e st)
  obtain i st' where g: "push_new_const e (REDIS_REPLY_ERROR lib) st = (i, st')" by fastforce
  show ?case using push_new_const_ok [OF g 2(2)] by (simp add: g)
next
  case (6 lib rs st)
  then obtain vs st' where "push_elements lib rs st = (Inr vs, st')" "list_all2 (reads lib st') rs vs" "replies_only st st'"
    "status_ok lib st'" by auto
  then show ?case by simp
next
  case (9 lib r rs st)
  obtain v st1 where v: "push_reply lib r st = (Inr v, st1)" "reads lib st1 r v" "replies_only st st1" "status_ok lib st1"
    using 9(1) 9(3-5) by auto
  have "module_ok lib st1" using v(3) 9(5) module_extends by (auto simp: replies_only_def)
  then obtain vs st2 where vs: "push_elements lib rs st1 = (Inr vs, st2)" "list_all2 (reads lib st2) rs vs" "replies_only st1 st2"
    "status_ok lib st2"
    using 9(2) [OF v(1) [symmetric] refl] 9(3) v(4) by auto
  have "reads lib st2 r v" using reads_extends v(2) vs(3) by (auto simp: replies_only_def)
  with v vs replies_only_trans [OF v(3) vs(3)] show ?case by simp
qed (simp_all add: replies_only_def module_ok_def)

lemma push_reply_unknown:
  "status_ok lib st \<Longrightarrow> push_reply lib r st = (x, st') \<Longrightarrow> replies_only st st' \<and> status_ok lib st'"
  "status_ok lib st \<Longrightarrow> push_elements lib rs st = (y, st') \<Longrightarrow> replies_only st st' \<and> status_ok lib st'"
proof (induction lib r st and lib rs st arbitrary: x st' and y st' rule: push_reply_push_elements.induct)
  case (1 lib s st)
  then show ?case
    using status_gettable_ok(1,4) [of lib s st _ st'] by (auto simp: replies_only_def split: if_splits prod.splits)
next
  case (2 lib e st)
  then show ?case using push_new_const_ok(1,3) [of e "REDIS_REPLY_ERROR lib" st _ st'] by (auto split: prod.splits)
next
  case (6 lib rs st)
  then show ?case by (auto split: prod.splits sum.splits)
next
  case (9 lib r rs st)
  obtain z st1 where v: "push_reply lib r st = (z, st1)" by fastforce
  note r = 9(1) [OF 9(3) v]
  show ?case
  proof (cases z)
    case (Inr a)
    obtain w st2 where "push_elements lib rs st1 = (w, st2)" by fastforce
    with 9(2) [OF v [symmetric] Inr _ this] 9(4) v Inr r replies_only_trans [of st st1 st2] show ?thesis
      by (auto split: sum.splits)
  qed (use 9(4) v r in auto)
qed (auto simp: replies_only_def)

lemma take_reply_ok:
  assumes "take_reply lib c reply st = LReturn (x, st')" "status_ok lib st"
  shows "extends st st' \<and> hs_count st' = hs_count st \<and> hs_conns st' = hs_conns st \<and> status_ok lib st'"
proof (cases reply)
  case (Some r)
  define st0 where "st0 = st\<lparr>hs_replies := hs_replies st + 1\<rparr>"
  obtain y st1 where p: "push_reply lib r st0 = (y, st1)" by fastforce
  have "replies_only st0 st1 \<and> status_ok lib st1"
    by (rule push_reply_unknown(1) [OF _ p]) (use assms(2) in \<open>simp add: st0_def status_ok_def const_ok_def\<close>)
  moreover have "st' = st1 \<or> st' = st1\<lparr>hs_replies := hs_replies st1 - 1\<rparr>"
    using assms(1) p [unfolded st0_def] by (auto simp: take_reply_def Some split: sum.splits)
  ultimately show ?thesis
    by (auto simp: st0_def replies_only_def extends_def status_ok_def const_ok_def)
qed (use assms in \<open>simp_all add: take_reply_def\<close>)

section \<open>Calls\<close>

text \<open>Values a script can have: connections and constants that exist.\<close>

definition is_value :: "'c hi_state \<Rightarrow> hi_val \<Rightarrow> bool" where
  "is_value st v \<longleftrightarrow> (case v of HConn i \<Rightarrow> i < length (hs_conns st) | HConst i \<Rightarrow> i < length (hs_consts st) | _ \<Rightarrow> True)"

inductive hi_step :: "'c redis_lib \<Rightarrow> nat \<Rightarrow> 'c hi_state \<Rightarrow> 'c hi_state \<Rightarrow> bool" for lib th where
  call: "\<forall>v \<in> set L. is_value st v \<Longrightarrow> hi_call lib th f L st = LReturn (r, st') \<Longrightarrow> hi_step lib th st st'"

inductive_cases hi_stepE: "hi_step lib th st st'"

inductive hi_reaches :: "'c redis_lib \<Rightarrow> nat \<Rightarrow> 'c hi_state \<Rightarrow> 'c hi_state \<Rightarrow> bool" for lib th where
  none: "hi_reaches lib th st st"
| more: "hi_reaches lib th st st1 \<Longrightarrow> hi_step lib th st1 st2 \<Longrightarrow> hi_reaches lib th st st2"

lemma set_context_simps [simp]:
  "hs_consts (set_context i c st) = hs_consts st" "hs_status (set_context i c st) = hs_status st"
  "hs_module (set_context i c st) = hs_module st" "hs_count (set_context i c st) = hs_count st"
  "hs_replies (set_context i c st) = hs_replies st" "length (hs_conns (set_context i c st)) = length (hs_conns st)"
  "status_ok lib (set_context i c st) = status_ok lib st"
  by (simp_all add: set_context_def status_ok_def const_ok_def)

lemma take_reply_context:
  assumes "take_reply lib c reply (set_context i d st) = LReturn (x, st')" "status_ok lib st"
  shows "extends st st' \<and> hs_count st' = hs_count st \<and> length (hs_conns st') = length (hs_conns st) \<and> status_ok lib st'"
  using take_reply_ok [OF assms(1)] assms(2) by (auto simp: extends_def)

lemma connect_keeps:
  assumes "hi_inv lib th st" "lhiredis_connect lib th st = LReturn (r, st')"
  shows "extends st st' \<and> hi_inv lib th st'"
proof -
  have *: "status_ok lib s = status_ok lib st \<and> module_ok lib s = module_ok lib st"
    if "s = st\<lparr>hs_count := c, hs_conns := d\<rparr>" for s c d by (simp add: that status_ok_def module_ok_def const_ok_def)
  show ?thesis
    using assms unfolding lhiredis_connect_def hi_inv_def count_ok_def Let_def
    by (auto split: if_splits option.splits simp: extends_def *)
qed

text \<open>The other functions keep the number of connections.\<close>

lemma method_keeps:
  assumes "status_ok lib st" "hi_call lib th f L st = LReturn (r, st')" "f \<noteq> Fn_connect"
  shows "extends st st' \<and> hs_count st' = hs_count st \<and> length (hs_conns st') = length (hs_conns st) \<and> status_ok lib st'"
proof (cases f)
  case Fn_unwrap_reply
  have "st' = st" using assms(2) unfolding Fn_unwrap_reply
    by (auto simp: hi_call_def lhiredis_unwrap_reply_def Let_def split: if_splits)
  then show ?thesis using assms(1) by simp
next
  case Fn_command
  then show ?thesis using assms take_reply_context
    by (fastforce simp: hi_call_def lconn_command_def split: sum.splits prod.splits)
next
  case Fn_command_line
  then show ?thesis using assms take_reply_context
    by (fastforce simp: hi_call_def lconn_command_line_def split: sum.splits prod.splits if_splits option.splits)
next
  case Fn_append_command
  then show ?thesis using assms
    by (auto simp: hi_call_def lconn_append_command_def extends_def split: sum.splits prod.splits)
next
  case Fn_get_reply
  have e: "extends st (set_context i c st)" for i c by (simp add: extends_def)
  show ?thesis using Fn_get_reply assms take_reply_context e
    by (fastforce simp: hi_call_def lconn_get_reply_def Let_def split: sum.splits prod.splits if_splits)
next
  case Fn_tostring
  then show ?thesis using assms by (auto simp: hi_call_def lconn_tostring_def split: sum.splits)
qed (use assms in \<open>auto simp: hi_call_def lconn_close_def extends_def split: hi_val.splits\<close>)

lemma call_keeps:
  assumes "hi_inv lib th st" "hi_call lib th f L st = LReturn (r, st')"
  shows "extends st st' \<and> hi_inv lib th st'"
proof (cases "f = Fn_connect")
  case True
  then show ?thesis using connect_keeps [OF assms(1)] assms(2) by (simp add: hi_call_def)
next
  case False
  with method_keeps [OF _ assms(2)] assms(1) show ?thesis
    by (auto simp: hi_inv_def count_ok_def intro: module_extends)
qed

lemma reaches_keeps: "hi_reaches lib th st st' \<Longrightarrow> hi_inv lib th st \<Longrightarrow> extends st st' \<and> hi_inv lib th st'"
proof (induction rule: hi_reaches.induct)
  case (more st st1 st2)
  then show ?case by (meson call_keeps extends_trans hi_stepE)
qed simp

lemma opened:
  assumes "luaopen_hiredis lib th h p hi_zero = LReturn st"
  shows "hi_inv lib th st"
proof -
  have b: "bytes_of ''OK'' \<noteq> bytes_of ''QUEUED''" "bytes_of ''OK'' \<noteq> bytes_of ''PONG''" "bytes_of ''QUEUED'' \<noteq> bytes_of ''PONG''"
    by (simp_all add: bytes_of_inject)
  show ?thesis
    using assms b
    by (auto simp: luaopen_hiredis_def Let_def push_new_const_def status_gettable_def lstatus_index_def hi_zero_def update_conv'
        module_functions_def LUAHIREDIS_KEY_NIL_def MAX_REDIS_CONNECTIONS_def
        hi_inv_def count_ok_def module_ok_def status_ok_def const_ok_def split: option.splits if_splits)
qed

section \<open>The properties\<close>

text \<open>
  However a script calls the functions of the Redis client, equal statuses stay the same object,
  constants and the fields OK, QUEUED, PONG and NIL of the module never change, and the registry
  counts the connections that the thread ever made, of which there are at most three.
\<close>

theorem hiredis_invariant:
  assumes "luaopen_hiredis lib th host port hi_zero = LReturn st0" "hi_reaches lib th st0 st1" "hi_reaches lib th st1 st2"
  shows "extends st1 st2 \<and> status_ok lib st2 \<and> module_ok lib st2 \<and>
    hs_count st2 th = Some (int (length (hs_conns st2))) \<and> length (hs_conns st2) \<le> 3"
proof -
  have "hi_inv lib th st1" using reaches_keeps [OF assms(2)] opened [OF assms(1)] by simp
  with reaches_keeps [OF assms(3)] show ?thesis by (auto simp: hi_inv_def count_ok_def MAX_REDIS_CONNECTIONS_def)
qed

lemma load_strings_ok:
  "list_all (\<lambda>v. hi_tolstring lib v \<noteq> None) vs \<Longrightarrow> load_strings lib n vs = Inr (map (\<lambda>v. the (hi_tolstring lib v)) vs)"
  by (induction vs arbitrary: n) auto

text \<open>
  A command with at most 256 strings or numbers as arguments is sent as these strings, and the value
  returned for the reply, unwrapped, is what the server answered: a status gives its text and the
  number of its type, an error nil and its text, another reply its value. The reply is freed.
\<close>

theorem command_reply:
  assumes "hi_inv lib th st" "i < length (hs_conns st)" "hs_conns st ! i = Some c"
    "args \<noteq> []" "length args \<le> 256" "list_all (\<lambda>v. hi_tolstring lib v \<noteq> None) args"
    "rl_command_argv lib (map (\<lambda>v. the (hi_tolstring lib v)) args) c = (Some r, c')" "known_reply r"
    "distinct [REDIS_REPLY_STATUS lib, REDIS_REPLY_ERROR lib, REDIS_REPLY_NIL lib]"
  shows "\<exists>v st'. lconn_command lib (HConn i # args) st = LReturn (Inr [v], st') \<and> reads lib st' r v \<and>
    hs_replies st' = hs_replies st \<and> hs_conns st' = (hs_conns st)[i := Some c'] \<and> extends st st' \<and>
    lhiredis_unwrap_reply lib [v] st' = LReturn (Inr (case r of
        ReplyStatus s \<Rightarrow> [hi_string s, hi_number (REDIS_REPLY_STATUS lib)]
      | ReplyError e \<Rightarrow> [hi_nil, hi_string e]
      | _ \<Rightarrow> [v]), st')"
proof -
  have "load_args lib (HConn i # args) 2 = Inr (map (\<lambda>v. the (hi_tolstring lib v)) args)"
    using load_strings_ok [OF assms(6)] assms(4,5) by (cases args) (simp_all add: load_args_def LUAHIREDIS_MAXARGS_def)
  moreover have "check_connection (HConn i # args) 1 st = Inr (i, c)" using assms(3) by (simp add: check_connection_def hi_at_def)
  moreover define st0 where "st0 = (set_context i (Some c') st)\<lparr>hs_replies := hs_replies st + 1\<rparr>"
  have "status_ok lib st0" "module_ok lib st0"
    using assms(1) by (simp_all add: st0_def hi_inv_def status_ok_def module_ok_def const_ok_def)
  from push_reply_ok(1) [OF assms(8) this] obtain v st1 where p: "push_reply lib r st0 = (Inr v, st1)" "reads lib st1 r v"
    "replies_only st0 st1" by blast
  define st' where "st' = st1\<lparr>hs_replies := hs_replies st1 - 1\<rparr>"
  have e: "extends st1 st'" by (simp add: extends_def st'_def)
  have "take_reply lib c' (Some r) (set_context i (Some c') st) = LReturn (Inr [v], st')"
    using p(1) [unfolded st0_def] by (simp add: take_reply_def st'_def)
  ultimately have "lconn_command lib (HConn i # args) st = LReturn (Inr [v], st')"
    using assms(7) by (simp add: lconn_command_def)
  moreover have r: "reads lib st' r v" using reads_extends [OF e p(2)] .
  moreover have "extends st st'" "hs_replies st' = hs_replies st" "hs_conns st' = (hs_conns st)[i := Some c']"
    using p(3) e by (auto simp: replies_only_def extends_def st0_def st'_def set_context_def)
  moreover have "lhiredis_unwrap_reply lib [v] st' = LReturn (Inr (case r of
        ReplyStatus s \<Rightarrow> [hi_string s, hi_number (REDIS_REPLY_STATUS lib)]
      | ReplyError e \<Rightarrow> [hi_nil, hi_string e]
      | _ \<Rightarrow> [v]), st')"
    using r assms(8,9)
    by (cases r) (auto simp: lhiredis_unwrap_reply_def Let_def hi_at_def hi_istable_def hi_metatable_def hi_const_def const_ok_def
        hi_number_def hi_string_def hi_nil_def is_table_def)
  ultimately show ?thesis by blast
qed

section \<open>An example\<close>

text \<open>A server whose answers are given beforehand: a context is the list of answers to come.\<close>

definition example_lib :: "redis_reply list redis_lib" where
  "example_lib =
     \<lparr>rl_connect = (\<lambda>host port. Some [ReplyStatus [80], ReplyArray [ReplyNil, ReplyError [69]]]), rl_connect_unix = (\<lambda>path. None),
      rl_err = (\<lambda>c. 0), rl_errstr = (\<lambda>c. Some []),
      rl_command_argv = (\<lambda>argv c. case c of [] \<Rightarrow> (None, c) | r # c \<Rightarrow> (Some r, c)),
      rl_command = (\<lambda>f c. if 37 \<in> set f then None else Some (None, c)),
      rl_append_argv = (\<lambda>argv c. c), rl_get_reply = (\<lambda>c. ((0, None), c)), rl_num2str = (\<lambda>d. [49]),
      REDIS_OK = 0, REDIS_ERR_IO = 1, REDIS_ERR_EOF = 3, REDIS_ERR_PROTOCOL = 4, REDIS_ERR_OTHER = 2,
      REDIS_REPLY_STRING = 1, REDIS_REPLY_ARRAY = 2, REDIS_REPLY_INTEGER = 3, REDIS_REPLY_NIL = 4,
      REDIS_REPLY_STATUS = 5, REDIS_REPLY_ERROR = 6\<rparr>"

definition example_opened :: "redis_reply list hi_state" where
  "example_opened = (case luaopen_hiredis example_lib 0 (Some [104]) 6379 hi_zero of LReturn st \<Rightarrow> st | _ \<Rightarrow> hi_zero)"

definition example_connected :: "redis_reply list hi_state" where
  "example_connected = (case lhiredis_connect example_lib 0 example_opened of LReturn (_, st) \<Rightarrow> st | _ \<Rightarrow> hi_zero)"

lemma example_open: "luaopen_hiredis example_lib 0 (Some [104]) 6379 hi_zero = LReturn example_opened"
  by (simp add: example_opened_def luaopen_hiredis_def Let_def split: prod.split)

lemma example_fields: "hs_port example_opened = 6379" "hs_count example_opened 0 = Some 0" "hs_conns example_opened = []"
  by (simp_all add: example_opened_def luaopen_hiredis_def Let_def push_new_const_def status_gettable_def lstatus_index_def hi_zero_def
      split: option.split)

lemma example_connect: "lhiredis_connect example_lib 0 example_opened = LReturn (Inr [HConn 0], example_connected)"
  by (simp add: example_connected_def lhiredis_connect_def example_fields MAX_REDIS_CONNECTIONS_def example_lib_def)

lemma example_conns: "hs_conns example_connected = [Some [ReplyStatus [80], ReplyArray [ReplyNil, ReplyError [69]]]]"
  by (simp add: example_connected_def lhiredis_connect_def example_fields MAX_REDIS_CONNECTIONS_def example_lib_def)

lemma example_step: "hi_step example_lib 0 example_opened example_connected"
  by (rule hi_step.call [of "[]" _ _ _ Fn_connect]) (simp_all add: hi_call_def example_connect)

theorem hiredis_invariant_witness:
  "extends example_opened example_connected \<and> hs_count example_connected 0 = Some 1"
  using hiredis_invariant [OF example_open hi_reaches.none hi_reaches.more [OF hi_reaches.none example_step]] example_conns
  by simp

theorem command_reply_witness:
  "\<exists>v st'. lconn_command example_lib [HConn 0, hi_string [80]] example_connected = LReturn (Inr [v], st') \<and>
    lhiredis_unwrap_reply example_lib [v] st' = LReturn (Inr [hi_string [80], hi_number 5], st')"
proof -
  have i: "hi_inv example_lib 0 example_connected"
    using connect_keeps [OF opened [OF example_open] example_connect] by simp
  have "\<exists>v st'. lconn_command example_lib (HConn 0 # [hi_string [80]]) example_connected = LReturn (Inr [v], st') \<and>
      lhiredis_unwrap_reply example_lib [v] st' = LReturn (Inr [hi_string [80], hi_number (REDIS_REPLY_STATUS example_lib)], st')"
    using command_reply [OF i, of 0 _ "[hi_string [80]]" "ReplyStatus [80]"] example_conns
    by (force simp: hi_tolstring_def hi_string_def lua_tolstring_def example_lib_def)
  then show ?thesis by (simp add: example_lib_def)
qed

section \<open>Limits of the client\<close>

text \<open>The count is not lowered when a connection is closed: after three connections there is never another.\<close>

lemma limit_is_final:
  assumes "hi_inv lib th st" "length (hs_conns st) = 3" "hi_reaches lib th st st'"
  shows "lhiredis_connect lib th st' =
    LReturn (Inr [hi_nil, hi_string (bytes_of ''exceeded the number of allowable redis connections''), hi_number 3], st')"
proof -
  have "length (hs_conns st) \<le> length (hs_conns st')" using assms(3,1)
  proof (induction rule: hi_reaches.induct)
    case (more st st1 st2)
    obtain f L r where c: "hi_call lib th f L st1 = LReturn (r, st2)" using more.hyps(2) by (auto elim: hi_stepE)
    have "length (hs_conns st1) \<le> length (hs_conns st2)"
    proof (cases "f = Fn_connect")
      case True
      with c show ?thesis by (auto simp: hi_call_def lhiredis_connect_def Let_def split: if_splits option.splits)
    next
      case False
      have "status_ok lib st1" using reaches_keeps [OF more.hyps(1) more.prems] by (simp add: hi_inv_def)
      from method_keeps [OF this c False] show ?thesis by simp
    qed
    with more.IH [OF more.prems] show ?case by simp
  qed simp
  with reaches_keeps [OF assms(3,1)] assms(2) show ?thesis
    by (simp add: hi_inv_def count_ok_def lhiredis_connect_def MAX_REDIS_CONNECTIONS_def)
qed

text \<open>A coroutine is a thread of its own: its count starts at 0.\<close>

lemma limit_per_thread:
  assumes "hs_count st th = None" "0 < hs_port st" "rl_connect lib (hs_host st) (hs_port st) = Some c" "rl_err lib c = 0"
  shows "\<exists>st'. lhiredis_connect lib th st = LReturn (Inr [HConn (length (hs_conns st))], st')"
  using assms by (simp add: lhiredis_connect_def MAX_REDIS_CONNECTIONS_def)

text \<open>The text of \<open>command_line\<close> is a format: a directive in it reads an argument that is not there.\<close>

lemma command_line_is_format:
  assumes "hs_conns st ! i = Some c" "rl_command lib (bcstr s) c = None"
  shows "lconn_command_line lib [HConn i, hi_string s] st = LCrash ''a directive of the format has no argument''"
  using assms by (simp add: lconn_command_line_def check_connection_def hi_at_def hi_tolstring_def hi_string_def lua_tolstring_def)

text \<open>A reply of unknown type is not freed.\<close>

lemma unknown_reply_leaks:
  assumes "hs_conns st ! i = Some c" "rl_get_reply lib c = ((REDIS_OK lib, Some (ReplyOther ty)), c')"
  shows "\<exists>e st'. lconn_get_reply lib [HConn i] st = LReturn (Inl e, st') \<and> hs_replies st' = hs_replies st + 1"
  using assms by (simp add: lconn_get_reply_def check_connection_def hi_at_def take_reply_def Let_def set_context_def)

end
