(* ===== verification/IpfixField.thy ===== *)
theory IpfixField
  imports Posix
begin

text \<open>
  The information elements of \<open>lib/libipfix/lib/ipfix.c\<close>: how a value is encoded, decoded and printed,
  and the list of known elements. A value is the bytes it has in memory, its length their number.
  The byte order of the machine is \<open>ih_little\<close>; \<open>ih_flag\<close> is \<open>g_isLittleEndian\<close>, which
  \<open>testEndianness\<close> sets.
\<close>

section \<open>Encoding\<close>

record ipfix_host =
  ih_little :: bool
  ih_flag :: bool

definition testEndianness :: "ipfix_host \<Rightarrow> ipfix_host" where
  "testEndianness h = h\<lparr>ih_flag := ih_little h\<rparr>"

text \<open>\<open>htons\<close>, \<open>htonl\<close> and their inverses on the bytes in memory; \<open>HTONLL\<close> goes by the flag.\<close>

definition hton :: "ipfix_host \<Rightarrow> byte list \<Rightarrow> byte list" where
  "hton h bs = (if ih_little h then rev bs else bs)"

definition HTONLL :: "ipfix_host \<Rightarrow> byte list \<Rightarrow> byte list" where
  "HTONLL h bs =
     (if ih_flag h then
        (if ih_little h then hton h (drop 4 bs) @ hton h (take 4 bs) else drop 4 bs @ take 4 bs)
      else bs)"

definition ipfix_encode_int :: "ipfix_host \<Rightarrow> byte list \<Rightarrow> int \<times> byte list" where
  "ipfix_encode_int h i =
     (if length i = 1 then (0, i)
      else if length i = 2 then (0, hton h i)
      else if length i = 4 then (0, hton h i)
      else if length i = 8 then (0, HTONLL h i)
      else (-1, replicate (length i) 0xFF))"

definition ipfix_decode_int :: "ipfix_host \<Rightarrow> byte list \<Rightarrow> int \<times> byte list" where
  "ipfix_decode_int h i =
     (if length i = 1 then (0, i)
      else if length i = 2 then (0, hton h i)
      else if length i = 4 then (0, hton h i)
      else if length i = 8 then (0, HTONLL h i)
      else (-1, replicate (length i) 0xFF))"

definition ipfix_encode_bytes :: "byte list \<Rightarrow> int \<times> byte list" where
  "ipfix_encode_bytes i = (0, i)"

definition ipfix_decode_bytes :: "byte list \<Rightarrow> int \<times> byte list" where
  "ipfix_decode_bytes i = (0, i)"

definition ipfix_encode_float :: "ipfix_host \<Rightarrow> byte list \<Rightarrow> int \<times> byte list" where
  "ipfix_encode_float h i =
     (if length i = 4 then (0, hton h i)
      else if length i = 8 then (0, HTONLL h i)
      else (-1, replicate (length i) 0xFF))"

definition ipfix_decode_float :: "ipfix_host \<Rightarrow> byte list \<Rightarrow> int \<times> byte list" where
  "ipfix_decode_float h i = ipfix_encode_float h i"

section \<open>Printing\<close>

text \<open>The number that the bytes are in memory, unsigned and signed.\<close>

definition host_nat :: "ipfix_host \<Rightarrow> byte list \<Rightarrow> nat" where
  "host_nat h bs = be_nat (hton h bs)"

definition host_int :: "ipfix_host \<Rightarrow> byte list \<Rightarrow> int" where
  "host_int h bs = signed_take_bit (8 * length bs - 1) (int (host_nat h bs))"

fun show_hex :: "nat \<Rightarrow> string" where
  "show_hex n =
     (if n < 16 then [if n < 10 then char_of (48 + n) else char_of (87 + n)]
      else show_hex (n div 16) @ show_hex (n mod 16))"

declare show_hex.simps [simp del]

definition show_hex2 :: "byte \<Rightarrow> string" where
  "show_hex2 b = show_hex (unat b div 16) @ show_hex (unat b mod 16)"

text \<open>A printer gives the number it returns and the text left in the buffer of \<open>sz\<close> bytes.\<close>

type_synonym printed = "(int \<times> string) proc"

definition snprint_text :: "nat \<Rightarrow> string \<Rightarrow> printed" where
  "snprint_text sz txt = Returned (int (length txt), snprintf sz txt)"

definition ipfix_snprint_int :: "ipfix_host \<Rightarrow> nat \<Rightarrow> byte list \<Rightarrow> printed" where
  "ipfix_snprint_int h sz data =
     (if length data = 1 then snprint_text sz (show_int (host_int h data))
      else if length data = 2 then snprint_text sz (show_int (host_int h data))
      else if length data = 4 then snprint_text sz (show_int (host_int h data))
      else if length data = 8 then snprint_text sz (show_int (host_int h data))
      else snprint_text sz ''err'')"

definition ipfix_snprint_uint :: "ipfix_host \<Rightarrow> nat \<Rightarrow> byte list \<Rightarrow> printed" where
  "ipfix_snprint_uint h sz data =
     (if length data = 1 then snprint_text sz (show_nat (host_nat h data))
      else if length data = 2 then snprint_text sz (show_nat (host_nat h data))
      else if length data = 4 then snprint_text sz (show_nat (host_nat h data))
      else if length data = 8 then snprint_text sz (show_nat (host_nat h data))
      else snprint_text sz ''err'')"

text \<open>The loop that lowers the length; it stops at 0, as the sz is at least 4.\<close>

fun shrink_len :: "nat \<Rightarrow> nat \<Rightarrow> nat" where
  "shrink_len sz 0 = 0"
| "shrink_len sz (Suc len) = (if Suc len * 2 + 2 > sz then shrink_len sz len else Suc len)"

definition ipfix_snprint_bytes :: "nat \<Rightarrow> byte list \<Rightarrow> printed" where
  "ipfix_snprint_bytes sz data =
     (if sz < 4 then snprint_text sz ''err''
      else
        let len = shrink_len sz (length data); txt = ''0x'' @ concat (map show_hex2 (take len data)) in
        if length txt + 1 > sz then Undefined ''write past the buffer''
        else Returned (int (length txt), txt))"

definition ipfix_snprint_string :: "nat \<Rightarrow> byte list \<Rightarrow> printed" where
  "ipfix_snprint_string sz data =
     (if 0 \<in> set data then snprint_text sz (chars_of (bcstr data))
      else if length data < sz then Returned (int (length data), chars_of data)
      else snprint_text sz ''err'')"

fun ip6_groups :: "bool \<Rightarrow> byte list \<Rightarrow> string" where
  "ip6_groups first (a # b # bs) = (if first then '''' else '':'') @ show_hex (be_nat [a, b]) @ ip6_groups False bs"
| "ip6_groups first _ = ''''"

definition ipfix_snprint_ipaddr :: "nat \<Rightarrow> byte list \<Rightarrow> printed" where
  "ipfix_snprint_ipaddr sz data =
     (if length data = 4 then
        snprint_text sz (show_nat (unat (data ! 0)) @ ''.'' @ show_nat (unat (data ! 1)) @ ''.'' @
          show_nat (unat (data ! 2)) @ ''.'' @ show_nat (unat (data ! 3)))
      else if length data = 16 then snprint_text sz (ip6_groups True data)
      else ipfix_snprint_bytes sz data)"

text \<open>\<open>fmt\<close> is the text \<open>%f\<close> gives for the float or double in memory.\<close>

definition ipfix_snprint_float :: "(byte list \<Rightarrow> string) \<Rightarrow> nat \<Rightarrow> byte list \<Rightarrow> printed" where
  "ipfix_snprint_float fmt sz data =
     (if length data = 4 \<or> length data = 8 then snprint_text sz (fmt data) else snprint_text sz ''err'')"

section \<open>Information elements\<close>

definition IPFIX_CODING_INT :: int where "IPFIX_CODING_INT = 1"
definition IPFIX_CODING_UINT :: int where "IPFIX_CODING_UINT = 2"
definition IPFIX_CODING_BYTES :: int where "IPFIX_CODING_BYTES = 3"
definition IPFIX_CODING_STRING :: int where "IPFIX_CODING_STRING = 4"
definition IPFIX_CODING_FLOAT :: int where "IPFIX_CODING_FLOAT = 5"
definition IPFIX_CODING_NTP :: int where "IPFIX_CODING_NTP = 6"
definition IPFIX_CODING_IPADDR :: int where "IPFIX_CODING_IPADDR = 7"

record ipfix_field_type =
  ft_eno :: int
  ft_ftype :: int
  ft_length :: int
  ft_coding :: int
  ft_name :: string
  ft_documentation :: string

text \<open>The function pointers of an element.\<close>

datatype ipfix_codec = Codec_int | Codec_float | Codec_bytes

datatype ipfix_printer = Print_int | Print_uint | Print_float | Print_ipaddr | Print_string | Print_bytes

record ipfix_field =
  fi_ft :: ipfix_field_type
  fi_encode :: ipfix_codec
  fi_decode :: ipfix_codec
  fi_snprint :: ipfix_printer

definition run_encode :: "ipfix_host \<Rightarrow> ipfix_codec \<Rightarrow> byte list \<Rightarrow> int \<times> byte list" where
  "run_encode h c bs = (case c of
     Codec_int \<Rightarrow> ipfix_encode_int h bs | Codec_float \<Rightarrow> ipfix_encode_float h bs | Codec_bytes \<Rightarrow> ipfix_encode_bytes bs)"

definition run_decode :: "ipfix_host \<Rightarrow> ipfix_codec \<Rightarrow> byte list \<Rightarrow> int \<times> byte list" where
  "run_decode h c bs = (case c of
     Codec_int \<Rightarrow> ipfix_decode_int h bs | Codec_float \<Rightarrow> ipfix_decode_float h bs | Codec_bytes \<Rightarrow> ipfix_decode_bytes bs)"

definition run_snprint :: "(byte list \<Rightarrow> string) \<Rightarrow> ipfix_host \<Rightarrow> ipfix_printer \<Rightarrow> nat \<Rightarrow> byte list \<Rightarrow> printed" where
  "run_snprint fmt h p sz data = (case p of
     Print_int \<Rightarrow> ipfix_snprint_int h sz data
   | Print_uint \<Rightarrow> ipfix_snprint_uint h sz data
   | Print_float \<Rightarrow> ipfix_snprint_float fmt sz data
   | Print_ipaddr \<Rightarrow> ipfix_snprint_ipaddr sz data
   | Print_string \<Rightarrow> ipfix_snprint_string sz data
   | Print_bytes \<Rightarrow> ipfix_snprint_bytes sz data)"

text \<open>\<open>%u\<close> of an int. \<open>alloc\<close>: both blocks can be allocated.\<close>

definition ipfix_create_unknown_ftinfo :: "bool \<Rightarrow> int \<Rightarrow> int \<Rightarrow> ipfix_field option" where
  "ipfix_create_unknown_ftinfo alloc eno type =
     (if \<not> alloc then None
      else
        let tmpbuf = show_nat (nat (eno mod 2 ^ 32)) @ ''_'' @ show_nat (nat (type mod 2 ^ 32)) in
        Some \<lparr>fi_ft = \<lparr>ft_eno = eno, ft_ftype = type, ft_length = 0, ft_coding = IPFIX_CODING_BYTES,
                       ft_name = strdup tmpbuf, ft_documentation = strdup tmpbuf\<rparr>,
              fi_encode = Codec_bytes, fi_decode = Codec_bytes, fi_snprint = Print_bytes\<rparr>)"

fun ipfix_get_ftinfo :: "ipfix_field list \<Rightarrow> int \<Rightarrow> int \<Rightarrow> ipfix_field option" where
  "ipfix_get_ftinfo [] eno type = None"
| "ipfix_get_ftinfo (f # fs) eno type =
     (if ft_ftype (fi_ft f) = type \<and> ft_eno (fi_ft f) = eno then Some f else ipfix_get_ftinfo fs eno type)"

fun ipfix_get_eno_ieid :: "ipfix_field list \<Rightarrow> string \<Rightarrow> (int \<times> int) option" where
  "ipfix_get_eno_ieid [] field = None"
| "ipfix_get_eno_ieid (f # fs) field =
     (if strcasecmp_eq field (ft_name (fi_ft f)) then Some (ft_eno (fi_ft f), ft_ftype (fi_ft f))
      else ipfix_get_eno_ieid fs field)"

definition new_field :: "ipfix_field_type \<Rightarrow> ipfix_field" where
  "new_field ft =
     (if ft_coding ft = IPFIX_CODING_INT then
        \<lparr>fi_ft = ft, fi_encode = Codec_int, fi_decode = Codec_int, fi_snprint = Print_int\<rparr>
      else if ft_coding ft = IPFIX_CODING_UINT then
        \<lparr>fi_ft = ft, fi_encode = Codec_int, fi_decode = Codec_int, fi_snprint = Print_uint\<rparr>
      else if ft_coding ft = IPFIX_CODING_NTP then
        \<lparr>fi_ft = ft, fi_encode = Codec_int, fi_decode = Codec_int, fi_snprint = Print_uint\<rparr>
      else if ft_coding ft = IPFIX_CODING_FLOAT then
        \<lparr>fi_ft = ft, fi_encode = Codec_float, fi_decode = Codec_float, fi_snprint = Print_float\<rparr>
      else if ft_coding ft = IPFIX_CODING_IPADDR then
        \<lparr>fi_ft = ft, fi_encode = Codec_bytes, fi_decode = Codec_bytes, fi_snprint = Print_ipaddr\<rparr>
      else if ft_coding ft = IPFIX_CODING_STRING then
        \<lparr>fi_ft = ft, fi_encode = Codec_bytes, fi_decode = Codec_bytes, fi_snprint = Print_string\<rparr>
      else
        \<lparr>fi_ft = ft, fi_encode = Codec_bytes, fi_decode = Codec_bytes, fi_snprint = Print_bytes\<rparr>)"

text \<open>
  The elements of an array that ends with type 0 are put before those known so far. When there is
  no memory (\<open>alloc\<close>, by the number of elements) the whole list is freed.
\<close>

fun add_elements :: "(nat \<Rightarrow> bool) \<Rightarrow> ipfix_field_type list \<Rightarrow> ipfix_field list \<Rightarrow> int \<times> ipfix_field list" where
  "add_elements alloc [] fs = (0, fs)"
| "add_elements alloc (ft # fts) fs =
     (if ft_ftype ft = 0 then (0, fs)
      else if \<not> alloc (length fs) then (-1, [])
      else add_elements alloc fts (new_field ft # fs))"

section \<open>What holds of them\<close>

text \<open>The bytes of a number in memory.\<close>

definition host_bytes :: "ipfix_host \<Rightarrow> nat \<Rightarrow> nat \<Rightarrow> byte list" where
  "host_bytes h k n = hton h (be_bytes k n)"

definition host_ok :: "ipfix_host \<Rightarrow> bool" where
  "host_ok h \<longleftrightarrow> ih_flag h = ih_little h"

lemma host_ok_test: "host_ok (testEndianness h)"
  by (simp add: host_ok_def testEndianness_def)

lemma hton_hton [simp]: "hton h (hton h bs) = bs" by (simp add: hton_def)

lemma length_hton [simp]: "length (hton h bs) = length bs" by (simp add: hton_def)

lemma HTONLL_hton:
  assumes "host_ok h" "length bs = 8"
  shows "HTONLL h bs = hton h bs"
  using assms rev_append [of "take 4 bs" "drop 4 bs"] by (simp add: HTONLL_def hton_def host_ok_def)

lemma length_HTONLL [simp]: "4 \<le> length bs \<Longrightarrow> length (HTONLL h bs) = length bs"
  by (simp add: HTONLL_def)

lemma length_run_encode [simp]: "length (snd (run_encode h c bs)) = length bs"
  by (cases c) (simp_all add: run_encode_def ipfix_encode_int_def ipfix_encode_float_def ipfix_encode_bytes_def)

lemma length_run_decode [simp]: "length (snd (run_decode h c bs)) = length bs"
  by (cases c) (simp_all add: run_decode_def ipfix_decode_int_def ipfix_decode_float_def ipfix_encode_float_def
      ipfix_decode_bytes_def)

text \<open>The lengths that an encoding supports.\<close>

definition codec_length :: "ipfix_codec \<Rightarrow> nat \<Rightarrow> bool" where
  "codec_length c n \<longleftrightarrow> (case c of Codec_int \<Rightarrow> n \<in> {1, 2, 4, 8} | Codec_float \<Rightarrow> n \<in> {4, 8} | Codec_bytes \<Rightarrow> True)"

lemma decode_encode:
  assumes "codec_length c (length bs)" "host_ok h"
  shows "run_decode h c (snd (run_encode h c bs)) = (0, bs)"
proof -
  have "length bs = 8 \<Longrightarrow> HTONLL h (HTONLL h bs) = bs" using assms(2) by (simp add: HTONLL_hton)
  with assms(1) show ?thesis
    by (cases c) (auto simp: codec_length_def run_encode_def run_decode_def ipfix_encode_int_def ipfix_decode_int_def
        ipfix_encode_float_def ipfix_decode_float_def ipfix_encode_bytes_def ipfix_decode_bytes_def)
qed

text \<open>
  On a machine of either byte order an integer of 1, 2, 4 or 8 bytes is encoded as its bytes from
  the most significant one on, decoding these gives the bytes it has in memory, and it is printed
  as its decimal digits.
\<close>

theorem ipfix_integers:
  assumes "k \<in> {1, 2, 4, 8}" "n < 256 ^ k" "host_ok h"
  shows "ipfix_encode_int h (host_bytes h k n) = (0, be_bytes k n) \<and>
    ipfix_decode_int h (be_bytes k n) = (0, host_bytes h k n) \<and>
    ipfix_snprint_uint h sz (host_bytes h k n) = Returned (int (length (show_nat n)), take (sz - 1) (show_nat n))"
proof -
  have l: "length (host_bytes h k n) = k" by (simp add: host_bytes_def)
  have "host_nat h (host_bytes h k n) = n" using assms(2) by (simp add: host_nat_def host_bytes_def be_nat_be_bytes)
  moreover have "k = 1 \<Longrightarrow> host_bytes h k n = be_bytes k n"
    by (simp add: host_bytes_def hton_def be_bytes_expand del: One_nat_def)
  moreover have "k = 8 \<Longrightarrow> HTONLL h (host_bytes h k n) = be_bytes k n \<and> HTONLL h (be_bytes k n) = host_bytes h k n"
    using assms(3) by (simp add: HTONLL_hton host_bytes_def)
  ultimately show ?thesis
    using assms(1) l by (auto simp: ipfix_encode_int_def ipfix_decode_int_def ipfix_snprint_uint_def snprint_text_def snprintf_def
        host_bytes_def)
qed

theorem ipfix_integers_witness:
  "ipfix_encode_int \<lparr>ih_little = True, ih_flag = True\<rparr> [2, 1] = (0, [1, 2])"
proof -
  have "host_bytes \<lparr>ih_little = True, ih_flag = True\<rparr> 2 258 = [2, 1]" "be_bytes 2 258 = [1, 2 :: byte]"
    by (simp_all add: host_bytes_def hton_def be_bytes_expand)
  then show ?thesis using ipfix_integers [of 2 258 "\<lparr>ih_little = True, ih_flag = True\<rparr>"] by (simp add: host_ok_def)
qed

lemma length_show_hex_digit [simp]: "n < 16 \<Longrightarrow> length (show_hex n) = 1"
  by (simp add: show_hex.simps)

lemma length_show_hex2 [simp]: "length (show_hex2 b) = 2"
proof -
  have "unat b div 16 < 16" using unat_byte_less [of b] by simp
  then show ?thesis by (simp add: show_hex2_def)
qed

lemma length_hex_bytes [simp]: "length (concat (map show_hex2 bs)) = 2 * length bs"
  by (induction bs) simp_all

lemma shrink_len: "4 \<le> sz \<Longrightarrow> shrink_len sz n = min n ((sz - 2) div 2)"
  by (induction n) (auto simp: min_def)

text \<open>
  A buffer with room for the text and its end gets the whole text; otherwise the length is lowered
  until the text fits, but without its end: a buffer of even size is then overrun by one byte.
\<close>

lemma snprint_bytes_fits:
  assumes "4 \<le> sz" "2 * length data + 2 < sz"
  shows "ipfix_snprint_bytes sz data = Returned (int (2 * length data + 2), ''0x'' @ concat (map show_hex2 data))"
  using assms by (simp add: ipfix_snprint_bytes_def shrink_len Let_def)

lemma snprint_bytes_overruns:
  assumes "4 \<le> sz" "even sz" "sz \<le> 2 * length data + 2"
  shows "ipfix_snprint_bytes sz data = Undefined ''write past the buffer''"
proof -
  have "min (length data) ((sz - 2) div 2) = (sz - 2) div 2" using assms(3) by (simp add: min_def) linarith
  moreover have "2 * ((sz - 2) div 2) = sz - 2" using assms(2) by simp
  ultimately show ?thesis using assms(1,3) by (simp add: ipfix_snprint_bytes_def shrink_len Let_def)
qed

text \<open>
  An element is found under its numbers; of two with the same numbers, the one that was added last.
\<close>

lemma get_ftinfo_sound: "ipfix_get_ftinfo fs eno type = Some f \<Longrightarrow> f \<in> set fs \<and> ft_ftype (fi_ft f) = type \<and> ft_eno (fi_ft f) = eno"
  by (induction fs) (auto split: if_splits)

lemma get_ftinfo_append:
  "ipfix_get_ftinfo (fs @ gs) eno type =
    (case ipfix_get_ftinfo fs eno type of Some f \<Rightarrow> Some f | None \<Rightarrow> ipfix_get_ftinfo gs eno type)"
  by (induction fs) auto

lemma add_elements_all:
  assumes "\<forall>n. alloc n"
  shows "add_elements alloc fts fs = (0, rev (map new_field (takeWhile (\<lambda>ft. ft_ftype ft \<noteq> 0) fts)) @ fs)"
  using assms by (induction fts arbitrary: fs) auto

lemma codec_new_field: "fi_encode (new_field ft) = fi_decode (new_field ft)" "fi_ft (new_field ft) = ft"
  by (simp_all add: new_field_def)

end
