(* ===== verification/IpfixExport.thy ===== *)
theory IpfixExport
  imports IpfixField
begin

text \<open>
  The exporter of \<open>lib/libipfix/lib/ipfix.c\<close>, built without SSL, SCTP and non-blocking TCP: handles,
  templates, collectors, and the buffers from which messages are sent. Pointers to handles,
  collectors and templates are numbers into stores; a write outside a buffer is undefined. Sockets
  and the clock are the environment: the answers of socket calls go by the number of the call.
\<close>

section \<open>State\<close>

definition IPFIX_DEFAULT_BUFLEN :: nat where "IPFIX_DEFAULT_BUFLEN = 1400"
definition IPFIX_VERSION_NF9 :: int where "IPFIX_VERSION_NF9 = 9"
definition IPFIX_HDR_BYTES_NF9 :: nat where "IPFIX_HDR_BYTES_NF9 = 20"
definition IPFIX_SETID_TEMPLATE_NF9 :: nat where "IPFIX_SETID_TEMPLATE_NF9 = 0"
definition IPFIX_SETID_OPTTEMPLATE_NF9 :: nat where "IPFIX_SETID_OPTTEMPLATE_NF9 = 1"
definition IPFIX_VERSION :: int where "IPFIX_VERSION = 10"
definition IPFIX_HDR_BYTES :: nat where "IPFIX_HDR_BYTES = 16"
definition IPFIX_SETID_TEMPLATE :: nat where "IPFIX_SETID_TEMPLATE = 2"
definition IPFIX_SETID_OPTTEMPLATE :: nat where "IPFIX_SETID_OPTTEMPLATE = 3"
definition IPFIX_FT_VARLEN :: nat where "IPFIX_FT_VARLEN = 65535"
definition IPFIX_FT_NOENO :: int where "IPFIX_FT_NOENO = 0"
definition IPFIX_EFT_VENDOR_BIT :: nat where "IPFIX_EFT_VENDOR_BIT = 0x8000"
definition IPFIX_DFLT_TEMPLRESENDINT :: int where "IPFIX_DFLT_TEMPLRESENDINT = 30"

datatype ipfix_proto = IPFIX_PROTO_SCTP | IPFIX_PROTO_TCP | IPFIX_PROTO_UDP | Other_proto

datatype ipfix_templ_type = DATA_TEMPLATE | OPTION_TEMPLATE

record ipfix_template_field =
  tf_flength :: nat
  tf_unknown :: bool
  tf_relay :: bool
  tf_elem :: "ipfix_field option"

text \<open>\<open>te_fields\<close> is the whole array, of \<open>te_maxfields\<close> elements.\<close>

record ipfix_template =
  te_type :: ipfix_templ_type
  te_tsend :: int
  te_tid :: nat
  te_ndatafields :: nat
  te_nscopefields :: nat
  te_nfields :: nat
  te_fields :: "ipfix_template_field list"
  te_maxfields :: nat
  te_odid :: int

record ipfix_message =
  ms_buffer :: "byte list"
  ms_nrecords :: nat
  ms_offset :: nat

record ipfix_collector =
  cl_usecount :: nat
  cl_chost :: string
  cl_cport :: int
  cl_protocol :: ipfix_proto
  cl_fd :: int
  cl_lastaccess :: int
  cl_message :: ipfix_message

text \<open>\<open>ix_cs_header\<close> is the position in the buffer where the current set starts.\<close>

record ipfix_handle =
  ix_sourceid :: int
  ix_version :: int
  ix_collectors :: "nat option"
  ix_templates :: "nat list"
  ix_buffer :: "byte list"
  ix_nrecords :: nat
  ix_offset :: nat
  ix_seqno :: nat
  ix_cs_tid :: nat
  ix_cs_bytes :: nat
  ix_cs_header :: "nat option"

text \<open>
  The globals of the module, the stores, the number of free \<open>iobuf\<close>s, what each socket took, the
  number of socket calls, and whether \<open>errno\<close> is \<open>EPIPE\<close> or \<open>ECONNRESET\<close>. The \<open>next\<close> pointers of the
  collectors are the order of \<open>gs_collectors\<close>.
\<close>

record ipfix_st =
  gs_tstart :: int
  gs_host :: ipfix_host
  gs_fields :: "ipfix_field list"
  gs_lasttid :: nat
  gs_bufs :: nat
  gs_ipfixlist :: "nat list"
  gs_collectors :: "nat list"
  gs_ifh :: "nat \<Rightarrow> ipfix_handle option"
  gs_col :: "nat \<Rightarrow> ipfix_collector option"
  gs_templ :: "nat \<Rightarrow> ipfix_template option"
  gs_next :: nat
  gs_sent :: "(nat \<times> byte list) list"
  gs_io :: nat
  gs_reset :: bool

text \<open>
  The clock; what name lookup, \<open>socket\<close> and \<open>connect\<close> give (a descriptor or nothing); how much a
  \<open>write\<close> or \<open>sendto\<close> takes, and whether it fails for a lost connection; whether there is memory.
\<close>

record ipfix_env =
  ie_now :: int
  ie_connect :: "nat \<Rightarrow> string \<Rightarrow> int \<Rightarrow> nat option"
  ie_write :: "nat \<Rightarrow> nat \<Rightarrow> int"
  ie_reset :: "nat \<Rightarrow> bool"
  ie_alloc :: bool

type_synonym ipfix_res = "(int \<times> ipfix_st) proc"

definition get_ifh :: "nat \<Rightarrow> ipfix_st \<Rightarrow> ipfix_handle proc" where
  "get_ifh h st = (case gs_ifh st h of None \<Rightarrow> Undefined ''no such handle'' | Some i \<Rightarrow> Returned i)"

definition get_col :: "nat \<Rightarrow> ipfix_st \<Rightarrow> ipfix_collector proc" where
  "get_col c st = (case gs_col st c of None \<Rightarrow> Undefined ''no such collector'' | Some i \<Rightarrow> Returned i)"

definition get_templ :: "nat \<Rightarrow> ipfix_st \<Rightarrow> ipfix_template proc" where
  "get_templ t st = (case gs_templ st t of None \<Rightarrow> Undefined ''no such template'' | Some i \<Rightarrow> Returned i)"

definition set_ifh :: "nat \<Rightarrow> ipfix_handle \<Rightarrow> ipfix_st \<Rightarrow> ipfix_st" where
  "set_ifh h i st = st\<lparr>gs_ifh := (gs_ifh st)(h \<mapsto> i)\<rparr>"

definition set_col :: "nat \<Rightarrow> ipfix_collector \<Rightarrow> ipfix_st \<Rightarrow> ipfix_st" where
  "set_col c i st = st\<lparr>gs_col := (gs_col st)(c \<mapsto> i)\<rparr>"

definition set_templ :: "nat \<Rightarrow> ipfix_template \<Rightarrow> ipfix_st \<Rightarrow> ipfix_st" where
  "set_templ t i st = st\<lparr>gs_templ := (gs_templ st)(t \<mapsto> i)\<rparr>"

text \<open>The collectors that are reached from a collector over \<open>next\<close>, itself included.\<close>

definition chain :: "nat option \<Rightarrow> ipfix_st \<Rightarrow> nat list" where
  "chain c st = (case c of None \<Rightarrow> [] | Some c \<Rightarrow> dropWhile (\<lambda>x. x \<noteq> c) (gs_collectors st))"

text \<open>Bytes put at a position of a buffer, \<open>INSERTU16\<close> and \<open>INSERTU32\<close>.\<close>

definition put_at :: "nat \<Rightarrow> byte list \<Rightarrow> byte list \<Rightarrow> byte list proc" where
  "put_at pos bs buf =
     (if pos + length bs \<le> length buf then Returned (take pos buf @ bs @ drop (pos + length bs) buf)
      else Undefined ''write past the buffer'')"

definition u16 :: "int \<Rightarrow> byte list" where "u16 x = be_bytes 2 (nat (x mod 2 ^ 16))"
definition u32 :: "int \<Rightarrow> byte list" where "u32 x = be_bytes 4 (nat (x mod 2 ^ 32))"

section \<open>Sending\<close>

function do_writen :: "ipfix_env \<Rightarrow> nat \<Rightarrow> nat \<Rightarrow> byte list \<Rightarrow> ipfix_st \<Rightarrow> int \<times> ipfix_st" where
  "do_writen env c nbytes ptr st =
     (if ptr = [] then (int nbytes, st)
      else
        let r = min (ie_write env (gs_io st) (length ptr)) (int (length ptr)) in
        if r \<le> 0 then
          (r, st\<lparr>gs_io := gs_io st + 1, gs_reset := (if r < 0 then ie_reset env (gs_io st) else gs_reset st)\<rparr>)
        else do_writen env c nbytes (drop (nat r) ptr)
          (st\<lparr>gs_io := gs_io st + 1, gs_sent := gs_sent st @ [(c, take (nat r) ptr)]\<rparr>))"
  by pat_completeness auto
termination by (relation "measure (\<lambda>(env, c, nbytes, ptr, st). length ptr)") auto

declare do_writen.simps [simp del]

text \<open>The loop of \<open>sendto\<close> for UDP: a datagram at a time, no further test of the error.\<close>

definition send_datagrams :: "ipfix_env \<Rightarrow> nat \<Rightarrow> byte list \<Rightarrow> ipfix_st \<Rightarrow> bool \<times> ipfix_st" where
  "send_datagrams env c bs st =
     (case do_writen env c (length bs) bs st of (r, st) \<Rightarrow> (r = int (length bs), st))"

definition ipfix_disconnect :: "nat \<Rightarrow> ipfix_st \<Rightarrow> ipfix_st" where
  "ipfix_disconnect c st =
     (case gs_col st c of None \<Rightarrow> st | Some col \<Rightarrow> set_col c (col\<lparr>cl_fd := if cl_fd col \<ge> 0 then -1 else cl_fd col\<rparr>) st)"

text \<open>The header of a message with \<open>n\<close> records and \<open>offset\<close> bytes, and the handle after it.\<close>

definition write_header :: "ipfix_env \<Rightarrow> ipfix_st \<Rightarrow> nat \<Rightarrow> nat \<Rightarrow> ipfix_handle \<Rightarrow> byte list \<times> ipfix_handle" where
  "write_header env st n offset i =
     (if ix_version i = IPFIX_VERSION_NF9 then
        let i = i\<lparr>ix_seqno := ix_seqno i + 1\<rparr> in
        (u16 (ix_version i) @ u16 (int n) @ u32 ((ie_now env - gs_tstart st) * 1000) @ u32 (ie_now env) @
           u32 (int (ix_seqno i)) @ u32 (ix_sourceid i), i)
      else
        (u16 (ix_version i) @ u16 (int (offset + IPFIX_HDR_BYTES)) @ u32 (ie_now env) @
           u32 (int (ix_seqno i) - int (ix_nrecords i)) @ u32 (ix_sourceid i), i))"

definition ipfix_write_hdr :: "ipfix_env \<Rightarrow> ipfix_st \<Rightarrow> ipfix_handle \<Rightarrow> byte list \<times> ipfix_handle" where
  "ipfix_write_hdr env st i = write_header env st (ix_nrecords i) (ix_offset i) i"

definition ipfix_write_msghdr :: "ipfix_env \<Rightarrow> ipfix_st \<Rightarrow> ipfix_message \<Rightarrow> ipfix_handle \<Rightarrow> byte list \<times> ipfix_handle" where
  "ipfix_write_msghdr env st msg i = write_header env st (ms_nrecords msg) (ms_offset msg) i"

text \<open>An \<open>iobuf\<close> holds the header and as much as a buffer of a handle.\<close>

definition copy_to_iobuf :: "byte list \<Rightarrow> byte list \<Rightarrow> byte list proc" where
  "copy_to_iobuf hdr body =
     (if length hdr + length body \<le> IPFIX_DEFAULT_BUFLEN + IPFIX_HDR_BYTES_NF9 then Returned (hdr @ body)
      else Undefined ''write past the buffer'')"

definition ipfix_getbuf :: "ipfix_st \<Rightarrow> ipfix_st option" where
  "ipfix_getbuf st = (if gs_bufs st = 0 then None else Some (st\<lparr>gs_bufs := gs_bufs st - 1\<rparr>))"

definition ipfix_freebuf :: "ipfix_st \<Rightarrow> ipfix_st" where
  "ipfix_freebuf st = st\<lparr>gs_bufs := gs_bufs st + 1\<rparr>"

text \<open>The message that waits at a collector is sent, and cleared.\<close>

definition ipfix_send_message :: "ipfix_env \<Rightarrow> nat \<Rightarrow> nat \<Rightarrow> ipfix_st \<Rightarrow> ipfix_res" where
  "ipfix_send_message env h c st =
     proc_bind (get_ifh h st) (\<lambda>i. proc_bind (get_col c st) (\<lambda>col.
       if cl_fd col < 0 then Returned (-1, st)
       else
         (case ipfix_getbuf st of
            None \<Rightarrow> Returned (-1, st)
          | Some st \<Rightarrow>
              (case ipfix_write_msghdr env st (cl_message col) i of (hdr, i) \<Rightarrow>
               proc_bind (copy_to_iobuf hdr (take (ms_offset (cl_message col)) (ms_buffer (cl_message col)))) (\<lambda>buf.
               let st = set_ifh h i st;
                   done = (\<lambda>st. (0, ipfix_freebuf (set_col c (col\<lparr>cl_message := (cl_message col)\<lparr>ms_nrecords := 0, ms_offset := 0\<rparr>,
                     cl_lastaccess := ie_now env\<rparr>) st))) in
               (case cl_protocol col of
                  IPFIX_PROTO_TCP \<Rightarrow>
                    (case do_writen env c (length buf) buf st of (r, st) \<Rightarrow>
                     if r \<noteq> int (length buf) then
                       Returned (-1, ipfix_freebuf (if gs_reset st then ipfix_disconnect c st else st))
                     else Returned (done st))
                | IPFIX_PROTO_UDP \<Rightarrow>
                    (case send_datagrams env c buf st of (ok, st) \<Rightarrow>
                     if ok then Returned (done st) else Returned (-1, ipfix_freebuf st))
                | _ \<Rightarrow> Returned (-1, ipfix_freebuf st)))))))"

section \<open>Templates on the wire\<close>

definition spec_length :: "ipfix_template_field \<Rightarrow> nat proc" where
  "spec_length f = (case tf_elem f of
     None \<Rightarrow> Undefined ''null pointer''
   | Some e \<Rightarrow> Returned (if ft_eno (fi_ft e) \<noteq> IPFIX_FT_NOENO then 8 else 4))"

fun specs_length :: "ipfix_template_field list \<Rightarrow> nat proc" where
  "specs_length [] = Returned 0"
| "specs_length (f # fs) = proc_bind (spec_length f) (\<lambda>n. proc_bind (specs_length fs) (\<lambda>m. Returned (n + m)))"

definition spec_bytes :: "ipfix_template_field \<Rightarrow> byte list" where
  "spec_bytes f = (case tf_elem f of
     None \<Rightarrow> []
   | Some e \<Rightarrow>
       if ft_eno (fi_ft e) = IPFIX_FT_NOENO then u16 (ft_ftype (fi_ft e)) @ u16 (int (tf_flength f))
       else u16 (ft_ftype (fi_ft e) OR int IPFIX_EFT_VENDOR_BIT) @ u16 (int (tf_flength f)) @ u32 (ft_eno (fi_ft e)))"

definition template_bytes :: "int \<Rightarrow> ipfix_template \<Rightarrow> nat \<Rightarrow> nat \<Rightarrow> nat \<Rightarrow> byte list" where
  "template_bytes version t tsize ssize osize =
     (let hdr = (if version = IPFIX_VERSION_NF9 then
           (if te_type t = OPTION_TEMPLATE then
              u16 (int IPFIX_SETID_OPTTEMPLATE_NF9) @ u16 (int tsize) @ u16 (int (te_tid t)) @ u16 (int ssize) @ u16 (int osize)
            else u16 (int IPFIX_SETID_TEMPLATE_NF9) @ u16 (int tsize) @ u16 (int (te_tid t)) @ u16 (int (te_nfields t)))
         else
           (if te_type t = OPTION_TEMPLATE then
              u16 (int IPFIX_SETID_OPTTEMPLATE) @ u16 (int tsize) @ u16 (int (te_tid t)) @ u16 (int (te_nfields t)) @
                u16 (int (te_nscopefields t))
            else u16 (int IPFIX_SETID_TEMPLATE) @ u16 (int tsize) @ u16 (int (te_tid t)) @ u16 (int (te_nfields t)))) in
      hdr @ concat (map spec_bytes (take (te_nfields t) (te_fields t))))"

text \<open>
  The loop that makes room in the message of a TCP collector. It has no result when the message
  stays too small and every message is sent.
\<close>

definition clear_message :: "nat \<Rightarrow> ipfix_st \<Rightarrow> ipfix_st" where
  "clear_message c st = (case gs_col st c of
     None \<Rightarrow> st
   | Some col \<Rightarrow> set_col c (col\<lparr>cl_message := (cl_message col)\<lparr>ms_nrecords := 0, ms_offset := 0\<rparr>\<rparr>) st)"

definition message_offset :: "nat \<Rightarrow> ipfix_st \<Rightarrow> nat" where
  "message_offset c st = (case gs_col st c of None \<Rightarrow> 0 | Some col \<Rightarrow> ms_offset (cl_message col))"

partial_function (option) tcp_room :: "ipfix_env \<Rightarrow> nat \<Rightarrow> nat \<Rightarrow> nat \<Rightarrow> ipfix_st \<Rightarrow> ipfix_res option" where
  "tcp_room env h c tsize st =
     (if message_offset c st + tsize \<le> IPFIX_DEFAULT_BUFLEN then Some (Returned (0, st))
      else
        (case ipfix_send_message env h c st of
           Returned (r, st) \<Rightarrow> if r < 0 then Some (Returned (-1, st)) else tcp_room env h c tsize (clear_message c st)
         | p \<Rightarrow> Some p))"

text \<open>
  \<open>_ipfix_write_template\<close>. \<open>flush\<close> is \<open>_ipfix_export_flush\<close>, which is called for UDP only. A TCP
  collector gets the template in its own message, another one in front of the data.
\<close>

definition ipfix_write_template_with ::
  "(nat \<Rightarrow> ipfix_st \<Rightarrow> ipfix_res) \<Rightarrow> ipfix_env \<Rightarrow> nat \<Rightarrow> nat \<Rightarrow> nat \<Rightarrow> ipfix_st \<Rightarrow> ipfix_res" where
  "ipfix_write_template_with flush env h c t st =
     proc_bind (get_ifh h st) (\<lambda>i. proc_bind (get_col c st) (\<lambda>col. proc_bind (get_templ t st) (\<lambda>templ.
     proc_bind (specs_length (take (te_nscopefields templ) (te_fields templ))) (\<lambda>ssize.
     proc_bind (specs_length (drop (te_nscopefields templ) (take (te_nfields templ) (te_fields templ)))) (\<lambda>osize.
     proc_bind (specs_length (take (te_nfields templ) (te_fields templ))) (\<lambda>size.
     let tsize = (if te_type templ = OPTION_TEMPLATE then 10 + osize + ssize else 8 + size);
         bytes = template_bytes (ix_version i) templ tsize ssize osize;
         sent = (\<lambda>st. set_templ t (templ\<lparr>te_tsend := ie_now env\<rparr>) st);
         count = (if ix_version i = IPFIX_VERSION_NF9 then 1 else 0) in
     (case cl_protocol col of
        IPFIX_PROTO_TCP \<Rightarrow>
          (case tcp_room env h c tsize st of
             None \<Rightarrow> Spins
           | Some p \<Rightarrow> proc_bind p (\<lambda>(r, st).
               if r < 0 then Returned (-1, st)
               else
                 proc_bind (get_ifh h st) (\<lambda>i. proc_bind (get_col c st) (\<lambda>col.
                 if tsize + ix_offset i > IPFIX_DEFAULT_BUFLEN then Returned (-1, st)
                 else
                   let m = cl_message col in
                   proc_bind (put_at (ms_offset m) bytes (ms_buffer m)) (\<lambda>buf.
                   Returned (0, sent (set_col c (col\<lparr>cl_message := \<lparr>ms_buffer = buf, ms_nrecords = ms_nrecords m + count,
                     ms_offset = ms_offset m + length bytes\<rparr>\<rparr>) st)))))))
      | IPFIX_PROTO_SCTP \<Rightarrow>
          (let m = cl_message col in
           proc_bind (put_at (ms_offset m) bytes (ms_buffer m)) (\<lambda>buf.
           Returned (0, sent (set_ifh h (i\<lparr>ix_offset := ix_offset i + (ms_offset m + length bytes),
             ix_nrecords := ix_nrecords i + count\<rparr>) (set_col c (col\<lparr>cl_message := m\<lparr>ms_buffer := buf\<rparr>\<rparr>) st)))))
      | _ \<Rightarrow>
          proc_bind (if tsize + ix_offset i > IPFIX_DEFAULT_BUFLEN then flush h st else Returned (0, st)) (\<lambda>(r, st).
          if r < 0 then Returned (-1, st)
          else
            proc_bind (get_ifh h st) (\<lambda>i.
            if tsize + ix_offset i > IPFIX_DEFAULT_BUFLEN then Returned (-1, st)
            else
              proc_bind (put_at tsize (take (ix_offset i) (ix_buffer i)) (ix_buffer i)) (\<lambda>moved.
              let i = (if ix_offset i > 0 then
                  i\<lparr>ix_buffer := moved,
                    ix_cs_header := (if ix_cs_tid i \<noteq> 0 then map_option (\<lambda>p. p + tsize) (ix_cs_header i) else ix_cs_header i)\<rparr>
                else i) in
              proc_bind (put_at 0 bytes (ix_buffer i)) (\<lambda>buf.
              Returned (0, sent (set_ifh h (i\<lparr>ix_buffer := buf, ix_offset := ix_offset i + length bytes,
                ix_nrecords := ix_nrecords i + count\<rparr>) st)))))))))))))"

section \<open>Connecting\<close>

text \<open>After the connection is made, the templates of every handle that reaches the collector are sent.\<close>

fun resend_templates :: "ipfix_env \<Rightarrow> nat \<Rightarrow> nat \<Rightarrow> nat list \<Rightarrow> ipfix_st \<Rightarrow> ipfix_res" where
  "resend_templates env h c [] st = Returned (0, st)"
| "resend_templates env h c (t # ts) st =
     proc_bind (get_col c st) (\<lambda>col. proc_bind (get_templ t st) (\<lambda>templ.
     (case cl_protocol col of
        IPFIX_PROTO_UDP \<Rightarrow> resend_templates env h c ts (set_templ t (templ\<lparr>te_tsend := 0\<rparr>) st)
      | Other_proto \<Rightarrow> resend_templates env h c ts st
      | _ \<Rightarrow>
          proc_bind (ipfix_write_template_with (\<lambda>h st. Returned (0, st)) env h c t st) (\<lambda>(r, st).
          if r < 0 then Returned (-1, st)
          else
            proc_bind (get_ifh h st) (\<lambda>i.
            let st = (if te_odid templ \<noteq> 0 then set_ifh h (i\<lparr>ix_sourceid := te_odid templ\<rparr>) st else st) in
            proc_bind (ipfix_send_message env h c st) (\<lambda>(r, st).
            if r < 0 then Returned (-1, st) else resend_templates env h c ts st))))))"

fun resend_handles :: "ipfix_env \<Rightarrow> nat \<Rightarrow> nat list \<Rightarrow> ipfix_st \<Rightarrow> ipfix_res" where
  "resend_handles env c [] st = Returned (0, st)"
| "resend_handles env c (h # hs) st =
     proc_bind (get_ifh h st) (\<lambda>i.
     proc_bind (if c \<in> set (chain (ix_collectors i) st) then resend_templates env h c (ix_templates i) st else Returned (0, st))
       (\<lambda>(r, st).
     if r < 0 then Returned (-1, st)
     else
       proc_bind (if message_offset c st > 0 then ipfix_send_message env h c st else Returned (0, st)) (\<lambda>(r, st).
       if r < 0 then Returned (-1, st) else resend_handles env c hs st)))"

definition ipfix_connect :: "ipfix_env \<Rightarrow> nat \<Rightarrow> ipfix_st \<Rightarrow> ipfix_res" where
  "ipfix_connect env c st =
     proc_bind (get_col c st) (\<lambda>col.
     if cl_protocol col \<noteq> IPFIX_PROTO_TCP \<and> cl_protocol col \<noteq> IPFIX_PROTO_UDP then
       Returned (-1, set_col c (col\<lparr>cl_fd := -1\<rparr>) st)
     else if cl_fd col \<ge> 0 then Returned (0, st)
     else
       (case ie_connect env (gs_io st) (cl_chost col) (cl_cport col) of
          None \<Rightarrow> Returned (-1, st\<lparr>gs_io := gs_io st + 1\<rparr>)
        | Some fd \<Rightarrow>
            resend_handles env c (gs_ipfixlist st)
              (set_col c (col\<lparr>cl_fd := int fd, cl_lastaccess := ie_now env\<rparr>) (st\<lparr>gs_io := gs_io st + 1\<rparr>))))"

text \<open>The TCP part of \<open>_ipfix_send_msg\<close>: \<open>n\<close> attempts, with a new connection after a lost one.\<close>

fun send_attempts :: "ipfix_env \<Rightarrow> nat \<Rightarrow> nat \<Rightarrow> byte list \<Rightarrow> ipfix_st \<Rightarrow> (int option \<times> ipfix_st) proc" where
  "send_attempts env 0 c buf st = Returned (None, st)"
| "send_attempts env (Suc n) c buf st =
     (case do_writen env c (length buf) buf st of (r, st) \<Rightarrow>
      if r = int (length buf) then Returned (Some 0, st)
      else if gs_reset st then
        proc_bind (ipfix_connect env c (ipfix_disconnect c st)) (\<lambda>(r, st).
        if r < 0 then Returned (Some (-1), st) else send_attempts env n c buf st)
      else Returned (Some (-1), st))"

definition touch_collector :: "ipfix_env \<Rightarrow> nat \<Rightarrow> ipfix_st \<Rightarrow> ipfix_st" where
  "touch_collector env c st = (case gs_col st c of
     None \<Rightarrow> st | Some col \<Rightarrow> set_col c (col\<lparr>cl_lastaccess := ie_now env\<rparr>) st)"

definition ipfix_send_msg :: "ipfix_env \<Rightarrow> nat \<Rightarrow> nat \<Rightarrow> byte list \<Rightarrow> ipfix_st \<Rightarrow> ipfix_res" where
  "ipfix_send_msg env h c buf st =
     proc_bind (ipfix_connect env c st) (\<lambda>(r, st).
     if r < 0 then Returned (-1, st)
     else
       proc_bind (if message_offset c st > 0 then ipfix_send_message env h c st else Returned (0, st)) (\<lambda>(r, st).
       if r < 0 then Returned (-1, st)
       else
         proc_bind (get_col c st) (\<lambda>col.
         (case cl_protocol col of
            IPFIX_PROTO_TCP \<Rightarrow>
              proc_bind (send_attempts env 2 c buf st) (\<lambda>(r, st).
              (case r of
                 Some r \<Rightarrow> if r < 0 then Returned (-1, st) else Returned (0, touch_collector env c st)
               | None \<Rightarrow> Returned (-1, touch_collector env c st)))
          | IPFIX_PROTO_UDP \<Rightarrow>
              (case send_datagrams env c buf st of (ok, st) \<Rightarrow>
               if ok then Returned (0, touch_collector env c st) else Returned (-1, st))
          | _ \<Rightarrow> Returned (-1, st)))))"

section \<open>Flushing\<close>

definition finish_cs :: "ipfix_handle \<Rightarrow> ipfix_handle proc" where
  "finish_cs i =
     (case ix_cs_header i of
        None \<Rightarrow> Returned i
      | Some p \<Rightarrow>
          proc_bind (put_at p (u16 (int (ix_cs_tid i)) @ u16 (int (ix_cs_bytes i))) (ix_buffer i)) (\<lambda>buf.
          Returned (i\<lparr>ix_buffer := buf, ix_cs_bytes := 0, ix_cs_header := None, ix_cs_tid := 0\<rparr>)))"

text \<open>The message goes to every collector of the chain; a success empties the buffer of the handle.\<close>

fun flush_to :: "ipfix_env \<Rightarrow> nat \<Rightarrow> byte list \<Rightarrow> nat list \<Rightarrow> int \<Rightarrow> ipfix_st \<Rightarrow> ipfix_res" where
  "flush_to env h buf [] ret st = Returned (ret, st)"
| "flush_to env h buf (c # cs) ret st =
     proc_bind (ipfix_send_msg env h c buf st) (\<lambda>(r, st).
     if r < 0 then flush_to env h buf cs (-1) st
     else
       proc_bind (get_ifh h st) (\<lambda>i.
       flush_to env h buf cs ret (set_ifh h (i\<lparr>ix_offset := 0, ix_nrecords := 0\<rparr>) st)))"

definition ipfix_export_flush :: "ipfix_env \<Rightarrow> nat \<Rightarrow> ipfix_st \<Rightarrow> ipfix_res" where
  "ipfix_export_flush env h st =
     proc_bind (get_ifh h st) (\<lambda>i.
     if ix_offset i = 0 then Returned (0, st)
     else
       proc_bind (if ix_cs_tid i > 0 then finish_cs i else Returned i) (\<lambda>i.
       (case ipfix_getbuf st of
          None \<Rightarrow> Returned (-1, set_ifh h i st)
        | Some st \<Rightarrow>
            (case ipfix_write_hdr env st i of (hdr, i) \<Rightarrow>
             proc_bind (copy_to_iobuf hdr (take (ix_offset i) (ix_buffer i))) (\<lambda>buf.
             proc_bind (flush_to env h buf (chain (ix_collectors i) st) 0 (set_ifh h i st)) (\<lambda>(r, st).
             Returned (r, ipfix_freebuf st)))))))"

definition ipfix_write_template :: "ipfix_env \<Rightarrow> nat \<Rightarrow> nat \<Rightarrow> nat \<Rightarrow> ipfix_st \<Rightarrow> ipfix_res" where
  "ipfix_write_template env = ipfix_write_template_with (ipfix_export_flush env) env"

section \<open>Exporting records\<close>

fun write_templates :: "ipfix_env \<Rightarrow> nat \<Rightarrow> nat list \<Rightarrow> nat \<Rightarrow> ipfix_st \<Rightarrow> ipfix_res" where
  "write_templates env h [] t st = Returned (0, st)"
| "write_templates env h (c # cs) t st =
     proc_bind (ipfix_write_template env h c t st) (\<lambda>(r, st).
     if r < 0 then Returned (-1, st) else write_templates env h cs t st)"

text \<open>A template is sent again to the first UDP collector for which it is due.\<close>

fun resend_due :: "ipfix_env \<Rightarrow> nat \<Rightarrow> nat list \<Rightarrow> nat \<Rightarrow> ipfix_st \<Rightarrow> ipfix_res" where
  "resend_due env h [] t st = Returned (0, st)"
| "resend_due env h (c # cs) t st =
     proc_bind (get_col c st) (\<lambda>col. proc_bind (get_templ t st) (\<lambda>templ.
     if cl_protocol col = IPFIX_PROTO_UDP \<and> ie_now env - te_tsend templ > IPFIX_DFLT_TEMPLRESENDINT then
       proc_bind (ipfix_write_template env h c t st) (\<lambda>(r, st). if r < 0 then Returned (-1, st) else Returned (0, st))
     else resend_due env h cs t st))"

text \<open>The bytes a record adds to a set; nothing when a value is longer than the field.\<close>

fun record_length :: "ipfix_template_field list \<Rightarrow> byte list list \<Rightarrow> nat option" where
  "record_length (f # fs) (v # vs) =
     (if tf_flength f = IPFIX_FT_VARLEN then
        map_option (\<lambda>n. n + (if length v > 254 then 3 else 1) + length v) (record_length fs vs)
      else if length v > tf_flength f then None
      else map_option (\<lambda>n. n + length v) (record_length fs vs))"
| "record_length _ _ = Some 0"

text \<open>The result of the encoding function is not looked at.\<close>

definition field_bytes :: "ipfix_host \<Rightarrow> ipfix_template_field \<Rightarrow> byte list \<Rightarrow> byte list proc" where
  "field_bytes host f v =
     (let len = (if tf_flength f = IPFIX_FT_VARLEN then
           (if length v > 254 then [0xFF] @ u16 (int (length v)) else [of_nat (length v)]) else []) in
      if tf_relay f then Returned (len @ snd (ipfix_encode_bytes v))
      else
        (case tf_elem f of
           None \<Rightarrow> Undefined ''null pointer''
         | Some e \<Rightarrow> Returned (len @ snd (run_encode host (fi_encode e) v))))"

fun record_bytes :: "ipfix_host \<Rightarrow> ipfix_template_field list \<Rightarrow> byte list list \<Rightarrow> byte list proc" where
  "record_bytes host (f # fs) (v # vs) =
     proc_bind (field_bytes host f v) (\<lambda>b. proc_bind (record_bytes host fs vs) (\<lambda>bs. Returned (b @ bs)))"
| "record_bytes host _ _ = Returned []"

text \<open>The record goes into the buffer, behind the header of a new set where there is one.\<close>

definition put_record :: "nat \<Rightarrow> ipfix_template \<Rightarrow> bool \<Rightarrow> nat \<Rightarrow> byte list list \<Rightarrow> ipfix_st \<Rightarrow> ipfix_res" where
  "put_record h templ newset datasetlen values st =
     proc_bind (get_ifh h st) (\<lambda>i.
     let i = (if newset then i\<lparr>ix_cs_bytes := 0, ix_cs_header := Some (ix_offset i), ix_cs_tid := te_tid templ\<rparr> else i) in
     proc_bind (record_bytes (gs_host st) (take (te_nfields templ) (te_fields templ)) values) (\<lambda>body.
     let bytes = (if newset then u16 (int (te_tid templ)) @ u16 (int datasetlen) else []) @ body in
     proc_bind (put_at (ix_offset i) bytes (ix_buffer i)) (\<lambda>buf.
     Returned (0, set_ifh h (i\<lparr>ix_buffer := buf, ix_nrecords := ix_nrecords i + 1,
       ix_offset := ix_offset i + length bytes, ix_cs_bytes := ix_cs_bytes i + length bytes,
       ix_seqno := (if ix_version i = IPFIX_VERSION then ix_seqno i + 1 else ix_seqno i)\<rparr>) st))))"

text \<open>
  The values of a record are given as their bytes, which are as many as the array of lengths says
  (at most 65535).
\<close>

definition ipfix_export_array :: "ipfix_env \<Rightarrow> nat \<Rightarrow> nat option \<Rightarrow> byte list list \<Rightarrow> ipfix_st \<Rightarrow> ipfix_res" where
  "ipfix_export_array env h t values st =
     (case t of
        None \<Rightarrow> Returned (-1, st)
      | Some t \<Rightarrow>
          proc_bind (get_ifh h st) (\<lambda>i. proc_bind (get_templ t st) (\<lambda>templ.
          if length values \<noteq> te_nfields templ then Returned (-1, st)
          else
            proc_bind (if te_tsend templ = 0 then write_templates env h (chain (ix_collectors i) st) t st
              else resend_due env h (chain (ix_collectors i) st) t st) (\<lambda>(r, st).
            if r < 0 then Returned (-1, st)
            else
              proc_bind (get_ifh h st) (\<lambda>i.
              let newset = te_tid templ \<noteq> ix_cs_tid i in
              proc_bind (if newset \<and> ix_cs_tid i > 0 then finish_cs i else Returned i) (\<lambda>i.
              let st = set_ifh h i st; fields = take (te_nfields templ) (te_fields templ) in
              (case record_length fields values of
                 None \<Rightarrow> Returned (-1, st)
               | Some n \<Rightarrow>
                   let datasetlen = (if newset then 4 else 0) + n; full = ix_offset i + datasetlen > IPFIX_DEFAULT_BUFLEN in
                   proc_bind (if full then
                       proc_bind (if ix_cs_tid i \<noteq> 0 then finish_cs i else Returned i) (\<lambda>i.
                       ipfix_export_flush env h (set_ifh h i st))
                     else Returned (0, st)) (\<lambda>(r, st).
                   if r < 0 then Returned (-1, st)
                   else
                     put_record h templ (newset \<or> full) datasetlen values st))))))))"

definition ipfix_export_array_with_odid :: "ipfix_env \<Rightarrow> nat \<Rightarrow> int \<Rightarrow> nat option \<Rightarrow> byte list list \<Rightarrow> ipfix_st \<Rightarrow> ipfix_res" where
  "ipfix_export_array_with_odid env h odid t values st =
     proc_bind (get_ifh h st) (\<lambda>i. ipfix_export_array env h t values (set_ifh h (i\<lparr>ix_sourceid := odid\<rparr>) st))"

end
