(* ===== verification/IpfixApi.thy ===== *)
theory IpfixApi
  imports IpfixExport
begin

text \<open>
  The functions of \<open>ipfix.c\<close> with which a program sets up an exporter: the module, handles,
  collectors and templates. A function that makes something gives its number in the stores.
\<close>

section \<open>Handles and collectors\<close>

definition ipfix_disconnect_drop :: "nat \<Rightarrow> ipfix_st \<Rightarrow> ipfix_st" where
  "ipfix_disconnect_drop c st =
     (let st = ipfix_disconnect c st in
      st\<lparr>gs_collectors := removeAll c (gs_collectors st), gs_col := (gs_col st)(c := None)\<rparr>)"

definition ipfix_drop_collector :: "nat \<Rightarrow> ipfix_st \<Rightarrow> ipfix_st proc" where
  "ipfix_drop_collector c st =
     proc_bind (get_col c st) (\<lambda>col.
     let col = col\<lparr>cl_usecount := cl_usecount col - 1\<rparr>; st = set_col c col st in
     Returned (if cl_usecount col = 0 then ipfix_disconnect_drop c st else st))"

text \<open>The \<open>while\<close> over the collectors ends after one: dropping it clears the pointer.\<close>

definition ipfix_close_lib :: "ipfix_env \<Rightarrow> nat option \<Rightarrow> ipfix_st \<Rightarrow> ipfix_st proc" where
  "ipfix_close_lib env h st =
     (case h of
        None \<Rightarrow> Returned st
      | Some h \<Rightarrow>
          proc_bind (ipfix_export_flush env h st) (\<lambda>(_, st).
          proc_bind (get_ifh h st) (\<lambda>i.
          proc_bind (case ix_collectors i of None \<Rightarrow> Returned st | Some c \<Rightarrow> ipfix_drop_collector c st) (\<lambda>st.
          Returned (st\<lparr>gs_ipfixlist := remove1 h (gs_ipfixlist st), gs_ifh := (gs_ifh st)(h := None)\<rparr>)))))"

fun close_all :: "ipfix_env \<Rightarrow> nat list \<Rightarrow> ipfix_st \<Rightarrow> ipfix_st proc" where
  "close_all env [] st = Returned st"
| "close_all env (h # hs) st = proc_bind (ipfix_close_lib env (Some h) st) (close_all env hs)"

definition ipfix_cleanup :: "ipfix_env \<Rightarrow> ipfix_st \<Rightarrow> ipfix_st proc" where
  "ipfix_cleanup env st =
     proc_bind (close_all env (gs_ipfixlist st) st) (\<lambda>st. Returned (st\<lparr>gs_fields := [], gs_tstart := 0\<rparr>))"

text \<open>\<open>types\<close> and \<open>reverse_types\<close> are the tables of \<open>ipfix_fields.h\<close> and \<open>ipfix_reverse_fields.h\<close>.\<close>

definition ipfix_init :: "ipfix_env \<Rightarrow> ipfix_field_type list \<Rightarrow> ipfix_field_type list \<Rightarrow> ipfix_st \<Rightarrow> ipfix_res" where
  "ipfix_init env types reverse_types st =
     (let st = st\<lparr>gs_host := testEndianness (gs_host st)\<rparr> in
      proc_bind (if gs_tstart st \<noteq> 0 then ipfix_cleanup env st else Returned st) (\<lambda>st.
      let st = st\<lparr>gs_tstart := ie_now env, gs_lasttid := 255, gs_bufs := 2\<rparr> in
      (case add_elements (\<lambda>_. ie_alloc env) types (gs_fields st) of (r, fs) \<Rightarrow>
       let st = st\<lparr>gs_fields := fs\<rparr> in
       if r < 0 then Returned (-1, st)
       else
         (case add_elements (\<lambda>_. ie_alloc env) reverse_types (gs_fields st) of (r, fs) \<Rightarrow>
          let st = st\<lparr>gs_fields := fs\<rparr> in
          if r < 0 then Returned (-1, st) else Returned (0, st)))))"

definition ipfix_add_vendor_information_elements ::
  "ipfix_env \<Rightarrow> ipfix_field_type list \<Rightarrow> ipfix_field_type list \<Rightarrow> ipfix_field_type list \<Rightarrow> ipfix_st \<Rightarrow> ipfix_res" where
  "ipfix_add_vendor_information_elements env types reverse_types fds st =
     proc_bind (if gs_tstart st = 0 then ipfix_init env types reverse_types st else Returned (0, st)) (\<lambda>(r, st).
     if r < 0 then Returned (-1, st)
     else
       (case add_elements (\<lambda>_. ie_alloc env) fds (gs_fields st) of (r, fs) \<Rightarrow> Returned (r, st\<lparr>gs_fields := fs\<rparr>)))"

definition new_handle :: "int \<Rightarrow> int \<Rightarrow> ipfix_handle" where
  "new_handle sourceid version =
     \<lparr>ix_sourceid = sourceid, ix_version = version, ix_collectors = None, ix_templates = [],
      ix_buffer = replicate IPFIX_DEFAULT_BUFLEN 0, ix_nrecords = 0, ix_offset = 0, ix_seqno = 0,
      ix_cs_tid = 0, ix_cs_bytes = 0, ix_cs_header = None\<rparr>"

text \<open>The number of the new handle, or none.\<close>

definition ipfix_open_lib :: "ipfix_env \<Rightarrow> ipfix_field_type list \<Rightarrow> ipfix_field_type list \<Rightarrow> int \<Rightarrow> int \<Rightarrow> ipfix_st
    \<Rightarrow> (nat option \<times> ipfix_st) proc" where
  "ipfix_open_lib env types reverse_types sourceid version st =
     proc_bind (if gs_tstart st = 0 then ipfix_init env types reverse_types st else Returned (0, st)) (\<lambda>(r, st).
     if r < 0 then Returned (None, st)
     else if version \<noteq> IPFIX_VERSION_NF9 \<and> version \<noteq> IPFIX_VERSION then Returned (None, st)
     else if \<not> ie_alloc env then Returned (None, st)
     else
       let h = gs_next st in
       Returned (Some h, set_ifh h (new_handle sourceid version)
         (st\<lparr>gs_next := h + 1, gs_ipfixlist := h # gs_ipfixlist st\<rparr>)))"

fun find_collector :: "ipfix_st \<Rightarrow> string \<Rightarrow> int \<Rightarrow> ipfix_proto \<Rightarrow> nat list \<Rightarrow> nat option" where
  "find_collector st host port prot [] = None"
| "find_collector st host port prot (c # cs) =
     (case gs_col st c of
        Some col \<Rightarrow>
          if strcmp_eq (cl_chost col) host \<and> cl_cport col = port \<and> cl_protocol col = prot then Some c
          else find_collector st host port prot cs
      | None \<Rightarrow> find_collector st host port prot cs)"

definition new_collector :: "string \<Rightarrow> int \<Rightarrow> ipfix_proto \<Rightarrow> ipfix_collector" where
  "new_collector host port prot =
     \<lparr>cl_usecount = 1, cl_chost = strdup host, cl_cport = port, cl_protocol = prot, cl_fd = -1, cl_lastaccess = 0,
      cl_message = \<lparr>ms_buffer = replicate IPFIX_DEFAULT_BUFLEN 0, ms_nrecords = 0, ms_offset = 0\<rparr>\<rparr>"

text \<open>\<open>_ipfix_add_collector\<close> without SSL: with \<open>ssl_flag\<close> it is refused.\<close>

definition ipfix_add_collector_flag :: "ipfix_env \<Rightarrow> nat \<Rightarrow> string option \<Rightarrow> int \<Rightarrow> ipfix_proto \<Rightarrow> bool \<Rightarrow> ipfix_st \<Rightarrow> ipfix_res" where
  "ipfix_add_collector_flag env h host port prot ssl_flag st =
     (case host of
        None \<Rightarrow> Returned (-1, st)
      | Some host \<Rightarrow>
          if ssl_flag then Returned (-1, st)
          else
            proc_bind (get_ifh h st) (\<lambda>i.
            if ix_collectors i \<noteq> None then Returned (-1, st)
            else
              (case find_collector st host port prot (gs_collectors st) of
                 Some c \<Rightarrow>
                   proc_bind (get_col c st) (\<lambda>col.
                   Returned (0, set_ifh h (i\<lparr>ix_collectors := Some c\<rparr>) (set_col c (col\<lparr>cl_usecount := cl_usecount col + 1\<rparr>) st)))
               | None \<Rightarrow>
                   if \<not> ie_alloc env \<or> prot = Other_proto then Returned (-1, st)
                   else
                     let c = gs_next st in
                     ipfix_connect env c (set_ifh h (i\<lparr>ix_collectors := Some c\<rparr>)
                       (set_col c (new_collector host port prot)
                         (st\<lparr>gs_next := c + 1, gs_collectors := c # gs_collectors st\<rparr>))))))"

definition ipfix_add_collector :: "ipfix_env \<Rightarrow> nat \<Rightarrow> string option \<Rightarrow> int \<Rightarrow> ipfix_proto \<Rightarrow> ipfix_st \<Rightarrow> ipfix_res" where
  "ipfix_add_collector env h host port prot st = ipfix_add_collector_flag env h host port prot False st"

section \<open>Templates\<close>

definition no_field :: ipfix_template_field where
  "no_field = \<lparr>tf_flength = 0, tf_unknown = False, tf_relay = False, tf_elem = None\<rparr>"

text \<open>The last template number is of 16 bits and wraps.\<close>

definition next_tid :: "ipfix_st \<Rightarrow> nat" where
  "next_tid st = (gs_lasttid st + 1) mod 2 ^ 16"

definition insert_template :: "nat \<Rightarrow> ipfix_template \<Rightarrow> ipfix_st \<Rightarrow> (nat option \<times> ipfix_st) proc" where
  "insert_template h templ st =
     proc_bind (get_ifh h st) (\<lambda>i.
     let t = gs_next st in
     Returned (Some t, set_templ t templ (set_ifh h (i\<lparr>ix_templates := t # ix_templates i\<rparr>)
       (st\<lparr>gs_next := t + 1, gs_lasttid := te_tid templ\<rparr>))))"

definition ipfix_new_template :: "ipfix_env \<Rightarrow> nat \<Rightarrow> ipfix_templ_type \<Rightarrow> int \<Rightarrow> ipfix_st \<Rightarrow> (nat option \<times> ipfix_st) proc" where
  "ipfix_new_template env h ty nfields st =
     (if nfields < 1 then Returned (None, st)
      else if \<not> ie_alloc env then Returned (None, st)
      else insert_template h \<lparr>te_type = ty, te_tsend = 0, te_tid = next_tid st, te_ndatafields = 0, te_nscopefields = 0,
        te_nfields = 0, te_fields = replicate (nat nfields) no_field, te_maxfields = nat nfields, te_odid = 0\<rparr> st)"

definition ipfix_new_data_template :: "ipfix_env \<Rightarrow> nat \<Rightarrow> int \<Rightarrow> ipfix_st \<Rightarrow> (nat option \<times> ipfix_st) proc" where
  "ipfix_new_data_template env h nfields st = ipfix_new_template env h DATA_TEMPLATE nfields st"

definition ipfix_new_option_template :: "ipfix_env \<Rightarrow> nat \<Rightarrow> int \<Rightarrow> ipfix_st \<Rightarrow> (nat option \<times> ipfix_st) proc" where
  "ipfix_new_option_template env h nfields st = ipfix_new_template env h OPTION_TEMPLATE nfields st"

definition put_field :: "nat \<Rightarrow> nat \<Rightarrow> ipfix_field option \<Rightarrow> ipfix_template_field list \<Rightarrow> ipfix_template_field list" where
  "put_field i len elem fs = fs[i := (fs ! i)\<lparr>tf_flength := len, tf_elem := elem\<rparr>]"

text \<open>The length and the element (none) are stored before the element is tested.\<close>

definition ipfix_add_field :: "nat \<Rightarrow> int \<Rightarrow> nat \<Rightarrow> nat \<Rightarrow> ipfix_st \<Rightarrow> ipfix_res" where
  "ipfix_add_field t eno type len st =
     proc_bind (get_templ t st) (\<lambda>templ.
     if te_nfields templ < te_maxfields templ \<and> type < IPFIX_EFT_VENDOR_BIT then
       (let elem = ipfix_get_ftinfo (gs_fields st) eno (int type);
            templ = templ\<lparr>te_fields := put_field (te_nfields templ) len elem (te_fields templ)\<rparr> in
        if elem = None then Returned (-1, set_templ t templ st)
        else Returned (0, set_templ t (templ\<lparr>te_nfields := te_nfields templ + 1, te_ndatafields := te_ndatafields templ + 1\<rparr>) st))
     else Returned (-1, st))"

text \<open>The data fields are moved up by one before the element is looked up.\<close>

definition ipfix_add_scope_field :: "nat \<Rightarrow> int \<Rightarrow> nat \<Rightarrow> nat \<Rightarrow> ipfix_st \<Rightarrow> ipfix_res" where
  "ipfix_add_scope_field t eno type len st =
     proc_bind (get_templ t st) (\<lambda>templ.
     if te_type templ \<noteq> OPTION_TEMPLATE then Returned (-1, st)
     else if te_nfields templ < te_maxfields templ then
       (let n = te_nscopefields templ; d = te_ndatafields templ; fs = te_fields templ;
            moved = (if d > 0 then take (n + 1) fs @ take d (drop n fs) @ drop (n + 1 + d) fs else fs);
            elem = ipfix_get_ftinfo (gs_fields st) eno (int type);
            templ = templ\<lparr>te_fields := put_field n len elem moved\<rparr> in
        if elem = None then Returned (-1, set_templ t templ st)
        else Returned (0, set_templ t (templ\<lparr>te_nscopefields := n + 1, te_nfields := te_nfields templ + 1\<rparr>) st))
     else Returned (0, st))"

definition ipfix_delete_template :: "nat \<Rightarrow> nat option \<Rightarrow> ipfix_st \<Rightarrow> ipfix_st proc" where
  "ipfix_delete_template h t st =
     (case t of
        None \<Rightarrow> Returned st
      | Some t \<Rightarrow>
          proc_bind (get_ifh h st) (\<lambda>i.
          Returned ((set_ifh h (i\<lparr>ix_templates := remove1 t (ix_templates i)\<rparr>) st)\<lparr>gs_templ := (gs_templ st)(t := None)\<rparr>)))"

text \<open>All fields are added, errors are remembered.\<close>

fun add_all_fields :: "nat \<Rightarrow> (nat \<times> nat) list \<Rightarrow> bool \<Rightarrow> ipfix_st \<Rightarrow> (bool \<times> ipfix_st) proc" where
  "add_all_fields t [] error st = Returned (error, st)"
| "add_all_fields t ((type, len) # fs) error st =
     proc_bind (ipfix_add_field t 0 type len st) (\<lambda>(r, st). add_all_fields t fs (error \<or> r < 0) st)"

definition ipfix_get_template :: "ipfix_env \<Rightarrow> nat \<Rightarrow> (nat \<times> nat) list \<Rightarrow> ipfix_st \<Rightarrow> (nat option \<times> ipfix_st) proc" where
  "ipfix_get_template env h fds st =
     proc_bind (ipfix_new_template env h DATA_TEMPLATE (int (length fds)) st) (\<lambda>(t, st).
     (case t of
        None \<Rightarrow> Returned (None, st)
      | Some t \<Rightarrow>
          proc_bind (add_all_fields t fds False st) (\<lambda>(error, st).
          if error then proc_bind (ipfix_delete_template h (Some t) st) (\<lambda>st. Returned (None, st))
          else Returned (Some t, st))))"

text \<open>The new fields have no element, but the type is stored through it.\<close>

definition ipfix_get_template_array :: "ipfix_env \<Rightarrow> nat \<Rightarrow> (int \<times> int) list \<Rightarrow> ipfix_st \<Rightarrow> (nat option \<times> ipfix_st) proc" where
  "ipfix_get_template_array env h fds st =
     (if \<not> ie_alloc env then Returned (None, st)
      else if fds \<noteq> [] then Undefined ''null pointer''
      else insert_template h \<lparr>te_type = DATA_TEMPLATE, te_tsend = 0, te_tid = next_tid st, te_ndatafields = 0, te_nscopefields = 0,
        te_nfields = 0, te_fields = [], te_maxfields = 0, te_odid = 0\<rparr> st)"

fun add_export_fields :: "nat \<Rightarrow> (int \<times> nat \<times> nat) list \<Rightarrow> ipfix_st \<Rightarrow> ipfix_res" where
  "add_export_fields t [] st = Returned (0, st)"
| "add_export_fields t ((eno, ienum, len) # fs) st =
     proc_bind (ipfix_add_field t eno ienum len st) (\<lambda>(r, st). if r < 0 then Returned (-1, st) else add_export_fields t fs st)"

definition ipfix_make_template :: "ipfix_env \<Rightarrow> nat \<Rightarrow> (int \<times> nat \<times> nat) list \<Rightarrow> ipfix_st \<Rightarrow> (nat option \<times> ipfix_st) proc" where
  "ipfix_make_template env h fds st =
     proc_bind (ipfix_new_data_template env h (int (length fds)) st) (\<lambda>(t, st).
     (case t of
        None \<Rightarrow> Returned (None, st)
      | Some t \<Rightarrow>
          proc_bind (add_export_fields t fds st) (\<lambda>(r, st).
          if r < 0 then proc_bind (ipfix_delete_template h (Some t) st) (\<lambda>st. Returned (None, st))
          else Returned (Some t, st))))"

text \<open>
  The variable arguments of \<open>ipfix_export\<close>: for each field a pointer, here the memory behind it,
  and for fields of variable length the length after it.
\<close>

fun collect_values :: "ipfix_template_field list \<Rightarrow> (byte list \<times> nat) list \<Rightarrow> byte list list" where
  "collect_values (f # fs) ((mem, len) # args) =
     take (if tf_flength f = IPFIX_FT_VARLEN then len mod 2 ^ 16 else tf_flength f) mem # collect_values fs args"
| "collect_values _ _ = []"

definition ipfix_export :: "ipfix_env \<Rightarrow> nat \<Rightarrow> nat option \<Rightarrow> (byte list \<times> nat) list \<Rightarrow> ipfix_st \<Rightarrow> ipfix_res" where
  "ipfix_export env h t args st =
     (case t of
        None \<Rightarrow> Returned (-1, st)
      | Some t' \<Rightarrow>
          proc_bind (get_templ t' st) (\<lambda>templ.
          if \<not> ie_alloc env then Returned (-1, st)
          else ipfix_export_array env h t (collect_values (take (te_nfields templ) (te_fields templ)) args) st))"

end
