(* ===== verification/IpfixSession.thy ===== *)
theory IpfixSession
  imports IpfixApi
begin

text \<open>
  What an exporter sends: the messages of a session with one TCP collector, and that the buffer is
  not overrun by records that fit it.
\<close>

section \<open>Records and sets\<close>

lemma length_u16 [simp]: "length (u16 x) = 2" by (simp add: u16_def)

lemma length_u32 [simp]: "length (u32 x) = 4" by (simp add: u32_def)

lemma put_at_append:
  assumes "take n buf = bs" "n + length cs \<le> length buf" "n \<le> length buf"
  shows "\<exists>buf'. put_at n cs buf = Returned buf' \<and> take (n + length cs) buf' = bs @ cs \<and> length buf' = length buf"
  using assms by (auto simp: put_at_def)

lemma put_at_front:
  assumes "take n buf = h @ bs" "length cs = length h" "n \<le> length buf"
  shows "\<exists>buf'. put_at 0 cs buf = Returned buf' \<and> take n buf' = cs @ bs \<and> length buf' = length buf"
proof -
  have n: "length h + length bs = n" using assms(1,3) by (metis length_append length_take min_absorb2)
  have "buf = h @ bs @ drop n buf" using assms(1) by (metis append.assoc append_take_drop_id)
  then have "drop (length h) buf = bs @ drop n buf" by (metis append_eq_conv_conj)
  then show ?thesis using n assms(2,3) by (simp add: put_at_def)
qed

lemma field_bytes_length:
  assumes "field_bytes host f v = Returned b"
  shows "length b = (if tf_flength f = IPFIX_FT_VARLEN then (if length v > 254 then 3 else 1) else 0) + length v"
  using assms by (auto simp: field_bytes_def Let_def ipfix_encode_bytes_def split: if_splits option.splits)

lemma record_bytes_length:
  "record_bytes host fs vs = Returned b \<Longrightarrow> record_length fs vs = Some n \<Longrightarrow> length b = n"
proof (induction host fs vs arbitrary: b n rule: record_bytes.induct)
  case (1 host f fs v vs)
  obtain x y where xy: "field_bytes host f v = Returned x" "record_bytes host fs vs = Returned y" "b = x @ y"
    using 1(2) by (auto simp: proc_bind_Returned)
  obtain m where m: "record_length fs vs = Some m" using 1(3) by (auto split: if_splits)
  then have "length y = m" using 1(1) xy by simp
  with 1(3) m field_bytes_length [OF xy(1)] show ?case by (auto simp: xy(3) split: if_splits)
qed auto

text \<open>A record that can be exported: every field has an element and no value is too long.\<close>

definition record_ok :: "ipfix_template_field list \<Rightarrow> byte list list \<Rightarrow> bool" where
  "record_ok fs vs \<longleftrightarrow> length fs = length vs \<and> list_all (\<lambda>f. tf_elem f \<noteq> None) fs \<and>
     list_all2 (\<lambda>f v. tf_flength f = IPFIX_FT_VARLEN \<or> length v \<le> tf_flength f) fs vs"

definition the_record :: "ipfix_host \<Rightarrow> ipfix_template_field list \<Rightarrow> byte list list \<Rightarrow> byte list" where
  "the_record host fs vs = (case record_bytes host fs vs of Returned b \<Rightarrow> b | _ \<Rightarrow> [])"

lemma record_ok_bytes:
  "record_ok fs vs \<Longrightarrow> record_bytes host fs vs = Returned (the_record host fs vs) \<and>
    record_length fs vs = Some (length (the_record host fs vs))"
proof -
  have "record_ok fs vs \<Longrightarrow> (\<exists>b. record_bytes host fs vs = Returned b) \<and> (\<exists>n. record_length fs vs = Some n)"
  proof (induction fs arbitrary: vs)
    case (Cons f fs)
    then obtain v vs' where vs: "vs = v # vs'" by (cases vs) (simp_all add: record_ok_def)
    have "\<exists>x. field_bytes host f v = Returned x"
      using Cons.prems by (auto simp: vs record_ok_def field_bytes_def Let_def)
    moreover have "record_ok fs vs'" using Cons.prems by (simp add: vs record_ok_def)
    note Cons.IH [OF this]
    ultimately show ?case using Cons.prems by (auto simp: vs record_ok_def)
  qed (simp add: record_ok_def)
  then show "record_ok fs vs \<Longrightarrow> ?thesis"
    using record_bytes_length by (fastforce simp: the_record_def)
qed

section \<open>The buffer of a handle\<close>

text \<open>
  The buffer is empty, or holds one open set with the records \<open>rs\<close> of the template \<open>tid\<close>; the room for
  the header of the set is there, its contents are written when the set is closed.
\<close>

definition buffer_holds :: "ipfix_handle \<Rightarrow> nat \<Rightarrow> byte list list \<Rightarrow> bool" where
  "buffer_holds i tid rs \<longleftrightarrow> length (ix_buffer i) = IPFIX_DEFAULT_BUFLEN \<and> ix_nrecords i = length rs \<and>
     (if rs = [] then ix_offset i = 0 \<and> ix_cs_tid i = 0 \<and> ix_cs_header i = None
      else ix_cs_tid i = tid \<and> ix_cs_header i = Some 0 \<and> ix_offset i = 4 + length (concat rs) \<and>
        ix_offset i \<le> IPFIX_DEFAULT_BUFLEN \<and> ix_cs_bytes i = ix_offset i \<and>
        (\<exists>hdr. length hdr = 4 \<and> take (ix_offset i) (ix_buffer i) = hdr @ concat rs))"

definition data_set :: "nat \<Rightarrow> byte list list \<Rightarrow> byte list" where
  "data_set tid rs = u16 (int tid) @ u16 (int (4 + length (concat rs))) @ concat rs"

lemma length_data_set [simp]: "length (data_set tid rs) = 4 + length (concat rs)"
  by (simp add: data_set_def)

lemma finish_open_set:
  assumes "buffer_holds i tid rs" "rs \<noteq> []"
  shows "\<exists>buf. finish_cs i = Returned (i\<lparr>ix_buffer := buf, ix_cs_bytes := 0, ix_cs_header := None, ix_cs_tid := 0\<rparr>) \<and>
    take (ix_offset i) buf = data_set tid rs \<and> length buf = IPFIX_DEFAULT_BUFLEN"
proof -
  obtain hdr where h: "length hdr = 4" "take (ix_offset i) (ix_buffer i) = hdr @ concat rs"
    using assms by (auto simp: buffer_holds_def)
  have "\<exists>buf. put_at 0 (u16 (int tid) @ u16 (int (ix_cs_bytes i))) (ix_buffer i) = Returned buf \<and>
      take (ix_offset i) buf = (u16 (int tid) @ u16 (int (ix_cs_bytes i))) @ concat rs \<and> length buf = length (ix_buffer i)"
    by (rule put_at_front [OF h(2)]) (use h(1) assms in \<open>auto simp: buffer_holds_def\<close>)
  with assms show ?thesis by (auto simp: finish_cs_def buffer_holds_def data_set_def)
qed

section \<open>One record\<close>

lemma set_ifh_simps [simp]:
  "set_ifh h i (set_ifh h j st) = set_ifh h i st"
  "gs_ifh (set_ifh h i st) = (gs_ifh st)(h \<mapsto> i)" "gs_col (set_ifh h i st) = gs_col st"
  "gs_templ (set_ifh h i st) = gs_templ st" "gs_host (set_ifh h i st) = gs_host st"
  "gs_collectors (set_ifh h i st) = gs_collectors st" "gs_sent (set_ifh h i st) = gs_sent st"
  "gs_bufs (set_ifh h i st) = gs_bufs st" "gs_tstart (set_ifh h i st) = gs_tstart st" "gs_io (set_ifh h i st) = gs_io st"
  "gs_reset (set_ifh h i st) = gs_reset st" "gs_fields (set_ifh h i st) = gs_fields st"
  "gs_ipfixlist (set_ifh h i st) = gs_ipfixlist st"
  by (simp_all add: set_ifh_def)

lemma set_col_simps [simp]:
  "gs_ifh (set_col c i st) = gs_ifh st" "gs_col (set_col c i st) = (gs_col st)(c \<mapsto> i)"
  "gs_templ (set_col c i st) = gs_templ st" "gs_host (set_col c i st) = gs_host st"
  "gs_collectors (set_col c i st) = gs_collectors st" "gs_sent (set_col c i st) = gs_sent st"
  "gs_bufs (set_col c i st) = gs_bufs st" "gs_tstart (set_col c i st) = gs_tstart st" "gs_io (set_col c i st) = gs_io st"
  "gs_reset (set_col c i st) = gs_reset st" "gs_ipfixlist (set_col c i st) = gs_ipfixlist st"
  by (simp_all add: set_col_def)

lemma set_templ_simps [simp]:
  "gs_ifh (set_templ t i st) = gs_ifh st" "gs_col (set_templ t i st) = gs_col st"
  "gs_templ (set_templ t i st) = (gs_templ st)(t \<mapsto> i)" "gs_host (set_templ t i st) = gs_host st"
  "gs_collectors (set_templ t i st) = gs_collectors st" "gs_sent (set_templ t i st) = gs_sent st"
  "gs_bufs (set_templ t i st) = gs_bufs st" "gs_tstart (set_templ t i st) = gs_tstart st" "gs_io (set_templ t i st) = gs_io st"
  "gs_reset (set_templ t i st) = gs_reset st" "gs_ipfixlist (set_templ t i st) = gs_ipfixlist st"
  by (simp_all add: set_templ_def)

text \<open>Two handles with the same settings.\<close>

definition same_handle :: "ipfix_handle \<Rightarrow> ipfix_handle \<Rightarrow> bool" where
  "same_handle i i' \<longleftrightarrow> ix_sourceid i' = ix_sourceid i \<and> ix_version i' = ix_version i \<and> ix_collectors i' = ix_collectors i \<and>
     ix_templates i' = ix_templates i"

lemma same_handle_refl [simp]: "same_handle i i" by (simp add: same_handle_def)

lemma same_handle_trans: "same_handle a b \<Longrightarrow> same_handle b c \<Longrightarrow> same_handle a c" by (simp add: same_handle_def)

definition templ_fields :: "ipfix_template \<Rightarrow> ipfix_template_field list" where
  "templ_fields templ = take (te_nfields templ) (te_fields templ)"

text \<open>
  A record is put into the buffer when its template is not due and there is room: first the header
  of a new set, then the encoded fields.
\<close>

lemma export_record:
  assumes st: "gs_ifh st h = Some i0" "gs_templ st t = Some templ"
    and due: "(if te_tsend templ = 0 then write_templates env h (chain (ix_collectors i0) st) t st
      else resend_due env h (chain (ix_collectors i0) st) t st) = Returned (0, st1)"
    and st1: "gs_ifh st1 h = Some i" "gs_host st1 = host"
    and rs: "buffer_holds i (te_tid templ) rs" "0 < te_tid templ"
    and vs: "length vs = te_nfields templ" "record_ok (templ_fields templ) vs"
    and r: "r = the_record host (templ_fields templ) vs" "4 + length (concat rs) + length r \<le> IPFIX_DEFAULT_BUFLEN"
  shows "\<exists>i'. ipfix_export_array env h (Some t) vs st = Returned (0, set_ifh h i' st1) \<and> buffer_holds i' (te_tid templ) (rs @ [r]) \<and>
    same_handle i i' \<and> ix_seqno i' = (if ix_version i = IPFIX_VERSION then ix_seqno i + 1 else ix_seqno i)"
proof -
  note ok = record_ok_bytes [OF vs(2), of host]
  have room: "ix_offset i + (if te_tid templ \<noteq> ix_cs_tid i then 4 else 0) + length r \<le> IPFIX_DEFAULT_BUFLEN"
    using rs r(2) by (auto simp: buffer_holds_def split: if_splits)
  show ?thesis
  proof (cases "rs = []")
    case True
    have e: "ix_offset i = 0" "ix_cs_tid i = 0" "length (ix_buffer i) = IPFIX_DEFAULT_BUFLEN" "ix_nrecords i = 0"
      using rs(1) by (simp_all add: True buffer_holds_def)
    let ?bytes = "u16 (int (te_tid templ)) @ u16 (int (4 + length r)) @ r"
    have l: "length ?bytes = 4 + length r" by simp
    have "\<exists>buf. put_at 0 ?bytes (ix_buffer i) = Returned buf \<and> take (0 + length ?bytes) buf = [] @ ?bytes \<and>
        length buf = length (ix_buffer i)"
      by (rule put_at_append) (use e r(2) in \<open>simp_all add: True\<close>)
    then obtain buf where buf: "put_at 0 ?bytes (ix_buffer i) = Returned buf" "take (4 + length r) buf = ?bytes"
      "length buf = IPFIX_DEFAULT_BUFLEN" unfolding l using e(3) by auto
    define i' where "i' = i\<lparr>ix_cs_header := Some 0, ix_cs_tid := te_tid templ, ix_buffer := buf,
      ix_nrecords := 1, ix_offset := 4 + length r, ix_cs_bytes := 4 + length r,
      ix_seqno := (if ix_version i = IPFIX_VERSION then ix_seqno i + 1 else ix_seqno i)\<rparr>"
    have "ipfix_export_array env h (Some t) vs st = Returned (0, set_ifh h i' st1)"
      using st st1 vs(1) ok rs(2) room e buf(1) due
      by (simp add: ipfix_export_array_def put_record_def get_ifh_def get_templ_def templ_fields_def [symmetric] r(1) [symmetric] i'_def Let_def)
        (simp add: eval_nat_numeral)
    moreover have "buffer_holds i' (te_tid templ) (rs @ [r])"
      using buf r(2) by (auto simp: True buffer_holds_def i'_def intro!: exI [of _ "u16 (int (te_tid templ)) @ u16 (int (4 + length r))"])
    ultimately show ?thesis by (auto simp: i'_def same_handle_def)
  next
    case False
    obtain hdr where e: "ix_offset i = 4 + length (concat rs)" "ix_cs_tid i = te_tid templ" "ix_cs_header i = Some 0"
      "length (ix_buffer i) = IPFIX_DEFAULT_BUFLEN" "ix_nrecords i = length rs" "ix_cs_bytes i = ix_offset i"
      "length hdr = 4" "take (ix_offset i) (ix_buffer i) = hdr @ concat rs"
      using rs(1) False by (auto simp: buffer_holds_def)
    obtain buf where buf: "put_at (ix_offset i) r (ix_buffer i) = Returned buf"
      "take (ix_offset i + length r) buf = (hdr @ concat rs) @ r" "length buf = IPFIX_DEFAULT_BUFLEN"
      using put_at_append [OF e(8), of r] e r(2) by auto
    define i' where "i' = i\<lparr>ix_buffer := buf, ix_nrecords := ix_nrecords i + 1, ix_offset := ix_offset i + length r,
      ix_cs_bytes := ix_cs_bytes i + length r,
      ix_seqno := (if ix_version i = IPFIX_VERSION then ix_seqno i + 1 else ix_seqno i)\<rparr>"
    have "ipfix_export_array env h (Some t) vs st = Returned (0, set_ifh h i' st1)"
      using st st1 vs(1) ok room e(2) buf(1) due
      by (simp add: ipfix_export_array_def put_record_def get_ifh_def get_templ_def templ_fields_def [symmetric] r(1) [symmetric] i'_def Let_def)
    moreover have "buffer_holds i' (te_tid templ) (rs @ [r])"
      using buf r(2) e by (auto simp: buffer_holds_def i'_def intro!: exI [of _ hdr])
    ultimately show ?thesis by (auto simp: i'_def same_handle_def)
  qed
qed

section \<open>A session over TCP\<close>

definition full_write :: "ipfix_env \<Rightarrow> bool" where
  "full_write env \<longleftrightarrow> (\<forall>n k. int k \<le> ie_write env n k)"

lemma do_writen_full:
  assumes "full_write env" "bs \<noteq> []"
  shows "do_writen env c n bs st = (int n, st\<lparr>gs_io := gs_io st + 1, gs_sent := gs_sent st @ [(c, bs)]\<rparr>)"
proof -
  have "min (ie_write env (gs_io st) (length bs)) (int (length bs)) = int (length bs)"
    using assms(1) by (simp add: full_write_def min_absorb2)
  then show ?thesis
    using assms(2) by (simp add: do_writen.simps [of env c n bs] do_writen.simps [of env c n "[]"] Let_def)
qed

text \<open>
  The handle \<open>h\<close> sends to the TCP collector \<open>c\<close>, which is connected and the only one, and uses the
  template \<open>t\<close>; \<open>b\<close> buffers are free, \<open>sent\<close> is what the sockets took.
\<close>

definition session :: "nat \<Rightarrow> nat \<Rightarrow> nat \<Rightarrow> ipfix_handle \<Rightarrow> ipfix_collector \<Rightarrow> ipfix_template \<Rightarrow> ipfix_host \<Rightarrow> nat
    \<Rightarrow> (nat \<times> byte list) list \<Rightarrow> ipfix_st \<Rightarrow> bool" where
  "session h c t i col templ host b sent st \<longleftrightarrow>
     gs_ifh st h = Some i \<and> gs_col st c = Some col \<and> gs_templ st t = Some templ \<and> gs_collectors st = [c] \<and>
     ix_collectors i = Some c \<and> ix_version i = IPFIX_VERSION \<and> cl_protocol col = IPFIX_PROTO_TCP \<and> 0 \<le> cl_fd col \<and>
     length (ms_buffer (cl_message col)) = IPFIX_DEFAULT_BUFLEN \<and> ms_offset (cl_message col) \<le> IPFIX_DEFAULT_BUFLEN \<and>
     gs_host st = host \<and> gs_bufs st = b \<and> gs_sent st = sent"

definition ipfix_header :: "int \<Rightarrow> nat \<Rightarrow> int \<Rightarrow> int \<Rightarrow> byte list" where
  "ipfix_header now len seqno sourceid = u16 10 @ u16 (int (len + 16)) @ u32 now @ u32 seqno @ u32 sourceid"

lemma length_ipfix_header [simp]: "length (ipfix_header now len seqno sourceid) = 16"
  by (simp add: ipfix_header_def)

lemma write_header_ipfix:
  "ix_version i = IPFIX_VERSION \<Longrightarrow> write_header env st n len i =
    (ipfix_header (ie_now env) len (int (ix_seqno i) - int (ix_nrecords i)) (ix_sourceid i), i)"
  by (simp add: write_header_def ipfix_header_def IPFIX_VERSION_def IPFIX_VERSION_NF9_def IPFIX_HDR_BYTES_def)

lemma send_message_full:
  assumes "session h c t i col templ host (Suc b) sent st" "full_write env"
  shows "\<exists>st' col'. ipfix_send_message env h c st = Returned (0, st') \<and>
    col' = col\<lparr>cl_message := (cl_message col)\<lparr>ms_nrecords := 0, ms_offset := 0\<rparr>, cl_lastaccess := ie_now env\<rparr> \<and>
    session h c t i col' templ host (Suc b)
      (sent @ [(c, ipfix_header (ie_now env) (ms_offset (cl_message col)) (int (ix_seqno i) - int (ix_nrecords i)) (ix_sourceid i) @
        take (ms_offset (cl_message col)) (ms_buffer (cl_message col)))]) st'"
proof -
  let ?m = "cl_message col"
  let ?bs = "ipfix_header (ie_now env) (ms_offset ?m) (int (ix_seqno i) - int (ix_nrecords i)) (ix_sourceid i) @
    take (ms_offset ?m) (ms_buffer ?m)"
  have ne: "?bs \<noteq> []" by (metis length_ipfix_header list.size(3) append_is_Nil_conv zero_neq_numeral)
  have c: "copy_to_iobuf (ipfix_header (ie_now env) (ms_offset ?m) (int (ix_seqno i) - int (ix_nrecords i)) (ix_sourceid i))
      (take (ms_offset ?m) (ms_buffer ?m)) = Returned ?bs"
    using assms(1) by (simp add: copy_to_iobuf_def session_def IPFIX_HDR_BYTES_NF9_def)
  show ?thesis
    using assms(1) unfolding session_def
    by (simp add: ipfix_send_message_def get_ifh_def get_col_def ipfix_getbuf_def ipfix_write_msghdr_def write_header_ipfix
        c do_writen_full [OF assms(2) ne] Let_def ipfix_freebuf_def)
qed

text \<open>The template goes into the message of the collector.\<close>

definition template_set :: "ipfix_template \<Rightarrow> byte list" where
  "template_set templ =
     u16 2 @ u16 (int (8 + length (concat (map spec_bytes (templ_fields templ))))) @ u16 (int (te_tid templ)) @
     u16 (int (te_nfields templ)) @ concat (map spec_bytes (templ_fields templ))"

lemma specs_length_bytes:
  "list_all (\<lambda>f. tf_elem f \<noteq> None) fs \<Longrightarrow> specs_length fs = Returned (length (concat (map spec_bytes fs)))"
  by (induction fs) (auto simp: spec_length_def spec_bytes_def)

lemma length_template_set: "length (template_set templ) = 8 + length (concat (map spec_bytes (templ_fields templ)))"
  by (simp add: template_set_def)

lemma write_template_tcp:
  assumes s: "session h c t i col templ host b sent st" and m: "ms_offset (cl_message col) = 0" "ix_offset i = 0"
    and t: "te_type templ = DATA_TEMPLATE" "te_nscopefields templ = 0" "list_all (\<lambda>f. tf_elem f \<noteq> None) (templ_fields templ)"
      "length (template_set templ) \<le> IPFIX_DEFAULT_BUFLEN"
  shows "\<exists>st' col'. ipfix_write_template env h c t st = Returned (0, st') \<and>
    session h c t i col' (templ\<lparr>te_tsend := ie_now env\<rparr>) host b sent st' \<and>
    ms_offset (cl_message col') = length (template_set templ) \<and>
    take (length (template_set templ)) (ms_buffer (cl_message col')) = template_set templ"
proof -
  have sp: "specs_length (take 0 (te_fields templ)) = Returned 0"
    "specs_length (templ_fields templ) = Returned (length (concat (map spec_bytes (templ_fields templ))))"
    using specs_length_bytes [OF t(3)] by simp_all
  have v: "ix_version i = IPFIX_VERSION" using s by (simp add: session_def)
  have tb: "template_bytes (ix_version i) templ (8 + length (concat (map spec_bytes (templ_fields templ)))) 0 osize = template_set templ"
    for osize using t(1) v by (simp add: template_bytes_def template_set_def templ_fields_def IPFIX_VERSION_def IPFIX_VERSION_NF9_def
        IPFIX_SETID_TEMPLATE_def)
  have room: "tcp_room env h c (length (template_set templ)) st = Some (Returned (0, st))"
    using t(4) m(1) s by (simp add: tcp_room.simps [of env h c "length (template_set templ)" st] message_offset_def session_def)
  obtain buf where buf: "put_at 0 (template_set templ) (ms_buffer (cl_message col)) = Returned buf"
    "take (length (template_set templ)) buf = template_set templ" "length buf = IPFIX_DEFAULT_BUFLEN"
    using put_at_append [of 0 "ms_buffer (cl_message col)" "[]" "template_set templ"] t(4) s by (auto simp: session_def)
  define col' where "col' = col\<lparr>cl_message := \<lparr>ms_buffer = buf, ms_nrecords = ms_nrecords (cl_message col),
    ms_offset = length (template_set templ)\<rparr>\<rparr>"
  have "ipfix_write_template env h c t st =
      Returned (0, set_templ t (templ\<lparr>te_tsend := ie_now env\<rparr>) (set_col c col' st))"
    using s m t buf(1) unfolding session_def ipfix_write_template_def ipfix_write_template_with_def
    by (simp add: get_ifh_def get_col_def get_templ_def t(2) sp [unfolded templ_fields_def] tb [unfolded templ_fields_def v IPFIX_VERSION_def]
        room [unfolded length_template_set templ_fields_def] Let_def col'_def IPFIX_VERSION_def IPFIX_VERSION_NF9_def
        length_template_set templ_fields_def)
  then show ?thesis
    using s buf t(4) unfolding session_def by (auto simp: col'_def)
qed

lemma connect_session: "session h c t i col templ host b sent st \<Longrightarrow> ipfix_connect env c st = Returned (0, st)"
  by (simp add: ipfix_connect_def get_col_def session_def)

text \<open>The message of the collector, when there is one, goes first.\<close>

definition pending :: "ipfix_env \<Rightarrow> nat \<Rightarrow> ipfix_handle \<Rightarrow> ipfix_collector \<Rightarrow> (nat \<times> byte list) list" where
  "pending env c i col =
     (if ms_offset (cl_message col) = 0 then []
      else [(c, ipfix_header (ie_now env) (ms_offset (cl_message col)) (int (ix_seqno i) - int (ix_nrecords i)) (ix_sourceid i) @
        take (ms_offset (cl_message col)) (ms_buffer (cl_message col)))])"

lemma send_msg_full:
  assumes s: "session h c t i col templ host (Suc b) sent st" and w: "full_write env" and ne: "bs \<noteq> []"
  shows "\<exists>st' col'. ipfix_send_msg env h c bs st = Returned (0, st') \<and>
    session h c t i col' templ host (Suc b) (sent @ pending env c i col @ [(c, bs)]) st' \<and> ms_offset (cl_message col') = 0"
proof -
  have "\<exists>st1 col1. (if message_offset c st > 0 then ipfix_send_message env h c st else Returned (0, st)) = Returned (0, st1) \<and>
      session h c t i col1 templ host (Suc b) (sent @ pending env c i col) st1 \<and> ms_offset (cl_message col1) = 0"
  proof (cases "ms_offset (cl_message col) = 0")
    case True
    with s show ?thesis by (auto simp: message_offset_def session_def pending_def)
  next
    case False
    with send_message_full [OF s w] s show ?thesis by (fastforce simp: message_offset_def session_def pending_def)
  qed
  then obtain st1 col1 where st1: "(if message_offset c st > 0 then ipfix_send_message env h c st else Returned (0, st)) = Returned (0, st1)"
    "session h c t i col1 templ host (Suc b) (sent @ pending env c i col) st1" "ms_offset (cl_message col1) = 0" by blast
  have "send_attempts env 2 c bs st1 =
      Returned (Some 0, st1\<lparr>gs_io := gs_io st1 + 1, gs_sent := gs_sent st1 @ [(c, bs)]\<rparr>)"
    by (simp add: numeral_2_eq_2 do_writen_full [OF w ne])
  then show ?thesis
    using st1 connect_session [OF s] unfolding session_def
    by (simp add: ipfix_send_msg_def get_col_def touch_collector_def)
qed

lemma flush_full:
  assumes s: "session h c t i col templ host (Suc (Suc b)) sent st" and w: "full_write env"
    and rs: "buffer_holds i tid rs" "rs \<noteq> []" "0 < tid"
  shows "\<exists>st' i' col'. ipfix_export_flush env h st = Returned (0, st') \<and>
    session h c t i' col' templ host (Suc (Suc b)) (sent @ pending env c i col @
      [(c, ipfix_header (ie_now env) (4 + length (concat rs)) (int (ix_seqno i) - int (length rs)) (ix_sourceid i) @ data_set tid rs)]) st' \<and>
    ms_offset (cl_message col') = 0 \<and> buffer_holds i' tid [] \<and> same_handle i i' \<and> ix_seqno i' = ix_seqno i"
proof -
  obtain buf where f: "finish_cs i = Returned (i\<lparr>ix_buffer := buf, ix_cs_bytes := 0, ix_cs_header := None, ix_cs_tid := 0\<rparr>)"
    "take (ix_offset i) buf = data_set tid rs" "length buf = IPFIX_DEFAULT_BUFLEN"
    using finish_open_set [OF rs(1,2)] by blast
  define i1 where "i1 = i\<lparr>ix_buffer := buf, ix_cs_bytes := 0, ix_cs_header := None, ix_cs_tid := 0\<rparr>"
  define st1 where "st1 = set_ifh h i1 (st\<lparr>gs_bufs := Suc b\<rparr>)"
  let ?hdr = "ipfix_header (ie_now env) (4 + length (concat rs)) (int (ix_seqno i) - int (length rs)) (ix_sourceid i)"
  have o: "ix_offset i = 4 + length (concat rs)" "ix_offset i \<le> IPFIX_DEFAULT_BUFLEN" "ix_cs_tid i = tid" "ix_nrecords i = length rs"
    using rs by (simp_all add: buffer_holds_def)
  have hdr: "ipfix_write_hdr env (st\<lparr>gs_bufs := Suc b\<rparr>) i1 = (?hdr, i1)"
    using s o by (simp add: ipfix_write_hdr_def write_header_ipfix session_def i1_def)
  have copy: "copy_to_iobuf ?hdr (take (ix_offset i1) (ix_buffer i1)) = Returned (?hdr @ data_set tid rs)"
    using f(2) o by (simp add: copy_to_iobuf_def i1_def IPFIX_HDR_BYTES_NF9_def)
  have "session h c t i1 col templ host (Suc b) sent st1" using s unfolding session_def by (simp add: st1_def i1_def)
  moreover have "0 < length (?hdr @ data_set tid rs)" by simp
  then have "?hdr @ data_set tid rs \<noteq> []" unfolding length_greater_0_conv .
  ultimately obtain st2 col2 where st2: "ipfix_send_msg env h c (?hdr @ data_set tid rs) st1 = Returned (0, st2)"
    "session h c t i1 col2 templ host (Suc b) (sent @ pending env c i1 col @ [(c, ?hdr @ data_set tid rs)]) st2"
    "ms_offset (cl_message col2) = 0"
    using send_msg_full [OF _ w, of h c t i1 col templ host b sent st1] by (metis append.assoc)
  define i2 where "i2 = i1\<lparr>ix_offset := 0, ix_nrecords := 0\<rparr>"
  have chain: "chain (ix_collectors i1) (st\<lparr>gs_bufs := Suc b\<rparr>) = [c]" using s by (simp add: chain_def session_def i1_def)
  have "ipfix_export_flush env h st = Returned (0, ipfix_freebuf (set_ifh h i2 st2))"
    using s o f(1) hdr copy rs(3) chain st2(1,2) unfolding session_def
    by (simp add: ipfix_export_flush_def get_ifh_def ipfix_getbuf_def i1_def [symmetric] st1_def [symmetric] i2_def)
  moreover have "session h c t i2 col2 templ host (Suc (Suc b)) (sent @ pending env c i1 col @ [(c, ?hdr @ data_set tid rs)])
      (ipfix_freebuf (set_ifh h i2 st2))"
    using st2(2) unfolding session_def by (simp add: ipfix_freebuf_def i2_def)
  moreover have "pending env c i1 col = pending env c i col" by (simp add: pending_def i1_def)
  ultimately show ?thesis
    using st2(3) f(3) by (fastforce simp: i2_def i1_def buffer_holds_def same_handle_def)
qed

section \<open>All that is sent\<close>

fun export_records :: "ipfix_env \<Rightarrow> nat \<Rightarrow> nat \<Rightarrow> byte list list list \<Rightarrow> ipfix_st \<Rightarrow> ipfix_res" where
  "export_records env h t [] st = Returned (0, st)"
| "export_records env h t (vs # vss) st =
     proc_bind (ipfix_export_array env h (Some t) vs st) (\<lambda>(r, st). if r < 0 then Returned (-1, st) else export_records env h t vss st)"

text \<open>A template as \<open>ipfix_new_data_template\<close> and \<open>ipfix_add_field\<close> make it, of a size that fits a message.\<close>

definition template_ok :: "ipfix_template \<Rightarrow> bool" where
  "template_ok templ \<longleftrightarrow> te_type templ = DATA_TEMPLATE \<and> te_nscopefields templ = 0 \<and> 0 < te_tid templ \<and>
     length (templ_fields templ) = te_nfields templ \<and> list_all (\<lambda>f. tf_elem f \<noteq> None) (templ_fields templ) \<and>
     length (template_set templ) \<le> IPFIX_DEFAULT_BUFLEN"

lemma resend_due_tcp:
  "gs_col st c = Some col \<Longrightarrow> cl_protocol col = IPFIX_PROTO_TCP \<Longrightarrow> gs_templ st t = Some templ \<Longrightarrow>
    resend_due env h [c] t st = Returned (0, st)"
  by (simp add: get_col_def get_templ_def)

lemma session_set_ifh:
  "session h c t i col templ host b sent st \<Longrightarrow> same_handle i i' \<Longrightarrow> session h c t i' col templ host b sent (set_ifh h i' st)"
  by (simp add: session_def same_handle_def)

lemma export_rest:
  assumes "session h c t i col templ host b sent st" "template_ok templ" "te_tsend templ \<noteq> 0"
    "buffer_holds i (te_tid templ) rs"
    "\<forall>vs \<in> set vss. record_ok (templ_fields templ) vs"
    "4 + length (concat (rs @ map (the_record host (templ_fields templ)) vss)) \<le> IPFIX_DEFAULT_BUFLEN"
  shows "\<exists>st' i'. export_records env h t vss st = Returned (0, st') \<and> session h c t i' col templ host b sent st' \<and>
    buffer_holds i' (te_tid templ) (rs @ map (the_record host (templ_fields templ)) vss) \<and> same_handle i i' \<and>
    ix_seqno i' = ix_seqno i + length vss"
  using assms
proof (induction vss arbitrary: st i rs)
  case (Cons vs vss)
  let ?r = "the_record host (templ_fields templ) vs"
  have s: "gs_ifh st h = Some i" "gs_templ st t = Some templ" "gs_host st = host" "ix_version i = IPFIX_VERSION"
    "chain (ix_collectors i) st = [c]"
    using Cons.prems(1) by (simp_all add: session_def chain_def)
  have due: "(if te_tsend templ = 0 then write_templates env h (chain (ix_collectors i) st) t st
      else resend_due env h (chain (ix_collectors i) st) t st) = Returned (0, st)"
    unfolding s(5) using Cons.prems(1,3) resend_due_tcp [of st c col t templ env h] unfolding session_def by presburger
  have l: "length vs = te_nfields templ" "0 < te_tid templ"
    using Cons.prems(2,5) by (auto simp: template_ok_def record_ok_def)
  have e: "\<exists>i1. ipfix_export_array env h (Some t) vs st = Returned (0, set_ifh h i1 st) \<and> buffer_holds i1 (te_tid templ) (rs @ [?r]) \<and>
      same_handle i i1 \<and> ix_seqno i1 = (if ix_version i = IPFIX_VERSION then ix_seqno i + 1 else ix_seqno i)"
    by (rule export_record [OF s(1,2) due s(1,3) Cons.prems(4) l(2,1)]) (use Cons.prems(5,6) in auto)
  then obtain i1 where i1: "ipfix_export_array env h (Some t) vs st = Returned (0, set_ifh h i1 st)"
    "buffer_holds i1 (te_tid templ) (rs @ [?r])" "same_handle i i1" "ix_seqno i1 = ix_seqno i + 1"
    by (auto simp: s(4))
  have "\<exists>st' i'. export_records env h t vss (set_ifh h i1 st) = Returned (0, st') \<and> session h c t i' col templ host b sent st' \<and>
    buffer_holds i' (te_tid templ) ((rs @ [?r]) @ map (the_record host (templ_fields templ)) vss) \<and> same_handle i1 i' \<and>
    ix_seqno i' = ix_seqno i1 + length vss"
    by (rule Cons.IH [OF session_set_ifh [OF Cons.prems(1) i1(3)] Cons.prems(2,3) i1(2)]) (use Cons.prems(5,6) in auto)
  then show ?case using i1 same_handle_trans by (fastforce simp: i1)
qed (auto intro: same_handle_refl)

text \<open>The first record takes its template along.\<close>

lemma export_first:
  assumes "session h c t i col templ host b sent st" "template_ok templ" "te_tsend templ = 0" "ms_offset (cl_message col) = 0"
    "buffer_holds i (te_tid templ) []" "record_ok (templ_fields templ) vs"
    "4 + length (the_record host (templ_fields templ) vs) \<le> IPFIX_DEFAULT_BUFLEN"
  shows "\<exists>st' i' col'. ipfix_export_array env h (Some t) vs st = Returned (0, st') \<and>
    session h c t i' col' (templ\<lparr>te_tsend := ie_now env\<rparr>) host b sent st' \<and>
    buffer_holds i' (te_tid templ) [the_record host (templ_fields templ) vs] \<and> same_handle i i' \<and> ix_seqno i' = ix_seqno i + 1 \<and>
    ms_offset (cl_message col') = length (template_set templ) \<and>
    take (length (template_set templ)) (ms_buffer (cl_message col')) = template_set templ"
proof -
  have o: "ix_offset i = 0" using assms(5) by (simp add: buffer_holds_def)
  obtain st1 col1 where w: "ipfix_write_template env h c t st = Returned (0, st1)"
    "session h c t i col1 (templ\<lparr>te_tsend := ie_now env\<rparr>) host b sent st1"
    "ms_offset (cl_message col1) = length (template_set templ)"
    "take (length (template_set templ)) (ms_buffer (cl_message col1)) = template_set templ"
    using write_template_tcp [OF assms(1,4) o] assms(2) unfolding template_ok_def by blast
  have s: "gs_ifh st h = Some i" "gs_templ st t = Some templ" "ix_version i = IPFIX_VERSION" "chain (ix_collectors i) st = [c]"
    "gs_ifh st1 h = Some i" "gs_host st1 = host"
    using assms(1) w(2) by (simp_all add: session_def chain_def)
  have due: "(if te_tsend templ = 0 then write_templates env h (chain (ix_collectors i) st) t st
      else resend_due env h (chain (ix_collectors i) st) t st) = Returned (0, st1)"
    using assms(3) w(1) by (simp add: s(4))
  have l: "length vs = te_nfields templ" "0 < te_tid templ" using assms(2,6) by (auto simp: template_ok_def record_ok_def)
  have "\<exists>i1. ipfix_export_array env h (Some t) vs st = Returned (0, set_ifh h i1 st1) \<and>
      buffer_holds i1 (te_tid templ) ([] @ [the_record host (templ_fields templ) vs]) \<and>
      same_handle i i1 \<and> ix_seqno i1 = (if ix_version i = IPFIX_VERSION then ix_seqno i + 1 else ix_seqno i)"
    by (rule export_record [OF s(1,2) due s(5,6) assms(5) l(2,1) assms(6) refl]) (use assms(7) in simp)
  then obtain i1 where i1: "ipfix_export_array env h (Some t) vs st = Returned (0, set_ifh h i1 st1)"
    "buffer_holds i1 (te_tid templ) [the_record host (templ_fields templ) vs]" "same_handle i i1" "ix_seqno i1 = ix_seqno i + 1"
    by (auto simp: s(3))
  then show ?thesis using session_set_ifh [OF w(2) i1(3)] w(3,4) by fastforce
qed

text \<open>
  What an exporter that starts with a new template sends for some records and a flush: a message
  with the template set and one with the data set, both with the sequence number of the first
  record.
\<close>

lemma session_sends:
  assumes "session h c t i col templ host (Suc (Suc b)) sent st" "template_ok templ" "te_tsend templ = 0"
    "ms_offset (cl_message col) = 0" "buffer_holds i (te_tid templ) []" "full_write env" "ie_now env \<noteq> 0"
    "vss \<noteq> []" "\<forall>vs \<in> set vss. record_ok (templ_fields templ) vs"
    "rs = map (the_record host (templ_fields templ)) vss" "4 + length (concat rs) \<le> IPFIX_DEFAULT_BUFLEN"
  shows "\<exists>st1 st2 i2 col2. export_records env h t vss st = Returned (0, st1) \<and> ipfix_export_flush env h st1 = Returned (0, st2) \<and>
    session h c t i2 col2 (templ\<lparr>te_tsend := ie_now env\<rparr>) host (Suc (Suc b)) (sent @
      [(c, ipfix_header (ie_now env) (length (template_set templ)) (int (ix_seqno i)) (ix_sourceid i) @ template_set templ),
       (c, ipfix_header (ie_now env) (length (data_set (te_tid templ) rs)) (int (ix_seqno i)) (ix_sourceid i) @
         data_set (te_tid templ) rs)]) st2 \<and>
    buffer_holds i2 (te_tid templ) [] \<and> ix_seqno i2 = ix_seqno i + length vss \<and> same_handle i i2"
proof -
  let ?t = "templ\<lparr>te_tsend := ie_now env\<rparr>"
  obtain vs vss' where vss: "vss = vs # vss'" using assms(8) by (cases vss) auto
  have "record_ok (templ_fields templ) vs" "4 + length (the_record host (templ_fields templ) vs) \<le> IPFIX_DEFAULT_BUFLEN"
    using assms(9,11) by (simp_all add: vss assms(10))
  then obtain st0 i0 col0 where e0: "ipfix_export_array env h (Some t) vs st = Returned (0, st0)"
    "session h c t i0 col0 ?t host (Suc (Suc b)) sent st0"
    "buffer_holds i0 (te_tid templ) [the_record host (templ_fields templ) vs]" "same_handle i i0" "ix_seqno i0 = ix_seqno i + 1"
    "ms_offset (cl_message col0) = length (template_set templ)"
    "take (length (template_set templ)) (ms_buffer (cl_message col0)) = template_set templ"
    using export_first [OF assms(1-5), of vs env] by blast
  have t: "templ_fields ?t = templ_fields templ" "template_ok ?t" "te_tid ?t = te_tid templ" "te_tsend ?t \<noteq> 0"
    using assms(2,7) by (simp_all add: template_ok_def templ_fields_def template_set_def)
  have "\<exists>st' i'. export_records env h t vss' st0 = Returned (0, st') \<and> session h c t i' col0 ?t host (Suc (Suc b)) sent st' \<and>
    buffer_holds i' (te_tid ?t) ([the_record host (templ_fields templ) vs] @ map (the_record host (templ_fields ?t)) vss') \<and>
    same_handle i0 i' \<and> ix_seqno i' = ix_seqno i0 + length vss'"
    by (rule export_rest [OF e0(2) t(2,4)]) (use e0(3) assms(9,11) in \<open>simp_all add: t vss assms(10)\<close>)
  then obtain st1 i1 where e1: "export_records env h t vss' st0 = Returned (0, st1)"
    "session h c t i1 col0 ?t host (Suc (Suc b)) sent st1" "buffer_holds i1 (te_tid templ) rs" "same_handle i0 i1"
    "ix_seqno i1 = ix_seqno i + length vss" using e0(5) by (auto simp: t assms(10) vss)
  have ne: "rs \<noteq> []" "0 < te_tid templ" using assms(2) by (simp_all add: assms(10) vss template_ok_def)
  have n: "ix_nrecords i1 = length rs" "length rs = length vss" "ix_sourceid i1 = ix_sourceid i"
    using e1(3,4) e0(4) by (simp_all add: buffer_holds_def assms(10) same_handle_def)
  have p: "pending env c i1 col0 =
      [(c, ipfix_header (ie_now env) (length (template_set templ)) (int (ix_seqno i)) (ix_sourceid i) @ template_set templ)]"
    using e0(6,7) n e1(5) by (simp add: pending_def length_template_set)
  obtain st2 i2 col2 where "ipfix_export_flush env h st1 = Returned (0, st2)"
    "session h c t i2 col2 ?t host (Suc (Suc b)) (sent @ pending env c i1 col0 @
      [(c, ipfix_header (ie_now env) (4 + length (concat rs)) (int (ix_seqno i1) - int (length rs)) (ix_sourceid i1) @
        data_set (te_tid templ) rs)]) st2"
    "buffer_holds i2 (te_tid templ) []" "same_handle i1 i2" "ix_seqno i2 = ix_seqno i1"
    using flush_full [OF e1(2) assms(6) e1(3) ne] by blast
  moreover have "export_records env h t vss st = Returned (0, st1)" by (simp add: vss e0(1) e1(1))
  moreover have "same_handle i i1" using same_handle_trans [OF e0(4) e1(4)] .
  ultimately show ?thesis
    using same_handle_trans [of i i1 i2] by (fastforce simp: p n e1(5))
qed

end
