(* ===== verification/IpfixCollect.thy ===== *)
theory IpfixCollect
  imports IpfixExport
begin

text \<open>
  The collector of \<open>lib/libipfix/lib/ipfix_col.c\<close>: how messages are parsed, templates kept by source,
  and records handed to the registered exporters (the server is in \<open>IpfixServer\<close>). A read past the bytes of a
  message is undefined; an element that was freed and is still pointed to is \<open>None\<close> in a field that
  is marked unknown. \<open>READ32\<close> gives an \<open>int\<close>.
\<close>

section \<open>State\<close>

record ipfix_hdr =
  hd_version :: nat
  hd_count :: nat
  hd_sysuptime :: nat
  hd_unixtime :: nat
  hd_length :: nat
  hd_exporttime :: nat
  hd_seqno :: nat
  hd_sourceid :: nat

datatype ipfix_input = IPFIX_INPUT_IPCON "byte list" | IPFIX_INPUT_FILE string

record ipfixt_node =
  tn_expire :: int
  tn_template :: ipfix_template
  tn_ident :: string

record ipfix_source =
  so_odid :: nat
  so_input :: ipfix_input
  so_templates :: "ipfixt_node list"

text \<open>
  The callbacks of an exporter: those that are set, and what the first two return. What they are
  given is recorded with the number of the exporter; a data record as the bytes of its values.
\<close>

record ipfix_exporter =
  ex_newsource :: "int option"
  ex_newmsg :: "int option"
  ex_trecord :: bool
  ex_dset :: bool
  ex_drecord :: bool
  ex_rawmsg :: bool

datatype col_event =
    Ev_source nat
  | Ev_msg ipfix_hdr
  | Ev_template "ipfix_template option"
  | Ev_dset nat "byte list"
  | Ev_record nat "byte list list"
  | Ev_raw "byte list"

type_synonym col_log = "(nat \<times> col_event) list"

record col_env =
  ce_now :: int
  ce_lifetime :: int
  ce_fields :: "ipfix_field list"
  ce_host :: ipfix_host
  ce_exporters :: "ipfix_exporter list"

definition notify :: "col_env \<Rightarrow> (ipfix_exporter \<Rightarrow> bool) \<Rightarrow> col_event \<Rightarrow> col_log \<Rightarrow> col_log" where
  "notify env has ev log = log @ map (\<lambda>(n, e). (n, ev)) (filter (\<lambda>(n, e). has e) (enumerate 0 (ce_exporters env)))"

section \<open>Reading\<close>

definition rd8 :: "byte list \<Rightarrow> nat \<Rightarrow> nat proc" where
  "rd8 buf k = (if k < length buf then Returned (unat (buf ! k)) else Undefined ''read past the message'')"

definition READ16 :: "byte list \<Rightarrow> nat \<Rightarrow> nat proc" where
  "READ16 buf k = (if k + 2 \<le> length buf then Returned (be_nat (take 2 (drop k buf))) else Undefined ''read past the message'')"

definition READ32 :: "byte list \<Rightarrow> nat \<Rightarrow> nat proc" where
  "READ32 buf k = (if k + 4 \<le> length buf then Returned (be_nat (take 4 (drop k buf))) else Undefined ''read past the message'')"

definition as_int :: "nat \<Rightarrow> int" where
  "as_int n = signed_take_bit 31 (int n)"

text \<open>The version is read before the length is tested.\<close>

definition ipfix_parse_hdr :: "byte list \<Rightarrow> ipfix_hdr option proc" where
  "ipfix_parse_hdr buf =
     proc_bind (READ16 buf 0) (\<lambda>version.
     if version = nat IPFIX_VERSION_NF9 then
       (if length buf < IPFIX_HDR_BYTES_NF9 then Returned None
        else
          proc_bind (READ16 buf 2) (\<lambda>count. proc_bind (READ32 buf 4) (\<lambda>up. proc_bind (READ32 buf 8) (\<lambda>unix.
          proc_bind (READ32 buf 12) (\<lambda>seqno. proc_bind (READ32 buf 16) (\<lambda>src.
          Returned (Some \<lparr>hd_version = version, hd_count = count, hd_sysuptime = up, hd_unixtime = unix, hd_length = 0,
            hd_exporttime = 0, hd_seqno = seqno, hd_sourceid = src\<rparr>)))))))
     else if version = nat IPFIX_VERSION then
       (if length buf < IPFIX_HDR_BYTES then Returned None
        else
          proc_bind (READ16 buf 2) (\<lambda>len. proc_bind (READ32 buf 4) (\<lambda>time.
          proc_bind (READ32 buf 8) (\<lambda>seqno. proc_bind (READ32 buf 12) (\<lambda>src.
          Returned (Some \<lparr>hd_version = version, hd_count = 0, hd_sysuptime = 0, hd_unixtime = 0, hd_length = len,
            hd_exporttime = time, hd_seqno = seqno, hd_sourceid = src\<rparr>))))))
     else Returned None)"

text \<open>A field of a template at a position, with the bytes that are left: how much was read, or an error.\<close>

definition ipfix_read_templ_field ::
  "col_env \<Rightarrow> byte list \<Rightarrow> nat \<Rightarrow> nat \<Rightarrow> ipfix_template_field \<Rightarrow> (nat option \<times> ipfix_template_field) proc" where
  "ipfix_read_templ_field env buf pos buflen field =
     (if buflen < 4 then Returned (None, field)
      else
        proc_bind (READ16 buf pos) (\<lambda>ftype. proc_bind (READ16 buf (pos + 2)) (\<lambda>flength.
        let field = field\<lparr>tf_flength := flength\<rparr>; vendor = ftype \<ge> IPFIX_EFT_VENDOR_BIT in
        if vendor \<and> buflen < 8 then Returned (None, field)
        else
          proc_bind (if vendor then proc_bind (READ32 buf (pos + 4)) (\<lambda>e. Returned (as_int e)) else Returned IPFIX_FT_NOENO) (\<lambda>eno.
          let ftype = int (if vendor then ftype - IPFIX_EFT_VENDOR_BIT else ftype); n = (if vendor then 8 else 4 :: nat) in
          (case ipfix_get_ftinfo (ce_fields env) eno ftype of
             Some e \<Rightarrow> Returned (Some n, field\<lparr>tf_elem := Some e, tf_unknown := False\<rparr>)
           | None \<Rightarrow> Returned (Some n, field\<lparr>tf_elem := ipfix_create_unknown_ftinfo True eno ftype, tf_unknown := True\<rparr>))))))"

fun read_fields ::
  "col_env \<Rightarrow> byte list \<Rightarrow> nat \<Rightarrow> nat \<Rightarrow> ipfix_template_field list \<Rightarrow> (nat option \<times> ipfix_template_field list) proc" where
  "read_fields env buf offset left [] = Returned (Some offset, [])"
| "read_fields env buf offset left (f # fs) =
     (if left = 0 then Returned (None, f # fs)
      else
        proc_bind (ipfix_read_templ_field env buf offset left f) (\<lambda>(r, f).
        (case r of
           None \<Rightarrow> Returned (None, f # fs)
         | Some n \<Rightarrow>
             proc_bind (read_fields env buf (offset + n) (left - n) fs) (\<lambda>(r, fs). Returned (r, f # fs)))))"

section \<open>Templates of a source\<close>

fun get_ipfixt :: "ipfixt_node list \<Rightarrow> nat \<Rightarrow> nat option" where
  "get_ipfixt [] tid = None"
| "get_ipfixt (n # ns) tid = (if te_tid (tn_template n) = tid then Some 0 else map_option Suc (get_ipfixt ns tid))"

text \<open>The element of an unknown field is freed; the pointer to it stays.\<close>

definition free_unknown :: "ipfix_template_field \<Rightarrow> ipfix_template_field proc" where
  "free_unknown f =
     (if tf_unknown f then
        (if tf_elem f = None then Undefined ''double free'' else Returned (f\<lparr>tf_elem := None\<rparr>))
      else Returned f)"

fun free_fields :: "ipfix_template_field list \<Rightarrow> ipfix_template_field list proc" where
  "free_fields [] = Returned []"
| "free_fields (f # fs) = proc_bind (free_unknown f) (\<lambda>f. proc_bind (free_fields fs) (\<lambda>fs. Returned (f # fs)))"

definition delete_ipfixt :: "nat \<Rightarrow> ipfixt_node list \<Rightarrow> ipfixt_node list proc" where
  "delete_ipfixt k ns =
     (let t = tn_template (ns ! k) in
      proc_bind (free_fields (take (te_nfields t) (te_fields t))) (\<lambda>_. Returned (take k ns @ drop (Suc k) ns)))"

fun delete_all :: "ipfixt_node list \<Rightarrow> unit proc" where
  "delete_all [] = Returned ()"
| "delete_all (n # ns) =
     proc_bind (free_fields (take (te_nfields (tn_template n)) (te_fields (tn_template n)))) (\<lambda>_. delete_all ns)"

text \<open>
  The name of a template: for each enterprise number in turn the element numbers in ascending order.
  The block has 10 bytes for each field and one more; \<open>snprintf\<close> gets the bytes left, which wrap
  below 0, while \<open>strcat\<close> does not look at them.
\<close>

definition ident_snprintf :: "nat \<Rightarrow> string \<Rightarrow> string \<Rightarrow> string proc" where
  "ident_snprintf len ident txt =
     (if length ident \<le> len then Returned (ident @ take (len - length ident - 1) txt)
      else Undefined ''write past the buffer'')"

definition ident_strcat :: "nat \<Rightarrow> string \<Rightarrow> string \<Rightarrow> string proc" where
  "ident_strcat len ident txt =
     (if length ident + length txt \<le> len then Returned (ident @ txt) else Undefined ''write past the buffer'')"

definition scan_min :: "int \<Rightarrow> int \<Rightarrow> (int \<times> int) list \<Rightarrow> int \<times> nat" where
  "scan_min cur prev els =
     foldl (\<lambda>(m, found) (eno, ft). if eno = cur \<and> ft < m \<and> ft > prev then (ft, found + 1) else (m, found)) (0xFFFF, 0) els"

definition next_eno :: "int \<Rightarrow> (int \<times> int) list \<Rightarrow> int" where
  "next_eno cur els = foldl (\<lambda>next (eno, ft). if eno < next \<and> eno > cur then eno else next) 0x7FFFFFFF els"

fun ident_types :: "nat \<Rightarrow> int \<Rightarrow> (int \<times> int) list \<Rightarrow> nat \<Rightarrow> nat \<Rightarrow> int \<Rightarrow> nat \<Rightarrow> string \<Rightarrow> (string \<times> nat) proc" where
  "ident_types len cur els 0 j prev found ident = Returned (ident, found)"
| "ident_types len cur els (Suc n) j prev found ident =
     (case scan_min cur prev els of (m, k) \<Rightarrow>
      let found = found + k in
      if m = 0xFFFF then Returned (ident, found)
      else
        proc_bind (if j > 0 \<and> found > 1 then ident_strcat len ident ''_'' else Returned ident) (\<lambda>ident.
        proc_bind (ident_snprintf len ident (show_hex (nat m))) (\<lambda>ident.
        ident_types len cur els n (j + 1) m found ident)))"

text \<open>The enterprise numbers ascend, so that there are at most as many turns as fields, and one.\<close>

fun ident_enos :: "nat \<Rightarrow> nat \<Rightarrow> int \<Rightarrow> (int \<times> int) list \<Rightarrow> string \<Rightarrow> string proc" where
  "ident_enos len 0 cur els ident = Returned ident"
| "ident_enos len (Suc n) cur els ident =
     proc_bind (if cur \<noteq> 0 then ident_snprintf len ident (''v'' @ show_hex (nat cur) @ ''_'') else Returned ident) (\<lambda>ident.
     proc_bind (ident_types len cur els (length els) 0 0 0 ident) (\<lambda>(ident, found).
     let next = next_eno cur els in
     if next = 0x7FFFFFFF then Returned ident
     else
       proc_bind (if found > 0 then ident_strcat len ident ''_'' else Returned ident) (\<lambda>ident.
       ident_enos len n next els ident)))"

definition MAXTEMPLIDENT :: nat where "MAXTEMPLIDENT = 120"

definition template_elements :: "ipfix_template_field list \<Rightarrow> (int \<times> int) list" where
  "template_elements fs = map (\<lambda>f. case tf_elem f of Some e \<Rightarrow> (ft_eno (fi_ft e), ft_ftype (fi_ft e)) | None \<Rightarrow> (0, 0)) fs"

definition ipfix_get_template_ident :: "ipfix_template \<Rightarrow> nat \<Rightarrow> (int \<times> string) proc" where
  "ipfix_get_template_ident t buflen =
     (let els = template_elements (take (te_nfields t) (te_fields t)) in
      proc_bind (ident_enos (10 * te_nfields t) (te_nfields t + 1) 0 els []) (\<lambda>ident.
      Returned (if length ident \<ge> buflen then -1 else 0, snprintf buflen ident)))"

text \<open>
  The header of a template record: number, fields, scope fields and its length, or an error.
\<close>

definition trecord_header :: "nat \<Rightarrow> byte list \<Rightarrow> nat \<Rightarrow> nat \<Rightarrow> (nat \<times> nat \<times> nat \<times> nat) option proc" where
  "trecord_header setid buf pos len =
     (if setid = IPFIX_SETID_OPTTEMPLATE then
        (if len < 6 then Returned None
         else
           proc_bind (READ16 buf pos) (\<lambda>tid. proc_bind (READ16 buf (pos + 2)) (\<lambda>n. proc_bind (READ16 buf (pos + 4)) (\<lambda>scope.
           Returned (Some (tid, n, scope, 6))))))
      else if setid = IPFIX_SETID_OPTTEMPLATE_NF9 then
        (if len < 6 then Returned None
         else
           proc_bind (READ16 buf pos) (\<lambda>tid. proc_bind (READ16 buf (pos + 2)) (\<lambda>scopelen. proc_bind (READ16 buf (pos + 4)) (\<lambda>optionlen.
           if scopelen + optionlen < len then Returned None
           else Returned (Some (tid, scopelen div 4 + optionlen div 4, scopelen div 4, 6))))))
      else if setid = IPFIX_SETID_TEMPLATE \<or> setid = IPFIX_SETID_TEMPLATE_NF9 then
        (if len < 4 then Returned None
         else
           proc_bind (READ16 buf pos) (\<lambda>tid. proc_bind (READ16 buf (pos + 2)) (\<lambda>n. Returned (Some (tid, n, 0, 4)))))
      else Returned None)"

definition empty_template :: "nat \<Rightarrow> ipfix_template" where
  "empty_template n = \<lparr>te_type = DATA_TEMPLATE, te_tsend = 0, te_tid = 0, te_ndatafields = 0, te_nscopefields = 0, te_nfields = 0,
     te_fields = replicate n \<lparr>tf_flength = 0, tf_unknown = False, tf_relay = False, tf_elem = None\<rparr>, te_maxfields = 0, te_odid = 0\<rparr>"

text \<open>
  A template record: the bytes read and the node that was made or updated (none for a withdrawal),
  or an error, with the templates of the source.
\<close>

definition ipfix_decode_trecord ::
  "col_env \<Rightarrow> nat \<Rightarrow> byte list \<Rightarrow> nat \<Rightarrow> nat \<Rightarrow> ipfixt_node list \<Rightarrow> ((nat \<times> ipfixt_node option) option \<times> ipfixt_node list) proc" where
  "ipfix_decode_trecord env setid buf pos len ns =
     proc_bind (trecord_header setid buf pos len) (\<lambda>header.
     (case header of
        None \<Rightarrow> Returned (None, ns)
      | Some (templid, nfields, nscope, offset) \<Rightarrow>
          if nfields = 0 then
            (if templid = setid then proc_bind (delete_all ns) (\<lambda>_. Returned (Some (offset, None), []))
             else
               (case get_ipfixt ns templid of
                  None \<Rightarrow> Returned (Some (offset, None), ns)
                | Some k \<Rightarrow> proc_bind (delete_ipfixt k ns) (\<lambda>ns. Returned (Some (offset, None), ns))))
          else
            let found = get_ipfixt ns templid;
                reuse = (case found of Some k \<Rightarrow> nfields \<le> te_nfields (tn_template (ns ! k)) | None \<Rightarrow> False) in
            proc_bind (if found \<noteq> None \<and> \<not> reuse then delete_ipfixt (the found) ns else Returned ns) (\<lambda>ns.
            let old = (if reuse then tn_template (ns ! the found) else empty_template nfields) in
            proc_bind (if reuse then free_fields (take nfields (te_fields old)) else Returned (take nfields (te_fields old))) (\<lambda>fs.
            proc_bind (read_fields env buf (pos + offset) (len - offset) fs) (\<lambda>(r, fs).
            let t = old\<lparr>te_tid := templid, te_nfields := nfields, te_ndatafields := (nfields + 2 ^ 16 - nscope) mod 2 ^ 16,
                        te_nscopefields := nscope, te_fields := fs @ drop nfields (te_fields old)\<rparr> in
            (case r of
               None \<Rightarrow>
                 if reuse then
                   proc_bind (delete_ipfixt (the found) (ns[the found := (ns ! the found)\<lparr>tn_template := t\<rparr>])) (\<lambda>ns. Returned (None, ns))
                 else Returned (None, ns)
             | Some endpos \<Rightarrow>
                 proc_bind (ipfix_get_template_ident t MAXTEMPLIDENT) (\<lambda>(_, ident).
                 let n = \<lparr>tn_expire = ce_now env + ce_lifetime env, tn_template = t, tn_ident = ident\<rparr> in
                 Returned (Some (endpos - pos, Some n), if reuse then ns[the found := n] else n # ns))))))))"

section \<open>Data records\<close>

text \<open>
  The values of a record at a position: each is decoded in place. The length of a field of variable
  length is read without looking at the bytes that are left, and is not taken from them.
\<close>

fun decode_fields ::
  "col_env \<Rightarrow> ipfix_template_field list \<Rightarrow> byte list \<Rightarrow> nat \<Rightarrow> nat \<Rightarrow> ((byte list list) option \<times> nat \<times> byte list) proc" where
  "decode_fields env [] buf p left = Returned (Some [], p, buf)"
| "decode_fields env (f # fs) buf p left =
     proc_bind (if tf_flength f = IPFIX_FT_VARLEN then
         proc_bind (rd8 buf p) (\<lambda>len.
         if len = 255 then proc_bind (READ16 buf (p + 1)) (\<lambda>len. Returned (len, p + 3)) else Returned (len, p + 1))
       else Returned (tf_flength f, p)) (\<lambda>(len, p).
     if left < len then Returned (None, p, buf)
     else
       (case tf_elem f of
          None \<Rightarrow> Undefined ''null pointer''
        | Some e \<Rightarrow>
            if p + len > length buf then Undefined ''read past the message''
            else
              let v = snd (run_decode (ce_host env) (fi_decode e) (take len (drop p buf)));
                  buf = take p buf @ v @ drop (p + len) buf in
              proc_bind (decode_fields env fs buf (p + len) (left - len)) (\<lambda>(r, p, buf).
              Returned (map_option (Cons v) r, p, buf))))"

definition ipfix_decode_datarecord ::
  "col_env \<Rightarrow> ipfixt_node \<Rightarrow> byte list \<Rightarrow> nat \<Rightarrow> nat \<Rightarrow> ((byte list list) option \<times> nat \<times> byte list) proc" where
  "ipfix_decode_datarecord env n buf pos buflen =
     proc_bind (decode_fields env (take (te_nfields (tn_template n)) (te_fields (tn_template n))) buf pos buflen) (\<lambda>(r, p, buf).
     Returned (r, p - pos, buf))"

definition ipfix_export_hdr :: "col_env \<Rightarrow> ipfix_hdr \<Rightarrow> col_log \<Rightarrow> int \<times> col_log" where
  "ipfix_export_hdr env hdr log =
     (if \<exists>e \<in> set (ce_exporters env). (case ex_newmsg e of Some r \<Rightarrow> r < 0 | None \<Rightarrow> False) then -1 else 0,
      notify env (\<lambda>e. ex_newmsg e \<noteq> None) (Ev_msg hdr) log)"

definition ipfix_export_trecord :: "col_env \<Rightarrow> ipfix_template option \<Rightarrow> col_log \<Rightarrow> col_log" where
  "ipfix_export_trecord env t log = notify env ex_trecord (Ev_template t) log"

definition ipfix_export_datarecord :: "col_env \<Rightarrow> nat \<Rightarrow> byte list list \<Rightarrow> col_log \<Rightarrow> col_log" where
  "ipfix_export_datarecord env tid vs log = notify env ex_drecord (Ev_record tid vs) log"

section \<open>Messages\<close>

text \<open>
  The records of a template set, from \<open>offset\<close> on with \<open>left\<close> bytes; \<open>raw\<close> is the variant of
  \<open>ipfix_parse_raw_msg\<close>, which reports withdrawals too. The fuel is the number of bytes.
\<close>

fun template_loop ::
  "bool \<Rightarrow> col_env \<Rightarrow> nat \<Rightarrow> byte list \<Rightarrow> nat \<Rightarrow> nat \<Rightarrow> nat \<Rightarrow> ipfixt_node list \<Rightarrow> col_log \<Rightarrow> (ipfixt_node list \<times> col_log) proc" where
  "template_loop raw env setid buf 0 offset left ns log = Returned (ns, log)"
| "template_loop raw env setid buf (Suc fuel) offset left ns log =
     (if left \<le> 4 then Returned (ns, log)
      else
        proc_bind (ipfix_decode_trecord env setid buf offset left ns) (\<lambda>(r, ns).
        (case r of
           None \<Rightarrow> Returned (ns, log)
         | Some (n, t) \<Rightarrow>
             let log = (if t = None \<and> \<not> raw then log else ipfix_export_trecord env (map_option tn_template t) log) in
             template_loop raw env setid buf fuel (offset + n) (left - n) ns log)))"

text \<open>The records of a data set. A record without bytes is read for ever.\<close>

function record_loop ::
  "col_env \<Rightarrow> ipfixt_node \<Rightarrow> byte list \<Rightarrow> nat \<Rightarrow> nat \<Rightarrow> col_log \<Rightarrow> (bool \<times> byte list \<times> col_log) proc" where
  "record_loop env n buf offset left log =
     (if left \<le> 4 then Returned (True, buf, log)
      else
        proc_bind (ipfix_decode_datarecord env n buf offset left) (\<lambda>(r, bytes, buf).
        (case r of
           None \<Rightarrow> Returned (False, buf, log)
         | Some vs \<Rightarrow>
             if bytes = 0 then Spins
             else record_loop env n buf (offset + bytes) (left - bytes)
               (ipfix_export_datarecord env (te_tid (tn_template n)) vs log))))"
  by pat_completeness auto
termination by (relation "measure (\<lambda>(env, n, buf, offset, left, log). left)") auto

declare record_loop.simps [simp del]

definition is_template_set :: "nat \<Rightarrow> bool" where
  "is_template_set setid \<longleftrightarrow> setid \<in> {IPFIX_SETID_TEMPLATE_NF9, IPFIX_SETID_OPTTEMPLATE_NF9, IPFIX_SETID_TEMPLATE, IPFIX_SETID_OPTTEMPLATE}"

text \<open>
  The sets of a message of \<open>nbytes\<close> bytes: \<open>i\<close> were read, up to \<open>nread\<close>; \<open>err\<close> tells that a template was missing. The
  result is the number of bytes read, or -1. In the raw variant a data set is given to an exporter
  with a template that was not looked up yet.
\<close>

function parse_sets ::
  "bool \<Rightarrow> col_env \<Rightarrow> ipfix_hdr \<Rightarrow> nat \<Rightarrow> nat \<Rightarrow> nat \<Rightarrow> bool \<Rightarrow> byte list \<Rightarrow> ipfixt_node list \<Rightarrow> col_log
    \<Rightarrow> (int \<times> ipfixt_node list \<times> col_log) proc" where
  "parse_sets raw env hdr nbytes i nread err buf ns log =
     (if nbytes \<le> nread + 4 \<or> hd_version hdr = nat IPFIX_VERSION_NF9 \<and> i \<ge> hd_count hdr then
        Returned (if err then -1 else int nread, ns, log)
      else
        proc_bind (READ16 buf nread) (\<lambda>setid. proc_bind (READ16 buf (nread + 2)) (\<lambda>setlen.
        let nread = nread + 4 in
        if setlen < 4 then parse_sets raw env hdr nbytes (i + 1) nread err buf ns log
        else
          let setlen = setlen - 4 in
          if setlen > nbytes - nread then Returned (int nread, ns, log)
          else if is_template_set setid then
            proc_bind (template_loop raw env setid buf setlen nread setlen ns log) (\<lambda>(ns, log).
            parse_sets raw env hdr nbytes (i + 1) (nread + setlen) err buf ns log)
          else if setid > 255 then
            (if raw \<and> (\<exists>e \<in> set (ce_exporters env). ex_dset e) then Undefined ''uninitialised pointer''
             else
               (case get_ipfixt ns setid of
                  None \<Rightarrow> parse_sets raw env hdr nbytes (i + 1) (nread + setlen) True buf ns log
                | Some k \<Rightarrow>
                    let log = (if raw then log else notify env ex_dset (Ev_dset setid (take setlen (drop nread buf))) log) in
                    proc_bind (record_loop env (ns ! k) buf nread setlen log) (\<lambda>(ok, buf', log).
                    if \<not> ok then Returned (-1, ns, log)
                    else parse_sets raw env hdr nbytes (i + 1) (nread + setlen) err buf' ns log)))
          else parse_sets raw env hdr nbytes (i + 1) (nread + setlen) err buf ns log)))"
  by pat_completeness auto
termination
  by (relation "measure (\<lambda>(raw, env, hdr, nbytes, i, nread, err, buf, ns, log). nbytes - nread)") auto

declare parse_sets.simps [simp del]

definition header_bytes :: "ipfix_hdr \<Rightarrow> nat" where
  "header_bytes hdr = (if hd_version hdr = nat IPFIX_VERSION_NF9 then IPFIX_HDR_BYTES_NF9 else IPFIX_HDR_BYTES)"

text \<open>The source of an input and observation domain: its position, made if it is new.\<close>

fun find_source :: "ipfix_source list \<Rightarrow> ipfix_input option \<Rightarrow> nat \<Rightarrow> nat option" where
  "find_source [] input odid = None"
| "find_source (s # ss) input odid =
     (if so_odid s = odid \<and> (input = None \<or> input = Some (so_input s)) then Some 0 else map_option Suc (find_source ss input odid))"

fun call_newsource :: "nat \<Rightarrow> ipfix_exporter list \<Rightarrow> nat \<Rightarrow> col_log \<Rightarrow> bool \<times> col_log" where
  "call_newsource n [] odid log = (True, log)"
| "call_newsource n (e # es) odid log =
     (case ex_newsource e of
        None \<Rightarrow> call_newsource (n + 1) es odid log
      | Some r \<Rightarrow> if r < 0 then (False, log @ [(n, Ev_source odid)]) else call_newsource (n + 1) es odid (log @ [(n, Ev_source odid)]))"

definition get_ipfix_source ::
  "col_env \<Rightarrow> ipfix_source list \<Rightarrow> ipfix_input option \<Rightarrow> nat \<Rightarrow> col_log \<Rightarrow> nat option \<times> ipfix_source list \<times> col_log" where
  "get_ipfix_source env ss input odid log =
     (case find_source ss input odid of
        Some k \<Rightarrow> (Some k, ss, log)
      | None \<Rightarrow>
          (case input of
             None \<Rightarrow> (None, ss, log)
           | Some inp \<Rightarrow>
               (case call_newsource 0 (ce_exporters env) odid log of (ok, log) \<Rightarrow>
                if ok then (Some 0, \<lparr>so_odid = odid, so_input = inp, so_templates = []\<rparr> # ss, log) else (None, ss, log))))"

definition ipfix_parse_msg ::
  "col_env \<Rightarrow> ipfix_input option \<Rightarrow> ipfix_source list \<Rightarrow> byte list \<Rightarrow> col_log \<Rightarrow> (int \<times> ipfix_source list \<times> col_log) proc" where
  "ipfix_parse_msg env input ss msg log =
     proc_bind (ipfix_parse_hdr msg) (\<lambda>hdr.
     (case hdr of
        None \<Rightarrow> Returned (-1, ss, log)
      | Some hdr \<Rightarrow>
          (case get_ipfix_source env ss input (hd_sourceid hdr) log of
             (None, ss, log) \<Rightarrow> Returned (-1, ss, log)
           | (Some k, ss, log) \<Rightarrow>
               (case List.find (\<lambda>(n, e). ex_rawmsg e) (enumerate 0 (ce_exporters env)) of
                  Some (n, e) \<Rightarrow> Returned (int (header_bytes hdr), ss, log @ [(n, Ev_raw msg)])
                | None \<Rightarrow>
                    (case ipfix_export_hdr env hdr log of (r, log) \<Rightarrow>
                     if r < 0 then Returned (-1, ss, log)
                     else
                       proc_bind (parse_sets False env hdr (length msg) 0 (header_bytes hdr) False msg (so_templates (ss ! k)) log)
                         (\<lambda>(r, ns, log). Returned (r, ss[k := (ss ! k)\<lparr>so_templates := ns\<rparr>], log)))))))"

definition ipfix_parse_raw_msg ::
  "col_env \<Rightarrow> ipfix_source \<Rightarrow> byte list \<Rightarrow> col_log \<Rightarrow> (int \<times> ipfix_source \<times> col_log) proc" where
  "ipfix_parse_raw_msg env src msg log =
     proc_bind (ipfix_parse_hdr msg) (\<lambda>hdr.
     (case hdr of
        None \<Rightarrow> Returned (-1, src, log)
      | Some hdr \<Rightarrow>
          (case ipfix_export_hdr env hdr log of (r, log) \<Rightarrow>
           if r < 0 then Returned (-1, src, log)
           else
             proc_bind (parse_sets True env hdr (length msg) 0 (header_bytes hdr) False msg (so_templates src) log)
               (\<lambda>(r, ns, log). Returned (r, src\<lparr>so_templates := ns\<rparr>, log)))))"

section \<open>Connections and sources\<close>

text \<open>
  \<open>readn\<close> takes bytes from what the peer sends before it closes the connection; a negative number
  of bytes is none.
\<close>

definition readn :: "int \<Rightarrow> byte list \<Rightarrow> byte list \<times> byte list" where
  "readn n stream = (take (nat n) stream, drop (nat n) stream)"

definition TMPBUF_SIZE :: nat where "TMPBUF_SIZE = 65500"

text \<open>
  The records of a NetFlow message are read one by one. The space that is left is lowered by the
  headers only.
\<close>

fun read_nf9 :: "nat \<Rightarrow> byte list \<Rightarrow> int \<Rightarrow> byte list \<Rightarrow> (byte list option \<times> byte list) proc" where
  "read_nf9 0 buf space stream = Returned (Some buf, stream)"
| "read_nf9 (Suc n) buf space stream =
     (if space < 4 then Returned (None, stream)
      else if length buf + 4 > TMPBUF_SIZE then Undefined ''write past the buffer''
      else
        (case readn 4 stream of (hdr, stream) \<Rightarrow>
         if length hdr \<noteq> 4 then Returned (None, stream)
         else
           let len = int (be_nat (drop 2 hdr)) - 4; space = space - 4; buf = buf @ hdr in
           if space < len then Returned (None, stream)
           else
             (case readn len stream of (body, stream) \<Rightarrow>
              if length buf + length body > TMPBUF_SIZE then Undefined ''write past the buffer''
              else if int (length body) \<noteq> len then Returned (None, stream)
              else read_nf9 n (buf @ body) space stream)))"

text \<open>One call for a TCP connection: its sources, or none when it is closed, and what is left to read.\<close>

definition process_client_tcp ::
  "col_env \<Rightarrow> ipfix_input \<Rightarrow> ipfix_source list \<Rightarrow> byte list \<Rightarrow> col_log \<Rightarrow> (ipfix_source list option \<times> byte list \<times> col_log) proc" where
  "process_client_tcp env input ss stream log =
     (case readn (int IPFIX_HDR_BYTES_NF9) stream of (tmpbuf, stream) \<Rightarrow>
      if length tmpbuf \<noteq> IPFIX_HDR_BYTES_NF9 then Returned (None, stream, log)
      else
        proc_bind (ipfix_parse_hdr tmpbuf) (\<lambda>hdr.
        (case hdr of
           None \<Rightarrow> Returned (None, stream, log)
         | Some hdr \<Rightarrow>
             let space = int TMPBUF_SIZE - int IPFIX_HDR_BYTES_NF9;
                 finish = (\<lambda>msg stream. proc_bind (ipfix_parse_msg env (Some input) ss msg log) (\<lambda>(r, ss, log).
                   Returned (if r < 0 then None else Some ss, stream, log))) in
             if hd_version hdr = nat IPFIX_VERSION_NF9 then
               proc_bind (read_nf9 (hd_count hdr) tmpbuf space stream) (\<lambda>(msg, stream).
               (case msg of None \<Rightarrow> Returned (None, stream, log) | Some msg \<Rightarrow> finish msg stream))
             else
               (let len = int (hd_length hdr) - int IPFIX_HDR_BYTES_NF9 in
                if space < len then Returned (None, stream, log)
                else
                  (case readn len stream of (body, stream) \<Rightarrow>
                   if int (length body) \<noteq> len then Returned (None, stream, log)
                   else finish (tmpbuf @ body) stream)))))"

text \<open>A datagram is cut after 65000 bytes; the sources of all peers are kept together.\<close>

definition process_client_udp ::
  "col_env \<Rightarrow> byte list \<Rightarrow> byte list option \<Rightarrow> ipfix_source list \<Rightarrow> col_log \<Rightarrow> (ipfix_source list \<times> col_log) proc" where
  "process_client_udp env peer datagram ss log =
     (case datagram of
        None \<Rightarrow> Returned (ss, log)
      | Some d \<Rightarrow>
          proc_bind (ipfix_parse_msg env (Some (IPFIX_INPUT_IPCON peer)) ss (take 65000 d) log) (\<lambda>(r, ss, log).
          Returned (ss, log)))"

text \<open>Expired templates are dropped, and sources without templates.\<close>

fun drop_expired :: "int \<Rightarrow> ipfixt_node list \<Rightarrow> ipfixt_node list proc" where
  "drop_expired now [] = Returned []"
| "drop_expired now (n # ns) =
     (if now > tn_expire n then proc_bind (delete_all [n]) (\<lambda>_. drop_expired now ns)
      else proc_bind (drop_expired now ns) (\<lambda>ns. Returned (n # ns)))"

fun cb_maintenance :: "int \<Rightarrow> ipfix_source list \<Rightarrow> ipfix_source list proc" where
  "cb_maintenance now [] = Returned []"
| "cb_maintenance now (s # ss) =
     proc_bind (drop_expired now (so_templates s)) (\<lambda>ns. proc_bind (cb_maintenance now ss) (\<lambda>ss.
     Returned (if ns = [] then ss else s\<lparr>so_templates := ns\<rparr> # ss)))"

definition delete_ipfix_source :: "nat \<Rightarrow> ipfix_source list \<Rightarrow> ipfix_source list proc" where
  "delete_ipfix_source k ss =
     proc_bind (delete_all (so_templates (ss ! k))) (\<lambda>_. Returned (take k ss @ drop (Suc k) ss))"

text \<open>Exporters are appended and found again by their address, here a number.\<close>

definition ipfix_col_register_export :: "'e \<Rightarrow> 'e list \<Rightarrow> 'e list" where
  "ipfix_col_register_export colinfo es = es @ [colinfo]"

definition ipfix_col_cancel_export :: "'e \<Rightarrow> 'e list \<Rightarrow> (int \<times> 'e list) proc" where
  "ipfix_col_cancel_export colinfo es =
     (if es = [] then Undefined ''null pointer''
      else if colinfo \<in> set es then Returned (0, remove1 colinfo es)
      else Returned (-1, es))"

end
