(* ===== verification/IpfixRT.thy ===== *)
theory IpfixRT
  imports IpfixSession IpfixCollect
begin

text \<open>
  Exporter and collector together: the messages an exporter sends over TCP are read by the collector
  as the template and the records that were exported.
\<close>

section \<open>Numbers\<close>

lemma be_nat_u16: "be_nat (u16 x) = nat (x mod 2 ^ 16)"
proof -
  have "nat (x mod 2 ^ 16) < 256 ^ 2" by (simp add: nat_less_iff)
  then show ?thesis by (simp add: u16_def be_nat_be_bytes)
qed

lemma be_nat_u32: "be_nat (u32 x) = nat (x mod 2 ^ 32)"
proof -
  have "nat (x mod 2 ^ 32) < 256 ^ 4" by (simp add: nat_less_iff)
  then show ?thesis by (simp add: u32_def be_nat_be_bytes)
qed

lemma READ16_u16: "length pre = k \<Longrightarrow> READ16 (pre @ u16 x @ post) k = Returned (nat (x mod 2 ^ 16))"
  using be_nat_u16 [of x] by (auto simp: READ16_def)

lemma READ32_u32: "length pre = k \<Longrightarrow> READ32 (pre @ u32 x @ post) k = Returned (nat (x mod 2 ^ 32))"
  using be_nat_u32 [of x] by (auto simp: READ32_def)

section \<open>Headers\<close>

definition parsed_hdr :: "int \<Rightarrow> nat \<Rightarrow> int \<Rightarrow> int \<Rightarrow> ipfix_hdr" where
  "parsed_hdr now len seqno src = \<lparr>hd_version = 10, hd_count = 0, hd_sysuptime = 0, hd_unixtime = 0,
     hd_length = len + 16, hd_exporttime = nat (now mod 2 ^ 32), hd_seqno = nat (seqno mod 2 ^ 32),
     hd_sourceid = nat (src mod 2 ^ 32)\<rparr>"

lemma parse_ipfix_header:
  assumes "len + 16 < 2 ^ 16"
  shows "ipfix_parse_hdr (ipfix_header now len seqno src @ body) = Returned (Some (parsed_hdr now len seqno src))"
proof -
  let ?m = "ipfix_header now len seqno src @ body"
  have "READ16 ?m 0 = Returned 10"
    using READ16_u16 [of "[]" 0 10] by (simp add: ipfix_header_def)
  moreover have "READ16 ?m 2 = Returned (len + 16)"
    using READ16_u16 [of "u16 10" 2 "int (len + 16)"] assms
    by (simp add: ipfix_header_def nat_mod_distrib flip: of_nat_add)
  moreover have "READ32 ?m 4 = Returned (nat (now mod 2 ^ 32))"
    using READ32_u32 [of "u16 10 @ u16 (int (len + 16))" 4 now] by (simp add: ipfix_header_def)
  moreover have "READ32 ?m 8 = Returned (nat (seqno mod 2 ^ 32))"
    using READ32_u32 [of "u16 10 @ u16 (int (len + 16)) @ u32 now" 8 seqno] by (simp add: ipfix_header_def)
  moreover have "READ32 ?m 12 = Returned (nat (src mod 2 ^ 32))"
    using READ32_u32 [of "u16 10 @ u16 (int (len + 16)) @ u32 now @ u32 seqno" 12 src] by (simp add: ipfix_header_def)
  ultimately show ?thesis
    by (simp add: ipfix_parse_hdr_def IPFIX_VERSION_NF9_def IPFIX_VERSION_def IPFIX_HDR_BYTES_def parsed_hdr_def)
qed

section \<open>Templates\<close>

text \<open>A field whose element the collector knows under the same numbers, with numbers that fit the wire.\<close>

definition field_known :: "ipfix_field list \<Rightarrow> ipfix_template_field \<Rightarrow> bool" where
  "field_known known f \<longleftrightarrow> (case tf_elem f of None \<Rightarrow> False | Some e \<Rightarrow>
     ipfix_get_ftinfo known (ft_eno (fi_ft e)) (ft_ftype (fi_ft e)) = Some e \<and>
     0 \<le> ft_ftype (fi_ft e) \<and> ft_ftype (fi_ft e) < 2 ^ 15 \<and> 0 \<le> ft_eno (fi_ft e) \<and> ft_eno (fi_ft e) < 2 ^ 31 \<and>
     tf_flength f < 2 ^ 16)"

definition collected :: "ipfix_template_field \<Rightarrow> ipfix_template_field" where
  "collected f = \<lparr>tf_flength = tf_flength f, tf_unknown = False, tf_relay = False, tf_elem = tf_elem f\<rparr>"

lemma spec_bytes_length: "field_known known f \<Longrightarrow> 4 \<le> length (spec_bytes f)"
  by (auto simp: field_known_def spec_bytes_def split: option.splits)

lemma as_int_small: "0 \<le> x \<Longrightarrow> x < 2 ^ 31 \<Longrightarrow> as_int (nat x) = x"
  by (simp add: as_int_def signed_take_bit_int_eq_self)

lemma vendor_bit:
  assumes "0 \<le> (x :: int)" "x < 2 ^ 15"
  shows "x OR int IPFIX_EFT_VENDOR_BIT = x + 2 ^ 15"
proof -
  have "x AND 2 ^ 15 = 0"
  proof (rule bit_eqI)
    fix n
    have "x = take_bit 15 x" using assms by (simp add: take_bit_int_eq_self)
    then have "bit x 15 = False" by (metis bit_take_bit_iff less_irrefl)
    moreover have "bit (2 ^ 15 :: int) n \<longleftrightarrow> n = 15" unfolding bit_exp_iff by auto
    ultimately show "bit (x AND 2 ^ 15) n = bit (0 :: int) n" unfolding bit_and_iff by auto
  qed
  then show ?thesis using plus_and_or [of x "2 ^ 15"] by (simp add: IPFIX_EFT_VENDOR_BIT_def)
qed

lemma read_field:
  assumes "field_known (ce_fields env) f" "tf_relay g = False" "length (spec_bytes f) \<le> left"
  shows "ipfix_read_templ_field env (pre @ spec_bytes f @ post) (length pre) left g =
    Returned (Some (length (spec_bytes f)), collected f)"
proof -
  obtain e where e: "tf_elem f = Some e" "ipfix_get_ftinfo (ce_fields env) (ft_eno (fi_ft e)) (ft_ftype (fi_ft e)) = Some e"
    "0 \<le> ft_ftype (fi_ft e)" "ft_ftype (fi_ft e) < 2 ^ 15" "0 \<le> ft_eno (fi_ft e)" "ft_eno (fi_ft e) < 2 ^ 31" "tf_flength f < 2 ^ 16"
    using assms(1) by (auto simp: field_known_def split: option.splits)
  let ?ty = "ft_ftype (fi_ft e)" and ?eno = "ft_eno (fi_ft e)"
  show ?thesis
  proof (cases "?eno = IPFIX_FT_NOENO")
    case True
    then have s: "spec_bytes f = u16 ?ty @ u16 (int (tf_flength f))" by (simp add: spec_bytes_def e(1))
    have "READ16 (pre @ spec_bytes f @ post) (length pre) = Returned (nat ?ty)"
      using READ16_u16 [of pre "length pre" ?ty] e(3,4) by (simp add: s)
    moreover have "READ16 (pre @ spec_bytes f @ post) (length pre + 2) = Returned (tf_flength f)"
      using READ16_u16 [of "pre @ u16 ?ty" "length pre + 2" "int (tf_flength f)" post] e(7) by (simp add: s nat_mod_distrib)
    ultimately show ?thesis
      using assms(2,3) e True by (simp add: ipfix_read_templ_field_def s IPFIX_EFT_VENDOR_BIT_def collected_def Let_def nat_less_iff
          not_le [symmetric] del: not_le)
  next
    case False
    then have s: "spec_bytes f = u16 (?ty + 2 ^ 15) @ u16 (int (tf_flength f)) @ u32 ?eno"
      by (simp add: spec_bytes_def e(1) vendor_bit [OF e(3,4)] del: of_nat_numeral)
    have "READ16 (pre @ spec_bytes f @ post) (length pre) = Returned (nat (?ty + 2 ^ 15))"
      using READ16_u16 [of pre "length pre" "?ty + 2 ^ 15"] e(3,4) by (simp add: s)
    moreover have "READ16 (pre @ spec_bytes f @ post) (length pre + 2) = Returned (tf_flength f)"
      using READ16_u16 [of "pre @ u16 (?ty + 2 ^ 15)" "length pre + 2" "int (tf_flength f)" "u32 ?eno @ post"] e(7)
      by (simp add: s nat_mod_distrib)
    moreover have "READ32 (pre @ spec_bytes f @ post) (length pre + 4) = Returned (nat ?eno)"
      using READ32_u32 [of "pre @ u16 (?ty + 2 ^ 15) @ u16 (int (tf_flength f))" "length pre + 4" ?eno post] e(5,6) by (simp add: s)
    moreover have "nat (?ty + 2 ^ 15) = nat ?ty + IPFIX_EFT_VENDOR_BIT"
      using e(3) by (simp add: IPFIX_EFT_VENDOR_BIT_def nat_add_distrib)
    ultimately show ?thesis
      using assms(2,3) e as_int_small [OF e(5,6)] by (simp add: ipfix_read_templ_field_def s collected_def Let_def)
  qed
qed

lemma read_fields_ok:
  "list_all (field_known (ce_fields env)) fs \<Longrightarrow> list_all (\<lambda>g. \<not> tf_relay g) gs \<Longrightarrow> length gs = length fs \<Longrightarrow>
    length (concat (map spec_bytes fs)) \<le> left \<Longrightarrow>
    read_fields env (pre @ concat (map spec_bytes fs) @ post) (length pre) left gs =
      Returned (Some (length pre + length (concat (map spec_bytes fs))), map collected fs)"
proof (induction fs arbitrary: gs pre left)
  case (Cons f fs)
  obtain g gs' where g: "gs = g # gs'" using Cons.prems(3) by (cases gs) auto
  have ne: "4 \<le> length (spec_bytes f)" using Cons.prems(1) spec_bytes_length [of "ce_fields env" f] by simp
  have r: "ipfix_read_templ_field env (pre @ spec_bytes f @ concat (map spec_bytes fs) @ post) (length pre) left g =
      Returned (Some (length (spec_bytes f)), collected f)"
    by (rule read_field) (use Cons.prems g in auto)
  have "read_fields env ((pre @ spec_bytes f) @ concat (map spec_bytes fs) @ post) (length (pre @ spec_bytes f))
      (left - length (spec_bytes f)) gs' =
      Returned (Some (length (pre @ spec_bytes f) + length (concat (map spec_bytes fs))), map collected fs)"
    by (rule Cons.IH) (use Cons.prems g in auto)
  with r ne Cons.prems(4) show ?case by (simp add: g)
qed simp

definition collected_template :: "ipfix_template \<Rightarrow> ipfix_template" where
  "collected_template templ = (empty_template (te_nfields templ))\<lparr>te_tid := te_tid templ, te_nfields := te_nfields templ,
     te_ndatafields := te_nfields templ, te_nscopefields := 0, te_fields := map collected (templ_fields templ)\<rparr>"

text \<open>The name of the template can be made.\<close>

definition ident_ok :: "ipfix_template \<Rightarrow> bool" where
  "ident_ok t = (case ipfix_get_template_ident t MAXTEMPLIDENT of Returned _ \<Rightarrow> True | _ \<Rightarrow> False)"

definition wire_ok :: "ipfix_field list \<Rightarrow> ipfix_template \<Rightarrow> bool" where
  "wire_ok known templ \<longleftrightarrow> template_ok templ \<and> list_all (field_known known) (templ_fields templ) \<and> 0 < te_nfields templ \<and>
     te_nfields templ < 2 ^ 16 \<and> 255 < te_tid templ \<and> te_tid templ < 2 ^ 16 \<and> ident_ok (collected_template templ)"

definition the_ident :: "ipfix_template \<Rightarrow> string" where
  "the_ident t = (case ipfix_get_template_ident t MAXTEMPLIDENT of Returned (r, s) \<Rightarrow> s | _ \<Rightarrow> '''')"

definition template_node :: "col_env \<Rightarrow> ipfix_template \<Rightarrow> ipfixt_node" where
  "template_node env templ = \<lparr>tn_expire = ce_now env + ce_lifetime env, tn_template = collected_template templ,
     tn_ident = the_ident (collected_template templ)\<rparr>"

lemma decode_template:
  assumes "wire_ok (ce_fields env) templ" "get_ipfixt ns (te_tid templ) = None"
    "body = u16 (int (te_tid templ)) @ u16 (int (te_nfields templ)) @ concat (map spec_bytes (templ_fields templ))"
  shows "ipfix_decode_trecord env 2 (pre @ body @ post) (length pre) (length body) ns =
    Returned (Some (length body, Some (template_node env templ)), template_node env templ # ns)"
proof -
  let ?fs = "templ_fields templ"
  have t: "list_all (field_known (ce_fields env)) ?fs" "length ?fs = te_nfields templ" "0 < te_nfields templ"
    "te_nfields templ < 2 ^ 16" "te_tid templ < 2 ^ 16" "255 < te_tid templ" "ident_ok (collected_template templ)"
    using assms(1) by (simp_all add: wire_ok_def template_ok_def)
  have "READ16 (pre @ body @ post) (length pre) = Returned (te_tid templ)"
    using READ16_u16 [of pre "length pre" "int (te_tid templ)"] t(5) by (simp add: assms(3) nat_mod_distrib)
  moreover have "READ16 (pre @ body @ post) (length pre + 2) = Returned (te_nfields templ)"
    using READ16_u16 [of "pre @ u16 (int (te_tid templ))" "length pre + 2" "int (te_nfields templ)"] t(4)
    by (simp add: assms(3) nat_mod_distrib)
  ultimately have h: "trecord_header 2 (pre @ body @ post) (length pre) (length body) = Returned (Some (te_tid templ, te_nfields templ, 0, 4))"
    by (simp add: trecord_header_def IPFIX_SETID_OPTTEMPLATE_def IPFIX_SETID_OPTTEMPLATE_NF9_def IPFIX_SETID_TEMPLATE_def assms(3))
  let ?pre = "pre @ u16 (int (te_tid templ)) @ u16 (int (te_nfields templ))"
  have "read_fields env (?pre @ concat (map spec_bytes ?fs) @ post) (length ?pre) (length body - 4)
      (take (te_nfields templ) (te_fields (empty_template (te_nfields templ)))) =
      Returned (Some (length ?pre + length (concat (map spec_bytes ?fs))), map collected ?fs)"
    by (rule read_fields_ok [OF t(1)]) (simp_all add: empty_template_def t(2) assms(3) list_all_iff)
  then have r: "read_fields env (pre @ body @ post) (length pre + 4) (length body - 4)
      (take (te_nfields templ) (te_fields (empty_template (te_nfields templ)))) =
      Returned (Some (length pre + length body), map collected ?fs)"
    by (simp add: assms(3))
  have c: "(empty_template (te_nfields templ))\<lparr>te_tid := te_tid templ, te_nfields := te_nfields templ,
      te_ndatafields := (te_nfields templ + 2 ^ 16 - 0) mod 2 ^ 16, te_nscopefields := 0,
      te_fields := map collected ?fs @ drop (te_nfields templ) (te_fields (empty_template (te_nfields templ)))\<rparr> = collected_template templ"
    using t(4) by (simp add: collected_template_def) (simp add: empty_template_def)
  obtain x where i: "ipfix_get_template_ident (collected_template templ) MAXTEMPLIDENT = Returned (x, the_ident (collected_template templ))"
    using t(7) by (auto simp: ident_ok_def the_ident_def split: proc.splits)
  show ?thesis
    using t(3,6) assms(2) unfolding ipfix_decode_trecord_def h proc_bind.simps option.case prod.case
    by (simp add: r Let_def c [simplified] i template_node_def)
qed

lemma enumerate_records: "filter (\<lambda>(n, e). has e) (enumerate 0 [x]) = (if has x then [(0, x)] else [])"
  by (simp add: enumerate_eq_zip)

text \<open>An exporter that takes data records only.\<close>

definition record_exporter :: ipfix_exporter where
  "record_exporter = \<lparr>ex_newsource = None, ex_newmsg = None, ex_trecord = False, ex_dset = False, ex_drecord = True, ex_rawmsg = False\<rparr>"

lemma notify_record [simp]:
  "ce_exporters env = [record_exporter] \<Longrightarrow> notify env has ev log = log @ (if has record_exporter then [(0, ev)] else [])"
  by (simp add: notify_def enumerate_eq_zip)

lemma parse_template_set:
  assumes "wire_ok (ce_fields env) templ" "get_ipfixt ns (te_tid templ) = None" "ce_exporters env = [record_exporter]"
    "length hdr = 16" "hd_version h = 10" "length (template_set templ) < 2 ^ 16"
  shows "parse_sets False env h (length (hdr @ template_set templ)) 0 16 False (hdr @ template_set templ) ns log =
    Returned (int (length (hdr @ template_set templ)), template_node env templ # ns, log)"
proof -
  let ?body = "u16 (int (te_tid templ)) @ u16 (int (te_nfields templ)) @ concat (map spec_bytes (templ_fields templ))"
  let ?buf = "hdr @ template_set templ"
  let ?n = "length (template_set templ) - 4"
  have set: "template_set templ = u16 2 @ u16 (int (length (template_set templ))) @ ?body"
    by (simp add: template_set_def)
  have b: "length ?body = ?n" "?n > 4"
  proof -
    show "length ?body = ?n" by (simp add: template_set_def)
    have "list_all (field_known (ce_fields env)) (templ_fields templ)" "length (templ_fields templ) > 0"
      using assms(1) by (simp_all add: wire_ok_def template_ok_def)
    then show "?n > 4"
      using spec_bytes_length [of "ce_fields env" "hd (templ_fields templ)"]
      by (cases "templ_fields templ") (simp_all add: length_template_set, auto)
  qed
  have r: "READ16 ?buf 16 = Returned 2" "READ16 ?buf 18 = Returned (length (template_set templ))"
    using READ16_u16 [of hdr 16 2] READ16_u16 [of "hdr @ u16 2" 18 "int (length (template_set templ))" ?body] assms(4,6)
    by (subst set, simp add: nat_mod_distrib)+
  have "ipfix_decode_trecord env 2 ((hdr @ u16 2 @ u16 (int (length (template_set templ)))) @ ?body @ [])
      (length (hdr @ u16 2 @ u16 (int (length (template_set templ))))) (length ?body) ns =
      Returned (Some (length ?body, Some (template_node env templ)), template_node env templ # ns)"
    by (rule decode_template [OF assms(1,2) refl])
  then have d: "ipfix_decode_trecord env 2 ?buf 20 ?n ns =
      Returned (Some (?n, Some (template_node env templ)), template_node env templ # ns)"
    unfolding b(1) using assms(4) by (subst set) simp
  obtain m where m: "?n = Suc m" using b(2) by (cases ?n) auto
  have l: "template_loop False env 2 ?buf ?n 20 ?n ns log = Returned (template_node env templ # ns, log)"
    using d b(2) assms(3) unfolding m by (cases m) (simp_all add: ipfix_export_trecord_def record_exporter_def)
  have last: "parse_sets False env h (length ?buf) (Suc 0) (20 + ?n) False ?buf (template_node env templ # ns) log =
      Returned (int (length ?buf), template_node env templ # ns, log)"
    using b(2) assms(4) by (subst parse_sets.simps) simp
  show ?thesis
    using b(2) assms(4,5) r l last
    by (subst parse_sets.simps) (simp add: Let_def is_template_set_def IPFIX_SETID_TEMPLATE_def IPFIX_VERSION_NF9_def)
qed

section \<open>Data records\<close>

text \<open>
  Values that come back: the element is decoded as it was encoded, at a length that its encoding
  supports, and a value of a field of fixed length has just that length.
\<close>

definition value_ok :: "ipfix_template_field \<Rightarrow> byte list \<Rightarrow> bool" where
  "value_ok f v \<longleftrightarrow> \<not> tf_relay f \<and> (case tf_elem f of None \<Rightarrow> False | Some e \<Rightarrow>
     fi_decode e = fi_encode e \<and> codec_length (fi_encode e) (length v)) \<and>
     (if tf_flength f = IPFIX_FT_VARLEN then length v < 2 ^ 16 else length v = tf_flength f)"

lemma decode_fields_ok:
  "list_all2 value_ok fs vs \<Longrightarrow> record_bytes (ce_host env) fs vs = Returned b \<Longrightarrow> length b \<le> left \<Longrightarrow> host_ok (ce_host env) \<Longrightarrow>
    \<exists>b'. length b' = length b \<and> decode_fields env (map collected fs) (pre @ b @ post) (length pre) left =
      Returned (Some vs, length pre + length b, pre @ b' @ post)"
proof (induction fs vs arbitrary: pre b left rule: list_all2_induct)
  case (Cons f fs v vs)
  obtain e where e: "tf_elem f = Some e" "\<not> tf_relay f" "fi_decode e = fi_encode e" "codec_length (fi_encode e) (length v)"
    "if tf_flength f = IPFIX_FT_VARLEN then length v < 2 ^ 16 else length v = tf_flength f"
    using Cons.hyps(1) by (auto simp: value_ok_def split: option.splits)
  define x where "x = snd (run_encode (ce_host env) (fi_encode e) v)"
  define len where "len = (if tf_flength f = IPFIX_FT_VARLEN then
    (if length v > 254 then [0xFF :: byte] @ u16 (int (length v)) else [of_nat (length v)]) else [])"
  obtain c where c: "record_bytes (ce_host env) fs vs = Returned c" "b = len @ x @ c"
    using Cons.prems(1) e(1,2) by (auto simp: proc_bind_Returned field_bytes_def Let_def x_def len_def)
  have lx: "length x = length v" by (simp add: x_def)
  have v: "snd (run_decode (ce_host env) (fi_decode e) x) = v"
    using decode_encode [OF e(4) Cons.prems(3)] by (simp add: x_def e(3))
  have head: "(if tf_flength f = IPFIX_FT_VARLEN then
        proc_bind (rd8 (pre @ b @ post) (length pre)) (\<lambda>n.
        if n = 255 then proc_bind (READ16 (pre @ b @ post) (length pre + 1)) (\<lambda>n. Returned (n, length pre + 3)) else Returned (n, length pre + 1))
      else Returned (tf_flength f, length pre)) = Returned (length v, length pre + length len)"
  proof (cases "tf_flength f = IPFIX_FT_VARLEN")
    case True
    show ?thesis
    proof (cases "length v > 254")
      case big: True
      have "READ16 (pre @ b @ post) (length pre + 1) = Returned (length v)"
        using READ16_u16 [of "pre @ [0xFF]" "length pre + 1" "int (length v)" "x @ c @ post"] e(5) True big
        by (simp add: c(2) len_def nat_mod_distrib)
      moreover have "rd8 (pre @ b @ post) (length pre) = Returned 255" using True big by (simp add: rd8_def c(2) len_def nth_append)
      ultimately show ?thesis using True big by (simp add: len_def)
    next
      case False
      then have "rd8 (pre @ b @ post) (length pre) = Returned (length v)"
        using True by (simp add: rd8_def c(2) len_def nth_append unat_of_nat)
      with True False show ?thesis by (simp add: len_def)
    qed
  qed (use e(5) in \<open>simp add: len_def\<close>)
  have cl: "length c \<le> left - length v" using Cons.prems(2) lx by (simp add: c(2))
  let ?pre = "pre @ len @ v"
  obtain b' where b': "length b' = length c" "decode_fields env (map collected fs) (?pre @ c @ post) (length ?pre) (left - length v) =
      Returned (Some vs, length ?pre + length c, ?pre @ b' @ post)"
    using Cons.IH [OF c(1) cl Cons.prems(3), of ?pre] by auto
  have buf: "take (length pre + length len) (pre @ b @ post) @ v @ drop (length pre + length len + length v) (pre @ b @ post) = ?pre @ c @ post"
    "take (length v) (drop (length pre + length len) (pre @ b @ post)) = x"
    using lx by (simp_all add: c(2))
  have room: "length v \<le> left" "length pre + length len + length v \<le> length (pre @ b @ post)"
    using Cons.prems(2) lx by (simp_all add: c(2))
  have cf: "tf_flength (collected f) = tf_flength f" "tf_elem (collected f) = Some e" by (simp_all add: collected_def e(1))
  define buf0 where "buf0 = pre @ b @ post"
  have "decode_fields env (map collected (f # fs)) buf0 (length pre) left =
      Returned (Some (v # vs), length ?pre + length c, ?pre @ b' @ post)"
    unfolding list.map decode_fields.simps cf head [folded buf0_def] proc_bind.simps prod.case
    using room [folded buf0_def] b'(2) buf [folded buf0_def] v by (simp add: Let_def add.assoc)
  then show ?case using b'(1) lx by (intro exI [of _ "len @ v @ b'"]) (simp add: c(2) buf0_def)
qed simp

lemma record_loop_ok:
  assumes "ce_exporters env = [record_exporter]" "host_ok (ce_host env)"
    "tn_template n = collected_template templ" "length (templ_fields templ) = te_nfields templ"
    "\<forall>vs \<in> set vss. list_all2 value_ok (templ_fields templ) vs \<and> record_ok (templ_fields templ) vs \<and>
      4 < length (the_record (ce_host env) (templ_fields templ) vs)"
  shows "\<exists>buf'. record_loop env n (pre @ concat (map (the_record (ce_host env) (templ_fields templ)) vss) @ post) (length pre)
      (length (concat (map (the_record (ce_host env) (templ_fields templ)) vss))) log =
    Returned (True, buf', log @ map (\<lambda>vs. (0, Ev_record (te_tid templ) vs)) vss)"
  using assms(5)
proof (induction vss arbitrary: pre log)
  case Nil
  show ?case by (simp add: record_loop.simps)
next
  case (Cons vs vss)
  let ?fs = "templ_fields templ"
  let ?r = "the_record (ce_host env) ?fs vs" and ?rest = "concat (map (the_record (ce_host env) ?fs) vss)"
  have v: "list_all2 value_ok ?fs vs" "record_bytes (ce_host env) ?fs vs = Returned ?r" "4 < length ?r"
    using Cons.prems record_ok_bytes [of ?fs vs] by auto
  obtain b' where b': "length b' = length ?r" "decode_fields env (map collected ?fs) (pre @ ?r @ ?rest @ post) (length pre)
      (length ?r + length ?rest) = Returned (Some vs, length pre + length ?r, pre @ b' @ ?rest @ post)"
    using decode_fields_ok [OF v(1,2) _ assms(2), of "length ?r + length ?rest" pre "?rest @ post"] by auto
  have d: "ipfix_decode_datarecord env n (pre @ ?r @ ?rest @ post) (length pre) (length ?r + length ?rest) =
      Returned (Some vs, length ?r, (pre @ b') @ ?rest @ post)"
    using b' by (simp add: ipfix_decode_datarecord_def assms(3,4) collected_template_def)
  obtain buf' where "record_loop env n ((pre @ b') @ ?rest @ post) (length (pre @ b')) (length ?rest)
      (log @ [(0, Ev_record (te_tid templ) vs)]) =
      Returned (True, buf', (log @ [(0, Ev_record (te_tid templ) vs)]) @ map (\<lambda>vs. (0, Ev_record (te_tid templ) vs)) vss)"
    using Cons.IH [of "pre @ b'" "log @ [(0, Ev_record (te_tid templ) vs)]"] Cons.prems by auto
  moreover have "?r \<noteq> []" using v(3) by auto
  ultimately show ?case
    using v(3) d b'(1) assms(1,3)
    by (simp add: record_loop.simps [of env n "pre @ ?r @ ?rest @ post"] ipfix_export_datarecord_def record_exporter_def
        collected_template_def)
qed

lemma parse_data_set:
  assumes "ce_exporters env = [record_exporter]" "host_ok (ce_host env)"
    "get_ipfixt ns (te_tid templ) = Some k" "tn_template (ns ! k) = collected_template templ"
    "length (templ_fields templ) = te_nfields templ" "255 < te_tid templ" "te_tid templ < 2 ^ 16"
    "\<forall>vs \<in> set vss. list_all2 value_ok (templ_fields templ) vs \<and> record_ok (templ_fields templ) vs \<and>
      4 < length (the_record (ce_host env) (templ_fields templ) vs)" "vss \<noteq> []"
    "rs = map (the_record (ce_host env) (templ_fields templ)) vss"
    "length hdr = 16" "hd_version h = 10" "length (data_set (te_tid templ) rs) < 2 ^ 16"
  shows "parse_sets False env h (length (hdr @ data_set (te_tid templ) rs)) 0 16 False (hdr @ data_set (te_tid templ) rs) ns log =
    Returned (int (length (hdr @ data_set (te_tid templ) rs)), ns, log @ map (\<lambda>vs. (0, Ev_record (te_tid templ) vs)) vss)"
proof -
  let ?buf = "hdr @ data_set (te_tid templ) rs"
  let ?n = "length (concat rs)"
  have n: "4 < ?n" using assms(8,9) by (cases vss) (auto simp: assms(10))
  have r: "READ16 ?buf 16 = Returned (te_tid templ)" "READ16 ?buf 18 = Returned (4 + ?n)"
    using READ16_u16 [of hdr 16 "int (te_tid templ)"] READ16_u16 [of "hdr @ u16 (int (te_tid templ))" 18 "int (4 + ?n)" "concat rs"]
      assms(7,11,13) by (simp_all add: data_set_def nat_mod_distrib del: of_nat_add)
  have "\<exists>buf'. record_loop env (ns ! k) ((hdr @ u16 (int (te_tid templ)) @ u16 (int (4 + ?n))) @ concat rs @ [])
      (length (hdr @ u16 (int (te_tid templ)) @ u16 (int (4 + ?n)))) ?n log =
      Returned (True, buf', log @ map (\<lambda>vs. (0, Ev_record (te_tid templ) vs)) vss)"
    unfolding assms(10) by (rule record_loop_ok [OF assms(1,2,4,5,8)])
  then obtain buf' where l: "record_loop env (ns ! k) ?buf 20 ?n log =
      Returned (True, buf', log @ map (\<lambda>vs. (0, Ev_record (te_tid templ) vs)) vss)"
    using assms(11) by (auto simp: data_set_def)
  have last: "parse_sets False env h (length ?buf) (Suc 0) (20 + ?n) False buf' ns lg = Returned (int (length ?buf), ns, lg)" for lg
    using assms(11) by (subst parse_sets.simps) simp
  have "\<not> is_template_set (te_tid templ)" using assms(6)
    by (simp add: is_template_set_def IPFIX_SETID_TEMPLATE_def IPFIX_SETID_OPTTEMPLATE_def IPFIX_SETID_TEMPLATE_NF9_def
        IPFIX_SETID_OPTTEMPLATE_NF9_def)
  moreover have "concat rs \<noteq> []" using n by (metis list.size(3) not_less_zero)
  ultimately show ?thesis
    using n assms(1,3,6,11,12) r l last
    by (subst parse_sets.simps) (simp add: Let_def IPFIX_VERSION_NF9_def record_exporter_def)
qed

section \<open>From the exporter to the collector\<close>

lemma tcp_message:
  assumes "len = length body" "4 \<le> len" "len < 60000"
  shows "process_client_tcp env input ss ((ipfix_header now len seqno src @ body) @ rest) log =
    proc_bind (ipfix_parse_msg env (Some input) ss (ipfix_header now len seqno src @ body) log)
      (\<lambda>(r, ss, log). Returned (if r < 0 then None else Some ss, rest, log))"
proof -
  let ?h = "ipfix_header now len seqno src"
  have "readn (int IPFIX_HDR_BYTES_NF9) ((?h @ body) @ rest) = (?h @ take 4 body, drop 4 body @ rest)"
    using assms(1,2) by (simp add: readn_def IPFIX_HDR_BYTES_NF9_def)
  moreover have "length (?h @ take 4 body) = IPFIX_HDR_BYTES_NF9" using assms(1,2) by (simp add: IPFIX_HDR_BYTES_NF9_def)
  moreover have "ipfix_parse_hdr (?h @ take 4 body) = Returned (Some (parsed_hdr now len seqno src))"
    using assms(3) by (intro parse_ipfix_header) simp
  moreover have "readn (int (len + 16) - 20) (drop 4 body @ rest) = (drop 4 body, rest)"
    using assms(1,2) by (simp add: readn_def nat_diff_distrib)
  moreover have "(?h @ take 4 body) @ drop 4 body = ?h @ body" by simp
  ultimately show ?thesis
    using assms unfolding process_client_tcp_def
    by (simp add: Let_def parsed_hdr_def IPFIX_VERSION_NF9_def IPFIX_HDR_BYTES_NF9_def TMPBUF_SIZE_def of_nat_diff)
qed

definition new_source :: "ipfix_input \<Rightarrow> int \<Rightarrow> ipfixt_node list \<Rightarrow> ipfix_source" where
  "new_source input src ns = \<lparr>so_odid = nat (src mod 2 ^ 32), so_input = input, so_templates = ns\<rparr>"

text \<open>One message, for a new source or the one that is there.\<close>

lemma parse_message:
  assumes "ce_exporters env = [record_exporter]" "len + 16 < 2 ^ 16"
    "ss = [] \<and> ns = [] \<or> ss = [new_source input src ns]"
    "parse_sets False env (parsed_hdr now len seqno src) (length (ipfix_header now len seqno src @ body)) 0 16 False
      (ipfix_header now len seqno src @ body) ns log = Returned (r, ns', log')"
  shows "ipfix_parse_msg env (Some input) ss (ipfix_header now len seqno src @ body) log = Returned (r, [new_source input src ns'], log')"
proof -
  have g: "get_ipfix_source env ss (Some input) (hd_sourceid (parsed_hdr now len seqno src)) log = (Some 0, [new_source input src ns], log)"
    using assms(1,3) by (auto simp: get_ipfix_source_def new_source_def parsed_hdr_def record_exporter_def)
  have e: "ipfix_export_hdr env (parsed_hdr now len seqno src) log = (0, log)"
    using assms(1) by (simp add: ipfix_export_hdr_def) (simp add: record_exporter_def)
  have f: "List.find (\<lambda>(n, e). ex_rawmsg e) (enumerate 0 (ce_exporters env)) = None"
    using assms(1) by (simp add: enumerate_eq_zip record_exporter_def)
  have b: "header_bytes (parsed_hdr now len seqno src) = 16"
    by (simp add: header_bytes_def parsed_hdr_def IPFIX_VERSION_NF9_def IPFIX_HDR_BYTES_def)
  show ?thesis
    using assms(4) by (simp add: ipfix_parse_msg_def parse_ipfix_header [OF assms(2)] g e f b)
      (simp add: new_source_def)
qed

text \<open>A session, from the calls of the exporter to what the collector makes of the two messages.\<close>

lemma session_collected:
  assumes "session h c t i col templ host (Suc (Suc b)) sent st" "te_tsend templ = 0"
    "ms_offset (cl_message col) = 0" "buffer_holds i (te_tid templ) []" "full_write env" "ie_now env \<noteq> 0"
    "wire_ok (ce_fields cenv) templ" "ce_exporters cenv = [record_exporter]" "ce_host cenv = host" "host_ok host"
    "vss \<noteq> []" "\<forall>vs \<in> set vss. list_all2 value_ok (templ_fields templ) vs \<and> 4 < length (the_record host (templ_fields templ) vs)"
    "4 + length (concat (map (the_record host (templ_fields templ)) vss)) \<le> IPFIX_DEFAULT_BUFLEN"
  shows "\<exists>st1 st2 m1 m2 ss1 ss2. export_records env h t vss st = Returned (0, st1) \<and> ipfix_export_flush env h st1 = Returned (0, st2) \<and>
    gs_sent st2 = sent @ [(c, m1), (c, m2)] \<and>
    process_client_tcp cenv input [] (m1 @ m2) [] = Returned (Some ss1, m2, []) \<and>
    process_client_tcp cenv input ss1 m2 [] = Returned (Some ss2, [], map (\<lambda>vs. (0, Ev_record (te_tid templ) vs)) vss)"
proof -
  let ?rs = "map (the_record host (templ_fields templ)) vss"
  let ?now = "ie_now env" and ?seq = "int (ix_seqno i)" and ?src = "ix_sourceid i"
  let ?T = "template_set templ" and ?D = "data_set (te_tid templ) ?rs"
  let ?m1 = "ipfix_header ?now (length ?T) ?seq ?src @ ?T" and ?m2 = "ipfix_header ?now (length ?D) ?seq ?src @ ?D"
  let ?log = "map (\<lambda>vs. (0, Ev_record (te_tid templ) vs)) vss"
  have t: "template_ok templ" "length (templ_fields templ) = te_nfields templ" "255 < te_tid templ" "te_tid templ < 2 ^ 16"
    "length ?T \<le> IPFIX_DEFAULT_BUFLEN" "list_all (\<lambda>f. tf_elem f \<noteq> None) (templ_fields templ)"
    using assms(7) by (simp_all add: wire_ok_def template_ok_def)
  have ok: "\<forall>vs \<in> set vss. record_ok (templ_fields templ) vs"
  proof
    fix vs assume "vs \<in> set vss"
    then have v: "list_all2 value_ok (templ_fields templ) vs" using assms(12) by blast
    then show "record_ok (templ_fields templ) vs"
      using t(6) list_all2_lengthD [OF v] by (auto simp: record_ok_def value_ok_def elim!: list_all2_mono split: if_splits)
  qed
  obtain st1 st2 where e: "export_records env h t vss st = Returned (0, st1)" "ipfix_export_flush env h st1 = Returned (0, st2)"
    "gs_sent st2 = sent @ [(c, ?m1), (c, ?m2)]"
    using session_sends [OF assms(1) t(1) assms(2-6,11) ok refl assms(13)] unfolding session_def by blast
  have l: "4 \<le> length ?T" "length ?T < 60000" "4 \<le> length ?D" "length ?D < 60000"
    using t(5) assms(13) by (simp_all add: length_template_set IPFIX_DEFAULT_BUFLEN_def)
  let ?n = "template_node cenv templ"
  have "parse_sets False cenv (parsed_hdr ?now (length ?T) ?seq ?src) (length ?m1) 0 16 False ?m1 [] [] = Returned (int (length ?m1), [?n], [])"
    by (rule parse_template_set [OF assms(7) _ assms(8)]) (use l in \<open>simp_all add: parsed_hdr_def\<close>)
  then have p1: "ipfix_parse_msg cenv (Some input) [] ?m1 [] = Returned (int (length ?m1), [new_source input ?src [?n]], [])"
    by (intro parse_message [OF assms(8)]) (use l in simp_all)
  have "parse_sets False cenv (parsed_hdr ?now (length ?D) ?seq ?src) (length ?m2) 0 16 False ?m2 [?n] [] =
      Returned (int (length ?m2), [?n], [] @ ?log)"
    by (rule parse_data_set [OF assms(8), where k = 0])
      (use assms(9-12) ok t l in \<open>simp_all add: parsed_hdr_def template_node_def\<close>, simp add: collected_template_def)
  then have p2: "ipfix_parse_msg cenv (Some input) [new_source input ?src [?n]] ?m2 [] =
      Returned (int (length ?m2), [new_source input ?src [?n]], ?log)"
    by (intro parse_message [OF assms(8)]) (use l in simp_all)
  have "process_client_tcp cenv input [] (?m1 @ ?m2) [] = Returned (Some [new_source input ?src [?n]], ?m2, [])"
    using tcp_message [OF refl l(1,2), of cenv input "[]" ?now ?seq ?src ?m2 "[]"] p1 by simp
  moreover have "process_client_tcp cenv input [new_source input ?src [?n]] ?m2 [] =
      Returned (Some [new_source input ?src [?n]], [], ?log)"
    using tcp_message [OF refl l(3,4), of cenv input "[new_source input ?src [?n]]" ?now ?seq ?src "[]" "[]"] p2 by simp
  ultimately show ?thesis using e by blast
qed

text \<open>
  C5. An exporter that is connected to a collector over TCP exports records under a new template and
  flushes. What it writes, read from the connection by the collector, is taken as two messages, of
  the template and of the records, and the registered exporter gets just the records that were
  exported, in order and with the values they had. (A record has to have more than four bytes.)
\<close>

theorem ipfix_roundtrip:
  assumes "session h c t i col templ host (Suc (Suc b)) sent st" "te_tsend templ = 0"
    "ms_offset (cl_message col) = 0" "buffer_holds i (te_tid templ) []" "full_write env" "ie_now env \<noteq> 0"
    "wire_ok (ce_fields cenv) templ" "ce_exporters cenv = [record_exporter]" "ce_host cenv = host" "host_ok host"
    "vss \<noteq> []" "\<forall>vs \<in> set vss. list_all2 value_ok (templ_fields templ) vs \<and> 4 < length (the_record host (templ_fields templ) vs)"
    "4 + length (concat (map (the_record host (templ_fields templ)) vss)) \<le> IPFIX_DEFAULT_BUFLEN"
  shows "\<exists>st1 st2 m1 m2 ss1 ss2. export_records env h t vss st = Returned (0, st1) \<and> ipfix_export_flush env h st1 = Returned (0, st2) \<and>
    gs_sent st2 = sent @ [(c, m1), (c, m2)] \<and>
    process_client_tcp cenv input [] (m1 @ m2) [] = Returned (Some ss1, m2, []) \<and>
    process_client_tcp cenv input ss1 m2 [] = Returned (Some ss2, [], map (\<lambda>vs. (0, Ev_record (te_tid templ) vs)) vss)"
  by (rule session_collected [OF assms])

section \<open>An example\<close>

definition example_elements :: "ipfix_field list" where
  "example_elements = map new_field
     [\<lparr>ft_eno = 0, ft_ftype = 8, ft_length = 4, ft_coding = IPFIX_CODING_IPADDR, ft_name = ''sourceIPv4Address'', ft_documentation = ''''\<rparr>,
      \<lparr>ft_eno = 0, ft_ftype = 7, ft_length = 2, ft_coding = IPFIX_CODING_UINT, ft_name = ''sourceTransportPort'', ft_documentation = ''''\<rparr>]"

definition example_template :: ipfix_template where
  "example_template = \<lparr>te_type = DATA_TEMPLATE, te_tsend = 0, te_tid = 256, te_ndatafields = 2, te_nscopefields = 0, te_nfields = 2,
     te_fields = [\<lparr>tf_flength = 4, tf_unknown = False, tf_relay = False, tf_elem = Some (example_elements ! 0)\<rparr>,
                  \<lparr>tf_flength = 2, tf_unknown = False, tf_relay = False, tf_elem = Some (example_elements ! 1)\<rparr>],
     te_maxfields = 2, te_odid = 0\<rparr>"

definition example_host :: ipfix_host where "example_host = \<lparr>ih_little = True, ih_flag = True\<rparr>"

definition example_ifh :: ipfix_handle where
  "example_ifh = (new_handle 1 IPFIX_VERSION)\<lparr>ix_collectors := Some 1, ix_templates := [2]\<rparr>"

definition example_col :: ipfix_collector where
  "example_col = (new_collector ''collector'' 4739 IPFIX_PROTO_TCP)\<lparr>cl_fd := 3\<rparr>"

definition example_st :: ipfix_st where
  "example_st = \<lparr>gs_tstart = 1, gs_host = example_host, gs_fields = example_elements, gs_lasttid = 256, gs_bufs = 2,
     gs_ipfixlist = [0], gs_collectors = [1], gs_ifh = [0 \<mapsto> example_ifh], gs_col = [1 \<mapsto> example_col],
     gs_templ = [2 \<mapsto> example_template], gs_next = 3, gs_sent = [], gs_io = 0, gs_reset = False\<rparr>"

definition example_env :: ipfix_env where
  "example_env = \<lparr>ie_now = 1000, ie_connect = (\<lambda>n host port. None), ie_write = (\<lambda>n k. int k), ie_reset = (\<lambda>n. False), ie_alloc = True\<rparr>"

definition example_cenv :: col_env where
  "example_cenv = \<lparr>ce_now = 1000, ce_lifetime = 300, ce_fields = example_elements, ce_host = example_host,
     ce_exporters = [record_exporter]\<rparr>"

lemma example_session: "session 0 1 2 example_ifh example_col example_template example_host (Suc (Suc 0)) [] example_st"
  by (simp add: session_def example_st_def example_ifh_def example_col_def new_handle_def new_collector_def)

lemma example_templ_fields: "templ_fields example_template = te_fields example_template"
  by (simp add: templ_fields_def example_template_def)

lemma example_element:
  "tf_elem (te_fields example_template ! 0) = Some (example_elements ! 0)" "tf_elem (te_fields example_template ! 1) = Some (example_elements ! 1)"
  by (simp_all add: example_template_def)

lemma example_ident: "\<exists>s. ident_enos 20 3 0 [(0, 8), (0, 7)] [] = Returned s"
  by (simp add: numeral_3_eq_3 scan_min_def next_eno_def ident_snprintf_def ident_strcat_def show_hex.simps)

lemma example_wire: "wire_ok (ce_fields example_cenv) example_template"
proof -
  have "template_elements (take (te_nfields (collected_template example_template)) (te_fields (collected_template example_template))) =
      [(0, 8), (0, 7)]" "te_nfields (collected_template example_template) = 2"
    by (simp_all add: template_elements_def collected_template_def templ_fields_def example_template_def collected_def
        example_elements_def new_field_def)
  then have "ident_ok (collected_template example_template)"
    using example_ident by (auto simp: ident_ok_def ipfix_get_template_ident_def)
  moreover have "template_ok example_template" "list_all (field_known (ce_fields example_cenv)) (templ_fields example_template)"
    by (simp_all add: template_ok_def example_templ_fields length_template_set field_known_def)
      (simp_all add: field_known_def example_template_def example_cenv_def example_elements_def new_field_def IPFIX_CODING_IPADDR_def
        IPFIX_CODING_UINT_def IPFIX_CODING_INT_def IPFIX_CODING_NTP_def IPFIX_CODING_FLOAT_def IPFIX_DEFAULT_BUFLEN_def spec_bytes_def)
  ultimately show ?thesis by (simp add: wire_ok_def) (simp add: example_template_def)
qed

definition example_record :: "byte list list" where "example_record = [[192, 168, 0, 1], [80, 0]]"

lemma example_record_ok:
  "list_all2 value_ok (templ_fields example_template) example_record"
  "the_record example_host (templ_fields example_template) example_record = [192, 168, 0, 1, 0, 80]"
  by (simp_all add: templ_fields_def example_record_def example_template_def value_ok_def the_record_def field_bytes_def
      example_elements_def new_field_def IPFIX_CODING_IPADDR_def
      IPFIX_CODING_UINT_def IPFIX_CODING_INT_def IPFIX_CODING_NTP_def IPFIX_CODING_FLOAT_def codec_length_def IPFIX_FT_VARLEN_def
      run_encode_def ipfix_encode_int_def ipfix_encode_bytes_def hton_def example_host_def)

theorem ipfix_roundtrip_witness:
  "\<exists>st1 st2 m1 m2 ss1 ss2. export_records example_env 0 2 [example_record] example_st = Returned (0, st1) \<and>
    ipfix_export_flush example_env 0 st1 = Returned (0, st2) \<and> gs_sent st2 = [(1, m1), (1, m2)] \<and>
    process_client_tcp example_cenv (IPFIX_INPUT_FILE ''peer'') [] (m1 @ m2) [] = Returned (Some ss1, m2, []) \<and>
    process_client_tcp example_cenv (IPFIX_INPUT_FILE ''peer'') ss1 m2 [] = Returned (Some ss2, [], [(0, Ev_record 256 example_record)])"
proof -
  have "te_tsend example_template = 0" "ms_offset (cl_message example_col) = 0" "buffer_holds example_ifh (te_tid example_template) []"
    "full_write example_env" "ie_now example_env \<noteq> 0" "ce_exporters example_cenv = [record_exporter]"
    "ce_host example_cenv = example_host" "host_ok example_host" "te_tid example_template = 256"
    by (simp_all add: example_template_def example_col_def new_collector_def example_ifh_def new_handle_def buffer_holds_def full_write_def
        example_env_def example_cenv_def example_host_def host_ok_def)
  then show ?thesis
    using ipfix_roundtrip [OF example_session _ _ _ _ _ example_wire, of example_env "[example_record]" "IPFIX_INPUT_FILE ''peer''"]
      example_record_ok
    by (simp add: IPFIX_DEFAULT_BUFLEN_def)
qed

end
