(* ===== verification/IpfixFaults.thy ===== *)
theory IpfixFaults
  imports IpfixRT
begin

text \<open>What goes wrong in the IPFIX library, on inputs that the sources do not guard against.\<close>

section \<open>The exporter\<close>

text \<open>A record that does not fit an empty buffer is written past its end: after the flush the room is not tested again.\<close>

lemma oversized_record_overflows:
  assumes "gs_ifh st h = Some i" "gs_templ st t = Some templ"
    "resend_due env h (chain (ix_collectors i) st) t st = Returned (0, st)" "te_tsend templ \<noteq> 0" "0 < te_tid templ"
    "buffer_holds i (te_tid templ) []" "length vs = te_nfields templ" "record_ok (templ_fields templ) vs"
    "IPFIX_DEFAULT_BUFLEN < length (the_record (gs_host st) (templ_fields templ) vs)"
  shows "ipfix_export_array env h (Some t) vs st = Undefined ''write past the buffer''"
proof -
  note ok = record_ok_bytes [OF assms(8), of "gs_host st"]
  have e: "ix_offset i = 0" "ix_cs_tid i = 0" "length (ix_buffer i) = IPFIX_DEFAULT_BUFLEN"
    using assms(6) by (simp_all add: buffer_holds_def)
  have "ipfix_export_flush env h (set_ifh h i st) = Returned (0, set_ifh h i st)"
    by (simp add: ipfix_export_flush_def get_ifh_def e(1))
  then show ?thesis
    using assms(1-5,7,9) ok e
    by (simp add: ipfix_export_array_def put_record_def get_ifh_def get_templ_def templ_fields_def [symmetric] put_at_def Let_def)
qed

text \<open>Without a collector a flush succeeds and leaves the buffer as full as it was.\<close>

lemma flush_without_collector:
  assumes "gs_ifh st h = Some i" "ix_collectors i = None" "ix_version i = IPFIX_VERSION" "buffer_holds i tid rs" "rs \<noteq> []" "0 < tid"
    "gs_bufs st = Suc b"
  shows "\<exists>st' i'. ipfix_export_flush env h st = Returned (0, st') \<and> gs_ifh st' h = Some i' \<and> ix_offset i' = ix_offset i"
proof -
  obtain buf where f: "finish_cs i = Returned (i\<lparr>ix_buffer := buf, ix_cs_bytes := 0, ix_cs_header := None, ix_cs_tid := 0\<rparr>)"
    "length buf = IPFIX_DEFAULT_BUFLEN"
    using finish_open_set [OF assms(4,5)] by blast
  have "ix_offset i \<le> IPFIX_DEFAULT_BUFLEN" "0 < ix_offset i" "ix_cs_tid i = tid" using assms(4,5) by (simp_all add: buffer_holds_def)
  then show ?thesis
    using assms f by (simp add: ipfix_export_flush_def get_ifh_def ipfix_getbuf_def ipfix_write_hdr_def write_header_ipfix copy_to_iobuf_def
        IPFIX_HDR_BYTES_NF9_def chain_def ipfix_freebuf_def)
qed

text \<open>The collectors of earlier handles follow a new collector, and get the messages of its handle.\<close>

lemma chain_reaches_others: "gs_collectors st = c # cs \<Longrightarrow> chain (Some c) st = c # cs"
  by (simp add: chain_def)

text \<open>A value may be shorter than its field of fixed length; the record is then shorter than the template says.\<close>

lemma short_value_accepted:
  assumes "tf_flength f \<noteq> IPFIX_FT_VARLEN" "length v < tf_flength f"
  shows "record_length [f] [v] = Some (length v)"
  using assms by simp

text \<open>An integer of a length other than 1, 2, 4 and 8 is sent as bytes 255; the error is not looked at.\<close>

lemma reduced_size_lost:
  assumes "tf_elem f = Some e" "fi_encode e = Codec_int" "\<not> tf_relay f" "tf_flength f = 3" "length v = 3"
  shows "field_bytes host f v = Returned [0xFF, 0xFF, 0xFF]"
  using assms by (simp add: field_bytes_def Let_def run_encode_def ipfix_encode_int_def IPFIX_FT_VARLEN_def numeral_3_eq_3)

text \<open>
  A scope field with an unknown element: the data fields have been moved, and a field without
  element is among those that are written.
\<close>

lemma unknown_scope_field:
  assumes "gs_templ st t = Some templ" "te_type templ = OPTION_TEMPLATE" "te_nfields templ < te_maxfields templ"
    "te_nscopefields templ < te_nfields templ" "length (te_fields templ) = te_maxfields templ"
    "te_ndatafields templ = te_nfields templ - te_nscopefields templ" "ipfix_get_ftinfo (gs_fields st) eno (int type) = None"
  shows "\<exists>st' templ'. ipfix_add_scope_field t eno type len st = Returned (-1, st') \<and> gs_templ st' t = Some templ' \<and>
    te_nfields templ' = te_nfields templ \<and> tf_elem (te_fields templ' ! te_nscopefields templ) = None"
  using assms by (simp add: ipfix_add_scope_field_def get_templ_def Let_def put_field_def)

lemma null_element_crashes: "\<exists>f \<in> set fs. tf_elem f = None \<Longrightarrow> specs_length fs = Undefined ''null pointer''"
proof (induction fs)
  case (Cons f fs)
  then show ?case by (cases "tf_elem f") (auto simp: spec_length_def)
qed simp

text \<open>When the template is full, adding a scope field does nothing and succeeds.\<close>

lemma full_scope_ignored:
  assumes "gs_templ st t = Some templ" "te_type templ = OPTION_TEMPLATE" "te_nfields templ = te_maxfields templ"
  shows "ipfix_add_scope_field t eno type len st = Returned (0, st)"
  using assms by (simp add: ipfix_add_scope_field_def get_templ_def)

lemma get_template_array_crashes:
  "ie_alloc env \<Longrightarrow> fds \<noteq> [] \<Longrightarrow> ipfix_get_template_array env h fds st = Undefined ''null pointer''"
  by (simp add: ipfix_get_template_array_def)

text \<open>Template numbers wrap to those that are reserved for template sets.\<close>

lemma template_numbers_wrap: "gs_lasttid st = 2 ^ 16 - 1 \<Longrightarrow> next_tid st = 0"
  by (simp add: next_tid_def)

section \<open>The collector\<close>

text \<open>A record of four bytes or less at the end of a set is taken for padding.\<close>

lemma short_record_lost: "left \<le> 4 \<Longrightarrow> record_loop env n buf offset left log = Returned (True, buf, log)"
  by (simp add: record_loop.simps)

text \<open>Records of a template whose fields are all of length 0 are read for ever.\<close>

lemma empty_fields_spin:
  assumes "\<forall>f \<in> set (take (te_nfields (tn_template n)) (te_fields (tn_template n))). tf_flength f = 0 \<and> tf_elem f \<noteq> None"
    "4 < left" "offset \<le> length buf"
  shows "record_loop env n buf offset left log = Spins"
proof -
  have e: "snd (run_decode h c []) = []" for h c by (metis length_run_decode length_0_conv)
  have "\<forall>f \<in> set fs. tf_flength f = 0 \<and> tf_elem f \<noteq> None \<Longrightarrow>
      \<exists>vs. decode_fields env fs buf offset left = Returned (Some vs, offset, buf)" for fs
  proof (induction fs)
    case (Cons f fs)
    then obtain vs x where "decode_fields env fs buf offset left = Returned (Some vs, offset, buf)" "tf_elem f = Some x" by auto
    then show ?case using Cons.prems assms(3) by (simp add: IPFIX_FT_VARLEN_def Let_def e)
  qed simp
  from this [OF assms(1)] obtain vs where "ipfix_decode_datarecord env n buf offset left = Returned (Some vs, 0, buf)"
    by (auto simp: ipfix_decode_datarecord_def)
  then show ?thesis using assms(2) by (simp add: record_loop.simps)
qed

text \<open>The length of a value is read even when no byte is left.\<close>

lemma length_read_past_end:
  "tf_flength f = IPFIX_FT_VARLEN \<Longrightarrow> length buf \<le> p \<Longrightarrow>
    decode_fields env (f # fs) buf p left = Undefined ''read past the message''"
  by (simp add: rd8_def)

text \<open>The version is read from a message that may be empty.\<close>

lemma empty_message_read: "length msg < 2 \<Longrightarrow> ipfix_parse_hdr msg = Undefined ''read past the message''"
  by (simp add: ipfix_parse_hdr_def READ16_def)

text \<open>An options template of NetFlow whose lengths are right is refused: the test is the wrong way round.\<close>

lemma nf9_options_refused:
  assumes "READ16 buf pos = Returned tid" "READ16 buf (pos + 2) = Returned scopelen" "READ16 buf (pos + 4) = Returned optionlen"
    "len = 6 + scopelen + optionlen + padding"
  shows "trecord_header IPFIX_SETID_OPTTEMPLATE_NF9 buf pos len = Returned None"
  using assms by (simp add: trecord_header_def IPFIX_SETID_OPTTEMPLATE_NF9_def IPFIX_SETID_OPTTEMPLATE_def)

text \<open>
  A template of two unknown elements is sent again, cut after the first: both elements were freed,
  the second is freed again with the node.
\<close>

lemma template_double_free:
  assumes "te_nfields t = 2" "te_fields t = [f, g]" "tf_unknown f" "tf_elem f = Some e" "tf_unknown g" "tf_elem g = Some e'"
    "te_tid t = 256" "ipfix_get_ftinfo (ce_fields env) 0 1 = None"
  shows "ipfix_decode_trecord env 2 (u16 256 @ u16 2 @ u16 1 @ u16 4) 0 8 [\<lparr>tn_expire = 0, tn_template = t, tn_ident = i\<rparr>] =
    Undefined ''double free''"
proof -
  let ?buf = "u16 256 @ u16 2 @ u16 1 @ u16 4"
  have r: "READ16 ?buf 0 = Returned 256" "READ16 ?buf (Suc (Suc 0)) = Returned 2" "READ16 ?buf 4 = Returned 1" "READ16 ?buf 6 = Returned 4"
    using READ16_u16 [of "[]" 0 256] READ16_u16 [of "u16 256" "Suc (Suc 0)" 2] READ16_u16 [of "u16 256 @ u16 2" 4 1]
      READ16_u16 [of "u16 256 @ u16 2 @ u16 1" 6 4 "[]"] by simp_all
  have "trecord_header 2 ?buf 0 8 = Returned (Some (256, 2, 0, 4))"
    using r by (simp add: trecord_header_def IPFIX_SETID_OPTTEMPLATE_def IPFIX_SETID_OPTTEMPLATE_NF9_def IPFIX_SETID_TEMPLATE_def)
  moreover have "\<exists>x. read_fields env ?buf 4 4 [f\<lparr>tf_elem := None\<rparr>, g\<lparr>tf_elem := None\<rparr>] = Returned (None, [x, g\<lparr>tf_elem := None\<rparr>]) \<and>
      tf_elem x \<noteq> None"
    using r assms(8) by (simp add: ipfix_read_templ_field_def IPFIX_EFT_VENDOR_BIT_def IPFIX_FT_NOENO_def Let_def ipfix_create_unknown_ftinfo_def)
  then obtain x where "read_fields env ?buf 4 4 [f\<lparr>tf_elem := None\<rparr>, g\<lparr>tf_elem := None\<rparr>] = Returned (None, [x, g\<lparr>tf_elem := None\<rparr>])"
    "tf_elem x \<noteq> None" by blast
  ultimately show ?thesis
    using assms by (simp add: ipfix_decode_trecord_def Let_def free_unknown_def delete_ipfixt_def del: read_fields.simps)
qed

text \<open>
  Six elements of six enterprises with long numbers: the name is written past its block of 60
  characters. Each enterprise adds 15 characters, of which the last is added without a test.
\<close>

definition long_elements :: "(int \<times> int) list" where
  "long_elements = map (\<lambda>k. (0x10000000 + k, 0x1000)) [1..6]"

lemma length_show_hex_step: "16 \<le> n \<Longrightarrow> length (show_hex n) = length (show_hex (n div 16)) + 1"
proof -
  have "length (show_hex (n mod 16)) = 1" by (rule length_show_hex_digit) simp
  then show "16 \<le> n \<Longrightarrow> ?thesis" by (subst show_hex.simps) simp
qed

lemma long_elements_eq:
  "long_elements = [(0x10000001, 0x1000), (0x10000002, 0x1000), (0x10000003, 0x1000), (0x10000004, 0x1000), (0x10000005, 0x1000),
    (0x10000006, 0x1000)]"
  by (simp add: long_elements_def upto.simps)

lemma long_elements_length: "length long_elements = Suc (Suc 4)" by (simp add: long_elements_eq)

lemma long_group:
  assumes "1 \<le> k" "k \<le> 5" "length ident \<le> 60"
  shows "\<exists>s. length s = (if length ident < 46 then length ident + 14 else if length ident < 60 then 59 else 60) \<and>
    ident_enos 60 (Suc fuel) (0x10000000 + k) long_elements ident =
      (if length s < 60 then ident_enos 60 fuel (0x10000001 + k) long_elements (s @ ''_'') else Undefined ''write past the buffer'')"
proof -
  have k: "k \<in> {1, 2, 3, 4, 5}" using assms(1,2) by auto
  let ?cur = "0x10000000 + k"
  have m: "scan_min ?cur 0 long_elements = (0x1000, 1)" "scan_min ?cur 0x1000 long_elements = (0xFFFF, 0)"
    "next_eno ?cur long_elements = 0x10000001 + k"
    using k by (auto simp: scan_min_def next_eno_def long_elements_eq)
  have h: "length (show_hex (nat ?cur)) = 8" "length (show_hex 0x1000) = 4"
    using k by (auto simp: length_show_hex_step)
  define s1 where "s1 = ident @ take (60 - length ident - 1) (''v'' @ show_hex (nat ?cur) @ ''_'')"
  define s where "s = s1 @ take (60 - length s1 - 1) (show_hex 0x1000)"
  have l: "length s1 \<le> 60" using assms(3) by (simp add: s1_def)
  have "ident_snprintf 60 ident (''v'' @ show_hex (nat ?cur) @ ''_'') = Returned s1"
    using assms(3) by (simp add: ident_snprintf_def s1_def)
  moreover have "ident_types 60 ?cur long_elements (Suc (Suc n)) 0 0 0 s1 = Returned (s, 1)" for n
    using m(1,2) l by (simp add: ident_snprintf_def s_def)
  then have "ident_types 60 ?cur long_elements (length long_elements) 0 0 0 s1 = Returned (s, 1)"
    by (metis long_elements_length)
  moreover have "?cur \<noteq> 0" "0x10000001 + k \<noteq> 0x7FFFFFFF" using k by auto
  ultimately have "ident_enos 60 (Suc fuel) ?cur long_elements ident =
      (if length s < 60 then ident_enos 60 fuel (0x10000001 + k) long_elements (s @ ''_'') else Undefined ''write past the buffer'')"
    using m(3) by (simp add: ident_strcat_def)
  moreover have "length s = (if length ident < 46 then length ident + 14 else if length ident < 60 then 59 else 60)"
    using assms(3) h by (auto simp: s_def s1_def min_def)
  ultimately show ?thesis by blast
qed

lemma ident_overflows: "ident_enos 60 7 0 long_elements [] = Undefined ''write past the buffer''"
proof -
  have step: "\<exists>s'. length s' = n + 15 \<and> ident_enos 60 (Suc fuel) (0x10000000 + k) long_elements s = ident_enos 60 fuel (0x10000001 + k) long_elements s'"
    if "length s = n" "1 \<le> k" "k \<le> 5" "n < 46" for s n k fuel
  proof -
    note h = that
    obtain s1 where "length s1 = n + 14" "ident_enos 60 (Suc fuel) (0x10000000 + k) long_elements s =
        (if length s1 < 60 then ident_enos 60 fuel (0x10000001 + k) long_elements (s1 @ ''_'') else Undefined ''write past the buffer'')"
      using long_group [OF h(2,3), of s fuel] h(1,4) by (auto simp del: ident_enos.simps)
    then show ?thesis using h(4) by (intro exI [of _ "s1 @ ''_''"]) simp
  qed
  have m: "scan_min 0 0 long_elements = (0xFFFF, 0)" "next_eno 0 long_elements = 0x10000000 + 1" "length long_elements = Suc 5"
    by (simp_all add: scan_min_def next_eno_def long_elements_eq)
  have "ident_types 60 0 long_elements (Suc n) 0 0 0 [] = Returned ([], 0)" for n using m(1) by simp
  then have "ident_types 60 0 long_elements (length long_elements) 0 0 0 [] = Returned ([], 0)" by (metis m(3))
  then have "ident_enos 60 (Suc f) 0 long_elements [] = ident_enos 60 f (0x10000000 + 1) long_elements []" for f
    using m(2) by simp
  then have "ident_enos 60 (Suc 6) 0 long_elements [] = ident_enos 60 6 (0x10000000 + 1) long_elements []" .
  moreover obtain s1 where s1: "length s1 = 15" "ident_enos 60 (Suc 5) (0x10000000 + 1) long_elements [] = ident_enos 60 5 (0x10000001 + 1) long_elements s1"
    using step [of "[]" 0 1 5] by (auto simp del: ident_enos.simps)
  moreover obtain s2 where s2: "length s2 = 30" "ident_enos 60 (Suc 4) (0x10000000 + 2) long_elements s1 = ident_enos 60 4 (0x10000001 + 2) long_elements s2"
    using step [of s1 15 2 4] s1 by (auto simp del: ident_enos.simps)
  moreover obtain s3 where s3: "length s3 = 45" "ident_enos 60 (Suc 3) (0x10000000 + 3) long_elements s2 = ident_enos 60 3 (0x10000001 + 3) long_elements s3"
    using step [of s2 30 3 3] s2 by (auto simp del: ident_enos.simps)
  moreover obtain s4 where s4: "length s4 = 60" "ident_enos 60 (Suc 2) (0x10000000 + 4) long_elements s3 = ident_enos 60 2 (0x10000001 + 4) long_elements s4"
    using step [of s3 45 4 2] s3 by (auto simp del: ident_enos.simps)
  moreover have "ident_enos 60 2 (0x10000000 + 5) long_elements s4 = Undefined ''write past the buffer''"
    using long_group [of 5 s4 1] s4(1) by (auto simp: numeral_2_eq_2 simp del: ident_enos.simps)
  ultimately show ?thesis by (simp del: ident_enos.simps)
qed

text \<open>The raw variant hands out a template that was not looked up yet.\<close>

lemma raw_data_set_uninitialised:
  assumes "READ16 buf nread = Returned setid" "READ16 buf (nread + 2) = Returned (setlen + 4)" "255 < setid"
    "nread + 4 < nbytes" "setlen \<le> nbytes - (nread + 4)" "hd_version hdr = 10" "e \<in> set (ce_exporters env)" "ex_dset e"
  shows "parse_sets True env hdr nbytes i nread err buf ns log = Undefined ''uninitialised pointer''"
proof -
  have "\<not> is_template_set setid"
    using assms(3) by (simp add: is_template_set_def IPFIX_SETID_TEMPLATE_def IPFIX_SETID_OPTTEMPLATE_def IPFIX_SETID_TEMPLATE_NF9_def
        IPFIX_SETID_OPTTEMPLATE_NF9_def)
  then show ?thesis
    using assms by (subst parse_sets.simps) (auto simp: Let_def IPFIX_VERSION_NF9_def)
qed

text \<open>
  A NetFlow header counts records, and the exporter counts them too, but the collector reads as many
  sets from the connection: two records in one set make it wait for another.
\<close>

lemma nf9_records_counted_as_sets:
  assumes "length set1 = 4 + len" "be_nat (drop 2 (take 4 set1)) = 4 + len" "len \<le> 1000" "length buf = 20"
  shows "read_nf9 2 buf 65480 set1 = Returned (None, [])"
  using assms by (simp add: numeral_2_eq_2 readn_def Let_def TMPBUF_SIZE_def)

text \<open>The space is lowered by the headers only: two long sets leave the buffer.\<close>

lemma nf9_space_overflow:
  assumes "length hdr1 = 4" "length hdr2 = 4" "be_nat (drop 2 hdr1) = 40000" "be_nat (drop 2 hdr2) = 40000"
    "length body1 = 39996" "39996 \<le> length rest" "length buf = 20"
  shows "read_nf9 (Suc (Suc n)) buf 65480 (hdr1 @ body1 @ hdr2 @ rest) = Undefined ''write past the buffer''"
  using assms by (simp add: readn_def Let_def TMPBUF_SIZE_def)

lemma cancel_without_exporters: "ipfix_col_cancel_export c [] = Undefined ''null pointer''"
  by (simp add: ipfix_col_cancel_export_def)

end
