(* ===== verification/IpfixSafe.thy ===== *)
theory IpfixSafe
  imports IpfixRT
begin

text \<open>
  The exporter with any behaviour of the network: whatever the sockets do, an export returns, stays
  within its buffers, and leaves the handles, collectors and templates in a state from which this
  holds again. Collectors use TCP or UDP.
\<close>

section \<open>The invariant\<close>

definition handle_wf :: "ipfix_handle \<Rightarrow> bool" where
  "handle_wf i \<longleftrightarrow> length (ix_buffer i) = IPFIX_DEFAULT_BUFLEN \<and> ix_offset i \<le> IPFIX_DEFAULT_BUFLEN \<and>
     (case ix_cs_header i of None \<Rightarrow> True | Some p \<Rightarrow> p + 4 \<le> ix_offset i \<and> 0 < ix_cs_tid i)"

definition col_wf :: "ipfix_collector \<Rightarrow> bool" where
  "col_wf col \<longleftrightarrow> length (ms_buffer (cl_message col)) = IPFIX_DEFAULT_BUFLEN \<and> ms_offset (cl_message col) \<le> IPFIX_DEFAULT_BUFLEN \<and>
     cl_protocol col \<in> {IPFIX_PROTO_TCP, IPFIX_PROTO_UDP}"

definition templ_wf :: "ipfix_template \<Rightarrow> bool" where
  "templ_wf t \<longleftrightarrow> 0 < te_tid t \<and> te_nscopefields t \<le> te_nfields t \<and> length (templ_fields t) = te_nfields t \<and>
     list_all (\<lambda>f. tf_elem f \<noteq> None) (templ_fields t) \<and>
     10 + length (concat (map spec_bytes (templ_fields t))) \<le> IPFIX_DEFAULT_BUFLEN"

definition exporter_wf :: "ipfix_st \<Rightarrow> bool" where
  "exporter_wf st \<longleftrightarrow>
     (\<forall>h i. gs_ifh st h = Some i \<longrightarrow> handle_wf i \<and> (\<forall>t \<in> set (ix_templates i). gs_templ st t \<noteq> None) \<and>
        (\<forall>c. ix_collectors i = Some c \<longrightarrow> c \<in> set (gs_collectors st))) \<and>
     (\<forall>c col. gs_col st c = Some col \<longrightarrow> col_wf col) \<and> (\<forall>t templ. gs_templ st t = Some templ \<longrightarrow> templ_wf templ) \<and>
     (\<forall>c \<in> set (gs_collectors st). gs_col st c \<noteq> None) \<and> (\<forall>h \<in> set (gs_ipfixlist st). gs_ifh st h \<noteq> None)"

text \<open>
  What calls leave as it is, beside the invariant. A calm call does not touch the buffers of handles.
\<close>

definition links :: "bool \<Rightarrow> ipfix_handle \<Rightarrow> nat option \<times> nat list \<times> nat \<times> nat option" where
  "links calm i = (ix_collectors i, ix_templates i, if calm then ix_offset i else 0, if calm then ix_cs_header i else None)"

definition keeps :: "bool \<Rightarrow> ipfix_st \<Rightarrow> ipfix_st \<Rightarrow> bool" where
  "keeps calm st st' \<longleftrightarrow> exporter_wf st' \<and> gs_collectors st' = gs_collectors st \<and> gs_ipfixlist st' = gs_ipfixlist st \<and>
     (\<forall>h. map_option (links calm) (gs_ifh st' h) = map_option (links calm) (gs_ifh st h)) \<and>
     (\<forall>c. (gs_col st' c = None) = (gs_col st c = None)) \<and>
     (\<forall>t. map_option (te_tsend_update (\<lambda>_. 0)) (gs_templ st' t) = map_option (te_tsend_update (\<lambda>_. 0)) (gs_templ st t)) \<and>
     gs_host st' = gs_host st"

lemma keeps_refl: "exporter_wf st \<Longrightarrow> keeps q st st" by (simp add: keeps_def)

lemma keeps_trans: "keeps q a b \<Longrightarrow> keeps q b c \<Longrightarrow> keeps q a c" by (simp add: keeps_def)

lemma keeps_mono: "keeps True a b \<Longrightarrow> keeps q a b"
proof -
  have "map_option (links q) (gs_ifh b h) = map_option (links q) (gs_ifh a h)"
    if "map_option (links True) (gs_ifh b h) = map_option (links True) (gs_ifh a h)" for h
    using that by (cases "gs_ifh a h"; cases "gs_ifh b h") (auto simp: links_def)
  then show "keeps True a b \<Longrightarrow> ?thesis" by (simp add: keeps_def)
qed

lemma keeps_wf: "keeps q a b \<Longrightarrow> exporter_wf b" by (simp add: keeps_def)

text \<open>Changes of the bookkeeping only.\<close>

lemma keeps_same:
  assumes "exporter_wf st" "gs_ifh st' = gs_ifh st" "gs_col st' = gs_col st" "gs_templ st' = gs_templ st"
    "gs_collectors st' = gs_collectors st" "gs_ipfixlist st' = gs_ipfixlist st" "gs_host st' = gs_host st"
  shows "keeps q st st'"
  using assms by (simp add: keeps_def exporter_wf_def)

lemma keeps_set_ifh:
  assumes "exporter_wf st" "gs_ifh st h = Some i" "handle_wf i'" "links q i' = links q i"
  shows "keeps q st (set_ifh h i' st)"
  using assms by (auto simp: keeps_def exporter_wf_def links_def)

lemma keeps_set_col:
  assumes "exporter_wf st" "gs_col st c = Some col" "col_wf col'"
  shows "keeps q st (set_col c col' st)"
  using assms by (auto simp: keeps_def exporter_wf_def)

lemma templ_wf_tsend [simp]: "templ_wf (t\<lparr>te_tsend := x\<rparr>) = templ_wf t"
  by (simp add: templ_wf_def templ_fields_def)

lemma keeps_set_templ:
  assumes "exporter_wf st" "gs_templ st t = Some templ"
  shows "keeps q st (set_templ t (templ\<lparr>te_tsend := x\<rparr>) st)"
  using assms by (auto simp: keeps_def exporter_wf_def)

lemma keeps_ifh: "keeps q st st' \<Longrightarrow> gs_ifh st h = Some i \<Longrightarrow> \<exists>i'. gs_ifh st' h = Some i' \<and> links q i' = links q i"
  unfolding keeps_def by (metis map_option_eq_Some)

lemma keeps_col: "keeps q st st' \<Longrightarrow> gs_col st c = Some col \<Longrightarrow> \<exists>col'. gs_col st' c = Some col'"
  unfolding keeps_def by (metis not_Some_eq)

lemma keeps_templ:
  assumes "keeps q st st'" "gs_templ st t = Some templ"
  shows "\<exists>x. gs_templ st' t = Some (templ\<lparr>te_tsend := x\<rparr>)"
proof -
  obtain templ' where t: "gs_templ st' t = Some templ'" "templ'\<lparr>te_tsend := 0\<rparr> = templ\<lparr>te_tsend := 0\<rparr>"
    using assms unfolding keeps_def by (metis map_option_eq_Some)
  then have "templ\<lparr>te_tsend := te_tsend templ'\<rparr> = templ'" by (cases templ, cases templ') simp
  with t(1) show ?thesis by metis
qed

text \<open>A call that returns and keeps the invariant.\<close>

definition good :: "bool \<Rightarrow> ipfix_st \<Rightarrow> ('a \<times> ipfix_st) proc \<Rightarrow> bool" where
  "good q st p \<longleftrightarrow> (\<exists>r st'. p = Returned (r, st') \<and> keeps q st st')"

lemma goodI: "keeps q st st' \<Longrightarrow> good q st (Returned (r, st'))" by (simp add: good_def)

lemma good_bind:
  assumes "good q st p" "\<And>r st'. p = Returned (r, st') \<Longrightarrow> keeps q st st' \<Longrightarrow> good q st' (f (r, st'))"
  shows "good q st (proc_bind p f)"
proof -
  obtain r st' where p: "p = Returned (r, st')" "keeps q st st'" using assms(1) by (auto simp: good_def)
  with assms(2) [OF p] show ?thesis by (auto simp: good_def intro: keeps_trans)
qed

lemma good_trans: "keeps q a b \<Longrightarrow> good q b p \<Longrightarrow> good q a p"
  by (auto simp: good_def intro: keeps_trans)

section \<open>Sending\<close>

lemma do_writen_keeps: "exporter_wf st \<Longrightarrow> keeps q st (snd (do_writen env c n ptr st))"
proof (induction env c n ptr st rule: do_writen.induct)
  case (1 env c n ptr st)
  let ?r = "min (ie_write env (gs_io st) (length ptr)) (int (length ptr))"
  let ?st' = "st\<lparr>gs_io := gs_io st + 1, gs_sent := gs_sent st @ [(c, take (nat ?r) ptr)]\<rparr>"
  show ?case
  proof (cases "ptr = [] \<or> ?r \<le> 0")
    case True
    then show ?thesis
      using 1(2) by (subst do_writen.simps) (auto simp: Let_def intro: keeps_refl keeps_same)
  next
    case False
    have k: "keeps q st ?st'" using 1(2) by (rule keeps_same) simp_all
    have "keeps q ?st' (snd (do_writen env c n (drop (nat ?r) ptr) ?st'))"
      using 1(1) [OF _ refl _ keeps_wf [OF k]] False by simp
    with k have "keeps q st (snd (do_writen env c n (drop (nat ?r) ptr) ?st'))" by (rule keeps_trans)
    with False show ?thesis by (subst do_writen.simps) (simp add: Let_def)
  qed
qed

lemma do_writen_result: "do_writen env c n ptr st = (r, st') \<Longrightarrow> exporter_wf st \<Longrightarrow> keeps q st st'"
  using do_writen_keeps [where st = st and env = env and c = c and n = n and ptr = ptr] by simp

lemma send_datagrams_keeps: "send_datagrams env c bs st = (ok, st') \<Longrightarrow> exporter_wf st \<Longrightarrow> keeps q st st'"
  by (auto simp: send_datagrams_def split: prod.splits dest: do_writen_result)

lemma freebuf_keeps: "exporter_wf st \<Longrightarrow> keeps q st (ipfix_freebuf st)"
  by (rule keeps_same) (simp_all add: ipfix_freebuf_def)

lemma getbuf_keeps: "exporter_wf st \<Longrightarrow> ipfix_getbuf st = Some st' \<Longrightarrow> keeps q st st'"
  by (rule keeps_same) (auto simp: ipfix_getbuf_def split: if_splits)

lemma col_wfD: "exporter_wf st \<Longrightarrow> gs_col st c = Some col \<Longrightarrow> col_wf col" by (simp add: exporter_wf_def)

lemma ifh_wfD: "exporter_wf st \<Longrightarrow> gs_ifh st h = Some i \<Longrightarrow> handle_wf i" by (simp add: exporter_wf_def)

lemma templ_wfD: "exporter_wf st \<Longrightarrow> gs_templ st t = Some templ \<Longrightarrow> templ_wf templ" by (simp add: exporter_wf_def)

lemma col_change_keeps:
  assumes "exporter_wf st" "\<And>col. gs_col st c = Some col \<Longrightarrow> col_wf col \<Longrightarrow> col_wf (f col)"
  shows "keeps q st (case gs_col st c of None \<Rightarrow> st | Some col \<Rightarrow> set_col c (f col) st)"
  using assms keeps_set_col [OF assms(1)] col_wfD [OF assms(1)] by (auto intro: keeps_refl split: option.splits)

lemma disconnect_keeps: "exporter_wf st \<Longrightarrow> keeps q st (ipfix_disconnect c st)"
  unfolding ipfix_disconnect_def by (rule col_change_keeps) (simp_all add: col_wf_def)

lemma clear_message_keeps: "exporter_wf st \<Longrightarrow> keeps q st (clear_message c st)"
  unfolding clear_message_def by (rule col_change_keeps) (simp_all add: col_wf_def)

lemma touch_keeps: "exporter_wf st \<Longrightarrow> keeps q st (touch_collector env c st)"
  unfolding touch_collector_def by (rule col_change_keeps) (simp_all add: col_wf_def)

lemma length_write_header: "length (fst (write_header env st n len i)) \<le> IPFIX_HDR_BYTES_NF9"
  by (simp add: write_header_def Let_def IPFIX_HDR_BYTES_NF9_def)

lemma write_header_wf: "write_header env st n len i = (hdr, i') \<Longrightarrow> handle_wf i' = handle_wf i \<and> links q i' = links q i"
  by (auto simp: write_header_def Let_def handle_wf_def links_def split: if_splits option.splits)

lemma send_message_good:
  assumes wf: "exporter_wf st" and i: "gs_ifh st h = Some i" and c: "gs_col st c = Some col"
  shows "good q st (ipfix_send_message env h c st)"
proof (cases "cl_fd col < 0 \<or> ipfix_getbuf st = None")
  case True
  then have "ipfix_send_message env h c st = Returned (-1, st)"
    using i c by (auto simp: ipfix_send_message_def get_ifh_def get_col_def)
  then show ?thesis by (simp add: goodI [OF keeps_refl [OF wf]])
next
  case False
  then obtain st1 where st1: "ipfix_getbuf st = Some st1" "\<not> cl_fd col < 0" by auto
  have k1: "keeps q st st1" using getbuf_keeps [OF wf st1(1)] .
  have ic: "gs_ifh st1 h = Some i" "gs_col st1 c = Some col" using st1(1) i c by (auto simp: ipfix_getbuf_def split: if_splits)
  obtain hdr i' where h: "ipfix_write_msghdr env st1 (cl_message col) i = (hdr, i')" by fastforce
  define m where "m = cl_message col"
  have cw: "col_wf col" using col_wfD [OF wf c] .
  have lh: "length hdr \<le> IPFIX_HDR_BYTES_NF9"
    using length_write_header [of env st1 "ms_nrecords m" "ms_offset m" i] h by (simp add: ipfix_write_msghdr_def m_def)
  obtain buf where b: "copy_to_iobuf hdr (take (ms_offset m) (ms_buffer m)) = Returned buf"
    using lh cw by (simp add: copy_to_iobuf_def col_wf_def m_def IPFIX_HDR_BYTES_NF9_def)
  define st2 where "st2 = set_ifh h i' st1"
  have k2: "keeps q st st2"
    using keeps_trans [OF k1 keeps_set_ifh [OF keeps_wf [OF k1] ic(1)]] write_header_wf [of env st1 "ms_nrecords m" "ms_offset m" i hdr i']
      ifh_wfD [OF wf i] h by (simp add: st2_def ipfix_write_msghdr_def m_def)
  have c2: "gs_col st2 c = Some col" by (simp add: st2_def ic)
  define col' where "col' = col\<lparr>cl_message := m\<lparr>ms_nrecords := 0, ms_offset := 0\<rparr>, cl_lastaccess := ie_now env\<rparr>"
  have cw': "col_wf col'" using cw by (simp add: col'_def col_wf_def m_def)
  have done_ok: "keeps q st (ipfix_freebuf (set_col c col' st3))" if "keeps q st2 st3" for st3
  proof -
    note k = that
    obtain col3 where "gs_col st3 c = Some col3" using keeps_col [OF k c2] by blast
    then have "keeps q st3 (set_col c col' st3)" using keeps_set_col keeps_wf [OF k] cw' by blast
    then show ?thesis using keeps_trans [OF k2 keeps_trans [OF k]] freebuf_keeps keeps_wf keeps_trans by blast
  qed
  have fail_ok: "keeps q st (ipfix_freebuf st3)" if "keeps q st2 st3" for st3
    using keeps_trans [OF k2 that] freebuf_keeps keeps_wf keeps_trans by blast
  have p: "cl_protocol col = IPFIX_PROTO_TCP \<or> cl_protocol col = IPFIX_PROTO_UDP" using cw by (auto simp: col_wf_def)
  obtain r st3 where w: "do_writen env c (length buf) buf st2 = (r, st3)" by fastforce
  obtain ok st4 where d: "send_datagrams env c buf st2 = (ok, st4)" by fastforce
  have k3: "keeps q st2 st3" "keeps q st2 st4" using do_writen_result [OF w keeps_wf [OF k2]] send_datagrams_keeps [OF d keeps_wf [OF k2]] .
  have k3': "keeps q st2 (if gs_reset st3 then ipfix_disconnect c st3 else st3)"
    using k3(1) disconnect_keeps [OF keeps_wf [OF k3(1)]] keeps_trans by auto
  show ?thesis
    using p
  proof
    assume "cl_protocol col = IPFIX_PROTO_TCP"
    then have "ipfix_send_message env h c st = (if r \<noteq> int (length buf) then
        Returned (-1, ipfix_freebuf (if gs_reset st3 then ipfix_disconnect c st3 else st3)) else Returned (0, ipfix_freebuf (set_col c col' st3)))"
      using i c st1 h b w by (simp add: ipfix_send_message_def get_ifh_def get_col_def m_def st2_def col'_def Let_def)
    then show ?thesis using done_ok [OF k3(1)] fail_ok [OF k3'] by (auto intro: goodI)
  next
    assume "cl_protocol col = IPFIX_PROTO_UDP"
    then have "ipfix_send_message env h c st = (if ok then Returned (0, ipfix_freebuf (set_col c col' st4)) else Returned (-1, ipfix_freebuf st4))"
      using i c st1 h b d by (simp add: ipfix_send_message_def get_ifh_def get_col_def m_def st2_def col'_def Let_def)
    then show ?thesis using done_ok [OF k3(2)] fail_ok [OF k3(2)] by (auto intro: goodI)
  qed
qed

text \<open>What is needed of a state survives the calls.\<close>

definition here :: "nat \<Rightarrow> nat \<Rightarrow> nat list \<Rightarrow> ipfix_st \<Rightarrow> bool" where
  "here h c ts st \<longleftrightarrow> exporter_wf st \<and> gs_ifh st h \<noteq> None \<and> gs_col st c \<noteq> None \<and> (\<forall>t \<in> set ts. gs_templ st t \<noteq> None)"

lemma keeps_here: "keeps q a b \<Longrightarrow> here h c ts a \<Longrightarrow> here h c ts b"
  unfolding here_def by (metis keeps_wf keeps_ifh keeps_col keeps_templ option.exhaust option.distinct(1))

lemma send_message_here: "here h c ts st \<Longrightarrow> good q st (ipfix_send_message env h c st)"
  using send_message_good by (auto simp: here_def)

lemma message_offset_clear [simp]: "message_offset c (clear_message c st) = 0"
  by (auto simp: message_offset_def clear_message_def split: option.splits)

lemma tcp_room_good:
  assumes "here h c ts st" "tsize \<le> IPFIX_DEFAULT_BUFLEN"
  shows "\<exists>r st'. tcp_room env h c tsize st = Some (Returned (r, st')) \<and> keeps q st st' \<and>
    (0 \<le> r \<longrightarrow> message_offset c st' + tsize \<le> IPFIX_DEFAULT_BUFLEN)"
proof (cases "message_offset c st + tsize \<le> IPFIX_DEFAULT_BUFLEN")
  case True
  then show ?thesis using assms(1) by (auto simp: tcp_room.simps [of env h c tsize st] here_def intro: keeps_refl)
next
  case False
  obtain r st1 where s: "ipfix_send_message env h c st = Returned (r, st1)" "keeps q st st1"
    using send_message_here [OF assms(1), of q env] unfolding good_def by blast
  have "keeps q st (clear_message c st1)"
    using keeps_trans [OF s(2) clear_message_keeps [OF keeps_wf [OF s(2)]]] .
  moreover have "tcp_room env h c tsize (clear_message c st1) = Some (Returned (0, clear_message c st1))"
    using assms(2) by (simp add: tcp_room.simps [of env h c tsize "clear_message c st1"])
  ultimately show ?thesis
    using False s assms(2) by (auto simp: tcp_room.simps [of env h c tsize st])
qed

section \<open>Templates\<close>

lemma length_template_bytes:
  "length (template_bytes v t tsize ssize osize) =
    (if te_type t = OPTION_TEMPLATE then 10 else 8) + length (concat (map spec_bytes (templ_fields t)))"
  by (simp add: template_bytes_def templ_fields_def Let_def)

lemma templ_sizes:
  assumes "templ_wf t"
  shows "\<exists>ssize osize size. specs_length (take (te_nscopefields t) (te_fields t)) = Returned ssize \<and>
    specs_length (drop (te_nscopefields t) (take (te_nfields t) (te_fields t))) = Returned osize \<and>
    specs_length (take (te_nfields t) (te_fields t)) = Returned size \<and> ssize + osize = size \<and>
    size = length (concat (map spec_bytes (templ_fields t)))"
proof -
  let ?fs = "take (te_nfields t) (te_fields t)"
  have ok: "list_all (\<lambda>f. tf_elem f \<noteq> None) ?fs" and n: "te_nscopefields t \<le> te_nfields t"
    using assms by (simp_all add: templ_wf_def templ_fields_def)
  have tk: "take (te_nscopefields t) (te_fields t) = take (te_nscopefields t) ?fs" using n by (simp add: min_absorb1)
  have "list_all (\<lambda>f. tf_elem f \<noteq> None) (take (te_nscopefields t) ?fs)" "list_all (\<lambda>f. tf_elem f \<noteq> None) (drop (te_nscopefields t) ?fs)"
    using ok by (metis append_take_drop_id list_all_append)+
  then show ?thesis
    using ok specs_length_bytes unfolding tk templ_fields_def
    by (metis append_take_drop_id concat_append length_append map_append)
qed

text \<open>A template is moved in front of what a UDP handle has in its buffer.\<close>

lemma handle_wf_insert:
  assumes "handle_wf i" "length bytes + ix_offset i \<le> IPFIX_DEFAULT_BUFLEN"
  shows "\<exists>moved buf. put_at (length bytes) (take (ix_offset i) (ix_buffer i)) (ix_buffer i) = Returned moved \<and>
    put_at 0 bytes (if ix_offset i > 0 then moved else ix_buffer i) = Returned buf \<and> length buf = IPFIX_DEFAULT_BUFLEN"
proof -
  have l: "length (ix_buffer i) = IPFIX_DEFAULT_BUFLEN" "ix_offset i \<le> IPFIX_DEFAULT_BUFLEN"
    using assms(1) by (simp_all add: handle_wf_def)
  obtain moved where m: "put_at (length bytes) (take (ix_offset i) (ix_buffer i)) (ix_buffer i) = Returned moved"
    "length moved = IPFIX_DEFAULT_BUFLEN"
    using put_at_append [of "length bytes" "ix_buffer i" _ "take (ix_offset i) (ix_buffer i)"] assms(2) l by auto
  define b where "b = (if ix_offset i > 0 then moved else ix_buffer i)"
  have b: "length b = IPFIX_DEFAULT_BUFLEN" using m l by (simp add: b_def)
  then obtain buf where "put_at 0 bytes b = Returned buf" "length buf = length b"
    using put_at_append [of 0 b "[]" bytes] assms(2) by auto
  then show ?thesis using m b unfolding b_def by auto
qed

lemma keeps_sent:
  assumes "keeps q st st'" "gs_templ st t = Some templ"
  shows "keeps q st (set_templ t (templ\<lparr>te_tsend := x\<rparr>) st')"
proof -
  obtain y where y: "gs_templ st' t = Some (templ\<lparr>te_tsend := y\<rparr>)" using keeps_templ [OF assms] ..
  have "keeps q st' (set_templ t (templ\<lparr>te_tsend := y, te_tsend := x\<rparr>) st')"
    using keeps_set_templ [OF keeps_wf [OF assms(1)] y] .
  then have "keeps q st' (set_templ t (templ\<lparr>te_tsend := x\<rparr>) st')" by simp
  with assms(1) show ?thesis by (rule keeps_trans)
qed

lemma write_template_tcp_good:
  assumes h: "here h c [t] st" and p: "\<And>col. gs_col st c = Some col \<Longrightarrow> cl_protocol col = IPFIX_PROTO_TCP"
  shows "good q st (ipfix_write_template_with flush env h c t st)"
proof -
  have wf: "exporter_wf st" using h by (simp add: here_def)
  obtain i col templ where s: "gs_ifh st h = Some i" "gs_col st c = Some col" "gs_templ st t = Some templ"
    using h by (auto simp: here_def)
  obtain ss os size where sz: "specs_length (take (te_nscopefields templ) (te_fields templ)) = Returned ss"
    "specs_length (drop (te_nscopefields templ) (take (te_nfields templ) (te_fields templ))) = Returned os"
    "specs_length (take (te_nfields templ) (te_fields templ)) = Returned size" "ss + os = size"
    "size = length (concat (map spec_bytes (templ_fields templ)))"
    using templ_sizes [OF templ_wfD [OF wf s(3)]] by blast
  define tsize where "tsize = (if te_type templ = OPTION_TEMPLATE then 10 + os + ss else 8 + size)"
  define bytes where "bytes = template_bytes (ix_version i) templ tsize ss os"
  have len: "length bytes = tsize" "tsize \<le> IPFIX_DEFAULT_BUFLEN"
    using sz(4,5) templ_wfD [OF wf s(3)] by (auto simp: bytes_def tsize_def length_template_bytes templ_wf_def)
  obtain r st1 where room: "tcp_room env h c tsize st = Some (Returned (r, st1))" "keeps q st st1"
    "0 \<le> r \<longrightarrow> message_offset c st1 + tsize \<le> IPFIX_DEFAULT_BUFLEN"
    using tcp_room_good [OF h len(2), of env q] by blast
  obtain i1 where i1: "gs_ifh st1 h = Some i1" using keeps_ifh [OF room(2) s(1)] by blast
  obtain col1 where c1: "gs_col st1 c = Some col1" using keeps_col [OF room(2) s(2)] by blast
  define m where "m = cl_message col1"
  have cw: "length (ms_buffer m) = IPFIX_DEFAULT_BUFLEN" "cl_protocol col1 \<in> {IPFIX_PROTO_TCP, IPFIX_PROTO_UDP}"
    using col_wfD [OF keeps_wf [OF room(2)] c1] by (simp_all add: col_wf_def m_def)
  show ?thesis
  proof (cases "r < 0 \<or> tsize + ix_offset i1 > IPFIX_DEFAULT_BUFLEN")
    case True
    then have "ipfix_write_template_with flush env h c t st = Returned (-1, st1)"
      using s p [OF s(2)] sz(1-3) room(1) i1 c1 unfolding ipfix_write_template_with_def
      by (auto simp: get_ifh_def get_col_def get_templ_def Let_def tsize_def [symmetric])
    then show ?thesis using room(2) by (simp add: goodI)
  next
    case False
    then have fit: "ms_offset m + length bytes \<le> IPFIX_DEFAULT_BUFLEN"
      using room(3) c1 len(1) by (simp add: message_offset_def m_def)
    obtain buf where buf: "put_at (ms_offset m) bytes (ms_buffer m) = Returned buf" "length buf = IPFIX_DEFAULT_BUFLEN"
      using put_at_append [of "ms_offset m" "ms_buffer m" _ bytes] fit cw(1) by auto
    define col' where "col' = col1\<lparr>cl_message := \<lparr>ms_buffer = buf, ms_nrecords = ms_nrecords m +
      (if ix_version i = IPFIX_VERSION_NF9 then 1 else 0), ms_offset = ms_offset m + length bytes\<rparr>\<rparr>"
    have "col_wf col'" using cw(2) buf(2) fit by (auto simp: col'_def col_wf_def)
    then have k: "keeps q st (set_col c col' st1)"
      using keeps_trans [OF room(2) keeps_set_col [OF keeps_wf [OF room(2)] c1]] by blast
    have "ipfix_write_template_with flush env h c t st = Returned (0, set_templ t (templ\<lparr>te_tsend := ie_now env\<rparr>) (set_col c col' st1))"
      using s p [OF s(2)] sz(1-3) room(1) i1 c1 False buf(1) unfolding ipfix_write_template_with_def
      by (simp add: get_ifh_def get_col_def get_templ_def Let_def tsize_def [symmetric] bytes_def [symmetric] m_def [symmetric] col'_def)
    then show ?thesis using keeps_sent [OF k s(3)] by (simp add: goodI)
  qed
qed

lemma write_template_udp_good:
  assumes h: "here h c [t] st" and p: "\<And>col. gs_col st c = Some col \<Longrightarrow> cl_protocol col = IPFIX_PROTO_UDP"
    and flush: "good False st (flush h st)"
  shows "good False st (ipfix_write_template_with flush env h c t st)"
proof -
  have wf: "exporter_wf st" using h by (simp add: here_def)
  obtain i col templ where s: "gs_ifh st h = Some i" "gs_col st c = Some col" "gs_templ st t = Some templ"
    using h by (auto simp: here_def)
  obtain ss os size where sz: "specs_length (take (te_nscopefields templ) (te_fields templ)) = Returned ss"
    "specs_length (drop (te_nscopefields templ) (take (te_nfields templ) (te_fields templ))) = Returned os"
    "specs_length (take (te_nfields templ) (te_fields templ)) = Returned size" "ss + os = size"
    "size = length (concat (map spec_bytes (templ_fields templ)))"
    using templ_sizes [OF templ_wfD [OF wf s(3)]] by blast
  define tsize where "tsize = (if te_type templ = OPTION_TEMPLATE then 10 + os + ss else 8 + size)"
  define bytes where "bytes = template_bytes (ix_version i) templ tsize ss os"
  have len: "length bytes = tsize"
    using sz(4,5) by (auto simp: bytes_def tsize_def length_template_bytes)
  obtain r st1 where f: "(if tsize + ix_offset i > IPFIX_DEFAULT_BUFLEN then flush h st else Returned (0, st)) = Returned (r, st1)"
    "keeps False st st1"
    using flush keeps_refl [OF wf] by (cases "tsize + ix_offset i > IPFIX_DEFAULT_BUFLEN") (auto simp: good_def)
  obtain i1 where i1: "gs_ifh st1 h = Some i1" using keeps_ifh [OF f(2) s(1)] by blast
  have hw: "handle_wf i1" using ifh_wfD [OF keeps_wf [OF f(2)] i1] .
  show ?thesis
  proof (cases "r < 0 \<or> tsize + ix_offset i1 > IPFIX_DEFAULT_BUFLEN")
    case True
    then have "ipfix_write_template_with flush env h c t st = Returned (-1, st1)"
      using s p [OF s(2)] sz(1-3) f(1) i1 unfolding ipfix_write_template_with_def
      by (auto simp: get_ifh_def get_col_def get_templ_def Let_def tsize_def [symmetric])
    then show ?thesis using f(2) by (simp add: goodI)
  next
    case False
    obtain moved buf where buf: "put_at tsize (take (ix_offset i1) (ix_buffer i1)) (ix_buffer i1) = Returned moved"
      "put_at 0 bytes (if ix_offset i1 > 0 then moved else ix_buffer i1) = Returned buf" "length buf = IPFIX_DEFAULT_BUFLEN"
      using handle_wf_insert [OF hw, of bytes] False len by auto
    define i2 where "i2 = (if ix_offset i1 > 0 then
        i1\<lparr>ix_buffer := moved,
          ix_cs_header := (if ix_cs_tid i1 \<noteq> 0 then map_option (\<lambda>p. p + tsize) (ix_cs_header i1) else ix_cs_header i1)\<rparr>
      else i1)"
    define i3 where "i3 = i2\<lparr>ix_buffer := buf, ix_offset := ix_offset i2 + length bytes,
      ix_nrecords := ix_nrecords i2 + (if ix_version i = IPFIX_VERSION_NF9 then 1 else 0)\<rparr>"
    have b2: "ix_buffer i2 = (if ix_offset i1 > 0 then moved else ix_buffer i1)" by (simp add: i2_def)
    have w3: "handle_wf i3" "links False i3 = links False i1"
      using hw False buf(3) len by (auto simp: i3_def i2_def handle_wf_def links_def split: option.splits)
    have k: "keeps False st (set_ifh h i3 st1)"
      using keeps_trans [OF f(2) keeps_set_ifh [OF keeps_wf [OF f(2)] i1 w3]] .
    have "ipfix_write_template_with flush env h c t st = Returned (0, set_templ t (templ\<lparr>te_tsend := ie_now env\<rparr>) (set_ifh h i3 st1))"
      using s p [OF s(2)] sz(1-3) f(1) i1 False buf(1,2) unfolding ipfix_write_template_with_def
      by (simp only: get_ifh_def get_col_def get_templ_def Let_def tsize_def [symmetric] bytes_def [symmetric] proc_bind.simps
          option.case ipfix_proto.case if_False simp_thms linorder_not_less case_prod_conv i2_def [symmetric] b2 i3_def not_le)
        simp
    then show ?thesis using keeps_sent [OF k s(3)] by (simp add: goodI)
  qed
qed

section \<open>Connecting and sending\<close>

lemma col_protocol: "exporter_wf st \<Longrightarrow> gs_col st c = Some col \<Longrightarrow> cl_protocol col = IPFIX_PROTO_TCP \<or> cl_protocol col = IPFIX_PROTO_UDP"
  using col_wfD by (auto simp: col_wf_def)

lemma keeps_ifh_source:
  assumes "exporter_wf st" "gs_ifh st h = Some i"
  shows "keeps q st (set_ifh h (i\<lparr>ix_sourceid := x\<rparr>) st)"
proof (rule keeps_set_ifh [OF assms])
  show "handle_wf (i\<lparr>ix_sourceid := x\<rparr>)"
    using ifh_wfD [OF assms] by (cases "ix_cs_header i") (simp_all add: handle_wf_def)
qed (simp add: links_def)

lemma resend_templates_good: "here h c ts st \<Longrightarrow> good q st (resend_templates env h c ts st)"
proof (induction ts arbitrary: st)
  case Nil
  then show ?case by (simp add: here_def goodI keeps_refl)
next
  case (Cons t ts)
  have wf: "exporter_wf st" using Cons.prems by (simp add: here_def)
  obtain i col templ where s: "gs_ifh st h = Some i" "gs_col st c = Some col" "gs_templ st t = Some templ"
    using Cons.prems by (auto simp: here_def)
  have rest: "good q st' (resend_templates env h c ts st')" if "keeps q st st'" for st'
    using keeps_here [OF that Cons.prems] by (intro Cons.IH) (simp add: here_def)
  show ?case
  proof (cases "cl_protocol col = IPFIX_PROTO_UDP")
    case True
    have k: "keeps q st (set_templ t (templ\<lparr>te_tsend := 0\<rparr>) st)" using keeps_set_templ [OF wf s(3)] .
    from True show ?thesis
      using good_trans [OF k rest [OF k]] s by (simp add: get_col_def get_templ_def)
  next
    case False
    then have p: "cl_protocol col = IPFIX_PROTO_TCP" using col_protocol [OF wf s(2)] by simp
    have w: "good q st (ipfix_write_template_with (\<lambda>h st. Returned (0, st)) env h c t st)"
      using Cons.prems s p by (intro write_template_tcp_good) (auto simp: here_def)
    have step: "good q st1 (if r < 0 then Returned (-1, st1) else proc_bind (get_ifh h st1) (\<lambda>i.
        let st = (if te_odid templ \<noteq> 0 then set_ifh h (i\<lparr>ix_sourceid := te_odid templ\<rparr>) st1 else st1) in
        proc_bind (ipfix_send_message env h c st) (\<lambda>(r, st).
        if r < 0 then Returned (-1, st) else resend_templates env h c ts st)))" if k: "keeps q st st1" for r st1
    proof -
      have h1: "here h c (t # ts) st1" using keeps_here [OF k Cons.prems] .
      then obtain i1 where i1: "gs_ifh st1 h = Some i1" by (auto simp: here_def)
      define st2 where "st2 = (if te_odid templ \<noteq> 0 then set_ifh h (i1\<lparr>ix_sourceid := te_odid templ\<rparr>) st1 else st1)"
      have k2: "keeps q st1 st2"
        using keeps_ifh_source [OF keeps_wf [OF k] i1] keeps_refl [OF keeps_wf [OF k]] by (simp add: st2_def)
      have "good q st1 (proc_bind (ipfix_send_message env h c st2) (\<lambda>(r, st).
          if r < 0 then Returned (-1, st) else resend_templates env h c ts st))"
      proof (rule good_trans [OF k2 good_bind [OF send_message_here [OF keeps_here [OF k2 h1]]]])
        fix r' st3
        assume k3: "keeps q st2 st3"
        then show "good q st3 (case (r', st3) of (r, st) \<Rightarrow> if r < 0 then Returned (-1, st) else resend_templates env h c ts st)"
          using rest [OF keeps_trans [OF keeps_trans [OF k k2] k3]] keeps_refl [OF keeps_wf [OF k3]] by (simp add: goodI)
      qed
      then show ?thesis
        using keeps_refl [OF keeps_wf [OF k], of q] i1 by (cases "r < 0") (simp_all add: goodI get_ifh_def st2_def [symmetric] Let_def)
    qed
    have eq: "resend_templates env h c (t # ts) st = proc_bind (ipfix_write_template_with (\<lambda>h st. Returned (0, st)) env h c t st)
        (\<lambda>(r, st). if r < 0 then Returned (-1, st) else proc_bind (get_ifh h st) (\<lambda>i.
        let st = (if te_odid templ \<noteq> 0 then set_ifh h (i\<lparr>ix_sourceid := te_odid templ\<rparr>) st else st) in
        proc_bind (ipfix_send_message env h c st) (\<lambda>(r, st).
        if r < 0 then Returned (-1, st) else resend_templates env h c ts st)))"
      using s p by (simp add: get_col_def get_templ_def)
    show ?thesis unfolding eq by (rule good_bind [OF w]) (simp only: prod.case step)
  qed
qed

lemma pending_good:
  assumes "here h c ts st"
  shows "good q st (if message_offset c st > 0 then ipfix_send_message env h c st else Returned (0, st))"
  using send_message_here [OF assms] assms by (auto simp: here_def intro: goodI keeps_refl)

lemma resend_handles_good:
  "here h c [] st \<Longrightarrow> \<forall>h \<in> set hs. gs_ifh st h \<noteq> None \<Longrightarrow> good q st (resend_handles env c hs st)"
proof (induction hs arbitrary: h st)
  case Nil
  then show ?case by (simp add: here_def goodI keeps_refl)
next
  case (Cons h' hs)
  have wf: "exporter_wf st" using Cons.prems by (simp add: here_def)
  obtain i where i: "gs_ifh st h' = Some i" using Cons.prems(2) by auto
  have h': "here h' c (ix_templates i) st" using Cons.prems i wf by (auto simp: here_def exporter_wf_def)
  have rest: "good q st' (resend_handles env c hs st')" if "keeps q st st'" for st'
    using keeps_here [OF that Cons.prems(1)] keeps_ifh [OF that] Cons.prems(2)
    by (intro Cons.IH) (auto, metis option.distinct(1) option.exhaust)
  let ?p = "if c \<in> set (chain (ix_collectors i) st) then resend_templates env h' c (ix_templates i) st else Returned (0, st)"
  have 1: "good q st ?p" using resend_templates_good [OF h'] keeps_refl [OF wf] by (simp add: goodI)
  have 2: "good q st1 (if r < 0 then Returned (-1, st1) else
      proc_bind (if message_offset c st1 > 0 then ipfix_send_message env h' c st1 else Returned (0, st1)) (\<lambda>(r, st).
      if r < 0 then Returned (-1, st) else resend_handles env c hs st))" if k: "keeps q st st1" for r st1
  proof (cases "r < 0")
    case True
    then show ?thesis using keeps_refl [OF keeps_wf [OF k]] by (simp add: goodI)
  next
    case False
    have "good q st2 (if r < 0 then Returned (-1, st2) else resend_handles env c hs st2)" if k2: "keeps q st1 st2" for r st2
      using rest [OF keeps_trans [OF k k2]] keeps_refl [OF keeps_wf [OF k2]] by (simp add: goodI)
    then show ?thesis
      unfolding if_not_P [OF False] by (intro good_bind [OF pending_good [OF keeps_here [OF k h']]]) (simp only: prod.case)
  qed
  have eq: "resend_handles env c (h' # hs) st = proc_bind ?p (\<lambda>(r, st).
     if r < 0 then Returned (-1, st)
     else proc_bind (if message_offset c st > 0 then ipfix_send_message env h' c st else Returned (0, st)) (\<lambda>(r, st).
       if r < 0 then Returned (-1, st) else resend_handles env c hs st))"
    using i by (simp add: get_ifh_def)
  show ?case unfolding eq by (rule good_bind [OF 1]) (simp only: prod.case 2)
qed

lemma keeps_io: "exporter_wf st \<Longrightarrow> keeps q st (st\<lparr>gs_io := n\<rparr>)"
  by (rule keeps_same) simp_all

lemma connect_good:
  assumes "here h c ts st"
  shows "good q st (ipfix_connect env c st)"
proof -
  have wf: "exporter_wf st" using assms by (simp add: here_def)
  obtain col where c: "gs_col st c = Some col" using assms by (auto simp: here_def)
  have p: "cl_protocol col = IPFIX_PROTO_TCP \<or> cl_protocol col = IPFIX_PROTO_UDP" using col_protocol [OF wf c] .
  show ?thesis
  proof (cases "0 \<le> cl_fd col")
    case True
    then have "ipfix_connect env c st = Returned (0, st)" using c p by (auto simp: ipfix_connect_def get_col_def)
    then show ?thesis using wf by (simp add: goodI keeps_refl)
  next
    case False
    show ?thesis
    proof (cases "ie_connect env (gs_io st) (cl_chost col) (cl_cport col)")
      case None
      then have "ipfix_connect env c st = Returned (-1, st\<lparr>gs_io := gs_io st + 1\<rparr>)"
        using c p False by (auto simp: ipfix_connect_def get_col_def)
      then show ?thesis using keeps_io [OF wf] by (simp add: goodI)
    next
      case (Some fd)
      define st1 where "st1 = st\<lparr>gs_io := gs_io st + 1\<rparr>"
      define st2 where "st2 = set_col c (col\<lparr>cl_fd := int fd, cl_lastaccess := ie_now env\<rparr>) st1"
      have k1: "keeps q st st1" unfolding st1_def by (rule keeps_io [OF wf])
      have c1: "gs_col st1 c = Some col" using c by (simp add: st1_def)
      have "col_wf (col\<lparr>cl_fd := int fd, cl_lastaccess := ie_now env\<rparr>)" using col_wfD [OF wf c] by (simp add: col_wf_def)
      then have k2: "keeps q st st2" unfolding st2_def using keeps_trans [OF k1 keeps_set_col [OF keeps_wf [OF k1] c1]] by blast
      have "ipfix_connect env c st = resend_handles env c (gs_ipfixlist st) st2"
        using c p False Some by (auto simp: ipfix_connect_def get_col_def st2_def st1_def)
      moreover have "\<forall>h \<in> set (gs_ipfixlist st). gs_ifh st2 h \<noteq> None"
        using wf by (simp add: exporter_wf_def st2_def st1_def)
      ultimately show ?thesis
        using good_trans [OF k2 resend_handles_good [OF _, of h c st2]] keeps_here [OF k2 assms] by (simp add: here_def)
    qed
  qed
qed

lemma send_attempts_good: "here h c ts st \<Longrightarrow> good q st (send_attempts env n c buf st)"
proof (induction n arbitrary: st)
  case 0
  then show ?case by (simp add: here_def goodI keeps_refl)
next
  case (Suc n)
  have wf: "exporter_wf st" using Suc.prems by (simp add: here_def)
  obtain r st1 where w: "do_writen env c (length buf) buf st = (r, st1)" by fastforce
  have k: "keeps q st st1" using do_writen_result [OF w wf] .
  have kd: "keeps q st (ipfix_disconnect c st1)" using keeps_trans [OF k disconnect_keeps [OF keeps_wf [OF k]]] .
  have rest: "good q st2 (if r < 0 then Returned (Some (-1), st2) else send_attempts env n c buf st2)"
    if k2: "keeps q (ipfix_disconnect c st1) st2" for r st2
    using Suc.IH [OF keeps_here [OF keeps_trans [OF kd k2] Suc.prems]] keeps_refl [OF keeps_wf [OF k2]] by (simp add: goodI)
  have "good q st (proc_bind (ipfix_connect env c (ipfix_disconnect c st1)) (\<lambda>(r, st).
      if r < 0 then Returned (Some (-1), st) else send_attempts env n c buf st))"
    by (rule good_trans [OF kd good_bind [OF connect_good [OF keeps_here [OF kd Suc.prems]]]]) (simp only: prod.case rest)
  then show ?case using k by (simp add: w goodI)
qed

lemma send_msg_good:
  assumes "here h c ts st"
  shows "good q st (ipfix_send_msg env h c buf st)"
proof -
  let ?tail = "\<lambda>st. proc_bind (get_col c st) (\<lambda>col.
      (case cl_protocol col of
         IPFIX_PROTO_TCP \<Rightarrow> proc_bind (send_attempts env 2 c buf st) (\<lambda>(r, st).
           (case r of Some r \<Rightarrow> if r < 0 then Returned (-1 :: int, st) else Returned (0, touch_collector env c st)
            | None \<Rightarrow> Returned (-1, touch_collector env c st)))
       | IPFIX_PROTO_UDP \<Rightarrow>
           (case send_datagrams env c buf st of (ok, st) \<Rightarrow> if ok then Returned (0, touch_collector env c st) else Returned (-1, st))
       | _ \<Rightarrow> Returned (-1, st)))"
  have sent: "good q st (?tail st)" if h: "here h c ts st" for st
  proof -
    have wf: "exporter_wf st" using h by (simp add: here_def)
    obtain col where c: "gs_col st c = Some col" using h by (auto simp: here_def)
    have touch: "good q st' (Returned (x, touch_collector env c st'))" if "keeps q st st'" for x :: int and st'
      using touch_keeps [OF keeps_wf [OF that]] by (rule goodI)
    have stay: "good q st' (Returned (x, st'))" if "keeps q st st'" for x :: int and st'
      using keeps_refl [OF keeps_wf [OF that]] by (rule goodI)
    obtain ok st1 where d: "send_datagrams env c buf st = (ok, st1)" by fastforce
    have k1: "keeps q st st1" using send_datagrams_keeps [OF d wf] .
    have tcp: "good q st (proc_bind (send_attempts env 2 c buf st) (\<lambda>(r, st).
         (case r of Some r \<Rightarrow> if r < 0 then Returned (-1 :: int, st) else Returned (0, touch_collector env c st)
          | None \<Rightarrow> Returned (-1, touch_collector env c st))))"
      by (intro good_bind [OF send_attempts_good [OF h]]) (auto intro: touch stay split: option.split)
    from col_protocol [OF wf c] show ?thesis
      using tcp good_trans [OF k1 touch [OF k1]] good_trans [OF k1 stay [OF k1]]
      by (elim disjE) (simp_all add: c get_col_def d)
  qed
  have wf: "exporter_wf st" using assms by (simp add: here_def)
  have 2: "good q st1 (if r < 0 then Returned (-1, st1) else ?tail st1)" if "keeps q st st1" for r st1
    using sent [OF keeps_here [OF that assms]] keeps_refl [OF keeps_wf [OF that]] by (simp add: goodI)
  have 1: "good q st1 (if r < 0 then Returned (-1, st1) else
      proc_bind (if message_offset c st1 > 0 then ipfix_send_message env h c st1 else Returned (0, st1)) (\<lambda>(r, st1).
      if r < 0 then Returned (-1, st1) else ?tail st1))" if k: "keeps q st st1" for r st1
  proof (cases "r < 0")
    case True
    then show ?thesis using keeps_refl [OF keeps_wf [OF k]] by (simp add: goodI)
  next
    case False
    show ?thesis
      unfolding if_not_P [OF False]
      by (rule good_bind [OF pending_good [OF keeps_here [OF k assms]]]) (simp only: prod.case 2 [OF keeps_trans [OF k]])
  qed
  show ?thesis
    unfolding ipfix_send_msg_def by (rule good_bind [OF connect_good [OF assms]]) (simp only: prod.case 1)
qed

section \<open>Flushing\<close>

lemma finish_cs_wf:
  assumes "handle_wf i"
  shows "\<exists>i'. finish_cs i = Returned i' \<and> handle_wf i' \<and> links False i' = links False i \<and> ix_offset i' = ix_offset i \<and> ix_cs_header i' = None"
proof (cases "ix_cs_header i")
  case None
  then show ?thesis using assms by (simp add: finish_cs_def)
next
  case (Some p)
  let ?bs = "u16 (int (ix_cs_tid i)) @ u16 (int (ix_cs_bytes i))"
  have "p + length ?bs \<le> length (ix_buffer i)" using assms Some by (simp add: handle_wf_def)
  then obtain buf where "put_at p ?bs (ix_buffer i) = Returned buf" "length buf = length (ix_buffer i)"
    using put_at_append [of p "ix_buffer i" _ ?bs] by auto
  then show ?thesis using assms Some by (simp add: finish_cs_def handle_wf_def links_def)
qed

lemma flush_to_good:
  assumes "exporter_wf st" "\<forall>c \<in> set cs. gs_col st c \<noteq> None" "gs_ifh st h = Some i" "ix_cs_header i = None"
  shows "\<exists>r st' i'. flush_to env h buf cs ret st = Returned (r, st') \<and> keeps False st st' \<and> gs_ifh st' h = Some i' \<and>
    ix_cs_header i' = None \<and> (0 \<le> r \<longrightarrow> 0 \<le> ret \<and> (cs \<noteq> [] \<or> ix_offset i = 0 \<longrightarrow> ix_offset i' = 0))"
  using assms
proof (induction cs arbitrary: st i ret)
  case Nil
  then show ?case by (simp add: keeps_refl)
next
  case (Cons c cs)
  have h: "here h c [] st" using Cons.prems by (simp add: here_def)
  obtain r st1 where m: "ipfix_send_msg env h c buf st = Returned (r, st1)" "keeps True st st1"
    using send_msg_good [OF h, of True env buf] unfolding good_def by blast
  have wf1: "exporter_wf st1" using keeps_wf [OF m(2)] .
  obtain i1 where i1: "gs_ifh st1 h = Some i1" "links True i1 = links True i" using keeps_ifh [OF m(2) Cons.prems(3)] by blast
  then have n1: "ix_cs_header i1 = None" "ix_offset i1 = ix_offset i" using Cons.prems(4) by (simp_all add: links_def)
  define i2 where "i2 = (if r < 0 then i1 else i1\<lparr>ix_offset := 0, ix_nrecords := 0\<rparr>)"
  define st2 where "st2 = (if r < 0 then st1 else set_ifh h i2 st1)"
  have w2: "handle_wf i2" "links False i2 = links False i1"
    using ifh_wfD [OF wf1 i1(1)] n1 by (simp_all add: i2_def handle_wf_def links_def)
  have k2: "keeps False st st2"
    using keeps_mono [OF m(2)] keeps_trans [OF keeps_mono [OF m(2)] keeps_set_ifh [OF wf1 i1(1) w2]] by (simp add: st2_def)
  define ret' where "ret' = (if r < 0 then -1 else ret)"
  have c2: "\<forall>c \<in> set cs. gs_col st2 c \<noteq> None"
    using keeps_col [OF k2] Cons.prems(2) by fastforce
  have i2: "gs_ifh st2 h = Some i2" "ix_cs_header i2 = None" using i1 n1 by (simp_all add: st2_def i2_def)
  obtain r3 st3 i3 where 3: "flush_to env h buf cs ret' st2 = Returned (r3, st3)" "keeps False st2 st3"
    "gs_ifh st3 h = Some i3" "ix_cs_header i3 = None"
    "0 \<le> r3 \<longrightarrow> 0 \<le> ret' \<and> (cs \<noteq> [] \<or> ix_offset i2 = 0 \<longrightarrow> ix_offset i3 = 0)"
    using Cons.IH [OF keeps_wf [OF k2] c2 i2, of ret'] by (elim exE conjE) rule
  have "flush_to env h buf (c # cs) ret st = Returned (r3, st3)"
    using m(1) i1(1) 3(1) by (simp add: get_ifh_def st2_def i2_def ret'_def split: if_splits)
  moreover have "0 \<le> r3 \<longrightarrow> 0 \<le> ret \<and> ix_offset i3 = 0" using 3(5) by (auto simp: i2_def ret'_def split: if_splits)
  ultimately show ?case using keeps_trans [OF k2 3(2)] 3(3,4) by blast
qed

lemma chain_cols: "exporter_wf st \<Longrightarrow> \<forall>c' \<in> set (chain c st). gs_col st c' \<noteq> None"
  by (auto simp: chain_def exporter_wf_def split: option.splits dest!: set_dropWhileD)

lemma chain_nonempty: "exporter_wf st \<Longrightarrow> gs_ifh st h = Some i \<Longrightarrow> ix_collectors i \<noteq> None \<Longrightarrow> chain (ix_collectors i) st \<noteq> []"
proof -
  assume a: "exporter_wf st" "gs_ifh st h = Some i" "ix_collectors i \<noteq> None"
  then obtain c where "ix_collectors i = Some c" "c \<in> set (gs_collectors st)" unfolding exporter_wf_def by blast
  then show ?thesis by (auto simp: chain_def dropWhile_eq_Nil_conv)
qed

lemma flush_good:
  assumes wf: "exporter_wf st" and i: "gs_ifh st h = Some i"
  shows "\<exists>r st' i'. ipfix_export_flush env h st = Returned (r, st') \<and> keeps False st st' \<and> gs_ifh st' h = Some i' \<and>
    (0 \<le> r \<and> ix_collectors i \<noteq> None \<longrightarrow> ix_offset i' = 0 \<and> ix_cs_header i' = None)"
proof (cases "ix_offset i = 0")
  case True
  then have "ix_cs_header i = None" using ifh_wfD [OF wf i] by (cases "ix_cs_header i") (simp_all add: handle_wf_def)
  then show ?thesis using True keeps_refl [OF wf] i by (simp add: ipfix_export_flush_def get_ifh_def)
next
  case False
  have hw: "handle_wf i" using ifh_wfD [OF wf i] .
  have "ix_cs_tid i = 0 \<Longrightarrow> ix_cs_header i = None" using hw by (cases "ix_cs_header i") (simp_all add: handle_wf_def)
  then obtain i1 where i1: "(if ix_cs_tid i > 0 then finish_cs i else Returned i) = Returned i1" "handle_wf i1" "links False i1 = links False i"
    "ix_offset i1 = ix_offset i" "ix_cs_header i1 = None"
    using finish_cs_wf [OF hw] hw by (cases "ix_cs_tid i = 0") auto
  have k1: "keeps False st (set_ifh h i1 st)" using keeps_set_ifh [OF wf i i1(2,3)] .
  show ?thesis
  proof (cases "ipfix_getbuf st")
    case None
    then have "ipfix_export_flush env h st = Returned (-1, set_ifh h i1 st)"
      using i i1(1) False by (simp add: ipfix_export_flush_def get_ifh_def split del: if_split)
    then show ?thesis using k1 by auto
  next
    case (Some st1)
    obtain hdr i2 where hd: "ipfix_write_hdr env st1 i1 = (hdr, i2)" by fastforce
    have i2: "handle_wf i2" "links True i2 = links True i1"
      using write_header_wf [of env st1 "ix_nrecords i1" "ix_offset i1" i1 hdr i2 True] hd i1(2) by (simp_all add: ipfix_write_hdr_def)
    then have l2: "links False i2 = links False i" "ix_cs_header i2 = None" "ix_offset i2 = ix_offset i" "ix_collectors i2 = ix_collectors i"
      using i1(3,4,5) by (simp_all add: links_def)
    have st1: "keeps False st st1" "gs_ifh st1 h = Some i" using getbuf_keeps [OF wf Some] Some i by (auto simp: ipfix_getbuf_def split: if_splits)
    define st2 where "st2 = set_ifh h i2 st1"
    have k2: "keeps False st st2" unfolding st2_def
      using keeps_trans [OF st1(1) keeps_set_ifh [OF keeps_wf [OF st1(1)] st1(2) i2(1) l2(1)]] .
    have "length hdr \<le> IPFIX_HDR_BYTES_NF9"
      using length_write_header [of env st1 "ix_nrecords i1" "ix_offset i1" i1] hd by (simp add: ipfix_write_hdr_def)
    then obtain buf where b: "copy_to_iobuf hdr (take (ix_offset i2) (ix_buffer i2)) = Returned buf"
      using i2(1) by (simp add: copy_to_iobuf_def handle_wf_def)
    have ch: "chain (ix_collectors i2) st1 = chain (ix_collectors i2) st2" by (cases "ix_collectors i2") (simp_all add: chain_def st2_def)
    have i2': "gs_ifh st2 h = Some i2" by (simp add: st2_def)
    obtain r st3 i3 where f: "flush_to env h buf (chain (ix_collectors i2) st2) 0 st2 = Returned (r, st3)" "keeps False st2 st3"
      "gs_ifh st3 h = Some i3" "ix_cs_header i3 = None" "0 \<le> r \<longrightarrow> chain (ix_collectors i2) st2 \<noteq> [] \<longrightarrow> ix_offset i3 = 0"
      using flush_to_good [OF keeps_wf [OF k2] chain_cols [OF keeps_wf [OF k2]] i2' l2(2), of env buf "ix_collectors i2" 0] by blast
    have k3: "keeps False st (ipfix_freebuf st3)"
      using keeps_trans [OF keeps_trans [OF k2 f(2)] freebuf_keeps [OF keeps_wf [OF f(2)]]] .
    have "ipfix_export_flush env h st = Returned (r, ipfix_freebuf st3)"
      using i i1(1) False Some hd b f(1) ch by (simp add: ipfix_export_flush_def get_ifh_def st2_def split del: if_split)
    moreover have "0 \<le> r \<and> ix_collectors i \<noteq> None \<longrightarrow> ix_offset i3 = 0"
      using f(5) chain_nonempty [OF keeps_wf [OF k2] i2'] l2(4) by auto
    moreover have "gs_ifh (ipfix_freebuf st3) h = Some i3" using f(3) by (simp add: ipfix_freebuf_def)
    ultimately show ?thesis using k3 f(4) by blast
  qed
qed

section \<open>Exporting\<close>

lemma flush_good': "here h c ts st \<Longrightarrow> good False st (ipfix_export_flush env h st)"
  using flush_good unfolding here_def good_def by (metis not_Some_eq)

lemma write_template_good:
  assumes "here h c [t] st"
  shows "good False st (ipfix_write_template env h c t st)"
proof -
  obtain col where c: "gs_col st c = Some col" "exporter_wf st" using assms by (auto simp: here_def)
  from col_protocol [OF c(2,1)] show ?thesis
    unfolding ipfix_write_template_def
  proof
    assume "cl_protocol col = IPFIX_PROTO_TCP"
    then show "good False st (ipfix_write_template_with (ipfix_export_flush env) env h c t st)"
      using c(1) by (intro write_template_tcp_good [OF assms]) simp
  next
    assume "cl_protocol col = IPFIX_PROTO_UDP"
    then show "good False st (ipfix_write_template_with (ipfix_export_flush env) env h c t st)"
      using c(1) by (intro write_template_udp_good assms flush_good' [OF assms]) simp
  qed
qed

definition all_here :: "nat \<Rightarrow> nat list \<Rightarrow> nat \<Rightarrow> ipfix_st \<Rightarrow> bool" where
  "all_here h cs t st \<longleftrightarrow> exporter_wf st \<and> gs_ifh st h \<noteq> None \<and> gs_templ st t \<noteq> None \<and> (\<forall>c \<in> set cs. gs_col st c \<noteq> None)"

lemma all_here_Cons: "all_here h (c # cs) t st \<longleftrightarrow> here h c [t] st \<and> all_here h cs t st"
  by (auto simp: all_here_def here_def)

lemma all_here_keeps: "keeps q a b \<Longrightarrow> all_here h cs t a \<Longrightarrow> all_here h cs t b"
proof (induction cs)
  case Nil
  then show ?case unfolding all_here_def using keeps_wf keeps_ifh keeps_templ by (metis empty_iff list.set(1) not_Some_eq)
next
  case (Cons c cs)
  then show ?case unfolding all_here_Cons using keeps_here by blast
qed

lemma write_templates_good: "all_here h cs t st \<Longrightarrow> good False st (write_templates env h cs t st)"
proof (induction cs arbitrary: st)
  case Nil
  then show ?case by (simp add: all_here_def goodI keeps_refl)
next
  case (Cons c cs)
  note h = Cons.prems [unfolded all_here_Cons]
  have "good False st1 (if r < 0 then Returned (-1, st1) else write_templates env h cs t st1)" if k: "keeps False st st1" for r st1
    using Cons.IH [OF all_here_keeps [OF k conjunct2 [OF h]]] keeps_refl [OF keeps_wf [OF k]] by (simp add: goodI)
  then show ?case
    unfolding write_templates.simps by (intro good_bind [OF write_template_good [OF conjunct1 [OF h]]]) (simp only: prod.case)
qed

lemma resend_due_good: "all_here h cs t st \<Longrightarrow> good False st (resend_due env h cs t st)"
proof (induction cs)
  case Nil
  then show ?case by (simp add: all_here_def goodI keeps_refl)
next
  case (Cons c cs)
  note h = Cons.prems [unfolded all_here_Cons]
  obtain r st1 where w: "ipfix_write_template env h c t st = Returned (r, st1)" "keeps False st st1"
    using write_template_good [OF conjunct1 [OF h]] unfolding good_def by blast
  obtain col templ where "gs_col st c = Some col" "gs_templ st t = Some templ" using h by (auto simp: here_def)
  then show ?case
    using Cons.IH conjunct2 [OF h] w goodI [OF w(2), where r = "-1 :: int"] goodI [OF w(2), where r = "0 :: int"]
    by (simp add: get_col_def get_templ_def)
qed

lemma record_bytes_some:
  "list_all (\<lambda>f. tf_elem f \<noteq> None) fs \<Longrightarrow> \<exists>b. record_bytes host fs vs = Returned b"
proof (induction host fs vs rule: record_bytes.induct)
  case (1 host f fs v vs)
  then obtain b where "record_bytes host fs vs = Returned b" by auto
  moreover have "\<exists>b. field_bytes host f v = Returned b" using 1(2) by (auto simp: field_bytes_def Let_def)
  ultimately show ?case by auto
qed auto

text \<open>The record goes behind what the buffer holds.\<close>

lemma put_record_wf:
  assumes "handle_wf i" "ix_offset i + length bytes \<le> IPFIX_DEFAULT_BUFLEN" "newset \<longrightarrow> 4 \<le> length bytes" "0 < tid"
    "i' = (if newset then i\<lparr>ix_cs_bytes := 0, ix_cs_header := Some (ix_offset i), ix_cs_tid := tid\<rparr> else i)"
  shows "\<exists>buf. put_at (ix_offset i') bytes (ix_buffer i') = Returned buf \<and>
    (\<forall>x y z. handle_wf (i'\<lparr>ix_buffer := buf, ix_nrecords := x, ix_offset := ix_offset i' + length bytes, ix_cs_bytes := y, ix_seqno := z\<rparr>)) \<and>
    (\<forall>x y z. links False (i'\<lparr>ix_buffer := buf, ix_nrecords := x, ix_offset := ix_offset i' + length bytes, ix_cs_bytes := y, ix_seqno := z\<rparr>) = links False i)"
proof -
  have "\<exists>buf. put_at (ix_offset i) bytes (ix_buffer i) = Returned buf \<and> length buf = IPFIX_DEFAULT_BUFLEN"
    using put_at_append [of "ix_offset i" "ix_buffer i" _ bytes] assms(1,2) by (auto simp: handle_wf_def)
  then show ?thesis using assms by (cases "ix_cs_header i") (auto simp: handle_wf_def links_def)
qed

lemma put_record_good:
  assumes wf: "exporter_wf st" and i: "gs_ifh st h = Some i" and t: "templ_wf templ"
    and n: "record_length (templ_fields templ) vs = Some n" "ix_offset i + (if newset then 4 else 0) + n \<le> IPFIX_DEFAULT_BUFLEN"
  shows "good False st (put_record h templ newset len vs st)"
proof -
  obtain body where body: "record_bytes (gs_host st) (templ_fields templ) vs = Returned body"
    using record_bytes_some [of "templ_fields templ"] t by (auto simp: templ_wf_def)
  define bytes where "bytes = (if newset then u16 (int (te_tid templ)) @ u16 (int len) else []) @ body"
  have lb: "length bytes = (if newset then 4 else 0) + n" using record_bytes_length [OF body n(1)] by (simp add: bytes_def)
  define i5 where "i5 = (if newset then i\<lparr>ix_cs_bytes := 0, ix_cs_header := Some (ix_offset i), ix_cs_tid := te_tid templ\<rparr> else i)"
  obtain buf where buf: "put_at (ix_offset i5) bytes (ix_buffer i5) = Returned buf"
    "\<And>x y z. handle_wf (i5\<lparr>ix_buffer := buf, ix_nrecords := x, ix_offset := ix_offset i5 + length bytes, ix_cs_bytes := y, ix_seqno := z\<rparr>)"
    "\<And>x y z. links False (i5\<lparr>ix_buffer := buf, ix_nrecords := x, ix_offset := ix_offset i5 + length bytes, ix_cs_bytes := y, ix_seqno := z\<rparr>) = links False i"
    using put_record_wf [OF ifh_wfD [OF wf i] _ _ _ i5_def, of bytes] n(2) t lb by (auto simp: templ_wf_def)
  define i6 where "i6 = i5\<lparr>ix_buffer := buf, ix_nrecords := ix_nrecords i5 + 1, ix_offset := ix_offset i5 + length bytes,
    ix_cs_bytes := ix_cs_bytes i5 + length bytes, ix_seqno := (if ix_version i5 = IPFIX_VERSION then ix_seqno i5 + 1 else ix_seqno i5)\<rparr>"
  have "keeps False st (set_ifh h i6 st)" using keeps_set_ifh [OF wf i] buf(2,3) unfolding i6_def by blast
  moreover have "put_record h templ newset len vs st = Returned (0, set_ifh h i6 st)"
    unfolding put_record_def get_ifh_def i option.case proc_bind.simps i5_def [symmetric] templ_fields_def [symmetric] Let_def body
      bytes_def [symmetric] buf(1) i6_def [symmetric] ..
  ultimately show ?thesis by (simp add: goodI)
qed

text \<open>An export, once the templates have been sent.\<close>

lemma export_array_good:
  assumes h: "exporter_wf st" and i: "gs_ifh st h = Some i" and col: "ix_collectors i \<noteq> None" and templ: "gs_templ st t = Some templ"
    and fit: "\<And>n. record_length (templ_fields templ) vs = Some n \<Longrightarrow> n + 4 \<le> IPFIX_DEFAULT_BUFLEN"
  shows "good False st (ipfix_export_array env h (Some t) vs st)"
proof (cases "length vs = te_nfields templ")
  case False
  then show ?thesis using h i templ by (simp add: ipfix_export_array_def get_ifh_def get_templ_def goodI keeps_refl)
next
  case len: True
  have "all_here h (chain (ix_collectors i) st) t st" using h i templ chain_cols [OF h] by (auto simp: all_here_def)
  then obtain r1 st1 where 1: "(if te_tsend templ = 0 then write_templates env h (chain (ix_collectors i) st) t st
      else resend_due env h (chain (ix_collectors i) st) t st) = Returned (r1, st1)" "keeps False st st1"
    using write_templates_good resend_due_good unfolding good_def by (metis (full_types))
  show ?thesis
  proof (cases "r1 < 0")
    case True
    then have "ipfix_export_array env h (Some t) vs st = Returned (-1, st1)"
      using i templ len 1(1) by (simp add: ipfix_export_array_def get_ifh_def get_templ_def split del: if_split)
    then show ?thesis using 1(2) by (simp add: goodI)
  next
    case r1: False
    have wf1: "exporter_wf st1" using keeps_wf [OF 1(2)] .
    obtain i1 where i1: "gs_ifh st1 h = Some i1" "links False i1 = links False i" using keeps_ifh [OF 1(2) i] by blast
    define newset where "newset = (te_tid templ \<noteq> ix_cs_tid i1)"
    obtain i2 where i2: "(if newset \<and> ix_cs_tid i1 > 0 then finish_cs i1 else Returned i1) = Returned i2" "handle_wf i2"
      "links False i2 = links False i1"
      using finish_cs_wf [OF ifh_wfD [OF wf1 i1(1)]] ifh_wfD [OF wf1 i1(1)] by (cases "newset \<and> ix_cs_tid i1 > 0") auto
    define st2 where "st2 = set_ifh h i2 st1"
    have k2: "keeps False st st2" unfolding st2_def using keeps_trans [OF 1(2) keeps_set_ifh [OF wf1 i1(1) i2(2,3)]] .
    let ?fs = "templ_fields templ"
    show ?thesis
    proof (cases "record_length ?fs vs")
      case None
      then have "ipfix_export_array env h (Some t) vs st = Returned (-1, st2)"
        using i templ len 1(1) r1 i1(1) i2(1)
        by (simp add: ipfix_export_array_def get_ifh_def get_templ_def newset_def [symmetric] st2_def templ_fields_def [symmetric] Let_def
            split del: if_split)
      then show ?thesis using k2 by (simp add: goodI)
    next
      case (Some n)
      define datasetlen where "datasetlen = (if newset then 4 else 0) + n"
      define full where "full = (ix_offset i2 + datasetlen > IPFIX_DEFAULT_BUFLEN)"
      note raw = full_def datasetlen_def newset_def st2_def
      obtain i3 where i3: "(if ix_cs_tid i2 \<noteq> 0 then finish_cs i2 else Returned i2) = Returned i3" "handle_wf i3"
        "links False i3 = links False i2"
        using finish_cs_wf [OF i2(2)] i2(2) by (cases "ix_cs_tid i2 = 0") auto
      have i2': "gs_ifh st2 h = Some i2" by (simp add: st2_def)
      have k3: "keeps False st (set_ifh h i3 st2)" using keeps_trans [OF k2 keeps_set_ifh [OF keeps_wf [OF k2] i2' i3(2,3)]] .
      have c3: "ix_collectors i3 \<noteq> None" using i1(2) i2(3) i3(3) col by (simp add: links_def)
      obtain rf stf jf where flush: "ipfix_export_flush env h (set_ifh h i3 st2) = Returned (rf, stf)" "keeps False (set_ifh h i3 st2) stf"
        "gs_ifh stf h = Some jf" "0 \<le> rf \<longrightarrow> ix_offset jf = 0"
        using flush_good [OF keeps_wf [OF k3], of h i3 env] c3 by auto
      define r4 where "r4 = (if full then rf else 0)"
      define st4 where "st4 = (if full then stf else st2)"
      define i4 where "i4 = (if full then jf else i2)"
      have k4: "keeps False st st4" using k2 keeps_trans [OF k3 flush(2)] by (simp add: st4_def)
      have i4: "gs_ifh st4 h = Some i4" using flush(3) i2' by (simp add: st4_def i4_def)
      have f4: "(if full then proc_bind (if ix_cs_tid i2 \<noteq> 0 then finish_cs i2 else Returned i2)
          (\<lambda>i. ipfix_export_flush env h (set_ifh h i st2)) else Returned (0, st2)) = Returned (r4, st4)"
        unfolding i3(1) using flush(1) by (simp add: r4_def st4_def)
      show ?thesis
      proof (cases "r4 < 0")
        case True
        then have "ipfix_export_array env h (Some t) vs st = Returned (-1, st4)"
          using i templ len 1(1) r1 i1(1) i2(1) [unfolded newset_def] Some f4 [unfolded raw]
          by (simp add: ipfix_export_array_def get_ifh_def get_templ_def templ_fields_def [symmetric] Let_def split del: if_split)
        then show ?thesis using k4 by (simp add: goodI)
      next
        case r4: False
        have room: "ix_offset i4 + (if newset \<or> full then 4 else 0) + n \<le> IPFIX_DEFAULT_BUFLEN"
          using r4 flush(4) fit [OF Some] by (auto simp: i4_def r4_def full_def datasetlen_def)
        have tw: "templ_wf templ" using templ_wfD [OF h templ] .
        have "ipfix_export_array env h (Some t) vs st = put_record h templ (newset \<or> full) datasetlen vs st4"
          unfolding raw
          using i templ len 1(1) r1 i1(1) i2(1) [unfolded newset_def] Some f4 [unfolded raw] r4
          by (simp add: ipfix_export_array_def get_ifh_def get_templ_def templ_fields_def [symmetric] Let_def split del: if_split)
        then show ?thesis
          using good_trans [OF k4 put_record_good [OF keeps_wf [OF k4] i4 tw Some room]] by simp
      qed
    qed
  qed
qed

section \<open>Any use of an exporter\<close>

text \<open>Exports and flushes of a handle, each with what the clock and the network do meanwhile.\<close>

datatype exporter_call = Export ipfix_env nat "byte list list" | Flush ipfix_env

fun run_exporter :: "nat \<Rightarrow> exporter_call list \<Rightarrow> ipfix_st \<Rightarrow> ipfix_st proc" where
  "run_exporter h [] st = Returned st"
| "run_exporter h (Export env t vs # calls) st =
     proc_bind (ipfix_export_array env h (Some t) vs st) (\<lambda>(r, st). run_exporter h calls st)"
| "run_exporter h (Flush env # calls) st = proc_bind (ipfix_export_flush env h st) (\<lambda>(r, st). run_exporter h calls st)"

text \<open>The record of an export fits a message, with the header of its set.\<close>

fun call_fits :: "ipfix_st \<Rightarrow> exporter_call \<Rightarrow> bool" where
  "call_fits st (Export env t vs) \<longleftrightarrow>
     (\<exists>templ. gs_templ st t = Some templ \<and> (\<forall>n. record_length (templ_fields templ) vs = Some n \<longrightarrow> n + 4 \<le> IPFIX_DEFAULT_BUFLEN))"
| "call_fits st (Flush env) \<longleftrightarrow> True"

lemma keeps_fits: "keeps q a b \<Longrightarrow> call_fits a call \<Longrightarrow> call_fits b call"
proof (cases call)
  case (Export env t vs)
  assume k: "keeps q a b" and f: "call_fits a call"
  then obtain templ where t: "gs_templ a t = Some templ" "\<forall>n. record_length (templ_fields templ) vs = Some n \<longrightarrow> n + 4 \<le> IPFIX_DEFAULT_BUFLEN"
    using Export by auto
  then show ?thesis using keeps_templ [OF k t(1)] Export by (auto simp: templ_fields_def)
qed simp

text \<open>
  C13. Exports and flushes to TCP and UDP collectors return and stay within their buffers, whatever
  the network does, when no record is longer than a message, and leave an exporter for which this
  holds again: connections may fail or be lost, writes may be short, and templates are sent anew.
\<close>

theorem exporter_never_overruns:
  assumes "exporter_wf st" "gs_ifh st h = Some i" "ix_collectors i \<noteq> None" "\<forall>call \<in> set calls. call_fits st call"
  shows "\<exists>st'. run_exporter h calls st = Returned st' \<and> exporter_wf st'"
  using assms
proof (induction calls arbitrary: st i)
  case (Cons call calls)
  have rest: "\<exists>st''. run_exporter h calls st' = Returned st'' \<and> exporter_wf st''" if k: "keeps False st st'" for st'
    using keeps_ifh [OF k Cons.prems(2)] keeps_fits [OF k] Cons.prems(3,4) by (auto simp: links_def intro!: Cons.IH [OF keeps_wf [OF k]])
  show ?case
  proof (cases call)
    case (Export env t vs)
    then obtain templ where "gs_templ st t = Some templ" "\<And>n. record_length (templ_fields templ) vs = Some n \<Longrightarrow> n + 4 \<le> IPFIX_DEFAULT_BUFLEN"
      using Cons.prems(4) by auto
    then have "good False st (ipfix_export_array env h (Some t) vs st)" using export_array_good [OF Cons.prems(1-3)] by blast
    then show ?thesis using rest Export by (auto simp: good_def)
  next
    case (Flush env)
    then show ?thesis using flush_good [OF Cons.prems(1,2), of env] rest by auto
  qed
qed simp

text \<open>The network fails for ever after the export.\<close>

lemma example_wf: "exporter_wf example_st"
  using example_wire
  by (simp add: exporter_wf_def example_st_def handle_wf_def col_wf_def templ_wf_def example_ifh_def new_handle_def example_col_def
      new_collector_def wire_ok_def template_ok_def length_template_set)
    (simp add: example_templ_fields, simp add: example_template_def example_elements_def new_field_def spec_bytes_def IPFIX_DEFAULT_BUFLEN_def)

theorem exporter_never_overruns_witness:
  "\<exists>st'. run_exporter 0 [Export example_env 2 example_record, Flush (example_env\<lparr>ie_write := \<lambda>_ _. -1, ie_reset := \<lambda>_. True,
    ie_connect := \<lambda>_ _ _. None\<rparr>)] example_st = Returned st' \<and> exporter_wf st'"
proof -
  have "gs_ifh example_st 0 = Some example_ifh" "ix_collectors example_ifh \<noteq> None" "gs_templ example_st 2 = Some example_template"
    by (simp_all add: example_st_def example_ifh_def)
  moreover have "record_length (templ_fields example_template) example_record = Some 6"
    by (simp add: example_templ_fields example_record_def) (simp add: example_template_def IPFIX_FT_VARLEN_def)
  ultimately show ?thesis
    by (intro exporter_never_overruns [OF example_wf]) (auto simp: IPFIX_DEFAULT_BUFLEN_def)
qed

end
