(* ===== verification/IpfixOut.thy ===== *)
theory IpfixOut
  imports IpfixCollect
begin

text \<open>
  What the collector's exporters write: the stream to the engine (\<open>ipfix_mle.c\<close>), the compressed file
  (\<open>ipfix_zout.c\<close>), files by source (\<open>ipfix_col_files.c\<close>) and the readable log (\<open>ipfix_print.c\<close>). A stream is
  the text written to it; every write succeeds. The text \<open>printf\<close> gives for floating point values,
  times and addresses is an argument.
\<close>

section \<open>Text\<close>

definition fmt_u :: "int \<Rightarrow> string" where
  "fmt_u i = show_nat (nat (i mod 2 ^ 32))"

text \<open>\<open>%.3fs\<close> of a number of milliseconds divided by 1000.\<close>

definition fmt_seconds :: "nat \<Rightarrow> string" where
  "fmt_seconds n = show_nat (n div 1000) @ ''.'' @
     [digit_char (n div 100 mod 10), digit_char (n div 10 mod 10), digit_char (n mod 10)] @ ''s''"

definition NL :: string where "NL = [CHR 0x0A]"

definition is_nf9 :: "ipfix_hdr \<Rightarrow> bool" where
  "is_nf9 hdr \<longleftrightarrow> int (hd_version hdr) = IPFIX_VERSION_NF9"

record out_env =
  oe_host :: ipfix_host
  oe_float :: "byte list \<Rightarrow> string"
  oe_time :: "nat \<Rightarrow> string"
  oe_ident :: "ipfix_input \<Rightarrow> string"
  oe_unset :: nat

text \<open>The first fields of a template, as many as it says; a field without element is read through null.\<close>

definition template_fields :: "ipfix_template \<Rightarrow> ipfix_template_field list" where
  "template_fields t = take (te_nfields t) (te_fields t)"

definition with_element :: "ipfix_template_field \<Rightarrow> (ipfix_field \<Rightarrow> 'a proc) \<Rightarrow> 'a proc" where
  "with_element tf f = (case tf_elem tf of None \<Rightarrow> Undefined ''null pointer'' | Some e \<Rightarrow> f e)"

definition with_template :: "ipfixt_node option \<Rightarrow> (ipfix_template \<Rightarrow> 'a proc) \<Rightarrow> 'a proc" where
  "with_template n f = (case n of None \<Rightarrow> Undefined ''null pointer'' | Some n \<Rightarrow> f (tn_template n))"

text \<open>
  The loop over the fields of a record: its separator, and a piece of text for every field; \<open>body\<close>
  is given the number of the field. The loop over values is the same with the value of the field.
\<close>

fun field_loop :: "string \<Rightarrow> (nat \<Rightarrow> ipfix_template_field \<Rightarrow> ipfix_field \<Rightarrow> string) \<Rightarrow> nat \<Rightarrow> ipfix_template_field list \<Rightarrow> string proc" where
  "field_loop sep body i [] = Returned ''''"
| "field_loop sep body i (tf # tfs) =
     with_element tf (\<lambda>e. proc_bind (field_loop sep body (i + 1) tfs) (\<lambda>r.
     Returned ((if i > 0 then sep else '''') @ body i tf e @ r)))"

fun value_loop :: "out_env \<Rightarrow> nat \<Rightarrow> string \<Rightarrow> (ipfix_field \<Rightarrow> string \<Rightarrow> string proc) \<Rightarrow> nat \<Rightarrow> ipfix_template_field list
    \<Rightarrow> byte list list \<Rightarrow> string proc" where
  "value_loop env sz sep body i [] vs = Returned ''''"
| "value_loop env sz sep body i (tf # tfs) [] = Undefined ''no value''"
| "value_loop env sz sep body i (tf # tfs) (v # vs) =
     with_element tf (\<lambda>e.
     proc_bind (run_snprint (oe_float env) (oe_host env) (fi_snprint e) sz v) (\<lambda>(_, tmpbuf).
     proc_bind (body e tmpbuf) (\<lambda>b.
     proc_bind (value_loop env sz sep body (i + 1) tfs vs) (\<lambda>r.
     Returned ((if i > 0 then sep else '''') @ b @ r)))))"

section \<open>The stream to the engine\<close>

definition ipfix_mle_newsource :: "ipfix_source \<Rightarrow> string \<Rightarrow> string" where
  "ipfix_mle_newsource s fp = fp @ ''{ \"observation-domain\": '' @ show_nat (so_odid s) @ '' }'' @ NL"

definition ipfix_mle_newmsg :: "ipfix_hdr \<Rightarrow> string \<Rightarrow> string" where
  "ipfix_mle_newmsg hdr fp =
     fp @ ''{ \"ipfix-header\": { version='' @ show_nat (hd_version hdr) @ '','' @
     (if is_nf9 hdr then
        '' \"records\":'' @ show_nat (hd_count hdr) @ '', '' @
        '' \"sysuptime\":'' @ fmt_seconds (hd_sysuptime hdr) @ '', \"unixtime\"='' @ show_nat (hd_unixtime hdr) @ '', '' @
        ''\"seqno\":'' @ show_nat (hd_seqno hdr) @ '', '' @
        ''\"sourceid\":'' @ show_nat (hd_sourceid hdr)
      else
        ''\"length\":'' @ show_nat (hd_length hdr) @ '', '' @
        ''\"unixtime\":'' @ show_nat (hd_exporttime hdr) @ '', '' @
        ''\"seqno\":'' @ show_nat (hd_seqno hdr) @ '','' @
        ''\"odid\":'' @ show_nat (hd_sourceid hdr)) @
     ''} }'' @ NL"

definition ipfix_mle_trecord :: "ipfixt_node option \<Rightarrow> string \<Rightarrow> string proc" where
  "ipfix_mle_trecord n fp =
     with_template n (\<lambda>t. proc_bind (field_loop '', '' (\<lambda>i tf e. ''{\"ie\"='' @ fmt_u (ft_eno (fi_ft e)) @ '', \"type\":'' @ fmt_u (ft_ftype (fi_ft e)) @
         '', \"name\"='' @ ft_name (fi_ft e) @ '' }'') 0 (template_fields t)) (\<lambda>fs.
     Returned (fp @ ''{ \"template\": { \"id\":'' @ show_nat (te_tid t) @ '', \"nfields\":'' @
       show_nat (te_nfields t) @ '', \"fields\": ['' @ fs @ '']}}'' @ NL)))"

text \<open>A data record as the first three exporters write it, with a buffer of \<open>sz\<close> bytes for a value.\<close>

definition data_line :: "out_env \<Rightarrow> nat \<Rightarrow> ipfix_template \<Rightarrow> byte list list \<Rightarrow> string proc" where
  "data_line env sz t vs =
     proc_bind (value_loop env sz '', '' (\<lambda>e tmpbuf. Returned (''{\"'' @ ft_name (fi_ft e) @ ''\":\"'' @ tmpbuf @ ''\" }''))
         0 (template_fields t) vs) (\<lambda>fs.
     Returned (''{ \"data\":{ \"template\":'' @ show_nat (te_tid t) @ '', \"nfields\":'' @ show_nat (te_nfields t) @
       '', \"fields\": ['' @ fs @ '']}}'' @ NL))"

definition ipfix_mle_drecord :: "out_env \<Rightarrow> ipfix_source option \<Rightarrow> ipfixt_node option \<Rightarrow> byte list list option \<Rightarrow> string
    \<Rightarrow> (int \<times> string) proc" where
  "ipfix_mle_drecord env s t data fp =
     (case (t, s, data) of
        (Some t, Some s, Some data) \<Rightarrow> proc_map (\<lambda>l. (0, fp @ l)) (data_line env (2048 - 1) (tn_template t) data)
      | _ \<Rightarrow> Returned (-1, fp))"

text \<open>
  \<open>g_colinfo\<close>: the exporter that is registered, by its address. Starting needs memory for it (\<open>mem\<close>);
  stopping does not look at what cancelling returns.
\<close>

definition start_export :: "bool \<Rightarrow> 'e \<Rightarrow> 'e option \<times> 'e list \<Rightarrow> int \<times> ('e option \<times> 'e list)" where
  "start_export mem new st =
     (case st of (g_colinfo, exporters) \<Rightarrow>
      if g_colinfo \<noteq> None then (-1, st)
      else if \<not> mem then (-1, st)
      else (0, (Some new, ipfix_col_register_export new exporters)))"

definition stop_export :: "'e option \<times> 'e list \<Rightarrow> ('e option \<times> 'e list) proc" where
  "stop_export st =
     (case st of
        (None, exporters) \<Rightarrow> Returned st
      | (Some c, exporters) \<Rightarrow> proc_map (\<lambda>(_, exporters). (None, exporters)) (ipfix_col_cancel_export c exporters))"

definition ipfix_start_mle :: "bool \<Rightarrow> 'e \<Rightarrow> 'e option \<times> 'e list \<Rightarrow> int \<times> ('e option \<times> 'e list)" where
  "ipfix_start_mle mem new st = start_export mem new st"

definition ipfix_stop_mle :: "'e option \<times> 'e list \<Rightarrow> ('e option \<times> 'e list) proc" where
  "ipfix_stop_mle st = stop_export st"

section \<open>The compressed file\<close>

definition ipfix_json_newsource :: "ipfix_source \<Rightarrow> string \<Rightarrow> string" where
  "ipfix_json_newsource s zfp = zfp @ ''{ \"obeservation-domain\": '' @ show_nat (so_odid s) @ '' }'' @ NL"

text \<open>The header as this exporter and the next one write it.\<close>

definition header_line :: "ipfix_hdr \<Rightarrow> string" where
  "header_line hdr =
     ''{ \"ipfix-header\":{\"version\":'' @ show_nat (hd_version hdr) @ '','' @
     (if is_nf9 hdr then
        '' \"records\":'' @ show_nat (hd_count hdr) @ '', '' @
        '' \"sysuptime\":'' @ fmt_seconds (hd_sysuptime hdr) @ '', \"unixtime\":'' @ show_nat (hd_unixtime hdr) @ '', '' @
        ''\"seqno\":'' @ show_nat (hd_seqno hdr) @ '', '' @
        ''\"sourceid\":'' @ show_nat (hd_sourceid hdr)
      else
        ''\"length\":'' @ show_nat (hd_length hdr) @ '', '' @
        ''\"unixtime\":'' @ show_nat (hd_exporttime hdr) @ '', '' @
        ''\"seqno\":'' @ show_nat (hd_seqno hdr) @ '', '' @
        ''\"odid\":'' @ show_nat (hd_sourceid hdr)) @
     ''}}'' @ NL"

definition ipfix_json_newmsg :: "ipfix_hdr \<Rightarrow> string \<Rightarrow> string" where
  "ipfix_json_newmsg hdr zfp = zfp @ header_line hdr"

text \<open>A template as both write it, and one of its elements.\<close>

definition element_text :: "ipfix_field \<Rightarrow> string" where
  "element_text e = ''{\"ie\":'' @ fmt_u (ft_eno (fi_ft e)) @ '', \"type\":'' @ fmt_u (ft_ftype (fi_ft e)) @
     '', \"name\":\"'' @ ft_name (fi_ft e) @ ''\" }''"

definition template_line :: "ipfix_template \<Rightarrow> string proc" where
  "template_line t =
     proc_bind (field_loop '', '' (\<lambda>i tf e. element_text e) 0 (template_fields t)) (\<lambda>fs.
     Returned (''{ \"template\":{ \"id\":'' @ show_nat (te_tid t) @ '', \"nfields\":'' @ show_nat (te_nfields t) @
       '', \"fields\":['' @ fs @ '']}}'' @ NL))"

definition ipfix_json_trecord :: "ipfixt_node option \<Rightarrow> string \<Rightarrow> string proc" where
  "ipfix_json_trecord n zfp = with_template n (\<lambda>t. proc_map (\<lambda>l. zfp @ l) (template_line t))"

definition ipfix_json_drecord :: "out_env \<Rightarrow> ipfix_source option \<Rightarrow> ipfixt_node option \<Rightarrow> byte list list option \<Rightarrow> string
    \<Rightarrow> (int \<times> string) proc" where
  "ipfix_json_drecord env s t data zfp =
     (case (t, s, data) of
        (Some t, Some s, Some data) \<Rightarrow> proc_map (\<lambda>l. (0, zfp @ l)) (data_line env 2000 (tn_template t) data)
      | _ \<Rightarrow> Returned (-1, zfp))"

text \<open>\<open>opened\<close>: whether \<open>gzopen\<close> gives a file.\<close>

definition ipfix_start_zout :: "bool \<Rightarrow> bool \<Rightarrow> 'e \<Rightarrow> 'e option \<times> 'e list \<Rightarrow> (int \<times> ('e option \<times> 'e list)) proc" where
  "ipfix_start_zout mem opened new st =
     (if fst st \<noteq> None \<or> \<not> mem then Returned (-1, st)
      else if \<not> opened then Exited EXIT_FAILURE
      else Returned (start_export mem new st))"

definition ipfix_stop_zout :: "'e option \<times> 'e list \<Rightarrow> ('e option \<times> 'e list) proc" where
  "ipfix_stop_zout st = stop_export st"

section \<open>Files by source\<close>

text \<open>A source with the name of its file, and what was written to the file while it is open.\<close>

record file_source = ipfix_source +
  fs_fname :: string
  fs_fp :: "string option"

text \<open>
  The file system as the exporter sees it: whether the directory is a pipe that can be opened, what can
  be read, what can be made, and opened. \<open>fe_date\<close> is the date of the day.
\<close>

record file_env =
  fe_fifo :: bool
  fe_readable :: "string \<Rightarrow> bool"
  fe_mkdir :: "string \<Rightarrow> bool"
  fe_fopen :: "string \<Rightarrow> bool"
  fe_date :: string

definition OUT_PATH_MAX :: nat where "OUT_PATH_MAX = 4096"

text \<open>The first name that is not taken: the date, then with \<open>-1\<close>, \<open>-2\<close> and so on.\<close>

fun free_name :: "nat \<Rightarrow> file_env \<Rightarrow> string \<Rightarrow> nat \<Rightarrow> string \<Rightarrow> string proc" where
  "free_name 0 env dir i suffix = Spins"
| "free_name (Suc fuel) env dir i suffix =
     (let fname = snprintf OUT_PATH_MAX (dir @ ''/'' @ fe_date env @ suffix) in
      if \<not> fe_readable env fname then Returned fname
      else free_name fuel env dir (i + 1) (''-'' @ show_nat i))"

definition export_newsource_file :: "nat \<Rightarrow> out_env \<Rightarrow> file_env \<Rightarrow> string option \<Rightarrow> file_source \<Rightarrow> (int \<times> file_source) proc" where
  "export_newsource_file fuel oenv env datadir s =
     (case datadir of
        None \<Rightarrow> Returned (0, s)
      | Some datadir \<Rightarrow>
          if fe_fifo env then
            (if fs_fp s = None then
               (if fe_fopen env datadir then Returned (0, s\<lparr>fs_fp := Some ''''\<rparr>) else Returned (-1, s))
             else Returned (0, s))
          else
            let s = s\<lparr>fs_fname := snprintf OUT_PATH_MAX (datadir @ ''/'' @ oe_ident oenv (so_input s))\<rparr> in
            if \<not> fe_readable env (fs_fname s) \<and> \<not> fe_mkdir env (fs_fname s) then Returned (-1, s)
            else
              let s = s\<lparr>fs_fname := fs_fname s @ snprintf (OUT_PATH_MAX - length (fs_fname s)) (''/'' @ show_nat (so_odid s))\<rparr> in
              if \<not> fe_readable env (fs_fname s) \<and> \<not> fe_mkdir env (fs_fname s) then Returned (-1, s)
              else
                proc_bind (free_name fuel env (fs_fname s) 1 '''') (\<lambda>fname.
                let s = s\<lparr>fs_fname := fname\<rparr> in
                if fe_fopen env (fs_fname s) then Returned (0, s\<lparr>fs_fp := Some ''''\<rparr>) else Returned (-1, s\<lparr>fs_fp := None\<rparr>)))"

definition to_file :: "string \<Rightarrow> file_source \<Rightarrow> file_source" where
  "to_file l s = s\<lparr>fs_fp := map_option (\<lambda>w. w @ l) (fs_fp s)\<rparr>"

definition export_newmsg_file :: "ipfix_hdr \<Rightarrow> file_source \<Rightarrow> int \<times> file_source" where
  "export_newmsg_file hdr s = (if fs_fp s \<noteq> None then (0, to_file (header_line hdr) s) else (0, s))"

definition export_trecord_file :: "ipfixt_node option \<Rightarrow> file_source \<Rightarrow> (int \<times> file_source) proc" where
  "export_trecord_file n s =
     (if fs_fp s \<noteq> None then with_template n (\<lambda>t. proc_map (\<lambda>l. (0, to_file l s)) (template_line t)) else Returned (0, s))"

definition export_drecord_file :: "out_env \<Rightarrow> ipfixt_node \<Rightarrow> byte list list \<Rightarrow> file_source \<Rightarrow> (int \<times> file_source) proc" where
  "export_drecord_file env t data s =
     (if fs_fp s \<noteq> None then proc_map (\<lambda>l. (0, to_file l s)) (data_line env 2048 (tn_template t) data) else Returned (0, s))"

text \<open>Two blocks are made; when there is none for the second the first is freed.\<close>

definition ipfix_col_init_fileexport :: "bool \<Rightarrow> bool \<Rightarrow> 'e \<Rightarrow> 'e option \<times> 'e list \<Rightarrow> int \<times> ('e option \<times> 'e list)" where
  "ipfix_col_init_fileexport mem1 mem2 new st =
     (if fst st \<noteq> None then (-1, st) else if \<not> mem1 then (-1, st) else start_export mem2 new st)"

definition ipfix_col_stop_fileexport :: "'e option \<times> 'e list \<Rightarrow> ('e option \<times> 'e list) proc" where
  "ipfix_col_stop_fileexport st = stop_export st"

section \<open>The readable log\<close>

text \<open>Every piece is first written to a buffer of 1000 bytes, without a limit.\<close>

definition outf :: "string \<Rightarrow> string \<Rightarrow> string proc" where
  "outf txt fp = (if length txt \<ge> 1000 then Undefined ''write past tmpbuf'' else Returned (fp @ txt))"

fun outfs :: "string list \<Rightarrow> string \<Rightarrow> string proc" where
  "outfs [] fp = Returned fp"
| "outfs (t # ts) fp = proc_bind (outf t fp) (outfs ts)"

definition ipfix_print_newsource :: "out_env \<Rightarrow> ipfix_source \<Rightarrow> string \<Rightarrow> string proc" where
  "ipfix_print_newsource env s fp =
     outf (''#'' @ NL @ ''# new source: '' @ oe_ident env (so_input s) @ ''/'' @ show_nat (so_odid s) @ NL @ ''#'' @ NL) fp"

text \<open>
  The time is read as one of 64 bits where the header has one of 32: with the word behind it, which
  is the sequence number, or for IPFIX a word that is not set (\<open>oe_unset\<close>).
\<close>

definition time_at :: "out_env \<Rightarrow> nat \<Rightarrow> nat \<Rightarrow> nat" where
  "time_at env a b = (if ih_little (oe_host env) then a + 2 ^ 32 * b else 2 ^ 32 * a + b)"

definition ipfix_print_newmsg :: "out_env \<Rightarrow> ipfix_hdr \<Rightarrow> string \<Rightarrow> string proc" where
  "ipfix_print_newmsg env hdr fp =
     outfs (
      [''IPFIX-HDR:'' @ NL @ '' version='' @ show_nat (hd_version hdr) @ '',''] @
      (if is_nf9 hdr then
         ['' records='' @ show_nat (hd_count hdr) @ NL,
          '' sysuptime='' @ fmt_seconds (hd_sysuptime hdr) @ '', unixtime='' @ show_nat (hd_unixtime hdr) @
            '' ('' @ oe_time env (time_at env (hd_unixtime hdr) (hd_seqno hdr)) @ '')'' @ NL,
          '' seqno='' @ show_nat (hd_seqno hdr) @ '','',
          '' sourceid='' @ show_nat (hd_sourceid hdr) @ NL]
       else
         ['' length='' @ show_nat (hd_length hdr) @ NL,
          '' unixtime='' @ show_nat (hd_exporttime hdr) @ '' ('' @ oe_time env (time_at env (hd_exporttime hdr) (oe_unset env)) @ '')'' @ NL,
          '' seqno='' @ show_nat (hd_seqno hdr) @ '','',
          '' odid='' @ show_nat (hd_sourceid hdr) @ NL])) fp"

definition fmt_02d :: "nat \<Rightarrow> string" where
  "fmt_02d n = (if n < 10 then ''0'' else '''') @ show_nat n"

fun print_fields :: "nat \<Rightarrow> nat \<Rightarrow> ipfix_template_field list \<Rightarrow> string \<Rightarrow> string proc" where
  "print_fields nscope i [] fp = Returned fp"
| "print_fields nscope i (tf # tfs) fp =
     with_element tf (\<lambda>e.
     proc_bind (outf (''  field'' @ fmt_02d (i + 1) @ '':'' @ (if i < nscope then '' scope'' else '''') @
       '' ie='' @ fmt_u (ft_eno (fi_ft e)) @ ''.'' @ fmt_u (ft_ftype (fi_ft e)) @ '', len='' @ show_nat (tf_flength tf) @
       '' ('' @ ft_name (fi_ft e) @ '')'' @ NL) fp) (print_fields nscope (i + 1) tfs))"

definition ipfix_print_trecord :: "ipfixt_node option \<Rightarrow> string \<Rightarrow> string proc" where
  "ipfix_print_trecord n fp =
     with_template n (\<lambda>t. proc_bind (outfs [''TEMPLATE RECORD:'' @ NL,
        '' template id:  '' @ show_nat (te_tid t) @ '' '' @ (if te_nscopefields t \<noteq> 0 then ''(option template)'' else '''') @ NL,
        '' nfields:      '' @ show_nat (te_nfields t) @ NL] fp)
        (print_fields (te_nscopefields t) 0 (template_fields t)))"

fun print_values :: "out_env \<Rightarrow> ipfix_template_field list \<Rightarrow> byte list list \<Rightarrow> string \<Rightarrow> string proc" where
  "print_values env [] vs fp = Returned fp"
| "print_values env (tf # tfs) [] fp = Undefined ''no value''"
| "print_values env (tf # tfs) (v # vs) fp =
     with_element tf (\<lambda>e.
     proc_bind (outf ('' '' @ ft_name (fi_ft e) @ '': '') fp) (\<lambda>fp.
     proc_bind (run_snprint (oe_float env) (oe_host env) (fi_snprint e) 2000 v) (\<lambda>(_, tmpbuf).
     proc_bind (outf (tmpbuf @ NL) fp) (print_values env tfs vs))))"

definition ipfix_print_drecord :: "out_env \<Rightarrow> ipfix_source option \<Rightarrow> ipfixt_node option \<Rightarrow> byte list list option \<Rightarrow> string
    \<Rightarrow> (int \<times> string) proc" where
  "ipfix_print_drecord env s t data fp =
     (case (t, s, data) of
        (Some n, Some s, Some data) \<Rightarrow>
          let t = tn_template n in
          proc_bind (outfs [''DATA RECORD: '' @ NL,
            '' template id:  '' @ show_nat (te_tid t) @ '' '' @ (if te_nscopefields t \<noteq> 0 then ''(option record)'' else '''') @ NL,
            '' nfields:      '' @ show_nat (te_nfields t) @ NL] fp) (\<lambda>fp.
          proc_map (Pair 0) (print_values env (template_fields t) data fp))
      | _ \<Rightarrow> Returned (-1, fp))"

definition ipfix_col_start_msglog :: "bool \<Rightarrow> 'e \<Rightarrow> 'e option \<times> 'e list \<Rightarrow> int \<times> ('e option \<times> 'e list)" where
  "ipfix_col_start_msglog mem new st = start_export mem new st"

definition ipfix_col_stop_msglog :: "'e option \<times> 'e list \<Rightarrow> ('e option \<times> 'e list) proc" where
  "ipfix_col_stop_msglog st = stop_export st"

end
