(* ===== verification/IpfixJson.thy ===== *)
theory IpfixJson
  imports IpfixOut JsonExample
begin

text \<open>
  The lines that the collector writes for the engine, as the JSON library of its scripts reads
  them: a data record arrives with its template, and its names and values in order, and so do the
  header and the templates of a file.
\<close>

section \<open>The text of a data record\<close>

text \<open>The names of the fields and the printed values.\<close>

fun value_texts :: "out_env \<Rightarrow> nat \<Rightarrow> ipfix_template_field list \<Rightarrow> byte list list \<Rightarrow> (string \<times> string) list proc" where
  "value_texts env sz [] vs = Returned []"
| "value_texts env sz (tf # tfs) [] = Undefined ''no value''"
| "value_texts env sz (tf # tfs) (v # vs) =
     with_element tf (\<lambda>e.
     proc_bind (run_snprint (oe_float env) (oe_host env) (fi_snprint e) sz v) (\<lambda>(_, tx).
     proc_map (Cons (ft_name (fi_ft e), tx)) (value_texts env sz tfs vs)))"

definition pair_text :: "string \<times> string \<Rightarrow> string" where
  "pair_text p = ''{\"'' @ fst p @ ''\":\"'' @ snd p @ ''\" }''"

lemma value_loop_texts:
  assumes "value_texts env sz tfs vs = Returned ps"
  shows "value_loop env sz '', '' (\<lambda>e tmpbuf. Returned (''{\"'' @ ft_name (fi_ft e) @ ''\":\"'' @ tmpbuf @ ''\" }'')) i tfs vs =
    Returned (case ps of [] \<Rightarrow> '''' | p # ps' \<Rightarrow> (if i > 0 then '', '' else '''') @ pair_text p @
      concat (map (\<lambda>p. '', '' @ pair_text p) ps'))"
  using assms
proof (induction env sz tfs vs arbitrary: i ps rule: value_texts.induct)
  case (3 env sz tf tfs v vs)
  then obtain e n tx ps' where e: "tf_elem tf = Some e"
    "run_snprint (oe_float env) (oe_host env) (fi_snprint e) sz v = Returned (n, tx)"
    "value_texts env sz tfs vs = Returned ps'" "ps = (ft_name (fi_ft e), tx) # ps'"
    by (auto simp: with_element_def proc_bind_Returned proc_map_Returned split: option.splits)
  show ?case
    using 3(1) [OF e(3), of "Suc i"] e
    by (cases ps') (simp_all add: with_element_def pair_text_def)
qed simp_all

definition line_text :: "ipfix_template \<Rightarrow> (string \<times> string) list \<Rightarrow> string" where
  "line_text t ps = ''{ \"data\":{ \"template\":'' @ show_nat (te_tid t) @ '', \"nfields\":'' @ show_nat (te_nfields t) @
     '', \"fields\": ['' @ pair_text (hd ps) @ concat (map (\<lambda>p. '', '' @ pair_text p) (tl ps)) @ '']}}''"

lemma data_line_text:
  assumes "value_texts env sz (template_fields t) vs = Returned ps" "ps \<noteq> []"
  shows "data_line env sz t vs = Returned (line_text t ps @ NL)"
  using value_loop_texts [OF assms(1), of 0] assms(2)
  by (cases ps) (simp_all add: data_line_def line_text_def)

section \<open>Numbers in the text\<close>

text \<open>What is relied on of \<open>strtod\<close>: a number in decimal digits is read as that number, up to what
  follows.\<close>

definition reads_decimal :: "json_env \<Rightarrow> nat \<Rightarrow> bool" where
  "reads_decimal jenv n \<longleftrightarrow> (\<forall>r. r = [] \<or> hd r \<in> {32, 44, 93, 125} \<longrightarrow>
     je_strtod jenv (bytes_of (show_nat n) @ r) = (i2d (int n), length (show_nat n)))"

lemma show_nat_start:
  "\<exists>d ds. show_nat n = digit_char d # ds \<and> d < 10 \<and> (d = 0 \<longrightarrow> ds = [])"
proof (induction n rule: show_nat.induct)
  case (1 n)
  show ?case
  proof (cases "n < 10")
    case True
    then show ?thesis by (auto simp: show_nat.simps [of n])
  next
    case False
    then obtain d ds where d: "show_nat (n div 10) = digit_char d # ds" "d < 10" "d = 0 \<longrightarrow> ds = []" using 1 by blast
    have "d \<noteq> 0"
    proof
      assume "d = 0"
      then have "n div 10 = dec_value [digit_char 0]" using d dec_value_show_nat [of "n div 10"] by simp
      also have "\<dots> = 0" by (simp add: dec_value_def of_char_digit_char)
      finally show False using False by simp
    qed
    then show ?thesis using d False by (auto simp: show_nat.simps [of n])
  qed
qed

lemma digit_byte: "d < 10 \<Longrightarrow> (of_char (digit_char d) :: byte) = of_nat (48 + d)"
proof -
  assume d: "d < 10"
  have "(of_char (digit_char d) :: byte) = of_nat (of_char (digit_char d))" by (simp add: of_nat_of_char)
  then show ?thesis using of_char_digit_char [OF d] by simp
qed

lemma digit_byte_range: "d < 10 \<Longrightarrow> 48 \<le> (of_char (digit_char d) :: byte) \<and> (of_char (digit_char d) :: byte) \<le> 57"
  using unat_of_nat_byte [of "48 + d"] by (simp only: digit_byte word_le_nat_alt) simp

lemma decimal_plain: "plain_number (bytes_of (show_nat n))" "0 \<notin> set (bytes_of (show_nat n))"
proof -
  obtain d ds where d: "show_nat n = digit_char d # ds" "d < 10" "d = 0 \<longrightarrow> ds = []" using show_nat_start by blast
  have r: "48 \<le> (of_char (digit_char d) :: byte)" "(of_char (digit_char d) :: byte) \<le> 57" using digit_byte_range [OF d(2)] by auto
  have "(of_char (digit_char d) :: byte) \<noteq> 45" using r(1) by auto
  moreover have "(of_char (digit_char d) :: byte) = 48 \<Longrightarrow> d = 0"
  proof -
    assume "(of_char (digit_char d) :: byte) = 48"
    then have "unat (of_nat (48 + d) :: byte) = 48" using digit_byte [OF d(2)] by simp
    then show "d = 0" using d(2) unat_of_nat_byte [of "48 + d"] by (simp only:) simp
  qed
  ultimately show "plain_number (bytes_of (show_nat n))"
    using d r by (auto simp: plain_number_def bytes_of_def Let_def)
  have "(of_char c :: byte) \<noteq> 0" if "c \<in> set (show_nat n)" for c
  proof
    assume "(of_char c :: byte) = 0"
    then have "unat (of_char c :: byte) = 0" by simp
    then show False using show_nat_digits [OF that] by (simp add: unat_of_char is_digit_def)
  qed
  then show "0 \<notin> set (bytes_of (show_nat n))" by (force simp: bytes_of_def)
qed

lemma reads_decimal_number:
  assumes "reads_decimal jenv n" "je_point jenv = ch CHR ''.''"
  shows "reads jenv cfg tot h (bytes_of (show_nat n)) (LNumber (i2d (int n)))"
proof (rule reads_plain_number [OF decimal_plain _ assms(2)])
  fix r :: "byte list" assume "r = [] \<or> hd r \<in> {32, 44, 93, 125}"
  then show "je_strtod jenv (bytes_of (show_nat n) @ r) = (i2d (int n), length (bytes_of (show_nat n)))"
    using assms(1) unfolding reads_decimal_def length_bytes_of by blast
qed

section \<open>The line is read\<close>

text \<open>Names without characters that JSON escapes, values without a quote, backslash or end mark.\<close>

definition plain_name :: "string \<Rightarrow> bool" where
  "plain_name s \<longleftrightarrow> (\<forall>c \<in> set s. char2escape (of_char c) = None)"

definition raw_text :: "string \<Rightarrow> bool" where
  "raw_text s \<longleftrightarrow> (\<forall>c \<in> set (bytes_of s). c \<notin> {0, 34, 92})"

definition pair_value :: "string \<times> string \<Rightarrow> lua_val" where
  "pair_value p = LTable [(str_val (fst p), str_val (snd p))]"

definition record_value :: "nat \<Rightarrow> nat \<Rightarrow> (string \<times> string) list \<Rightarrow> lua_val" where
  "record_value tid n ps = LTable [(str_val ''data'', LTable [(str_val ''template'', LNumber (i2d (int tid))),
     (str_val ''nfields'', LNumber (i2d (int n))),
     (str_val ''fields'', LTable (zip (map array_index [1..<length ps + 1]) (map pair_value ps)))])]"

lemma bytes_of_append: "bytes_of (a @ b) = bytes_of a @ bytes_of b" "bytes_of (c # a) = of_char c # bytes_of a"
  by (simp_all add: bytes_of_def)

lemma quote_bytes: "\<forall>c \<in> set s. char2escape c = None \<Longrightarrow> json_quote s = 34 # s @ [34]"
proof -
  assume "\<forall>c \<in> set s. char2escape c = None"
  then have "concat (map json_char s) = s" by (induction s) (auto simp: json_char_def)
  then show ?thesis by (simp add: json_quote_def)
qed

lemma quote_plain: "plain_name s \<Longrightarrow> json_quote (bytes_of s) = 34 # bytes_of s @ [34]"
  by (rule quote_bytes) (auto simp: plain_name_def bytes_of_def)

lemma bytes_of_Nil: "bytes_of [] = []"
  by (simp add: bytes_of_def)

text \<open>An entry of an object: white space, key, text and value.\<close>

type_synonym json_entry = "byte list \<times> byte list \<times> byte list \<times> lua_val"

definition pair_entries :: "string \<times> string \<Rightarrow> json_entry list" where
  "pair_entries p = [([], bytes_of (fst p), 34 # bytes_of (snd p) @ [34], str_val (snd p))]"

definition pair_bytes :: "string \<times> string \<Rightarrow> byte list" where
  "pair_bytes p = [123] @ commas (map spaced_entry (pair_entries p)) @ [32] @ [125]"

lemma pair_bytes_text: "plain_name (fst p) \<Longrightarrow> bytes_of (pair_text p) = pair_bytes p"
  by (simp add: pair_text_def pair_bytes_def pair_entries_def spaced_entry_def entry_text_def quote_plain bytes_of_append) (simp add: bytes_of_def)

lemma reads_pair:
  assumes "dec_ok jenv cfg" "raw_text (snd p)"
  shows "reads jenv cfg tot 1 (pair_bytes p) (pair_value p)"
proof -
  have "reads jenv cfg tot 0 (34 # bytes_of (snd p) @ [34]) (str_val (snd p))"
    unfolding str_val_def by (rule reads_raw_string) (use assms(2) in \<open>simp add: raw_text_def\<close>)
  then have "reads jenv cfg tot (Suc 0) (pair_bytes p)
      (LTable (put_entries [] (map snd (pair_entries p))))"
    unfolding pair_bytes_def by (intro reads_spaced_object [OF assms(1)]) (auto simp: blank_def pair_entries_def)
  then show ?thesis by (simp add: pair_value_def pair_entries_def str_val_def)
qed

definition list_bytes :: "(string \<times> string) list \<Rightarrow> byte list" where
  "list_bytes ps = [91] @ commas (pair_bytes (hd ps) # map (\<lambda>p. [32] @ pair_bytes p) (tl ps)) @ [93]"

lemma reads_pairs:
  assumes "dec_ok jenv cfg" "ps \<noteq> []" "\<forall>p \<in> set ps. raw_text (snd p)" "length ps + 1 < 2 ^ 53"
  shows "reads jenv cfg tot 2 (list_bytes ps) (LTable (zip (map array_index [1..<length ps + 1]) (map pair_value ps)))"
proof -
  obtain p qs where ps: "ps = p # qs" using assms(2) by (cases ps) auto
  let ?wvs = "(pair_bytes p, pair_value p) # map (\<lambda>q. ([32] @ pair_bytes q, pair_value q)) qs"
  have r: "\<forall>(w, v) \<in> set ?wvs. reads jenv cfg tot 1 w v"
    using reads_pair [OF assms(1)] reads_blank [OF reads_pair [OF assms(1)], of _ "[32]"] assms(3) by (auto simp: ps blank_def)
  have b: "list_bytes ps = [91] @ commas (map fst ?wvs) @ [93]" by (simp add: list_bytes_def ps comp_def)
  have m: "map snd ?wvs = map pair_value ps" by (simp add: ps comp_def)
  have "reads jenv cfg tot (Suc 1) (list_bytes ps) (LTable (put_all [] 1 (map pair_value ps)))"
    unfolding b m [symmetric] by (rule reads_array [OF assms(1) _ r]) simp
  moreover have "put_all [] 1 (map pair_value ps) = zip (map array_index [1..<length ps + 1]) (map pair_value ps)"
    using put_all_zip [of 1 "map pair_value ps" "[]"] assms(4) by (simp add: add.commute)
  ultimately show ?thesis by (simp add: numeral_2_eq_2)
qed

definition inner_entries :: "nat \<Rightarrow> nat \<Rightarrow> (string \<times> string) list \<Rightarrow> json_entry list" where
  "inner_entries tid n ps =
     [([32], bytes_of ''template'', bytes_of (show_nat tid), LNumber (i2d (int tid))),
      ([32], bytes_of ''nfields'', bytes_of (show_nat n), LNumber (i2d (int n))),
      ([32], bytes_of ''fields'', [32] @ list_bytes ps, LTable (zip (map array_index [1..<length ps + 1]) (map pair_value ps)))]"

definition inner_bytes :: "nat \<Rightarrow> nat \<Rightarrow> (string \<times> string) list \<Rightarrow> byte list" where
  "inner_bytes tid n ps = [123] @ commas (map spaced_entry (inner_entries tid n ps)) @ [] @ [125]"

definition line_entries :: "nat \<Rightarrow> nat \<Rightarrow> (string \<times> string) list \<Rightarrow> json_entry list" where
  "line_entries tid n ps = [([32], bytes_of ''data'', inner_bytes tid n ps, LTable (put_entries [] (map snd (inner_entries tid n ps))))]"

definition line_bytes :: "nat \<Rightarrow> nat \<Rightarrow> (string \<times> string) list \<Rightarrow> byte list" where
  "line_bytes tid n ps = [123] @ commas (map spaced_entry (line_entries tid n ps)) @ [] @ [125]"

lemma spaced_pairs:
  "\<forall>p \<in> set ps. plain_name (fst p) \<Longrightarrow>
    bytes_of (concat (map (\<lambda>p. '', '' @ pair_text p) ps)) = concat (map (\<lambda>p. 44 # 32 # pair_bytes p) ps)"
proof (induction ps)
  case (Cons p ps)
  then show ?case by (simp add: bytes_of_append pair_bytes_text)
qed (simp add: bytes_of_def)

lemma line_bytes_text:
  assumes "ps \<noteq> []" "\<forall>p \<in> set ps. plain_name (fst p)"
  shows "bytes_of (line_text t ps) = line_bytes (te_tid t) (te_nfields t) ps"
proof -
  obtain p qs where ps: "ps = p # qs" using assms(1) by (cases ps) auto
  have "bytes_of (pair_text p @ concat (map (\<lambda>p. '', '' @ pair_text p) qs)) = pair_bytes p @ concat (map (\<lambda>p. 44 # 32 # pair_bytes p) qs)"
    using assms(2) spaced_pairs [of qs] by (simp add: ps bytes_of_append pair_bytes_text)
  then show ?thesis
    by (simp add: line_text_def ps line_bytes_def line_entries_def inner_bytes_def inner_entries_def list_bytes_def
        spaced_entry_def entry_text_def quote_bytes char2escape_def bytes_of_append comp_def bytes_of_Nil)
qed

lemma put_fresh:
  assumes "distinct (map fst es)"
  shows "put_entries [] es = map (\<lambda>(k, w, v). (LString k, v)) es"
  using put_entries_map [OF assms, of "[]"] by simp

lemma reads_line:
  assumes "dec_ok jenv cfg" "je_point jenv = ch CHR ''.''" "reads_decimal jenv tid" "reads_decimal jenv n"
    "ps \<noteq> []" "\<forall>p \<in> set ps. raw_text (snd p)" "length ps + 1 < 2 ^ 53"
  shows "reads jenv cfg tot 4 (line_bytes tid n ps) (record_value tid n ps)"
proof -
  have nb: "blank [32]" "blank []" by (simp_all add: blank_def)
  let ?inner = "LTable (put_entries [] (map snd (inner_entries tid n ps)))"
  have "reads jenv cfg tot 2 (bytes_of (show_nat k)) (LNumber (i2d (int k)))" if "reads_decimal jenv k" for k
    by (rule reads_decimal_number [OF that assms(2)])
  moreover have "reads jenv cfg tot 2 ([32] @ list_bytes ps) (LTable (zip (map array_index [1..<length ps + 1]) (map pair_value ps)))"
    by (rule reads_blank [OF reads_pairs [OF assms(1,5-7)] nb(1)])
  ultimately have "\<forall>(sp, k, w, v) \<in> set (inner_entries tid n ps). blank sp \<and> reads jenv cfg tot 2 w v"
    using nb(1) assms(3,4) unfolding inner_entries_def by simp
  then have i: "reads jenv cfg tot (Suc 2) (inner_bytes tid n ps) ?inner"
    unfolding inner_bytes_def by (intro reads_spaced_object [OF assms(1) _ _ nb(2)]) (simp_all add: inner_entries_def)
  have ks: "distinct [bytes_of ''template'', bytes_of ''nfields'', bytes_of ''fields'']" by (simp add: bytes_of_inject)
  have iv: "?inner = LTable [(str_val ''template'', LNumber (i2d (int tid))), (str_val ''nfields'', LNumber (i2d (int n))),
      (str_val ''fields'', LTable (zip (map array_index [1..<length ps + 1]) (map pair_value ps)))]"
    by (subst put_fresh) (use ks in \<open>simp_all add: inner_entries_def str_val_def\<close>)
  have "reads jenv cfg tot (Suc (Suc 2)) (line_bytes tid n ps) (LTable (put_entries [] (map snd (line_entries tid n ps))))"
    unfolding line_bytes_def by (intro reads_spaced_object [OF assms(1) _ _ nb(2)]) (use i nb(1) in \<open>simp_all add: line_entries_def\<close>)
  moreover have "LTable (put_entries [] (map snd (line_entries tid n ps))) = record_value tid n ps"
    using iv by (simp add: line_entries_def record_value_def str_val_def)
  ultimately show ?thesis by (simp add: eval_nat_numeral)
qed

lemma raw_append: "raw_text (a @ b) \<longleftrightarrow> raw_text a \<and> raw_text b"
  by (auto simp: raw_text_def bytes_of_def)

lemma line_no_nul:
  assumes "\<forall>p \<in> set ps. plain_name (fst p) \<and> raw_text (snd p)" "ps \<noteq> []"
  shows "0 \<notin> set (bytes_of (line_text t ps))"
proof -
  have n: "0 \<notin> set (bytes_of s)" if "plain_name s" for s
    using that by (auto simp: plain_name_def bytes_of_def char2escape_def)
  have p: "0 \<notin> set (bytes_of (pair_text p))" if "p \<in> set ps" for p
    using n [of "fst p"] assms(1) that by (auto simp: pair_text_def raw_text_def bytes_of_append bytes_of_Nil)
  have "0 \<notin> set (bytes_of (concat (map (\<lambda>p. '', '' @ pair_text p) qs)))" if "set qs \<subseteq> set ps" for qs
    using that by (induction qs) (use p in \<open>auto simp: bytes_of_append bytes_of_Nil\<close>)
  then have "0 \<notin> set (bytes_of (concat (map (\<lambda>p. '', '' @ pair_text p) (tl ps))))"
    using assms(2) by (cases ps) auto
  then show ?thesis
    using p [of "hd ps"] assms(2) decimal_plain(2) by (simp add: line_text_def bytes_of_append bytes_of_Nil)
qed

lemma line_length: "length ps \<le> length (line_text t ps)"
proof -
  have "length qs \<le> length (concat (map (\<lambda>p. '', '' @ pair_text p) qs))" for qs :: "(string \<times> string) list"
    by (induction qs) simp_all
  from this [of "tl ps"] show ?thesis by (simp add: line_text_def pair_text_def)
qed

lemma line_text_read:
  assumes "\<forall>n. je_mem jenv n" "dec_ok jenv cfg" "je_point jenv = ch CHR ''.''" "4 \<le> decode_max_depth cfg"
    and "reads_decimal jenv (te_tid t)" "reads_decimal jenv (te_nfields t)"
    and "ps \<noteq> []" "\<forall>p \<in> set ps. plain_name (fst p) \<and> raw_text (snd p)" "int (length (line_text t ps)) < INT_MAX"
  shows "json_decode jenv cfg [LString (bytes_of (line_text t ps))] = LReturn (record_value (te_tid t) (te_nfields t) ps)"
proof (rule decode_reads [OF assms(1), where h = 4])
  have l: "length ps + 1 < 2 ^ 53" using line_length [of ps t] assms(9) by (simp add: INT_MAX_def)
  have b: "bytes_of (line_text t ps) = line_bytes (te_tid t) (te_nfields t) ps"
    by (rule line_bytes_text [OF assms(7)]) (use assms(8) in blast)
  show "reads jenv cfg tot 4 (bytes_of (line_text t ps)) (record_value (te_tid t) (te_nfields t) ps)" for tot
    unfolding b by (rule reads_line [OF assms(2,3,5,6,7) _ l]) (use assms(8) in blast)
  show "0 \<notin> set (bytes_of (line_text t ps))" by (rule line_no_nul [OF assms(8,7)])
qed (use assms(4,9) in simp_all)

lemma data_line_read:
  assumes "\<forall>n. je_mem jenv n" "dec_ok jenv cfg" "je_point jenv = ch CHR ''.''" "4 \<le> decode_max_depth cfg"
    and "reads_decimal jenv (te_tid t)" "reads_decimal jenv (te_nfields t)"
    and "value_texts env sz (template_fields t) vs = Returned ps" "ps \<noteq> []"
    and "\<forall>p \<in> set ps. plain_name (fst p) \<and> raw_text (snd p)" "int (length (line_text t ps)) < INT_MAX"
  shows "data_line env sz t vs = Returned (line_text t ps @ NL)"
    "json_decode jenv cfg [LString (bytes_of (line_text t ps))] = LReturn (record_value (te_tid t) (te_nfields t) ps)"
  by (rule data_line_text [OF assms(7,8)]) (rule line_text_read [OF assms(1-6,8-10)])

text \<open>Numbers, addresses and plain bytes are printed without a character that would end the string.\<close>

lemma raw_chars: "(\<And>c. c \<in> set s \<Longrightarrow> (of_char c :: nat) \<notin> {0, 34, 92}) \<Longrightarrow> raw_text s"
  unfolding raw_text_def
proof (intro ballI)
  fix b assume a: "\<And>c. c \<in> set s \<Longrightarrow> (of_char c :: nat) \<notin> {0, 34, 92}" "b \<in> set (bytes_of s)"
  then obtain c where c: "c \<in> set s" "b = of_char c" by (auto simp: bytes_of_def)
  then have "unat b \<notin> {0, 34, 92}" using a(1) by (simp add: unat_of_char)
  then show "b \<notin> {0, 34, 92}" by auto
qed

lemma raw_show_nat: "raw_text (show_nat n)"
  by (rule raw_chars) (auto dest!: show_nat_digits simp: is_digit_def)

lemma raw_take: "raw_text s \<Longrightarrow> raw_text (take k s)"
  by (auto simp: raw_text_def bytes_of_def dest: in_set_takeD)

lemma raw_show_hex: "raw_text (show_hex n)"
proof (induction n rule: show_hex.induct)
  case (1 n)
  show ?case
  proof (cases "n < 16")
    case True
    then show ?thesis by (simp add: show_hex.simps [of n]) (auto intro!: raw_chars)
  next
    case False
    then show ?thesis using 1 by (simp add: show_hex.simps [of n] raw_append)
  qed
qed

lemma raw_hex_bytes: "raw_text (concat (map show_hex2 bs))"
  by (induction bs) (simp_all add: show_hex2_def raw_append raw_show_hex, simp add: raw_text_def bytes_of_def)

lemma raw_groups: "raw_text (ip6_groups b bs)"
  by (induction b bs rule: ip6_groups.induct) (auto simp: raw_append raw_show_hex, auto simp: raw_text_def bytes_of_def)

lemma raw_literals: "raw_text ''0x''" "raw_text ''err''" "raw_text ''.''" "raw_text ''-''"
  by (simp_all add: raw_text_def bytes_of_def)

lemma raw_snprint: "snprint_text sz t = Returned (n, s) \<Longrightarrow> raw_text t \<Longrightarrow> raw_text s"
  by (auto simp: snprint_text_def snprintf_def simp del: take_append intro: raw_take)

lemma raw_bytes_printed: "ipfix_snprint_bytes sz v = Returned (n, s) \<Longrightarrow> raw_text s"
proof (cases "sz < 4")
  case True
  then show "ipfix_snprint_bytes sz v = Returned (n, s) \<Longrightarrow> raw_text s"
    using raw_snprint raw_literals(2) by (simp only: ipfix_snprint_bytes_def if_True)
next
  case False
  assume "ipfix_snprint_bytes sz v = Returned (n, s)"
  then have "s = ''0x'' @ concat (map show_hex2 (take (shrink_len sz (length v)) v))"
    using False by (simp add: ipfix_snprint_bytes_def Let_def split: if_splits)
  then show "raw_text s" using raw_literals(1) raw_hex_bytes raw_append by blast
qed

lemma numbers_raw:
  assumes "run_snprint fmt h p sz v = Returned (n, s)" "p \<in> {Print_int, Print_uint, Print_ipaddr, Print_bytes}"
  shows "raw_text s"
proof -
  have i: "raw_text (show_int k)" for k
  proof (cases "k < 0")
    case True
    then show ?thesis using raw_literals(4) raw_show_nat raw_append unfolding show_int_def by (simp only: if_True)
  qed (simp add: show_int_def raw_show_nat)
  have a: "raw_text (show_nat a @ ''.'' @ show_nat b @ ''.'' @ show_nat c @ ''.'' @ show_nat d)" for a b c d
    by (simp only: raw_append raw_literals raw_show_nat simp_thms)
  from assms(2) consider "p = Print_int" | "p = Print_uint" | "p = Print_ipaddr" | "p = Print_bytes" by blast
  then show ?thesis
  proof cases
    case 1
    then have "\<exists>t. snprint_text sz t = Returned (n, s) \<and> raw_text t"
      using assms(1) raw_literals(2) i unfolding run_snprint_def ipfix_snprint_int_def by (auto split: if_splits)
    then show ?thesis using raw_snprint by blast
  next
    case 2
    then have "\<exists>t. snprint_text sz t = Returned (n, s) \<and> raw_text t"
      using assms(1) raw_literals(2) raw_show_nat unfolding run_snprint_def ipfix_snprint_uint_def by (auto split: if_splits)
    then show ?thesis using raw_snprint by blast
  next
    case 3
    then have e: "ipfix_snprint_ipaddr sz v = Returned (n, s)" using assms(1) by (simp add: run_snprint_def)
    show ?thesis
    proof (cases "length v = 4")
      case True
      show ?thesis using e unfolding ipfix_snprint_ipaddr_def if_P [OF True] by (rule raw_snprint [OF _ a])
    next
      case False
      show ?thesis
      proof (cases "length v = 16")
        case True
        show ?thesis using e unfolding ipfix_snprint_ipaddr_def if_not_P [OF False] if_P [OF True] by (rule raw_snprint [OF _ raw_groups])
      next
        case no: False
        show ?thesis using e unfolding ipfix_snprint_ipaddr_def if_not_P [OF False] if_not_P [OF no] by (rule raw_bytes_printed)
      qed
    qed
  next
    case 4
    then show ?thesis using assms(1) raw_bytes_printed by (auto simp: run_snprint_def)
  qed
qed

text \<open>C8. A data record of the collector reaches the scripts of the engine: for names without special
  characters and printed values without a quote, a backslash or an end mark, as those of numbers,
  addresses and bytes always are, the line that \<open>ipfix_mle_drecord\<close> writes is read by the JSON decoder as
  a table with the number of the template, the number of fields, and the names and values in the
  order of the record.\<close>

theorem mle_record_read:
  assumes "\<forall>n. je_mem jenv n" "dec_ok jenv cfg" "je_point jenv = ch CHR ''.''" "4 \<le> decode_max_depth cfg"
    and "reads_decimal jenv (te_tid (tn_template n))" "reads_decimal jenv (te_nfields (tn_template n))"
    and "value_texts env 2047 (template_fields (tn_template n)) vs = Returned ps" "ps \<noteq> []"
    and "\<forall>p \<in> set ps. plain_name (fst p) \<and> raw_text (snd p)" "int (length (line_text (tn_template n) ps)) < INT_MAX"
  shows "\<exists>l. ipfix_mle_drecord env (Some s) (Some n) (Some vs) fp = Returned (0, fp @ l @ NL)
    \<and> json_decode jenv cfg [LString (bytes_of l)] =
      LReturn (record_value (te_tid (tn_template n)) (te_nfields (tn_template n)) ps)"
  using data_line_read [OF assms]
  by (intro exI [of _ "line_text (tn_template n) ps"]) (simp add: ipfix_mle_drecord_def)

text \<open>A record of a counter and an address.\<close>

definition sample_field :: "string \<Rightarrow> ipfix_printer \<Rightarrow> ipfix_template_field" where
  "sample_field name p = \<lparr>tf_flength = 4, tf_unknown = False, tf_relay = False,
     tf_elem = Some \<lparr>fi_ft = \<lparr>ft_eno = 0, ft_ftype = 1, ft_length = 4, ft_coding = 2, ft_name = name, ft_documentation = ''''\<rparr>,
       fi_encode = Codec_int, fi_decode = Codec_int, fi_snprint = p\<rparr>\<rparr>"

definition sample_node :: ipfixt_node where
  "sample_node = \<lparr>tn_expire = 0, tn_template = \<lparr>te_type = DATA_TEMPLATE, te_tsend = 0, te_tid = 256, te_ndatafields = 2, te_nscopefields = 0,
     te_nfields = 2, te_fields = [sample_field ''packets'' Print_uint, sample_field ''source'' Print_ipaddr], te_maxfields = 2,
     te_odid = 0\<rparr>, tn_ident = ''''\<rparr>"

definition sample_out :: out_env where
  "sample_out = \<lparr>oe_host = \<lparr>ih_little = True, ih_flag = True\<rparr>, oe_float = (\<lambda>_. ''''), oe_time = (\<lambda>_. ''''), oe_ident = (\<lambda>_. ''''), oe_unset = 0\<rparr>"

text \<open>A reader of decimal digits.\<close>

definition decimal_env :: json_env where
  "decimal_env = example_env\<lparr>je_strtod := \<lambda>s.
     let ds = takeWhile (\<lambda>b. 48 \<le> b \<and> b \<le> 57) s in (i2d (int (dec_value (chars_of ds))), length ds)\<rparr>"

lemma decimal_env_reads: "reads_decimal decimal_env n"
  unfolding reads_decimal_def
proof (intro allI impI)
  fix r :: "byte list" assume r: "r = [] \<or> hd r \<in> {32, 44, 93, 125}"
  have "48 \<le> b \<and> b \<le> 57" if b: "b \<in> set (bytes_of (show_nat n))" for b
  proof -
    obtain c where c: "c \<in> set (show_nat n)" "b = of_char c" using b by (auto simp: bytes_of_def)
    then have "48 \<le> unat b" "unat b \<le> 57" using show_nat_digits [OF c(1)] by (simp_all add: is_digit_def unat_of_char)
    then show ?thesis by (simp add: word_le_nat_alt)
  qed
  moreover have "takeWhile (\<lambda>b. 48 \<le> b \<and> b \<le> 57) r = []" using r by (cases r) auto
  ultimately have "takeWhile (\<lambda>b. 48 \<le> b \<and> b \<le> 57) (bytes_of (show_nat n) @ r) = bytes_of (show_nat n)"
    by (simp add: takeWhile_append2)
  then show "je_strtod decimal_env (bytes_of (show_nat n) @ r) = (i2d (int n), length (show_nat n))"
    by (simp add: decimal_env_def Let_def)
qed

lemma sample_line:
  "16 \<le> sz \<Longrightarrow> value_texts sample_out sz (template_fields (tn_template sample_node)) [[7, 0, 0, 0], [10, 0, 0, 1]] =
    Returned [(''packets'', ''7''), (''source'', ''10.0.0.1'')]"
proof -
  assume sz: "16 \<le> sz"
  have d: "show_nat 7 = ''7''" "show_nat 10 = ''10''" "show_nat 0 = ''0''" "show_nat 1 = ''1''"
    by (simp_all add: show_nat.simps digit_char_def char_of_def bit_0)
  have v: "host_nat \<lparr>ih_little = True, ih_flag = True\<rparr> [7, 0, 0, 0] = 7"
    by (simp add: host_nat_def hton_def be_nat_def)
  have "ipfix_snprint_uint \<lparr>ih_little = True, ih_flag = True\<rparr> sz [7, 0, 0, 0] = Returned (1, ''7'')"
    by (simp add: ipfix_snprint_uint_def snprint_text_def snprintf_def v d(1)) (use sz in simp)
  moreover have "ipfix_snprint_ipaddr sz [10, 0, 0, 1] = Returned (8, ''10.0.0.1'')"
    using d sz by (simp add: ipfix_snprint_ipaddr_def snprint_text_def snprintf_def)
  moreover have "template_fields (tn_template sample_node) = [sample_field ''packets'' Print_uint, sample_field ''source'' Print_ipaddr]"
    by (simp add: sample_node_def template_fields_def)
  ultimately show ?thesis
    by (simp add: sample_field_def with_element_def run_snprint_def sample_out_def)
qed

theorem mle_record_read_witness:
  "\<exists>l. ipfix_mle_drecord sample_out (Some \<lparr>so_odid = 1, so_input = IPFIX_INPUT_FILE '''', so_templates = []\<rparr>) (Some sample_node)
      (Some [[7, 0, 0, 0], [10, 0, 0, 1]]) '''' = Returned (0, l @ NL)
    \<and> json_decode decimal_env example_config [LString (bytes_of l)] =
      LReturn (record_value 256 2 [(''packets'', ''7''), (''source'', ''10.0.0.1'')])"
proof -
  have t: "te_tid (tn_template sample_node) = 256" "te_nfields (tn_template sample_node) = 2" by (simp_all add: sample_node_def)
  have "show_nat 256 = ''256''" "show_nat 2 = ''2''" by (simp_all add: show_nat.simps digit_char_def char_of_def bit_0)
  then have "length (line_text (tn_template sample_node) [(''packets'', ''7''), (''source'', ''10.0.0.1'')]) < 200"
    by (simp add: line_text_def pair_text_def t)
  then have l: "int (length (line_text (tn_template sample_node) [(''packets'', ''7''), (''source'', ''10.0.0.1'')])) < INT_MAX"
    by (simp add: INT_MAX_def)
  have p: "\<forall>p \<in> set [(''packets'', ''7''), (''source'', ''10.0.0.1'')]. plain_name (fst p) \<and> raw_text (snd p)"
    by (simp add: plain_name_def raw_text_def bytes_of_def char2escape_def)
  have c: "dec_ok decimal_env example_config" "je_point decimal_env = ch CHR ''.''" "\<forall>n. je_mem decimal_env n"
      "4 \<le> decode_max_depth example_config"
    by (simp_all add: dec_ok_def decimal_env_def example_env_def ch_def example_config_simps)
  show ?thesis
    using mle_record_read [OF c(3,1,2,4) decimal_env_reads decimal_env_reads sample_line [of 2047] _ p l,
        of "\<lparr>so_odid = 1, so_input = IPFIX_INPUT_FILE '''', so_templates = []\<rparr>" "''''"] by (simp add: t)
qed

section \<open>Headers and templates in files\<close>

definition object_bytes :: "json_entry list \<Rightarrow> byte list \<Rightarrow> byte list" where
  "object_bytes es esp = [123] @ commas (map spaced_entry es) @ esp @ [125]"

definition object_value :: "json_entry list \<Rightarrow> lua_val" where
  "object_value es = LTable (map (\<lambda>(sp, k, w, v). (LString k, v)) es)"

lemma reads_fresh_object:
  assumes "dec_ok jenv cfg" "es \<noteq> []" "\<forall>(sp, k, w, v) \<in> set es. blank sp \<and> reads jenv cfg tot h w v" "blank esp"
    "distinct (map (fst \<circ> snd) es)"
  shows "reads jenv cfg tot (Suc h) (object_bytes es esp) (object_value es)"
proof -
  have d: "distinct (map fst (map snd es))" using assms(5) by (simp add: comp_def)
  have "LTable (put_entries [] (map snd es)) = object_value es"
    by (subst put_fresh [OF d]) (simp add: object_value_def comp_def split_beta)
  then show ?thesis using reads_spaced_object [OF assms(1-4)] by (simp add: object_bytes_def)
qed

definition number_entry :: "byte list \<Rightarrow> string \<Rightarrow> nat \<Rightarrow> json_entry" where
  "number_entry sp k n = (sp, bytes_of k, bytes_of (show_nat n), LNumber (i2d (int n)))"

text \<open>The header of an IPFIX message.\<close>

definition header_entries :: "ipfix_hdr \<Rightarrow> json_entry list" where
  "header_entries hdr = [number_entry [] ''version'' (hd_version hdr), number_entry [] ''length'' (hd_length hdr),
     number_entry [32] ''unixtime'' (hd_exporttime hdr), number_entry [32] ''seqno'' (hd_seqno hdr),
     number_entry [32] ''odid'' (hd_sourceid hdr)]"

definition whole_line :: "string \<Rightarrow> json_entry list \<Rightarrow> byte list" where
  "whole_line k es = object_bytes [([32], bytes_of k, object_bytes es [], object_value es)] []"

lemma reads_whole_line:
  assumes "dec_ok jenv cfg" "es \<noteq> []" "\<forall>(sp, k, w, v) \<in> set es. blank sp \<and> reads jenv cfg tot h w v"
    "distinct (map (fst \<circ> snd) es)"
  shows "reads jenv cfg tot (Suc (Suc h)) (whole_line k es) (LTable [(str_val k, object_value es)])"
proof -
  have b: "blank [32]" "blank []" by (simp_all add: blank_def)
  have "reads jenv cfg tot (Suc h) (object_bytes es []) (object_value es)"
    by (rule reads_fresh_object [OF assms(1-3) b(2) assms(4)])
  then have "reads jenv cfg tot (Suc (Suc h)) (whole_line k es)
      (object_value [([32], bytes_of k, object_bytes es [], object_value es)])"
    unfolding whole_line_def by (intro reads_fresh_object [OF assms(1) _ _ b(2)]) (use b(1) in simp_all)
  then show ?thesis by (simp add: object_value_def [of "[_]"] str_val_def)
qed

lemma header_line_bytes:
  assumes "\<not> is_nf9 hdr"
  shows "\<exists>l. header_line hdr = l @ NL \<and> bytes_of l = whole_line ''ipfix-header'' (header_entries hdr) \<and> 0 \<notin> set (bytes_of l)"
proof -
  let ?l = "''{ \"ipfix-header\":{\"version\":'' @ show_nat (hd_version hdr) @ '','' @
    ''\"length\":'' @ show_nat (hd_length hdr) @ '', '' @ ''\"unixtime\":'' @ show_nat (hd_exporttime hdr) @ '', '' @
    ''\"seqno\":'' @ show_nat (hd_seqno hdr) @ '', '' @ ''\"odid\":'' @ show_nat (hd_sourceid hdr) @ ''}}''"
  have "header_line hdr = ?l @ NL" using assms by (simp add: header_line_def)
  moreover have "bytes_of ?l = whole_line ''ipfix-header'' (header_entries hdr)"
    by (simp add: whole_line_def object_bytes_def header_entries_def number_entry_def spaced_entry_def entry_text_def
        quote_bytes char2escape_def bytes_of_append bytes_of_Nil)
  moreover have "0 \<notin> set (bytes_of ?l)" using decimal_plain(2) by (simp add: bytes_of_append bytes_of_Nil)
  ultimately show ?thesis by blast
qed

text \<open>The elements of a template: enterprise number, type and name.\<close>

definition element_entries :: "ipfix_field \<Rightarrow> json_entry list" where
  "element_entries e = [number_entry [] ''ie'' (nat (ft_eno (fi_ft e) mod 2 ^ 32)), number_entry [32] ''type'' (nat (ft_ftype (fi_ft e) mod 2 ^ 32)),
     ([32], bytes_of ''name'', 34 # bytes_of (ft_name (fi_ft e)) @ [34], str_val (ft_name (fi_ft e)))]"

lemma element_text_bytes: "bytes_of (element_text e) = object_bytes (element_entries e) [32]"
  by (simp add: element_text_def fmt_u_def object_bytes_def element_entries_def number_entry_def spaced_entry_def entry_text_def
      quote_bytes char2escape_def bytes_of_append bytes_of_Nil)

lemma reads_element:
  assumes "dec_ok jenv cfg" "je_point jenv = ch CHR ''.''" "\<forall>n < 2 ^ 32. reads_decimal jenv n" "raw_text (ft_name (fi_ft e))"
  shows "reads jenv cfg tot 1 (object_bytes (element_entries e) [32]) (object_value (element_entries e))"
proof -
  have n: "reads jenv cfg tot 0 (bytes_of (show_nat (nat (k mod 2 ^ 32)))) (LNumber (i2d (int (nat (k mod 2 ^ 32)))))" for k
    by (rule reads_decimal_number [OF _ assms(2)]) (use assms(3) in \<open>simp add: nat_less_iff\<close>)
  have s: "reads jenv cfg tot 0 (34 # bytes_of (ft_name (fi_ft e)) @ [34]) (str_val (ft_name (fi_ft e)))"
    unfolding str_val_def by (rule reads_raw_string) (use assms(4) in \<open>simp add: raw_text_def\<close>)
  have b: "blank [32]" "blank []" by (simp_all add: blank_def)
  have d: "distinct (map (fst \<circ> snd) (element_entries e))"
    by (simp add: element_entries_def number_entry_def bytes_of_inject)
  have "reads jenv cfg tot (Suc 0) (object_bytes (element_entries e) [32]) (object_value (element_entries e))"
    by (rule reads_fresh_object [OF assms(1) _ _ b(1) d]) (use n s b in \<open>simp_all add: element_entries_def number_entry_def\<close>)
  then show ?thesis by simp
qed

definition template_elems :: "ipfix_template \<Rightarrow> ipfix_field list" where
  "template_elems t = map (\<lambda>tf. the (tf_elem tf)) (template_fields t)"

definition elements_text :: "ipfix_field list \<Rightarrow> string" where
  "elements_text es = element_text (hd es) @ concat (map (\<lambda>e. '', '' @ element_text e) (tl es))"

definition elements_bytes_inside :: "ipfix_field list \<Rightarrow> byte list" where
  "elements_bytes_inside es = commas (object_bytes (element_entries (hd es)) [32] #
     map (\<lambda>e. [32] @ object_bytes (element_entries e) [32]) (tl es))"

definition elements_bytes :: "ipfix_field list \<Rightarrow> byte list" where
  "elements_bytes es = [91] @ elements_bytes_inside es @ [93]"

definition elements_value :: "ipfix_field list \<Rightarrow> lua_val" where
  "elements_value es = LTable (zip (map array_index [1..<length es + 1]) (map (\<lambda>e. object_value (element_entries e)) es))"

lemma reads_spaced_array:
  assumes "dec_ok jenv cfg" "xs \<noteq> []" "\<forall>x \<in> set xs. reads jenv cfg tot h (f x) (g x)" "length xs + 1 < 2 ^ 53"
  shows "reads jenv cfg tot (Suc h) ([91] @ commas (f (hd xs) # map (\<lambda>x. [32] @ f x) (tl xs)) @ [93])
    (LTable (zip (map array_index [1..<length xs + 1]) (map g xs)))"
proof -
  obtain p qs where ps: "xs = p # qs" using assms(2) by (cases xs) auto
  let ?wvs = "(f p, g p) # map (\<lambda>q. ([32] @ f q, g q)) qs"
  have "reads jenv cfg tot h ([32] @ f q) (g q)" if "q \<in> set xs" for q
    by (rule reads_blank) (use assms(3) that in \<open>simp_all add: blank_def\<close>)
  then have r: "\<forall>(w, v) \<in> set ?wvs. reads jenv cfg tot h w v" using assms(3) by (auto simp: ps)
  have b: "commas (f (hd xs) # map (\<lambda>x. [32] @ f x) (tl xs)) = commas (map fst ?wvs)" by (simp add: ps comp_def)
  have m: "map snd ?wvs = map g xs" by (simp add: ps comp_def)
  have "reads jenv cfg tot (Suc h) ([91] @ commas (map fst ?wvs) @ [93]) (LTable (put_all [] 1 (map g xs)))"
    unfolding m [symmetric] by (rule reads_array [OF assms(1) _ r]) simp
  then show ?thesis
    unfolding b using put_all_zip [of 1 "map g xs" "[]"] assms(4) by (simp add: add.commute)
qed

lemma spaced_elements:
  "bytes_of (concat (map (\<lambda>e. CHR '','' # CHR '' '' # element_text e) es)) = concat (map (\<lambda>e. 44 # 32 # object_bytes (element_entries e) [32]) es)"
  by (induction es) (simp_all add: bytes_of_append bytes_of_Nil element_text_bytes)

lemma field_loop_rest:
  "\<forall>tf \<in> set tfs. tf_elem tf \<noteq> None \<Longrightarrow> i > 0 \<Longrightarrow>
    field_loop sep (\<lambda>i tf e. f e) i tfs = Returned (concat (map (\<lambda>e. sep @ f e) (map (\<lambda>tf. the (tf_elem tf)) tfs)))"
proof (induction tfs arbitrary: i)
  case (Cons tf tfs)
  then obtain e where "tf_elem tf = Some e" by auto
  with Cons show ?case by (simp add: with_element_def)
qed simp

lemma field_loop_elements:
  assumes "\<forall>tf \<in> set tfs. tf_elem tf \<noteq> None" "tfs \<noteq> []"
  shows "field_loop '', '' (\<lambda>i tf e. element_text e) 0 tfs = Returned (elements_text (map (\<lambda>tf. the (tf_elem tf)) tfs))"
proof -
  obtain tf r where tfs: "tfs = tf # r" using assms(2) by (cases tfs) auto
  then obtain e where "tf_elem tf = Some e" using assms(1) by auto
  then show ?thesis
    using field_loop_rest [of r 1 "'', ''" element_text] assms(1) by (simp add: tfs with_element_def elements_text_def comp_def)
qed

definition template_entries :: "ipfix_template \<Rightarrow> json_entry list" where
  "template_entries t = [number_entry [32] ''id'' (te_tid t), number_entry [32] ''nfields'' (te_nfields t),
     ([32], bytes_of ''fields'', elements_bytes (template_elems t), elements_value (template_elems t))]"

lemma template_line_bytes:
  assumes "\<forall>tf \<in> set (template_fields t). tf_elem tf \<noteq> None" "template_fields t \<noteq> []"
    and "\<forall>e \<in> set (template_elems t). raw_text (ft_name (fi_ft e))"
  shows "\<exists>l. template_line t = Returned (l @ NL) \<and> bytes_of l = whole_line ''template'' (template_entries t) \<and> 0 \<notin> set (bytes_of l)"
proof -
  let ?l = "''{ \"template\":{ \"id\":'' @ show_nat (te_tid t) @ '', \"nfields\":'' @ show_nat (te_nfields t) @
       '', \"fields\":['' @ elements_text (template_elems t) @ '']}}''"
  have "field_loop '', '' (\<lambda>i tf e. element_text e) 0 (template_fields t) = Returned (elements_text (template_elems t))"
    unfolding template_elems_def by (rule field_loop_elements [OF assms(1,2)])
  then have "template_line t = Returned (?l @ NL)"
    by (simp add: template_line_def)
  moreover have "bytes_of ?l = whole_line ''template'' (template_entries t)"
  proof -
    have e: "bytes_of (elements_text es) = elements_bytes_inside es" for es
      by (simp add: elements_text_def elements_bytes_inside_def bytes_of_append element_text_bytes spaced_elements comp_def)
    have "object_bytes (template_entries t) [] = bytes_of (''{ \"id\":'' @ show_nat (te_tid t) @ '', \"nfields\":'' @ show_nat (te_nfields t) @
        '', \"fields\":['' @ elements_text (template_elems t) @ '']}'')"
      by (simp add: object_bytes_def template_entries_def number_entry_def spaced_entry_def entry_text_def quote_bytes char2escape_def
          bytes_of_append bytes_of_Nil e elements_bytes_def)
    then show ?thesis
      by (simp add: whole_line_def object_bytes_def [of "[_]"] spaced_entry_def entry_text_def quote_bytes char2escape_def
        bytes_of_append bytes_of_Nil)
  qed
  moreover have "0 \<notin> set (bytes_of ?l)"
  proof -
    have e: "0 \<notin> set (bytes_of (element_text e))" if "e \<in> set (template_elems t)" for e
      using assms(3) that decimal_plain(2) by (auto simp: element_text_def fmt_u_def bytes_of_append bytes_of_Nil raw_text_def)
    have "0 \<notin> set (bytes_of (concat (map (\<lambda>e. '', '' @ element_text e) es)))" if "set es \<subseteq> set (template_elems t)" for es
      using that by (induction es) (use e in \<open>auto simp: bytes_of_append bytes_of_Nil\<close>)
    moreover have "template_elems t \<noteq> []" using assms(2) by (simp add: template_elems_def)
    ultimately have "0 \<notin> set (bytes_of (elements_text (template_elems t)))"
      using e by (cases "template_elems t") (auto simp: elements_text_def bytes_of_append)
    then show ?thesis using decimal_plain(2) by (simp add: bytes_of_append bytes_of_Nil)
  qed
  ultimately show ?thesis by blast
qed

definition header_value :: "ipfix_hdr \<Rightarrow> lua_val" where
  "header_value hdr = LTable [(str_val ''ipfix-header'', LTable [(str_val ''version'', LNumber (i2d (int (hd_version hdr)))),
     (str_val ''length'', LNumber (i2d (int (hd_length hdr)))), (str_val ''unixtime'', LNumber (i2d (int (hd_exporttime hdr)))),
     (str_val ''seqno'', LNumber (i2d (int (hd_seqno hdr)))), (str_val ''odid'', LNumber (i2d (int (hd_sourceid hdr))))])]"

definition element_value :: "ipfix_field \<Rightarrow> lua_val" where
  "element_value e = LTable [(str_val ''ie'', LNumber (i2d (ft_eno (fi_ft e) mod 2 ^ 32))),
     (str_val ''type'', LNumber (i2d (ft_ftype (fi_ft e) mod 2 ^ 32))), (str_val ''name'', str_val (ft_name (fi_ft e)))]"

definition template_value :: "ipfix_template \<Rightarrow> lua_val" where
  "template_value t = LTable [(str_val ''template'', LTable [(str_val ''id'', LNumber (i2d (int (te_tid t)))),
     (str_val ''nfields'', LNumber (i2d (int (te_nfields t)))),
     (str_val ''fields'', LTable (zip (map array_index [1..<length (template_elems t) + 1]) (map element_value (template_elems t))))])]"

lemma header_object: "LTable [(str_val ''ipfix-header'', object_value (header_entries hdr))] = header_value hdr"
  by (simp add: object_value_def header_entries_def number_entry_def header_value_def str_val_def)

lemma element_object: "object_value (element_entries e) = element_value e"
  by (simp add: object_value_def element_entries_def number_entry_def element_value_def str_val_def)

lemma template_object: "LTable [(str_val ''template'', object_value (template_entries t))] = template_value t"
  unfolding template_entries_def elements_value_def element_object template_value_def
  by (simp add: object_value_def number_entry_def str_val_def del: upt_Suc)

text \<open>What is relied on of the decoder's environment, and the numbers of a header.\<close>

definition decodes_lines :: "json_env \<Rightarrow> json_config \<Rightarrow> bool" where
  "decodes_lines jenv cfg \<longleftrightarrow> (\<forall>n. je_mem jenv n) \<and> dec_ok jenv cfg \<and> je_point jenv = ch CHR ''.'' \<and> 4 \<le> decode_max_depth cfg
     \<and> (\<forall>n < 2 ^ 32. reads_decimal jenv n)"

definition header_numbers :: "ipfix_hdr \<Rightarrow> bool" where
  "header_numbers hdr \<longleftrightarrow> (\<forall>n \<in> {hd_version hdr, hd_length hdr, hd_exporttime hdr, hd_seqno hdr, hd_sourceid hdr}. n < 2 ^ 32)"

lemma whole_line_read:
  assumes "decodes_lines jenv cfg" "es \<noteq> []" "\<And>tot. \<forall>(sp, k, w, v) \<in> set es. blank sp \<and> reads jenv cfg tot h w v"
    "distinct (map (fst \<circ> snd) es)" "h \<le> 2" "bytes_of l = whole_line k es" "0 \<notin> set (bytes_of l)" "int (length l) < INT_MAX"
  shows "json_decode jenv cfg [LString (bytes_of l)] = LReturn (LTable [(str_val k, object_value es)])"
proof (rule decode_reads [where h = "Suc (Suc h)"])
  show "\<forall>n. je_mem jenv n" using assms(1) by (simp add: decodes_lines_def)
  show "reads jenv cfg tot (Suc (Suc h)) (bytes_of l) (LTable [(str_val k, object_value es)])" for tot
    unfolding assms(6) by (rule reads_whole_line [OF _ assms(2,3,4)]) (use assms(1) in \<open>simp add: decodes_lines_def\<close>)
  show "int (Suc (Suc h)) \<le> decode_max_depth cfg" using assms(1,5) by (simp add: decodes_lines_def)
  show "0 \<notin> set (bytes_of l)" by (rule assms(7))
  show "int (length (bytes_of l)) < INT_MAX" using assms(8) by simp
qed

lemma header_read:
  assumes "decodes_lines jenv cfg" "\<not> is_nf9 hdr" "header_numbers hdr" "int (length (header_line hdr)) < INT_MAX"
  shows "\<exists>l. header_line hdr = l @ NL \<and> json_decode jenv cfg [LString (bytes_of l)] = LReturn (header_value hdr)"
proof -
  obtain l where l: "header_line hdr = l @ NL" "bytes_of l = whole_line ''ipfix-header'' (header_entries hdr)" "0 \<notin> set (bytes_of l)"
    using header_line_bytes [OF assms(2)] by blast
  have p: "je_point jenv = ch CHR ''.''" using assms(1) by (simp add: decodes_lines_def)
  have n: "reads jenv cfg tot 0 (bytes_of (show_nat n)) (LNumber (i2d (int n)))" if "n < 2 ^ 32" for tot n
    by (rule reads_decimal_number [OF _ p]) (use assms(1) that in \<open>simp add: decodes_lines_def\<close>)
  have e: "\<forall>(sp, k, w, v) \<in> set (header_entries hdr). blank sp \<and> reads jenv cfg tot 0 w v" for tot
    using n assms(3) by (simp add: header_entries_def number_entry_def blank_def header_numbers_def)
  have d: "distinct (map (fst \<circ> snd) (header_entries hdr))" by (simp add: header_entries_def number_entry_def bytes_of_inject)
  have "int (length l) < INT_MAX" using assms(4) by (simp add: l(1))
  then have "json_decode jenv cfg [LString (bytes_of l)] = LReturn (header_value hdr)"
    unfolding header_object [symmetric]
    by (intro whole_line_read [OF assms(1) _ e d _ l(2,3)]) (simp_all add: header_entries_def)
  then show ?thesis using l(1) by blast
qed

definition readable_template :: "ipfix_template \<Rightarrow> bool" where
  "readable_template t \<longleftrightarrow> te_tid t < 2 ^ 32 \<and> te_nfields t < 2 ^ 32 \<and> template_fields t \<noteq> [] \<and>
     (\<forall>tf \<in> set (template_fields t). case tf_elem tf of None \<Rightarrow> False
        | Some e \<Rightarrow> plain_name (ft_name (fi_ft e)) \<and> raw_text (ft_name (fi_ft e)))"

lemma readable_elems:
  assumes "readable_template t"
  shows "\<forall>tf \<in> set (template_fields t). tf_elem tf \<noteq> None" "\<forall>e \<in> set (template_elems t). raw_text (ft_name (fi_ft e))"
    "template_elems t \<noteq> []"
  using assms unfolding readable_template_def template_elems_def by (force split: option.splits)+

lemma template_read:
  assumes "decodes_lines jenv cfg" "readable_template t" "\<And>l. template_line t = Returned l \<Longrightarrow> int (length l) < INT_MAX"
  shows "\<exists>l. template_line t = Returned (l @ NL) \<and> json_decode jenv cfg [LString (bytes_of l)] = LReturn (template_value t)"
proof -
  note r = readable_elems [OF assms(2)]
  have ne: "template_fields t \<noteq> []" and tn: "te_tid t < 2 ^ 32" "te_nfields t < 2 ^ 32" using assms(2) by (simp_all add: readable_template_def)
  obtain l where l: "template_line t = Returned (l @ NL)" "bytes_of l = whole_line ''template'' (template_entries t)" "0 \<notin> set (bytes_of l)"
    using template_line_bytes [OF r(1) ne r(2)] by blast
  have c: "dec_ok jenv cfg" "je_point jenv = ch CHR ''.''" "\<forall>n < 2 ^ 32. reads_decimal jenv n"
    using assms(1) by (simp_all add: decodes_lines_def)
  have n: "reads jenv cfg tot 2 (bytes_of (show_nat k)) (LNumber (i2d (int k)))" if "k < 2 ^ 32" for tot k
    by (rule reads_decimal_number [OF _ c(2)]) (use c(3) that in simp)
  have len: "length (template_elems t) + 1 < 2 ^ 53"
  proof -
    have "length (template_elems t) \<le> te_nfields t" by (simp add: template_elems_def template_fields_def)
    then show ?thesis using tn(2) by simp
  qed
  have "reads jenv cfg tot 2 (elements_bytes (template_elems t)) (elements_value (template_elems t))" for tot
    unfolding elements_bytes_def elements_bytes_inside_def elements_value_def numeral_2_eq_2
    by (rule reads_spaced_array [OF c(1) r(3) _ len]) (use reads_element [OF c] r(2) in simp)
  then have e: "\<forall>(sp, k, w, v) \<in> set (template_entries t). blank sp \<and> reads jenv cfg tot 2 w v" for tot
    using n tn by (simp add: template_entries_def number_entry_def blank_def)
  have d: "distinct (map (fst \<circ> snd) (template_entries t))" by (simp add: template_entries_def number_entry_def bytes_of_inject)
  have "int (length l) < INT_MAX" using assms(3) [OF l(1)] by simp
  then have "json_decode jenv cfg [LString (bytes_of l)] = LReturn (template_value t)"
    unfolding template_object [symmetric]
    by (intro whole_line_read [OF assms(1) _ e d _ l(2,3)]) (simp_all add: template_entries_def)
  then show ?thesis using l(1) by blast
qed

text \<open>A file of a source is read by the same decoder line by line: after the header of an IPFIX
  message, its template and a data record, the file has three lines more; the first is read as the
  header with its five numbers, the second as the template with its elements, and the third as the
  record of the names and values.\<close>

theorem file_lines_read:
  assumes "decodes_lines jenv cfg" "fs_fp s = Some fp" "\<not> is_nf9 hdr" "header_numbers hdr" "readable_template (tn_template n)"
    and "int (length (header_line hdr)) < INT_MAX" "\<And>l. template_line (tn_template n) = Returned l \<Longrightarrow> int (length l) < INT_MAX"
    and "value_texts env 2048 (template_fields (tn_template n)) vs = Returned ps" "ps \<noteq> []"
    and "\<forall>p \<in> set ps. plain_name (fst p) \<and> raw_text (snd p)" "int (length (line_text (tn_template n) ps)) < INT_MAX"
  shows "\<exists>l1 l2 l3 s1 s2. export_newmsg_file hdr s = (0, s1) \<and> export_trecord_file (Some n) s1 = Returned (0, s2)
    \<and> export_drecord_file env n vs s2 = Returned (0, s\<lparr>fs_fp := Some (fp @ l1 @ NL @ l2 @ NL @ l3 @ NL)\<rparr>)
    \<and> json_decode jenv cfg [LString (bytes_of l1)] = LReturn (header_value hdr)
    \<and> json_decode jenv cfg [LString (bytes_of l2)] = LReturn (template_value (tn_template n))
    \<and> json_decode jenv cfg [LString (bytes_of l3)] =
        LReturn (record_value (te_tid (tn_template n)) (te_nfields (tn_template n)) ps)"
proof -
  have c: "\<forall>n. je_mem jenv n" "dec_ok jenv cfg" "je_point jenv = ch CHR ''.''" "4 \<le> decode_max_depth cfg"
    "reads_decimal jenv (te_tid (tn_template n))" "reads_decimal jenv (te_nfields (tn_template n))"
    using assms(1,5) by (simp_all add: decodes_lines_def readable_template_def)
  obtain l1 where l1: "header_line hdr = l1 @ NL" "json_decode jenv cfg [LString (bytes_of l1)] = LReturn (header_value hdr)"
    using header_read [OF assms(1,3,4,6)] by blast
  obtain l2 where l2: "template_line (tn_template n) = Returned (l2 @ NL)"
    "json_decode jenv cfg [LString (bytes_of l2)] = LReturn (template_value (tn_template n))"
    using template_read [OF assms(1,5,7)] by blast
  note l3 = data_line_read [OF c assms(8-11)]
  show ?thesis
    by (rule exI [of _ l1], rule exI [of _ l2], rule exI [of _ "line_text (tn_template n) ps"])
      (use assms(2) l1 l2 l3 in \<open>simp add: export_newmsg_file_def export_trecord_file_def export_drecord_file_def to_file_def with_template_def\<close>)
qed

definition sample_hdr :: ipfix_hdr where
  "sample_hdr = \<lparr>hd_version = 10, hd_count = 0, hd_sysuptime = 0, hd_unixtime = 0, hd_length = 40, hd_exporttime = 1500000000,
     hd_seqno = 7, hd_sourceid = 1\<rparr>"

definition sample_file :: file_source where
  "sample_file = \<lparr>so_odid = 1, so_input = IPFIX_INPUT_FILE '''', so_templates = [], fs_fname = '''', fs_fp = Some ''''\<rparr>"

lemma sample_template_fields:
  "template_fields (tn_template sample_node) = [sample_field ''packets'' Print_uint, sample_field ''source'' Print_ipaddr]"
  by (simp add: sample_node_def template_fields_def)

lemma sample_digits: "show_nat 0 = ''0''" "show_nat 1 = ''1''" "show_nat 2 = ''2''" "show_nat 7 = ''7''" "show_nat 10 = ''10''"
    "show_nat 40 = ''40''" "show_nat 256 = ''256''"
  by (simp_all add: show_nat.simps digit_char_def char_of_def bit_0)

lemma show_nat_length: "n < 10 ^ Suc k \<Longrightarrow> length (show_nat n) \<le> Suc k"
proof (induction k arbitrary: n)
  case (Suc k)
  then show ?case using Suc.IH [of "n div 10"] by (subst show_nat.simps) (simp add: less_mult_imp_div_less)
qed (simp add: show_nat.simps)

lemma sample_lengths:
  "int (length (header_line sample_hdr)) < INT_MAX"
  "template_line (tn_template sample_node) = Returned l \<Longrightarrow> int (length l) < INT_MAX"
  "int (length (line_text (tn_template sample_node) [(''packets'', ''7''), (''source'', ''10.0.0.1'')])) < INT_MAX"
proof -
  have t: "te_tid (tn_template sample_node) = 256" "te_nfields (tn_template sample_node) = 2" by (simp_all add: sample_node_def)
  have "length (show_nat 1500000000) \<le> 10" using show_nat_length [of 1500000000 9] by simp
  then have "length (header_line sample_hdr) < 200"
    using sample_digits by (simp add: header_line_def sample_hdr_def is_nf9_def IPFIX_VERSION_NF9_def NL_def)
  then show "int (length (header_line sample_hdr)) < INT_MAX" by (simp add: INT_MAX_def)
  assume "template_line (tn_template sample_node) = Returned l"
  then have "length l < 200"
    using sample_digits by (auto simp: template_line_def sample_template_fields sample_field_def with_element_def element_text_def fmt_u_def t NL_def)
  then show "int (length l) < INT_MAX" by (simp add: INT_MAX_def)
next
  have t: "te_tid (tn_template sample_node) = 256" "te_nfields (tn_template sample_node) = 2" by (simp_all add: sample_node_def)
  have "length (line_text (tn_template sample_node) [(''packets'', ''7''), (''source'', ''10.0.0.1'')]) < 200"
    using sample_digits by (simp add: line_text_def pair_text_def t)
  then show "int (length (line_text (tn_template sample_node) [(''packets'', ''7''), (''source'', ''10.0.0.1'')])) < INT_MAX"
    by (simp add: INT_MAX_def)
qed

lemma sample_ok:
  "decodes_lines decimal_env example_config" "header_numbers sample_hdr" "\<not> is_nf9 sample_hdr" "readable_template (tn_template sample_node)"
  "fs_fp sample_file = Some ''''"
  "\<forall>p \<in> set [(''packets'', ''7''), (''source'', ''10.0.0.1'')]. plain_name (fst p) \<and> raw_text (snd p)"
proof -
  show "decodes_lines decimal_env example_config"
    using decimal_env_reads by (simp add: decodes_lines_def dec_ok_def decimal_env_def example_env_def ch_def example_config_simps)
  show "header_numbers sample_hdr" "\<not> is_nf9 sample_hdr"
    by (simp_all add: header_numbers_def sample_hdr_def is_nf9_def IPFIX_VERSION_NF9_def)
  show "fs_fp sample_file = Some ''''" by (simp add: sample_file_def)
  show "readable_template (tn_template sample_node)"
    unfolding readable_template_def sample_template_fields
    by (simp add: sample_field_def plain_name_def raw_text_def bytes_of_def char2escape_def) (simp add: sample_node_def)
  show "\<forall>p \<in> set [(''packets'', ''7''), (''source'', ''10.0.0.1'')]. plain_name (fst p) \<and> raw_text (snd p)"
    by (simp add: plain_name_def raw_text_def bytes_of_def char2escape_def)
qed

theorem file_lines_read_witness:
  "\<exists>l1 l2 l3 s1 s2. export_newmsg_file sample_hdr sample_file = (0, s1) \<and> export_trecord_file (Some sample_node) s1 = Returned (0, s2)
    \<and> export_drecord_file sample_out sample_node [[7, 0, 0, 0], [10, 0, 0, 1]] s2 =
      Returned (0, sample_file\<lparr>fs_fp := Some ('''' @ l1 @ NL @ l2 @ NL @ l3 @ NL)\<rparr>)
    \<and> json_decode decimal_env example_config [LString (bytes_of l1)] = LReturn (header_value sample_hdr)
    \<and> json_decode decimal_env example_config [LString (bytes_of l2)] = LReturn (template_value (tn_template sample_node))
    \<and> json_decode decimal_env example_config [LString (bytes_of l3)] =
        LReturn (record_value (te_tid (tn_template sample_node)) (te_nfields (tn_template sample_node))
          [(''packets'', ''7''), (''source'', ''10.0.0.1'')])"
  by (rule file_lines_read [OF sample_ok(1,5,3,2,4) sample_lengths(1,2) sample_line [of 2048] _ sample_ok(6) sample_lengths(3)]) simp_all

end
