(* ===== verification/IpfixOutFaults.thy ===== *)
theory IpfixOutFaults
  imports IpfixJson
begin

text \<open>
  What goes wrong with the output of the collector: headers that no JSON decoder reads, values that are not
  escaped, and buffers of the writers that are too small.
\<close>

section \<open>Lines that are not JSON\<close>

text \<open>No value can be read from a text that starts with \<open>w\<close>.\<close>

definition fails :: "json_env \<Rightarrow> json_config \<Rightarrow> nat \<Rightarrow> byte list \<Rightarrow> bool" where
  "fails env cfg tot w \<longleftrightarrow> (\<forall>j r fuel. jp_rest j = w @ r \<longrightarrow> r \<noteq> [] \<longrightarrow> parse_ok tot j \<longrightarrow> length w \<le> fuel \<longrightarrow>
     (\<exists>e. json_read env cfg tot fuel j = LError e))"

lemma descend_cases:
  "(\<exists>e. json_decode_descend env cfg tot j = LError e) \<or>
   json_decode_descend env cfg tot j = LReturn (j\<lparr>jp_depth := jp_depth j + 1\<rparr>)"
  by (simp add: json_decode_descend_def Let_def)

lemma next_token_error:
  assumes "jp_rest j = c # r" "ch2token c = T_ERROR"
  shows "\<exists>t j'. json_next_token env cfg tot j = LReturn (t, j') \<and> tk_type t = T_ERROR"
  using assms by (simp add: json_next_token_def peek_def token_of_def token_error_def Let_def)

text \<open>An object whose first key has no quotes, and one whose first value cannot be read.\<close>

lemma fails_bare_key:
  assumes "ch2token c = T_ERROR" "blank sp"
  shows "fails env cfg tot ([123] @ sp @ [c])"
  unfolding fails_def
proof (intro allI impI)
  fix j r and fuel :: nat
  assume a: "jp_rest j = ([123] @ sp @ [c]) @ r" "parse_ok tot j" "length ([123] @ sp @ [c]) \<le> fuel"
  have "2 \<le> fuel" using a(3) by simp
  then obtain m where m: "fuel = Suc (Suc m)" by (intro that [of "fuel - 2"]) simp
  let ?j1 = "j\<lparr>jp_rest := sp @ c # r\<rparr>" let ?j2 = "?j1\<lparr>jp_depth := jp_depth j + 1\<rparr>"
  obtain t where t: "json_next_token env cfg tot j = LReturn (t, ?j1)" "tk_type t = T_OBJ_BEGIN"
    using next_token_char [of j 123 "sp @ c # r" env cfg tot] a(1) by auto
  obtain t2 j3 where t2: "json_next_token env cfg tot ?j2 = LReturn (t2, j3)" "tk_type t2 = T_ERROR"
    using next_token_blank [OF assms(2), of ?j2 "c # r" env cfg tot] next_token_error [OF _ assms(1), of "?j2\<lparr>jp_rest := c # r\<rparr>" r env cfg tot]
    by auto
  show "\<exists>e. json_read env cfg tot fuel j = LError e"
    using descend_cases [of env cfg tot ?j1] t t2 by (auto simp: json_read_def m json_throw_parse_error_def)
qed

lemma fails_first_value:
  assumes "fails env cfg tot w" "blank sp" "w \<noteq> []"
  shows "fails env cfg tot ([123] @ sp @ json_quote k @ [58] @ w)"
  unfolding fails_def
proof (intro allI impI)
  fix j r and fuel :: nat
  assume a: "jp_rest j = ([123] @ sp @ json_quote k @ [58] @ w) @ r" "r \<noteq> []" "parse_ok tot j"
    "length ([123] @ sp @ json_quote k @ [58] @ w) \<le> fuel"
  have "2 \<le> fuel" using a(4) by simp
  then obtain m where m: "fuel = Suc (Suc m)" by (intro that [of "fuel - 2"]) simp
  have len: "length w \<le> m" using a(4) by (simp add: m json_quote_def)
  let ?s = "json_quote k @ 58 # w @ r"
  let ?j1 = "j\<lparr>jp_rest := sp @ ?s\<rparr>" let ?j2 = "?j1\<lparr>jp_depth := jp_depth j + 1\<rparr>" let ?j3 = "?j2\<lparr>jp_rest := ?s\<rparr>"
  obtain t where t: "json_next_token env cfg tot j = LReturn (t, ?j1)" "tk_type t = T_OBJ_BEGIN"
    using next_token_char [of j 123 "sp @ ?s" env cfg tot] a(1) by auto
  have p: "parse_ok tot ?j3"
    using parse_ok_suffix [OF a(3), of "[123] @ sp" ?s] a(1) by (simp add: parse_ok_def)
  obtain t1 j4 where k: "json_next_token env cfg tot ?j3 = LReturn (t1, j4)" "tk_type t1 = T_STRING"
      "parse_ok tot j4" "jp_rest j4 = 58 # w @ r"
    using next_token_string [OF _ p, of k "58 # w @ r" env cfg] by auto
  have k2: "json_next_token env cfg tot ?j2 = LReturn (t1, j4)"
    using k(1) next_token_blank [OF assms(2), of ?j2 ?s env cfg tot] by simp
  let ?j5 = "j4\<lparr>jp_rest := w @ r\<rparr>"
  obtain t3 where c: "json_next_token env cfg tot j4 = LReturn (t3, ?j5)" "tk_type t3 = T_COLON"
    using next_token_char [OF k(4), of env cfg tot] by auto
  have "parse_ok tot ?j5" using parse_ok_suffix [OF k(3), of "[58]" "w @ r"] k(4) a(2) by simp
  then obtain e where "json_read env cfg tot m ?j5 = LError e" using assms(1) a(2) len unfolding fails_def by fastforce
  then have "(\<exists>e. json_next_token env cfg tot ?j5 = LError e) \<or>
      (\<exists>t6 j6. json_next_token env cfg tot ?j5 = LReturn (t6, j6) \<and> json_process_value env cfg tot m t6 j6 = LError e)"
    by (cases "json_next_token env cfg tot ?j5") (auto simp: json_read_def)
  then show "\<exists>e. json_read env cfg tot fuel j = LError e"
    using descend_cases [of env cfg tot ?j1] t k(2) k2 c by (auto simp: json_read_def m Let_def)
qed

lemma decode_fails:
  assumes "\<forall>n. je_mem env n" "\<And>tot. fails env cfg tot w" "0 \<notin> set u" "int (length u) < INT_MAX" "u = w @ r"
  shows "\<exists>e. json_decode env cfg [LString u] = LError e"
proof -
  let ?tot = "length u + 1"
  have head: "\<not> (2 \<le> length u \<and> (u ! 0 = 0 \<or> u ! 1 = 0))"
  proof
    assume a: "2 \<le> length u \<and> (u ! 0 = 0 \<or> u ! 1 = 0)"
    then have "u ! 0 \<in> set u" "u ! 1 \<in> set u" by (intro nth_mem, linarith)+
    then show False using a assms(3) by metis
  qed
  obtain s where s: "strbuf_init (je_mem env) (int (length u)) = LReturn s" "holds_string s []"
      "sb_size s = (if int (length u) \<le> 0 then STRBUF_DEFAULT_SIZE else int (length u) + 1)"
    using init_holds [OF assms(1,4)] by blast
  let ?j = "\<lparr>jp_rest = u @ [0], jp_tmp = s\<lparr>sb_dynamic := True\<rparr>, jp_depth = 0\<rparr>"
  have p: "parse_ok ?tot ?j"
    unfolding parse_ok_def using s(2,3) by (auto simp: ends_nul_def STRBUF_DEFAULT_SIZE_def intro!: exI [of _ "[]"])
  have "jp_rest ?j = w @ r @ [0]" using assms(5) by simp
  then obtain e where e: "json_read env cfg ?tot (2 * ?tot + 3) ?j = LError e"
    using assms(2) [of ?tot] p unfolding fails_def by fastforce
  have n: "strbuf_new (je_mem env) (int_of_size (length u)) = LReturn (s\<lparr>sb_dynamic := True\<rparr>)"
    using assms(4) s(1) unfolding strbuf_new_def int_of_size_small [OF less_imp_le [OF assms(4)]] by simp
  have "(\<exists>e. json_next_token env cfg ?tot ?j = LError e) \<or>
      (\<exists>t j. json_next_token env cfg ?tot ?j = LReturn (t, j) \<and> json_process_value env cfg ?tot (2 * ?tot + 3) t j = LError e)"
    using e by (cases "json_next_token env cfg ?tot ?j") (auto simp: json_read_def)
  then show ?thesis
    using head by (auto simp: json_decode_def lua_gettop_def lua_at_def lua_tolstring_def Let_def n)
qed

lemma fails_blank:
  assumes "fails env cfg tot w" "blank sp"
  shows "fails env cfg tot (sp @ w)"
  unfolding fails_def
proof (intro allI impI)
  fix j r and fuel :: nat
  assume a: "jp_rest j = (sp @ w) @ r" "r \<noteq> []" "parse_ok tot j" "length (sp @ w) \<le> fuel"
  have j: "jp_rest j = sp @ w @ r" using a(1) by simp
  have "parse_ok tot (j\<lparr>jp_rest := w @ r\<rparr>)" by (rule parse_ok_suffix [OF a(3) j]) (use a(2) in simp)
  then obtain e where "json_read env cfg tot fuel (j\<lparr>jp_rest := w @ r\<rparr>) = LError e"
    using assms(1) a(2,4) unfolding fails_def by fastforce
  then show "\<exists>e. json_read env cfg tot fuel j = LError e"
    using next_token_blank [OF assms(2) j, of env cfg tot] by (simp add: json_read_def)
qed

lemma seconds_no_nul: "0 \<notin> set (bytes_of (fmt_seconds n))"
proof -
  have d: "(of_char (digit_char (n mod 10)) :: byte) \<noteq> 0" for n
    using digit_byte_range [of "n mod 10"] by auto
  show ?thesis
    using decimal_plain(2) d [of "n div 100"] d [of "n div 10"] d [of n]
    by (simp add: fmt_seconds_def bytes_of_append bytes_of_Nil)
qed

lemma mle_header_start:
  "\<exists>r. ipfix_mle_newmsg hdr '''' = ''{ \"ipfix-header\": { v'' @ r @ NL \<and> 0 \<notin> set (bytes_of r)"
proof -
  let ?r = "''ersion='' @ show_nat (hd_version hdr) @ '','' @
     (if is_nf9 hdr then
        '' \"records\":'' @ show_nat (hd_count hdr) @ '', '' @
        '' \"sysuptime\":'' @ fmt_seconds (hd_sysuptime hdr) @ '', \"unixtime\"='' @ show_nat (hd_unixtime hdr) @ '', '' @
        ''\"seqno\":'' @ show_nat (hd_seqno hdr) @ '', '' @
        ''\"sourceid\":'' @ show_nat (hd_sourceid hdr)
      else
        ''\"length\":'' @ show_nat (hd_length hdr) @ '', '' @
        ''\"unixtime\":'' @ show_nat (hd_exporttime hdr) @ '', '' @
        ''\"seqno\":'' @ show_nat (hd_seqno hdr) @ '','' @
        ''\"odid\":'' @ show_nat (hd_sourceid hdr)) @
     ''} }''"
  have "ipfix_mle_newmsg hdr '''' = ''{ \"ipfix-header\": { v'' @ ?r @ NL" by (simp add: ipfix_mle_newmsg_def)
  moreover have "0 \<notin> set (bytes_of ?r)"
    using decimal_plain(2) seconds_no_nul by (simp add: bytes_of_append bytes_of_Nil)
  ultimately show ?thesis by blast
qed

text \<open>
  The header that goes to the engine is not JSON: its first key has no quotes. No script can
  decode it, whatever the header.
\<close>

theorem mle_header_not_json:
  assumes "\<forall>n. je_mem env n" "ipfix_mle_newmsg hdr '''' = l @ NL" "int (length l) < INT_MAX"
  shows "\<exists>e. json_decode env cfg [LString (bytes_of l)] = LError e"
proof -
  let ?w = "[123] @ [32] @ json_quote (bytes_of ''ipfix-header'') @ [58] @ [32] @ [123] @ [32] @ [ch CHR ''v'']"
  have b: "blank [32]" by (simp add: blank_def)
  have "ch2token (ch CHR ''v'') = T_ERROR" by (simp add: ch2token_def ch_def)
  from fails_first_value [OF fails_blank [OF fails_bare_key [OF this b] b] b]
  have f: "fails env cfg tot ?w" for tot by simp
  obtain r where r: "ipfix_mle_newmsg hdr '''' = ''{ \"ipfix-header\": { v'' @ r @ NL" "0 \<notin> set (bytes_of r)"
    using mle_header_start by blast
  have l: "l = ''{ \"ipfix-header\": { v'' @ r" using assms(2) r(1) by simp
  have w: "?w = bytes_of ''{ \"ipfix-header\": { v''"
    by (simp add: quote_bytes char2escape_def bytes_of_append bytes_of_Nil ch_def)
  have m: "bytes_of l = ?w @ bytes_of r" unfolding w l by (simp only: bytes_of_append)
  have "0 \<notin> set (?w @ bytes_of r)" using r(2) unfolding w by (simp add: bytes_of_append bytes_of_Nil)
  moreover have "int (length (?w @ bytes_of r)) < INT_MAX" using assms(3) unfolding m [symmetric] by simp
  ultimately show ?thesis unfolding m by (rule decode_fails [OF assms(1) f _ _ refl])
qed

theorem mle_header_not_json_witness:
  "\<exists>l e. ipfix_mle_newmsg sample_hdr '''' = l @ NL \<and> json_decode decimal_env example_config [LString (bytes_of l)] = LError e"
proof -
  obtain r where r: "ipfix_mle_newmsg sample_hdr '''' = ''{ \"ipfix-header\": { v'' @ r @ NL" using mle_header_start by blast
  have d: "length (show_nat 1500000000) \<le> 10" using show_nat_length [of 1500000000 9] by simp
  have "length (ipfix_mle_newmsg sample_hdr '''') < 200"
    using d sample_digits by (simp add: ipfix_mle_newmsg_def sample_hdr_def is_nf9_def IPFIX_VERSION_NF9_def NL_def)
  then have l: "int (length (''{ \"ipfix-header\": { v'' @ r)) < INT_MAX" unfolding r by (simp add: INT_MAX_def)
  have "\<forall>n. je_mem decimal_env n" using sample_ok(1) by (simp add: decodes_lines_def)
  moreover have "ipfix_mle_newmsg sample_hdr '''' = (''{ \"ipfix-header\": { v'' @ r) @ NL" using r by simp
  ultimately show ?thesis using mle_header_not_json [OF _ _ l] by blast
qed

section \<open>Values are not escaped\<close>

text \<open>
  A string that an exporting device sends can close the field it is in and open another: a record
  with one value is read by the scripts as one with two fields, of which the device chose the name.
\<close>

lemma forged_line:
  "line_text t [(k, v @ ''\" }, {\"'' @ k' @ ''\":\"'' @ v')] = line_text t [(k, v), (k', v')]"
  by (simp add: line_text_def pair_text_def)

definition string_node :: "string \<Rightarrow> ipfixt_node" where
  "string_node k = \<lparr>tn_expire = 0, tn_template = \<lparr>te_type = DATA_TEMPLATE, te_tsend = 0, te_tid = 256, te_ndatafields = 1, te_nscopefields = 0,
     te_nfields = 1, te_fields = [sample_field k Print_string], te_maxfields = 1, te_odid = 0\<rparr>, tn_ident = ''''\<rparr>"

definition forging_value :: "string \<Rightarrow> string \<Rightarrow> string \<Rightarrow> string" where
  "forging_value v k' v' = v @ ''\" }, {\"'' @ k' @ ''\":\"'' @ v'"

lemma chars_of_bytes: "(\<And>c. c \<in> set s \<Longrightarrow> of_char c < (128 :: nat)) \<Longrightarrow> chars_of (bytes_of s) = s"
proof (induction s)
  case (Cons c s)
  then show ?case by (simp add: chars_of_def bytes_of_def unat_of_char)
qed (simp add: chars_of_def bytes_of_def)

theorem value_forges_field:
  assumes "decodes_lines jenv cfg" "s = forging_value v k' v'" "length s < 2047" "\<forall>c \<in> set s. (of_char c :: nat) \<in> {1..<128}"
    and "plain_name k" "raw_text v" "plain_name k'" "raw_text v'"
    and "int (length (line_text (tn_template (string_node k)) [(k, v), (k', v')])) < INT_MAX"
  shows "\<exists>l. ipfix_mle_drecord env (Some src) (Some (string_node k)) (Some [bytes_of s]) fp = Returned (0, fp @ l @ NL)
    \<and> json_decode jenv cfg [LString (bytes_of l)] = LReturn (record_value 256 1 [(k, v), (k', v')])"
proof -
  let ?t = "tn_template (string_node k)"
  have t: "te_tid ?t = 256" "te_nfields ?t = 1" "template_fields ?t = [sample_field k Print_string]"
    by (simp_all add: string_node_def template_fields_def)
  have "0 \<notin> set (bytes_of s)"
  proof
    assume "0 \<in> set (bytes_of s)"
    then obtain c where c: "c \<in> set s" "(of_char c :: byte) = 0" by (auto simp: bytes_of_def)
    then have "unat (of_char c :: byte) = 0" by simp
    then show False using c(1) assms(4) by (auto simp: unat_of_char)
  qed
  moreover have "chars_of (bytes_of s) = s" by (rule chars_of_bytes) (use assms(4) in auto)
  ultimately have "value_texts env 2047 (template_fields ?t) [bytes_of s] = Returned [(k, s)]"
    using assms(3) by (simp add: t(3) sample_field_def with_element_def run_snprint_def ipfix_snprint_string_def)
  then have "data_line env 2047 ?t [bytes_of s] = Returned (line_text ?t [(k, s)] @ NL)" by (rule data_line_text) simp
  moreover have "line_text ?t [(k, s)] = line_text ?t [(k, v), (k', v')]"
    unfolding assms(2) forging_value_def by (rule forged_line)
  ultimately have "ipfix_mle_drecord env (Some src) (Some (string_node k)) (Some [bytes_of s]) fp =
      Returned (0, fp @ line_text ?t [(k, v), (k', v')] @ NL)" by (simp add: ipfix_mle_drecord_def)
  moreover have "json_decode jenv cfg [LString (bytes_of (line_text ?t [(k, v), (k', v')]))] = LReturn (record_value 256 1 [(k, v), (k', v')])"
    using line_text_read [of jenv cfg ?t "[(k, v), (k', v')]"] assms(1,5-9) by (simp add: decodes_lines_def t(1,2))
  ultimately show ?thesis by blast
qed

theorem value_forges_field_witness:
  "\<exists>l. ipfix_mle_drecord sample_out (Some \<lparr>so_odid = 1, so_input = IPFIX_INPUT_FILE '''', so_templates = []\<rparr>) (Some (string_node ''name''))
      (Some [bytes_of (forging_value ''x'' ''admin'' ''1'')]) '''' = Returned (0, '''' @ l @ NL)
    \<and> json_decode decimal_env example_config [LString (bytes_of l)] = LReturn (record_value 256 1 [(''name'', ''x''), (''admin'', ''1'')])"
proof -
  have p: "plain_name ''name''" "raw_text ''x''" "plain_name ''admin''" "raw_text ''1''"
    by (simp_all add: plain_name_def raw_text_def bytes_of_def char2escape_def)
  have s: "\<forall>c \<in> set (forging_value ''x'' ''admin'' ''1''). (of_char c :: nat) \<in> {1..<128}" "length (forging_value ''x'' ''admin'' ''1'') < 2047"
    by (simp_all add: forging_value_def)
  have "te_tid (tn_template (string_node ''name'')) = 256" "te_nfields (tn_template (string_node ''name'')) = 1"
    by (simp_all add: string_node_def)
  then have "length (line_text (tn_template (string_node ''name'')) [(''name'', ''x''), (''admin'', ''1'')]) < 200"
    using sample_digits by (simp add: line_text_def pair_text_def)
  then have "int (length (line_text (tn_template (string_node ''name'')) [(''name'', ''x''), (''admin'', ''1'')])) < INT_MAX"
    by (simp add: INT_MAX_def)
  then show ?thesis by (rule value_forges_field [OF sample_ok(1) refl s(2,1) p])
qed

section \<open>Buffers of the writers\<close>

text \<open>
  The buffers of the compressed file and of the files by source have an even size: a value of
  plain bytes that does not fit is printed past their end. The buffer of the stream has an odd
  size, and there the value is cut.
\<close>

definition bytes_node :: ipfixt_node where
  "bytes_node = \<lparr>tn_expire = 0, tn_template = \<lparr>te_type = DATA_TEMPLATE, te_tsend = 0, te_tid = 256, te_ndatafields = 1, te_nscopefields = 0,
     te_nfields = 1, te_fields = [sample_field ''payload'' Print_bytes], te_maxfields = 1, te_odid = 0\<rparr>, tn_ident = ''''\<rparr>"

lemma bytes_node_fields: "template_fields (tn_template bytes_node) = [sample_field ''payload'' Print_bytes]"
  by (simp add: bytes_node_def template_fields_def)

lemma snprint_bytes_odd:
  assumes "4 \<le> sz" "odd sz"
  shows "\<exists>n tx. ipfix_snprint_bytes sz v = Returned (n, tx)"
proof -
  have "length (concat (map show_hex2 (take n v))) = 2 * min (length v) n" for n
    unfolding length_hex_bytes by simp
  moreover have "2 * min (length v) ((sz - 2) div 2) + 3 \<le> sz" using assms by presburger
  ultimately show ?thesis using assms(1) by (simp add: ipfix_snprint_bytes_def Let_def shrink_len del: length_concat)
qed

theorem long_bytes_overrun:
  assumes "1023 \<le> length v"
  shows "ipfix_json_drecord env (Some s) (Some bytes_node) (Some [v]) zfp = Undefined ''write past the buffer''"
    and "fs_fp f = Some fp \<Longrightarrow> export_drecord_file env bytes_node [v] f = Undefined ''write past the buffer''"
    and "\<exists>l. ipfix_mle_drecord env (Some s) (Some bytes_node) (Some [v]) mfp = Returned (0, mfp @ l)"
proof -
  have p: "ipfix_snprint_bytes 2000 v = Undefined ''write past the buffer''" "ipfix_snprint_bytes 2048 v = Undefined ''write past the buffer''"
    using assms by (auto intro: snprint_bytes_overruns)
  show "ipfix_json_drecord env (Some s) (Some bytes_node) (Some [v]) zfp = Undefined ''write past the buffer''"
    "fs_fp f = Some fp \<Longrightarrow> export_drecord_file env bytes_node [v] f = Undefined ''write past the buffer''"
    using p by (simp_all add: ipfix_json_drecord_def export_drecord_file_def data_line_def bytes_node_fields sample_field_def
        with_element_def run_snprint_def)
  obtain n tx where "ipfix_snprint_bytes 2047 v = Returned (n, tx)" using snprint_bytes_odd [of 2047 v] by auto
  then show "\<exists>l. ipfix_mle_drecord env (Some s) (Some bytes_node) (Some [v]) mfp = Returned (0, mfp @ l)"
    by (auto simp: ipfix_mle_drecord_def data_line_def bytes_node_fields sample_field_def with_element_def run_snprint_def)
qed

text \<open>The log writes every piece to a buffer of 1000 bytes without a limit: a string of 999 characters and
  its line end are too long.\<close>

theorem log_overrun:
  assumes "999 \<le> length v" "length v < 2000" "0 \<notin> set v" "length k < 400"
  shows "ipfix_print_drecord env (Some s) (Some (string_node k)) (Some [v]) fp = Undefined ''write past tmpbuf''"
proof -
  have t: "te_tid (tn_template (string_node k)) = 256" "te_nfields (tn_template (string_node k)) = 1"
    "te_nscopefields (tn_template (string_node k)) = 0" "template_fields (tn_template (string_node k)) = [sample_field k Print_string]"
    by (simp_all add: string_node_def template_fields_def)
  have "ipfix_snprint_string 2000 v = Returned (int (length v), chars_of v)" using assms(2,3) by (simp add: ipfix_snprint_string_def)
  then show ?thesis
    using assms(1,4) sample_digits
    by (simp add: ipfix_print_drecord_def Let_def t outf_def sample_field_def with_element_def run_snprint_def NL_def chars_of_def)
qed


text \<open>The time of a header is not the one the log shows, unless the word behind it is 0.\<close>

lemma log_time_wrong: "ih_little (oe_host env) \<Longrightarrow> time_at env a b = a \<longleftrightarrow> b = 0"
  by (simp add: time_at_def)

text \<open>A template that is withdrawn has no record, and the writers of templates do not look.\<close>

lemma withdrawn_template_crashes:
  "ipfix_mle_trecord None fp = Undefined ''null pointer''" "ipfix_json_trecord None zfp = Undefined ''null pointer''"
  "fs_fp f = Some w \<Longrightarrow> export_trecord_file None f = Undefined ''null pointer''"
  by (simp_all add: ipfix_mle_trecord_def ipfix_json_trecord_def export_trecord_file_def with_template_def)

text \<open>A source whose file cannot be opened again is left without one, and writes nothing.\<close>

lemma file_not_opened:
  assumes "\<not> fe_fifo fe" "\<not> fe_fopen fe (fs_fname s')" "export_newsource_file fuel env fe (Some d) s = Returned (r, s')"
    and "fs_fp s = None"
  shows "r = -1 \<and> fs_fp s' = None"
  using assms by (auto simp: export_newsource_file_def Let_def proc_bind_Returned split: if_splits)

text \<open>A free name is found after as many tries as there are names taken, and it is not taken.\<close>

lemma free_name_free: "free_name fuel fe dir i suffix = Returned f \<Longrightarrow> \<not> fe_readable fe f"
  by (induction fuel fe dir i suffix rule: free_name.induct) (auto simp: Let_def split: if_splits)

lemma free_name_found:
  "\<not> fe_readable fe (snprintf OUT_PATH_MAX (dir @ ''/'' @ fe_date fe @ ''-'' @ show_nat k)) \<Longrightarrow> i \<le> k \<Longrightarrow> k + 2 \<le> fuel + i \<Longrightarrow>
    \<exists>f. free_name fuel fe dir i suffix = Returned f"
proof (induction fuel fe dir i suffix rule: free_name.induct)
  case (2 fuel env dir i suffix)
  show ?case
  proof (cases "i = k")
    case True
    then show ?thesis using 2(2,4) by (cases fuel) (auto simp: Let_def)
  next
    case False
    then show ?thesis using 2 by (auto simp: Let_def)
  qed
qed simp

text \<open>Starting an exporter a second time is refused, and stopping gives back what starting took.\<close>

lemma start_stop:
  assumes "c \<notin> set es"
  shows "ipfix_start_mle True c (None, es) = (0, (Some c, es @ [c]))" "fst (ipfix_start_mle mem c' (Some c, es)) = -1"
    "ipfix_stop_mle (snd (ipfix_start_mle True c (None, es))) = Returned (None, es)"
  using assms by (simp_all add: ipfix_start_mle_def ipfix_stop_mle_def start_export_def stop_export_def ipfix_col_register_export_def
      ipfix_col_cancel_export_def remove1_append)

end
