(* ===== verification/Simulation.thy ===== *)
theory Simulation
  imports Posix
begin

text \<open>
  The contract of a component that implements an abstract one: every call that the abstract state
  allows returns the answer of the abstract call and leads to a state that stands for its result.
\<close>

fun run_calls :: "('c \<Rightarrow> 's \<Rightarrow> ('r \<times> 's) proc) \<Rightarrow> 'c list \<Rightarrow> 's \<Rightarrow> ('r list \<times> 's) proc" where
  "run_calls call [] s = Returned ([], s)"
| "run_calls call (c # cs) s =
     proc_bind (call c s) (\<lambda>(r, s). proc_bind (run_calls call cs s) (\<lambda>(rs, s). Returned (r # rs, s)))"

fun run_spec :: "('c \<Rightarrow> 'a \<Rightarrow> 'r \<times> 'a) \<Rightarrow> 'c list \<Rightarrow> 'a \<Rightarrow> 'r list \<times> 'a" where
  "run_spec spec [] a = ([], a)"
| "run_spec spec (c # cs) a = (case spec c a of (r, a) \<Rightarrow> apfst (Cons r) (run_spec spec cs a))"

fun all_allowed :: "('c \<Rightarrow> 'a \<Rightarrow> bool) \<Rightarrow> ('c \<Rightarrow> 'a \<Rightarrow> 'r \<times> 'a) \<Rightarrow> 'c list \<Rightarrow> 'a \<Rightarrow> bool" where
  "all_allowed allowed spec [] a \<longleftrightarrow> True"
| "all_allowed allowed spec (c # cs) a \<longleftrightarrow> allowed c a \<and> all_allowed allowed spec cs (snd (spec c a))"

locale simulation =
  fixes call :: "'c \<Rightarrow> 's \<Rightarrow> ('r \<times> 's) proc"
    and spec :: "'c \<Rightarrow> 'a \<Rightarrow> 'r \<times> 'a"
    and allowed :: "'c \<Rightarrow> 'a \<Rightarrow> bool"
    and stands_for :: "'s \<Rightarrow> 'a \<Rightarrow> bool"
  assumes step: "stands_for s a \<Longrightarrow> allowed c a
    \<Longrightarrow> \<exists>s'. call c s = Returned (fst (spec c a), s') \<and> stands_for s' (snd (spec c a))"
begin

lemma runs:
  "stands_for s a \<Longrightarrow> all_allowed allowed spec cs a
    \<Longrightarrow> \<exists>s'. run_calls call cs s = Returned (fst (run_spec spec cs a), s') \<and> stands_for s' (snd (run_spec spec cs a))"
proof (induction cs arbitrary: s a)
  case (Cons c cs)
  obtain s1 where s1: "call c s = Returned (fst (spec c a), s1)" "stands_for s1 (snd (spec c a))"
    using step [of s a c] Cons.prems by auto
  with Cons.IH [of s1 "snd (spec c a)"] Cons.prems show ?case
    by (auto simp: split_beta)
qed simp

end

end
