(* ===== verification/Hashtable.thy ===== *)
theory Hashtable
  imports Simulation "HOL-Library.Log_Nat" "HOL-Library.Multiset"
begin

unbundle bit_operations_syntax

text \<open>
  The hash table of \<open>lib/libipfix/libmisc/hashtable.c\<close> and the table of global values of \<open>mhash.c\<close>. A
  bucket is the list of its entries; keys and values are what their pointers stand for, and what is
  given to \<open>free\<close> is part of the result. Whether an allocation succeeds is an argument.
\<close>

section \<open>The table\<close>

definition primes :: "nat list" where
  "primes = [53, 97, 193, 389, 769, 1543, 3079, 6151, 12289, 24593, 49157, 98317, 196613, 393241, 786433, 1572869,
     3145739, 6291469, 12582917, 25165843, 50331653, 100663319, 201326611, 402653189, 805306457, 1610612741]"

definition prime_table_length :: nat where "prime_table_length = length primes"

text \<open>A number rounded to the 24 bits of a \<open>float\<close>, ties to even; \<open>0.65f\<close> is 10905190 / 2 ^ 24.\<close>

definition round_float :: "nat \<Rightarrow> nat" where
  "round_float n =
     (let e = 2 ^ (floorlog 2 n - 24); q = n div e; r = n mod e in
      if 2 * r < e \<or> 2 * r = e \<and> even q then q * e else (q + 1) * e)"

definition load_limit :: "nat \<Rightarrow> nat" where
  "load_limit n = (round_float (round_float n * 10905190) + 2 ^ 24 - 1) div 2 ^ 24"

record ('k, 'v) ht_entry =
  en_k :: 'k
  en_v :: 'v
  en_h :: "32 word"

record ('k, 'v) hashtable =
  ht_tablelength :: nat
  ht_table :: "('k, 'v) ht_entry list list"
  ht_entrycount :: "32 word"
  ht_loadlimit :: nat
  ht_primeindex :: nat
  ht_hashfn :: "'k \<Rightarrow> 32 word"
  ht_eqfn :: "'k \<Rightarrow> 'k \<Rightarrow> bool"

text \<open>Which of the allocations of a call succeed: a new table, \<open>realloc\<close>, a small block.\<close>

record ht_memory =
  hm_table :: bool
  hm_realloc :: bool
  hm_block :: bool

definition indexFor :: "nat \<Rightarrow> 32 word \<Rightarrow> nat" where
  "indexFor tablelength hashvalue = unat hashvalue mod tablelength"

fun find_prime :: "nat \<Rightarrow> nat \<Rightarrow> nat list \<Rightarrow> nat \<times> nat" where
  "find_prime minsize pindex [] = (pindex, primes ! 0)"
| "find_prime minsize pindex (p # ps) = (if p > minsize then (pindex, p) else find_prime minsize (pindex + 1) ps)"

definition create_hashtable ::
  "ht_memory \<Rightarrow> nat \<Rightarrow> ('k \<Rightarrow> 32 word) \<Rightarrow> ('k \<Rightarrow> 'k \<Rightarrow> bool) \<Rightarrow> ('k, 'v) hashtable option" where
  "create_hashtable mem minsize hashf eqf =
     (if minsize > 2 ^ 30 then None
      else
        (case find_prime minsize 0 primes of (pindex, n) \<Rightarrow>
         if \<not> hm_block mem \<or> \<not> hm_table mem then None
         else Some \<lparr>ht_tablelength = n, ht_table = replicate n [], ht_entrycount = 0, ht_loadlimit = load_limit n,
           ht_primeindex = pindex, ht_hashfn = hashf, ht_eqfn = eqf\<rparr>))"

definition hash :: "('k, 'v) hashtable \<Rightarrow> 'k \<Rightarrow> 32 word" where
  "hash h k =
     (let i = ht_hashfn h k;
          i = i + NOT (push_bit 9 i);
          i = i XOR (drop_bit 14 i OR push_bit 18 i);
          i = i + push_bit 4 i;
          i = i XOR (drop_bit 10 i OR push_bit 22 i) in i)"

text \<open>The entries of a bucket are moved in front of their new buckets, one after the other.\<close>

definition move_entry :: "nat \<Rightarrow> ('k, 'v) ht_entry list list \<Rightarrow> ('k, 'v) ht_entry \<Rightarrow> ('k, 'v) ht_entry list list" where
  "move_entry newsize newtable e =
     (let index = indexFor newsize (en_h e) in newtable[index := e # newtable ! index])"

definition move_entries :: "nat \<Rightarrow> ('k, 'v) ht_entry list list \<Rightarrow> ('k, 'v) ht_entry list list" where
  "move_entries newsize table = foldl (foldl (move_entry newsize)) (replicate newsize []) table"

text \<open>
  The second plan, \<open>realloc\<close>, passes an element of the new part of the table, which was never set,
  to \<open>memset\<close> as the block to clear.
\<close>

definition hashtable_expand :: "ht_memory \<Rightarrow> ('k, 'v) hashtable \<Rightarrow> (bool \<times> ('k, 'v) hashtable) proc" where
  "hashtable_expand mem h =
     (if ht_primeindex h = prime_table_length - 1 then Returned (False, h)
      else
        let pindex = ht_primeindex h + 1; newsize = primes ! pindex in
        if hm_table mem then
          Returned (True, h\<lparr>ht_primeindex := pindex, ht_table := move_entries newsize (ht_table h), ht_tablelength := newsize,
            ht_loadlimit := load_limit newsize\<rparr>)
        else if hm_realloc mem then Undefined ''uninitialised pointer''
        else Returned (False, h))"

definition hashtable_count :: "('k, 'v) hashtable \<Rightarrow> 32 word" where
  "hashtable_count h = ht_entrycount h"

definition hashtable_insert :: "ht_memory \<Rightarrow> ('k, 'v) hashtable \<Rightarrow> 'k \<Rightarrow> 'v \<Rightarrow> (bool \<times> ('k, 'v) hashtable) proc" where
  "hashtable_insert mem h k v =
     (let h = h\<lparr>ht_entrycount := ht_entrycount h + 1\<rparr> in
      proc_bind (if unat (ht_entrycount h) > ht_loadlimit h then hashtable_expand mem h else Returned (False, h)) (\<lambda>(_, h).
      if \<not> hm_block mem then Returned (False, h\<lparr>ht_entrycount := ht_entrycount h - 1\<rparr>)
      else
        let e = \<lparr>en_k = k, en_v = v, en_h = hash h k\<rparr>; index = indexFor (ht_tablelength h) (en_h e) in
        Returned (True, h\<lparr>ht_table := (ht_table h)[index := e # ht_table h ! index]\<rparr>)))"

fun find_entry :: "('k \<Rightarrow> 'k \<Rightarrow> bool) \<Rightarrow> 32 word \<Rightarrow> 'k \<Rightarrow> ('k, 'v) ht_entry list \<Rightarrow> 'v option" where
  "find_entry eqfn hashvalue k [] = None"
| "find_entry eqfn hashvalue k (e # es) =
     (if hashvalue = en_h e \<and> eqfn k (en_k e) then Some (en_v e) else find_entry eqfn hashvalue k es)"

definition hashtable_search :: "('k, 'v) hashtable \<Rightarrow> 'k \<Rightarrow> 'v option" where
  "hashtable_search h k =
     (let hashvalue = hash h k; index = indexFor (ht_tablelength h) hashvalue in
      find_entry (ht_eqfn h) hashvalue k (ht_table h ! index))"

fun remove_entry :: "('k \<Rightarrow> 'k \<Rightarrow> bool) \<Rightarrow> 32 word \<Rightarrow> 'k \<Rightarrow> ('k, 'v) ht_entry list
    \<Rightarrow> (('k, 'v) ht_entry \<times> ('k, 'v) ht_entry list) option" where
  "remove_entry eqfn hashvalue k [] = None"
| "remove_entry eqfn hashvalue k (e # es) =
     (if hashvalue = en_h e \<and> eqfn k (en_k e) then Some (e, es)
      else map_option (\<lambda>(r, es). (r, e # es)) (remove_entry eqfn hashvalue k es))"

text \<open>The value, the keys that were freed, and the table.\<close>

definition hashtable_remove :: "('k, 'v) hashtable \<Rightarrow> 'k \<Rightarrow> 'v option \<times> 'k list \<times> ('k, 'v) hashtable" where
  "hashtable_remove h k =
     (let hashvalue = hash h k; index = indexFor (ht_tablelength h) (hash h k) in
      (case remove_entry (ht_eqfn h) hashvalue k (ht_table h ! index) of
         None \<Rightarrow> (None, [], h)
       | Some (e, es) \<Rightarrow>
           (Some (en_v e), [en_k e], h\<lparr>ht_table := (ht_table h)[index := es], ht_entrycount := ht_entrycount h - 1\<rparr>)))"

text \<open>What is freed beside the blocks of the table.\<close>

definition hashtable_destroy :: "('k, 'v) hashtable \<Rightarrow> bool \<Rightarrow> 'k list \<times> 'v list" where
  "hashtable_destroy h free_values =
     (let es = concat (map (\<lambda>i. ht_table h ! i) [0..<ht_tablelength h]) in
      (map en_k es, if free_values then map en_v es else []))"

section \<open>Global values\<close>

definition dj2b_hash_from_char_fn :: "string \<Rightarrow> 32 word" where
  "dj2b_hash_from_char_fn str =
     foldl (\<lambda>hash c. (push_bit 5 hash + hash) + scast (of_char c :: byte)) 5381 (cstr str)"

definition char_equal_fn :: "string \<Rightarrow> string \<Rightarrow> bool" where
  "char_equal_fn key1 key2 = (strlen key1 = strlen key2 \<and> strncmp_eq key1 key2 (strlen key1))"

text \<open>
  \<open>ht_globals\<close>: nothing before it is made, when that fails, and when it is freed. Keys are the strings
  at their pointers; a null key is read by the hash function before any comparison.
\<close>

type_synonym 'v globals = "(string, 'v) hashtable option"

definition initGlobals :: "ht_memory \<Rightarrow> 'v globals" where
  "initGlobals mem = create_hashtable mem 16 dj2b_hash_from_char_fn char_equal_fn"

definition with_globals :: "'v globals \<Rightarrow> ((string, 'v) hashtable \<Rightarrow> 'a proc) \<Rightarrow> 'a proc" where
  "with_globals g f = (case g of None \<Rightarrow> Undefined ''no table'' | Some h \<Rightarrow> f h)"

definition setGlobal :: "ht_memory \<Rightarrow> string \<Rightarrow> 'v \<Rightarrow> 'v globals \<Rightarrow> ('v option \<times> 'v globals) proc" where
  "setGlobal mem key val g =
     with_globals g (\<lambda>h. proc_bind (hashtable_insert mem h key val) (\<lambda>(ok, h).
       Returned (if ok then Some val else None, Some h)))"

definition getGlobal :: "string \<Rightarrow> 'v globals \<Rightarrow> 'v option proc" where
  "getGlobal key g = with_globals g (\<lambda>h. Returned (hashtable_search h key))"

definition removeGlobal :: "string \<Rightarrow> 'v globals \<Rightarrow> ('v option \<times> 'v globals) proc" where
  "removeGlobal key g = with_globals g (\<lambda>h. case hashtable_remove h key of (r, freed, h) \<Rightarrow> Returned (r, Some h))"

definition countGlobals :: "'v globals \<Rightarrow> int proc" where
  "countGlobals g = with_globals g (\<lambda>h. Returned (sint (hashtable_count h)))"

definition freeGlobals :: "'v globals \<Rightarrow> ((string list \<times> 'v list) \<times> 'v globals) proc" where
  "freeGlobals g = with_globals g (\<lambda>h. Returned (hashtable_destroy h True, None))"


section \<open>The invariant\<close>

definition entries :: "('k, 'v) hashtable \<Rightarrow> ('k, 'v) ht_entry list" where
  "entries h = concat (ht_table h)"

definition placed :: "('k \<Rightarrow> 32 word) \<Rightarrow> ('k, 'v) ht_entry list list \<Rightarrow> bool" where
  "placed hs t \<longleftrightarrow> (\<forall>i < length t. \<forall>e \<in> set (t ! i). en_h e = hs (en_k e) \<and> indexFor (length t) (hs (en_k e)) = i)"

text \<open>The keys of a table are distinct, and the comparison decides equality on keys that are used.\<close>

definition ht_wf :: "('k \<Rightarrow> bool) \<Rightarrow> ('k, 'v) hashtable \<Rightarrow> bool" where
  "ht_wf key h \<longleftrightarrow> ht_primeindex h < prime_table_length \<and> ht_tablelength h = primes ! ht_primeindex h
     \<and> length (ht_table h) = ht_tablelength h \<and> ht_loadlimit h = load_limit (ht_tablelength h)
     \<and> placed (hash h) (ht_table h) \<and> ht_entrycount h = of_nat (length (entries h))
     \<and> distinct (map en_k (entries h)) \<and> (\<forall>e \<in> set (entries h). key (en_k e))
     \<and> (\<forall>a b. key a \<longrightarrow> key b \<longrightarrow> ht_eqfn h a b = (a = b))"

definition ht_map :: "('k, 'v) hashtable \<Rightarrow> 'k \<Rightarrow> 'v option" where
  "ht_map h = map_of (map (\<lambda>e. (en_k e, en_v e)) (entries h))"

lemma hash_update [simp]:
  "hash (h\<lparr>ht_table := t\<rparr>) = hash h" "hash (h\<lparr>ht_entrycount := n\<rparr>) = hash h" "hash (h\<lparr>ht_loadlimit := l\<rparr>) = hash h"
  "hash (h\<lparr>ht_primeindex := p\<rparr>) = hash h" "hash (h\<lparr>ht_tablelength := n'\<rparr>) = hash h"
  by (simp_all add: fun_eq_iff hash_def)

lemma primes_positive: "i < prime_table_length \<Longrightarrow> 0 < primes ! i"
proof -
  have "\<forall>p \<in> set primes. 0 < p" by (simp add: primes_def)
  then show "i < prime_table_length \<Longrightarrow> 0 < primes ! i" by (simp add: prime_table_length_def)
qed

lemma mset_concat_update:
  "i < length t \<Longrightarrow> mset (concat (t[i := b])) + mset (t ! i) = mset (concat t) + mset b"
proof (induction t arbitrary: i)
  case (Cons x t)
  then show ?case by (cases i) (auto simp: ac_simps)
qed simp

text \<open>Tables with the same entries, as a multiset, have the same map and count.\<close>

lemma same_entries:
  assumes "mset es = mset es'"
  shows "distinct (map en_k es) = distinct (map en_k es')" "set es = set es'" "length es = length es'"
    "distinct (map en_k es) \<Longrightarrow> map_of (map (\<lambda>e. (en_k e, en_v e)) es) = map_of (map (\<lambda>e. (en_k e, en_v e)) es')"
proof -
  show d: "distinct (map en_k es) = distinct (map en_k es')"
    using assms by (intro mset_eq_imp_distinct_iff) simp
  show s: "set es = set es'" using assms by (rule mset_eq_setD)
  show "length es = length es'" using assms by (rule mset_eq_length)
  show "map_of (map (\<lambda>e. (en_k e, en_v e)) es) = map_of (map (\<lambda>e. (en_k e, en_v e)) es')" if "distinct (map en_k es)"
    using that d s by (subst map_of_inject_set) (simp_all add: comp_def)
qed

subsection \<open>Expansion\<close>

lemma move_entry_props:
  assumes "0 < n" "length t = n" "placed hs t" "en_h e = hs (en_k e)"
  shows "length (move_entry n t e) = n" "placed hs (move_entry n t e)"
    "mset (concat (move_entry n t e)) = add_mset e (mset (concat t))"
proof -
  have i: "indexFor n (en_h e) < length t" using assms by (simp add: indexFor_def)
  show "length (move_entry n t e) = n" using assms by (simp add: move_entry_def Let_def)
  show "placed hs (move_entry n t e)"
    using assms i by (auto simp: move_entry_def placed_def Let_def nth_list_update)
  show "mset (concat (move_entry n t e)) = add_mset e (mset (concat t))"
    using mset_concat_update [OF i, of "e # t ! indexFor n (en_h e)"] by (simp add: move_entry_def Let_def)
qed

lemma move_bucket:
  assumes "0 < n" "length t = n" "placed hs t" "\<forall>e \<in> set b. en_h e = hs (en_k e)"
  shows "length (foldl (move_entry n) t b) = n \<and> placed hs (foldl (move_entry n) t b)
    \<and> mset (concat (foldl (move_entry n) t b)) = mset b + mset (concat t)"
  using assms(2-) by (induction b arbitrary: t) (simp_all add: move_entry_props [OF assms(1)])

lemma move_buckets:
  assumes "0 < n" "length t = n" "placed hs t" "\<forall>b \<in> set bs. \<forall>e \<in> set b. en_h e = hs (en_k e)"
  shows "length (foldl (foldl (move_entry n)) t bs) = n \<and> placed hs (foldl (foldl (move_entry n)) t bs)
    \<and> mset (concat (foldl (foldl (move_entry n)) t bs)) = mset (concat bs) + mset (concat t)"
  using assms(2-)
proof (induction bs arbitrary: t)
  case (Cons b bs)
  then show ?case using move_bucket [OF assms(1), of t hs b] Cons.IH [of "foldl (move_entry n) t b"] by auto
qed simp

lemma concat_replicate_Nil: "concat (replicate n []) = []"
  by (induction n) simp_all

lemma placed_nothing: "placed hs (replicate n [])"
  by (simp add: placed_def)

lemma move_entries_props:
  assumes "0 < n" "placed hs t"
  shows "length (move_entries n t) = n" "placed hs (move_entries n t)" "mset (concat (move_entries n t)) = mset (concat t)"
proof -
  have "\<forall>b \<in> set t. \<forall>e \<in> set b. en_h e = hs (en_k e)"
    using assms(2) unfolding placed_def by (metis in_set_conv_nth)
  then show "length (move_entries n t) = n" "placed hs (move_entries n t)" "mset (concat (move_entries n t)) = mset (concat t)"
    using move_buckets [OF assms(1) length_replicate placed_nothing, of t] unfolding move_entries_def
    by (simp_all only: concat_replicate_Nil mset.simps add_0_right simp_thms)
qed

text \<open>A table that grows keeps its entries; the memory it needs is there or \<open>realloc\<close> fails, too.\<close>

lemma expand_keeps:
  assumes "ht_wf key h" "hm_table m \<or> \<not> hm_realloc m"
  shows "\<exists>b h'. hashtable_expand m h = Returned (b, h') \<and> ht_wf key h' \<and> ht_map h' = ht_map h \<and> hash h' = hash h
    \<and> ht_entrycount h' = ht_entrycount h \<and> length (entries h') = length (entries h)"
proof (cases "ht_primeindex h = prime_table_length - 1 \<or> \<not> hm_table m")
  case True
  then show ?thesis using assms by (auto simp: hashtable_expand_def Let_def)
next
  case False
  let ?n = "primes ! (ht_primeindex h + 1)"
  have w: "ht_primeindex h + 1 < prime_table_length" "placed (hash h) (ht_table h)"
    using False assms by (auto simp: ht_wf_def)
  note m = move_entries_props [OF primes_positive [OF w(1)] w(2)]
  note s = same_entries [OF m(3)]
  let ?h = "h\<lparr>ht_primeindex := ht_primeindex h + 1, ht_table := move_entries ?n (ht_table h), ht_tablelength := ?n,
    ht_loadlimit := load_limit ?n\<rparr>"
  have "hashtable_expand m h = Returned (True, ?h)"
    using False by (simp add: hashtable_expand_def Let_def)
  moreover have "\<forall>e \<in> set (concat (move_entries ?n (ht_table h))). key (en_k e)"
    unfolding s(2) using assms(1) by (simp add: ht_wf_def entries_def)
  then have "ht_wf key ?h" "ht_map ?h = ht_map h"
    using assms w(1) m s by (simp_all add: ht_wf_def entries_def ht_map_def)
  ultimately show ?thesis using s(3)
    by (intro exI [of _ True] exI [of _ ?h] conjI) (simp_all add: entries_def)
qed


subsection \<open>Lookup, insertion and removal\<close>

lemma ht_index:
  assumes "ht_wf key h"
  shows "indexFor (ht_tablelength h) k < length (ht_table h)"
  using assms primes_positive [of "ht_primeindex h"] by (simp add: ht_wf_def indexFor_def)

lemma ht_map_Some:
  assumes "ht_wf key h"
  shows "ht_map h k = Some v \<longleftrightarrow> (\<exists>e \<in> set (entries h). en_k e = k \<and> en_v e = v)"
proof -
  have "distinct (map fst (map (\<lambda>e. (en_k e, en_v e)) (entries h)))"
    using assms by (simp add: ht_wf_def comp_def)
  then show ?thesis unfolding ht_map_def by (subst map_of_eq_Some_iff) auto
qed

lemma ht_map_None: "ht_map h k = None \<longleftrightarrow> k \<notin> en_k ` set (entries h)"
  by (simp add: ht_map_def map_of_eq_None_iff image_image)

text \<open>The entry of a key is in the bucket of its hash value.\<close>

lemma in_concat: "e \<in> set (concat t) \<longleftrightarrow> (\<exists>i < length t. e \<in> set (t ! i))"
  by (metis UN_iff in_set_conv_nth set_concat)

lemma bucket_entries:
  assumes "ht_wf key h"
  shows "e \<in> set (entries h) \<and> en_k e = k \<longleftrightarrow>
    e \<in> set (ht_table h ! indexFor (ht_tablelength h) (hash h k)) \<and> en_k e = k"
proof -
  have w: "placed (hash h) (ht_table h)" "length (ht_table h) = ht_tablelength h"
    using assms unfolding ht_wf_def by blast+
  show ?thesis
    unfolding entries_def in_concat using w ht_index [OF assms, of "hash h k"] unfolding placed_def by metis
qed

lemma bucket_hash:
  assumes "ht_wf key h" "e \<in> set (ht_table h ! indexFor (ht_tablelength h) (hash h k))"
  shows "en_h e = hash h (en_k e) \<and> key (en_k e)"
  using assms ht_index [OF assms(1), of "hash h k"] by (fastforce simp: ht_wf_def placed_def entries_def)

lemma find_entry_spec:
  assumes "\<forall>e \<in> set b. en_h e = hs (en_k e) \<and> eqfn k (en_k e) = (k = en_k e)"
  shows "find_entry eqfn (hs k) k b = map_of (map (\<lambda>e. (en_k e, en_v e)) b) k"
  using assms by (induction b) auto

lemma remove_entry_spec:
  assumes "\<forall>e \<in> set b. en_h e = hs (en_k e) \<and> eqfn k (en_k e) = (k = en_k e)"
  shows "case remove_entry eqfn (hs k) k b of None \<Rightarrow> \<forall>e \<in> set b. en_k e \<noteq> k
    | Some (e, es) \<Rightarrow> en_k e = k \<and> mset b = add_mset e (mset es)"
  using assms by (induction b) (auto split: option.splits)

lemma bucket_eqfn:
  assumes "ht_wf key h" "key k"
  shows "\<forall>e \<in> set (ht_table h ! indexFor (ht_tablelength h) (hash h k)).
    en_h e = hash h (en_k e) \<and> ht_eqfn h k (en_k e) = (k = en_k e)"
  using bucket_hash [OF assms(1)] assms by (simp add: ht_wf_def)

lemma search_map:
  assumes "ht_wf key h" "key k"
  shows "hashtable_search h k = ht_map h k"
proof -
  let ?b = "ht_table h ! indexFor (ht_tablelength h) (hash h k)"
  have s: "hashtable_search h k = map_of (map (\<lambda>e. (en_k e, en_v e)) ?b) k"
    using find_entry_spec [where hs = "hash h" and eqfn = "ht_eqfn h" and k = k, OF bucket_eqfn [OF assms]] by (simp add: hashtable_search_def Let_def)
  show ?thesis
  proof (cases "ht_map h k")
    case None
    then have "k \<notin> en_k ` set ?b" using bucket_entries [OF assms(1)] by (auto simp: ht_map_None)
    then show ?thesis using None s by (simp add: map_of_eq_None_iff image_image)
  next
    case (Some v)
    then obtain e where e: "e \<in> set (entries h)" "en_k e = k" "en_v e = v"
      using ht_map_Some [OF assms(1)] by blast
    then have "k \<in> en_k ` set ?b" using bucket_entries [OF assms(1), of e] by auto
    then obtain v' where v': "map_of (map (\<lambda>e. (en_k e, en_v e)) ?b) k = Some v'"
      by (cases "map_of (map (\<lambda>e. (en_k e, en_v e)) ?b) k") (auto simp: map_of_eq_None_iff image_image)
    then obtain e' where "e' \<in> set ?b" "en_k e' = k" "en_v e' = v'" by (auto dest!: map_of_SomeD)
    then have "ht_map h k = Some v'"
      using bucket_entries [OF assms(1), of e' k] ht_map_Some [OF assms(1)] by blast
    then show ?thesis using s v' by simp
  qed
qed

text \<open>The count goes up first; the table then grows when it must.\<close>

lemma make_room:
  assumes wf: "ht_wf key h" and m: "hm_table m \<or> \<not> hm_realloc m"
  shows "\<exists>b h1. (if unat (ht_entrycount h + 1) > ht_loadlimit h then hashtable_expand m (h\<lparr>ht_entrycount := ht_entrycount h + 1\<rparr>)
      else Returned (False, h\<lparr>ht_entrycount := ht_entrycount h + 1\<rparr>)) = Returned (b, h1\<lparr>ht_entrycount := ht_entrycount h1 + 1\<rparr>)
    \<and> ht_wf key h1 \<and> ht_map h1 = ht_map h"
proof (cases "unat (ht_entrycount h + 1) > ht_loadlimit h")
  case True
  obtain b h1 where e: "hashtable_expand m h = Returned (b, h1)" "ht_wf key h1" "ht_map h1 = ht_map h"
    using expand_keeps [OF wf m] by blast
  have "hashtable_expand m (h\<lparr>ht_entrycount := ht_entrycount h + 1\<rparr>) = Returned (b, h1\<lparr>ht_entrycount := ht_entrycount h1 + 1\<rparr>)"
    using e(1) by (auto simp: hashtable_expand_def Let_def split: if_splits)
  then show ?thesis using True e(2,3) by (intro exI [of _ b] exI [of _ h1]) simp
next
  case False
  then show ?thesis using wf by (intro exI [of _ False] exI [of _ h]) simp
qed

text \<open>What a change of one bucket, and of the count with it, does to a sound table.\<close>

lemma change_bucket:
  assumes wf: "ht_wf key h" and i: "i < length (ht_table h)"
    and b: "\<forall>e \<in> set b. en_h e = hash h (en_k e) \<and> indexFor (ht_tablelength h) (hash h (en_k e)) = i"
    and d: "distinct (map en_k (concat ((ht_table h)[i := b])))"
    and k: "\<forall>e \<in> set (concat ((ht_table h)[i := b])). key (en_k e)"
  shows "ht_wf key (h\<lparr>ht_table := (ht_table h)[i := b], ht_entrycount := of_nat (length (concat ((ht_table h)[i := b])))\<rparr>)"
proof -
  have "length (ht_table h) = ht_tablelength h" "placed (hash h) (ht_table h)" using wf by (simp_all add: ht_wf_def)
  then have "placed (hash h) ((ht_table h)[i := b])" using i b by (simp add: placed_def nth_list_update)
  then show ?thesis using wf d k by (simp only: ht_wf_def entries_def hash_update hashtable.simps length_list_update simp_thms) simp
qed

lemma add_entry:
  fixes v :: 'v
  assumes wf: "ht_wf key h" and k: "key k" "ht_map h k = None"
  defines "i \<equiv> indexFor (ht_tablelength h) (hash h k)"
  defines "t \<equiv> (ht_table h)[i := \<lparr>en_k = k, en_v = v, en_h = hash h k\<rparr> # ht_table h ! i]"
  shows "ht_wf key (h\<lparr>ht_table := t, ht_entrycount := ht_entrycount h + 1\<rparr>)"
    "ht_map (h\<lparr>ht_table := t, ht_entrycount := ht_entrycount h + 1\<rparr>) = (ht_map h)(k \<mapsto> v)"
proof -
  let ?e = "\<lparr>en_k = k, en_v = v, en_h = hash h k\<rparr>"
  have i: "i < length (ht_table h)" unfolding i_def by (rule ht_index [OF wf])
  have w: "placed (hash h) (ht_table h)" "distinct (map en_k (concat (ht_table h)))" "length (ht_table h) = ht_tablelength h"
    "\<forall>e \<in> set (concat (ht_table h)). key (en_k e)" "ht_entrycount h = of_nat (length (concat (ht_table h)))"
    using wf unfolding ht_wf_def entries_def by blast+
  have new: "k \<notin> en_k ` set (concat (ht_table h))"
    using k(2) ht_map_None [of h k] by (simp add: entries_def)
  have e: "mset (concat t) = mset (?e # concat (ht_table h))"
    using mset_concat_update [OF i, of "?e # ht_table h ! i"] by (simp add: t_def)
  note s = same_entries [OF e]
  have d: "distinct (map en_k (concat t))" using s(1) new w(2) by simp
  have c: "ht_entrycount h + 1 = of_nat (length (concat t))" using s(3) w(5) by (simp add: add.commute)
  have b: "\<forall>x \<in> set (?e # ht_table h ! i). en_h x = hash h (en_k x) \<and> indexFor (ht_tablelength h) (hash h (en_k x)) = i"
    using w(1,3) i by (simp add: placed_def i_def)
  have "\<forall>x \<in> set (concat t). key (en_k x)" unfolding s(2) using w(4) k(1) by simp
  then show "ht_wf key (h\<lparr>ht_table := t, ht_entrycount := ht_entrycount h + 1\<rparr>)"
    unfolding c t_def by (rule change_bucket [OF wf i b d [unfolded t_def]])
  show "ht_map (h\<lparr>ht_table := t, ht_entrycount := ht_entrycount h + 1\<rparr>) = (ht_map h)(k \<mapsto> v)"
    using s(4) [OF d] by (simp add: ht_map_def entries_def)
qed

lemma insert_keeps:
  assumes wf: "ht_wf key h" and k: "key k" "ht_map h k = None" and m: "hm_table m \<or> \<not> hm_realloc m"
  shows "\<exists>h'. hashtable_insert m h k v = Returned (hm_block m, h') \<and> ht_wf key h'
    \<and> ht_map h' = (if hm_block m then (ht_map h)(k \<mapsto> v) else ht_map h)"
proof -
  obtain b h1 where h1: "(if unat (ht_entrycount h + 1) > ht_loadlimit h
      then hashtable_expand m (h\<lparr>ht_entrycount := ht_entrycount h + 1\<rparr>)
      else Returned (False, h\<lparr>ht_entrycount := ht_entrycount h + 1\<rparr>)) = Returned (b, h1\<lparr>ht_entrycount := ht_entrycount h1 + 1\<rparr>)"
    "ht_wf key h1" "ht_map h1 = ht_map h"
    using make_room [OF wf m] by blast
  have n: "ht_map h1 k = None" using k(2) h1(3) by simp
  note a = add_entry [OF h1(2) k(1) n]
  have i: "hashtable_insert m h k v =
    (if \<not> hm_block m then Returned (False, h1)
     else Returned (True, h1\<lparr>ht_table := (ht_table h1)[indexFor (ht_tablelength h1) (hash h1 k) :=
       \<lparr>en_k = k, en_v = v, en_h = hash h1 k\<rparr> # ht_table h1 ! indexFor (ht_tablelength h1) (hash h1 k)],
       ht_entrycount := ht_entrycount h1 + 1\<rparr>))"
    using h1(1) by (simp add: hashtable_insert_def Let_def)
  show ?thesis
  proof (cases "hm_block m")
    case True
    then show ?thesis unfolding i using a h1(3) by (simp del: fun_upd_apply)
  qed (use i h1(2,3) in simp)
qed

lemma remove_keeps:
  assumes wf: "ht_wf key h" and k: "key k"
  shows "\<exists>fr h'. hashtable_remove h k = (ht_map h k, fr, h') \<and> ht_wf key h' \<and> ht_map h' = (ht_map h)(k := None)"
proof -
  let ?i = "indexFor (ht_tablelength h) (hash h k)"
  let ?r = "remove_entry (ht_eqfn h) (hash h k) k (ht_table h ! ?i)"
  note r = remove_entry_spec [where hs = "hash h" and eqfn = "ht_eqfn h" and k = k, OF bucket_eqfn [OF wf k]]
  show ?thesis
  proof (cases ?r)
    case None
    then have "\<forall>e \<in> set (ht_table h ! ?i). en_k e \<noteq> k" using r by simp
    then have "ht_map h k = None" using bucket_entries [OF wf] by (auto simp: ht_map_None)
    then show ?thesis using None wf by (simp add: hashtable_remove_def Let_def fun_upd_idem)
  next
    case (Some x)
    obtain e es where x: "x = (e, es)" by (cases x)
    let ?t = "(ht_table h)[?i := es]"
    have e: "en_k e = k" "mset (ht_table h ! ?i) = add_mset e (mset es)" using r Some x by simp_all
    have i: "?i < length (ht_table h)" by (rule ht_index [OF wf])
    have w: "placed (hash h) (ht_table h)" "distinct (map en_k (concat (ht_table h)))"
      "length (ht_table h) = ht_tablelength h"
      "\<forall>e \<in> set (concat (ht_table h)). key (en_k e)" "ht_entrycount h = of_nat (length (concat (ht_table h)))"
      using wf unfolding ht_wf_def entries_def by blast+
    have c: "mset (concat (ht_table h)) = mset (e # concat ?t)"
      using mset_concat_update [OF i, of es] e(2) by simp
    note s = same_entries [OF c]
    have sub: "set es \<subseteq> set (ht_table h ! ?i)" using mset_eq_setD [of "ht_table h ! ?i" "e # es"] e(2) by auto
    have b: "\<forall>x \<in> set es. en_h x = hash h (en_k x) \<and> indexFor (ht_tablelength h) (hash h (en_k x)) = ?i"
      using w(1,3) i sub unfolding placed_def by auto
    have d: "distinct (map en_k (concat ?t))" "k \<notin> en_k ` set (concat ?t)" using s(1) w(2) e(1) by simp_all
    have n: "ht_entrycount h - 1 = of_nat (length (concat ?t))" using w(5) s(3) by simp
    have "\<forall>x \<in> set (concat ?t). key (en_k x)" using w(4) unfolding s(2) by simp
    then have w': "ht_wf key (h\<lparr>ht_table := ?t, ht_entrycount := ht_entrycount h - 1\<rparr>)"
      unfolding n by (rule change_bucket [OF wf i b d(1)])
    have m: "ht_map h = (ht_map (h\<lparr>ht_table := ?t, ht_entrycount := ht_entrycount h - 1\<rparr>))(k \<mapsto> en_v e)"
      using s(4) [OF w(2)] e(1) by (simp add: ht_map_def entries_def)
    have "ht_map (h\<lparr>ht_table := ?t, ht_entrycount := ht_entrycount h - 1\<rparr>) k = None"
      using d(2) by (simp add: ht_map_None entries_def)
    then show ?thesis using Some x m w' by (simp add: hashtable_remove_def Let_def fun_upd_idem)
  qed
qed


lemma length_entries:
  assumes "ht_wf key h"
  shows "ht_entrycount h = of_nat (card (dom (ht_map h)))"
proof -
  have "dom (ht_map h) = set (map en_k (entries h))"
    by (auto simp: ht_map_def dom_map_of_conv_image_fst image_image)
  then have "card (dom (ht_map h)) = length (entries h)"
    using assms distinct_card [of "map en_k (entries h)"] unfolding ht_wf_def by simp
  then show ?thesis using assms by (simp add: ht_wf_def)
qed

lemma find_prime_spec:
  "\<exists>p \<in> set ps. n < p \<Longrightarrow> i \<le> fst (find_prime n i ps) \<and> fst (find_prime n i ps) < i + length ps
    \<and> snd (find_prime n i ps) = ps ! (fst (find_prime n i ps) - i)"
proof (induction ps arbitrary: i)
  case (Cons p ps)
  then show ?case using Cons.IH [of "Suc i"] by (cases "n < p") (auto simp: nth_Cons' Suc_le_eq)
qed simp

lemma created:
  assumes "create_hashtable m n hs eq = Some h" "n \<le> 2 ^ 30" "\<forall>a b. key a \<longrightarrow> key b \<longrightarrow> eq a b = (a = b)"
  shows "ht_wf key h \<and> ht_map h = Map.empty"
proof -
  have "fst (find_prime n 0 primes) < prime_table_length \<and> snd (find_prime n 0 primes) = primes ! fst (find_prime n 0 primes)"
  proof -
    have "1610612741 \<in> set primes" by (simp add: primes_def)
    moreover have "n < 1610612741" using assms(2) by simp
    ultimately show ?thesis
      using find_prime_spec [of primes n 0] by (auto simp: prime_table_length_def)
  qed
  then show ?thesis using assms(1,3)
    by (auto simp: create_hashtable_def split_beta ht_wf_def entries_def ht_map_def placed_def concat_replicate_Nil
      split: if_splits)
qed

section \<open>Global values are a map\<close>

text \<open>
  The calls on the table of global values. A key that is set is not in the table, the condition
  under which \<open>hashtable_insert\<close> asks to be used, and memory for a larger table is there unless
  \<open>realloc\<close> fails as well.
\<close>

datatype 'v global_call = Set_global ht_memory string 'v | Get_global string | Remove_global string | Count_globals

fun call_global :: "'v global_call \<Rightarrow> 'v globals \<Rightarrow> (('v option + int) \<times> 'v globals) proc" where
  "call_global (Set_global m k v) g = proc_map (apfst Inl) (setGlobal m k v g)"
| "call_global (Get_global k) g = proc_map (\<lambda>r. (Inl r, g)) (getGlobal k g)"
| "call_global (Remove_global k) g = proc_map (apfst Inl) (removeGlobal k g)"
| "call_global Count_globals g = proc_map (\<lambda>n. (Inr n, g)) (countGlobals g)"

fun spec_global :: "'v global_call \<Rightarrow> (string \<Rightarrow> 'v option) \<Rightarrow> ('v option + int) \<times> (string \<Rightarrow> 'v option)" where
  "spec_global (Set_global m k v) a = (if hm_block m then (Inl (Some v), a(k \<mapsto> v)) else (Inl None, a))"
| "spec_global (Get_global k) a = (Inl (a k), a)"
| "spec_global (Remove_global k) a = (Inl (a k), a(k := None))"
| "spec_global Count_globals a = (Inr (sint (of_nat (card (dom a)) :: 32 word)), a)"

fun global_allowed :: "'v global_call \<Rightarrow> (string \<Rightarrow> 'v option) \<Rightarrow> bool" where
  "global_allowed (Set_global m k v) a \<longleftrightarrow> NUL \<notin> set k \<and> a k = None \<and> (hm_table m \<or> \<not> hm_realloc m)"
| "global_allowed (Get_global k) a \<longleftrightarrow> NUL \<notin> set k"
| "global_allowed (Remove_global k) a \<longleftrightarrow> NUL \<notin> set k"
| "global_allowed Count_globals a \<longleftrightarrow> True"

definition c_string :: "string \<Rightarrow> bool" where "c_string k \<longleftrightarrow> NUL \<notin> set k"

definition globals_hold :: "'v globals \<Rightarrow> (string \<Rightarrow> 'v option) \<Rightarrow> bool" where
  "globals_hold g a \<longleftrightarrow> (\<exists>h. g = Some h \<and> ht_wf c_string h \<and> ht_map h = a)"

lemma call_global_holds:
  assumes "globals_hold g a" "global_allowed c a"
  shows "\<exists>g'. call_global c g = Returned (fst (spec_global c a), g') \<and> globals_hold g' (snd (spec_global c a))"
proof -
  obtain h where h: "g = Some h" "ht_wf c_string h" "ht_map h = a"
    using assms(1) by (auto simp: globals_hold_def)
  show ?thesis
  proof (cases c)
    case (Set_global m k v)
    then have "c_string k" "ht_map h k = None" "hm_table m \<or> \<not> hm_realloc m"
      using assms(2) h(3) by (simp_all add: c_string_def)
    from insert_keeps [OF h(2) this, of v] obtain h' where "hashtable_insert m h k v = Returned (hm_block m, h')"
      "ht_wf c_string h'" "ht_map h' = (if hm_block m then (ht_map h)(k \<mapsto> v) else ht_map h)" by blast
    then show ?thesis using Set_global h by (simp add: setGlobal_def with_globals_def globals_hold_def)
  next
    case (Get_global k)
    then have "hashtable_search h k = a k" using search_map [OF h(2), of k] assms(2) h(3) by (simp add: c_string_def)
    then show ?thesis using Get_global h by (simp add: getGlobal_def with_globals_def globals_hold_def)
  next
    case (Remove_global k)
    then obtain fr h' where "hashtable_remove h k = (ht_map h k, fr, h')" "ht_wf c_string h'"
      "ht_map h' = (ht_map h)(k := None)"
      using remove_keeps [OF h(2), of k] assms(2) by (auto simp: c_string_def)
    then show ?thesis using Remove_global h by (simp add: removeGlobal_def with_globals_def globals_hold_def)
  next
    case Count_globals
    then show ?thesis using h length_entries [OF h(2)]
      by (simp add: countGlobals_def hashtable_count_def with_globals_def globals_hold_def)
  qed
qed

interpretation globals: simulation call_global spec_global global_allowed globals_hold
  by unfold_locales (rule call_global_holds)

lemma char_equal_strings: "c_string a \<Longrightarrow> c_string b \<Longrightarrow> char_equal_fn a b = (a = b)"
  by (auto simp: char_equal_fn_def strncmp_eq_def strlen_def c_string_def cstr_simps)

lemma globals_made:
  assumes "hm_block m" "hm_table m"
  shows "globals_hold (initGlobals m :: 'v globals) Map.empty"
proof -
  obtain h :: "(string, 'v) hashtable" where h: "create_hashtable m 16 dj2b_hash_from_char_fn char_equal_fn = Some h"
    using assms by (simp add: create_hashtable_def split_beta)
  then show ?thesis
    using created [OF h, of c_string] char_equal_strings by (simp add: globals_hold_def initGlobals_def)
qed

text \<open>C33. The table of global values is a map: after it is made, any sequence of setting a new key,
  reading, removing and counting gives the answers of a map from strings to values, whatever
  allocations of entries fail and however often the table grows.\<close>

lemma globals_refine_map:
  assumes "hm_block m" "hm_table m" "all_allowed global_allowed spec_global calls Map.empty"
  shows "\<exists>g. run_calls call_global calls (initGlobals m) = Returned (fst (run_spec spec_global calls Map.empty), g)
    \<and> globals_hold g (snd (run_spec spec_global calls Map.empty))"
  using globals.runs [OF globals_made [OF assms(1,2)] assms(3)] .

definition all_memory :: ht_memory where
  "all_memory = \<lparr>hm_table = True, hm_realloc = True, hm_block = True\<rparr>"

lemma globals_refine_map_witness:
  "\<exists>g. run_calls call_global [Set_global all_memory ''a'' (7 :: nat), Get_global ''a'', Count_globals, Remove_global ''a'',
      Get_global ''a''] (initGlobals all_memory)
    = Returned ([Inl (Some 7), Inl (Some 7), Inr 1, Inl (Some 7), Inl None], g)"
proof -
  let ?calls = "[Set_global all_memory ''a'' (7 :: nat), Get_global ''a'', Count_globals, Remove_global ''a'', Get_global ''a'']"
  have "\<exists>g. run_calls call_global ?calls (initGlobals all_memory) = Returned (fst (run_spec spec_global ?calls Map.empty), g)
    \<and> globals_hold g (snd (run_spec spec_global ?calls Map.empty))"
    by (rule globals_refine_map) (simp_all add: all_memory_def NUL_def)
  then show ?thesis by (auto simp: all_memory_def)
qed

section \<open>What goes wrong\<close>

text \<open>When no new table can be made, the table that \<open>realloc\<close> moves is cleared through a pointer that was
  never set.\<close>

lemma realloc_clears_wild:
  "\<not> hm_table m \<Longrightarrow> hm_realloc m \<Longrightarrow> ht_primeindex h < prime_table_length - 1
    \<Longrightarrow> hashtable_expand m h = Undefined ''uninitialised pointer''"
  by (simp add: hashtable_expand_def Let_def)

text \<open>The entries of a bucket change their order when the table grows, so that of two values of a key the
  older one is found.\<close>

definition two_values :: "(string, nat) ht_entry list" where
  "two_values = [\<lparr>en_k = ''a'', en_v = 2, en_h = 9\<rparr>, \<lparr>en_k = ''a'', en_v = 1, en_h = 9\<rparr>]"

lemma growth_reverses:
  "move_entries 97 [two_values] ! 9 = rev two_values"
  "find_entry char_equal_fn 9 ''a'' two_values = Some 2"
  "find_entry char_equal_fn 9 ''a'' (move_entries 97 [two_values] ! 9) = Some 1"
proof -
  show e: "move_entries 97 [two_values] ! 9 = rev two_values"
    by (simp add: move_entries_def move_entry_def two_values_def indexFor_def Let_def nth_list_update)
  have c: "char_equal_fn ''a'' ''a''" by (simp add: char_equal_fn_def strncmp_eq_def)
  show "find_entry char_equal_fn 9 ''a'' two_values = Some 2" using c by (simp add: two_values_def)
  show "find_entry char_equal_fn 9 ''a'' (move_entries 97 [two_values] ! 9) = Some 1"
    unfolding e using c by (simp add: two_values_def)
qed

text \<open>A table that could not be made, or that is freed, is used all the same.\<close>

lemma missing_globals: "setGlobal m k v None = Undefined ''no table''" "getGlobal k None = Undefined ''no table''"
  by (simp_all add: setGlobal_def getGlobal_def with_globals_def)

end
