(* ===== verification/Mpoll.thy ===== *)
theory Mpoll
  imports Posix "HOL-Library.Multiset"
begin

text \<open>
  The event loop of \<open>lib/libipfix/libmisc/mpoll.c\<close>: timers kept in the order in which they expire,
  descriptors with their callbacks, and the loop that waits for both. The lists that are linked in
  the code are lists here, with the address of every block. A callback with its argument is a
  value, and what it does to the module and to the program is an argument of the model; so are the
  clock and the answers of \<open>select\<close>.
\<close>

section \<open>State\<close>

record timeval =
  tv_sec :: int
  tv_usec :: int

text \<open>
  The callback of a timer is one of the program or \<open>_cb_stoploop\<close> with the address of \<open>stopflag\<close>, a
  variable in the frame of a call of \<open>mpoll_loop\<close>.
\<close>

datatype 'cb timer_call = Stop_loop nat | Call 'cb

record 'cb mtimer =
  mt_id :: nat
  mt_expiration :: timeval
  mt_callback :: "'cb timer_call"

record 'cb poll_node =
  pn_id :: nat
  pn_reuse :: bool
  pn_fd :: int
  pn_mask :: nat
  pn_func :: "'cb option"

definition MPOLL_IN :: nat where "MPOLL_IN = 1"
definition MPOLL_OUT :: nat where "MPOLL_OUT = 2"
definition MPOLL_EXCEPT :: nat where "MPOLL_EXCEPT = 4"
definition nstatic_pnodes :: nat where "nstatic_pnodes = 16"
definition FD_SETSIZE :: int where "FD_SETSIZE = 1024"

text \<open>
  The globals of the module. \<open>mp_frames\<close> holds \<open>stopflag\<close> of every call of the loop that has not
  returned, \<open>mp_next\<close> numbers the blocks and frames that are made, \<open>mp_ticks\<close> counts the readings of the clock,
  and \<open>mp_user\<close> is the rest of the program.
\<close>

record ('cb, 'w) mpoll =
  mp_tnow :: timeval
  mp_timers :: "'cb mtimer list"
  mp_freelist :: "'cb poll_node list"
  mp_pnodes :: "'cb poll_node list"
  mp_used :: int
  mp_fdsetupdate :: int
  mp_breakflag :: bool
  mp_frames :: "nat \<rightharpoonup> bool"
  mp_next :: nat
  mp_ticks :: nat
  mp_user :: 'w

record ('cb, 'w) callbacks =
  on_timer :: "'cb \<Rightarrow> ('cb, 'w) mpoll \<Rightarrow> ('cb, 'w) mpoll proc"
  on_fd :: "'cb \<Rightarrow> int \<Rightarrow> nat \<Rightarrow> ('cb, 'w) mpoll \<Rightarrow> ('cb, 'w) mpoll proc"

type_synonym clock = "nat \<Rightarrow> timeval"

section \<open>Timers\<close>

definition later :: "timeval \<Rightarrow> timeval \<Rightarrow> bool" where
  "later a b \<longleftrightarrow> tv_sec a > tv_sec b \<or> tv_sec a = tv_sec b \<and> tv_usec a > tv_usec b"

fun insert_timer :: "'cb mtimer \<Rightarrow> 'cb mtimer list \<Rightarrow> 'cb mtimer list" where
  "insert_timer n [] = [n]"
| "insert_timer n (w # ws) =
     (if later (mt_expiration w) (mt_expiration n) then n # w # ws else w # insert_timer n ws)"

function carry :: "timeval \<Rightarrow> timeval" where
  "carry t = (if tv_usec t > 1000000 then carry \<lparr>tv_sec = tv_sec t + 1, tv_usec = tv_usec t - 1000000\<rparr> else t)"
  by auto
termination by (relation "measure (\<lambda>t. nat (tv_usec t))") auto

declare carry.simps [simp del]

definition add_timer :: "timeval \<Rightarrow> 'cb timer_call \<Rightarrow> ('cb, 'w) mpoll \<Rightarrow> nat \<times> ('cb, 'w) mpoll" where
  "add_timer expiration callback st =
     (mp_next st, st\<lparr>mp_timers := insert_timer \<lparr>mt_id = mp_next st, mt_expiration = expiration, mt_callback = callback\<rparr> (mp_timers st),
       mp_next := mp_next st + 1\<rparr>)"

definition mtimer_ustart :: "bool \<Rightarrow> int \<Rightarrow> 'cb timer_call \<Rightarrow> ('cb, 'w) mpoll \<Rightarrow> (nat \<times> ('cb, 'w) mpoll) proc" where
  "mtimer_ustart mem usec callback st =
     (if \<not> mem then Undefined ''null pointer''
      else Returned (add_timer (carry \<lparr>tv_sec = tv_sec (mp_tnow st), tv_usec = tv_usec (mp_tnow st) + usec\<rparr>) callback st))"

definition mtimer_start :: "bool \<Rightarrow> int \<Rightarrow> 'cb timer_call \<Rightarrow> ('cb, 'w) mpoll \<Rightarrow> (nat \<times> ('cb, 'w) mpoll) proc" where
  "mtimer_start mem sec callback st =
     (if \<not> mem then Undefined ''null pointer''
      else Returned (add_timer \<lparr>tv_sec = tv_sec (mp_tnow st) + sec, tv_usec = tv_usec (mp_tnow st)\<rparr> callback st))"

fun remove_timer :: "nat \<Rightarrow> 'cb mtimer list \<Rightarrow> 'cb mtimer list" where
  "remove_timer timer [] = []"
| "remove_timer timer (w # ws) = (if mt_id w = timer then ws else w # remove_timer timer ws)"

definition mtimer_stop :: "nat \<Rightarrow> ('cb, 'w) mpoll \<Rightarrow> ('cb, 'w) mpoll" where
  "mtimer_stop timer st = st\<lparr>mp_timers := remove_timer timer (mp_timers st)\<rparr>"

function borrow :: "timeval \<Rightarrow> timeval" where
  "borrow t = (if tv_usec t < 0 then borrow \<lparr>tv_sec = tv_sec t - 1, tv_usec = tv_usec t + 1000000\<rparr> else t)"
  by auto
termination by (relation "measure (\<lambda>t. nat (- tv_usec t))") auto

declare borrow.simps [simp del]

definition mtimer_getnext :: "('cb, 'w) mpoll \<Rightarrow> timeval option" where
  "mtimer_getnext st =
     (case mp_timers st of
        [] \<Rightarrow> None
      | t # _ \<Rightarrow>
          let delta = borrow \<lparr>tv_sec = tv_sec (mt_expiration t) - tv_sec (mp_tnow st),
                tv_usec = tv_usec (mt_expiration t) - tv_usec (mp_tnow st)\<rparr> in
          Some (if tv_sec delta < 0 then \<lparr>tv_sec = 0, tv_usec = 0\<rparr> else delta))"

definition cb_stoploop :: "nat \<Rightarrow> ('cb, 'w) mpoll \<Rightarrow> ('cb, 'w) mpoll proc" where
  "cb_stoploop flag st =
     (if mp_frames st flag = None then Undefined ''frame that has returned''
      else Returned (st\<lparr>mp_frames := (mp_frames st)(flag \<mapsto> True)\<rparr>))"

definition run_timer :: "('cb, 'w) callbacks \<Rightarrow> 'cb timer_call \<Rightarrow> ('cb, 'w) mpoll \<Rightarrow> ('cb, 'w) mpoll proc" where
  "run_timer cbs c st = (case c of Stop_loop flag \<Rightarrow> cb_stoploop flag st | Call f \<Rightarrow> on_timer cbs f st)"

definition mtimer_pop :: "('cb, 'w) callbacks \<Rightarrow> 'cb mtimer \<Rightarrow> ('cb, 'w) mpoll \<Rightarrow> ('cb, 'w) mpoll proc" where
  "mtimer_pop cbs timer st = run_timer cbs (mt_callback timer) (mtimer_stop (mt_id timer) st)"

definition mtimer_settime :: "clock \<Rightarrow> ('cb, 'w) mpoll \<Rightarrow> ('cb, 'w) mpoll" where
  "mtimer_settime clock st = st\<lparr>mp_tnow := clock (mp_ticks st), mp_ticks := mp_ticks st + 1\<rparr>"

text \<open>
  The first timer is taken while it is due. A callback may add timers and read the clock, so the
  number of turns is bounded by an argument.
\<close>

fun mtimer_expire :: "('cb, 'w) callbacks \<Rightarrow> nat \<Rightarrow> ('cb, 'w) mpoll \<Rightarrow> ('cb, 'w) mpoll proc" where
  "mtimer_expire cbs fuel st =
     (case mp_timers st of
        [] \<Rightarrow> Returned st
      | t # _ \<Rightarrow>
          if later (mp_tnow st) (mt_expiration t) then
            (case fuel of 0 \<Rightarrow> Spins | Suc fuel \<Rightarrow> proc_bind (mtimer_pop cbs t st) (mtimer_expire cbs fuel))
          else Returned st)"

declare mtimer_expire.simps [simp del]

section \<open>Descriptors\<close>

definition static_pnodes :: "'cb poll_node list" where
  "static_pnodes = map (\<lambda>i. \<lparr>pn_id = i, pn_reuse = True, pn_fd = 0, pn_mask = 0, pn_func = None\<rparr>) [0..<nstatic_pnodes]"

text \<open>What a static node held before is not kept: nothing reads it before it is set.\<close>

definition pnode_init :: "('cb, 'w) mpoll \<Rightarrow> ('cb, 'w) mpoll" where
  "pnode_init st = st\<lparr>mp_freelist := rev static_pnodes\<rparr>"

definition pnode_free :: "'cb poll_node \<Rightarrow> ('cb, 'w) mpoll \<Rightarrow> ('cb, 'w) mpoll" where
  "pnode_free node st =
     (if pn_reuse node then st\<lparr>mp_freelist := node # mp_freelist st, mp_used := mp_used st - 1\<rparr>
      else st\<lparr>mp_used := mp_used st - 1\<rparr>)"

definition link_pnode :: "int \<Rightarrow> nat \<Rightarrow> 'cb option \<Rightarrow> nat \<Rightarrow> bool \<Rightarrow> ('cb, 'w) mpoll \<Rightarrow> ('cb, 'w) mpoll" where
  "link_pnode fd msk callback node reuse st =
     st\<lparr>mp_pnodes := \<lparr>pn_id = node, pn_reuse = reuse, pn_fd = fd, pn_mask = msk, pn_func = callback\<rparr> # mp_pnodes st,
       mp_used := mp_used st + 1, mp_fdsetupdate := mp_fdsetupdate st + 1\<rparr>"

definition mpoll_fdadd :: "bool \<Rightarrow> int \<Rightarrow> nat \<Rightarrow> 'cb option \<Rightarrow> ('cb, 'w) mpoll \<Rightarrow> int \<times> ('cb, 'w) mpoll" where
  "mpoll_fdadd mem fd msk callback st =
     (let st = (if mp_freelist st = [] \<and> mp_used st = 0 then pnode_init st else st) in
      case mp_freelist st of
        node # rest \<Rightarrow> (0, link_pnode fd msk callback (pn_id node) True (st\<lparr>mp_freelist := rest\<rparr>))
      | [] \<Rightarrow>
          if \<not> mem then (-1, st)
          else (0, link_pnode fd msk callback (mp_next st) False (st\<lparr>mp_next := mp_next st + 1\<rparr>)))"

fun take_pnode :: "int \<Rightarrow> 'cb poll_node list \<Rightarrow> ('cb poll_node \<times> 'cb poll_node list) option" where
  "take_pnode fd [] = None"
| "take_pnode fd (n # ns) =
     (if pn_fd n = fd then Some (n, ns) else map_option (\<lambda>(r, ns). (r, n # ns)) (take_pnode fd ns))"

definition mpoll_fdrm :: "int \<Rightarrow> ('cb, 'w) mpoll \<Rightarrow> ('cb, 'w) mpoll" where
  "mpoll_fdrm fd st =
     (let st = (case take_pnode fd (mp_pnodes st) of
                  None \<Rightarrow> st
                | Some (n, ns) \<Rightarrow> pnode_free n (st\<lparr>mp_pnodes := ns\<rparr>)) in
      st\<lparr>mp_fdsetupdate := mp_fdsetupdate st + 1\<rparr>)"

section \<open>Calls of the program\<close>

definition mpoll_timeradd :: "clock \<Rightarrow> bool \<Rightarrow> int \<Rightarrow> 'cb \<Rightarrow> ('cb, 'w) mpoll \<Rightarrow> (nat \<times> ('cb, 'w) mpoll) proc" where
  "mpoll_timeradd clock mem sec callback st = mtimer_start mem sec (Call callback) (mtimer_settime clock st)"

definition mpoll_utimeradd :: "clock \<Rightarrow> bool \<Rightarrow> int \<Rightarrow> 'cb \<Rightarrow> ('cb, 'w) mpoll \<Rightarrow> (nat \<times> ('cb, 'w) mpoll) proc" where
  "mpoll_utimeradd clock mem usec callback st = mtimer_ustart mem usec (Call callback) (mtimer_settime clock st)"

definition mpoll_timerrm :: "nat \<Rightarrow> ('cb, 'w) mpoll \<Rightarrow> ('cb, 'w) mpoll" where
  "mpoll_timerrm timer st = mtimer_stop timer st"

definition mpoll_break :: "('cb, 'w) mpoll \<Rightarrow> ('cb, 'w) mpoll" where
  "mpoll_break st = st\<lparr>mp_breakflag := True\<rparr>"

fun free_pnodes :: "'cb poll_node list \<Rightarrow> ('cb, 'w) mpoll \<Rightarrow> ('cb, 'w) mpoll" where
  "free_pnodes [] st = st"
| "free_pnodes (n # ns) st = (if mp_used st = 0 then st else free_pnodes ns (pnode_free n (st\<lparr>mp_pnodes := ns\<rparr>)))"

fun stop_all :: "'cb mtimer list \<Rightarrow> ('cb, 'w) mpoll \<Rightarrow> ('cb, 'w) mpoll" where
  "stop_all [] st = st"
| "stop_all (t # ts) st = stop_all ts (mtimer_stop (mt_id t) st)"

definition mpoll_cleanup :: "('cb, 'w) mpoll \<Rightarrow> ('cb, 'w) mpoll" where
  "mpoll_cleanup st =
     (let st = free_pnodes (mp_pnodes st) st; st = st\<lparr>mp_freelist := []\<rparr> in stop_all (mp_timers st) st)"

section \<open>The loop\<close>

text \<open>The descriptors to wait for, and one more than the largest of them.\<close>

record fd_sets =
  fs_in :: "int list"
  fs_out :: "int list"
  fs_except :: "int list"

definition fds_with :: "nat \<Rightarrow> 'cb poll_node list \<Rightarrow> int list" where
  "fds_with m ns = map pn_fd (filter (\<lambda>n. and (pn_mask n) m \<noteq> 0) ns)"

definition build_sets :: "'cb poll_node list \<Rightarrow> (int \<times> fd_sets) proc" where
  "build_sets ns =
     (if \<exists>n \<in> set ns. \<not> (0 \<le> pn_fd n \<and> pn_fd n < FD_SETSIZE) \<and> and (pn_mask n) (MPOLL_IN + MPOLL_OUT + MPOLL_EXCEPT) \<noteq> 0
      then Undefined ''FD_SET outside the set''
      else Returned (foldl (\<lambda>fds n. if pn_fd n \<ge> fds then pn_fd n + 1 else fds) 0 ns,
        \<lparr>fs_in = fds_with MPOLL_IN ns, fs_out = fds_with MPOLL_OUT ns, fs_except = fds_with MPOLL_EXCEPT ns\<rparr>))"

text \<open>An answer of \<open>select\<close>: which descriptors are ready, or an error.\<close>

datatype select_answer = Ready "int \<Rightarrow> bool" "int \<Rightarrow> bool" "int \<Rightarrow> bool" | Select_failed errno

definition ready_mask :: "fd_sets \<Rightarrow> int \<Rightarrow> nat" where
  "ready_mask s fd =
     (if fd \<in> set (fs_in s) then MPOLL_IN else 0) + (if fd \<in> set (fs_out s) then MPOLL_OUT else 0)
     + (if fd \<in> set (fs_except s) then MPOLL_EXCEPT else 0)"

text \<open>
  The walk over the nodes. After a callback that did not change the list the next node is read
  from the node; when the node was released by \<open>mpoll_cleanup\<close>, which does not set \<open>g_fdsetupdate\<close>, that
  is a walk over released nodes.
\<close>

fun check_fds :: "('cb, 'w) callbacks \<Rightarrow> fd_sets \<Rightarrow> 'cb poll_node list \<Rightarrow> ('cb, 'w) mpoll \<Rightarrow> ('cb, 'w) mpoll proc" where
  "check_fds cbs s [] st = Returned st"
| "check_fds cbs s (n # ns) st =
     (if \<not> (0 \<le> pn_fd n \<and> pn_fd n < FD_SETSIZE) then Undefined ''FD_ISSET outside the set''
      else
        let msk = ready_mask s (pn_fd n) in
        if msk = 0 then check_fds cbs s ns st
        else
          (case pn_func n of
             None \<Rightarrow> check_fds cbs s ns st
           | Some f \<Rightarrow>
               proc_bind (on_fd cbs f (pn_fd n) msk st) (\<lambda>st.
               if mp_fdsetupdate st \<noteq> 0 then Returned st
               else if n \<notin> set (mp_pnodes st) then Undefined ''walk over released nodes''
               else check_fds cbs s ns st)))"

record loop_env =
  le_clock :: clock
  le_fuel :: nat

definition ready_sets :: "(int \<Rightarrow> bool) \<Rightarrow> (int \<Rightarrow> bool) \<Rightarrow> (int \<Rightarrow> bool) \<Rightarrow> fd_sets \<Rightarrow> fd_sets" where
  "ready_sets rin rout rexc s =
     \<lparr>fs_in = filter rin (fs_in s), fs_out = filter rout (fs_out s), fs_except = filter rexc (fs_except s)\<rparr>"

definition loop_turn :: "('cb, 'w) callbacks \<Rightarrow> loop_env \<Rightarrow> fd_sets \<Rightarrow> ('cb, 'w) mpoll \<Rightarrow> ('cb, 'w) mpoll proc" where
  "loop_turn cbs env s st =
     proc_bind (mtimer_expire cbs (le_fuel env) (mtimer_settime (le_clock env) st)) (\<lambda>st.
     proc_bind (check_fds cbs s (mp_pnodes st) st) (\<lambda>st.
     mtimer_expire cbs (le_fuel env) (mtimer_settime (le_clock env) st)))"

fun loop_turns :: "('cb, 'w) callbacks \<Rightarrow> loop_env \<Rightarrow> int \<Rightarrow> nat \<Rightarrow> select_answer list \<Rightarrow> int \<times> fd_sets
    \<Rightarrow> ('cb, 'w) mpoll \<Rightarrow> ('cb, 'w) mpoll proc" where
  "loop_turns cbs env timeout frame answers sets st =
     (if mp_frames st frame = Some True \<or> mp_breakflag st then Returned st
      else
        proc_bind (if mp_fdsetupdate st \<noteq> 0 then build_sets (mp_pnodes st) else Returned sets) (\<lambda>sets.
        let st = st\<lparr>mp_fdsetupdate := 0\<rparr> in
        (case answers of
           [] \<Rightarrow> Blocked
         | Select_failed e # answers \<Rightarrow> loop_turns cbs env timeout frame answers sets st
         | Ready rin rout rexc # answers \<Rightarrow>
             proc_bind (loop_turn cbs env (ready_sets rin rout rexc (snd sets)) st) (\<lambda>st.
             if timeout = 0 then Returned st
             else loop_turns cbs env timeout frame answers sets st))))"

declare loop_turns.simps [simp del]

definition mpoll_loop :: "('cb, 'w) callbacks \<Rightarrow> loop_env \<Rightarrow> bool \<Rightarrow> select_answer list \<Rightarrow> int \<Rightarrow> ('cb, 'w) mpoll
    \<Rightarrow> (int \<times> ('cb, 'w) mpoll) proc" where
  "mpoll_loop cbs env mem answers timeout st =
     (let frame = mp_next st;
          st = st\<lparr>mp_fdsetupdate := 1, mp_breakflag := False, mp_frames := (mp_frames st)(frame \<mapsto> False), mp_next := frame + 1\<rparr> in
      proc_bind
        (if timeout > 0 then proc_map snd (mtimer_start mem timeout (Stop_loop frame) st)
         else if timeout = 0 then proc_map snd (mtimer_ustart mem 1 (Stop_loop frame) st)
         else Returned st) (\<lambda>st.
      proc_bind (loop_turns cbs env timeout frame answers (0, \<lparr>fs_in = [], fs_out = [], fs_except = []\<rparr>) st) (\<lambda>st.
      Returned (0, st\<lparr>mp_frames := (mp_frames st)(frame := None)\<rparr>))))"

section \<open>The order of the timers\<close>

lemma later_order:
  "\<not> later a a" "later a b \<Longrightarrow> later b c \<Longrightarrow> later a c" "\<not> later a b \<Longrightarrow> \<not> later b c \<Longrightarrow> \<not> later a c"
  "later a b \<Longrightarrow> \<not> later c b \<Longrightarrow> later a c" "later a b \<Longrightarrow> \<not> later a c \<Longrightarrow> later c b" "later a b \<Longrightarrow> \<not> later b a"
  by (auto simp: later_def)

abbreviation in_order :: "'cb mtimer list \<Rightarrow> bool" where
  "in_order \<equiv> sorted_wrt (\<lambda>a b. \<not> later (mt_expiration a) (mt_expiration b))"

definition due :: "timeval \<Rightarrow> 'cb mtimer \<Rightarrow> bool" where
  "due now t \<longleftrightarrow> later now (mt_expiration t)"

lemma set_insert_timer [simp]: "set (insert_timer n ts) = insert n (set ts)"
  by (induction ts) auto

lemma in_order_insert: "in_order ts \<Longrightarrow> in_order (insert_timer n ts)"
proof (induction ts)
  case (Cons w ws)
  then show ?case
    by (cases "later (mt_expiration w) (mt_expiration n)") (auto dest: later_order(6) intro: later_order)
qed simp

lemma insert_timer_split:
  "\<exists>as bs. ts = as @ bs \<and> insert_timer n ts = as @ n # bs"
proof (induction ts)
  case (Cons w ws)
  then obtain as bs where "ws = as @ bs" "insert_timer n ws = as @ n # bs" by blast
  then show ?case
    by (cases "later (mt_expiration w) (mt_expiration n)")
      (auto intro: exI [of _ "[]"] exI [of _ "w # as"])
qed simp

text \<open>The timers that are due are the first ones.\<close>

lemma due_prefix:
  "in_order (t # ts) \<Longrightarrow> \<not> due now t \<Longrightarrow> u \<in> set ts \<Longrightarrow> \<not> due now u"
  by (auto simp: due_def intro: later_order)

lemma due_mono: "\<not> later now now' \<Longrightarrow> due now t \<Longrightarrow> due now' t"
  by (auto simp: due_def intro: later_order)

lemma due_split:
  assumes "in_order ts" "\<not> later now now'"
  shows "filter (due now') ts = filter (due now) ts @ filter (due now') (filter (\<lambda>t. \<not> due now t) ts)"
  using assms(1)
proof (induction ts)
  case (Cons t ts)
  show ?case
  proof (cases "due now t")
    case True
    then show ?thesis using Cons due_mono [OF assms(2) True] by simp
  next
    case False
    then have "filter (due now) ts = []" using due_prefix [OF Cons.prems False] by (auto simp: filter_empty_conv)
    then show ?thesis using False Cons by simp
  qed
qed simp

lemma not_due_twice:
  "\<not> later now now' \<Longrightarrow> filter (\<lambda>t. \<not> due now' t) (filter (\<lambda>t. \<not> due now t) ts) = filter (\<lambda>t. \<not> due now' t) ts"
  by (auto simp: filter_filter intro!: filter_cong dest: due_mono)

text \<open>
  Every operation on the timers keeps them in order, with addresses of their own.
\<close>

definition timers_wf :: "('cb, 'w) mpoll \<Rightarrow> bool" where
  "timers_wf st \<longleftrightarrow> in_order (mp_timers st) \<and> distinct (map mt_id (mp_timers st))
     \<and> (\<forall>t \<in> set (mp_timers st). mt_id t < mp_next st)"

lemma set_remove_timer: "set (remove_timer i ts) \<subseteq> set ts"
  by (induction ts) auto

lemma in_order_remove: "in_order ts \<Longrightarrow> in_order (remove_timer i ts)"
  using set_remove_timer [of i] by (induction ts) (auto simp: subset_iff)

lemma distinct_remove: "distinct (map mt_id ts) \<Longrightarrow> distinct (map mt_id (remove_timer i ts))"
  using set_remove_timer [of i] by (induction ts) (auto simp: subset_iff image_iff)

lemma ids_insert_timer: "mset (map mt_id (insert_timer n ts)) = mset (mt_id n # map mt_id ts)"
  by (induction ts) auto

lemma add_timer_wf: "timers_wf st \<Longrightarrow> timers_wf (snd (add_timer x c st))"
proof -
  assume w: "timers_wf st"
  let ?n = "\<lparr>mt_id = mp_next st, mt_expiration = x, mt_callback = c\<rparr>"
  have "distinct (map mt_id (insert_timer ?n (mp_timers st))) = distinct (mt_id ?n # map mt_id (mp_timers st))"
    by (rule mset_eq_imp_distinct_iff [OF ids_insert_timer])
  then show ?thesis using w by (auto simp: timers_wf_def add_timer_def in_order_insert less_Suc_eq)
qed

lemma stop_timer_wf: "timers_wf st \<Longrightarrow> timers_wf (mtimer_stop i st)"
  using set_remove_timer [of i "mp_timers st"]
  by (auto simp: timers_wf_def mtimer_stop_def in_order_remove distinct_remove)

section \<open>What the loop does\<close>

text \<open>The callbacks of the program that are waiting, in order.\<close>

fun calls :: "'cb mtimer list \<Rightarrow> 'cb list" where
  "calls [] = []"
| "calls (t # ts) = (case mt_callback t of Call f \<Rightarrow> f # calls ts | Stop_loop _ \<Rightarrow> calls ts)"

lemma calls_append [simp]: "calls (as @ bs) = calls as @ calls bs"
  by (induction as) (auto split: timer_call.splits)

text \<open>
  Callbacks that leave the module alone; \<open>log\<close> is what they keep of the timers that fired.
\<close>

definition tame :: "('cb, 'w) callbacks \<Rightarrow> ('w \<Rightarrow> 'cb list) \<Rightarrow> bool" where
  "tame cbs log \<longleftrightarrow>
     (\<forall>f st. \<exists>w. on_timer cbs f st = Returned (st\<lparr>mp_user := w\<rparr>) \<and> log w = log (mp_user st) @ [f])
     \<and> (\<forall>f fd m st. \<exists>w. on_fd cbs f fd m st = Returned (st\<lparr>mp_user := w\<rparr>) \<and> log w = log (mp_user st))"

text \<open>What a reading of the clock does: the timers due at it fire, and their callbacks are logged.\<close>

definition fired :: "('w \<Rightarrow> 'cb list) \<Rightarrow> timeval \<Rightarrow> ('cb, 'w) mpoll \<Rightarrow> ('cb, 'w) mpoll \<Rightarrow> bool" where
  "fired log now st st' \<longleftrightarrow> mp_timers st' = filter (\<lambda>t. \<not> due now t) (mp_timers st)
     \<and> log (mp_user st') = log (mp_user st) @ calls (filter (due now) (mp_timers st))
     \<and> mp_pnodes st' = mp_pnodes st"

lemma fired_trans:
  assumes "fired log now a b" "fired log now' b c" "\<not> later now now'" "in_order (mp_timers a)"
  shows "fired log now' a c"
  using assms(1,2) due_split [OF assms(4,3)] not_due_twice [OF assms(3), of "mp_timers a"]
  by (simp add: fired_def)

text \<open>The timers of a state in a frame's call: those of the program, and the one that stops the call.\<close>

definition frame_timers :: "nat \<Rightarrow> ('cb, 'w) mpoll \<Rightarrow> bool" where
  "frame_timers fr st \<longleftrightarrow> in_order (mp_timers st) \<and> distinct (map mt_id (mp_timers st)) \<and> mp_frames st fr \<noteq> None
     \<and> (\<forall>t \<in> set (mp_timers st). (\<exists>f. mt_callback t = Call f) \<or> mt_callback t = Stop_loop fr)"

lemma remove_first [simp]: "remove_timer (mt_id t) (t # ts) = ts"
  by simp

lemma expire_fires:
  assumes "tame cbs log" "frame_timers fr st" "length (mp_timers st) \<le> fuel"
  shows "\<exists>w. let stop = \<exists>t \<in> set (mp_timers st). due (mp_tnow st) t \<and> mt_callback t = Stop_loop fr;
      st' = st\<lparr>mp_timers := filter (\<lambda>t. \<not> due (mp_tnow st) t) (mp_timers st), mp_user := w,
        mp_frames := (if stop then (mp_frames st)(fr \<mapsto> True) else mp_frames st)\<rparr>
    in mtimer_expire cbs fuel st = Returned st'
      \<and> log w = log (mp_user st) @ calls (filter (due (mp_tnow st)) (mp_timers st))"
  using assms(2,3)
proof (induction fuel arbitrary: st)
  case (0 st)
  then show ?case by (intro exI [of _ "mp_user st"]) (simp add: mtimer_expire.simps)
next
  case (Suc fuel st)
  show ?case
  proof (cases "mp_timers st")
    case Nil
    then show ?thesis by (intro exI [of _ "mp_user st"]) (simp add: mtimer_expire.simps)
  next
    case (Cons t ts)
    show ?thesis
    proof (cases "due (mp_tnow st) t")
      case False
      have "\<forall>u \<in> set ts. \<not> due (mp_tnow st) u"
        using due_prefix [OF _ False, of ts] Suc.prems(1) Cons by (simp add: frame_timers_def)
      then have "filter (\<lambda>t. \<not> due (mp_tnow st) t) (mp_timers st) = mp_timers st"
        "filter (due (mp_tnow st)) (mp_timers st) = []"
        "(\<exists>t \<in> set (mp_timers st). due (mp_tnow st) t \<and> mt_callback t = Stop_loop fr) = False"
        using False Cons by (auto simp: filter_empty_conv filter_id_conv)
      moreover have "mtimer_expire cbs (Suc fuel) st = Returned st"
        using False Cons by (simp add: mtimer_expire.simps due_def)
      ultimately show ?thesis unfolding Let_def by (intro exI [of _ "mp_user st"]) auto
    next
      case True
      let ?r = "st\<lparr>mp_timers := ts\<rparr>"
      have f: "frame_timers fr ?r" using Suc.prems(1) Cons by (simp add: frame_timers_def)
      obtain w1 where w1: "run_timer cbs (mt_callback t) ?r = Returned (?r\<lparr>mp_user := w1,
          mp_frames := (if mt_callback t = Stop_loop fr then (mp_frames st)(fr \<mapsto> True) else mp_frames st)\<rparr>)"
        "log w1 = log (mp_user st) @ calls [t]"
      proof (cases "mt_callback t")
        case (Call f)
        from assms(1) obtain w where "on_timer cbs f ?r = Returned (?r\<lparr>mp_user := w\<rparr>)" "log w = log (mp_user ?r) @ [f]"
          unfolding tame_def by blast
        then show thesis using Call by (intro that [of w]) (simp_all add: run_timer_def)
      next
        case (Stop_loop g)
        then have "g = fr" using Suc.prems(1) Cons by (simp add: frame_timers_def)
        then show thesis using Stop_loop Suc.prems(1) Cons
          by (intro that [of "mp_user st"]) (simp_all add: run_timer_def cb_stoploop_def frame_timers_def)
      qed
      let ?s = "?r\<lparr>mp_user := w1, mp_frames := (if mt_callback t = Stop_loop fr then (mp_frames st)(fr \<mapsto> True) else mp_frames st)\<rparr>"
      have "frame_timers fr ?s" using f by (auto simp: frame_timers_def)
      from Suc.IH [OF this] Suc.prems(2) Cons obtain w where w:
        "mtimer_expire cbs fuel ?s = Returned (?s\<lparr>mp_timers := filter (\<lambda>t. \<not> due (mp_tnow st) t) ts, mp_user := w,
          mp_frames := (if \<exists>t \<in> set ts. due (mp_tnow st) t \<and> mt_callback t = Stop_loop fr then (mp_frames ?s)(fr \<mapsto> True) else mp_frames ?s)\<rparr>)"
        "log w = log w1 @ calls (filter (due (mp_tnow st)) ts)"
        by (auto simp: Let_def)
      have e: "mtimer_expire cbs (Suc fuel) st = mtimer_expire cbs fuel ?s"
        using Cons True w1(1) by (simp add: mtimer_expire.simps [of cbs "Suc fuel"] due_def mtimer_pop_def mtimer_stop_def)
      show ?thesis unfolding Let_def e
        using w w1(2) Cons True by (intro exI [of _ w]) (auto split: timer_call.splits)
    qed
  qed
qed

definition fds_fit :: "'cb poll_node list \<Rightarrow> bool" where
  "fds_fit ns \<longleftrightarrow> (\<forall>n \<in> set ns. 0 \<le> pn_fd n \<and> pn_fd n < FD_SETSIZE)"

lemma check_fds_tame:
  assumes "tame cbs log" "fds_fit ns" "set ns \<subseteq> set (mp_pnodes st)" "mp_fdsetupdate st = 0"
  shows "\<exists>w. check_fds cbs s ns st = Returned (st\<lparr>mp_user := w\<rparr>) \<and> log w = log (mp_user st)"
  using assms(2-)
proof (induction ns arbitrary: st)
  case Nil
  then show ?case by (intro exI [of _ "mp_user st"]) simp
next
  case (Cons n ns)
  then have f: "0 \<le> pn_fd n" "pn_fd n < FD_SETSIZE" "fds_fit ns" by (auto simp: fds_fit_def)
  show ?case
  proof (cases "ready_mask s (pn_fd n) = 0 \<or> pn_func n = None")
    case True
    then show ?thesis using Cons.IH [of st] Cons.prems f by (auto simp: Let_def split: option.splits)
  next
    case False
    then obtain g where g: "pn_func n = Some g" by auto
    from assms(1) obtain w where w: "on_fd cbs g (pn_fd n) (ready_mask s (pn_fd n)) st = Returned (st\<lparr>mp_user := w\<rparr>)"
      "log w = log (mp_user st)" unfolding tame_def by blast
    from Cons.IH [of "st\<lparr>mp_user := w\<rparr>"] Cons.prems f obtain w' where
      "check_fds cbs s ns (st\<lparr>mp_user := w\<rparr>) = Returned (st\<lparr>mp_user := w'\<rparr>)" "log w' = log w" by auto
    then show ?thesis using False g w f Cons.prems by (intro exI [of _ w']) (simp add: Let_def)
  qed
qed

definition steady :: "clock \<Rightarrow> bool" where
  "steady clock \<longleftrightarrow> (\<forall>i. \<not> later (clock i) (clock (Suc i)))"

text \<open>A state within a call of the loop: its timer \<open>x\<close>, its descriptors and the sets of the turn.\<close>

definition in_loop :: "nat \<Rightarrow> 'cb mtimer \<Rightarrow> nat \<Rightarrow> ('cb, 'w) mpoll \<Rightarrow> bool" where
  "in_loop fr x fuel st \<longleftrightarrow> frame_timers fr st \<and> length (mp_timers st) \<le> fuel \<and> fds_fit (mp_pnodes st)
     \<and> x \<in> set (mp_timers st) \<and> (\<forall>t \<in> set (mp_timers st). mt_callback t = Stop_loop fr \<longleftrightarrow> t = x)
     \<and> mp_frames st fr = Some False \<and> \<not> mp_breakflag st"

lemma frame_timers_filter:
  "frame_timers fr st \<Longrightarrow> mp_timers st' = filter P (mp_timers st) \<Longrightarrow> mp_frames st' fr \<noteq> None \<Longrightarrow> frame_timers fr st'"
  by (auto simp: frame_timers_def sorted_wrt_filter distinct_map_filter)

lemma expire_in_loop:
  assumes "tame cbs log" "frame_timers fr st" "length (mp_timers st) \<le> fuel" "mp_tnow st = now"
    "\<forall>t \<in> set (mp_timers st). mt_callback t = Stop_loop fr \<longleftrightarrow> t = x"
  shows "\<exists>w. mtimer_expire cbs fuel st = Returned (st\<lparr>mp_timers := filter (\<lambda>t. \<not> due now t) (mp_timers st), mp_user := w,
      mp_frames := (if x \<in> set (mp_timers st) \<and> due now x then (mp_frames st)(fr \<mapsto> True) else mp_frames st)\<rparr>)
    \<and> log w = log (mp_user st) @ calls (filter (due now) (mp_timers st))"
proof -
  have "(\<exists>t \<in> set (mp_timers st). due (mp_tnow st) t \<and> mt_callback t = Stop_loop fr) \<longleftrightarrow> x \<in> set (mp_timers st) \<and> due now x"
    using assms(4,5) by auto
  then show ?thesis using expire_fires [OF assms(1-3)] unfolding Let_def assms(4) by presburger
qed

lemma frame_timers_settime: "frame_timers fr (mtimer_settime clock st) = frame_timers fr st"
  by (simp add: frame_timers_def mtimer_settime_def)

lemma frame_timers_update: "frame_timers fr (st\<lparr>mp_fdsetupdate := u\<rparr>) = frame_timers fr st"
  by (simp add: frame_timers_def)

lemma turn_fires:
  assumes t: "tame cbs log" and l: "in_loop fr x (le_fuel env) st" and c: "steady (le_clock env)" and z: "mp_fdsetupdate st = 0"
  defines "now \<equiv> le_clock env (Suc (mp_ticks st))"
  shows "\<exists>st'. loop_turn cbs env s st = Returned st' \<and> fired log now st st' \<and> mp_tnow st' = now
    \<and> mp_ticks st' = mp_ticks st + 2 \<and> mp_fdsetupdate st' = 0 \<and> \<not> mp_breakflag st' \<and> frame_timers fr st'
    \<and> mp_frames st' fr = Some (due now x)"
proof -
  let ?t1 = "le_clock env (mp_ticks st)"
  have mono: "\<not> later ?t1 now" using c by (simp add: steady_def now_def)
  let ?a = "mtimer_settime (le_clock env) st"
  have fa: "frame_timers fr ?a" "length (mp_timers ?a) \<le> le_fuel env" "mp_tnow ?a = ?t1"
    using l unfolding in_loop_def frame_timers_settime by (simp_all add: mtimer_settime_def)
  have x: "x \<in> set (mp_timers st)" "\<forall>t \<in> set (mp_timers st). mt_callback t = Stop_loop fr \<longleftrightarrow> t = x" "mp_frames st fr = Some False"
    using l by (simp_all add: in_loop_def)
  have ta: "mp_timers ?a = mp_timers st" "mp_frames ?a = mp_frames st" "mp_user ?a = mp_user st"
    by (simp_all add: mtimer_settime_def)
  obtain w where b: "mtimer_expire cbs (le_fuel env) ?a = Returned (?a\<lparr>mp_timers := filter (\<lambda>t. \<not> due ?t1 t) (mp_timers st), mp_user := w,
      mp_frames := (if due ?t1 x then (mp_frames st)(fr \<mapsto> True) else mp_frames st)\<rparr>)"
    "log w = log (mp_user st) @ calls (filter (due ?t1) (mp_timers st))"
    using expire_in_loop [OF t fa, of x] x unfolding ta by auto
  let ?b = "?a\<lparr>mp_timers := filter (\<lambda>t. \<not> due ?t1 t) (mp_timers st), mp_user := w,
      mp_frames := (if due ?t1 x then (mp_frames st)(fr \<mapsto> True) else mp_frames st)\<rparr>"
  obtain w' where d: "check_fds cbs s (mp_pnodes ?b) ?b = Returned (?b\<lparr>mp_user := w'\<rparr>)" "log w' = log w"
    using check_fds_tame [OF t, of "mp_pnodes ?b" ?b s] l z by (auto simp: in_loop_def mtimer_settime_def)
  let ?c = "mtimer_settime (le_clock env) (?b\<lparr>mp_user := w'\<rparr>)"
  have fc: "frame_timers fr ?c"
    by (rule frame_timers_filter [OF fa(1), of _ "\<lambda>t. \<not> due ?t1 t"]) (auto simp: mtimer_settime_def x(3))
  have lc: "length (mp_timers ?c) \<le> le_fuel env"
    using l by (auto simp: in_loop_def mtimer_settime_def intro: le_trans [OF length_filter_le])
  have tc: "mp_tnow ?c = now" "mp_timers ?c = filter (\<lambda>t. \<not> due ?t1 t) (mp_timers st)"
    by (simp_all add: mtimer_settime_def now_def)
  obtain w2 where e: "mtimer_expire cbs (le_fuel env) ?c = Returned (?c\<lparr>mp_timers := filter (\<lambda>t. \<not> due now t) (mp_timers ?c), mp_user := w2,
      mp_frames := (if \<not> due ?t1 x \<and> due now x then (mp_frames ?c)(fr \<mapsto> True) else mp_frames ?c)\<rparr>)"
    "log w2 = log (mp_user ?c) @ calls (filter (due now) (mp_timers ?c))"
  proof -
    have "\<forall>t \<in> set (mp_timers ?c). mt_callback t = Stop_loop fr \<longleftrightarrow> t = x" unfolding tc using x(2) by simp
    moreover have "x \<in> set (mp_timers ?c) \<longleftrightarrow> \<not> due ?t1 x" unfolding tc using x(1) by simp
    ultimately show thesis using that expire_in_loop [OF t fc lc tc(1), of x] by auto
  qed
  let ?d = "?c\<lparr>mp_timers := filter (\<lambda>t. \<not> due now t) (mp_timers ?c), mp_user := w2,
      mp_frames := (if \<not> due ?t1 x \<and> due now x then (mp_frames ?c)(fr \<mapsto> True) else mp_frames ?c)\<rparr>"
  have "loop_turn cbs env s st = Returned ?d"
    unfolding loop_turn_def b(1) proc_bind.simps d(1) e(1) ..
  moreover have "fired log now st ?d"
  proof (rule fired_trans [OF _ _ mono])
    show "fired log ?t1 st ?b" using b(2) by (simp add: fired_def mtimer_settime_def)
    show "fired log now ?b ?d" using e(2) tc(2) by (simp add: fired_def mtimer_settime_def d(2))
    show "in_order (mp_timers st)" using l by (simp add: in_loop_def frame_timers_def)
  qed
  moreover have "frame_timers fr ?d"
    by (rule frame_timers_filter [OF fc, of _ "\<lambda>t. \<not> due now t"]) (use x(3) in \<open>auto simp: mtimer_settime_def\<close>)
  moreover have "mp_frames ?d fr = Some (due now x)"
    using x(3) due_mono [OF mono, of x] by (auto simp: mtimer_settime_def)
  ultimately show ?thesis
    using l z by (intro exI [of _ ?d]) (simp add: mtimer_settime_def in_loop_def now_def)
qed

lemma build_sets_fit:
  "fds_fit ns \<Longrightarrow> \<exists>sets'. (if u \<noteq> 0 then build_sets ns else Returned sets) = Returned sets'"
  by (auto simp: build_sets_def fds_fit_def)

text \<open>The loop ends with the first turn in which its timer is due, and has fired what was due then.\<close>

lemma loop_runs:
  assumes t: "tame cbs log" and c: "steady (le_clock env)" and p: "timeout \<noteq> 0"
  shows "in_loop fr x (le_fuel env) st \<Longrightarrow> \<forall>a \<in> set answers. \<exists>i ou e. a = Ready i ou e
    \<Longrightarrow> due (le_clock env (mp_ticks st + 2 * length answers - 1)) x \<Longrightarrow> answers \<noteq> []
    \<Longrightarrow> \<exists>st' k. loop_turns cbs env timeout fr answers sets st = Returned st' \<and> fired log (le_clock env k) st st'
      \<and> due (le_clock env k) x \<and> (mp_ticks st + 2 \<le> k \<longrightarrow> \<not> due (le_clock env (k - 2)) x)"
proof (induction answers arbitrary: st sets)
  case (Cons a answers)
  let ?now = "le_clock env (Suc (mp_ticks st))"
  obtain rin rout rexc where a: "a = Ready rin rout rexc" using Cons.prems(2) by auto
  have st: "mp_frames st fr = Some False" "\<not> mp_breakflag st" "fds_fit (mp_pnodes st)"
    using Cons.prems(1) by (simp_all add: in_loop_def)
  obtain sets' where s: "(if mp_fdsetupdate st \<noteq> 0 then build_sets (mp_pnodes st) else Returned sets) = Returned sets'"
    using build_sets_fit [OF st(3)] by blast
  let ?st = "st\<lparr>mp_fdsetupdate := 0\<rparr>"
  have l: "in_loop fr x (le_fuel env) ?st" using Cons.prems(1) by (simp add: in_loop_def frame_timers_update)
  obtain st1 where st1: "loop_turn cbs env (ready_sets rin rout rexc (snd sets')) ?st = Returned st1"
    "fired log ?now ?st st1" "mp_tnow st1 = ?now" "mp_ticks st1 = mp_ticks st + 2" "\<not> mp_breakflag st1"
    "frame_timers fr st1" "mp_frames st1 fr = Some (due ?now x)"
    using turn_fires [OF t l c] by auto
  have e: "loop_turns cbs env timeout fr (a # answers) sets st = loop_turns cbs env timeout fr answers sets' st1"
    unfolding loop_turns.simps [of _ _ _ _ "a # answers"] s using st st1(1) p by (simp add: a)
  have f: "fired log ?now st st1" using st1(2) by (simp add: fired_def)
  show ?case
  proof (cases "due ?now x")
    case True
    then have "loop_turns cbs env timeout fr answers sets' st1 = Returned st1"
      by (simp add: loop_turns.simps st1(7))
    then show ?thesis using e f True by (intro exI [of _ st1] exI [of _ "Suc (mp_ticks st)"]) simp
  next
    case False
    have l1: "in_loop fr x (le_fuel env) st1"
      using Cons.prems(1) st1(5-7) f False by (auto simp: in_loop_def fired_def intro: le_trans [OF length_filter_le])
    have n: "answers \<noteq> []" using Cons.prems(3) False by auto
    have "due (le_clock env (mp_ticks st1 + 2 * length answers - 1)) x"
      using Cons.prems(3) by (simp add: st1(4))
    moreover have "\<forall>a \<in> set answers. \<exists>i ou e. a = Ready i ou e" using Cons.prems(2) by simp
    ultimately obtain st' k where r:
      "loop_turns cbs env timeout fr answers sets' st1 = Returned st'" "fired log (le_clock env k) st1 st'"
      "due (le_clock env k) x" "mp_ticks st1 + 2 \<le> k \<longrightarrow> \<not> due (le_clock env (k - 2)) x"
      using Cons.IH [OF l1 _ _ n, of sets'] by (elim meta_impE exE conjE) (assumption, assumption, rule that)
    have "\<not> later ?now (le_clock env k)" using False r(3) by (auto simp: due_def intro: later_order)
    moreover have "in_order (mp_timers st)" using Cons.prems(1) by (simp add: in_loop_def frame_timers_def)
    ultimately have "fired log (le_clock env k) st st'" using fired_trans [OF f r(2)] by blast
    moreover have "\<not> due (le_clock env (k - 2)) x" if "mp_ticks st + 2 \<le> k"
    proof (cases "mp_ticks st1 + 2 \<le> k")
      case True
      then show ?thesis using r(4) by simp
    next
      case k: False
      then have "k = mp_ticks st + 2 \<or> k = mp_ticks st + 3" using that st1(4) by auto
      moreover have "\<not> due (le_clock env (mp_ticks st)) x"
        using False due_mono [of "le_clock env (mp_ticks st)" ?now x] c by (auto simp: steady_def)
      ultimately show ?thesis using False by (auto simp: numeral_3_eq_3)
    qed
    ultimately show ?thesis using e r(1,3) by (intro exI [of _ st'] exI [of _ k]) simp
  qed
qed simp

lemma calls_insert_stop:
  "mt_callback n = Stop_loop fr \<Longrightarrow> calls (filter P (insert_timer n ts)) = calls (filter P ts)"
proof -
  assume n: "mt_callback n = Stop_loop fr"
  obtain as bs where "ts = as @ bs" "insert_timer n ts = as @ n # bs" using insert_timer_split by blast
  then show ?thesis using n by simp
qed

lemma filter_insert_out: "\<not> P n \<Longrightarrow> filter P (insert_timer n ts) = filter P ts"
  using insert_timer_split [of ts n] by auto

lemma length_insert_timer [simp]: "length (insert_timer n ts) = Suc (length ts)"
  by (induction ts) auto

text \<open>C38. The loop with a positive timeout: with callbacks that leave the module alone, a clock that
  does not go back, and descriptors that fit a set, \<open>mpoll_loop\<close> returns 0 once the clock has passed its
  time. The timers that are due at its last reading of the clock have fired, in the order of their times and
  each once; the others are as before, its own timer is gone, and the loop did not go on after a
  turn at the end of which its time had passed.\<close>

lemma loop_fires_timers:
  fixes st :: "('cb, 'w) mpoll"
  assumes "tame cbs log" "steady (le_clock env)" "0 < timeout" "timers_wf st"
    "\<forall>t \<in> set (mp_timers st). \<exists>f. mt_callback t = Call f" "fds_fit (mp_pnodes st)"
    "length (mp_timers st) < le_fuel env" "\<forall>a \<in> set answers. \<exists>i ou e. a = Ready i ou e" "answers \<noteq> []"
    "later (le_clock env (mp_ticks st + 2 * length answers - 1)) \<lparr>tv_sec = tv_sec (mp_tnow st) + timeout, tv_usec = tv_usec (mp_tnow st)\<rparr>"
  shows "\<exists>st' k. mpoll_loop cbs env True answers timeout st = Returned (0, st')
    \<and> log (mp_user st') = log (mp_user st) @ calls (filter (due (le_clock env k)) (mp_timers st))
    \<and> mp_timers st' = filter (\<lambda>t. \<not> due (le_clock env k) t) (mp_timers st)
    \<and> later (le_clock env k) \<lparr>tv_sec = tv_sec (mp_tnow st) + timeout, tv_usec = tv_usec (mp_tnow st)\<rparr>
    \<and> (mp_ticks st + 2 \<le> k \<longrightarrow>
        \<not> later (le_clock env (k - 2)) \<lparr>tv_sec = tv_sec (mp_tnow st) + timeout, tv_usec = tv_usec (mp_tnow st)\<rparr>)"
proof -
  let ?e = "\<lparr>tv_sec = tv_sec (mp_tnow st) + timeout, tv_usec = tv_usec (mp_tnow st)\<rparr>"
  let ?fr = "mp_next st"
  let ?x = "\<lparr>mt_id = Suc ?fr, mt_expiration = ?e, mt_callback = Stop_loop ?fr :: 'cb timer_call\<rparr>"
  let ?s = "st\<lparr>mp_fdsetupdate := 1, mp_breakflag := False, mp_frames := (mp_frames st)(?fr \<mapsto> False), mp_next := ?fr + 1\<rparr>"
  let ?a = "snd (add_timer ?e (Stop_loop ?fr) ?s)"
  have w: "timers_wf ?a" using assms(4) by (intro add_timer_wf) (auto simp: timers_wf_def less_Suc_eq)
  have ids: "?x \<notin> set (mp_timers st)" using assms(4) by (auto simp: timers_wf_def)
  have a: "mp_timers ?a = insert_timer ?x (mp_timers st)" "mp_user ?a = mp_user st" "mp_ticks ?a = mp_ticks st"
    "mp_frames ?a = (mp_frames st)(?fr \<mapsto> False)" "mp_pnodes ?a = mp_pnodes st" "mp_breakflag ?a = False"
    by (simp_all add: add_timer_def)
  have "\<forall>t \<in> set (mp_timers ?a). mt_callback t = Stop_loop ?fr \<longleftrightarrow> t = ?x"
    using assms(5) ids unfolding a by fastforce
  moreover have "\<forall>t \<in> set (mp_timers ?a). (\<exists>f. mt_callback t = Call f) \<or> mt_callback t = Stop_loop ?fr"
    using assms(5) unfolding a by auto
  ultimately have l: "in_loop ?fr ?x (le_fuel env) ?a"
    using w assms(6,7) unfolding in_loop_def frame_timers_def timers_wf_def a by simp
  have d: "due (le_clock env (mp_ticks ?a + 2 * length answers - 1)) ?x"
    using assms(10) unfolding a by (simp add: due_def)
  have p: "timeout \<noteq> 0" using assms(3) by simp
  obtain st' k where r: "loop_turns cbs env timeout ?fr answers (0, \<lparr>fs_in = [], fs_out = [], fs_except = []\<rparr>) ?a = Returned st'"
    "fired log (le_clock env k) ?a st'" "due (le_clock env k) ?x" "mp_ticks ?a + 2 \<le> k \<longrightarrow> \<not> due (le_clock env (k - 2)) ?x"
    using loop_runs [OF assms(1,2) p l assms(8) d assms(9), of "(0, \<lparr>fs_in = [], fs_out = [], fs_except = []\<rparr>)"]
    by (elim exE conjE) (rule that)
  have "mpoll_loop cbs env True answers timeout st = Returned (0, st'\<lparr>mp_frames := (mp_frames st')(?fr := None)\<rparr>)"
    using assms(3) r(1) by (simp add: mpoll_loop_def mtimer_start_def Let_def)
  then show ?thesis using r(2-4) unfolding fired_def a
    by (intro exI [of _ "st'\<lparr>mp_frames := (mp_frames st')(?fr := None)\<rparr>"] exI [of _ k])
      (simp add: calls_insert_stop filter_insert_out due_def)
qed

text \<open>
  A loop of a second with a timer due within it and one due after it: the clock shows half a second
  more at every reading.
\<close>

definition log_callbacks :: "(nat, nat list) callbacks" where
  "log_callbacks = \<lparr>on_timer = (\<lambda>f st. Returned (st\<lparr>mp_user := mp_user st @ [f]\<rparr>)), on_fd = (\<lambda>f fd m st. Returned st)\<rparr>"

definition half_seconds :: clock where
  "half_seconds i = \<lparr>tv_sec = 100 + int i div 2, tv_usec = int i mod 2 * 500000\<rparr>"

definition two_timers :: "(nat, nat list) mpoll" where
  "two_timers = \<lparr>mp_tnow = \<lparr>tv_sec = 100, tv_usec = 0\<rparr>,
     mp_timers = [\<lparr>mt_id = 16, mt_expiration = \<lparr>tv_sec = 100, tv_usec = 100\<rparr>, mt_callback = Call 7\<rparr>,
       \<lparr>mt_id = 17, mt_expiration = \<lparr>tv_sec = 200, tv_usec = 0\<rparr>, mt_callback = Call 8\<rparr>],
     mp_freelist = [], mp_pnodes = [], mp_used = 0, mp_fdsetupdate = 0, mp_breakflag = False, mp_frames = Map.empty,
     mp_next = 18, mp_ticks = 0, mp_user = []\<rparr>"

definition no_event :: select_answer where "no_event = Ready (\<lambda>_. False) (\<lambda>_. False) (\<lambda>_. False)"

lemma log_callbacks_tame: "tame log_callbacks id"
  by (auto simp: tame_def log_callbacks_def intro: exI [of _ "mp_user _"])

lemma half_seconds_steady: "steady half_seconds"
proof -
  have "\<not> later (half_seconds i) (half_seconds (Suc i))" for i
  proof -
    have "int i div 2 < int (Suc i) div 2 \<or> int i div 2 = int (Suc i) div 2 \<and> int i mod 2 \<le> int (Suc i) mod 2"
      by presburger
    then show ?thesis by (auto simp: half_seconds_def later_def)
  qed
  then show ?thesis by (simp add: steady_def)
qed

lemma loop_fires_timers_witness:
  "\<exists>st'. mpoll_loop log_callbacks \<lparr>le_clock = half_seconds, le_fuel = 5\<rparr> True [no_event, no_event] 1 two_timers = Returned (0, st')
    \<and> mp_user st' = [7] \<and> map mt_id (mp_timers st') = [17]"
proof -
  let ?env = "\<lparr>le_clock = half_seconds, le_fuel = 5\<rparr>"
  have "\<exists>st' k. mpoll_loop log_callbacks ?env True [no_event, no_event] 1 two_timers = Returned (0, st')
    \<and> id (mp_user st') = id (mp_user two_timers) @ calls (filter (due (le_clock ?env k)) (mp_timers two_timers))
    \<and> mp_timers st' = filter (\<lambda>t. \<not> due (le_clock ?env k) t) (mp_timers two_timers)
    \<and> later (le_clock ?env k) \<lparr>tv_sec = tv_sec (mp_tnow two_timers) + 1, tv_usec = tv_usec (mp_tnow two_timers)\<rparr>
    \<and> (mp_ticks two_timers + 2 \<le> k \<longrightarrow>
        \<not> later (le_clock ?env (k - 2)) \<lparr>tv_sec = tv_sec (mp_tnow two_timers) + 1, tv_usec = tv_usec (mp_tnow two_timers)\<rparr>)"
    by (rule loop_fires_timers [OF log_callbacks_tame])
      (simp_all add: half_seconds_steady two_timers_def timers_wf_def fds_fit_def no_event_def later_def half_seconds_def)
  then obtain st' k where r: "mpoll_loop log_callbacks ?env True [no_event, no_event] 1 two_timers = Returned (0, st')"
    "mp_user st' = calls (filter (due (half_seconds k)) (mp_timers two_timers))"
    "mp_timers st' = filter (\<lambda>t. \<not> due (half_seconds k) t) (mp_timers two_timers)"
    "later (half_seconds k) \<lparr>tv_sec = 101, tv_usec = 0\<rparr>"
    "2 \<le> k \<longrightarrow> \<not> later (half_seconds (k - 2)) \<lparr>tv_sec = 101, tv_usec = 0\<rparr>"
    by (auto simp: two_timers_def)
  have "k \<le> 4"
  proof (rule ccontr)
    assume "\<not> k \<le> 4"
    then have "3 \<le> k - 2" "2 \<le> k" by auto
    moreover from this(1) have "1 < int (k - 2) div 2 \<or> int (k - 2) div 2 = 1 \<and> int (k - 2) mod 2 = 1" by presburger
    ultimately show False using r(5) by (auto simp: later_def half_seconds_def)
  qed
  moreover have "3 \<le> k"
  proof (rule ccontr)
    assume "\<not> 3 \<le> k"
    then have "k = 0 \<or> k = 1 \<or> k = 2" by auto
    then show False using r(4) by (auto simp: later_def half_seconds_def)
  qed
  ultimately have "k = 3 \<or> k = 4" by auto
  then show ?thesis using r(1-3) by (auto simp: two_timers_def due_def later_def half_seconds_def)
qed

section \<open>The table of descriptors\<close>

definition pnodes_wf :: "('cb, 'w) mpoll \<Rightarrow> bool" where
  "pnodes_wf st \<longleftrightarrow> distinct (map pn_id (mp_pnodes st @ mp_freelist st))
     \<and> (\<forall>n \<in> set (mp_pnodes st @ mp_freelist st). pn_reuse n \<longleftrightarrow> pn_id n < nstatic_pnodes)
     \<and> (\<forall>n \<in> set (mp_freelist st). pn_reuse n) \<and> (\<forall>n \<in> set (mp_pnodes st). pn_id n < mp_next st)
     \<and> nstatic_pnodes \<le> mp_next st \<and> mp_used st = int (length (mp_pnodes st))"

lemma take_pnode_mset: "take_pnode fd ns = Some (n, ns') \<Longrightarrow> mset ns = add_mset n (mset ns') \<and> pn_fd n = fd"
  by (induction ns arbitrary: ns') (auto split: if_splits)

lemma static_ids: "distinct (map pn_id (rev static_pnodes))"
  "n \<in> set static_pnodes \<Longrightarrow> pn_reuse n \<and> pn_id n < nstatic_pnodes"
  by (auto simp: static_pnodes_def rev_map [symmetric] comp_def)

lemma init_wf: "pnodes_wf st \<Longrightarrow> mp_used st = 0 \<Longrightarrow> pnodes_wf (pnode_init st)"
  using static_ids(1) by (auto simp: pnodes_wf_def pnode_init_def dest: static_ids(2))

lemma free_wf:
  assumes "pnodes_wf st" "mset (mp_pnodes st) = add_mset n (mset ns)"
  shows "pnodes_wf (pnode_free n (st\<lparr>mp_pnodes := ns\<rparr>))"
proof -
  have m: "mset (mp_pnodes st) = mset (n # ns)" using assms(2) by simp
  have d: "distinct (map pn_id (mp_pnodes st @ mp_freelist st)) = distinct (map pn_id (n # ns @ mp_freelist st))"
    by (rule mset_eq_imp_distinct_iff) (use m in \<open>simp del: mset_map add: mset_map\<close>)
  have s: "set (mp_pnodes st) = insert n (set ns)" "length (mp_pnodes st) = Suc (length ns)"
    using mset_eq_setD [OF m] mset_eq_length [OF m] by simp_all
  show ?thesis using assms(1) d s unfolding pnodes_wf_def pnode_free_def by auto
qed

text \<open>Adding and removing descriptors keeps the nodes apart, and the count is that of the list.\<close>

lemma fdadd_wf: "pnodes_wf st \<Longrightarrow> pnodes_wf (snd (mpoll_fdadd mem fd m cb st))"
proof -
  assume w: "pnodes_wf st"
  let ?s = "if mp_freelist st = [] \<and> mp_used st = 0 then pnode_init st else st"
  have s: "pnodes_wf ?s" using w init_wf by auto
  show ?thesis
  proof (cases "mp_freelist ?s")
    case Nil
    then show ?thesis using s
      by (auto simp: mpoll_fdadd_def Let_def link_pnode_def pnodes_wf_def split: if_splits)
  next
    case (Cons n ns)
    then show ?thesis using s
      by (auto simp: mpoll_fdadd_def Let_def link_pnode_def pnodes_wf_def nstatic_pnodes_def split: if_splits)
  qed
qed

lemma fdrm_wf: "pnodes_wf st \<Longrightarrow> pnodes_wf (mpoll_fdrm fd st)"
proof -
  assume w: "pnodes_wf st"
  have u: "pnodes_wf (s\<lparr>mp_fdsetupdate := u\<rparr>) = pnodes_wf s" for s :: "('a, 'b) mpoll" and u
    by (simp add: pnodes_wf_def)
  show ?thesis
    using w free_wf [OF w] take_pnode_mset [of fd "mp_pnodes st"]
    by (auto simp: mpoll_fdrm_def Let_def u split: option.splits)
qed

section \<open>What goes wrong\<close>

text \<open>The time that is counted from is the one last read: a loop of five seconds ends in its first turn
  when the clock was not read for longer, or never was.\<close>

definition fresh_module :: "(nat, nat list) mpoll" where
  "fresh_module = two_timers\<lparr>mp_timers := [], mp_tnow := \<lparr>tv_sec = 0, tv_usec = 0\<rparr>\<rparr>"

lemma stale_clock_ends_loop:
  "\<exists>st'. mpoll_loop log_callbacks \<lparr>le_clock = half_seconds, le_fuel = 5\<rparr> True [no_event] 5 fresh_module = Returned (0, st')
    \<and> mp_tnow st' = \<lparr>tv_sec = 100, tv_usec = 500000\<rparr>"
  by (simp add: mpoll_loop_def mtimer_start_def add_timer_def fresh_module_def two_timers_def loop_turns.simps build_sets_def
    no_event_def ready_sets_def fds_with_def loop_turn_def mtimer_settime_def mtimer_expire.simps half_seconds_def later_def
    mtimer_pop_def mtimer_stop_def run_timer_def cb_stoploop_def Let_def eval_nat_numeral)

text \<open>An error of \<open>select\<close> that stays, such as a descriptor that was closed, keeps the loop busy: the clock is
  not read and no timer fires, whatever the timeout.\<close>

lemma select_errors_stop_timers:
  assumes "mp_frames st fr = Some False" "\<not> mp_breakflag st" "fds_fit (mp_pnodes st)"
  shows "\<exists>sets'. loop_turns cbs env timeout fr (replicate n (Select_failed EBADF) @ answers) sets st
    = loop_turns cbs env timeout fr answers sets' (if n = 0 then st else st\<lparr>mp_fdsetupdate := 0\<rparr>)"
  using assms
proof (induction n arbitrary: st sets)
  case (Suc n)
  obtain sets' where s: "(if mp_fdsetupdate st \<noteq> 0 then build_sets (mp_pnodes st) else Returned sets) = Returned sets'"
    using build_sets_fit [OF Suc.prems(3)] by blast
  have "loop_turns cbs env timeout fr (replicate (Suc n) (Select_failed EBADF) @ answers) sets st
    = loop_turns cbs env timeout fr (replicate n (Select_failed EBADF) @ answers) sets' (st\<lparr>mp_fdsetupdate := 0\<rparr>)"
    using Suc.prems s by (simp add: loop_turns.simps [of _ _ _ _ "Select_failed EBADF # _"])
  moreover obtain sets'' where "loop_turns cbs env timeout fr (replicate n (Select_failed EBADF) @ answers) sets' (st\<lparr>mp_fdsetupdate := 0\<rparr>)
    = loop_turns cbs env timeout fr answers sets'' (st\<lparr>mp_fdsetupdate := 0\<rparr>)"
    using Suc.IH [of "st\<lparr>mp_fdsetupdate := 0\<rparr>" sets'] Suc.prems by (auto split: if_splits)
  ultimately show ?case by (intro exI [of _ sets'']) (simp only: nat.simps if_False)
qed auto

text \<open>After \<open>mpoll_break\<close> the timer of the loop stays in the list, and when it is due later it writes to the
  frame of a call that has returned.\<close>

definition break_callbacks :: "(nat, nat list) callbacks" where
  "break_callbacks = \<lparr>on_timer = (\<lambda>f st. Returned (mpoll_break st)), on_fd = (\<lambda>f fd m st. Returned st)\<rparr>"

lemma break_leaves_timer:
  "\<exists>st'. mpoll_loop break_callbacks \<lparr>le_clock = half_seconds, le_fuel = 5\<rparr> True [no_event] 10 two_timers = Returned (0, st')
    \<and> map mt_id (mp_timers st') = [19, 17]
    \<and> mpoll_loop break_callbacks \<lparr>le_clock = (\<lambda>i. \<lparr>tv_sec = 150 + int i, tv_usec = 0\<rparr>), le_fuel = 5\<rparr> True [no_event] (-1) st'
      = Undefined ''frame that has returned''"
  by (simp add: mpoll_loop_def mtimer_start_def add_timer_def two_timers_def loop_turns.simps build_sets_def break_callbacks_def
    no_event_def ready_sets_def fds_with_def loop_turn_def mtimer_settime_def mtimer_expire.simps half_seconds_def later_def
    mtimer_pop_def mtimer_stop_def run_timer_def cb_stoploop_def mpoll_break_def Let_def eval_nat_numeral)

text \<open>A timer of microseconds may keep 1000000 of them, one more than there are in a second; it is then
  placed before a timer of the same time and fires when that one does not.\<close>

lemma microseconds_not_normal:
  "carry \<lparr>tv_sec = 5, tv_usec = 1000000\<rparr> = \<lparr>tv_sec = 5, tv_usec = 1000000\<rparr>"
  "later \<lparr>tv_sec = 6, tv_usec = 0\<rparr> \<lparr>tv_sec = 5, tv_usec = 1000000\<rparr>"
  by (simp_all add: carry.simps later_def)

text \<open>A descriptor of 1024 or more is set outside of the set.\<close>

lemma large_descriptor:
  "n \<in> set ns \<Longrightarrow> FD_SETSIZE \<le> pn_fd n \<Longrightarrow> pn_mask n = MPOLL_IN \<Longrightarrow> build_sets ns = Undefined ''FD_SET outside the set''"
proof -
  assume a: "n \<in> set ns" "FD_SETSIZE \<le> pn_fd n" "pn_mask n = MPOLL_IN"
  have "and MPOLL_IN (MPOLL_IN + MPOLL_OUT + MPOLL_EXCEPT) \<noteq> 0"
    unfolding MPOLL_IN_def MPOLL_OUT_def MPOLL_EXCEPT_def by code_simp
  then have "\<exists>n \<in> set ns. \<not> (0 \<le> pn_fd n \<and> pn_fd n < FD_SETSIZE) \<and> and (pn_mask n) (MPOLL_IN + MPOLL_OUT + MPOLL_EXCEPT) \<noteq> 0"
    using a by (intro bexI [of _ n]) auto
  then show ?thesis unfolding build_sets_def by (simp only: if_True)
qed

text \<open>A callback that cleans up does not tell the loop, which goes on with the nodes that were released.\<close>

lemma cleanup_in_callback:
  assumes "mp_used st \<noteq> 0" "mp_pnodes st = [n]" "0 \<le> pn_fd n" "pn_fd n < FD_SETSIZE" "pn_func n = Some f"
    "ready_mask s (pn_fd n) \<noteq> 0" "on_fd cbs f (pn_fd n) (ready_mask s (pn_fd n)) st = Returned (mpoll_cleanup st)"
    "mp_fdsetupdate st = 0" "mp_timers st = []"
  shows "check_fds cbs s [n] st = Undefined ''walk over released nodes''"
  using assms by (simp add: Let_def mpoll_cleanup_def pnode_free_def)

end
