(* ===== verification/IpFlow.thy ===== *)
theory IpFlow
  imports Simulation
begin

text \<open>
  The flows of the probe (\<open>probe/ipflow.c\<close>): the fields of a packet, and the table of flows with their
  counters, hash chains, reverse flows and fragments. Nodes have addresses. The list of flows and
  a hash chain are lists of addresses, for what \<open>prev\<close>, \<open>next\<close> and \<open>nexthash\<close> describe; the list of
  fragments, in which a node can come to stand twice, keeps its pointers.
\<close>

unbundle bit_operations_syntax

section \<open>The fields of a packet\<close>

record ipflow_elems =
  ie_version :: nat
  ie_tos :: nat
  ie_protocol :: nat
  ie_saddr :: "byte list"
  ie_daddr :: "byte list"
  ie_sport :: nat
  ie_dport :: nat
  ie_frag_off :: nat
  ie_pl_len :: nat
  ie_ipid :: nat

definition IPVERSION :: nat where "IPVERSION = 4"
definition IPPROTO_HOPOPTS :: nat where "IPPROTO_HOPOPTS = 0"
definition IPPROTO_TCP :: nat where "IPPROTO_TCP = 6"
definition IPPROTO_UDP :: nat where "IPPROTO_UDP = 17"
definition IPPROTO_ROUTING :: nat where "IPPROTO_ROUTING = 43"
definition IPPROTO_FRAGMENT :: nat where "IPPROTO_FRAGMENT = 44"
definition IPPROTO_DSTOPTS :: nat where "IPPROTO_DSTOPTS = 60"
definition IPPROTO_SCTP :: nat where "IPPROTO_SCTP = 132"

definition has_ports :: "nat \<Rightarrow> bool" where
  "has_ports prot \<longleftrightarrow> prot = IPPROTO_TCP \<or> prot = IPPROTO_SCTP \<or> prot = IPPROTO_UDP"

text \<open>A byte of the packet: \<open>pp\<close> has the bytes that are there, \<open>caplen\<close> is how many the caller says there are.\<close>

definition packet_byte :: "byte list \<Rightarrow> nat \<Rightarrow> nat proc" where
  "packet_byte pp i = (if i < length pp then Returned (unat (pp ! i)) else Undefined ''read past the packet'')"

definition port_at :: "byte list \<Rightarrow> nat \<Rightarrow> nat proc" where
  "port_at pp i = proc_bind (packet_byte pp i) (\<lambda>a. proc_map (\<lambda>b. a * 256 + b) (packet_byte pp (i + 1)))"

definition set_ports :: "byte list \<Rightarrow> nat \<Rightarrow> ipflow_elems \<Rightarrow> ipflow_elems proc" where
  "set_ports pp i elems =
     proc_bind (port_at pp i) (\<lambda>s. proc_map (\<lambda>d. elems\<lparr>ie_sport := s, ie_dport := d\<rparr>) (port_at pp (i + 2)))"

definition no_ports :: "ipflow_elems \<Rightarrow> ipflow_elems" where
  "no_ports elems = elems\<lparr>ie_sport := 0, ie_dport := 0\<rparr>"

definition word_at :: "byte list \<Rightarrow> nat \<Rightarrow> nat" where
  "word_at pp i = unat (pp ! i) * 256 + unat (pp ! (i + 1))"

text \<open>The headers between the first and the transport header; both counters have 16 bits.\<close>

fun skip_headers :: "nat \<Rightarrow> nat \<Rightarrow> byte list \<Rightarrow> nat \<Rightarrow> nat \<Rightarrow> (nat \<times> nat) proc" where
  "skip_headers 0 caplen pp hdrlen prot = Spins"
| "skip_headers (Suc fuel) caplen pp hdrlen prot =
     (if hdrlen < caplen mod 65536 then
        if has_ports prot then Returned (hdrlen, prot)
        else if prot \<in> {IPPROTO_HOPOPTS, IPPROTO_DSTOPTS, IPPROTO_FRAGMENT, IPPROTO_ROUTING} then
          proc_bind (packet_byte pp hdrlen) (\<lambda>prot.
          proc_bind (packet_byte pp (hdrlen + 1)) (\<lambda>p1.
          skip_headers fuel caplen pp ((hdrlen + (8 + p1 * 8)) mod 65536) prot))
        else Returned (hdrlen, prot)
      else Returned (hdrlen, prot))"

definition ipflow_get_elems :: "nat \<Rightarrow> nat \<Rightarrow> byte list \<Rightarrow> ipflow_elems \<Rightarrow> (int \<times> ipflow_elems) proc" where
  "ipflow_get_elems fuel caplen pp elems =
     proc_bind (packet_byte pp 0) (\<lambda>b0.
     let elems = elems\<lparr>ie_version := b0 div 16\<rparr> in
     if ie_version elems = IPVERSION \<and> caplen \<ge> 20 then
       if length pp < 20 then Undefined ''read past the packet'' else
       let hdrlen = b0 mod 16 * 4;
           elems = elems\<lparr>ie_tos := unat (pp ! 1), ie_protocol := unat (pp ! 9), ie_saddr := take 4 (drop 12 pp),
             ie_daddr := take 4 (drop 16 pp), ie_frag_off := word_at pp 6 AND 0xBFFF\<rparr>;
           elems = (if ie_frag_off elems \<noteq> 0 then
             elems\<lparr>ie_ipid := word_at pp 4, ie_pl_len := (word_at pp 2 + 65536 - hdrlen) mod 65536\<rparr> else elems)
       in
       if has_ports (ie_protocol elems) then
         if ie_frag_off elems AND 0x1FFF \<noteq> 0 then Returned (0, no_ports elems)
         else proc_map (Pair 0) (set_ports pp hdrlen elems)
       else Returned (0, no_ports elems)
     else if caplen \<ge> 40 then
       if length pp < 40 then Undefined ''read past the packet'' else
       let elems = elems\<lparr>ie_saddr := take 16 (drop 8 pp), ie_daddr := take 16 (drop 24 pp),
         ie_tos := (b0 mod 16 * 16 + unat (pp ! 1) div 16 * 16) mod 256, ie_frag_off := 0\<rparr> in
       proc_bind (skip_headers fuel caplen pp 40 (unat (pp ! 6))) (\<lambda>(hdrlen, prot).
       proc_map (\<lambda>elems. (0, elems\<lparr>ie_protocol := prot mod 256\<rparr>))
         (if has_ports prot then set_ports pp hdrlen elems else Returned (no_ports elems)))
     else Returned (-1, elems))"

section \<open>Flows\<close>

text \<open>An \<open>int\<close> of 32 bits, kept in range by wrapping.\<close>

definition wrap32 :: "int \<Rightarrow> int" where
  "wrap32 i = (i + 2 ^ 31) mod 2 ^ 32 - 2 ^ 31"

record ipfrag_info =
  fg_prev :: "nat option"
  fg_next :: "nat option"
  fg_thisflow :: nat
  fg_ipid :: nat
  fg_bytes_exp :: nat
  fg_bytes_got :: nat
  fg_more :: bool

record ipflowinfo =
  fl_reuse :: bool
  fl_tstart :: "int \<times> int"
  fl_tlast :: "int \<times> int"
  fl_bytes :: int
  fl_packets :: int
  fl_flowid :: int
  fl_ipfrag :: ipfrag_info
  fl_hash :: nat
  fl_rflow :: "nat option"
  fl_iflow :: bool
  fl_exported :: int
  fl_elems :: ipflow_elems

text \<open>A table of flows.\<close>

record ipflow =
  fw_flows :: "nat list"
  fw_frags :: "nat option"
  fw_hashtab :: "nat \<Rightarrow> nat list"
  fw_hashsize :: nat
  fw_nhashes :: int
  fw_nflows :: int
  fw_maxflows :: int
  fw_timeout :: int
  fw_biflows :: bool
  fw_nextflowid :: int

text \<open>The nodes of the module: 100 that are given out first and taken back, and those from the heap.\<close>

record flow_mem =
  fm_node :: "nat \<Rightarrow> ipflowinfo option"
  fm_fresh :: nat
  fm_freelist :: "nat list"
  fm_usedflows :: nat

definition zero_frag :: ipfrag_info where
  "zero_frag = \<lparr>fg_prev = None, fg_next = None, fg_thisflow = 0, fg_ipid = 0, fg_bytes_exp = 0, fg_bytes_got = 0, fg_more = False\<rparr>"

definition zero_elems :: ipflow_elems where
  "zero_elems = \<lparr>ie_version = 0, ie_tos = 0, ie_protocol = 0, ie_saddr = replicate 16 0, ie_daddr = replicate 16 0, ie_sport = 0, ie_dport = 0,
     ie_frag_off = 0, ie_pl_len = 0, ie_ipid = 0\<rparr>"

definition zero_flow :: ipflowinfo where
  "zero_flow = \<lparr>fl_reuse = False, fl_tstart = (0, 0), fl_tlast = (0, 0), fl_bytes = 0, fl_packets = 0, fl_flowid = 0, fl_ipfrag = zero_frag,
     fl_hash = 0, fl_rflow = None, fl_iflow = False, fl_exported = 0, fl_elems = zero_elems\<rparr>"

definition ntmpflows :: nat where "ntmpflows = 100"

definition flow_module :: flow_mem where
  "flow_module = \<lparr>fm_node = (\<lambda>a. if a < ntmpflows then Some zero_flow else None), fm_fresh = ntmpflows, fm_freelist = [], fm_usedflows = 0\<rparr>"

definition with_flow :: "flow_mem \<Rightarrow> nat \<Rightarrow> (ipflowinfo \<Rightarrow> 'a proc) \<Rightarrow> 'a proc" where
  "with_flow m a f = (case fm_node m a of None \<Rightarrow> Undefined ''freed flow'' | Some n \<Rightarrow> f n)"

definition put_flow :: "nat \<Rightarrow> ipflowinfo \<Rightarrow> flow_mem \<Rightarrow> flow_mem" where
  "put_flow a n m = m\<lparr>fm_node := (fm_node m)(a \<mapsto> n)\<rparr>"

text \<open>\<open>ok\<close>: there is memory. The answer has no node when there are as many flows as are allowed.\<close>

definition getflownode :: "bool \<Rightarrow> ipflow \<Rightarrow> flow_mem \<Rightarrow> (int \<times> nat option) \<times> ipflow \<times> flow_mem" where
  "getflownode ok flows m =
     (if fw_nflows flows \<ge> fw_maxflows flows then ((0, None), flows, m)
      else
        case fm_freelist m of
          a # rest \<Rightarrow> ((0, Some a), flows\<lparr>fw_nflows := fw_nflows flows + 1\<rparr>,
            m\<lparr>fm_freelist := rest, fm_usedflows := fm_usedflows m + 1\<rparr>)
        | [] \<Rightarrow>
            if \<not> ok then ((-1, None), flows, m)
            else ((0, Some (fm_fresh m)), flows\<lparr>fw_nflows := fw_nflows flows + 1\<rparr>,
              m\<lparr>fm_node := (fm_node m)(fm_fresh m \<mapsto> zero_flow), fm_fresh := fm_fresh m + 1, fm_usedflows := fm_usedflows m + 1\<rparr>))"

definition free_flownode :: "nat \<Rightarrow> flow_mem \<Rightarrow> flow_mem proc" where
  "free_flownode a m =
     with_flow m a (\<lambda>n.
     Returned ((if fl_reuse n then m\<lparr>fm_freelist := a # fm_freelist m\<rparr> else m\<lparr>fm_node := (fm_node m)(a := None)\<rparr>)
       \<lparr>fm_usedflows := fm_usedflows m - 1\<rparr>))"

text \<open>
  Dropping a flow, up to the drop of its reverse flow, which is the answer. A node that is in no
  chain ends the program.
\<close>

definition drop_node :: "nat \<Rightarrow> ipflow \<times> flow_mem \<Rightarrow> (nat option \<times> ipflow \<times> flow_mem) proc" where
  "drop_node a st =
     (case st of (flows, m) \<Rightarrow>
      with_flow m a (\<lambda>n.
      let flows = flows\<lparr>fw_flows := remove1 a (fw_flows flows)\<rparr>; chain = fw_hashtab flows (fl_hash n) in
      if a \<notin> set chain then Exited 1
      else
        let flows = flows\<lparr>fw_hashtab := (fw_hashtab flows)(fl_hash n := remove1 a chain), fw_nhashes := fw_nhashes flows - 1\<rparr>;
            r = (if fw_biflows flows then fl_rflow n else None)
        in
        proc_bind (case r of None \<Rightarrow> Returned m | Some b \<Rightarrow> with_flow m b (\<lambda>k. Returned (put_flow b (k\<lparr>fl_rflow := None\<rparr>) m))) (\<lambda>m.
        proc_bind (free_flownode a m) (\<lambda>m.
        Returned (r, flows\<lparr>fw_nflows := fw_nflows flows - 1\<rparr>, m)))))"

text \<open>The reverse flow has lost its own reverse flow by then, so nothing follows its drop.\<close>

definition flow_drop :: "nat \<Rightarrow> ipflow \<times> flow_mem \<Rightarrow> (ipflow \<times> flow_mem) proc" where
  "flow_drop a st =
     proc_bind (drop_node a st) (\<lambda>(r, st).
     case r of None \<Rightarrow> Returned st | Some b \<Rightarrow> proc_map snd (drop_node b st))"

section \<open>Making and closing a table\<close>

text \<open>What the pointer of the caller is set to.\<close>

datatype flows_pointer = Unset | Freed_table | Table ipflow

definition flow_module_init :: "flow_mem \<Rightarrow> flow_mem" where
  "flow_module_init m =
     (if fm_freelist m = [] \<and> fm_usedflows m = 0 then
        m\<lparr>fm_node := (\<lambda>a. if a < ntmpflows then map_option (\<lambda>n. n\<lparr>fl_reuse := True\<rparr>) (fm_node m a) else fm_node m a),
          fm_freelist := rev [0..<ntmpflows]\<rparr>
      else m)"

definition flow_init :: "bool \<Rightarrow> bool \<Rightarrow> int \<Rightarrow> int \<Rightarrow> int \<Rightarrow> flow_mem \<Rightarrow> (int \<times> flows_pointer) \<times> flow_mem" where
  "flow_init ok1 ok2 maxflows biflows timeout m =
     (let m = flow_module_init m in
      if \<not> ok1 then ((-1, Unset), m)
      else if \<not> ok2 then ((-1, Freed_table), m)
      else ((0, Table \<lparr>fw_flows = [], fw_frags = None, fw_hashtab = (\<lambda>_. []), fw_hashsize = 2 ^ 18, fw_nhashes = 0, fw_nflows = 0,
        fw_maxflows = (if maxflows \<noteq> 0 then maxflows else 5000), fw_timeout = timeout, fw_biflows = (biflows \<noteq> 0), fw_nextflowid = 0\<rparr>), m))"

fun free_nodes :: "nat list \<Rightarrow> flow_mem \<Rightarrow> flow_mem proc" where
  "free_nodes [] m = Returned m"
| "free_nodes (a # as) m = proc_bind (free_flownode a m) (free_nodes as)"

definition flow_close :: "ipflow option \<Rightarrow> flow_mem \<Rightarrow> flow_mem proc" where
  "flow_close f m = (case f of None \<Rightarrow> Undefined ''null pointer'' | Some f \<Rightarrow> free_nodes (fw_flows f) m)"

section \<open>Updating\<close>

fun addr_sum :: "nat \<Rightarrow> byte list \<Rightarrow> byte list \<Rightarrow> nat" where
  "addr_sum (Suc n) (s0 # s1 # ss) (d0 # d1 # ds) = unat s0 * 256 + unat s1 + (unat d1 * 256 + unat d0) + addr_sum n ss ds"
| "addr_sum n ss ds = 0"

definition flow_calchash :: "ipflow \<Rightarrow> ipflow_elems \<Rightarrow> nat" where
  "flow_calchash flows elems =
     (addr_sum (if ie_version elems = 6 then 8 else 2) (ie_saddr elems) (ie_daddr elems) +
      (ie_sport elems + ie_dport elems + ie_protocol elems + ie_tos elems)) mod 2 ^ 32 mod fw_hashsize flows"

definition addr_len :: "ipflow_elems \<Rightarrow> nat" where
  "addr_len elems = (if ie_version elems = 6 then 16 else 4)"

text \<open>Whether a packet with these fields belongs to a flow with those.\<close>

definition same_flow :: "ipflow_elems \<Rightarrow> ipflow_elems \<Rightarrow> bool" where
  "same_flow node elems \<longleftrightarrow> ie_sport node = ie_sport elems \<and> ie_dport node = ie_dport elems \<and> ie_protocol node = ie_protocol elems \<and>
     ie_tos node = ie_tos elems \<and> take (addr_len elems) (ie_saddr node) = take (addr_len elems) (ie_saddr elems) \<and>
     take (addr_len elems) (ie_daddr node) = take (addr_len elems) (ie_daddr elems)"

fun find_flow :: "flow_mem \<Rightarrow> ipflow_elems \<Rightarrow> nat list \<Rightarrow> nat option proc" where
  "find_flow m elems [] = Returned None"
| "find_flow m elems (a # as) =
     with_flow m a (\<lambda>n. if same_flow (fl_elems n) elems then Returned (Some a) else find_flow m elems as)"

text \<open>The node of a fragment: the list is followed by its pointers.\<close>

fun find_frag :: "nat \<Rightarrow> flow_mem \<Rightarrow> ipflow_elems \<Rightarrow> nat option \<Rightarrow> nat option proc" where
  "find_frag 0 m elems p = Spins"
| "find_frag (Suc fuel) m elems None = Returned None"
| "find_frag (Suc fuel) m elems (Some a) =
     with_flow m a (\<lambda>n.
     let g = fl_ipfrag n in
     if fg_ipid g \<noteq> ie_ipid elems then find_frag fuel m elems (fg_next g)
     else
       with_flow m (fg_thisflow g) (\<lambda>k.
       if take 4 (ie_saddr (fl_elems k)) = take 4 (ie_saddr elems) then Returned (Some a)
       else find_frag fuel m elems (fg_next g)))"

definition update_frag :: "nat \<Rightarrow> (ipfrag_info \<Rightarrow> ipfrag_info) \<Rightarrow> flow_mem \<Rightarrow> flow_mem proc" where
  "update_frag a f m = with_flow m a (\<lambda>n. Returned (put_flow a (n\<lparr>fl_ipfrag := f (fl_ipfrag n)\<rparr>) m))"

text \<open>A fragment that was found: counted, and taken off the list when it is the last that was missing.\<close>

definition count_frag :: "ipflow_elems \<Rightarrow> ipfrag_info \<Rightarrow> ipfrag_info" where
  "count_frag elems g =
     (let g = g\<lparr>fg_bytes_got := (fg_bytes_got g + ie_pl_len elems) mod 65536\<rparr> in
      if ie_frag_off elems AND 0x2000 = 0 then
        g\<lparr>fg_bytes_exp := ((ie_frag_off elems AND 0xDFFF) * 8 + ie_pl_len elems) mod 65536, fg_more := False\<rparr>
      else g)"

definition unlink_frag :: "nat \<Rightarrow> ipfrag_info \<Rightarrow> ipflow \<times> flow_mem \<Rightarrow> (ipflow \<times> flow_mem) proc" where
  "unlink_frag a g st =
     (case st of (flows, m) \<Rightarrow>
      proc_bind
        (case fg_prev g of
           Some p \<Rightarrow> proc_map (Pair flows) (update_frag p (\<lambda>q. q\<lparr>fg_next := fg_next g\<rparr>) m)
         | None \<Rightarrow> Returned (flows\<lparr>fw_frags := fg_next g\<rparr>, m)) (\<lambda>(flows, m).
      proc_bind (case fg_next g of None \<Rightarrow> Returned m | Some q \<Rightarrow> update_frag q (\<lambda>r. r\<lparr>fg_prev := fg_prev g\<rparr>) m) (\<lambda>m.
      proc_map (Pair flows) (update_frag a (\<lambda>r. r\<lparr>fg_ipid := 0, fg_next := None, fg_prev := None\<rparr>) m))))"

definition got_frag :: "ipflow_elems \<Rightarrow> nat \<Rightarrow> ipflow \<times> flow_mem \<Rightarrow> (nat \<times> ipflow \<times> flow_mem) proc" where
  "got_frag elems a st =
     (case st of (flows, m) \<Rightarrow>
      proc_bind (update_frag a (count_frag elems) m) (\<lambda>m.
      with_flow m a (\<lambda>n.
      let g = fl_ipfrag n in
      proc_map (Pair (fg_thisflow g))
        (if \<not> fg_more g \<and> fg_bytes_exp g = fg_bytes_got g then unlink_frag a g (flows, m) else Returned (flows, m)))))"

text \<open>A new flow: its node, and its place in the chain, the list and among the reverse flows.\<close>

definition next_flowid :: "int \<Rightarrow> int" where
  "next_flowid i = (if wrap32 (i + 1) < 1 then 1 else wrap32 (i + 1))"

definition new_elems :: "ipflow_elems \<Rightarrow> ipflow_elems \<Rightarrow> ipflow_elems" where
  "new_elems elems old = old\<lparr>ie_version := ie_version elems, ie_tos := ie_tos elems, ie_protocol := ie_protocol elems,
     ie_saddr := take (addr_len elems) (ie_saddr elems) @ drop (addr_len elems) (ie_saddr old),
     ie_daddr := take (addr_len elems) (ie_daddr elems) @ drop (addr_len elems) (ie_daddr old),
     ie_sport := ie_sport elems, ie_dport := ie_dport elems\<rparr>"

definition reverse_elems :: "ipflow_elems \<Rightarrow> ipflow_elems" where
  "reverse_elems elems = elems\<lparr>ie_sport := ie_dport elems, ie_dport := ie_sport elems, ie_saddr := ie_daddr elems, ie_daddr := ie_saddr elems\<rparr>"

fun link_reverse :: "nat \<Rightarrow> ipflow_elems \<Rightarrow> nat list \<Rightarrow> flow_mem \<Rightarrow> flow_mem proc" where
  "link_reverse a relems [] m = Returned m"
| "link_reverse a relems (b # bs) m =
     with_flow m b (\<lambda>k.
     if same_flow (fl_elems k) relems then
       let m = put_flow b (k\<lparr>fl_rflow := Some a\<rparr>) m in
       with_flow m a (\<lambda>n. link_reverse a relems bs (put_flow a (n\<lparr>fl_rflow := Some b, fl_iflow := False\<rparr>) m))
     else link_reverse a relems bs m)"

definition new_flow :: "nat \<Rightarrow> nat \<Rightarrow> ipflow_elems \<Rightarrow> int \<times> int \<Rightarrow> ipflow \<times> flow_mem \<Rightarrow> (ipflow \<times> flow_mem) proc" where
  "new_flow a hash elems tv st =
     (case st of (flows, m) \<Rightarrow>
      with_flow m a (\<lambda>n.
      let flows = flows\<lparr>fw_hashtab := (fw_hashtab flows)(hash := a # fw_hashtab flows hash), fw_nhashes := fw_nhashes flows + 1,
            fw_nextflowid := next_flowid (fw_nextflowid flows), fw_flows := a # fw_flows flows\<rparr>;
          n = n\<lparr>fl_hash := hash, fl_tstart := tv, fl_packets := 0, fl_bytes := 0, fl_exported := 0,
            fl_ipfrag := (fl_ipfrag n)\<lparr>fg_ipid := 0\<rparr>, fl_flowid := fw_nextflowid flows, fl_elems := new_elems elems (fl_elems n)\<rparr>
      in
      if fw_biflows flows then
        let m = put_flow a (n\<lparr>fl_rflow := None, fl_iflow := True\<rparr>) m; relems = reverse_elems elems in
        proc_map (Pair flows) (link_reverse a relems (fw_hashtab flows (flow_calchash flows relems)) m)
      else Returned (flows, put_flow a n m)))"

text \<open>The first packet of a fragmented datagram.\<close>

definition first_frag :: "nat \<Rightarrow> ipflow_elems \<Rightarrow> ipflow \<times> flow_mem \<Rightarrow> (ipflow \<times> flow_mem) proc" where
  "first_frag a elems st =
     (case st of (flows, m) \<Rightarrow>
      with_flow m a (\<lambda>n.
      let old = fg_ipid (fl_ipfrag n);
          g = (fl_ipfrag n)\<lparr>fg_bytes_got := ie_pl_len elems, fg_bytes_exp := 0, fg_more := True, fg_thisflow := a\<rparr>;
          put = (\<lambda>g. put_flow a (n\<lparr>fl_ipfrag := g\<lparr>fg_ipid := ie_ipid elems\<rparr>\<rparr>))
      in
      if old \<noteq> 0 \<or> fw_frags flows = Some a then Returned (flows, put g m)
      else
        case fw_frags flows of
          None \<Rightarrow> Returned (flows\<lparr>fw_frags := Some a\<rparr>, put (g\<lparr>fg_prev := None, fg_next := None\<rparr>) m)
        | Some b \<Rightarrow>
            proc_bind (update_frag b (\<lambda>r. r\<lparr>fg_prev := Some a\<rparr>) m) (\<lambda>m.
            Returned (flows\<lparr>fw_frags := Some a\<rparr>, put (g\<lparr>fg_prev := None, fg_next := Some b\<rparr>) m))))"

definition count_packet :: "nat \<Rightarrow> int \<times> int \<Rightarrow> nat \<Rightarrow> flow_mem \<Rightarrow> flow_mem proc" where
  "count_packet a tv nbytes m =
     with_flow m a (\<lambda>n.
     Returned (put_flow a (n\<lparr>fl_tlast := tv, fl_packets := wrap32 (fl_packets n + 1), fl_bytes := wrap32 (fl_bytes n + int nbytes)\<rparr>) m))"

text \<open>
  \<open>want\<close>: the caller gives a place for the flow. Without a fragment node the flow is looked up, and
  made when there is none.
\<close>

definition flow_of_packet :: "bool \<Rightarrow> bool \<Rightarrow> ipflow_elems \<Rightarrow> int \<times> int \<Rightarrow> nat \<Rightarrow> ipflow \<times> flow_mem
    \<Rightarrow> ((int \<times> nat option) \<times> ipflow \<times> flow_mem) proc" where
  "flow_of_packet ok want elems tv nbytes st =
     (case st of (flows, m) \<Rightarrow>
      let hash = flow_calchash flows elems;
          finish = (\<lambda>a st.
            proc_bind (if ie_frag_off elems AND 0x3FFF = 0x2000 then first_frag a elems st else Returned st) (\<lambda>(flows, m).
            proc_map (\<lambda>m. ((0, Some a), flows, m)) (count_packet a tv nbytes m)))
      in
      proc_bind (find_flow m elems (fw_hashtab flows hash)) (\<lambda>r.
      case r of
        Some a \<Rightarrow> finish a (flows, m)
      | None \<Rightarrow>
          (case getflownode ok flows m of ((e, p), flows, m) \<Rightarrow>
           if e < 0 then Returned ((-1, None), flows, m)
           else
             case p of
               None \<Rightarrow> if want then Returned ((0, None), flows, m) else Undefined ''null pointer''
             | Some a \<Rightarrow> proc_bind (new_flow a hash elems tv (flows, m)) (finish a))))"

definition flow_update :: "nat \<Rightarrow> bool \<Rightarrow> bool \<Rightarrow> ipflow_elems \<Rightarrow> int \<times> int \<Rightarrow> nat \<Rightarrow> ipflow \<times> flow_mem
    \<Rightarrow> ((int \<times> nat option) \<times> ipflow \<times> flow_mem) proc" where
  "flow_update fuel ok want elems tv nbytes st =
     (case st of (flows, m) \<Rightarrow>
      proc_bind (if ie_frag_off elems \<noteq> 0 then find_frag fuel m elems (fw_frags flows) else Returned None) (\<lambda>r.
      case r of
        Some a \<Rightarrow>
          proc_bind (got_frag elems a (flows, m)) (\<lambda>(b, flows, m).
          proc_map (\<lambda>m. ((0, Some b), flows, m)) (count_packet b tv nbytes m))
      | None \<Rightarrow> flow_of_packet ok want elems tv nbytes (flows, m)))"

end
