(* ===== verification/IpFlowProps.thy ===== *)
theory IpFlowProps
  imports IpFlow
begin

text \<open>
  The table of flows is a map from the addresses, ports, protocol and service of a packet to counters
  of packets and bytes: every update counts the packet for its flow, also when the hash chains,
  the list of free nodes and the reverse flows are in use, and dropping a flow takes it, and with two
  directions its reverse flow, from the map.
\<close>

section \<open>The abstract table\<close>

type_synonym flow_key = "nat \<times> nat \<times> nat \<times> nat \<times> byte list \<times> byte list"

definition flow_key :: "nat \<Rightarrow> ipflow_elems \<Rightarrow> flow_key" where
  "flow_key len elems = (ie_sport elems, ie_dport elems, ie_protocol elems, ie_tos elems, take len (ie_saddr elems), take len (ie_daddr elems))"

definition reverse_key :: "flow_key \<Rightarrow> flow_key" where
  "reverse_key k = (case k of (s, d, p, t, sa, da) \<Rightarrow> (d, s, p, t, da, sa))"

datatype flow_call = Count_packet bool nat ipflow_elems "int \<times> int" nat | Drop_flow flow_key

type_synonym flow_counts = "flow_key \<Rightarrow> (int \<times> int) option"

text \<open>A packet of a known flow, or of a new one while there are fewer than the limit, is counted.\<close>

fun spec_flow :: "nat \<Rightarrow> int \<Rightarrow> bool \<Rightarrow> flow_call \<Rightarrow> flow_counts \<Rightarrow> bool \<times> flow_counts" where
  "spec_flow v maxflows biflows (Count_packet want fuel elems tv nbytes) c =
     (let k = flow_key (addr_len elems) elems in
      case c k of
        Some (p, b) \<Rightarrow> (True, c(k \<mapsto> (wrap32 (p + 1), wrap32 (b + int nbytes))))
      | None \<Rightarrow> if int (card (dom c)) < maxflows then (True, c(k \<mapsto> (wrap32 1, wrap32 (int nbytes)))) else (False, c))"
| "spec_flow v maxflows biflows (Drop_flow k) c =
     (if k \<in> dom c then (True, if biflows then c(k := None, reverse_key k := None) else c(k := None)) else (False, c))"

text \<open>Packets that are not fragments, of one version of IP; with two directions, not from an address and port to the same.\<close>

fun flow_allowed :: "nat \<Rightarrow> bool \<Rightarrow> flow_call \<Rightarrow> flow_counts \<Rightarrow> bool" where
  "flow_allowed v biflows (Count_packet want fuel elems tv nbytes) c \<longleftrightarrow>
     want \<and> ie_version elems = v \<and> ie_frag_off elems = 0 \<and> length (ie_saddr elems) = addr_len elems \<and> length (ie_daddr elems) = addr_len elems \<and>
     (biflows \<longrightarrow> flow_key (addr_len elems) elems \<noteq> reverse_key (flow_key (addr_len elems) elems))"
| "flow_allowed v biflows (Drop_flow k) c \<longleftrightarrow> True"

definition key_len :: "nat \<Rightarrow> nat" where
  "key_len v = (if v = 6 then 16 else 4)"

definition has_key :: "nat \<Rightarrow> flow_mem \<Rightarrow> flow_key \<Rightarrow> nat \<Rightarrow> bool" where
  "has_key v m k a \<longleftrightarrow> (case fm_node m a of None \<Rightarrow> False | Some n \<Rightarrow> flow_key (key_len v) (fl_elems n) = k)"

fun call_flow :: "nat \<Rightarrow> flow_call \<Rightarrow> ipflow \<times> flow_mem \<Rightarrow> (bool \<times> ipflow \<times> flow_mem) proc" where
  "call_flow v (Count_packet want fuel elems tv nbytes) st =
     proc_map (\<lambda>((r, p), st). (p \<noteq> None, st)) (flow_update fuel True want elems tv nbytes st)"
| "call_flow v (Drop_flow k) st =
     (case find (has_key v (snd st) k) (fw_flows (fst st)) of
        None \<Rightarrow> Returned (False, st)
      | Some a \<Rightarrow> proc_map (Pair True) (flow_drop a st))"

text \<open>What is kept: \<open>key\<close>, \<open>node\<close> of an address.\<close>

definition node_at :: "flow_mem \<Rightarrow> nat \<Rightarrow> ipflowinfo" where
  "node_at m a = the (fm_node m a)"

definition key_at :: "nat \<Rightarrow> flow_mem \<Rightarrow> nat \<Rightarrow> flow_key" where
  "key_at v m a = flow_key (key_len v) (fl_elems (node_at m a))"

definition nodes_ok :: "ipflow \<Rightarrow> flow_mem \<Rightarrow> bool" where
  "nodes_ok t m \<longleftrightarrow> distinct (fw_flows t @ fm_freelist m) \<and>
     (\<forall>a \<in> set (fw_flows t) \<union> set (fm_freelist m). fm_node m a \<noteq> None \<and> a < fm_fresh m) \<and> fw_nflows t = int (length (fw_flows t))"

definition chains_ok :: "nat \<Rightarrow> ipflow \<Rightarrow> flow_mem \<Rightarrow> bool" where
  "chains_ok v t m \<longleftrightarrow> (\<forall>h. distinct (fw_hashtab t h) \<and> set (fw_hashtab t h) = {a \<in> set (fw_flows t). fl_hash (node_at m a) = h}) \<and>
     (\<forall>a \<in> set (fw_flows t). fl_hash (node_at m a) = flow_calchash t (fl_elems (node_at m a)) \<and> ie_version (fl_elems (node_at m a)) = v)
     \<and> inj_on (key_at v m) (set (fw_flows t))"

definition reverse_ok :: "nat \<Rightarrow> ipflow \<Rightarrow> flow_mem \<Rightarrow> bool" where
  "reverse_ok v t m \<longleftrightarrow> fw_biflows t \<longrightarrow> (\<forall>a \<in> set (fw_flows t). key_at v m a \<noteq> reverse_key (key_at v m a) \<and>
     (\<forall>b. fl_rflow (node_at m a) = Some b \<longleftrightarrow> b \<in> set (fw_flows t) \<and> key_at v m b = reverse_key (key_at v m a)))"

definition counts_ok :: "nat \<Rightarrow> ipflow \<Rightarrow> flow_mem \<Rightarrow> flow_counts \<Rightarrow> bool" where
  "counts_ok v t m c \<longleftrightarrow> dom c = key_at v m ` set (fw_flows t) \<and>
     (\<forall>a \<in> set (fw_flows t). c (key_at v m a) = Some (fl_packets (node_at m a), fl_bytes (node_at m a)))"

definition flows_hold :: "nat \<Rightarrow> int \<Rightarrow> bool \<Rightarrow> ipflow \<times> flow_mem \<Rightarrow> flow_counts \<Rightarrow> bool" where
  "flows_hold v maxflows biflows st c \<longleftrightarrow> (case st of (t, m) \<Rightarrow>
     fw_maxflows t = maxflows \<and> fw_biflows t = biflows \<and> nodes_ok t m \<and> chains_ok v t m \<and> reverse_ok v t m \<and> counts_ok v t m c)"

section \<open>Keys and hashes\<close>

lemma addr_sum_take: "addr_sum n ss ds = addr_sum n (take (2 * n) ss) (take (2 * n) ds)"
proof (induction n ss ds rule: addr_sum.induct)
  case (1 n s0 s1 ss d0 d1 ds)
  then show ?case by simp
qed (simp_all add: take_Cons')

lemma same_flow_key: "same_flow n e \<longleftrightarrow> flow_key (addr_len e) n = flow_key (addr_len e) e"
  by (auto simp: same_flow_def flow_key_def)

lemma calchash_key:
  assumes "flow_key (key_len v) e = flow_key (key_len v) e'" "ie_version e = v" "ie_version e' = v"
  shows "flow_calchash t e = flow_calchash t e'"
proof -
  define n where "n = (if v = 6 then 8 else 2 :: nat)"
  have "key_len v = 2 * n" by (simp add: key_len_def n_def)
  then have "addr_sum n (ie_saddr e) (ie_daddr e) = addr_sum n (ie_saddr e') (ie_daddr e')"
    using assms(1) addr_sum_take [of n "ie_saddr e" "ie_daddr e"] addr_sum_take [of n "ie_saddr e'" "ie_daddr e'"]
    by (simp add: flow_key_def)
  then show ?thesis using assms by (simp add: flow_calchash_def flow_key_def n_def)
qed

lemma reverse_key_reverse [simp]: "reverse_key (reverse_key k) = k"
  by (simp add: reverse_key_def split: prod.splits)

lemma reverse_elems_key: "flow_key len (reverse_elems e) = reverse_key (flow_key len e)"
  by (simp add: flow_key_def reverse_elems_def reverse_key_def)

lemma new_elems_key:
  assumes "length (ie_saddr e) = addr_len e" "length (ie_daddr e) = addr_len e"
  shows "flow_key (addr_len e) (new_elems e old) = flow_key (addr_len e) e"
  using assms by (simp add: flow_key_def new_elems_def)

lemma addr_len_version: "addr_len e = key_len (ie_version e)"
  by (simp add: addr_len_def key_len_def)

section \<open>Lookup\<close>

lemma find_flow_find:
  assumes "\<forall>a \<in> set as. fm_node m a \<noteq> None"
  shows "find_flow m e as = Returned (find (\<lambda>a. same_flow (fl_elems (node_at m a)) e) as)"
  using assms by (induction as) (auto simp: with_flow_def node_at_def)

lemma node_some: "nodes_ok t m \<Longrightarrow> a \<in> set (fw_flows t) \<Longrightarrow> fm_node m a = Some (node_at m a)"
  by (auto simp: nodes_ok_def node_at_def)

lemma chain_flows: "chains_ok v t m \<Longrightarrow> set (fw_hashtab t h) \<subseteq> set (fw_flows t)"
  by (auto simp: chains_ok_def)

lemma find_unique:
  assumes "\<forall>a \<in> set as. P a \<longleftrightarrow> a = x" "x \<in> set as"
  shows "find P as = Some x"
  using assms by (induction as) auto

text \<open>The chain of a packet has its flow, if there is one.\<close>

lemma lookup:
  assumes "nodes_ok t m" "chains_ok v t m" "ie_version e = v"
  shows "find_flow m e (fw_hashtab t (flow_calchash t e)) =
    Returned (if \<exists>a \<in> set (fw_flows t). key_at v m a = flow_key (key_len v) e
      then Some (THE a. a \<in> set (fw_flows t) \<and> key_at v m a = flow_key (key_len v) e) else None)"
proof -
  let ?as = "fw_hashtab t (flow_calchash t e)"
  have s: "same_flow (fl_elems (node_at m a)) e \<longleftrightarrow> key_at v m a = flow_key (key_len v) e" for a
    using assms(3) by (simp add: same_flow_key addr_len_version key_at_def)
  have f: "find_flow m e ?as = Returned (find (\<lambda>a. key_at v m a = flow_key (key_len v) e) ?as)"
    unfolding s [symmetric] by (rule find_flow_find) (use node_some [OF assms(1)] chain_flows [OF assms(2)] in fastforce)
  have inj: "inj_on (key_at v m) (set (fw_flows t))" using assms(2) by (simp add: chains_ok_def)
  show ?thesis
  proof (cases "\<exists>a \<in> set (fw_flows t). key_at v m a = flow_key (key_len v) e")
    case True
    then obtain a where a: "a \<in> set (fw_flows t)" "key_at v m a = flow_key (key_len v) e" by blast
    have "fl_hash (node_at m a) = flow_calchash t e"
      using assms(2,3) a calchash_key [of v "fl_elems (node_at m a)" e t] by (simp add: chains_ok_def key_at_def)
    then have "a \<in> set ?as" using assms(2) a(1) by (simp add: chains_ok_def)
    moreover have u: "b = a" if "b \<in> set (fw_flows t)" "key_at v m b = flow_key (key_len v) e" for b
      using inj a that by (auto simp: inj_on_def)
    ultimately have "find (\<lambda>a. key_at v m a = flow_key (key_len v) e) ?as = Some a"
      using a chain_flows [OF assms(2)] by (intro find_unique) blast+
    moreover have "(THE a. a \<in> set (fw_flows t) \<and> key_at v m a = flow_key (key_len v) e) = a" using a u by blast
    ultimately show ?thesis using True by (simp add: f)
  next
    case False
    then have "find (\<lambda>a. key_at v m a = flow_key (key_len v) e) ?as = None"
      using chain_flows [OF assms(2)] by (auto simp: find_None_iff)
    then show ?thesis using False by (simp add: f)
  qed
qed

section \<open>Counting\<close>

lemma node_at_put [simp]: "node_at (put_flow a n m) b = (if b = a then n else node_at m b)"
  by (simp add: node_at_def put_flow_def)

lemma put_flow_simps [simp]: "fm_node (put_flow a n m) b = (if b = a then Some n else fm_node m b)"
  "fm_freelist (put_flow a n m) = fm_freelist m" "fm_fresh (put_flow a n m) = fm_fresh m"
  by (simp_all add: put_flow_def)

lemma calchash_size: "fw_hashsize t = fw_hashsize t' \<Longrightarrow> flow_calchash t e = flow_calchash t' e"
  by (simp add: flow_calchash_def)

text \<open>A change of a node that keeps its hash, its fields and its reverse flow.\<close>

lemma put_same:
  assumes "nodes_ok t m" "chains_ok v t m" "reverse_ok v t m" "a \<in> set (fw_flows t)"
    and "fl_hash n = fl_hash (node_at m a)" "fl_elems n = fl_elems (node_at m a)" "fl_rflow n = fl_rflow (node_at m a)"
  shows "nodes_ok t (put_flow a n m)" "chains_ok v t (put_flow a n m)" "reverse_ok v t (put_flow a n m)"
    "key_at v (put_flow a n m) = key_at v m"
proof -
  show k: "key_at v (put_flow a n m) = key_at v m" using assms(6) by (auto simp: key_at_def)
  show "nodes_ok t (put_flow a n m)" using assms(1) by (auto simp: nodes_ok_def)
  have h: "fl_hash (node_at (put_flow a n m) b) = fl_hash (node_at m b)" "fl_elems (node_at (put_flow a n m) b) = fl_elems (node_at m b)"
    "fl_rflow (node_at (put_flow a n m) b) = fl_rflow (node_at m b)" for b
    using assms(5-7) by auto
  show "chains_ok v t (put_flow a n m)" using assms(2) unfolding chains_ok_def k h .
  show "reverse_ok v t (put_flow a n m)" using assms(3) unfolding reverse_ok_def k h .
qed

lemma counts_put:
  assumes "counts_ok v t m c" "chains_ok v t m" "a \<in> set (fw_flows t)" "key_at v (put_flow a n m) = key_at v m"
  shows "counts_ok v t (put_flow a n m) (c(key_at v m a \<mapsto> (fl_packets n, fl_bytes n)))"
proof -
  have inj: "inj_on (key_at v m) (set (fw_flows t))" using assms(2) by (simp add: chains_ok_def)
  have "dom (c(key_at v m a \<mapsto> (fl_packets n, fl_bytes n))) = key_at v m ` set (fw_flows t)"
    using assms(1,3) by (auto simp: counts_ok_def)
  moreover have "(c(key_at v m a \<mapsto> (fl_packets n, fl_bytes n))) (key_at v m b) =
      Some (fl_packets (node_at (put_flow a n m) b), fl_bytes (node_at (put_flow a n m) b))" if "b \<in> set (fw_flows t)" for b
    using assms(1,3) that inj by (auto simp: counts_ok_def inj_on_def)
  ultimately show ?thesis unfolding counts_ok_def assms(4) by blast
qed

lemma count_known:
  assumes "flows_hold v mx bi (t, m) c" "a \<in> set (fw_flows t)"
  shows "\<exists>m' p b. count_packet a tv nbytes m = Returned m' \<and> c (key_at v m a) = Some (p, b) \<and>
    flows_hold v mx bi (t, m') (c(key_at v m a \<mapsto> (wrap32 (p + 1), wrap32 (b + int nbytes))))"
proof -
  let ?n = "(node_at m a)\<lparr>fl_tlast := tv, fl_packets := wrap32 (fl_packets (node_at m a) + 1),
    fl_bytes := wrap32 (fl_bytes (node_at m a) + int nbytes)\<rparr>"
  have h: "fw_maxflows t = mx" "fw_biflows t = bi" "nodes_ok t m" "chains_ok v t m" "reverse_ok v t m" "counts_ok v t m c"
    using assms(1) by (simp_all add: flows_hold_def)
  have "count_packet a tv nbytes m = Returned (put_flow a ?n m)"
    using node_some [OF h(3) assms(2)] by (simp add: count_packet_def with_flow_def)
  moreover have "c (key_at v m a) = Some (fl_packets (node_at m a), fl_bytes (node_at m a))" using h(6) assms(2) by (simp add: counts_ok_def)
  moreover note p = put_same [OF h(3-5) assms(2), of ?n, simplified]
  have "counts_ok v t (put_flow a ?n m) (c(key_at v m a \<mapsto> (fl_packets ?n, fl_bytes ?n)))"
    by (rule counts_put [OF h(6,4) assms(2) p(4)])
  ultimately show ?thesis using h(1,2) p(1-3) by (auto simp: flows_hold_def)
qed

section \<open>New flows\<close>

lemma getflownode_ok:
  assumes "nodes_ok t m" "fw_nflows t < fw_maxflows t"
  shows "\<exists>a m1. getflownode True t m = ((0, Some a), t\<lparr>fw_nflows := fw_nflows t + 1\<rparr>, m1) \<and>
    distinct (a # fw_flows t @ fm_freelist m1) \<and> (\<forall>b \<in> insert a (set (fw_flows t) \<union> set (fm_freelist m1)). fm_node m1 b \<noteq> None \<and> b < fm_fresh m1) \<and>
    (\<forall>b \<in> set (fw_flows t). fm_node m1 b = fm_node m b)"
proof (cases "fm_freelist m")
  case Nil
  have "fm_fresh m \<notin> set (fw_flows t)" using assms(1) by (auto simp: nodes_ok_def)
  then show ?thesis using assms Nil by (auto simp: getflownode_def nodes_ok_def less_Suc_eq)
next
  case (Cons a rest)
  then show ?thesis using assms by (auto simp: getflownode_def nodes_ok_def)
qed

definition with_new :: "nat \<Rightarrow> nat \<Rightarrow> ipflow \<Rightarrow> ipflow" where
  "with_new a hash t = t\<lparr>fw_nflows := fw_nflows t + 1, fw_hashtab := (fw_hashtab t)(hash := a # fw_hashtab t hash), fw_nhashes := fw_nhashes t + 1,
     fw_nextflowid := next_flowid (fw_nextflowid t), fw_flows := a # fw_flows t\<rparr>"

lemma with_new_simps [simp]:
  "fw_flows (with_new a h t) = a # fw_flows t" "fw_hashtab (with_new a h t) = (fw_hashtab t)(h := a # fw_hashtab t h)"
  "fw_nflows (with_new a h t) = fw_nflows t + 1" "fw_hashsize (with_new a h t) = fw_hashsize t" "fw_biflows (with_new a h t) = fw_biflows t"
  "fw_maxflows (with_new a h t) = fw_maxflows t"
  by (simp_all add: with_new_def)

lemma inserted:
  assumes "nodes_ok t m" "chains_ok v t m" "ie_version e = v"
    and "distinct (a # fw_flows t @ fm_freelist m1)"
    and "\<forall>b \<in> insert a (set (fw_flows t) \<union> set (fm_freelist m1)). fm_node m1 b \<noteq> None \<and> b < fm_fresh m1"
    and "\<forall>b \<in> set (fw_flows t). fm_node m1 b = fm_node m b" "\<forall>b \<in> set (fw_flows t). key_at v m b \<noteq> flow_key (key_len v) e"
    and "fl_hash n = flow_calchash t e" "flow_key (key_len v) (fl_elems n) = flow_key (key_len v) e" "ie_version (fl_elems n) = v"
  shows "nodes_ok (with_new a (flow_calchash t e) t) (put_flow a n m1)" "chains_ok v (with_new a (flow_calchash t e) t) (put_flow a n m1)"
    "\<forall>b \<in> set (fw_flows t). node_at (put_flow a n m1) b = node_at m b" "key_at v (put_flow a n m1) a = flow_key (key_len v) e"
proof -
  have na: "a \<notin> set (fw_flows t)" using assms(4) by simp
  show nb: "\<forall>b \<in> set (fw_flows t). node_at (put_flow a n m1) b = node_at m b"
    using assms(6) na by (auto simp: node_at_def put_flow_def)
  show ka: "key_at v (put_flow a n m1) a = flow_key (key_len v) e" using assms(9) by (simp add: key_at_def)
  have kb: "\<forall>b \<in> set (fw_flows t). key_at v (put_flow a n m1) b = key_at v m b" using nb by (simp add: key_at_def)
  show "nodes_ok (with_new a (flow_calchash t e) t) (put_flow a n m1)"
    using assms(1,4,5) by (auto simp: nodes_ok_def)
  have hash: "flow_calchash (with_new a (flow_calchash t e) t) x = flow_calchash t x" for x by (rule calchash_size) simp
  have he: "flow_calchash t (fl_elems n) = flow_calchash t e" by (rule calchash_key [OF assms(9,10,3)])
  have inj: "inj_on (key_at v (put_flow a n m1)) (set (a # fw_flows t))"
    using assms(2,7) ka kb unfolding chains_ok_def inj_on_def by (metis set_ConsD)
  have "distinct ((fw_hashtab (with_new a (flow_calchash t e) t)) h) \<and> set (fw_hashtab (with_new a (flow_calchash t e) t) h) =
      {x \<in> set (a # fw_flows t). fl_hash (node_at (put_flow a n m1) x) = h}" for h
    using assms(2,8) na nb by (auto simp: chains_ok_def)
  moreover have "fl_hash (node_at (put_flow a n m1) x) = flow_calchash t (fl_elems (node_at (put_flow a n m1) x)) \<and>
      ie_version (fl_elems (node_at (put_flow a n m1) x)) = v" if "x \<in> set (a # fw_flows t)" for x
    using that assms(2,8,10) he nb na by (auto simp: chains_ok_def)
  ultimately show "chains_ok v (with_new a (flow_calchash t e) t) (put_flow a n m1)"
    using inj unfolding chains_ok_def hash by simp
qed

text \<open>The two nodes of opposite directions refer to each other.\<close>

definition set_reverse :: "nat \<Rightarrow> nat \<Rightarrow> flow_mem \<Rightarrow> flow_mem" where
  "set_reverse a b m = put_flow a ((node_at m a)\<lparr>fl_rflow := Some b, fl_iflow := False\<rparr>) (put_flow b ((node_at m b)\<lparr>fl_rflow := Some a\<rparr>) m)"

lemma link_reverse_none:
  "\<forall>b \<in> set bs. fm_node m b \<noteq> None \<and> \<not> same_flow (fl_elems (node_at m b)) relems \<Longrightarrow> link_reverse a relems bs m = Returned m"
  by (induction bs) (auto simp: with_flow_def node_at_def)

lemma link_reverse_one:
  assumes "b \<in> set bs" "distinct bs" "a \<noteq> b" "fm_node m a \<noteq> None"
    and "\<forall>x \<in> set bs. fm_node m x \<noteq> None \<and> (same_flow (fl_elems (node_at m x)) relems \<longleftrightarrow> x = b)"
  shows "link_reverse a relems bs m = Returned (set_reverse a b m)"
  using assms
proof (induction bs)
  case (Cons x bs)
  show ?case
  proof (cases "x = b")
    case True
    let ?k = "(node_at m b)\<lparr>fl_rflow := Some a\<rparr>"
    let ?m = "put_flow a ((node_at (put_flow b ?k m) a)\<lparr>fl_rflow := Some b, fl_iflow := False\<rparr>) (put_flow b ?k m)"
    have e: "fl_elems (node_at ?m y) = fl_elems (node_at m y)" for y using Cons.prems(3) by simp
    have "link_reverse a relems bs ?m = Returned ?m"
      by (rule link_reverse_none) (use Cons.prems True in \<open>auto simp: put_flow_def node_at_def\<close>)
    moreover have "?m = set_reverse a b m" using Cons.prems(3) by (simp add: set_reverse_def)
    moreover have "fm_node m b = Some (node_at m b)" "fm_node m a = Some (node_at m a)" using Cons.prems(4,5) True by (auto simp: node_at_def)
    ultimately show ?thesis using Cons.prems(3,5) True by (simp add: with_flow_def Let_def)
  next
    case False
    then have "fm_node m x = Some (node_at m x)" "\<not> same_flow (fl_elems (node_at m x)) relems" using Cons.prems(5) by (auto simp: node_at_def)
    then show ?thesis using Cons False by (simp add: with_flow_def)
  qed
qed simp

lemma reverse_found:
  assumes "nodes_ok t m" "chains_ok v t m" "ie_version e = v" "a \<in> set (fw_flows t)" "key_at v m a = flow_key (key_len v) e"
    and "key_at v m a \<noteq> reverse_key (key_at v m a)"
  shows "link_reverse a (reverse_elems e) (fw_hashtab t (flow_calchash t (reverse_elems e))) m =
    Returned (if \<exists>b \<in> set (fw_flows t). key_at v m b = reverse_key (key_at v m a)
      then set_reverse a (THE b. b \<in> set (fw_flows t) \<and> key_at v m b = reverse_key (key_at v m a)) m else m)"
proof -
  let ?r = "reverse_elems e" let ?bs = "fw_hashtab t (flow_calchash t ?r)" let ?k = "reverse_key (key_at v m a)"
  have rv: "ie_version ?r = v" using assms(3) by (simp add: reverse_elems_def)
  have rk: "flow_key (key_len v) ?r = ?k" by (simp add: reverse_elems_key assms(5))
  have s: "same_flow (fl_elems (node_at m x)) ?r \<longleftrightarrow> key_at v m x = ?k" for x
    unfolding same_flow_key addr_len_version rv rk by (simp add: key_at_def)
  have nodes: "\<forall>x \<in> set ?bs. fm_node m x \<noteq> None"
    using node_some [OF assms(1)] chain_flows [OF assms(2), of "flow_calchash t ?r"] by fastforce
  show ?thesis
  proof (cases "\<exists>b \<in> set (fw_flows t). key_at v m b = ?k")
    case True
    then obtain b where b: "b \<in> set (fw_flows t)" "key_at v m b = ?k" by blast
    have inj: "inj_on (key_at v m) (set (fw_flows t))" using assms(2) by (simp add: chains_ok_def)
    have u: "x = b" if "x \<in> set (fw_flows t)" "key_at v m x = ?k" for x using inj b that by (auto simp: inj_on_def)
    then have the: "(THE b. b \<in> set (fw_flows t) \<and> key_at v m b = ?k) = b" using b by blast
    have "fl_hash (node_at m b) = flow_calchash t ?r"
      using assms(2) b rv rk calchash_key [of v "fl_elems (node_at m b)" ?r t] by (simp add: chains_ok_def key_at_def)
    then have "b \<in> set ?bs" using assms(2) b(1) by (simp add: chains_ok_def)
    moreover have "distinct ?bs" using assms(2) by (simp add: chains_ok_def)
    moreover have "a \<noteq> b" using assms(6) b(2) by auto
    moreover have "fm_node m a \<noteq> None" using node_some [OF assms(1,4)] by simp
    moreover have "\<forall>x \<in> set ?bs. fm_node m x \<noteq> None \<and> (same_flow (fl_elems (node_at m x)) ?r \<longleftrightarrow> x = b)"
      using nodes u b(2) chain_flows [OF assms(2), of "flow_calchash t ?r"] unfolding s by blast
    ultimately have "link_reverse a ?r ?bs m = Returned (set_reverse a b m)" by (rule link_reverse_one)
    then show ?thesis using True the by simp
  next
    case False
    then have "link_reverse a ?r ?bs m = Returned m"
      using nodes chain_flows [OF assms(2), of "flow_calchash t ?r"] by (intro link_reverse_none) (auto simp: s)
    then show ?thesis using False by (simp only: if_False)
  qed
qed

lemma set_reverse_node:
  assumes "a \<noteq> b"
  shows "node_at (set_reverse a b m) x = (if x = a then (node_at m a)\<lparr>fl_rflow := Some b, fl_iflow := False\<rparr>
    else if x = b then (node_at m b)\<lparr>fl_rflow := Some a\<rparr> else node_at m x)"
  using assms by (simp add: set_reverse_def)

lemma set_reverse_keeps:
  assumes "a \<noteq> b" "nodes_ok t m" "chains_ok v t m" "a \<in> set (fw_flows t)" "b \<in> set (fw_flows t)"
  shows "nodes_ok t (set_reverse a b m)" "chains_ok v t (set_reverse a b m)" "key_at v (set_reverse a b m) = key_at v m"
proof -
  have h: "fl_hash (node_at (set_reverse a b m) x) = fl_hash (node_at m x)" "fl_elems (node_at (set_reverse a b m) x) = fl_elems (node_at m x)" for x
    by (simp_all add: set_reverse_node [OF assms(1)])
  show k: "key_at v (set_reverse a b m) = key_at v m" by (rule ext) (simp add: key_at_def h)
  show "nodes_ok t (set_reverse a b m)" using assms(2) by (auto simp: nodes_ok_def set_reverse_def)
  show "chains_ok v t (set_reverse a b m)" using assms(3) unfolding chains_ok_def k h .
qed

text \<open>The reverse flows after a new flow was linked, or had none to be linked with.\<close>

lemma reverse_linked:
  assumes "chains_ok v t m" "a \<in> set (fw_flows t)" "b \<in> set (fw_flows t)" "key_at v m b = reverse_key (key_at v m a)"
    and "key_at v m a \<noteq> reverse_key (key_at v m a)"
    and old: "\<forall>x \<in> set (fw_flows t) - {a}. key_at v m x \<noteq> reverse_key (key_at v m x) \<and>
      (\<forall>y. fl_rflow (node_at m x) = Some y \<longleftrightarrow> y \<in> set (fw_flows t) - {a} \<and> key_at v m y = reverse_key (key_at v m x))"
  shows "reverse_ok v t (set_reverse a b m)"
proof -
  have ab: "a \<noteq> b" using assms(4,5) by auto
  have k: "key_at v (set_reverse a b m) = key_at v m"
    by (rule ext) (simp add: key_at_def set_reverse_node [OF ab])
  have inj: "x = y" if "x \<in> set (fw_flows t)" "y \<in> set (fw_flows t)" "key_at v m x = key_at v m y" for x y
    using assms(1) that by (auto simp: chains_ok_def inj_on_def)
  have kb: "key_at v m x = reverse_key (key_at v m b) \<longleftrightarrow> key_at v m x = key_at v m a" for x using assms(4) by simp
  have "key_at v m x \<noteq> reverse_key (key_at v m x) \<and>
     (\<forall>y. fl_rflow (node_at (set_reverse a b m) x) = Some y \<longleftrightarrow> y \<in> set (fw_flows t) \<and> key_at v m y = reverse_key (key_at v m x))"
    if x: "x \<in> set (fw_flows t)" for x
  proof -
    consider "x = a" | "x = b" | "x \<noteq> a" "x \<noteq> b" by blast
    then show ?thesis
    proof cases
      case 1
      then show ?thesis using assms(3-5) inj by (auto simp: set_reverse_node [OF ab])
    next
      case 2
      then show ?thesis using assms(2,4) old ab inj x unfolding kb by (auto simp: set_reverse_node [OF ab])
    next
      case 3
      have "key_at v m a \<noteq> reverse_key (key_at v m x)"
      proof
        assume "key_at v m a = reverse_key (key_at v m x)"
        then have "key_at v m x = key_at v m b" using assms(4) by simp
        then show False using inj [OF x assms(3)] 3 by simp
      qed
      then show ?thesis using 3 old x by (auto simp: set_reverse_node [OF ab])
    qed
  qed
  then show ?thesis unfolding reverse_ok_def k by blast
qed

lemma reverse_unlinked:
  assumes "a \<in> set (fw_flows t)" "\<not> (\<exists>b \<in> set (fw_flows t). key_at v m b = reverse_key (key_at v m a))" "fl_rflow (node_at m a) = None"
    and old: "\<forall>x \<in> set (fw_flows t) - {a}. key_at v m x \<noteq> reverse_key (key_at v m x) \<and>
      (\<forall>y. fl_rflow (node_at m x) = Some y \<longleftrightarrow> y \<in> set (fw_flows t) - {a} \<and> key_at v m y = reverse_key (key_at v m x))"
  shows "reverse_ok v t m"
proof -
  have n: "key_at v m a \<noteq> reverse_key (key_at v m x)" if "x \<in> set (fw_flows t)" for x
    using assms(2) that by (metis reverse_key_reverse)
  have "key_at v m x \<noteq> reverse_key (key_at v m x) \<and>
     (\<forall>y. fl_rflow (node_at m x) = Some y \<longleftrightarrow> y \<in> set (fw_flows t) \<and> key_at v m y = reverse_key (key_at v m x))"
    if x: "x \<in> set (fw_flows t)" for x
  proof (cases "x = a")
    case True
    then show ?thesis using assms(2,3) n [OF x] by auto
  next
    case False
    then have "key_at v m x \<noteq> reverse_key (key_at v m x)"
      "fl_rflow (node_at m x) = Some y \<longleftrightarrow> y \<in> set (fw_flows t) - {a} \<and> key_at v m y = reverse_key (key_at v m x)" for y
      using old x by blast+
    then show ?thesis using n [OF x] by auto
  qed
  then show ?thesis unfolding reverse_ok_def by blast
qed

definition new_node :: "ipflow \<Rightarrow> ipflow_elems \<Rightarrow> int \<times> int \<Rightarrow> ipflowinfo \<Rightarrow> ipflowinfo" where
  "new_node t e tv n = n\<lparr>fl_hash := flow_calchash t e, fl_tstart := tv, fl_packets := 0, fl_bytes := 0, fl_exported := 0,
     fl_ipfrag := (fl_ipfrag n)\<lparr>fg_ipid := 0\<rparr>, fl_flowid := next_flowid (fw_nextflowid t), fl_elems := new_elems e (fl_elems n)\<rparr>"

lemma new_flow_steps:
  assumes "fm_node m1 a = Some n"
  shows "new_flow a (flow_calchash t e) e tv (t\<lparr>fw_nflows := fw_nflows t + 1\<rparr>, m1) =
    (let t2 = with_new a (flow_calchash t e) t in
     if fw_biflows t then
       let m2 = put_flow a ((new_node t e tv n)\<lparr>fl_rflow := None, fl_iflow := True\<rparr>) m1 in
       proc_map (Pair t2) (link_reverse a (reverse_elems e) (fw_hashtab t2 (flow_calchash t2 (reverse_elems e))) m2)
     else Returned (t2, put_flow a (new_node t e tv n) m1))"
  by (simp add: new_flow_def with_flow_def assms Let_def with_new_def new_node_def)

lemma counts_new:
  assumes "counts_ok v t m c" "fw_flows t2 = a # fw_flows t" "key_at v m2 a = k" "k \<notin> dom c"
    and "\<forall>b \<in> set (fw_flows t). key_at v m2 b = key_at v m b \<and> fl_packets (node_at m2 b) = fl_packets (node_at m b) \<and>
      fl_bytes (node_at m2 b) = fl_bytes (node_at m b)"
    and "fl_packets (node_at m2 a) = 0" "fl_bytes (node_at m2 a) = 0"
  shows "counts_ok v t2 m2 (c(k \<mapsto> (0, 0)))"
proof -
  have "dom (c(k \<mapsto> (0, 0))) = key_at v m2 ` set (fw_flows t2)"
    using assms(1,2,3,5) by (auto simp: counts_ok_def)
  moreover have "(c(k \<mapsto> (0, 0))) (key_at v m2 b) = Some (fl_packets (node_at m2 b), fl_bytes (node_at m2 b))"
    if "b \<in> set (fw_flows t2)" for b
  proof (cases "b = a")
    case False
    then have b: "b \<in> set (fw_flows t)" using that assms(2) by simp
    then have "key_at v m2 b \<noteq> k" using assms(1,4,5) by (auto simp: counts_ok_def)
    then show ?thesis using assms(1,5) b by (simp add: counts_ok_def)
  qed (use assms(3,6,7) in simp)
  ultimately show ?thesis unfolding counts_ok_def by blast
qed

text \<open>A new flow is linked to its reverse flow, if that is there.\<close>

lemma reverse_added:
  assumes "nodes_ok t2 m2" "chains_ok v t2 m2" "ie_version e = v" "fw_flows t2 = a # fs" "key_at v m2 a = flow_key (key_len v) e"
    and "key_at v m2 a \<noteq> reverse_key (key_at v m2 a)" "fl_rflow (node_at m2 a) = None" "a \<notin> set fs"
    and old: "\<forall>x \<in> set fs. key_at v m2 x \<noteq> reverse_key (key_at v m2 x) \<and>
      (\<forall>y. fl_rflow (node_at m2 x) = Some y \<longleftrightarrow> y \<in> set fs \<and> key_at v m2 y = reverse_key (key_at v m2 x))"
  shows "\<exists>m3. link_reverse a (reverse_elems e) (fw_hashtab t2 (flow_calchash t2 (reverse_elems e))) m2 = Returned m3 \<and>
    nodes_ok t2 m3 \<and> chains_ok v t2 m3 \<and> reverse_ok v t2 m3 \<and> key_at v m3 = key_at v m2 \<and>
    (\<forall>x. fl_packets (node_at m3 x) = fl_packets (node_at m2 x) \<and> fl_bytes (node_at m3 x) = fl_bytes (node_at m2 x))"
proof -
  have a: "a \<in> set (fw_flows t2)" and d: "set (fw_flows t2) - {a} = set fs" using assms(4,8) by auto
  note r = reverse_found [OF assms(1-3) a assms(5,6)]
  show ?thesis
  proof (cases "\<exists>b \<in> set (fw_flows t2). key_at v m2 b = reverse_key (key_at v m2 a)")
    case True
    then obtain b where b: "b \<in> set (fw_flows t2)" "key_at v m2 b = reverse_key (key_at v m2 a)" by blast
    have "x = b" if "x \<in> set (fw_flows t2) \<and> key_at v m2 x = reverse_key (key_at v m2 a)" for x
      using assms(2) b that by (auto simp: chains_ok_def inj_on_def)
    then have "(THE x. x \<in> set (fw_flows t2) \<and> key_at v m2 x = reverse_key (key_at v m2 a)) = b" using b by blast
    then have l: "link_reverse a (reverse_elems e) (fw_hashtab t2 (flow_calchash t2 (reverse_elems e))) m2 = Returned (set_reverse a b m2)"
      using r True by simp
    have ab: "a \<noteq> b" using b(2) assms(6) by auto
    show ?thesis
      using l set_reverse_keeps [OF ab assms(1,2) a b(1)] reverse_linked [OF assms(2) a b assms(6)] old
      by (intro exI [of _ "set_reverse a b m2"]) (simp add: d set_reverse_node [OF ab])
  next
    case False
    show ?thesis
      using r False reverse_unlinked [OF a False assms(7)] old assms(1,2) by (intro exI [of _ m2]) (simp add: d)
  qed
qed

lemma new_flow_holds:
  assumes h: "flows_hold v mx bi (t, m) c" and e: "ie_version e = v" "length (ie_saddr e) = addr_len e" "length (ie_daddr e) = addr_len e"
    and k: "k = flow_key (key_len v) e" "k \<notin> dom c" "bi \<longrightarrow> k \<noteq> reverse_key k" and g: "fw_nflows t < mx"
  shows "\<exists>a t1 m1 t2 m2. getflownode True t m = ((0, Some a), t1, m1) \<and> new_flow a (flow_calchash t e) e tv (t1, m1) = Returned (t2, m2) \<and>
    flows_hold v mx bi (t2, m2) (c(k \<mapsto> (0, 0))) \<and> a \<in> set (fw_flows t2) \<and> key_at v m2 a = k"
proof -
  have hs: "fw_maxflows t = mx" "fw_biflows t = bi" "nodes_ok t m" "chains_ok v t m" "reverse_ok v t m" "counts_ok v t m c"
    using h by (simp_all add: flows_hold_def)
  obtain a m1 where a: "getflownode True t m = ((0, Some a), t\<lparr>fw_nflows := fw_nflows t + 1\<rparr>, m1)"
    "distinct (a # fw_flows t @ fm_freelist m1)"
    "\<forall>b \<in> insert a (set (fw_flows t) \<union> set (fm_freelist m1)). fm_node m1 b \<noteq> None \<and> b < fm_fresh m1"
    "\<forall>b \<in> set (fw_flows t). fm_node m1 b = fm_node m b"
    using getflownode_ok [OF hs(3)] g hs(1) by blast
  obtain n where n: "fm_node m1 a = Some n" using a(3) by blast
  have na: "a \<notin> set (fw_flows t)" using a(2) by simp
  have old_keys: "\<forall>b \<in> set (fw_flows t). key_at v m b \<noteq> flow_key (key_len v) e"
    using hs(6) k(1,2) by (auto simp: counts_ok_def image_iff)
  let ?t = "with_new a (flow_calchash t e) t"
  define n2 where "n2 = (if bi then (new_node t e tv n)\<lparr>fl_rflow := None, fl_iflow := True\<rparr> else new_node t e tv n)"
  have n2: "fl_hash n2 = flow_calchash t e" "flow_key (key_len v) (fl_elems n2) = flow_key (key_len v) e" "ie_version (fl_elems n2) = v"
      "fl_packets n2 = 0" "fl_bytes n2 = 0" "bi \<longrightarrow> fl_rflow n2 = None"
    using e new_elems_key [OF e(2,3)] by (simp_all add: n2_def new_node_def addr_len_version) (simp_all add: new_elems_def)
  let ?m = "put_flow a n2 m1"
  note i = inserted [OF hs(3,4) e(1) a(2-4) old_keys n2(1-3)]
  have ka: "key_at v ?m a = k" using i(4) k(1) by simp
  have kb: "\<forall>b \<in> set (fw_flows t). key_at v ?m b = key_at v m b" using i(3) by (simp add: key_at_def)
  have cn: "counts_ok v ?t ?m (c(k \<mapsto> (0, 0)))"
    by (rule counts_new [OF hs(6) _ ka k(2)]) (use kb i(3) n2(4,5) in simp_all)
  show ?thesis
  proof (cases bi)
    case False
    then have "new_flow a (flow_calchash t e) e tv (t\<lparr>fw_nflows := fw_nflows t + 1\<rparr>, m1) = Returned (?t, ?m)"
      using new_flow_steps [OF n, of t e tv] hs(2) by (simp add: n2_def)
    moreover have "flows_hold v mx bi (?t, ?m) (c(k \<mapsto> (0, 0)))"
      using i(1,2) cn hs(1,2) False by (simp add: flows_hold_def reverse_ok_def)
    ultimately show ?thesis using a(1) ka by auto
  next
    case True
    have old: "\<forall>x \<in> set (fw_flows t). key_at v ?m x \<noteq> reverse_key (key_at v ?m x) \<and>
      (\<forall>y. fl_rflow (node_at ?m x) = Some y \<longleftrightarrow> y \<in> set (fw_flows t) \<and> key_at v ?m y = reverse_key (key_at v ?m x))"
    proof
      fix x assume x: "x \<in> set (fw_flows t)"
      have "key_at v m x \<noteq> reverse_key (key_at v m x)"
        "\<forall>y. fl_rflow (node_at m x) = Some y \<longleftrightarrow> y \<in> set (fw_flows t) \<and> key_at v m y = reverse_key (key_at v m x)"
        using hs(2,5) True x unfolding reverse_ok_def by blast+
      moreover have "key_at v ?m x = key_at v m x" "node_at ?m x = node_at m x" using kb i(3) x by blast+
      ultimately show "key_at v ?m x \<noteq> reverse_key (key_at v ?m x) \<and>
        (\<forall>y. fl_rflow (node_at ?m x) = Some y \<longleftrightarrow> y \<in> set (fw_flows t) \<and> key_at v ?m y = reverse_key (key_at v ?m x))"
        using kb by auto
    qed
    have kk: "key_at v ?m a \<noteq> reverse_key (key_at v ?m a)" using ka k(3) True by simp
    have rn: "fl_rflow (node_at ?m a) = None" using n2(6) True by simp
    have fs: "fw_flows ?t = a # fw_flows t" by simp
    obtain m3 where m3: "link_reverse a (reverse_elems e) (fw_hashtab ?t (flow_calchash ?t (reverse_elems e))) ?m = Returned m3"
      "nodes_ok ?t m3" "chains_ok v ?t m3" "reverse_ok v ?t m3" "key_at v m3 = key_at v ?m"
      "\<forall>x. fl_packets (node_at m3 x) = fl_packets (node_at ?m x) \<and> fl_bytes (node_at m3 x) = fl_bytes (node_at ?m x)"
      using reverse_added [OF i(1,2) e(1) fs i(4) kk rn na old] by blast
    have "new_flow a (flow_calchash t e) e tv (t\<lparr>fw_nflows := fw_nflows t + 1\<rparr>, m1) = Returned (?t, m3)"
      using new_flow_steps [OF n, of t e tv] hs(2) True m3(1) by (simp add: n2_def Let_def)
    moreover have "counts_ok v ?t m3 (c(k \<mapsto> (0, 0)))" using cn m3(5,6) unfolding counts_ok_def by simp
    then have "flows_hold v mx bi (?t, m3) (c(k \<mapsto> (0, 0)))"
      using m3(2-4) hs(1,2) by (simp add: flows_hold_def)
    ultimately show ?thesis using a(1) ka m3(5) by auto
  qed
qed

section \<open>Packets\<close>

lemma counts_card:
  assumes "nodes_ok t m" "chains_ok v t m" "counts_ok v t m c"
  shows "fw_nflows t = int (card (dom c))"
proof -
  have "card (key_at v m ` set (fw_flows t)) = length (fw_flows t)"
    using assms(1,2) by (simp add: card_image chains_ok_def nodes_ok_def distinct_card)
  then show ?thesis using assms(1,3) by (simp add: nodes_ok_def counts_ok_def)
qed

lemma packet_counted:
  assumes h: "flows_hold v mx bi (t, m) c" and al: "flow_allowed v bi (Count_packet want fuel e tv nbytes) c"
  shows "\<exists>s'. call_flow v (Count_packet want fuel e tv nbytes) (t, m) = Returned (fst (spec_flow v mx bi (Count_packet want fuel e tv nbytes) c), s')
    \<and> flows_hold v mx bi s' (snd (spec_flow v mx bi (Count_packet want fuel e tv nbytes) c))"
proof -
  have hs: "fw_maxflows t = mx" "nodes_ok t m" "chains_ok v t m" "counts_ok v t m c"
    using h by (simp_all add: flows_hold_def)
  have e: "want" "ie_version e = v" "ie_frag_off e = 0" "length (ie_saddr e) = addr_len e" "length (ie_daddr e) = addr_len e"
    using al by simp_all
  define k where "k = flow_key (key_len v) e"
  have k: "flow_key (addr_len e) e = k" using e(2) by (simp add: k_def addr_len_version)
  have kr: "bi \<longrightarrow> k \<noteq> reverse_key k" using al by (simp add: k)
  have dom: "k \<in> dom c \<longleftrightarrow> (\<exists>a \<in> set (fw_flows t). key_at v m a = k)" using hs(4) by (auto simp: counts_ok_def)
  have inj: "inj_on (key_at v m) (set (fw_flows t))" using hs(3) by (simp add: chains_ok_def)
  note l = lookup [OF hs(2,3) e(2), folded k_def]
  have nofrag: "ie_frag_off e AND 0x3FFF \<noteq> 0x2000" using e(3) by simp
  show ?thesis
  proof (cases "k \<in> dom c")
    case True
    then obtain a where a: "a \<in> set (fw_flows t)" "key_at v m a = k" using dom by blast
    have "(THE a. a \<in> set (fw_flows t) \<and> key_at v m a = k) = a" using inj a by (auto simp: inj_on_def)
    then have "find_flow m e (fw_hashtab t (flow_calchash t e)) = Returned (Some a)" using l a by auto
    moreover obtain m' p b where "count_packet a tv nbytes m = Returned m'" "c k = Some (p, b)"
        "flows_hold v mx bi (t, m') (c(k \<mapsto> (wrap32 (p + 1), wrap32 (b + int nbytes))))"
      using count_known [OF h a(1), of tv nbytes] a(2) by auto
    ultimately show ?thesis using e(3) by (simp add: flow_update_def flow_of_packet_def k Let_def)
  next
    case False
    then have f: "find_flow m e (fw_hashtab t (flow_calchash t e)) = Returned None" using l dom by auto
    have ck: "c k = None" using False by auto
    have nf: "fw_nflows t = int (card (dom c))" by (rule counts_card [OF hs(2-4)])
    show ?thesis
    proof (cases "int (card (dom c)) < mx")
      case True
      then obtain a t1 m1 t2 m2 where a: "getflownode True t m = ((0, Some a), t1, m1)"
          "new_flow a (flow_calchash t e) e tv (t1, m1) = Returned (t2, m2)"
          "flows_hold v mx bi (t2, m2) (c(k \<mapsto> (0, 0)))" "a \<in> set (fw_flows t2)" "key_at v m2 a = k"
        using new_flow_holds [OF h e(2,4,5) k_def False kr, of tv] nf by (simp only:) blast
      obtain m' where "count_packet a tv nbytes m2 = Returned m'"
          "flows_hold v mx bi (t2, m') (c(k \<mapsto> (wrap32 1, wrap32 (int nbytes))))"
        using count_known [OF a(3,4), of tv nbytes] a(5) by auto
      then show ?thesis using True f a(1,2) e(3) ck by (simp add: flow_update_def flow_of_packet_def k Let_def)
    next
      case False
      then have "getflownode True t m = ((0, None), t, m)" using nf hs(1) by (simp add: getflownode_def)
      then show ?thesis using False f e(1,3) ck h by (simp add: flow_update_def flow_of_packet_def k Let_def)
    qed
  qed
qed

section \<open>Drops\<close>

definition without_flow :: "nat \<Rightarrow> nat \<Rightarrow> ipflow \<Rightarrow> ipflow" where
  "without_flow a h t = t\<lparr>fw_flows := remove1 a (fw_flows t), fw_hashtab := (fw_hashtab t)(h := remove1 a (fw_hashtab t h)),
     fw_nhashes := fw_nhashes t - 1, fw_nflows := fw_nflows t - 1\<rparr>"

definition freed_flow :: "nat \<Rightarrow> flow_mem \<Rightarrow> flow_mem" where
  "freed_flow a m = (if fl_reuse (node_at m a) then m\<lparr>fm_freelist := a # fm_freelist m\<rparr> else m\<lparr>fm_node := (fm_node m)(a := None)\<rparr>)
     \<lparr>fm_usedflows := fm_usedflows m - 1\<rparr>"

lemma freed_node: "x \<noteq> a \<Longrightarrow> fm_node (freed_flow a m) x = fm_node m x" "x \<noteq> a \<Longrightarrow> node_at (freed_flow a m) x = node_at m x"
  by (simp_all add: freed_flow_def node_at_def)

lemma without_flow_simps [simp]:
  "fw_flows (without_flow a h t) = remove1 a (fw_flows t)" "fw_hashtab (without_flow a h t) = (fw_hashtab t)(h := remove1 a (fw_hashtab t h))"
  "fw_nflows (without_flow a h t) = fw_nflows t - 1" "fw_hashsize (without_flow a h t) = fw_hashsize t" "fw_biflows (without_flow a h t) = fw_biflows t"
  "fw_maxflows (without_flow a h t) = fw_maxflows t"
  by (simp_all add: without_flow_def)

lemma freed_nodes_ok:
  assumes "nodes_ok t m" "a \<in> set (fw_flows t)"
  shows "nodes_ok (without_flow a h t) (freed_flow a m)"
proof -
  have "distinct (fw_flows t)" "a \<notin> set (fm_freelist m)" using assms by (auto simp: nodes_ok_def)
  moreover obtain k where "length (fw_flows t) = Suc k" using assms(2) by (cases "fw_flows t") auto
  ultimately show ?thesis
    using assms by (auto simp: nodes_ok_def freed_flow_def length_remove1 dest: notin_set_remove1)
qed

lemma freed_chains_ok:
  assumes "nodes_ok t m" "chains_ok v t m" "a \<in> set (fw_flows t)"
  shows "chains_ok v (without_flow a (fl_hash (node_at m a)) t) (freed_flow a m)"
    "\<forall>x \<in> set (fw_flows t) - {a}. key_at v (freed_flow a m) x = key_at v m x"
proof -
  let ?m = "freed_flow a m" let ?t = "without_flow a (fl_hash (node_at m a)) t"
  have s: "set (remove1 a (fw_flows t)) = set (fw_flows t) - {a}" using assms(1) by (auto simp: nodes_ok_def)
  have n: "\<forall>x \<in> set (fw_flows t) - {a}. node_at ?m x = node_at m x" by (auto intro: freed_node(2))
  then show k: "\<forall>x \<in> set (fw_flows t) - {a}. key_at v ?m x = key_at v m x" by (simp add: key_at_def)
  have hash: "flow_calchash ?t x = flow_calchash t x" for x by (rule calchash_size) simp
  have inj: "inj_on (key_at v ?m) (set (fw_flows t) - {a})"
    using assms(2) k by (auto simp: chains_ok_def inj_on_def)
  have ch: "distinct (fw_hashtab t h) \<and> set (fw_hashtab t h) = {x \<in> set (fw_flows t). fl_hash (node_at m x) = h}" for h
    using assms(2) by (simp add: chains_ok_def)
  have "distinct (fw_hashtab ?t h) \<and> set (fw_hashtab ?t h) = {x \<in> set (fw_flows t) - {a}. fl_hash (node_at ?m x) = h}" for h
  proof (cases "h = fl_hash (node_at m a)")
    case True
    then have "set (fw_hashtab ?t h) = {x \<in> set (fw_flows t). fl_hash (node_at m x) = h} - {a}" using ch [of h] by simp
    also have "\<dots> = {x \<in> set (fw_flows t) - {a}. fl_hash (node_at ?m x) = h}" using n by auto
    finally show ?thesis using ch [of h] True by simp
  next
    case False
    then have "set (fw_hashtab ?t h) = {x \<in> set (fw_flows t). fl_hash (node_at m x) = h}" using ch [of h] by simp
    also have "\<dots> = {x \<in> set (fw_flows t) - {a}. fl_hash (node_at m x) = h}" using False by auto
    also have "\<dots> = {x \<in> set (fw_flows t) - {a}. fl_hash (node_at ?m x) = h}" using n by auto
    finally show ?thesis using ch [of h] False by simp
  qed
  then show "chains_ok v ?t ?m"
    using assms(2) n inj unfolding chains_ok_def hash by (simp add: s)
qed

definition forget_reverse :: "nat option \<Rightarrow> flow_mem \<Rightarrow> flow_mem" where
  "forget_reverse r m = (case r of None \<Rightarrow> m | Some b \<Rightarrow> put_flow b ((node_at m b)\<lparr>fl_rflow := None\<rparr>) m)"

lemma drop_node_steps:
  assumes "fm_node m a = Some n" "a \<in> set (fw_hashtab t (fl_hash n))"
    and "r = (if fw_biflows t then fl_rflow n else None)" "\<And>b. r = Some b \<Longrightarrow> b \<noteq> a \<and> fm_node m b \<noteq> None"
  shows "drop_node a (t, m) = Returned (r, without_flow a (fl_hash n) t, freed_flow a (forget_reverse r m))"
proof -
  have n: "node_at m a = n" using assms(1) by (simp add: node_at_def)
  have f: "(case r of None \<Rightarrow> Returned m | Some b \<Rightarrow> with_flow m b (\<lambda>k. Returned (put_flow b (k\<lparr>fl_rflow := None\<rparr>) m))) = Returned (forget_reverse r m)"
    using assms(4) by (auto simp: forget_reverse_def with_flow_def node_at_def split: option.splits)
  have a: "fm_node (forget_reverse r m) a = Some n" using assms(1,4) by (auto simp: forget_reverse_def split: option.splits)
  then have "node_at (forget_reverse r m) a = n" by (simp add: node_at_def)
  then have "free_flownode a (forget_reverse r m) = Returned (freed_flow a (forget_reverse r m))"
    using a by (simp add: free_flownode_def with_flow_def freed_flow_def)
  then show ?thesis
    using assms(1,2) f by (simp add: drop_node_def with_flow_def Let_def assms(3) [symmetric] without_flow_def)
qed

lemma forget_reverse_keeps:
  assumes "nodes_ok t m" "chains_ok v t m" "\<And>b. r = Some b \<Longrightarrow> b \<in> set (fw_flows t)"
  shows "nodes_ok t (forget_reverse r m)" "chains_ok v t (forget_reverse r m)" "key_at v (forget_reverse r m) = key_at v m"
    "\<And>x. fl_packets (node_at (forget_reverse r m) x) = fl_packets (node_at m x)" "\<And>x. fl_bytes (node_at (forget_reverse r m) x) = fl_bytes (node_at m x)"
    "\<And>x. fl_rflow (node_at (forget_reverse r m) x) = (if r = Some x then None else fl_rflow (node_at m x))"
proof -
  have h: "fl_hash (node_at (forget_reverse r m) x) = fl_hash (node_at m x)" "fl_elems (node_at (forget_reverse r m) x) = fl_elems (node_at m x)" for x
    by (auto simp: forget_reverse_def split: option.splits)
  show k: "key_at v (forget_reverse r m) = key_at v m" by (rule ext) (simp add: key_at_def h)
  show "nodes_ok t (forget_reverse r m)" using assms(1,3) by (auto simp: nodes_ok_def forget_reverse_def split: option.splits)
  show "chains_ok v t (forget_reverse r m)" using assms(2) unfolding chains_ok_def k h .
  show "fl_packets (node_at (forget_reverse r m) x) = fl_packets (node_at m x)" "fl_bytes (node_at (forget_reverse r m) x) = fl_bytes (node_at m x)"
    "fl_rflow (node_at (forget_reverse r m) x) = (if r = Some x then None else fl_rflow (node_at m x))" for x
    by (auto simp: forget_reverse_def split: option.splits)
qed

lemma drop_node_holds:
  assumes h: "flows_hold v mx bi (t, m) c" and a: "a \<in> set (fw_flows t)" and r: "r = (if bi then fl_rflow (node_at m a) else None)"
  shows "\<exists>t' m'. drop_node a (t, m) = Returned (r, t', m') \<and> flows_hold v mx bi (t', m') (c(key_at v m a := None)) \<and>
    fw_flows t' = remove1 a (fw_flows t) \<and> set (fw_flows t') = set (fw_flows t) - {a} \<and>
    (\<forall>x \<in> set (fw_flows t'). key_at v m' x = key_at v m x)"
proof -
  have hs: "fw_maxflows t = mx" "fw_biflows t = bi" "nodes_ok t m" "chains_ok v t m" "reverse_ok v t m" "counts_ok v t m c"
    using h by (simp_all add: flows_hold_def)
  have inj: "x = y" if "x \<in> set (fw_flows t)" "y \<in> set (fw_flows t)" "key_at v m x = key_at v m y" for x y
    using hs(4) that by (auto simp: chains_ok_def inj_on_def)
  have ri: "bi \<Longrightarrow> x \<in> set (fw_flows t) \<Longrightarrow> key_at v m x \<noteq> reverse_key (key_at v m x) \<and>
    (\<forall>y. fl_rflow (node_at m x) = Some y \<longleftrightarrow> y \<in> set (fw_flows t) \<and> key_at v m y = reverse_key (key_at v m x))" for x
    using hs(2,5) unfolding reverse_ok_def by blast
  have rb: "b \<in> set (fw_flows t) \<and> b \<noteq> a \<and> key_at v m b = reverse_key (key_at v m a)" if "r = Some b" for b
    using ri [of a] a that r by (auto split: if_splits)
  let ?f = "forget_reverse r m" let ?t = "without_flow a (fl_hash (node_at m a)) t" let ?m = "freed_flow a ?f"
  have fk: "nodes_ok t ?f" "chains_ok v t ?f" "key_at v ?f = key_at v m"
    "\<And>x. fl_packets (node_at ?f x) = fl_packets (node_at m x)" "\<And>x. fl_bytes (node_at ?f x) = fl_bytes (node_at m x)"
    "\<And>x. fl_rflow (node_at ?f x) = (if r = Some x then None else fl_rflow (node_at m x))"
    by (rule forget_reverse_keeps [OF hs(3,4)]; use rb in blast)+
  have fa: "node_at ?f a = node_at m a" using rb by (auto simp: forget_reverse_def split: option.splits)
  have s: "set (fw_flows ?t) = set (fw_flows t) - {a}" using hs(3) by (simp add: nodes_ok_def)
  have nm: "x \<noteq> a \<Longrightarrow> node_at ?m x = node_at ?f x" for x by (rule freed_node(2))
  have km: "x \<noteq> a \<Longrightarrow> key_at v ?m x = key_at v m x" for x using fk(3) nm by (simp add: key_at_def fun_eq_iff)
  have "a \<in> set (fw_hashtab t (fl_hash (node_at m a)))" using hs(4) a by (simp add: chains_ok_def)
  then have d: "drop_node a (t, m) = Returned (r, ?t, ?m)"
    using drop_node_steps [OF node_some [OF hs(3) a] _, of t r] rb node_some [OF hs(3)] hs(2) r by auto
  have "nodes_ok ?t ?m" by (rule freed_nodes_ok [OF fk(1) a])
  moreover have "chains_ok v ?t ?m" using freed_chains_ok(1) [OF fk(1,2) a] by (simp add: fa)
  moreover have "counts_ok v ?t ?m (c(key_at v m a := None))"
  proof -
    have "dom (c(key_at v m a := None)) = key_at v m ` (set (fw_flows t) - {a})"
      using hs(6) a inj by (auto simp: counts_ok_def)
    moreover have "key_at v m x \<noteq> key_at v m a" if "x \<in> set (fw_flows t) - {a}" for x using inj a that by blast
    moreover have "key_at v ?m ` (set (fw_flows t) - {a}) = key_at v m ` (set (fw_flows t) - {a})" using km by (intro image_cong) auto
    ultimately show ?thesis using hs(6) km nm fk(4,5) unfolding counts_ok_def s by auto
  qed
  moreover have "reverse_ok v ?t ?m"
    unfolding reverse_ok_def s
  proof (intro impI ballI conjI allI)
    fix x assume b: "fw_biflows ?t" and x: "x \<in> set (fw_flows t) - {a}"
    then have bi: bi using hs(2) by simp
    note rx = ri [OF bi, of x]
    show "key_at v ?m x \<noteq> reverse_key (key_at v ?m x)" using rx x km by simp
    fix y
    have ra: "r = Some x \<longleftrightarrow> key_at v m x = reverse_key (key_at v m a)" using ri [OF bi a] r bi x by auto
    show "fl_rflow (node_at ?m x) = Some y \<longleftrightarrow> y \<in> set (fw_flows t) - {a} \<and> key_at v ?m y = reverse_key (key_at v ?m x)"
    proof (cases "r = Some x")
      case True
      then have "key_at v m y \<noteq> reverse_key (key_at v m x)" if "y \<in> set (fw_flows t) - {a}" for y
        using ra inj [OF _ a, of y] that by auto
      then show ?thesis using True x nm km fk(6) by auto
    next
      case False
      then have na: "key_at v m a \<noteq> reverse_key (key_at v m x)" using ra by (metis reverse_key_reverse)
      have "y \<in> set (fw_flows t) - {a} \<and> key_at v ?m y = reverse_key (key_at v ?m x) \<longleftrightarrow>
          y \<in> set (fw_flows t) - {a} \<and> key_at v m y = reverse_key (key_at v m x)" using km x by auto
      moreover have "fl_rflow (node_at ?m x) = fl_rflow (node_at m x)" using False x nm fk(6) by simp
      ultimately show ?thesis using na rx x by auto
    qed
  qed
  ultimately show ?thesis using d s km hs(1,2) by (auto simp: flows_hold_def)
qed

lemma flow_dropped:
  assumes h: "flows_hold v mx bi (t, m) c" and a: "a \<in> set (fw_flows t)" and k: "key_at v m a = k"
  shows "\<exists>s'. flow_drop a (t, m) = Returned s' \<and> flows_hold v mx bi s' (if bi then c(k := None, reverse_key k := None) else c(k := None))"
proof -
  let ?r = "if bi then fl_rflow (node_at m a) else None"
  obtain t1 m1 where d: "drop_node a (t, m) = Returned (?r, t1, m1)" "flows_hold v mx bi (t1, m1) (c(k := None))"
    "set (fw_flows t1) = set (fw_flows t) - {a}" "\<forall>x \<in> set (fw_flows t1). key_at v m1 x = key_at v m x"
    using drop_node_holds [OF h a refl] k by blast
  have ri: "key_at v m a \<noteq> reverse_key (key_at v m a)"
    "\<forall>y. fl_rflow (node_at m a) = Some y \<longleftrightarrow> y \<in> set (fw_flows t) \<and> key_at v m y = reverse_key (key_at v m a)" if bi
    using h that a unfolding flows_hold_def reverse_ok_def by auto
  have ri1: "\<forall>y. fl_rflow (node_at m1 b) = Some y \<longleftrightarrow> y \<in> set (fw_flows t1) \<and> key_at v m1 y = reverse_key (key_at v m1 b)"
    if bi "b \<in> set (fw_flows t1)" for b
    using d(2) that unfolding flows_hold_def reverse_ok_def by auto
  show ?thesis
  proof (cases ?r)
    case None
    have "reverse_key k \<notin> dom c" if bi
      using None ri [OF that] h that k by (auto simp: flows_hold_def counts_ok_def)
    then have "(if bi then c(k := None, reverse_key k := None) else c(k := None)) = c(k := None)" by (auto simp: fun_eq_iff)
    then show ?thesis using d(1,2) None by (simp add: flow_drop_def)
  next
    case (Some b)
    then have bi: bi by (simp split: if_splits)
    then have b: "b \<in> set (fw_flows t)" "key_at v m b = reverse_key k" using ri(2) Some k by auto
    then have "b \<noteq> a" using ri(1) [OF bi] k by auto
    then have b1: "b \<in> set (fw_flows t1)" "key_at v m1 b = reverse_key k" using b d(3,4) by auto
    have "fl_rflow (node_at m1 b) = None"
    proof (rule ccontr)
      assume "fl_rflow (node_at m1 b) \<noteq> None"
      then obtain y where "y \<in> set (fw_flows t1)" "key_at v m1 y = k" using ri1 [OF bi b1(1)] b1(2) by auto
      then have "y \<in> set (fw_flows t)" "y \<noteq> a" "key_at v m y = key_at v m a" using d(3,4) k by auto
      then show False using h a by (auto simp: flows_hold_def chains_ok_def inj_on_def)
    qed
    then obtain t2 m2 where "drop_node b (t1, m1) = Returned (None, t2, m2)" "flows_hold v mx bi (t2, m2) (c(k := None, reverse_key k := None))"
      using drop_node_holds [OF d(2) b1(1) refl] b1(2) by auto
    then show ?thesis using d(1) Some bi by (simp add: flow_drop_def)
  qed
qed

lemma flow_dropped_single:
  assumes "flows_hold v mx False (t, m) c" "a \<in> set (fw_flows t)"
  shows "\<exists>t' m'. flow_drop a (t, m) = Returned (t', m') \<and> flows_hold v mx False (t', m') (c(key_at v m a := None)) \<and>
    fw_flows t' = remove1 a (fw_flows t)"
  using drop_node_holds [OF assms refl] by (auto simp: flow_drop_def)

lemma call_flow_holds:
  assumes "flows_hold v mx bi s c" "flow_allowed v bi call c"
  shows "\<exists>s'. call_flow v call s = Returned (fst (spec_flow v mx bi call c), s') \<and> flows_hold v mx bi s' (snd (spec_flow v mx bi call c))"
proof (cases call)
  case (Count_packet want fuel e tv nbytes)
  then show ?thesis using packet_counted [of v mx bi "fst s" "snd s"] assms by simp
next
  case (Drop_flow k)
  obtain t m where s: "s = (t, m)" by (cases s)
  have hs: "nodes_ok t m" "counts_ok v t m c" using assms(1) by (simp_all add: s flows_hold_def)
  have hk: "has_key v m k a \<longleftrightarrow> key_at v m a = k" if "a \<in> set (fw_flows t)" for a
    using node_some [OF hs(1) that] by (simp add: has_key_def key_at_def)
  show ?thesis
  proof (cases "find (has_key v m k) (fw_flows t)")
    case None
    then have "k \<notin> dom c" using hk hs(2) by (auto simp: counts_ok_def find_None_iff)
    then show ?thesis using None assms(1) by (auto simp: Drop_flow s)
  next
    case (Some a)
    then have a: "a \<in> set (fw_flows t)" "key_at v m a = k" using hk by (auto simp: find_Some_iff)
    then have "k \<in> dom c" using hs(2) by (auto simp: counts_ok_def)
    then show ?thesis using flow_dropped [OF assms(1) [unfolded s] a] Some by (auto simp: Drop_flow s)
  qed
qed

interpretation flows: simulation "call_flow v" "spec_flow v mx bi" "flow_allowed v bi" "flows_hold v mx bi"
  for v :: nat and mx :: int and bi :: bool
  by unfold_locales (rule call_flow_holds)

section \<open>From the beginning\<close>

lemma flows_made:
  assumes "flow_init True True maxflows biflows timeout flow_module = ((0, Table t), m)"
  shows "flows_hold v (if maxflows \<noteq> 0 then maxflows else 5000) (biflows \<noteq> 0) (t, m) Map.empty"
proof -
  have m: "m = flow_module_init flow_module" and t: "fw_flows t = []" "fw_nflows t = 0" "fw_hashtab t = (\<lambda>_. [])"
      "fw_maxflows t = (if maxflows \<noteq> 0 then maxflows else 5000)" "fw_biflows t = (biflows \<noteq> 0)"
    using assms by (auto simp: flow_init_def Let_def)
  have "fm_freelist m = rev [0..<100]" "fm_fresh m = 100" "\<forall>a < 100. fm_node m a \<noteq> None"
    by (simp_all add: m flow_module_init_def flow_module_def ntmpflows_def)
  then show ?thesis
    using t by (simp add: flows_hold_def nodes_ok_def chains_ok_def reverse_ok_def counts_ok_def)
qed

text \<open>C34. The table of flows is a map. After it is made, any sequence of packets of one version of IP that are
  no fragments, and of drops, gives the answers of a map from addresses, ports, protocol and service to
  the numbers of packets and bytes: a packet is counted for its flow and no other, a new flow is
  refused only when there are as many as the limit, and a flow that is dropped takes the flow of
  the opposite direction with it when directions are paired.\<close>

theorem flows_refine_map:
  assumes "flow_init True True maxflows biflows timeout flow_module = ((0, Table t), m)"
    and "all_allowed (flow_allowed v (biflows \<noteq> 0)) (spec_flow v (if maxflows \<noteq> 0 then maxflows else 5000) (biflows \<noteq> 0)) calls Map.empty"
  shows "\<exists>s. run_calls (call_flow v) calls (t, m) =
      Returned (fst (run_spec (spec_flow v (if maxflows \<noteq> 0 then maxflows else 5000) (biflows \<noteq> 0)) calls Map.empty), s)
    \<and> flows_hold v (if maxflows \<noteq> 0 then maxflows else 5000) (biflows \<noteq> 0) s
      (snd (run_spec (spec_flow v (if maxflows \<noteq> 0 then maxflows else 5000) (biflows \<noteq> 0)) calls Map.empty))"
  by (rule flows.runs [OF flows_made [OF assms(1)] assms(2)])

text \<open>Two packets of a flow, one back, one of a third flow, for which there is no room, and the drop of the first.\<close>

definition udp_elems :: "nat \<Rightarrow> nat \<Rightarrow> nat \<Rightarrow> nat \<Rightarrow> ipflow_elems" where
  "udp_elems s sp d dp = \<lparr>ie_version = 4, ie_tos = 0, ie_protocol = 17, ie_saddr = [10, 0, 0, of_nat s], ie_daddr = [10, 0, 0, of_nat d],
     ie_sport = sp, ie_dport = dp, ie_frag_off = 0, ie_pl_len = 0, ie_ipid = 0\<rparr>"

definition udp_packet :: "ipflow_elems \<Rightarrow> flow_call" where
  "udp_packet e = Count_packet True 1 e (0, 0) 100"

definition sample_calls :: "flow_call list" where
  "sample_calls = [udp_packet (udp_elems 1 5000 2 53), udp_packet (udp_elems 1 5000 2 53), udp_packet (udp_elems 2 53 1 5000),
     udp_packet (udp_elems 3 53 1 5000), Drop_flow (flow_key 4 (udp_elems 1 5000 2 53)), Drop_flow (flow_key 4 (udp_elems 2 53 1 5000))]"

theorem flows_refine_map_witness:
  "\<exists>t m s. flow_init True True 2 1 60 flow_module = ((0, Table t), m) \<and>
    run_calls (call_flow 4) sample_calls (t, m) = Returned ([True, True, True, False, True, False], s)"
proof -
  obtain t m where t: "flow_init True True 2 1 60 flow_module = ((0, Table t), m)" by (simp add: flow_init_def Let_def)
  have len: "addr_len (udp_elems s sp d dp) = 4" for s sp d dp by (simp add: addr_len_def udp_elems_def)
  have key: "flow_key 4 (udp_elems s sp d dp) = (sp, dp, 17, 0, [10, 0, 0, of_nat s], [10, 0, 0, of_nat d])" for s sp d dp
    by (simp add: flow_key_def udp_elems_def)
  have rev: "reverse_key (sp, dp, p, q, sa, da) = (dp, sp, p, q, da, sa)" for sp dp p q sa da by (simp add: reverse_key_def)
  have al: "flow_allowed 4 True (udp_packet (udp_elems s sp d dp)) c \<longleftrightarrow> (sp, dp, [10, 0, 0, of_nat s :: byte]) \<noteq> (dp, sp, [10, 0, 0, of_nat d])"
    for s sp d dp c
    unfolding udp_packet_def flow_allowed.simps len key rev by (auto simp: udp_elems_def addr_len_def)
  have "all_allowed (flow_allowed 4 True) (spec_flow 4 2 True) sample_calls Map.empty"
    unfolding sample_calls_def all_allowed.simps al by simp
  moreover have "fst (run_spec (spec_flow 4 2 True) sample_calls Map.empty) = [True, True, True, False, True, False]"
    unfolding sample_calls_def udp_packet_def by (simp add: len key rev Let_def)
  ultimately show ?thesis using flows_refine_map [OF t, of 4 sample_calls] t by auto
qed

end
