(* ===== verification/Probe.thy ===== *)
theory Probe
  imports IpFlowProps
begin

text \<open>
  The probe (\<open>probe/probe.c\<close>): captured packets are counted in the table of flows, and flows that are
  idle, old or asked for are handed to the exporter. What is handed on is a list of calls; the code
  does not look at what they return. Options, the set-up of the capture and the exporter and the signal
  handling around \<open>exit_func\<close> are calls of other libraries and not modelled.
\<close>

section \<open>State\<close>

record probe_par =
  pp_ipflow_timeout :: int
  pp_ipflow_lifetime :: int
  pp_export_timeout :: int
  pp_offline :: bool
  pp_inet6 :: bool

text \<open>What a call of \<open>ipfix_export\<close> is given: the template, and the values of a flow.\<close>

record flow_record =
  fr_templ6 :: bool
  fr_start :: nat
  fr_end :: nat
  fr_elems :: ipflow_elems
  fr_packets :: int
  fr_bytes :: int
  fr_reverse :: "(int \<times> int) option"

datatype export_call = Export flow_record | Flush

record probe =
  pr_ipflows :: "ipflow option"
  pr_mem :: flow_mem
  pr_calls :: "export_call list"
  pr_next_export :: int
  pr_npkts :: int
  pr_nbytes :: int
  pr_ethernet :: bool
  pr_offset :: nat

section \<open>Exporting\<close>

text \<open>Milliseconds, in 64 bits.\<close>

definition msec :: "int \<times> int \<Rightarrow> nat" where
  "msec tv = nat ((fst tv * 1000 + (snd tv mod 2 ^ 64) div 1000) mod 2 ^ 64)"

definition flow_expired :: "probe_par \<Rightarrow> int \<Rightarrow> bool \<Rightarrow> int \<Rightarrow> int \<Rightarrow> bool" where
  "flow_expired par now flag idle duration \<longleftrightarrow> flag \<or> pp_ipflow_timeout par \<noteq> 0 \<and> idle > pp_ipflow_timeout par \<or>
     pp_ipflow_lifetime par \<noteq> 0 \<and> duration > pp_ipflow_lifetime par"

definition record_of :: "ipflowinfo \<Rightarrow> nat \<Rightarrow> (int \<times> int) option \<Rightarrow> flow_record" where
  "record_of n e r = \<lparr>fr_templ6 = (ie_version (fl_elems n) = 6), fr_start = msec (fl_tstart n), fr_end = e, fr_elems = fl_elems n,
     fr_packets = fl_packets n, fr_bytes = fl_bytes n, fr_reverse = r\<rparr>"

type_synonym export_state = "ipflow \<times> flow_mem \<times> export_call list"

definition drop_exported :: "nat \<Rightarrow> flow_record \<Rightarrow> export_state \<Rightarrow> export_state proc" where
  "drop_exported a r st = (case st of (t, m, out) \<Rightarrow> proc_map (\<lambda>(t, m). (t, m, out @ [Export r])) (flow_drop a (t, m)))"

text \<open>
  One flow. With two directions the export of a flow that stays is given one value less than its template has
  fields, which the callee reads all the same.
\<close>

definition export_ipflow :: "probe_par \<Rightarrow> int \<Rightarrow> bool \<Rightarrow> nat \<Rightarrow> export_state \<Rightarrow> export_state proc" where
  "export_ipflow par now flag a st =
     (case st of (t, m, out) \<Rightarrow>
      with_flow m a (\<lambda>n.
      if flow_expired par now flag (now - fst (fl_tlast n)) (fst (fl_tlast n) - fst (fl_tstart n)) then
        drop_exported a (record_of n (msec (fl_tlast n)) None) (t, m, out)
      else if pp_ipflow_timeout par < 1 \<and> fl_packets n \<noteq> 0 then
        Returned (t, put_flow a (n\<lparr>fl_packets := 0, fl_bytes := 0\<rparr>) m, out @ [Export (record_of n 0 None)])
      else Returned (t, m, out)))"

definition export_biflow :: "probe_par \<Rightarrow> int \<Rightarrow> bool \<Rightarrow> nat \<Rightarrow> export_state \<Rightarrow> export_state proc" where
  "export_biflow par now flag a st =
     (case st of (t, m, out) \<Rightarrow>
      with_flow m a (\<lambda>n.
      if \<not> fl_iflow n then Returned (t, m, out)
      else
        proc_bind (case fl_rflow n of None \<Rightarrow> Returned None | Some b \<Rightarrow> with_flow m b (\<lambda>k. Returned (Some k))) (\<lambda>r.
        let msec_end = (case r of None \<Rightarrow> msec (fl_tlast n) | Some k \<Rightarrow> max (msec (fl_tlast n)) (msec (fl_tlast k)));
            idlesec = now - int (msec_end div 1000);
            duration = (int msec_end - int (msec (fl_tstart n))) mod 2 ^ 64 div 1000
        in
        if flow_expired par now flag idlesec duration then
          drop_exported a (record_of n msec_end (Some (case r of None \<Rightarrow> (0, 0) | Some k \<Rightarrow> (fl_packets k, fl_bytes k)))) (t, m, out)
        else if pp_ipflow_timeout par < 1 \<and> fl_packets n \<noteq> 0 then Undefined ''too few arguments''
        else Returned (t, m, out))))"

text \<open>The flows one after the other; the next one is taken from the list before a flow is dropped.\<close>

fun next_node :: "nat \<Rightarrow> nat list \<Rightarrow> nat option" where
  "next_node a (x # y # zs) = (if x = a then Some y else next_node a (y # zs))"
| "next_node a xs = None"

fun walk_flows :: "nat \<Rightarrow> (nat \<Rightarrow> export_state \<Rightarrow> export_state proc) \<Rightarrow> nat option \<Rightarrow> export_state \<Rightarrow> export_state proc" where
  "walk_flows 0 f p st = Spins"
| "walk_flows (Suc k) f None st = Returned st"
| "walk_flows (Suc k) f (Some a) st =
     (if a \<notin> set (fw_flows (fst st)) then Undefined ''freed flow''
      else proc_bind (f a st) (walk_flows k f (next_node a (fw_flows (fst st)))))"

definition first_node :: "nat list \<Rightarrow> nat option" where
  "first_node xs = (case xs of [] \<Rightarrow> None | x # _ \<Rightarrow> Some x)"

definition export_ipflows :: "probe_par \<Rightarrow> int \<Rightarrow> bool \<Rightarrow> probe \<Rightarrow> probe proc" where
  "export_ipflows par now flag p =
     (case pr_ipflows p of
        None \<Rightarrow> Undefined ''null pointer''
      | Some t \<Rightarrow>
          proc_map (\<lambda>(t, m, out). p\<lparr>pr_ipflows := Some t, pr_mem := m, pr_calls := out @ [Flush], pr_npkts := 0, pr_nbytes := 0\<rparr>)
            (walk_flows (Suc (length (fw_flows t))) ((if fw_biflows t then export_biflow else export_ipflow) par now flag)
              (first_node (fw_flows t)) (t, pr_mem p, pr_calls p)))"

section \<open>Packets\<close>

definition ETHER_HDRLEN :: nat where "ETHER_HDRLEN = 14"
definition ETHERTYPE_IP :: nat where "ETHERTYPE_IP = 0x0800"
definition ETHERTYPE_8021Q :: nat where "ETHERTYPE_8021Q = 0x8100"
definition ETHERTYPE_IPV6 :: nat where "ETHERTYPE_IPV6 = 0x86dd"
definition g_snaplen :: nat where "g_snaplen = 100"

text \<open>Tags of virtual networks are skipped; \<open>caplen\<close> has 32 bits and no sign. None: not a packet of IP.\<close>

fun skip_tags :: "nat \<Rightarrow> byte list \<Rightarrow> nat \<Rightarrow> nat \<Rightarrow> nat \<Rightarrow> (byte list \<times> nat \<times> nat) option proc" where
  "skip_tags 0 pp caplen ethertype offset = Spins"
| "skip_tags (Suc fuel) pp caplen ethertype offset =
     (if caplen = 0 then Returned (Some (pp, caplen, offset))
      else if ethertype = ETHERTYPE_8021Q then
        if length pp < 4 then Undefined ''read past the packet''
        else skip_tags fuel (drop 4 pp) ((caplen + 2 ^ 32 - 4) mod 2 ^ 32) (word_at pp 2) (offset + 4)
      else if ethertype = ETHERTYPE_IPV6 \<or> ethertype = ETHERTYPE_IP then Returned (Some (pp, caplen, offset))
      else Returned None)"

definition skip_link :: "probe \<Rightarrow> byte list \<Rightarrow> (byte list \<times> nat \<times> nat) option proc" where
  "skip_link p packet =
     (let caplen = (if length packet > g_snaplen then g_snaplen else length packet) in
      if pr_ethernet p then
        if caplen < ETHER_HDRLEN then Returned None
        else skip_tags (Suc (length packet)) (drop ETHER_HDRLEN packet) (caplen - ETHER_HDRLEN) (word_at packet 12) ETHER_HDRLEN
      else Returned (Some (drop (pr_offset p) packet, (caplen + 2 ^ 32 - pr_offset p) mod 2 ^ 32, pr_offset p)))"

text \<open>
  The fields of a packet, and where it starts. That the fields cannot be read is not looked at: they are used
  as they are, not set.
\<close>

definition packet_elems :: "probe_par \<Rightarrow> nat \<Rightarrow> probe \<Rightarrow> byte list \<Rightarrow> (ipflow_elems \<times> nat) option proc" where
  "packet_elems par fuel p packet =
     proc_bind (skip_link p packet) (\<lambda>r.
     case r of
       None \<Rightarrow> Returned None
     | Some (pp, caplen, offset) \<Rightarrow>
         proc_bind (packet_byte pp 0) (\<lambda>b0.
         if b0 div 16 = IPVERSION \<or> pp_inet6 par \<and> b0 div 16 = 6 then
           proc_bind (packet_byte pp 1) (\<lambda>tos.
           proc_bind (ipflow_get_elems fuel caplen pp zero_elems) (\<lambda>(e, elems).
           if e < 0 then Undefined ''uninitialised fields'' else Returned (Some (elems, offset))))
         else Returned None))"

function advance :: "int \<Rightarrow> int \<Rightarrow> int \<Rightarrow> int" where
  "advance step now next = (if step > 0 \<and> next \<le> now then advance step now (next + step) else next)"
  by pat_completeness auto
termination by (relation "measure (\<lambda>(step, now, next). nat (now - next + 1))") auto

declare advance.simps [simp del]

text \<open>In a file of packets the time is that of the packets.\<close>

definition export_when_due :: "probe_par \<Rightarrow> int \<Rightarrow> probe \<Rightarrow> probe proc" where
  "export_when_due par now p =
     (if pp_offline par \<and> pp_export_timeout par > 0 then
        if pr_next_export p = 0 then Returned (p\<lparr>pr_next_export := now + pp_export_timeout par\<rparr>)
        else if now \<ge> pr_next_export p then
          proc_map (\<lambda>p. p\<lparr>pr_next_export := advance (pp_export_timeout par) now (pr_next_export p)\<rparr>) (export_ipflows par now False p)
        else Returned p
      else Returned p)"

definition cb_packet :: "probe_par \<Rightarrow> nat \<Rightarrow> bool \<Rightarrow> int \<times> int \<Rightarrow> nat \<Rightarrow> byte list \<Rightarrow> probe \<Rightarrow> probe proc" where
  "cb_packet par fuel ok ts len packet p =
     proc_bind (packet_elems par fuel p packet) (\<lambda>r.
     case r of
       None \<Rightarrow> Returned p
     | Some (elems, offset) \<Rightarrow>
         (case pr_ipflows p of
            None \<Rightarrow> Undefined ''null pointer''
          | Some t \<Rightarrow>
              proc_bind (flow_update fuel ok True elems ts len (t, pr_mem p)) (\<lambda>(_, t, m).
              export_when_due par (fst ts) (p\<lparr>pr_ipflows := Some t, pr_mem := m, pr_npkts := pr_npkts p + 1,
                pr_nbytes := pr_nbytes p + (int len - int offset) mod 2 ^ 32\<rparr>))))"

text \<open>The timer of a live capture.\<close>

definition cb_export :: "probe_par \<Rightarrow> int \<Rightarrow> probe \<Rightarrow> probe proc" where
  "cb_export par now p = export_ipflows par now False p"

text \<open>At the end all flows are exported and the table is closed.\<close>

definition export_all :: "probe_par \<Rightarrow> int \<Rightarrow> probe \<Rightarrow> probe proc" where
  "export_all par now p = export_ipflows par now True p"

definition exit_func :: "probe_par \<Rightarrow> int \<Rightarrow> probe \<Rightarrow> unit proc" where
  "exit_func par now p =
     proc_bind (export_all par now p) (\<lambda>p. proc_bind (flow_close (pr_ipflows p) (pr_mem p)) (\<lambda>_. Exited 0))"

section \<open>Options\<close>

text \<open>The filter, without the quotes around it; and the host and port of the collector.\<close>

definition filter_option :: "string \<Rightarrow> string" where
  "filter_option optarg =
     (if optarg \<noteq> '''' \<and> (hd optarg = CHR 0x27 \<or> hd optarg = CHR 0x22) then take (length optarg - 1) (tl optarg) else optarg)"

definition collector_address :: "string \<Rightarrow> int \<Rightarrow> string \<times> int" where
  "collector_address host port =
     (let rest = drop 1 (dropWhile (\<lambda>c. c \<noteq> CHR '':'') host);
          one = (CHR '':'' \<in> set host \<and> CHR '':'' \<notin> set rest);
          port' = (if one then atoi rest else port);
          host' = (if one \<and> port' > 0 then takeWhile (\<lambda>c. c \<noteq> CHR '':'') host else host)
      in (host', if port' = 0 then 4739 else port'))"

end
