(* ===== verification/IpFlowFaults.thy ===== *)
theory IpFlowFaults
  imports IpFlowProps
begin

text \<open>
  The fields of packets as the probe reads them, and what goes wrong with packets and flows.
\<close>

section \<open>Packets of IP version 4\<close>

lemma two_bytes: "be_bytes 2 n = [of_nat (n div 256), of_nat n]"
  by (simp add: numeral_2_eq_2)

lemma two_bytes_word: "n < 65536 \<Longrightarrow> unat (of_nat (n div 256) :: byte) * 256 + unat (of_nat n :: byte) = n"
  by (simp add: unat_of_nat)

text \<open>A header without options, and the ports that follow.\<close>

definition ip4_packet :: "nat \<Rightarrow> nat \<Rightarrow> nat \<Rightarrow> nat \<Rightarrow> nat \<Rightarrow> nat \<Rightarrow> nat \<Rightarrow> byte list \<Rightarrow> byte list \<Rightarrow> nat \<Rightarrow> nat \<Rightarrow> byte list \<Rightarrow> byte list" where
  "ip4_packet tos len ident frag ttl prot cks saddr daddr sport dport rest =
     [0x45, of_nat tos] @ be_bytes 2 len @ be_bytes 2 ident @ be_bytes 2 frag @ [of_nat ttl, of_nat prot] @ be_bytes 2 cks @
     saddr @ daddr @ be_bytes 2 sport @ be_bytes 2 dport @ rest"

lemma ip4_packet_bytes:
  assumes "length saddr = 4" "length daddr = 4" and p: "pp = ip4_packet tos len ident frag ttl prot cks saddr daddr sport dport rest"
  shows "pp ! 0 = 0x45" "pp ! 1 = of_nat tos" "pp ! 9 = of_nat prot" "take 4 (drop 12 pp) = saddr" "take 4 (drop 16 pp) = daddr"
    "length pp = 24 + length rest" "pp ! 6 = of_nat (frag div 256)" "pp ! 7 = of_nat frag"
    "pp ! 20 = of_nat (sport div 256)" "pp ! 21 = of_nat sport" "pp ! 22 = of_nat (dport div 256)" "pp ! 23 = of_nat dport"
    "pp ! 2 = of_nat (len div 256)" "pp ! 3 = of_nat len" "pp ! 4 = of_nat (ident div 256)" "pp ! 5 = of_nat ident"
proof -
  obtain s0 s1 s2 s3 where s: "saddr = [s0, s1, s2, s3]" using assms(1) by (auto simp: numeral_eq_Suc length_Suc_conv)
  obtain d0 d1 d2 d3 where d: "daddr = [d0, d1, d2, d3]" using assms(2) by (auto simp: numeral_eq_Suc length_Suc_conv)
  show "pp ! 0 = 0x45" "pp ! 1 = of_nat tos" "pp ! 9 = of_nat prot" "take 4 (drop 12 pp) = saddr" "take 4 (drop 16 pp) = daddr"
    "length pp = 24 + length rest" "pp ! 6 = of_nat (frag div 256)" "pp ! 7 = of_nat frag"
    "pp ! 20 = of_nat (sport div 256)" "pp ! 21 = of_nat sport" "pp ! 22 = of_nat (dport div 256)" "pp ! 23 = of_nat dport"
    "pp ! 2 = of_nat (len div 256)" "pp ! 3 = of_nat len" "pp ! 4 = of_nat (ident div 256)" "pp ! 5 = of_nat ident"
    by (simp_all add: p ip4_packet_def two_bytes s d)
qed

text \<open>
  The fields of a datagram that is not fragmented, with ports, are those of its header.
\<close>

theorem ip4_fields:
  assumes "length saddr = 4" "length daddr = 4" "tos < 256" "prot < 256" "has_ports prot" "sport < 65536" "dport < 65536"
    and "frag = 0 \<or> frag = 0x4000"
    and "20 \<le> caplen"
  shows "ipflow_get_elems fuel caplen (ip4_packet tos len ident frag ttl prot cks saddr daddr sport dport rest) elems =
    Returned (0, elems\<lparr>ie_version := 4, ie_tos := tos, ie_protocol := prot, ie_saddr := saddr, ie_daddr := daddr, ie_frag_off := 0,
      ie_sport := sport, ie_dport := dport\<rparr>)"
proof -
  define pp where "pp = ip4_packet tos len ident frag ttl prot cks saddr daddr sport dport rest"
  note b = ip4_packet_bytes [OF assms(1,2) pp_def]
  have u: "unat (of_nat tos :: byte) = tos" "unat (of_nat prot :: byte) = prot" using assms(3,4) by (simp_all add: unat_of_nat)
  have w: "word_at pp 6 = frag" using two_bytes_word [of frag] assms(8) by (auto simp: word_at_def b)
  have f: "word_at pp 6 AND 0xBFFF = 0" unfolding w using assms(8) by auto
  have ports: "set_ports pp 20 e = Returned (e\<lparr>ie_sport := sport, ie_dport := dport\<rparr>)" for e
    using two_bytes_word [OF assms(6)] two_bytes_word [OF assms(7)]
    by (simp add: set_ports_def port_at_def packet_byte_def b)
  have "packet_byte pp 0 = Returned 69" by (simp add: packet_byte_def b)
  then show ?thesis
    unfolding pp_def [symmetric] using assms(5,9) ports f
    by (simp add: ipflow_get_elems_def Let_def IPVERSION_def b b(2) [unfolded One_nat_def] u)
qed

theorem ip4_fields_witness:
  "ipflow_get_elems 0 28 (ip4_packet 0 32 7 0x4000 64 17 0 [10, 0, 0, 1] [10, 0, 0, 2] 5000 53 [1, 2, 3, 4]) zero_elems =
    Returned (0, zero_elems\<lparr>ie_version := 4, ie_tos := 0, ie_protocol := 17, ie_saddr := [10, 0, 0, 1], ie_daddr := [10, 0, 0, 2],
      ie_frag_off := 0, ie_sport := 5000, ie_dport := 53\<rparr>)"
  by (rule ip4_fields) (simp_all add: has_ports_def IPPROTO_UDP_def)

section \<open>Packets of IP version 6\<close>

text \<open>Chains of headers end while the counter of 16 bits cannot wrap: in packets of less than 63000 bytes.\<close>

theorem skip_headers_ends:
  "length pp < 63000 \<Longrightarrow> length pp \<le> 8 * fuel + hdrlen \<Longrightarrow> skip_headers (Suc fuel) (length pp) pp hdrlen prot \<noteq> Spins"
proof (induction fuel arbitrary: hdrlen prot)
  case (Suc fuel)
  show ?case
  proof (cases "hdrlen < length pp")
    case True
    have IH: "skip_headers (Suc fuel) (length pp) pp ((hdrlen + (8 + p1 * 8)) mod 65536) q \<noteq> Spins" if "p1 < 256" for p1 q
    proof -
      have "(hdrlen + (8 + p1 * 8)) mod 65536 = hdrlen + (8 + p1 * 8)" using True Suc.prems(1) that by simp
      then show ?thesis using Suc.IH [OF Suc.prems(1), of "hdrlen + (8 + p1 * 8)" q] Suc.prems(2) by simp
    qed
    have b: "packet_byte pp i = Returned p1 \<Longrightarrow> p1 < 256" for i p1
      using unat_byte_less by (auto simp: packet_byte_def split: if_splits)
    have "proc_bind (packet_byte pp hdrlen) (\<lambda>q. proc_bind (packet_byte pp (hdrlen + 1)) (\<lambda>p1.
        skip_headers (Suc fuel) (length pp) pp ((hdrlen + (8 + p1 * 8)) mod 65536) q)) \<noteq> Spins"
    proof (cases "hdrlen + 1 < length pp")
      case True
      then show ?thesis using IH b [of "hdrlen + 1"] by (simp add: packet_byte_def del: skip_headers.simps)
    qed (simp add: packet_byte_def)
    then show ?thesis by (subst skip_headers.simps) simp
  next
    case False
    then show ?thesis using Suc.prems(1) by simp
  qed
qed simp

text \<open>A packet of 65530 to 65535 bytes, all zero, is read for ever: the counter wraps and starts again.\<close>

theorem zero_packet_spins:
  assumes "65530 \<le> n" "n < 65536"
  shows "ipflow_get_elems fuel n (replicate n 0) elems = Spins"
proof -
  have s: "skip_headers fuel n (replicate n 0) (8 * k) 0 = Spins" if "k < 8192" for fuel k
    using that
  proof (induction fuel arbitrary: k)
    case (Suc fuel)
    have h: "8 * k + 1 < n" using Suc.prems assms(1) by simp
    have e: "(8 * k + (8 + 0 * 8)) mod 65536 = 8 * ((k + 1) mod 8192)" using mult_mod_right [of 8 "k + 1" 8192] by (simp add: add.commute)
    have z: "\<not> has_ports 0" by (simp add: has_ports_def IPPROTO_TCP_def IPPROTO_SCTP_def IPPROTO_UDP_def)
    have "skip_headers (Suc fuel) n (replicate n 0) (8 * k) 0 = skip_headers fuel n (replicate n 0) (8 * ((k + 1) mod 8192)) 0"
      using h assms z e by (simp add: packet_byte_def IPPROTO_HOPOPTS_def)
    then show ?case using Suc.IH [of "(k + 1) mod 8192"] by simp
  qed simp
  have "40 \<le> n" using assms by simp
  then show ?thesis using s [of 5 fuel] by (simp add: ipflow_get_elems_def packet_byte_def IPVERSION_def Let_def)
qed

section \<open>What goes wrong\<close>

text \<open>A header of a packet that was cut is read past its end: the first byte of an empty one, and the ports behind a header.\<close>

lemma short_packets:
  "ipflow_get_elems fuel 0 [] elems = Undefined ''read past the packet''"
  "length pp = 20 \<Longrightarrow> pp ! 0 = 0x45 \<Longrightarrow> pp ! 9 = 6 \<Longrightarrow> pp ! 6 = 0 \<Longrightarrow> pp ! 7 = 0 \<Longrightarrow>
    ipflow_get_elems fuel 20 pp elems = Undefined ''read past the packet''"
  by (simp_all add: ipflow_get_elems_def packet_byte_def IPVERSION_def Let_def word_at_def has_ports_def IPPROTO_TCP_def set_ports_def port_at_def)

text \<open>The version is no part of a flow.\<close>

lemma version_not_compared: "same_flow (n\<lparr>ie_version := w\<rparr>) e = same_flow n e"
  by (simp add: same_flow_def)

text \<open>
  A packet from an address and port to the same address and port makes a flow that is its own
  reverse flow; dropping it drops it twice, which ends the program or uses the freed node.
\<close>

theorem own_reverse_flow:
  assumes "fm_node m a = Some n" "same_flow (fl_elems n) (reverse_elems e)"
  shows "\<exists>m'. link_reverse a (reverse_elems e) [a] m = Returned m' \<and> fl_rflow (node_at m' a) = Some a"
  using assms by (simp add: with_flow_def put_flow_def node_at_def Let_def)

theorem own_reverse_dropped:
  assumes "fm_node m a = Some n" "fl_rflow n = Some a" "fw_biflows t" "fw_hashtab t (fl_hash n) = [a]"
  shows "flow_drop a (t, m) = (if fl_reuse n then Exited 1 else Undefined ''freed flow'')"
  using assms by (simp add: flow_drop_def drop_node_def with_flow_def put_flow_def free_flownode_def Let_def)

text \<open>A flow that is dropped stays in the list of fragments, where the next fragment finds the freed node.\<close>

theorem dropped_fragment:
  assumes "fw_frags t = Some a" "fm_node m a = None" "ie_frag_off e \<noteq> 0"
  shows "flow_update (Suc fuel) ok want e tv nbytes (t, m) = Undefined ''freed flow''"
  using assms by (simp add: flow_update_def with_flow_def)

text \<open>
  A datagram with identification 0 counts as none: its flow is put on the list of fragments again when it is
  there but not at the head, and the list becomes a cycle. The next fragment of another
  datagram is looked for without end.
\<close>

theorem fragment_cycle:
  assumes "fw_frags t = Some b" "fm_node m b = Some nb" "fm_node m a = Some na" "a \<noteq> b"
    and "fg_next (fl_ipfrag nb) = Some a" "fg_ipid (fl_ipfrag na) = 0"
    and "ie_ipid e' \<noteq> fg_ipid (fl_ipfrag nb)" "ie_ipid e' \<noteq> ie_ipid e" "ie_frag_off e' \<noteq> 0"
  shows "\<exists>t' m'. first_frag a e (t, m) = Returned (t', m') \<and> flow_update fuel ok want e' tv nbytes (t', m') = Spins"
proof -
  let ?ga = "(fl_ipfrag na)\<lparr>fg_bytes_got := ie_pl_len e, fg_bytes_exp := 0, fg_more := True, fg_thisflow := a, fg_prev := None, fg_next := Some b,
    fg_ipid := ie_ipid e\<rparr>"
  let ?m = "put_flow a (na\<lparr>fl_ipfrag := ?ga\<rparr>) (put_flow b (nb\<lparr>fl_ipfrag := (fl_ipfrag nb)\<lparr>fg_prev := Some a\<rparr>\<rparr>) m)"
  let ?t = "t\<lparr>fw_frags := Some a\<rparr>"
  have f: "first_frag a e (t, m) = Returned (?t, ?m)"
    using assms(1-6) by (simp add: first_frag_def with_flow_def update_frag_def Let_def)
  have "find_frag k ?m e' (Some x) = Spins" if "x = a \<or> x = b" for k x
    using that
  proof (induction k arbitrary: x)
    case (Suc k)
    then show ?case using assms(4,5,7,8) by (auto simp: with_flow_def Let_def)
  qed simp
  then have "flow_update fuel ok want e' tv nbytes (?t, ?m) = Spins" using assms(9) by (simp add: flow_update_def)
  then show ?thesis using f by blast
qed

text \<open>Closing no table reads a null pointer before it is tested; a table that could not be made is given to the
  caller after it was freed; and without room for flows the answer is stored through a null pointer.\<close>

lemma close_nothing: "flow_close None m = Undefined ''null pointer''"
  by (simp add: flow_close_def)

lemma init_gives_freed: "fst (flow_init True False mx bi timeout m) = (-1, Freed_table)"
  by (simp add: flow_init_def Let_def)

lemma out_of_flows_null:
  "fw_nflows t \<ge> fw_maxflows t \<Longrightarrow> ie_frag_off e = 0 \<Longrightarrow> fw_hashtab t (flow_calchash t e) = [] \<Longrightarrow>
    flow_update fuel ok False e tv nbytes (t, m) = Undefined ''null pointer''"
  by (simp add: flow_update_def flow_of_packet_def getflownode_def Let_def)

end
