(* ===== verification/ProbeProps.thy ===== *)
theory ProbeProps
  imports Probe IpFlowFaults
begin

text \<open>
  Nothing is lost between capture and export: what the exporter is given for a flow and what the table
  still holds are together what was captured. At the end are the defects.
\<close>

section \<open>Counts\<close>

text \<open>The packets, or the bytes, in the exported records of a key, and in the table.\<close>

definition records :: "export_call list \<Rightarrow> flow_record list" where
  "records out = concat (map (\<lambda>x. case x of Export r \<Rightarrow> [r] | Flush \<Rightarrow> []) out)"

definition exported :: "nat \<Rightarrow> (flow_record \<Rightarrow> int) \<Rightarrow> export_call list \<Rightarrow> flow_key \<Rightarrow> int" where
  "exported v g out k = sum_list (map g (filter (\<lambda>r. flow_key (key_len v) (fr_elems r) = k) (records out)))"

definition held :: "(int \<times> int \<Rightarrow> int) \<Rightarrow> flow_counts \<Rightarrow> flow_key \<Rightarrow> int" where
  "held sel c k = (case c k of None \<Rightarrow> 0 | Some pb \<Rightarrow> sel pb)"

definition same_count :: "(flow_record \<Rightarrow> int) \<Rightarrow> (int \<times> int \<Rightarrow> int) \<Rightarrow> bool" where
  "same_count g sel \<longleftrightarrow> g = fr_packets \<and> sel = fst \<or> g = fr_bytes \<and> sel = snd"

lemma exported_append: "exported v g (out @ out') k = exported v g out k + exported v g out' k"
  by (simp add: exported_def records_def)

lemma exported_one: "exported v g [Export r] k = (if flow_key (key_len v) (fr_elems r) = k then g r else 0)" "exported v g [Flush] k = 0"
  by (simp_all add: exported_def records_def)

lemma record_count:
  assumes "same_count g sel"
  shows "g (record_of n e r) = sel (fl_packets n, fl_bytes n)" "sel (0, 0) = 0"
  using assms by (auto simp: same_count_def record_of_def)

section \<open>One flow\<close>

text \<open>Packets and bytes are neither made nor lost.\<close>

definition conserves :: "nat \<Rightarrow> export_call list \<Rightarrow> flow_counts \<Rightarrow> export_call list \<Rightarrow> flow_counts \<Rightarrow> bool" where
  "conserves v out c out' c' \<longleftrightarrow> dom c' \<subseteq> dom c \<and> (\<forall>g sel k. same_count g sel \<longrightarrow> exported v g out' k + held sel c' k = exported v g out k + held sel c k)"

lemma conserves_refl: "conserves v out c out c"
  by (simp add: conserves_def)

lemma conserves_trans:
  assumes "conserves v out c out' c'" "conserves v out' c' out'' c''"
  shows "conserves v out c out'' c''"
proof -
  have "dom c'' \<subseteq> dom c" using assms unfolding conserves_def by blast
  then show ?thesis using assms by (simp add: conserves_def)
qed

lemma conserves_export:
  assumes "c (flow_key (key_len v) (fl_elems n)) = Some (fl_packets n, fl_bytes n)" "x = None \<or> x = Some (0, 0)"
  shows "conserves v out c (out @ [Export (record_of n e r)]) (c(flow_key (key_len v) (fl_elems n) := x))"
  unfolding conserves_def
proof (intro conjI allI impI)
  show "dom (c(flow_key (key_len v) (fl_elems n) := x)) \<subseteq> dom c" using assms by auto
  fix g sel k assume "same_count g sel"
  note rc = record_count [OF this]
  have "fr_elems (record_of n e r) = fl_elems n" by (simp add: record_of_def)
  then show "exported v g (out @ [Export (record_of n e r)]) k + held sel (c(flow_key (key_len v) (fl_elems n) := x)) k =
      exported v g out k + held sel c k"
    using assms rc by (auto simp: exported_append exported_one held_def)
qed

lemma export_ipflow_step:
  assumes h: "flows_hold v mx False (t, m) c" and a: "a \<in> set (fw_flows t)"
  shows "\<exists>t' m' out' c'. export_ipflow par now flag a (t, m, out) = Returned (t', m', out') \<and> flows_hold v mx False (t', m') c' \<and>
    conserves v out c out' c' \<and> (fw_flows t' = remove1 a (fw_flows t) \<or> \<not> flag \<and> fw_flows t' = fw_flows t)"
proof -
  have hs: "fw_maxflows t = mx" "fw_biflows t = False" "nodes_ok t m" "chains_ok v t m" "reverse_ok v t m" "counts_ok v t m c"
    using h by (simp_all add: flows_hold_def)
  have n: "fm_node m a = Some (node_at m a)" by (rule node_some [OF hs(3) a])
  have k: "key_at v m a = flow_key (key_len v) (fl_elems (node_at m a))" by (simp add: key_at_def)
  have c: "c (flow_key (key_len v) (fl_elems (node_at m a))) = Some (fl_packets (node_at m a), fl_bytes (node_at m a))"
    using hs(6) a unfolding counts_ok_def k [symmetric] by blast
  let ?x = "flow_expired par now flag (now - fst (fl_tlast (node_at m a))) (fst (fl_tlast (node_at m a)) - fst (fl_tstart (node_at m a)))"
  consider (drop) ?x | (zero) "\<not> ?x" "pp_ipflow_timeout par < 1" "fl_packets (node_at m a) \<noteq> 0"
    | (keep) "\<not> ?x" "\<not> (pp_ipflow_timeout par < 1 \<and> fl_packets (node_at m a) \<noteq> 0)" by blast
  then show ?thesis
  proof cases
    case drop
    obtain t' m' where d: "flow_drop a (t, m) = Returned (t', m')" "flows_hold v mx False (t', m') (c(key_at v m a := None))"
        "fw_flows t' = remove1 a (fw_flows t)" using flow_dropped_single [OF h a] by blast
    then have "export_ipflow par now flag a (t, m, out) = Returned (t', m', out @ [Export (record_of (node_at m a) (msec (fl_tlast (node_at m a))) None)])"
      using drop n by (simp add: export_ipflow_def with_flow_def drop_exported_def)
    then show ?thesis using d(2,3) conserves_export [where v = v and c = c and n = "node_at m a" and x = None, OF c] unfolding k by blast
  next
    case zero
    let ?n = "(node_at m a)\<lparr>fl_packets := 0, fl_bytes := 0\<rparr>"
    note p = put_same [OF hs(3-5) a, of ?n, simplified]
    have "counts_ok v t (put_flow a ?n m) (c(key_at v m a \<mapsto> (fl_packets ?n, fl_bytes ?n)))" by (rule counts_put [OF hs(6,4) a p(4)])
    then have "flows_hold v mx False (t, put_flow a ?n m) (c(key_at v m a \<mapsto> (0, 0)))" using p(1-3) hs(1,2) by (simp add: flows_hold_def)
    moreover have "export_ipflow par now flag a (t, m, out) = Returned (t, put_flow a ?n m, out @ [Export (record_of (node_at m a) 0 None)])"
      using zero n by (simp add: export_ipflow_def with_flow_def)
    moreover have "\<not> flag" using zero(1) by (simp add: flow_expired_def)
    ultimately show ?thesis using conserves_export [where v = v and c = c and n = "node_at m a" and x = "Some (0, 0)", OF c] unfolding k by blast
  next
    case keep
    then have "export_ipflow par now flag a (t, m, out) = Returned (t, m, out)" using n by (auto simp: export_ipflow_def with_flow_def)
    moreover have "\<not> flag" using keep(1) by (simp add: flow_expired_def)
    ultimately show ?thesis using h conserves_refl by blast
  qed
qed

section \<open>All flows\<close>

lemma next_first: "distinct (pre @ a # as) \<Longrightarrow> next_node a (pre @ a # as) = first_node as"
proof (induction pre)
  case Nil
  then show ?case by (cases as) (simp_all add: first_node_def)
next
  case (Cons x pre)
  then show ?case by (cases pre) simp_all
qed

lemma walk_exports:
  assumes "flows_hold v mx False (t, m) c" "fw_flows t = pre @ as" "length as < k"
  shows "\<exists>t' m' out' c'. walk_flows k (export_ipflow par now flag) (first_node as) (t, m, out) = Returned (t', m', out') \<and>
    flows_hold v mx False (t', m') c' \<and> conserves v out c out' c' \<and> (flag \<longrightarrow> fw_flows t' = pre)"
  using assms
proof (induction as arbitrary: t m c pre k out)
  case Nil
  then obtain j where "k = Suc j" by (cases k) auto
  then show ?case using Nil conserves_refl by (auto simp: first_node_def)
next
  case (Cons a as)
  obtain j where k: "k = Suc j" "length as < j" using Cons.prems(3) by (cases k) auto
  have a: "a \<in> set (fw_flows t)" using Cons.prems(2) by simp
  have d: "distinct (pre @ a # as)" using Cons.prems(1,2) by (simp add: flows_hold_def nodes_ok_def)
  obtain t1 m1 out1 c1 where s: "export_ipflow par now flag a (t, m, out) = Returned (t1, m1, out1)" "flows_hold v mx False (t1, m1) c1"
    "conserves v out c out1 c1" "fw_flows t1 = remove1 a (fw_flows t) \<or> \<not> flag \<and> fw_flows t1 = fw_flows t"
    using export_ipflow_step [OF Cons.prems(1) a] by blast
  have r: "remove1 a (fw_flows t) = pre @ as" using d Cons.prems(2) by (simp add: remove1_append)
  obtain pre' where pre': "fw_flows t1 = pre' @ as" "flag \<longrightarrow> pre' = pre"
  proof (cases "fw_flows t1 = remove1 a (fw_flows t)")
    case True
    then show ?thesis using that [of pre] r by simp
  next
    case False
    then show ?thesis using that [of "pre @ [a]"] s(4) Cons.prems(2) by simp
  qed
  obtain t' m' out' c' where "walk_flows j (export_ipflow par now flag) (first_node as) (t1, m1, out1) = Returned (t', m', out')"
    "flows_hold v mx False (t', m') c'" "conserves v out1 c1 out' c'" "flag \<longrightarrow> fw_flows t' = pre'"
    using Cons.IH [OF s(2) pre'(1) k(2)] by blast
  moreover have "walk_flows k (export_ipflow par now flag) (first_node (a # as)) (t, m, out) =
      walk_flows j (export_ipflow par now flag) (first_node as) (t1, m1, out1)"
    using s(1) a next_first [OF d] Cons.prems(2) by (simp add: k(1) first_node_def [of "a # as"])
  ultimately show ?case using conserves_trans [OF s(3)] pre'(2) by auto
qed

definition probe_holds :: "nat \<Rightarrow> int \<Rightarrow> probe \<Rightarrow> flow_counts \<Rightarrow> bool" where
  "probe_holds v mx p c \<longleftrightarrow> (\<exists>t. pr_ipflows p = Some t \<and> flows_hold v mx False (t, pr_mem p) c)"

lemma export_keeps:
  assumes "probe_holds v mx p c"
  shows "\<exists>p' c'. export_ipflows par now flag p = Returned p' \<and> probe_holds v mx p' c' \<and> conserves v (pr_calls p) c (pr_calls p') c' \<and>
    (flag \<longrightarrow> c' = Map.empty) \<and> pr_ethernet p' = pr_ethernet p \<and> pr_offset p' = pr_offset p"
proof -
  obtain t where t: "pr_ipflows p = Some t" "flows_hold v mx False (t, pr_mem p) c" using assms by (auto simp: probe_holds_def)
  obtain t' m' out' c' where w: "walk_flows (Suc (length (fw_flows t))) (export_ipflow par now flag) (first_node (fw_flows t)) (t, pr_mem p, pr_calls p) =
      Returned (t', m', out')" "flows_hold v mx False (t', m') c'" "conserves v (pr_calls p) c out' c'" "flag \<longrightarrow> fw_flows t' = []"
    using walk_exports [OF t(2), of "[]" "fw_flows t" "Suc (length (fw_flows t))" par now flag "pr_calls p"] by auto
  have "\<not> fw_biflows t" using t(2) by (simp add: flows_hold_def)
  then have "export_ipflows par now flag p = Returned (p\<lparr>pr_ipflows := Some t', pr_mem := m', pr_calls := out' @ [Flush], pr_npkts := 0, pr_nbytes := 0\<rparr>)"
    using t(1) w(1) by (simp add: export_ipflows_def)
  moreover have "conserves v (pr_calls p) c (out' @ [Flush]) c'"
    using w(3) by (simp add: conserves_def exported_append exported_one)
  moreover have "flag \<longrightarrow> c' = Map.empty" using w(2,4) by (auto simp: flows_hold_def counts_ok_def)
  ultimately show ?thesis using w(2) by (auto simp: probe_holds_def)
qed

section \<open>Packets\<close>

text \<open>A captured packet: time, length and bytes. It belongs to a flow when it is one of IP of the version, whole and not a fragment.\<close>

type_synonym captured = "(int \<times> int) \<times> nat \<times> byte list"

definition packet_key :: "nat \<Rightarrow> probe_par \<Rightarrow> nat \<Rightarrow> probe \<Rightarrow> captured \<Rightarrow> flow_key option" where
  "packet_key v par fuel p x = (case packet_elems par fuel p (snd (snd x)) of
     Returned (Some (e, offset)) \<Rightarrow>
       if flow_allowed v False (Count_packet True fuel e (fst x) (fst (snd x))) Map.empty then Some (flow_key (key_len v) e) else None
   | _ \<Rightarrow> None)"

lemma packet_elems_link:
  "pr_ethernet p = pr_ethernet q \<Longrightarrow> pr_offset p = pr_offset q \<Longrightarrow> packet_elems par fuel p w = packet_elems par fuel q w"
  by (simp add: packet_elems_def skip_link_def)

lemma wrap32_mod: "wrap32 i mod 2 ^ 32 = i mod 2 ^ 32"
  by (simp add: wrap32_def mod_simps)

lemma count_update:
  assumes "flows_hold v mx False (t, m) c" "ie_version e = v" "ie_frag_off e = 0" "length (ie_saddr e) = addr_len e" "length (ie_daddr e) = addr_len e"
    and "int (card (dom c)) < mx"
  shows "\<exists>r t' m' c'. flow_update fuel True True e tv nbytes (t, m) = Returned (r, t', m') \<and> flows_hold v mx False (t', m') c' \<and>
    card (dom c') \<le> Suc (card (dom c)) \<and>
    (\<forall>k. held fst c' k mod 2 ^ 32 = (held fst c k + (if k = flow_key (key_len v) e then 1 else 0)) mod 2 ^ 32 \<and>
       held snd c' k mod 2 ^ 32 = (held snd c k + (if k = flow_key (key_len v) e then int nbytes else 0)) mod 2 ^ 32)"
proof -
  let ?call = "Count_packet True fuel e tv nbytes" let ?k = "flow_key (key_len v) e"
  have "flow_allowed v False ?call c" using assms(2-5) by simp
  then obtain s' where s: "call_flow v ?call (t, m) = Returned (fst (spec_flow v mx False ?call c), s')"
    "flows_hold v mx False s' (snd (spec_flow v mx False ?call c))" using packet_counted [OF assms(1)] by blast
  obtain r t' m' where u: "flow_update fuel True True e tv nbytes (t, m) = Returned (r, t', m')" "s' = (t', m')"
    using s(1) by (auto simp: proc_map_Returned)
  let ?c = "snd (spec_flow v mx False ?call c)"
  have al: "addr_len e = key_len v" using assms(2) by (simp add: addr_len_version)
  have "?c = (case c ?k of None \<Rightarrow> c(?k \<mapsto> (wrap32 1, wrap32 (int nbytes))) | Some (p, b) \<Rightarrow> c(?k \<mapsto> (wrap32 (p + 1), wrap32 (b + int nbytes))))"
    using assms(6) by (auto simp: al Let_def split: option.splits)
  moreover have "card (dom (c(?k \<mapsto> x))) \<le> Suc (card (dom c))" for x
    using assms(1) by (simp add: flows_hold_def counts_ok_def card_insert_if)
  ultimately have "card (dom ?c) \<le> Suc (card (dom c))" "\<forall>k. held fst ?c k mod 2 ^ 32 = (held fst c k + (if k = ?k then 1 else 0)) mod 2 ^ 32 \<and>
       held snd ?c k mod 2 ^ 32 = (held snd c k + (if k = ?k then int nbytes else 0)) mod 2 ^ 32"
    by (auto simp: held_def wrap32_mod [simplified] split: option.splits)
  then show ?thesis using u s(2) by blast
qed

datatype probe_event = Captured captured | Timer int

fun probe_step :: "probe_par \<Rightarrow> nat \<Rightarrow> probe_event \<Rightarrow> probe \<Rightarrow> probe proc" where
  "probe_step par fuel (Captured x) p = cb_packet par fuel True (fst x) (fst (snd x)) (snd (snd x)) p"
| "probe_step par fuel (Timer now) p = cb_export par now p"

fun probe_run :: "probe_par \<Rightarrow> nat \<Rightarrow> probe_event list \<Rightarrow> probe \<Rightarrow> probe proc" where
  "probe_run par fuel [] p = Returned p"
| "probe_run par fuel (x # xs) p = proc_bind (probe_step par fuel x p) (probe_run par fuel xs)"

fun captured_of :: "probe_event list \<Rightarrow> captured list" where
  "captured_of [] = []"
| "captured_of (Captured x # xs) = x # captured_of xs"
| "captured_of (Timer now # xs) = captured_of xs"

text \<open>The number of packets of a flow among those captured, and of their bytes.\<close>

definition packets_of :: "nat \<Rightarrow> probe_par \<Rightarrow> nat \<Rightarrow> probe \<Rightarrow> captured list \<Rightarrow> flow_key \<Rightarrow> int" where
  "packets_of v par fuel p xs k = int (length (filter (\<lambda>x. packet_key v par fuel p x = Some k) xs))"

definition bytes_in :: "nat \<Rightarrow> probe_par \<Rightarrow> nat \<Rightarrow> probe \<Rightarrow> captured list \<Rightarrow> flow_key \<Rightarrow> int" where
  "bytes_in v par fuel p xs k = int (sum_list (map (\<lambda>x. fst (snd x)) (filter (\<lambda>x. packet_key v par fuel p x = Some k) xs)))"

text \<open>Counted, for packets and bytes: what was exported and what is held, and the sums expected.\<close>

definition accounts :: "nat \<Rightarrow> export_call list \<Rightarrow> flow_counts \<Rightarrow> (flow_key \<Rightarrow> int) \<Rightarrow> (flow_key \<Rightarrow> int) \<Rightarrow> bool" where
  "accounts v out c np nb \<longleftrightarrow> (\<forall>k. (exported v fr_packets out k + held fst c k) mod 2 ^ 32 = np k mod 2 ^ 32 \<and>
     (exported v fr_bytes out k + held snd c k) mod 2 ^ 32 = nb k mod 2 ^ 32)"

lemma accounts_conserves: "conserves v out c out' c' \<Longrightarrow> accounts v out c np nb \<Longrightarrow> accounts v out' c' np nb"
  by (simp add: conserves_def accounts_def same_count_def)

definition same_link :: "probe \<Rightarrow> probe \<Rightarrow> bool" where
  "same_link p q \<longleftrightarrow> pr_ethernet p = pr_ethernet q \<and> pr_offset p = pr_offset q"

lemma export_due_keeps:
  assumes "probe_holds v mx p c" "accounts v (pr_calls p) c np nb"
  shows "\<exists>p' c'. export_when_due par now p = Returned p' \<and> probe_holds v mx p' c' \<and> accounts v (pr_calls p') c' np nb \<and>
    card (dom c') \<le> card (dom c) \<and> same_link p' p"
proof (cases "pp_offline par \<and> pp_export_timeout par > 0 \<and> pr_next_export p \<noteq> 0 \<and> now \<ge> pr_next_export p")
  case True
  obtain p' c' where e: "export_ipflows par now False p = Returned p'" "probe_holds v mx p' c'" "conserves v (pr_calls p) c (pr_calls p') c'"
    "pr_ethernet p' = pr_ethernet p" "pr_offset p' = pr_offset p" using export_keeps [OF assms(1), of par now False] by auto
  have "finite (dom c)" using assms(1) by (auto simp: probe_holds_def flows_hold_def counts_ok_def)
  then have "card (dom c') \<le> card (dom c)" using e(3) by (simp add: conserves_def card_mono)
  moreover have "accounts v (pr_calls p') c' np nb" by (rule accounts_conserves [OF e(3) assms(2)])
  ultimately show ?thesis
    using True e by (intro exI [of _ "p'\<lparr>pr_next_export := advance (pp_export_timeout par) now (pr_next_export p')\<rparr>"] exI [of _ c'])
      (simp add: export_when_due_def probe_holds_def same_link_def)
next
  case False
  then have "export_when_due par now p = Returned p \<or> export_when_due par now p = Returned (p\<lparr>pr_next_export := now + pp_export_timeout par\<rparr>)"
    by (auto simp: export_when_due_def)
  then show ?thesis using assms by (auto simp: probe_holds_def same_link_def)
qed

lemma packet_kept:
  assumes h: "probe_holds v mx p c" and acc: "accounts v (pr_calls p) c np nb" and k: "packet_key v par fuel p (ts, len, w) = Some k"
    and room: "int (card (dom c)) < mx"
  shows "\<exists>p' c'. cb_packet par fuel True ts len w p = Returned p' \<and> probe_holds v mx p' c' \<and>
    accounts v (pr_calls p') c' (\<lambda>x. np x + (if x = k then 1 else 0)) (\<lambda>x. nb x + (if x = k then int len else 0)) \<and>
    card (dom c') \<le> Suc (card (dom c)) \<and> same_link p' p"
proof -
  obtain e offset where e: "packet_elems par fuel p w = Returned (Some (e, offset))" "ie_version e = v" "ie_frag_off e = 0"
    "length (ie_saddr e) = addr_len e" "length (ie_daddr e) = addr_len e" "k = flow_key (key_len v) e"
    using k by (auto simp: packet_key_def split: proc.splits option.splits if_splits)
  obtain t where t: "pr_ipflows p = Some t" "flows_hold v mx False (t, pr_mem p) c" using h by (auto simp: probe_holds_def)
  obtain r t' m' c' where u: "flow_update fuel True True e ts len (t, pr_mem p) = Returned (r, t', m')" "flows_hold v mx False (t', m') c'"
    "card (dom c') \<le> Suc (card (dom c))"
    "\<forall>x. held fst c' x mod 2 ^ 32 = (held fst c x + (if x = k then 1 else 0)) mod 2 ^ 32 \<and>
       held snd c' x mod 2 ^ 32 = (held snd c x + (if x = k then int len else 0)) mod 2 ^ 32"
    using count_update [OF t(2) e(2-5) room, of fuel ts len] unfolding e(6) by blast
  let ?p = "p\<lparr>pr_ipflows := Some t', pr_mem := m', pr_npkts := pr_npkts p + 1, pr_nbytes := pr_nbytes p + (int len - int offset) mod 2 ^ 32\<rparr>"
  have "accounts v (pr_calls p) c' (\<lambda>x. np x + (if x = k then 1 else 0)) (\<lambda>x. nb x + (if x = k then int len else 0))"
    unfolding accounts_def
  proof (intro allI conjI)
    fix x
    have "(exported v fr_packets (pr_calls p) x + held fst c' x) mod 2 ^ 32 =
        (exported v fr_packets (pr_calls p) x + (held fst c x + (if x = k then 1 else 0))) mod 2 ^ 32"
      using spec [OF u(4), of x] by (intro mod_add_cong) auto
    also have "\<dots> = ((exported v fr_packets (pr_calls p) x + held fst c x) + (if x = k then 1 else 0)) mod 2 ^ 32" by (simp add: add.assoc)
    also have "\<dots> = (np x + (if x = k then 1 else 0)) mod 2 ^ 32" using spec [OF acc [unfolded accounts_def], of x] by (intro mod_add_cong) auto
    finally show "(exported v fr_packets (pr_calls p) x + held fst c' x) mod 2 ^ 32 = (np x + (if x = k then 1 else 0)) mod 2 ^ 32" .
    have "(exported v fr_bytes (pr_calls p) x + held snd c' x) mod 2 ^ 32 =
        (exported v fr_bytes (pr_calls p) x + (held snd c x + (if x = k then int len else 0))) mod 2 ^ 32"
      using spec [OF u(4), of x] by (intro mod_add_cong) auto
    also have "\<dots> = ((exported v fr_bytes (pr_calls p) x + held snd c x) + (if x = k then int len else 0)) mod 2 ^ 32" by (simp add: add.assoc)
    also have "\<dots> = (nb x + (if x = k then int len else 0)) mod 2 ^ 32" using spec [OF acc [unfolded accounts_def], of x] by (intro mod_add_cong) auto
    finally show "(exported v fr_bytes (pr_calls p) x + held snd c' x) mod 2 ^ 32 = (nb x + (if x = k then int len else 0)) mod 2 ^ 32" .
  qed
  then have acc': "accounts v (pr_calls ?p) c' (\<lambda>x. np x + (if x = k then 1 else 0)) (\<lambda>x. nb x + (if x = k then int len else 0))" by simp
  have hp: "probe_holds v mx ?p c'" using u(2) by (simp add: probe_holds_def)
  obtain p' c'' where d: "export_when_due par (fst ts) ?p = Returned p'" "probe_holds v mx p' c''"
    "accounts v (pr_calls p') c'' (\<lambda>x. np x + (if x = k then 1 else 0)) (\<lambda>x. nb x + (if x = k then int len else 0))"
    "card (dom c'') \<le> card (dom c')" "same_link p' ?p"
    using export_due_keeps [OF hp acc', of par "fst ts"] by blast
  have "cb_packet par fuel True ts len w p = Returned p'" using e(1) t(1) u(1) d(1) by (cases r) (simp add: cb_packet_def)
  then show ?thesis using d(2-5) u(3) by (auto simp: same_link_def)
qed

section \<open>From capture to export\<close>

lemma packet_key_link: "same_link q p \<Longrightarrow> packet_key v par fuel q x = packet_key v par fuel p x"
  using packet_elems_link [of q p] by (simp add: packet_key_def same_link_def)

lemma run_accounts:
  assumes "probe_holds v mx q c" "accounts v (pr_calls q) c np nb" "same_link q p"
    and "\<forall>x \<in> set (captured_of events). packet_key v par fuel p x \<noteq> None" "int (card (dom c)) + int (length (captured_of events)) \<le> mx"
  shows "\<exists>q' c'. probe_run par fuel events q = Returned q' \<and> probe_holds v mx q' c' \<and>
    accounts v (pr_calls q') c' (\<lambda>k. np k + packets_of v par fuel p (captured_of events) k) (\<lambda>k. nb k + bytes_in v par fuel p (captured_of events) k)"
  using assms
proof (induction events arbitrary: q c np nb)
  case Nil
  then show ?case by (auto simp: packets_of_def bytes_in_def)
next
  case (Cons e events)
  show ?case
  proof (cases e)
    case (Captured x)
    obtain ts len w where x: "x = (ts, len, w)" by (cases x)
    obtain k where k: "packet_key v par fuel p (ts, len, w) = Some k" using Cons.prems(4) Captured x by auto
    then have kq: "packet_key v par fuel q (ts, len, w) = Some k" using packet_key_link [OF Cons.prems(3)] by simp
    have room: "int (card (dom c)) < mx" using Cons.prems(5) Captured by simp
    obtain q1 c1 where q1: "cb_packet par fuel True ts len w q = Returned q1" "probe_holds v mx q1 c1"
      "accounts v (pr_calls q1) c1 (\<lambda>x. np x + (if x = k then 1 else 0)) (\<lambda>x. nb x + (if x = k then int len else 0))"
      "card (dom c1) \<le> Suc (card (dom c))" "same_link q1 q"
      using packet_kept [OF Cons.prems(1,2) kq room] by blast
    have l: "same_link q1 p" using q1(5) Cons.prems(3) by (simp add: same_link_def)
    have "int (card (dom c1)) + int (length (captured_of events)) \<le> mx" using Cons.prems(5) q1(4) Captured by simp
    then obtain q' c' where "probe_run par fuel events q1 = Returned q'" "probe_holds v mx q' c'"
      "accounts v (pr_calls q') c' (\<lambda>x. np x + (if x = k then 1 else 0) + packets_of v par fuel p (captured_of events) x)
        (\<lambda>x. nb x + (if x = k then int len else 0) + bytes_in v par fuel p (captured_of events) x)"
      using Cons.IH [OF q1(2,3) l] Cons.prems(4) Captured by auto
    moreover have "packets_of v par fuel p (captured_of (e # events)) y = (if y = k then 1 else 0) + packets_of v par fuel p (captured_of events) y" for y
      using k by (simp add: Captured x packets_of_def)
    moreover have "bytes_in v par fuel p (captured_of (e # events)) y = (if y = k then int len else 0) + bytes_in v par fuel p (captured_of events) y" for y
      using k by (simp add: Captured x bytes_in_def)
    ultimately show ?thesis using q1(1) by (auto simp: Captured x add.assoc)
  next
    case (Timer now)
    obtain q1 c1 where q1: "export_ipflows par now False q = Returned q1" "probe_holds v mx q1 c1" "conserves v (pr_calls q) c (pr_calls q1) c1"
      "pr_ethernet q1 = pr_ethernet q" "pr_offset q1 = pr_offset q" using export_keeps [OF Cons.prems(1), of par now False] by auto
    have "finite (dom c)" using Cons.prems(1) by (auto simp: probe_holds_def flows_hold_def counts_ok_def)
    then have "card (dom c1) \<le> card (dom c)" using q1(3) by (simp add: conserves_def card_mono)
    moreover have "same_link q1 p" using q1(4,5) Cons.prems(3) by (simp add: same_link_def)
    ultimately show ?thesis
      using Cons.IH [OF q1(2) accounts_conserves [OF q1(3) Cons.prems(2)]] Cons.prems(4,5) q1(1) by (auto simp: Timer cb_export_def)
  qed
qed

text \<open>C16. Nothing is lost between capture and export. For any captured packets of one version of IP, whole and not
  fragmented, and no more of them than the table has room for flows, with exports at any times
  between them, the probe runs to its end; and when it has stopped, the packets, and the bytes, in
  the records it gave to the exporter for a flow are those that were captured of that flow
  (modulo \<open>2 ^ 32\<close>, the range of the counters).\<close>

theorem capture_accounted:
  assumes "flow_init True True maxflows 0 timeout flow_module = ((0, Table t), m)"
    and "pr_ipflows p = Some t" "pr_mem p = m" "pr_calls p = []"
    and "\<forall>x \<in> set (captured_of events). packet_key v par fuel p x \<noteq> None"
    and "int (length (captured_of events)) \<le> (if maxflows \<noteq> 0 then maxflows else 5000)"
  shows "\<exists>p' p''. probe_run par fuel events p = Returned p' \<and> export_all par now p' = Returned p'' \<and> exit_func par now p' = Exited 0 \<and>
    (\<forall>k. exported v fr_packets (pr_calls p'') k mod 2 ^ 32 = packets_of v par fuel p (captured_of events) k mod 2 ^ 32 \<and>
      exported v fr_bytes (pr_calls p'') k mod 2 ^ 32 = bytes_in v par fuel p (captured_of events) k mod 2 ^ 32)"
proof -
  let ?mx = "if maxflows \<noteq> 0 then maxflows else 5000"
  have "flows_hold v ?mx False (t, m) Map.empty" using flows_made [OF assms(1), of v] by simp
  then have h: "probe_holds v ?mx p Map.empty" using assms(2,3) by (simp add: probe_holds_def)
  have a: "accounts v (pr_calls p) Map.empty (\<lambda>_. 0) (\<lambda>_. 0)" by (simp add: accounts_def assms(4) exported_def records_def held_def)
  have room: "int (card (dom (Map.empty :: flow_counts))) + int (length (captured_of events)) \<le> ?mx" using assms(6) by simp
  have "same_link p p" by (simp add: same_link_def)
  from run_accounts [OF h a this assms(5) room] obtain p' c' where p': "probe_run par fuel events p = Returned p'" "probe_holds v ?mx p' c'"
    "accounts v (pr_calls p') c' (packets_of v par fuel p (captured_of events)) (bytes_in v par fuel p (captured_of events))"
    by (auto simp: fun_eq_iff)
  obtain p'' c'' where e: "export_ipflows par now True p' = Returned p''" "probe_holds v ?mx p'' c''"
    "conserves v (pr_calls p') c' (pr_calls p'') c''" "c'' = Map.empty" using export_keeps [OF p'(2), of par now True] by auto
  have acc: "accounts v (pr_calls p'') Map.empty (packets_of v par fuel p (captured_of events)) (bytes_in v par fuel p (captured_of events))"
    using accounts_conserves [OF e(3) p'(3)] e(4) by simp
  obtain t'' where "pr_ipflows p'' = Some t''" "fw_flows t'' = []"
    using e(2,4) by (auto simp: probe_holds_def flows_hold_def counts_ok_def)
  then have "exit_func par now p' = Exited 0" using e(1) by (simp add: exit_func_def export_all_def flow_close_def)
  moreover have "export_all par now p' = Returned p''" using e(1) by (simp add: export_all_def)
  moreover have "\<forall>k. exported v fr_packets (pr_calls p'') k mod 2 ^ 32 = packets_of v par fuel p (captured_of events) k mod 2 ^ 32 \<and>
      exported v fr_bytes (pr_calls p'') k mod 2 ^ 32 = bytes_in v par fuel p (captured_of events) k mod 2 ^ 32"
    using acc unfolding accounts_def held_def by simp
  ultimately show ?thesis using p'(1) by blast
qed

text \<open>Datagrams on an Ethernet.\<close>

definition ethernet_packet :: "nat \<Rightarrow> nat \<Rightarrow> byte list" where
  "ethernet_packet sport dport = replicate 12 0 @ [8, 0] @ ip4_packet 0 32 7 0x4000 64 17 0 [10, 0, 0, 1] [10, 0, 0, 2] sport dport [1, 2, 3, 4]"

lemma ethernet_key:
  assumes "pr_ethernet p" "sport < 65536" "dport < 65536"
  shows "packet_key 4 par fuel p (ts, len, ethernet_packet sport dport) = Some (sport, dport, 17, 0, [10, 0, 0, 1], [10, 0, 0, 2])"
proof -
  define pp where "pp = ip4_packet 0 32 7 0x4000 64 17 0 [10, 0, 0, 1] [10, 0, 0, 2] sport dport [1, 2, 3, 4]"
  note b = ip4_packet_bytes [OF _ _ pp_def]
  have l: "length pp = 28" "pp ! 0 = 0x45" using b by simp_all
  have w: "ethernet_packet sport dport = replicate 12 0 @ 8 # 0 # pp" by (simp add: ethernet_packet_def pp_def)
  have "word_at (ethernet_packet sport dport) 12 = ETHERTYPE_IP" by (simp add: w word_at_def nth_append ETHERTYPE_IP_def)
  moreover have "drop 14 (ethernet_packet sport dport) = pp" by (simp add: w)
  moreover have "skip_tags k pp 28 ETHERTYPE_IP 14 = Returned (Some (pp, 28, 14))" if "k \<noteq> 0" for k
    using that by (cases k) (simp_all add: ETHERTYPE_IP_def ETHERTYPE_8021Q_def)
  moreover have "length (ethernet_packet sport dport) = 42" by (simp add: w l)
  ultimately have "skip_link p (ethernet_packet sport dport) = Returned (Some (pp, 28, 14))"
    using assms(1) by (simp add: skip_link_def g_snaplen_def ETHER_HDRLEN_def)
  moreover have "ipflow_get_elems fuel 28 pp zero_elems = Returned (0, zero_elems\<lparr>ie_version := 4, ie_tos := 0, ie_protocol := 17,
      ie_saddr := [10, 0, 0, 1], ie_daddr := [10, 0, 0, 2], ie_frag_off := 0, ie_sport := sport, ie_dport := dport\<rparr>)"
    unfolding pp_def by (rule ip4_fields) (simp_all add: assms(2,3) has_ports_def IPPROTO_UDP_def)
  ultimately have "packet_elems par fuel p (ethernet_packet sport dport) = Returned (Some (zero_elems\<lparr>ie_version := 4, ie_tos := 0, ie_protocol := 17,
      ie_saddr := [10, 0, 0, 1], ie_daddr := [10, 0, 0, 2], ie_frag_off := 0, ie_sport := sport, ie_dport := dport\<rparr>, 14))"
    using l by (auto simp: packet_elems_def packet_byte_def IPVERSION_def)
  then show ?thesis by (simp add: packet_key_def addr_len_def key_len_def flow_key_def)
qed

definition sample_par :: probe_par where
  "sample_par = \<lparr>pp_ipflow_timeout = 30, pp_ipflow_lifetime = 300, pp_export_timeout = 10, pp_offline = True, pp_inet6 = False\<rparr>"

definition sample_events :: "probe_event list" where
  "sample_events = [Captured ((100, 0), 60, ethernet_packet 5000 53), Captured ((101, 0), 70, ethernet_packet 5000 53), Timer 140,
     Captured ((150, 0), 80, ethernet_packet 5001 53), Captured ((151, 0), 90, ethernet_packet 5000 53)]"

theorem capture_accounted_witness:
  "\<exists>p p' p''. probe_run sample_par 5 sample_events p = Returned p' \<and> export_all sample_par 160 p' = Returned p'' \<and>
    exit_func sample_par 160 p' = Exited 0 \<and>
    exported 4 fr_packets (pr_calls p'') (5000, 53, 17, 0, [10, 0, 0, 1], [10, 0, 0, 2]) mod 2 ^ 32 = 3 \<and>
    exported 4 fr_bytes (pr_calls p'') (5000, 53, 17, 0, [10, 0, 0, 1], [10, 0, 0, 2]) mod 2 ^ 32 = 220"
proof -
  obtain t m where t: "flow_init True True 10 0 30 flow_module = ((0, Table t), m)" by (simp add: flow_init_def Let_def)
  define p where "p = \<lparr>pr_ipflows = Some t, pr_mem = m, pr_calls = [], pr_next_export = 0, pr_npkts = 0, pr_nbytes = 0, pr_ethernet = True, pr_offset = 14\<rparr>"
  have pf: "pr_ipflows p = Some t" "pr_mem p = m" "pr_calls p = []" "pr_ethernet p" by (simp_all add: p_def)
  let ?k = "(5000, 53, 17, 0, [10, 0, 0, 1], [10, 0, 0, 2]) :: flow_key"
  have keys: "packet_key 4 sample_par 5 p (ts, len, ethernet_packet 5000 53) = Some ?k"
    "packet_key 4 sample_par 5 p (ts, len, ethernet_packet 5001 53) = Some (5001, 53, 17, 0, [10, 0, 0, 1], [10, 0, 0, 2])" for ts len
    by (rule ethernet_key [OF pf(4)]; simp)+
  have cap: "captured_of sample_events = [((100, 0), 60, ethernet_packet 5000 53), ((101, 0), 70, ethernet_packet 5000 53),
      ((150, 0), 80, ethernet_packet 5001 53), ((151, 0), 90, ethernet_packet 5000 53)]" by (simp add: sample_events_def)
  have "\<forall>x \<in> set (captured_of sample_events). packet_key 4 sample_par 5 p x \<noteq> None" unfolding cap by (simp add: keys)
  moreover have "int (length (captured_of sample_events)) \<le> (if (10 :: int) \<noteq> 0 then 10 else 5000)" unfolding cap by simp
  ultimately obtain p' p'' where r: "probe_run sample_par 5 sample_events p = Returned p'" "export_all sample_par 160 p' = Returned p''"
    "exit_func sample_par 160 p' = Exited 0"
    "\<forall>k. exported 4 fr_packets (pr_calls p'') k mod 2 ^ 32 = packets_of 4 sample_par 5 p (captured_of sample_events) k mod 2 ^ 32 \<and>
      exported 4 fr_bytes (pr_calls p'') k mod 2 ^ 32 = bytes_in 4 sample_par 5 p (captured_of sample_events) k mod 2 ^ 32"
    using capture_accounted [OF t pf(1-3), of sample_events 4 sample_par 5 160] by blast
  have "packets_of 4 sample_par 5 p (captured_of sample_events) ?k = 3" "bytes_in 4 sample_par 5 p (captured_of sample_events) ?k = 220"
    unfolding cap packets_of_def bytes_in_def by (simp_all add: keys)
  then show ?thesis using r(1-3) spec [OF r(4), of ?k] by auto
qed

section \<open>What goes wrong\<close>

text \<open>
  A packet of IP of which less than a header was captured: that its fields cannot be read is not looked at. On
  an Ethernet without data the first byte is read where none is, and a tag at the end of the packet is
  read past it.
\<close>

lemma short_header_used:
  assumes "\<not> pr_ethernet p" "pr_offset p = 0" "length w < 20" "2 \<le> length w" "w ! 0 = 0x45"
  shows "cb_packet par fuel ok ts len w p = Undefined ''uninitialised fields''"
proof -
  have "skip_link p w = Returned (Some (w, length w, 0))" using assms(1-3) by (simp add: skip_link_def g_snaplen_def)
  then have "packet_elems par fuel p w = Undefined ''uninitialised fields''"
    using assms(3-5) by (auto simp: packet_elems_def packet_byte_def IPVERSION_def ipflow_get_elems_def Let_def)
  then show ?thesis by (simp add: cb_packet_def)
qed

lemma empty_frame_read:
  assumes "pr_ethernet p" "length w = 14"
  shows "cb_packet par fuel ok ts len w p = Undefined ''read past the packet''"
proof -
  have "skip_tags k pp 0 e off = Returned (Some (pp, 0, off))" if "k \<noteq> 0" for k pp e off using that by (cases k) simp_all
  then have "skip_link p w = Returned (Some ([], 0, 14))" using assms by (simp add: skip_link_def g_snaplen_def ETHER_HDRLEN_def)
  then show ?thesis by (simp add: cb_packet_def packet_elems_def packet_byte_def)
qed

lemma cut_tag_read:
  assumes "pr_ethernet p" "15 \<le> length w" "length w < 18" "word_at w 12 = ETHERTYPE_8021Q"
  shows "cb_packet par fuel ok ts len w p = Undefined ''read past the packet''"
proof -
  have "skip_tags (Suc k) pp c ETHERTYPE_8021Q off = Undefined ''read past the packet''" if "c \<noteq> 0" "length pp < 4" for k pp c off
    using that by simp
  then have "skip_link p w = Undefined ''read past the packet''"
    using assms by (simp add: skip_link_def g_snaplen_def ETHER_HDRLEN_def del: skip_tags.simps)
  then show ?thesis by (simp add: cb_packet_def packet_elems_def)
qed

text \<open>With two directions and no idle time, a flow that stays is exported with a value too few.\<close>

lemma biflow_argument_missing:
  assumes "fm_node m a = Some n" "fl_iflow n" "fl_rflow n = None" "pp_ipflow_timeout par = 0" "pp_ipflow_lifetime par = 0" "fl_packets n \<noteq> 0"
  shows "export_biflow par now False a (t, m, out) = Undefined ''too few arguments''"
  using assms by (simp add: export_biflow_def with_flow_def flow_expired_def)

text \<open>A flow between an address and port and the same is not one that began a pair, and is never exported.\<close>

lemma own_reverse_not_exported:
  assumes "fm_node m a = Some n" "\<not> fl_iflow n"
  shows "export_biflow par now flag a (t, m, out) = Returned (t, m, out)"
  using assms by (simp add: export_biflow_def with_flow_def)

text \<open>A reverse flow that is next in the list is freed with the flow; the walk goes on from it.\<close>

lemma next_is_freed:
  assumes "distinct (a # b # as)" "export_biflow par now flag a (t, m, out) = Returned (t', m', out')"
    and "fw_flows t = a # b # as" "fw_flows t' = as"
  shows "walk_flows (Suc (Suc k)) (export_biflow par now flag) (Some a) (t, m, out) = Undefined ''freed flow''"
  using assms by simp

text \<open>When the program ends before there is a table, the table is read through a null pointer.\<close>

lemma exit_before_start: "pr_ipflows p = None \<Longrightarrow> exit_func par now p = Undefined ''null pointer''"
  by (simp add: exit_func_def export_all_def export_ipflows_def)

text \<open>The quote at the end of a filter stays.\<close>

lemma filter_keeps_quote: "filter_option (CHR 0x27 # s @ [CHR 0x27]) = s @ [CHR 0x27]"
  by (simp add: filter_option_def)

text \<open>A collector is given as a host, or as a host and a port with one colon between.\<close>

lemma collector_with_port:
  assumes "CHR '':'' \<notin> set h" "CHR '':'' \<notin> set d" "atoi d > 0"
  shows "collector_address (h @ '':'' @ d) port = (h, atoi d)" "port \<noteq> 0 \<Longrightarrow> collector_address h port = (h, port)"
proof -
  have t: "takeWhile (\<lambda>c. c \<noteq> CHR '':'') (h @ '':'' @ d) = h" "dropWhile (\<lambda>c. c \<noteq> CHR '':'') (h @ '':'' @ d) = '':'' @ d"
    using assms(1) by (auto simp: takeWhile_append dropWhile_append)
  show "collector_address (h @ '':'' @ d) port = (h, atoi d)"
    unfolding collector_address_def t using assms by (simp add: Let_def)
  show "port \<noteq> 0 \<Longrightarrow> collector_address h port = (h, port)" using assms(1) by (simp add: collector_address_def Let_def)
qed

text \<open>The time of the next export is later than the packet that was exported at.\<close>

lemma advance_later: "step > 0 \<Longrightarrow> now < advance step now next"
proof (induction step now "next" rule: advance.induct)
  case (1 step now "next")
  then show ?case by (subst advance.simps) auto
qed

end
