(* ===== verification/IpfixElements.thy ===== *)
theory IpfixElements
  imports IpfixApi
begin

text \<open>
  The information elements that are built into the library (\<open>lib/libipfix/lib/ipfix_fields.h\<close>, with the numbers of
  \<open>ipfix_def.h\<close>), in the order of the array, and what the library does with every one of them.
\<close>

section \<open>The elements\<close>

text \<open>Elements without an enterprise number: number, length, coding, name and documentation.\<close>

definition element :: "int \<Rightarrow> int \<Rightarrow> int \<Rightarrow> string \<Rightarrow> string \<Rightarrow> ipfix_field_type" where
  "element type len coding name doc = \<lparr>ft_eno = 0, ft_ftype = type, ft_length = len, ft_coding = coding, ft_name = name, ft_documentation = doc\<rparr>"

definition ipfix_field_types_1 :: "ipfix_field_type list" where
  "ipfix_field_types_1 =
    [element 1 8 IPFIX_CODING_UINT ''octetDeltaCount'' '''',
     element 2 8 IPFIX_CODING_UINT ''packetDeltaCount'' '''',
     element 3 8 IPFIX_CODING_UINT ''flows'' ''Netflow Number of Flows that were aggregated'',
     element 4 1 IPFIX_CODING_UINT ''protocolIdentifier'' '''',
     element 5 1 IPFIX_CODING_UINT ''ipClassOfService'' '''',
     element 6 1 IPFIX_CODING_UINT ''tcpControlBits'' '''',
     element 7 2 IPFIX_CODING_UINT ''sourceTransportPort'' '''',
     element 8 4 IPFIX_CODING_IPADDR ''sourceIPv4Address'' '''',
     element 9 1 IPFIX_CODING_UINT ''sourceIPv4PrefixLength'' '''',
     element 10 4 IPFIX_CODING_UINT ''ingressInterface'' '''',
     element 11 2 IPFIX_CODING_UINT ''destinationTransportPort'' '''',
     element 12 4 IPFIX_CODING_IPADDR ''destinationIPv4Address'' '''',
     element 13 1 IPFIX_CODING_UINT ''destinationIPv4PrefixLength'' '''',
     element 14 4 IPFIX_CODING_UINT ''egressInterface'' '''',
     element 15 4 IPFIX_CODING_IPADDR ''ipNextHopIPv4Address'' '''',
     element 16 4 IPFIX_CODING_UINT ''bgpSourceAsNumber'' '''',
     element 17 4 IPFIX_CODING_UINT ''bgpDestinationAsNumber'' '''',
     element 18 4 IPFIX_CODING_IPADDR ''bgpNextHopIPv4Address'' '''',
     element 19 8 IPFIX_CODING_UINT ''postMCastPacketDeltaCount'' '''',
     element 20 8 IPFIX_CODING_UINT ''postMCastOctetDeltaCount'' '''',
     element 21 4 IPFIX_CODING_UINT ''flowEndSysUpTime'' '''',
     element 22 4 IPFIX_CODING_UINT ''flowStartSysUpTime'' '''',
     element 23 8 IPFIX_CODING_UINT ''postOctetDeltaCount'' '''',
     element 24 8 IPFIX_CODING_UINT ''postPacketDeltaCount'' '''',
     element 25 8 IPFIX_CODING_UINT ''minimumIpTotalLength'' '''',
     element 26 8 IPFIX_CODING_UINT ''maximumIpTotalLength'' '''',
     element 27 16 IPFIX_CODING_IPADDR ''sourceIPv6Address'' '''',
     element 28 16 IPFIX_CODING_IPADDR ''destinationIPv6Address'' '''',
     element 29 1 IPFIX_CODING_UINT ''sourceIPv6PrefixLength'' '''',
     element 30 1 IPFIX_CODING_UINT ''destinationIPv6PrefixLength'' '''',
     element 31 4 IPFIX_CODING_UINT ''flowLabelIPv6'' '''',
     element 32 2 IPFIX_CODING_UINT ''icmpTypeCodeIPv4'' '''',
     element 33 1 IPFIX_CODING_UINT ''igmpType'' '''',
     element 34 4 IPFIX_CODING_UINT ''sampling_interval'' ''Netflow Sampling Interval'',
     element 35 1 IPFIX_CODING_UINT ''sampling_algorithm'' ''Netflow Sampling Algorithm'',
     element 36 2 IPFIX_CODING_UINT ''flowActiveTimeout'' '''',
     element 37 2 IPFIX_CODING_UINT ''flowIdleTimeout'' '''',
     element 38 1 IPFIX_CODING_UINT ''engine_type'' ''Netflow Engine Type'',
     element 39 1 IPFIX_CODING_UINT ''engine_id'' ''Netflow Engine ID'',
     element 40 8 IPFIX_CODING_UINT ''exportedOctetTotalCount'' '''',
     element 41 8 IPFIX_CODING_UINT ''exportedMessageTotalCount'' '''',
     element 42 8 IPFIX_CODING_UINT ''exportedFlowRecordTotalCount'' '''',
     element 44 4 IPFIX_CODING_IPADDR ''sourceIPv4Prefix'' '''',
     element 45 4 IPFIX_CODING_IPADDR ''destinationIPv4Prefix'' '''',
     element 46 1 IPFIX_CODING_UINT ''mplsTopLabelType'' '''',
     element 47 4 IPFIX_CODING_IPADDR ''mplsTopLabelIPv4Address'' '''',
     element 48 1 IPFIX_CODING_UINT ''flow_sampler_id'' ''Netflow Flow Sampler ID'',
     element 49 1 IPFIX_CODING_UINT ''flow_sampler_mode'' ''Netflow Flow Sampler Mode'',
     element 50 4 IPFIX_CODING_UINT ''flow_sampler_random_interval'' ''Netflow Packet Sample Interval'',
     element 52 1 IPFIX_CODING_UINT ''minimumTTL'' '''',
     element 53 1 IPFIX_CODING_UINT ''maximumTTL'' '''',
     element 54 4 IPFIX_CODING_UINT ''fragmentIdentification'' '''',
     element 55 1 IPFIX_CODING_UINT ''postIpClassOfService'' '''',
     element 56 6 IPFIX_CODING_BYTES ''sourceMacAddress'' '''',
     element 57 6 IPFIX_CODING_BYTES ''postDestinationMacAddress'' '''',
     element 58 2 IPFIX_CODING_UINT ''vlanId'' '''',
     element 59 2 IPFIX_CODING_UINT ''postVlanId'' '''',
     element 60 1 IPFIX_CODING_UINT ''ipVersion'' '''',
     element 61 1 IPFIX_CODING_UINT ''flowDirection'' '''',
     element 62 16 IPFIX_CODING_IPADDR ''ipNextHopIPv6Address'' '''',
     element 63 16 IPFIX_CODING_IPADDR ''bgpNextHopIPv6Address'' '''',
     element 64 4 IPFIX_CODING_UINT ''ipv6ExtensionHeaders'' '''',
     element 70 65535 IPFIX_CODING_BYTES ''mplsTopLabelStackSection'' '''',
     element 71 65535 IPFIX_CODING_BYTES ''mplsLabelStackSection2'' '''',
     element 72 65535 IPFIX_CODING_BYTES ''mplsLabelStackSection3'' '''',
     element 73 65535 IPFIX_CODING_BYTES ''mplsLabelStackSection4'' '''',
     element 74 65535 IPFIX_CODING_BYTES ''mplsLabelStackSection5'' '''',
     element 75 65535 IPFIX_CODING_BYTES ''mplsLabelStackSection6'' '''',
     element 76 65535 IPFIX_CODING_BYTES ''mplsLabelStackSection7'' '''',
     element 77 65535 IPFIX_CODING_BYTES ''mplsLabelStackSection8'' '''',
     element 78 65535 IPFIX_CODING_BYTES ''mplsLabelStackSection9'' '''']"

definition ipfix_field_types_2 :: "ipfix_field_type list" where
  "ipfix_field_types_2 =
    [element 79 65535 IPFIX_CODING_BYTES ''mplsLabelStackSection10'' '''',
     element 80 6 IPFIX_CODING_BYTES ''destinationMacAddress'' '''',
     element 81 6 IPFIX_CODING_BYTES ''postSourceMacAddress'' '''',
     element 85 8 IPFIX_CODING_UINT ''octetTotalCount'' '''',
     element 86 8 IPFIX_CODING_UINT ''packetTotalCount'' '''',
     element 88 2 IPFIX_CODING_UINT ''fragmentOffset'' '''',
     element 90 65535 IPFIX_CODING_BYTES ''mplsVpnRouteDistinguisher'' '''',
     element 128 4 IPFIX_CODING_UINT ''bgpNextAdjacentAsNumber'' '''',
     element 129 4 IPFIX_CODING_UINT ''bgpPrevAdjacentAsNumber'' '''',
     element 130 4 IPFIX_CODING_IPADDR ''exporterIPv4Address'' '''',
     element 131 16 IPFIX_CODING_IPADDR ''exporterIPv6Address'' '''',
     element 132 8 IPFIX_CODING_UINT ''droppedOctetDeltaCount'' '''',
     element 133 8 IPFIX_CODING_UINT ''droppedPacketDeltaCount'' '''',
     element 134 8 IPFIX_CODING_UINT ''droppedOctetTotalCount'' '''',
     element 135 8 IPFIX_CODING_UINT ''droppedPacketTotalCount'' '''',
     element 136 1 IPFIX_CODING_UINT ''flowEndReason'' '''',
     element 137 8 IPFIX_CODING_UINT ''commonPropertiesId'' '''',
     element 138 4 IPFIX_CODING_UINT ''observationPointId'' '''',
     element 139 2 IPFIX_CODING_UINT ''icmpTypeCodeIPv6'' '''',
     element 140 16 IPFIX_CODING_IPADDR ''mplsTopLabelIPv6Address'' '''',
     element 141 4 IPFIX_CODING_UINT ''lineCardId'' '''',
     element 142 4 IPFIX_CODING_UINT ''portId'' '''',
     element 143 4 IPFIX_CODING_UINT ''meteringProcessId'' '''',
     element 144 4 IPFIX_CODING_UINT ''exportingProcessId'' '''',
     element 145 2 IPFIX_CODING_UINT ''templateId'' '''',
     element 146 1 IPFIX_CODING_UINT ''wlanChannelId'' '''',
     element 147 65535 IPFIX_CODING_STRING ''wlanSSID'' '''',
     element 148 8 IPFIX_CODING_UINT ''flowId'' '''',
     element 149 4 IPFIX_CODING_UINT ''observationDomainId'' '''',
     element 150 4 IPFIX_CODING_UINT ''flowStartSeconds'' '''',
     element 151 4 IPFIX_CODING_UINT ''flowEndSeconds'' '''',
     element 152 8 IPFIX_CODING_UINT ''flowStartMilliseconds'' '''',
     element 153 8 IPFIX_CODING_UINT ''flowEndMilliseconds'' '''',
     element 154 8 IPFIX_CODING_NTP ''flowStartMicroseconds'' '''',
     element 155 8 IPFIX_CODING_NTP ''flowEndMicroseconds'' '''',
     element 156 8 IPFIX_CODING_NTP ''flowStartNanoseconds'' '''',
     element 157 8 IPFIX_CODING_NTP ''flowEndNanoseconds'' '''',
     element 158 4 IPFIX_CODING_UINT ''flowStartDeltaMicroseconds'' '''',
     element 159 4 IPFIX_CODING_UINT ''flowEndDeltaMicroseconds'' '''',
     element 160 8 IPFIX_CODING_UINT ''systemInitTimeMilliseconds'' '''',
     element 161 4 IPFIX_CODING_UINT ''flowDurationMilliseconds'' '''',
     element 162 4 IPFIX_CODING_UINT ''flowDurationMicroseconds'' '''',
     element 163 8 IPFIX_CODING_UINT ''observedFlowTotalCount'' '''',
     element 164 8 IPFIX_CODING_UINT ''ignoredPacketTotalCount'' '''',
     element 165 8 IPFIX_CODING_UINT ''ignoredOctetTotalCount'' '''',
     element 166 8 IPFIX_CODING_UINT ''notSentFlowTotalCount'' '''',
     element 167 8 IPFIX_CODING_UINT ''notSentPacketTotalCount'' '''',
     element 168 8 IPFIX_CODING_UINT ''notSentOctetTotalCount'' '''',
     element 169 16 IPFIX_CODING_IPADDR ''destinationIPv6Prefix'' '''',
     element 170 16 IPFIX_CODING_IPADDR ''sourceIPv6Prefix'' '''',
     element 171 8 IPFIX_CODING_UINT ''postOctetTotalCount'' '''',
     element 172 8 IPFIX_CODING_UINT ''postPacketTotalCount'' '''',
     element 173 8 IPFIX_CODING_UINT ''flowKeyIndicator'' '''',
     element 174 8 IPFIX_CODING_UINT ''postMCastPacketTotalCount'' '''',
     element 175 8 IPFIX_CODING_UINT ''postMCastOctetTotalCount'' '''',
     element 176 1 IPFIX_CODING_UINT ''icmpTypeIPv4'' '''',
     element 177 1 IPFIX_CODING_UINT ''icmpCodeIPv4'' '''',
     element 178 1 IPFIX_CODING_UINT ''icmpTypeIPv6'' '''',
     element 179 1 IPFIX_CODING_UINT ''icmpCodeIPv6'' '''',
     element 180 2 IPFIX_CODING_UINT ''udpSourcePort'' '''',
     element 181 2 IPFIX_CODING_UINT ''udpDestinationPort'' '''',
     element 182 2 IPFIX_CODING_UINT ''tcpSourcePort'' '''',
     element 183 2 IPFIX_CODING_UINT ''tcpDestinationPort'' '''',
     element 184 4 IPFIX_CODING_UINT ''tcpSequenceNumber'' '''',
     element 185 4 IPFIX_CODING_UINT ''tcpAcknowledgementNumber'' '''',
     element 186 2 IPFIX_CODING_UINT ''tcpWindowSize'' '''',
     element 187 2 IPFIX_CODING_UINT ''tcpUrgentPointer'' '''',
     element 188 1 IPFIX_CODING_UINT ''tcpHeaderLength'' '''',
     element 189 1 IPFIX_CODING_UINT ''ipHeaderLength'' '''',
     element 190 2 IPFIX_CODING_UINT ''totalLengthIPv4'' '''',
     element 191 2 IPFIX_CODING_UINT ''payloadLengthIPv6'' '''']"

definition ipfix_field_types_3 :: "ipfix_field_type list" where
  "ipfix_field_types_3 =
    [element 192 1 IPFIX_CODING_UINT ''ipTTL'' '''',
     element 193 1 IPFIX_CODING_UINT ''nextHeaderIPv6'' '''',
     element 194 4 IPFIX_CODING_UINT ''mplsPayloadLength'' '''',
     element 195 1 IPFIX_CODING_UINT ''ipDiffServCodePoint'' '''',
     element 196 1 IPFIX_CODING_UINT ''ipPrecedence'' '''',
     element 197 1 IPFIX_CODING_UINT ''fragmentFlags'' '''',
     element 198 8 IPFIX_CODING_UINT ''octetDeltaSumOfSquares'' '''',
     element 199 8 IPFIX_CODING_UINT ''octetTotalSumOfSquares'' '''',
     element 200 1 IPFIX_CODING_UINT ''mplsTopLabelTTL'' '''',
     element 201 4 IPFIX_CODING_UINT ''mplsLabelStackLength'' '''',
     element 202 4 IPFIX_CODING_UINT ''mplsLabelStackDepth'' '''',
     element 203 1 IPFIX_CODING_UINT ''mplsTopLabelExp'' '''',
     element 204 4 IPFIX_CODING_UINT ''ipPayloadLength'' '''',
     element 205 2 IPFIX_CODING_UINT ''udpMessageLength'' '''',
     element 206 1 IPFIX_CODING_UINT ''isMulticast'' '''',
     element 207 1 IPFIX_CODING_UINT ''ipv4IHL'' '''',
     element 208 4 IPFIX_CODING_UINT ''ipv4Options'' '''',
     element 209 8 IPFIX_CODING_UINT ''tcpOptions'' '''',
     element 210 65535 IPFIX_CODING_BYTES ''paddingOctets'' '''',
     element 211 4 IPFIX_CODING_IPADDR ''collectorIPv4Address'' '''',
     element 212 16 IPFIX_CODING_IPADDR ''collectorIPv6Address'' '''',
     element 213 4 IPFIX_CODING_UINT ''collectorInterface'' '''',
     element 214 1 IPFIX_CODING_UINT ''collectorProtocolVersion'' '''',
     element 215 1 IPFIX_CODING_UINT ''collectorTransportProtocol'' '''',
     element 216 2 IPFIX_CODING_UINT ''collectorTransportPort'' '''',
     element 217 2 IPFIX_CODING_UINT ''exporterTransportPort'' '''',
     element 218 8 IPFIX_CODING_UINT ''tcpSynTotalCount'' '''',
     element 219 8 IPFIX_CODING_UINT ''tcpFinTotalCount'' '''',
     element 220 8 IPFIX_CODING_UINT ''tcpRstTotalCount'' '''',
     element 221 8 IPFIX_CODING_UINT ''tcpPshTotalCount'' '''',
     element 222 8 IPFIX_CODING_UINT ''tcpAckTotalCount'' '''',
     element 223 8 IPFIX_CODING_UINT ''tcpUrgTotalCount'' '''',
     element 224 8 IPFIX_CODING_UINT ''ipTotalLength'' '''',
     element 237 1 IPFIX_CODING_UINT ''postMplsTopLabelExp'' '''',
     element 238 2 IPFIX_CODING_UINT ''tcpWindowScale'' '''',
     element 300 8 IPFIX_CODING_UINT ''observationPointId_PSAMP'' '''',
     element 301 8 IPFIX_CODING_UINT ''selectionSequenceId'' '''',
     element 302 2 IPFIX_CODING_UINT ''selectorId'' '''',
     element 303 2 IPFIX_CODING_UINT ''informationElementId'' '''',
     element 304 2 IPFIX_CODING_UINT ''selectorAlgorithm'' '''',
     element 305 4 IPFIX_CODING_UINT ''samplingPacketInterval'' '''',
     element 306 4 IPFIX_CODING_UINT ''samplingPacketSpace'' '''',
     element 307 8 IPFIX_CODING_NTP ''samplingTimeInterval'' '''',
     element 308 8 IPFIX_CODING_NTP ''samplingTimeSpace'' '''',
     element 309 4 IPFIX_CODING_UINT ''samplingSize'' '''',
     element 310 4 IPFIX_CODING_UINT ''samplingPopulation'' '''',
     element 311 8 IPFIX_CODING_FLOAT ''samplingProbability'' '''',
     element 312 4 IPFIX_CODING_UINT ''dataLinkFrameSize'' '''',
     element 313 65535 IPFIX_CODING_BYTES ''ipHeaderPacketSection'' '''',
     element 314 65535 IPFIX_CODING_BYTES ''ipPayloadPacketSection'' '''',
     element 315 65535 IPFIX_CODING_BYTES ''dataLinkFrameSection'' '''',
     element 316 65535 IPFIX_CODING_BYTES ''mplsLabelStackSection'' '''',
     element 317 65535 IPFIX_CODING_BYTES ''mplsPayloadPacketSection'' '''',
     element 318 8 IPFIX_CODING_UINT ''packetsObserved'' '''',
     element 319 8 IPFIX_CODING_UINT ''packetsSelected'' '''',
     element 320 8 IPFIX_CODING_FLOAT ''fixedError'' '''',
     element 321 8 IPFIX_CODING_FLOAT ''relativeError'' '''',
     element 322 4 IPFIX_CODING_UINT ''observationTimeSeconds'' '''',
     element 323 8 IPFIX_CODING_UINT ''observationTimeMilliseconds'' '''',
     element 324 8 IPFIX_CODING_NTP ''observationTimeMicroseconds'' '''',
     element 325 8 IPFIX_CODING_NTP ''observationTimeNanoseconds'' '''',
     element 326 8 IPFIX_CODING_UINT ''digestHashValue'' '''',
     element 327 8 IPFIX_CODING_UINT ''hashIPPayloadOffset'' '''',
     element 328 8 IPFIX_CODING_UINT ''hashIPPayloadSize'' '''',
     element 329 8 IPFIX_CODING_UINT ''hashOutputRangeMin'' '''',
     element 330 8 IPFIX_CODING_UINT ''hashOutputRangeMax'' '''',
     element 331 8 IPFIX_CODING_UINT ''hashSelectedRangeMin'' '''',
     element 332 8 IPFIX_CODING_UINT ''hashSelectedRangeMax'' '''',
     element 333 1 IPFIX_CODING_BYTES ''hashDigestOutput'' '''',
     element 334 8 IPFIX_CODING_UINT ''hashInitialiserValue'' '''']"

definition ipfix_field_types :: "ipfix_field_type list" where
  "ipfix_field_types = ipfix_field_types_1 @ ipfix_field_types_2 @ ipfix_field_types_3 @ [element 0 (-1) 0 '''' '''']"

section \<open>What holds of all of them\<close>

text \<open>Numbers rise along the array, and a length is one that the encoding of the element supports.\<close>

fun rising :: "int \<Rightarrow> ipfix_field_type list \<Rightarrow> bool" where
  "rising n [] = True"
| "rising n (ft # fts) \<longleftrightarrow> n < ft_ftype ft \<and> rising (ft_ftype ft) fts"

definition element_ok :: "ipfix_field_type \<Rightarrow> bool" where
  "element_ok ft \<longleftrightarrow> ft_eno ft = 0 \<and> codec_length (fi_encode (new_field ft)) (nat (ft_length ft)) \<and> ft_ftype ft < 0x8000"

lemmas element_simps = element_def element_ok_def new_field_def codec_length_def IPFIX_CODING_INT_def IPFIX_CODING_UINT_def
  IPFIX_CODING_BYTES_def IPFIX_CODING_STRING_def IPFIX_CODING_FLOAT_def IPFIX_CODING_NTP_def IPFIX_CODING_IPADDR_def

lemma rising_append: "rising n (xs @ ys) \<longleftrightarrow> rising n xs \<and> rising (if xs = [] then n else ft_ftype (List.last xs)) ys"
  by (induction xs arbitrary: n) auto

lemma rising_above: "rising n fts \<Longrightarrow> ft \<in> set fts \<Longrightarrow> n < ft_ftype ft"
  by (induction fts arbitrary: n) fastforce+

lemma rising_distinct: "rising n fts \<Longrightarrow> distinct (map ft_ftype fts)"
  by (induction fts arbitrary: n) (auto dest: rising_above)

lemma types_rising_1: "rising 0 ipfix_field_types_1" by (simp add: ipfix_field_types_1_def element_def)
lemma types_rising_2: "rising 78 ipfix_field_types_2" by (simp add: ipfix_field_types_2_def element_def)
lemma types_rising_3: "rising 191 ipfix_field_types_3" by (simp add: ipfix_field_types_3_def element_def)

lemma types_ok_1: "list_all element_ok ipfix_field_types_1" by (simp add: ipfix_field_types_1_def element_simps)
lemma types_ok_2: "list_all element_ok ipfix_field_types_2" by (simp add: ipfix_field_types_2_def element_simps)
lemma types_ok_3: "list_all element_ok ipfix_field_types_3" by (simp add: ipfix_field_types_3_def element_simps)

definition elements :: "ipfix_field_type list" where
  "elements = ipfix_field_types_1 @ ipfix_field_types_2 @ ipfix_field_types_3"

lemma elements_rising: "rising 0 elements"
proof -
  have "ft_ftype (List.last ipfix_field_types_1) = 78" "ft_ftype (List.last ipfix_field_types_2) = 191"
    by (simp_all add: ipfix_field_types_1_def ipfix_field_types_2_def element_def)
  moreover have "ipfix_field_types_1 \<noteq> []" "ipfix_field_types_2 \<noteq> []" by (simp_all add: ipfix_field_types_1_def ipfix_field_types_2_def)
  ultimately show ?thesis using types_rising_1 types_rising_2 types_rising_3 by (simp add: elements_def rising_append)
qed

lemma elements_ok: "ft \<in> set elements \<Longrightarrow> element_ok ft"
  using types_ok_1 types_ok_2 types_ok_3 by (auto simp: elements_def list_all_iff)

lemma takeWhile_rising: "rising n fts \<Longrightarrow> 0 \<le> n \<Longrightarrow> takeWhile (\<lambda>ft. ft_ftype ft \<noteq> 0) (fts @ element 0 l c s d # rest) = fts"
  by (induction fts arbitrary: n) (auto simp: element_def)

text \<open>The array is read up to its end.\<close>

lemma add_types: "add_elements (\<lambda>_. True) ipfix_field_types fs = (0, rev (map new_field elements) @ fs)"
  using takeWhile_rising [OF elements_rising, of "-1" 0 "''''" "''''" "[]"]
  by (simp add: add_elements_all ipfix_field_types_def elements_def)

lemma get_ftinfo_unique:
  assumes "f \<in> set fs" "\<And>g. g \<in> set fs \<Longrightarrow> ft_ftype (fi_ft g) = ft_ftype (fi_ft f) \<Longrightarrow> ft_eno (fi_ft g) = ft_eno (fi_ft f) \<Longrightarrow> g = f"
  shows "ipfix_get_ftinfo fs (ft_eno (fi_ft f)) (ft_ftype (fi_ft f)) = Some f"
  using assms by (induction fs) auto

lemma get_ftinfo_skip: "\<forall>f \<in> set fs. ft_eno (fi_ft f) \<noteq> eno \<Longrightarrow> ipfix_get_ftinfo (fs @ gs) eno type = ipfix_get_ftinfo gs eno type"
  by (induction fs) auto

lemma get_element:
  assumes "ft \<in> set elements" "\<forall>f \<in> set fs. ft_eno (fi_ft f) \<noteq> 0"
  shows "ipfix_get_ftinfo (fs @ rev (map new_field elements)) 0 (ft_ftype ft) = Some (new_field ft)"
proof -
  have e: "ft_eno ft = 0" using elements_ok [OF assms(1)] by (simp add: element_ok_def)
  have d: "distinct (map ft_ftype elements)" by (rule rising_distinct [OF elements_rising])
  have "ipfix_get_ftinfo (rev (map new_field elements)) (ft_eno (fi_ft (new_field ft))) (ft_ftype (fi_ft (new_field ft))) = Some (new_field ft)"
    using assms(1) d by (intro get_ftinfo_unique) (auto simp: codec_new_field distinct_map inj_on_def)
  then show ?thesis using get_ftinfo_skip [OF assms(2)] e by (simp add: codec_new_field)
qed

text \<open>
  After \<open>ipfix_init\<close> every element of the array is known under its number, with an encoding that its own decoding
  undoes for values of its length.
\<close>

theorem elements_known:
  assumes "gs_tstart st = 0" "gs_fields st = []" "ie_alloc env" "\<forall>ft \<in> set reverse_types. ft_eno ft \<noteq> 0"
  shows "\<exists>st'. ipfix_init env ipfix_field_types reverse_types st = Returned (0, st') \<and>
    (\<forall>ft \<in> set elements. ipfix_get_ftinfo (gs_fields st') 0 (ft_ftype ft) = Some (new_field ft) \<and>
      (\<forall>bs. length bs = nat (ft_length ft) \<longrightarrow> run_decode (gs_host st') (fi_decode (new_field ft)) (snd (run_encode (gs_host st') (fi_encode (new_field ft)) bs)) = (0, bs)))"
proof -
  let ?rs = "rev (map new_field (takeWhile (\<lambda>ft. ft_ftype ft \<noteq> 0) reverse_types))"
  have fs: "add_elements (\<lambda>_. True) reverse_types (rev (map new_field elements)) = (0, ?rs @ rev (map new_field elements))"
    by (simp add: add_elements_all)
  have eno: "\<forall>f \<in> set ?rs. ft_eno (fi_ft f) \<noteq> 0" using assms(4) by (auto simp: codec_new_field dest: set_takeWhileD)
  define st' where "st' = st\<lparr>gs_host := testEndianness (gs_host st), gs_tstart := ie_now env, gs_lasttid := 255, gs_bufs := 2,
    gs_fields := ?rs @ rev (map new_field elements)\<rparr>"
  have "ipfix_init env ipfix_field_types reverse_types st = Returned (0, st')"
    using assms(1-3) by (simp add: ipfix_init_def add_types fs st'_def Let_def)
  moreover have "ipfix_get_ftinfo (gs_fields st') 0 (ft_ftype ft) = Some (new_field ft)" if "ft \<in> set elements" for ft
    using get_element [OF that eno] by (simp add: st'_def)
  moreover have "run_decode (gs_host st') (fi_decode (new_field ft)) (snd (run_encode (gs_host st') (fi_encode (new_field ft)) bs)) = (0, bs)"
    if "ft \<in> set elements" "length bs = nat (ft_length ft)" for ft bs
    using elements_ok [OF that(1)] that(2) decode_encode [of "fi_encode (new_field ft)" bs "gs_host st'"] host_ok_test
    by (simp add: element_ok_def codec_new_field st'_def)
  ultimately show ?thesis by blast
qed

end
