(* ===== verification/ProbeSetup.thy ===== *)
theory ProbeSetup
  imports ProbeProps IpfixElements
begin

text \<open>
  The start of the probe (\<open>probe/probe.c\<close>): the command line, the exporter with its templates, the capture, and
  what the calls made for flows are for the exporter. Options come as \<open>getopt_long\<close> finds them; what the
  libraries for capturing answer is an argument.
\<close>

section \<open>Options\<close>

record probe_options =
  po_interface :: string
  po_filter :: "string option"
  po_collector :: string
  po_port :: int
  po_protocol :: ipfix_proto
  po_ssl :: bool
  po_cafile :: string
  po_cadir :: "string option"
  po_keyfile :: string
  po_certfile :: string
  po_logfile :: "string option"
  po_promisc :: bool
  po_offline :: bool
  po_daemon :: bool
  po_vlevel :: int
  po_odid :: int
  po_ipflow_timeout :: int
  po_ipflow_max :: int
  po_ipflow_lifetime :: int
  po_biflows :: bool
  po_export_timeout :: int

definition probe_defaults :: probe_options where
  "probe_defaults = \<lparr>po_interface = '''', po_filter = None, po_collector = ''localhost'', po_port = 0, po_protocol = IPFIX_PROTO_TCP,
     po_ssl = False, po_cafile = ''rootcert.pem'', po_cadir = None, po_keyfile = ''client.pem'', po_certfile = ''client.pem'', po_logfile = None,
     po_promisc = True, po_offline = False, po_daemon = False, po_vlevel = 0, po_odid = 1, po_ipflow_timeout = 30, po_ipflow_max = 25000,
     po_ipflow_lifetime = 300, po_biflows = False, po_export_timeout = 10\<rparr>"

text \<open>
  \<open>sscanf\<close> with \<open>%u\<close> and \<open>%d\<close>: the number that the digits after an optional sign give, as \<open>strtoul\<close> and \<open>strtol\<close> do,
  stored in 32 bits; without digits nothing is stored.
\<close>

definition scan_digits :: "string \<Rightarrow> (bool \<times> nat) option" where
  "scan_digits s =
     (let t = dropWhile is_space (cstr s); signed = (t \<noteq> [] \<and> (hd t = CHR ''-'' \<or> hd t = CHR ''+''));
          ds = takeWhile is_digit (if signed then drop 1 t else t)
      in if ds = [] then None else Some (signed \<and> hd t = CHR ''-'', dec_value ds))"

definition scan_unsigned :: "string \<Rightarrow> int \<Rightarrow> int" where
  "scan_unsigned s old =
     (case scan_digits s of
        None \<Rightarrow> old
      | Some (neg, n) \<Rightarrow> wrap32 (if n \<ge> 2 ^ 64 then 2 ^ 64 - 1 else if neg then - int n else int n))"

definition scan_signed :: "string \<Rightarrow> int \<Rightarrow> int" where
  "scan_signed s old =
     (case scan_digits s of
        None \<Rightarrow> old
      | Some (neg, n) \<Rightarrow> wrap32 (if neg then max (- (2 ^ 63)) (- int n) else min (2 ^ 63 - 1) (int n)))"

text \<open>What \<open>getopt_long\<close> returns, with the argument of the option: a letter, a long option by its index, or something it does not know.\<close>

datatype found_option = Short char string | Long nat string | Unknown_option

text \<open>\<open>realpath\<close> gives the path of a file, or nothing.\<close>

definition probe_option :: "(string \<Rightarrow> string option) \<Rightarrow> found_option \<Rightarrow> probe_options \<Rightarrow> probe_options proc" where
  "probe_option realpath opt g =
     (case opt of
        Unknown_option \<Rightarrow> Exited 1
      | Long i a \<Rightarrow>
          if i = 0 then Exited 0
          else if i = 1 then Returned (g\<lparr>po_ipflow_timeout := scan_unsigned a (po_ipflow_timeout g)\<rparr>)
          else if i = 2 then Returned (g\<lparr>po_ipflow_lifetime := scan_unsigned a (po_ipflow_lifetime g)\<rparr>)
          else if i = 3 then Returned (g\<lparr>po_export_timeout := scan_unsigned a (po_export_timeout g)\<rparr>)
          else if i = 4 then Returned (g\<lparr>po_odid := scan_unsigned a (po_odid g) mod 2 ^ 32\<rparr>)
          else if i = 5 then Returned (g\<lparr>po_ssl := True\<rparr>)
          else if i = 6 then Returned (g\<lparr>po_keyfile := a\<rparr>)
          else if i = 7 then Returned (g\<lparr>po_certfile := a\<rparr>)
          else if i = 8 then Returned (g\<lparr>po_cafile := a\<rparr>)
          else if i = 9 then Returned (g\<lparr>po_cadir := Some a\<rparr>)
          else if i = 10 then Returned (g\<lparr>po_biflows := True\<rparr>)
          else if i = 11 then Returned (g\<lparr>po_ipflow_max := scan_signed a (po_ipflow_max g)\<rparr>)
          else if i = 12 then Exited 1
          else Returned g
      | Short c a \<Rightarrow>
          if c = CHR ''c'' then Returned (g\<lparr>po_collector := a\<rparr>)
          else if c = CHR ''d'' then Returned (g\<lparr>po_daemon := True\<rparr>)
          else if c = CHR ''f'' then Returned (g\<lparr>po_filter := Some (filter_option a)\<rparr>)
          else if c = CHR ''i'' then
            Returned (if po_interface g \<noteq> '''' then g else g\<lparr>po_interface := snprintf PATH_MAX a\<rparr>)
          else if c = CHR ''p'' then Returned (g\<lparr>po_promisc := False\<rparr>)
          else if c = CHR ''r'' then
            (if po_interface g \<noteq> '''' then Returned g
             else
               let g = g\<lparr>po_offline := True\<rparr> in
               if a = ''-'' then Returned (g\<lparr>po_interface := a\<rparr>)
               else (case realpath a of None \<Rightarrow> Exited 1 | Some p \<Rightarrow> Returned (g\<lparr>po_interface := p\<rparr>)))
          else if c = CHR ''l'' then Returned (g\<lparr>po_logfile := Some a\<rparr>)
          else if c = CHR ''s'' then Returned (g\<lparr>po_protocol := IPFIX_PROTO_SCTP\<rparr>)
          else if c = CHR ''t'' then Returned (g\<lparr>po_protocol := IPFIX_PROTO_TCP\<rparr>)
          else if c = CHR ''u'' then Returned (g\<lparr>po_protocol := IPFIX_PROTO_UDP\<rparr>)
          else if c = CHR ''v'' then Returned (g\<lparr>po_vlevel := po_vlevel g + 1\<rparr>)
          else Exited 1)"

fun probe_command_line :: "(string \<Rightarrow> string option) \<Rightarrow> found_option list \<Rightarrow> probe_options \<Rightarrow> probe_options proc" where
  "probe_command_line realpath [] g = Returned g"
| "probe_command_line realpath (opt # opts) g = proc_bind (probe_option realpath opt g) (probe_command_line realpath opts)"

text \<open>\<open>rest\<close>: arguments are left that are not options.\<close>

definition IPFIX_PORTNO :: int where "IPFIX_PORTNO = 4739"
definition IPFIX_TLS_PORTNO :: int where "IPFIX_TLS_PORTNO = 4740"

definition probe_settings :: "(string \<Rightarrow> string option) \<Rightarrow> found_option list \<Rightarrow> bool \<Rightarrow> probe_options proc" where
  "probe_settings realpath opts rest =
     proc_bind (probe_command_line realpath opts probe_defaults) (\<lambda>g.
     if rest then Exited 1
     else Returned (if po_port g = 0 then g\<lparr>po_port := if po_ssl g then IPFIX_TLS_PORTNO else IPFIX_PORTNO\<rparr> else g))"

definition par_of :: "bool \<Rightarrow> probe_options \<Rightarrow> probe_par" where
  "par_of inet6 g = \<lparr>pp_ipflow_timeout = po_ipflow_timeout g, pp_ipflow_lifetime = po_ipflow_lifetime g,
     pp_export_timeout = po_export_timeout g, pp_offline = po_offline g, pp_inet6 = inet6\<rparr>"

section \<open>The exporter\<close>

definition IPFIX_ENO_FOKUS :: int where "IPFIX_ENO_FOKUS = 12325"
definition IPFIX_FT_OCTETDELTACOUNT :: nat where "IPFIX_FT_OCTETDELTACOUNT = 1"
definition IPFIX_FT_PACKETDELTACOUNT :: nat where "IPFIX_FT_PACKETDELTACOUNT = 2"
definition IPFIX_FT_PROTOCOLIDENTIFIER :: nat where "IPFIX_FT_PROTOCOLIDENTIFIER = 4"
definition IPFIX_FT_IPCLASSOFSERVICE :: nat where "IPFIX_FT_IPCLASSOFSERVICE = 5"
definition IPFIX_FT_SOURCETRANSPORTPORT :: nat where "IPFIX_FT_SOURCETRANSPORTPORT = 7"
definition IPFIX_FT_SOURCEIPV4ADDRESS :: nat where "IPFIX_FT_SOURCEIPV4ADDRESS = 8"
definition IPFIX_FT_DESTINATIONTRANSPORTPORT :: nat where "IPFIX_FT_DESTINATIONTRANSPORTPORT = 11"
definition IPFIX_FT_DESTINATIONIPV4ADDRESS :: nat where "IPFIX_FT_DESTINATIONIPV4ADDRESS = 12"
definition IPFIX_FT_SOURCEIPV6ADDRESS :: nat where "IPFIX_FT_SOURCEIPV6ADDRESS = 27"
definition IPFIX_FT_DESTINATIONIPV6ADDRESS :: nat where "IPFIX_FT_DESTINATIONIPV6ADDRESS = 28"
definition IPFIX_FT_FLOWSTARTMILLISECONDS :: nat where "IPFIX_FT_FLOWSTARTMILLISECONDS = 152"
definition IPFIX_FT_FLOWENDMILLISECONDS :: nat where "IPFIX_FT_FLOWENDMILLISECONDS = 153"
definition IPFIX_FT_REVOCTETDELTACOUNT :: nat where "IPFIX_FT_REVOCTETDELTACOUNT = 176"
definition IPFIX_FT_REVPACKETDELTACOUNT :: nat where "IPFIX_FT_REVPACKETDELTACOUNT = 177"

type_synonym export_fields = "(int \<times> nat \<times> nat) list"

definition ipflow4_fields :: export_fields where
  "ipflow4_fields =
    [(0, IPFIX_FT_FLOWSTARTMILLISECONDS, 8),
     (0, IPFIX_FT_FLOWENDMILLISECONDS, 8),
     (0, IPFIX_FT_SOURCEIPV4ADDRESS, 4),
     (0, IPFIX_FT_DESTINATIONIPV4ADDRESS, 4),
     (0, IPFIX_FT_SOURCETRANSPORTPORT, 2),
     (0, IPFIX_FT_DESTINATIONTRANSPORTPORT, 2),
     (0, IPFIX_FT_PROTOCOLIDENTIFIER, 1),
     (0, IPFIX_FT_IPCLASSOFSERVICE, 1),
     (0, IPFIX_FT_PACKETDELTACOUNT, 4),
     (0, IPFIX_FT_OCTETDELTACOUNT, 4)]"

definition ipflow6_fields :: export_fields where
  "ipflow6_fields =
    [(0, IPFIX_FT_FLOWSTARTMILLISECONDS, 8),
     (0, IPFIX_FT_FLOWENDMILLISECONDS, 8),
     (0, IPFIX_FT_SOURCEIPV6ADDRESS, 16),
     (0, IPFIX_FT_DESTINATIONIPV6ADDRESS, 16),
     (0, IPFIX_FT_SOURCETRANSPORTPORT, 2),
     (0, IPFIX_FT_DESTINATIONTRANSPORTPORT, 2),
     (0, IPFIX_FT_PROTOCOLIDENTIFIER, 1),
     (0, IPFIX_FT_IPCLASSOFSERVICE, 1),
     (0, IPFIX_FT_PACKETDELTACOUNT, 4),
     (0, IPFIX_FT_OCTETDELTACOUNT, 4)]"

definition ipbiflow4_fields :: export_fields where
  "ipbiflow4_fields =
    [(0, IPFIX_FT_FLOWSTARTMILLISECONDS, 8),
     (0, IPFIX_FT_FLOWENDMILLISECONDS, 8),
     (0, IPFIX_FT_SOURCEIPV4ADDRESS, 4),
     (0, IPFIX_FT_DESTINATIONIPV4ADDRESS, 4),
     (0, IPFIX_FT_SOURCETRANSPORTPORT, 2),
     (0, IPFIX_FT_DESTINATIONTRANSPORTPORT, 2),
     (0, IPFIX_FT_PROTOCOLIDENTIFIER, 1),
     (0, IPFIX_FT_PACKETDELTACOUNT, 4),
     (0, IPFIX_FT_OCTETDELTACOUNT, 4),
     (IPFIX_ENO_FOKUS, IPFIX_FT_REVPACKETDELTACOUNT, 4),
     (IPFIX_ENO_FOKUS, IPFIX_FT_REVOCTETDELTACOUNT, 4)]"

definition ipbiflow6_fields :: export_fields where
  "ipbiflow6_fields =
    [(0, IPFIX_FT_FLOWSTARTMILLISECONDS, 8),
     (0, IPFIX_FT_FLOWENDMILLISECONDS, 8),
     (0, IPFIX_FT_SOURCEIPV6ADDRESS, 16),
     (0, IPFIX_FT_DESTINATIONIPV6ADDRESS, 16),
     (0, IPFIX_FT_SOURCETRANSPORTPORT, 2),
     (0, IPFIX_FT_DESTINATIONTRANSPORTPORT, 2),
     (0, IPFIX_FT_PROTOCOLIDENTIFIER, 1),
     (0, IPFIX_FT_PACKETDELTACOUNT, 4),
     (0, IPFIX_FT_OCTETDELTACOUNT, 4),
     (IPFIX_ENO_FOKUS, IPFIX_FT_REVPACKETDELTACOUNT, 4),
     (IPFIX_ENO_FOKUS, IPFIX_FT_REVOCTETDELTACOUNT, 4)]"

text \<open>
  The module, a handle, its collector and the two templates; on an error all of it is closed again. \<open>fokus\<close> is the
  array of elements that the build makes. Without support for SSL the option for it is not looked at.
\<close>

record probe_tables =
  pt_types :: "ipfix_field_type list"
  pt_reverse :: "ipfix_field_type list"
  pt_fokus :: "ipfix_field_type list"

record exporter_handles =
  eh_ipfix :: nat
  eh_templ :: nat
  eh_templ6 :: nat

definition export_failed :: "ipfix_env \<Rightarrow> nat \<Rightarrow> ipfix_st \<Rightarrow> (exporter_handles option \<times> ipfix_st) proc" where
  "export_failed env h st =
     proc_bind (ipfix_close_lib env (Some h) st) (\<lambda>st. proc_bind (ipfix_cleanup env st) (\<lambda>st. Returned (None, st)))"

definition make_templates :: "ipfix_env \<Rightarrow> nat \<Rightarrow> export_fields \<Rightarrow> export_fields \<Rightarrow> ipfix_st \<Rightarrow> (exporter_handles option \<times> ipfix_st) proc" where
  "make_templates env h fs4 fs6 st =
     proc_bind (ipfix_make_template env h fs4 st) (\<lambda>(t4, st).
     case t4 of
       None \<Rightarrow> export_failed env h st
     | Some t4 \<Rightarrow>
         proc_bind (ipfix_make_template env h fs6 st) (\<lambda>(t6, st).
         case t6 of
           None \<Rightarrow> proc_bind (ipfix_delete_template h (Some t4) st) (export_failed env h)
         | Some t6 \<Rightarrow> Returned (Some \<lparr>eh_ipfix = h, eh_templ = t4, eh_templ6 = t6\<rparr>, st)))"

definition export_init :: "ipfix_env \<Rightarrow> probe_tables \<Rightarrow> probe_options \<Rightarrow> ipfix_st \<Rightarrow> (exporter_handles option \<times> ipfix_st) proc" where
  "export_init env tabs g st =
     proc_bind (ipfix_init env (pt_types tabs) (pt_reverse tabs) st) (\<lambda>(r, st).
     proc_bind (if r < 0 then Returned (r, st)
       else ipfix_add_vendor_information_elements env (pt_types tabs) (pt_reverse tabs) (pt_fokus tabs) st) (\<lambda>(r, st).
     if r < 0 then Returned (None, st)
     else
       proc_bind (ipfix_open_lib env (pt_types tabs) (pt_reverse tabs) (po_odid g) IPFIX_VERSION st) (\<lambda>(h, st).
       case h of
         None \<Rightarrow> proc_bind (ipfix_cleanup env st) (\<lambda>st. Returned (None, st))
       | Some h \<Rightarrow>
           case collector_address (po_collector g) (po_port g) of (host, port) \<Rightarrow>
           proc_bind (ipfix_add_collector env h (Some host) port (po_protocol g) st) (\<lambda>(r, st).
           if r < 0 then export_failed env h st
           else if po_biflows g then make_templates env h ipbiflow4_fields ipbiflow6_fields st
           else make_templates env h ipflow4_fields ipflow6_fields st))))"

text \<open>
  The values of a flow as they lie in memory, in the order in which they are given to \<open>ipfix_export\<close>: with two
  directions the counters of the other one in place of the class of service.
\<close>

definition record_args :: "ipfix_host \<Rightarrow> flow_record \<Rightarrow> (byte list \<times> nat) list" where
  "record_args host r =
     (let e = fr_elems r; counter = (\<lambda>c. host_bytes host 4 (nat (c mod 2 ^ 32))) in
      map (\<lambda>v. (v, 0)) (
        [host_bytes host 8 (fr_start r), host_bytes host 8 (fr_end r), ie_saddr e, ie_daddr e, host_bytes host 2 (ie_sport e),
         host_bytes host 2 (ie_dport e), host_bytes host 1 (ie_protocol e)] @
        (case fr_reverse r of
           None \<Rightarrow> [host_bytes host 1 (ie_tos e), counter (fr_packets r), counter (fr_bytes r)]
         | Some (p, b) \<Rightarrow> [counter (fr_packets r), counter (fr_bytes r), counter p, counter b])))"

definition do_call :: "ipfix_env \<Rightarrow> exporter_handles \<Rightarrow> export_call \<Rightarrow> ipfix_st \<Rightarrow> ipfix_res" where
  "do_call env x c st =
     (case c of
        Probe.Export r \<Rightarrow> ipfix_export env (eh_ipfix x) (Some (if fr_templ6 r then eh_templ6 x else eh_templ x)) (record_args (gs_host st) r) st
      | Probe.Flush \<Rightarrow> ipfix_export_flush env (eh_ipfix x) st)"

text \<open>The calls one after the other, each in its own environment; what they return is not looked at.\<close>

fun do_calls :: "exporter_handles \<Rightarrow> (ipfix_env \<times> export_call) list \<Rightarrow> ipfix_st \<Rightarrow> ipfix_st proc" where
  "do_calls x [] st = Returned st"
| "do_calls x ((env, c) # cs) st = proc_bind (do_call env x c st) (\<lambda>(r, st). do_calls x cs st)"

section \<open>The capture\<close>

text \<open>What the libraries for capturing and polling answer.\<close>

datatype link_type = DLT_EN10MB | DLT_ATM_RFC1483 | Other_link

record capture_env =
  ce_open_offline :: "string \<Rightarrow> bool"
  ce_lookupdev :: "string option"
  ce_open_live :: "string \<Rightarrow> bool \<Rightarrow> bool"
  ce_datalink :: link_type
  ce_fileno :: int
  ce_fdadd :: bool
  ce_flow_mem :: "bool \<times> bool"
  ce_daemon :: bool

definition input_init :: "capture_env \<Rightarrow> probe_options \<Rightarrow> probe \<Rightarrow> int \<times> probe" where
  "input_init env g p =
     (let opened =
        (if po_offline g then ce_open_offline env (po_interface g)
         else if po_interface g = '''' then
           (case ce_lookupdev env of None \<Rightarrow> False | Some d \<Rightarrow> ce_open_live env d (po_promisc g))
         else ce_open_live env (po_interface g) (po_promisc g))
      in
      if \<not> opened then (-1, p)
      else
        let p = (case ce_datalink env of
              DLT_EN10MB \<Rightarrow> p\<lparr>pr_ethernet := True, pr_offset := 14\<rparr>
            | DLT_ATM_RFC1483 \<Rightarrow> p\<lparr>pr_ethernet := False, pr_offset := 8\<rparr>
            | Other_link \<Rightarrow> p\<lparr>pr_ethernet := False, pr_offset := 0\<rparr>)
        in
        if ce_fileno env \<ge> 0 \<and> \<not> ce_fdadd env then (-1, p)
        else
          (case flow_init (fst (ce_flow_mem env)) (snd (ce_flow_mem env)) (po_ipflow_max g) (if po_biflows g then 1 else 0)
              (po_ipflow_timeout g) (pr_mem p) of
             ((r, Table t), m) \<Rightarrow> (r, p\<lparr>pr_ipflows := Some t, pr_mem := m\<rparr>)
           | ((r, _), m) \<Rightarrow> (-1, p\<lparr>pr_mem := m\<rparr>)))"

text \<open>Before it starts all of the probe is zero.\<close>

definition g_probe :: probe where
  "g_probe = \<lparr>pr_ipflows = None, pr_mem = flow_module, pr_calls = [], pr_next_export = 0, pr_npkts = 0, pr_nbytes = 0,
     pr_ethernet = False, pr_offset = 0\<rparr>"

definition prog_init :: "ipfix_env \<Rightarrow> probe_tables \<Rightarrow> capture_env \<Rightarrow> probe_options \<Rightarrow> ipfix_st \<Rightarrow>
    (int \<times> exporter_handles option \<times> probe \<times> ipfix_st) proc" where
  "prog_init env tabs cenv g st =
     (if po_daemon g \<and> \<not> ce_daemon cenv then Returned (-1, None, g_probe, st)
      else
        proc_bind (export_init env tabs g st) (\<lambda>(x, st).
        case x of
          None \<Rightarrow> Returned (-1, None, g_probe, st)
        | Some x \<Rightarrow> (case input_init cenv g g_probe of (r, p) \<Rightarrow> Returned (if r < 0 then -1 else 0, Some x, p, st))))"

text \<open>Whether the loop is left after \<open>pcap_dispatch\<close>, which handed the packets it had to \<open>cb_packet\<close>: at the end of a file.\<close>

definition cb_dispatch :: "probe_options \<Rightarrow> int \<Rightarrow> bool" where
  "cb_dispatch g r \<longleftrightarrow> r = 0 \<and> po_offline g"

text \<open>
  The program with what happens to it: packets and timers (of a live capture only) until it ends, then the end. The
  calls for the exporter are made as they come; here the probe and the exporter are given their parts one after the
  other, as neither looks at the other.
\<close>

definition probe_loop :: "probe_par \<Rightarrow> nat \<Rightarrow> probe_event list \<Rightarrow> probe \<Rightarrow> probe proc" where
  "probe_loop par fuel events p =
     probe_run par fuel (filter (\<lambda>e. case e of Captured x \<Rightarrow> True | Timer now \<Rightarrow> \<not> pp_offline par) events) (p\<lparr>pr_next_export := 0\<rparr>)"

definition probe_program :: "(string \<Rightarrow> string option) \<Rightarrow> found_option list \<Rightarrow> bool \<Rightarrow> ipfix_env \<Rightarrow> probe_tables \<Rightarrow> capture_env \<Rightarrow> bool \<Rightarrow>
    nat \<Rightarrow> probe_event list \<Rightarrow> int \<Rightarrow> ipfix_st \<Rightarrow> unit proc" where
  "probe_program realpath opts rest env tabs cenv inet6 fuel events now st =
     proc_bind (probe_settings realpath opts rest) (\<lambda>g.
     proc_bind (prog_init env tabs cenv g st) (\<lambda>(r, x, p, st).
     if r < 0 then Exited 1
     else proc_bind (probe_loop (par_of inet6 g) fuel events p) (exit_func (par_of inet6 g) now)))"

end
