(* ===== verification/ProbeExport.thy ===== *)
theory ProbeExport
  imports ProbeSetup IpfixSafe
begin

text \<open>
  The probe and the exporter together: the set-up makes an exporter with templates that fit the values of a flow,
  and every call made for a flow afterwards returns and puts the values of the flow into the buffer.
\<close>

section \<open>Making templates\<close>

definition spec_field :: "ipfix_field list \<Rightarrow> int \<times> nat \<times> nat \<Rightarrow> ipfix_template_field" where
  "spec_field known f = (case f of (eno, ty, len) \<Rightarrow> \<lparr>tf_flength = len, tf_unknown = False, tf_relay = False, tf_elem = ipfix_get_ftinfo known eno (int ty)\<rparr>)"

definition fields_known :: "ipfix_field list \<Rightarrow> export_fields \<Rightarrow> bool" where
  "fields_known known fs \<longleftrightarrow> (\<forall>(eno, ty, len) \<in> set fs. ty < IPFIX_EFT_VENDOR_BIT \<and> ipfix_get_ftinfo known eno (int ty) \<noteq> None)"

text \<open>A template of \<open>n\<close> places whose first ones are filled.\<close>

definition filled :: "nat \<Rightarrow> ipfix_template_field list \<Rightarrow> ipfix_template \<Rightarrow> bool" where
  "filled n xs templ \<longleftrightarrow> te_nfields templ = length xs \<and> te_maxfields templ = n \<and> length xs \<le> n \<and> te_nscopefields templ = 0 \<and>
     te_fields templ = xs @ replicate (n - length xs) no_field"

lemma filled_fields: "filled n xs templ \<Longrightarrow> templ_fields templ = xs"
  by (simp add: filled_def templ_fields_def)

lemma add_field_filled:
  assumes "gs_templ st t = Some templ" "filled n xs templ" "length xs < n" "fields_known (gs_fields st) [(eno, ty, len)]"
  shows "\<exists>templ'. ipfix_add_field t eno ty len st = Returned (0, set_templ t templ' st) \<and> filled n (xs @ [spec_field (gs_fields st) (eno, ty, len)]) templ' \<and>
    te_tid templ' = te_tid templ"
proof -
  obtain k where k: "n - length xs = Suc k" using assms(3) by (metis Suc_diff_Suc)
  let ?e = "ipfix_get_ftinfo (gs_fields st) eno (int ty)"
  have "put_field (length xs) len ?e (xs @ replicate (n - length xs) no_field) =
      xs @ spec_field (gs_fields st) (eno, ty, len) # replicate k no_field"
    unfolding k by (simp add: put_field_def nth_append list_update_append spec_field_def no_field_def)
  then show ?thesis
    using assms k by (simp add: ipfix_add_field_def get_templ_def filled_def fields_known_def Let_def) (auto simp: spec_field_def)
qed

lemma set_templ_twice [simp]: "set_templ t b (set_templ t a st) = set_templ t b st"
  by (simp add: set_templ_def)

lemma add_fields_filled:
  assumes "gs_templ st t = Some templ" "filled n xs templ" "length xs + length fs \<le> n" "fields_known (gs_fields st) fs"
  shows "\<exists>templ'. add_export_fields t fs st = Returned (0, set_templ t templ' st) \<and> filled n (xs @ map (spec_field (gs_fields st)) fs) templ' \<and>
    te_tid templ' = te_tid templ"
  using assms
proof (induction fs arbitrary: xs templ st)
  case Nil
  then have "set_templ t templ st = st" by (simp add: set_templ_def fun_upd_idem)
  then show ?case using Nil by (intro exI [of _ templ]) simp
next
  case (Cons f fs)
  obtain eno ty len where f: "f = (eno, ty, len)" by (cases f)
  obtain t1 where t1: "ipfix_add_field t eno ty len st = Returned (0, set_templ t t1 st)"
    "filled n (xs @ [spec_field (gs_fields st) f]) t1" "te_tid t1 = te_tid templ"
    using add_field_filled [OF Cons.prems(1,2), of eno ty len] Cons.prems(3,4) by (auto simp: f fields_known_def)
  have "gs_templ (set_templ t t1 st) t = Some t1" "gs_fields (set_templ t t1 st) = gs_fields st" by (simp_all add: set_templ_def)
  from Cons.IH [OF this(1) t1(2)] this(2) Cons.prems(3,4) t1 show ?case by (auto simp: f fields_known_def)
qed

text \<open>A template is new, and first in the list of the handle.\<close>

lemma make_template_made:
  assumes "gs_ifh st h = Some i" "ie_alloc env" "fs \<noteq> []" "fields_known (gs_fields st) fs"
  shows "\<exists>templ. ipfix_make_template env h fs st = Returned (Some (gs_next st), set_templ (gs_next st) templ
      (set_ifh h (i\<lparr>ix_templates := gs_next st # ix_templates i\<rparr>) (st\<lparr>gs_next := gs_next st + 1, gs_lasttid := next_tid st\<rparr>))) \<and>
    filled (length fs) (map (spec_field (gs_fields st)) fs) templ \<and> te_tid templ = next_tid st"
proof -
  let ?t = "gs_next st"
  define t0 where "t0 = \<lparr>te_type = DATA_TEMPLATE, te_tsend = 0, te_tid = next_tid st, te_ndatafields = 0, te_nscopefields = 0,
      te_nfields = 0, te_fields = replicate (length fs) no_field, te_maxfields = length fs, te_odid = 0\<rparr>"
  define st1 where "st1 = set_templ ?t t0 (set_ifh h (i\<lparr>ix_templates := ?t # ix_templates i\<rparr>) (st\<lparr>gs_next := ?t + 1, gs_lasttid := next_tid st\<rparr>))"
  have new: "ipfix_new_data_template env h (int (length fs)) st = Returned (Some ?t, st1)"
    using assms(1-3) by (simp add: ipfix_new_data_template_def ipfix_new_template_def insert_template_def get_ifh_def st1_def t0_def Let_def)
  have "gs_templ st1 ?t = Some t0" "gs_fields st1 = gs_fields st" by (simp_all add: st1_def set_templ_def set_ifh_def)
  moreover have "filled (length fs) [] t0" by (simp add: filled_def t0_def)
  ultimately obtain templ where "add_export_fields ?t fs st1 = Returned (0, set_templ ?t templ st1)"
    "filled (length fs) (map (spec_field (gs_fields st)) fs) templ" "te_tid templ = te_tid t0"
    using add_fields_filled [of st1 ?t t0 "length fs" "[]" fs] assms(4) by auto
  then show ?thesis using new by (auto simp: ipfix_make_template_def st1_def t0_def)
qed

section \<open>The set-up\<close>

definition module_fresh :: "ipfix_st \<Rightarrow> bool" where
  "module_fresh st \<longleftrightarrow> gs_tstart st = 0 \<and> gs_fields st = [] \<and> gs_ipfixlist st = [] \<and> gs_collectors st = [] \<and>
     gs_ifh st = Map.empty \<and> gs_col st = Map.empty \<and> gs_templ st = Map.empty"

text \<open>
  The arrays: the elements of the library, the reverse elements under another number, and those of the build,
  with the two reverse counters.
\<close>

definition table_entries :: "ipfix_field_type list \<Rightarrow> ipfix_field_type list" where
  "table_entries fts = takeWhile (\<lambda>ft. ft_ftype ft \<noteq> 0) fts"

definition tables_ok :: "probe_tables \<Rightarrow> bool" where
  "tables_ok tabs \<longleftrightarrow> pt_types tabs = ipfix_field_types \<and> (\<forall>ft \<in> set (pt_reverse tabs). ft_eno ft \<noteq> 0 \<and> ft_eno ft \<noteq> IPFIX_ENO_FOKUS) \<and>
     (\<forall>ft \<in> set (pt_fokus tabs). ft_ftype ft \<noteq> 0 \<longrightarrow> ft_eno ft = IPFIX_ENO_FOKUS) \<and>
     (\<forall>ty \<in> {IPFIX_FT_REVOCTETDELTACOUNT, IPFIX_FT_REVPACKETDELTACOUNT}.
       (\<exists>ft \<in> set (table_entries (pt_fokus tabs)). ft_ftype ft = int ty) \<and>
       (\<forall>ft \<in> set (table_entries (pt_fokus tabs)). ft_ftype ft = int ty \<longrightarrow> ft_coding ft = IPFIX_CODING_UINT))"

definition known_fields :: "probe_tables \<Rightarrow> ipfix_field list" where
  "known_fields tabs = rev (map new_field (table_entries (pt_fokus tabs))) @ rev (map new_field (table_entries (pt_reverse tabs))) @
     rev (map new_field elements)"

text \<open>The encoding of a field, as the tables have it.\<close>

definition codec_of :: "probe_tables \<Rightarrow> int \<times> nat \<times> nat \<Rightarrow> ipfix_codec option" where
  "codec_of tabs f = (case f of (eno, ty, len) \<Rightarrow> map_option fi_encode (ipfix_get_ftinfo (known_fields tabs) eno (int ty)))"

lemma get_ftinfo_element:
  assumes "tables_ok tabs" "ft \<in> set elements"
  shows "ipfix_get_ftinfo (known_fields tabs) 0 (ft_ftype ft) = Some (new_field ft)"
proof -
  have "\<forall>f \<in> set (rev (map new_field (table_entries (pt_fokus tabs))) @ rev (map new_field (table_entries (pt_reverse tabs)))). ft_eno (fi_ft f) \<noteq> 0"
    using assms(1) by (auto simp: tables_ok_def table_entries_def codec_new_field IPFIX_ENO_FOKUS_def dest!: set_takeWhileD)
  from get_element [OF assms(2) this] show ?thesis by (simp add: known_fields_def)
qed

text \<open>The elements used by the probe.\<close>

lemma used_elements:
  "element 1 8 IPFIX_CODING_UINT ''octetDeltaCount'' '''' \<in> set elements"
  "element 2 8 IPFIX_CODING_UINT ''packetDeltaCount'' '''' \<in> set elements"
  "element 4 1 IPFIX_CODING_UINT ''protocolIdentifier'' '''' \<in> set elements"
  "element 5 1 IPFIX_CODING_UINT ''ipClassOfService'' '''' \<in> set elements"
  "element 7 2 IPFIX_CODING_UINT ''sourceTransportPort'' '''' \<in> set elements"
  "element 8 4 IPFIX_CODING_IPADDR ''sourceIPv4Address'' '''' \<in> set elements"
  "element 11 2 IPFIX_CODING_UINT ''destinationTransportPort'' '''' \<in> set elements"
  "element 12 4 IPFIX_CODING_IPADDR ''destinationIPv4Address'' '''' \<in> set elements"
  "element 27 16 IPFIX_CODING_IPADDR ''sourceIPv6Address'' '''' \<in> set elements"
  "element 28 16 IPFIX_CODING_IPADDR ''destinationIPv6Address'' '''' \<in> set elements"
  by (simp_all only: elements_def set_append Un_iff ipfix_field_types_1_def list.set insert_iff simp_thms)

lemma used_times:
  "element 152 8 IPFIX_CODING_UINT ''flowStartMilliseconds'' '''' \<in> set elements"
  "element 153 8 IPFIX_CODING_UINT ''flowEndMilliseconds'' '''' \<in> set elements"
  by (simp_all only: elements_def set_append Un_iff ipfix_field_types_2_def list.set insert_iff simp_thms)

lemma codec_element:
  assumes "tables_ok tabs" "element (int ty) l c s d \<in> set elements"
  shows "codec_of tabs (0, ty, len) = Some (fi_encode (new_field (element (int ty) l c s d)))"
  using get_ftinfo_element [OF assms] by (simp add: codec_of_def element_def)

lemma codec_reverse:
  assumes "tables_ok tabs" "ty \<in> {IPFIX_FT_REVOCTETDELTACOUNT, IPFIX_FT_REVPACKETDELTACOUNT}"
  shows "codec_of tabs (IPFIX_ENO_FOKUS, ty, len) = Some Codec_int"
proof -
  let ?e = "table_entries (pt_fokus tabs)"
  have all: "\<forall>ft \<in> set ?e. ft_eno ft = IPFIX_ENO_FOKUS \<and> (ft_ftype ft = int ty \<longrightarrow> ft_coding ft = IPFIX_CODING_UINT)"
    using assms unfolding tables_ok_def table_entries_def by (auto dest: set_takeWhileD)
  obtain ft where ft: "ft \<in> set ?e" "ft_ftype ft = int ty" using assms unfolding tables_ok_def by blast
  have "ipfix_get_ftinfo (rev (map new_field ?e)) IPFIX_ENO_FOKUS (int ty) \<noteq> None"
    if "g \<in> set fs" "ft_eno (fi_ft g) = IPFIX_ENO_FOKUS" "ft_ftype (fi_ft g) = int ty" "fs = rev (map new_field ?e)" for g fs
  proof -
    have "g \<in> set xs \<Longrightarrow> ipfix_get_ftinfo xs IPFIX_ENO_FOKUS (int ty) \<noteq> None" for xs using that(2,3) by (induction xs) auto
    then show ?thesis using that(1,4) by blast
  qed
  from this [of "new_field ft"] obtain f where f: "ipfix_get_ftinfo (rev (map new_field ?e)) IPFIX_ENO_FOKUS (int ty) = Some f"
    using ft all by (auto simp: codec_new_field)
  then obtain ft' where "ft' \<in> set ?e" "f = new_field ft'" "ft_ftype ft' = int ty"
    using get_ftinfo_sound [OF f] by (auto simp: codec_new_field)
  then have "fi_encode f = Codec_int" using all by (simp add: new_field_def IPFIX_CODING_UINT_def IPFIX_CODING_INT_def)
  then show ?thesis using f by (simp add: codec_of_def known_fields_def get_ftinfo_append)
qed

text \<open>Of the fields of a template: whether they are numbers, in a machine's order, or bytes.\<close>

definition shape :: "bool \<Rightarrow> bool \<Rightarrow> (nat \<times> ipfix_codec) list" where
  "shape biflows v6 = (let a = (if v6 then 16 else 4) in
     [(8, Codec_int), (8, Codec_int), (a, Codec_bytes), (a, Codec_bytes), (2, Codec_int), (2, Codec_int), (1, Codec_int)] @
     (if biflows then [(4, Codec_int), (4, Codec_int), (4, Codec_int), (4, Codec_int)] else [(1, Codec_int), (4, Codec_int), (4, Codec_int)]))"

definition fields_of :: "bool \<Rightarrow> bool \<Rightarrow> export_fields" where
  "fields_of biflows v6 = (if biflows then if v6 then ipbiflow6_fields else ipbiflow4_fields else if v6 then ipflow6_fields else ipflow4_fields)"

lemmas field_numbers = IPFIX_FT_OCTETDELTACOUNT_def IPFIX_FT_PACKETDELTACOUNT_def IPFIX_FT_PROTOCOLIDENTIFIER_def
  IPFIX_FT_IPCLASSOFSERVICE_def IPFIX_FT_SOURCETRANSPORTPORT_def IPFIX_FT_SOURCEIPV4ADDRESS_def IPFIX_FT_DESTINATIONTRANSPORTPORT_def
  IPFIX_FT_DESTINATIONIPV4ADDRESS_def IPFIX_FT_SOURCEIPV6ADDRESS_def IPFIX_FT_DESTINATIONIPV6ADDRESS_def
  IPFIX_FT_FLOWSTARTMILLISECONDS_def IPFIX_FT_FLOWENDMILLISECONDS_def

lemma used_codecs:
  assumes "tables_ok tabs"
  shows "codec_of tabs (0, IPFIX_FT_OCTETDELTACOUNT, len) = Some Codec_int" "codec_of tabs (0, IPFIX_FT_PACKETDELTACOUNT, len) = Some Codec_int"
    "codec_of tabs (0, IPFIX_FT_PROTOCOLIDENTIFIER, len) = Some Codec_int" "codec_of tabs (0, IPFIX_FT_IPCLASSOFSERVICE, len) = Some Codec_int"
    "codec_of tabs (0, IPFIX_FT_SOURCETRANSPORTPORT, len) = Some Codec_int" "codec_of tabs (0, IPFIX_FT_DESTINATIONTRANSPORTPORT, len) = Some Codec_int"
    "codec_of tabs (0, IPFIX_FT_SOURCEIPV4ADDRESS, len) = Some Codec_bytes" "codec_of tabs (0, IPFIX_FT_DESTINATIONIPV4ADDRESS, len) = Some Codec_bytes"
    "codec_of tabs (0, IPFIX_FT_SOURCEIPV6ADDRESS, len) = Some Codec_bytes" "codec_of tabs (0, IPFIX_FT_DESTINATIONIPV6ADDRESS, len) = Some Codec_bytes"
    "codec_of tabs (0, IPFIX_FT_FLOWSTARTMILLISECONDS, len) = Some Codec_int" "codec_of tabs (0, IPFIX_FT_FLOWENDMILLISECONDS, len) = Some Codec_int"
  using codec_element [OF assms, of 1, simplified, OF used_elements(1)] codec_element [OF assms, of 2, simplified, OF used_elements(2)]
    codec_element [OF assms, of 4, simplified, OF used_elements(3)] codec_element [OF assms, of 5, simplified, OF used_elements(4)]
    codec_element [OF assms, of 7, simplified, OF used_elements(5)] codec_element [OF assms, of 8, simplified, OF used_elements(6)]
    codec_element [OF assms, of 11, simplified, OF used_elements(7)] codec_element [OF assms, of 12, simplified, OF used_elements(8)]
    codec_element [OF assms, of 27, simplified, OF used_elements(9)] codec_element [OF assms, of 28, simplified, OF used_elements(10)]
    codec_element [OF assms, of 152, simplified, OF used_times(1)] codec_element [OF assms, of 153, simplified, OF used_times(2)]
  by (simp_all add: field_numbers) (simp_all add: element_simps)

lemma fields_codecs:
  assumes "tables_ok tabs"
  shows "map (\<lambda>f. (snd (snd f), codec_of tabs f)) (fields_of biflows v6) = map (\<lambda>(n, c). (n, Some c)) (shape biflows v6)"
  using used_codecs [OF assms] codec_reverse [OF assms]
  by (simp add: fields_of_def shape_def ipflow4_fields_def ipflow6_fields_def ipbiflow4_fields_def ipbiflow6_fields_def)

lemma fields_below: "(eno, ty, len) \<in> set (fields_of biflows v6) \<Longrightarrow> ty < IPFIX_EFT_VENDOR_BIT \<and> len \<le> 16"
  by (auto simp: fields_of_def ipflow4_fields_def ipflow6_fields_def ipbiflow4_fields_def ipbiflow6_fields_def field_numbers
      IPFIX_FT_REVOCTETDELTACOUNT_def IPFIX_FT_REVPACKETDELTACOUNT_def IPFIX_EFT_VENDOR_BIT_def split: if_splits)

lemma fields_all_known:
  assumes "tables_ok tabs"
  shows "fields_known (known_fields tabs) (fields_of biflows v6)"
proof -
  have "codec_of tabs f \<noteq> None" if "f \<in> set (fields_of biflows v6)" for f
  proof -
    have "(snd (snd f), codec_of tabs f) \<in> set (map (\<lambda>(n, c). (n, Some c)) (shape biflows v6))"
      unfolding fields_codecs [OF assms, symmetric] using that by simp
    then show ?thesis by auto
  qed
  then show ?thesis using fields_below by (fastforce simp: fields_known_def codec_of_def)
qed

lemma add_collector_new:
  assumes "gs_collectors st = []" "gs_ipfixlist st = [h]" "gs_ifh st h = Some i" "ix_collectors i = None" "ix_templates i = []"
    and "prot = IPFIX_PROTO_TCP \<or> prot = IPFIX_PROTO_UDP" "ie_alloc env" "ie_connect env (gs_io st) (strdup host) port = Some fd"
  shows "ipfix_add_collector env h (Some host) port prot st = Returned (0,
    set_col (gs_next st) ((new_collector host port prot)\<lparr>cl_fd := int fd, cl_lastaccess := ie_now env\<rparr>)
      (set_ifh h (i\<lparr>ix_collectors := Some (gs_next st)\<rparr>) (st\<lparr>gs_next := gs_next st + 1, gs_collectors := [gs_next st], gs_io := gs_io st + 1\<rparr>)))"
proof -
  have "prot \<noteq> Other_proto" using assms(6) by auto
  then show ?thesis
    using assms by (auto simp: ipfix_add_collector_def ipfix_add_collector_flag_def ipfix_connect_def get_ifh_def get_col_def set_col_def set_ifh_def
        message_offset_def new_collector_def chain_def Let_def)
qed

text \<open>An exporter whose templates fit the values of flows.\<close>

definition template_fits :: "(nat \<times> ipfix_codec) list \<Rightarrow> ipfix_template \<Rightarrow> bool" where
  "template_fits sh templ \<longleftrightarrow> te_nfields templ = length (templ_fields templ) \<and>
     map (\<lambda>f. (tf_flength f, tf_relay f, map_option fi_encode (tf_elem f))) (templ_fields templ) = map (\<lambda>(n, c). (n, False, Some c)) sh"

definition exporter_ready :: "bool \<Rightarrow> exporter_handles \<Rightarrow> ipfix_st \<Rightarrow> bool" where
  "exporter_ready biflows x st \<longleftrightarrow> exporter_wf st \<and> host_ok (gs_host st) \<and>
     (\<exists>i. gs_ifh st (eh_ipfix x) = Some i \<and> ix_collectors i \<noteq> None) \<and>
     (\<forall>v6. \<exists>templ. gs_templ st (if v6 then eh_templ6 x else eh_templ x) = Some templ \<and> template_fits (shape biflows v6) templ)"

lemma filled_fits:
  assumes "tables_ok tabs" "filled n (map (spec_field (known_fields tabs)) (fields_of biflows v6)) templ"
  shows "template_fits (shape biflows v6) templ"
proof -
  have f: "templ_fields templ = map (spec_field (known_fields tabs)) (fields_of biflows v6)" by (rule filled_fields [OF assms(2)])
  have "map (\<lambda>f. (tf_flength f, tf_relay f, map_option fi_encode (tf_elem f))) (templ_fields templ) =
      map (\<lambda>(n, c). (n, False, c)) (map (\<lambda>f. (snd (snd f), codec_of tabs f)) (fields_of biflows v6))"
    unfolding f by (simp add: spec_field_def codec_of_def split_beta)
  also have "\<dots> = map (\<lambda>(n, c). (n, False, Some c)) (shape biflows v6)" unfolding fields_codecs [OF assms(1)] by (simp add: split_beta)
  finally show ?thesis using assms(2) f by (simp add: template_fits_def filled_def)
qed

lemma filled_wf:
  assumes "tables_ok tabs" "filled n (map (spec_field (known_fields tabs)) (fields_of biflows v6)) templ" "0 < te_tid templ"
  shows "templ_wf templ"
proof -
  let ?fs = "map (spec_field (known_fields tabs)) (fields_of biflows v6)"
  have f: "templ_fields templ = ?fs" by (rule filled_fields [OF assms(2)])
  have "list_all (\<lambda>f. tf_elem f \<noteq> None) ?fs"
    using fields_all_known [OF assms(1), of biflows v6] by (fastforce simp: list_all_iff fields_known_def spec_field_def split_beta)
  moreover have "length (concat (map spec_bytes xs)) \<le> 8 * length xs" for xs
    by (induction xs) (auto simp: spec_bytes_def Let_def u16_def u32_def split: option.splits)
  then have "length (concat (map spec_bytes ?fs)) \<le> 8 * length ?fs" .
  moreover have "length ?fs \<le> 11" by (simp add: fields_of_def ipflow4_fields_def ipflow6_fields_def ipbiflow4_fields_def ipbiflow6_fields_def)
  ultimately show ?thesis using assms(2,3) f by (simp add: templ_wf_def filled_def IPFIX_DEFAULT_BUFLEN_def)
qed

text \<open>With memory, arrays that fit and a collector that can be reached over TCP or UDP, the set-up succeeds.\<close>

lemma export_init_ready:
  assumes fresh: "module_fresh st" and tabs: "tables_ok tabs" and env: "ie_alloc env" "ie_now env \<noteq> 0"
    and prot: "po_protocol g = IPFIX_PROTO_TCP \<or> po_protocol g = IPFIX_PROTO_UDP"
    and conn: "case collector_address (po_collector g) (po_port g) of (host, port) \<Rightarrow> ie_connect env (gs_io st) (strdup host) port \<noteq> None"
  shows "\<exists>x st'. export_init env tabs g st = Returned (Some x, st') \<and> exporter_ready (po_biflows g) x st'"
proof -
  obtain host port where a: "collector_address (po_collector g) (po_port g) = (host, port)" by fastforce
  then obtain fd where fd: "ie_connect env (gs_io st) (strdup host) port = Some fd" using conn by auto
  have [simp]: "gs_tstart st = 0" "gs_fields st = []" "gs_ipfixlist st = []" "gs_collectors st = []" "gs_ifh st = Map.empty" "gs_col st = Map.empty"
    "gs_templ st = Map.empty" "pt_types tabs = ipfix_field_types" using fresh tabs by (simp_all add: module_fresh_def tables_ok_def)
  define h where "h = gs_next st"
  define i where "i = new_handle (po_odid g) IPFIX_VERSION"
  define st1 where "st1 = st\<lparr>gs_host := testEndianness (gs_host st), gs_tstart := ie_now env, gs_lasttid := 255, gs_bufs := 2,
    gs_fields := known_fields tabs\<rparr>"
  define st2 where "st2 = set_ifh h i (st1\<lparr>gs_next := h + 1, gs_ipfixlist := [h]\<rparr>)"
  define st3 where "st3 = set_col (h + 1) ((new_collector host port (po_protocol g))\<lparr>cl_fd := int fd, cl_lastaccess := ie_now env\<rparr>)
      (set_ifh h (i\<lparr>ix_collectors := Some (h + 1)\<rparr>) (st2\<lparr>gs_next := h + 2, gs_collectors := [h + 1], gs_io := gs_io st + 1\<rparr>))"
  let ?rv = "rev (map new_field (table_entries (pt_reverse tabs))) @ rev (map new_field elements)"
  have rv: "add_elements (\<lambda>_. True) (pt_reverse tabs) (rev (map new_field elements)) = (0, ?rv)"
    "add_elements (\<lambda>_. True) (pt_fokus tabs) ?rv = (0, known_fields tabs)" by (simp_all add: add_elements_all table_entries_def known_fields_def)
  have s1: "ipfix_init env (pt_types tabs) (pt_reverse tabs) st = Returned (0, st\<lparr>gs_host := testEndianness (gs_host st),
      gs_tstart := ie_now env, gs_lasttid := 255, gs_bufs := 2, gs_fields := ?rv\<rparr>)"
    using env by (simp add: ipfix_init_def add_types rv(1) Let_def)
  have s1': "ipfix_add_vendor_information_elements env (pt_types tabs) (pt_reverse tabs) (pt_fokus tabs) (st\<lparr>gs_host := testEndianness (gs_host st),
      gs_tstart := ie_now env, gs_lasttid := 255, gs_bufs := 2, gs_fields := ?rv\<rparr>) = Returned (0, st1)"
    using env rv(2) by (simp add: ipfix_add_vendor_information_elements_def st1_def)
  have s2: "ipfix_open_lib env (pt_types tabs) (pt_reverse tabs) (po_odid g) IPFIX_VERSION st1 = Returned (Some h, st2)"
    using env by (simp add: ipfix_open_lib_def st1_def st2_def h_def i_def Let_def)
  have s3: "ipfix_add_collector env h (Some host) port (po_protocol g) st2 = Returned (0, st3)"
    using add_collector_new [of st2 h i "po_protocol g" env host port fd] prot env(1) fd
    by (simp add: st3_def st2_def st1_def h_def i_def new_handle_def set_ifh_def)
  have i3: "gs_ifh st3 h = Some (i\<lparr>ix_collectors := Some (h + 1)\<rparr>)" by (simp add: st3_def set_ifh_def set_col_def)
  have k3: "gs_fields st3 = known_fields tabs" "gs_next st3 = h + 2" "gs_lasttid st3 = 255"
    by (simp_all add: st3_def st2_def st1_def set_ifh_def set_col_def)
  let ?f4 = "fields_of (po_biflows g) False" and ?f6 = "fields_of (po_biflows g) True"
  have ne: "fields_of b v \<noteq> []" for b v
    by (simp add: fields_of_def ipflow4_fields_def ipflow6_fields_def ipbiflow4_fields_def ipbiflow6_fields_def)
  obtain t4 where t4: "ipfix_make_template env h ?f4 st3 = Returned (Some (h + 2), set_templ (h + 2) t4
      (set_ifh h (i\<lparr>ix_collectors := Some (h + 1), ix_templates := [h + 2]\<rparr>) (st3\<lparr>gs_next := h + 3, gs_lasttid := 256\<rparr>)))"
    "filled (length ?f4) (map (spec_field (known_fields tabs)) ?f4) t4" "te_tid t4 = 256"
    using make_template_made [OF i3 env(1) ne, of "po_biflows g" False] fields_all_known [OF tabs] k3
    by (auto simp: i_def new_handle_def next_tid_def numeral_3_eq_3)
  define st4 where "st4 = set_templ (h + 2) t4 (set_ifh h (i\<lparr>ix_collectors := Some (h + 1), ix_templates := [h + 2]\<rparr>) (st3\<lparr>gs_next := h + 3, gs_lasttid := 256\<rparr>))"
  have i4: "gs_ifh st4 h = Some (i\<lparr>ix_collectors := Some (h + 1), ix_templates := [h + 2]\<rparr>)" by (simp add: st4_def set_ifh_def set_templ_def)
  have k4: "gs_fields st4 = known_fields tabs" "gs_next st4 = h + 3" "gs_lasttid st4 = 256"
    using k3 by (simp_all add: st4_def set_ifh_def set_templ_def)
  obtain t6 where t6: "ipfix_make_template env h ?f6 st4 = Returned (Some (h + 3), set_templ (h + 3) t6
      (set_ifh h (i\<lparr>ix_collectors := Some (h + 1), ix_templates := [h + 3, h + 2]\<rparr>) (st4\<lparr>gs_next := 4 + h, gs_lasttid := 257\<rparr>)))"
    "filled (length ?f6) (map (spec_field (known_fields tabs)) ?f6) t6" "te_tid t6 = 257"
    using make_template_made [OF i4 env(1) ne, of "po_biflows g" True] fields_all_known [OF tabs] k4
    by (auto simp: next_tid_def)
  define st5 where "st5 = set_templ (h + 3) t6 (set_ifh h (i\<lparr>ix_collectors := Some (h + 1), ix_templates := [h + 3, h + 2]\<rparr>) (st4\<lparr>gs_next := 4 + h, gs_lasttid := 257\<rparr>))"
  define x where "x = \<lparr>eh_ipfix = h, eh_templ = h + 2, eh_templ6 = h + 3\<rparr>"
  have "make_templates env h ?f4 ?f6 st3 = Returned (Some x, st5)"
    by (simp only: make_templates_def t4(1) [folded st4_def] t6(1) [folded st5_def] proc_bind.simps prod.case option.case x_def)
  then have ran: "export_init env tabs g st = Returned (Some x, st5)"
    using s1 s1' s2 s3 a by (simp add: export_init_def fields_of_def) (auto simp: fields_of_def split: if_splits)
  have st5: "gs_ifh st5 = [h \<mapsto> i\<lparr>ix_collectors := Some (h + 1), ix_templates := [h + 3, h + 2]\<rparr>]"
    "gs_col st5 = [h + 1 \<mapsto> (new_collector host port (po_protocol g))\<lparr>cl_fd := int fd, cl_lastaccess := ie_now env\<rparr>]"
    "gs_templ st5 = [h + 2 \<mapsto> t4, h + 3 \<mapsto> t6]" "gs_collectors st5 = [h + 1]" "gs_ipfixlist st5 = [h]" "gs_host st5 = testEndianness (gs_host st)"
    by (simp_all add: st5_def st4_def st3_def st2_def st1_def set_ifh_def set_templ_def set_col_def)
  have "handle_wf (i\<lparr>ix_collectors := Some (h + 1), ix_templates := [h + 3, h + 2]\<rparr>)" by (simp add: handle_wf_def i_def new_handle_def)
  moreover have "col_wf ((new_collector host port (po_protocol g))\<lparr>cl_fd := int fd, cl_lastaccess := ie_now env\<rparr>)"
    using prot by (auto simp: col_wf_def new_collector_def)
  moreover have "templ_wf t4" "templ_wf t6" using filled_wf [OF tabs t4(2)] filled_wf [OF tabs t6(2)] t4(3) t6(3) by simp_all
  ultimately have "exporter_wf st5" by (auto simp: exporter_wf_def st5)
  moreover have "template_fits (shape (po_biflows g) False) t4" "template_fits (shape (po_biflows g) True) t6"
    using filled_fits [OF tabs t4(2)] filled_fits [OF tabs t6(2)] by simp_all
  ultimately have "exporter_ready (po_biflows g) x st5" by (auto simp: exporter_ready_def st5 x_def host_ok_test)
  then show ?thesis using ran by blast
qed

section \<open>Records\<close>

definition shaped :: "(nat \<times> ipfix_codec) list \<Rightarrow> ipfix_template_field list \<Rightarrow> bool" where
  "shaped sh fs \<longleftrightarrow> map (\<lambda>f. (tf_flength f, tf_relay f, map_option fi_encode (tf_elem f))) fs = map (\<lambda>(n, c). (n, False, Some c)) sh"

lemma shaped_Nil [simp]: "shaped [] fs \<longleftrightarrow> fs = []" by (simp add: shaped_def)

lemma shaped_Cons:
  "shaped ((n, c) # sh) fs \<longleftrightarrow> (\<exists>f e fs'. fs = f # fs' \<and> tf_flength f = n \<and> \<not> tf_relay f \<and> tf_elem f = Some e \<and> fi_encode e = c \<and> shaped sh fs')"
  by (cases fs) (auto simp: shaped_def)

lemma collect_shaped:
  assumes "shaped sh fs" "\<forall>(n, c) \<in> set sh. n \<noteq> IPFIX_FT_VARLEN" "length args = length sh"
  shows "collect_values fs args = map2 (\<lambda>(n, c) (mem, len). take n mem) sh args"
  using assms
proof (induction sh arbitrary: fs args)
  case (Cons a sh)
  then show ?case by (cases a; cases args) (auto simp: shaped_Cons)
qed simp

lemma record_bytes_shaped:
  assumes "shaped sh fs" "\<forall>(n, c) \<in> set sh. n \<noteq> IPFIX_FT_VARLEN" "length vs = length sh"
  shows "record_bytes host fs vs = Returned (concat (map2 (\<lambda>(n, c) v. snd (run_encode host c v)) sh vs))"
  using assms
proof (induction sh arbitrary: fs vs)
  case (Cons a sh)
  then show ?case by (cases a; cases vs) (auto simp: shaped_Cons field_bytes_def)
qed simp

lemma record_length_shaped:
  assumes "shaped sh fs" "\<forall>(n, c) \<in> set sh. n \<noteq> IPFIX_FT_VARLEN" "record_length fs vs = Some k"
  shows "k \<le> sum_list (map fst sh)"
  using assms
proof (induction sh arbitrary: fs vs k)
  case (Cons a sh)
  then show ?case by (cases a; cases vs) (fastforce simp: shaped_Cons split: if_splits)+
qed simp

lemma shape_lengths: "\<forall>(n, c) \<in> set (shape b v6). n \<noteq> IPFIX_FT_VARLEN" "sum_list (map fst (shape b v6)) \<le> 71" "length (shape b v6) = (if b then 11 else 10)"
  by (auto simp: shape_def Let_def IPFIX_FT_VARLEN_def)

text \<open>The record of a flow: its values in the order of the network.\<close>

definition flow_layout :: "flow_record \<Rightarrow> byte list" where
  "flow_layout r =
     (let e = fr_elems r; a = (if fr_templ6 r then 16 else 4); counter = (\<lambda>c. be_bytes 4 (nat (c mod 2 ^ 32))) in
      be_bytes 8 (fr_start r) @ be_bytes 8 (fr_end r) @ take a (ie_saddr e) @ take a (ie_daddr e) @
      be_bytes 2 (ie_sport e) @ be_bytes 2 (ie_dport e) @ be_bytes 1 (ie_protocol e) @
      (case fr_reverse r of
         None \<Rightarrow> be_bytes 1 (ie_tos e) @ counter (fr_packets r) @ counter (fr_bytes r)
       | Some (p, b) \<Rightarrow> counter (fr_packets r) @ counter (fr_bytes r) @ counter p @ counter b))"

text \<open>Values in the ranges of their types; two directions when the probe looks for them.\<close>

definition flow_values :: "bool \<Rightarrow> flow_record \<Rightarrow> bool" where
  "flow_values biflows r \<longleftrightarrow> (fr_reverse r \<noteq> None) = biflows \<and> fr_start r < 2 ^ 64 \<and> fr_end r < 2 ^ 64 \<and>
     ie_sport (fr_elems r) < 2 ^ 16 \<and> ie_dport (fr_elems r) < 2 ^ 16 \<and> ie_protocol (fr_elems r) < 2 ^ 8 \<and> ie_tos (fr_elems r) < 2 ^ 8"

lemma encode_host:
  assumes "k \<in> {1, 2, 4, 8}" "n < 256 ^ k" "host_ok h"
  shows "snd (run_encode h Codec_int (host_bytes h k n)) = be_bytes k n"
  using ipfix_integers [OF assms] by (simp add: run_encode_def)

lemma counter_range: "nat (c mod 2 ^ 32) < 256 ^ 4"
  by (simp add: nat_less_iff)

lemma record_put:
  assumes "shaped (shape biflows (fr_templ6 r)) fs" "flow_values biflows r" "host_ok h"
  shows "record_bytes h fs (collect_values fs (record_args h r)) = Returned (flow_layout r)"
proof -
  have len: "length (record_args h r) = length (shape biflows (fr_templ6 r))"
    using assms(2) by (auto simp: record_args_def flow_values_def shape_def Let_def split: option.splits)
  note c = collect_shaped [OF assms(1) shape_lengths(1) len]
  have bytes: "snd (run_encode h Codec_bytes v) = v" for v by (simp add: run_encode_def ipfix_encode_bytes_def)
  have l: "take k (host_bytes h k n) = host_bytes h k n" for k n by (simp add: host_bytes_def)
  have e: "snd (run_encode h Codec_int (host_bytes h 8 (fr_start r))) = be_bytes 8 (fr_start r)"
    "snd (run_encode h Codec_int (host_bytes h 8 (fr_end r))) = be_bytes 8 (fr_end r)"
    "snd (run_encode h Codec_int (host_bytes h 2 (ie_sport (fr_elems r)))) = be_bytes 2 (ie_sport (fr_elems r))"
    "snd (run_encode h Codec_int (host_bytes h 2 (ie_dport (fr_elems r)))) = be_bytes 2 (ie_dport (fr_elems r))"
    "snd (run_encode h Codec_int (host_bytes h 1 (ie_protocol (fr_elems r)))) = be_bytes 1 (ie_protocol (fr_elems r))"
    "snd (run_encode h Codec_int (host_bytes h 1 (ie_tos (fr_elems r)))) = be_bytes 1 (ie_tos (fr_elems r))"
    using assms(2) by (intro encode_host; simp add: assms(3) flow_values_def)+
  have n: "snd (run_encode h Codec_int (host_bytes h 4 (nat (x mod 2 ^ 32)))) = be_bytes 4 (nat (x mod 2 ^ 32))" for x
    by (rule encode_host [OF _ counter_range assms(3)]) simp
  have "record_bytes h fs (collect_values fs (record_args h r)) =
      Returned (concat (map2 (\<lambda>(n, c) v. snd (run_encode h c v)) (shape biflows (fr_templ6 r)) (collect_values fs (record_args h r))))"
    by (rule record_bytes_shaped [OF assms(1) shape_lengths(1)]) (simp add: c len)
  also have "\<dots> = Returned (flow_layout r)"
  proof (cases "fr_reverse r")
    case None
    then have "\<not> biflows" using assms(2) by (auto simp: flow_values_def)
    then show ?thesis unfolding c using None
      by (simp add: record_args_def shape_def Let_def flow_layout_def bytes l e n [simplified] del: One_nat_def)
  next
    case (Some pb)
    then have "biflows" using assms(2) by (auto simp: flow_values_def)
    then show ?thesis unfolding c using Some
      by (simp add: record_args_def shape_def Let_def flow_layout_def bytes l e n [simplified] split_beta del: One_nat_def)
  qed
  finally show ?thesis .
qed

section \<open>Calls\<close>

lemma ready_keeps:
  assumes "exporter_ready biflows x st" "keeps False st st'"
  shows "exporter_ready biflows x st'"
proof -
  obtain i where i: "gs_ifh st (eh_ipfix x) = Some i" "ix_collectors i \<noteq> None" using assms(1) by (auto simp: exporter_ready_def)
  obtain i' where "gs_ifh st' (eh_ipfix x) = Some i'" "ix_collectors i' = ix_collectors i"
    using keeps_ifh [OF assms(2) i(1)] by (auto simp: links_def)
  moreover have "\<exists>templ. gs_templ st' (if v6 then eh_templ6 x else eh_templ x) = Some templ \<and> template_fits (shape biflows v6) templ" for v6
  proof -
    obtain templ where "gs_templ st (if v6 then eh_templ6 x else eh_templ x) = Some templ" "template_fits (shape biflows v6) templ"
      using assms(1) unfolding exporter_ready_def by blast
    with keeps_templ [OF assms(2) this(1)] show ?thesis by (auto simp: template_fits_def templ_fields_def)
  qed
  moreover have "exporter_wf st'" "gs_host st' = gs_host st" using assms(2) by (simp_all add: keeps_def)
  ultimately show ?thesis using assms(1) i(2) by (auto simp: exporter_ready_def)
qed

lemma call_good:
  assumes "exporter_ready biflows x st"
  shows "good False st (do_call env x c st)"
proof -
  have wf: "exporter_wf st" using assms by (simp add: exporter_ready_def)
  obtain i where i: "gs_ifh st (eh_ipfix x) = Some i" "ix_collectors i \<noteq> None" using assms by (auto simp: exporter_ready_def)
  show ?thesis
  proof (cases c)
    case (Export r)
    obtain templ where t: "gs_templ st (if fr_templ6 r then eh_templ6 x else eh_templ x) = Some templ"
      "template_fits (shape biflows (fr_templ6 r)) templ" using assms unfolding exporter_ready_def by blast
    have "n + 4 \<le> IPFIX_DEFAULT_BUFLEN" if "record_length (templ_fields templ) vs = Some n" for n vs
      using record_length_shaped [OF _ shape_lengths(1) that, of biflows "fr_templ6 r"] shape_lengths(2) [of biflows "fr_templ6 r"] t(2)
      by (simp add: template_fits_def shaped_def IPFIX_DEFAULT_BUFLEN_def)
    then have "good False st (ipfix_export_array env (eh_ipfix x) (Some (if fr_templ6 r then eh_templ6 x else eh_templ x)) vs st)" for vs
      using export_array_good [OF wf i t(1)] by blast
    then show ?thesis using t(1) by (simp add: do_call_def Export ipfix_export_def get_templ_def goodI keeps_refl wf)
  next
    case Flush
    then show ?thesis using flush_good [OF wf i(1), of env] by (auto simp: do_call_def good_def)
  qed
qed

lemma calls_ready:
  assumes "exporter_ready biflows x st"
  shows "\<exists>st'. do_calls x cs st = Returned st' \<and> exporter_ready biflows x st'"
  using assms
proof (induction cs arbitrary: st)
  case (Cons ec cs)
  obtain env c where ec: "ec = (env, c)" by (cases ec)
  obtain r st1 where "do_call env x c st = Returned (r, st1)" "keeps False st st1"
    using call_good [OF Cons.prems, of env c] by (auto simp: good_def)
  then show ?case using Cons.IH [OF ready_keeps [OF Cons.prems]] by (auto simp: ec)
qed simp

text \<open>The templates take the values of every flow, and the record is the layout of the flow.\<close>

definition records_fit :: "bool \<Rightarrow> exporter_handles \<Rightarrow> ipfix_st \<Rightarrow> bool" where
  "records_fit biflows x st \<longleftrightarrow> (\<forall>r. flow_values biflows r \<longrightarrow>
     (\<exists>templ. gs_templ st (if fr_templ6 r then eh_templ6 x else eh_templ x) = Some templ \<and>
       te_nfields templ = length (record_args (gs_host st) r) \<and>
       record_bytes (gs_host st) (templ_fields templ) (collect_values (templ_fields templ) (record_args (gs_host st) r)) = Returned (flow_layout r)))"

lemma ready_records:
  assumes "exporter_ready biflows x st"
  shows "records_fit biflows x st"
  unfolding records_fit_def
proof (intro allI impI)
  fix r assume v: "flow_values biflows r"
  obtain templ where t: "gs_templ st (if fr_templ6 r then eh_templ6 x else eh_templ x) = Some templ"
    "template_fits (shape biflows (fr_templ6 r)) templ" using assms unfolding exporter_ready_def by blast
  then have s: "shaped (shape biflows (fr_templ6 r)) (templ_fields templ)" "te_nfields templ = length (templ_fields templ)"
    by (simp_all add: template_fits_def shaped_def)
  have "length (templ_fields templ) = length (shape biflows (fr_templ6 r))"
    using arg_cong [OF s(1) [unfolded shaped_def], of length] by simp
  moreover have "length (record_args (gs_host st) r) = length (shape biflows (fr_templ6 r))"
    using v by (auto simp: record_args_def flow_values_def shape_def Let_def split: option.splits)
  ultimately have "te_nfields templ = length (record_args (gs_host st) r)" using s(2) by simp
  moreover have "host_ok (gs_host st)" using assms by (simp add: exporter_ready_def)
  ultimately show "\<exists>templ. gs_templ st (if fr_templ6 r then eh_templ6 x else eh_templ x) = Some templ \<and>
      te_nfields templ = length (record_args (gs_host st) r) \<and>
      record_bytes (gs_host st) (templ_fields templ) (collect_values (templ_fields templ) (record_args (gs_host st) r)) = Returned (flow_layout r)"
    using record_put [OF s(1) v] t(1) by (intro exI [of _ templ]) simp
qed


definition sample_tables :: probe_tables where
  "sample_tables = \<lparr>pt_types = ipfix_field_types, pt_reverse = [],
     pt_fokus = [\<lparr>ft_eno = 12325, ft_ftype = 176, ft_length = 8, ft_coding = IPFIX_CODING_UINT, ft_name = ''revOctetDeltaCount'', ft_documentation = ''''\<rparr>,
       \<lparr>ft_eno = 12325, ft_ftype = 177, ft_length = 8, ft_coding = IPFIX_CODING_UINT, ft_name = ''revPacketDeltaCount'', ft_documentation = ''''\<rparr>]\<rparr>"

definition sample_record :: flow_record where
  "sample_record = \<lparr>fr_templ6 = False, fr_start = 1, fr_end = 2, fr_elems = zero_elems\<lparr>ie_version := 4, ie_sport := 258\<rparr>,
     fr_packets = 3, fr_bytes = 6, fr_reverse = Some (4, 5)\<rparr>"

definition sample_env :: ipfix_env where
  "sample_env = example_env\<lparr>ie_connect := \<lambda>_ _ _. Some 5\<rparr>"

definition no_module :: ipfix_st where
  "no_module = example_st\<lparr>gs_tstart := 0, gs_fields := [], gs_ipfixlist := [], gs_collectors := [], gs_ifh := Map.empty, gs_col := Map.empty, gs_templ := Map.empty\<rparr>"


section \<open>The program\<close>

lemma captured_filter: "captured_of (filter (\<lambda>e. case e of Captured x \<Rightarrow> True | Timer now \<Rightarrow> P) events) = captured_of events"
  by (induction events) (auto split: probe_event.splits)

lemma run_ends:
  assumes "flow_init True True maxflows 0 timeout flow_module = ((0, Table t), m)" "pr_ipflows p = Some t" "pr_mem p = m" "pr_calls p = []"
    and "\<forall>x \<in> set (captured_of events). packet_key v par fuel p x \<noteq> None" "int (length (captured_of events)) \<le> (if maxflows \<noteq> 0 then maxflows else 5000)"
  shows "proc_bind (probe_run par fuel events p) (exit_func par now) = Exited 0"
proof -
  let ?mx = "if maxflows \<noteq> 0 then maxflows else 5000"
  have h: "probe_holds v ?mx p Map.empty" using flows_made [OF assms(1), of v] assms(2,3) by (simp add: probe_holds_def)
  have a: "accounts v (pr_calls p) Map.empty (\<lambda>_. 0) (\<lambda>_. 0)" by (simp add: accounts_def assms(4) exported_def records_def held_def)
  obtain p' c' where p': "probe_run par fuel events p = Returned p'" "probe_holds v ?mx p' c'"
    using run_accounts [OF h a _ assms(5)] assms(6) by (auto simp: same_link_def)
  obtain p'' c'' where e: "export_ipflows par now True p' = Returned p''" "probe_holds v ?mx p'' c''" "c'' = Map.empty"
    using export_keeps [OF p'(2), of par now True] by auto
  obtain t'' where "pr_ipflows p'' = Some t''" "fw_flows t'' = []" using e(2,3) by (auto simp: probe_holds_def flows_hold_def counts_ok_def)
  then show ?thesis using p'(1) e(1) by (simp add: exit_func_def export_all_def flow_close_def)
qed

text \<open>A probe of one direction whose capture can be opened, and the packets of a run: of one version, whole, no more than flows have room.\<close>

definition link_probe :: "capture_env \<Rightarrow> probe" where
  "link_probe cenv = (case ce_datalink cenv of DLT_EN10MB \<Rightarrow> g_probe\<lparr>pr_ethernet := True, pr_offset := 14\<rparr>
     | DLT_ATM_RFC1483 \<Rightarrow> g_probe\<lparr>pr_ethernet := False, pr_offset := 8\<rparr> | Other_link \<Rightarrow> g_probe)"

definition capture_opens :: "capture_env \<Rightarrow> probe_options \<Rightarrow> bool" where
  "capture_opens cenv g \<longleftrightarrow> ce_flow_mem cenv = (True, True) \<and> (ce_fileno cenv < 0 \<or> ce_fdadd cenv) \<and> (po_daemon g \<longrightarrow> ce_daemon cenv) \<and>
     (if po_offline g then ce_open_offline cenv (po_interface g)
      else if po_interface g = '''' then (\<exists>d. ce_lookupdev cenv = Some d \<and> ce_open_live cenv d (po_promisc g))
      else ce_open_live cenv (po_interface g) (po_promisc g))"

lemma input_init_opens:
  assumes "capture_opens cenv g" "\<not> po_biflows g"
  shows "\<exists>t m. flow_init True True (po_ipflow_max g) 0 (po_ipflow_timeout g) flow_module = ((0, Table t), m) \<and>
    input_init cenv g g_probe = (0, (link_probe cenv)\<lparr>pr_ipflows := Some t, pr_mem := m\<rparr>)"
proof -
  have "pr_mem (link_probe cenv) = flow_module" by (simp add: link_probe_def g_probe_def split: link_type.split)
  moreover have "(case ce_datalink cenv of DLT_EN10MB \<Rightarrow> g_probe\<lparr>pr_ethernet := True, pr_offset := 14\<rparr> | DLT_ATM_RFC1483 \<Rightarrow>
      g_probe\<lparr>pr_ethernet := False, pr_offset := 8\<rparr> | Other_link \<Rightarrow> g_probe\<lparr>pr_ethernet := False, pr_offset := 0\<rparr>) = link_probe cenv"
    by (simp add: link_probe_def g_probe_def split: link_type.split)
  ultimately show ?thesis using assms
    by (auto simp: input_init_def capture_opens_def flow_init_def Let_def split: option.splits if_splits)
qed


definition sample_cenv :: capture_env where
  "sample_cenv = \<lparr>ce_open_offline = (\<lambda>s. s = ''/tmp/packets''), ce_lookupdev = None, ce_open_live = (\<lambda>d p. False), ce_datalink = DLT_EN10MB,
     ce_fileno = 7, ce_fdadd = True, ce_flow_mem = (True, True), ce_daemon = False\<rparr>"

text \<open>\<open>probe -r packets -c collector:4000 --tidle 20\<close>\<close>

definition sample_options :: "found_option list" where
  "sample_options = [Short CHR ''r'' ''packets'', Short CHR ''c'' ''collector:4000'', Long 1 ''20'']"


section \<open>What goes wrong\<close>

text \<open>The option for SSL changes the port and nothing else: flows leave as they are.\<close>

lemma ssl_ignored: "export_init env tabs (g\<lparr>po_ssl := b\<rparr>) st = export_init env tabs g st"
proof -
  have "po_odid (g\<lparr>po_ssl := b\<rparr>) = po_odid g" "po_collector (g\<lparr>po_ssl := b\<rparr>) = po_collector g" "po_port (g\<lparr>po_ssl := b\<rparr>) = po_port g"
    "po_protocol (g\<lparr>po_ssl := b\<rparr>) = po_protocol g" "po_biflows (g\<lparr>po_ssl := b\<rparr>) = po_biflows g" by simp_all
  then show ?thesis unfolding export_init_def by (simp only:)
qed

lemma ssl_port: "probe_settings realpath [Long 5 ''''] False = Returned (probe_defaults\<lparr>po_ssl := True, po_port := 4740\<rparr>)"
  by (simp add: probe_settings_def probe_option_def probe_defaults_def IPFIX_TLS_PORTNO_def)

text \<open>Times are read without a sign into numbers with one: a long idle time is a negative one, and every flow is dropped at once.\<close>

lemma long_timeout_negative: "scan_unsigned ''4294967295'' old = -1"
  by (simp add: scan_unsigned_def scan_digits_def cstr_def NUL_def is_space_def is_digit_def dec_value_def wrap32_def Let_def)

lemma negative_timeout_expires: "pp_ipflow_timeout par < 0 \<Longrightarrow> 0 \<le> idle \<Longrightarrow> flow_expired par now False idle duration"
  by (simp add: flow_expired_def)

text \<open>The first of \<open>-i\<close> and \<open>-r\<close> counts.\<close>

lemma first_source_counts:
  assumes "realpath f = Some p" "p \<noteq> ''''"
  shows "probe_command_line realpath [Short CHR ''r'' f, Short CHR ''i'' d] g = probe_command_line realpath [Short CHR ''r'' f] g"
  using assms by (cases "po_interface g = ''''") (auto simp: probe_option_def Let_def)

text \<open>A collector that is a host with an empty or zero port is looked up with the colon in its name, at the port of the library.\<close>

lemma port_zero_kept: "collector_address ''host:0'' port = (''host:0'', 4739)"
  by (simp add: collector_address_def atoi_def cstr_def NUL_def is_space_def is_digit_def dec_value_def Let_def)

text \<open>An exporter that was set up stays open when the capture cannot be opened.\<close>

lemma exporter_left_open:
  assumes "export_init env tabs g st = Returned (Some x, st')" "po_offline g" "\<not> ce_open_offline cenv (po_interface g)" "\<not> po_daemon g"
  shows "prog_init env tabs cenv g st = Returned (-1, Some x, g_probe, st')"
  using assms by (simp add: prog_init_def input_init_def)

end
