(* ===== verification/LibMisc.thy ===== *)
theory LibMisc
  imports Posix
begin

text \<open>
  Helpers of \<open>libipfix\<close>: names of files, reading and writing, times and daemons (\<open>libmisc/misc.c\<close>) and the
  log (\<open>libmisc/mlog.c\<close>). What the kernel answers is an argument.
\<close>

section \<open>Names of files\<close>

definition MAXPATHLEN :: nat where "MAXPATHLEN = 4096"

text \<open>An index that goes back while a character is one to be passed over, to 0 at most.\<close>

fun back_while :: "(char \<Rightarrow> bool) \<Rightarrow> string \<Rightarrow> nat \<Rightarrow> nat" where
  "back_while P s 0 = 0"
| "back_while P s (Suc i) = (if P (s ! Suc i) then back_while P s i else Suc i)"

fun back_start :: "string \<Rightarrow> nat \<Rightarrow> nat" where
  "back_start s 0 = 0"
| "back_start s (Suc i) = (if s ! i \<noteq> CHR ''/'' then back_start s i else Suc i)"

abbreviation is_slash :: "char \<Rightarrow> bool" where "is_slash c \<equiv> c = CHR ''/''"

text \<open>None is the null pointer; as a result, with \<open>ENAMETOOLONG\<close>.\<close>

definition basename :: "string option \<Rightarrow> string option" where
  "basename path =
     (case path of
        None \<Rightarrow> Some ''.''
      | Some s \<Rightarrow>
          if s = '''' then Some ''.''
          else
            let endp = back_while is_slash s (length s - 1) in
            if endp = 0 \<and> is_slash (s ! 0) then Some ''/''
            else
              let startp = back_start s endp in
              if endp - startp + 2 > MAXPATHLEN then None
              else Some (take (endp - startp + 1) (drop startp s)))"

definition dirname :: "string option \<Rightarrow> string option" where
  "dirname path =
     (case path of
        None \<Rightarrow> Some ''.''
      | Some s \<Rightarrow>
          if s = '''' then Some ''.''
          else
            let endp = back_while is_slash s (length s - 1); endp = back_while (\<lambda>c. \<not> is_slash c) s endp in
            if endp = 0 then Some (if is_slash (s ! 0) then ''/'' else ''.'')
            else
              let endp = back_while is_slash s (endp - 1) in
              if endp + 2 > MAXPATHLEN then None
              else Some (take (endp + 1) s))"

section \<open>Reading and writing\<close>

text \<open>\<open>ws\<close> is what \<open>write\<close> returns, \<open>out\<close> what it has taken; the kernel takes no more than it is given.\<close>

fun writen :: "int list \<Rightarrow> nat \<Rightarrow> byte list \<Rightarrow> byte list \<Rightarrow> (int \<times> byte list) proc" where
  "writen ws nbytes [] out = Returned (int nbytes, out)"
| "writen [] nbytes ptr out = Blocked"
| "writen (w # ws) nbytes ptr out =
     (if w \<le> 0 then Returned (w, out) else writen ws nbytes (drop (nat w) ptr) (out @ take (nat w) ptr))"

text \<open>What \<open>read\<close> of one byte gives. The buffer is what is before its final 0, or untouched.\<close>

datatype got = Got byte | Got_eof | Got_error

fun read_line :: "got list \<Rightarrow> int \<Rightarrow> byte list \<Rightarrow> (int \<times> byte list option) proc" where
  "read_line gs maxlen buf =
     (if int (length buf) + 1 \<ge> maxlen then Returned (int (length buf) + 1, Some buf)
      else
        (case gs of
           [] \<Rightarrow> Blocked
         | Got c # gs \<Rightarrow>
             if c = 10 then Returned (int (length buf) + 1, Some (buf @ [c])) else read_line gs maxlen (buf @ [c])
         | Got_eof # gs \<Rightarrow> if buf = [] then Returned (0, None) else Returned (int (length buf) + 1, Some buf)
         | Got_error # gs \<Rightarrow> Returned (-1, None)))"

declare read_line.simps [simp del]

section \<open>Times\<close>

record calendar =
  ca_year :: int
  ca_mon :: int
  ca_mday :: int
  ca_hour :: int
  ca_min :: int
  ca_sec :: int

definition is_leap :: "int \<Rightarrow> bool" where
  "is_leap y = (let y = y + 1900 in y mod 4 = 0 \<and> (y mod 100 \<noteq> 0 \<or> y mod 400 = 0))"

definition ndays :: "bool \<Rightarrow> int list" where
  "ndays leap = [31, if leap then 29 else 28, 31, 30, 31, 30, 31, 31, 30, 31, 30, 31]"

definition timegm :: "calendar \<Rightarrow> int proc" where
  "timegm tm =
     (if ca_mon tm > 12 then Undefined ''read past the table''
      else
        let res = sum_list (map (\<lambda>i. if is_leap i then 366 else 365) [70 .. ca_year tm - 1]);
            res = res + sum_list (take (nat (ca_mon tm)) (ndays (is_leap (ca_year tm))));
            res = (res + (ca_mday tm - 1)) * 24 + ca_hour tm;
            res = res * 60 + ca_min tm
        in Returned (res * 60 + ca_sec tm))"

section \<open>Daemons\<close>

datatype forked = Fork_failed | Fork_child | Fork_parent

datatype daemon_call = Chdir string | Dup2 int int | Close int

text \<open>\<open>null\<close> is what opening \<open>/dev/null\<close> gives.\<close>

definition daemon :: "forked \<Rightarrow> bool \<Rightarrow> int \<Rightarrow> bool \<Rightarrow> bool \<Rightarrow> (int \<times> daemon_call list) proc" where
  "daemon fork setsid null nochdir noclose =
     (case fork of
        Fork_failed \<Rightarrow> Returned (-1, [])
      | Fork_parent \<Rightarrow> Exited 0
      | Fork_child \<Rightarrow>
          if \<not> setsid then Returned (-1, [])
          else Returned (0, (if \<not> nochdir then [Chdir ''/''] else []) @
            (if \<not> noclose \<and> null \<noteq> -1 then [Dup2 null 0, Dup2 null 1, Dup2 null 2] @ (if null > 2 then [Close null] else []) else [])))"

section \<open>The log\<close>

datatype log_stream = Log_unset | Log_stderr | Log_file nat | Log_closed

record mlog =
  ml_vlevel :: int
  ml_fp :: log_stream
  ml_out :: "(log_stream \<times> string) list"

definition errorf :: "string \<Rightarrow> mlog \<Rightarrow> mlog" where
  "errorf msg st = st\<lparr>ml_out := ml_out st @ [(Log_stderr, snprintf 4100 msg)]\<rparr>"

definition debugf :: "string \<Rightarrow> mlog \<Rightarrow> mlog" where
  "debugf msg st = st\<lparr>ml_out := ml_out st @ [(Log_stderr, ''DEBUG <'' @ snprintf 4100 msg @ ''>'' @ [CHR 0x0A])]\<rparr>"

definition mlogf :: "int \<Rightarrow> string \<Rightarrow> mlog \<Rightarrow> mlog proc" where
  "mlogf vlevel msg st =
     (let st = (if ml_fp st = Log_unset then st\<lparr>ml_fp := Log_stderr\<rparr> else st) in
      if vlevel > ml_vlevel st then Returned st
      else if ml_fp st = Log_closed then Undefined ''closed file''
      else Returned (st\<lparr>ml_out := ml_out st @ [(ml_fp st, snprintf 4100 msg)]\<rparr>))"

text \<open>\<open>file\<close>: the stream that is opened, or nothing.\<close>

definition mlog_open :: "string option \<Rightarrow> nat option \<Rightarrow> string \<Rightarrow> mlog \<Rightarrow> int \<times> mlog" where
  "mlog_open logfile file strerror st =
     (case logfile of
        None \<Rightarrow> (0, st)
      | Some name \<Rightarrow>
          (case file of
             Some f \<Rightarrow> (0, st\<lparr>ml_fp := Log_file f\<rparr>)
           | None \<Rightarrow> (-1, (errorf (''[mlog_open] cannot open log file <'' @ name @ ''>, <'' @ strerror @ ''>!'' @ [CHR 0x0A]) st)\<lparr>ml_fp := Log_stderr\<rparr>)))"

definition mlog_close :: "mlog \<Rightarrow> mlog proc" where
  "mlog_close st = (case ml_fp st of
     Log_file f \<Rightarrow> Returned (st\<lparr>ml_fp := Log_closed\<rparr>) | Log_closed \<Rightarrow> Undefined ''closed file'' | _ \<Rightarrow> Returned st)"

definition mlog_set_vlevel :: "int \<Rightarrow> mlog \<Rightarrow> mlog" where
  "mlog_set_vlevel vlevel st = st\<lparr>ml_vlevel := vlevel\<rparr>"

definition mlog_get_vlevel :: "mlog \<Rightarrow> int" where
  "mlog_get_vlevel st = ml_vlevel st"

section \<open>What holds of them\<close>

lemma back_while_block:
  assumes "i \<le> j" "\<forall>k. i < k \<and> k \<le> j \<longrightarrow> P (s ! k)" "i = 0 \<or> \<not> P (s ! i)"
  shows "back_while P s j = i"
  using assms
proof (induction j)
  case (Suc j)
  then show ?case by (cases "i = Suc j") auto
qed simp

lemma back_start_block:
  assumes "i \<le> j" "\<forall>k. i \<le> k \<and> k < j \<longrightarrow> s ! k \<noteq> CHR ''/''" "i = 0 \<or> s ! (i - 1) = CHR ''/''"
  shows "back_start s j = i"
  using assms
proof (induction j)
  case (Suc j)
  then show ?case by (cases "i = Suc j") auto
qed simp

text \<open>Of a directory, a slash and a name, with any number of slashes at the end, these are the two parts.\<close>

lemma names_of_path:
  assumes "d \<noteq> ''''" "List.last d \<noteq> CHR ''/''" "b \<noteq> ''''" "CHR ''/'' \<notin> set b" "length d + length b < MAXPATHLEN - 1"
  shows "basename (Some (d @ ''/'' @ b @ replicate n (CHR ''/''))) = Some b"
    "dirname (Some (d @ ''/'' @ b @ replicate n (CHR ''/''))) = Some d"
proof -
  define s where "s = d @ ''/'' @ b @ replicate n (CHR ''/'')"
  have len: "length s = length d + 1 + length b + n" by (simp add: s_def)
  have at_b: "s ! k = b ! (k - length d - 1)" "s ! k \<noteq> CHR ''/''" if "length d < k" "k \<le> length d + length b" for k
  proof -
    define j where "j = k - length d - 1"
    have j: "k = length d + Suc j" "j < length b" using that by (simp_all add: j_def)
    then show "s ! k = b ! (k - length d - 1)" by (simp add: s_def nth_append)
    with j show "s ! k \<noteq> CHR ''/''" using assms(4) by (auto dest: nth_mem)
  qed
  have slash: "s ! length d = CHR ''/''" by (simp add: s_def nth_append)
  have tail: "s ! k = CHR ''/''" if "length d + length b < k" "k < length s" for k
  proof -
    define j where "j = k - length d - length b - 1"
    have j: "k = length d + Suc (length b + j)" "j < n" using that len by (simp_all add: j_def)
    have "\<not> k < length d" "k - length d = Suc (length b + j)" using j by simp_all
    then show ?thesis using j(2) by (simp add: s_def nth_append)
  qed
  have stop: "back_while is_slash s (length s - 1) = length d + length b"
    by (rule back_while_block) (use at_b(2) [of "length d + length b"] tail len assms(3) in \<open>auto\<close>)
  have start: "back_start s (length d + length b) = Suc (length d)"
    by (rule back_start_block) (use at_b(2) slash assms(3) in \<open>auto simp: Suc_le_eq\<close>)
  have sep: "back_while (\<lambda>c. \<not> is_slash c) s (length d + length b) = length d"
    by (rule back_while_block) (use at_b(2) slash in auto)
  have "s ! (length d - 1) = List.last d" using assms(1) by (simp add: s_def nth_append last_conv_nth)
  then have dir: "back_while is_slash s (length d - 1) = length d - 1"
    using assms(2) by (intro back_while_block) auto
  have ne: "s \<noteq> ''''" "length d + length b \<noteq> 0" using assms(1) by (simp_all add: s_def)
  have "take (length b) (drop (Suc (length d)) s) = b" by (simp add: s_def)
  then show "basename (Some (d @ ''/'' @ b @ replicate n (CHR ''/''))) = Some b"
    unfolding s_def [symmetric] using stop start ne assms(3,5) by (cases "length b") (auto simp: basename_def Let_def)
  have "take (length d) s = d" by (simp add: s_def)
  then show "dirname (Some (d @ ''/'' @ b @ replicate n (CHR ''/''))) = Some d"
    unfolding s_def [symmetric] using stop sep dir ne assms(1,5) by (cases "length d") (auto simp: dirname_def Let_def)
qed

text \<open>All bytes are written, whatever part of them every call takes; the first error or end is returned.\<close>

lemma writen_all:
  assumes "\<forall>w \<in> set ws. 0 < w" "int (length ptr) \<le> sum_list ws"
  shows "writen ws n ptr out = Returned (int n, out @ ptr)"
  using assms
proof (induction ws n ptr out rule: writen.induct)
  case (3 w ws nbytes v va out)
  have "int (length (drop (nat w) (v # va))) \<le> sum_list ws"
  proof (cases "nat w \<le> length (v # va)")
    case True
    then have "int (length (drop (nat w) (v # va))) = int (length (v # va)) - w" using 3(2) by (simp add: of_nat_diff)
    then show ?thesis using 3(3) by simp
  next
    case False
    have "0 \<le> sum_list ws" by (rule sum_list_nonneg) (use 3(2) in force)
    then show ?thesis using False by simp
  qed
  with 3 have "writen ws nbytes (drop (nat w) (v # va)) (out @ take (nat w) (v # va)) =
      Returned (int nbytes, (out @ take (nat w) (v # va)) @ drop (nat w) (v # va))" by simp
  then show ?case using 3(2) by simp
qed auto

lemma writen_error: "ptr \<noteq> [] \<Longrightarrow> w \<le> 0 \<Longrightarrow> writen (w # ws) n ptr out = Returned (w, out)"
  by (cases ptr) simp_all

text \<open>A line shorter than the buffer is read with its end, and its length returned.\<close>

lemma read_line_whole:
  assumes "10 \<notin> set cs" "int (length buf + length cs) + 2 \<le> maxlen"
  shows "read_line (map Got cs @ Got 10 # gs) maxlen buf = Returned (int (length buf + length cs) + 1, Some (buf @ cs @ [10]))"
  using assms
proof (induction cs arbitrary: buf)
  case Nil
  then show ?case by (subst read_line.simps) simp
next
  case (Cons c cs)
  then show ?case using Cons.IH [of "buf @ [c]"] by (subst read_line.simps) simp
qed

text \<open>At the end of the file, or when the buffer is full, one more than the length is returned.\<close>

lemma read_line_end:
  assumes "cs \<noteq> []" "10 \<notin> set cs" "int (length cs) + 2 \<le> maxlen"
  shows "read_line (map Got cs @ [Got_eof]) maxlen [] = Returned (int (length cs) + 1, Some cs)"
proof -
  have "10 \<notin> set cs \<Longrightarrow> buf @ cs \<noteq> [] \<Longrightarrow> int (length (buf @ cs)) + 2 \<le> maxlen \<Longrightarrow>
      read_line (map Got cs @ [Got_eof]) maxlen buf = Returned (int (length (buf @ cs)) + 1, Some (buf @ cs))" for buf
  proof (induction cs arbitrary: buf)
    case Nil
    then show ?case by (subst read_line.simps) simp
  next
    case (Cons c cs)
    then show ?case using Cons.IH [of "buf @ [c]"] by (subst read_line.simps) simp
  qed
  from this [of "[]"] show ?thesis using assms by simp
qed

lemma read_line_full:
  assumes "10 \<notin> set cs" "int (length cs) + 1 = maxlen"
  shows "read_line (map Got cs @ gs) maxlen [] = Returned (int (length cs) + 1, Some cs)"
proof -
  have "10 \<notin> set cs \<Longrightarrow> int (length (buf @ cs)) + 1 = maxlen \<Longrightarrow>
      read_line (map Got cs @ gs) maxlen buf = Returned (int (length (buf @ cs)) + 1, Some (buf @ cs))" for buf
  proof (induction cs arbitrary: buf)
    case Nil
    then show ?case by (subst read_line.simps) simp
  next
    case (Cons c cs)
    then show ?case using Cons.IH [of "buf @ [c]"] by (subst read_line.simps) simp
  qed
  from this [of "[]"] show ?thesis using assms by simp
qed

text \<open>
  Times are counted from 1970, 86400 seconds for every day of the calendar: this is all there is to \<open>timegm\<close> on
  valid dates from then on.
\<close>

definition valid_date :: "calendar \<Rightarrow> bool" where
  "valid_date c \<longleftrightarrow> 70 \<le> ca_year c \<and> 0 \<le> ca_mon c \<and> ca_mon c < 12 \<and> 1 \<le> ca_mday c \<and> ca_mday c \<le> ndays (is_leap (ca_year c)) ! nat (ca_mon c)"

definition next_day :: "calendar \<Rightarrow> calendar" where
  "next_day c =
     (if ca_mday c < ndays (is_leap (ca_year c)) ! nat (ca_mon c) then c\<lparr>ca_mday := ca_mday c + 1\<rparr>
      else if ca_mon c < 11 then c\<lparr>ca_mon := ca_mon c + 1, ca_mday := 1\<rparr>
      else c\<lparr>ca_year := ca_year c + 1, ca_mon := 0, ca_mday := 1\<rparr>)"

lemma length_ndays: "length (ndays leap) = 12" by (simp add: ndays_def)

lemma sum_ndays: "sum_list (ndays leap) = (if leap then 366 else 365)" by (simp add: ndays_def)

lemma timegm_start: "timegm \<lparr>ca_year = 70, ca_mon = 0, ca_mday = 1, ca_hour = 0, ca_min = 0, ca_sec = 0\<rparr> = Returned 0"
  by (simp add: timegm_def)

lemma timegm_next_day:
  assumes "valid_date c"
  shows "\<exists>t. timegm c = Returned t \<and> timegm (next_day c) = Returned (t + 86400)"
proof -
  let ?n = "ndays (is_leap (ca_year c))" and ?m = "nat (ca_mon c)"
  have c: "70 \<le> ca_year c" "?m < 12" "ca_mon c < 12" "0 \<le> ca_mon c" "ca_mday c \<le> ?n ! ?m" using assms by (auto simp: valid_date_def nat_less_iff)
  consider (day) "ca_mday c < ?n ! ?m" | (month) "ca_mday c = ?n ! ?m" "ca_mon c < 11" | (year) "ca_mday c = ?n ! ?m" "ca_mon c = 11"
    using c by linarith
  then show ?thesis
  proof cases
    case day
    then show ?thesis using c by (simp add: timegm_def next_day_def)
  next
    case month
    have "nat (ca_mon c + 1) = Suc ?m" using c(4) by simp
    then have "sum_list (take (nat (ca_mon c + 1)) ?n) = sum_list (take ?m ?n) + ?n ! ?m"
      using c(2) by (simp add: take_Suc_conv_app_nth length_ndays)
    then show ?thesis using month c by (simp add: timegm_def next_day_def)
  next
    case year
    have "[70 .. ca_year c] = [70 .. ca_year c - 1] @ [ca_year c]" using c(1) by (simp add: upto_rec2)
    moreover have "sum_list (take 11 ?n) + ?n ! 11 = (if is_leap (ca_year c) then 366 else 365)"
      by (simp add: ndays_def)
    ultimately show ?thesis using year by (auto simp: timegm_def next_day_def)
  qed
qed

text \<open>A message is written when its level is not above that of the log, and only then.\<close>

lemma mlogf_level:
  "ml_fp st \<noteq> Log_closed \<Longrightarrow> \<exists>st'. mlogf vlevel msg st = Returned st' \<and>
    ml_out st' = (if vlevel > mlog_get_vlevel st then ml_out st else ml_out st @ [(ml_fp st', snprintf 4100 msg)])"
  by (simp add: mlogf_def mlog_get_vlevel_def Let_def)

text \<open>The stream stays set when the log is closed.\<close>

lemma log_after_close:
  assumes "ml_fp st = Log_file f" "vlevel \<le> ml_vlevel st"
  shows "proc_bind (mlog_close st) (mlogf vlevel msg) = Undefined ''closed file''"
  using assms by (simp add: mlog_close_def mlogf_def Let_def)

end
