(* ===== verification/IpfixDb.thy ===== *)
theory IpfixDb
  imports IpfixCollect IpfixSession
begin

text \<open>
  Storing collected records in a database (\<open>lib/ipfix_db.c\<close> and \<open>lib/ipfix_col_db.c\<close>): the queries that are made
  for sources, messages, templates and records. The database is not part of the sources: its answers are
  an argument, which may go by all the queries it was sent.
\<close>

section \<open>The database\<close>

type_synonym history = "string list"

text \<open>
  Whether the last query succeeds, the rows it gives (none: there is no result), the number of the row that was
  inserted, how many tables match a name, and the text that stands for bytes within quotes.
\<close>

record db_env =
  de_ok :: "history \<Rightarrow> bool"
  de_rows :: "history \<Rightarrow> string option list list option"
  de_insert_id :: "history \<Rightarrow> nat"
  de_tables :: "history \<Rightarrow> string \<Rightarrow> nat option"
  de_escape :: "byte list \<Rightarrow> string"
  de_connect :: "bool \<times> bool"
  de_alloc :: bool

definition mysql_query :: "db_env \<Rightarrow> string \<Rightarrow> history \<Rightarrow> bool \<times> history" where
  "mysql_query env q h = (de_ok env (h @ [q]), h @ [q])"

definition MAXQUERYLEN :: nat where "MAXQUERYLEN = 2000"
definition MAXTABLENAMELEN :: nat where "MAXTABLENAMELEN = 64"
definition MAXBINARYIELEN :: int where "MAXBINARYIELEN = 4096"

text \<open>\<open>%x\<close> and \<open>%d\<close> of an \<open>int\<close>; \<open>snprintf\<close> at the end of the query.\<close>

definition show_x :: "int \<Rightarrow> string" where
  "show_x i = show_hex (nat (i mod 2 ^ 32))"

definition query_add :: "string \<Rightarrow> string \<Rightarrow> string" where
  "query_add q txt = q @ take (MAXQUERYLEN - length q - 1) txt"

definition ipfix_db_check_table :: "db_env \<Rightarrow> string \<Rightarrow> string \<Rightarrow> history \<Rightarrow> int \<times> history" where
  "ipfix_db_check_table env tablename createcmd h =
     (case de_tables env h tablename of
        None \<Rightarrow> (-1, h)
      | Some n \<Rightarrow>
          if n < 1 then (case mysql_query env createcmd h of (ok, h) \<Rightarrow> (if ok then 0 else -1, h))
          else (0, h))"

definition create_exporters :: string where
  "create_exporters = ''CREATE TABLE ipfix_exporters (  id INT NOT NULL AUTO_INCREMENT, observation_domain INT UNSIGNED NOT NULL, '' @
     ''ipaddr BLOB NOT NULL, description BLOB, PRIMARY KEY (id) ) ''"

definition create_messages :: string where
  "create_messages = ''CREATE TABLE ipfix_messages (  id INT NOT NULL AUTO_INCREMENT,  id_exporters INT NOT NULL, '' @
     ''tstamp INT NOT NULL, PRIMARY KEY (id) ) ''"

definition create_templates :: string where
  "create_templates = ''CREATE TABLE ipfix_templates (  id INT NOT NULL AUTO_INCREMENT,  template_ident BLOB, '' @
     ''table_name BLOB, PRIMARY KEY (id) ) ''"

definition create_mapping :: string where
  "create_mapping = ''CREATE TABLE ipfix_mapping (  id_ipfix_messages INT NOT NULL, id_ipfix_templates INT NOT NULL, '' @
     ''INDEX(id_ipfix_messages) ) ''"

fun check_tables :: "db_env \<Rightarrow> (string \<times> string) list \<Rightarrow> history \<Rightarrow> int \<times> history" where
  "check_tables env [] h = (0, h)"
| "check_tables env ((name, cmd) # ts) h =
     (case ipfix_db_check_table env name cmd h of (r, h) \<Rightarrow> if r < 0 then (-1, h) else check_tables env ts h)"

text \<open>Whether the handle is set, which it also is after an error, and the result.\<close>

definition ipfix_db_open :: "db_env \<Rightarrow> history \<Rightarrow> (int \<times> bool) \<times> history" where
  "ipfix_db_open env h =
     (if \<not> fst (de_connect env) then ((-1, False), h)
      else if \<not> snd (de_connect env) then ((-1, True), h)
      else
        (case check_tables env [(''ipfix_exporters'', snprintf MAXQUERYLEN create_exporters),
            (''ipfix_messages'', snprintf MAXQUERYLEN create_messages), (''ipfix_templates'', snprintf MAXQUERYLEN create_templates),
            (''ipfix_mapping'', snprintf MAXQUERYLEN create_mapping)] h of
           (r, h) \<Rightarrow> ((r, True), h)))"

definition ipfix_db_get_int :: "db_env \<Rightarrow> string \<Rightarrow> history \<Rightarrow> (int \<times> int) \<times> history" where
  "ipfix_db_get_int env q h =
     (case mysql_query env q h of (ok, h) \<Rightarrow>
      if \<not> ok then ((-1, 0), h)
      else
        (case de_rows env h of
           None \<Rightarrow> ((-1, 0), h)
         | Some ((Some s # _) # _) \<Rightarrow> ((0, atoi s), h)
         | Some _ \<Rightarrow> ((0, 0), h)))"

section \<open>Tables of records\<close>

definition ipfix_db_get_columnname :: "int \<Rightarrow> int \<Rightarrow> nat \<Rightarrow> string" where
  "ipfix_db_get_columnname eno type buflen = snprintf buflen (''ie'' @ show_x eno @ ''_'' @ show_x type)"

definition column_type :: "ipfix_field_type \<Rightarrow> string" where
  "column_type ft =
     (if ft_coding ft = IPFIX_CODING_INT then '' '' @ (if ft_length ft > 4 then ''BIG'' else '''') @ ''INT ''
      else if ft_coding ft = IPFIX_CODING_UINT then '' '' @ (if ft_length ft > 4 then ''BIG'' else '''') @ ''INT UNSIGNED ''
      else if ft_coding ft = IPFIX_CODING_STRING then '' TEXT ''
      else if ft_coding ft = IPFIX_CODING_BYTES then
        '' VARBINARY('' @ show_nat (nat ((if ft_length ft < MAXBINARYIELEN then ft_length ft else MAXBINARYIELEN) mod 2 ^ 64)) @ '') ''
      else '' VARBINARY(4096) '')"

fun add_columns :: "ipfix_template_field list \<Rightarrow> string \<Rightarrow> string proc" where
  "add_columns [] q = Returned q"
| "add_columns (f # fs) q =
     (case tf_elem f of
        None \<Rightarrow> Undefined ''null pointer''
      | Some e \<Rightarrow>
          add_columns fs (query_add q ('', '' @ ipfix_db_get_columnname (ft_eno (fi_ft e)) (ft_ftype (fi_ft e)) MAXTABLENAMELEN @ column_type (fi_ft e))))"

definition ipfix_db_create_table :: "db_env \<Rightarrow> string \<Rightarrow> ipfix_template \<Rightarrow> history \<Rightarrow> (int \<times> history) proc" where
  "ipfix_db_create_table env tablename t h =
     proc_bind (add_columns (take (te_nfields t) (te_fields t))
       (snprintf MAXQUERYLEN (''CREATE TABLE '' @ tablename @ '' ( id_ipfix_messages INT UNSIGNED NOT NULL''))) (\<lambda>q.
     case mysql_query env (query_add q '' ) '') h of (ok, h) \<Rightarrow> Returned (if ok then 0 else -1, h))"

text \<open>The name of the elements of a template, as in the collector but with a prefix that has its place in the same block.\<close>

definition db_ident :: "ipfix_template \<Rightarrow> string proc" where
  "db_ident t =
     (let els = template_elements (take (te_nfields t) (te_fields t)); len = 10 * te_nfields t in
      proc_bind (ident_snprintf len [] ''ipfix_'') (ident_enos len (te_nfields t + 1) 0 els))"

definition select_template :: "string \<Rightarrow> string" where
  "select_template ident = snprintf MAXQUERYLEN (''SELECT table_name, id FROM ipfix_templates WHERE template_ident='' @ [CHR 0x27] @ ident @ [CHR 0x27, CHR '' ''])"

definition quoted :: "string \<Rightarrow> string" where
  "quoted s = [CHR 0x27] @ s @ [CHR 0x27]"

definition insert_template_query :: string where
  "insert_template_query = ''INSERT INTO ipfix_templates SET template_ident='' @ quoted ''x'' @ '', table_name='' @ quoted ''x'' @ '' ''"

definition update_template :: "string \<Rightarrow> string \<Rightarrow> nat \<Rightarrow> string" where
  "update_template ident name tid = snprintf MAXQUERYLEN (''UPDATE ipfix_templates SET template_ident='' @ quoted ident @ '', table_name='' @ quoted name @
     '' WHERE id='' @ quoted (show_int (signed_take_bit 31 (int tid))) @ '' '')"

text \<open>The name of the table: the elements where they fit, or else the number of the row.\<close>

definition new_tablename :: "nat \<Rightarrow> string \<Rightarrow> nat \<Rightarrow> string" where
  "new_tablename tablenamelen ident tid =
     (if length ident > tablenamelen then snprintf tablenamelen (''ipfix_'' @ show_nat tid) else snprintf tablenamelen ident)"

text \<open>
  The result, and what is written to the name and the number of the template when they are: an error can come after that.
\<close>

definition get_name :: "db_env \<Rightarrow> nat \<Rightarrow> string \<Rightarrow> history \<Rightarrow> (int \<times> (string \<times> nat) option) \<times> history" where
  "get_name env tablenamelen ident h =
     (case mysql_query env (select_template ident) h of (ok, h) \<Rightarrow>
      if \<not> ok then ((-1, None), h)
      else
        (case de_rows env h of
           None \<Rightarrow> ((-1, None), h)
         | Some [] \<Rightarrow>
             (case mysql_query env insert_template_query h of (ok, h) \<Rightarrow>
              if \<not> ok then ((-1, None), h)
              else
                let tid = de_insert_id env h mod 2 ^ 32; name = new_tablename tablenamelen ident tid in
                (case mysql_query env (update_template ident name tid) h of (ok, h) \<Rightarrow> ((if ok then 0 else -1, Some (name, tid)), h)))
         | Some ((Some name # Some i # _) # _) \<Rightarrow> ((0, Some (snprintf tablenamelen name, nat (atoi i mod 2 ^ 32))), h)
         | Some _ \<Rightarrow> ((-1, None), h)))"

definition ipfix_db_get_tablename :: "db_env \<Rightarrow> nat \<Rightarrow> ipfix_template \<Rightarrow> bool \<Rightarrow> history \<Rightarrow> ((int \<times> (string \<times> nat) option) \<times> history) proc" where
  "ipfix_db_get_tablename env tablenamelen t create_table_flag h =
     (if \<not> de_alloc env then Returned ((-1, None), h)
      else
        proc_bind (db_ident t) (\<lambda>ident.
        case get_name env (min tablenamelen MAXTABLENAMELEN) ident h of
          ((r, None), h) \<Rightarrow> Returned ((r, None), h)
        | ((r, Some (name, tid)), h) \<Rightarrow>
            if r = 0 \<and> create_table_flag then
              (case de_tables env h name of
                 None \<Rightarrow> Returned ((-1, Some (name, tid)), h)
               | Some n \<Rightarrow>
                   if n < 1 then
                     proc_map (\<lambda>(r, h). ((if r < 0 then -1 else 0, Some (name, tid)), h)) (ipfix_db_create_table env name t h)
                   else Returned ((0, Some (name, tid)), h))
            else Returned ((r, Some (name, tid)), h)))"

section \<open>Storing\<close>

text \<open>What a source and a template keep for the database.\<close>

record db_source =
  ds_odid :: nat
  ds_ident :: string
  ds_exporterid :: nat
  ds_last_msgid :: nat
  ds_last_message_snr :: nat

record db_template =
  dt_template :: ipfix_template
  dt_tablename :: string
  dt_template_id :: nat
  dt_message_snr :: int

text \<open>\<open>mysql\<close>: whether there is a connection.\<close>

definition ipfix_export_newsrc_db :: "db_env \<Rightarrow> bool \<Rightarrow> db_source \<Rightarrow> history \<Rightarrow> (int \<times> db_source) \<times> history" where
  "ipfix_export_newsrc_db env mysql s h =
     (if \<not> mysql then ((-1, s), h)
      else
        (case ipfix_db_get_int env (snprintf MAXQUERYLEN (''SELECT id FROM ipfix_exporters WHERE observation_domain='' @ quoted (show_nat (ds_odid s)) @
            '' AND ipaddr='' @ quoted (ds_ident s))) h of ((r, k), h) \<Rightarrow>
         if r \<noteq> 0 then ((-1, s), h)
         else if k = 0 then
           (case mysql_query env (snprintf MAXQUERYLEN (''INSERT INTO ipfix_exporters SET observation_domain='' @ quoted (show_nat (ds_odid s)) @
               '', ipaddr='' @ quoted (ds_ident s) @ '', description='' @ quoted ''-'')) h of (ok, h) \<Rightarrow>
            if \<not> ok then ((-1, s), h) else ((0, s\<lparr>ds_exporterid := de_insert_id env h mod 2 ^ 32\<rparr>), h))
         else ((0, s\<lparr>ds_exporterid := nat (k mod 2 ^ 32)\<rparr>), h)))"

definition ipfix_export_newmsg_db :: "db_env \<Rightarrow> bool \<Rightarrow> ipfix_hdr \<Rightarrow> db_source \<Rightarrow> history \<Rightarrow> (int \<times> db_source) \<times> history" where
  "ipfix_export_newmsg_db env mysql hdr s h =
     (if mysql then
        (case mysql_query env (snprintf MAXQUERYLEN (''INSERT INTO ipfix_messages SET id_exporters='' @ quoted (show_nat (ds_exporterid s)) @ '', tstamp='' @
            quoted (show_nat (if int (hd_version hdr) = IPFIX_VERSION_NF9 then hd_unixtime hdr else hd_exporttime hdr)))) h of (ok, h) \<Rightarrow>
         if \<not> ok then ((-1, s), h) else ((0, s\<lparr>ds_last_msgid := de_insert_id env h mod 2 ^ 32\<rparr>), h))
      else ((0, s), h))"

text \<open>That the name cannot be made is not reported: it is then what was written to it so far.\<close>

definition ipfix_export_trecord_db :: "db_env \<Rightarrow> bool \<Rightarrow> db_source \<Rightarrow> db_template \<Rightarrow> history \<Rightarrow> ((int \<times> db_template) \<times> history) proc" where
  "ipfix_export_trecord_db env mysql s t h =
     (if \<not> mysql then Returned ((-1, t), h)
      else
        let t = t\<lparr>dt_tablename := '''', dt_message_snr := int (ds_last_message_snr s) - 1\<rparr> in
        proc_bind (ipfix_db_get_tablename env MAXTABLENAMELEN (dt_template t) True h) (\<lambda>((_, r), h).
        Returned ((0, case r of None \<Rightarrow> t | Some (name, tid) \<Rightarrow> t\<lparr>dt_tablename := name, dt_template_id := tid\<rparr>), h)))"

text \<open>
  The values of a record behind the query so far; none when the query does not fit. Bytes that do not fit are left
  out; of other elements the text that is printed is taken as it is. The buffer has one byte more than \<open>MAXQUERYLEN\<close>.
\<close>

fun add_values :: "db_env \<Rightarrow> (byte list \<Rightarrow> string) \<Rightarrow> ipfix_host \<Rightarrow> ipfix_template_field list \<Rightarrow> byte list list \<Rightarrow> string \<Rightarrow> string option proc" where
  "add_values env fmt host (f # fs) (v # vs) q =
     (case tf_elem f of
        None \<Rightarrow> Undefined ''null pointer''
      | Some e \<Rightarrow>
          let q = q @ '', ie'' @ show_x (ft_eno (fi_ft e)) @ ''_'' @ show_x (ft_ftype (fi_ft e)) @ ''='' @ [CHR 0x27] in
          if length q \<ge> MAXQUERYLEN + 1 then Returned None
          else
            proc_bind (if ft_coding (fi_ft e) = IPFIX_CODING_BYTES then
                (if length v * 2 + 2 < MAXQUERYLEN + 1 - length q then Returned (int (length (de_escape env v)), de_escape env v) else Returned (0, ''''))
              else run_snprint fmt host (fi_snprint e) (MAXQUERYLEN + 1 - length q) v) (\<lambda>(n, txt).
            if int (length q) + n + 1 \<ge> int MAXQUERYLEN + 1 then Returned None
            else add_values env fmt host fs vs (q @ txt @ [CHR 0x27])))"
| "add_values env fmt host _ _ q = Returned (Some q)"

definition ipfix_export_drecord_db :: "db_env \<Rightarrow> (byte list \<Rightarrow> string) \<Rightarrow> ipfix_host \<Rightarrow> bool \<Rightarrow> db_source \<Rightarrow> db_template \<Rightarrow> byte list list \<Rightarrow> history
    \<Rightarrow> ((int \<times> db_template) \<times> history) proc" where
  "ipfix_export_drecord_db env fmt host mysql s t vs h =
     (if \<not> mysql then Returned ((-1, t), h)
      else
        proc_bind (add_values env fmt host (take (te_nfields (dt_template t)) (te_fields (dt_template t))) vs
          (snprintf MAXQUERYLEN (''INSERT INTO '' @ dt_tablename t @ '' SET id_ipfix_messages='' @ quoted (show_nat (ds_last_msgid s))))) (\<lambda>r.
        case r of
          None \<Rightarrow> Returned ((-1, t), h)
        | Some q \<Rightarrow>
            (case mysql_query env q h of (ok, h) \<Rightarrow>
             if \<not> ok then Returned ((-1, t), h)
             else if dt_message_snr t \<noteq> int (ds_last_message_snr s) then
               (case mysql_query env (snprintf MAXQUERYLEN (''INSERT INTO ipfix_mapping SET id_ipfix_messages='' @ show_nat (ds_last_msgid s) @
                   '', id_ipfix_templates='' @ show_nat (dt_template_id t) @ '' '')) h of (ok, h) \<Rightarrow>
                if \<not> ok then Returned ((-1, t), h) else Returned ((0, t\<lparr>dt_message_snr := int (ds_last_message_snr s)\<rparr>), h))
             else Returned ((0, t), h))))"

text \<open>\<open>ipfix_export_init_db\<close>: the block of the exporter, if it was made, and the connections that were opened and not closed.\<close>

definition ipfix_export_init_db :: "db_env \<Rightarrow> bool \<Rightarrow> history \<Rightarrow> (int \<times> nat) \<times> history" where
  "ipfix_export_init_db env alloc h =
     (if \<not> alloc then ((-1, 0), h)
      else (case ipfix_db_open env h of ((r, made), h) \<Rightarrow> ((if r < 0 then -1 else 0, if made then 1 else 0), h)))"

definition ipfix_export_cleanup_db :: "bool \<Rightarrow> nat \<Rightarrow> nat" where
  "ipfix_export_cleanup_db data opened = (if data then opened - 1 else opened)"

text \<open>
  Registering the exporter, whose block is \<open>new\<close>; an exporter that is registered already is not looked for. With the
  connections that stay open. Cancelling calls \<open>ipfix_export_cleanup_db\<close>.
\<close>

definition ipfix_col_init_mysqlexport :: "db_env \<Rightarrow> bool \<Rightarrow> bool \<Rightarrow> 'e \<Rightarrow> 'e option \<times> 'e list \<Rightarrow> nat \<Rightarrow> history
    \<Rightarrow> (int \<times> ('e option \<times> 'e list) \<times> nat) \<times> history" where
  "ipfix_col_init_mysqlexport env alloc mem new st opened h =
     (case ipfix_export_init_db env alloc h of ((r, n), h) \<Rightarrow>
      if r < 0 then ((-1, st, opened + n), h)
      else if \<not> mem then ((-1, st, ipfix_export_cleanup_db True (opened + n)), h)
      else ((0, (Some new, ipfix_col_register_export new (snd st)), opened + n), h))"

definition ipfix_col_stop_mysqlexport :: "'e option \<times> 'e list \<Rightarrow> nat \<Rightarrow> (('e option \<times> 'e list) \<times> nat) proc" where
  "ipfix_col_stop_mysqlexport st opened =
     (case st of
        (None, exporters) \<Rightarrow> Returned (st, opened)
      | (Some c, exporters) \<Rightarrow>
          proc_map (\<lambda>(r, exporters). ((None, exporters), if r = 0 then ipfix_export_cleanup_db True opened else opened))
            (ipfix_col_cancel_export c exporters))"

section \<open>Names of templates\<close>

text \<open>The elements of an enterprise in ascending order, and the text of them.\<close>

definition types_of :: "(int \<times> int) set \<Rightarrow> int \<Rightarrow> int list" where
  "types_of els cur = sorted_list_of_set {ft. (cur, ft) \<in> els \<and> 0 < ft \<and> ft < 0xFFFF}"

definition enos_of :: "(int \<times> int) set \<Rightarrow> int list" where
  "enos_of els = sorted_list_of_set {eno. eno \<in> fst ` els \<and> 0 < eno \<and> eno < 0x7FFFFFFF}"

fun hexes :: "bool \<Rightarrow> int list \<Rightarrow> string" where
  "hexes later [] = ''''"
| "hexes later (x # xs) = (if later then ''_'' else '''') @ show_hex (nat x) @ hexes True xs"

fun enos_text :: "(int \<times> int) set \<Rightarrow> int \<Rightarrow> int list \<Rightarrow> string" where
  "enos_text els cur [] = (if cur \<noteq> 0 then ''v'' @ show_hex (nat cur) @ ''_'' else '''') @ hexes False (types_of els cur)"
| "enos_text els cur (e # es) = (if cur \<noteq> 0 then ''v'' @ show_hex (nat cur) @ ''_'' else '''') @ hexes False (types_of els cur) @
     (if types_of els cur \<noteq> [] then ''_'' else '''') @ enos_text els e es"

definition elements_text :: "(int \<times> int) set \<Rightarrow> string" where
  "elements_text els = enos_text els 0 (enos_of els)"

lemma scan_min_fold:
  assumes "foldl (\<lambda>(m, found) (eno, ft). if eno = cur \<and> ft < m \<and> ft > prev then (ft, found + 1) else (m, found)) (m, k) els = (m', k')"
  shows "m' \<le> m \<and> (m' = m \<or> (cur, m') \<in> set els \<and> prev < m') \<and> (\<forall>ft. (cur, ft) \<in> set els \<and> prev < ft \<longrightarrow> m' \<le> ft) \<and>
    (k :: nat) \<le> k' \<and> (k' = k \<longleftrightarrow> m' = (m :: int))"
  using assms
proof (induction els arbitrary: m k)
  case (Cons a els)
  obtain eno ft where a: "a = (eno, ft)" by (cases a)
  show ?case
  proof (cases "eno = cur \<and> ft < m \<and> prev < ft")
    case True
    then have "foldl (\<lambda>(m, found) (eno, ft). if eno = cur \<and> ft < m \<and> ft > prev then (ft, found + 1) else (m, found)) (ft, Suc k) els = (m', k')"
      using Cons.prems by (simp add: a)
    from Cons.IH [OF this] show ?thesis using True by (auto simp: a)
  next
    case False
    then have "foldl (\<lambda>(m, found) (eno, ft). if eno = cur \<and> ft < m \<and> ft > prev then (ft, found + 1) else (m, found)) (m, k) els = (m', k')"
      using Cons.prems by (auto simp: a)
    from Cons.IH [OF this] show ?thesis using False by (auto simp: a)
  qed
qed simp

text \<open>What is left of the ascending list decides what a scan finds.\<close>

definition types_after :: "(int \<times> int) set \<Rightarrow> int \<Rightarrow> int \<Rightarrow> int list \<Rightarrow> bool" where
  "types_after els cur prev xs \<longleftrightarrow> sorted_wrt (<) xs \<and> set xs = {ft. (cur, ft) \<in> els \<and> prev < ft \<and> ft < 0xFFFF}"

lemma scan_min_nil: "types_after (set els) cur prev [] \<Longrightarrow> scan_min cur prev els = (0xFFFF, 0)"
  using scan_min_fold [of cur prev "0xFFFF" 0 els]
  by (cases "scan_min cur prev els") (force simp: scan_min_def types_after_def)

lemma scan_min_cons:
  assumes "types_after (set els) cur prev (x # xs)"
  shows "\<exists>k > 0. scan_min cur prev els = (x, k)" "x < 0xFFFF" "prev < x" "types_after (set els) cur x xs"
proof -
  have s: "sorted_wrt (<) (x # xs)" "\<And>ft. ft = x \<or> ft \<in> set xs \<longleftrightarrow> (cur, ft) \<in> set els \<and> prev < ft \<and> ft < 0xFFFF"
    using assms by (auto simp: types_after_def)
  then show x: "x < 0xFFFF" "prev < x" by blast+
  obtain m k where m: "scan_min cur prev els = (m, k)" by fastforce
  note f = scan_min_fold [OF m [unfolded scan_min_def]]
  have "(cur, x) \<in> set els" using s(2) by blast
  then have "m \<le> x" using f x by blast
  then have "m \<noteq> 0xFFFF" using x by simp
  moreover from this have "m = x \<or> m \<in> set xs" using f \<open>m \<le> x\<close> x by (subst s(2)) auto
  then have "m = x" using s(1) \<open>m \<le> x\<close> by auto
  ultimately show "\<exists>k > 0. scan_min cur prev els = (x, k)" using m f by auto
  show "types_after (set els) cur x xs"
  proof -
    have "ft \<in> set xs" if "(cur, ft) \<in> set els" "x < ft" "ft < 0xFFFF" for ft using s(2) [of ft] that x(2) by simp
    moreover have "(cur, ft) \<in> set els \<and> x < ft \<and> ft < 0xFFFF" if "ft \<in> set xs" for ft using s that by auto
    ultimately show ?thesis using s(1) unfolding types_after_def by auto
  qed
qed

lemma ident_types_text:
  assumes "types_after (set els) cur prev xs" "length xs \<le> n" "j > 0 \<longrightarrow> found > 0" "length ident + length (hexes (j > 0) xs) < len"
  shows "\<exists>found'. ident_types len cur els n j prev found ident = Returned (ident @ hexes (j > 0) xs, found') \<and> (found' > 0 \<longleftrightarrow> found > 0 \<or> xs \<noteq> [])"
  using assms
proof (induction xs arbitrary: n j prev found ident)
  case Nil
  then show ?case using scan_min_nil by (cases n) auto
next
  case (Cons x xs)
  obtain n' where n: "n = Suc n'" "length xs \<le> n'" using Cons.prems(2) by (cases n) auto
  obtain k where k: "k > 0" "scan_min cur prev els = (x, k)" using scan_min_cons(1) [OF Cons.prems(1)] by blast
  let ?i1 = "ident @ (if j > 0 then ''_'' else '''')"
  let ?i2 = "?i1 @ show_hex (nat x)"
  have sep: "(if j > 0 \<and> found + k > 1 then ident_strcat len ident ''_'' else Returned ident) = Returned ?i1"
    using Cons.prems(3,4) k(1) by (auto simp: ident_strcat_def)
  have hex: "ident_snprintf len ?i1 (show_hex (nat x)) = Returned ?i2"
    using Cons.prems(4) by (auto simp: ident_snprintf_def)
  obtain found' where "ident_types len cur els n' (j + 1) x (found + k) ?i2 = Returned (?i2 @ hexes True xs, found')" "found' > 0"
    using Cons.IH [OF scan_min_cons(4) [OF Cons.prems(1)] n(2), of "j + 1" "found + k" ?i2] k(1) Cons.prems(4) by auto
  then show ?case using k(2) sep hex scan_min_cons(2) [OF Cons.prems(1)] by (simp add: n(1))
qed

definition enos_after :: "(int \<times> int) set \<Rightarrow> int \<Rightarrow> int list \<Rightarrow> bool" where
  "enos_after els cur es \<longleftrightarrow> sorted_wrt (<) es \<and> set es = {eno. eno \<in> fst ` els \<and> cur < eno \<and> eno < 0x7FFFFFFF}"

lemma next_eno_fold:
  assumes "foldl (\<lambda>next (eno, ft :: int). if eno < next \<and> eno > cur then eno else next) m els = m'"
  shows "m' \<le> m \<and> (m' = m \<or> m' \<in> fst ` set els \<and> cur < m') \<and> (\<forall>eno. eno \<in> fst ` set els \<and> cur < eno \<longrightarrow> m' \<le> (eno :: int))"
  using assms
proof (induction els arbitrary: m)
  case (Cons a els)
  obtain eno ft where a: "a = (eno, ft)" by (cases a)
  show ?case
  proof (cases "eno < m \<and> eno > cur")
    case True
    then have "foldl (\<lambda>next (eno, ft :: int). if eno < next \<and> eno > cur then eno else next) eno els = m'" using Cons.prems by (simp add: a)
    from Cons.IH [OF this] show ?thesis using True by (auto simp: a)
  next
    case False
    then have "foldl (\<lambda>next (eno, ft :: int). if eno < next \<and> eno > cur then eno else next) m els = m'" using Cons.prems by (auto simp: a)
    from Cons.IH [OF this] show ?thesis using False by (auto simp: a)
  qed
qed simp

lemma next_eno_nil: "enos_after (set els) cur [] \<Longrightarrow> next_eno cur els = 0x7FFFFFFF"
  using next_eno_fold [of cur "0x7FFFFFFF" els] by (force simp: next_eno_def enos_after_def)

lemma next_eno_cons:
  assumes "enos_after (set els) cur (e # es)"
  shows "next_eno cur els = e" "e < 0x7FFFFFFF" "cur < e" "enos_after (set els) e es"
proof -
  have s: "sorted_wrt (<) (e # es)" "\<And>x. x = e \<or> x \<in> set es \<longleftrightarrow> x \<in> fst ` set els \<and> cur < x \<and> x < 0x7FFFFFFF"
    using assms unfolding enos_after_def by auto
  then show e: "e < 0x7FFFFFFF" "cur < e" by blast+
  note f = next_eno_fold [OF refl, of cur "0x7FFFFFFF" els, folded next_eno_def]
  have "e \<in> fst ` set els" using s(2) by blast
  then have le: "next_eno cur els \<le> e" using f e by blast
  then have "next_eno cur els \<noteq> 0x7FFFFFFF" using e by simp
  with f le e have "next_eno cur els = e \<or> next_eno cur els \<in> set es" by (subst s(2)) auto
  then show "next_eno cur els = e" using s(1) le by auto
  have "x \<in> set es" if "x \<in> fst ` set els" "e < x" "x < 0x7FFFFFFF" for x using s(2) [of x] that e(2) by simp
  moreover have "x \<in> fst ` set els \<and> e < x \<and> x < 0x7FFFFFFF" if "x \<in> set es" for x using s that by auto
  ultimately show "enos_after (set els) e es" using s(1) unfolding enos_after_def by auto
qed

lemma types_of_after: "types_after (set els) cur 0 (types_of (set els) cur)" "length (types_of (set els) cur) \<le> length els"
proof -
  let ?s = "{ft. (cur, ft) \<in> set els \<and> 0 < ft \<and> ft < 0xFFFF}"
  have sub: "?s \<subseteq> snd ` set els" by force
  then have fin: "finite ?s" by (rule finite_subset) simp
  then show "types_after (set els) cur 0 (types_of (set els) cur)"
    by (simp add: types_after_def types_of_def)
  have "card ?s \<le> card (set els)" using card_mono [OF _ sub] card_image_le [of "set els" snd] by (meson List.finite_set finite_imageI le_trans)
  then show "length (types_of (set els) cur) \<le> length els" using card_length [of els] by (simp add: types_of_def)
qed

lemma enos_of_after: "enos_after (set els) 0 (enos_of (set els))" "length (enos_of (set els)) \<le> length els"
proof -
  let ?s = "{eno. eno \<in> fst ` set els \<and> 0 < eno \<and> eno < 0x7FFFFFFF}"
  have sub: "?s \<subseteq> fst ` set els" by force
  then have fin: "finite ?s" by (rule finite_subset) simp
  then show "enos_after (set els) 0 (enos_of (set els))" by (simp add: enos_after_def enos_of_def)
  have "card ?s \<le> card (set els)" using card_mono [OF _ sub] card_image_le [of "set els" fst] by (meson List.finite_set finite_imageI le_trans)
  then show "length (enos_of (set els)) \<le> length els" using card_length [of els] by (simp add: enos_of_def)
qed

lemma ident_enos_text:
  assumes "enos_after (set els) cur es" "length es < n" "length ident + length (enos_text (set els) cur es) < len"
  shows "ident_enos len n cur els ident = Returned (ident @ enos_text (set els) cur es)"
  using assms
proof (induction es arbitrary: n cur ident)
  case Nil
  obtain n' where n: "n = Suc n'" using Nil.prems(2) by (cases n) auto
  let ?i1 = "ident @ (if cur \<noteq> 0 then ''v'' @ show_hex (nat cur) @ ''_'' else '''')"
  have 1: "(if cur \<noteq> 0 then ident_snprintf len ident (''v'' @ show_hex (nat cur) @ ''_'') else Returned ident) = Returned ?i1"
    using Nil.prems(3) by (auto simp: ident_snprintf_def)
  obtain found where "ident_types len cur els (length els) 0 0 0 ?i1 = Returned (?i1 @ hexes False (types_of (set els) cur), found)"
    using ident_types_text [OF types_of_after(1) [of els cur] types_of_after(2) [of els cur], where j = 0 and found = 0 and ident = ?i1 and len = len] Nil.prems(3) by auto
  then show ?case unfolding n using 1 next_eno_nil [OF Nil.prems(1)] by simp
next
  case (Cons e es)
  obtain n' where n: "n = Suc n'" "length es < n'" using Cons.prems(2) by (cases n) auto
  let ?i1 = "ident @ (if cur \<noteq> 0 then ''v'' @ show_hex (nat cur) @ ''_'' else '''')"
  let ?i2 = "?i1 @ hexes False (types_of (set els) cur)"
  let ?i3 = "?i2 @ (if types_of (set els) cur \<noteq> [] then ''_'' else '''')"
  have 1: "(if cur \<noteq> 0 then ident_snprintf len ident (''v'' @ show_hex (nat cur) @ ''_'') else Returned ident) = Returned ?i1"
    using Cons.prems(3) by (auto simp: ident_snprintf_def)
  obtain found where 2: "ident_types len cur els (length els) 0 0 0 ?i1 = Returned (?i2, found)" "found > 0 \<longleftrightarrow> types_of (set els) cur \<noteq> []"
    using ident_types_text [OF types_of_after(1) [of els cur] types_of_after(2) [of els cur], where j = 0 and found = 0 and ident = ?i1 and len = len] Cons.prems(3) by auto
  have 3: "(if found > 0 then ident_strcat len ?i2 ''_'' else Returned ?i2) = Returned ?i3"
    using 2(2) Cons.prems(3) by (auto simp: ident_strcat_def)
  have "ident_enos len n' e els ?i3 = Returned (?i3 @ enos_text (set els) e es)"
    using Cons.prems(3) by (intro Cons.IH [OF next_eno_cons(4) [OF Cons.prems(1)] n(2)]) simp
  moreover have ne: "(e = 0x7FFFFFFF) = False" using next_eno_cons(2) [OF Cons.prems(1)] by simp
  ultimately show ?case
    unfolding n(1) ident_enos.simps(2) 1 proc_bind.simps 2(1) prod.case Let_def next_eno_cons(1) [OF Cons.prems(1)] ne if_False 3 by simp
qed

text \<open>C35. The name of a template is the text of the set of its elements: for every enterprise number in ascending order
  the element numbers in ascending order, in hexadecimal. So the order of the fields, and a field that
  stands twice, make no difference to the table a record is stored in, as long as the text fits the block
  of ten bytes for every field.\<close>

theorem template_named_by_elements:
  assumes "length (''ipfix_'' @ elements_text (set (template_elements (templ_fields t)))) < 10 * te_nfields t"
    "length (templ_fields t) = te_nfields t"
  shows "db_ident t = Returned (''ipfix_'' @ elements_text (set (template_elements (templ_fields t))))"
proof -
  let ?els = "template_elements (templ_fields t)"
  have l: "length ?els = te_nfields t" using assms(2) by (simp add: template_elements_def)
  have "ident_snprintf (10 * te_nfields t) [] ''ipfix_'' = Returned ''ipfix_''" using assms(1) by (simp add: ident_snprintf_def)
  moreover have "ident_enos (10 * te_nfields t) (te_nfields t + 1) 0 ?els ''ipfix_'' = Returned (''ipfix_'' @ elements_text (set ?els))"
    unfolding elements_text_def
    by (rule ident_enos_text [OF enos_of_after(1)]) (use enos_of_after(2) [of ?els] l assms(1) in \<open>simp_all add: elements_text_def\<close>)
  ultimately show ?thesis by (simp add: db_ident_def templ_fields_def [symmetric] Let_def)
qed

definition two_fields :: "ipfix_template" where
  "two_fields = \<lparr>te_type = DATA_TEMPLATE, te_tsend = 0, te_tid = 256, te_ndatafields = 2, te_nscopefields = 0, te_nfields = 2,
     te_fields = [\<lparr>tf_flength = 4, tf_unknown = False, tf_relay = False, tf_elem = Some (new_field \<lparr>ft_eno = 0, ft_ftype = 12, ft_length = 4,
         ft_coding = IPFIX_CODING_IPADDR, ft_name = ''destinationIPv4Address'', ft_documentation = ''''\<rparr>)\<rparr>,
       \<lparr>tf_flength = 4, tf_unknown = False, tf_relay = False, tf_elem = Some (new_field \<lparr>ft_eno = 0, ft_ftype = 8, ft_length = 4,
         ft_coding = IPFIX_CODING_IPADDR, ft_name = ''sourceIPv4Address'', ft_documentation = ''''\<rparr>)\<rparr>], te_maxfields = 2, te_odid = 0\<rparr>"

lemma two_fields_elements: "template_elements (templ_fields two_fields) = [(0, 12), (0, 8)]" "length (templ_fields two_fields) = te_nfields two_fields"
  by (simp_all add: two_fields_def templ_fields_def template_elements_def new_field_def)

theorem template_named_by_elements_witness: "db_ident two_fields = Returned ''ipfix_8_c''"
proof -
  have "{ft :: int. (0 :: int, ft) \<in> {(0, 12), (0, 8)} \<and> 0 < ft \<and> ft < 0xFFFF} = {8, 12}" by auto
  then have "types_of {(0, 12), (0, 8)} 0 = [8, 12]" by (simp add: types_of_def)
  moreover have "{eno :: int. eno \<in> fst ` {(0 :: int, 12 :: int), (0, 8)} \<and> 0 < eno \<and> eno < 0x7FFFFFFF} = {}" by auto
  then have "enos_of {(0, 12), (0, 8)} = []" unfolding enos_of_def by simp
  moreover have "char_of (56 :: nat) = CHR ''8''" "char_of (99 :: nat) = CHR ''c''" by code_simp+
  ultimately have e: "elements_text (set [(0, 12), (0, 8)]) = ''8_c''" by (simp add: elements_text_def show_hex.simps)
  then show ?thesis using template_named_by_elements [of two_fields] two_fields_elements unfolding two_fields_elements(1) e
    by (simp add: two_fields_def)
qed

section \<open>Columns and values\<close>

definition column_name :: "ipfix_template_field \<Rightarrow> string" where
  "column_name f = (case tf_elem f of None \<Rightarrow> '''' | Some e \<Rightarrow> ''ie'' @ show_x (ft_eno (fi_ft e)) @ ''_'' @ show_x (ft_ftype (fi_ft e)))"

definition column_text :: "ipfix_template_field \<Rightarrow> string" where
  "column_text f = '', '' @ column_name f @ (case tf_elem f of None \<Rightarrow> '''' | Some e \<Rightarrow> column_type (fi_ft e))"

lemma length_show_hex_le: "n < 16 ^ k \<Longrightarrow> 0 < k \<Longrightarrow> length (show_hex n) \<le> k"
proof (induction k arbitrary: n)
  case (Suc k)
  show ?case
  proof (cases "n < 16")
    case False
    then have "0 < k" using Suc.prems(1) by (cases k) auto
    moreover have "n div 16 < 16 ^ k" using Suc.prems(1) by (simp add: less_mult_imp_div_less)
    ultimately have "length (show_hex (n div 16)) \<le> k" using Suc.IH by blast
    then show ?thesis using False by (subst show_hex.simps) simp
  qed simp
qed simp

lemma length_show_x: "length (show_x i) \<le> 8"
proof -
  have "nat (i mod 2 ^ 32) < 16 ^ 8" by (simp add: nat_less_iff)
  then show ?thesis unfolding show_x_def by (rule length_show_hex_le) simp
qed

lemma columnname_whole: "ipfix_db_get_columnname eno type MAXTABLENAMELEN = ''ie'' @ show_x eno @ ''_'' @ show_x type"
  using length_show_x [of eno] length_show_x [of type] by (simp add: ipfix_db_get_columnname_def snprintf_def MAXTABLENAMELEN_def)

lemma add_columns_text:
  assumes "\<forall>f \<in> set fs. tf_elem f \<noteq> None" "length q + length (concat (map column_text fs)) < MAXQUERYLEN"
  shows "add_columns fs q = Returned (q @ concat (map column_text fs))"
  using assms
proof (induction fs arbitrary: q)
  case (Cons f fs)
  then obtain e where e: "tf_elem f = Some e" by auto
  have c: "column_text f = '', '' @ ipfix_db_get_columnname (ft_eno (fi_ft e)) (ft_ftype (fi_ft e)) MAXTABLENAMELEN @ column_type (fi_ft e)"
    by (simp add: column_text_def column_name_def e columnname_whole)
  have "query_add q (column_text f) = q @ column_text f" using Cons.prems(2) by (simp add: query_add_def)
  moreover have "add_columns (f # fs) q = add_columns fs (query_add q (column_text f))" by (simp only: add_columns.simps e option.case c)
  ultimately show ?case using Cons.IH [of "q @ column_text f"] Cons.prems by simp
qed simp

text \<open>The text of a value: bytes as the database has them escaped, other values as they are printed when there is room.\<close>

definition value_text :: "db_env \<Rightarrow> (byte list \<Rightarrow> string) \<Rightarrow> ipfix_host \<Rightarrow> ipfix_template_field \<Rightarrow> byte list \<Rightarrow> string \<Rightarrow> bool" where
  "value_text env fmt host f v txt \<longleftrightarrow> (case tf_elem f of
     None \<Rightarrow> False
   | Some e \<Rightarrow>
       if ft_coding (fi_ft e) = IPFIX_CODING_BYTES then txt = de_escape env v \<and> length txt \<le> 2 * length v
       else (\<forall>sz > length txt. run_snprint fmt host (fi_snprint e) sz v = Returned (int (length txt), txt)))"

definition pair_text :: "ipfix_template_field \<Rightarrow> string \<Rightarrow> string" where
  "pair_text f txt = '', '' @ column_name f @ ''='' @ quoted txt"

text \<open>Twice the bytes of every value, and the rest of the query, fit.\<close>

lemma add_values_text:
  assumes "list_all2 (\<lambda>(f, v) w. value_text env fmt host f v w) (zip fs vs) ws" "length vs = length fs"
    and "length q + length (concat (map2 pair_text fs ws)) + 2 * sum_list (map length vs) < MAXQUERYLEN"
  shows "add_values env fmt host fs vs q = Returned (Some (q @ concat (map2 pair_text fs ws)))"
  using assms
proof (induction fs arbitrary: vs ws q)
  case (Cons f fs)
  obtain v vs' where vs: "vs = v # vs'" "length vs' = length fs" using Cons.prems(2) by (cases vs) auto
  obtain w ws' where t: "ws = w # ws'" "value_text env fmt host f v w"
    "list_all2 (\<lambda>(f, v) w. value_text env fmt host f v w) (zip fs vs') ws'"
    using Cons.prems(1) by (cases ws) (auto simp: vs)
  obtain e where e: "tf_elem f = Some e" using t(2) by (auto simp: value_text_def split: option.splits)
  define q1 where "q1 = q @ '', ie'' @ show_x (ft_eno (fi_ft e)) @ ''_'' @ show_x (ft_ftype (fi_ft e)) @ ''='' @ [CHR 0x27]"
  have p: "q @ pair_text f w = q1 @ w @ [CHR 0x27]" by (simp add: pair_text_def column_name_def quoted_def e q1_def)
  have room: "length q1 + length w + 1 + length (concat (map2 pair_text fs ws')) + 2 * length v + 2 * sum_list (map length vs') < MAXQUERYLEN"
    using Cons.prems(3) arg_cong [OF p, of length] by (simp add: vs t(1))
  have val: "(if ft_coding (fi_ft e) = IPFIX_CODING_BYTES then
        (if length v * 2 + 2 < MAXQUERYLEN + 1 - length q1 then Returned (int (length (de_escape env v)), de_escape env v) else Returned (0, ''''))
      else run_snprint fmt host (fi_snprint e) (MAXQUERYLEN + 1 - length q1) v) = Returned (int (length w), w)"
    using t(2) room by (auto simp: value_text_def e)
  have "add_values env fmt host fs vs' (q1 @ w @ [CHR 0x27]) = Returned (Some ((q1 @ w @ [CHR 0x27]) @ concat (map2 pair_text fs ws')))"
    using room by (intro Cons.IH [OF t(3) vs(2)]) simp
  moreover have "length q1 < MAXQUERYLEN + 1" "\<not> int (length q1) + int (length w) + 1 \<ge> int MAXQUERYLEN + 1" using room by simp_all
  ultimately have "add_values env fmt host (f # fs) vs q = Returned (Some ((q @ pair_text f w) @ concat (map2 pair_text fs ws')))"
    unfolding p vs(1) add_values.simps(1) e option.case q1_def [symmetric] Let_def val proc_bind.simps prod.case by simp
  then show ?case by (simp add: t(1))
qed simp

text \<open>A record is stored under the columns that were made for it. For a template of known elements whose queries
  fit, the table is created with one column for every field, named by its enterprise and element number,
  and a record is inserted with the text of every value under the column of its field; the template is
  noted for the message when it is not yet.\<close>

theorem columns_agree:
  assumes "\<forall>h. de_ok env h" "\<forall>f \<in> set (templ_fields (dt_template t)). tf_elem f \<noteq> None" "length vs = length (templ_fields (dt_template t))"
    and "list_all2 (\<lambda>(f, v) w. value_text env fmt host f v w) (zip (templ_fields (dt_template t)) vs) ws"
    and "cre = ''CREATE TABLE '' @ dt_tablename t @ '' ( id_ipfix_messages INT UNSIGNED NOT NULL'' @
      concat (map column_text (templ_fields (dt_template t))) @ '' ) ''"
    and "ins = ''INSERT INTO '' @ dt_tablename t @ '' SET id_ipfix_messages='' @ quoted (show_nat (ds_last_msgid s)) @
      concat (map2 pair_text (templ_fields (dt_template t)) ws)"
    and "length cre < MAXQUERYLEN" "length ins + 2 * sum_list (map length vs) < MAXQUERYLEN"
  shows "ipfix_db_create_table env (dt_tablename t) (dt_template t) h = Returned (0, h @ [cre]) \<and>
    (\<exists>mapping. ipfix_export_drecord_db env fmt host True s t vs h' = Returned ((0, t\<lparr>dt_message_snr := int (ds_last_message_snr s)\<rparr>), h' @ [ins] @ mapping) \<and>
      (mapping = [] \<longleftrightarrow> dt_message_snr t = int (ds_last_message_snr s)))"
proof -
  let ?fs = "templ_fields (dt_template t)"
  let ?c = "''CREATE TABLE '' @ dt_tablename t @ '' ( id_ipfix_messages INT UNSIGNED NOT NULL''"
  let ?i = "''INSERT INTO '' @ dt_tablename t @ '' SET id_ipfix_messages='' @ quoted (show_nat (ds_last_msgid s))"
  have "add_columns ?fs ?c = Returned (?c @ concat (map column_text ?fs))"
    using assms(7) by (intro add_columns_text [OF assms(2)]) (simp add: assms(5))
  moreover have "snprintf MAXQUERYLEN ?c = ?c" "query_add (?c @ concat (map column_text ?fs)) '' ) '' = cre"
    using assms(7) by (simp_all add: assms(5) snprintf_def query_add_def)
  ultimately have 1: "ipfix_db_create_table env (dt_tablename t) (dt_template t) h = Returned (0, h @ [cre])"
    using assms(1) by (simp only: ipfix_db_create_table_def templ_fields_def [symmetric] proc_bind.simps mysql_query_def prod.case if_True)
  have "snprintf MAXQUERYLEN ?i = ?i" using assms(8) by (simp add: assms(6) snprintf_def)
  moreover have "add_values env fmt host ?fs vs ?i = Returned (Some ins)"
    using add_values_text [OF assms(4,3), of ?i] assms(8) by (simp add: assms(6))
  ultimately have "ipfix_export_drecord_db env fmt host True s t vs h' =
      (if dt_message_snr t \<noteq> int (ds_last_message_snr s) then
         Returned ((0, t\<lparr>dt_message_snr := int (ds_last_message_snr s)\<rparr>), (h' @ [ins]) @ [snprintf MAXQUERYLEN (''INSERT INTO ipfix_mapping SET id_ipfix_messages='' @
           show_nat (ds_last_msgid s) @ '', id_ipfix_templates='' @ show_nat (dt_template_id t) @ '' '')])
       else Returned ((0, t), h' @ [ins]))"
    using assms(1) by (simp only: ipfix_export_drecord_db_def templ_fields_def [symmetric] proc_bind.simps mysql_query_def prod.case option.case not_True_eq_False if_False)
  then show ?thesis using 1 by (cases "dt_message_snr t = int (ds_last_message_snr s)") auto
qed

definition sample_db :: db_env where
  "sample_db = \<lparr>de_ok = (\<lambda>h. True), de_rows = (\<lambda>h. None), de_insert_id = (\<lambda>h. 1), de_tables = (\<lambda>h n. Some 0), de_escape = (\<lambda>bs. ''''),
     de_connect = (True, True), de_alloc = True\<rparr>"

lemma hex_digits: "show_x 0 = ''0''" "show_x 8 = ''8''" "show_x 12 = ''c''" "show_nat 7 = ''7''"
proof -
  have "char_of (48 :: nat) = CHR ''0''" "char_of (56 :: nat) = CHR ''8''" "char_of (99 :: nat) = CHR ''c''" "char_of (55 :: nat) = CHR ''7''" by code_simp+
  then show "show_x 0 = ''0''" "show_x 8 = ''8''" "show_x 12 = ''c''" "show_nat 7 = ''7''"
    by (simp_all add: show_x_def show_hex.simps show_nat.simps digit_char_def)
qed

lemma ipaddr_text:
  assumes "fi_snprint e = Print_ipaddr" "tf_elem f = Some e" "ft_coding (fi_ft e) \<noteq> IPFIX_CODING_BYTES" "length v = 4"
  shows "value_text env fmt host f v (show_nat (unat (v ! 0)) @ ''.'' @ show_nat (unat (v ! 1)) @ ''.'' @ show_nat (unat (v ! 2)) @ ''.'' @ show_nat (unat (v ! 3)))"
  using assms by (simp add: value_text_def run_snprint_def ipfix_snprint_ipaddr_def snprint_text_def snprintf_def)

text \<open>An address of either end, and the queries for them.\<close>

theorem columns_agree_witness:
  "\<exists>mapping. ipfix_db_create_table sample_db ''ipfix_8_c'' two_fields [] =
      Returned (0, [''CREATE TABLE ipfix_8_c ( id_ipfix_messages INT UNSIGNED NOT NULL, ie0_c VARBINARY(4096) , ie0_8 VARBINARY(4096)  ) '']) \<and>
    ipfix_export_drecord_db sample_db (\<lambda>_. []) \<lparr>ih_little = True, ih_flag = True\<rparr> True
      \<lparr>ds_odid = 0, ds_ident = ''peer'', ds_exporterid = 1, ds_last_msgid = 7, ds_last_message_snr = 5\<rparr>
      \<lparr>dt_template = two_fields, dt_tablename = ''ipfix_8_c'', dt_template_id = 1, dt_message_snr = 4\<rparr> [[7, 7, 7, 7], [7, 7, 7, 7]] [] =
      Returned ((0, \<lparr>dt_template = two_fields, dt_tablename = ''ipfix_8_c'', dt_template_id = 1, dt_message_snr = 5\<rparr>),
        (''INSERT INTO ipfix_8_c SET id_ipfix_messages='' @ quoted ''7'' @ '', ie0_c='' @ quoted ''7.7.7.7'' @ '', ie0_8='' @ quoted ''7.7.7.7'') # mapping)"
proof -
  let ?s = "\<lparr>ds_odid = 0, ds_ident = ''peer'', ds_exporterid = 1, ds_last_msgid = 7, ds_last_message_snr = 5\<rparr>"
  let ?t = "\<lparr>dt_template = two_fields, dt_tablename = ''ipfix_8_c'', dt_template_id = 1, dt_message_snr = 4\<rparr>"
  let ?host = "\<lparr>ih_little = True, ih_flag = True\<rparr>" and ?fmt = "\<lambda>_ :: byte list. '''' :: string" and ?v = "[7, 7, 7, 7] :: byte list"
  let ?c = "''CREATE TABLE ipfix_8_c ( id_ipfix_messages INT UNSIGNED NOT NULL, ie0_c VARBINARY(4096) , ie0_8 VARBINARY(4096)  ) ''"
  let ?i = "''INSERT INTO ipfix_8_c SET id_ipfix_messages='' @ quoted ''7'' @ '', ie0_c='' @ quoted ''7.7.7.7'' @ '', ie0_8='' @ quoted ''7.7.7.7''"
  obtain f1 f2 where f: "templ_fields two_fields = [f1, f2]" "f1 = te_fields two_fields ! 0" "f2 = te_fields two_fields ! 1"
    by (simp add: templ_fields_def two_fields_def)
  have ne: "\<forall>f \<in> set (templ_fields two_fields). tf_elem f \<noteq> None" unfolding f(1) by (simp add: f(2,3) two_fields_def)
  have w: "value_text sample_db ?fmt ?host f1 ?v ''7.7.7.7''" "value_text sample_db ?fmt ?host f2 ?v ''7.7.7.7''"
    using ipaddr_text [of _ f1 ?v sample_db ?fmt ?host] ipaddr_text [of _ f2 ?v sample_db ?fmt ?host]
    by (simp_all add: f(2,3) two_fields_def new_field_def hex_digits IPFIX_CODING_IPADDR_def IPFIX_CODING_INT_def IPFIX_CODING_UINT_def IPFIX_CODING_NTP_def
        IPFIX_CODING_FLOAT_def IPFIX_CODING_BYTES_def)
  have n: "column_name f1 = ''ie0_c''" "column_name f2 = ''ie0_8''" by (simp_all add: f(2,3) column_name_def two_fields_def new_field_def hex_digits)
  then have c: "column_text f1 = '', ie0_c VARBINARY(4096) ''" "column_text f2 = '', ie0_8 VARBINARY(4096) ''"
    by (simp_all add: column_text_def f(2,3) two_fields_def new_field_def column_type_def IPFIX_CODING_IPADDR_def IPFIX_CODING_INT_def
        IPFIX_CODING_UINT_def IPFIX_CODING_STRING_def IPFIX_CODING_BYTES_def IPFIX_CODING_NTP_def IPFIX_CODING_FLOAT_def)
  show ?thesis
    using columns_agree [of sample_db ?t "[?v, ?v]" ?fmt ?host "[''7.7.7.7'', ''7.7.7.7'']" ?c ?i ?s "[]" "[]"] ne w
    by (simp add: f(1) c n hex_digits pair_text_def sample_db_def MAXQUERYLEN_def quoted_def) blast
qed

section \<open>What goes wrong\<close>

text \<open>
  A string is put between the quotes as it is. A value that has a quote in it sets other columns of the
  record: what a sender of records writes is taken as part of the query.
\<close>

lemma string_text:
  assumes "fi_snprint e = Print_string" "tf_elem f = Some e" "ft_coding (fi_ft e) \<noteq> IPFIX_CODING_BYTES" "NUL \<notin> set s" "0 \<notin> set (bytes_of s)"
  shows "value_text env fmt host f (bytes_of s) s"
  using assms by (auto simp: value_text_def run_snprint_def ipfix_snprint_string_def)

lemma value_sets_column:
  assumes v_def: "v = a @ [CHR 0x27] @ '', '' @ column_name f2 @ ''='' @ [CHR 0x27] @ b"
  assumes "value_text env fmt host f1 (bytes_of v) v" "value_text env fmt host f1 (bytes_of a) a" "value_text env fmt host f2 (bytes_of b) b"
    and "length q + length (pair_text f1 v) + 2 * length v < MAXQUERYLEN"
  shows "add_values env fmt host [f1] [bytes_of v] q = add_values env fmt host [f1, f2] [bytes_of a, bytes_of b] q"
proof -
  note assms = assms(2-)
  have p: "pair_text f1 v = pair_text f1 a @ pair_text f2 b" by (simp add: pair_text_def quoted_def v_def)
  have l: "length a + length b \<le> length v" by (simp add: v_def)
  have "add_values env fmt host [f1] [bytes_of v] q = Returned (Some (q @ pair_text f1 v))"
    using add_values_text [of env fmt host "[f1]" "[bytes_of v]" "[v]" q] assms(1,4) by simp
  moreover have "add_values env fmt host [f1, f2] [bytes_of a, bytes_of b] q = Returned (Some (q @ pair_text f1 a @ pair_text f2 b))"
    using add_values_text [of env fmt host "[f1, f2]" "[bytes_of a, bytes_of b]" "[a, b]" q] assms(2,3,4) l unfolding p by simp
  ultimately show ?thesis unfolding p by simp
qed

text \<open>The block for the name is too small for enterprise numbers: all templates of one field of FOKUS have one table.\<close>

lemma one_table_for_all:
  assumes "te_nfields t = 1" "template_elements (templ_fields t) = [(12325, ty)]" "0 < ty" "ty < 0xFFFF"
  shows "db_ident t = Returned ''ipfix_v30''"
proof -
  have c: "char_of (51 :: nat) = CHR ''3''" "char_of (48 :: nat) = CHR ''0''" "char_of (50 :: nat) = CHR ''2''" "char_of (53 :: nat) = CHR ''5''"
    by code_simp+
  have h: "show_hex 12325 = ''3025''" by (simp add: show_hex.simps c)
  have s: "scan_min 0 0 [(12325, ty)] = (0xFFFF, 0)" "scan_min 12325 0 [(12325, ty)] = (ty, 1)"
    "next_eno 0 [(12325, ty)] = 12325" "next_eno 12325 [(12325, ty)] = 0x7FFFFFFF"
    using assms(3,4) by (simp_all add: scan_min_def next_eno_def)
  have "template_elements (take (te_nfields t) (te_fields t)) = [(12325, ty)]" using assms(2) by (simp add: templ_fields_def)
  then show ?thesis using assms(1,4) s
    by (simp add: db_ident_def ident_snprintf_def h numeral_2_eq_2 Let_def)
qed

text \<open>Bytes for which there is no room are stored as no bytes.\<close>

lemma bytes_left_out:
  assumes "tf_elem f = Some e" "ft_coding (fi_ft e) = IPFIX_CODING_BYTES" "MAXQUERYLEN \<le> 2 * length v"
    and "length (q @ '', '' @ column_name f @ ''='' @ [CHR 0x27]) + 1 < MAXQUERYLEN"
  shows "add_values env fmt host [f] [v] q = Returned (Some (q @ pair_text f ''''))"
proof -
  define q1 where "q1 = q @ '', ie'' @ show_x (ft_eno (fi_ft e)) @ ''_'' @ show_x (ft_ftype (fi_ft e)) @ ''='' @ [CHR 0x27]"
  have p: "q @ pair_text f '''' = q1 @ [CHR 0x27]" and l: "length q1 + 1 < MAXQUERYLEN"
    using assms(4) by (simp_all add: pair_text_def column_name_def quoted_def assms(1) q1_def)
  have "\<not> length v * 2 + 2 < MAXQUERYLEN + 1 - length q1" using assms(3) by simp
  then show ?thesis
    unfolding p add_values.simps(1) assms(1) option.case q1_def [symmetric] Let_def using l assms(2) by simp
qed

text \<open>A template whose table cannot be made is reported as stored, with no name for its table.\<close>

lemma missing_table_unnoticed:
  assumes "\<not> de_alloc env"
  shows "ipfix_export_trecord_db env True s t h = Returned ((0, t\<lparr>dt_tablename := '''', dt_message_snr := int (ds_last_message_snr s) - 1\<rparr>), h)"
  using assms by (simp add: ipfix_export_trecord_db_def ipfix_db_get_tablename_def)

text \<open>A connection that was opened stays open when the tables cannot be made, as the block that holds it is freed.\<close>

lemma connection_left_open:
  assumes "de_connect env = (True, True)" "de_tables env h ''ipfix_exporters'' = None"
  shows "ipfix_export_init_db env True h = ((-1, 1), h)"
  using assms by (simp add: ipfix_export_init_db_def ipfix_db_open_def ipfix_db_check_table_def)

text \<open>A source keeps its number: the row that is found is used, or a new one is made.\<close>

lemma source_number:
  assumes "\<forall>h. de_ok env h" "\<forall>h. de_rows env h \<noteq> None"
  shows "\<exists>n h'. ipfix_export_newsrc_db env True s h = ((0, s\<lparr>ds_exporterid := n\<rparr>), h') \<and> length h < length h'"
proof -
  define q where "q = snprintf MAXQUERYLEN (''SELECT id FROM ipfix_exporters WHERE observation_domain='' @ quoted (show_nat (ds_odid s)) @
            '' AND ipaddr='' @ quoted (ds_ident s))"
  obtain k where "ipfix_db_get_int env q h = ((0, k), h @ [q])"
  proof -
    obtain rows where rows: "de_rows env (h @ [q]) = Some rows" using assms(2) by auto
    have "\<exists>k. ipfix_db_get_int env q h = ((0, k), h @ [q])"
      using assms(1) by (auto simp: ipfix_db_get_int_def mysql_query_def rows split: option.split list.split)
    then show ?thesis using that by blast
  qed
  note g = this
  show ?thesis unfolding ipfix_export_newsrc_db_def q_def [symmetric] g prod.case
    using assms(1) by (cases "k = 0") (auto simp: mysql_query_def)
qed

text \<open>Started once and stopped, the exporter and its connection are gone; started twice, the first ones stay.\<close>

lemma mysqlexport_stopped:
  assumes "\<forall>h. de_ok env h" "\<forall>h n. de_tables env h n \<noteq> None" "de_connect env = (True, True)" "new \<notin> set es"
  shows "\<exists>h'. ipfix_col_init_mysqlexport env True True new (None, es) k h = ((0, (Some new, es @ [new]), k + 1), h') \<and>
    ipfix_col_stop_mysqlexport (Some new, es @ [new]) (k + 1) = Returned ((None, es), k)"
proof -
  have tables: "\<exists>h'. check_tables env ts h = (0, h')" for ts h
  proof (induction ts arbitrary: h)
    case (Cons t ts)
    obtain name cmd n where "t = (name, cmd)" "de_tables env h name = Some n" using assms(2) by (cases t) fastforce
    then show ?case using Cons.IH assms(1) by (auto simp: ipfix_db_check_table_def mysql_query_def)
  qed simp
  have "\<exists>h'. ipfix_db_open env h = ((0, True), h')"
  proof -
    let ?ts = "[(''ipfix_exporters'', snprintf MAXQUERYLEN create_exporters), (''ipfix_messages'', snprintf MAXQUERYLEN create_messages),
      (''ipfix_templates'', snprintf MAXQUERYLEN create_templates), (''ipfix_mapping'', snprintf MAXQUERYLEN create_mapping)]"
    obtain h' where "check_tables env ?ts h = (0, h')" using tables by blast
    then show ?thesis using assms(3) by (simp only: ipfix_db_open_def prod.case fst_conv snd_conv not_True_eq_False if_False) simp
  qed
  then obtain h' where "ipfix_db_open env h = ((0, True), h')" by blast
  then show ?thesis
    using assms(4) by (simp add: ipfix_col_init_mysqlexport_def ipfix_export_init_db_def ipfix_col_register_export_def
        ipfix_col_stop_mysqlexport_def ipfix_col_cancel_export_def ipfix_export_cleanup_db_def remove1_append)
qed

lemma started_twice:
  assumes "ipfix_export_init_db env True h = ((0, 1), h')"
  shows "ipfix_col_init_mysqlexport env True True new (Some c, es) k h = ((0, (Some new, es @ [new]), k + 1), h')"
  using assms by (simp add: ipfix_col_init_mysqlexport_def ipfix_col_register_export_def)

end
