(* ===== verification/IpfixServer.thy ===== *)
theory IpfixServer
  imports IpfixCollect Mpoll
begin

text \<open>
  The collector as a server (\<open>lib/ipfix_col.c\<close>): the sockets it listens on, the connections it accepts, the
  associations of SCTP, and the callbacks it gives to the event loop of \<open>mpoll.c\<close>. IPv6 and SCTP are there when the
  library was built with them. What the kernel answers, and the bytes that peers send, are part of the state.
\<close>

section \<open>State\<close>

record server_cfg =
  sv_inet6 :: bool
  sv_sctp :: bool

record tcp_conn =
  tc_sources :: "ipfix_source list"
  tc_details :: ipfix_input

record sctp_assoc =
  as_sources :: "ipfix_source list"
  as_id :: nat

text \<open>
  What \<open>accept\<close> gives: the address of the peer, and whether there is memory for the connection, for its
  address, and for its node in the event loop. The descriptor is the lowest one that is not open.
\<close>

datatype accepted = Accept_failed | Accepted "byte list" bool bool bool

text \<open>What \<open>sctp_recvmsg\<close> gives; a new association with whether there is memory for it.\<close>

text \<open>What every step of accepting a connection over SSL gives, up to its node in the event loop.\<close>

record ssl_try =
  st_peer :: "byte list"
  st_mem :: bool
  st_details :: bool
  st_bio :: bool
  st_ssl :: bool
  st_accept :: bool
  st_getpeername :: bool
  st_getnameinfo :: bool
  st_check :: bool
  st_node :: bool

record ssl_conn =
  sc_ssl :: bool
  sc_sources :: "ipfix_source list"
  sc_details :: "ipfix_input option"

datatype sctp_event =
    Sctp_failed
  | Sctp_up nat bool
  | Sctp_restart nat
  | Sctp_down nat
  | Sctp_other
  | Sctp_data nat "byte list" "byte list"

text \<open>
  Connections are blocks, by their addresses. The descriptors that are open here, and elsewhere in the
  program, and what is still to come from each of them. With SSL, every socket has a node that lists its connections; the objects of the library that are not freed are counted.
\<close>

record col_world =
  cw_conns :: "nat \<rightharpoonup> tcp_conn"
  cw_next :: nat
  cw_udp :: "ipfix_source list"
  cw_assocs :: "sctp_assoc list"
  cw_mt :: "nat option"
  cw_log :: col_log
  cw_cleaned :: "nat list"
  cw_open :: "int list"
  cw_other :: "int list"
  cw_accepts :: "int \<Rightarrow> accepted list"
  cw_streams :: "int \<Rightarrow> byte list"
  cw_datagrams :: "int \<Rightarrow> (byte list \<times> byte list option) list"
  cw_events :: "int \<Rightarrow> sctp_event list"
  cw_ssl :: "nat \<rightharpoonup> ssl_conn"
  cw_ssl_nodes :: "nat \<rightharpoonup> nat list"
  cw_ssl_objects :: nat
  cw_ssl_accepts :: "int \<Rightarrow> ssl_try option list"

datatype col_cb = Tcp_accept | Tcp_client nat | Udp_client | Sctp_client | Ssl_accept nat | Ssl_client nat | Maintenance

type_synonym server = "(col_cb, col_world) mpoll"

abbreviation world :: "(col_world \<Rightarrow> col_world) \<Rightarrow> server \<Rightarrow> server" where
  "world f st \<equiv> st\<lparr>mp_user := f (mp_user st)\<rparr>"

text \<open>\<open>time( NULL )\<close>: the seconds of the clock.\<close>

definition at_time :: "clock \<Rightarrow> col_env \<Rightarrow> server \<Rightarrow> col_env" where
  "at_time clock env st = env\<lparr>ce_now := tv_sec (clock (mp_ticks st))\<rparr>"

definition free_fd :: "col_world \<Rightarrow> int" where
  "free_fd w = the (List.find (\<lambda>n. n \<notin> set (cw_open w @ cw_other w)) [0 .. int (length (cw_open w @ cw_other w))])"

section \<open>Associations\<close>

definition sctp_get_assoc :: "sctp_assoc list \<Rightarrow> nat \<Rightarrow> sctp_assoc option" where
  "sctp_get_assoc as assoc_id = List.find (\<lambda>a. as_id a = assoc_id) as"

definition sctp_new_assoc :: "bool \<Rightarrow> sctp_assoc list \<Rightarrow> nat \<Rightarrow> sctp_assoc list" where
  "sctp_new_assoc mem as assoc_id =
     (if sctp_get_assoc as assoc_id \<noteq> None then as
      else if \<not> mem then as
      else \<lparr>as_sources = [], as_id = assoc_id\<rparr> # as)"

fun sctp_delete_assoc :: "sctp_assoc list \<Rightarrow> nat \<Rightarrow> sctp_assoc list" where
  "sctp_delete_assoc [] assoc_id = []"
| "sctp_delete_assoc (a # as) assoc_id = (if as_id a = assoc_id then as else a # sctp_delete_assoc as assoc_id)"

fun put_sources :: "sctp_assoc list \<Rightarrow> nat \<Rightarrow> ipfix_source list \<Rightarrow> sctp_assoc list" where
  "put_sources [] assoc_id ss = []"
| "put_sources (a # as) assoc_id ss = (if as_id a = assoc_id then a\<lparr>as_sources := ss\<rparr> # as else a # put_sources as assoc_id ss)"

section \<open>Callbacks\<close>

definition ipfix_col_close :: "int \<Rightarrow> server \<Rightarrow> server" where
  "ipfix_col_close fd st = world (\<lambda>w. w\<lparr>cw_open := removeAll fd (cw_open w)\<rparr>) (mpoll_fdrm fd st)"

definition process_client_sctp :: "clock \<Rightarrow> col_env \<Rightarrow> int \<Rightarrow> server \<Rightarrow> server proc" where
  "process_client_sctp clock env fd st =
     (case cw_events (mp_user st) fd of
        [] \<Rightarrow> Blocked
      | e # es \<Rightarrow>
          let st = world (\<lambda>w. w\<lparr>cw_events := (cw_events w)(fd := es)\<rparr>) st; as = cw_assocs (mp_user st) in
          (case e of
             Sctp_failed \<Rightarrow> Returned (ipfix_col_close fd st)
           | Sctp_up k mem \<Rightarrow> Returned (world (\<lambda>w. w\<lparr>cw_assocs := sctp_new_assoc mem as k\<rparr>) st)
           | Sctp_restart k \<Rightarrow> Returned st
           | Sctp_down k \<Rightarrow> Returned (world (\<lambda>w. w\<lparr>cw_assocs := sctp_delete_assoc as k\<rparr>) st)
           | Sctp_other \<Rightarrow> Returned st
           | Sctp_data k peer msg \<Rightarrow>
               (case sctp_get_assoc as k of
                  None \<Rightarrow> Returned st
                | Some a \<Rightarrow>
                    proc_bind (ipfix_parse_msg (at_time clock env st) (Some (IPFIX_INPUT_IPCON peer)) (as_sources a) (take 65000 msg) (cw_log (mp_user st)))
                      (\<lambda>(r, ss, log). Returned (world (\<lambda>w. w\<lparr>cw_assocs := put_sources as k ss, cw_log := log\<rparr>) st)))))"

definition new_ipfix_input :: "bool \<Rightarrow> ipfix_input option \<Rightarrow> ipfix_input option" where
  "new_ipfix_input mem input = (case input of None \<Rightarrow> None | Some i \<Rightarrow> if mem then Some i else None)"

text \<open>When there is no memory the new descriptor is closed, and blocks made so far are freed.\<close>

definition tcp_accept_cb :: "int \<Rightarrow> server \<Rightarrow> server proc" where
  "tcp_accept_cb fd st =
     (case cw_accepts (mp_user st) fd of
        [] \<Rightarrow> Blocked
      | a # as \<Rightarrow>
          let st = world (\<lambda>w. w\<lparr>cw_accepts := (cw_accepts w)(fd := as)\<rparr>) st in
          (case a of
             Accept_failed \<Rightarrow> Returned st
           | Accepted peer mem details node \<Rightarrow>
               if \<not> mem then Returned st
               else
                 (case new_ipfix_input details (Some (IPFIX_INPUT_IPCON peer)) of
                    None \<Rightarrow> Returned st
                  | Some input \<Rightarrow>
                      let tcon = cw_next (mp_user st); newsockfd = free_fd (mp_user st) in
                      (case mpoll_fdadd node newsockfd MPOLL_IN (Some (Tcp_client tcon)) st of (r, st) \<Rightarrow>
                       if r < 0 then Returned st
                       else Returned (world (\<lambda>w. w\<lparr>cw_conns := (cw_conns w)(tcon \<mapsto> \<lparr>tc_sources = [], tc_details = input\<rparr>),
                         cw_next := tcon + 1, cw_open := newsockfd # cw_open w\<rparr>) st)))))"

text \<open>A message of a connection; at the end of it the connection is closed and its block freed.\<close>

definition tcp_client_cb :: "clock \<Rightarrow> col_env \<Rightarrow> nat \<Rightarrow> int \<Rightarrow> server \<Rightarrow> server proc" where
  "tcp_client_cb clock env tcon fd st =
     (case cw_conns (mp_user st) tcon of
        None \<Rightarrow> Undefined ''freed block''
      | Some c \<Rightarrow>
          proc_bind (process_client_tcp (at_time clock env st) (tc_details c) (tc_sources c) (cw_streams (mp_user st) fd) (cw_log (mp_user st)))
            (\<lambda>(ss, stream, log).
             let st = world (\<lambda>w. w\<lparr>cw_streams := (cw_streams w)(fd := stream), cw_log := log\<rparr>) st in
             case ss of
               Some ss \<Rightarrow> Returned (world (\<lambda>w. w\<lparr>cw_conns := (cw_conns w)(tcon \<mapsto> c\<lparr>tc_sources := ss\<rparr>)\<rparr>) st)
             | None \<Rightarrow> Returned (world (\<lambda>w. w\<lparr>cw_conns := (cw_conns w)(tcon := None)\<rparr>) (ipfix_col_close fd st))))"

definition udp_client_cb :: "clock \<Rightarrow> col_env \<Rightarrow> int \<Rightarrow> server \<Rightarrow> server proc" where
  "udp_client_cb clock env fd st =
     (case cw_datagrams (mp_user st) fd of
        [] \<Rightarrow> Blocked
      | (peer, d) # ds \<Rightarrow>
          proc_bind (process_client_udp (at_time clock env st) peer d (cw_udp (mp_user st)) (cw_log (mp_user st))) (\<lambda>(ss, log).
          Returned (world (\<lambda>w. w\<lparr>cw_datagrams := (cw_datagrams w)(fd := ds), cw_udp := ss, cw_log := log\<rparr>) st)))"

text \<open>
  With SSL, a connection is listed in the node of its socket. When a step fails the new descriptor is closed and
  the blocks are freed, but not the object of the connection. What is read from it is as over TCP.
\<close>

definition accept_client_ssl_cb :: "nat \<Rightarrow> int \<Rightarrow> server \<Rightarrow> server proc" where
  "accept_client_ssl_cb col fd st =
     (case cw_ssl_accepts (mp_user st) fd of
        [] \<Rightarrow> Blocked
      | a # as \<Rightarrow>
          let st = world (\<lambda>w. w\<lparr>cw_ssl_accepts := (cw_ssl_accepts w)(fd := as)\<rparr>) st in
          (case a of
             None \<Rightarrow> Returned st
           | Some a \<Rightarrow>
               if \<not> st_mem a then Returned st
               else
                 (case new_ipfix_input (st_details a) (Some (IPFIX_INPUT_IPCON (st_peer a))) of
                    None \<Rightarrow> Returned st
                  | Some input \<Rightarrow>
                      if \<not> st_bio a \<or> \<not> st_ssl a then Returned st
                      else
                        let st = world (\<lambda>w. w\<lparr>cw_ssl_objects := cw_ssl_objects w + 1\<rparr>) st; scon = cw_next (mp_user st); newfd = free_fd (mp_user st) in
                        if \<not> st_accept a \<or> \<not> st_getpeername a \<or> \<not> st_getnameinfo a \<or> \<not> st_check a then Returned st
                        else
                          (case mpoll_fdadd (st_node a) newfd MPOLL_IN (Some (Ssl_client scon)) st of (r, st) \<Rightarrow>
                           if r < 0 then Returned st
                           else
                             (case cw_ssl_nodes (mp_user st) col of
                                None \<Rightarrow> Undefined ''freed block''
                              | Some scons \<Rightarrow>
                                  Returned (world (\<lambda>w. w\<lparr>cw_ssl := (cw_ssl w)(scon \<mapsto> \<lparr>sc_ssl = True, sc_sources = [], sc_details = Some input\<rparr>),
                                    cw_ssl_nodes := (cw_ssl_nodes w)(col \<mapsto> scon # scons), cw_next := scon + 1,
                                    cw_open := newfd # cw_open w\<rparr>) st))))))"

text \<open>At the end the block stays listed, without its parts. The descriptor is not closed.\<close>

definition process_client_ssl :: "clock \<Rightarrow> col_env \<Rightarrow> nat \<Rightarrow> int \<Rightarrow> server \<Rightarrow> server proc" where
  "process_client_ssl clock env scon fd st =
     (case cw_ssl (mp_user st) scon of
        None \<Rightarrow> Undefined ''freed block''
      | Some c \<Rightarrow>
          (case sc_details c of
             None \<Rightarrow> Undefined ''freed block''
           | Some input \<Rightarrow>
               proc_bind (process_client_tcp (at_time clock env st) input (sc_sources c) (cw_streams (mp_user st) fd) (cw_log (mp_user st)))
                 (\<lambda>(ss, stream, log).
                  let st = world (\<lambda>w. w\<lparr>cw_streams := (cw_streams w)(fd := stream), cw_log := log\<rparr>) st in
                  case ss of
                    Some ss \<Rightarrow> Returned (world (\<lambda>w. w\<lparr>cw_ssl := (cw_ssl w)(scon \<mapsto> c\<lparr>sc_sources := ss\<rparr>)\<rparr>) st)
                  | None \<Rightarrow>
                      Returned (world (\<lambda>w. w\<lparr>cw_ssl := (cw_ssl w)(scon \<mapsto> \<lparr>sc_ssl = False, sc_sources = [], sc_details = None\<rparr>),
                        cw_ssl_objects := cw_ssl_objects w - 1\<rparr>) (mpoll_fdrm fd st)))))"

text \<open>The timer of the maintenance is started again, with a block that is taken to be there.\<close>

definition maintenance_cb :: "clock \<Rightarrow> server \<Rightarrow> server proc" where
  "maintenance_cb clock st =
     proc_bind (cb_maintenance (tv_sec (clock (mp_ticks st))) (cw_udp (mp_user st))) (\<lambda>ss.
     proc_bind (mpoll_timeradd clock True 30 Maintenance (world (\<lambda>w. w\<lparr>cw_udp := ss\<rparr>) st)) (\<lambda>(timer, st).
     Returned (world (\<lambda>w. w\<lparr>cw_mt := Some timer\<rparr>) st)))"

definition col_callbacks :: "clock \<Rightarrow> col_env \<Rightarrow> (col_cb, col_world) callbacks" where
  "col_callbacks clock env =
     \<lparr>on_timer = (\<lambda>cb st. case cb of Maintenance \<Rightarrow> maintenance_cb clock st | _ \<Rightarrow> Undefined ''no callback of a timer''),
      on_fd = (\<lambda>cb fd msk st.
        case cb of
          Tcp_accept \<Rightarrow> tcp_accept_cb fd st
        | Tcp_client tcon \<Rightarrow> tcp_client_cb clock env tcon fd st
        | Udp_client \<Rightarrow> udp_client_cb clock env fd st
        | Sctp_client \<Rightarrow> process_client_sctp clock env fd st
        | Ssl_accept col \<Rightarrow> accept_client_ssl_cb col fd st
        | Ssl_client scon \<Rightarrow> process_client_ssl clock env scon fd st
        | Maintenance \<Rightarrow> Undefined ''no callback of a descriptor'')\<rparr>"

section \<open>Listening\<close>

text \<open>For every address that \<open>getaddrinfo\<close> gives: the socket (negative: none) and whether every call succeeds.\<close>

record sock_answer =
  sa_inet6 :: bool
  sa_socket :: int
  sa_reuse :: bool
  sa_v6only :: bool
  sa_bind :: bool
  sa_listen :: bool

text \<open>The sockets that are made, or an error, and those that were closed again. That a TCP socket does not listen is ignored.\<close>

fun listen_each :: "ipfix_proto \<Rightarrow> sock_answer list \<Rightarrow> int list \<Rightarrow> int list \<Rightarrow> int list option \<times> int list" where
  "listen_each protocol [] socks closed = (Some socks, closed)"
| "listen_each protocol (a # as) socks closed =
     (if sa_socket a < 0 then listen_each protocol as socks closed
      else if \<not> sa_reuse a then (None, closed @ sa_socket a # rev socks)
      else if sa_inet6 a \<and> \<not> sa_v6only a then (None, closed @ sa_socket a # rev socks)
      else if \<not> sa_bind a then listen_each protocol as socks (closed @ [sa_socket a])
      else if protocol = IPFIX_PROTO_SCTP then
        (if \<not> sa_listen a then listen_each protocol as socks (closed @ [sa_socket a])
         else (Some (socks @ [sa_socket a]), closed))
      else listen_each protocol as (socks @ [sa_socket a]) closed)"

definition listen_one :: "bool \<Rightarrow> ipfix_proto \<Rightarrow> sock_answer \<Rightarrow> int list option \<times> int list" where
  "listen_one mem protocol a =
     (if sa_socket a < 0 then (None, [])
      else if \<not> sa_reuse a \<or> \<not> sa_bind a \<or> protocol = IPFIX_PROTO_SCTP \<and> \<not> sa_listen a \<or> \<not> mem then (None, [sa_socket a])
      else (Some [sa_socket a], []))"

text \<open>\<open>gai\<close>: the addresses; without IPv6 there is just one, which is not looked up.\<close>

definition ipfix_listen :: "server_cfg \<Rightarrow> bool \<Rightarrow> sock_answer list option \<Rightarrow> ipfix_proto \<Rightarrow> int \<Rightarrow> int list option \<times> int list" where
  "ipfix_listen cfg mem gai protocol maxcon =
     (if protocol = Other_proto \<or> protocol = IPFIX_PROTO_SCTP \<and> \<not> sv_sctp cfg then (None, [])
      else if protocol \<noteq> IPFIX_PROTO_UDP \<and> maxcon < 1 then (None, [])
      else
        (case gai of
           None \<Rightarrow> (None, [])
         | Some as \<Rightarrow>
             if sv_inet6 cfg then
               (if \<not> mem then (None, [])
                else (case listen_each protocol as [] [] of (r, closed) \<Rightarrow> (if r = Some [] then None else r, closed)))
             else (case as of [] \<Rightarrow> (None, []) | a # _ \<Rightarrow> listen_one mem protocol a)))"

fun col_register :: "col_cb \<Rightarrow> bool list \<Rightarrow> int list \<Rightarrow> server \<Rightarrow> bool \<times> server" where
  "col_register cb mems [] st = (True, st)"
| "col_register cb mems (s # socks) st =
     (case mpoll_fdadd (hd mems) s MPOLL_IN (Some cb) st of (r, st) \<Rightarrow>
      if r < 0 then (False, st) else col_register cb (tl mems) socks st)"

definition col_callback :: "ipfix_proto \<Rightarrow> col_cb option" where
  "col_callback protocol =
     (case protocol of
        IPFIX_PROTO_TCP \<Rightarrow> Some Tcp_accept
      | IPFIX_PROTO_UDP \<Rightarrow> Some Udp_client
      | IPFIX_PROTO_SCTP \<Rightarrow> Some Sctp_client
      | Other_proto \<Rightarrow> None)"

text \<open>The sockets, or an error; \<open>mems\<close> is whether there is memory for the node of each of them.\<close>

definition ipfix_col_listen ::
  "server_cfg \<Rightarrow> clock \<Rightarrow> bool \<Rightarrow> bool list \<Rightarrow> sock_answer list option \<Rightarrow> ipfix_proto \<Rightarrow> int \<Rightarrow> server \<Rightarrow> (int list option \<times> server) proc" where
  "ipfix_col_listen cfg clock mem mems gai protocol maxcon st =
     (case (col_callback protocol, ipfix_listen cfg mem gai protocol maxcon) of
        (None, _) \<Rightarrow> Returned (None, st)
      | (_, None, closed) \<Rightarrow> Returned (None, st)
      | (Some cb, Some socks, closed) \<Rightarrow>
          (case col_register cb mems socks (world (\<lambda>w. w\<lparr>cw_open := socks @ cw_open w\<rparr>) st) of
             (False, st) \<Rightarrow> Returned (None, foldl (\<lambda>st s. ipfix_col_close s st) st socks)
           | (True, st) \<Rightarrow>
               if cw_mt (mp_user st) = None then
                 proc_map (\<lambda>(timer, st). (Some socks, world (\<lambda>w. w\<lparr>cw_mt := Some timer\<rparr>) st)) (mpoll_timeradd clock True 30 Maintenance st)
               else Returned (Some socks, st)))"

text \<open>
  With SSL. The nodes are linked from a variable that was never set, so what follows the last of them is not known
  (\<open>sh_ended\<close>: whether the list ends). An error before the handle is made frees what was never set.
\<close>

record ssl_handle =
  sh_nodes :: "nat list"
  sh_ended :: bool
  sh_socks :: "int list"

fun ssl_register :: "(bool \<times> bool) list \<Rightarrow> int list \<Rightarrow> nat list \<Rightarrow> server \<Rightarrow> (nat list option) \<times> server" where
  "ssl_register mems [] nodes st = (Some nodes, st)"
| "ssl_register mems (s # socks) nodes st =
     (if \<not> fst (hd mems) then (None, st)
      else
        let node = cw_next (mp_user st); st = world (\<lambda>w. w\<lparr>cw_ssl_nodes := (cw_ssl_nodes w)(node \<mapsto> []), cw_next := node + 1\<rparr>) st in
        (case mpoll_fdadd (snd (hd mems)) s MPOLL_IN (Some (Ssl_accept node)) st of (r, st) \<Rightarrow>
         if r < 0 then (None, st) else ssl_register (tl mems) socks (node # nodes) st))"

definition ipfix_col_listen_ssl ::
  "server_cfg \<Rightarrow> bool \<Rightarrow> bool \<Rightarrow> bool \<times> bool \<Rightarrow> (bool \<times> bool) list \<Rightarrow> sock_answer list option \<Rightarrow> ipfix_proto \<Rightarrow> int \<Rightarrow> server
    \<Rightarrow> (ssl_handle option \<times> server) proc" where
  "ipfix_col_listen_ssl cfg args setup mem mems gai protocol maxcon st =
     (if \<not> args then Returned (None, st)
      else if protocol \<noteq> IPFIX_PROTO_TCP then Returned (None, st)
      else if \<not> setup then Undefined ''variable that was never set''
      else
        (case ipfix_listen cfg (fst mem) gai protocol maxcon of
           (None, closed) \<Rightarrow> Undefined ''variable that was never set''
         | (Some socks, closed) \<Rightarrow>
             let st = world (\<lambda>w. w\<lparr>cw_open := socks @ cw_open w\<rparr>) st;
                 failed = (\<lambda>st. Returned (None, foldl (\<lambda>st s. ipfix_col_close s st) st socks)) in
             if \<not> snd mem then failed st
             else
               (case ssl_register mems socks [] st of
                  (None, st) \<Rightarrow> failed st
                | (Some nodes, st) \<Rightarrow> Returned (Some \<lparr>sh_nodes = nodes, sh_ended = False, sh_socks = socks\<rparr>, st))))"

definition ssl_free_node :: "nat list \<Rightarrow> col_world \<Rightarrow> col_world" where
  "ssl_free_node scons w =
     w\<lparr>cw_ssl_objects := cw_ssl_objects w - length (filter (\<lambda>k. \<exists>c. cw_ssl w k = Some c \<and> sc_ssl c) scons),
       cw_ssl := (\<lambda>k. if k \<in> set scons then None else cw_ssl w k)\<rparr>"

fun ssl_free_nodes :: "bool \<Rightarrow> nat list \<Rightarrow> server \<Rightarrow> server proc" where
  "ssl_free_nodes ended [] st = (if ended then Returned st else Undefined ''pointer that was never set'')"
| "ssl_free_nodes ended (n # ns) st =
     (case cw_ssl_nodes (mp_user st) n of
        None \<Rightarrow> Undefined ''freed block''
      | Some scons \<Rightarrow>
          ssl_free_nodes ended ns (world (\<lambda>w. (ssl_free_node scons w)\<lparr>cw_ssl_nodes := (cw_ssl_nodes w)(n := None)\<rparr>) st))"

definition ipfix_col_close_ssl :: "ssl_handle option \<Rightarrow> server \<Rightarrow> server proc" where
  "ipfix_col_close_ssl handle st =
     (case handle of
        None \<Rightarrow> Returned st
      | Some col \<Rightarrow>
          proc_map (\<lambda>st. foldl (\<lambda>st s. ipfix_col_close s st) st (sh_socks col)) (ssl_free_nodes (sh_ended col) (sh_nodes col) st))"

text \<open>The end: the sources and associations, the timer, and the cleanup of the exporters that have one. \<open>g_mt\<close> is not reset.\<close>

definition ipfix_col_cleanup :: "(nat \<Rightarrow> bool) \<Rightarrow> col_env \<Rightarrow> server \<Rightarrow> server" where
  "ipfix_col_cleanup has_cleanup env st =
     (let st = world (\<lambda>w. w\<lparr>cw_udp := [], cw_assocs := []\<rparr>) st;
          st = (case cw_mt (mp_user st) of None \<Rightarrow> st | Some timer \<Rightarrow> mpoll_timerrm timer st) in
      world (\<lambda>w. w\<lparr>cw_cleaned := cw_cleaned w @ filter has_cleanup [0..<length (ce_exporters env)]\<rparr>) st)"

end
