(* ===== verification/EventLoop.thy ===== *)
theory EventLoop
  imports Mpoll
begin

text \<open>
  What a program that uses the event loop of \<open>mpoll.c\<close> has to promise for its state to keep an invariant while the loop
  runs: every callback keeps it, and counts a change of the descriptors. The invariant is about the descriptors and the
  program, not about time, timers and the calls of the loop.
\<close>

locale loop_contract =
  fixes cbs :: "('cb, 'w) callbacks"
    and inv :: "('cb, 'w) mpoll \<Rightarrow> bool"
  assumes counts: "inv st \<Longrightarrow> 0 \<le> mp_fdsetupdate st"
    and untimed: "inv st \<Longrightarrow> mp_pnodes st' = mp_pnodes st \<Longrightarrow> mp_user st' = mp_user st \<Longrightarrow> 0 \<le> mp_fdsetupdate st' \<Longrightarrow> inv st'"
    and timer: "inv st \<Longrightarrow> on_timer cbs cb st = Returned st' \<Longrightarrow> inv st'"
    and descriptor: "inv st \<Longrightarrow> n \<in> set (mp_pnodes st) \<Longrightarrow> pn_func n = Some cb \<Longrightarrow> on_fd cbs cb (pn_fd n) msk st = Returned st' \<Longrightarrow>
      inv st' \<and> (mp_fdsetupdate st' = 0 \<longrightarrow> mp_pnodes st' = mp_pnodes st)"
begin

lemma run_timer_inv:
  assumes "inv st" "run_timer cbs c st = Returned st'"
  shows "inv st'"
proof (cases c)
  case (Stop_loop flag)
  then have "mp_pnodes st' = mp_pnodes st" "mp_user st' = mp_user st" "mp_fdsetupdate st' = mp_fdsetupdate st"
    using assms(2) by (auto simp: run_timer_def cb_stoploop_def split: if_splits)
  then show ?thesis using untimed [OF assms(1)] counts [OF assms(1)] by simp
next
  case (Call cb)
  then show ?thesis using timer assms by (simp add: run_timer_def)
qed

lemma expire_inv: "inv st \<Longrightarrow> mtimer_expire cbs fuel st = Returned st' \<Longrightarrow> inv st'"
proof (induction fuel arbitrary: st)
  case 0
  then show ?case by (auto simp: mtimer_expire.simps [of _ 0] split: list.splits if_splits)
next
  case (Suc fuel)
  show ?case
  proof (cases "\<exists>t ts. mp_timers st = t # ts \<and> later (mp_tnow st) (mt_expiration t)")
    case True
    then obtain t ts where t: "mp_timers st = t # ts" "later (mp_tnow st) (mt_expiration t)" by blast
    then obtain st1 where st1: "mtimer_pop cbs t st = Returned st1" "mtimer_expire cbs fuel st1 = Returned st'"
      using Suc.prems(2) by (auto simp: mtimer_expire.simps [of _ "Suc fuel"] proc_bind_Returned)
    have "inv (mtimer_stop (mt_id t) st)" by (rule untimed [OF Suc.prems(1)]) (use counts [OF Suc.prems(1)] in \<open>simp_all add: mtimer_stop_def\<close>)
    then have "inv st1" using run_timer_inv st1(1) unfolding mtimer_pop_def by blast
    then show ?thesis using Suc.IH st1(2) by blast
  next
    case False
    then show ?thesis using Suc.prems by (auto simp: mtimer_expire.simps [of _ "Suc fuel"] split: list.splits if_splits)
  qed
qed

lemma walk_inv: "inv st \<Longrightarrow> set ns \<subseteq> set (mp_pnodes st) \<Longrightarrow> check_fds cbs s ns st = Returned st' \<Longrightarrow> inv st'"
proof (induction ns arbitrary: st)
  case (Cons n ns)
  show ?case
  proof (cases "ready_mask s (pn_fd n) = 0 \<or> pn_func n = None")
    case True
    then show ?thesis using Cons by (auto simp: Let_def split: if_splits option.splits)
  next
    case False
    then obtain cb where cb: "pn_func n = Some cb" by auto
    then obtain st1 where st1: "on_fd cbs cb (pn_fd n) (ready_mask s (pn_fd n)) st = Returned st1"
      "(if mp_fdsetupdate st1 \<noteq> 0 then Returned st1 else if n \<notin> set (mp_pnodes st1) then Undefined ''walk over released nodes''
        else check_fds cbs s ns st1) = Returned st'"
      using Cons.prems(3) False by (auto simp: Let_def proc_bind_Returned split: if_splits)
    have k: "inv st1" "mp_fdsetupdate st1 = 0 \<longrightarrow> mp_pnodes st1 = mp_pnodes st"
      using descriptor [OF Cons.prems(1) _ cb st1(1)] Cons.prems(2) by simp_all
    show ?thesis
    proof (cases "mp_fdsetupdate st1 = 0")
      case True
      then show ?thesis using k st1(2) Cons.IH [of st1] Cons.prems(2) by (auto split: if_splits)
    next
      case False
      then show ?thesis using k st1(2) by simp
    qed
  qed
qed simp

lemma turn_inv:
  assumes "inv st" "loop_turn cbs lenv s st = Returned st'"
  shows "inv st'"
proof -
  have time: "inv (mtimer_settime (le_clock lenv) st)" if "inv st" for st
    by (rule untimed [OF that]) (use counts [OF that] in \<open>simp_all add: mtimer_settime_def\<close>)
  show ?thesis using assms expire_inv walk_inv time unfolding loop_turn_def proc_bind_Returned by blast
qed

lemma turns_inv: "inv st \<Longrightarrow> loop_turns cbs lenv timeout frame answers sets st = Returned st' \<Longrightarrow> inv st'"
proof (induction answers arbitrary: st sets)
  case Nil
  then show ?case by (auto simp: loop_turns.simps [of _ _ _ _ "[]"] Let_def proc_bind_Returned split: if_splits)
next
  case (Cons a answers)
  let ?st = "st\<lparr>mp_fdsetupdate := 0\<rparr>"
  have z: "inv ?st" by (rule untimed [OF Cons.prems(1)]) simp_all
  show ?case
  proof (cases "mp_frames st frame = Some True \<or> mp_breakflag st")
    case True
    then show ?thesis using Cons.prems by (auto simp: loop_turns.simps [of _ _ _ _ "a # answers"])
  next
    case False
    note e = Cons.prems(2) [unfolded loop_turns.simps [of _ _ _ _ "a # answers"]]
    obtain s where s: "(case a of
         Select_failed e \<Rightarrow> loop_turns cbs lenv timeout frame answers s ?st
       | Ready rin rout rexc \<Rightarrow>
           proc_bind (loop_turn cbs lenv (ready_sets rin rout rexc (snd s)) ?st)
             (\<lambda>st. if timeout = 0 then Returned st else loop_turns cbs lenv timeout frame answers s st)) = Returned st'"
      using e False unfolding Let_def by (auto simp: proc_bind_Returned split: if_splits)
    show ?thesis
    proof (cases a)
      case (Ready rin rout rexc)
      then obtain st1 where "loop_turn cbs lenv (ready_sets rin rout rexc (snd s)) ?st = Returned st1"
        "(if timeout = 0 then Returned st1 else loop_turns cbs lenv timeout frame answers s st1) = Returned st'"
        using s by (auto simp: proc_bind_Returned)
      then show ?thesis using turn_inv [OF z] Cons.IH by (metis proc.inject(1))
    next
      case (Select_failed e)
      then show ?thesis using s z Cons.IH by simp
    qed
  qed
qed

text \<open>A call of the loop keeps the invariant.\<close>

lemma loop_inv:
  assumes "inv st" "mpoll_loop cbs lenv mem answers timeout st = Returned (r, st')"
  shows "inv st'"
proof -
  let ?st = "st\<lparr>mp_fdsetupdate := 1, mp_breakflag := False, mp_frames := (mp_frames st)(mp_next st \<mapsto> False), mp_next := mp_next st + 1\<rparr>"
  let ?timer = "if timeout > 0 then proc_map snd (mtimer_start mem timeout (Stop_loop (mp_next st)) ?st)
         else if timeout = 0 then proc_map snd (mtimer_ustart mem 1 (Stop_loop (mp_next st)) ?st) else Returned ?st"
  have "inv ?st" by (rule untimed [OF assms(1)]) simp_all
  moreover have "mp_pnodes st2 = mp_pnodes ?st \<and> mp_user st2 = mp_user ?st \<and> mp_fdsetupdate st2 = 1" if "?timer = Returned st2" for st2
    using that by (auto simp: mtimer_start_def mtimer_ustart_def add_timer_def split: if_splits)
  ultimately have start: "inv st2" if "?timer = Returned st2" for st2 using that untimed [of ?st st2] by simp
  obtain st2 st3 where "?timer = Returned st2"
    "loop_turns cbs lenv timeout (mp_next st) answers (0, \<lparr>fs_in = [], fs_out = [], fs_except = []\<rparr>) st2 = Returned st3"
    "st' = st3\<lparr>mp_frames := (mp_frames st3)(mp_next st := None)\<rparr>"
    using assms(2) unfolding mpoll_loop_def Let_def proc_bind_Returned by auto
  then have "inv st3" "st' = st3\<lparr>mp_frames := (mp_frames st3)(mp_next st := None)\<rparr>" using start turns_inv by blast+
  then show ?thesis using untimed [of st3 st'] counts [of st3] by simp
qed

end

end
