(* ===== verification/IpfixServerProps.thy ===== *)
theory IpfixServerProps
  imports IpfixServer IpfixRT EventLoop
begin

text \<open>
  What holds of the collector as a server: its descriptors and connections are accounted for in every state of the
  event loop, and a session of the exporter over TCP is served by it.
\<close>

section \<open>The books of the server\<close>

fun blocks_of :: "col_cb poll_node list \<Rightarrow> nat list" where
  "blocks_of [] = []"
| "blocks_of (n # ns) = (case pn_func n of Some (Tcp_client k) \<Rightarrow> k # blocks_of ns | _ \<Rightarrow> blocks_of ns)"

definition plain_cb :: "col_cb option \<Rightarrow> bool" where
  "plain_cb cb \<longleftrightarrow> (\<exists>k. cb \<in> {Some Tcp_accept, Some (Tcp_client k), Some Udp_client, Some Sctp_client})"

text \<open>
  Without SSL: every descriptor that is open is in the event loop, once and as the only one that has its number, and
  every connection that is in memory belongs to just one of them.
\<close>

definition server_wf :: "server \<Rightarrow> bool" where
  "server_wf st \<longleftrightarrow>
     distinct (map pn_fd (mp_pnodes st)) \<and> set (map pn_fd (mp_pnodes st)) = set (cw_open (mp_user st))
     \<and> (\<forall>n \<in> set (mp_pnodes st). plain_cb (pn_func n))
     \<and> distinct (blocks_of (mp_pnodes st)) \<and> set (blocks_of (mp_pnodes st)) = dom (cw_conns (mp_user st))
     \<and> (\<forall>k \<in> dom (cw_conns (mp_user st)). k < cw_next (mp_user st))
     \<and> distinct (cw_open (mp_user st)) \<and> set (cw_open (mp_user st)) \<inter> set (cw_other (mp_user st)) = {}
     \<and> (\<forall>fd \<in> set (cw_open (mp_user st)). 0 \<le> fd) \<and> 0 \<le> mp_fdsetupdate st"

lemma free_fd_fresh: "0 \<le> free_fd w" "free_fd w \<notin> set (cw_open w)" "free_fd w \<notin> set (cw_other w)"
proof -
  let ?used = "cw_open w @ cw_other w"
  have "\<not> set [0 .. int (length ?used)] \<subseteq> set ?used"
  proof
    assume "set [0 .. int (length ?used)] \<subseteq> set ?used"
    then have "card (set [0 .. int (length ?used)]) \<le> card (set ?used)" by (rule card_mono [OF finite_set])
    also have "\<dots> \<le> length ?used" by (rule card_length)
    finally show False by simp
  qed
  then obtain n where "n \<in> set [0 .. int (length ?used)]" "n \<notin> set ?used" by blast
  then have "List.find (\<lambda>n. n \<notin> set ?used) [0 .. int (length ?used)] \<noteq> None" unfolding find_None_iff by blast
  then obtain m where m: "List.find (\<lambda>n. n \<notin> set ?used) [0 .. int (length ?used)] = Some m" by blast
  then have "m \<notin> set ?used" "m \<in> set [0 .. int (length ?used)]" unfolding find_Some_iff by (metis nth_mem)+
  then show "0 \<le> free_fd w" "free_fd w \<notin> set (cw_open w)" "free_fd w \<notin> set (cw_other w)"
    unfolding free_fd_def m option.sel by simp_all
qed

lemma fdadd_cases:
  assumes "mpoll_fdadd mem fd msk cb st = (r, st')"
  shows "mp_user st' = mp_user st \<and> mp_timers st' = mp_timers st \<and>
    (r = -1 \<and> mp_pnodes st' = mp_pnodes st \<and> mp_fdsetupdate st' = mp_fdsetupdate st \<or>
     r = 0 \<and> (\<exists>k reuse. mp_pnodes st' = \<lparr>pn_id = k, pn_reuse = reuse, pn_fd = fd, pn_mask = msk, pn_func = cb\<rparr> # mp_pnodes st) \<and>
       mp_fdsetupdate st' = mp_fdsetupdate st + 1)"
  using assms by (auto simp: mpoll_fdadd_def link_pnode_def pnode_init_def Let_def split: if_splits list.splits)

lemma take_pnode_filter: "distinct (map pn_fd ns) \<Longrightarrow> take_pnode fd ns = Some (n, ns') \<Longrightarrow> ns' = filter (\<lambda>n. pn_fd n \<noteq> fd) ns"
proof (induction ns arbitrary: n ns')
  case (Cons a ns)
  have "pn_fd a \<notin> pn_fd ` set ns" using Cons.prems(1) by simp
  then have "filter (\<lambda>n. pn_fd n \<noteq> fd) ns = ns" if "pn_fd a = fd" using that by (metis (mono_tags, lifting) filter_True image_eqI)
  then show ?case using Cons by (auto split: if_splits)
qed simp

lemma take_pnode_none: "take_pnode fd ns = None \<Longrightarrow> filter (\<lambda>n. pn_fd n \<noteq> fd) ns = ns"
  by (induction ns) (auto split: if_splits)

lemma fdrm_cases:
  assumes "distinct (map pn_fd (mp_pnodes st))"
  shows "mp_pnodes (mpoll_fdrm fd st) = filter (\<lambda>n. pn_fd n \<noteq> fd) (mp_pnodes st) \<and> mp_user (mpoll_fdrm fd st) = mp_user st \<and>
    mp_fdsetupdate (mpoll_fdrm fd st) = mp_fdsetupdate st + 1"
  using take_pnode_filter [OF assms] take_pnode_none [of fd "mp_pnodes st"]
  by (auto simp: mpoll_fdrm_def pnode_free_def Let_def split: option.splits)

lemma set_blocks_of: "set (blocks_of ns) = {k. \<exists>n \<in> set ns. pn_func n = Some (Tcp_client k)}"
  by (induction ns) (auto split: option.splits col_cb.splits)

lemma distinct_blocks_filter: "distinct (blocks_of ns) \<Longrightarrow> distinct (blocks_of (filter P ns))"
  by (induction ns) (auto simp: set_blocks_of split: option.splits col_cb.splits)

lemma blocks_unique:
  "distinct (blocks_of ns) \<Longrightarrow> n \<in> set ns \<Longrightarrow> n' \<in> set ns \<Longrightarrow> pn_func n = Some (Tcp_client k) \<Longrightarrow> pn_func n' = Some (Tcp_client k) \<Longrightarrow> n = n'"
  by (induction ns) (auto simp: set_blocks_of split: option.splits col_cb.splits)

lemma fd_unique: "distinct (map pn_fd ns) \<Longrightarrow> n \<in> set ns \<Longrightarrow> n' \<in> set ns \<Longrightarrow> pn_fd n = pn_fd n' \<Longrightarrow> n = n'"
  by (induction ns) (auto simp: image_iff)

text \<open>Closing a descriptor takes its block out of the books, if it has one.\<close>

lemma close_blocks:
  assumes "server_wf st" "n \<in> set (mp_pnodes st)" "pn_fd n = fd"
  shows "set (blocks_of (filter (\<lambda>n. pn_fd n \<noteq> fd) (mp_pnodes st))) =
    dom (cw_conns (mp_user st)) - {k. pn_func n = Some (Tcp_client k)}"
proof -
  have d: "distinct (map pn_fd (mp_pnodes st))" "distinct (blocks_of (mp_pnodes st))" "set (blocks_of (mp_pnodes st)) = dom (cw_conns (mp_user st))"
    using assms(1) by (simp_all add: server_wf_def)
  have "pn_fd m = fd \<longleftrightarrow> m = n" if "m \<in> set (mp_pnodes st)" for m
    using fd_unique [OF d(1) that assms(2)] assms(3) by auto
  then have "set (filter (\<lambda>m. pn_fd m \<noteq> fd) (mp_pnodes st)) = set (mp_pnodes st) - {n}" by auto
  moreover have "m = n" if "m \<in> set (mp_pnodes st)" "pn_func m = Some (Tcp_client k)" "pn_func n = Some (Tcp_client k)" for m k
    using blocks_unique [OF d(2) that(1) assms(2)] that(2,3) by simp
  ultimately show ?thesis unfolding d(3) [symmetric] set_blocks_of by (auto 0 3)
qed

lemma close_wf:
  assumes "server_wf st" "n \<in> set (mp_pnodes st)" "pn_fd n = fd" "\<forall>k. pn_func n \<noteq> Some (Tcp_client k)"
  shows "server_wf (ipfix_col_close fd st)"
proof -
  have d: "distinct (map pn_fd (mp_pnodes st))" using assms(1) by (simp add: server_wf_def)
  note c = fdrm_cases [OF d, of fd] and b = close_blocks [OF assms(1-3)]
  show ?thesis using assms(1,4) b unfolding server_wf_def
    by (auto simp: ipfix_col_close_def c distinct_blocks_filter distinct_map_filter distinct_removeAll split: option.splits col_cb.splits)
qed

lemma close_client_wf:
  assumes "server_wf st" "n \<in> set (mp_pnodes st)" "pn_fd n = fd" "pn_func n = Some (Tcp_client k)"
  shows "server_wf (world (\<lambda>w. w\<lparr>cw_conns := (cw_conns w)(k := None)\<rparr>) (ipfix_col_close fd st))"
proof -
  have d: "distinct (map pn_fd (mp_pnodes st))" using assms(1) by (simp add: server_wf_def)
  note c = fdrm_cases [OF d, of fd] and b = close_blocks [OF assms(1-3)]
  show ?thesis using assms(1,4) b unfolding server_wf_def
    by (auto simp: ipfix_col_close_def c distinct_blocks_filter distinct_map_filter distinct_removeAll)
qed

text \<open>What is not about descriptors and connections does not matter.\<close>

definition same_books :: "server \<Rightarrow> server \<Rightarrow> bool" where
  "same_books st st' \<longleftrightarrow> mp_pnodes st' = mp_pnodes st \<and> 0 \<le> mp_fdsetupdate st' \<and> dom (cw_conns (mp_user st')) = dom (cw_conns (mp_user st))
     \<and> cw_open (mp_user st') = cw_open (mp_user st) \<and> cw_other (mp_user st') = cw_other (mp_user st) \<and> cw_next (mp_user st') = cw_next (mp_user st)"

lemma same_books_wf: "same_books st st' \<Longrightarrow> server_wf st \<Longrightarrow> server_wf st'"
  by (simp add: server_wf_def same_books_def)

lemma same_booksI:
  "mp_pnodes st' = mp_pnodes st \<Longrightarrow> mp_fdsetupdate st' = mp_fdsetupdate st \<Longrightarrow> 0 \<le> mp_fdsetupdate st \<Longrightarrow> dom (cw_conns (mp_user st')) = dom (cw_conns (mp_user st)) \<Longrightarrow>
    cw_open (mp_user st') = cw_open (mp_user st) \<Longrightarrow> cw_other (mp_user st') = cw_other (mp_user st) \<Longrightarrow> cw_next (mp_user st') = cw_next (mp_user st) \<Longrightarrow>
    same_books st st'"
  by (simp add: same_books_def)

lemma server_wf_update: "server_wf st \<Longrightarrow> 0 \<le> mp_fdsetupdate st" by (simp add: server_wf_def)

text \<open>The descriptors that are not of clients, with what is called for them.\<close>

definition sockets_of :: "col_cb poll_node list \<Rightarrow> (int \<times> col_cb option) set" where
  "sockets_of ns = {(pn_fd n, pn_func n) | n. n \<in> set ns \<and> (\<forall>k. pn_func n \<noteq> Some (Tcp_client k))}"

definition sockets_kept :: "(int \<times> col_cb option) set \<Rightarrow> col_cb poll_node list \<Rightarrow> bool" where
  "sockets_kept S ns \<longleftrightarrow> sockets_of ns \<subseteq> S \<and> (\<forall>x \<in> S. snd x \<noteq> Some Sctp_client \<longrightarrow> x \<in> sockets_of ns)"

lemma sockets_append: "sockets_of (as @ bs) = sockets_of as \<union> sockets_of bs" by (auto simp: sockets_of_def)

lemma sockets_client: "pn_func n = Some (Tcp_client k) \<Longrightarrow> sockets_of (n # ns) = sockets_of ns" by (auto simp: sockets_of_def)

lemma sockets_kept_refl [simp]: "sockets_kept (sockets_of ns) ns" by (simp add: sockets_kept_def)

text \<open>What a callback does to the descriptors and their books: nothing, or it keeps them and counts the change.\<close>

definition books_kept :: "server \<Rightarrow> server \<Rightarrow> bool" where
  "books_kept st st' \<longleftrightarrow> server_wf st' \<and> (mp_fdsetupdate st' = 0 \<longrightarrow> mp_pnodes st' = mp_pnodes st) \<and> sockets_kept (sockets_of (mp_pnodes st)) (mp_pnodes st')"

text \<open>Closing a descriptor takes its socket away, if it is one.\<close>

lemma close_sockets:
  assumes "server_wf st" "n \<in> set (mp_pnodes st)" "pn_fd n = fd"
  shows "sockets_of (mp_pnodes (ipfix_col_close fd st)) = sockets_of (mp_pnodes st) - {(fd, pn_func n)}"
proof -
  have d: "distinct (map pn_fd (mp_pnodes st))" using assms(1) by (simp add: server_wf_def)
  have "pn_fd m = fd \<longleftrightarrow> m = n" if "m \<in> set (mp_pnodes st)" for m
    using fd_unique [OF d that assms(2)] assms(3) by auto
  then show ?thesis using assms(2) by (auto simp: ipfix_col_close_def fdrm_cases [OF d] sockets_of_def)
qed

lemma same_books_kept: "server_wf st \<Longrightarrow> same_books st st' \<Longrightarrow> books_kept st st'"
  using same_books_wf by (auto simp: books_kept_def same_books_def)

lemma close_counts: "distinct (map pn_fd (mp_pnodes st)) \<Longrightarrow> mp_fdsetupdate (ipfix_col_close fd st) = mp_fdsetupdate st + 1"
  by (simp add: ipfix_col_close_def fdrm_cases)

lemma accept_new:
  assumes "cw_accepts (mp_user st) fd = Accepted peer True True node # as" "st1 = world (\<lambda>w. w\<lparr>cw_accepts := (cw_accepts w)(fd := as)\<rparr>) st"
  shows "tcp_accept_cb fd st =
    (case mpoll_fdadd node (free_fd (mp_user st1)) MPOLL_IN (Some (Tcp_client (cw_next (mp_user st1)))) st1 of (r, st2) \<Rightarrow>
     if r < 0 then Returned st2
     else Returned (world (\<lambda>w. w\<lparr>cw_conns := (cw_conns w)(cw_next (mp_user st1) \<mapsto> \<lparr>tc_sources = [], tc_details = IPFIX_INPUT_IPCON peer\<rparr>),
       cw_next := cw_next (mp_user st1) + 1, cw_open := free_fd (mp_user st1) # cw_open w\<rparr>) st2))"
  unfolding tcp_accept_cb_def assms list.case Let_def accepted.case new_ipfix_input_def option.case if_True not_True_eq_False if_False
  by (rule refl)

lemma accept_books:
  assumes "server_wf st" "tcp_accept_cb fd st = Returned st'"
  shows "books_kept st st'"
proof -
  obtain a as where as: "cw_accepts (mp_user st) fd = a # as" using assms(2) by (auto simp: tcp_accept_cb_def split: list.splits)
  let ?st = "world (\<lambda>w. w\<lparr>cw_accepts := (cw_accepts w)(fd := as)\<rparr>) st"
  have s: "same_books st ?st" using server_wf_update [OF assms(1)] by (simp add: same_books_def)
  then have wf: "server_wf ?st" by (rule same_books_wf [OF _ assms(1)])
  show ?thesis
  proof (cases "\<exists>peer node. a = Accepted peer True True node")
    case False
    then have "st' = ?st" using assms(2) by (auto simp: tcp_accept_cb_def as new_ipfix_input_def Let_def split: accepted.splits if_splits)
    then show ?thesis using same_books_kept [OF assms(1) s] by simp
  next
    case True
    then obtain peer node where a: "a = Accepted peer True True node" by blast
    let ?k = "cw_next (mp_user ?st)" and ?fd = "free_fd (mp_user ?st)"
    note new_eq = accept_new [OF as [unfolded a] refl]
    obtain r st1 where f: "mpoll_fdadd node ?fd MPOLL_IN (Some (Tcp_client ?k)) ?st = (r, st1)" by fastforce
    note c = fdadd_cases [OF f]
    show ?thesis
    proof (cases "r < 0")
      case True
      then have "st' = st1" using assms(2) unfolding new_eq f by simp
      moreover have "same_books st st1" using c True server_wf_update [OF assms(1)] by (auto simp: same_books_def)
      ultimately show ?thesis using same_books_kept [OF assms(1)] by simp
    next
      case False
      then have st': "st' = world (\<lambda>w. w\<lparr>cw_conns := (cw_conns w)(?k \<mapsto> \<lparr>tc_sources = [], tc_details = IPFIX_INPUT_IPCON peer\<rparr>),
          cw_next := ?k + 1, cw_open := ?fd # cw_open w\<rparr>) st1"
        using assms(2) unfolding new_eq f by simp
      obtain i reuse where p: "mp_pnodes st1 = \<lparr>pn_id = i, pn_reuse = reuse, pn_fd = ?fd, pn_mask = MPOLL_IN, pn_func = Some (Tcp_client ?k)\<rparr> # mp_pnodes ?st"
        "mp_fdsetupdate st1 = mp_fdsetupdate ?st + 1" "mp_user st1 = mp_user ?st"
        using c False by auto
      have new: "?k \<notin> dom (cw_conns (mp_user st))" "?fd \<notin> set (cw_open (mp_user st))" "?fd \<notin> set (cw_other (mp_user st))" "0 \<le> ?fd"
        using assms(1) free_fd_fresh [of "mp_user ?st"] by (auto simp: server_wf_def)
      have "server_wf st'" using assms(1) new unfolding server_wf_def st'
        by (auto simp: p plain_cb_def less_Suc_eq)
      moreover have "mp_fdsetupdate st' \<noteq> 0" using server_wf_update [OF assms(1)] by (simp add: st' p)
      moreover have "sockets_of (mp_pnodes st') = sockets_of (mp_pnodes st)" by (simp add: st' p sockets_client)
      ultimately show ?thesis using sockets_kept_refl [of "mp_pnodes st'"] by (simp add: books_kept_def)
    qed
  qed
qed

lemma client_books:
  assumes "server_wf st" "n \<in> set (mp_pnodes st)" "pn_func n = Some (Tcp_client k)" "tcp_client_cb clock env k (pn_fd n) st = Returned st'"
  shows "books_kept st st'"
proof -
  obtain c where c: "cw_conns (mp_user st) k = Some c" using assms(4) by (auto simp: tcp_client_cb_def split: option.splits)
  obtain ss stream log where p: "process_client_tcp (at_time clock env st) (tc_details c) (tc_sources c) (cw_streams (mp_user st) (pn_fd n)) (cw_log (mp_user st)) =
      Returned (ss, stream, log)"
    using assms(4) by (cases "process_client_tcp (at_time clock env st) (tc_details c) (tc_sources c) (cw_streams (mp_user st) (pn_fd n)) (cw_log (mp_user st))")
      (auto simp: tcp_client_cb_def c)
  let ?st = "world (\<lambda>w. w\<lparr>cw_streams := (cw_streams w)(pn_fd n := stream), cw_log := log\<rparr>) st"
  have s: "same_books st ?st" using server_wf_update [OF assms(1)] by (simp add: same_books_def)
  note wf = same_books_wf [OF s assms(1)]
  show ?thesis
  proof (cases ss)
    case None
    then have "st' = world (\<lambda>w. w\<lparr>cw_conns := (cw_conns w)(k := None)\<rparr>) (ipfix_col_close (pn_fd n) ?st)"
      using assms(4) by (simp add: tcp_client_cb_def c p Let_def)
    moreover have "server_wf \<dots>" by (rule close_client_wf [OF wf, of n]) (use assms(2,3) in simp_all)
    moreover have "sockets_of (mp_pnodes (ipfix_col_close (pn_fd n) ?st)) = sockets_of (mp_pnodes st) - {(pn_fd n, pn_func n)}"
      using close_sockets [OF wf, of n] assms(2) by simp
    moreover have "mp_fdsetupdate (ipfix_col_close (pn_fd n) ?st) \<noteq> 0"
      using wf server_wf_update [OF wf] close_counts [of ?st "pn_fd n"] by (simp add: server_wf_def)
    ultimately show ?thesis using assms(3) by (auto simp: books_kept_def sockets_kept_def sockets_of_def)
  next
    case (Some ss)
    then have "st' = world (\<lambda>w. w\<lparr>cw_conns := (cw_conns w)(k \<mapsto> c\<lparr>tc_sources := ss\<rparr>)\<rparr>) ?st"
      using assms(4) by (simp add: tcp_client_cb_def c p Let_def)
    then have "same_books st st'" using c server_wf_update [OF assms(1)] by (auto simp: same_books_def)
    then show ?thesis by (rule same_books_kept [OF assms(1)])
  qed
qed

lemma udp_books: "server_wf st \<Longrightarrow> udp_client_cb clock env fd st = Returned st' \<Longrightarrow> books_kept st st'"
  by (rule same_books_kept, assumption)
    (auto simp: udp_client_cb_def same_books_def server_wf_def proc_bind_Returned split: list.splits)

lemma sctp_close_kept:
  assumes "server_wf st'" "mp_fdsetupdate st' \<noteq> 0" "sockets_of (mp_pnodes st') = sockets_of (mp_pnodes st) - {(fd, Some Sctp_client)}"
  shows "books_kept st st'"
proof -
  have but_one: "B \<subseteq> A \<and> (\<forall>x\<in>A. snd x \<noteq> Some Sctp_client \<longrightarrow> x \<in> B)"
    if "B = A - {(fd, Some Sctp_client)}" for A B :: "(int \<times> col_cb option) set"
    using that by auto
  show ?thesis using assms(1,2) but_one [OF assms(3)] unfolding books_kept_def sockets_kept_def by blast
qed

lemma sctp_books:
  assumes "server_wf st" "n \<in> set (mp_pnodes st)" "pn_func n = Some Sctp_client" "process_client_sctp clock env (pn_fd n) st = Returned st'"
  shows "books_kept st st'"
proof -
  obtain e es where es: "cw_events (mp_user st) (pn_fd n) = e # es"
    using assms(4) by (auto simp: process_client_sctp_def split: list.splits)
  let ?st = "world (\<lambda>w. w\<lparr>cw_events := (cw_events w)(pn_fd n := es)\<rparr>) st"
  have s: "same_books st ?st" using server_wf_update [OF assms(1)] by (simp add: same_books_def)
  note wf = same_books_wf [OF s assms(1)]
  show ?thesis
  proof (cases "e = Sctp_failed")
    case True
    then have st': "st' = ipfix_col_close (pn_fd n) ?st" using assms(4) by (simp add: process_client_sctp_def es Let_def)
    show ?thesis unfolding st'
    proof (rule sctp_close_kept)
      show "server_wf (ipfix_col_close (pn_fd n) ?st)" by (rule close_wf [OF wf, of n]) (use assms(2,3) in simp_all)
      show "mp_fdsetupdate (ipfix_col_close (pn_fd n) ?st) \<noteq> 0"
        using wf server_wf_update [OF wf] close_counts [of ?st "pn_fd n"] by (simp add: server_wf_def)
      show "sockets_of (mp_pnodes (ipfix_col_close (pn_fd n) ?st)) = sockets_of (mp_pnodes st) - {(pn_fd n, Some Sctp_client)}"
        using close_sockets [OF wf, of n] assms(2,3) by simp
    qed
  next
    case False
    then have "same_books st st'" using assms(4) server_wf_update [OF assms(1)]
      by (auto simp: process_client_sctp_def es Let_def same_books_def proc_bind_Returned split: sctp_event.splits option.splits)
    then show ?thesis by (rule same_books_kept [OF assms(1)])
  qed
qed

lemma maintenance_books:
  assumes "server_wf st" "maintenance_cb clock st = Returned st'"
  shows "books_kept st st'"
proof -
  have "same_books st st'" using assms(2) server_wf_update [OF assms(1)]
    by (auto simp: maintenance_cb_def proc_bind_Returned mpoll_timeradd_def mtimer_start_def add_timer_def mtimer_settime_def same_books_def)
  then show ?thesis by (rule same_books_kept [OF assms(1)])
qed

lemma on_fd_books:
  assumes "server_wf st" "n \<in> set (mp_pnodes st)" "pn_func n = Some cb" "on_fd (col_callbacks clock env) cb (pn_fd n) msk st = Returned st'"
  shows "books_kept st st'"
proof -
  have "plain_cb (Some cb)" using assms(1-3) by (metis server_wf_def)
  then obtain k where "cb = Tcp_accept \<or> cb = Tcp_client k \<or> cb = Udp_client \<or> cb = Sctp_client" by (auto simp: plain_cb_def)
  then show ?thesis using assms accept_books client_books udp_books sctp_books by (auto simp: col_callbacks_def)
qed

text \<open>The books, with the sockets that were there, are an invariant of the loop.\<close>

definition server_inv :: "(int \<times> col_cb option) set \<Rightarrow> server \<Rightarrow> bool" where
  "server_inv S st \<longleftrightarrow> server_wf st \<and> sockets_kept S (mp_pnodes st)"

lemma server_inv_step: "server_inv S st \<Longrightarrow> books_kept st st' \<Longrightarrow> server_inv S st'"
  by (auto simp: server_inv_def books_kept_def sockets_kept_def)

interpretation books: loop_contract "col_callbacks clock env" "server_inv S" for clock env S
proof unfold_locales
  fix st st' :: server
  assume i: "server_inv S st"
  then have wf: "server_wf st" by (simp add: server_inv_def)
  then show "0 \<le> mp_fdsetupdate st" by (rule server_wf_update)
  show "server_inv S st'" if "mp_pnodes st' = mp_pnodes st" "mp_user st' = mp_user st" "0 \<le> mp_fdsetupdate st'"
    using same_books_wf [of st st'] wf i that by (simp add: server_inv_def same_books_def)
  show "server_inv S st'" if "on_timer (col_callbacks clock env) cb st = Returned st'" for cb
    using server_inv_step [OF i maintenance_books [OF wf]] that by (cases cb) (auto simp: col_callbacks_def)
  show "server_inv S st' \<and> (mp_fdsetupdate st' = 0 \<longrightarrow> mp_pnodes st' = mp_pnodes st)"
    if "n \<in> set (mp_pnodes st)" "pn_func n = Some cb" "on_fd (col_callbacks clock env) cb (pn_fd n) msk st = Returned st'" for n cb msk
    using on_fd_books [OF wf that] server_inv_step [OF i] by (simp add: books_kept_def)
qed

lemma loop_books:
  assumes "server_wf st" "mpoll_loop (col_callbacks clock env) lenv mem answers timeout st = Returned (r, st')"
  shows "server_wf st' \<and> sockets_kept (sockets_of (mp_pnodes st)) (mp_pnodes st')"
  using books.loop_inv [OF _ assms(2), of "sockets_of (mp_pnodes st)"] assms(1) by (simp add: server_inv_def)

text \<open>C7. The server never loses or confuses a descriptor. Whatever \<open>select\<close>, \<open>accept\<close> and the peers answer, and however
  long the loop runs, after it every descriptor the collector has open is watched by the event loop, once, and every connection in
  memory belongs to one watched descriptor and every watched client to a connection in memory: none leaks, none is used after it was freed.
  Besides clients only the sockets that were there before are watched, and of these all but those for SCTP still are.\<close>

theorem server_keeps_books:
  assumes "server_wf st" "mpoll_loop (col_callbacks clock env) lenv mem answers timeout st = Returned (r, st')"
  shows "server_wf st' \<and> sockets_of (mp_pnodes st') \<subseteq> sockets_of (mp_pnodes st) \<and>
    (\<forall>fd cb. (fd, cb) \<in> sockets_of (mp_pnodes st) \<and> cb \<noteq> Some Sctp_client \<longrightarrow> (fd, cb) \<in> sockets_of (mp_pnodes st'))"
  using loop_books [OF assms] by (auto simp: sockets_kept_def)

section \<open>A turn for one descriptor\<close>

definition only :: "int \<Rightarrow> select_answer" where
  "only fd = Ready (\<lambda>f. f = fd) (\<lambda>_. False) (\<lambda>_. False)"

definition watched :: "col_cb poll_node list \<Rightarrow> fd_sets" where
  "watched ns = \<lparr>fs_in = fds_with MPOLL_IN ns, fs_out = fds_with MPOLL_OUT ns, fs_except = fds_with MPOLL_EXCEPT ns\<rparr>"

definition good_sets :: "int \<times> fd_sets \<Rightarrow> server \<Rightarrow> bool" where
  "good_sets sets st \<longleftrightarrow> mp_fdsetupdate st \<noteq> 0 \<or> snd sets = watched (mp_pnodes st)"

lemma build_watched: "fds_fit ns \<Longrightarrow> \<exists>fds. build_sets ns = Returned (fds, watched ns)"
  by (auto simp: build_sets_def fds_fit_def watched_def)

lemma ready_only:
  assumes "n \<in> set ns" "pn_fd n = fd" "and (pn_mask n) MPOLL_IN \<noteq> 0"
  shows "ready_mask (ready_sets (\<lambda>f. f = fd) (\<lambda>_. False) (\<lambda>_. False) (watched ns)) fd' = (if fd' = fd then MPOLL_IN else 0)"
  using assms by (auto simp: ready_mask_def ready_sets_def watched_def fds_with_def image_iff MPOLL_IN_def)

lemma quiet_expire: "mp_timers st = t # ts \<Longrightarrow> \<not> due (mp_tnow st) t \<Longrightarrow> mtimer_expire cbs fuel st = Returned st"
  by (simp add: mtimer_expire.simps due_def)

lemma walk_quiet: "fds_fit ns \<Longrightarrow> \<forall>n \<in> set ns. ready_mask s (pn_fd n) = 0 \<Longrightarrow> check_fds cbs s ns st = Returned st"
  by (induction ns) (auto simp: fds_fit_def Let_def)

lemma walk_one:
  assumes "fds_fit ns" "distinct (map pn_fd ns)" "n \<in> set ns" "pn_fd n = fd" "pn_func n = Some cb"
    "\<forall>fd'. ready_mask s fd' = (if fd' = fd then MPOLL_IN else 0)" "on_fd cbs cb fd MPOLL_IN st = Returned st1"
    "mp_fdsetupdate st1 = 0 \<longrightarrow> n \<in> set (mp_pnodes st1)"
  shows "check_fds cbs s ns st = Returned st1"
  using assms(1-3)
proof (induction ns)
  case (Cons a ns)
  then have f: "fds_fit ns" "0 \<le> pn_fd a" "pn_fd a < FD_SETSIZE" by (auto simp: fds_fit_def)
  show ?case
  proof (cases "a = n")
    case True
    have "\<forall>m \<in> set ns. ready_mask s (pn_fd m) = 0" using Cons.prems(2) assms(4,6) True by (auto simp: image_iff)
    then have "check_fds cbs s ns st1 = Returned st1" by (rule walk_quiet [OF f(1)])
    then show ?thesis using True assms(4-8) f by (auto simp: Let_def MPOLL_IN_def)
  next
    case False
    then have "n \<in> set ns" using Cons.prems(3) by simp
    moreover from this have "pn_fd a \<noteq> fd" using Cons.prems(2) assms(4) by (auto simp: image_iff)
    ultimately show ?thesis using Cons.IH Cons.prems(2) f assms(6) by (simp add: Let_def)
  qed
qed simp

lemma serve_turn:
  fixes st1 :: server and lenv :: loop_env and env :: col_env
  defines "cbs \<equiv> col_callbacks (le_clock lenv) env"
  assumes wf: "server_wf st" "fds_fit (mp_pnodes st)" and t: "mp_timers st = stop # ts" "\<not> due now stop"
    and c: "le_clock lenv (mp_ticks st) = now" "le_clock lenv (mp_ticks st + 1) = now"
    and n: "n \<in> set (mp_pnodes st)" "pn_fd n = fd" "pn_func n = Some cb" "and (pn_mask n) MPOLL_IN \<noteq> 0"
    and s: "good_sets sets st" "mp_frames st fr = Some False" "\<not> mp_breakflag st" "timeout \<noteq> 0"
    and f: "on_fd cbs cb fd MPOLL_IN (st\<lparr>mp_fdsetupdate := 0, mp_tnow := now, mp_ticks := mp_ticks st + 1\<rparr>) = Returned st1"
      "mp_timers st1 = stop # ts" "mp_ticks st1 = mp_ticks st + 1"
  shows "\<exists>sets'. (\<forall>answers. loop_turns cbs lenv timeout fr (only fd # answers) sets st =
      loop_turns cbs lenv timeout fr answers sets' (st1\<lparr>mp_tnow := now, mp_ticks := mp_ticks st + 2\<rparr>)) \<and>
    good_sets sets' (st1\<lparr>mp_tnow := now, mp_ticks := mp_ticks st + 2\<rparr>)"
proof -
  let ?st = "st\<lparr>mp_fdsetupdate := 0\<rparr>" and ?turn = "st\<lparr>mp_fdsetupdate := 0, mp_tnow := now, mp_ticks := mp_ticks st + 1\<rparr>"
  have "\<exists>sets'. (if mp_fdsetupdate st \<noteq> 0 then build_sets (mp_pnodes st) else Returned sets) = Returned sets' \<and> snd sets' = watched (mp_pnodes st)"
    using build_watched [OF wf(2)] s(1) by (cases "mp_fdsetupdate st = 0") (auto simp: good_sets_def)
  then obtain sets' where sets': "(if mp_fdsetupdate st \<noteq> 0 then build_sets (mp_pnodes st) else Returned sets) = Returned sets'" "snd sets' = watched (mp_pnodes st)"
    by blast
  let ?s = "ready_sets (\<lambda>f. f = fd) (\<lambda>_. False) (\<lambda>_. False) (snd sets')"
  have wf0: "server_wf ?turn" by (rule same_books_wf [OF _ wf(1)]) (simp add: same_books_def)
  have k: "books_kept ?turn st1"
    using on_fd_books [OF wf0 _ n(3), where clock = "le_clock lenv" and env = env and msk = MPOLL_IN and st' = st1] n(1,2) f(1) by (simp add: cbs_def)
  have "check_fds cbs ?s (mp_pnodes ?turn) ?turn = Returned st1"
    by (rule walk_one [where n = n, OF _ _ _ n(2,3) _ f(1)])
      (use wf n(1) k ready_only [OF n(1,2,4)] in \<open>auto simp: sets'(2) server_wf_def books_kept_def\<close>)
  moreover have "mtimer_settime (le_clock lenv) ?st = ?turn" using c(1) by (simp add: mtimer_settime_def)
  moreover have "mtimer_settime (le_clock lenv) st1 = st1\<lparr>mp_tnow := now, mp_ticks := mp_ticks st + 2\<rparr>"
    using c(2) f(3) by (simp add: mtimer_settime_def)
  moreover have "mtimer_expire cbs (le_fuel lenv) ?turn = Returned ?turn" by (rule quiet_expire) (use t in simp_all)
  moreover have "mtimer_expire cbs (le_fuel lenv) (st1\<lparr>mp_tnow := now, mp_ticks := mp_ticks st + 2\<rparr>) = Returned (st1\<lparr>mp_tnow := now, mp_ticks := mp_ticks st + 2\<rparr>)"
    by (rule quiet_expire) (use t f(2) in simp_all)
  ultimately have "loop_turn cbs lenv ?s ?st = Returned (st1\<lparr>mp_tnow := now, mp_ticks := mp_ticks st + 2\<rparr>)"
    unfolding loop_turn_def by (simp only: proc_bind.simps)
  then have "loop_turns cbs lenv timeout fr (only fd # answers) sets st =
      loop_turns cbs lenv timeout fr answers sets' (st1\<lparr>mp_tnow := now, mp_ticks := mp_ticks st + 2\<rparr>)" for answers
    unfolding loop_turns.simps [of _ _ _ _ "only fd # answers"] sets'(1) using s(2-4) by (simp add: only_def)
  moreover have "good_sets sets' (st1\<lparr>mp_tnow := now, mp_ticks := mp_ticks st + 2\<rparr>)"
    using k sets'(2) by (auto simp: good_sets_def books_kept_def)
  ultimately show ?thesis by blast
qed
section \<open>A session that is served\<close>

text \<open>A state within a call of the loop, whose timer is the first one and is not due, and the callbacks of the session in it.\<close>

definition in_service :: "nat \<Rightarrow> col_cb mtimer list \<Rightarrow> server \<Rightarrow> bool" where
  "in_service fr ts st \<longleftrightarrow> server_wf st \<and> fds_fit (mp_pnodes st) \<and> mp_timers st = ts \<and> mp_frames st fr = Some False \<and> \<not> mp_breakflag st"

definition same_loop :: "server \<Rightarrow> server \<Rightarrow> bool" where
  "same_loop st st' \<longleftrightarrow> mp_timers st' = mp_timers st \<and> mp_ticks st' = mp_ticks st \<and> mp_frames st' = mp_frames st \<and> mp_breakflag st' = mp_breakflag st"

lemma fdadd_loop: "mpoll_fdadd True fd msk cb st = (r, st') \<Longrightarrow> r = 0 \<and> same_loop st st'"
  by (auto simp: mpoll_fdadd_def link_pnode_def pnode_init_def same_loop_def Let_def split: if_splits list.splits)

lemma fdrm_loop: "same_loop st (mpoll_fdrm fd st)"
  by (simp add: mpoll_fdrm_def pnode_free_def same_loop_def Let_def split: option.splits)

lemma accept_step:
  assumes "cw_accepts (mp_user st) lfd = Accepted peer True True True # as" "fd = free_fd (mp_user st)" "k = cw_next (mp_user st)"
  shows "\<exists>st1 i reuse. tcp_accept_cb lfd st = Returned st1 \<and> same_loop st st1 \<and>
    mp_pnodes st1 = \<lparr>pn_id = i, pn_reuse = reuse, pn_fd = fd, pn_mask = MPOLL_IN, pn_func = Some (Tcp_client k)\<rparr> # mp_pnodes st \<and>
    mp_user st1 = (mp_user st)\<lparr>cw_accepts := (cw_accepts (mp_user st))(lfd := as),
      cw_conns := (cw_conns (mp_user st))(k \<mapsto> \<lparr>tc_sources = [], tc_details = IPFIX_INPUT_IPCON peer\<rparr>), cw_next := k + 1, cw_open := fd # cw_open (mp_user st)\<rparr>"
proof -
  let ?st = "world (\<lambda>w. w\<lparr>cw_accepts := (cw_accepts w)(lfd := as)\<rparr>) st"
  have u: "free_fd (mp_user ?st) = fd" "cw_next (mp_user ?st) = k" using assms by (simp_all add: free_fd_def)
  obtain r st2 where f: "mpoll_fdadd True fd MPOLL_IN (Some (Tcp_client k)) ?st = (r, st2)" by fastforce
  have r: "r = 0" "same_loop ?st st2" using fdadd_loop [OF f] by simp_all
  have "tcp_accept_cb lfd st = Returned (world (\<lambda>w. w\<lparr>cw_conns := (cw_conns w)(k \<mapsto> \<lparr>tc_sources = [], tc_details = IPFIX_INPUT_IPCON peer\<rparr>),
      cw_next := k + 1, cw_open := fd # cw_open w\<rparr>) st2)"
    unfolding accept_new [OF assms(1) refl] u f using r(1) by simp
  then show ?thesis using fdadd_cases [OF f] r by (auto simp: same_loop_def)
qed

lemma client_step:
  assumes "cw_conns (mp_user st) k = Some c"
    "process_client_tcp (at_time clock env st) (tc_details c) (tc_sources c) (cw_streams (mp_user st) fd) (cw_log (mp_user st)) = Returned (Some ss, stream, log)"
  shows "tcp_client_cb clock env k fd st = Returned (world (\<lambda>w. w\<lparr>cw_streams := (cw_streams w)(fd := stream), cw_log := log,
    cw_conns := (cw_conns w)(k \<mapsto> c\<lparr>tc_sources := ss\<rparr>)\<rparr>) st)"
  by (simp add: tcp_client_cb_def assms)

text \<open>When the peer has closed the connection, it is taken out of the books.\<close>

lemma client_end:
  assumes "cw_conns (mp_user st) k = Some c" "cw_streams (mp_user st) fd = []"
  shows "tcp_client_cb clock env k fd st = Returned (world (\<lambda>w. w\<lparr>cw_conns := (cw_conns w)(k := None)\<rparr>) (ipfix_col_close fd (world (\<lambda>w. w\<lparr>cw_streams := (cw_streams w)(fd := [])\<rparr>) st)))"
  using assms(1) by (simp add: tcp_client_cb_def assms(2) process_client_tcp_def readn_def IPFIX_HDR_BYTES_NF9_def Let_def)

lemma service_turn:
  fixes st1 :: server and lenv :: loop_env and env :: col_env
  defines "cbs \<equiv> col_callbacks (le_clock lenv) env"
  assumes v: "in_service fr (stop # ts) st" "\<not> due now stop" "good_sets sets st" "timeout \<noteq> 0"
    and c: "le_clock lenv (mp_ticks st) = now" "le_clock lenv (mp_ticks st + 1) = now"
    and n: "n \<in> set (mp_pnodes st)" "pn_fd n = fd" "pn_func n = Some cb" "and (pn_mask n) MPOLL_IN \<noteq> 0"
    and f: "on_fd cbs cb fd MPOLL_IN (st\<lparr>mp_fdsetupdate := 0, mp_tnow := now, mp_ticks := mp_ticks st + 1\<rparr>) = Returned st1"
      "same_loop (st\<lparr>mp_fdsetupdate := 0, mp_tnow := now, mp_ticks := mp_ticks st + 1\<rparr>) st1" "fds_fit (mp_pnodes st1)"
  shows "\<exists>sets'. (\<forall>answers. loop_turns cbs lenv timeout fr (only fd # answers) sets st =
      loop_turns cbs lenv timeout fr answers sets' (st1\<lparr>mp_tnow := now, mp_ticks := mp_ticks st + 2\<rparr>)) \<and>
    good_sets sets' (st1\<lparr>mp_tnow := now, mp_ticks := mp_ticks st + 2\<rparr>) \<and> in_service fr (stop # ts) (st1\<lparr>mp_tnow := now, mp_ticks := mp_ticks st + 2\<rparr>)"
proof -
  have w: "server_wf st" "fds_fit (mp_pnodes st)" "mp_timers st = stop # ts" "mp_frames st fr = Some False" "\<not> mp_breakflag st"
    using v(1) by (simp_all add: in_service_def)
  have "mp_timers st1 = stop # ts" "mp_ticks st1 = mp_ticks st + 1" using f(2) w(3) by (simp_all add: same_loop_def)
  note t = serve_turn [where cb = cb and n = n and st = st and env = env and lenv = lenv, folded cbs_def, OF w(1-3) v(2) c n v(3) w(4,5) v(4) f(1) this]
  let ?turn = "st\<lparr>mp_fdsetupdate := 0, mp_tnow := now, mp_ticks := mp_ticks st + 1\<rparr>"
  have "server_wf ?turn" by (rule same_books_wf [OF _ w(1)]) (simp add: same_books_def)
  then have "books_kept ?turn st1"
    using on_fd_books [OF _ _ n(3), where clock = "le_clock lenv" and env = env and msk = MPOLL_IN and st' = st1 and st = ?turn] n(1,2) f(1) by (simp add: cbs_def)
  then have "server_wf st1" by (simp add: books_kept_def)
  then have "server_wf (st1\<lparr>mp_tnow := now, mp_ticks := mp_ticks st + 2\<rparr>)"
    by (rule same_books_wf [rotated]) (use server_wf_update [OF \<open>server_wf st1\<close>] in \<open>simp add: same_books_def\<close>)
  then have "in_service fr (stop # ts) (st1\<lparr>mp_tnow := now, mp_ticks := mp_ticks st + 2\<rparr>)"
    using f(2,3) w by (simp add: in_service_def same_loop_def)
  then show ?thesis using t by blast
qed

definition nothing :: select_answer where
  "nothing = Ready (\<lambda>_. False) (\<lambda>_. False) (\<lambda>_. False)"

text \<open>The turn in which the timer of the loop is due.\<close>

lemma last_turn:
  assumes "in_service fr (stop # ts) st" "mt_callback stop = Stop_loop fr" "good_sets sets st" "timeout \<noteq> 0" "le_fuel lenv \<noteq> 0"
    "due past stop" "\<forall>t \<in> set ts. \<not> due past t" "le_clock lenv (mp_ticks st) = past" "le_clock lenv (mp_ticks st + 1) = past"
  shows "loop_turns cbs lenv timeout fr [nothing] sets st =
    Returned (st\<lparr>mp_fdsetupdate := 0, mp_tnow := past, mp_ticks := mp_ticks st + 2, mp_timers := ts, mp_frames := (mp_frames st)(fr \<mapsto> True)\<rparr>)"
proof -
  have w: "fds_fit (mp_pnodes st)" "mp_timers st = stop # ts" "mp_frames st fr = Some False" "\<not> mp_breakflag st"
    using assms(1) by (simp_all add: in_service_def)
  have quiet: "mtimer_expire cbs fuel s = Returned s" if "mp_timers s = ts" "mp_tnow s = past" for fuel and s :: server
    using that assms(7) by (cases ts) (auto simp: mtimer_expire.simps due_def)
  have "\<exists>sets'. (if mp_fdsetupdate st \<noteq> 0 then build_sets (mp_pnodes st) else Returned sets) = Returned sets' \<and> snd sets' = watched (mp_pnodes st)"
    using build_watched [OF w(1)] assms(3) by (cases "mp_fdsetupdate st = 0") (auto simp: good_sets_def)
  then obtain sets' where sets': "(if mp_fdsetupdate st \<noteq> 0 then build_sets (mp_pnodes st) else Returned sets) = Returned sets'"
    "snd sets' = watched (mp_pnodes st)" by blast
  obtain fuel where fuel: "le_fuel lenv = Suc fuel" using assms(5) by (cases "le_fuel lenv") auto
  let ?a = "st\<lparr>mp_fdsetupdate := 0, mp_tnow := past, mp_ticks := mp_ticks st + 1\<rparr>"
  let ?b = "st\<lparr>mp_fdsetupdate := 0, mp_tnow := past, mp_ticks := mp_ticks st + 1, mp_timers := ts, mp_frames := (mp_frames st)(fr \<mapsto> True)\<rparr>"
  let ?c = "st\<lparr>mp_fdsetupdate := 0, mp_tnow := past, mp_ticks := mp_ticks st + 2, mp_timers := ts, mp_frames := (mp_frames st)(fr \<mapsto> True)\<rparr>"
  let ?s = "ready_sets (\<lambda>_. False) (\<lambda>_. False) (\<lambda>_. False) (snd sets')"
  have "mtimer_pop cbs stop ?a = Returned ?b"
    using w(2,3) by (simp add: mtimer_pop_def run_timer_def assms(2) cb_stoploop_def mtimer_stop_def)
  then have "mtimer_expire cbs (le_fuel lenv) ?a = Returned ?b"
    using w(2) assms(6) quiet [of ?b fuel] by (simp add: mtimer_expire.simps [of _ "Suc fuel"] fuel due_def)
  moreover have "mtimer_settime (le_clock lenv) (st\<lparr>mp_fdsetupdate := 0\<rparr>) = ?a" "mtimer_settime (le_clock lenv) ?b = ?c"
    using assms(8,9) by (simp_all add: mtimer_settime_def)
  moreover have "check_fds cbs ?s (mp_pnodes ?b) ?b = Returned ?b"
    by (rule walk_quiet) (use w(1) in \<open>simp_all add: ready_mask_def ready_sets_def\<close>)
  moreover have "mtimer_expire cbs (le_fuel lenv) ?c = Returned ?c" by (rule quiet) simp_all
  ultimately have "loop_turn cbs lenv ?s (st\<lparr>mp_fdsetupdate := 0\<rparr>) = Returned ?c"
    unfolding loop_turn_def by (simp only: proc_bind.simps)
  moreover have "loop_turns cbs lenv timeout fr [] sets' ?c = Returned ?c" by (simp add: loop_turns.simps)
  ultimately show ?thesis
    unfolding loop_turns.simps [of _ _ _ _ "[nothing]"] sets'(1) using w(3,4) assms(4) by (simp add: nothing_def)
qed
text \<open>
  A server that waits, with a connection to come from \<open>peer\<close>. The clock stands at \<open>now\<close> for four turns of the loop, and is at \<open>past\<close> in
  the fifth, when the ten seconds of the loop are over; no other timer is due.
\<close>

definition idle_server :: "loop_env \<Rightarrow> timeval \<Rightarrow> timeval \<Rightarrow> int \<Rightarrow> byte list \<Rightarrow> server \<Rightarrow> bool" where
  "idle_server lenv now past lfd peer st \<longleftrightarrow>
     server_wf st \<and> fds_fit (mp_pnodes st) \<and> free_fd (mp_user st) < FD_SETSIZE \<and> cw_log (mp_user st) = [] \<and> mp_tnow st = now
     \<and> (\<exists>n \<in> set (mp_pnodes st). pn_fd n = lfd \<and> pn_func n = Some Tcp_accept \<and> and (pn_mask n) MPOLL_IN \<noteq> 0)
     \<and> (\<exists>as. cw_accepts (mp_user st) lfd = Accepted peer True True True # as)
     \<and> (\<forall>t \<in> set (mp_timers st). later (mt_expiration t) (now\<lparr>tv_sec := tv_sec now + 10\<rparr>) \<and> \<not> due past t)
     \<and> later past (now\<lparr>tv_sec := tv_sec now + 10\<rparr>) \<and> le_fuel lenv \<noteq> 0
     \<and> (\<forall>i < 8. le_clock lenv (mp_ticks st + i) = now) \<and> le_clock lenv (mp_ticks st + 8) = past \<and> le_clock lenv (mp_ticks st + 9) = past"

lemma loop_start:
  assumes "\<forall>t \<in> set (mp_timers st). later (mt_expiration t) x" "mp_tnow st = now" "x = now\<lparr>tv_sec := tv_sec now + 10\<rparr>"
  shows "mpoll_loop cbs lenv True answers 10 st =
    proc_map (\<lambda>st' :: server. (0, st'\<lparr>mp_frames := (mp_frames st')(mp_next st := None)\<rparr>))
      (loop_turns cbs lenv 10 (mp_next st) answers (0, \<lparr>fs_in = [], fs_out = [], fs_except = []\<rparr>)
        (st\<lparr>mp_fdsetupdate := 1, mp_breakflag := False, mp_frames := (mp_frames st)(mp_next st \<mapsto> False),
          mp_timers := \<lparr>mt_id = mp_next st + 1, mt_expiration = x, mt_callback = Stop_loop (mp_next st)\<rparr> # mp_timers st, mp_next := mp_next st + 2\<rparr>))"
proof -
  have "insert_timer n (mp_timers st) = n # mp_timers st" if "mt_expiration n = x" for n
    using assms(1) that by (cases "mp_timers st") auto
  moreover have "proc_bind p (\<lambda>st'. Returned (0 :: int, f st')) = proc_map (\<lambda>st'. (0 :: int, f st')) p" for p :: "server proc" and f :: "server \<Rightarrow> server"
    by (cases p) simp_all
  moreover have "x = \<lparr>tv_sec = tv_sec now + 10, tv_usec = tv_usec now\<rparr>" unfolding assms(3) by (cases now) simp
  ultimately show ?thesis using assms(2)
    by (simp add: mpoll_loop_def mtimer_start_def add_timer_def Let_def)
qed
text \<open>The three kinds of turns of a session, as what they change.\<close>

definition turn_to :: "(col_cb, col_world) callbacks \<Rightarrow> loop_env \<Rightarrow> nat \<Rightarrow> col_cb mtimer list \<Rightarrow> int \<Rightarrow> int \<times> fd_sets \<times> server \<Rightarrow> int \<times> fd_sets \<times> server \<Rightarrow> bool" where
  "turn_to cbs lenv fr ts fd a b \<longleftrightarrow>
     (case (a, b) of ((f, s, st), (f', s', st')) \<Rightarrow>
      (\<forall>answers. loop_turns cbs lenv 10 fr (only fd # answers) (f, s) st = loop_turns cbs lenv 10 fr answers (f', s') st')
      \<and> good_sets (f', s') st' \<and> in_service fr ts st' \<and> mp_ticks st' = mp_ticks st + 2)"

lemma turn_toI:
  fixes st1 :: server and lenv :: loop_env and env :: col_env
  assumes v: "in_service fr (stop # ts) st" "\<not> due now stop" "good_sets (f, s) st"
    and c: "le_clock lenv (mp_ticks st) = now" "le_clock lenv (mp_ticks st + 1) = now"
    and n: "n \<in> set (mp_pnodes st)" "pn_fd n = fd" "pn_func n = Some cb" "and (pn_mask n) MPOLL_IN \<noteq> 0"
    and st1: "on_fd (col_callbacks (le_clock lenv) env) cb fd MPOLL_IN (st\<lparr>mp_fdsetupdate := 0, mp_tnow := now, mp_ticks := mp_ticks st + 1\<rparr>) = Returned st1"
      "same_loop (st\<lparr>mp_fdsetupdate := 0, mp_tnow := now, mp_ticks := mp_ticks st + 1\<rparr>) st1" "fds_fit (mp_pnodes st1)"
  shows "\<exists>f' s' st'. turn_to (col_callbacks (le_clock lenv) env) lenv fr (stop # ts) fd (f, s, st) (f', s', st') \<and>
    mp_pnodes st' = mp_pnodes st1 \<and> mp_user st' = mp_user st1"
proof -
  have "(10 :: int) \<noteq> 0" by simp
  from service_turn [OF v(1-3) this c n st1] obtain sets' where s: "\<forall>answers. loop_turns (col_callbacks (le_clock lenv) env) lenv 10 fr (only fd # answers) (f, s) st =
      loop_turns (col_callbacks (le_clock lenv) env) lenv 10 fr answers sets' (st1\<lparr>mp_tnow := now, mp_ticks := mp_ticks st + 2\<rparr>)"
    "good_sets sets' (st1\<lparr>mp_tnow := now, mp_ticks := mp_ticks st + 2\<rparr>)" "in_service fr (stop # ts) (st1\<lparr>mp_tnow := now, mp_ticks := mp_ticks st + 2\<rparr>)"
    by blast
  then show ?thesis
    by (intro exI [of _ "fst sets'"] exI [of _ "snd sets'"] exI [of _ "st1\<lparr>mp_tnow := now, mp_ticks := mp_ticks st + 2\<rparr>"])
      (simp add: turn_to_def)
qed

lemma accept_turn:
  fixes lenv :: loop_env and env :: col_env
  assumes v: "in_service fr (stop # ts) st" "\<not> due now stop" "good_sets (f, s) st"
    and c: "le_clock lenv (mp_ticks st) = now" "le_clock lenv (mp_ticks st + 1) = now"
    and n: "n \<in> set (mp_pnodes st)" "pn_fd n = lfd" "pn_func n = Some Tcp_accept" "and (pn_mask n) MPOLL_IN \<noteq> 0"
    and a: "cw_accepts (mp_user st) lfd = Accepted peer True True True # as" "fd = free_fd (mp_user st)" "fd < FD_SETSIZE" "k = cw_next (mp_user st)"
  shows "\<exists>f' s' st' i reuse. turn_to (col_callbacks (le_clock lenv) env) lenv fr (stop # ts) lfd (f, s, st) (f', s', st') \<and>
    mp_pnodes st' = \<lparr>pn_id = i, pn_reuse = reuse, pn_fd = fd, pn_mask = MPOLL_IN, pn_func = Some (Tcp_client k)\<rparr> # mp_pnodes st \<and>
    mp_user st' = (mp_user st)\<lparr>cw_accepts := (cw_accepts (mp_user st))(lfd := as),
      cw_conns := (cw_conns (mp_user st))(k \<mapsto> \<lparr>tc_sources = [], tc_details = IPFIX_INPUT_IPCON peer\<rparr>), cw_next := k + 1, cw_open := fd # cw_open (mp_user st)\<rparr>"
proof -
  let ?t = "st\<lparr>mp_fdsetupdate := 0, mp_tnow := now, mp_ticks := mp_ticks st + 1\<rparr>"
  obtain st1 i reuse where st1: "tcp_accept_cb lfd ?t = Returned st1" "same_loop ?t st1"
    "mp_pnodes st1 = \<lparr>pn_id = i, pn_reuse = reuse, pn_fd = fd, pn_mask = MPOLL_IN, pn_func = Some (Tcp_client k)\<rparr> # mp_pnodes st"
    "mp_user st1 = (mp_user st)\<lparr>cw_accepts := (cw_accepts (mp_user st))(lfd := as),
      cw_conns := (cw_conns (mp_user st))(k \<mapsto> \<lparr>tc_sources = [], tc_details = IPFIX_INPUT_IPCON peer\<rparr>), cw_next := k + 1, cw_open := fd # cw_open (mp_user st)\<rparr>"
    using accept_step [of ?t lfd peer as fd k] a by auto
  have "fds_fit (mp_pnodes st1)" using v(1) a(2,3) free_fd_fresh(1) [of "mp_user st"] by (simp add: st1(3) fds_fit_def in_service_def)
  then show ?thesis using turn_toI [OF v c n _ st1(2), of env] st1 by (fastforce simp: col_callbacks_def)
qed

lemma client_turn:
  fixes lenv :: loop_env and env :: col_env
  assumes v: "in_service fr (stop # ts) st" "\<not> due now stop" "good_sets (f, s) st"
    and c: "le_clock lenv (mp_ticks st) = now" "le_clock lenv (mp_ticks st + 1) = now"
    and n: "n \<in> set (mp_pnodes st)" "pn_fd n = fd" "pn_func n = Some (Tcp_client k)" "and (pn_mask n) MPOLL_IN \<noteq> 0"
    and a: "cw_conns (mp_user st) k = Some \<lparr>tc_sources = ss, tc_details = input\<rparr>"
      "process_client_tcp (env\<lparr>ce_now := tv_sec now\<rparr>) input ss (cw_streams (mp_user st) fd) (cw_log (mp_user st)) = Returned (Some ss', stream, log)"
  shows "\<exists>f' s' st'. turn_to (col_callbacks (le_clock lenv) env) lenv fr (stop # ts) fd (f, s, st) (f', s', st') \<and> mp_pnodes st' = mp_pnodes st \<and>
    mp_user st' = (mp_user st)\<lparr>cw_streams := (cw_streams (mp_user st))(fd := stream), cw_log := log,
      cw_conns := (cw_conns (mp_user st))(k \<mapsto> \<lparr>tc_sources = ss', tc_details = input\<rparr>)\<rparr>"
proof -
  let ?t = "st\<lparr>mp_fdsetupdate := 0, mp_tnow := now, mp_ticks := mp_ticks st + 1\<rparr>"
  let ?st1 = "world (\<lambda>w. w\<lparr>cw_streams := (cw_streams w)(fd := stream), cw_log := log, cw_conns := (cw_conns w)(k \<mapsto> \<lparr>tc_sources = ss', tc_details = input\<rparr>)\<rparr>) ?t"
  have "at_time (le_clock lenv) env ?t = env\<lparr>ce_now := tv_sec now\<rparr>" using c(2) by (simp add: at_time_def)
  then have "tcp_client_cb (le_clock lenv) env k fd ?t = Returned ?st1"
    using client_step [of ?t k "\<lparr>tc_sources = ss, tc_details = input\<rparr>" "le_clock lenv" env fd ss' stream log] a by simp
  moreover have "same_loop ?t ?st1" "fds_fit (mp_pnodes ?st1)" using v(1) by (simp_all add: same_loop_def in_service_def)
  ultimately show ?thesis using turn_toI [OF v c n, of env ?st1] by (fastforce simp: col_callbacks_def)
qed

lemma end_turn:
  fixes lenv :: loop_env and env :: col_env
  assumes v: "in_service fr (stop # ts) st" "\<not> due now stop" "good_sets (f, s) st"
    and c: "le_clock lenv (mp_ticks st) = now" "le_clock lenv (mp_ticks st + 1) = now"
    and n: "n \<in> set (mp_pnodes st)" "pn_fd n = fd" "pn_func n = Some (Tcp_client k)" "and (pn_mask n) MPOLL_IN \<noteq> 0"
    and a: "cw_conns (mp_user st) k = Some conn" "cw_streams (mp_user st) fd = []"
  shows "\<exists>f' s' st'. turn_to (col_callbacks (le_clock lenv) env) lenv fr (stop # ts) fd (f, s, st) (f', s', st') \<and>
    mp_pnodes st' = filter (\<lambda>n. pn_fd n \<noteq> fd) (mp_pnodes st) \<and> cw_log (mp_user st') = cw_log (mp_user st) \<and>
    cw_conns (mp_user st') = (cw_conns (mp_user st))(k := None) \<and> cw_open (mp_user st') = removeAll fd (cw_open (mp_user st))"
proof -
  let ?t = "st\<lparr>mp_fdsetupdate := 0, mp_tnow := now, mp_ticks := mp_ticks st + 1\<rparr>"
  let ?a = "world (\<lambda>w. w\<lparr>cw_streams := (cw_streams w)(fd := [])\<rparr>) ?t"
  let ?st1 = "world (\<lambda>w. w\<lparr>cw_conns := (cw_conns w)(k := None)\<rparr>) (ipfix_col_close fd ?a)"
  have d: "distinct (map pn_fd (mp_pnodes ?a))" using v(1) by (simp add: in_service_def server_wf_def)
  have "tcp_client_cb (le_clock lenv) env k fd ?t = Returned ?st1" by (rule client_end) (use a in simp_all)
  moreover have "same_loop ?t ?st1" using fdrm_loop [of ?a fd] by (simp add: same_loop_def ipfix_col_close_def)
  moreover have p: "mp_pnodes ?st1 = filter (\<lambda>n. pn_fd n \<noteq> fd) (mp_pnodes st)"
    "mp_user ?st1 = (mp_user st)\<lparr>cw_streams := (cw_streams (mp_user st))(fd := []), cw_open := removeAll fd (cw_open (mp_user st)),
       cw_conns := (cw_conns (mp_user st))(k := None)\<rparr>"
    using fdrm_cases [OF d, of fd] by (simp_all add: ipfix_col_close_def)
  moreover have "fds_fit (mp_pnodes ?st1)" using v(1) unfolding p by (simp add: fds_fit_def in_service_def)
  ultimately obtain f' s' st' where "turn_to (col_callbacks (le_clock lenv) env) lenv fr (stop # ts) fd (f, s, st) (f', s', st')"
    "mp_pnodes st' = mp_pnodes ?st1" "mp_user st' = mp_user ?st1"
    using turn_toI [OF v c n, of env ?st1] by (fastforce simp: col_callbacks_def)
  then show ?thesis unfolding p by (intro exI conjI) (assumption, simp_all)
qed
lemma turn_toD:
  "turn_to cbs lenv fr ts fd (f, s, st) (f', s', st') \<Longrightarrow>
    loop_turns cbs lenv 10 fr (only fd # answers) (f, s) st = loop_turns cbs lenv 10 fr answers (f', s') st' \<and>
    good_sets (f', s') st' \<and> in_service fr ts st' \<and> mp_ticks st' = mp_ticks st + 2"
  by (simp add: turn_to_def)

lemma connection_served:
  fixes lenv :: loop_env and env :: col_env
  defines "cbs \<equiv> col_callbacks (le_clock lenv) env"
  assumes i: "idle_server lenv now past lfd peer st" and m: "cw_streams (mp_user st) (free_fd (mp_user st)) = m1 @ m2"
    and p: "process_client_tcp (env\<lparr>ce_now := tv_sec now\<rparr>) (IPFIX_INPUT_IPCON peer) [] (m1 @ m2) [] = Returned (Some ss1, m2, [])"
      "process_client_tcp (env\<lparr>ce_now := tv_sec now\<rparr>) (IPFIX_INPUT_IPCON peer) ss1 m2 [] = Returned (Some ss2, [], log)"
  shows "\<exists>st'. mpoll_loop cbs lenv True [only lfd, only (free_fd (mp_user st)), only (free_fd (mp_user st)), only (free_fd (mp_user st)), nothing] 10 st =
      Returned (0, st') \<and> cw_log (mp_user st') = log \<and> cw_conns (mp_user st') = cw_conns (mp_user st) \<and>
      cw_open (mp_user st') = cw_open (mp_user st) \<and> mp_pnodes st' = mp_pnodes st \<and> mp_timers st' = mp_timers st"
proof -
  let ?w = "mp_user st" and ?T = "mp_ticks st" and ?fr = "mp_next st" and ?P = "mp_pnodes st" and ?ts = "mp_timers st"
  let ?fd = "free_fd ?w" and ?k = "cw_next ?w" and ?x = "now\<lparr>tv_sec := tv_sec now + 10\<rparr>" and ?in = "IPFIX_INPUT_IPCON peer"
  let ?stop = "\<lparr>mt_id = ?fr + 1, mt_expiration = ?x, mt_callback = Stop_loop ?fr\<rparr>" and ?none = "\<lparr>fs_in = [], fs_out = [], fs_except = []\<rparr> :: fd_sets"
  have idle: "server_wf st" "fds_fit ?P" "?fd < FD_SETSIZE" "cw_log ?w = []" "mp_tnow st = now"
    "\<forall>t \<in> set ?ts. later (mt_expiration t) ?x" "\<forall>t \<in> set ?ts. \<not> due past t" "later past ?x" "le_fuel lenv \<noteq> 0"
    "\<And>i. i < 8 \<Longrightarrow> le_clock lenv (?T + i) = now" "le_clock lenv (?T + 8) = past" "le_clock lenv (?T + 9) = past"
    using i by (simp_all add: idle_server_def)
  obtain n as where n: "n \<in> set ?P" "pn_fd n = lfd" "pn_func n = Some Tcp_accept" "and (pn_mask n) MPOLL_IN \<noteq> 0"
    and as: "cw_accepts ?w lfd = Accepted peer True True True # as" using i by (auto simp: idle_server_def)
  have fresh: "?k \<notin> dom (cw_conns ?w)" "?fd \<notin> set (cw_open ?w)" "?fd \<notin> pn_fd ` set ?P"
    using idle(1) free_fd_fresh [of ?w] by (auto simp: server_wf_def)
  have stop: "\<not> due now ?stop" "due past ?stop" using idle(8) by (simp_all add: due_def later_def)
  define s0 where "s0 = st\<lparr>mp_fdsetupdate := 1, mp_breakflag := False, mp_frames := (mp_frames st)(?fr \<mapsto> False), mp_timers := ?stop # ?ts, mp_next := ?fr + 2\<rparr>"
  have "server_wf s0" by (rule same_books_wf [OF _ idle(1)]) (simp add: same_books_def s0_def)
  then have v0: "in_service ?fr (?stop # ?ts) s0" "good_sets (0, ?none) s0" "mp_ticks s0 = ?T" "mp_pnodes s0 = ?P" "mp_user s0 = ?w"
    using idle(2) by (simp_all add: in_service_def good_sets_def s0_def)
  have clk: "le_clock lenv ?T = now" "le_clock lenv (?T + 1) = now" "le_clock lenv (?T + 2) = now" "le_clock lenv (?T + 2 + 1) = now"
    "le_clock lenv (?T + 4) = now" "le_clock lenv (?T + 4 + 1) = now" "le_clock lenv (?T + 6) = now" "le_clock lenv (?T + 6 + 1) = now"
    using idle(10) [of 0] idle(10) [of 1] idle(10) [of 2] idle(10) [of 3] idle(10) [of 4] idle(10) [of 5] idle(10) [of 6] idle(10) [of 7]
    by (simp_all add: eval_nat_numeral)
  obtain f1 b1 s1 i reuse where s1: "turn_to cbs lenv ?fr (?stop # ?ts) lfd (0, ?none, s0) (f1, b1, s1)"
    "mp_pnodes s1 = \<lparr>pn_id = i, pn_reuse = reuse, pn_fd = ?fd, pn_mask = MPOLL_IN, pn_func = Some (Tcp_client ?k)\<rparr> # ?P"
    "mp_user s1 = ?w\<lparr>cw_accepts := (cw_accepts ?w)(lfd := as), cw_conns := (cw_conns ?w)(?k \<mapsto> \<lparr>tc_sources = [], tc_details = ?in\<rparr>),
      cw_next := ?k + 1, cw_open := ?fd # cw_open ?w\<rparr>"
    using accept_turn [OF v0(1) stop(1) v0(2), unfolded v0(3-5), OF clk(1,2) n as refl idle(3) refl, of env] unfolding cbs_def by blast
  note t1 = turn_toD [OF s1(1), unfolded v0(3)]
  define n1 where "n1 = \<lparr>pn_id = i, pn_reuse = reuse, pn_fd = ?fd, pn_mask = MPOLL_IN, pn_func = Some (Tcp_client ?k)\<rparr>"
  have n1: "n1 \<in> set (n1 # ?P)" "pn_fd n1 = ?fd" "pn_func n1 = Some (Tcp_client ?k)" "and (pn_mask n1) MPOLL_IN \<noteq> 0"
    by (simp_all add: n1_def MPOLL_IN_def)
  note s1n = s1(2) [folded n1_def]
  obtain f2 b2 s2 where s2: "turn_to cbs lenv ?fr (?stop # ?ts) ?fd (f1, b1, s1) (f2, b2, s2)" "mp_pnodes s2 = n1 # ?P"
    "mp_user s2 = (mp_user s1)\<lparr>cw_streams := (cw_streams (mp_user s1))(?fd := m2), cw_log := [],
      cw_conns := (cw_conns (mp_user s1))(?k \<mapsto> \<lparr>tc_sources = ss1, tc_details = ?in\<rparr>)\<rparr>"
    using client_turn [where st = s1 and n = n1 and k = ?k and ss = "[]" and input = ?in and env = env and ss' = ss1 and stream = m2 and log = "[]",
        OF conjunct1 [OF conjunct2 [OF conjunct2 [OF t1]]] stop(1) conjunct1 [OF conjunct2 [OF t1]]] t1 clk(3,4) n1 p(1) m idle(4)
    by (fastforce simp: s1n s1(3) cbs_def)
  note t2 = turn_toD [OF s2(1)]
  have T2: "mp_ticks s2 = ?T + 4" using t1 t2 by simp
  obtain f3 b3 s3 where s3: "turn_to cbs lenv ?fr (?stop # ?ts) ?fd (f2, b2, s2) (f3, b3, s3)" "mp_pnodes s3 = n1 # ?P"
    "mp_user s3 = (mp_user s2)\<lparr>cw_streams := (cw_streams (mp_user s2))(?fd := []), cw_log := log,
      cw_conns := (cw_conns (mp_user s2))(?k \<mapsto> \<lparr>tc_sources = ss2, tc_details = ?in\<rparr>)\<rparr>"
    using client_turn [where st = s2 and n = n1 and k = ?k and ss = ss1 and input = ?in and env = env and ss' = ss2 and stream = "[]" and log = log,
        OF conjunct1 [OF conjunct2 [OF conjunct2 [OF t2]]] stop(1) conjunct1 [OF conjunct2 [OF t2]]] T2 clk(5,6) n1 p(2)
    by (fastforce simp: s2(2,3) cbs_def)
  note t3 = turn_toD [OF s3(1)]
  have T3: "mp_ticks s3 = ?T + 6" using t3 T2 by simp
  obtain f4 b4 s4 where s4: "turn_to cbs lenv ?fr (?stop # ?ts) ?fd (f3, b3, s3) (f4, b4, s4)" "mp_pnodes s4 = filter (\<lambda>n. pn_fd n \<noteq> ?fd) (n1 # ?P)"
    "cw_log (mp_user s4) = log" "cw_conns (mp_user s4) = (cw_conns (mp_user s3))(?k := None)" "cw_open (mp_user s4) = removeAll ?fd (cw_open (mp_user s3))"
    using end_turn [where st = s3 and n = n1 and k = ?k and env = env,
        OF conjunct1 [OF conjunct2 [OF conjunct2 [OF t3]]] stop(1) conjunct1 [OF conjunct2 [OF t3]]] T3 clk(7,8) n1
    by (fastforce simp: s3(2,3) cbs_def)
  note t4 = turn_toD [OF s4(1)]
  have T4: "mp_ticks s4 = ?T + 8" using t4 T3 by simp
  have "loop_turns cbs lenv 10 ?fr [nothing] (f4, b4) s4 =
      Returned (s4\<lparr>mp_fdsetupdate := 0, mp_tnow := past, mp_ticks := mp_ticks s4 + 2, mp_timers := ?ts, mp_frames := (mp_frames s4)(?fr \<mapsto> True)\<rparr>)"
    by (rule last_turn [where stop = ?stop]) (use t4 T4 stop idle(7,9,11,12) in \<open>simp_all add: ac_simps\<close>)
  then have "mpoll_loop cbs lenv True [only lfd, only ?fd, only ?fd, only ?fd, nothing] 10 st = Returned (0, s4\<lparr>mp_fdsetupdate := 0, mp_tnow := past,
      mp_ticks := mp_ticks s4 + 2, mp_timers := ?ts, mp_frames := ((mp_frames s4)(?fr \<mapsto> True))(?fr := None)\<rparr>)"
    unfolding loop_start [OF idle(6,5) refl] s0_def [symmetric] using t1 t2 t3 t4 by simp
  moreover have "mp_pnodes s4 = ?P" using fresh(3) n1(2) by (simp add: s4(2)) (metis (mono_tags, lifting) filter_True image_eqI)
  moreover have "cw_conns (mp_user s4) = cw_conns ?w" using fresh(1) by (auto simp: s4(4) s3(3) s2(3) s1(3))
  moreover have "cw_open (mp_user s4) = cw_open ?w" using fresh(2) by (simp add: s4(5) s3(3) s2(3) s1(3))
  ultimately show ?thesis using s4(3) by auto
qed
text \<open>C6. A session of the exporter is served by the event loop. A server waits for connections; an exporter connects, exports
  records under a new template over TCP, and closes. Within the five turns of the loop the server accepts the connection, reads the two messages,
  hands the exporters of the collector just the records that were exported, in order, and closes the connection, after which
  its descriptors, connections and timers are those before it.\<close>

theorem session_served:
  fixes lenv :: loop_env and cenv :: col_env
  assumes "session h c t i col templ host (Suc (Suc b)) sent st" "te_tsend templ = 0"
    "ms_offset (cl_message col) = 0" "buffer_holds i (te_tid templ) []" "full_write env" "ie_now env \<noteq> 0"
    "wire_ok (ce_fields cenv) templ" "ce_exporters cenv = [record_exporter]" "ce_host cenv = host" "host_ok host"
    "vss \<noteq> []" "\<forall>vs \<in> set vss. list_all2 value_ok (templ_fields templ) vs \<and> 4 < length (the_record host (templ_fields templ) vs)"
    "4 + length (concat (map (the_record host (templ_fields templ)) vss)) \<le> IPFIX_DEFAULT_BUFLEN"
    and srv: "idle_server lenv now past lfd peer srv" "fd = free_fd (mp_user srv)"
  shows "\<exists>st1 st2 m1 m2 srv'. export_records env h t vss st = Returned (0, st1) \<and> ipfix_export_flush env h st1 = Returned (0, st2) \<and>
    gs_sent st2 = sent @ [(c, m1), (c, m2)] \<and>
    mpoll_loop (col_callbacks (le_clock lenv) cenv) lenv True [only lfd, only fd, only fd, only fd, nothing] 10
      (world (\<lambda>w. w\<lparr>cw_streams := (cw_streams w)(fd := m1 @ m2)\<rparr>) srv) = Returned (0, srv') \<and>
    cw_log (mp_user srv') = map (\<lambda>vs. (0, Ev_record (te_tid templ) vs)) vss \<and> cw_conns (mp_user srv') = cw_conns (mp_user srv) \<and>
    cw_open (mp_user srv') = cw_open (mp_user srv) \<and> mp_pnodes srv' = mp_pnodes srv \<and> mp_timers srv' = mp_timers srv"
proof -
  let ?e = "cenv\<lparr>ce_now := tv_sec now\<rparr>"
  obtain st1 st2 m1 m2 ss1 ss2 where s: "export_records env h t vss st = Returned (0, st1)" "ipfix_export_flush env h st1 = Returned (0, st2)"
    "gs_sent st2 = sent @ [(c, m1), (c, m2)]" "process_client_tcp ?e (IPFIX_INPUT_IPCON peer) [] (m1 @ m2) [] = Returned (Some ss1, m2, [])"
    "process_client_tcp ?e (IPFIX_INPUT_IPCON peer) ss1 m2 [] = Returned (Some ss2, [], map (\<lambda>vs. (0, Ev_record (te_tid templ) vs)) vss)"
    using session_collected [OF assms(1-6), of ?e vss "IPFIX_INPUT_IPCON peer"] assms(7-13) by auto
  let ?srv = "world (\<lambda>w. w\<lparr>cw_streams := (cw_streams w)(fd := m1 @ m2)\<rparr>) srv"
  have "same_books srv ?srv" using srv(1) server_wf_update [of srv] by (simp add: idle_server_def same_books_def)
  then have "idle_server lenv now past lfd peer ?srv" "free_fd (mp_user ?srv) = fd"
    using srv same_books_wf [of srv ?srv] by (simp_all add: idle_server_def free_fd_def)
  then show ?thesis using connection_served [of lenv now past lfd peer ?srv m1 m2 cenv ss1 ss2] s by fastforce
qed

text \<open>A server that listens on descriptor 3, and its clock.\<close>

definition example_world :: col_world where
  "example_world = \<lparr>cw_conns = Map.empty, cw_next = 0, cw_udp = [], cw_assocs = [], cw_mt = Some 17, cw_log = [], cw_cleaned = [], cw_open = [3], cw_other = [0, 1, 2],
     cw_accepts = (\<lambda>_. [Accepted [192, 0, 2, 1] True True True]), cw_streams = (\<lambda>_. []), cw_datagrams = (\<lambda>_. []), cw_events = (\<lambda>_. []),
     cw_ssl = Map.empty, cw_ssl_nodes = Map.empty, cw_ssl_objects = 0, cw_ssl_accepts = (\<lambda>_. [])\<rparr>"

definition example_clock :: clock where
  "example_clock i = (if i < 8 then \<lparr>tv_sec = 100, tv_usec = 0\<rparr> else \<lparr>tv_sec = 111, tv_usec = 0\<rparr>)"

definition example_server :: server where
  "example_server = \<lparr>mp_tnow = \<lparr>tv_sec = 100, tv_usec = 0\<rparr>,
     mp_timers = [\<lparr>mt_id = 17, mt_expiration = \<lparr>tv_sec = 130, tv_usec = 0\<rparr>, mt_callback = Call Maintenance\<rparr>],
     mp_freelist = [], mp_pnodes = [\<lparr>pn_id = 15, pn_reuse = True, pn_fd = 3, pn_mask = MPOLL_IN, pn_func = Some Tcp_accept\<rparr>],
     mp_used = 1, mp_fdsetupdate = 1, mp_breakflag = False, mp_frames = Map.empty, mp_next = 18, mp_ticks = 0, mp_user = example_world\<rparr>"

lemma example_fd: "free_fd example_world = 4"
  by (simp add: free_fd_def example_world_def upto_rec1)

lemma example_idle: "idle_server \<lparr>le_clock = example_clock, le_fuel = 2\<rparr> \<lparr>tv_sec = 100, tv_usec = 0\<rparr> \<lparr>tv_sec = 111, tv_usec = 0\<rparr> 3 [192, 0, 2, 1] example_server"
proof -
  have "server_wf example_server"
    by (simp add: server_wf_def example_server_def example_world_def plain_cb_def)
  moreover have "free_fd (mp_user example_server) = 4" by (simp add: example_server_def example_fd)
  ultimately show ?thesis
    by (simp add: idle_server_def) (simp add: example_server_def example_world_def fds_fit_def FD_SETSIZE_def example_clock_def MPOLL_IN_def due_def later_def)
qed

theorem session_served_witness:
  "\<exists>st1 st2 m1 m2 srv'. export_records example_env 0 2 [example_record] example_st = Returned (0, st1) \<and>
    ipfix_export_flush example_env 0 st1 = Returned (0, st2) \<and> gs_sent st2 = [(1, m1), (1, m2)] \<and>
    mpoll_loop (col_callbacks example_clock example_cenv) \<lparr>le_clock = example_clock, le_fuel = 2\<rparr> True [only 3, only 4, only 4, only 4, nothing] 10
      (world (\<lambda>w. w\<lparr>cw_streams := (cw_streams w)(4 := m1 @ m2)\<rparr>) example_server) = Returned (0, srv') \<and>
    cw_log (mp_user srv') = [(0, Ev_record 256 example_record)] \<and> cw_conns (mp_user srv') = Map.empty \<and> cw_open (mp_user srv') = [3]"
proof -
  have "te_tsend example_template = 0" "ms_offset (cl_message example_col) = 0" "buffer_holds example_ifh (te_tid example_template) []"
    "full_write example_env" "ie_now example_env \<noteq> 0" "ce_exporters example_cenv = [record_exporter]"
    "ce_host example_cenv = example_host" "host_ok example_host" "te_tid example_template = 256"
    by (simp_all add: example_template_def example_col_def new_collector_def example_ifh_def new_handle_def buffer_holds_def full_write_def
        example_env_def example_cenv_def example_host_def host_ok_def)
  moreover have "cw_conns (mp_user example_server) = Map.empty" "cw_open (mp_user example_server) = [3]" "4 = free_fd (mp_user example_server)"
    using example_fd by (simp_all add: example_server_def example_world_def)
  ultimately show ?thesis
    using session_served [OF example_session _ _ _ _ _ example_wire _ _ _ _ _ _ example_idle, of example_env "[example_record]" 4]
      example_record_ok
    by (simp add: IPFIX_DEFAULT_BUFLEN_def) blast
qed
section \<open>Listening\<close>

lemma register_nodes:
  "col_register cb mems socks st = (ok, st') \<Longrightarrow> mp_user st' = mp_user st \<and> mp_timers st' = mp_timers st \<and> mp_fdsetupdate st \<le> mp_fdsetupdate st' \<and>
    (\<exists>new. mp_pnodes st' = new @ mp_pnodes st \<and> map pn_fd new = rev (take (length new) socks) \<and> (\<forall>n \<in> set new. pn_func n = Some cb) \<and>
      (ok \<longrightarrow> length new = length socks))"
proof (induction socks arbitrary: mems st)
  case (Cons s socks)
  obtain r st1 where f: "mpoll_fdadd (hd mems) s MPOLL_IN (Some cb) st = (r, st1)" by fastforce
  note c = fdadd_cases [OF f]
  show ?case
  proof (cases "r < 0")
    case True
    then show ?thesis using Cons.prems c by (intro conjI exI [of _ "[]"]) (auto simp: f)
  next
    case False
    then have "col_register cb (tl mems) socks st1 = (ok, st')" using Cons.prems by (simp add: f)
    from Cons.IH [OF this] obtain new where new: "mp_user st' = mp_user st1" "mp_timers st' = mp_timers st1" "mp_fdsetupdate st1 \<le> mp_fdsetupdate st'"
      "mp_pnodes st' = new @ mp_pnodes st1" "map pn_fd new = rev (take (length new) socks)" "\<forall>n \<in> set new. pn_func n = Some cb" "ok \<longrightarrow> length new = length socks" by blast
    obtain k reuse where "mp_pnodes st1 = \<lparr>pn_id = k, pn_reuse = reuse, pn_fd = s, pn_mask = MPOLL_IN, pn_func = Some cb\<rparr> # mp_pnodes st" using c False by auto
    then show ?thesis using new c False
      by (intro conjI exI [of _ "new @ [\<lparr>pn_id = k, pn_reuse = reuse, pn_fd = s, pn_mask = MPOLL_IN, pn_func = Some cb\<rparr>]"]) auto
  qed
qed auto

lemma close_all:
  "distinct (map pn_fd (mp_pnodes st)) \<Longrightarrow>
    mp_pnodes (foldl (\<lambda>st s. ipfix_col_close s st) st socks) = filter (\<lambda>n. pn_fd n \<notin> set socks) (mp_pnodes st) \<and>
    mp_user (foldl (\<lambda>st s. ipfix_col_close s st) st socks) = (mp_user st)\<lparr>cw_open := filter (\<lambda>fd. fd \<notin> set socks) (cw_open (mp_user st))\<rparr> \<and>
    mp_fdsetupdate st \<le> mp_fdsetupdate (foldl (\<lambda>st s. ipfix_col_close s st) st socks)"
proof (induction socks arbitrary: st)
  case (Cons s socks)
  let ?st = "ipfix_col_close s st"
  have c: "mp_pnodes ?st = filter (\<lambda>n. pn_fd n \<noteq> s) (mp_pnodes st)" "mp_user ?st = (mp_user st)\<lparr>cw_open := removeAll s (cw_open (mp_user st))\<rparr>"
    "mp_fdsetupdate ?st = mp_fdsetupdate st + 1"
    using fdrm_cases [OF Cons.prems, of s] by (simp_all add: ipfix_col_close_def)
  have "distinct (map pn_fd (mp_pnodes ?st))" using Cons.prems by (simp add: c distinct_map_filter)
  moreover have "(\<lambda>fd. s \<noteq> fd \<and> fd \<notin> set socks) = (\<lambda>fd. fd \<noteq> s \<and> fd \<notin> set socks)" by auto
  ultimately show ?case using Cons.IH [of ?st] by (simp add: c removeAll_filter_not_eq)
qed simp

lemma blocks_append: "blocks_of (as @ bs) = blocks_of as @ blocks_of bs"
  by (induction as) (auto split: option.splits col_cb.splits)

lemma listen_books:
  assumes "server_wf st" "ipfix_col_listen cfg clock mem mems gai protocol maxcon st = Returned (r, st')"
    and "\<forall>socks. fst (ipfix_listen cfg mem gai protocol maxcon) = Some socks \<longrightarrow>
      distinct socks \<and> (\<forall>s \<in> set socks. 0 \<le> s) \<and> set socks \<inter> set (cw_open (mp_user st) @ cw_other (mp_user st)) = {}"
  shows "server_wf st' \<and> cw_open (mp_user st') = (case r of None \<Rightarrow> [] | Some socks \<Rightarrow> socks) @ cw_open (mp_user st) \<and>
    sockets_of (mp_pnodes st') = (case r of None \<Rightarrow> {} | Some socks \<Rightarrow> set socks \<times> {col_callback protocol}) \<union> sockets_of (mp_pnodes st)"
proof (cases "col_callback protocol = None \<or> fst (ipfix_listen cfg mem gai protocol maxcon) = None")
  case True
  then have "r = None \<and> st' = st" using assms(2) by (cases "ipfix_listen cfg mem gai protocol maxcon") (auto simp: ipfix_col_listen_def split: option.splits)
  then show ?thesis using assms(1) by simp
next
  case False
  then obtain cb socks closed where l: "col_callback protocol = Some cb" "ipfix_listen cfg mem gai protocol maxcon = (Some socks, closed)"
    by (cases "ipfix_listen cfg mem gai protocol maxcon") auto
  have socks: "distinct socks" "\<forall>s \<in> set socks. 0 \<le> s" "set socks \<inter> set (cw_open (mp_user st) @ cw_other (mp_user st)) = {}" using assms(3) l(2) by simp_all
  have cb: "plain_cb (Some cb)" "\<forall>k. cb \<noteq> Tcp_client k" using l(1) by (auto simp: col_callback_def plain_cb_def split: ipfix_proto.splits)
  let ?st = "world (\<lambda>w. w\<lparr>cw_open := socks @ cw_open w\<rparr>) st"
  obtain ok st1 where g: "col_register cb mems socks ?st = (ok, st1)" by fastforce
  obtain new where new: "mp_user st1 = mp_user ?st" "mp_fdsetupdate ?st \<le> mp_fdsetupdate st1" "mp_pnodes st1 = new @ mp_pnodes st"
    "map pn_fd new = rev (take (length new) socks)" "\<forall>n \<in> set new. pn_func n = Some cb" "ok \<longrightarrow> length new = length socks"
    using register_nodes [OF g] by auto
  have b: "blocks_of new = []" using new(5) cb(2) by (induction new) (auto split: option.splits col_cb.splits)
  have fds: "pn_fd ` set new \<subseteq> set socks" "distinct (map pn_fd new)" "pn_fd ` set (mp_pnodes st) = set (cw_open (mp_user st))"
  proof -
    have "pn_fd ` set new = set (take (length new) socks)" using arg_cong [OF new(4), of set] by simp
    then show "pn_fd ` set new \<subseteq> set socks" using set_take_subset [of "length new" socks] by simp
    show "distinct (map pn_fd new)" "pn_fd ` set (mp_pnodes st) = set (cw_open (mp_user st))"
      using socks(1) assms(1) by (simp_all add: new(4) server_wf_def)
  qed
  have d: "distinct (map pn_fd (mp_pnodes st1))" using assms(1) fds socks(3) by (auto simp: new(3) server_wf_def)
  show ?thesis
  proof (cases ok)
    case True
    have "pn_fd ` set new = set socks" using arg_cong [OF new(4), of set] new(6) True by simp
    moreover have "mp_pnodes st' = mp_pnodes st1 \<and> r = Some socks \<and> 0 \<le> mp_fdsetupdate st' \<and>
        cw_open (mp_user st') = socks @ cw_open (mp_user st) \<and> cw_other (mp_user st') = cw_other (mp_user st) \<and>
        cw_conns (mp_user st') = cw_conns (mp_user st) \<and> cw_next (mp_user st') = cw_next (mp_user st)"
      using assms(2) True new(1,2) server_wf_update [OF assms(1)]
      by (auto simp: ipfix_col_listen_def l g mpoll_timeradd_def mtimer_start_def add_timer_def mtimer_settime_def split: if_splits)
    moreover from calculation have "server_wf st'" using assms(1) socks d new(5) cb(1) b fds
      by (auto simp: server_wf_def new(3) blocks_append image_Un)
    moreover have "sockets_of new = pn_fd ` set new \<times> {Some cb}" using new(5) cb(2) by (force simp: sockets_of_def image_iff)
    ultimately show ?thesis by (simp add: new(3) l(1) sockets_append)
  next
    case False
    then have st': "r = None" "st' = foldl (\<lambda>st s. ipfix_col_close s st) st1 socks" using assms(2) by (simp_all add: ipfix_col_listen_def l g)
    have "filter (\<lambda>n. pn_fd n \<notin> set socks) new = []" using fds(1) by (auto simp: filter_empty_conv)
    moreover have "filter (\<lambda>n. pn_fd n \<notin> set socks) (mp_pnodes st) = mp_pnodes st"
      unfolding filter_id_conv using arg_cong [OF fds(3), of "\<lambda>A. A \<inter> set socks"] socks(3) by (auto simp: image_iff)
    ultimately have "filter (\<lambda>n. pn_fd n \<notin> set socks) (mp_pnodes st1) = mp_pnodes st" by (simp add: new(3))
    moreover have "filter (\<lambda>fd. fd \<notin> set socks) (socks @ cw_open (mp_user st)) = cw_open (mp_user st)" using socks(3) by (auto simp: filter_id_conv filter_empty_conv)
    ultimately have "same_books st st'" using close_all [OF d, of socks] server_wf_update [OF assms(1)] new(1,2) by (simp add: same_books_def st'(2))
    then show ?thesis using same_books_wf [OF _ assms(1)] st'(1) by (simp add: same_books_def)
  qed
qed

text \<open>Two sockets, of which the second cannot be bound, for the server that listens on descriptor 3.\<close>

definition two_answers :: "sock_answer list" where
  "two_answers = [\<lparr>sa_inet6 = False, sa_socket = 4, sa_reuse = True, sa_v6only = True, sa_bind = True, sa_listen = True\<rparr>,
     \<lparr>sa_inet6 = True, sa_socket = 5, sa_reuse = True, sa_v6only = True, sa_bind = False, sa_listen = True\<rparr>]"


definition two_turns :: clock where
  "two_turns i = \<lparr>tv_sec = if i < 2 then 100 else 111, tv_usec = 0\<rparr>"

theorem server_keeps_books_witness:
  "\<exists>st'. mpoll_loop (col_callbacks two_turns example_cenv) \<lparr>le_clock = two_turns, le_fuel = 2\<rparr> True [only 3, nothing] 10 example_server = Returned (0, st') \<and>
    server_wf st' \<and> cw_open (mp_user st') = [4, 3]"
proof -
  let ?lenv = "\<lparr>le_clock = two_turns, le_fuel = 2\<rparr>" and ?x = "\<lparr>tv_sec = 110, tv_usec = 0\<rparr>"
  let ?cbs = "col_callbacks (le_clock ?lenv) example_cenv" and ?none = "\<lparr>fs_in = [], fs_out = [], fs_except = []\<rparr> :: fd_sets"
  let ?stop = "\<lparr>mt_id = mp_next example_server + 1, mt_expiration = ?x, mt_callback = Stop_loop (mp_next example_server)\<rparr>"
  have wf: "server_wf example_server" using example_idle by (simp add: idle_server_def)
  have start: "\<forall>t \<in> set (mp_timers example_server). later (mt_expiration t) ?x" "mp_tnow example_server = \<lparr>tv_sec = 100, tv_usec = 0\<rparr>"
    "?x = \<lparr>tv_sec = 100, tv_usec = 0\<rparr>\<lparr>tv_sec := tv_sec \<lparr>tv_sec = 100, tv_usec = 0\<rparr> + 10\<rparr>"
    by (simp_all add: example_server_def later_def)
  define s0 where "s0 = example_server\<lparr>mp_fdsetupdate := 1, mp_breakflag := False, mp_frames := (mp_frames example_server)(mp_next example_server \<mapsto> False),
    mp_timers := ?stop # mp_timers example_server, mp_next := mp_next example_server + 2\<rparr>"
  have "server_wf s0" by (rule same_books_wf [OF _ wf]) (simp add: same_books_def s0_def)
  then have v: "in_service (mp_next example_server) (?stop # mp_timers example_server) s0" "good_sets (0, ?none) s0" "mp_ticks s0 = 0" "mp_user s0 = example_world"
    by (simp_all add: in_service_def good_sets_def s0_def) (simp_all add: example_server_def fds_fit_def FD_SETSIZE_def)
  obtain n where n: "n \<in> set (mp_pnodes s0)" "pn_fd n = 3" "pn_func n = Some Tcp_accept" "and (pn_mask n) MPOLL_IN \<noteq> 0"
    by (simp add: s0_def example_server_def MPOLL_IN_def)
  have now: "\<not> due \<lparr>tv_sec = 100, tv_usec = 0\<rparr> ?stop" "le_clock ?lenv (mp_ticks s0) = \<lparr>tv_sec = 100, tv_usec = 0\<rparr>"
    "le_clock ?lenv (mp_ticks s0 + 1) = \<lparr>tv_sec = 100, tv_usec = 0\<rparr>" by (simp_all add: due_def later_def v(3) two_turns_def)
  obtain f1 b1 s1 where s1: "turn_to ?cbs ?lenv (mp_next example_server) (?stop # mp_timers example_server) 3 (0, ?none, s0) (f1, b1, s1)"
    "cw_open (mp_user s1) = [4, 3]"
    using accept_turn [OF v(1) now(1) v(2) now(2,3) n, of "[192, 0, 2, 1]" "[]" 4 0 example_cenv] example_fd
    by (fastforce simp: v(4) example_world_def FD_SETSIZE_def)
  note t = turn_toD [OF s1(1), of "[nothing]"]
  have "loop_turns ?cbs ?lenv 10 (mp_next example_server) [nothing] (f1, b1) s1 = Returned (s1\<lparr>mp_fdsetupdate := 0, mp_tnow := \<lparr>tv_sec = 111, tv_usec = 0\<rparr>,
      mp_ticks := mp_ticks s1 + 2, mp_timers := mp_timers example_server, mp_frames := (mp_frames s1)(mp_next example_server \<mapsto> True)\<rparr>)"
    by (rule last_turn [where stop = ?stop]) (use t v(3) in \<open>auto simp: due_def later_def example_server_def two_turns_def\<close>)
  then have "\<exists>st'. mpoll_loop ?cbs ?lenv True [only 3, nothing] 10 example_server = Returned (0, st') \<and> cw_open (mp_user st') = [4, 3]"
    unfolding loop_start [OF start] s0_def [symmetric] using t s1(2) by simp
  then obtain st' where r: "mpoll_loop ?cbs ?lenv True [only 3, nothing] 10 example_server = Returned (0, st')" "cw_open (mp_user st') = [4, 3]" by blast
  show ?thesis using server_keeps_books [OF wf r(1)] r by auto
qed

section \<open>What goes wrong\<close>

text \<open>When a connection over SSL ends its descriptor stays open, and is not watched any more.\<close>

lemma ssl_descriptor_left:
  assumes "cw_ssl (mp_user st) k = Some \<lparr>sc_ssl = True, sc_sources = ss, sc_details = Some input\<rparr>" "cw_streams (mp_user st) fd = []"
    "distinct (map pn_fd (mp_pnodes st))" "fd \<in> set (cw_open (mp_user st))"
  shows "\<exists>st'. process_client_ssl clock env k fd st = Returned st' \<and> fd \<in> set (cw_open (mp_user st')) \<and> fd \<notin> pn_fd ` set (mp_pnodes st')"
  using assms fdrm_cases [of "world (\<lambda>w. w\<lparr>cw_streams := (cw_streams w)(fd := []), cw_log := cw_log w\<rparr>) st" fd]
  by (auto simp: process_client_ssl_def process_client_tcp_def readn_def IPFIX_HDR_BYTES_NF9_def Let_def)

text \<open>A peer whose handshake fails leaves an object of the library that is never freed.\<close>

lemma ssl_object_left:
  assumes "cw_ssl_accepts (mp_user st) fd = Some a # as" "st_mem a" "st_details a" "st_bio a" "st_ssl a" "\<not> st_accept a"
  shows "\<exists>st'. accept_client_ssl_cb col fd st = Returned st' \<and> cw_ssl_objects (mp_user st') = cw_ssl_objects (mp_user st) + 1 \<and> mp_pnodes st' = mp_pnodes st"
  using assms by (simp add: accept_client_ssl_cb_def new_ipfix_input_def Let_def)

text \<open>When the certificates cannot be loaded, or no socket can be made, variables are freed that were never set.\<close>

lemma ssl_error_path:
  "ipfix_col_listen_ssl cfg True False mem mems gai IPFIX_PROTO_TCP maxcon st = Undefined ''variable that was never set''"
  "maxcon < 1 \<Longrightarrow> ipfix_col_listen_ssl cfg True True mem mems gai IPFIX_PROTO_TCP maxcon st = Undefined ''variable that was never set''"
  by (simp_all add: ipfix_col_listen_ssl_def ipfix_listen_def)

text \<open>A server for SSL that was set up cannot be closed: its list of nodes has no end.\<close>

lemma ssl_close_undefined:
  assumes "ipfix_col_listen_ssl cfg args setup mem mems gai protocol maxcon st = Returned (Some h, st')"
    and "\<forall>k \<in> set (sh_nodes h). cw_ssl_nodes (mp_user st2) k \<noteq> None" "distinct (sh_nodes h)"
  shows "ipfix_col_close_ssl (Some h) st2 = Undefined ''pointer that was never set''"
proof -
  have "\<not> sh_ended h" using assms(1) by (auto simp: ipfix_col_listen_ssl_def Let_def split: if_splits option.splits prod.splits)
  moreover have "ssl_free_nodes False ns st2 = Undefined ''pointer that was never set''"
    if "\<forall>k \<in> set ns. cw_ssl_nodes (mp_user st2) k \<noteq> None" "distinct ns" for ns and st2 :: server
    using that
  proof (induction ns arbitrary: st2)
    case (Cons n ns)
    then obtain scons where n: "cw_ssl_nodes (mp_user st2) n = Some scons" by auto
    let ?st = "world (\<lambda>w. (ssl_free_node scons w)\<lparr>cw_ssl_nodes := (cw_ssl_nodes w)(n := None)\<rparr>) st2"
    have "ssl_free_nodes False ns ?st = Undefined ''pointer that was never set''" by (rule Cons.IH) (use Cons.prems in auto)
    then show ?case unfolding ssl_free_nodes.simps n option.case .
  qed simp
  ultimately show ?thesis using assms(2,3) by (simp add: ipfix_col_close_ssl_def)
qed

text \<open>One message that cannot be received closes the socket that listens for SCTP, for all associations.\<close>

lemma sctp_error_closes_socket:
  assumes "cw_events (mp_user st) fd = Sctp_failed # es" "distinct (map pn_fd (mp_pnodes st))"
  shows "\<exists>st'. process_client_sctp clock env fd st = Returned st' \<and> fd \<notin> set (cw_open (mp_user st')) \<and> fd \<notin> pn_fd ` set (mp_pnodes st') \<and>
    cw_assocs (mp_user st') = cw_assocs (mp_user st)"
  using assms fdrm_cases [of "world (\<lambda>w. w\<lparr>cw_events := (cw_events w)(fd := es)\<rparr>) st" fd]
  by (auto simp: process_client_sctp_def ipfix_col_close_def Let_def)

text \<open>After the end and a new start there is no timer any more that drops templates: the variable still has the old one.\<close>

lemma no_maintenance_again:
  assumes "cw_mt (mp_user st) = Some timer" "col_callback protocol = Some cb" "ipfix_listen cfg mem gai protocol maxcon = (Some socks, closed)"
    and "ipfix_col_listen cfg clock mem mems gai protocol maxcon (ipfix_col_cleanup has env st) = Returned (Some socks, st')"
  shows "mp_timers st' = remove_timer timer (mp_timers st)"
proof -
  let ?st = "ipfix_col_cleanup has env st"
  have c: "cw_mt (mp_user ?st) = Some timer" "mp_timers ?st = remove_timer timer (mp_timers st)"
    using assms(1) by (simp_all add: ipfix_col_cleanup_def Let_def mpoll_timerrm_def mtimer_stop_def)
  let ?a = "world (\<lambda>w. w\<lparr>cw_open := socks @ cw_open w\<rparr>) ?st"
  obtain ok st1 where g: "col_register cb mems socks ?a = (ok, st1)" by fastforce
  have "st' = st1" using assms(2-4) register_nodes [OF g] c(1) by (cases ok) (auto simp: ipfix_col_listen_def g split: if_splits)
  then show ?thesis using register_nodes [OF g] c(2) by simp
qed

text \<open>Every socket that is made for the addresses that were tried is either returned or closed, just once.\<close>

lemma listen_each_accounts:
  "listen_each protocol answers socks closed = (r, closed') \<Longrightarrow>
    \<exists>n. mset (case r of None \<Rightarrow> closed' | Some socks' \<Rightarrow> socks' @ closed') = mset (socks @ closed @ filter (\<lambda>s. 0 \<le> s) (map sa_socket (take n answers)))"
proof (induction answers arbitrary: socks closed)
  case Nil
  then show ?case by (intro exI [of _ 0]) auto
next
  case (Cons a answers)
  show ?case
  proof (cases "sa_socket a < 0 \<or> sa_reuse a \<and> \<not> (sa_inet6 a \<and> \<not> sa_v6only a) \<and> (sa_bind a \<longrightarrow> protocol = IPFIX_PROTO_SCTP \<longrightarrow> \<not> sa_listen a)")
    case True
    then have "\<exists>socks2 closed2. listen_each protocol answers socks2 closed2 = (r, closed') \<and>
        mset (socks2 @ closed2) = mset (socks @ closed @ filter (\<lambda>s. 0 \<le> s) [sa_socket a])"
      using Cons.prems by (fastforce split: if_splits)
    then obtain socks2 closed2 where s: "listen_each protocol answers socks2 closed2 = (r, closed')"
      "mset (socks2 @ closed2) = mset (socks @ closed @ filter (\<lambda>s. 0 \<le> s) [sa_socket a])" by blast
    obtain n where "mset (case r of None \<Rightarrow> closed' | Some socks' \<Rightarrow> socks' @ closed') =
        mset (socks2 @ closed2) + mset (filter (\<lambda>s. 0 \<le> s) (map sa_socket (take n answers)))" using Cons.IH [OF s(1)] by auto
    then show ?thesis unfolding s(2) by (intro exI [of _ "Suc n"]) auto
  next
    case False
    then show ?thesis using Cons.prems by (intro exI [of _ 1]) (auto split: if_splits)
  qed
qed

end
