(* ===== verification/Collector.thy ===== *)
theory Collector
  imports IpfixServerProps IpfixOut ProbeSetup LibMisc
begin

text \<open>
  The collector program (\<open>collector/collector.c\<close>): its options, the exporters and sockets it sets up, the event loop, and its
  end. Options come as \<open>getopt_long\<close> finds them; what the kernel and the libraries answer is an argument.
\<close>

section \<open>Options\<close>

datatype addr_family = AF_UNSPEC | AF_INET | AF_INET6

record col_options =
  co_logfile :: "string option"
  co_datadir :: "string option"
  co_zout :: "string option"
  co_udp :: int
  co_tcp :: int
  co_sctp :: int
  co_ssl :: bool
  co_cafile :: string
  co_cadir :: "string option"
  co_keyfile :: string
  co_certfile :: string
  co_port :: int
  co_maxcon :: int
  co_family :: addr_family
  co_vlevel :: int

definition col_defaults :: col_options where
  "col_defaults = \<lparr>co_logfile = None, co_datadir = None, co_zout = None, co_udp = 0, co_tcp = 0, co_sctp = 0, co_ssl = False,
     co_cafile = ''rootcert.pem'', co_cadir = None, co_keyfile = ''server.pem'', co_certfile = ''server.pem'', co_port = 0, co_maxcon = 10,
     co_family = AF_UNSPEC, co_vlevel = 0\<rparr>"

text \<open>The long options are \<open>ssl\<close>, \<open>key\<close>, \<open>cert\<close>, \<open>cafile\<close>, \<open>cadir\<close> and \<open>help\<close>, with the indices 0 to 5. \<open>access\<close>: whether a file can be written.\<close>

definition col_option :: "bool \<Rightarrow> (string \<Rightarrow> bool) \<Rightarrow> found_option \<Rightarrow> col_options \<Rightarrow> col_options proc" where
  "col_option inet6 access opt g =
     (case opt of
        Unknown_option \<Rightarrow> Exited 1
      | Long i a \<Rightarrow>
          if i = 5 then Returned (g\<lparr>co_ssl := True\<rparr>)
          else if i = 6 then Returned (g\<lparr>co_keyfile := a\<rparr>)
          else if i = 7 then Returned (g\<lparr>co_certfile := a\<rparr>)
          else if i = 8 then Returned (g\<lparr>co_cafile := a\<rparr>)
          else if i = 9 then Returned (g\<lparr>co_cadir := Some a\<rparr>)
          else if i = 10 then Exited 1
          else Returned g
      | Short c a \<Rightarrow>
          if c = CHR ''4'' then Returned (if inet6 then g\<lparr>co_family := if co_family g = AF_INET6 then AF_UNSPEC else AF_INET\<rparr> else g)
          else if c = CHR ''6'' \<and> inet6 then Returned (g\<lparr>co_family := if co_family g = AF_INET then AF_UNSPEC else AF_INET6\<rparr>)
          else if c = CHR ''l'' then Returned (g\<lparr>co_logfile := Some a\<rparr>)
          else if c = CHR ''s'' then Returned (g\<lparr>co_sctp := co_sctp g + 1\<rparr>)
          else if c = CHR ''t'' then Returned (g\<lparr>co_tcp := co_tcp g + 1\<rparr>)
          else if c = CHR ''u'' then Returned (g\<lparr>co_udp := co_udp g + 1\<rparr>)
          else if c = CHR ''o'' then Returned (g\<lparr>co_datadir := Some a\<rparr>)
          else if c = CHR ''p'' then (if atoi a < 0 then Exited 1 else Returned (g\<lparr>co_port := atoi a\<rparr>))
          else if c = CHR ''v'' then Returned (g\<lparr>co_vlevel := co_vlevel g + 1\<rparr>)
          else if c = CHR ''z'' then (if access a then Returned (g\<lparr>co_zout := Some a\<rparr>) else Exited 1)
          else Exited 1)"

fun col_command_line :: "bool \<Rightarrow> (string \<Rightarrow> bool) \<Rightarrow> found_option list \<Rightarrow> col_options \<Rightarrow> col_options proc" where
  "col_command_line inet6 access [] g = Returned g"
| "col_command_line inet6 access (opt # opts) g = proc_bind (col_option inet6 access opt g) (col_command_line inet6 access opts)"

definition col_settings :: "bool \<Rightarrow> (string \<Rightarrow> bool) \<Rightarrow> found_option list \<Rightarrow> col_options proc" where
  "col_settings inet6 access opts =
     proc_map (\<lambda>g.
       let g = (if co_udp g = 0 \<and> co_tcp g = 0 \<and> co_sctp g = 0 then g\<lparr>co_tcp := co_tcp g + 1\<rparr> else g) in
       if co_port g = 0 then g\<lparr>co_port := if co_ssl g then IPFIX_TLS_PORTNO else IPFIX_PORTNO\<rparr> else g)
     (col_command_line inet6 access opts col_defaults)"

section \<open>The program\<close>

text \<open>
  The exporters that are registered, by the addresses of their blocks, with those of each module that makes
  them; the sockets of each protocol; the server; the log; and the library.
\<close>

record collector =
  ct_exporters :: "nat list"
  ct_files :: "nat option"
  ct_zout :: "nat option"
  ct_print :: "nat option"
  ct_mle :: "nat option"
  ct_tcp_s :: "int list option"
  ct_udp_s :: "int list option"
  ct_sctp_s :: "int list option"
  ct_scol :: "ssl_handle option"
  ct_server :: server
  ct_mlog :: mlog
  ct_lib :: ipfix_st

text \<open>
  What there is memory for and what the kernel answers. \<open>ct_new\<close> gives the addresses of the blocks for files, for the compressed file and for the log of messages,
  \<open>ct_exporter\<close> what is at an address.
\<close>

record collect_env =
  ct_cfg :: server_cfg
  ct_loop :: loop_env
  ct_cenv :: col_env
  ct_exporter :: "nat \<Rightarrow> ipfix_exporter"
  ct_cleanup :: "nat \<Rightarrow> bool"
  ct_new :: "nat \<times> nat \<times> nat"
  ct_files_mem :: "bool \<times> bool"
  ct_zout_mem :: bool
  ct_zout_opens :: bool
  ct_print_mem :: bool
  ct_mem :: bool
  ct_nodes :: "bool list"
  ct_gai :: "ipfix_proto \<Rightarrow> sock_answer list option"
  ct_ssl_setup :: bool
  ct_ssl_mem :: "bool \<times> bool"
  ct_ssl_nodes :: "(bool \<times> bool) list"
  ct_logfile :: "nat option"
  ct_strerror :: string
  ct_lib_env :: ipfix_env
  ct_types :: probe_tables

definition listen_for :: "collect_env \<Rightarrow> ipfix_proto \<Rightarrow> int \<Rightarrow> collector \<Rightarrow> (int list option \<times> collector) proc" where
  "listen_for env protocol maxcon c =
     proc_map (\<lambda>(r, srv). (r, c\<lparr>ct_server := srv\<rparr>))
       (ipfix_col_listen (ct_cfg env) (le_clock (ct_loop env)) (ct_mem env) (ct_nodes env) (ct_gai env protocol) protocol maxcon (ct_server c))"

definition listen_ssl_for :: "collect_env \<Rightarrow> ipfix_proto \<Rightarrow> int \<Rightarrow> collector \<Rightarrow> (bool \<times> collector) proc" where
  "listen_ssl_for env protocol maxcon c =
     proc_map (\<lambda>(r, srv). case r of None \<Rightarrow> (False, c\<lparr>ct_server := srv\<rparr>) | Some h \<Rightarrow> (True, c\<lparr>ct_server := srv, ct_scol := Some h\<rparr>))
       (ipfix_col_listen_ssl (ct_cfg env) True (ct_ssl_setup env) (ct_ssl_mem env) (ct_ssl_nodes env) (ct_gai env protocol) protocol maxcon (ct_server c))"

definition close_socks :: "int list option \<Rightarrow> collector \<Rightarrow> collector" where
  "close_socks socks c =
     (case socks of None \<Rightarrow> c | Some socks \<Rightarrow> c\<lparr>ct_server := foldl (\<lambda>st s. ipfix_col_close s st) (ct_server c) socks\<rparr>)"

definition close_listeners :: "col_options \<Rightarrow> collector \<Rightarrow> collector" where
  "close_listeners g c =
     (let c = (if co_tcp g \<noteq> 0 then close_socks (ct_tcp_s c) c else c);
          c = (if co_udp g \<noteq> 0 then close_socks (ct_udp_s c) c else c)
      in if co_sctp g \<noteq> 0 then close_socks (ct_sctp_s c) c else c)"

text \<open>The ports: whether the function goes on, goes to its end, or returns at once.\<close>

datatype opened = Goes_on | To_end | At_once

definition open_tcp :: "col_options \<Rightarrow> collect_env \<Rightarrow> collector \<Rightarrow> (opened \<times> collector) proc" where
  "open_tcp g env c =
     (if co_tcp g = 0 then Returned (Goes_on, c)
      else if co_ssl g then proc_map (\<lambda>(ok, c). (if ok then Goes_on else At_once, c)) (listen_ssl_for env IPFIX_PROTO_TCP (co_maxcon g) c)
      else proc_map (\<lambda>(r, c). case r of None \<Rightarrow> (At_once, c) | Some s \<Rightarrow> (Goes_on, c\<lparr>ct_tcp_s := Some s\<rparr>)) (listen_for env IPFIX_PROTO_TCP (co_maxcon g) c))"

definition open_udp :: "col_options \<Rightarrow> collect_env \<Rightarrow> collector \<Rightarrow> (opened \<times> collector) proc" where
  "open_udp g env c =
     (if co_udp g = 0 then Returned (Goes_on, c)
      else if co_ssl g then proc_map (\<lambda>(ok, c). (if ok then Goes_on else At_once, c)) (listen_ssl_for env IPFIX_PROTO_UDP 0 c)
      else proc_map (\<lambda>(r, c). case r of None \<Rightarrow> (To_end, c) | Some s \<Rightarrow> (Goes_on, c\<lparr>ct_udp_s := Some s\<rparr>)) (listen_for env IPFIX_PROTO_UDP 0 c))"

definition open_sctp :: "col_options \<Rightarrow> collect_env \<Rightarrow> collector \<Rightarrow> (opened \<times> collector) proc" where
  "open_sctp g env c =
     (if co_sctp g = 0 then Returned (Goes_on, c)
      else proc_map (\<lambda>(r, c). case r of None \<Rightarrow> (To_end, c) | Some s \<Rightarrow> (Goes_on, c\<lparr>ct_sctp_s := Some s\<rparr>)) (listen_for env IPFIX_PROTO_SCTP (co_maxcon g) c))"

definition then_open :: "(collector \<Rightarrow> (opened \<times> collector) proc) \<Rightarrow> opened \<times> collector \<Rightarrow> (opened \<times> collector) proc" where
  "then_open f oc = (case oc of (Goes_on, c) \<Rightarrow> f c | _ \<Rightarrow> Returned oc)"

definition open_ports :: "col_options \<Rightarrow> collect_env \<Rightarrow> collector \<Rightarrow> (opened \<times> collector) proc" where
  "open_ports g env c =
     proc_bind (open_tcp g env c) (\<lambda>oc. proc_bind (then_open (open_udp g env) oc) (then_open (open_sctp g env)))"

text \<open>The event loop, a call for each of the lists of answers: whether it has ended by itself, and the state it is in then.\<close>

fun event_loop :: "collect_env \<Rightarrow> bool \<Rightarrow> select_answer list list \<Rightarrow> collector \<Rightarrow> (bool \<times> collector) proc" where
  "event_loop env mem [] c = Returned (False, c)"
| "event_loop env mem (answers # rest) c =
     proc_bind (mpoll_loop (col_callbacks (le_clock (ct_loop env)) ((ct_cenv env)\<lparr>ce_exporters := map (ct_exporter env) (ct_exporters c)\<rparr>)) (ct_loop env) mem answers 10 (ct_server c))
       (\<lambda>(r, srv). if r < 0 then Returned (True, c\<lparr>ct_server := srv\<rparr>) else event_loop env mem rest (c\<lparr>ct_server := srv\<rparr>))"

text \<open>The exporters to files are set up before the ports are opened.\<close>

definition start_exports :: "col_options \<Rightarrow> collect_env \<Rightarrow> collector \<Rightarrow> (int \<times> collector) proc" where
  "start_exports g env c =
     (case ct_new env of (files, zout, _) \<Rightarrow>
      let c = (if co_datadir g = None then c
               else (case ipfix_col_init_fileexport (fst (ct_files_mem env)) (snd (ct_files_mem env)) files (ct_files c, ct_exporters c) of
                 (_, (k, es)) \<Rightarrow> c\<lparr>ct_files := k, ct_exporters := es\<rparr>))
      in if co_zout g = None then Returned (0, c)
         else proc_map (\<lambda>(r, (k, es)). (r, c\<lparr>ct_zout := k, ct_exporters := es\<rparr>)) (ipfix_start_zout (ct_zout_mem env) (ct_zout_opens env) zout (ct_zout c, ct_exporters c)))"

text \<open>The result: none while the event loop goes on.\<close>

definition do_collect :: "col_options \<Rightarrow> collect_env \<Rightarrow> bool \<Rightarrow> select_answer list list \<Rightarrow> collector \<Rightarrow> (int option \<times> collector) proc" where
  "do_collect g env mem answers c =
     proc_bind (start_exports g env c) (\<lambda>(r, c).
     if r < 0 then Returned (Some (-1), c)
     else
       proc_bind (open_ports g env c) (\<lambda>(how, c).
       case how of
         At_once \<Rightarrow> Returned (Some (-1), c)
       | To_end \<Rightarrow> Returned (Some (-1), close_listeners g c)
       | Goes_on \<Rightarrow>
           proc_map (\<lambda>(ended, c). if ended then (Some (-1), close_listeners g c) else (None, c)) (event_loop env mem answers c)))"

text \<open>The end, with the state just before \<open>exit\<close>. The handler of signals is never installed: a signal just ends the program.\<close>

definition col_exit_func :: "col_options \<Rightarrow> collect_env \<Rightarrow> int \<Rightarrow> collector \<Rightarrow> (int \<times> collector) proc" where
  "col_exit_func g env retval c =
     (let c = close_listeners g c in
      proc_bind (if co_ssl g \<and> ct_scol c \<noteq> None then proc_map (\<lambda>srv. c\<lparr>ct_server := srv\<rparr>) (ipfix_col_close_ssl (ct_scol c) (ct_server c)) else Returned c) (\<lambda>c.
      proc_bind (ipfix_stop_mle (ct_mle c, ct_exporters c)) (\<lambda>(k, es).
      let c = c\<lparr>ct_mle := k, ct_exporters := es\<rparr>;
          c = c\<lparr>ct_server := ipfix_col_cleanup (\<lambda>i. ct_cleanup env (ct_exporters c ! i)) ((ct_cenv env)\<lparr>ce_exporters := map (ct_exporter env) (ct_exporters c)\<rparr>) (ct_server c)\<rparr> in
      proc_bind (ipfix_cleanup (ct_lib_env env) (ct_lib c)) (\<lambda>lib.
      proc_bind (mlog_close (ct_mlog c)) (\<lambda>log. Returned (retval, c\<lparr>ct_lib := lib, ct_mlog := log\<rparr>))))))"

definition col_sig_func :: "col_options \<Rightarrow> collect_env \<Rightarrow> collector \<Rightarrow> (int \<times> collector) proc" where
  "col_sig_func g env c = col_exit_func g env 1 c"

text \<open>All of the program: options, the log, the library, the work, and the end after an error. The status: none while the program goes on.\<close>

definition collector_start :: "col_options \<Rightarrow> collect_env \<Rightarrow> collector \<Rightarrow> collector proc" where
  "collector_start g env c =
     (let log = mlog_set_vlevel (co_vlevel g) (ct_mlog c);
          c = c\<lparr>ct_mlog := if co_logfile g = None then log else snd (mlog_open (co_logfile g) (ct_logfile env) (ct_strerror env) log)\<rparr>;
          c = (if co_datadir g = None \<and> co_zout g = None \<or> co_vlevel g > 2 then
                 (case ipfix_col_start_msglog (ct_print_mem env) (snd (snd (ct_new env))) (ct_print c, ct_exporters c) of
                    (_, (k, es)) \<Rightarrow> c\<lparr>ct_print := k, ct_exporters := es\<rparr>) else c) in
      proc_bind (ipfix_init (ct_lib_env env) (pt_types (ct_types env)) (pt_reverse (ct_types env)) (ct_lib c)) (\<lambda>(r, lib).
      if r < 0 then Exited 1
      else
        proc_bind (ipfix_add_vendor_information_elements (ct_lib_env env) (pt_types (ct_types env)) (pt_reverse (ct_types env)) (pt_fokus (ct_types env)) lib) (\<lambda>(r, lib).
        if r < 0 then Exited 1 else Returned (c\<lparr>ct_lib := lib\<rparr>))))"

definition collector_program :: "(string \<Rightarrow> bool) \<Rightarrow> found_option list \<Rightarrow> collect_env \<Rightarrow> bool \<Rightarrow> select_answer list list \<Rightarrow> collector \<Rightarrow> (int option \<times> collector) proc" where
  "collector_program access opts env mem answers c =
     proc_bind (col_settings (sv_inet6 (ct_cfg env)) access opts) (\<lambda>g.
     proc_bind (collector_start g env c) (\<lambda>c.
     proc_bind (do_collect g env mem answers c) (\<lambda>(r, c).
     case r of
       None \<Rightarrow> Returned (None, c)
     | Some r \<Rightarrow> proc_map (\<lambda>(status, c). (Some status, c)) (col_exit_func g env (if r < 0 then 1 else 0) c))))"

section \<open>What it leaves\<close>

lemma mpoll_loop_zero: "mpoll_loop cbs env mem answers timeout st = Returned (r, st') \<Longrightarrow> r = 0"
  by (auto simp: mpoll_loop_def Let_def proc_bind_Returned)

lemma sockets_kept_trans: "sockets_kept S ns \<Longrightarrow> sockets_kept (sockets_of ns) ns' \<Longrightarrow> sockets_kept S ns'"
  by (auto simp: sockets_kept_def)

text \<open>The event loop never ends by itself.\<close>

lemma event_loop_runs:
  "event_loop env mem answers c = Returned (ended, c') \<Longrightarrow> server_wf (ct_server c) \<Longrightarrow>
    \<exists>srv. ended = False \<and> c' = c\<lparr>ct_server := srv\<rparr> \<and> server_wf srv \<and> sockets_kept (sockets_of (mp_pnodes (ct_server c))) (mp_pnodes srv)"
proof (induction answers arbitrary: c)
  case Nil
  then show ?case by (intro exI [of _ "ct_server c"]) simp
next
  case (Cons a answers)
  obtain r srv where l: "mpoll_loop (col_callbacks (le_clock (ct_loop env)) ((ct_cenv env)\<lparr>ce_exporters := map (ct_exporter env) (ct_exporters c)\<rparr>)) (ct_loop env) mem a 10 (ct_server c) = Returned (r, srv)"
    and e: "(if r < 0 then Returned (True, c\<lparr>ct_server := srv\<rparr>) else event_loop env mem answers (c\<lparr>ct_server := srv\<rparr>)) = Returned (ended, c')"
    using Cons.prems(1) by (auto simp: proc_bind_Returned)
  note k = loop_books [OF Cons.prems(2) l] mpoll_loop_zero [OF l]
  then obtain srv' where "ended = False \<and> c' = c\<lparr>ct_server := srv'\<rparr> \<and> server_wf srv' \<and> sockets_kept (sockets_of (mp_pnodes srv)) (mp_pnodes srv')"
    using Cons.IH [of "c\<lparr>ct_server := srv\<rparr>"] e by auto
  then show ?case using k sockets_kept_trans by blast
qed

text \<open>Closing descriptors that are not of clients, be they open or not.\<close>

lemma close_other:
  assumes "server_wf st" "\<forall>n \<in> set (mp_pnodes st). pn_fd n = fd \<longrightarrow> (\<forall>k. pn_func n \<noteq> Some (Tcp_client k))"
  shows "server_wf (ipfix_col_close fd st)"
proof (cases "\<exists>n \<in> set (mp_pnodes st). pn_fd n = fd")
  case True
  then show ?thesis using close_wf [OF assms(1)] assms(2) by blast
next
  case False
  have d: "distinct (map pn_fd (mp_pnodes st))" "set (cw_open (mp_user st)) = pn_fd ` set (mp_pnodes st)" using assms(1) by (simp_all add: server_wf_def)
  have "fd \<notin> set (cw_open (mp_user st))" using False by (auto simp: d(2))
  then have "filter (\<lambda>n. pn_fd n \<noteq> fd) (mp_pnodes st) = mp_pnodes st" "removeAll fd (cw_open (mp_user st)) = cw_open (mp_user st)"
    using False by (auto simp: filter_id_conv removeAll_id)
  then have "same_books st (ipfix_col_close fd st)"
    using fdrm_cases [OF d(1), of fd] server_wf_update [OF assms(1)] by (simp add: same_books_def ipfix_col_close_def)
  then show ?thesis by (rule same_books_wf [OF _ assms(1)])
qed

lemma close_others:
  "server_wf st \<Longrightarrow> \<forall>n \<in> set (mp_pnodes st). pn_fd n \<in> set ss \<longrightarrow> (\<forall>k. pn_func n \<noteq> Some (Tcp_client k)) \<Longrightarrow>
    server_wf (foldl (\<lambda>st s. ipfix_col_close s st) st ss)"
proof (induction ss arbitrary: st)
  case (Cons s ss)
  have d: "distinct (map pn_fd (mp_pnodes st))" using Cons.prems(1) by (simp add: server_wf_def)
  have "server_wf (ipfix_col_close s st)" using close_other [OF Cons.prems(1), of s] Cons.prems(2) by auto
  then show ?case using Cons.IH [of "ipfix_col_close s st"] Cons.prems(2) by (auto simp: ipfix_col_close_def fdrm_cases [OF d])
qed simp

section \<open>The sockets of each protocol\<close>

definition asked :: "col_options \<Rightarrow> ipfix_proto \<Rightarrow> bool" where
  "asked g p \<longleftrightarrow> (case p of IPFIX_PROTO_TCP \<Rightarrow> co_tcp g \<noteq> 0 | IPFIX_PROTO_UDP \<Rightarrow> co_udp g \<noteq> 0 | IPFIX_PROTO_SCTP \<Rightarrow> co_sctp g \<noteq> 0 | _ \<Rightarrow> False)"

definition socks_of :: "collector \<Rightarrow> ipfix_proto \<Rightarrow> int list option" where
  "socks_of c p = (case p of IPFIX_PROTO_TCP \<Rightarrow> ct_tcp_s c | IPFIX_PROTO_UDP \<Rightarrow> ct_udp_s c | IPFIX_PROTO_SCTP \<Rightarrow> ct_sctp_s c | _ \<Rightarrow> None)"

definition all_socks :: "collector \<Rightarrow> int list" where
  "all_socks c = concat (map (\<lambda>p. case socks_of c p of None \<Rightarrow> [] | Some s \<Rightarrow> s) [IPFIX_PROTO_TCP, IPFIX_PROTO_UDP, IPFIX_PROTO_SCTP])"

definition listeners :: "collector \<Rightarrow> (int \<times> col_cb option) set" where
  "listeners c = {(x, col_callback p) | p s x. socks_of c p = Some s \<and> x \<in> set s}"

lemma in_socks: "x \<in> set (case s of None \<Rightarrow> [] | Some s \<Rightarrow> s) \<longleftrightarrow> (\<exists>t. s = Some t \<and> x \<in> set t)"
  by (cases s) simp_all

lemma set_all_socks: "x \<in> set (all_socks c) \<longleftrightarrow> (\<exists>p s. socks_of c p = Some s \<and> x \<in> set s)"
proof -
  have "p \<in> {IPFIX_PROTO_TCP, IPFIX_PROTO_UDP, IPFIX_PROTO_SCTP}" if "socks_of c p = Some s" for p s
    using that by (cases p) (simp_all add: socks_of_def)
  then show ?thesis by (fastforce simp: all_socks_def in_socks)
qed

lemma set_all_socks_listeners: "set (all_socks c) = fst ` listeners c"
  by (force simp: set_eq_iff set_all_socks listeners_def)

lemma socks_server [simp]: "socks_of (c\<lparr>ct_server := srv\<rparr>) = socks_of c" "all_socks (c\<lparr>ct_server := srv\<rparr>) = all_socks c"
  "listeners (c\<lparr>ct_server := srv\<rparr>) = listeners c"
proof -
  show s: "socks_of (c\<lparr>ct_server := srv\<rparr>) = socks_of c" by (simp add: socks_of_def fun_eq_iff split: ipfix_proto.splits)
  show "all_socks (c\<lparr>ct_server := srv\<rparr>) = all_socks c" "listeners (c\<lparr>ct_server := srv\<rparr>) = listeners c" by (simp_all only: all_socks_def listeners_def s)
qed

lemma close_listeners_all:
  assumes "\<forall>p. socks_of c p \<noteq> None \<longrightarrow> asked g p"
  shows "close_listeners g c = c\<lparr>ct_server := foldl (\<lambda>st s. ipfix_col_close s st) (ct_server c) (all_socks c)\<rparr>"
proof -
  have "ct_tcp_s c \<noteq> None \<longrightarrow> co_tcp g \<noteq> 0" "ct_udp_s c \<noteq> None \<longrightarrow> co_udp g \<noteq> 0" "ct_sctp_s c \<noteq> None \<longrightarrow> co_sctp g \<noteq> 0"
    using assms [rule_format, of IPFIX_PROTO_TCP] assms [rule_format, of IPFIX_PROTO_UDP] assms [rule_format, of IPFIX_PROTO_SCTP]
    by (simp_all add: socks_of_def asked_def)
  then show ?thesis
    by (cases "ct_tcp_s c"; cases "ct_udp_s c"; cases "ct_sctp_s c") (simp_all add: close_listeners_def close_socks_def all_socks_def socks_of_def Let_def)
qed

text \<open>After that none of them is open; closing them once more changes nothing about that.\<close>

definition closable :: "col_options \<Rightarrow> collector \<Rightarrow> bool" where
  "closable g c \<longleftrightarrow> server_wf (ct_server c) \<and> (\<forall>p. socks_of c p \<noteq> None \<longrightarrow> asked g p) \<and>
     (\<forall>n \<in> set (mp_pnodes (ct_server c)). pn_fd n \<in> set (all_socks c) \<longrightarrow> (\<forall>k. pn_func n \<noteq> Some (Tcp_client k)))"

lemma close_listeners_closes:
  assumes "closable g c"
  shows "closable g (close_listeners g c) \<and> set (cw_open (mp_user (ct_server (close_listeners g c)))) = set (cw_open (mp_user (ct_server c))) - set (all_socks c) \<and>
    all_socks (close_listeners g c) = all_socks c"
proof -
  have d: "distinct (map pn_fd (mp_pnodes (ct_server c)))" using assms by (simp add: closable_def server_wf_def)
  have "server_wf (foldl (\<lambda>st s. ipfix_col_close s st) (ct_server c) (all_socks c))" using assms by (intro close_others) (simp_all add: closable_def)
  moreover have "close_listeners g c = c\<lparr>ct_server := foldl (\<lambda>st s. ipfix_col_close s st) (ct_server c) (all_socks c)\<rparr>"
    using assms by (intro close_listeners_all) (simp add: closable_def)
  ultimately show ?thesis using assms close_all [OF d, of "all_socks c"] by (simp add: closable_def set_diff_eq)
qed

text \<open>The kernel gives descriptors that are not open, and not to two protocols.\<close>

definition sockets_for :: "collect_env \<Rightarrow> col_options \<Rightarrow> ipfix_proto \<Rightarrow> int list option" where
  "sockets_for env g p = fst (ipfix_listen (ct_cfg env) (ct_mem env) (ct_gai env p) p (if p = IPFIX_PROTO_UDP then 0 else co_maxcon g))"

definition new_sockets :: "collect_env \<Rightarrow> col_options \<Rightarrow> server \<Rightarrow> bool" where
  "new_sockets env g srv \<longleftrightarrow>
     (\<forall>p s. sockets_for env g p = Some s \<longrightarrow> distinct s \<and> (\<forall>x \<in> set s. 0 \<le> x) \<and> set s \<inter> set (cw_open (mp_user srv) @ cw_other (mp_user srv)) = {}) \<and>
     (\<forall>p q s t. p \<noteq> q \<and> sockets_for env g p = Some s \<and> sockets_for env g q = Some t \<longrightarrow> set s \<inter> set t = {})"

text \<open>The state between two ports.\<close>

definition ports_open :: "collect_env \<Rightarrow> col_options \<Rightarrow> server \<Rightarrow> collector \<Rightarrow> bool" where
  "ports_open env g srv c \<longleftrightarrow>
     server_wf (ct_server c) \<and> sockets_of (mp_pnodes (ct_server c)) = listeners c \<union> sockets_of (mp_pnodes srv) \<and>
     set (cw_open (mp_user (ct_server c))) = set (all_socks c) \<union> set (cw_open (mp_user srv)) \<and> cw_other (mp_user (ct_server c)) = cw_other (mp_user srv) \<and>
     (\<forall>p s. socks_of c p = Some s \<longrightarrow> asked g p \<and> sockets_for env g p = Some s)"

fun with_socks :: "ipfix_proto \<Rightarrow> int list option \<Rightarrow> collector \<Rightarrow> collector" where
  "with_socks IPFIX_PROTO_TCP s c = c\<lparr>ct_tcp_s := s\<rparr>"
| "with_socks IPFIX_PROTO_UDP s c = c\<lparr>ct_udp_s := s\<rparr>"
| "with_socks IPFIX_PROTO_SCTP s c = c\<lparr>ct_sctp_s := s\<rparr>"
| "with_socks _ s c = c"

lemma socks_with: "asked g p \<Longrightarrow> socks_of (with_socks p s c) q = (if q = p then s else socks_of c q)"
  by (cases p; cases q) (simp_all add: socks_of_def asked_def)

lemma with_server [simp]: "ct_server (with_socks p s c) = ct_server c"
  by (cases p) simp_all

lemma close_keeps_other: "cw_other (mp_user (foldl (\<lambda>st s. ipfix_col_close s st) st ss)) = cw_other (mp_user st)"
proof (induction ss arbitrary: st)
  case (Cons s ss)
  have "mp_user (mpoll_fdrm s st) = mp_user st" by (simp add: mpoll_fdrm_def pnode_free_def Let_def split: option.splits)
  then show ?case using Cons by (simp add: ipfix_col_close_def)
qed simp

lemma listen_gives:
  assumes "ipfix_col_listen cfg clock mem mems gai p maxcon st = Returned (r, st')"
  shows "cw_other (mp_user st') = cw_other (mp_user st) \<and> (r \<noteq> None \<longrightarrow> fst (ipfix_listen cfg mem gai p maxcon) = r)"
proof (cases "col_callback p = None \<or> fst (ipfix_listen cfg mem gai p maxcon) = None")
  case True
  then show ?thesis using assms by (cases "ipfix_listen cfg mem gai p maxcon") (auto simp: ipfix_col_listen_def split: option.splits)
next
  case False
  then obtain cb socks closed where l: "col_callback p = Some cb" "ipfix_listen cfg mem gai p maxcon = (Some socks, closed)"
    by (cases "ipfix_listen cfg mem gai p maxcon") auto
  obtain ok st1 where g: "col_register cb mems socks (world (\<lambda>w. w\<lparr>cw_open := socks @ cw_open w\<rparr>) st) = (ok, st1)" by fastforce
  have u: "mp_user st1 = (mp_user st)\<lparr>cw_open := socks @ cw_open (mp_user st)\<rparr>" using register_nodes [OF g] by simp
  show ?thesis
  proof (cases ok)
    case True
    then show ?thesis using assms u
      by (auto simp: ipfix_col_listen_def l g mpoll_timeradd_def mtimer_start_def add_timer_def mtimer_settime_def split: if_splits)
  next
    case False
    then show ?thesis using assms u by (auto simp: ipfix_col_listen_def l g close_keeps_other)
  qed
qed

lemma port_opened:
  assumes o: "ports_open env g srv c" and l: "listen_for env p (if p = IPFIX_PROTO_UDP then 0 else co_maxcon g) c = Returned (r, c1)"
    and n: "new_sockets env g srv" "asked g p" "socks_of c p = None"
  shows "ports_open env g srv (case r of None \<Rightarrow> c1 | Some s \<Rightarrow> with_socks p (Some s) c1) \<and> socks_of c1 = socks_of c"
proof -
  obtain srv1 where l1: "ipfix_col_listen (ct_cfg env) (le_clock (ct_loop env)) (ct_mem env) (ct_nodes env) (ct_gai env p) p (if p = IPFIX_PROTO_UDP then 0 else co_maxcon g) (ct_server c) = Returned (r, srv1)"
    and c1: "c1 = c\<lparr>ct_server := srv1\<rparr>"
    using l by (auto simp: listen_for_def proc_map_Returned)
  have wf: "server_wf (ct_server c)" using o by (simp add: ports_open_def)
  have fresh: "distinct s \<and> (\<forall>x \<in> set s. 0 \<le> x) \<and> set s \<inter> set (cw_open (mp_user (ct_server c)) @ cw_other (mp_user (ct_server c))) = {}"
    if s: "sockets_for env g p = Some s" for s
  proof -
    have "set s \<inter> set (all_socks c) = {}"
    proof (rule equals0I)
      fix x assume "x \<in> set s \<inter> set (all_socks c)"
      then obtain q t where "x \<in> set s" "socks_of c q = Some t" "x \<in> set t" by (auto simp: set_all_socks)
      moreover from this have "q \<noteq> p" "sockets_for env g q = Some t" using n(3) o by (auto simp: ports_open_def)
      ultimately show False using n(1) s by (force simp: new_sockets_def)
    qed
    moreover have "distinct s \<and> (\<forall>x \<in> set s. 0 \<le> x) \<and> set s \<inter> set (cw_open (mp_user srv) @ cw_other (mp_user srv)) = {}"
      using n(1) s by (simp add: new_sockets_def)
    ultimately show ?thesis using o by (auto simp: ports_open_def)
  qed
  note b = listen_books [OF wf l1, folded sockets_for_def, rule_format, OF fresh]
  note other = listen_gives [OF l1]
  show ?thesis
  proof (cases r)
    case None
    then show ?thesis using b other o by (simp add: c1 ports_open_def)
  next
    case (Some s)
    then have s: "sockets_for env g p = Some s" using other by (simp add: sockets_for_def)
    have w: "socks_of (with_socks p (Some s) c1) q = Some t \<longleftrightarrow> q = p \<and> t = s \<or> socks_of c q = Some t" for q t
      using n(2,3) by (auto simp: socks_with c1)
    have "listeners (with_socks p (Some s) c1) = set s \<times> {col_callback p} \<union> listeners c"
      "set (all_socks (with_socks p (Some s) c1)) = set s \<union> set (all_socks c)"
      by (auto simp: listeners_def set_all_socks w) blast+
    then show ?thesis using b other o s n(2) Some by (auto simp: ports_open_def w) (simp_all add: c1)
  qed
qed

lemma open_one:
  assumes "proc_map (\<lambda>(r, c). case r of None \<Rightarrow> (how0, c) | Some s \<Rightarrow> (Goes_on, with_socks p (Some s) c)) (listen_for env p (if p = IPFIX_PROTO_UDP then 0 else co_maxcon g) c) = Returned (how, c')"
    "ports_open env g srv c" "new_sockets env g srv" "asked g p" "socks_of c p = None" "how0 \<noteq> Goes_on"
  shows "ports_open env g srv c' \<and> (\<forall>q. q \<noteq> p \<longrightarrow> socks_of c' q = socks_of c q) \<and> (how = Goes_on \<longrightarrow> socks_of c' p \<noteq> None)"
proof -
  obtain r c1 where l: "listen_for env p (if p = IPFIX_PROTO_UDP then 0 else co_maxcon g) c = Returned (r, c1)"
    and r: "(how, c') = (case r of None \<Rightarrow> (how0, c1) | Some s \<Rightarrow> (Goes_on, with_socks p (Some s) c1))"
    using assms(1) by (auto simp: proc_map_Returned)
  show ?thesis using port_opened [OF assms(2) l assms(3-5)] r assms(4,6) by (cases r) (simp_all add: socks_with)
qed

lemmas open_each = open_one [where p = IPFIX_PROTO_TCP, unfolded with_socks.simps] open_one [where p = IPFIX_PROTO_UDP, unfolded with_socks.simps]
  open_one [where p = IPFIX_PROTO_SCTP, unfolded with_socks.simps]

lemma open_ports_open:
  assumes "open_ports g env c = Returned (how, c')" "\<not> co_ssl g" "ports_open env g srv c" "new_sockets env g srv" "\<forall>p. socks_of c p = None"
  shows "ports_open env g srv c' \<and> (how = Goes_on \<longrightarrow> (\<forall>p. asked g p \<longrightarrow> socks_of c' p \<noteq> None))"
proof -
  obtain h1 c1 h2 c2 where o: "open_tcp g env c = Returned (h1, c1)" "then_open (open_udp g env) (h1, c1) = Returned (h2, c2)"
    "then_open (open_sctp g env) (h2, c2) = Returned (how, c')"
    using assms(1) by (auto simp: open_ports_def proc_bind_Returned)
  have t: "ports_open env g srv c1 \<and> (\<forall>q. q \<noteq> IPFIX_PROTO_TCP \<longrightarrow> socks_of c1 q = None) \<and> (h1 = Goes_on \<and> asked g IPFIX_PROTO_TCP \<longrightarrow> socks_of c1 IPFIX_PROTO_TCP \<noteq> None)"
    using o(1) assms(2-5) open_each(1) [of At_once env g c h1 c1 srv]
    by (cases "co_tcp g = 0") (auto simp: open_tcp_def asked_def)
  have u: "ports_open env g srv c2 \<and> socks_of c2 IPFIX_PROTO_SCTP = None \<and>
      (h2 = Goes_on \<longrightarrow> (\<forall>p \<in> {IPFIX_PROTO_TCP, IPFIX_PROTO_UDP}. asked g p \<longrightarrow> socks_of c2 p \<noteq> None))"
  proof (cases "h1 = Goes_on \<and> co_udp g \<noteq> 0")
    case True
    then show ?thesis using o(2) t assms(2-4) open_each(2) [of To_end env g c1 h2 c2 srv]
      by (auto simp: then_open_def open_udp_def asked_def)
  next
    case False
    then have "c2 = c1 \<and> h2 = h1" using o(2) by (auto simp: then_open_def open_udp_def split: opened.splits)
    then show ?thesis using t False by (auto simp: asked_def)
  qed
  show ?thesis
  proof (cases "h2 = Goes_on \<and> co_sctp g \<noteq> 0")
    case True
    then have s: "ports_open env g srv c' \<and> (\<forall>q. q \<noteq> IPFIX_PROTO_SCTP \<longrightarrow> socks_of c' q = socks_of c2 q) \<and> (how = Goes_on \<longrightarrow> socks_of c' IPFIX_PROTO_SCTP \<noteq> None)"
      using o(3) u assms(4) open_each(3) [of To_end env g c2 how c' srv]
      by (auto simp: then_open_def open_sctp_def asked_def)
    have "socks_of c' p \<noteq> None" if "how = Goes_on" "asked g p" for p
      using that s u True by (cases p) (auto simp: asked_def)
    then show ?thesis using s by blast
  next
    case False
    then have e: "c' = c2 \<and> how = h2" using o(3) by (auto simp: then_open_def open_sctp_def split: opened.splits)
    have "socks_of c' p \<noteq> None" if "how = Goes_on" "asked g p" for p
      using that e u False by (cases p) (auto simp: asked_def)
    then show ?thesis using e u by blast
  qed
qed

section \<open>The whole run\<close>

lemma ports_closable:
  assumes "ports_open env g srv c" "new_sockets env g srv"
  shows "closable g c \<and> set (cw_open (mp_user (ct_server c))) - set (all_socks c) = set (cw_open (mp_user srv))"
proof -
  have wf: "server_wf (ct_server c)" using assms(1) by (simp add: ports_open_def)
  then have d: "distinct (map pn_fd (mp_pnodes (ct_server c)))" by (simp add: server_wf_def)
  have "pn_func n \<noteq> Some (Tcp_client k)" if n: "n \<in> set (mp_pnodes (ct_server c))" "pn_fd n \<in> set (all_socks c)" for n k
  proof -
    obtain cb where "(pn_fd n, cb) \<in> listeners c" using n(2) by (auto simp: set_all_socks_listeners)
    then have "(pn_fd n, cb) \<in> sockets_of (mp_pnodes (ct_server c))" using assms(1) by (simp add: ports_open_def)
    then obtain m where "m \<in> set (mp_pnodes (ct_server c))" "pn_fd n = pn_fd m" "pn_func m \<noteq> Some (Tcp_client k)" by (auto simp: sockets_of_def)
    then show ?thesis using fd_unique [OF d n(1)] by auto
  qed
  moreover have "x \<notin> set (cw_open (mp_user srv))" if x: "x \<in> set (all_socks c)" for x
  proof -
    obtain p s where "socks_of c p = Some s" "x \<in> set s" using x by (auto simp: set_all_socks)
    moreover from this have "sockets_for env g p = Some s" using assms(1) by (simp add: ports_open_def)
    ultimately
    show ?thesis using assms(2) by (fastforce simp: new_sockets_def)
  qed
  moreover have "set (cw_open (mp_user (ct_server c))) = set (all_socks c) \<union> set (cw_open (mp_user srv))" "\<forall>p. socks_of c p \<noteq> None \<longrightarrow> asked g p"
    using assms(1) by (auto simp: ports_open_def)
  ultimately show ?thesis using wf by (auto simp: closable_def)
qed

lemma start_keeps:
  "collector_start g env c = Returned c' \<Longrightarrow> ct_server c' = ct_server c \<and> socks_of c' = socks_of c"
  by (auto simp: collector_start_def socks_of_def Let_def fun_eq_iff proc_bind_Returned split: if_splits prod.splits ipfix_proto.splits)

lemma no_ports:
  assumes "server_wf (ct_server c)" "\<forall>p. socks_of c p = None"
  shows "ports_open env g (ct_server c) c"
proof -
  have "listeners c = {}" "all_socks c = []" using assms(2) by (simp_all add: listeners_def all_socks_def)
  then show ?thesis using assms by (simp add: ports_open_def)
qed

lemma exit_closes:
  assumes "col_exit_func g env retval c = Returned (status, c')" "closable g c" "\<not> co_ssl g"
  shows "status = retval \<and> set (cw_open (mp_user (ct_server c'))) = set (cw_open (mp_user (ct_server c))) - set (all_socks c)"
proof -
  have "mp_user (mpoll_timerrm t st) = mp_user st" for t and st :: server
    by (simp add: mpoll_timerrm_def mtimer_stop_def)
  then have "cw_open (mp_user (ipfix_col_cleanup has cenv st)) = cw_open (mp_user st)" for has cenv st
    by (simp add: ipfix_col_cleanup_def Let_def split: option.splits)
  then show ?thesis using assms(1,3) close_listeners_closes [OF assms(2)]
    by (auto simp: col_exit_func_def Let_def proc_bind_Returned)
qed

lemma exports_keep: "start_exports g env c = Returned (r, c') \<Longrightarrow> ct_server c' = ct_server c \<and> socks_of c' = socks_of c"
  by (auto simp: start_exports_def socks_of_def Let_def fun_eq_iff proc_map_Returned split: if_splits prod.splits ipfix_proto.splits)

text \<open>The sockets of each protocol that was asked for, all watched; those of SCTP may have been closed.\<close>

definition serving :: "col_options \<Rightarrow> collector \<Rightarrow> bool" where
  "serving g c \<longleftrightarrow> server_wf (ct_server c) \<and>
     (\<forall>p. asked g p \<longrightarrow> (\<exists>s. socks_of c p = Some s \<and> (p \<noteq> IPFIX_PROTO_SCTP \<longrightarrow> set s \<times> {col_callback p} \<subseteq> sockets_of (mp_pnodes (ct_server c)))))"

lemma loop_serves:
  assumes "event_loop env mem answers c = Returned (ended, c')" "ports_open env g srv c" "\<forall>p. asked g p \<longrightarrow> socks_of c p \<noteq> None"
  shows "\<not> ended \<and> serving g c'"
proof -
  obtain srv' where r: "ended = False" "c' = c\<lparr>ct_server := srv'\<rparr>" "server_wf srv'" "sockets_kept (sockets_of (mp_pnodes (ct_server c))) (mp_pnodes srv')"
    using event_loop_runs [OF assms(1)] assms(2) by (auto simp: ports_open_def)
  have "\<exists>s. socks_of c p = Some s \<and> (p \<noteq> IPFIX_PROTO_SCTP \<longrightarrow> set s \<times> {col_callback p} \<subseteq> sockets_of (mp_pnodes srv'))" if p: "asked g p" for p
  proof -
    obtain s where s: "socks_of c p = Some s" using assms(3) p by auto
    then have "set s \<times> {col_callback p} \<subseteq> sockets_of (mp_pnodes (ct_server c))" using assms(2) by (auto simp: ports_open_def listeners_def)
    moreover have "col_callback p \<noteq> Some Sctp_client" if "p \<noteq> IPFIX_PROTO_SCTP" using that by (cases p) (simp_all add: col_callback_def)
    ultimately show ?thesis using r(4) s by (auto simp: sockets_kept_def)
  qed
  then show ?thesis using r by (simp add: serving_def)
qed

lemma collect_result:
  assumes "do_collect g env mem answers c = Returned (r, c')" "\<not> co_ssl g" "server_wf (ct_server c)" "\<forall>p. socks_of c p = None" "new_sockets env g (ct_server c)"
  shows "case r of None \<Rightarrow> serving g c'
    | Some x \<Rightarrow> x = -1 \<and> closable g c' \<and> set (cw_open (mp_user (ct_server c'))) - set (all_socks c') = set (cw_open (mp_user (ct_server c)))"
proof -
  obtain z c1 where z: "start_exports g env c = Returned (z, c1)"
    and d: "(if z < 0 then Returned (Some (-1), c1)
      else proc_bind (open_ports g env c1) (\<lambda>(how, c). case how of At_once \<Rightarrow> Returned (Some (-1), c) | To_end \<Rightarrow> Returned (Some (-1), close_listeners g c)
        | Goes_on \<Rightarrow> proc_map (\<lambda>(ended, c). if ended then (Some (-1), close_listeners g c) else (None, c)) (event_loop env mem answers c))) = Returned (r, c')"
    using assms(1) by (auto simp: do_collect_def proc_bind_Returned)
  have c1: "ct_server c1 = ct_server c" "\<forall>p. socks_of c1 p = None" using exports_keep [OF z] assms(4) by simp_all
  then have o1: "ports_open env g (ct_server c) c1" using no_ports [of c1] assms(3) by simp
  show ?thesis
  proof (cases "z < 0")
    case True
    then have "r = Some (-1) \<and> c' = c1" using d by auto
    then show ?thesis using ports_closable [OF o1 assms(5)] by (simp add: c1(1))
  next
    case False
    then obtain how c2 where o: "open_ports g env c1 = Returned (how, c2)"
      and e: "(case how of At_once \<Rightarrow> Returned (Some (-1), c2) | To_end \<Rightarrow> Returned (Some (-1), close_listeners g c2)
        | Goes_on \<Rightarrow> proc_map (\<lambda>(ended, c). if ended then (Some (-1), close_listeners g c) else (None, c)) (event_loop env mem answers c2)) = Returned (r, c')"
      using d by (auto simp: proc_bind_Returned)
    note p = open_ports_open [OF o assms(2) o1 assms(5) c1(2)]
    note k = ports_closable [OF conjunct1 [OF p] assms(5)]
    show ?thesis
    proof (cases how)
      case Goes_on
      then obtain ended c3 where l: "event_loop env mem answers c2 = Returned (ended, c3)" "(r, c') = (if ended then (Some (-1), close_listeners g c3) else (None, c3))"
        using e by (auto simp: proc_map_Returned)
      then show ?thesis using loop_serves [OF l(1) conjunct1 [OF p]] p Goes_on by simp
    next
      case To_end
      then have "r = Some (-1) \<and> c' = close_listeners g c2" using e by auto
      then show ?thesis using close_listeners_closes [of g c2] k by auto
    next
      case At_once
      then have "r = Some (-1) \<and> c' = c2" using e by auto
      then show ?thesis using k by simp
    qed
  qed
qed


text \<open>A collector for TCP alone, as it starts without options: one of the two sockets can be bound.\<close>

definition example_collect_env :: collect_env where
  "example_collect_env = \<lparr>ct_cfg = \<lparr>sv_inet6 = True, sv_sctp = False\<rparr>, ct_loop = \<lparr>le_clock = example_clock, le_fuel = 2\<rparr>, ct_cenv = example_cenv,
     ct_exporter = (\<lambda>_. record_exporter), ct_cleanup = (\<lambda>_. False), ct_new = (1, 2, 3), ct_files_mem = (True, True), ct_zout_mem = True, ct_zout_opens = True,
     ct_print_mem = True, ct_mem = True, ct_nodes = [True], ct_gai = (\<lambda>p. if p = IPFIX_PROTO_TCP then Some two_answers else None),
     ct_ssl_setup = True, ct_ssl_mem = (True, True), ct_ssl_nodes = [], ct_logfile = None, ct_strerror = [], ct_lib_env = example_env,
     ct_types = \<lparr>pt_types = [], pt_reverse = [], pt_fokus = []\<rparr>\<rparr>"

definition example_collector :: collector where
  "example_collector = \<lparr>ct_exporters = [], ct_files = None, ct_zout = None, ct_print = None, ct_mle = None, ct_tcp_s = None, ct_udp_s = None, ct_sctp_s = None,
     ct_scol = None, ct_server = example_server, ct_mlog = \<lparr>ml_vlevel = 0, ml_fp = Log_unset, ml_out = []\<rparr>, ct_lib = example_st\<lparr>gs_tstart := 0\<rparr>\<rparr>"

definition plain_options :: col_options where
  "plain_options = col_defaults\<lparr>co_tcp := 1, co_port := IPFIX_PORTNO\<rparr>"

lemma example_settings: "col_settings True access [] = Returned plain_options"
  by (simp add: col_settings_def col_defaults_def plain_options_def)

lemma example_listen: "ipfix_listen \<lparr>sv_inet6 = True, sv_sctp = False\<rparr> True (Some two_answers) IPFIX_PROTO_TCP 10 = (Some [4], [5])"
  by (simp add: ipfix_listen_def two_answers_def)

lemma example_new: "new_sockets example_collect_env plain_options example_server"
proof -
  have "sockets_for example_collect_env plain_options p = (if p = IPFIX_PROTO_TCP then Some [4] else None)" for p
    by (cases p) (simp_all add: sockets_for_def example_collect_env_def plain_options_def col_defaults_def example_listen, simp_all add: ipfix_listen_def)
  then show ?thesis by (simp add: new_sockets_def) (simp add: example_server_def example_world_def)
qed


section \<open>Faults\<close>

text \<open>The long options are looked up at wrong indices: the first five do nothing, and the help turns SSL on.\<close>

lemma long_options_shifted:
  "0 \<le> i \<Longrightarrow> i < 5 \<Longrightarrow> col_settings inet6 access (Long i a # opts) = col_settings inet6 access opts"
  "\<exists>g. col_settings inet6 access [Long 5 a] = Returned g \<and> co_ssl g \<and> co_port g = IPFIX_TLS_PORTNO"
  by (simp add: col_settings_def col_option_def) (simp add: col_settings_def col_option_def col_defaults_def)

text \<open>With SSL the port for UDP is never opened, and the program gives up.\<close>

lemma ssl_never_udp:
  assumes "co_ssl g" "co_udp g \<noteq> 0"
  shows "open_udp g env c = Returned (At_once, c)"
  using assms by (simp add: open_udp_def listen_ssl_for_def ipfix_col_listen_ssl_def)

text \<open>At the end the files, the compressed output and the log of messages are not stopped, and no part of the collector starts what is stopped.\<close>

lemma exporters_left:
  "col_exit_func g env retval c = Returned (status, c') \<Longrightarrow> ct_files c' = ct_files c \<and> ct_zout c' = ct_zout c \<and> ct_print c' = ct_print c"
  by (auto simp: col_exit_func_def close_listeners_def close_socks_def Let_def proc_bind_Returned proc_map_Returned split: if_splits option.splits)

end
