(* ===== verification/Spec2Isabelle.thy ===== *)
theory Spec2Isabelle
  imports MsgPackImage MsgQueue Config DragonflyIO Responder Commands WebService PipelineFaults Lifecycle MainProg
    JsonExample HiredisProps IpfixApi IpfixFaults IpfixSafe IpfixOutFaults Hashtable Mpoll ProbeExport LibMisc IpfixDb Collector
begin

text \<open>
  The machine learning engine dragonfly-mle: it reads events line by line, hands them to Lua
  filters and analyzers, and writes what these produce. The C sources are below \<open>src/src\<close>.

  \<^bold>\<open>The program.\<close> \<open>main.c\<close> reads the command line and runs the engine of \<open>dragonfly-lib.c\<close>. The
  engine reads \<open>config.lua\<close> (\<open>config.c\<close>) into tables of inputs, analyzers and outputs, makes one
  message queue (\<open>lib/msgqueue\<close>) for each of their elements, and forks. The first process has two
  threads for each input, a flywheel that reads the source through \<open>dragonfly-io.c\<close> into the queue of
  the input and one that gives every message to the script of the input, and one thread for each
  output that writes the messages of its queue. The second process has a thread for each
  analyzer, a timer, and a web server (\<open>webservice.c\<close>). Scripts pass messages on with
  \<open>analyze_event\<close>, which packs a value with \<open>lua_cmsgpack.c\<close>, \<open>output_event\<close>, \<open>log_event\<close>, \<open>stats_event\<close>
  and \<open>timer_event\<close>, and use \<open>dragonfly-cmds.c\<close> and the responders (\<open>responder.c\<close>,
  \<open>resp/resp-suricata.c\<close>).

  \<^bold>\<open>Theories and what they model.\<close>
  \<^item> \<open>DfPrelude\<close>: bytes and words, C strings, decimal numbers. \<open>Posix\<close>: how a call ends (it returns,
    exits, aborts, is undefined, blocks or spins), error numbers, descriptor flags. \<open>Channel\<close>: the
    contracts of a first-in first-out channel and of a sink for messages.
  \<^item> \<open>IeeeDouble\<close>, \<open>LuaValue\<close>: the numbers and values of Lua the C code works on.
  \<^item> \<open>MsgPackEnc\<close>, \<open>MsgPackDec\<close> (\<open>lua_cmsgpack.c\<close>): the encoder with its buffer, the decoder with its
    cursor; \<open>MsgPackRT\<close> and \<open>MsgPackImage\<close> have what is proved of them, against the wire format as
    an inductive definition and the image of a value under packing and unpacking.
  \<^item> \<open>MsgQueue\<close> (\<open>lib/msgqueue/mqueue.c\<close>): a queue is a flag and the bytes of a pipe. Writers of two
    processes are a step relation on the pipe, with its invariant.
  \<^item> \<open>Config\<close> (\<open>config.c\<close>, \<open>config.h\<close>, \<open>param.h\<close>): the loaders of the tables; a store outside an array is
    undefined.
  \<^item> \<open>IoHandle\<close>, \<open>IoFile\<close>, \<open>IoTail\<close>, \<open>IoPipe\<close>, \<open>IoMisc\<close> (\<open>io/io-*.c\<close>) and \<open>DragonflyIO\<close> (\<open>dragonfly-io.c\<close>):
    handles, a file system of inodes, line-wise reading and writing, rotation, tailing, datagrams.
  \<^item> \<open>Responder\<close>, \<open>Commands\<close>, \<open>WebService\<close>: the commands of the responders and scripts, the server.
  \<^item> \<open>Engine\<close>: the global tables of \<open>dragonfly-lib.c\<close>, the heap of queues, and the event functions.
    \<open>Pipeline\<close>: the loops of the threads and the signal handlers. \<open>PipelineProps\<close>: what they
    achieve together; \<open>PipelineFaults\<close>: timers, rotation, and what goes wrong.
  \<^item> \<open>Lifecycle\<close>: start and end of both processes. \<open>MainProg\<close> (\<open>main.c\<close>): the options and the run.

  \<^item> \<open>StrBuf\<close> (\<open>lua-cjson/strbuf.c\<close>): a buffer as the bytes of its block, with every size an \<open>int\<close> of
    32 bits, and its refinement of a string that grows. \<open>JsonConfig\<close>, \<open>JsonEnc\<close>, \<open>JsonDec\<close>
    (\<open>lua_cjson.c\<close>): the settings, the encoder and the decoder. \<open>JsonText\<close> has the text of a value and
    that the encoder writes it, \<open>JsonSafe\<close> that the decoder stays inside its input and its buffer,
    \<open>JsonUnicode\<close> its escapes, \<open>JsonRT\<close> the round trip, \<open>JsonExample\<close> the witnesses and the defects.
  \<^item> \<open>Hiredis\<close> (\<open>lua-hiredis.c\<close>): the connections, replies and commands of the Redis client, with the
    user data and constants of the Lua state; \<open>HiredisProps\<close>: its invariant and what a reply becomes.
  \<^item> \<open>IpfixField\<close>, \<open>IpfixExport\<close>, \<open>IpfixApi\<close> (\<open>libipfix/lib/ipfix.c\<close>): information elements and their
    codecs, the exporter with its handles, collectors, templates and messages, and the entry points
    of the library. \<open>IpfixCollect\<close> (\<open>ipfix_col.c\<close>): the parser of messages, template and data sets,
    sources and export functions. \<open>IpfixSession\<close> shows the bytes a session sends, \<open>IpfixRT\<close> that the
    collector reads them back, \<open>IpfixSafe\<close> that the exporter keeps its invariant and never writes past
    a buffer, \<open>IpfixFaults\<close> what goes wrong outside of these.
  \<^item> \<open>IpfixOut\<close> (\<open>ipfix_mle.c\<close>, \<open>ipfix_zout.c\<close>, \<open>ipfix_col_files.c\<close>, \<open>ipfix_print.c\<close>): what the exporters of the collector
    write, as text. \<open>IpfixJson\<close> shows which of their lines the JSON decoder reads, and as what;
    \<open>IpfixOutFaults\<close> the lines that are no JSON, values that are not escaped, and short buffers.
  \<^item> \<open>Hashtable\<close> (\<open>libmisc/hashtable.c\<close>, \<open>mhash.c\<close>): the chained hash table and the global values kept
    in one, and that they refine a map. \<open>Mpoll\<close> (\<open>libmisc/mpoll.c\<close>): timers, descriptors and the event
    loop. \<open>IpFlow\<close> (\<open>probe/ipflow.c\<close>): the fields of packets and the table of flows; \<open>IpFlowProps\<close> shows
    that the table refines a map of counters, \<open>IpFlowFaults\<close> which fields are read and what goes wrong.
    \<open>Probe\<close> (\<open>probe/probe.c\<close>): packets are counted in the table, and flows that are old, idle or asked for
    are given to the exporter; \<open>ProbeProps\<close> shows that every packet is in a record given to it. \<open>IpfixElements\<close> is
    the array of \<open>ipfix_fields.h\<close>, \<open>ProbeSetup\<close> the options of the probe, its start, and what its calls are for
    the exporter; \<open>ProbeExport\<close> shows that the exporter it sets up takes them and that the program ends.
    \<open>IpfixDb\<close> (\<open>ipfix_db.c\<close>, \<open>ipfix_col_db.c\<close>): the queries that store sources, messages, templates and records, and
    what the names of tables and columns are. \<open>LibMisc\<close> (\<open>libmisc/misc.c\<close>, \<open>mlog.c\<close>): names of files, lines, times and the log.
    \<open>IpfixServer\<close> (\<open>ipfix_col.c\<close>): the sockets of the collector, its connections over TCP, SCTP and SSL, and the callbacks it gives to
    the event loop of \<open>Mpoll\<close>; \<open>IpfixServerProps\<close> shows that descriptors and connections are accounted for in every state of
    the loop, that listening is all or nothing, and that a session of the exporter is served; \<open>EventLoop\<close> is the contract under which
    the loop keeps an invariant, and \<open>Collector\<close> the collector program, \<open>collector/collector.c\<close>, which serves every socket
    it was asked for or ends and leaves none open.
    \<open>Simulation\<close> is the contract of a component that implements an abstract one.

  \<^bold>\<open>How state is modelled.\<close> A struct is a record, a table a list of records, a pointer to a queue
  or handle an address into a heap that is explicit in the state; freed memory is an address that
  refers to nothing, and its use is undefined. What the kernel, the C library and other libraries
  answer (short reads, errors, times, whether a call succeeds) is an argument of the operation, so
  that the statements hold for all answers they name. A Lua script is a function from the argument
  of its \<open>loop\<close> and the engine to the engine, or an error. Threads are run in the order of
  their queues; the interleaving on one pipe is the step relation of \<open>MsgQueue\<close>.

  \<^bold>\<open>What is shown.\<close> A packed value is unpacked to its image, the bytes are those of the format, and
  the decoder never reads out of bounds and always ends. Queues are first-in first-out, messages
  of up to 4096 bytes with their header stay whole with any number of writers, and a cancelled
  queue refuses. The configuration has complete tables only, every element gets its queue and
  threads, both barriers are passed, and a run that is stopped gives everything back. Lines of an
  input file go through flywheel, input script, analyzer script and output to the output file, in
  order. The JSON encoder writes the text of a value and the decoder reads it back; the decoder
  reads no byte behind the end of its input whatever the input is. What an IPFIX exporter sends, the
  collector hands on with its template and its bytes, and the exporter's buffers and lists stay
  sound under every call; the lines written for records, and the header and template lines of the files, are
  decoded to the names and values of the record. Files, sockets, tails, timers, rotation, the web server, the responders and the commands
  do what their callers rely on. Sections \<open>What goes wrong\<close> and the lemmas named for it prove the
  defects found: undefined behaviour, lost messages and branches that are never taken.

  \<^bold>\<open>Contracts.\<close> \<open>byte_sink\<close> is met by the buffer of the encoder; \<open>msg_channel\<close> is met by the queue; \<open>message_sink\<close> by file, socket and syslog outputs;
  \<open>record_loader\<close> by the four loaders; \<open>queue_consumer\<close>, \<open>output_end\<close>, \<open>script_end\<close>, \<open>input_end\<close> and
  \<open>analyzer_end\<close> by the loops of the threads; \<open>queue_table\<close> by the three tables with queues;
  \<open>simulation\<close> by the table of global values and the table of flows.

  \<^bold>\<open>Bounds.\<close> The decoder is total with its fuel, the number of bytes left; loops that wait for the
  outside take one list element for every turn and are \<open>Blocked\<close> at its end. Sizes are those of
  \<open>param.h\<close>: 16 analyzers, 8 inputs, 4 + 2 outputs, buffers of 32768 bytes.

  The decoder of JSON has fuel that is a multiple of the length of its input and is shown never to
  run out; the depth is bounded by the limit of the code. \<open>printf\<close>, \<open>strtod\<close> and the number formats they share are arguments,
  with what the code relies on as a hypothesis. In the exporter, a socket takes what the argument
  for it says, and a message has at most \<open>IPFIX_DFLT_BUFLEN\<close> bytes.

  \<^bold>\<open>Not modelled.\<close> Log messages and thread names; the registration of the Lua libraries;
  \<open>io-dummy.c\<close>, to which nothing refers; of \<open>libipfix\<close> the setting up of SSL, connections of the exporter over SSL and
  SCTP, and the sockets that do not block; the tests and the Lua scripts.
\<close>

end
